(* ===== verification/Prelude.thy ===== *)
theory Prelude
  imports Main "HOL-Library.Word" "HOL-Library.Monad_Syntax"
begin

text \<open>
  Shared vocabulary of the development: the machine integer types of the C sources, the
  \<open>OGS_*\<close> result codes of \<open>src/lib/core/ogs-errno.h\<close>, the byte order conversions and the
  generic facts on lists, options and words that the component theories use.

  Conventions of the models.
  \<^item> A result of type \<^typ>\<open>'a option\<close> marks code that can abort: \<open>None\<close> is a failed
    \<open>ogs_assert\<close>, a null dereference or an array access outside its bounds.
  \<^item> Logging and per-IMSI packet traces have no effect on the state and are left out.
  \<^item> Time is an \<^typ>\<open>int\<close> (\<open>ogs_time_t\<close> is a signed 64-bit count of microseconds); the
    current time is an argument of the code that reads the clock.
\<close>

unbundle bit_operations_syntax

section \<open>Machine integers and result codes\<close>

type_synonym u8 = "8 word"
type_synonym u16 = "16 word"
type_synonym u32 = "32 word"
type_synonym u64 = "64 word"
type_synonym bytes = "8 word list"
type_synonym ogs_time = int

datatype ogs_rv = OGS_OK | OGS_ERROR | OGS_RETRY | OGS_TIMEUP | OGS_DONE

definition OGS_INFINITE_TIME :: ogs_time where
  "OGS_INFINITE_TIME = -1"

text \<open>Fact collections: \<open>state_simps\<close> gathers how operations act on the fields of a state,
  \<open>inv_intros\<close> the preservation lemmas of the invariants.\<close>

named_theorems state_simps
named_theorems inv_intros

section \<open>Assertions\<close>

text \<open>\<open>ogs_assert(c)\<close>: continue when \<open>c\<close> holds, abort otherwise.\<close>

definition ogs_assert :: "bool \<Rightarrow> unit option" where
  "ogs_assert c = (if c then Some () else None)"

lemma ogs_assert_bind [simp]:
  "(ogs_assert c \<bind> f) = (if c then f () else None)"
  by (simp add: ogs_assert_def)

lemma ogs_assert_eq_Some [simp]: "ogs_assert c = Some u \<longleftrightarrow> c"
  by (simp add: ogs_assert_def)

section \<open>Byte order\<close>

text \<open>\<open>htobe16\<close>, \<open>be16toh\<close>, \<open>htobe32\<close> and \<open>be32toh\<close> on a little-endian host swap the
  bytes of their argument.\<close>

definition bswap16 :: "u16 \<Rightarrow> u16" where
  "bswap16 x = push_bit 8 (take_bit 8 x) OR drop_bit 8 x"

definition bswap32 :: "u32 \<Rightarrow> u32" where
  "bswap32 x = push_bit 24 (take_bit 8 x) OR push_bit 16 (take_bit 8 (drop_bit 8 x))
     OR push_bit 8 (take_bit 8 (drop_bit 16 x)) OR drop_bit 24 x"

text \<open>The bytes of an integer in network order, as they lie in a packet.\<close>

definition be_bytes16 :: "u16 \<Rightarrow> bytes" where
  "be_bytes16 x = [ucast (drop_bit 8 x), ucast x]"

definition be_bytes32 :: "u32 \<Rightarrow> bytes" where
  "be_bytes32 x =
     [ucast (drop_bit 24 x), ucast (drop_bit 16 x), ucast (drop_bit 8 x), ucast x]"

definition be_word16 :: "u8 \<Rightarrow> u8 \<Rightarrow> u16" where
  "be_word16 a b = push_bit 8 (ucast a) OR ucast b"

definition be_word32 :: "u8 \<Rightarrow> u8 \<Rightarrow> u8 \<Rightarrow> u8 \<Rightarrow> u32" where
  "be_word32 a b c d = push_bit 24 (ucast a) OR push_bit 16 (ucast b)
     OR push_bit 8 (ucast c) OR ucast d"

lemma length_be_bytes [simp]:
  "length (be_bytes16 x) = 2" "length (be_bytes32 y) = 4"
  by (simp_all add: be_bytes16_def be_bytes32_def)

lemma bswap16_bswap16 [simp]: "bswap16 (bswap16 x) = x"
proof (rule bit_word_eqI)
  fix n assume "n < LENGTH(16)"
  then consider "n < 8" | "8 \<le> n" "n < 16" by fastforce
  then show "bit (bswap16 (bswap16 x)) n = bit x n"
    by cases (auto simp: bswap16_def bit_simps)
qed

text \<open>A word of 32 bits is read byte by byte.\<close>

lemma byte_cases32:
  assumes "n < LENGTH(32)"
  obtains "n < 8" | "8 \<le> n" "n < 16" | "16 \<le> n" "n < 24" | "24 \<le> n" "n < 32"
  using assms by fastforce

lemma bit_bswap32:
  "bit (bswap32 x) n \<longleftrightarrow> (if n < 8 then bit x (n + 24) else if n < 16 then bit x (n + 8)
     else if n < 24 then bit x (n - 8) else n < 32 \<and> bit x (n - 24))"
proof -
  consider "n < 8" | "8 \<le> n" "n < 16" | "16 \<le> n" "n < 24" | "24 \<le> n" "n < 32" | "32 \<le> n"
    by linarith
  then show ?thesis
    by cases (auto simp: bswap32_def bit_simps add.commute dest: bit_imp_le_length)
qed

lemma bswap32_bswap32 [simp]: "bswap32 (bswap32 x) = x"
proof (rule bit_word_eqI)
  fix n assume "n < LENGTH(32)"
  then show "bit (bswap32 (bswap32 x)) n = bit x n"
    by (cases rule: byte_cases32) (auto simp: bit_bswap32)
qed

lemma bswap32_eq_iff [simp]: "bswap32 x = bswap32 y \<longleftrightarrow> x = y"
  by (metis bswap32_bswap32)

lemma be_word16_bytes [simp]: "be_word16 (ucast (drop_bit 8 x)) (ucast x) = x"
proof (rule bit_word_eqI)
  fix n assume "n < LENGTH(16)"
  then consider "n < 8" | "8 \<le> n" "n < 16" by fastforce
  then show "bit (be_word16 (ucast (drop_bit 8 x)) (ucast x)) n = bit x n"
    by cases (auto simp: be_word16_def bit_simps)
qed

lemma be_word32_bytes [simp]:
  "be_word32 (ucast (drop_bit 24 x)) (ucast (drop_bit 16 x)) (ucast (drop_bit 8 x)) (ucast x) = x"
  (is "?w = x")
proof (rule bit_word_eqI)
  fix n assume "n < LENGTH(32)"
  then show "bit ?w n = bit x n"
    by (cases rule: byte_cases32) (auto simp: be_word32_def bit_simps)
qed

lemma be_bytes32_inj: "be_bytes32 x = be_bytes32 y \<longleftrightarrow> x = y"
proof
  assume "be_bytes32 x = be_bytes32 y"
  then have "be_word32 (ucast (drop_bit 24 x)) (ucast (drop_bit 16 x)) (ucast (drop_bit 8 x)) (ucast x) =
      be_word32 (ucast (drop_bit 24 y)) (ucast (drop_bit 16 y)) (ucast (drop_bit 8 y)) (ucast y)"
    by (simp add: be_bytes32_def)
  then show "x = y" by simp
qed simp

section \<open>Small words\<close>

lemma unat_of_nat32: "n < 2 ^ 32 \<Longrightarrow> unat (of_nat n :: u32) = n"
  by (simp add: unat_of_nat take_bit_nat_eq_self)

lemma mask_24: "(0xFFFFFF :: u32) = mask 24"
  by (simp add: mask_eq_exp_minus_1)

lemma drop_push_8: "drop_bit 8 (push_bit 8 (x::u32)) = x AND 0xFFFFFF"
  unfolding mask_24 by (rule bit_word_eqI) (auto simp: bit_simps)

lemma small_no_bit:
  assumes "unat (w::u32) < 2 ^ n" "n \<le> m"
  shows "\<not> bit w m"
proof
  assume "bit w m"
  then have "bit (unat w) m" by (simp add: bit_unsigned_iff bit_imp_le_length)
  moreover have "unat w < 2 ^ m" using assms power_increasing [of n m "2::nat"] by linarith
  ultimately show False by (simp add: bit_iff_odd)
qed

lemma and_mask_24:
  assumes "unat (xid::u32) < 2 ^ 24"
  shows "xid AND 0xFFFFFF = xid"
proof -
  have "n < 24" if "bit xid n" for n using small_no_bit [OF assms, of n] that by linarith
  then show ?thesis unfolding mask_24 by (intro bit_word_eqI) (auto simp: bit_simps)
qed

section \<open>Positions in a ring\<close>

lemma ring_pos_neq:
  fixes h j k n :: nat
  assumes "j < k" "k < n"
  shows "(h + j) mod n \<noteq> (h + k) mod n"
proof
  assume "(h + j) mod n = (h + k) mod n"
  then have "(k - j) mod n = 0"
    using assms by (metis add_diff_cancel_left add_le_cancel_left mod_eq_dvd_iff_nat dvd_imp_mod_0 less_imp_le_nat)
  then show False using assms by simp
qed

section \<open>Buffers\<close>

text \<open>Reading and writing an octet of a buffer of fixed size; an index outside the buffer aborts.
  \<open>c_str\<close> is the string that lies in a buffer, up to the terminating null octet.\<close>

definition buf_rd :: "bytes \<Rightarrow> nat \<Rightarrow> u8 option" where
  "buf_rd buf i = (if i < length buf then Some (buf ! i) else None)"

definition buf_wr :: "bytes \<Rightarrow> nat \<Rightarrow> u8 \<Rightarrow> bytes option" where
  "buf_wr buf i v = (if i < length buf then Some (buf[i := v]) else None)"

definition c_str :: "bytes \<Rightarrow> bytes" where
  "c_str buf = takeWhile (\<lambda>c. c \<noteq> 0) buf"

lemma buf_wr_append [simp]:
  "buf_wr (pre @ x # post) (length pre) v = Some (pre @ v # post)"
  "buf_wr pre (length pre) v = None"
  by (simp_all add: buf_wr_def)

lemma buf_rd_append [simp]:
  "buf_rd (pre @ x # post) (length pre) = Some x" "buf_rd pre (length pre) = None"
  by (simp_all add: buf_rd_def)

lemma c_str_append [simp]: "0 \<notin> set s \<Longrightarrow> c_str (s @ 0 # rest) = s"
  unfolding c_str_def by (induction s) auto

end
