(* ===== verification/Ogs_Queue.thy ===== *)
theory Ogs_Queue
  imports Prelude
begin

text \<open>
  The bounded queue of \<open>src/lib/core/ogs-queue.c\<close> that carries events between threads.

  Every operation holds \<open>one_big_mutex\<close> from its first to its last access, so an execution
  of several threads is a sequence of whole operations; the only interleaving inside an
  operation is at a condition wait. A wait is modelled by its outcome: the result of
  \<open>ogs_thread_cond_timedwait\<close>, the clock after it and the operations the other threads
  completed while the mutex was released. \<open>None\<close> as the result of a push or a pop means that
  the caller is still blocked after the given wake-ups.

  A slot holds a \<open>void *\<close>: \<open>None\<close> is the null pointer.
\<close>

section \<open>State\<close>

record 'p ogs_queue =
  q_data :: "'p option list"
  q_nelts :: nat
  q_in :: nat
  q_out :: nat
  q_bounds :: nat
  q_full_waiters :: nat
  q_empty_waiters :: nat
  q_terminated :: bool

definition ogs_queue_create :: "nat \<Rightarrow> 'p ogs_queue" where
  "ogs_queue_create capacity =
     \<lparr>q_data = replicate capacity None, q_nelts = 0, q_in = 0, q_out = 0,
      q_bounds = capacity, q_full_waiters = 0, q_empty_waiters = 0, q_terminated = False\<rparr>"

definition ogs_queue_full :: "'p ogs_queue \<Rightarrow> bool" where
  "ogs_queue_full q \<longleftrightarrow> q_nelts q = q_bounds q"

definition ogs_queue_empty :: "'p ogs_queue \<Rightarrow> bool" where
  "ogs_queue_empty q \<longleftrightarrow> q_nelts q = 0"

definition ogs_queue_size :: "'p ogs_queue \<Rightarrow> nat" where
  "ogs_queue_size q = q_nelts q"

definition ogs_queue_capacity :: "'p ogs_queue \<Rightarrow> nat" where
  "ogs_queue_capacity q = q_bounds q"

section \<open>The critical sections\<close>

text \<open>The tail of \<open>queue_push\<close>, reached with room in the queue; the flag is \<open>*was_empty\<close>.\<close>

definition queue_put :: "'p ogs_queue \<Rightarrow> 'p option \<Rightarrow> bool \<times> 'p ogs_queue" where
  "queue_put q data =
     (let was_empty = (q_nelts q = 0);
          i = q_in q + 1
      in (was_empty,
          q\<lparr>q_data := (q_data q)[q_in q := data],
            q_in := (if i \<ge> q_bounds q then i - q_bounds q else i),
            q_nelts := q_nelts q + 1\<rparr>))"

text \<open>The tail of \<open>queue_pop\<close>, reached with an element in the queue.\<close>

definition queue_take :: "'p ogs_queue \<Rightarrow> 'p option \<times> 'p ogs_queue" where
  "queue_take q =
     (let i = q_out q + 1
      in (q_data q ! q_out q,
          q\<lparr>q_nelts := q_nelts q - 1,
            q_out := (if i \<ge> q_bounds q then i - q_bounds q else i)\<rparr>))"

section \<open>Push and pop\<close>

text \<open>\<open>OGS_QUEUE_PUSH_MAX_WAIT\<close> is 20 ms, in microseconds.\<close>

definition OGS_QUEUE_PUSH_MAX_WAIT :: ogs_time where
  "OGS_QUEUE_PUSH_MAX_WAIT = 20000"

record 'p queue_wait =
  w_rv :: ogs_rv
  w_others :: "'p ogs_queue \<Rightarrow> 'p ogs_queue"
  w_now :: ogs_time

datatype 'p wait_result = Ready "'p ogs_queue" | Return ogs_rv "'p ogs_queue" | Blocked "'p ogs_queue"

text \<open>The wait loop of \<open>queue_push\<close>: \<open>now\<close> is the clock when the deadline is set.\<close>

fun push_wait ::
    "ogs_time \<Rightarrow> ogs_time \<Rightarrow> ogs_time \<Rightarrow> 'p queue_wait list \<Rightarrow> 'p ogs_queue \<Rightarrow> 'p wait_result" where
  "push_wait timeout now deadline ws q =
     (if \<not> ogs_queue_full q then Ready q
      else if timeout = 0 then Return OGS_RETRY q
      else if q_terminated q then Return OGS_DONE q
      else
        (let deadline = (if timeout < 0 \<and> deadline = 0 then now + OGS_QUEUE_PUSH_MAX_WAIT
                         else deadline)
         in case ws of
              [] \<Rightarrow> Blocked (q\<lparr>q_full_waiters := q_full_waiters q + 1\<rparr>)
            | w # ws' \<Rightarrow>
                (let q1 = w_others w (q\<lparr>q_full_waiters := q_full_waiters q + 1\<rparr>);
                     q2 = q1\<lparr>q_full_waiters := q_full_waiters q1 - 1\<rparr>
                 in if w_rv w \<noteq> OGS_OK then
                      Return (if timeout > 0 then w_rv w else OGS_RETRY) q2
                    else if ogs_queue_full q2 then
                      (if q_terminated q2 then Return OGS_DONE q2
                       else if timeout > 0 then Return OGS_ERROR q2
                       else if w_now w \<ge> deadline then Return OGS_RETRY q2
                       else push_wait timeout now deadline ws' q2)
                    else push_wait timeout now deadline ws' q2)))"

definition queue_push ::
    "ogs_time \<Rightarrow> ogs_time \<Rightarrow> 'p queue_wait list \<Rightarrow> 'p ogs_queue \<Rightarrow> 'p option \<Rightarrow>
       ogs_rv option \<times> bool option \<times> 'p ogs_queue" where
  "queue_push timeout now ws q data =
     (if q_terminated q then (Some OGS_DONE, None, q)
      else case push_wait timeout now 0 ws q of
        Ready q1 \<Rightarrow> (case queue_put q1 data of (e, q2) \<Rightarrow> (Some OGS_OK, Some e, q2))
      | Return rv q1 \<Rightarrow> (Some rv, None, q1)
      | Blocked q1 \<Rightarrow> (None, None, q1))"

definition ogs_queue_push ::
    "ogs_time \<Rightarrow> 'p queue_wait list \<Rightarrow> 'p ogs_queue \<Rightarrow> 'p option \<Rightarrow> ogs_rv option \<times> 'p ogs_queue" where
  "ogs_queue_push now ws q data =
     (case queue_push OGS_INFINITE_TIME now ws q data of (rv, e, q') \<Rightarrow> (rv, q'))"

definition ogs_queue_timedpush ::
    "ogs_time \<Rightarrow> ogs_time \<Rightarrow> 'p queue_wait list \<Rightarrow> 'p ogs_queue \<Rightarrow> 'p option \<Rightarrow>
       ogs_rv option \<times> 'p ogs_queue" where
  "ogs_queue_timedpush timeout now ws q data =
     (case queue_push timeout now ws q data of (rv, e, q') \<Rightarrow> (rv, q'))"

text \<open>The wait loop of \<open>queue_pop\<close>.\<close>

fun pop_wait :: "ogs_time \<Rightarrow> 'p queue_wait list \<Rightarrow> 'p ogs_queue \<Rightarrow> 'p wait_result" where
  "pop_wait timeout ws q =
     (if \<not> ogs_queue_empty q then Ready q
      else if timeout = 0 then Return OGS_RETRY q
      else if q_terminated q then Return OGS_DONE q
      else case ws of
             [] \<Rightarrow> Blocked (q\<lparr>q_empty_waiters := q_empty_waiters q + 1\<rparr>)
           | w # ws' \<Rightarrow>
               (let q1 = w_others w (q\<lparr>q_empty_waiters := q_empty_waiters q + 1\<rparr>);
                    q2 = q1\<lparr>q_empty_waiters := q_empty_waiters q1 - 1\<rparr>
                in if w_rv w \<noteq> OGS_OK then Return (w_rv w) q2
                   else if ogs_queue_empty q2 then
                     (if q_terminated q2 then Return OGS_DONE q2
                      else if timeout > 0 then Return OGS_ERROR q2
                      else pop_wait timeout ws' q2)
                   else pop_wait timeout ws' q2))"

definition queue_pop ::
    "ogs_time \<Rightarrow> 'p queue_wait list \<Rightarrow> 'p ogs_queue \<Rightarrow> ogs_rv option \<times> 'p option \<times> 'p ogs_queue" where
  "queue_pop timeout ws q =
     (if q_terminated q then (Some OGS_DONE, None, q)
      else case pop_wait timeout ws q of
        Ready q1 \<Rightarrow> (case queue_take q1 of (d, q2) \<Rightarrow> (Some OGS_OK, d, q2))
      | Return rv q1 \<Rightarrow> (Some rv, None, q1)
      | Blocked q1 \<Rightarrow> (None, None, q1))"

definition ogs_queue_trypush_hint ::
    "'p ogs_queue \<Rightarrow> 'p option \<Rightarrow> ogs_rv option \<times> bool option \<times> 'p ogs_queue" where
  "ogs_queue_trypush_hint q data = queue_push 0 0 [] q data"

definition ogs_queue_trypush :: "'p ogs_queue \<Rightarrow> 'p option \<Rightarrow> ogs_rv option \<times> 'p ogs_queue" where
  "ogs_queue_trypush q data = (case queue_push 0 0 [] q data of (rv, e, q') \<Rightarrow> (rv, q'))"

definition ogs_queue_pop ::
    "'p queue_wait list \<Rightarrow> 'p ogs_queue \<Rightarrow> ogs_rv option \<times> 'p option \<times> 'p ogs_queue" where
  "ogs_queue_pop ws q = queue_pop OGS_INFINITE_TIME ws q"

definition ogs_queue_trypop :: "'p ogs_queue \<Rightarrow> ogs_rv option \<times> 'p option \<times> 'p ogs_queue" where
  "ogs_queue_trypop q = queue_pop 0 [] q"

definition ogs_queue_timedpop ::
    "ogs_time \<Rightarrow> 'p queue_wait list \<Rightarrow> 'p ogs_queue \<Rightarrow> ogs_rv option \<times> 'p option \<times> 'p ogs_queue" where
  "ogs_queue_timedpop timeout ws q = queue_pop timeout ws q"

text \<open>\<open>ogs_queue_interrupt_all\<close> only broadcasts both conditions; the woken threads continue
  as described by their wait outcomes.\<close>

definition ogs_queue_interrupt_all :: "'p ogs_queue \<Rightarrow> ogs_rv \<times> 'p ogs_queue" where
  "ogs_queue_interrupt_all q = (OGS_OK, q)"

definition ogs_queue_term :: "'p ogs_queue \<Rightarrow> ogs_rv \<times> 'p ogs_queue" where
  "ogs_queue_term q = ogs_queue_interrupt_all (q\<lparr>q_terminated := True\<rparr>)"

declare push_wait.simps [simp del] pop_wait.simps [simp del]

section \<open>Runs of operations by any number of threads\<close>

datatype 'p queue_op = Push "'p option" | Pop | Term

text \<open>A run returns the data accepted by the pushes, the data handed out by the pops and the
  final queue.\<close>

fun queue_run ::
    "'p queue_op list \<Rightarrow> 'p ogs_queue \<Rightarrow> 'p option list \<times> 'p option list \<times> 'p ogs_queue" where
  "queue_run [] q = ([], [], q)"
| "queue_run (Push d # ops) q =
     (case ogs_queue_trypush q d of (rv, q') \<Rightarrow>
        case queue_run ops q' of (ins, outs, q'') \<Rightarrow>
          (if rv = Some OGS_OK then (d # ins, outs, q'') else (ins, outs, q'')))"
| "queue_run (Pop # ops) q =
     (case ogs_queue_trypop q of (rv, d, q') \<Rightarrow>
        case queue_run ops q' of (ins, outs, q'') \<Rightarrow>
          (if rv = Some OGS_OK then (ins, d # outs, q'') else (ins, outs, q'')))"
| "queue_run (Term # ops) q = queue_run ops (snd (ogs_queue_term q))"

section \<open>The contract of a bounded queue\<close>

text \<open>What a client of the queue relies on: it behaves as a list of at most \<open>cap\<close> elements
  until it is terminated.\<close>

locale bounded_fifo =
  fixes abs :: "'q \<Rightarrow> 'e list"
    and cap :: "'q \<Rightarrow> nat"
    and dead :: "'q \<Rightarrow> bool"
    and invar :: "'q \<Rightarrow> bool"
    and try_push :: "'q \<Rightarrow> 'e \<Rightarrow> ogs_rv option \<times> 'q"
    and try_pop :: "'q \<Rightarrow> ogs_rv option \<times> 'e \<times> 'q"
  assumes bounded: "invar q \<Longrightarrow> length (abs q) \<le> cap q"
    and push_dead: "invar q \<Longrightarrow> dead q \<Longrightarrow> try_push q x = (Some OGS_DONE, q)"
    and push_full: "invar q \<Longrightarrow> \<not> dead q \<Longrightarrow> length (abs q) = cap q \<Longrightarrow>
          try_push q x = (Some OGS_RETRY, q)"
    and push_room: "invar q \<Longrightarrow> \<not> dead q \<Longrightarrow> length (abs q) < cap q \<Longrightarrow>
          \<exists>q'. try_push q x = (Some OGS_OK, q') \<and> invar q' \<and> abs q' = abs q @ [x]
             \<and> cap q' = cap q \<and> \<not> dead q'"
    and pop_dead: "invar q \<Longrightarrow> dead q \<Longrightarrow> fst (try_pop q) = Some OGS_DONE \<and> snd (snd (try_pop q)) = q"
    and pop_empty: "invar q \<Longrightarrow> \<not> dead q \<Longrightarrow> abs q = [] \<Longrightarrow>
          fst (try_pop q) = Some OGS_RETRY \<and> snd (snd (try_pop q)) = q"
    and pop_some: "invar q \<Longrightarrow> \<not> dead q \<Longrightarrow> abs q = x # xs \<Longrightarrow>
          \<exists>q'. try_pop q = (Some OGS_OK, x, q') \<and> invar q' \<and> abs q' = xs
             \<and> cap q' = cap q \<and> \<not> dead q'"
begin

text \<open>One operation in the form the histories need.\<close>

lemma push_step:
  assumes "invar q" "try_push q x = (rv, q')"
  shows "invar q' \<and> cap q' = cap q \<and> dead q' = dead q
    \<and> abs q' = abs q @ (if rv = Some OGS_OK then [x] else [])
    \<and> (rv = Some OGS_OK \<longleftrightarrow> \<not> dead q \<and> length (abs q) < cap q)"
proof (cases "dead q")
  case True
  then show ?thesis using push_dead [OF assms(1)] assms by auto
next
  case False
  note b = bounded [OF assms(1)]
  show ?thesis
  proof (cases "length (abs q) = cap q")
    case True
    then show ?thesis using push_full [OF assms(1) False] assms by auto
  next
    case room: False
    then have "length (abs q) < cap q" using b by simp
    then show ?thesis using push_room [OF assms(1) False, of x] assms False by auto
  qed
qed

lemma pop_step:
  assumes "invar q" "try_pop q = (rv, d, q')"
  shows "invar q' \<and> cap q' = cap q \<and> dead q' = dead q
    \<and> abs q = (if rv = Some OGS_OK then [d] else []) @ abs q'
    \<and> (rv = Some OGS_OK \<longleftrightarrow> \<not> dead q \<and> abs q \<noteq> [])"
proof (cases "dead q")
  case True
  then show ?thesis using pop_dead [OF assms(1)] assms by auto
next
  case False
  then show ?thesis
    using pop_empty [OF assms(1)] pop_some [OF assms(1)] assms
    by (cases "abs q") fastforce+
qed

end

section \<open>The ring buffer implements the contract\<close>

definition queue_inv :: "'p ogs_queue \<Rightarrow> bool" where
  "queue_inv q \<longleftrightarrow> length (q_data q) = q_bounds q \<and> q_nelts q \<le> q_bounds q
     \<and> (0 < q_bounds q \<longrightarrow> q_out q < q_bounds q \<and> q_in q = (q_out q + q_nelts q) mod q_bounds q)"

definition queue_abs :: "'p ogs_queue \<Rightarrow> 'p option list" where
  "queue_abs q = map (\<lambda>i. q_data q ! ((q_out q + i) mod q_bounds q)) [0..<q_nelts q]"

lemma queue_inv_create [simp]: "queue_inv (ogs_queue_create n)"
  by (simp add: queue_inv_def ogs_queue_create_def)

lemma queue_create_simps [simp]:
  "queue_abs (ogs_queue_create n) = []" "q_bounds (ogs_queue_create n) = n"
  "\<not> q_terminated (ogs_queue_create n)"
  by (simp_all add: queue_abs_def ogs_queue_create_def)

lemma length_queue_abs [simp]: "length (queue_abs q) = q_nelts q"
  by (simp add: queue_abs_def)

lemma queue_waiters_simps [simp]:
  "queue_inv (q\<lparr>q_full_waiters := n\<rparr>) = queue_inv q" "queue_abs (q\<lparr>q_full_waiters := n\<rparr>) = queue_abs q"
  "queue_inv (q\<lparr>q_empty_waiters := n\<rparr>) = queue_inv q" "queue_abs (q\<lparr>q_empty_waiters := n\<rparr>) = queue_abs q"
  "queue_inv (q\<lparr>q_terminated := b\<rparr>) = queue_inv q" "queue_abs (q\<lparr>q_terminated := b\<rparr>) = queue_abs q"
  by (simp_all add: queue_inv_def queue_abs_def)

text \<open>The conditional subtraction of the source is a reduction modulo \<open>bounds\<close>.\<close>

lemma wrap_index:
  fixes i n :: nat
  assumes "i < n"
  shows "(if i + 1 \<ge> n then i + 1 - n else i + 1) = (i + 1) mod n"
  using assms by (cases "i + 1 = n") auto

lemma queue_put_spec:
  assumes inv: "queue_inv q" and room: "\<not> ogs_queue_full q" and put: "queue_put q d = (e, q')"
  shows "queue_inv q' \<and> queue_abs q' = queue_abs q @ [d] \<and> q_bounds q' = q_bounds q
    \<and> q_terminated q' = q_terminated q \<and> (e \<longleftrightarrow> queue_abs q = [])"
proof -
  let ?n = "q_bounds q"
  have lt: "q_nelts q < ?n" using inv room by (auto simp: queue_inv_def ogs_queue_full_def)
  then have pos: "0 < ?n" by simp
  have io: "q_in q = (q_out q + q_nelts q) mod ?n" and o: "q_out q < ?n" and len: "length (q_data q) = ?n"
    using inv pos by (auto simp: queue_inv_def)
  have i: "q_in q < ?n" using io pos by simp
  have q': "q' = q\<lparr>q_data := (q_data q)[q_in q := d], q_in := (q_in q + 1) mod ?n, q_nelts := q_nelts q + 1\<rparr>"
    and e: "e \<longleftrightarrow> q_nelts q = 0"
    using put wrap_index [OF i] by (auto simp: queue_put_def Let_def)
  have slot: "q_data q' ! ((q_out q + k) mod ?n) =
      (if k = q_nelts q then d else q_data q ! ((q_out q + k) mod ?n))" if "k \<le> q_nelts q" for k
  proof (cases "k = q_nelts q")
    case True then show ?thesis using q' i len io by simp
  next
    case False
    have "(q_out q + k) mod ?n \<noteq> (q_out q + q_nelts q) mod ?n"
      using False that lt by (intro ring_pos_neq) simp_all
    then show ?thesis using False q' io by simp
  qed
  have "queue_abs q' = map (\<lambda>k. q_data q' ! ((q_out q + k) mod ?n)) ([0..<q_nelts q] @ [q_nelts q])"
    by (simp add: queue_abs_def q')
  also have "\<dots> = queue_abs q @ [d]" by (simp add: queue_abs_def slot)
  finally have "queue_abs q' = queue_abs q @ [d]" .
  moreover have "queue_inv q'"
    using inv lt io by (auto simp: queue_inv_def q' mod_Suc_eq)
  moreover have "e \<longleftrightarrow> queue_abs q = []" using e by (simp add: queue_abs_def)
  ultimately show ?thesis by (simp add: q')
qed

lemma queue_take_spec:
  assumes inv: "queue_inv q" and ne: "\<not> ogs_queue_empty q" and take: "queue_take q = (d, q')"
  shows "queue_inv q' \<and> queue_abs q = d # queue_abs q' \<and> q_bounds q' = q_bounds q
    \<and> q_terminated q' = q_terminated q"
proof -
  let ?n = "q_bounds q"
  have pos: "0 < q_nelts q" "0 < ?n" using inv ne by (auto simp: queue_inv_def ogs_queue_empty_def)
  then have o: "q_out q < ?n" using inv by (simp add: queue_inv_def)
  have q': "q' = q\<lparr>q_nelts := q_nelts q - 1, q_out := (q_out q + 1) mod ?n\<rparr>" and d: "d = q_data q ! q_out q"
    using take wrap_index [OF o] by (auto simp: queue_take_def Let_def)
  have "[0..<q_nelts q] = 0 # map Suc [0..<q_nelts q - 1]"
    using pos by (simp add: map_Suc_upt upt_conv_Cons)
  then have "queue_abs q = d # queue_abs q'"
    using o by (simp add: queue_abs_def q' d mod_add_left_eq comp_def)
  moreover have "(q_out q + q_nelts q) mod ?n = ((q_out q + 1) mod ?n + (q_nelts q - 1)) mod ?n"
    using pos by (subst mod_add_left_eq) simp
  then have "queue_inv q'"
    using inv pos by (auto simp: queue_inv_def q')
  ultimately show ?thesis by (simp add: q')
qed

lemma ogs_queue_trypush_eq:
  "ogs_queue_trypush q d =
     (if q_terminated q then (Some OGS_DONE, q)
      else if ogs_queue_full q then (Some OGS_RETRY, q)
      else (Some OGS_OK, snd (queue_put q d)))"
  by (simp add: ogs_queue_trypush_def queue_push_def push_wait.simps [of 0] split: prod.splits)

lemma ogs_queue_trypush_hint_eq:
  "ogs_queue_trypush_hint q d =
     (if q_terminated q then (Some OGS_DONE, None, q)
      else if ogs_queue_full q then (Some OGS_RETRY, None, q)
      else (Some OGS_OK, Some (fst (queue_put q d)), snd (queue_put q d)))"
  by (simp add: ogs_queue_trypush_hint_def queue_push_def push_wait.simps [of 0] split: prod.splits)

lemma ogs_queue_trypop_eq:
  "ogs_queue_trypop q =
     (if q_terminated q then (Some OGS_DONE, None, q)
      else if ogs_queue_empty q then (Some OGS_RETRY, None, q)
      else (Some OGS_OK, queue_take q))"
  by (simp add: ogs_queue_trypop_def queue_pop_def pop_wait.simps [of 0] split: prod.splits)

lemma queue_empty_abs: "ogs_queue_empty q \<longleftrightarrow> queue_abs q = []"
  by (simp add: ogs_queue_empty_def queue_abs_def)

lemma queue_full_abs: "ogs_queue_full q \<longleftrightarrow> length (queue_abs q) = q_bounds q"
  by (simp add: ogs_queue_full_def)

interpretation ring: bounded_fifo queue_abs q_bounds q_terminated queue_inv
  ogs_queue_trypush ogs_queue_trypop
proof unfold_locales
  fix q :: "'p ogs_queue" and x :: "'p option" and xs
  assume inv: "queue_inv q"
  show "length (queue_abs q) \<le> q_bounds q" using inv by (simp add: queue_inv_def)
  show "q_terminated q \<Longrightarrow> ogs_queue_trypush q x = (Some OGS_DONE, q)"
    by (simp add: ogs_queue_trypush_eq)
  show "\<not> q_terminated q \<Longrightarrow> length (queue_abs q) = q_bounds q \<Longrightarrow>
      ogs_queue_trypush q x = (Some OGS_RETRY, q)"
    by (simp add: ogs_queue_trypush_eq queue_full_abs)
  show "q_terminated q \<Longrightarrow>
      fst (ogs_queue_trypop q) = Some OGS_DONE \<and> snd (snd (ogs_queue_trypop q)) = q"
    by (simp add: ogs_queue_trypop_eq)
  show "\<not> q_terminated q \<Longrightarrow> queue_abs q = [] \<Longrightarrow>
      fst (ogs_queue_trypop q) = Some OGS_RETRY \<and> snd (snd (ogs_queue_trypop q)) = q"
    by (simp add: ogs_queue_trypop_eq queue_empty_abs)
  show "\<exists>q'. ogs_queue_trypush q x = (Some OGS_OK, q') \<and> queue_inv q' \<and>
        queue_abs q' = queue_abs q @ [x] \<and> q_bounds q' = q_bounds q \<and> \<not> q_terminated q'"
    if "\<not> q_terminated q" "length (queue_abs q) < q_bounds q"
  proof -
    have room: "\<not> ogs_queue_full q" using that by (simp add: queue_full_abs)
    show ?thesis
      using that room queue_put_spec [OF inv room prod.collapse [symmetric]]
      by (intro exI [of _ "snd (queue_put q x)"]) (simp add: ogs_queue_trypush_eq)
  qed
  show "\<exists>q'. ogs_queue_trypop q = (Some OGS_OK, x, q') \<and> queue_inv q' \<and>
        queue_abs q' = xs \<and> q_bounds q' = q_bounds q \<and> \<not> q_terminated q'"
    if "\<not> q_terminated q" "queue_abs q = x # xs"
  proof -
    have ne: "\<not> ogs_queue_empty q" using that by (simp add: queue_empty_abs)
    show ?thesis
      using that ne queue_take_spec [OF inv ne prod.collapse [symmetric]]
      by (intro exI [of _ "snd (queue_take q)"]) (simp add: ogs_queue_trypop_eq prod_eq_iff)
  qed
qed

section \<open>Refinement to a list\<close>

text \<open>The specification: a list of at most \<open>cap\<close> elements and a flag that ends it.\<close>

fun fifo_run :: "nat \<Rightarrow> 'p queue_op list \<Rightarrow> bool \<Rightarrow> 'p option list \<Rightarrow>
    'p option list \<times> 'p option list \<times> 'p option list" where
  "fifo_run cap [] dead xs = ([], [], xs)"
| "fifo_run cap (Push d # ops) dead xs =
     (if \<not> dead \<and> length xs < cap
      then (case fifo_run cap ops dead (xs @ [d]) of (ins, outs, ys) \<Rightarrow> (d # ins, outs, ys))
      else fifo_run cap ops dead xs)"
| "fifo_run cap (Pop # ops) dead xs =
     (case xs of
        [] \<Rightarrow> fifo_run cap ops dead []
      | x # xs' \<Rightarrow>
          (if dead then fifo_run cap ops dead xs
           else (case fifo_run cap ops dead xs' of (ins, outs, ys) \<Rightarrow> (ins, x # outs, ys))))"
| "fifo_run cap (Term # ops) dead xs = fifo_run cap ops True xs"

lemma ogs_queue_term_simps [simp]:
  "queue_inv (snd (ogs_queue_term q)) = queue_inv q"
  "queue_abs (snd (ogs_queue_term q)) = queue_abs q"
  "q_bounds (snd (ogs_queue_term q)) = q_bounds q"
  "q_terminated (snd (ogs_queue_term q))"
  by (simp_all add: ogs_queue_term_def ogs_queue_interrupt_all_def)

lemma queue_run_refines:
  "queue_inv q \<Longrightarrow> queue_run ops q = (ins, outs, q') \<Longrightarrow>
     queue_inv q' \<and> q_bounds q' = q_bounds q \<and>
     fifo_run (q_bounds q) ops (q_terminated q) (queue_abs q) = (ins, outs, queue_abs q')"
proof (induction ops q arbitrary: ins outs q' rule: queue_run.induct)
  case (1 q)
  then show ?case by simp
next
  case (2 d ops q)
  obtain rv q1 where p: "ogs_queue_trypush q d = (rv, q1)" by (cases "ogs_queue_trypush q d")
  obtain is' os' q2 where r: "queue_run ops q1 = (is', os', q2)" by (cases "queue_run ops q1")
  note s = ring.push_step [OF \<open>queue_inv q\<close> p]
  note ih = "2.IH" [OF p [symmetric] _ r]
  show ?case
    using "2.prems" p r s ih by (cases "rv = Some OGS_OK") auto
next
  case (3 ops q)
  obtain rv d q1 where p: "ogs_queue_trypop q = (rv, d, q1)" by (cases "ogs_queue_trypop q")
  obtain is' os' q2 where r: "queue_run ops q1 = (is', os', q2)" by (cases "queue_run ops q1")
  note s = ring.pop_step [OF \<open>queue_inv q\<close> p]
  note ih = "3.IH" [OF p [symmetric] refl _ r]
  show ?case
  proof (cases "rv = Some OGS_OK")
    case True
    with s have "queue_abs q = d # queue_abs q1" "\<not> q_terminated q" by auto
    then show ?thesis using "3.prems" p r s ih True by simp
  next
    case False
    with s have eq: "queue_abs q1 = queue_abs q" and c: "q_terminated q \<or> queue_abs q = []"
      and f: "queue_inv q1" "q_bounds q1 = q_bounds q" "q_terminated q1 = q_terminated q" by auto
    show ?thesis using "3.prems"(2) p r ih [OF f(1)] False f(2,3) c
      by (auto simp: eq split: list.splits)
  qed
next
  case (4 ops q)
  then show ?case by simp
qed

lemma fifo_run_order:
  "length xs \<le> cap \<Longrightarrow> fifo_run cap ops dead xs = (ins, outs, ys) \<Longrightarrow>
     xs @ ins = outs @ ys \<and> length ys \<le> cap"
  by (induction cap ops dead xs arbitrary: ins outs ys rule: fifo_run.induct)
     (auto split: if_splits list.splits prod.splits)

text \<open>C1. Whatever operations any number of threads perform on a fresh queue, in any order,
  the ring buffer accepts and hands out exactly what a list of the queue's capacity does:
  the data popped followed by the data still queued are the data accepted, in order, and the
  number of queued elements never passes the capacity.\<close>

theorem queue_run_is_fifo:
  "case queue_run ops (ogs_queue_create n) of (ins, outs, q) \<Rightarrow>
     fifo_run n ops False [] = (ins, outs, queue_abs q)
       \<and> ins = outs @ queue_abs q \<and> ogs_queue_size q \<le> n"
proof (cases "queue_run ops (ogs_queue_create n :: 'a ogs_queue)")
  case (fields ins outs q)
  from queue_run_refines [OF queue_inv_create fields]
  have f: "fifo_run n ops False [] = (ins, outs, queue_abs q)" by simp
  from fifo_run_order [OF _ f] show ?thesis
    using f fields by (auto simp: ogs_queue_size_def)
qed

section \<open>Blocking calls\<close>

text \<open>The other threads only run queue operations, so they keep the invariant.\<close>

definition others_ok :: "'p queue_wait list \<Rightarrow> bool" where
  "others_ok ws \<longleftrightarrow> (\<forall>w\<in>set ws. \<forall>q. queue_inv q \<longrightarrow> queue_inv (w_others w q))"

lemma others_ok_run:
  assumes "\<forall>w\<in>set ws. \<exists>ops. w_others w = (\<lambda>q. snd (snd (queue_run ops q)))"
  shows "others_ok ws"
  unfolding others_ok_def
  using assms queue_run_refines by (metis prod.collapse)

lemma push_wait_spec:
  "queue_inv q \<Longrightarrow> others_ok ws \<Longrightarrow>
     (case push_wait timeout now dl ws q of
        Ready q1 \<Rightarrow> queue_inv q1 \<and> \<not> ogs_queue_full q1
      | Return rv q1 \<Rightarrow> queue_inv q1 \<and> rv \<noteq> OGS_OK
      | Blocked q1 \<Rightarrow> queue_inv q1 \<and> timeout \<noteq> 0)"
proof (induction ws arbitrary: dl q)
  case Nil
  then show ?case by (simp add: push_wait.simps [of _ _ _ "[]"])
next
  case (Cons w ws)
  then have "others_ok ws" and "queue_inv (w_others w (q\<lparr>q_full_waiters := Suc (q_full_waiters q)\<rparr>))"
    by (simp_all add: others_ok_def)
  with Cons show ?case
    by (simp add: push_wait.simps [of _ _ _ "w # ws"] Let_def)
qed

lemma pop_wait_spec:
  "queue_inv q \<Longrightarrow> others_ok ws \<Longrightarrow>
     (case pop_wait timeout ws q of
        Ready q1 \<Rightarrow> queue_inv q1 \<and> \<not> ogs_queue_empty q1
      | Return rv q1 \<Rightarrow> queue_inv q1 \<and> rv \<noteq> OGS_OK
      | Blocked q1 \<Rightarrow> queue_inv q1 \<and> timeout \<noteq> 0)"
proof (induction ws arbitrary: q)
  case Nil
  then show ?case by (simp add: pop_wait.simps [of _ "[]"])
next
  case (Cons w ws)
  then have "others_ok ws" and "queue_inv (w_others w (q\<lparr>q_empty_waiters := Suc (q_empty_waiters q)\<rparr>))"
    by (simp_all add: others_ok_def)
  with Cons show ?case
    by (simp add: pop_wait.simps [of _ "w # ws"] Let_def)
qed

text \<open>C2. A push that may wait never corrupts or overfills the queue, whatever the other
  threads do meanwhile: when it returns \<open>OGS_OK\<close> its datum is the last element of the queue
  and the hint says whether the queue was empty before it; in every case the ring buffer stays
  well-formed.\<close>

theorem queue_push_blocking:
  assumes "queue_inv q" and "others_ok ws"
    and "queue_push timeout now ws q d = (rv, e, q')"
  shows "queue_inv q' \<and>
    (rv = Some OGS_OK \<longrightarrow> (\<exists>xs. queue_abs q' = xs @ [d] \<and> length xs < q_bounds q' \<and> e = Some (xs = [])))"
proof (cases "q_terminated q")
  case True
  then show ?thesis using assms by (auto simp: queue_push_def)
next
  case False
  note w = push_wait_spec [OF assms(1,2), of timeout now 0]
  show ?thesis
  proof (cases "push_wait timeout now 0 ws q")
    case (Ready q1)
    then have q1: "queue_inv q1" "\<not> ogs_queue_full q1" using w by simp_all
    obtain e1 q2 where put: "queue_put q1 d = (e1, q2)" by (cases "queue_put q1 d")
    from queue_put_spec [OF q1 put] q1 show ?thesis
      using assms(3) False Ready put ring.bounded [of q1]
      by (auto simp: queue_push_def queue_full_abs le_less)
  qed (use assms False w in \<open>auto simp: queue_push_def\<close>)
qed

theorem queue_push_blocking_witness:
  "let q = snd (ogs_queue_trypush (ogs_queue_create 1) (Some (7::nat)));
       ws = [\<lparr>w_rv = OGS_OK, w_others = (\<lambda>q. snd (snd (queue_run [Pop] q))), w_now = 5\<rparr>];
       r = queue_push OGS_INFINITE_TIME 0 ws q (Some 8)
   in fst r = Some OGS_OK \<and> queue_abs (snd (snd r)) = [Some 8] \<and> queue_inv (snd (snd r))"
proof -
  let ?q = "snd (ogs_queue_trypush (ogs_queue_create 1) (Some (7::nat)))"
  let ?ws = "[\<lparr>w_rv = OGS_OK, w_others = (\<lambda>q. snd (snd (queue_run [Pop] q))), w_now = 5\<rparr>]"
  let ?r = "queue_push OGS_INFINITE_TIME 0 ?ws ?q (Some 8)"
  have inv: "queue_inv ?q" using ring.push_step [OF queue_inv_create [of 1] prod.collapse [symmetric], of "Some (7::nat)"] by simp
  have ok: "others_ok ?ws" by (rule others_ok_run) (simp del: queue_run.simps, blast)
  have "fst ?r = Some OGS_OK \<and> queue_abs (snd (snd ?r)) = [Some 8]"
    by code_simp
  moreover have "?r = (fst ?r, fst (snd ?r), snd (snd ?r))" by (simp only: prod.collapse)
  from queue_push_blocking [OF inv ok this] have "queue_inv (snd (snd ?r))" by blast
  ultimately show ?thesis unfolding Let_def by blast
qed

text \<open>C3. The nominally infinite push is bounded: once a wake-up fails or the clock has passed
  the deadline of 20 ms, the call has returned.\<close>

theorem queue_push_bounded_wait:
  assumes "\<exists>w\<in>set ws. w_rv w \<noteq> OGS_OK \<or> now + OGS_QUEUE_PUSH_MAX_WAIT \<le> w_now w"
  shows "fst (ogs_queue_push now ws q d) \<noteq> None"
proof -
  have "\<exists>w\<in>set ws. w_rv w \<noteq> OGS_OK \<or> now + OGS_QUEUE_PUSH_MAX_WAIT \<le> w_now w \<Longrightarrow>
      dl = 0 \<or> dl = now + OGS_QUEUE_PUSH_MAX_WAIT \<Longrightarrow>
      \<nexists>q1. push_wait OGS_INFINITE_TIME now dl ws q = Blocked q1" for dl
  proof (induction ws arbitrary: dl q)
    case (Cons w ws)
    have unblocked: "push_wait OGS_INFINITE_TIME now dl ws q \<noteq> Blocked q1"
      if "\<not> ogs_queue_full q" for dl ws q and q1 :: "'a ogs_queue"
      using that by (subst push_wait.simps) simp
    from Cons show ?case
      by (auto simp: push_wait.simps [of _ _ _ "w # ws"] Let_def OGS_INFINITE_TIME_def
          OGS_QUEUE_PUSH_MAX_WAIT_def unblocked [unfolded OGS_INFINITE_TIME_def])
  qed simp
  from this [OF assms, of 0]
  show ?thesis
    by (auto simp: ogs_queue_push_def queue_push_def split: wait_result.splits prod.splits)
qed

theorem queue_push_bounded_wait_witness:
  "let q = snd (ogs_queue_trypush (ogs_queue_create 1) (Some (7::nat)));
       ws = [\<lparr>w_rv = OGS_OK, w_others = id, w_now = 30000\<rparr>]
   in ogs_queue_full q \<and> fst (ogs_queue_push 10000 ws q (Some 8)) \<noteq> None"
proof -
  let ?q = "snd (ogs_queue_trypush (ogs_queue_create 1) (Some (7::nat)))"
  let ?ws = "[\<lparr>w_rv = OGS_OK, w_others = id, w_now = 30000\<rparr>] :: nat queue_wait list"
  have full: "ogs_queue_full ?q" by code_simp
  have late: "\<exists>w\<in>set ?ws. w_rv w \<noteq> OGS_OK \<or> 10000 + OGS_QUEUE_PUSH_MAX_WAIT \<le> w_now w"
    by (simp add: OGS_QUEUE_PUSH_MAX_WAIT_def)
  from full queue_push_bounded_wait [OF late, of ?q "Some 8"] show ?thesis
    unfolding Let_def by blast
qed

section \<open>The contract with the emptiness hint\<close>

text \<open>\<open>ogs_queue_trypush_hint\<close> also reports whether the queue was empty before the push.\<close>

locale hinted_fifo = bounded_fifo abs cap dead invar try_push try_pop
  for abs :: "'q \<Rightarrow> 'e list" and cap dead invar
    and try_push :: "'q \<Rightarrow> 'e \<Rightarrow> ogs_rv option \<times> 'q" and try_pop +
  fixes push_hint :: "'q \<Rightarrow> 'e \<Rightarrow> ogs_rv option \<times> bool option \<times> 'q"
  assumes hint_push: "invar q \<Longrightarrow> push_hint q x = (rv, h, q') \<Longrightarrow> try_push q x = (rv, q')"
    and hint_empty: "invar q \<Longrightarrow> push_hint q x = (rv, h, q') \<Longrightarrow>
          h = (if rv = Some OGS_OK then Some (abs q = []) else None)"
begin

lemma hint_step:
  assumes "invar q" "push_hint q x = (rv, h, q')"
  shows "invar q' \<and> cap q' = cap q \<and> dead q' = dead q
    \<and> abs q' = abs q @ (if rv = Some OGS_OK then [x] else [])
    \<and> (rv = Some OGS_OK \<longleftrightarrow> \<not> dead q \<and> length (abs q) < cap q)
    \<and> h = (if rv = Some OGS_OK then Some (abs q = []) else None)"
  using push_step [OF assms(1) hint_push [OF assms]] hint_empty [OF assms] by blast

text \<open>A full queue is never empty unless its capacity is zero, so a retry needs no wake-up.\<close>

lemma retry_not_empty:
  assumes "invar q" "push_hint q x = (Some OGS_RETRY, h, q')" "0 < cap q"
  shows "abs q \<noteq> []"
  using hint_step [OF assms(1,2)] push_dead [OF assms(1)] hint_push [OF assms(1,2)] assms(3) by auto

end

interpretation hinted: hinted_fifo queue_abs q_bounds q_terminated queue_inv
  ogs_queue_trypush ogs_queue_trypop ogs_queue_trypush_hint
proof unfold_locales
  fix q q' :: "'p ogs_queue" and x rv h
  assume inv: "queue_inv q" and p: "ogs_queue_trypush_hint q x = (rv, h, q')"
  show "ogs_queue_trypush q x = (rv, q')"
    using p by (auto simp: ogs_queue_trypush_hint_eq ogs_queue_trypush_eq split: if_splits)
  show "h = (if rv = Some OGS_OK then Some (queue_abs q = []) else None)"
  proof (cases "q_terminated q \<or> ogs_queue_full q")
    case True
    then show ?thesis using p by (auto simp: ogs_queue_trypush_hint_eq split: if_splits)
  next
    case False
    then show ?thesis
      using p queue_put_spec [OF inv _ prod.collapse [symmetric], of x]
      by (auto simp: ogs_queue_trypush_hint_eq)
  qed
qed

end
