(* ===== verification/Ogs_Worker.thy ===== *)
theory Ogs_Worker
  imports Ogs_Queue
begin

text \<open>
  The SMP worker runtime of \<open>src/lib/core/ogs-worker.c\<close> and \<open>ogs-worker.h\<close>: the shard ids
  embedded in protocol identifiers, and the hand-over of events from producers to a worker
  thread.

  A producer's \<open>ogs_worker_post\<close> is two atomic actions, the push under the queue mutex and,
  when the queue was empty, the eventfd write; the worker's loop is a poll that consumes the
  eventfd, then pops until the queue reports \<open>OGS_RETRY\<close>. The step relation interleaves the
  actions of any number of producers with those of the worker.
\<close>

section \<open>Shard ids\<close>

definition OGS_MAX_WORKERS :: nat where
  "OGS_MAX_WORKERS = 16"

definition OGS_WORKER_ID_BITS :: nat where
  "OGS_WORKER_ID_BITS = 4"

text \<open>\<open>worker_self\<close> is \<open>None\<close> on the main thread and the id of the worker otherwise.\<close>

definition ogs_worker_self_id :: "nat option \<Rightarrow> nat" where
  "ogs_worker_self_id worker_self = (case worker_self of Some wid \<Rightarrow> wid + 1 | None \<Rightarrow> 0)"

text \<open>The guard of \<open>ogs_worker_create\<close> on the worker id.\<close>

definition worker_id_ok :: "nat \<Rightarrow> bool" where
  "worker_id_ok wid \<longleftrightarrow> wid < OGS_MAX_WORKERS - 1"

definition ogs_worker_shard_encode :: "nat \<Rightarrow> u32 \<Rightarrow> nat \<Rightarrow> u32" where
  "ogs_worker_shard_encode wid sq bits =
     push_bit (bits - OGS_WORKER_ID_BITS) (of_nat wid)
     OR (sq AND (push_bit (bits - OGS_WORKER_ID_BITS) 1 - 1))"

definition ogs_worker_shard_decode :: "u32 \<Rightarrow> nat \<Rightarrow> u32" where
  "ogs_worker_shard_decode val bits =
     drop_bit (bits - OGS_WORKER_ID_BITS) val AND (push_bit OGS_WORKER_ID_BITS 1 - 1)"

section \<open>Posting and draining\<close>

datatype worker_pc = Polling | Draining | Finished

record 'e worker =
  wk_queue :: "'e ogs_queue"
  wk_notified :: bool
  wk_pc :: worker_pc
  wk_posters :: nat
  wk_accepted :: "'e list"
  wk_dispatched :: "'e list"

text \<open>\<open>ogs_worker_post\<close>: its result, whether it goes on to \<open>ogs_pollset_notify\<close>, and the queue.
  \<open>None\<close> stands for a null worker or a null event.\<close>

definition ogs_worker_post ::
    "'e ogs_queue option \<Rightarrow> 'e option \<Rightarrow> ogs_rv option \<times> bool \<times> 'e ogs_queue option" where
  "ogs_worker_post worker event =
     (case worker of
        None \<Rightarrow> (Some OGS_ERROR, False, None)
      | Some q \<Rightarrow>
          (case event of
             None \<Rightarrow> (Some OGS_ERROR, False, Some q)
           | Some e \<Rightarrow>
               (case ogs_queue_trypush_hint q (Some e) of (rv, was_empty, q') \<Rightarrow>
                  if rv \<noteq> Some OGS_OK then (rv, False, Some q')
                  else (Some OGS_OK, was_empty = Some True, Some q'))))"

text \<open>One round of the drain loop of \<open>worker_main\<close>.\<close>

definition worker_drain :: "'e worker \<Rightarrow> 'e worker option" where
  "worker_drain w =
     (case ogs_queue_trypop (wk_queue w) of (rv, event, q') \<Rightarrow>
        if rv = Some OGS_ERROR then None
        else if rv = Some OGS_DONE then Some (w\<lparr>wk_queue := q', wk_pc := Finished\<rparr>)
        else if rv = Some OGS_RETRY then Some (w\<lparr>wk_queue := q', wk_pc := Polling\<rparr>)
        else case event of
          None \<Rightarrow> None
        | Some e \<Rightarrow> Some (w\<lparr>wk_queue := q', wk_dispatched := wk_dispatched w @ [e]\<rparr>))"

definition ogs_worker_create :: "nat \<Rightarrow> nat \<Rightarrow> 'e worker option" where
  "ogs_worker_create wid event_capacity =
     (if worker_id_ok wid
      then Some \<lparr>wk_queue = ogs_queue_create event_capacity, wk_notified = False, wk_pc = Polling,
                 wk_posters = 0, wk_accepted = [], wk_dispatched = []\<rparr>
      else None)"

text \<open>\<open>wk_accepted\<close> records the posts that returned \<open>OGS_OK\<close>, \<open>wk_posters\<close> the producers that
  have pushed onto an empty queue and not yet written the eventfd.\<close>

inductive worker_step :: "'e worker \<Rightarrow> 'e worker \<Rightarrow> bool" where
  post: "ogs_worker_post (Some (wk_queue w)) (Some e) = (rv, wake, Some q') \<Longrightarrow>
     worker_step w (w\<lparr>wk_queue := q', wk_posters := wk_posters w + (if wake then 1 else 0),
       wk_accepted := wk_accepted w @ (if rv = Some OGS_OK then [e] else [])\<rparr>)"
| notify: "0 < wk_posters w \<Longrightarrow>
     worker_step w (w\<lparr>wk_posters := wk_posters w - 1, wk_notified := True\<rparr>)"
| poll: "wk_pc w = Polling \<Longrightarrow> worker_step w (w\<lparr>wk_notified := False, wk_pc := Draining\<rparr>)"
| drain: "wk_pc w = Draining \<Longrightarrow> worker_drain w = Some w' \<Longrightarrow> worker_step w w'"
| shutdown: "worker_step w (w\<lparr>wk_queue := snd (ogs_queue_term (wk_queue w)), wk_notified := True\<rparr>)"

inductive worker_reachable :: "'e worker \<Rightarrow> bool" where
  start: "ogs_worker_create wid n = Some w \<Longrightarrow> worker_reachable w"
| step: "worker_reachable w \<Longrightarrow> worker_step w w' \<Longrightarrow> worker_reachable w'"

section \<open>Shard ids are recovered\<close>

lemma one_bits_mask: "push_bit k (1::u32) - 1 = mask k"
  by (simp add: mask_eq_exp_minus_1 push_bit_of_1)

lemma shard_decode_encode:
  assumes "wid < OGS_MAX_WORKERS" and "OGS_WORKER_ID_BITS \<le> bits" and "bits \<le> 32"
  shows "ogs_worker_shard_decode (ogs_worker_shard_encode wid sq bits) bits = of_nat wid"
proof (rule bit_word_eqI)
  fix n assume n: "n < LENGTH(32)"
  have "take_bit 4 wid = wid" using assms(1) by (simp add: OGS_MAX_WORKERS_def take_bit_eq_mod)
  then have small: "bit wid n \<Longrightarrow> n < 4" by (metis bit_take_bit_iff)
  have k: "OGS_WORKER_ID_BITS = 4" "bits - 4 + n < bits - 4 \<longleftrightarrow> False" "bits - 4 \<le> 28" "4 \<le> bits"
    using assms(2,3) by (simp_all add: OGS_WORKER_ID_BITS_def)
  have "bit (take_bit 4 (drop_bit (bits - 4)
      (push_bit (bits - 4) (of_nat wid) OR take_bit (bits - 4) sq))) n = bit (of_nat wid :: u32) n"
    using k(2-) n small by (auto simp: bit_take_bit_iff bit_drop_bit_eq bit_or_iff bit_push_bit_iff
        bit_of_nat_iff)
  then show "bit (ogs_worker_shard_decode (ogs_worker_shard_encode wid sq bits) bits) n
      = bit (of_nat wid :: u32) n"
    unfolding ogs_worker_shard_decode_def ogs_worker_shard_encode_def one_bits_mask k(1)
    by (simp only: take_bit_eq_mask)
qed

text \<open>C4. The shard id embedded in a protocol identifier is the one that routing extracts, for
  every worker that \<open>ogs_worker_create\<close> accepts and for the main thread, and two threads never
  compose the same identifier.\<close>

theorem shard_ids_disjoint:
  assumes "OGS_WORKER_ID_BITS \<le> bits" and "bits \<le> 32"
    and "\<forall>i\<in>{self1, self2}. case i of Some wid \<Rightarrow> worker_id_ok wid | None \<Rightarrow> True"
  shows "ogs_worker_shard_decode (ogs_worker_shard_encode (ogs_worker_self_id self1) sq1 bits) bits
      = of_nat (ogs_worker_self_id self1)
    \<and> (ogs_worker_shard_encode (ogs_worker_self_id self1) sq1 bits
       = ogs_worker_shard_encode (ogs_worker_self_id self2) sq2 bits \<longrightarrow> self1 = self2)"
proof -
  have lt: "ogs_worker_self_id s < OGS_MAX_WORKERS" if "s \<in> {self1, self2}" for s
    using assms(3) that
    by (auto simp: ogs_worker_self_id_def worker_id_ok_def OGS_MAX_WORKERS_def split: option.splits)
  have inj: "self1 = self2"
    if "(of_nat (ogs_worker_self_id self1) :: u32) = of_nat (ogs_worker_self_id self2)"
  proof -
    have "ogs_worker_self_id s < 2 ^ LENGTH(32)" if "s \<in> {self1, self2}" for s
      using lt [OF that] by (simp add: OGS_MAX_WORKERS_def)
    then have "ogs_worker_self_id self1 = ogs_worker_self_id self2"
      using arg_cong [OF that, of unat] by (simp add: unat_of_nat)
    then show ?thesis by (auto simp: ogs_worker_self_id_def split: option.splits)
  qed
  show ?thesis
    using shard_decode_encode [OF lt assms(1,2)] inj by (metis insertCI)
qed

theorem shard_ids_disjoint_witness:
  "ogs_worker_shard_decode (ogs_worker_shard_encode (ogs_worker_self_id (Some 2)) 77 32) 32
     = of_nat (ogs_worker_self_id (Some 2))
   \<and> ogs_worker_shard_encode (ogs_worker_self_id (Some 2)) 77 32
     \<noteq> ogs_worker_shard_encode (ogs_worker_self_id None) 77 32"
  using shard_ids_disjoint [of 32 "Some 2" None 77 77]
  by (auto simp: OGS_WORKER_ID_BITS_def worker_id_ok_def OGS_MAX_WORKERS_def)

section \<open>No lost wake-up\<close>

inductive_cases worker_stepE: "worker_step w w'"

definition worker_inv :: "'e worker \<Rightarrow> bool" where
  "worker_inv w \<longleftrightarrow> queue_inv (wk_queue w)
     \<and> map Some (wk_accepted w) = map Some (wk_dispatched w) @ queue_abs (wk_queue w)
     \<and> (wk_pc w = Polling \<longrightarrow> queue_abs (wk_queue w) \<noteq> [] \<longrightarrow> wk_notified w \<or> 0 < wk_posters w)"

lemma worker_inv_create: "ogs_worker_create wid n = Some w \<Longrightarrow> worker_inv w"
  by (auto simp: ogs_worker_create_def worker_inv_def split: if_splits)

lemma worker_post_spec:
  assumes "queue_inv q" and "ogs_worker_post (Some q) (Some e) = (rv, wake, Some q')"
  shows "queue_inv q' \<and> queue_abs q' = queue_abs q @ (if rv = Some OGS_OK then [Some e] else [])
    \<and> (wake \<longleftrightarrow> rv = Some OGS_OK \<and> queue_abs q = [])"
proof -
  obtain rv0 h q0 where p: "ogs_queue_trypush_hint q (Some e) = (rv0, h, q0)"
    by (cases "ogs_queue_trypush_hint q (Some e)")
  from hinted.hint_step [OF assms(1) p] show ?thesis
    using assms(2) p by (auto simp: ogs_worker_post_def split: if_splits)
qed

lemma worker_drain_inv:
  assumes inv: "worker_inv w" and d: "worker_drain w = Some w'" and pc: "wk_pc w = Draining"
  shows "worker_inv w'"
proof -
  obtain rv e q where p: "ogs_queue_trypop (wk_queue w) = (rv, e, q)"
    by (cases "ogs_queue_trypop (wk_queue w)")
  have qi: "queue_inv (wk_queue w)" using inv by (simp add: worker_inv_def)
  note s = ring.pop_step [OF qi p]
  have retry: "queue_abs (wk_queue w) = []" if "rv = Some OGS_RETRY"
    using p that by (auto simp: ogs_queue_trypop_eq queue_empty_abs split: if_splits)
  consider "rv = Some OGS_DONE" "w' = w\<lparr>wk_queue := q, wk_pc := Finished\<rparr>"
    | "rv = Some OGS_RETRY" "w' = w\<lparr>wk_queue := q, wk_pc := Polling\<rparr>"
    | e' where "rv = Some OGS_OK" "e = Some e'"
        "w' = w\<lparr>wk_queue := q, wk_dispatched := wk_dispatched w @ [e']\<rparr>"
    using d p by (auto simp: worker_drain_def ogs_queue_trypop_eq split: if_splits option.splits)
  then show ?thesis
  proof cases
    case 1
    then show ?thesis using inv s by (simp add: worker_inv_def)
  next
    case 2
    then show ?thesis using inv s retry by (simp add: worker_inv_def)
  next
    case 3
    have "queue_inv q" "queue_abs (wk_queue w) = Some e' # queue_abs q"
      using s 3(1,2) by simp_all
    then show ?thesis using inv pc 3(3) by (simp add: worker_inv_def)
  qed
qed

lemma worker_step_inv: "worker_step w w' \<Longrightarrow> worker_inv w \<Longrightarrow> worker_inv w'"
proof (induction rule: worker_step.induct)
  case (post w e rv wake q')
  then have "queue_inv (wk_queue w)" by (simp add: worker_inv_def)
  from worker_post_spec [OF this post.hyps] post.prems show ?case
    by (auto simp: worker_inv_def)
next
  case (drain w w')
  then show ?case by (blast intro: worker_drain_inv)
qed (auto simp: worker_inv_def)

lemma worker_reachable_inv: "worker_reachable w \<Longrightarrow> worker_inv w"
  by (induction rule: worker_reachable.induct) (auto intro: worker_inv_create worker_step_inv)

text \<open>C5. In every reachable state of producers and worker, a worker that sleeps in the poll
  while events are queued has its wake-up written or about to be written, and the events
  accepted by the posts are the events dispatched followed by the events queued, in order:
  none is lost, duplicated or reordered.\<close>

theorem worker_no_lost_wakeup:
  assumes "worker_reachable w"
  shows "(wk_pc w = Polling \<and> queue_abs (wk_queue w) \<noteq> [] \<longrightarrow> wk_notified w \<or> 0 < wk_posters w)
    \<and> map Some (wk_accepted w) = map Some (wk_dispatched w) @ queue_abs (wk_queue w)"
  using worker_reachable_inv [OF assms] by (auto simp: worker_inv_def)

theorem worker_no_lost_wakeup_witness:
  "\<exists>w. worker_reachable w \<and> wk_pc w = Polling \<and> queue_abs (wk_queue w) = [Some (1::nat)]
     \<and> 0 < wk_posters w"
proof -
  let ?q = "snd (ogs_queue_trypush (ogs_queue_create 4) (Some (1::nat)))"
  let ?start = "\<lparr>wk_queue = ogs_queue_create 4, wk_notified = False, wk_pc = Polling,
    wk_posters = 0, wk_accepted = [], wk_dispatched = []\<rparr> :: nat worker"
  let ?w = "?start\<lparr>wk_queue := ?q, wk_posters := 1, wk_accepted := [1]\<rparr>"
  have c: "ogs_worker_create 0 4 = Some ?start"
    unfolding ogs_worker_create_def worker_id_ok_def OGS_MAX_WORKERS_def by simp
  have "ogs_worker_post (Some (ogs_queue_create 4)) (Some (1::nat)) = (Some OGS_OK, True, Some ?q)"
    by (simp add: ogs_worker_post_def ogs_queue_trypush_hint_eq ogs_queue_trypush_eq
        ogs_queue_create_def ogs_queue_full_def queue_put_def)
  then have "worker_step ?start ?w" using worker_step.post [of ?start 1] by fastforce
  then have r: "worker_reachable ?w"
    by (rule worker_reachable.step [OF worker_reachable.start [OF c]])
  have "queue_abs ?q = [Some 1]" by code_simp
  with r worker_no_lost_wakeup [OF r] show ?thesis by (intro exI [of _ ?w]) simp
qed

section \<open>Slices of an id space\<close>

lemma self_id_bound:
  assumes "case self of Some wid \<Rightarrow> worker_id_ok wid | None \<Rightarrow> True"
  shows "ogs_worker_self_id self < 16"
  using assms by (cases self) (simp_all add: ogs_worker_self_id_def worker_id_ok_def OGS_MAX_WORKERS_def)

text \<open>The ids of a shard: with \<open>2^k\<close> ids per shard, an id is the shard's base plus a sequence number
  below \<open>2^k\<close>.\<close>

lemma shard_bits:
  fixes w :: u32
  assumes "unat w < 2 ^ k" "i < 16" "k + 4 < 32"
  shows "drop_bit k (of_nat i * 2 ^ k + w) AND (push_bit OGS_WORKER_ID_BITS 1 - 1) = of_nat i"
    "unat (of_nat i * 2 ^ k + w) = i * 2 ^ k + unat w"
proof -
  have le: "i * 2 ^ k + unat w < 16 * 2 ^ k"
  proof -
    have "i * 2 ^ k \<le> 15 * 2 ^ k" using assms(2) by (intro mult_right_mono) auto
    then show ?thesis using assms(1) by linarith
  qed
  have p: "(16::nat) * 2 ^ k < 2 ^ 32"
  proof -
    have "(2::nat) ^ (k + 4) < 2 ^ 32" using assms(3) by (intro power_strict_increasing) auto
    then show ?thesis by (simp add: power_add)
  qed
  have e: "of_nat i * 2 ^ k + w = word_of_nat (i * 2 ^ k + unat w)" by simp
  show u: "unat (of_nat i * 2 ^ k + w) = i * 2 ^ k + unat w"
    unfolding e by (rule unat_of_nat32) (use le p in linarith)
  have "unat (drop_bit k (of_nat i * 2 ^ k + w)) = i"
    unfolding unat_drop_bit_eq u using assms(1) by (simp add: drop_bit_eq_div)
  then have d: "drop_bit k (of_nat i * 2 ^ k + w) = of_nat i" by (metis of_nat_unat ucast_id)
  have "(of_nat i :: u32) AND mask 4 = of_nat i"
  proof -
    have "take_bit 4 (of_nat i :: u32) = of_nat i"
      using assms(2) by (simp add: take_bit_of_nat take_bit_nat_eq_self)
    then show ?thesis by (simp add: take_bit_eq_mask)
  qed
  then show "drop_bit k (of_nat i * 2 ^ k + w) AND (push_bit OGS_WORKER_ID_BITS 1 - 1) = of_nat i"
    using d by (simp add: OGS_WORKER_ID_BITS_def mask_eq_exp_minus_1 push_bit_of_1)
qed

text \<open>The sequence number that the next transaction of a shard gets, before the base of the shard is
  added: it stays within the slice of the shard.\<close>

lemma shard_offset:
  fixes c :: u32
  assumes "0 < k" "k < 28" "mn \<le> 1" "i < 16"
  shows "unat (if of_nat i * 2 ^ k + c mod 2 ^ k < mn then mn - of_nat i * 2 ^ k else c mod 2 ^ k) < 2 ^ k"
proof -
  let ?base = "of_nat i * 2 ^ k :: u32"
  let ?r = "c mod 2 ^ k"
  have two: "unat (2 ^ k :: u32) = 2 ^ k"
  proof -
    have "(2 ^ k :: u32) = word_of_nat (2 ^ k)" by simp
    moreover have "(2::nat) ^ k < 2 ^ 32" using assms(2) by (intro power_strict_increasing) auto
    ultimately show ?thesis by (metis unat_of_nat32)
  qed
  have r: "unat ?r < 2 ^ k" by (simp add: unat_mod two)
  show ?thesis
  proof (cases "?base + ?r < mn")
    case True
    then have "mn = 1" "?base + ?r = 0" using assms(3) by (auto simp: unat_arith_simps)
    then have "unat (?base + ?r) = 0" by simp
    then have "i * 2 ^ k + unat ?r = 0" using shard_bits(2) [OF r assms(4)] assms(2) by simp
    then have "i = 0" by simp
    moreover have "(1::nat) < 2 ^ k" using assms(1) by (rule one_less_power [rotated]) simp
    ultimately show ?thesis using True \<open>mn = 1\<close> by simp
  qed (use r in simp)
qed

end
