(* ===== verification/Ogs_Hash.thy ===== *)
theory Ogs_Hash
  imports Prelude
begin

text \<open>
  The chained hash table of \<open>src/lib/core/ogs-hash.c\<close>: buckets, the \<open>times 33\<close> hash, entry
  search and insertion at the end of a chain, removal, doubling of the bucket array, ownership
  checked removal, clearing and iteration. The table is shown to implement a finite map on
  byte strings for every seed and every custom hash function.

  A chain is a list of entries. The table keeps a pointer to the key, not a copy; the model
  keeps the bytes, so it describes tables whose keys are stable while they are stored. The
  values are non-null pointers; \<open>None\<close> is \<open>NULL\<close>. The recycled entries are represented by
  their number.
\<close>

section \<open>State\<close>

record 'v hash_entry =
  he_hash :: u32
  he_key :: bytes
  he_val :: 'v

record 'v ogs_hash =
  h_array :: "'v hash_entry list list"
  h_count :: nat
  h_max :: nat
  h_seed :: u32
  h_func :: "(bytes \<Rightarrow> u32) option"
  h_free :: nat

text \<open>A key argument is either memory of a given length or a zero-terminated string
  (\<open>OGS_HASH_KEY_STRING\<close>), of which the bytes before the terminator count.\<close>

datatype hkey = Key_Mem bytes | Key_String bytes

fun key_bytes :: "hkey \<Rightarrow> bytes" where
  "key_bytes (Key_Mem bs) = bs"
| "key_bytes (Key_String bs) = takeWhile (\<lambda>b. b \<noteq> 0) bs"

text \<open>\<open>ogs_assert(klen)\<close>: a length of zero aborts, \<open>OGS_HASH_KEY_STRING\<close> is \<open>-1\<close>.\<close>

fun klen_ok :: "hkey \<Rightarrow> bool" where
  "klen_ok (Key_Mem bs) \<longleftrightarrow> bs \<noteq> []"
| "klen_ok (Key_String bs) \<longleftrightarrow> True"

definition INITIAL_MAX :: nat where
  "INITIAL_MAX = 15"

text \<open>\<open>calloc(max + 1, ...)\<close>, where \<open>max + 1\<close> is computed at 32 bits.\<close>

definition alloc_array :: "nat \<Rightarrow> 'v hash_entry list list" where
  "alloc_array mx = replicate ((mx + 1) mod 2 ^ 32) []"

text \<open>The seed mixes the clock and addresses; it is an argument here.\<close>

definition ogs_hash_make :: "u32 \<Rightarrow> 'v ogs_hash" where
  "ogs_hash_make seed =
     \<lparr>h_array = alloc_array INITIAL_MAX, h_count = 0, h_max = INITIAL_MAX, h_seed = seed,
      h_func = None, h_free = 0\<rparr>"

definition ogs_hash_make_custom :: "u32 \<Rightarrow> (bytes \<Rightarrow> u32) \<Rightarrow> 'v ogs_hash" where
  "ogs_hash_make_custom seed f = (ogs_hash_make seed)\<lparr>h_func := Some f\<rparr>"

section \<open>Iteration\<close>

record 'v hash_index =
  hi_this :: "'v hash_entry option"
  hi_next :: "'v hash_entry list"
  hi_index :: nat

text \<open>\<open>hi_next\<close> is the rest of the chain; \<open>None\<close> ends the iteration.\<close>

function ogs_hash_next :: "'v ogs_hash \<Rightarrow> 'v hash_index \<Rightarrow> 'v hash_index option" where
  "ogs_hash_next ht hi =
     (case hi_next hi of
        e # es \<Rightarrow> Some (hi\<lparr>hi_this := Some e, hi_next := es\<rparr>)
      | [] \<Rightarrow>
          if hi_index hi > h_max ht then None
          else ogs_hash_next ht (hi\<lparr>hi_next := h_array ht ! hi_index hi, hi_index := hi_index hi + 1\<rparr>))"
  by pat_completeness auto
termination
  by (relation "measure (\<lambda>(ht, hi). h_max ht + 1 - hi_index hi)") auto

declare ogs_hash_next.simps [simp del]

definition ogs_hash_first :: "'v ogs_hash \<Rightarrow> 'v hash_index option" where
  "ogs_hash_first ht = ogs_hash_next ht \<lparr>hi_this = None, hi_next = [], hi_index = 0\<rparr>"

text \<open>The entries a loop \<open>for (hi = ogs_hash_first(ht); hi; hi = ogs_hash_next(hi))\<close> visits.
  The fuel counts the rounds; the number of entries plus one is enough.\<close>

fun hash_loop :: "nat \<Rightarrow> 'v ogs_hash \<Rightarrow> 'v hash_index option \<Rightarrow> 'v hash_entry list option" where
  "hash_loop fuel ht None = Some []"
| "hash_loop 0 ht (Some hi) = None"
| "hash_loop (Suc fuel) ht (Some hi) =
     (case hi_this hi of
        None \<Rightarrow> None
      | Some e \<Rightarrow> map_option ((#) e) (hash_loop fuel ht (ogs_hash_next ht hi)))"

definition hash_visit :: "'v ogs_hash \<Rightarrow> 'v hash_entry list option" where
  "hash_visit ht = hash_loop (length (concat (h_array ht)) + 1) ht (ogs_hash_first ht)"

section \<open>Search, insertion and removal\<close>

definition hashfunc_default :: "bytes \<Rightarrow> u32 \<Rightarrow> u32" where
  "hashfunc_default key hash = foldl (\<lambda>h p. h * 33 + ucast p) hash key"

definition hash_of :: "'v ogs_hash \<Rightarrow> bytes \<Rightarrow> u32" where
  "hash_of ht key = (case h_func ht of Some f \<Rightarrow> f key | None \<Rightarrow> hashfunc_default key (h_seed ht))"

text \<open>The bucket of a hash value, \<open>hash & max\<close>.\<close>

definition bucket :: "nat \<Rightarrow> u32 \<Rightarrow> nat" where
  "bucket mx h = unat (h AND of_nat mx)"

text \<open>The position of the matching entry in a chain, or the length of the chain.\<close>

fun scan_chain :: "u32 \<Rightarrow> bytes \<Rightarrow> 'v hash_entry list \<Rightarrow> nat" where
  "scan_chain h key [] = 0"
| "scan_chain h key (e # es) =
     (if he_hash e = h \<and> length (he_key e) = length key \<and> he_key e = key then 0
      else Suc (scan_chain h key es))"

text \<open>\<open>find_entry\<close>: the table, and the chain and position that \<open>hep\<close> points to.\<close>

definition find_entry :: "'v ogs_hash \<Rightarrow> bytes \<Rightarrow> 'v option \<Rightarrow> 'v ogs_hash \<times> nat \<times> nat" where
  "find_entry ht key val =
     (let hash = hash_of ht key;
          i = bucket (h_max ht) hash;
          chain = h_array ht ! i;
          j = scan_chain hash key chain
      in case val of
           None \<Rightarrow> (ht, i, j)
         | Some v \<Rightarrow>
             (if j < length chain then (ht, i, j)
              else (ht\<lparr>h_array := (h_array ht)[i := chain @ [\<lparr>he_hash = hash, he_key = key, he_val = v\<rparr>]],
                       h_free := h_free ht - 1, h_count := h_count ht + 1\<rparr>, i, j)))"

definition expand_array :: "'v ogs_hash \<Rightarrow> 'v ogs_hash option" where
  "expand_array ht =
     (let new_max = (h_max ht * 2 + 1) mod 2 ^ 32
      in map_option
           (\<lambda>es. ht\<lparr>h_array := foldl (\<lambda>arr e. let i = bucket new_max (he_hash e) in arr[i := e # arr ! i])
                                  (alloc_array new_max) es,
                    h_max := new_max\<rparr>)
           (hash_visit ht))"

definition ogs_hash_get :: "'v ogs_hash \<Rightarrow> hkey \<Rightarrow> 'v option option" where
  "ogs_hash_get ht key =
     do { ogs_assert (klen_ok key);
          let (ht', i, j) = find_entry ht (key_bytes key) None;
          Some (if j < length (h_array ht' ! i) then Some (he_val (h_array ht' ! i ! j)) else None) }"

definition ogs_hash_set :: "'v ogs_hash \<Rightarrow> hkey \<Rightarrow> 'v option \<Rightarrow> 'v ogs_hash option" where
  "ogs_hash_set ht key val =
     do { ogs_assert (klen_ok key);
          let (ht', i, j) = find_entry ht (key_bytes key) val;
          let chain = h_array ht' ! i;
          if j < length chain
          then (case val of
                  None \<Rightarrow> Some (ht'\<lparr>h_array := (h_array ht')[i := take j chain @ drop (Suc j) chain],
                                   h_free := h_free ht' + 1, h_count := h_count ht' - 1\<rparr>)
                | Some v \<Rightarrow>
                    let ht'' = ht'\<lparr>h_array := (h_array ht')[i := chain[j := (chain ! j)\<lparr>he_val := v\<rparr>]]\<rparr>
                    in if h_count ht'' > h_max ht'' then expand_array ht'' else Some ht'')
          else Some ht' }"

definition ogs_hash_get_or_set ::
    "'v ogs_hash \<Rightarrow> hkey \<Rightarrow> 'v option \<Rightarrow> ('v option \<times> 'v ogs_hash) option" where
  "ogs_hash_get_or_set ht key val =
     do { ogs_assert (klen_ok key);
          let (ht', i, j) = find_entry ht (key_bytes key) val;
          let chain = h_array ht' ! i;
          if j < length chain
          then let v = he_val (chain ! j)
               in if h_count ht' > h_max ht' then map_option (\<lambda>h. (Some v, h)) (expand_array ht')
                  else Some (Some v, ht')
          else Some (None, ht') }"

definition ogs_hash_unset_if_owner ::
    "'v ogs_hash \<Rightarrow> hkey \<Rightarrow> 'v \<Rightarrow> (bool \<times> 'v ogs_hash) option" where
  "ogs_hash_unset_if_owner ht key owner =
     do { ogs_assert (klen_ok key);
          indexed \<leftarrow> ogs_hash_get ht key;
          if indexed = Some owner
          then do { ht' \<leftarrow> ogs_hash_set ht key None; Some (True, ht') }
          else Some (False, ht) }"

definition ogs_hash_count :: "'v ogs_hash \<Rightarrow> nat" where
  "ogs_hash_count ht = h_count ht"

definition ogs_hash_clear :: "'v ogs_hash \<Rightarrow> 'v ogs_hash" where
  "ogs_hash_clear ht =
     ht\<lparr>h_array := map (\<lambda>_. []) (h_array ht),
        h_free := h_free ht + length (concat (h_array ht)), h_count := 0\<rparr>"

text \<open>\<open>ogs_hash_do\<close>: the callback is called on each entry until it returns zero; the state \<open>r\<close> is
  the record it is given.\<close>

fun hash_do_loop :: "('r \<Rightarrow> bytes \<Rightarrow> 'v \<Rightarrow> int \<times> 'r) \<Rightarrow> 'v hash_entry list \<Rightarrow> 'r \<Rightarrow> int \<times> 'r" where
  "hash_do_loop cb [] r = (1, r)"
| "hash_do_loop cb (e # es) r =
     (case cb r (he_key e) (he_val e) of (rv, r') \<Rightarrow>
        if rv = 0 then (0, r') else hash_do_loop cb es r')"

definition ogs_hash_do ::
    "('r \<Rightarrow> bytes \<Rightarrow> 'v \<Rightarrow> int \<times> 'r) \<Rightarrow> 'r \<Rightarrow> 'v ogs_hash \<Rightarrow> (int \<times> 'r) option" where
  "ogs_hash_do cb r ht = map_option (\<lambda>es. hash_do_loop cb es r) (hash_visit ht)"

section \<open>Invariant and abstraction\<close>

abbreviation kvs :: "'v hash_entry list \<Rightarrow> (bytes \<times> 'v) list" where
  "kvs es \<equiv> map (\<lambda>e. (he_key e, he_val e)) es"

definition chain_ok :: "'v ogs_hash \<Rightarrow> nat \<Rightarrow> bool" where
  "chain_ok ht i \<longleftrightarrow>
     (\<forall>e \<in> set (h_array ht ! i). he_hash e = hash_of ht (he_key e) \<and> bucket (h_max ht) (hash_of ht (he_key e)) = i)
     \<and> distinct (map he_key (h_array ht ! i))"

definition hash_inv :: "'v ogs_hash \<Rightarrow> bool" where
  "hash_inv ht \<longleftrightarrow> h_max ht + 1 < 2 ^ 32 \<and> length (h_array ht) = h_max ht + 1
     \<and> (\<forall>i \<le> h_max ht. chain_ok ht i)
     \<and> h_count ht = length (concat (h_array ht))"

text \<open>The bucket array doubles when there are more entries than buckets; its size stays within
  32 bits while the table has fewer than \<open>2^31 - 2\<close> entries.\<close>

definition hash_room :: "'v ogs_hash \<Rightarrow> bool" where
  "hash_room ht \<longleftrightarrow> h_count ht < 2 ^ 31 - 2"

definition chain_of :: "'v ogs_hash \<Rightarrow> bytes \<Rightarrow> 'v hash_entry list" where
  "chain_of ht k = h_array ht ! bucket (h_max ht) (hash_of ht k)"

text \<open>The map that a table stands for: all its entries, wherever they are stored.\<close>

definition hash_map :: "'v ogs_hash \<Rightarrow> bytes \<rightharpoonup> 'v" where
  "hash_map ht = map_of (kvs (concat (h_array ht)))"

lemma bucket_le: "bucket mx h \<le> mx" if "mx < 2 ^ 32"
proof -
  have "bucket mx h \<le> unat (of_nat mx :: u32)"
    unfolding bucket_def using word_and_le1 [of h "of_nat mx"] by (simp add: word_le_nat_alt)
  also have "\<dots> = mx"
    using that by (simp add: unat_of_nat take_bit_eq_mod)
  finally show ?thesis .
qed

lemma hash_inv_bucket:
  assumes "hash_inv ht"
  shows "bucket (h_max ht) h < length (h_array ht)" "bucket (h_max ht) h \<le> h_max ht"
proof -
  have "h_max ht < 2 ^ 32" "length (h_array ht) = h_max ht + 1"
    using assms by (simp_all add: hash_inv_def)
  then show "bucket (h_max ht) h < length (h_array ht)" "bucket (h_max ht) h \<le> h_max ht"
    using bucket_le [of "h_max ht" h] by simp_all
qed

lemma hash_of_cong [simp]:
  "hash_of (ht\<lparr>h_array := a\<rparr>) = hash_of ht"
  "hash_of (ht\<lparr>h_count := c\<rparr>) = hash_of ht"
  "hash_of (ht\<lparr>h_max := m\<rparr>) = hash_of ht"
  "hash_of (ht\<lparr>h_free := f\<rparr>) = hash_of ht"
  by (rule ext, simp add: hash_of_def split: option.split)+

section \<open>Chains\<close>

abbreviation pos :: "bytes \<Rightarrow> 'v hash_entry list \<Rightarrow> nat" where
  "pos k es \<equiv> length (takeWhile (\<lambda>e. he_key e \<noteq> k) es)"

lemma scan_chain_pos:
  "\<forall>e \<in> set es. he_hash e = hf (he_key e) \<Longrightarrow> scan_chain (hf k) k es = pos k es"
  by (induction es) auto

lemma pos_less: "pos k es < length es \<longleftrightarrow> k \<in> he_key ` set es"
  by (induction es) auto

lemma pos_eq: "k \<notin> he_key ` set es \<Longrightarrow> pos k es = length es"
  by (induction es) auto

lemma pos_append: "k \<notin> he_key ` set es \<Longrightarrow> he_key e = k \<Longrightarrow> pos k (es @ [e]) = pos k es"
  by (induction es) auto

lemma he_key_pos: "k \<in> he_key ` set es \<Longrightarrow> he_key (es ! pos k es) = k"
  by (induction es) auto

lemma map_of_pos:
  "map_of (kvs es) k = (if pos k es < length es then Some (he_val (es ! pos k es)) else None)"
  by (induction es) auto

lemma map_of_chain_update:
  "k \<in> he_key ` set es \<Longrightarrow>
     map_of (kvs (es[pos k es := (es ! pos k es)\<lparr>he_val := v\<rparr>])) = (map_of (kvs es))(k \<mapsto> v)"
  by (induction es) (auto simp: fun_eq_iff)

lemma map_of_chain_delete:
  "distinct (map he_key es) \<Longrightarrow>
     map_of (kvs (take (pos k es) es @ drop (Suc (pos k es)) es)) = (map_of (kvs es))(k := None)"
proof (induction es)
  case (Cons e es)
  then show ?case
    by (cases "he_key e = k") (auto simp: fun_eq_iff map_of_eq_None_iff image_image)
qed simp

lemma map_of_chain_append:
  "k \<notin> he_key ` set es \<Longrightarrow> he_key e = k \<Longrightarrow>
     map_of (kvs (es @ [e])) = (map_of (kvs es))(k \<mapsto> he_val e)"
  by (induction es) (auto simp: fun_eq_iff)

lemma map_key_chain_update:
  "map he_key (es[j := (es ! j)\<lparr>he_val := v\<rparr>]) = map he_key es"
  by (cases "j < length es") (simp_all add: map_update list_update_same_conv list_update_beyond)

section \<open>Buckets and the whole table\<close>

lemma in_bucket:
  assumes "hash_inv ht" "i \<le> h_max ht" "e \<in> set (h_array ht ! i)"
  shows "he_hash e = hash_of ht (he_key e)" "bucket (h_max ht) (hash_of ht (he_key e)) = i"
proof -
  have "chain_ok ht i" using assms(1,2) by (simp add: hash_inv_def)
  then show "he_hash e = hash_of ht (he_key e)" "bucket (h_max ht) (hash_of ht (he_key e)) = i"
    using assms(3) by (auto simp: chain_ok_def)
qed

lemma chain_of_entries:
  assumes "hash_inv ht" "e \<in> set (concat (h_array ht))"
  shows "e \<in> set (chain_of ht (he_key e))" "he_hash e = hash_of ht (he_key e)"
proof -
  obtain i where i: "i < length (h_array ht)" "e \<in> set (h_array ht ! i)"
    using assms(2) unfolding set_concat by (metis UN_E in_set_conv_nth)
  then have le: "i \<le> h_max ht" using assms(1) by (simp add: hash_inv_def)
  show "e \<in> set (chain_of ht (he_key e))" "he_hash e = hash_of ht (he_key e)"
    using in_bucket [OF assms(1) le i(2)] i(2) by (simp_all add: chain_of_def)
qed

lemma chain_of_subset: "hash_inv ht \<Longrightarrow> set (chain_of ht k) \<subseteq> set (concat (h_array ht))"
  using hash_inv_bucket [of ht "hash_of ht k"] by (fastforce simp: chain_of_def)

lemma map_of_distinct_keys_eq:
  assumes "distinct (map fst xs)" "distinct (map fst ys)"
    and "\<And>v. (k, v) \<in> set xs \<longleftrightarrow> (k, v) \<in> set ys"
  shows "map_of xs k = map_of ys k"
proof (cases "map_of xs k")
  case None
  then have "\<forall>v. (k, v) \<notin> set ys" using assms(3) by (force simp: map_of_eq_None_iff)
  then have "map_of ys k = None" by (metis map_of_SomeD option.exhaust)
  then show ?thesis using None by simp
next
  case (Some v)
  then have "(k, v) \<in> set ys" using assms(3) map_of_SomeD by fastforce
  then show ?thesis using Some assms(2) by simp
qed

lemma distinct_concat_blocks:
  assumes "\<And>i. i < length xss \<Longrightarrow> distinct (map f (xss ! i))"
    and "\<And>i j. i < length xss \<Longrightarrow> j < length xss \<Longrightarrow> i \<noteq> j \<Longrightarrow>
          f ` set (xss ! i) \<inter> f ` set (xss ! j) = {}"
  shows "distinct (map f (concat xss))"
  using assms
proof (induction xss)
  case (Cons xs xss)
  have "distinct (map f (concat xss))"
  proof (rule Cons.IH)
    show "distinct (map f (xss ! i))" if "i < length xss" for i
      using Cons.prems(1) [of "Suc i"] that by simp
    show "f ` set (xss ! i) \<inter> f ` set (xss ! j) = {}"
      if "i < length xss" "j < length xss" "i \<noteq> j" for i j
      using Cons.prems(2) [of "Suc i" "Suc j"] that by simp
  qed
  moreover have "f ` set xs \<inter> f ` set (concat xss) = {}"
  proof -
    have "f ` set xs \<inter> f ` set (xss ! j) = {}" if "j < length xss" for j
      using Cons.prems(2) [of 0 "Suc j"] that by simp
    then show ?thesis by (fastforce simp: in_set_conv_nth)
  qed
  moreover have "distinct (map f xs)" using Cons.prems(1) [of 0] by simp
  ultimately show ?case by auto
qed simp

lemma hash_keys_distinct:
  assumes "hash_inv ht"
  shows "distinct (map he_key (concat (h_array ht)))"
proof (rule distinct_concat_blocks)
  show "distinct (map he_key (h_array ht ! i))" if "i < length (h_array ht)" for i
    using assms that by (auto simp: hash_inv_def chain_ok_def)
next
  fix i j assume "i < length (h_array ht)" "j < length (h_array ht)" "i \<noteq> j"
  then show "he_key ` set (h_array ht ! i) \<inter> he_key ` set (h_array ht ! j) = {}"
    using assms in_bucket(2) [OF assms, of i] in_bucket(2) [OF assms, of j]
    by (fastforce simp: hash_inv_def)
qed

text \<open>Looking a key up in its bucket is looking it up in the whole table.\<close>

lemma hash_map_chain:
  assumes "hash_inv ht"
  shows "hash_map ht k = map_of (kvs (chain_of ht k)) k"
  unfolding hash_map_def
proof (rule map_of_distinct_keys_eq)
  show "distinct (map fst (kvs (concat (h_array ht))))"
    using hash_keys_distinct [OF assms] by (simp add: comp_def)
  show "distinct (map fst (kvs (chain_of ht k)))"
    using assms hash_inv_bucket(2) [OF assms, of "hash_of ht k"]
    by (simp add: hash_inv_def chain_ok_def chain_of_def comp_def)
  show "(k, v) \<in> set (kvs (concat (h_array ht))) \<longleftrightarrow> (k, v) \<in> set (kvs (chain_of ht k))" for v
    using chain_of_entries(1) [OF assms] chain_of_subset [OF assms, of k] by fastforce
qed

section \<open>Iteration visits every entry once\<close>

definition hash_rest :: "'v ogs_hash \<Rightarrow> 'v hash_index \<Rightarrow> 'v hash_entry list" where
  "hash_rest ht hi = hi_next hi @ concat (drop (hi_index hi) (h_array ht))"

lemma ogs_hash_next_rest:
  assumes "length (h_array ht) = h_max ht + 1"
  shows "case ogs_hash_next ht hi of
           None \<Rightarrow> hash_rest ht hi = []
         | Some hi' \<Rightarrow> \<exists>e. hi_this hi' = Some e \<and> hash_rest ht hi = e # hash_rest ht hi'"
  using assms
proof (induction ht hi rule: ogs_hash_next.induct)
  case (1 ht hi)
  show ?case
  proof (cases "hi_next hi")
    case (Cons e es)
    then show ?thesis by (simp add: ogs_hash_next.simps [of ht hi] hash_rest_def)
  next
    case Nil
    show ?thesis
    proof (cases "hi_index hi > h_max ht")
      case True
      then show ?thesis using Nil 1(2) by (simp add: ogs_hash_next.simps [of ht hi] hash_rest_def)
    next
      case False
      let ?hi = "hi\<lparr>hi_next := h_array ht ! hi_index hi, hi_index := hi_index hi + 1\<rparr>"
      have "hash_rest ht hi = hash_rest ht ?hi"
        using Nil False 1(2) Cons_nth_drop_Suc [of "hi_index hi" "h_array ht", symmetric]
        by (simp add: hash_rest_def)
      moreover have "ogs_hash_next ht hi = ogs_hash_next ht ?hi"
        using Nil False by (simp add: ogs_hash_next.simps [of ht hi])
      ultimately show ?thesis using 1(1) [OF Nil False 1(2)] by metis
    qed
  qed
qed

lemma hash_loop_next:
  assumes "length (h_array ht) = h_max ht + 1"
  shows "length (hash_rest ht hi) \<le> fuel \<Longrightarrow>
           hash_loop fuel ht (ogs_hash_next ht hi) = Some (hash_rest ht hi)"
proof (induction fuel arbitrary: hi)
  case 0
  then show ?case using ogs_hash_next_rest [OF assms, of hi] by (auto split: option.splits)
next
  case (Suc fuel)
  show ?case
  proof (cases "ogs_hash_next ht hi")
    case None
    then show ?thesis using ogs_hash_next_rest [OF assms, of hi] by simp
  next
    case (Some hi')
    then obtain e where "hi_this hi' = Some e" "hash_rest ht hi = e # hash_rest ht hi'"
      using ogs_hash_next_rest [OF assms, of hi] by auto
    then show ?thesis using Some Suc by simp
  qed
qed

lemma hash_visit_all:
  assumes "length (h_array ht) = h_max ht + 1"
  shows "hash_visit ht = Some (concat (h_array ht))"
  using hash_loop_next [OF assms, of "\<lparr>hi_this = None, hi_next = [], hi_index = 0\<rparr>"
      "length (concat (h_array ht)) + 1"]
  by (simp add: hash_visit_def ogs_hash_first_def hash_rest_def)

section \<open>Replacing one chain\<close>

lemma length_concat_update:
  "i < length xss \<Longrightarrow> length (concat (xss[i := xs])) + length (xss ! i) = length (concat xss) + length xs"
  by (induction xss arbitrary: i) (auto simp: less_Suc_eq_0_disj split: nat.split)

lemma chain_replace:
  assumes inv: "hash_inv ht"
    and arr: "h_array ht' = (h_array ht)[bucket (h_max ht) (hash_of ht k) := es]"
    and same: "h_max ht' = h_max ht" "hash_of ht' = hash_of ht"
    and cnt: "h_count ht' + length (chain_of ht k) = h_count ht + length es"
    and ok: "\<forall>e \<in> set es. he_hash e = hash_of ht (he_key e)
               \<and> bucket (h_max ht) (hash_of ht (he_key e)) = bucket (h_max ht) (hash_of ht k)"
    and dist: "distinct (map he_key es)"
    and upd: "map_of (kvs es) = (map_of (kvs (chain_of ht k)))(k := r)"
  shows "hash_inv ht'" "hash_map ht' = (hash_map ht)(k := r)"
proof -
  let ?i = "bucket (h_max ht) (hash_of ht k)"
  have i: "?i < length (h_array ht)" by (rule hash_inv_bucket(1) [OF inv])
  show inv': "hash_inv ht'"
    unfolding hash_inv_def
  proof (intro conjI allI impI)
    show "chain_ok ht' j" if "j \<le> h_max ht'" for j
    proof -
      have "chain_ok ht j" using that inv by (simp add: hash_inv_def same)
      then show ?thesis using ok dist i by (cases "j = ?i") (simp_all add: chain_ok_def arr same)
    qed
    show "h_count ht' = length (concat (h_array ht'))"
      using cnt inv length_concat_update [OF i, of es]
      unfolding arr chain_of_def hash_inv_def by linarith
  qed (use inv in \<open>simp_all add: hash_inv_def arr same\<close>)
  show "hash_map ht' = (hash_map ht)(k := r)"
  proof
    fix k'
    have chain': "chain_of ht' k' =
        (if bucket (h_max ht) (hash_of ht k') = ?i then es else chain_of ht k')"
      using i by (simp add: chain_of_def arr same)
    have "chain_of ht k' = chain_of ht k" if "bucket (h_max ht) (hash_of ht k') = ?i"
      using that by (simp add: chain_of_def)
    then show "hash_map ht' k' = ((hash_map ht)(k := r)) k'"
      using upd by (auto simp: hash_map_chain [OF inv] hash_map_chain [OF inv'] chain')
  qed
qed

lemma chain_of_ok:
  assumes "hash_inv ht"
  shows "\<forall>e \<in> set (chain_of ht k). he_hash e = hash_of ht (he_key e)
           \<and> bucket (h_max ht) (hash_of ht (he_key e)) = bucket (h_max ht) (hash_of ht k)"
    and "distinct (map he_key (chain_of ht k))"
proof -
  have "chain_ok ht (bucket (h_max ht) (hash_of ht k))"
    using assms hash_inv_bucket(2) [OF assms, of "hash_of ht k"] by (simp add: hash_inv_def)
  then show "\<forall>e \<in> set (chain_of ht k). he_hash e = hash_of ht (he_key e)
      \<and> bucket (h_max ht) (hash_of ht (he_key e)) = bucket (h_max ht) (hash_of ht k)"
    "distinct (map he_key (chain_of ht k))"
    by (simp_all add: chain_ok_def chain_of_def)
qed

lemma chain_of_pos:
  assumes "hash_inv ht"
  shows "scan_chain (hash_of ht k) k (chain_of ht k) = pos k (chain_of ht k)"
  using chain_of_ok(1) [OF assms] by (intro scan_chain_pos) auto

lemma hash_map_pos:
  assumes "hash_inv ht"
  shows "hash_map ht k = (if pos k (chain_of ht k) < length (chain_of ht k)
           then Some (he_val (chain_of ht k ! pos k (chain_of ht k))) else None)"
  by (simp add: hash_map_chain [OF assms] map_of_pos)

section \<open>Growing the bucket array\<close>

lemma foldl_buckets:
  assumes "\<And>e. e \<in> set es \<Longrightarrow> b e < length arr"
  shows "length (foldl (\<lambda>a e. let i = b e in a[i := e # a ! i]) arr es) = length arr"
    and "i < length arr \<Longrightarrow>
      foldl (\<lambda>a e. let i = b e in a[i := e # a ! i]) arr es ! i
        = rev (filter (\<lambda>e. b e = i) es) @ arr ! i"
  using assms
proof (induction es arbitrary: arr)
  case (Cons e es)
  { case 1 then show ?case using Cons(1) [of "arr[b e := e # arr ! b e]"] by (simp add: Let_def)
  next case 2 then show ?case
      using Cons(2) [of "arr[b e := e # arr ! b e]"] by (auto simp: Let_def nth_list_update) }
qed simp_all

lemma keys_split: "distinct (map he_key es) \<Longrightarrow> distinct (map he_key (rev (filter P es)))"
  by (simp add: distinct_map inj_on_def)

abbreviation rehash :: "('e \<Rightarrow> nat) \<Rightarrow> nat \<Rightarrow> 'e list \<Rightarrow> 'e list list" where
  "rehash b n es \<equiv> foldl (\<lambda>a e. let i = b e in a[i := e # a ! i]) (replicate n []) es"

lemma rebucket:
  fixes es :: "'e list"
  assumes b: "\<And>e. b e < n"
  defines "arr \<equiv> rehash b n es"
  shows "length arr = n"
    and "i < n \<Longrightarrow> arr ! i = rev (filter (\<lambda>e. b e = i) es)"
    and "set (concat arr) = set es"
proof -
  have less: "b e < length (replicate n [])" for e using b by simp
  show len: "length arr = n" unfolding arr_def using foldl_buckets(1) [where b = b, OF less] by simp
  show nth: "arr ! i = rev (filter (\<lambda>e. b e = i) es)" if "i < n" for i
    unfolding arr_def using foldl_buckets(2) [where b = b, OF less, where i = i] that by simp
  have "e \<in> set (concat arr)" if "e \<in> set es" for e
  proof -
    have "e \<in> set (arr ! b e)" "b e < length arr" using that nth [OF b] len b by simp_all
    then show ?thesis using nth_mem by force
  qed
  moreover have "e \<in> set es" if e: "e \<in> set (concat arr)" for e
  proof -
    obtain i where "i < length arr" "e \<in> set (arr ! i)"
      using e unfolding set_concat by (metis UN_E in_set_conv_nth)
    then show ?thesis using nth [of i] len by auto
  qed
  ultimately show "set (concat arr) = set es" by blast
qed

lemma rebucket_distinct:
  assumes b: "\<And>e. b e < n" and dist: "distinct (map he_key es)"
    and key: "\<And>e e'. e \<in> set es \<Longrightarrow> e' \<in> set es \<Longrightarrow> he_key e = he_key e' \<Longrightarrow> b e = b e'"
  shows "distinct (map he_key (concat (rehash b n es)))"
proof (rule distinct_concat_blocks)
  show "distinct (map he_key (rehash b n es ! i))" if "i < length (rehash b n es)" for i
  proof -
    have "rehash b n es ! i = rev (filter (\<lambda>e. b e = i) es)"
      using that rebucket(1) [where b = b and es = es, OF b] by (intro rebucket(2) [where b = b, OF b]) simp
    then show ?thesis using keys_split [OF dist] by simp
  qed
  show "he_key ` set (rehash b n es ! i) \<inter> he_key ` set (rehash b n es ! j) = {}"
    if "i < length (rehash b n es)" "j < length (rehash b n es)" "i \<noteq> j" for i j
  proof -
    have "rehash b n es ! i = rev (filter (\<lambda>e. b e = i) es)"
      "rehash b n es ! j = rev (filter (\<lambda>e. b e = j) es)"
      using that rebucket(1) [where b = b and es = es, OF b] by (intro rebucket(2) [where b = b, OF b]; simp)+
    moreover have "he_key ` set (filter (\<lambda>e. b e = i) es) \<inter> he_key ` set (filter (\<lambda>e. b e = j) es) = {}"
    proof (rule ccontr)
      assume "\<not> ?thesis"
      then obtain e e' where "e \<in> set es" "e' \<in> set es" "b e = i" "b e' = j" "he_key e = he_key e'"
        by auto
      then show False using key [of e e'] that(3) by simp
    qed
    ultimately show ?thesis by simp
  qed
qed

lemma expand_array_correct:
  assumes inv: "hash_inv ht" and room: "h_max ht * 2 + 2 < 2 ^ 32"
  obtains ht' where "expand_array ht = Some ht'" "hash_inv ht'" "hash_map ht' = hash_map ht"
    "h_count ht' = h_count ht"
proof -
  define m where "m = h_max ht * 2 + 1"
  define b where "b = (\<lambda>e :: 'a hash_entry. bucket m (he_hash e))"
  define es where "es = concat (h_array ht)"
  define arr where "arr = rehash b (m + 1) es"
  let ?ht = "ht\<lparr>h_array := arr, h_max := m\<rparr>"
  have len: "length (h_array ht) = h_max ht + 1" using inv by (simp add: hash_inv_def)
  have b: "b e < m + 1" for e
    using bucket_le [of m "he_hash e"] room by (simp add: m_def b_def)
  have hash: "he_hash e = hash_of ht (he_key e)" if "e \<in> set es" for e
    using chain_of_entries(2) [OF inv] that by (simp add: es_def del: set_concat)
  have dist: "distinct (map he_key es)" unfolding es_def by (rule hash_keys_distinct [OF inv])
  note arr = rebucket [where b = b and es = es, OF b, folded arr_def]
  have arr_dist: "distinct (map he_key (concat arr))"
    unfolding arr_def by (rule rebucket_distinct [where b = b, OF b dist]) (simp add: b_def hash)
  have len_eq: "length (concat arr) = length es"
    using distinct_card [of "concat arr"] distinct_card [of es] arr_dist dist arr(3)
    by (simp add: distinct_map del: set_concat)
  have "chain_ok ?ht i" if "i \<le> m" for i
  proof -
    have "h_array ?ht ! i = rev (filter (\<lambda>e. b e = i) es)" using that arr(2) [of i] by simp
    moreover have "bucket m (hash_of ht (he_key e)) = b e" if "e \<in> set es" for e
      using hash [OF that] by (simp add: b_def)
    ultimately show ?thesis using hash keys_split [OF dist] by (simp add: chain_ok_def)
  qed
  moreover have "h_count ht = length (concat arr)"
    using inv len_eq by (simp add: hash_inv_def es_def)
  ultimately have "hash_inv ?ht" using room arr(1) by (simp add: hash_inv_def m_def)
  moreover have "hash_map ?ht k = hash_map ht k" for k
    unfolding hash_map_def
  proof (rule map_of_distinct_keys_eq)
    show "distinct (map fst (kvs (concat (h_array ?ht))))" using arr_dist by (simp add: comp_def)
    show "distinct (map fst (kvs (concat (h_array ht))))" using dist by (simp add: comp_def es_def)
  qed (use arr(3) in \<open>auto simp: es_def\<close>)
  moreover have "expand_array ht = Some ?ht"
    using room by (simp add: expand_array_def hash_visit_all [OF len] Let_def alloc_array_def
        arr_def b_def m_def es_def)
  ultimately show thesis by (intro that [of ?ht]) (simp_all add: fun_eq_iff)
qed

section \<open>The operations on the abstract map\<close>

lemma ogs_hash_make_inv [inv_intros]:
  "hash_inv (ogs_hash_make seed :: 'v ogs_hash)" "hash_map (ogs_hash_make seed :: 'v ogs_hash) = Map.empty"
proof -
  have "(ogs_hash_make seed :: 'v ogs_hash) = \<lparr>h_array = replicate 16 [], h_count = 0, h_max = 15, h_seed = seed,
      h_func = None, h_free = 0\<rparr>"
    by (simp add: ogs_hash_make_def alloc_array_def INITIAL_MAX_def)
  then show "hash_inv (ogs_hash_make seed :: 'v ogs_hash)"
    "hash_map (ogs_hash_make seed :: 'v ogs_hash) = Map.empty"
    by (simp_all add: hash_inv_def chain_ok_def hash_map_def)
qed

lemma ogs_hash_make_custom_inv [inv_intros]:
  "hash_inv (ogs_hash_make_custom seed f)" "hash_map (ogs_hash_make_custom seed f) = Map.empty"
  using ogs_hash_make_inv [of seed]
  by (simp_all add: ogs_hash_make_custom_def hash_inv_def chain_ok_def hash_map_def
      ogs_hash_make_def alloc_array_def INITIAL_MAX_def)

lemma find_entry_None:
  assumes "hash_inv ht"
  shows "find_entry ht k None = (ht, bucket (h_max ht) (hash_of ht k), pos k (chain_of ht k))"
  using chain_of_pos [OF assms, of k] by (simp add: find_entry_def Let_def chain_of_def)

lemma find_entry_hit:
  assumes "hash_inv ht" "hash_map ht k \<noteq> None"
  shows "find_entry ht k v = (ht, bucket (h_max ht) (hash_of ht k), pos k (chain_of ht k))"
  using chain_of_pos [OF assms(1), of k] assms(2)
  by (auto simp: find_entry_def Let_def chain_of_def hash_map_pos [OF assms(1)] split: option.splits if_splits)

lemma find_entry_add:
  assumes inv: "hash_inv ht" and miss: "hash_map ht k = None"
  obtains ht' where "find_entry ht k (Some v) = (ht', bucket (h_max ht) (hash_of ht k), pos k (chain_of ht k))"
    "hash_inv ht'" "hash_map ht' = (hash_map ht)(k \<mapsto> v)" "h_count ht' = h_count ht + 1"
    "h_max ht' = h_max ht" "hash_of ht' = hash_of ht" "pos k (chain_of ht' k) = pos k (chain_of ht k)"
proof -
  let ?i = "bucket (h_max ht) (hash_of ht k)" and ?c = "chain_of ht k"
  let ?e = "\<lparr>he_hash = hash_of ht k, he_key = k, he_val = v\<rparr>"
  let ?ht = "ht\<lparr>h_array := (h_array ht)[?i := ?c @ [?e]], h_free := h_free ht - 1, h_count := h_count ht + 1\<rparr>"
  have notin: "k \<notin> he_key ` set ?c"
    using miss pos_less [of k ?c] by (auto simp: hash_map_pos [OF inv] split: if_splits)
  have "find_entry ht k (Some v) = (?ht, ?i, pos k ?c)"
    using chain_of_pos [OF inv, of k] pos_eq [OF notin]
    by (simp add: find_entry_def Let_def chain_of_def)
  moreover have "hash_inv ?ht" "hash_map ?ht = (hash_map ht)(k := Some v)"
    by (rule chain_replace [OF inv, where es = "?c @ [?e]" and k = k];
        use chain_of_ok [OF inv, of k] notin map_of_chain_append [OF notin, of ?e] in force)+
  moreover have "pos k (chain_of ?ht k) = pos k ?c"
    using hash_inv_bucket(1) [OF inv, of "hash_of ht k"] pos_append [OF notin, of ?e]
    by (simp add: chain_of_def)
  ultimately show thesis by (intro that [of ?ht]) simp_all
qed

lemma ogs_hash_get_map [state_simps]:
  assumes "hash_inv ht" "klen_ok key"
  shows "ogs_hash_get ht key = Some (hash_map ht (key_bytes key))"
  using assms by (simp add: ogs_hash_get_def find_entry_None hash_map_pos chain_of_def)

lemma replace_value:
  assumes inv: "hash_inv ht" and hit: "hash_map ht k \<noteq> None"
  shows "hash_inv (ht\<lparr>h_array := (h_array ht)[bucket (h_max ht) (hash_of ht k) :=
             (chain_of ht k)[pos k (chain_of ht k) := (chain_of ht k ! pos k (chain_of ht k))\<lparr>he_val := v\<rparr>]]\<rparr>)" (is "hash_inv ?ht")
    and "hash_map (ht\<lparr>h_array := (h_array ht)[bucket (h_max ht) (hash_of ht k) :=
             (chain_of ht k)[pos k (chain_of ht k) := (chain_of ht k ! pos k (chain_of ht k))\<lparr>he_val := v\<rparr>]]\<rparr>)
           = (hash_map ht)(k \<mapsto> v)"
proof -
  let ?c = "chain_of ht k"
  have mem: "k \<in> he_key ` set ?c"
    using hit pos_less [of k ?c] by (auto simp: hash_map_pos [OF inv] split: if_splits)
  have lt: "pos k ?c < length ?c" using mem pos_less [of k ?c] by simp
  have "set (?c[pos k ?c := (?c ! pos k ?c)\<lparr>he_val := v\<rparr>]) \<subseteq> insert ((?c ! pos k ?c)\<lparr>he_val := v\<rparr>) (set ?c)"
    by (rule set_update_subset_insert)
  moreover have "?c ! pos k ?c \<in> set ?c" using lt by simp
  ultimately have ok: "\<forall>e \<in> set (?c[pos k ?c := (?c ! pos k ?c)\<lparr>he_val := v\<rparr>]). he_hash e = hash_of ht (he_key e)
      \<and> bucket (h_max ht) (hash_of ht (he_key e)) = bucket (h_max ht) (hash_of ht k)"
    using chain_of_ok(1) [OF inv, of k] by fastforce
  note r = chain_replace [OF inv, where es = "?c[pos k ?c := (?c ! pos k ?c)\<lparr>he_val := v\<rparr>]" and k = k
      and ht' = ?ht and r = "Some v"]
  show "hash_inv ?ht" "hash_map ?ht = (hash_map ht)(k \<mapsto> v)"
    using ok chain_of_ok(2) [OF inv, of k] map_of_chain_update [OF mem, of v]
    by (auto intro!: r simp: map_key_chain_update)
qed

lemma ogs_hash_set_Some:
  assumes inv: "hash_inv ht" and room: "hash_room ht" and key: "klen_ok key"
  obtains ht' where "ogs_hash_set ht key (Some v) = Some ht'" "hash_inv ht'"
    "hash_map ht' = (hash_map ht)(key_bytes key \<mapsto> v)"
proof -
  let ?k = "key_bytes key"
  obtain h1 where find: "find_entry ht ?k (Some v) =
        (h1, bucket (h_max ht) (hash_of ht ?k), pos ?k (chain_of ht ?k))"
    and inv1: "hash_inv h1" and hit1: "hash_map h1 ?k \<noteq> None"
    and map1: "(hash_map h1)(?k \<mapsto> v) = (hash_map ht)(?k \<mapsto> v)"
    and cnt1: "h_count h1 \<le> h_count ht + 1" and same: "h_max h1 = h_max ht" "hash_of h1 = hash_of ht"
    and pos1: "pos ?k (chain_of h1 ?k) = pos ?k (chain_of ht ?k)"
  proof (cases "hash_map ht ?k = None")
    case True
    from find_entry_add [OF inv this, of v] obtain h1 where
      *: "find_entry ht ?k (Some v) = (h1, bucket (h_max ht) (hash_of ht ?k), pos ?k (chain_of ht ?k))"
      "hash_inv h1" "hash_map h1 = (hash_map ht)(?k \<mapsto> v)" "h_count h1 = h_count ht + 1"
      "h_max h1 = h_max ht" "hash_of h1 = hash_of ht" "pos ?k (chain_of h1 ?k) = pos ?k (chain_of ht ?k)"
      by blast
    show ?thesis by (rule that [of h1]) (use * in simp_all)
  next
    case False
    then show ?thesis using that [of ht] find_entry_hit [OF inv False, of "Some v"] inv by simp
  qed
  let ?c = "chain_of h1 ?k" and ?p = "pos ?k (chain_of h1 ?k)"
  let ?h2 = "h1\<lparr>h_array := (h_array h1)[bucket (h_max h1) (hash_of h1 ?k) := ?c[?p := (?c ! ?p)\<lparr>he_val := v\<rparr>]]\<rparr>"
  have lt: "?p < length ?c" using hit1 by (simp add: hash_map_pos [OF inv1] split: if_splits)
  have set: "ogs_hash_set ht key (Some v) = (if h_count ?h2 > h_max ?h2 then expand_array ?h2 else Some ?h2)"
    using key lt find pos1 same by (simp add: ogs_hash_set_def chain_of_def Let_def)
  have h2: "hash_inv ?h2" "hash_map ?h2 = (hash_map ht)(?k \<mapsto> v)"
    using replace_value [OF inv1 hit1, of v] map1 by simp_all
  show thesis
  proof (cases "h_count ?h2 > h_max ?h2")
    case True
    then have "h_max ?h2 * 2 + 2 < 2 ^ 32" using room cnt1 by (simp add: hash_room_def)
    from expand_array_correct [OF h2(1) this] obtain h3
      where "expand_array ?h2 = Some h3" "hash_inv h3" "hash_map h3 = hash_map ?h2" by metis
    then show thesis using that [of h3] set True h2(2) by simp
  next
    case False
    then show thesis using that [of ?h2] set h2 by simp
  qed
qed

lemma ogs_hash_set_None:
  assumes inv: "hash_inv ht" and key: "klen_ok key"
  obtains ht' where "ogs_hash_set ht key None = Some ht'" "hash_inv ht'"
    "hash_map ht' = (hash_map ht)(key_bytes key := None)" "h_count ht' \<le> h_count ht"
proof -
  let ?k = "key_bytes key"
  let ?c = "chain_of ht ?k" and ?p = "pos ?k (chain_of ht ?k)"
  let ?es = "take ?p ?c @ drop (Suc ?p) ?c"
  let ?ht = "ht\<lparr>h_array := (h_array ht)[bucket (h_max ht) (hash_of ht ?k) := ?es],
    h_free := h_free ht + 1, h_count := h_count ht - 1\<rparr>"
  show thesis
  proof (cases "hash_map ht ?k = None")
    case True
    then have "\<not> ?p < length ?c" by (simp add: hash_map_pos [OF inv] split: if_splits)
    then have "ogs_hash_set ht key None = Some ht"
      using key by (simp add: ogs_hash_set_def find_entry_None [OF inv] chain_of_def Let_def)
    then show thesis using that [of ht] inv True by (simp add: fun_upd_idem)
  next
    case False
    then have lt: "?p < length ?c" by (simp add: hash_map_pos [OF inv] split: if_splits)
    have set: "ogs_hash_set ht key None = Some ?ht"
      using key lt by (simp add: ogs_hash_set_def find_entry_None [OF inv] chain_of_def Let_def)
    have "length ?c \<le> h_count ht"
      using inv hash_inv_bucket(1) [OF inv, of "hash_of ht ?k"]
        length_concat_update [of "bucket (h_max ht) (hash_of ht ?k)" "h_array ht" "[]"]
      by (simp add: hash_inv_def chain_of_def)
    then have cnt: "h_count ?ht + length ?c = h_count ht + length ?es" using lt by simp
    have sub: "set ?es \<subseteq> set ?c" by (auto dest: in_set_takeD in_set_dropD)
    have "distinct (map he_key (take ?p ?c @ ?c ! ?p # drop (Suc ?p) ?c))"
      using chain_of_ok(2) [OF inv, of ?k] id_take_nth_drop [OF lt] by simp
    then have dist: "distinct (map he_key ?es)" by simp
    have ok: "\<forall>e \<in> set ?es. he_hash e = hash_of ht (he_key e)
        \<and> bucket (h_max ht) (hash_of ht (he_key e)) = bucket (h_max ht) (hash_of ht ?k)"
      using chain_of_ok(1) [OF inv, of ?k] sub by blast
    note r = chain_replace [OF inv _ _ _ cnt ok dist map_of_chain_delete [OF chain_of_ok(2) [OF inv]]]
    have "hash_inv ?ht" by (rule r(1)) simp_all
    moreover have "hash_map ?ht = (hash_map ht)(?k := None)" by (rule r(2)) simp_all
    ultimately have "hash_inv ?ht" "hash_map ?ht = (hash_map ht)(?k := None)" .
    then show thesis using that [of ?ht] set by simp
  qed
qed

lemma ogs_hash_get_or_set_map:
  assumes inv: "hash_inv ht" and room: "hash_room ht" and key: "klen_ok key"
  obtains ht' where "hash_inv ht'"
    "ogs_hash_get_or_set ht key (Some v) =
       Some (Some (case hash_map ht (key_bytes key) of None \<Rightarrow> v | Some w \<Rightarrow> w), ht')"
    "hash_map ht' = (case hash_map ht (key_bytes key) of
       None \<Rightarrow> (hash_map ht)(key_bytes key \<mapsto> v) | Some w \<Rightarrow> hash_map ht)"
proof -
  let ?k = "key_bytes key"
  let ?m = "case hash_map ht ?k of None \<Rightarrow> (hash_map ht)(?k \<mapsto> v) | Some w \<Rightarrow> hash_map ht"
  let ?v = "case hash_map ht ?k of None \<Rightarrow> v | Some w \<Rightarrow> w"
  obtain h1 where find: "find_entry ht ?k (Some v) =
        (h1, bucket (h_max ht) (hash_of ht ?k), pos ?k (chain_of ht ?k))"
    and inv1: "hash_inv h1" and map1: "hash_map h1 = ?m"
    and cnt1: "h_count h1 \<le> h_count ht + 1" and same: "h_max h1 = h_max ht" "hash_of h1 = hash_of ht"
    and pos1: "pos ?k (chain_of h1 ?k) = pos ?k (chain_of ht ?k)"
  proof (cases "hash_map ht ?k")
    case None
    from find_entry_add [OF inv this, of v] obtain h1 where
      *: "find_entry ht ?k (Some v) = (h1, bucket (h_max ht) (hash_of ht ?k), pos ?k (chain_of ht ?k))"
      "hash_inv h1" "hash_map h1 = (hash_map ht)(?k \<mapsto> v)" "h_count h1 = h_count ht + 1"
      "h_max h1 = h_max ht" "hash_of h1 = hash_of ht" "pos ?k (chain_of h1 ?k) = pos ?k (chain_of ht ?k)"
      by blast
    show ?thesis by (rule that [of h1]) (use * None in simp_all)
  next
    case (Some w)
    then show ?thesis using that [of ht] find_entry_hit [OF inv, of ?k "Some v"] inv by simp
  qed
  let ?c = "chain_of h1 ?k" and ?p = "pos ?k (chain_of h1 ?k)"
  have hit: "hash_map h1 ?k = Some ?v" using map1 by (simp split: option.split)
  then have lt: "?p < length ?c" and val: "he_val (?c ! ?p) = ?v"
    by (auto simp: hash_map_pos [OF inv1] split: if_splits)
  have run: "ogs_hash_get_or_set ht key (Some v) =
      (if h_count h1 > h_max h1 then map_option (\<lambda>h. (Some ?v, h)) (expand_array h1) else Some (Some ?v, h1))"
    using key lt val find pos1 same by (simp add: ogs_hash_get_or_set_def chain_of_def Let_def)
  show thesis
  proof (cases "h_count h1 > h_max h1")
    case True
    then have "h_max h1 * 2 + 2 < 2 ^ 32" using room cnt1 by (simp add: hash_room_def)
    from expand_array_correct [OF inv1 this] obtain h3
      where "expand_array h1 = Some h3" "hash_inv h3" "hash_map h3 = hash_map h1" by metis
    then show thesis using that [of h3] run True map1 by simp
  next
    case False
    then show thesis using that [of h1] run inv1 map1 by simp
  qed
qed

lemma ogs_hash_clear_map [inv_intros]:
  assumes "hash_inv ht"
  shows "hash_inv (ogs_hash_clear ht)" "hash_map (ogs_hash_clear ht) = Map.empty"
  using assms by (auto simp: ogs_hash_clear_def hash_inv_def chain_ok_def hash_map_def concat_eq_Nil_conv)

lemma hash_count_card:
  assumes "hash_inv ht"
  shows "h_count ht = card (dom (hash_map ht))"
proof -
  have "card (dom (hash_map ht)) = card (he_key ` set (concat (h_array ht)))"
    by (simp add: hash_map_def dom_map_of_conv_image_fst image_image del: set_concat)
  also have "\<dots> = length (concat (h_array ht))"
    using distinct_card [OF hash_keys_distinct [OF assms]] by (simp del: set_concat)
  finally show ?thesis using assms by (simp add: hash_inv_def)
qed

section \<open>The interface of an index\<close>

text \<open>What the users of a hash table rely on: a map from keys to owners with lookup,
  insertion and removal, where \<open>ok\<close> is the representation invariant, \<open>room\<close> the capacity
  condition of an insertion and \<open>kok\<close> the admissible keys.\<close>

locale owner_index =
  fixes ok :: "'h \<Rightarrow> bool" and room :: "'h \<Rightarrow> bool" and kok :: "'k \<Rightarrow> bool"
    and look :: "'h \<Rightarrow> 'k \<Rightarrow> 'v option option"
    and upd :: "'h \<Rightarrow> 'k \<Rightarrow> 'v option \<Rightarrow> 'h option"
    and norm :: "'k \<Rightarrow> 'b"
    and abs :: "'h \<Rightarrow> 'b \<rightharpoonup> 'v"
  assumes look_abs: "ok h \<Longrightarrow> kok k \<Longrightarrow> look h k = Some (abs h (norm k))"
    and upd_put: "ok h \<Longrightarrow> room h \<Longrightarrow> kok k \<Longrightarrow>
          \<exists>h'. upd h k (Some v) = Some h' \<and> ok h' \<and> abs h' = (abs h)(norm k \<mapsto> v)"
    and upd_remove: "ok h \<Longrightarrow> kok k \<Longrightarrow>
          \<exists>h'. upd h k None = Some h' \<and> ok h' \<and> abs h' = (abs h)(norm k := None)"
begin

text \<open>Lookup after insertion and after removal.\<close>

lemma look_put:
  assumes "ok h" "room h" "kok k" "kok k'"
  shows "\<exists>h'. upd h k (Some v) = Some h' \<and> ok h' \<and>
           look h' k' = (if norm k' = norm k then Some (Some v) else look h k')"
  using upd_put [OF assms(1-3), of v] look_abs assms by fastforce

lemma look_remove:
  assumes "ok h" "kok k" "kok k'"
  shows "\<exists>h'. upd h k None = Some h' \<and> ok h' \<and>
           look h' k' = (if norm k' = norm k then Some None else look h k')"
  using upd_remove [OF assms(1-2)] look_abs assms by fastforce

text \<open>The idiom of the transaction tables: an entry is removed only by its owner.\<close>

definition remove_owned :: "'h \<Rightarrow> 'k \<Rightarrow> 'v \<Rightarrow> 'h option" where
  "remove_owned h k v = Option.bind (look h k) (\<lambda>r. if r = Some v then upd h k None else Some h)"

lemma remove_owned_abs:
  assumes "ok h" "kok k"
  shows "\<exists>h'. remove_owned h k v = Some h' \<and> ok h' \<and>
           abs h' = (if abs h (norm k) = Some v then (abs h)(norm k := None) else abs h)"
  using upd_remove [OF assms] look_abs [OF assms] assms(1) by (auto simp: remove_owned_def)

lemma remove_owned_keeps:
  assumes "ok h" "kok k" "abs h b = Some w" "w \<noteq> v"
  shows "\<exists>h'. remove_owned h k v = Some h' \<and> ok h' \<and> abs h' b = Some w"
  using remove_owned_abs [OF assms(1,2), of v] assms(3,4) by fastforce

end

interpretation ht: owner_index hash_inv hash_room klen_ok ogs_hash_get ogs_hash_set key_bytes hash_map
proof
  show "ogs_hash_get h k = Some (hash_map h (key_bytes k))" if "hash_inv h" "klen_ok k" for h :: "'v ogs_hash" and k
    using that by (rule ogs_hash_get_map)
  show "\<exists>h'. ogs_hash_set h k (Some v) = Some h' \<and> hash_inv h' \<and> hash_map h' = (hash_map h)(key_bytes k \<mapsto> v)"
    if "hash_inv h" "hash_room h" "klen_ok k" for h :: "'v ogs_hash" and k v
    using ogs_hash_set_Some [OF that] by metis
  show "\<exists>h'. ogs_hash_set h k None = Some h' \<and> hash_inv h' \<and> hash_map h' = (hash_map h)(key_bytes k := None)"
    if "hash_inv h" "klen_ok k" for h :: "'v ogs_hash" and k
    using ogs_hash_set_None [OF that] by metis
qed

lemma ogs_hash_unset_if_owner_owned:
  assumes "hash_inv ht" "klen_ok key"
  shows "map_option snd (ogs_hash_unset_if_owner ht key v) = ht.remove_owned ht key v"
proof -
  obtain ht' where "ogs_hash_set ht key None = Some ht'" by (rule ogs_hash_set_None [OF assms])
  then show ?thesis
    using assms by (simp add: ogs_hash_unset_if_owner_def ht.remove_owned_def ogs_hash_get_map)
qed

section \<open>Properties\<close>

text \<open>C6. The hash table implements a finite map for every hash function and seed. From any
  table that satisfies the invariant and has fewer than \<open>2^31 - 2\<close> entries, storing a value
  succeeds, keeps the invariant (also when the bucket array is doubled and every entry moves to
  its new bucket), makes the stored key return the value and leaves every other key as it was.\<close>

theorem hash_set_get:
  assumes "hash_inv ht" "hash_room ht" "klen_ok key" "klen_ok key'"
  shows "\<exists>ht'. ogs_hash_set ht key (Some v) = Some ht' \<and> hash_inv ht'
     \<and> ogs_hash_get ht' key' =
         (if key_bytes key' = key_bytes key then Some (Some v) else ogs_hash_get ht key')"
  using ht.look_put [OF assms] .

text \<open>Removal by owner: \<open>ogs_hash_unset_if_owner\<close> reports whether the key was stored for
  the given owner. Only then is the entry removed; an entry that a newer owner has claimed in
  the meantime, and every entry of another key, stays findable.\<close>

theorem hash_unset_if_owner_safe:
  assumes "hash_inv ht" "klen_ok key" "klen_ok key'"
  shows "\<exists>ht'. ogs_hash_unset_if_owner ht key v = Some (ogs_hash_get ht key = Some (Some v), ht')
     \<and> hash_inv ht'
     \<and> ogs_hash_get ht' key' =
         (if key_bytes key' = key_bytes key \<and> ogs_hash_get ht key = Some (Some v)
          then Some None else ogs_hash_get ht key')"
proof (cases "ogs_hash_get ht key = Some (Some v)")
  case True
  then show ?thesis
    using ht.look_remove [OF assms] assms(2) by (auto simp: ogs_hash_unset_if_owner_def)
next
  case False
  then show ?thesis
    using assms by (auto simp: ogs_hash_unset_if_owner_def ogs_hash_get_map)
qed

text \<open>Iterating with \<open>ogs_hash_first\<close> and \<open>ogs_hash_next\<close> ends and visits every binding
  of the map exactly once: the visited keys are distinct, they are as many as the entry count,
  and the visited pairs are the bindings of the map.\<close>

theorem hash_iteration_complete:
  assumes "hash_inv ht"
  shows "\<exists>es. hash_visit ht = Some es \<and> distinct (map he_key es)
     \<and> length es = ogs_hash_count ht
     \<and> (\<forall>k v. (\<exists>e \<in> set es. he_key e = k \<and> he_val e = v) \<longleftrightarrow> hash_map ht k = Some v)"
proof -
  let ?es = "concat (h_array ht)"
  have d: "distinct (map he_key ?es)" by (rule hash_keys_distinct [OF assms])
  have "(\<exists>e \<in> set ?es. he_key e = k \<and> he_val e = v) \<longleftrightarrow> hash_map ht k = Some v" for k v
  proof -
    have "(\<exists>e \<in> set ?es. he_key e = k \<and> he_val e = v) \<longleftrightarrow> (k, v) \<in> set (kvs ?es)"
      by (auto simp del: set_concat)
    also have "\<dots> \<longleftrightarrow> hash_map ht k = Some v"
      using d by (simp add: hash_map_def comp_def del: set_concat)
    finally show ?thesis .
  qed
  then show ?thesis
    using d assms by (intro exI [of _ ?es]) (simp add: hash_visit_all hash_inv_def ogs_hash_count_def)
qed

text \<open>Witnesses: a table with room for sixteen entries, in which one key is stored.\<close>

definition demo_hash :: "nat ogs_hash" where
  "demo_hash = \<lparr>h_array = (replicate 16 [])[1 := [\<lparr>he_hash = 1, he_key = [1], he_val = 7\<rparr>]],
     h_count = 1, h_max = 15, h_seed = 0, h_func = None, h_free = 0\<rparr>"

lemma demo_hash_inv: "hash_inv demo_hash"
proof -
  have *: "length (concat ((replicate 16 [])[1 := [e]])) = 1" for e :: "nat hash_entry"
    using length_concat_update [of 1 "replicate 16 []" "[e]"] by simp
  have "chain_ok demo_hash i" if "i \<le> 15" for i
    using that
    by (cases "i = 1")
      (simp_all add: chain_ok_def demo_hash_def hash_of_def hashfunc_default_def bucket_def)
  then show ?thesis using * by (simp add: hash_inv_def demo_hash_def)
qed

lemma demo_hash_get: "ogs_hash_get demo_hash (Key_Mem [1]) = Some (Some 7)"
  by (simp add: ogs_hash_get_def find_entry_def demo_hash_def hash_of_def hashfunc_default_def bucket_def)

theorem hash_set_get_witness:
  "\<exists>ht'. ogs_hash_set demo_hash (Key_Mem [2]) (Some 9) = Some ht' \<and> hash_inv ht'
     \<and> ogs_hash_get ht' (Key_Mem [1]) = Some (Some 7)"
  using hash_set_get [of demo_hash "Key_Mem [2]" "Key_Mem [1]" 9]
  by (simp add: demo_hash_inv demo_hash_get) (simp add: hash_room_def demo_hash_def)

end
