(* ===== verification/Ogs_Pool.thy ===== *)
theory Ogs_Pool
  imports Ogs_Hash
begin

text \<open>
  The fixed-size object pools of \<open>src/lib/core/ogs-pool.h\<close>. A pool is a ring of free nodes, an
  index of the nodes in use and, for pools with ids, a hash table from the id of a node to the
  node. A node is represented by its position in the pool's array. \<open>idpool\<close> is the abstract
  pool (a queue of free nodes and a finite map from ids to nodes) that the transaction layers
  build on; the ring and the hash table refine it.
\<close>

section \<open>Nodes and ids\<close>

definition OGS_INVALID_POOL_ID :: nat where
  "OGS_INVALID_POOL_ID = 0"

definition OGS_MIN_POOL_ID :: nat where
  "OGS_MIN_POOL_ID = 1"

definition OGS_MAX_POOL_ID :: nat where
  "OGS_MAX_POOL_ID = 0x7fffffff"

definition OGS_NEXT_ID :: "nat \<Rightarrow> nat \<Rightarrow> nat \<Rightarrow> nat" where
  "OGS_NEXT_ID i mn mx = (if i = mx then mn else i + 1)"

definition pool_id_ok :: "nat \<Rightarrow> bool" where
  "pool_id_ok i \<longleftrightarrow> OGS_MIN_POOL_ID \<le> i \<and> i \<le> OGS_MAX_POOL_ID"

text \<open>The key of an id in the hash table: the bytes of the \<open>int32_t\<close> on a little-endian host.\<close>

definition id_key :: "nat \<Rightarrow> hkey" where
  "id_key i = Key_Mem (rev (be_bytes32 (of_nat i)))"

section \<open>The pool\<close>

record ogs_pool =
  p_head :: nat
  p_tail :: nat
  p_size :: nat
  p_avail :: nat
  p_peak :: nat
  p_free :: "nat option list"
  p_index :: "nat option list"
  p_id_hash :: "nat ogs_hash"
  p_id :: nat

definition ogs_pool_init :: "nat \<Rightarrow> u32 \<Rightarrow> nat \<Rightarrow> ogs_pool" where
  "ogs_pool_init n seed old_id =
     \<lparr>p_head = 0, p_tail = 0, p_size = n, p_avail = n, p_peak = 0,
      p_free = map Some [0..<n], p_index = replicate n None,
      p_id_hash = ogs_hash_make seed, p_id = old_id\<rparr>"

text \<open>\<open>ogs_pool_alloc\<close>: the node (\<open>None\<close> when the pool is empty) and the pool. A free slot that
  holds no node would be dereferenced as \<open>NULL\<close>, which aborts.\<close>

definition ogs_pool_alloc :: "ogs_pool \<Rightarrow> (nat option \<times> ogs_pool) option" where
  "ogs_pool_alloc p =
     (if p_avail p > 0
      then do {
        node \<leftarrow> p_free p ! p_head p;
        let used = p_size p - (p_avail p - 1);
        Some (Some node,
          p\<lparr>p_avail := p_avail p - 1,
            p_free := (p_free p)[p_head p := None],
            p_head := (p_head p + 1) mod p_size p,
            p_index := (p_index p)[node := Some node],
            p_peak := (if used > p_peak p then used else p_peak p)\<rparr>) }
      else Some (None, p))"

definition ogs_pool_free :: "ogs_pool \<Rightarrow> nat \<Rightarrow> ogs_pool" where
  "ogs_pool_free p node =
     (if p_avail p < p_size p
      then p\<lparr>p_avail := p_avail p + 1,
             p_free := (p_free p)[p_tail p := Some node],
             p_tail := (p_tail p + 1) mod p_size p,
             p_index := (p_index p)[node := None]\<rparr>
      else p)"

definition ogs_pool_find :: "ogs_pool \<Rightarrow> nat \<Rightarrow> nat option" where
  "ogs_pool_find p ix =
     (if ix > 0 \<and> ix \<le> p_size p then p_index p ! (ix - 1) else None)"

text \<open>Allocation with an id: the node and its id.\<close>

definition ogs_pool_id_calloc :: "ogs_pool \<Rightarrow> ((nat \<times> nat) option \<times> ogs_pool) option" where
  "ogs_pool_id_calloc p =
     do { (r, p') \<leftarrow> ogs_pool_alloc p;
          case r of
            None \<Rightarrow> Some (None, p')
          | Some node \<Rightarrow>
              let i = OGS_NEXT_ID (p_id p') 1 OGS_MAX_POOL_ID
              in do { h \<leftarrow> ogs_hash_set (p_id_hash p') (id_key i) (Some node);
                      Some (Some (node, i), p'\<lparr>p_id := i, p_id_hash := h\<rparr>) } }"

definition ogs_pool_id_free :: "ogs_pool \<Rightarrow> nat \<Rightarrow> nat \<Rightarrow> ogs_pool option" where
  "ogs_pool_id_free p node i =
     do { ogs_assert (pool_id_ok i);
          h \<leftarrow> ogs_hash_set (p_id_hash p) (id_key i) None;
          Some (ogs_pool_free (p\<lparr>p_id_hash := h\<rparr>) node) }"

definition ogs_pool_find_by_id :: "ogs_pool \<Rightarrow> nat \<Rightarrow> nat option option" where
  "ogs_pool_find_by_id p i = ogs_hash_get (p_id_hash p) (id_key i)"

section \<open>The abstract pool\<close>

record idpool =
  ip_free :: "nat list"
  ip_size :: nat
  ip_ids :: "nat \<rightharpoonup> nat"
  ip_id :: nat

definition idpool_init :: "nat \<Rightarrow> nat \<Rightarrow> idpool" where
  "idpool_init n old_id =
     \<lparr>ip_free = [0..<n], ip_size = n, ip_ids = Map.empty, ip_id = old_id\<rparr>"

definition idpool_calloc :: "idpool \<Rightarrow> (nat \<times> nat) option \<times> idpool" where
  "idpool_calloc p =
     (case ip_free p of
        [] \<Rightarrow> (None, p)
      | node # rest \<Rightarrow>
          let i = OGS_NEXT_ID (ip_id p) 1 OGS_MAX_POOL_ID
          in (Some (node, i), p\<lparr>ip_free := rest, ip_ids := (ip_ids p)(i \<mapsto> node), ip_id := i\<rparr>))"

definition idpool_free :: "idpool \<Rightarrow> nat \<Rightarrow> nat \<Rightarrow> idpool option" where
  "idpool_free p node i =
     do { ogs_assert (pool_id_ok i);
          Some (p\<lparr>ip_ids := (ip_ids p)(i := None),
                  ip_free := (if length (ip_free p) < ip_size p then ip_free p @ [node]
                              else ip_free p)\<rparr>) }"

section \<open>The ring of free nodes\<close>

text \<open>The nodes a ring of length \<open>n\<close> holds in \<open>k\<close> slots from position \<open>h\<close>.\<close>

definition ring_slots :: "'a option list \<Rightarrow> nat \<Rightarrow> nat \<Rightarrow> 'a option list" where
  "ring_slots xs h k = map (\<lambda>j. xs ! ((h + j) mod length xs)) [0..<k]"

definition pool_inv :: "ogs_pool \<Rightarrow> bool" where
  "pool_inv p \<longleftrightarrow>
     length (p_free p) = p_size p \<and> length (p_index p) = p_size p
     \<and> p_avail p \<le> p_size p \<and> p_id p \<le> OGS_MAX_POOL_ID
     \<and> (0 < p_size p \<longrightarrow> p_head p < p_size p \<and> p_tail p = (p_head p + p_avail p) mod p_size p)
     \<and> None \<notin> set (ring_slots (p_free p) (p_head p) (p_avail p))
     \<and> hash_inv (p_id_hash p)"

definition id_map :: "nat ogs_hash \<Rightarrow> nat \<rightharpoonup> nat" where
  "id_map h i = (if i \<le> OGS_MAX_POOL_ID then hash_map h (key_bytes (id_key i)) else None)"

definition pool_abs :: "ogs_pool \<Rightarrow> idpool" where
  "pool_abs p =
     \<lparr>ip_free = map the (ring_slots (p_free p) (p_head p) (p_avail p)), ip_size = p_size p,
      ip_ids = id_map (p_id_hash p),
      ip_id = p_id p\<rparr>"

lemma ring_slots_Cons:
  assumes "0 < k"
  shows "ring_slots xs h k = xs ! (h mod length xs) # ring_slots xs ((h + 1) mod length xs) (k - 1)"
proof -
  have "[0..<k] = 0 # map Suc [0..<k - 1]"
    using assms by (cases k) (simp_all add: upt_conv_Cons map_Suc_upt del: upt_Suc)
  then show ?thesis by (simp add: ring_slots_def mod_simps)
qed

lemma ring_slots_snoc:
  assumes "k < length xs"
  shows "ring_slots (xs[(h + k) mod length xs := v]) h (k + 1) = ring_slots xs h k @ [v]"
proof -
  have "(h + j) mod length xs \<noteq> (h + k) mod length xs" if "j < k" for j
    using ring_pos_neq [OF that assms] .
  moreover have "(h + k) mod length xs < length xs" using assms by (cases xs) simp_all
  ultimately show ?thesis by (fastforce simp: ring_slots_def nth_list_update)
qed

lemma ring_slots_update_other:
  assumes "0 < k" "k \<le> length xs" "h < length xs"
  shows "ring_slots (xs[h := v]) ((h + 1) mod length xs) (k - 1)
           = ring_slots xs ((h + 1) mod length xs) (k - 1)"
proof -
  have "((h + 1) mod length xs + j) mod length xs \<noteq> h" if "j < k - 1" for j
  proof -
    have "(h + 0) mod length xs \<noteq> (h + (j + 1)) mod length xs"
      using that assms by (intro ring_pos_neq) auto
    then show ?thesis using assms by (simp add: mod_simps)
  qed
  then have "xs[h := v] ! (((h + 1) mod length xs + j) mod length xs) =
      xs ! (((h + 1) mod length xs + j) mod length xs)" if "j < k - 1" for j
    using that by (metis nth_list_update_neq)
  then show ?thesis by (simp add: ring_slots_def)
qed

section \<open>Ids in the hash table\<close>

lemma id_key_ok [simp]: "klen_ok (id_key i)"
  by (simp add: id_key_def be_bytes32_def)

lemma id_key_inj:
  assumes "i \<le> OGS_MAX_POOL_ID" "j \<le> OGS_MAX_POOL_ID"
  shows "key_bytes (id_key i) = key_bytes (id_key j) \<longleftrightarrow> i = j"
proof -
  have "be_bytes32 (of_nat i) = be_bytes32 (of_nat j) \<longleftrightarrow> (of_nat i :: u32) = of_nat j"
    by (rule be_bytes32_inj)
  also have "\<dots> \<longleftrightarrow> i = j"
    using assms by (simp add: OGS_MAX_POOL_ID_def of_nat_eq_iff word_of_nat_eq_iff take_bit_nat_eq_self)
  finally show ?thesis by (simp add: id_key_def)
qed

lemma OGS_NEXT_ID_ok: "i \<le> OGS_MAX_POOL_ID \<Longrightarrow> pool_id_ok (OGS_NEXT_ID i 1 OGS_MAX_POOL_ID)"
  by (auto simp: OGS_NEXT_ID_def pool_id_ok_def OGS_MIN_POOL_ID_def OGS_MAX_POOL_ID_def)

section \<open>Refinement\<close>

lemma ogs_pool_init_refines [inv_intros]:
  assumes "old_id \<le> OGS_MAX_POOL_ID"
  shows "pool_inv (ogs_pool_init n seed old_id)"
    and "pool_abs (ogs_pool_init n seed old_id) = idpool_init n old_id"
proof -
  have "ring_slots (map Some [0..<n]) 0 n = map Some [0..<n]"
    by (auto simp: ring_slots_def intro: map_cong)
  then show "pool_inv (ogs_pool_init n seed old_id)"
    "pool_abs (ogs_pool_init n seed old_id) = idpool_init n old_id"
    using assms ogs_hash_make_inv [of seed]
    by (auto simp: pool_inv_def pool_abs_def ogs_pool_init_def idpool_init_def comp_def fun_eq_iff id_map_def)
qed

lemma ogs_pool_alloc_ring:
  assumes inv: "pool_inv p" and pos: "0 < p_avail p"
  obtains node p' where "ogs_pool_alloc p = Some (Some node, p')" "pool_inv p'"
    "ip_free (pool_abs p) = node # ip_free (pool_abs p')"
    "p_size p' = p_size p" "p_id_hash p' = p_id_hash p" "p_id p' = p_id p"
    "p_avail p' = p_avail p - 1"
proof -
  have sz: "0 < p_size p" "p_avail p \<le> p_size p" "length (p_free p) = p_size p" "p_head p < p_size p"
    using inv pos by (auto simp: pool_inv_def)
  have slots: "ring_slots (p_free p) (p_head p) (p_avail p) =
      p_free p ! p_head p # ring_slots (p_free p) ((p_head p + 1) mod p_size p) (p_avail p - 1)"
    using ring_slots_Cons [OF pos, of "p_free p" "p_head p"] sz by simp
  then obtain node where node: "p_free p ! p_head p = Some node"
    using inv by (cases "p_free p ! p_head p") (auto simp: pool_inv_def)
  define p' where "p' = p\<lparr>p_avail := p_avail p - 1, p_free := (p_free p)[p_head p := None],
      p_head := (p_head p + 1) mod p_size p, p_index := (p_index p)[node := Some node],
      p_peak := (if p_size p - (p_avail p - 1) > p_peak p then p_size p - (p_avail p - 1) else p_peak p)\<rparr>"
  have rest: "ring_slots (p_free p') (p_head p') (p_avail p') =
      ring_slots (p_free p) ((p_head p + 1) mod p_size p) (p_avail p - 1)"
    using ring_slots_update_other [of "p_avail p" "p_free p" "p_head p" None] pos sz
    by (simp add: p'_def)
  have tl: "(p_head p + p_avail p) mod p_size p = ((p_head p + 1) mod p_size p + (p_avail p - 1)) mod p_size p"
    using pos by (subst mod_add_left_eq) simp
  have "pool_inv p'"
    using inv rest slots tl sz unfolding pool_inv_def by (simp add: p'_def)
  moreover have "ogs_pool_alloc p = Some (Some node, p')"
    using pos node by (simp add: ogs_pool_alloc_def p'_def Let_def)
  moreover have "ip_free (pool_abs p) = node # ip_free (pool_abs p')"
    using slots node rest by (simp add: pool_abs_def)
  ultimately show thesis using that by (simp add: p'_def)
qed

lemma ogs_pool_free_ring:
  assumes inv: "pool_inv p" and node: "node < p_size p"
  shows "pool_inv (ogs_pool_free p node)"
    and "pool_abs (ogs_pool_free p node) =
      (pool_abs p)\<lparr>ip_free := (if p_avail p < p_size p then ip_free (pool_abs p) @ [node]
                               else ip_free (pool_abs p))\<rparr>"
proof -
  have slots: "ring_slots ((p_free p)[p_tail p := Some node]) (p_head p) (p_avail p + 1) =
      ring_slots (p_free p) (p_head p) (p_avail p) @ [Some node]" if "p_avail p < p_size p"
    using that ring_slots_snoc [of "p_avail p" "p_free p" "p_head p" "Some node"] inv node
    by (simp add: pool_inv_def)
  have tl: "((p_head p + p_avail p) mod p_size p + 1) mod p_size p = (p_head p + (p_avail p + 1)) mod p_size p"
    by (simp add: mod_simps)
  show "pool_inv (ogs_pool_free p node)"
    using inv slots node tl by (auto simp: ogs_pool_free_def pool_inv_def)
  show "pool_abs (ogs_pool_free p node) =
      (pool_abs p)\<lparr>ip_free := (if p_avail p < p_size p then ip_free (pool_abs p) @ [node]
                               else ip_free (pool_abs p))\<rparr>"
    using slots by (simp add: ogs_pool_free_def pool_abs_def cong: if_cong)
qed

lemma id_map_update:
  assumes "hash_map h' = (hash_map h)(key_bytes (id_key i) := r)" "i \<le> OGS_MAX_POOL_ID"
  shows "id_map h' = (id_map h)(i := r)"
proof
  show "id_map h' j = ((id_map h)(i := r)) j" for j
    using assms id_key_inj [of j i] by (auto simp: id_map_def)
qed

lemma ogs_pool_id_calloc_refines:
  assumes inv: "pool_inv p" and room: "hash_room (p_id_hash p)"
  shows "\<exists>r p'. ogs_pool_id_calloc p = Some (r, p') \<and> pool_inv p' \<and> idpool_calloc (pool_abs p) = (r, pool_abs p')"
proof (cases "p_avail p = 0")
  case True
  then show ?thesis
    using inv by (simp add: ogs_pool_id_calloc_def ogs_pool_alloc_def idpool_calloc_def pool_abs_def ring_slots_def)
next
  case False
  then obtain node p1 where alloc: "ogs_pool_alloc p = Some (Some node, p1)" and inv1: "pool_inv p1"
    and free: "ip_free (pool_abs p) = node # ip_free (pool_abs p1)"
    and same: "p_size p1 = p_size p" "p_id_hash p1 = p_id_hash p" "p_id p1 = p_id p"
    using ogs_pool_alloc_ring [OF inv] by blast
  let ?i = "OGS_NEXT_ID (p_id p) 1 OGS_MAX_POOL_ID"
  have i: "?i \<le> OGS_MAX_POOL_ID"
    using OGS_NEXT_ID_ok [of "p_id p"] inv by (simp add: pool_inv_def pool_id_ok_def)
  have "hash_inv (p_id_hash p)" using inv by (simp add: pool_inv_def)
  then obtain h where h: "ogs_hash_set (p_id_hash p) (id_key ?i) (Some node) = Some h" "hash_inv h"
    "hash_map h = (hash_map (p_id_hash p))(key_bytes (id_key ?i) \<mapsto> node)"
    using ogs_hash_set_Some [OF _ room id_key_ok] by blast
  let ?p = "p1\<lparr>p_id := ?i, p_id_hash := h\<rparr>"
  have "ogs_pool_id_calloc p = Some (Some (node, ?i), ?p)"
    using alloc h(1) same by (simp add: ogs_pool_id_calloc_def Let_def)
  moreover have "pool_inv ?p" using inv1 h(2) i by (simp add: pool_inv_def)
  moreover have "idpool_calloc (pool_abs p) = (Some (node, ?i), pool_abs ?p)"
    using free same id_map_update [OF h(3) i]
    by (simp add: idpool_calloc_def Let_def) (simp add: pool_abs_def)
  ultimately show ?thesis by blast
qed

lemma ogs_pool_id_free_refines:
  assumes inv: "pool_inv p" and node: "node < p_size p"
  shows "case ogs_pool_id_free p node i of
           None \<Rightarrow> idpool_free (pool_abs p) node i = None
         | Some p' \<Rightarrow> pool_inv p' \<and> idpool_free (pool_abs p) node i = Some (pool_abs p')"
proof (cases "pool_id_ok i")
  case False
  then show ?thesis by (simp add: ogs_pool_id_free_def idpool_free_def)
next
  case True
  then have i: "i \<le> OGS_MAX_POOL_ID" by (simp add: pool_id_ok_def)
  have "hash_inv (p_id_hash p)" using inv by (simp add: pool_inv_def)
  then obtain h where h: "ogs_hash_set (p_id_hash p) (id_key i) None = Some h" "hash_inv h"
    "hash_map h = (hash_map (p_id_hash p))(key_bytes (id_key i) := None)"
    using ogs_hash_set_None [OF _ id_key_ok] by blast
  let ?p = "p\<lparr>p_id_hash := h\<rparr>"
  have inv': "pool_inv ?p" using inv h(2) by (simp add: pool_inv_def)
  have abs': "pool_abs ?p = (pool_abs p)\<lparr>ip_ids := (ip_ids (pool_abs p))(i := None)\<rparr>"
    using id_map_update [OF h(3) i] by (simp add: pool_abs_def)
  have len: "length (ip_free (pool_abs p)) = p_avail p" "ip_size (pool_abs p) = p_size p"
    by (simp_all add: pool_abs_def ring_slots_def)
  show ?thesis
    using True h(1) len abs' ogs_pool_free_ring [OF inv', of node] node
    by (simp add: ogs_pool_id_free_def idpool_free_def)
qed

lemma ogs_pool_find_by_id_refines:
  assumes "pool_inv p" "i \<le> OGS_MAX_POOL_ID"
  shows "ogs_pool_find_by_id p i = Some (ip_ids (pool_abs p) i)"
  using assms by (simp add: ogs_pool_find_by_id_def ogs_hash_get_map pool_inv_def pool_abs_def id_map_def)

lemma ogs_pool_id_calloc_count:
  assumes "pool_inv p" "hash_room (p_id_hash p)" "ogs_pool_id_calloc p = Some (Some (node, i), p')"
  shows "h_count (p_id_hash p') \<le> h_count (p_id_hash p) + 1"
proof -
  have inv: "hash_inv (p_id_hash p)" using assms(1) by (simp add: pool_inv_def)
  have "0 < p_avail p"
    using assms(3) by (cases "p_avail p") (auto simp: ogs_pool_id_calloc_def ogs_pool_alloc_def)
  then obtain n p1 where "ogs_pool_alloc p = Some (Some n, p1)" "p_id_hash p1 = p_id_hash p"
    using ogs_pool_alloc_ring [OF assms(1)] by blast
  then have set: "ogs_hash_set (p_id_hash p) (id_key i) (Some node) = Some (p_id_hash p')"
    using assms(3) by (auto simp: ogs_pool_id_calloc_def Let_def split: bind_splits)
  then have "hash_inv (p_id_hash p')" "hash_map (p_id_hash p') = (hash_map (p_id_hash p))(key_bytes (id_key i) \<mapsto> node)"
    using ogs_hash_set_Some [OF inv assms(2) id_key_ok, of i node] by auto
  then have "h_count (p_id_hash p') = card (insert (key_bytes (id_key i)) (dom (hash_map (p_id_hash p))))"
    using hash_count_card by fastforce
  also have "\<dots> \<le> h_count (p_id_hash p) + 1"
    using hash_count_card [OF inv] by (simp add: card_insert_le_m1 card_insert_if)
  finally show ?thesis .
qed

lemma ogs_pool_id_free_count:
  assumes "pool_inv p" "ogs_pool_id_free p node i = Some p'"
  shows "h_count (p_id_hash p') \<le> h_count (p_id_hash p)"
proof -
  have inv: "hash_inv (p_id_hash p)" using assms(1) by (simp add: pool_inv_def)
  obtain h where h: "ogs_hash_set (p_id_hash p) (id_key i) None = Some h" "hash_inv h"
    "hash_map h = (hash_map (p_id_hash p))(key_bytes (id_key i) := None)"
    using ogs_hash_set_None [OF inv id_key_ok] by blast
  have "p_id_hash p' = h"
    using assms(2) h(1) by (auto simp: ogs_pool_id_free_def ogs_pool_free_def split: bind_splits if_splits)
  moreover have "card (dom (hash_map h)) \<le> card (dom (hash_map (p_id_hash p)))"
    using h(3) by (auto intro!: card_mono simp: hash_map_def finite_dom_map_of)
  ultimately show ?thesis using hash_count_card inv h(2) by metis
qed

section \<open>Well-formed abstract pools\<close>

text \<open>Free nodes and nodes with an id are disjoint, and an id names one node.\<close>

definition idpool_inv :: "idpool \<Rightarrow> bool" where
  "idpool_inv p \<longleftrightarrow>
     distinct (ip_free p) \<and> set (ip_free p) \<union> ran (ip_ids p) \<subseteq> {..<ip_size p}
     \<and> set (ip_free p) \<inter> ran (ip_ids p) = {}
     \<and> inj_on (ip_ids p) (dom (ip_ids p))
     \<and> (\<forall>i \<in> dom (ip_ids p). pool_id_ok i) \<and> ip_id p \<le> OGS_MAX_POOL_ID"

text \<open>The next id is not in use: it always holds before the id counter has wrapped around.\<close>

definition idpool_fresh :: "idpool \<Rightarrow> bool" where
  "idpool_fresh p \<longleftrightarrow> OGS_NEXT_ID (ip_id p) 1 OGS_MAX_POOL_ID \<notin> dom (ip_ids p)"

lemma idpool_init_inv [inv_intros]: "old_id \<le> OGS_MAX_POOL_ID \<Longrightarrow> idpool_inv (idpool_init n old_id)"
  by (auto simp: idpool_inv_def idpool_init_def)

lemma idpool_calloc_inv:
  assumes "idpool_inv p" "idpool_fresh p" "idpool_calloc p = (Some (node, i), p')"
  shows "idpool_inv p'" "ip_ids p' = (ip_ids p)(i \<mapsto> node)" "i \<notin> dom (ip_ids p)" "pool_id_ok i"
    "node \<notin> ran (ip_ids p)" "node < ip_size p" "ip_size p' = ip_size p" "ip_free p = node # ip_free p'"
proof -
  obtain rest where free: "ip_free p = node # rest" and i: "i = OGS_NEXT_ID (ip_id p) 1 OGS_MAX_POOL_ID"
    and p': "p' = p\<lparr>ip_free := rest, ip_ids := (ip_ids p)(i \<mapsto> node), ip_id := i\<rparr>"
    using assms(3) by (auto simp: idpool_calloc_def Let_def split: list.splits)
  show fresh: "i \<notin> dom (ip_ids p)" using assms(2) i by (simp add: idpool_fresh_def)
  show ok: "pool_id_ok i" using OGS_NEXT_ID_ok assms(1) i by (simp add: idpool_inv_def)
  show node: "node \<notin> ran (ip_ids p)" "node < ip_size p" using assms(1) free by (auto simp: idpool_inv_def)
  show "ip_ids p' = (ip_ids p)(i \<mapsto> node)" "ip_size p' = ip_size p" "ip_free p = node # ip_free p'"
    by (simp_all add: p' free)
  have "inj_on ((ip_ids p)(i \<mapsto> node)) (insert i (dom (ip_ids p)))"
    using assms(1) fresh node(1) by (auto simp: idpool_inv_def inj_on_def ran_def)
  moreover have "ran ((ip_ids p)(i \<mapsto> node)) = insert node (ran (ip_ids p))"
    using fresh by (simp add: domIff)
  ultimately show "idpool_inv p'"
    using assms(1) free node ok by (auto simp: idpool_inv_def p' pool_id_ok_def)
qed

lemma idpool_free_inv:
  assumes "idpool_inv p" "ip_ids p i = Some node"
  shows "\<exists>p'. idpool_free p node i = Some p' \<and> idpool_inv p' \<and> ip_ids p' = (ip_ids p)(i := None)
           \<and> ip_free p' = ip_free p @ [node] \<and> ip_size p' = ip_size p \<and> ip_id p' = ip_id p"
proof -
  have ok: "pool_id_ok i" using assms by (auto simp: idpool_inv_def)
  have node: "node < ip_size p" "node \<notin> set (ip_free p)" using assms by (auto simp: idpool_inv_def ran_def)
  have "set (ip_free p) \<subset> {..<ip_size p}" using assms(1) node by (auto simp: idpool_inv_def)
  then have "card (set (ip_free p)) < ip_size p" by (metis card_lessThan finite_lessThan psubset_card_mono)
  then have len: "length (ip_free p) < ip_size p"
    using assms(1) by (simp add: idpool_inv_def distinct_card)
  have only: "j = i" if "ip_ids p j = Some node" for j
    using assms that by (auto simp: idpool_inv_def inj_on_def dom_def)
  have ran: "ran ((ip_ids p)(i := None)) = ran (ip_ids p) - {node}"
  proof (intro set_eqI iffI)
    show "n \<in> ran (ip_ids p) - {node}" if "n \<in> ran ((ip_ids p)(i := None))" for n
      using that only by (auto simp: ran_def split: if_splits)
    show "n \<in> ran ((ip_ids p)(i := None))" if n: "n \<in> ran (ip_ids p) - {node}" for n
    proof -
      obtain j where "ip_ids p j = Some n" "n \<noteq> node" using n by (auto simp: ran_def)
      then have "((ip_ids p)(i := None)) j = Some n" using assms(2) by auto
      then show ?thesis by (rule ranI)
    qed
  qed
  have "inj_on ((ip_ids p)(i := None)) (dom (ip_ids p) - {i})"
    using assms(1) by (auto simp: idpool_inv_def inj_on_def)
  then have "idpool_inv (p\<lparr>ip_ids := (ip_ids p)(i := None), ip_free := ip_free p @ [node]\<rparr>)"
    using assms(1) node ran by (auto simp: idpool_inv_def)
  then show ?thesis using ok len by (simp add: idpool_free_def)
qed

lemma idpool_size:
  "idpool_free p node i = Some p' \<Longrightarrow> ip_size p' = ip_size p" "ip_size (snd (idpool_calloc p)) = ip_size p"
  by (auto simp: idpool_free_def idpool_calloc_def Let_def split: if_splits list.splits)

section \<open>The interface of a pool with ids\<close>

text \<open>What the transaction layers rely on: allocation hands out a node that was free under an id
  that was not in use, lookup by id finds exactly the nodes in use, and a freed id finds
  nothing.\<close>

locale id_pool =
  fixes ok :: "'p \<Rightarrow> bool" and calloc :: "'p \<Rightarrow> (nat \<times> nat) option \<times> 'p"
    and release :: "'p \<Rightarrow> nat \<Rightarrow> nat \<Rightarrow> 'p option" and find :: "'p \<Rightarrow> nat \<Rightarrow> nat option"
    and fresh :: "'p \<Rightarrow> bool" and avail :: "'p \<Rightarrow> nat set"
  assumes calloc_Some: "ok p \<Longrightarrow> fresh p \<Longrightarrow> calloc p = (Some (node, i), p') \<Longrightarrow>
      ok p' \<and> find p i = None \<and> find p' = (find p)(i \<mapsto> node)
      \<and> node \<in> avail p \<and> avail p' = avail p - {node}"
    and calloc_None: "calloc p = (None, p') \<Longrightarrow> p' = p \<and> avail p = {}"
    and release_ok: "ok p \<Longrightarrow> find p i = Some node \<Longrightarrow>
      \<exists>p'. release p node i = Some p' \<and> ok p' \<and> find p' = (find p)(i := None)
        \<and> avail p' = insert node (avail p)"
    and used_not_avail: "ok p \<Longrightarrow> find p i = Some node \<Longrightarrow> node \<notin> avail p"
    and find_inj: "ok p \<Longrightarrow> find p i = Some node \<Longrightarrow> find p j = Some node \<Longrightarrow> i = j"
begin

text \<open>A node in use is not handed out again, and its id keeps finding it.\<close>

lemma calloc_preserves:
  assumes "ok p" "fresh p" "calloc p = (Some (node, i), p')" "find p j = Some n"
  shows "find p' j = Some n" "node \<noteq> n" "j \<noteq> i"
proof -
  have c: "find p i = None" "find p' = (find p)(i \<mapsto> node)" "node \<in> avail p"
    using calloc_Some [OF assms(1-3)] by blast+
  show "node \<noteq> n" using c(3) used_not_avail [OF assms(1,4)] by blast
  show "j \<noteq> i" using c(1) assms(4) by auto
  then show "find p' j = Some n" using c(2) assms(4) by simp
qed

text \<open>Releasing what was just allocated gives back the same table and the same free nodes.\<close>

lemma calloc_release:
  assumes "ok p" "fresh p" "calloc p = (Some (node, i), p')"
  shows "\<exists>p''. release p' node i = Some p'' \<and> ok p'' \<and> find p'' = find p \<and> avail p'' = avail p"
proof -
  have c: "ok p'" "find p i = None" "find p' = (find p)(i \<mapsto> node)"
    "node \<in> avail p" "avail p' = avail p - {node}"
    using calloc_Some [OF assms] by blast+
  have "find p' i = Some node" using c(3) by simp
  then obtain p'' where "release p' node i = Some p''" "ok p''" "find p'' = (find p')(i := None)"
    "avail p'' = insert node (avail p')"
    using release_ok [OF c(1)] by blast
  moreover have "find p'' = find p" using calculation(3) c(2,3) by (simp add: fun_upd_idem)
  moreover have "avail p'' = avail p" using calculation(4) c(4,5) by (simp add: insert_absorb)
  ultimately show ?thesis by blast
qed

text \<open>A stale id: after a release, the id of the released node finds nothing, and every other id
  finds what it found.\<close>

lemma release_find:
  assumes "ok p" "find p i = Some node" "release p node i = Some p'"
  shows "find p' j = (if j = i then None else find p j)"
  using release_ok [OF assms(1,2)] assms(3) by auto

end

interpretation idp: id_pool idpool_inv idpool_calloc idpool_free ip_ids idpool_fresh "\<lambda>p. set (ip_free p)"
proof
  fix p p' node i
  assume "idpool_inv p" "idpool_fresh p" "idpool_calloc p = (Some (node, i), p')"
  note c = idpool_calloc_inv [OF this]
  have "distinct (ip_free p)" using \<open>idpool_inv p\<close> by (simp add: idpool_inv_def)
  then show "idpool_inv p' \<and> ip_ids p i = None \<and> ip_ids p' = (ip_ids p)(i \<mapsto> node)
      \<and> node \<in> set (ip_free p) \<and> set (ip_free p') = set (ip_free p) - {node}"
    using c by auto
next
  show "p' = p \<and> set (ip_free p) = {}" if "idpool_calloc p = (None, p')" for p p'
    using that by (auto simp: idpool_calloc_def Let_def split: list.splits)
next
  show "\<exists>p'. idpool_free p node i = Some p' \<and> idpool_inv p' \<and> ip_ids p' = (ip_ids p)(i := None)
      \<and> set (ip_free p') = insert node (set (ip_free p))"
    if "idpool_inv p" "ip_ids p i = Some node" for p i node
    using idpool_free_inv [OF that] by auto
next
  show "node \<notin> set (ip_free p)" if "idpool_inv p" "ip_ids p i = Some node" for p i node
    using that by (auto simp: idpool_inv_def ran_def)
next
  show "i = j" if "idpool_inv p" "ip_ids p i = Some node" "ip_ids p j = Some node" for p i j node
    using that by (auto simp: idpool_inv_def inj_on_def dom_def)
qed

section \<open>Runs of a pool\<close>

text \<open>How the callers use a pool with ids: they allocate, keep the id, and later release the node
  the id finds, if it still finds one. A run records the nodes and ids handed out, in order, and
  the ids released.\<close>

datatype pool_op = PAlloc | PFree nat

record pool_state =
  ps_pool :: ogs_pool
  ps_granted :: "(nat \<times> nat) list"
  ps_released :: "nat list"

fun pool_do :: "pool_op \<Rightarrow> pool_state \<Rightarrow> pool_state option" where
  "pool_do PAlloc s =
     do { (r, p) \<leftarrow> ogs_pool_id_calloc (ps_pool s);
          Some (s\<lparr>ps_pool := p,
                  ps_granted := ps_granted s @ (case r of None \<Rightarrow> [] | Some g \<Rightarrow> [g])\<rparr>) }"
| "pool_do (PFree i) s =
     do { r \<leftarrow> ogs_pool_find_by_id (ps_pool s) i;
          case r of
            None \<Rightarrow> Some s
          | Some node \<Rightarrow>
              do { p \<leftarrow> ogs_pool_id_free (ps_pool s) node i;
                   Some (s\<lparr>ps_pool := p, ps_released := ps_released s @ [i]\<rparr>) } }"

fun pool_run :: "pool_op list \<Rightarrow> pool_state \<Rightarrow> pool_state option" where
  "pool_run [] s = Some s"
| "pool_run (x # xs) s = do { s' \<leftarrow> pool_do x s; pool_run xs s' }"

definition pool_start :: "nat \<Rightarrow> u32 \<Rightarrow> nat \<Rightarrow> pool_state" where
  "pool_start n seed old_id =
     \<lparr>ps_pool = ogs_pool_init n seed old_id, ps_granted = [], ps_released = []\<rparr>"

text \<open>The id handed out as number \<open>k\<close> (from 0) by a pool whose counter started at \<open>old_id\<close>.\<close>

definition nth_id :: "nat \<Rightarrow> nat \<Rightarrow> nat" where
  "nth_id old_id k = (old_id + k) mod OGS_MAX_POOL_ID + 1"

definition pool_run_inv :: "nat \<Rightarrow> pool_state \<Rightarrow> bool" where
  "pool_run_inv old_id s \<longleftrightarrow>
     pool_inv (ps_pool s) \<and> idpool_inv (pool_abs (ps_pool s))
     \<and> h_count (p_id_hash (ps_pool s)) \<le> length (ps_granted s)
     \<and> p_id (ps_pool s) mod OGS_MAX_POOL_ID = (old_id + length (ps_granted s)) mod OGS_MAX_POOL_ID
     \<and> map snd (ps_granted s) = map (nth_id old_id) [0..<length (ps_granted s)]
     \<and> set (ps_released s) \<subseteq> snd ` set (ps_granted s)
     \<and> (\<forall>node i. ip_ids (pool_abs (ps_pool s)) i = Some node \<longleftrightarrow>
          (node, i) \<in> set (ps_granted s) \<and> i \<notin> set (ps_released s))"

lemma OGS_NEXT_ID_mod: "i \<le> mx \<Longrightarrow> 0 < mx \<Longrightarrow> OGS_NEXT_ID i 1 mx = i mod mx + 1"
  by (auto simp: OGS_NEXT_ID_def)

lemma nth_id_distinct: "n \<le> OGS_MAX_POOL_ID \<Longrightarrow> distinct (map (nth_id old_id) [0..<n])"
proof -
  assume n: "n \<le> OGS_MAX_POOL_ID"
  have "nth_id old_id j \<noteq> nth_id old_id k" if "j < k" "k < n" for j k
    using ring_pos_neq [OF that(1), of OGS_MAX_POOL_ID old_id] that n by (simp add: nth_id_def)
  then have "inj_on (nth_id old_id) {0..<n}"
    by (intro inj_onI) (metis atLeastLessThan_iff linorder_neqE_nat)
  then show ?thesis by (simp add: distinct_map)
qed

lemma pool_run_inv_start: "old_id \<le> OGS_MAX_POOL_ID \<Longrightarrow> pool_run_inv old_id (pool_start n seed old_id)"
  using ogs_pool_init_refines [of old_id n seed] idpool_init_inv [of old_id n]
  by (simp add: pool_run_inv_def pool_start_def)
    (simp add: idpool_init_def ogs_pool_init_def ogs_hash_make_def)

text \<open>The next id has not been handed out yet: the counter runs through all ids before it comes
  back to the first.\<close>

lemma pool_next_id_new:
  assumes inv: "pool_run_inv old_id s" and few: "length (ps_granted s) < OGS_MAX_POOL_ID"
  shows "OGS_NEXT_ID (p_id (ps_pool s)) 1 OGS_MAX_POOL_ID = nth_id old_id (length (ps_granted s))"
    and "nth_id old_id (length (ps_granted s)) \<notin> snd ` set (ps_granted s)"
proof -
  have "p_id (ps_pool s) \<le> OGS_MAX_POOL_ID" using inv by (simp add: pool_run_inv_def pool_inv_def)
  then show "OGS_NEXT_ID (p_id (ps_pool s)) 1 OGS_MAX_POOL_ID = nth_id old_id (length (ps_granted s))"
    using inv few OGS_NEXT_ID_mod [of "p_id (ps_pool s)" OGS_MAX_POOL_ID]
    by (simp add: pool_run_inv_def nth_id_def)
  have ids: "snd ` set (ps_granted s) = nth_id old_id ` {0..<length (ps_granted s)}"
    using inv unfolding pool_run_inv_def by (metis list.set_map set_upt)
  have "distinct (map (nth_id old_id) [0..<Suc (length (ps_granted s))])"
    using few by (intro nth_id_distinct) simp
  then show "nth_id old_id (length (ps_granted s)) \<notin> snd ` set (ps_granted s)"
    by (simp add: ids)
qed

lemma pool_do_alloc:
  assumes inv: "pool_run_inv old_id s" and few: "Suc (length (ps_granted s)) < OGS_MAX_POOL_ID"
  shows "\<exists>s'. pool_do PAlloc s = Some s' \<and> pool_run_inv old_id s'
           \<and> length (ps_granted s') \<le> Suc (length (ps_granted s))"
proof -
  let ?p = "ps_pool s" and ?k = "length (ps_granted s)"
  have few': "?k < OGS_MAX_POOL_ID" using few by simp
  note nid = pool_next_id_new [OF inv few']
  have pinv: "pool_inv ?p" "idpool_inv (pool_abs ?p)" using inv by (simp_all add: pool_run_inv_def)
  have room: "hash_room (p_id_hash ?p)"
    using inv few by (simp add: pool_run_inv_def hash_room_def OGS_MAX_POOL_ID_def)
  obtain r p' where r: "ogs_pool_id_calloc ?p = Some (r, p')" "pool_inv p'"
    "idpool_calloc (pool_abs ?p) = (r, pool_abs p')"
    using ogs_pool_id_calloc_refines [OF pinv(1) room] by blast
  show ?thesis
  proof (cases r)
    case None
    then have "p' = ?p"
      using r(1) by (auto simp: ogs_pool_id_calloc_def ogs_pool_alloc_def Let_def split: bind_splits if_splits)
    then show ?thesis using r None inv by simp
  next
    case (Some g)
    obtain node i where g: "g = (node, i)" by (cases g)
    have i: "i = nth_id old_id ?k" "p_id p' = i"
      using r(3) nid(1) Some g
      by (auto simp: idpool_calloc_def pool_abs_def Let_def split: list.splits)
    have unused: "i \<notin> snd ` set (ps_granted s)" "i \<notin> set (ps_released s)"
      using nid(2) i inv by (auto simp: pool_run_inv_def)
    have "i \<notin> dom (ip_ids (pool_abs ?p))"
      using unused(1) inv by (force simp: pool_run_inv_def)
    then have fresh: "idpool_fresh (pool_abs ?p)"
      using nid(1) i by (simp add: idpool_fresh_def pool_abs_def)
    note c = idpool_calloc_inv [OF pinv(2) fresh r(3) [unfolded Some g]]
    have cnt: "h_count (p_id_hash p') \<le> Suc ?k"
      using ogs_pool_id_calloc_count [OF pinv(1) room r(1) [unfolded Some g]] inv
      by (simp add: pool_run_inv_def)
    have md: "p_id p' mod OGS_MAX_POOL_ID = (old_id + Suc ?k) mod OGS_MAX_POOL_ID"
      using i by (simp add: nth_id_def mod_Suc_eq)
    let ?s = "s\<lparr>ps_pool := p', ps_granted := ps_granted s @ [(node, i)]\<rparr>"
    have "ip_ids (pool_abs p') j = Some n \<longleftrightarrow>
        (n, j) \<in> set (ps_granted ?s) \<and> j \<notin> set (ps_released ?s)" for n j
      using inv c(2) unused by (auto simp: pool_run_inv_def image_iff)
    then have "pool_run_inv old_id ?s"
      using inv c(1) r(2) cnt md i(1) unfolding pool_run_inv_def by auto
    then show ?thesis using r(1) Some g by simp
  qed
qed

lemma pool_do_free:
  assumes inv: "pool_run_inv old_id s" and i: "i \<le> OGS_MAX_POOL_ID"
  shows "\<exists>s'. pool_do (PFree i) s = Some s' \<and> pool_run_inv old_id s'
           \<and> ps_granted s' = ps_granted s"
proof -
  let ?p = "ps_pool s"
  have pinv: "pool_inv ?p" "idpool_inv (pool_abs ?p)" using inv by (simp_all add: pool_run_inv_def)
  note find = ogs_pool_find_by_id_refines [OF pinv(1) i]
  show ?thesis
  proof (cases "ip_ids (pool_abs ?p) i")
    case None
    then show ?thesis using find inv by simp
  next
    case (Some node)
    then have "node \<in> ran (ip_ids (pool_abs ?p))" by (rule ranI)
    then have node: "node < p_size ?p" using pinv(2) by (auto simp: idpool_inv_def pool_abs_def)
    obtain a where a: "idpool_free (pool_abs ?p) node i = Some a" "idpool_inv a"
      "ip_ids a = (ip_ids (pool_abs ?p))(i := None)" "ip_id a = ip_id (pool_abs ?p)"
      using idpool_free_inv [OF pinv(2) Some] by blast
    obtain p' where p': "ogs_pool_id_free ?p node i = Some p'" "pool_inv p'" "a = pool_abs p'"
      using ogs_pool_id_free_refines [OF pinv(1) node, of i] a(1)
      by (auto split: option.splits)
    have cnt: "h_count (p_id_hash p') \<le> h_count (p_id_hash ?p)"
      by (rule ogs_pool_id_free_count [OF pinv(1) p'(1)])
    have pid: "p_id p' = p_id ?p" using a(4) p'(3) by (simp add: pool_abs_def)
    have gr: "i \<in> snd ` set (ps_granted s)" using Some inv by (force simp: pool_run_inv_def)
    let ?s = "s\<lparr>ps_pool := p', ps_released := ps_released s @ [i]\<rparr>"
    have "ip_ids (pool_abs p') j = Some n \<longleftrightarrow>
        (n, j) \<in> set (ps_granted ?s) \<and> j \<notin> set (ps_released ?s)" for n j
      using inv a(3) p'(3) by (auto simp: pool_run_inv_def)
    then have "pool_run_inv old_id ?s"
      using inv a(2) p'(2,3) cnt pid gr unfolding pool_run_inv_def by auto
    then show ?thesis using find Some p'(1) by simp
  qed
qed

lemma pool_run_ok:
  assumes "pool_run_inv old_id s" "\<forall>i. PFree i \<in> set xs \<longrightarrow> i \<le> OGS_MAX_POOL_ID"
    and "length (ps_granted s) + count_list xs PAlloc < OGS_MAX_POOL_ID"
  shows "\<exists>s'. pool_run xs s = Some s' \<and> pool_run_inv old_id s'
           \<and> length (ps_granted s') < OGS_MAX_POOL_ID"
  using assms
proof (induction xs arbitrary: s)
  case Nil
  then show ?case by simp
next
  case (Cons x xs)
  have "\<exists>s'. pool_do x s = Some s' \<and> pool_run_inv old_id s'
      \<and> length (ps_granted s') + count_list xs PAlloc < OGS_MAX_POOL_ID"
  proof (cases x)
    case PAlloc
    then show ?thesis using pool_do_alloc [OF Cons.prems(1)] Cons.prems(3) by fastforce
  next
    case (PFree i)
    then show ?thesis using pool_do_free [OF Cons.prems(1), of i] Cons.prems(2,3) by fastforce
  qed
  then show ?case using Cons.IH Cons.prems(2) by fastforce
qed

text \<open>The nodes still in use are distinct.\<close>

lemma pool_run_inv_live_distinct:
  assumes inv: "pool_run_inv old_id s" and few: "length (ps_granted s) \<le> OGS_MAX_POOL_ID"
  shows "distinct (map fst (filter (\<lambda>(node, i). i \<notin> set (ps_released s)) (ps_granted s)))"
proof -
  let ?gs = "filter (\<lambda>(node, i). i \<notin> set (ps_released s)) (ps_granted s)"
  have ids: "distinct (map snd (ps_granted s))"
    using inv nth_id_distinct [OF few] by (simp add: pool_run_inv_def)
  then have "distinct ?gs" by (simp add: distinct_map)
  moreover have "inj_on fst (set ?gs)"
  proof (rule inj_onI)
    fix x y assume x: "x \<in> set ?gs" and y: "y \<in> set ?gs" and "fst x = fst y"
    have live: "ip_ids (pool_abs (ps_pool s)) (snd z) = Some (fst z)" if "z \<in> set ?gs" for z
      using that inv by (auto simp: pool_run_inv_def)
    have "idpool_inv (pool_abs (ps_pool s))" using inv by (simp add: pool_run_inv_def)
    then have "snd x = snd y" using idp.find_inj live [OF x] live [OF y] \<open>fst x = fst y\<close> by auto
    then show "x = y" using \<open>fst x = fst y\<close> by (simp add: prod_eq_iff)
  qed
  ultimately show ?thesis by (simp add: distinct_map)
qed

section \<open>Properties\<close>

text \<open>C7. The ring of free nodes and the id hash table refine the abstract pool: on every pool
  that satisfies the ring and table invariants, allocation with an id never aborts and gives
  the node, the id and the next state of the abstract pool, and releasing a node of the pool
  aborts exactly when the id is out of range and otherwise gives the abstract next state.\<close>

theorem pool_refines_idpool:
  assumes "pool_inv p" "hash_room (p_id_hash p)" "node < p_size p"
  shows "(\<exists>r p'. ogs_pool_id_calloc p = Some (r, p') \<and> pool_inv p'
            \<and> idpool_calloc (pool_abs p) = (r, pool_abs p'))
     \<and> (case ogs_pool_id_free p node i of
          None \<Rightarrow> \<not> pool_id_ok i
        | Some p' \<Rightarrow> pool_inv p' \<and> idpool_free (pool_abs p) node i = Some (pool_abs p'))"
proof -
  have "idpool_free (pool_abs p) node i = None \<longleftrightarrow> \<not> pool_id_ok i" by (simp add: idpool_free_def)
  then show ?thesis
    using ogs_pool_id_calloc_refines [OF assms(1,2)] ogs_pool_id_free_refines [OF assms(1,3), of i]
    by (cases "ogs_pool_id_free p node i") simp_all
qed

theorem pool_refines_idpool_witness:
  "\<exists>r p'. ogs_pool_id_calloc (ogs_pool_init 3 0 0) = Some (r, p') \<and> pool_inv p'
     \<and> idpool_calloc (pool_abs (ogs_pool_init 3 0 0)) = (r, pool_abs p')"
  using pool_refines_idpool [of "ogs_pool_init 3 0 0" 0 1] ogs_pool_init_refines [of 0 3 0]
  by (simp add: hash_room_def ogs_pool_init_def ogs_hash_make_def)

text \<open>C8. Ids of a pool are never ambiguous: in every run of fewer than \<open>OGS_MAX_POOL_ID\<close>
  allocations and any number of releases on a new pool (its counter carried over from
  \<open>old_id\<close>), nothing aborts; the ids handed out are pairwise distinct, also when the node is
  one that was released before; an id that has been handed out finds exactly its own node until
  it is released and nothing ever after; an id never handed out finds nothing; and the nodes in
  use are distinct. That no id comes back is what the id counter achieves, not an assumption.\<close>

theorem pool_stale_id_safe:
  assumes "old_id \<le> OGS_MAX_POOL_ID" "count_list xs PAlloc < OGS_MAX_POOL_ID"
    and "\<forall>i. PFree i \<in> set xs \<longrightarrow> i \<le> OGS_MAX_POOL_ID"
  shows "\<exists>s. pool_run xs (pool_start n seed old_id) = Some s
     \<and> distinct (map snd (ps_granted s))
     \<and> (\<forall>node i. (node, i) \<in> set (ps_granted s) \<longrightarrow>
          ogs_pool_find_by_id (ps_pool s) i
            = Some (if i \<in> set (ps_released s) then None else Some node))
     \<and> (\<forall>i \<le> OGS_MAX_POOL_ID. i \<notin> snd ` set (ps_granted s) \<longrightarrow>
          ogs_pool_find_by_id (ps_pool s) i = Some None)
     \<and> distinct (map fst (filter (\<lambda>(node, i). i \<notin> set (ps_released s)) (ps_granted s)))"
proof -
  have "length (ps_granted (pool_start n seed old_id)) + count_list xs PAlloc < OGS_MAX_POOL_ID"
    using assms(2) by (simp add: pool_start_def)
  then obtain s where s: "pool_run xs (pool_start n seed old_id) = Some s" and inv: "pool_run_inv old_id s"
    and few: "length (ps_granted s) \<le> OGS_MAX_POOL_ID"
    using pool_run_ok [OF pool_run_inv_start [OF assms(1)] assms(3)] less_imp_le by blast
  have ids: "distinct (map snd (ps_granted s))"
    using inv nth_id_distinct [OF few] by (simp add: pool_run_inv_def)
  have pinv: "pool_inv (ps_pool s)" using inv by (simp add: pool_run_inv_def)
  have tab: "ip_ids (pool_abs (ps_pool s)) i = Some node \<longleftrightarrow>
      (node, i) \<in> set (ps_granted s) \<and> i \<notin> set (ps_released s)" for i node
    using inv by (simp add: pool_run_inv_def)
  have none: "ip_ids (pool_abs (ps_pool s)) i = None"
    if "i \<notin> snd ` set (ps_granted s) \<or> i \<in> set (ps_released s)" for i
    using that tab by (cases "ip_ids (pool_abs (ps_pool s)) i") (auto simp: image_iff)
  have le: "i \<le> OGS_MAX_POOL_ID" if "(node, i) \<in> set (ps_granted s)" for node i
  proof -
    have "i \<in> set (map snd (ps_granted s))" using that by force
    moreover have "map snd (ps_granted s) = map (nth_id old_id) [0..<length (ps_granted s)]"
      using inv by (simp add: pool_run_inv_def)
    ultimately have "i \<in> set (map (nth_id old_id) [0..<length (ps_granted s)])" by argo
    then show ?thesis by (auto simp: nth_id_def OGS_MAX_POOL_ID_def Suc_le_eq)
  qed
  have "ogs_pool_find_by_id (ps_pool s) i
      = Some (if i \<in> set (ps_released s) then None else Some node)"
    if "(node, i) \<in> set (ps_granted s)" for node i
    using ogs_pool_find_by_id_refines [OF pinv le [OF that]] none [of i] tab [of i node] that by simp
  moreover have "ogs_pool_find_by_id (ps_pool s) i = Some None"
    if "i \<le> OGS_MAX_POOL_ID" "i \<notin> snd ` set (ps_granted s)" for i
    using ogs_pool_find_by_id_refines [OF pinv that(1)] none [of i] that(2) by simp
  ultimately show ?thesis using s ids pool_run_inv_live_distinct [OF inv few] by blast
qed

text \<open>A pool of one node: it is handed out, released and handed out again. The first id, stale
  now, finds nothing and the second one finds the node.\<close>

theorem pool_stale_id_safe_witness:
  "\<exists>s. pool_run [PAlloc, PFree 1, PAlloc] (pool_start 1 0 0) = Some s
     \<and> ps_granted s = [(0, 1), (0, 2)] \<and> ps_released s = [1]
     \<and> ogs_pool_find_by_id (ps_pool s) 1 = Some None
     \<and> ogs_pool_find_by_id (ps_pool s) 2 = Some (Some 0)"
proof -
  let ?p0 = "ogs_pool_init 1 0 0" and ?xs = "[PAlloc, PFree 1, PAlloc]"
  note abs_simps = idpool_init_def idpool_calloc_def idpool_free_def OGS_NEXT_ID_def OGS_MAX_POOL_ID_def
    pool_id_ok_def OGS_MIN_POOL_ID_def
  have init: "pool_inv ?p0" "pool_abs ?p0 = idpool_init 1 0" "hash_room (p_id_hash ?p0)"
    using ogs_pool_init_refines [of 0 1 0]
    by (simp_all add: OGS_MAX_POOL_ID_def hash_room_def ogs_pool_init_def ogs_hash_make_def)
  obtain p where p: "ogs_pool_id_calloc ?p0 = Some (Some (0, 1), p)" "pool_inv p"
    and ap: "pool_abs p = \<lparr>ip_free = [], ip_size = 1, ip_ids = [1 \<mapsto> 0], ip_id = 1\<rparr>"
    using ogs_pool_id_calloc_refines [OF init(1,3)] init(2) by (auto simp: abs_simps)
  have count: "h_count (p_id_hash p) \<le> 1"
    using ogs_pool_id_calloc_count [OF init(1,3) p(1)] by (simp add: ogs_pool_init_def ogs_hash_make_def)
  have found: "ogs_pool_find_by_id p 1 = Some (Some 0)"
    using ogs_pool_find_by_id_refines [OF p(2), of 1] ap by (simp add: OGS_MAX_POOL_ID_def)
  have "p_size p = 1" using arg_cong [OF ap, of ip_size] by (simp add: pool_abs_def)
  then obtain p1 where p1: "ogs_pool_id_free p 0 1 = Some p1" "pool_inv p1"
    and ap1: "pool_abs p1 = \<lparr>ip_free = [0], ip_size = 1, ip_ids = Map.empty, ip_id = 1\<rparr>"
    using ogs_pool_id_free_refines [OF p(2), of 0 1] ap
    by (auto simp: abs_simps split: option.splits)
  have room: "hash_room (p_id_hash p1)"
    using ogs_pool_id_free_count [OF p(2) p1(1)] count by (simp add: hash_room_def)
  obtain p2 where p2: "ogs_pool_id_calloc p1 = Some (Some (0, 2), p2)"
    using ogs_pool_id_calloc_refines [OF p1(2) room] ap1 by (auto simp: abs_simps)
  let ?s = "\<lparr>ps_pool = p2, ps_granted = [(0, 1), (0, 2)], ps_released = [1]\<rparr>"
  have run: "pool_run ?xs (pool_start 1 0 0) = Some ?s"
    using p(1) found p1(1) p2 by (simp add: pool_start_def)
  have "\<forall>node i. (node, i) \<in> set (ps_granted ?s) \<longrightarrow>
      ogs_pool_find_by_id (ps_pool ?s) i = Some (if i \<in> set (ps_released ?s) then None else Some node)"
    using pool_stale_id_safe [of 0 ?xs 1 0] run by (simp add: OGS_MAX_POOL_ID_def del: pool_run.simps)
  then show ?thesis using run by (intro exI [of _ ?s]) (simp del: pool_run.simps)
qed

end
