(* ===== verification/Ogs_Rbtree.thy ===== *)
theory Ogs_Rbtree
  imports Prelude "HOL-Library.Monad_Syntax"
begin

text \<open>
  The intrusive red-black tree of \<open>src/lib/core/ogs-rbtree.c\<close> and \<open>ogs-rbtree.h\<close>, at the level of
  its pointers. A node is an address; the memory maps addresses to nodes, the tree is its root
  pointer and the memory. A null pointer that is followed, or a failed assertion, is the result
  \<open>None\<close>; so is a loop that does not end.

  The code writes its rebalancing cases twice, once for each side. The model has each case once,
  with the side as a parameter: \<open>child s\<close> is the left child for \<open>Lft\<close> and the right child for \<open>Rgt\<close>,
  \<open>rb_rotate s\<close> is the rotation of that name.
\<close>

datatype ogs_rbtree_color_e = OGS_RBTREE_BLACK | OGS_RBTREE_RED

record rbnode =
  rb_parent :: "nat option"
  rb_left :: "nat option"
  rb_right :: "nat option"
  rb_color :: ogs_rbtree_color_e

record rbtree =
  rb_root :: "nat option"
  rb_mem :: "nat \<Rightarrow> rbnode"

datatype side = Lft | Rgt

fun opp :: "side \<Rightarrow> side" where
  "opp Lft = Rgt"
| "opp Rgt = Lft"

definition child :: "side \<Rightarrow> rbnode \<Rightarrow> nat option" where
  "child s n = (case s of Lft \<Rightarrow> rb_left n | Rgt \<Rightarrow> rb_right n)"

definition set_child :: "side \<Rightarrow> nat option \<Rightarrow> rbnode \<Rightarrow> rbnode" where
  "set_child s p n = (case s of Lft \<Rightarrow> n\<lparr>rb_left := p\<rparr> | Rgt \<Rightarrow> n\<lparr>rb_right := p\<rparr>)"

text \<open>An assignment to a field of the node at an address.\<close>

definition upd_node :: "nat \<Rightarrow> (rbnode \<Rightarrow> rbnode) \<Rightarrow> rbtree \<Rightarrow> rbtree" where
  "upd_node a f tree = tree\<lparr>rb_mem := (rb_mem tree)(a := f (rb_mem tree a))\<rparr>"

definition set_parent :: "nat option \<Rightarrow> nat option \<Rightarrow> rbtree \<Rightarrow> rbtree" where
  "set_parent a p tree = (case a of None \<Rightarrow> tree | Some a \<Rightarrow> upd_node a (\<lambda>n. n\<lparr>rb_parent := p\<rparr>) tree)"

definition set_color :: "nat \<Rightarrow> ogs_rbtree_color_e \<Rightarrow> rbtree \<Rightarrow> rbtree" where
  "set_color a c tree = upd_node a (\<lambda>n. n\<lparr>rb_color := c\<rparr>) tree"

definition rb_is_black :: "rbtree \<Rightarrow> nat option \<Rightarrow> bool" where
  "rb_is_black tree r = (case r of None \<Rightarrow> True | Some a \<Rightarrow> rb_color (rb_mem tree a) = OGS_RBTREE_BLACK)"

section \<open>Rotations\<close>

definition rb_change_child :: "rbtree \<Rightarrow> nat \<Rightarrow> nat option \<Rightarrow> nat option \<Rightarrow> rbtree" where
  "rb_change_child tree old new parent =
     (case parent of
        Some p \<Rightarrow>
          if Some old = rb_left (rb_mem tree p)
          then upd_node p (\<lambda>n. n\<lparr>rb_left := new\<rparr>) tree
          else upd_node p (\<lambda>n. n\<lparr>rb_right := new\<rparr>) tree
      | None \<Rightarrow> tree\<lparr>rb_root := new\<rparr>)"

definition rb_replace_node :: "rbtree \<Rightarrow> nat \<Rightarrow> nat option \<Rightarrow> nat option \<Rightarrow> rbtree" where
  "rb_replace_node tree old new parent = set_parent new parent (rb_change_child tree old new parent)"

definition rb_rotate_left :: "rbtree \<Rightarrow> nat \<Rightarrow> rbtree option" where
  "rb_rotate_left tree node =
     do { right \<leftarrow> rb_right (rb_mem tree node);
          let rl = rb_left (rb_mem tree right);
          let tree = upd_node node (\<lambda>n. n\<lparr>rb_right := rl\<rparr>) tree;
          let tree = set_parent rl (Some node) tree;
          let tree = rb_replace_node tree node (Some right) (rb_parent (rb_mem tree node));
          let tree = upd_node right (\<lambda>n. n\<lparr>rb_left := Some node\<rparr>) tree;
          Some (upd_node node (\<lambda>n. n\<lparr>rb_parent := Some right\<rparr>) tree) }"

definition rb_rotate_right :: "rbtree \<Rightarrow> nat \<Rightarrow> rbtree option" where
  "rb_rotate_right tree node =
     do { left \<leftarrow> rb_left (rb_mem tree node);
          let lr = rb_right (rb_mem tree left);
          let tree = upd_node node (\<lambda>n. n\<lparr>rb_left := lr\<rparr>) tree;
          let tree = set_parent lr (Some node) tree;
          let tree = rb_replace_node tree node (Some left) (rb_parent (rb_mem tree node));
          let tree = upd_node left (\<lambda>n. n\<lparr>rb_right := Some node\<rparr>) tree;
          Some (upd_node node (\<lambda>n. n\<lparr>rb_parent := Some left\<rparr>) tree) }"

definition rb_rotate :: "side \<Rightarrow> rbtree \<Rightarrow> nat \<Rightarrow> rbtree option" where
  "rb_rotate s = (case s of Lft \<Rightarrow> rb_rotate_left | Rgt \<Rightarrow> rb_rotate_right)"

section \<open>Insertion\<close>

text \<open>\<open>ogs_rbtree_link_node\<close>: the link is the root pointer or a child pointer of the parent.\<close>

definition ogs_rbtree_link_node :: "nat \<Rightarrow> (nat \<times> side) option \<Rightarrow> rbtree \<Rightarrow> rbtree" where
  "ogs_rbtree_link_node node link tree =
     (let tree = upd_node node (\<lambda>_. \<lparr>rb_parent = map_option fst link, rb_left = None, rb_right = None,
                                     rb_color = OGS_RBTREE_RED\<rparr>) tree
      in case link of
           None \<Rightarrow> tree\<lparr>rb_root := Some node\<rparr>
         | Some (p, s) \<Rightarrow> upd_node p (set_child s (Some node)) tree)"

text \<open>One round of the loop, for a red parent on side \<open>s\<close> of the grandparent.\<close>

definition rb_insert_side :: "side \<Rightarrow> rbtree \<Rightarrow> nat \<Rightarrow> nat \<Rightarrow> nat \<Rightarrow> (rbtree \<times> nat) option" where
  "rb_insert_side s tree node parent gparent =
     (let uncle = child (opp s) (rb_mem tree gparent)
      in if \<not> rb_is_black tree uncle
         then Some (set_color gparent OGS_RBTREE_RED
                (set_color parent OGS_RBTREE_BLACK
                  (case uncle of None \<Rightarrow> tree | Some u \<Rightarrow> set_color u OGS_RBTREE_BLACK tree)), gparent)
         else do {
           (tree, node) \<leftarrow>
             (if Some node = child (opp s) (rb_mem tree parent)
              then do { node \<leftarrow> rb_parent (rb_mem tree node);
                        tree \<leftarrow> rb_rotate s tree node;
                        Some (tree, node) }
              else Some (tree, node));
           p \<leftarrow> rb_parent (rb_mem tree node);
           let tree = set_color p OGS_RBTREE_BLACK tree;
           let tree = set_color gparent OGS_RBTREE_RED tree;
           tree \<leftarrow> rb_rotate (opp s) tree gparent;
           Some (tree, node) })"

partial_function (option) rb_insert_loop :: "rbtree \<Rightarrow> nat \<Rightarrow> rbtree option" where
  "rb_insert_loop tree node =
     (case rb_parent (rb_mem tree node) of
        None \<Rightarrow> Some tree
      | Some parent \<Rightarrow>
          if rb_color (rb_mem tree parent) \<noteq> OGS_RBTREE_RED then Some tree
          else do {
            gparent \<leftarrow> rb_parent (rb_mem tree parent);
            let s = (if Some parent = rb_left (rb_mem tree gparent) then Lft else Rgt);
            (tree, node) \<leftarrow> rb_insert_side s tree node parent gparent;
            rb_insert_loop tree node })"

declare rb_insert_loop.simps [code]

definition ogs_rbtree_insert_color :: "rbtree \<Rightarrow> nat \<Rightarrow> rbtree option" where
  "ogs_rbtree_insert_color tree node =
     do { tree \<leftarrow> rb_insert_loop tree node;
          root \<leftarrow> rb_root tree;
          Some (set_color root OGS_RBTREE_BLACK tree) }"

section \<open>Deletion\<close>

text \<open>One round of the loop of \<open>rb_delete_color\<close>, for the node on side \<open>s\<close> of its parent: case 4
  (\<open>rb_delete_far\<close>), case 3 (\<open>rb_delete_near\<close>), the part after case 1 (\<open>rb_delete_black\<close>), and the whole
  round with the tree and the next node and parent.\<close>

definition rb_delete_far :: "side \<Rightarrow> rbtree \<Rightarrow> nat \<Rightarrow> nat \<Rightarrow> rbtree option" where
  "rb_delete_far s tree parent sibling =
     do { let tree = set_color sibling (rb_color (rb_mem tree parent)) tree;
          let tree = set_color parent OGS_RBTREE_BLACK tree;
          far \<leftarrow> child (opp s) (rb_mem tree sibling);
          let tree = set_color far OGS_RBTREE_BLACK tree;
          rb_rotate s tree parent }"

definition rb_delete_near :: "side \<Rightarrow> rbtree \<Rightarrow> nat \<Rightarrow> nat \<Rightarrow> (rbtree \<times> nat) option" where
  "rb_delete_near s tree parent sibling =
     do { near \<leftarrow> child s (rb_mem tree sibling);
          let tree = set_color near OGS_RBTREE_BLACK tree;
          let tree = set_color sibling OGS_RBTREE_RED tree;
          tree \<leftarrow> rb_rotate (opp s) tree sibling;
          sibling \<leftarrow> child (opp s) (rb_mem tree parent);
          Some (tree, sibling) }"

definition rb_delete_black :: "side \<Rightarrow> rbtree \<Rightarrow> nat \<Rightarrow> nat \<Rightarrow> (rbtree \<times> nat option \<times> nat option) option" where
  "rb_delete_black s tree parent sibling =
     (if rb_is_black tree (rb_left (rb_mem tree sibling)) \<and> rb_is_black tree (rb_right (rb_mem tree sibling))
      then do { let tree = set_color sibling OGS_RBTREE_RED tree;
                Some (tree, Some parent, rb_parent (rb_mem tree parent)) }
      else do {
        (tree, sibling) \<leftarrow>
          (if rb_is_black tree (child (opp s) (rb_mem tree sibling))
           then rb_delete_near s tree parent sibling
           else Some (tree, sibling));
        tree \<leftarrow> rb_delete_far s tree parent sibling;
        Some (tree, rb_root tree, Some parent) })"

definition rb_delete_side :: "side \<Rightarrow> rbtree \<Rightarrow> nat \<Rightarrow> (rbtree \<times> nat option \<times> nat option) option" where
  "rb_delete_side s tree parent =
     do { sibling \<leftarrow> child (opp s) (rb_mem tree parent);
          (tree, sibling) \<leftarrow>
            (if rb_color (rb_mem tree sibling) = OGS_RBTREE_RED
             then do { let tree = set_color sibling OGS_RBTREE_BLACK tree;
                       let tree = set_color parent OGS_RBTREE_RED tree;
                       tree \<leftarrow> rb_rotate s tree parent;
                       sibling \<leftarrow> child (opp s) (rb_mem tree parent);
                       Some (tree, sibling) }
             else Some (tree, sibling));
          rb_delete_black s tree parent sibling }"

partial_function (option) rb_delete_loop :: "rbtree \<Rightarrow> nat option \<Rightarrow> nat option \<Rightarrow> (rbtree \<times> nat option) option" where
  "rb_delete_loop tree node parent =
     (if node = rb_root tree \<or> \<not> rb_is_black tree node then Some (tree, node)
      else do {
        p \<leftarrow> parent;
        let s = (if node = rb_left (rb_mem tree p) then Lft else Rgt);
        (tree, node, parent) \<leftarrow> rb_delete_side s tree p;
        rb_delete_loop tree node parent })"

declare rb_delete_loop.simps [code]

definition rb_delete_color :: "rbtree \<Rightarrow> nat option \<Rightarrow> nat option \<Rightarrow> rbtree option" where
  "rb_delete_color tree node parent =
     do { (tree, node) \<leftarrow> rb_delete_loop tree node parent;
          Some (case node of None \<Rightarrow> tree | Some n \<Rightarrow> set_color n OGS_RBTREE_BLACK tree) }"

partial_function (option) ogs_rbtree_min :: "rbtree \<Rightarrow> nat \<Rightarrow> nat option" where
  "ogs_rbtree_min tree node =
     (case rb_left (rb_mem tree node) of None \<Rightarrow> Some node | Some l \<Rightarrow> ogs_rbtree_min tree l)"

declare ogs_rbtree_min.simps [code]

text \<open>The node takes the place of its successor's: the third case of \<open>ogs_rbtree_delete\<close>, with the
  child and the parent where the colors are repaired.\<close>

definition rb_delete_inner :: "rbtree \<Rightarrow> nat \<Rightarrow> nat \<Rightarrow> nat \<Rightarrow> (rbtree \<times> nat option \<times> nat option \<times> ogs_rbtree_color_e) option" where
  "rb_delete_inner tree node l r =
     do { new \<leftarrow> ogs_rbtree_min tree r;
          let chld = rb_right (rb_mem tree new);
          let parent = rb_parent (rb_mem tree new);
          let color = rb_color (rb_mem tree new);
          let tree = upd_node new (\<lambda>n. n\<lparr>rb_left := Some l\<rparr>) tree;
          let tree = set_parent (Some l) (Some new) tree;
          (tree, parent) \<leftarrow>
            (if parent = Some node then Some (tree, Some new)
             else do {
               p \<leftarrow> parent;
               let tree = set_parent chld parent tree;
               let tree = upd_node p (\<lambda>n. n\<lparr>rb_left := chld\<rparr>) tree;
               let tree = upd_node new (\<lambda>n. n\<lparr>rb_right := Some r\<rparr>) tree;
               let tree = set_parent (Some r) (Some new) tree;
               Some (tree, parent) });
          let tree = set_color new (rb_color (rb_mem tree node)) tree;
          let tree = rb_replace_node tree node (Some new) (rb_parent (rb_mem tree node));
          Some (tree, chld, parent, color) }"

definition ogs_rbtree_delete :: "rbtree \<Rightarrow> nat \<Rightarrow> rbtree option" where
  "ogs_rbtree_delete tree node =
     do { let n = rb_mem tree node;
          (tree, chld, parent, color) \<leftarrow>
            (case (rb_left n, rb_right n) of
               (None, _) \<Rightarrow> Some (rb_replace_node tree node (rb_right n) (rb_parent n), rb_right n, rb_parent n, rb_color n)
             | (Some _, None) \<Rightarrow> Some (rb_replace_node tree node (rb_left n) (rb_parent n), rb_left n, rb_parent n, rb_color n)
             | (Some l, Some r) \<Rightarrow> rb_delete_inner tree node l r);
          if color = OGS_RBTREE_BLACK then rb_delete_color tree chld parent else Some tree }"

section \<open>Iteration\<close>

definition ogs_rbtree_first :: "rbtree \<Rightarrow> nat option option" where
  "ogs_rbtree_first tree =
     (case rb_root tree of None \<Rightarrow> Some None | Some node \<Rightarrow> map_option Some (ogs_rbtree_min tree node))"

text \<open>The climb of \<open>ogs_rbtree_next\<close>.\<close>

partial_function (option) rb_climb :: "rbtree \<Rightarrow> nat \<Rightarrow> nat option option" where
  "rb_climb tree node =
     (case rb_parent (rb_mem tree node) of
        None \<Rightarrow> Some None
      | Some p \<Rightarrow> if Some node = rb_right (rb_mem tree p) then rb_climb tree p else Some (Some p))"

declare rb_climb.simps [code]

definition ogs_rbtree_next :: "rbtree \<Rightarrow> nat \<Rightarrow> nat option option" where
  "ogs_rbtree_next tree node =
     (if rb_parent (rb_mem tree node) = Some node then Some None
      else case rb_right (rb_mem tree node) of
             Some r \<Rightarrow> map_option Some (ogs_rbtree_min tree r)
           | None \<Rightarrow> rb_climb tree node)"

end
