(* ===== verification/Ogs_Rbtree_Heap.thy ===== *)
theory Ogs_Rbtree_Heap
  imports Ogs_Rbtree
begin

text \<open>
  Trees on the heap of the red-black tree: an abstract tree of addresses, a context around a
  subtree as a list of frames (the path to the root, innermost first), and the relation of both to
  the pointers. The pointer operations are rotations, changes of color and replacements on the
  abstract tree, in any context.
\<close>

section \<open>Trees and contexts\<close>

datatype rbt = Lf | Nd ogs_rbtree_color_e rbt nat rbt

text \<open>A frame: the side of the hole, the color and the address of the node, and the subtree on the other
  side.\<close>

datatype frame = Fr side ogs_rbtree_color_e nat rbt

definition nd :: "side \<Rightarrow> ogs_rbtree_color_e \<Rightarrow> rbt \<Rightarrow> nat \<Rightarrow> rbt \<Rightarrow> rbt" where
  "nd s c t a u = (case s of Lft \<Rightarrow> Nd c t a u | Rgt \<Rightarrow> Nd c u a t)"

fun plug :: "frame list \<Rightarrow> rbt \<Rightarrow> rbt" where
  "plug [] t = t"
| "plug (Fr s c a u # k) t = plug k (nd s c t a u)"

fun ptr :: "rbt \<Rightarrow> nat option" where
  "ptr Lf = None"
| "ptr (Nd c l a r) = Some a"

fun ctx_parent :: "frame list \<Rightarrow> nat option" where
  "ctx_parent [] = None"
| "ctx_parent (Fr s c a u # k) = Some a"

fun inord :: "rbt \<Rightarrow> nat list" where
  "inord Lf = []"
| "inord (Nd c l a r) = inord l @ a # inord r"

fun ctx_addrs :: "frame list \<Rightarrow> nat list" where
  "ctx_addrs [] = []"
| "ctx_addrs (Fr s c a u # k) = a # inord u @ ctx_addrs k"

lemma opp_opp [simp]: "opp (opp s) = s" "opp s \<noteq> s" "s \<noteq> opp s"
  by (cases s; simp)+

lemma ptr_nd [simp]: "ptr (nd s c t a u) = Some a"
  by (cases s) (simp_all add: nd_def)

lemma inord_nd: "inord (nd s c t a u) = (if s = Lft then inord t @ a # inord u else inord u @ a # inord t)"
  by (cases s) (simp_all add: nd_def)

lemma set_inord_nd [simp]: "set (inord (nd s c t a u)) = insert a (set (inord t) \<union> set (inord u))"
  by (auto simp: inord_nd)

lemma distinct_inord_nd [simp]:
  "distinct (inord (nd s c t a u)) \<longleftrightarrow> distinct (inord t) \<and> distinct (inord u) \<and> a \<notin> set (inord t) \<and> a \<notin> set (inord u)
     \<and> set (inord t) \<inter> set (inord u) = {}"
  by (auto simp: inord_nd)

lemma nd_opp: "nd (opp s) c t a u = nd s c u a t"
  by (cases s) (simp_all add: nd_def)

lemma nd_exhaust: "t \<noteq> Lf \<Longrightarrow> \<exists>c l a r. t = nd s c l a r"
  by (cases t; cases s) (auto simp: nd_def)

lemma ptr_None [simp]: "ptr t = None \<longleftrightarrow> t = Lf" "None = ptr t \<longleftrightarrow> t = Lf"
  by (cases t; simp)+

lemma ptr_in: "ptr t = Some a \<Longrightarrow> a \<in> set (inord t)"
  by (cases t) auto

lemma child_simps [simp]:
  "child s (n\<lparr>rb_parent := p\<rparr>) = child s n" "child s (n\<lparr>rb_color := c\<rparr>) = child s n"
  "child s (set_child s p n) = p" "child (opp s) (set_child s p n) = child (opp s) n"
  "child s (set_child (opp s) p n) = child s n"
  "rb_parent (set_child s p n) = rb_parent n" "rb_color (set_child s p n) = rb_color n"
  by (cases s; simp add: child_def set_child_def)+

section \<open>The relation to the heap\<close>

fun is_tree :: "(nat \<Rightarrow> rbnode) \<Rightarrow> nat option \<Rightarrow> rbt \<Rightarrow> bool" where
  "is_tree m p Lf \<longleftrightarrow> True"
| "is_tree m p (Nd c l a r) \<longleftrightarrow>
     m a = \<lparr>rb_parent = p, rb_left = ptr l, rb_right = ptr r, rb_color = c\<rparr> \<and> is_tree m (Some a) l \<and> is_tree m (Some a) r"

text \<open>A segment of frames between the pointer in the hole and the pointer at its top, whose outermost
  node has the given parent.\<close>

fun seg_parent :: "frame list \<Rightarrow> nat option \<Rightarrow> nat option" where
  "seg_parent [] par = par"
| "seg_parent (Fr s c a u # k) par = Some a"

fun is_seg :: "(nat \<Rightarrow> rbnode) \<Rightarrow> frame list \<Rightarrow> nat option \<Rightarrow> nat option \<Rightarrow> nat option \<Rightarrow> bool" where
  "is_seg m [] hole tp par \<longleftrightarrow> hole = tp"
| "is_seg m (Fr s c a u # k) hole tp par \<longleftrightarrow>
     child s (m a) = hole \<and> child (opp s) (m a) = ptr u \<and> rb_parent (m a) = seg_parent k par \<and> rb_color (m a) = c
     \<and> is_tree m (Some a) u \<and> is_seg m k (Some a) tp par"

lemma seg_parent_None [simp]: "seg_parent k None = ctx_parent k"
  by (cases k rule: ctx_parent.cases) simp_all

lemma is_tree_nd:
  "is_tree m p (nd s c t a u) \<longleftrightarrow> child s (m a) = ptr t \<and> child (opp s) (m a) = ptr u \<and> rb_parent (m a) = p
     \<and> rb_color (m a) = c \<and> is_tree m (Some a) t \<and> is_tree m (Some a) u"
  by (cases s; cases "m a") (auto simp: nd_def child_def)

lemma is_tree_upd [simp]: "a \<notin> set (inord t) \<Longrightarrow> is_tree (m(a := x)) p t = is_tree m p t"
  by (induction t arbitrary: p) auto

lemma is_seg_upd [simp]: "a \<notin> set (ctx_addrs k) \<Longrightarrow> is_seg (m(a := x)) k hole tp par = is_seg m k hole tp par"
  by (induction k arbitrary: hole rule: ctx_addrs.induct) auto

text \<open>A subtree gets a new parent.\<close>

lemma is_tree_parent:
  assumes "is_tree m p t" "ptr t = Some a" "distinct (inord t)"
  shows "is_tree (m(a := (m a)\<lparr>rb_parent := q\<rparr>)) q t"
  using assms by (cases t) auto

lemma is_tree_ptr: "is_tree m p t \<Longrightarrow> ptr t = Some a \<Longrightarrow> rb_parent (m a) = p"
  by (cases t) auto

definition repr :: "rbtree \<Rightarrow> frame list \<Rightarrow> rbt \<Rightarrow> bool" where
  "repr tree k t \<longleftrightarrow> is_tree (rb_mem tree) (ctx_parent k) t \<and> is_seg (rb_mem tree) k (ptr t) (rb_root tree) None
     \<and> distinct (inord t @ ctx_addrs k)"

lemma repr_focus: "repr tree (Fr s c a u # k) t \<longleftrightarrow> repr tree k (nd s c t a u)"
  by (auto simp: repr_def is_tree_nd)

lemma repr_plug: "repr tree (k1 @ k2) t \<longleftrightarrow> repr tree k2 (plug k1 t)"
  by (induction k1 t rule: plug.induct) (simp_all add: repr_focus)

lemma repr_root: "repr tree k t \<longleftrightarrow> repr tree [] (plug k t)"
  using repr_plug [of tree k "[]" t] by simp

lemma mem_upd_node [simp]: "rb_mem (upd_node a f tree) = (rb_mem tree)(a := f (rb_mem tree a))"
  "rb_root (upd_node a f tree) = rb_root tree"
  by (simp_all add: upd_node_def)

lemma mem_set_color [simp]: "rb_mem (set_color a c tree) = (rb_mem tree)(a := (rb_mem tree a)\<lparr>rb_color := c\<rparr>)"
  "rb_root (set_color a c tree) = rb_root tree"
  by (simp_all add: set_color_def)

lemma root_set_parent [simp]: "rb_root (set_parent a p tree) = rb_root tree"
  by (simp add: set_parent_def split: option.splits)

section \<open>Reading\<close>

lemma repr_nd:
  assumes "repr tree k (nd s c t a u)"
  shows "child s (rb_mem tree a) = ptr t" "child (opp s) (rb_mem tree a) = ptr u"
    "rb_parent (rb_mem tree a) = ctx_parent k" "rb_color (rb_mem tree a) = c"
    "k = [] \<Longrightarrow> rb_root tree = Some a"
  using assms by (auto simp: repr_def is_tree_nd)

lemma repr_left_right:
  assumes "repr tree k (Nd c l a r)"
  shows "rb_left (rb_mem tree a) = ptr l" "rb_right (rb_mem tree a) = ptr r"
    "rb_parent (rb_mem tree a) = ctx_parent k" "rb_color (rb_mem tree a) = c"
  using assms by (auto simp: repr_def)

fun root_color :: "rbt \<Rightarrow> ogs_rbtree_color_e" where
  "root_color Lf = OGS_RBTREE_BLACK"
| "root_color (Nd c l a r) = c"

lemma root_color_nd [simp]: "root_color (nd s c t a u) = c"
  by (cases s) (simp_all add: nd_def)

lemma is_black_ptr: "is_tree (rb_mem tree) p t \<Longrightarrow> rb_is_black tree (ptr t) \<longleftrightarrow> root_color t = OGS_RBTREE_BLACK"
  by (cases t) (auto simp: rb_is_black_def)

lemma repr_black: "repr tree k t \<Longrightarrow> rb_is_black tree (ptr t) \<longleftrightarrow> root_color t = OGS_RBTREE_BLACK"
  unfolding repr_def using is_black_ptr by blast

lemma repr_side:
  assumes "repr tree (Fr s c p u # k) t" "ptr t \<noteq> ptr u \<or> s = Lft"
  shows "(if ptr t = rb_left (rb_mem tree p) then Lft else Rgt) = s"
  using assms by (cases s) (auto simp: repr_def child_def)

lemma ptr_neq:
  assumes "repr tree (Fr s c p u # k) t" "t \<noteq> Lf \<or> u \<noteq> Lf"
  shows "ptr t \<noteq> ptr u"
proof
  assume e: "ptr t = ptr u"
  then obtain a where "ptr t = Some a" "ptr u = Some a" using assms(2) by (cases t) auto
  then have "a \<in> set (inord t)" "a \<in> set (inord u)" using ptr_in by blast+
  then show False using assms(1) by (auto simp: repr_def)
qed

section \<open>Writing\<close>

lemma repr_color:
  assumes "repr tree k (nd s c t a u)"
  shows "repr (set_color a c' tree) k (nd s c' t a u)"
  using assms by (auto simp: repr_def is_tree_nd)

text \<open>What replacing the subtree in a context does to the context.\<close>

lemma seg_replace:
  assumes "is_seg (rb_mem tree) k (Some old) (rb_root tree) None" "old \<notin> set (ctx_addrs k)" "distinct (ctx_addrs k)"
    and "\<And>a. new = Some a \<Longrightarrow> a \<notin> set (ctx_addrs k)"
  defines "tree' \<equiv> rb_change_child tree old new (ctx_parent k)"
  shows "is_seg (rb_mem tree') k new (rb_root tree') None"
    "\<And>x. Some x \<noteq> ctx_parent k \<Longrightarrow> rb_mem tree' x = rb_mem tree x"
proof -
  have "is_seg (rb_mem tree') k new (rb_root tree') None \<and> (\<forall>x. Some x \<noteq> ctx_parent k \<longrightarrow> rb_mem tree' x = rb_mem tree x)"
  proof (cases k)
    case Nil
    then show ?thesis by (simp add: tree'_def rb_change_child_def)
  next
    case (Cons f k')
    obtain s c a u where f: "f = Fr s c a u" by (cases f)
    have s: "child s (rb_mem tree a) = Some old" "child (opp s) (rb_mem tree a) = ptr u"
      using assms(1) by (auto simp: Cons f)
    have "ptr u \<noteq> Some old" using assms(2) ptr_in [of u old] by (auto simp: Cons f)
    then have "tree' = upd_node a (set_child s new) tree"
      using s by (cases s) (auto simp: tree'_def Cons f rb_change_child_def child_def set_child_def)
    then show ?thesis using assms(1,3) by (auto simp: Cons f)
  qed
  then show "is_seg (rb_mem tree') k new (rb_root tree') None"
    "\<And>x. Some x \<noteq> ctx_parent k \<Longrightarrow> rb_mem tree' x = rb_mem tree x" by blast+
qed

lemma is_tree_cong: "(\<And>x. x \<in> set (inord t) \<Longrightarrow> m' x = m x) \<Longrightarrow> is_tree m' p t = is_tree m p t"
  by (induction t arbitrary: p) simp_all

lemma is_seg_cong: "(\<And>x. x \<in> set (ctx_addrs k) \<Longrightarrow> m' x = m x) \<Longrightarrow> is_seg m' k hole tp par = is_seg m k hole tp par"
proof (induction k arbitrary: hole rule: ctx_addrs.induct)
  case (2 s c a u k)
  then have "is_tree m' (Some a) u = is_tree m (Some a) u" by (intro is_tree_cong) simp
  then show ?case using 2 by simp
qed simp

lemma set_parent_mem:
  "x \<notin> set (inord t) \<Longrightarrow> rb_mem (set_parent (ptr t) q tree) x = rb_mem tree x"
  by (cases t) (auto simp: set_parent_def)

lemma set_parent_tree:
  assumes "is_tree (rb_mem tree) p t" "distinct (inord t)"
  shows "is_tree (rb_mem (set_parent (ptr t) q tree)) q t"
  using assms by (cases t) (auto simp: set_parent_def)

lemma set_child_side: "set_child Lft p = rb_left_update (\<lambda>_. p)" "set_child Rgt p = rb_right_update (\<lambda>_. p)"
  by (simp_all add: set_child_def fun_eq_iff)

lemma rb_rotate_eq:
  "rb_rotate s tree a =
     do { b \<leftarrow> child (opp s) (rb_mem tree a);
          let mid = child s (rb_mem tree b);
          let tree = set_parent mid (Some a) (upd_node a (set_child (opp s) mid) tree);
          let tree = rb_replace_node tree a (Some b) (rb_parent (rb_mem tree a));
          let tree = upd_node b (set_child s (Some a)) tree;
          Some (upd_node a (\<lambda>n. n\<lparr>rb_parent := Some b\<rparr>) tree) }"
  by (cases s) (simp_all add: rb_rotate_def rb_rotate_left_def rb_rotate_right_def child_def set_child_side Let_def)

lemma repr_rotate:
  assumes "repr tree k (nd s c1 t1 a (nd s c2 t2 b t3))"
  shows "\<exists>tree'. rb_rotate s tree a = Some tree' \<and> repr tree' k (nd s c2 (nd s c1 t1 a t2) b t3)"
proof -
  let ?m = "rb_mem tree"
  have d: "distinct (inord t1)" "distinct (inord t2)" "distinct (inord t3)" "distinct (ctx_addrs k)"
    "a \<noteq> b" "a \<notin> set (inord t1 @ inord t2 @ inord t3 @ ctx_addrs k)" "b \<notin> set (inord t1 @ inord t2 @ inord t3 @ ctx_addrs k)"
    "set (inord t1) \<inter> set (inord t2) = {}" "set (inord t1) \<inter> set (inord t3) = {}" "set (inord t2) \<inter> set (inord t3) = {}"
    "set (inord t1 @ inord t2 @ inord t3) \<inter> set (ctx_addrs k) = {}"
    using assms by (auto simp: repr_def)
  have t: "child s (?m a) = ptr t1" "child (opp s) (?m a) = Some b" "rb_parent (?m a) = ctx_parent k" "rb_color (?m a) = c1"
    "child s (?m b) = ptr t2" "child (opp s) (?m b) = ptr t3" "rb_parent (?m b) = Some a" "rb_color (?m b) = c2"
    "is_tree ?m (Some a) t1" "is_tree ?m (Some b) t2" "is_tree ?m (Some b) t3"
    and seg: "is_seg ?m k (Some a) (rb_root tree) None"
    using assms by (auto simp: repr_def is_tree_nd)
  define T1 where "T1 = set_parent (ptr t2) (Some a) (upd_node a (set_child (opp s) (ptr t2)) tree)"
  have m1: "rb_mem T1 x = (if x = a then set_child (opp s) (ptr t2) (?m a) else ?m x)" if "x \<notin> set (inord t2)" for x
    using set_parent_mem [OF that] by (simp add: T1_def)
  have t2: "is_tree (rb_mem T1) (Some a) t2"
    unfolding T1_def using t(10) d(2,6) by (intro set_parent_tree) simp_all
  have p1: "rb_parent (rb_mem T1 a) = ctx_parent k" using m1 [of a] d(6) t(3) by (simp add: child_simps(6))
  have "x \<notin> set (inord t2) \<and> x \<noteq> a" if "x \<in> set (ctx_addrs k)" for x using that d(6,11) by auto
  then have "rb_mem T1 x = ?m x" if "x \<in> set (ctx_addrs k)" for x using that m1 [of x] by simp
  then have "is_seg (rb_mem T1) k (Some a) (rb_root tree) None" using seg is_seg_cong [of k "rb_mem T1" ?m] by blast
  then have seg1: "is_seg (rb_mem T1) k (Some a) (rb_root T1) None" by (simp add: T1_def)
  define T2 where "T2 = rb_change_child T1 a (Some b) (ctx_parent k)"
  have r: "is_seg (rb_mem T2) k (Some b) (rb_root T2) None" "\<And>x. Some x \<noteq> ctx_parent k \<Longrightarrow> rb_mem T2 x = rb_mem T1 x"
    unfolding T2_def using seg_replace [OF seg1, of "Some b"] d(4,6,7) by auto
  have out: "Some x \<noteq> ctx_parent k" if "x \<notin> set (ctx_addrs k)" for x
    using that by (cases k rule: ctx_parent.cases) auto
  define T where "T = upd_node a (\<lambda>n. n\<lparr>rb_parent := Some b\<rparr>) (upd_node b (set_child s (Some a)) (set_parent (Some b) (ctx_parent k) T2))"
  have rot: "rb_rotate s tree a = Some T"
    unfolding rb_rotate_eq t(2) by (simp add: t(5) T1_def [symmetric] p1 rb_replace_node_def T2_def [symmetric] T_def)
  have mT: "rb_mem T a = set_child (opp s) (ptr t2) (?m a)\<lparr>rb_parent := Some b\<rparr>"
    "rb_mem T b = set_child s (Some a) ((?m b)\<lparr>rb_parent := ctx_parent k\<rparr>)"
    "\<And>x. x \<noteq> a \<Longrightarrow> x \<noteq> b \<Longrightarrow> rb_mem T x = rb_mem T2 x"
    using m1 [of a] m1 [of b] r(2) out d(5,6,7) by (simp_all add: T_def set_parent_def)
  have apart: "x \<noteq> a \<and> x \<noteq> b \<and> x \<notin> set (ctx_addrs k)"
    if "x \<in> set (inord t1) \<union> set (inord t2) \<union> set (inord t3)" for x
    using that d(6,7,11) by auto
  have same: "rb_mem T x = ?m x" if "x \<in> set (inord t1) \<union> set (inord t3)" for x
  proof -
    have "x \<notin> set (inord t2)" using that d(8,10) by auto
    then show ?thesis using that mT(3) [of x] r(2) [OF out] m1 [of x] apart [of x] by simp
  qed
  have "is_tree (rb_mem T) (Some a) t1" "is_tree (rb_mem T) (Some b) t3"
    using t(9,11) same is_tree_cong [of t1 "rb_mem T" ?m] is_tree_cong [of t3 "rb_mem T" ?m] by auto
  moreover have "rb_mem T x = rb_mem T1 x" if "x \<in> set (inord t2)" for x
    using mT(3) [of x] r(2) [OF out] that apart [of x] by simp
  then have "is_tree (rb_mem T) (Some a) t2" using t2 is_tree_cong [of t2 "rb_mem T" "rb_mem T1"] by simp
  moreover have "rb_mem T x = rb_mem T2 x" if "x \<in> set (ctx_addrs k)" for x using that mT(3) [of x] d(6,7) by auto
  then have "is_seg (rb_mem T) k (Some b) (rb_root T2) None" using r(1) is_seg_cong [of k "rb_mem T" "rb_mem T2"] by blast
  then have "is_seg (rb_mem T) k (Some b) (rb_root T) None" by (simp add: T_def)
  moreover have "child s (rb_mem T a) = ptr t1" "child (opp s) (rb_mem T a) = ptr t2" "rb_parent (rb_mem T a) = Some b"
    "rb_color (rb_mem T a) = c1" "child s (rb_mem T b) = Some a" "child (opp s) (rb_mem T b) = ptr t3"
    "rb_parent (rb_mem T b) = ctx_parent k" "rb_color (rb_mem T b) = c2"
    using mT(1,2) t(1,4,6,8) child_simps(3,4) [of "opp s"] by (auto simp: child_simps(5))
  ultimately have "repr T k (nd s c2 (nd s c1 t1 a t2) b t3)"
    using d by (auto simp: repr_def is_tree_nd)
  then show ?thesis using rot by blast
qed

lemma repr_link:
  assumes "repr tree k Lf" "a \<notin> set (ctx_addrs k)"
    and "link = (case k of [] \<Rightarrow> None | Fr s c p u # _ \<Rightarrow> Some (p, s))"
  shows "repr (ogs_rbtree_link_node a link tree) k (Nd OGS_RBTREE_RED Lf a Lf)"
proof (cases k)
  case Nil
  then show ?thesis using assms by (simp add: ogs_rbtree_link_node_def Let_def repr_def)
next
  case (Cons f k')
  obtain s c p u where f: "f = Fr s c p u" by (cases f)
  have "p \<noteq> a" using assms(2) by (simp add: Cons f)
  then show ?thesis
    using assms by (auto simp: ogs_rbtree_link_node_def Let_def repr_def Cons f)
qed

text \<open>A node with at most one subtree is replaced by it.\<close>

lemma repr_replace:
  assumes "repr tree k (nd s c t a Lf)"
  shows "repr (rb_replace_node tree a (ptr t) (ctx_parent k)) k t"
proof -
  let ?m = "rb_mem tree"
  have d: "distinct (inord t)" "distinct (ctx_addrs k)" "a \<notin> set (inord t)" "a \<notin> set (ctx_addrs k)"
    "set (inord t) \<inter> set (ctx_addrs k) = {}"
    using assms by (auto simp: repr_def)
  have t: "is_tree ?m (Some a) t" "is_seg ?m k (Some a) (rb_root tree) None"
    using assms by (auto simp: repr_def is_tree_nd)
  define T where "T = rb_change_child tree a (ptr t) (ctx_parent k)"
  have r: "is_seg (rb_mem T) k (ptr t) (rb_root T) None" "\<And>x. Some x \<noteq> ctx_parent k \<Longrightarrow> rb_mem T x = ?m x"
    unfolding T_def using seg_replace [OF t(2), of "ptr t"] d ptr_in [of t] by blast+
  have "Some x \<noteq> ctx_parent k" if "x \<in> set (inord t)" for x
    using that d(5) by (cases k rule: ctx_parent.cases) auto
  then have "is_tree (rb_mem T) (Some a) t" using t(1) r(2) is_tree_cong [of t "rb_mem T" ?m] by simp
  then have "is_tree (rb_mem (set_parent (ptr t) (ctx_parent k) T)) (ctx_parent k) t" using d(1) by (rule set_parent_tree)
  moreover have "x \<in> set (ctx_addrs k) \<Longrightarrow> rb_mem (set_parent (ptr t) (ctx_parent k) T) x = rb_mem T x" for x
    using d(5) by (intro set_parent_mem) auto
  then have "is_seg (rb_mem (set_parent (ptr t) (ctx_parent k) T)) k (ptr t) (rb_root T) None"
    using r(1) is_seg_cong [of k _ "rb_mem T" "ptr t" "rb_root T" None] by blast
  ultimately show ?thesis
    using d by (simp add: rb_replace_node_def T_def [symmetric] repr_def)
qed

section \<open>The successor takes the place of a node\<close>

lemma plug_append: "plug (k1 @ k2) t = plug k2 (plug k1 t)"
  by (induction k1 t rule: plug.induct) simp_all

lemma ctx_addrs_append [simp]: "ctx_addrs (k1 @ k2) = ctx_addrs k1 @ ctx_addrs k2"
  by (induction k1 rule: ctx_addrs.induct) simp_all

lemma seg_parent_append [simp]: "seg_parent (k1 @ k2) par = seg_parent k1 (seg_parent k2 par)"
  by (cases k1 rule: ctx_parent.cases) simp_all

lemma is_seg_append:
  "is_seg m (k1 @ k2) hole tp par \<longleftrightarrow> (\<exists>mid. is_seg m k1 hole mid (seg_parent k2 par) \<and> is_seg m k2 mid tp par)"
  by (induction k1 arbitrary: hole rule: ctx_addrs.induct) auto

lemma ctx_parent_append: "ctx_parent (k1 @ k2) = (if k1 = [] then ctx_parent k2 else ctx_parent k1)"
  by (cases k1 rule: ctx_parent.cases) simp_all

fun on_left :: "frame \<Rightarrow> bool" where
  "on_left (Fr s c a u) \<longleftrightarrow> s = Lft"

lemma min_found:
  assumes "is_tree (rb_mem tree) p t" "ptr t = Some a"
  shows "\<exists>kk c' b r'. t = plug kk (Nd c' Lf b r') \<and> list_all on_left kk \<and> ogs_rbtree_min tree a = Some b"
  using assms
proof (induction t arbitrary: p a)
  case (Nd c l x r)
  then have a: "a = x" by simp
  show ?case
  proof (cases "ptr l")
    case None
    then show ?thesis using Nd.prems by (intro exI [of _ "[]"]) (simp add: ogs_rbtree_min.simps)
  next
    case (Some y)
    then obtain kk c' b r' where "l = plug kk (Nd c' Lf b r')" "list_all on_left kk" "ogs_rbtree_min tree y = Some b"
      using Nd.IH(1) [of "Some x" y] Nd.prems by auto
    then show ?thesis
      using Nd.prems Some
      by (intro exI [of _ "kk @ [Fr Lft c x r]"] exI [of _ c'] exI [of _ b] exI [of _ r'])
        (simp add: plug_append nd_def ogs_rbtree_min.simps [of tree a])
  qed
qed simp

lemma inord_plug_left: "list_all on_left kk \<Longrightarrow> inord (plug kk t) = inord t @ inord (plug kk Lf)"
proof (induction kk arbitrary: t)
  case (Cons f kk)
  obtain s c a u where f: "f = Fr s c a u" by (cases f)
  have l: "list_all on_left kk" "s = Lft" using Cons.prems by (simp_all add: f)
  show ?case
    using Cons.IH [OF l(1), of "Nd c t a u"] Cons.IH [OF l(1), of "Nd c Lf a u"] by (simp add: f l(2) nd_def)
qed simp

lemma seg_hole:
  assumes "is_seg m (Fr s c p u # kk) hole tp par" "p \<notin> set (inord u @ ctx_addrs kk)"
  shows "is_seg (m(p := set_child s hole' (m p))) (Fr s c p u # kk) hole' tp par"
  using assms by simp

lemma seg_top: "is_seg m kk hole (Some r0) par \<Longrightarrow> kk \<noteq> [] \<Longrightarrow> r0 \<in> set (ctx_addrs kk)"
proof (induction kk arbitrary: hole)
  case (Cons f kk)
  obtain s c a u where f: "f = Fr s c a u" by (cases f)
  show ?case using Cons.IH [of "Some a"] Cons.prems by (cases "kk = []") (auto simp: f)
qed simp

lemma seg_top_parent:
  assumes "is_seg m kk hole (Some r0) par" "kk \<noteq> []" "distinct (ctx_addrs kk)"
    and "m' r0 = (m r0)\<lparr>rb_parent := par'\<rparr>" "\<And>x. x \<in> set (ctx_addrs kk) \<Longrightarrow> x \<noteq> r0 \<Longrightarrow> m' x = m x"
  shows "is_seg m' kk hole (Some r0) par'"
  using assms(1-3,5)
proof (induction kk arbitrary: hole)
  case (Cons f kk)
  obtain s c a u where f: "f = Fr s c a u" by (cases f)
  have u: "is_tree m' (Some a) u = is_tree m (Some a) u" if "r0 \<notin> set (inord u)"
    using Cons.prems(4) that by (intro is_tree_cong) (auto simp: f)
  show ?case
  proof (cases "kk = []")
    case True
    then have "a = r0" "r0 \<notin> set (inord u)" using Cons.prems by (simp_all add: f)
    then show ?thesis using Cons.prems(1) True u assms(4) by (simp add: f)
  next
    case False
    have seg: "is_seg m kk (Some a) (Some r0) par" using Cons.prems by (simp add: f)
    then have "r0 \<in> set (ctx_addrs kk)" using False by (rule seg_top)
    then have r: "r0 \<noteq> a" "r0 \<notin> set (inord u)" using Cons.prems(3) by (auto simp: f)
    have p: "seg_parent kk par = seg_parent kk par'" using False by (cases kk rule: ctx_parent.cases) auto
    have "is_seg m' kk (Some a) (Some r0) par'" using Cons.IH [OF seg False] Cons.prems(3,4) by (simp add: f)
    moreover have "m' a = m a" using Cons.prems(4) [of a] r(1) by (simp add: f)
    ultimately show ?thesis using Cons.prems(1) p u r(2) by (simp add: f)
  qed
qed simp

lemma repr_successor:
  assumes "rb_mem tree b = \<lparr>rb_parent = q, rb_left = ptr l, rb_right = rr, rb_color = c\<rparr>"
    and "is_tree (rb_mem tree) (Some b) l" "is_tree (rb_mem tree) (ctx_parent (kk @ [Fr Rgt c b l])) r'"
    and "is_seg (rb_mem tree) kk (ptr r') rr (Some b)" "is_seg (rb_mem tree) k (Some a) (rb_root tree) None"
    and d: "distinct (inord r' @ ctx_addrs kk @ b # inord l @ ctx_addrs k)" "a \<notin> set (ctx_addrs k)"
  shows "repr (rb_replace_node tree a (Some b) (ctx_parent k)) (kk @ Fr Rgt c b l # k) r'"
proof -
  define T where "T = rb_change_child tree a (Some b) (ctx_parent k)"
  have r: "is_seg (rb_mem T) k (Some b) (rb_root T) None" "\<And>x. Some x \<noteq> ctx_parent k \<Longrightarrow> rb_mem T x = rb_mem tree x"
    unfolding T_def using seg_replace [OF assms(5), of "Some b"] d by auto
  define T' where "T' = set_parent (Some b) (ctx_parent k) T"
  have out: "rb_mem T x = rb_mem tree x" if "x \<notin> set (ctx_addrs k)" for x
    using that r(2) [of x] by (cases k rule: ctx_parent.cases) auto
  have m: "rb_mem T' x = (if x = b then (rb_mem tree b)\<lparr>rb_parent := ctx_parent k\<rparr> else rb_mem T x)" for x
    using out [of b] d(1) by (simp add: T'_def set_parent_def)
  have same: "rb_mem T' x = rb_mem tree x" if "x \<in> set (inord r') \<union> set (inord l) \<union> set (ctx_addrs kk)" for x
    using m [of x] out [of x] that d(1) by auto
  have "is_tree (rb_mem T') (ctx_parent (kk @ [Fr Rgt c b l])) r'" "is_tree (rb_mem T') (Some b) l"
    using assms(2,3) same is_tree_cong [of r' "rb_mem T'" "rb_mem tree"] is_tree_cong [of l "rb_mem T'" "rb_mem tree"]
    by auto
  moreover have "is_seg (rb_mem T') kk (ptr r') rr (Some b)"
    using assms(4) same is_seg_cong [of kk "rb_mem T'" "rb_mem tree"] by auto
  moreover have "x \<noteq> b" if "x \<in> set (ctx_addrs k)" for x using that d(1) by auto
  then have "is_seg (rb_mem T') k (Some b) (rb_root T) None"
    using r(1) m is_seg_cong [of k "rb_mem T'" "rb_mem T"] by simp
  then have "is_seg (rb_mem T') k (Some b) (rb_root T') None" by (simp add: T'_def)
  ultimately show ?thesis
    using m [of b] assms(1) d(1)
    by (auto simp: rb_replace_node_def T_def [symmetric] T'_def [symmetric] repr_def is_seg_append child_def
        ctx_parent_append)
qed

lemma delete_inner_last:
  assumes "repr tree k (Nd c l a (Nd c' Lf b r'))" "ptr l = Some l0"
  defines "T \<equiv> set_color b c (set_parent (Some l0) (Some b) (upd_node b (\<lambda>n. n\<lparr>rb_left := Some l0\<rparr>) tree))"
  shows "repr (rb_replace_node T a (Some b) (ctx_parent k)) (Fr Rgt c b l # k) r'"
proof -
  let ?m = "rb_mem tree"
  let ?T = "set_parent (Some l0) (Some b) (upd_node b (\<lambda>n. n\<lparr>rb_left := Some l0\<rparr>) tree)"
  have d: "distinct (inord r' @ b # inord l @ ctx_addrs k)" "a \<notin> set (inord r' @ b # inord l @ ctx_addrs k)"
    using assms(1) by (auto simp: repr_def)
  have t: "?m b = \<lparr>rb_parent = Some a, rb_left = None, rb_right = ptr r', rb_color = c'\<rparr>" "is_tree ?m (Some a) l"
    "is_tree ?m (Some b) r'" "is_seg ?m k (Some a) (rb_root tree) None"
    using assms(1) by (auto simp: repr_def)
  have l0: "l0 \<in> set (inord l)" using assms(2) ptr_in by blast
  have "is_tree (?m(b := (?m b)\<lparr>rb_left := Some l0\<rparr>)) (Some a) l" using t(2) d(1) by simp
  then have "is_tree (rb_mem (upd_node b (\<lambda>n. n\<lparr>rb_left := Some l0\<rparr>) tree)) (Some a) l" by simp
  from set_parent_tree [OF this, of "Some b"] have l: "is_tree (rb_mem T) (Some b) l"
    using d(1) assms(2) by (simp add: T_def)
  have m: "rb_mem T x = (if x = b then \<lparr>rb_parent = Some a, rb_left = Some l0, rb_right = ptr r', rb_color = c\<rparr> else ?m x)"
    if "x \<noteq> l0" for x
    using that l0 d(1) t(1) by (auto simp: T_def set_parent_def)
  have "x \<noteq> l0 \<and> x \<noteq> b" if "x \<in> set (inord r') \<union> set (ctx_addrs k)" for x
    using that l0 d(1) by auto
  then have same: "rb_mem T x = ?m x" if "x \<in> set (inord r') \<union> set (ctx_addrs k)" for x
    using m [of x] that by simp
  have "is_tree (rb_mem T) (Some b) r'" using t(3) same is_tree_cong [of r' "rb_mem T" ?m] by auto
  moreover have "is_seg (rb_mem T) k (Some a) (rb_root tree) None" using t(4) same is_seg_cong [of k "rb_mem T" ?m] by auto
  ultimately show ?thesis
    using repr_successor [of T b "Some a" l "ptr r'" c "[]" r' k a] m [of b] l l0 d assms(2) by (auto simp: T_def)
qed

lemma delete_inner_deep:
  assumes "repr tree k (Nd c l a (plug (Fr Lft cp p u # kk) (Nd c' Lf b r')))" "ptr l = Some l0"
    and "ptr (plug (Fr Lft cp p u # kk) (Nd c' Lf b r')) = Some r0"
  defines "T1 \<equiv> set_parent (Some l0) (Some b) (upd_node b (\<lambda>n. n\<lparr>rb_left := Some l0\<rparr>) tree)"
  defines "T2 \<equiv> upd_node p (\<lambda>n. n\<lparr>rb_left := ptr r'\<rparr>) (set_parent (ptr r') (Some p) T1)"
  defines "T3 \<equiv> set_parent (Some r0) (Some b) (upd_node b (\<lambda>n. n\<lparr>rb_right := Some r0\<rparr>) T2)"
  shows "rb_parent (rb_mem tree b) = Some p" "rb_right (rb_mem tree b) = ptr r'" "rb_color (rb_mem tree b) = c'"
    "rb_mem T3 a = rb_mem tree a" "p \<noteq> a \<and> a \<noteq> b"
    "repr (rb_replace_node (set_color b c T3) a (Some b) (ctx_parent k)) (Fr Lft cp p u # kk @ Fr Rgt c b l # k) r'"
proof -
  let ?m = "rb_mem tree"
  let ?kk = "Fr Lft cp p u # kk"
  have rep: "repr tree (?kk @ Fr Rgt c a l # k) (Nd c' Lf b r')"
    using assms(1) unfolding repr_plug by (simp add: repr_focus nd_def)
  have d: "distinct (inord r' @ ctx_addrs ?kk @ b # inord l @ ctx_addrs k)"
    "a \<notin> set (inord r' @ ctx_addrs ?kk @ b # inord l @ ctx_addrs k)"
    using rep by (auto simp: repr_def)
  have "is_seg ?m (?kk @ (Fr Rgt c a l # k)) (Some b) (rb_root tree) None" using rep unfolding repr_def ptr.simps by blast
  then obtain mid where mid: "is_seg ?m ?kk (Some b) mid (Some a)" "is_seg ?m (Fr Rgt c a l # k) mid (rb_root tree) None"
    unfolding is_seg_append seg_parent.simps by blast
  have "is_seg ?m (Fr Rgt c a l # k) (Some r0) (rb_root tree) None"
    using assms(1,3) repr_focus [of tree Rgt c a l k "plug ?kk (Nd c' Lf b r')"] by (simp add: repr_def nd_def)
  then have seg0: "is_seg ?m ?kk (Some b) (Some r0) (Some a)" using mid by auto
  have t: "?m b = \<lparr>rb_parent = Some p, rb_left = None, rb_right = ptr r', rb_color = c'\<rparr>" "is_tree ?m (Some b) r'"
    "is_tree ?m (Some a) l" "is_seg ?m k (Some a) (rb_root tree) None"
    using rep mid(2) by (auto simp: repr_def)
  have in_sets: "l0 \<in> set (inord l)" "r0 \<in> set (ctx_addrs ?kk)"
    using assms(2) ptr_in seg_top [OF seg0] by auto
  show "rb_parent (?m b) = Some p" "rb_right (?m b) = ptr r'" "rb_color (?m b) = c'" using t(1) by simp_all
  show "p \<noteq> a \<and> a \<noteq> b" using d(2) by auto
  have m1: "rb_mem T1 x = (if x = b then (?m b)\<lparr>rb_left := Some l0\<rparr> else ?m x)" if "x \<notin> set (inord l)" for x
    using that in_sets(1) d(1) by (auto simp: T1_def set_parent_def)
  have "is_tree (rb_mem (upd_node b (\<lambda>n. n\<lparr>rb_left := Some l0\<rparr>) tree)) (Some a) l" using t(3) d(1) by simp
  from set_parent_tree [OF this, of "Some b"] have l1: "is_tree (rb_mem T1) (Some b) l"
    using d(1) assms(2) by (simp add: T1_def)
  have "is_tree (rb_mem T1) (Some b) r'"
  proof -
    have "x \<notin> set (inord l) \<and> x \<noteq> b" if "x \<in> set (inord r')" for x using that d(1) by auto
    then show ?thesis using t(2) m1 is_tree_cong [of r' "rb_mem T1" ?m] by simp
  qed
  from set_parent_tree [OF this, of "Some p"] have r1: "is_tree (rb_mem (set_parent (ptr r') (Some p) T1)) (Some p) r'"
    using d(1) by simp
  have m2: "rb_mem T2 x = (if x = p then (rb_mem T1 p)\<lparr>rb_left := ptr r'\<rparr> else rb_mem T1 x)" if "x \<notin> set (inord r')" for x
    using set_parent_mem [OF that, of "Some p" T1] set_parent_mem [of p r' "Some p" T1] d(1) by (simp add: T2_def)
  have m3: "rb_mem T3 x = (if x = r0 then (rb_mem T2 r0)\<lparr>rb_parent := Some b\<rparr>
      else if x = b then (rb_mem T2 b)\<lparr>rb_right := Some r0\<rparr> else rb_mem T2 x)" for x
    using in_sets(2) d(1) by (auto simp: T3_def set_parent_def)
  have ne: "b \<noteq> r0" "b \<noteq> p" "b \<notin> set (inord r')" "b \<notin> set (inord l)" "a \<noteq> r0" "a \<noteq> b" "a \<noteq> p"
    "a \<notin> set (inord r')" "a \<notin> set (inord l)"
    using in_sets d by auto
  show "rb_mem T3 a = ?m a" using m3 [of a] m2 [of a] m1 [of a] ne by simp
  let ?T = "set_color b c T3"
  have mb: "rb_mem ?T b = \<lparr>rb_parent = Some p, rb_left = ptr l, rb_right = Some r0, rb_color = c\<rparr>"
    using m3 [of b] m2 [of b] m1 [of b] ne t(1) assms(2) by simp
  have inl: "x \<noteq> r0 \<and> x \<noteq> b \<and> x \<noteq> p \<and> x \<notin> set (inord r')" if "x \<in> set (inord l)" for x
    using that in_sets d(1) by auto
  then have "rb_mem ?T x = rb_mem T1 x" if "x \<in> set (inord l)" for x using that m3 [of x] m2 [of x] by simp
  then have tl: "is_tree (rb_mem ?T) (Some b) l" using l1 is_tree_cong [of l "rb_mem ?T" "rb_mem T1"] by simp
  have "x \<noteq> r0 \<and> x \<noteq> b \<and> x \<noteq> p" if "x \<in> set (inord r')" for x using that in_sets d(1) by auto
  then have "rb_mem ?T x = rb_mem (set_parent (ptr r') (Some p) T1) x" if "x \<in> set (inord r')" for x
    using that m3 [of x] by (simp add: T2_def)
  then have tr: "is_tree (rb_mem ?T) (Some p) r'"
    using r1 is_tree_cong [of r' "rb_mem ?T" "rb_mem (set_parent (ptr r') (Some p) T1)"] by simp
  have "x \<noteq> r0 \<and> x \<noteq> b \<and> x \<noteq> p \<and> x \<notin> set (inord r') \<and> x \<notin> set (inord l)" if "x \<in> set (ctx_addrs k)" for x
    using that in_sets d(1) by auto
  then have "rb_mem ?T x = ?m x" if "x \<in> set (ctx_addrs k)" for x using that m3 [of x] m2 [of x] m1 [of x] by simp
  then have "is_seg (rb_mem ?T) k (Some a) (rb_root tree) None" using t(4) is_seg_cong [of k "rb_mem ?T" ?m] by simp
  then have sk: "is_seg (rb_mem ?T) k (Some a) (rb_root ?T) None" by (simp add: T1_def T2_def T3_def)
  define M where "M = ?m(p := set_child Lft (ptr r') (?m p))"
  have sM: "is_seg M ?kk (ptr r') (Some r0) (Some a)" unfolding M_def using seg0 d(1) by (intro seg_hole) auto
  have inkk: "x \<noteq> b \<and> x \<notin> set (inord r') \<and> x \<notin> set (inord l)" if "x \<in> set (ctx_addrs ?kk)" for x
    using that d(1) by auto
  have tM: "rb_mem T2 x = M x" if "x \<in> set (ctx_addrs ?kk)" for x
    using inkk [OF that] inkk [of p] m2 [of x] m1 [of x] m1 [of p] by (auto simp: M_def set_child_def)
  have "is_seg (rb_mem ?T) ?kk (ptr r') (Some r0) (Some b)"
  proof (rule seg_top_parent [OF sM])
    show "distinct (ctx_addrs ?kk)" using d(1) by auto
    show "rb_mem ?T r0 = (M r0)\<lparr>rb_parent := Some b\<rparr>" using tM [OF in_sets(2)] m3 [of r0] ne(1) by simp
    show "rb_mem ?T x = M x" if "x \<in> set (ctx_addrs ?kk)" "x \<noteq> r0" for x
      using tM [OF that(1)] inkk [OF that(1)] m3 [of x] that(2) by simp
  qed simp
  from repr_successor [OF mb tl _ this sk]
  show "repr (rb_replace_node ?T a (Some b) (ctx_parent k)) (Fr Lft cp p u # kk @ Fr Rgt c b l # k) r'"
    using tr d by simp
qed

lemma repr_delete_inner:
  assumes "repr tree k (Nd c l a r)" "ptr l = Some l0" "ptr r = Some r0"
  shows "\<exists>tree' kk c' b r'. r = plug kk (Nd c' Lf b r') \<and> list_all on_left kk
    \<and> rb_delete_inner tree a l0 r0 = Some (tree', ptr r', ctx_parent (kk @ Fr Rgt c b l # k), c')
    \<and> repr tree' (kk @ Fr Rgt c b l # k) r'"
proof -
  have tr: "is_tree (rb_mem tree) (Some a) r" and ma: "rb_parent (rb_mem tree a) = ctx_parent k" "rb_color (rb_mem tree a) = c"
    using assms(1) by (auto simp: repr_def)
  obtain kk c' b r' where r: "r = plug kk (Nd c' Lf b r')" "list_all on_left kk" and mn: "ogs_rbtree_min tree r0 = Some b"
    using min_found [OF tr assms(3)] by blast
  show ?thesis
  proof (cases kk)
    case Nil
    have rep: "repr tree k (Nd c l a (Nd c' Lf b r'))" using assms(1) r Nil by simp
    then have b: "rb_mem tree b = \<lparr>rb_parent = Some a, rb_left = None, rb_right = ptr r', rb_color = c'\<rparr>"
      by (auto simp: repr_def)
    have ne: "a \<noteq> b" "a \<noteq> l0" using rep ptr_in [OF assms(2)] by (auto simp: repr_def)
    then show ?thesis
      using delete_inner_last [OF rep assms(2)] mn b ma r Nil
      by (intro exI [of _ "rb_replace_node (set_color b c (set_parent (Some l0) (Some b)
            (upd_node b (\<lambda>n. n\<lparr>rb_left := Some l0\<rparr>) tree))) a (Some b) (ctx_parent k)"] exI [of _ kk] exI [of _ c']
          exI [of _ b] exI [of _ r'])
        (simp add: rb_delete_inner_def set_parent_def)
  next
    case (Cons f kk')
    obtain cp p u where f: "f = Fr Lft cp p u" using r(2) by (cases f) (auto simp: Cons)
    have rep: "repr tree k (Nd c l a (plug (Fr Lft cp p u # kk') (Nd c' Lf b r')))"
      and r0: "ptr (plug (Fr Lft cp p u # kk') (Nd c' Lf b r')) = Some r0"
      using assms(1,3) r(1) by (simp_all add: Cons f)
    note deep = delete_inner_deep [OF rep assms(2) r0]
    define T3 where "T3 = set_parent (Some r0) (Some b) (upd_node b (\<lambda>n. n\<lparr>rb_right := Some r0\<rparr>)
      (upd_node p (\<lambda>n. n\<lparr>rb_left := ptr r'\<rparr>) (set_parent (ptr r') (Some p) (set_parent (Some l0) (Some b)
        (upd_node b (\<lambda>n. n\<lparr>rb_left := Some l0\<rparr>) tree)))))"
    have ab: "a \<noteq> b" using deep(5) by simp
    have "rb_mem T3 a = rb_mem tree a" using deep(4) by (simp add: T3_def)
    moreover from this ab have "rb_mem (set_color b c T3) a = rb_mem tree a" by simp
    ultimately have "rb_delete_inner tree a l0 r0 =
        Some (rb_replace_node (set_color b c T3) a (Some b) (ctx_parent k), ptr r', Some p, c')"
      using mn deep(1-3,5) ma unfolding rb_delete_inner_def by (simp add: Let_def T3_def [symmetric])
    moreover have "repr (rb_replace_node (set_color b c T3) a (Some b) (ctx_parent k)) (kk @ Fr Rgt c b l # k) r'"
      using deep(6) by (simp add: T3_def Cons f)
    ultimately show ?thesis
      using r by (intro exI [of _ "rb_replace_node (set_color b c T3) a (Some b) (ctx_parent k)"] exI [of _ kk]
          exI [of _ c'] exI [of _ b] exI [of _ r']) (simp add: Cons f)
  qed
qed

end
