(* ===== verification/Ogs_Rbtree_Props.thy ===== *)
theory Ogs_Rbtree_Props
  imports Ogs_Rbtree_Heap
begin

text \<open>
  The red-black tree keeps its colors and its order: insertion and deletion at the level of
  pointers return, leave the sequence of the nodes as it is but for the one node, and keep the
  tree balanced.
\<close>

section \<open>Colors and black heights\<close>

abbreviation (input) BLACK :: ogs_rbtree_color_e where "BLACK \<equiv> OGS_RBTREE_BLACK"
abbreviation (input) RED :: ogs_rbtree_color_e where "RED \<equiv> OGS_RBTREE_RED"

lemma not_red [simp]: "c \<noteq> RED \<longleftrightarrow> c = BLACK" "c \<noteq> BLACK \<longleftrightarrow> c = RED"
  by (cases c; simp)+

fun invc :: "rbt \<Rightarrow> bool" where
  "invc Lf \<longleftrightarrow> True"
| "invc (Nd c l a r) \<longleftrightarrow> invc l \<and> invc r \<and> (c = RED \<longrightarrow> root_color l = BLACK \<and> root_color r = BLACK)"

definition bl :: "ogs_rbtree_color_e \<Rightarrow> nat" where
  "bl c = (if c = BLACK then 1 else 0)"

text \<open>The tree has the given number of black nodes on every path.\<close>

fun bhs :: "rbt \<Rightarrow> nat \<Rightarrow> bool" where
  "bhs Lf n \<longleftrightarrow> n = 0"
| "bhs (Nd c l a r) n \<longleftrightarrow> (\<exists>m. bhs l m \<and> bhs r m \<and> n = m + bl c)"

definition rb_ok :: "rbt \<Rightarrow> bool" where
  "rb_ok t \<longleftrightarrow> invc t \<and> (\<exists>n. bhs t n) \<and> root_color t = BLACK"

fun top_color :: "frame list \<Rightarrow> ogs_rbtree_color_e option" where
  "top_color [] = None"
| "top_color (Fr s c a u # k) = Some c"

fun kok :: "frame list \<Rightarrow> bool" where
  "kok [] \<longleftrightarrow> True"
| "kok (Fr s c a u # k) \<longleftrightarrow> invc u \<and> kok k \<and> (c = RED \<longrightarrow> root_color u = BLACK \<and> top_color k = Some BLACK)"

fun kbh :: "frame list \<Rightarrow> nat \<Rightarrow> bool" where
  "kbh [] n \<longleftrightarrow> True"
| "kbh (Fr s c a u # k) n \<longleftrightarrow> bhs u n \<and> kbh k (n + bl c)"

lemma bl_simps [simp]: "bl BLACK = 1" "bl RED = 0"
  by (simp_all add: bl_def)

lemma invc_nd [simp]:
  "invc (nd s c t a u) \<longleftrightarrow> invc t \<and> invc u \<and> (c = RED \<longrightarrow> root_color t = BLACK \<and> root_color u = BLACK)"
  by (cases s) (auto simp: nd_def)

lemma bhs_nd [simp]: "bhs (nd s c t a u) n \<longleftrightarrow> (\<exists>m. bhs t m \<and> bhs u m \<and> n = m + bl c)"
  by (cases s) (auto simp: nd_def)

lemma bhs_unique: "bhs t n \<Longrightarrow> bhs t m \<Longrightarrow> n = m"
proof (induction t arbitrary: n m)
  case (Nd c l a r)
  then show ?case by (auto simp: bl_def)
qed simp

lemma plug_bhs: "bhs t n \<Longrightarrow> kbh k n \<Longrightarrow> \<exists>N. bhs (plug k t) N"
  by (induction k t arbitrary: n rule: plug.induct) (auto intro: exI)

lemma unplug_bhs: "bhs (plug k t) N \<Longrightarrow> \<exists>n. bhs t n \<and> kbh k n"
  by (induction k t rule: plug.induct) auto

lemma plug_invc:
  "kok k \<Longrightarrow> invc t \<Longrightarrow> (top_color k = Some RED \<Longrightarrow> root_color t = BLACK) \<Longrightarrow> invc (plug k t)"
  by (induction k t rule: plug.induct) auto

lemma plug_root: "kok k \<Longrightarrow> k \<noteq> [] \<Longrightarrow> root_color (plug k t) = BLACK"
proof (induction k t rule: plug.induct)
  case (2 s c a u k t)
  then show ?case by (cases "k = []") auto
qed simp

lemma unplug_invc:
  "invc (plug k t) \<Longrightarrow> root_color (plug k t) = BLACK \<Longrightarrow> kok k \<and> invc t \<and> (top_color k = Some RED \<longrightarrow> root_color t = BLACK)
     \<and> (k = [] \<longrightarrow> root_color t = BLACK)"
proof (induction k t rule: plug.induct)
  case (2 s c a u k t)
  then show ?case by (cases k rule: top_color.cases) auto
qed simp

lemma plug_ok:
  assumes "kok k" "kbh k n" "bhs t n" "invc t" "top_color k = Some RED \<Longrightarrow> root_color t = BLACK" "k = [] \<Longrightarrow> root_color t = BLACK"
  shows "rb_ok (plug k t)"
  using plug_bhs [OF assms(3,2)] plug_invc [OF assms(1,4,5)] plug_root [OF assms(1)] assms(6)
  by (cases "k = []") (auto simp: rb_ok_def)

lemma unplug_ok:
  assumes "rb_ok (plug k t)"
  obtains n where "kok k" "kbh k n" "bhs t n" "invc t" "top_color k = Some RED \<longrightarrow> root_color t = BLACK"
    "k = [] \<longrightarrow> root_color t = BLACK"
proof -
  obtain N where "bhs (plug k t) N" using assms by (auto simp: rb_ok_def)
  then obtain n where "bhs t n" "kbh k n" using unplug_bhs by blast
  moreover have "kok k \<and> invc t \<and> (top_color k = Some RED \<longrightarrow> root_color t = BLACK) \<and> (k = [] \<longrightarrow> root_color t = BLACK)"
    using assms by (intro unplug_invc) (simp_all add: rb_ok_def)
  ultimately show thesis by (intro that) blast+
qed

fun cpre :: "frame list \<Rightarrow> nat list" where
  "cpre [] = []"
| "cpre (Fr s c a u # k) = cpre k @ (if s = Lft then [] else inord u @ [a])"

fun cpost :: "frame list \<Rightarrow> nat list" where
  "cpost [] = []"
| "cpost (Fr s c a u # k) = (if s = Lft then a # inord u else []) @ cpost k"

lemma inord_plug: "inord (plug k t) = cpre k @ inord t @ cpost k"
  by (induction k t rule: plug.induct) (auto simp: inord_nd)

lemma ctx_addrs_set: "set (ctx_addrs k) = set (cpre k) \<union> set (cpost k)"
  by (induction k rule: ctx_addrs.induct) auto

lemma inord_split:
  "a \<in> set (inord t) \<Longrightarrow> \<exists>k c l r. t = plug k (Nd c l a r)"
proof (induction t)
  case (Nd c l x r)
  then consider "a = x" | "a \<in> set (inord l)" | "a \<in> set (inord r)" by auto
  then show ?case
  proof cases
    case 1
    then show ?thesis by (intro exI [of _ "[]"]) simp
  next
    case 2
    then obtain k c' l' r' where "l = plug k (Nd c' l' a r')" using Nd.IH(1) by blast
    then have "Nd c l x r = plug (k @ [Fr Lft c x r]) (Nd c' l' a r')" by (simp add: plug_append nd_def)
    then show ?thesis by blast
  next
    case 3
    then obtain k c' l' r' where "r = plug k (Nd c' l' a r')" using Nd.IH(2) by blast
    then have "Nd c l x r = plug (k @ [Fr Rgt c x l]) (Nd c' l' a r')" by (simp add: plug_append nd_def)
    then show ?thesis by blast
  qed
qed simp

fun blacken :: "rbt \<Rightarrow> rbt" where
  "blacken Lf = Lf"
| "blacken (Nd c l a r) = Nd BLACK l a r"

lemma blacken_simps [simp]: "inord (blacken t) = inord t" "root_color (blacken t) = BLACK" "ptr (blacken t) = ptr t"
  "root_color t = BLACK \<Longrightarrow> blacken t = t" "blacken (nd s c t1 a u) = nd s BLACK t1 a u"
  by (cases t; cases s; simp add: nd_def)+

lemma invc_blacken: "invc t \<Longrightarrow> invc (blacken t)"
  by (cases t) auto

lemma bhs_blacken: "bhs t n \<Longrightarrow> \<exists>m. bhs (blacken t) m" "bhs t n \<Longrightarrow> root_color t = RED \<Longrightarrow> bhs (blacken t) (Suc n)"
  by (cases t; auto simp: bl_def)+

lemma repr_blacken:
  assumes "repr tree k t"
  shows "repr (case ptr t of None \<Rightarrow> tree | Some n \<Rightarrow> set_color n BLACK tree) k (blacken t)"
  using assms by (cases t) (auto simp: repr_def)

lemma repr_root_ptr: "repr tree [] t \<Longrightarrow> rb_root tree = ptr t"
  by (simp add: repr_def)

section \<open>Insertion\<close>

text \<open>Reading the surroundings of a node.\<close>

lemma focus_parent:
  assumes "repr tree (Fr s c p u # k) t" "ptr t = Some a"
  shows "rb_parent (rb_mem tree a) = Some p" "rb_parent (rb_mem tree p) = ctx_parent k" "rb_color (rb_mem tree p) = c"
    "child s (rb_mem tree p) = Some a" "child (opp s) (rb_mem tree p) = ptr u"
proof -
  have "repr tree k (nd s c t p u)" using assms(1) by (simp add: repr_focus)
  then show "rb_parent (rb_mem tree p) = ctx_parent k" "rb_color (rb_mem tree p) = c"
    "child s (rb_mem tree p) = Some a" "child (opp s) (rb_mem tree p) = ptr u"
    using repr_nd assms(2) by auto
  show "rb_parent (rb_mem tree a) = Some p" using assms is_tree_ptr by (auto simp: repr_def)
qed

lemma insert_loop_exit:
  assumes "repr tree (Fr s BLACK p u # k) t" "ptr t = Some a"
  shows "rb_insert_loop tree a = Some tree"
  using focus_parent [OF assms] by (simp add: rb_insert_loop.simps)

text \<open>Case 1: the uncle is red.\<close>

lemma insert_flip:
  assumes "repr tree (Fr s1 RED p u1 # Fr s2 BLACK g u2 # k) t" "ptr t = Some a" "root_color u2 = RED"
  shows "\<exists>tree'. rb_insert_side s2 tree a p g = Some (tree', g) \<and> repr tree' k (nd s2 RED (nd s1 BLACK t p u1) g (blacken u2))"
proof -
  obtain x where x: "ptr u2 = Some x" using assms(3) by (cases u2) auto
  have r1: "repr tree (Fr (opp s2) BLACK g (nd s1 RED t p u1) # k) u2"
    using assms(1) by (simp add: repr_focus nd_opp)
  have bk: "\<not> rb_is_black tree (Some x)" using repr_black [OF r1] x assms(3) by simp
  have un: "child (opp s2) (rb_mem tree g) = Some x"
    using assms(1) focus_parent(5) [of tree s2 BLACK g u2 k "nd s1 RED t p u1" p] x by (simp add: repr_focus)
  have "repr (set_color x BLACK tree) (Fr (opp s2) BLACK g (nd s1 RED t p u1) # k) (blacken u2)"
    using repr_blacken [OF r1] x by simp
  then have "repr (set_color x BLACK tree) (Fr s2 BLACK g (blacken u2) # k) (nd s1 RED t p u1)"
    by (simp add: repr_focus nd_opp)
  then have "repr (set_color p BLACK (set_color x BLACK tree)) k (nd s2 BLACK (nd s1 BLACK t p u1) g (blacken u2))"
    using repr_color repr_focus by blast
  then have "repr (set_color g RED (set_color p BLACK (set_color x BLACK tree))) k (nd s2 RED (nd s1 BLACK t p u1) g (blacken u2))"
    by (rule repr_color)
  then show ?thesis using un bk by (simp add: rb_insert_side_def)
qed

text \<open>Cases 2 and 3: the uncle is black. The round ends with a node whose parent is black.\<close>

lemma insert_rotate_outer:
  assumes "repr tree (Fr s RED p u1 # Fr s BLACK g u2 # k) t" "ptr t = Some a" "root_color u2 = BLACK"
  shows "\<exists>tree'. rb_insert_side s tree a p g = Some (tree', a) \<and> repr tree' (Fr s BLACK p (nd s RED u1 g u2) # k) t"
proof -
  let ?T1 = "set_color g RED (set_color p BLACK tree)"
  have "repr tree (Fr s BLACK g u2 # k) (nd s RED t p u1)" using assms(1) by (simp add: repr_focus)
  then have rp: "repr (set_color p BLACK tree) k (nd s BLACK (nd s BLACK t p u1) g u2)" using repr_color repr_focus by blast
  then have "repr ?T1 k (nd s RED (nd s BLACK t p u1) g u2)" by (rule repr_color)
  then have "repr ?T1 k (nd (opp s) RED u2 g (nd (opp s) BLACK u1 p t))" by (simp add: nd_opp)
  then obtain tree' where rot: "rb_rotate (opp s) ?T1 g = Some tree'"
    and rep: "repr tree' k (nd (opp s) BLACK (nd (opp s) RED u2 g u1) p t)"
    using repr_rotate by blast
  have un: "child (opp s) (rb_mem tree g) = ptr u2" "child (opp s) (rb_mem tree p) = ptr u1" "rb_parent (rb_mem tree a) = Some p"
    using focus_parent [of tree s BLACK g u2 k "nd s RED t p u1" p] focus_parent [OF assms(1,2)] assms(1)
    by (simp_all add: repr_focus)
  have "repr tree (Fr (opp s) BLACK g (nd s RED t p u1) # k) u2" using assms(1) by (simp add: repr_focus nd_opp)
  then have bk: "rb_is_black tree (ptr u2)" using repr_black assms(3) by blast
  have ne: "ptr u1 \<noteq> Some a" using ptr_neq [OF assms(1)] assms(2) by (cases t) auto
  have "rb_insert_side s tree a p g = Some (tree', a)"
    using un bk ne rot by (simp add: rb_insert_side_def Let_def)
  then show ?thesis using rep by (simp add: repr_focus nd_opp)
qed

lemma insert_rotate_inner:
  assumes "repr tree (Fr (opp s) RED p u1 # Fr s BLACK g u2 # k) (nd s RED ta a tb)" "root_color u2 = BLACK"
  shows "\<exists>tree'. rb_insert_side s tree a p g = Some (tree', p)
    \<and> repr tree' (Fr s BLACK a (nd s RED tb g u2) # k) (nd s RED u1 p ta)"
proof -
  have "repr tree (Fr s BLACK g u2 # k) (nd s RED u1 p (nd s RED ta a tb))" using assms(1) by (simp add: repr_focus nd_opp)
  then obtain T0 where rot0: "rb_rotate s tree p = Some T0"
    and r0: "repr T0 (Fr s BLACK g u2 # k) (nd s RED (nd s RED u1 p ta) a tb)"
    using repr_rotate by blast
  let ?T1 = "set_color g RED (set_color a BLACK T0)"
  have "repr (set_color a BLACK T0) k (nd s BLACK (nd s BLACK (nd s RED u1 p ta) a tb) g u2)"
    using repr_color [OF r0] repr_focus by blast
  then have "repr ?T1 k (nd s RED (nd s BLACK (nd s RED u1 p ta) a tb) g u2)" by (rule repr_color)
  then have "repr ?T1 k (nd (opp s) RED u2 g (nd (opp s) BLACK tb a (nd s RED u1 p ta)))" by (simp add: nd_opp)
  then obtain tree' where rot: "rb_rotate (opp s) ?T1 g = Some tree'"
    and rep: "repr tree' k (nd (opp s) BLACK (nd (opp s) RED u2 g tb) a (nd s RED u1 p ta))"
    using repr_rotate by blast
  have pa: "rb_parent (rb_mem T0 p) = Some a"
    using r0 focus_parent(1) [of T0 s RED a tb "Fr s BLACK g u2 # k" "nd s RED u1 p ta" p] by (simp add: repr_focus)
  have un: "child (opp s) (rb_mem tree g) = ptr u2" "child (opp s) (rb_mem tree p) = Some a" "rb_parent (rb_mem tree a) = Some p"
    using focus_parent [of tree s BLACK g u2 k "nd (opp s) RED (nd s RED ta a tb) p u1" p] focus_parent [OF assms(1), of a] assms(1)
    by (simp_all add: repr_focus)
  have "repr tree (Fr (opp s) BLACK g (nd (opp s) RED (nd s RED ta a tb) p u1) # k) u2"
    using assms(1) by (simp add: repr_focus nd_opp)
  then have bk: "rb_is_black tree (ptr u2)" using repr_black assms(2) by blast
  have "rb_insert_side s tree a p g = Some (tree', p)"
    using un bk rot0 rot pa by (simp add: rb_insert_side_def Let_def)
  then show ?thesis using rep by (simp add: repr_focus nd_opp)
qed

text \<open>One round of the loop.\<close>

lemma insert_loop_step:
  assumes "repr tree (Fr s1 RED p u1 # Fr s2 BLACK g u2 # k) t" "ptr t = Some a"
    and "rb_insert_side s2 tree a p g = Some (tree', a')"
  shows "rb_insert_loop tree a = rb_insert_loop tree' a'"
proof -
  have r: "repr tree (Fr s2 BLACK g u2 # k) (nd s1 RED t p u1)" using assms(1) by (simp add: repr_focus)
  have "ptr (nd s1 RED t p u1) \<noteq> ptr u2"
    using ptr_neq [OF r] ptr_nd [of s1 RED t p u1] by (metis option.distinct(1) ptr.simps(1))
  then have "(if Some p = rb_left (rb_mem tree g) then Lft else Rgt) = s2" using repr_side [OF r] by simp
  then show ?thesis
    using focus_parent [OF assms(1,2)] assms(3) by (simp add: rb_insert_loop.simps [of tree a] Let_def)
qed

lemma insert_loop:
  assumes "repr tree k t" "ptr t = Some a" "root_color t = RED" "kok k" "kbh k n" "invc t" "bhs t n"
  shows "\<exists>tree' t'. rb_insert_loop tree a = Some tree' \<and> repr tree' [] t' \<and> inord t' = inord (plug k t) \<and> invc t' \<and> (\<exists>N. bhs t' N)"
  using assms
proof (induction "length k" arbitrary: tree k t a n rule: less_induct)
  case less
  have stop: ?case if "rb_insert_loop tree a = Some tree" "top_color k \<noteq> Some RED"
    using that less.prems plug_invc [of k t] plug_bhs [of t n k] repr_root [of tree k t] by (metis)
  consider "k = []" | s p u k1 where "k = Fr s BLACK p u # k1" | s p u k1 where "k = Fr s RED p u # k1"
    by (cases k rule: top_color.cases) (metis ogs_rbtree_color_e.exhaust)+
  then show ?case
  proof cases
    case 1
    then have "rb_parent (rb_mem tree a) = None" using less.prems(1,2) is_tree_ptr by (auto simp: repr_def)
    then show ?thesis using stop 1 by (simp add: rb_insert_loop.simps)
  next
    case 2
    then show ?thesis using stop insert_loop_exit less.prems(1,2) by simp
  next
    case (3 s1 p u1 k1)
    then obtain s2 g u2 k2 where k: "k = Fr s1 RED p u1 # Fr s2 BLACK g u2 # k2"
      using less.prems(4) by (cases k1 rule: top_color.cases) auto
    note rep = less.prems(1) [unfolded k] and step = insert_loop_step [OF less.prems(1) [unfolded k] less.prems(2)]
    have ok: "kok k2" "invc u1" "invc u2" "root_color u1 = BLACK" "bhs u1 n" "bhs u2 n" "kbh k2 (n + 1)"
      using less.prems(4,5) by (auto simp: k)
    show ?thesis
    proof (cases "root_color u2 = RED")
      case True
      obtain tree' where 1: "rb_insert_side s2 tree a p g = Some (tree', g)"
        and 2: "repr tree' k2 (nd s2 RED (nd s1 BLACK t p u1) g (blacken u2))"
        using insert_flip [OF rep less.prems(2) True] by blast
      have "bhs (blacken u2) (n + 1)" using bhs_blacken(2) ok(6) True by simp
      then have "\<exists>T t'. rb_insert_loop tree' g = Some T \<and> repr T [] t'
          \<and> inord t' = inord (plug k2 (nd s2 RED (nd s1 BLACK t p u1) g (blacken u2))) \<and> invc t' \<and> (\<exists>N. bhs t' N)"
        using 2 ok less.prems(6,7) by (intro less.hyps [of k2 tree' _ g "n + 1"]) (simp_all add: k invc_blacken)
      then show ?thesis unfolding step [OF 1] by (simp add: k inord_plug inord_nd cong: if_cong)
    next
      case False
      then have u2: "root_color u2 = BLACK" by simp
      show ?thesis
      proof (cases "s1 = s2")
        case True
        obtain tree' where 1: "rb_insert_side s2 tree a p g = Some (tree', a)"
          and 2: "repr tree' (Fr s2 BLACK p (nd s2 RED u1 g u2) # k2) t"
          using insert_rotate_outer [OF rep [unfolded True] less.prems(2) u2] by blast
        have "\<exists>T t'. rb_insert_loop tree' a = Some T \<and> repr T [] t'
            \<and> inord t' = inord (plug (Fr s2 BLACK p (nd s2 RED u1 g u2) # k2) t) \<and> invc t' \<and> (\<exists>N. bhs t' N)"
          using 2 ok u2 less.prems by (intro less.hyps [of _ tree' t a n]) (simp_all add: k)
        then show ?thesis unfolding step [OF 1] by (simp add: k True inord_plug inord_nd cong: if_cong)
      next
        case False
        then have s1: "s1 = opp s2" by (cases s1; cases s2) simp_all
        obtain ta tb where t: "t = nd s2 RED ta a tb"
          using less.prems(2,3) nd_exhaust [of t s2] by (metis option.sel ptr_None(1) ptr_nd root_color_nd option.distinct(1))
        obtain tree' where 1: "rb_insert_side s2 tree a p g = Some (tree', p)"
          and 2: "repr tree' (Fr s2 BLACK a (nd s2 RED tb g u2) # k2) (nd s2 RED u1 p ta)"
          using insert_rotate_inner [OF rep [unfolded s1 t] u2] by blast
        have "\<exists>T t'. rb_insert_loop tree' p = Some T \<and> repr T [] t'
            \<and> inord t' = inord (plug (Fr s2 BLACK a (nd s2 RED tb g u2) # k2) (nd s2 RED u1 p ta)) \<and> invc t' \<and> (\<exists>N. bhs t' N)"
          using 2 ok u2 less.prems by (intro less.hyps [of _ tree' _ p n]) (simp_all add: k t)
        then show ?thesis unfolding step [OF 1] by (cases s2) (simp_all add: k s1 t inord_plug inord_nd)
      qed
    qed
  qed
qed

text \<open>A node linked where a search ended, and the colors repaired.\<close>

definition link_of :: "frame list \<Rightarrow> (nat \<times> side) option" where
  "link_of k = (case k of [] \<Rightarrow> None | Fr s c p u # _ \<Rightarrow> Some (p, s))"

lemma insert_ok:
  assumes "repr tree k Lf" "a \<notin> set (ctx_addrs k)" "rb_ok (plug k Lf)"
  shows "\<exists>tree' t'. ogs_rbtree_insert_color (ogs_rbtree_link_node a (link_of k) tree) a = Some tree' \<and> repr tree' [] t'
    \<and> inord t' = cpre k @ a # cpost k \<and> rb_ok t'"
proof -
  let ?T = "ogs_rbtree_link_node a (link_of k) tree"
  obtain n where n: "kok k" "kbh k n" "bhs Lf n" using unplug_ok [OF assms(3)] by metis
  have "repr ?T k (Nd RED Lf a Lf)" by (rule repr_link [OF assms(1,2)]) (simp add: link_of_def)
  then obtain tree1 t1 where 1: "rb_insert_loop ?T a = Some tree1" "repr tree1 [] t1" "inord t1 = cpre k @ a # cpost k" "invc t1" "\<exists>N. bhs t1 N"
    using insert_loop [of ?T k "Nd RED Lf a Lf" a n] n by (auto simp: inord_plug)
  then obtain x where x: "ptr t1 = Some x" by (cases t1) auto
  have "repr (set_color x BLACK tree1) [] (blacken t1)" using repr_blacken [OF 1(2)] x by simp
  moreover have "rb_ok (blacken t1)" using 1(4,5) invc_blacken bhs_blacken(1) by (auto simp: rb_ok_def)
  ultimately show ?thesis using 1 x repr_root_ptr [OF 1(2)]
    by (intro exI [of _ "set_color x BLACK tree1"] exI [of _ "blacken t1"]) (simp add: ogs_rbtree_insert_color_def)
qed

section \<open>Deletion\<close>

lemma delete_far:
  assumes "repr tree (Fr s c p (nd s BLACK near b far) # k) t" "ptr far = Some f"
  shows "\<exists>tree'. rb_delete_far s tree p b = Some tree' \<and> repr tree' k (nd s c (nd s BLACK t p near) b (blacken far))"
proof -
  let ?T1 = "set_color p BLACK (set_color b c tree)"
  have cp: "rb_color (rb_mem tree p) = c" using repr_nd(4) assms(1) repr_focus by blast
  have "repr tree (Fr (opp s) c p t # k) (nd s BLACK near b far)" using assms(1) by (simp add: repr_focus nd_opp)
  from repr_color [OF this, of c] have "repr (set_color b c tree) k (nd s c t p (nd s c near b far))"
    by (simp add: repr_focus nd_opp)
  then have r1: "repr ?T1 k (nd s BLACK t p (nd s c near b far))" by (rule repr_color)
  then have "repr ?T1 (Fr (opp s) c b near # Fr (opp s) BLACK p t # k) far" by (simp add: repr_focus nd_opp)
  from repr_blacken [OF this] have "repr (set_color f BLACK ?T1) k (nd s BLACK t p (nd s c near b (blacken far)))"
    by (simp add: assms(2) repr_focus nd_opp)
  then obtain tree' where 2: "rb_rotate s (set_color f BLACK ?T1) p = Some tree'"
    "repr tree' k (nd s c (nd s BLACK t p near) b (blacken far))" using repr_rotate by blast
  have "repr ?T1 (Fr (opp s) BLACK p t # k) (nd s c near b far)" using r1 by (simp add: repr_focus nd_opp)
  from repr_nd(2) [OF this] have "child (opp s) (rb_mem ?T1 b) = Some f" using assms(2) by simp
  then show ?thesis using 2 cp by (simp add: rb_delete_far_def Let_def del: mem_set_color)
qed

lemma delete_near:
  assumes "repr tree (Fr s c p (nd s BLACK (nd s RED n1 d n2) b far) # k) t"
  shows "\<exists>tree'. rb_delete_near s tree p b = Some (tree', d)
    \<and> repr tree' (Fr s c p (nd s BLACK n1 d (nd s RED n2 b far)) # k) t"
proof -
  let ?K = "Fr (opp s) c p t # k" and ?T1 = "set_color b RED (set_color d BLACK tree)"
  have r0: "repr tree ?K (nd s BLACK (nd s RED n1 d n2) b far)" using assms by (simp add: repr_focus nd_opp)
  then have "repr tree (Fr s BLACK b far # ?K) (nd s RED n1 d n2)" by (simp add: repr_focus)
  then have "repr (set_color d BLACK tree) (Fr s BLACK b far # ?K) (nd s BLACK n1 d n2)" by (rule repr_color)
  then have "repr ?T1 ?K (nd s RED (nd s BLACK n1 d n2) b far)" using repr_color repr_focus by blast
  then have "repr ?T1 ?K (nd (opp s) RED far b (nd (opp s) BLACK n2 d n1))" by (simp add: nd_opp)
  then obtain tree' where 2: "rb_rotate (opp s) ?T1 b = Some tree'"
    "repr tree' ?K (nd (opp s) BLACK (nd (opp s) RED far b n2) d n1)" using repr_rotate by blast
  then have r2: "repr tree' k (nd s c t p (nd s BLACK n1 d (nd s RED n2 b far)))" by (simp add: repr_focus nd_opp)
  have "child s (rb_mem tree b) = Some d" using repr_nd(1) [OF r0] by simp
  moreover have "child (opp s) (rb_mem tree' p) = Some d" using repr_nd(2) [OF r2] by simp
  ultimately show ?thesis using 2(1) r2 by (simp add: rb_delete_near_def Let_def repr_focus)
qed

text \<open>The part of a round after case 1: either the parent is the next node, or the tree is done.\<close>

lemma sibling_black:
  assumes "repr tree (Fr s c p (nd s BLACK near b far) # k) t"
  shows "rb_is_black tree (child s (rb_mem tree b)) \<longleftrightarrow> root_color near = BLACK"
    "rb_is_black tree (child (opp s) (rb_mem tree b)) \<longleftrightarrow> root_color far = BLACK"
proof -
  let ?K = "Fr (opp s) c p t # k"
  have r: "repr tree ?K (nd s BLACK near b far)" using assms by (simp add: repr_focus nd_opp)
  then have "repr tree (Fr s BLACK b far # ?K) near" "repr tree (Fr (opp s) BLACK b near # ?K) far" by (simp_all add: repr_focus nd_opp)
  then show "rb_is_black tree (child s (rb_mem tree b)) \<longleftrightarrow> root_color near = BLACK"
    "rb_is_black tree (child (opp s) (rb_mem tree b)) \<longleftrightarrow> root_color far = BLACK"
    using repr_nd(1,2) [OF r] repr_black by metis+
qed

lemma both_sides: "P (rb_left n) \<and> P (rb_right n) \<longleftrightarrow> P (child s n) \<and> P (child (opp s) n)"
  by (cases s) (auto simp: child_def)

lemma delete_black_up:
  assumes "repr tree (Fr s c p (nd s BLACK near b far) # k) t" "root_color near = BLACK" "root_color far = BLACK"
  shows "\<exists>tree'. rb_delete_black s tree p b = Some (tree', Some p, ctx_parent k)
    \<and> repr tree' k (nd s c t p (nd s RED near b far))"
proof -
  have r: "repr tree (Fr (opp s) c p t # k) (nd s BLACK near b far)" using assms(1) by (simp add: repr_focus nd_opp)
  from repr_color [OF this] have 1: "repr (set_color b RED tree) k (nd s c t p (nd s RED near b far))" by (simp add: repr_focus nd_opp)
  moreover have "rb_parent (rb_mem (set_color b RED tree) p) = ctx_parent k" using repr_nd(3) [OF 1] .
  ultimately show ?thesis
    using both_sides [of "rb_is_black tree" "rb_mem tree b" s] sibling_black [OF assms(1)] assms(2,3)
    by (simp add: rb_delete_black_def Let_def)
qed

lemma delete_black_end:
  assumes "repr tree (Fr s c p (nd s BLACK near b far) # k) t" "root_color near = RED \<or> root_color far = RED"
    and "invc t" "invc near" "invc far" "bhs t n" "bhs near n" "bhs far n" "root_color t = BLACK"
  shows "\<exists>tree' u. rb_delete_black s tree p b = Some (tree', rb_root tree', Some p) \<and> repr tree' k u
    \<and> inord u = inord (nd s c t p (nd s BLACK near b far)) \<and> invc u \<and> bhs u (n + 1 + bl c) \<and> root_color u = c"
proof -
  have nb: "\<not> (rb_is_black tree (rb_left (rb_mem tree b)) \<and> rb_is_black tree (rb_right (rb_mem tree b)))"
    using both_sides [of "rb_is_black tree" "rb_mem tree b" s] sibling_black [OF assms(1)] assms(2) by auto
  note black = rb_delete_black_def [of s tree p b, unfolded if_not_P [OF nb]]
  show ?thesis
  proof (cases "root_color far = RED")
    case True
    obtain f where "ptr far = Some f" using True by (cases far) auto
    then obtain tree' where 1: "rb_delete_far s tree p b = Some tree'" "repr tree' k (nd s c (nd s BLACK t p near) b (blacken far))"
      using delete_far [OF assms(1)] by blast
    have "bhs (blacken far) (n + 1)" using bhs_blacken(2) assms(8) True by simp
    then show ?thesis
      using 1 assms True sibling_black [OF assms(1)]
      by (intro exI [of _ tree'] exI [of _ "nd s c (nd s BLACK t p near) b (blacken far)"])
        (simp add: black inord_nd invc_blacken)
  next
    case False
    then have far: "root_color far = BLACK" and "root_color near = RED" using assms(2) by simp_all
    then obtain n1 d n2 where near: "near = nd s RED n1 d n2" using nd_exhaust [of near s] by (metis not_red(1) root_color.simps(1) root_color_nd)
    obtain tree1 where 1: "rb_delete_near s tree p b = Some (tree1, d)"
      "repr tree1 (Fr s c p (nd s BLACK n1 d (nd s RED n2 b far)) # k) t" using delete_near assms(1) near by blast
    obtain tree' where 2: "rb_delete_far s tree1 p d = Some tree'"
      "repr tree' k (nd s c (nd s BLACK t p n1) d (nd s BLACK n2 b far))" using delete_far [OF 1(2), of b] by auto
    show ?thesis
      using 1 2 assms far near sibling_black [OF assms(1)]
      by (intro exI [of _ tree'] exI [of _ "nd s c (nd s BLACK t p n1) d (nd s BLACK n2 b far)"])
        (simp add: black inord_nd)
  qed
qed

text \<open>A round that ends at the root, and a round as a step of the whole repair.\<close>

lemma nd_not_Lf [simp]: "nd s c t a u \<noteq> Lf"
  by (cases s) (simp_all add: nd_def)

lemma plug_Lf: "plug k t = Lf \<longleftrightarrow> k = [] \<and> t = Lf"
  by (induction k t rule: plug.induct) simp_all

lemma root_iff: "repr tree k t \<Longrightarrow> ptr t = rb_root tree \<longleftrightarrow> k = []"
proof (cases k)
  case (Cons f k')
  assume r: "repr tree k t"
  have "rb_root tree = ptr (plug k t)" using r repr_root repr_root_ptr by blast
  then obtain x where x: "rb_root tree = Some x" using plug_Lf [of k t] Cons by (cases "plug k t") auto
  then have "x \<in> set (ctx_addrs k)" using r seg_top [of "rb_mem tree" k "ptr t" x None] by (simp add: repr_def Cons)
  then show "ptr t = rb_root tree \<longleftrightarrow> k = []" using r x ptr_in [of t x] Cons by (auto simp: repr_def)
qed (simp add: repr_def)

text \<open>The tree that results is in order.\<close>

definition repaired :: "rbtree option \<Rightarrow> rbt \<Rightarrow> bool" where
  "repaired res t \<longleftrightarrow> (\<exists>tree' t'. res = Some tree' \<and> repr tree' [] t' \<and> inord t' = inord t \<and> rb_ok t')"

lemma repaired_same: "repaired res t \<Longrightarrow> inord t = inord t' \<Longrightarrow> repaired res t'"
  by (simp add: repaired_def)

lemma delete_color_end:
  assumes "repr tree k t" "k = [] \<or> root_color t = RED" "kok k" "kbh k (n + 1)" "bhs t n" "invc (blacken t)"
  shows "repaired (rb_delete_color tree (ptr t) (ctx_parent k)) (plug k t)"
proof -
  let ?T = "case ptr t of None \<Rightarrow> tree | Some a \<Rightarrow> set_color a BLACK tree"
  have "ptr t = rb_root tree \<or> \<not> rb_is_black tree (ptr t)"
    using assms(2) root_iff [OF assms(1)] repr_black [OF assms(1)] by auto
  then have "rb_delete_color tree (ptr t) (ctx_parent k) = Some ?T"
    unfolding rb_delete_color_def by (subst rb_delete_loop.simps) simp
  moreover have "repr ?T [] (plug k (blacken t))" using repr_blacken [OF assms(1)] repr_root by blast
  moreover have "rb_ok (plug k (blacken t))"
  proof (cases "root_color t = RED")
    case True
    then show ?thesis using assms bhs_blacken(2) [of t n] by (intro plug_ok [of k "n + 1"]) auto
  next
    case False
    then show ?thesis using assms by (intro plug_ok [of k n]) auto
  qed
  ultimately show ?thesis by (auto simp: repaired_def inord_plug)
qed

lemma delete_color_step:
  assumes "repr tree (Fr s c p u # k) t" "root_color t = BLACK" "u \<noteq> Lf"
    and "rb_delete_side s tree p = Some (tree', node', parent')"
  shows "rb_delete_color tree (ptr t) (Some p) = rb_delete_color tree' node' parent'"
proof -
  have "(if ptr t = rb_left (rb_mem tree p) then Lft else Rgt) = s"
    using repr_side ptr_neq assms(1,3) by blast
  then show ?thesis
    using assms(4) root_iff [OF assms(1)] repr_black [OF assms(1)] assms(2)
    unfolding rb_delete_color_def by (subst rb_delete_loop.simps) (simp add: Let_def)
qed

text \<open>The loop: the subtree in the focus has one black node too few.\<close>

lemma bhs_sub: "bhs u (Suc n) \<Longrightarrow> root_color u = BLACK \<Longrightarrow> \<exists>x b y. u = nd s BLACK x b y \<and> bhs x n \<and> bhs y n"
  using nd_exhaust [of u s] by (cases "u = Lf") (auto, blast)

lemma delete_side_black:
  assumes "repr tree (Fr s c p (nd s BLACK near b far) # k) t"
  shows "rb_delete_side s tree p = rb_delete_black s tree p b"
proof -
  have r: "repr tree k (nd s c t p (nd s BLACK near b far))" using assms by (simp add: repr_focus)
  then have "repr tree (Fr (opp s) c p t # k) (nd s BLACK near b far)" by (simp add: repr_focus nd_opp)
  from repr_nd(4) [OF this] repr_nd(2) [OF r] show ?thesis by (simp add: rb_delete_side_def)
qed

lemma delete_side_red:
  assumes "repr tree (Fr s BLACK p (nd s RED (nd s BLACK near d far) b sf) # k) t"
  shows "\<exists>tree'. rb_delete_side s tree p = rb_delete_black s tree' p d
    \<and> repr tree' (Fr s RED p (nd s BLACK near d far) # Fr s BLACK b sf # k) t"
proof -
  let ?u = "nd s BLACK near d far" and ?T1 = "set_color p RED (set_color b BLACK tree)"
  have r: "repr tree k (nd s BLACK t p (nd s RED ?u b sf))" using assms by (simp add: repr_focus)
  then have r0: "repr tree (Fr (opp s) BLACK p t # k) (nd s RED ?u b sf)" by (simp add: repr_focus nd_opp)
  from repr_color [OF this, of BLACK] have "repr (set_color b BLACK tree) k (nd s BLACK t p (nd s BLACK ?u b sf))"
    by (simp add: repr_focus nd_opp)
  then have "repr ?T1 k (nd s RED t p (nd s BLACK ?u b sf))" by (rule repr_color)
  then obtain tree' where 1: "rb_rotate s ?T1 p = Some tree'" "repr tree' k (nd s BLACK (nd s RED t p ?u) b sf)"
    using repr_rotate by blast
  then have r2: "repr tree' (Fr s BLACK b sf # k) (nd s RED t p ?u)" by (simp add: repr_focus)
  then have "child (opp s) (rb_mem tree' p) = Some d" using repr_nd(2) by fastforce
  then show ?thesis
    using repr_nd(2) [OF r] repr_nd(4) [OF r0] 1(1) r2
    by (intro exI [of _ tree']) (simp add: rb_delete_side_def Let_def repr_focus)
qed

lemma delete_black_done:
  assumes "repr tree (Fr s c p (nd s BLACK near b far) # k) t" "root_color near = RED \<or> root_color far = RED"
    and "kok (Fr s c p (nd s BLACK near b far) # k)" "kbh k (n + 1 + bl c)"
    and "invc t" "bhs t n" "bhs near n" "bhs far n" "root_color t = BLACK"
  shows "\<exists>tree'. rb_delete_black s tree p b = Some (tree', rb_root tree', Some p)
    \<and> repaired (rb_delete_color tree' (rb_root tree') (Some p)) (plug k (nd s c t p (nd s BLACK near b far)))"
proof -
  obtain tree' u where 1: "rb_delete_black s tree p b = Some (tree', rb_root tree', Some p)" "repr tree' k u"
    "inord u = inord (nd s c t p (nd s BLACK near b far))" "invc u" "bhs u (n + 1 + bl c)" "root_color u = c"
    using delete_black_end [OF assms(1,2), of n] assms by auto
  have T: "repr tree' [] (plug k u)" using 1(2) repr_root by blast
  have ok: "rb_ok (plug k u)" using 1 assms(3,4) by (intro plug_ok [of k "n + 1 + bl c"]) auto
  then have "repr (case rb_root tree' of None \<Rightarrow> tree' | Some a \<Rightarrow> set_color a BLACK tree') [] (plug k u)"
    using repr_blacken [OF T] repr_root_ptr [OF T] by (simp add: rb_ok_def)
  then have "repaired (rb_delete_color tree' (rb_root tree') (Some p)) (plug k u)"
    using ok unfolding rb_delete_color_def repaired_def by (subst rb_delete_loop.simps) auto
  then show ?thesis using 1(1,3) by (simp add: repaired_def inord_plug)
qed

lemma delete_color_ok:
  assumes "repr tree k t" "kok k" "kbh k (n + 1)" "bhs t n" "invc (blacken t)"
  shows "repaired (rb_delete_color tree (ptr t) (ctx_parent k)) (plug k t)"
  using assms
proof (induction "length k" arbitrary: tree k t n rule: less_induct)
  case less
  show ?case
  proof (cases "k = [] \<or> root_color t = RED")
    case True
    then show ?thesis using less.prems delete_color_end by blast
  next
    case False
    then obtain s c p u k1 where k: "k = Fr s c p u # k1" by (cases k rule: top_color.cases) auto
    have t: "root_color t = BLACK" "invc t" using False less.prems(5) by auto
    note rep = less.prems(1) [unfolded k]
    have u: "bhs u (Suc n)" "kbh k1 (n + 1 + bl c)" "kok (Fr s c p u # k1)" "u \<noteq> Lf"
      using less.prems(2,3) by (auto simp: k)
    note step = delete_color_step [OF rep t(1) u(4)]
    show ?thesis
    proof (cases "root_color u = BLACK")
      case True
      then obtain x b y where ub: "u = nd s BLACK x b y" "bhs x n" "bhs y n" using bhs_sub u(1) by blast
      note side = delete_side_black [OF rep [unfolded ub(1)]]
      show ?thesis
      proof (cases "root_color x = BLACK \<and> root_color y = BLACK")
        case True
        then obtain tree' where 1: "rb_delete_black s tree p b = Some (tree', Some p, ctx_parent k1)"
          "repr tree' k1 (nd s c t p (nd s RED x b y))" using delete_black_up rep ub(1) by blast
        have "repaired (rb_delete_color tree' (ptr (nd s c t p (nd s RED x b y))) (ctx_parent k1)) (plug k1 (nd s c t p (nd s RED x b y)))"
          using 1(2) u ub t True less.prems(4) by (intro less.hyps [of k1 _ _ "n + bl c"]) (simp_all add: k)
        then have "repaired (rb_delete_color tree' (Some p) (ctx_parent k1)) (plug k t)"
          unfolding ptr_nd by (rule repaired_same) (cases s; simp add: k ub(1) inord_plug inord_nd)
        then show ?thesis using step 1(1) side by (simp add: k)
      next
        case False
        then show ?thesis
          using delete_black_done [OF rep [unfolded ub(1)], of n] step side u ub t less.prems(4) by (auto simp: k)
      qed
    next
      case False
      then have c: "c = BLACK" "root_color u = RED" using u(3) by auto
      then obtain sn b sf where ur: "u = nd s RED sn b sf" using nd_exhaust [OF u(4), of s] by auto
      then have sn: "root_color sn = BLACK" "bhs sn (Suc n)" "bhs sf (Suc n)" using u(1,3) by auto
      then obtain x d y where ub: "sn = nd s BLACK x d y" "bhs x n" "bhs y n" using bhs_sub by blast
      obtain tree1 where side: "rb_delete_side s tree p = rb_delete_black s tree1 p d"
        and rep1: "repr tree1 (Fr s RED p (nd s BLACK x d y) # Fr s BLACK b sf # k1) t"
        using delete_side_red rep c(1) ur ub(1) by blast
      show ?thesis
      proof (cases "root_color x = BLACK \<and> root_color y = BLACK")
        case True
        then obtain tree' where 1: "rb_delete_black s tree1 p d = Some (tree', Some p, ctx_parent (Fr s BLACK b sf # k1))"
          "repr tree' (Fr s BLACK b sf # k1) (nd s RED t p (nd s RED x d y))" using delete_black_up [OF rep1] by blast
        have "repaired (rb_delete_color tree' (ptr (nd s RED t p (nd s RED x d y))) (ctx_parent (Fr s BLACK b sf # k1)))
            (plug (Fr s BLACK b sf # k1) (nd s RED t p (nd s RED x d y)))"
          using 1(2) u ub t c True sn less.prems(4) by (intro delete_color_end [of _ _ _ n]) (simp_all add: ur)
        then have "repaired (rb_delete_color tree' (Some p) (Some b)) (plug k t)"
          unfolding ptr_nd ctx_parent.simps by (rule repaired_same) (cases s; simp add: k ub(1) ur inord_plug inord_nd)
        then show ?thesis using step 1(1) side by (simp add: k)
      next
        case False
        then obtain tree' where 1: "rb_delete_black s tree1 p d = Some (tree', rb_root tree', Some p)"
          "repaired (rb_delete_color tree' (rb_root tree') (Some p)) (plug (Fr s BLACK b sf # k1) (nd s RED t p (nd s BLACK x d y)))"
          using delete_black_done [OF rep1, of n] u ub t c sn less.prems(4) by (auto simp: ur)
        from this(2) have "repaired (rb_delete_color tree' (rb_root tree') (Some p)) (plug k t)"
          by (rule repaired_same) (cases s; simp add: k ub(1) ur inord_plug inord_nd)
        then show ?thesis using step 1(1) side by (simp add: k)
      qed
    qed
  qed
qed

text \<open>A node with at most one child leaves the tree.\<close>

lemma node_removed:
  assumes "repr tree k r" "rb_ok (plug k (nd s c Lf x r))"
  shows "repaired (if c = BLACK then rb_delete_color tree (ptr r) (ctx_parent k) else Some tree) (plug k r)"
proof -
  obtain n where n: "kok k" "kbh k n" "bhs (nd s c Lf x r) n" "invc r" "bhs r 0" "n = bl c"
    "top_color k = Some RED \<longrightarrow> c = BLACK" "k = [] \<longrightarrow> c = BLACK" "c = RED \<longrightarrow> root_color r = BLACK"
    using unplug_ok [OF assms(2)] by (auto simp: bl_def split: if_splits)
  show ?thesis
  proof (cases "c = BLACK")
    case True
    then show ?thesis using delete_color_ok [OF assms(1) n(1) _ n(5)] n invc_blacken by simp
  next
    case False
    then have "rb_ok (plug k r)" using n by (intro plug_ok [of k 0]) auto
    then show ?thesis using False assms(1) repr_root by (auto simp: repaired_def)
  qed
qed

lemma kok_addr: "kok (kk @ Fr s c a u # k) = kok (kk @ Fr s c b u # k)"
proof (induction kk rule: kok.induct)
  case (2 s' c' a' u' kk)
  then show ?case by (cases kk rule: kok.cases) auto
qed simp

lemma kbh_addr: "kbh (kk @ Fr s c a u # k) n = kbh (kk @ Fr s c b u # k) n"
  by (induction kk n rule: kbh.induct) simp_all

lemma plug_ok_addr:
  assumes "rb_ok (plug (kk @ Fr s c a u # k) t)"
  shows "rb_ok (plug (kk @ Fr s c b u # k) t)"
proof -
  obtain n where n: "kok (kk @ Fr s c a u # k)" "kbh (kk @ Fr s c a u # k) n" "bhs t n" "invc t"
    "top_color (kk @ Fr s c a u # k) = Some RED \<longrightarrow> root_color t = BLACK"
    using unplug_ok [OF assms] by metis
  have "top_color (kk @ Fr s c b u # k) = top_color (kk @ Fr s c a u # k)" by (cases kk rule: top_color.cases) simp_all
  then show ?thesis using n kok_addr [of kk s c a u k b] kbh_addr [of kk s c a u k n b] by (intro plug_ok [of _ n]) auto
qed

lemma rb_delete_ok:
  assumes "repr tree [] T" "rb_ok T" "a \<in> set (inord T)"
  shows "\<exists>tree' T'. ogs_rbtree_delete tree a = Some tree' \<and> repr tree' [] T' \<and> inord T' = remove1 a (inord T) \<and> rb_ok T'"
proof -
  obtain k c l r where T: "T = plug k (Nd c l a r)" using inord_split assms(3) by blast
  have rep: "repr tree k (Nd c l a r)" using assms(1) T repr_root by blast
  note node = repr_left_right [OF rep]
  have "distinct (inord T)" using assms(1) by (simp add: repr_def)
  then have rm: "remove1 a (inord T) = cpre k @ inord l @ inord r @ cpost k" by (auto simp: T inord_plug remove1_append)
  have fin: "?thesis" if "repaired (ogs_rbtree_delete tree a) t" "inord t = cpre k @ inord l @ inord r @ cpost k" for t
    using that rm by (auto simp: repaired_def)
  consider (l) "l = Lf" | (r) "l \<noteq> Lf" "r = Lf" | (inner) l0 r0 where "ptr l = Some l0" "ptr r = Some r0"
    by (cases l; cases r) auto
  then show ?thesis
  proof cases
    case l
    have ndl: "Nd c Lf a r = nd Lft c Lf a r" "Nd c Lf a r = nd Rgt c r a Lf" by (simp_all add: nd_def)
    have r: "repr (rb_replace_node tree a (ptr r) (ctx_parent k)) k r" using repr_replace rep ndl(2) l by metis
    then have "repaired (ogs_rbtree_delete tree a) (plug k r)"
      using node_removed [OF r, of Lft c a] assms(2) ndl(1) node l by (simp add: T ogs_rbtree_delete_def)
    then show ?thesis by (rule fin) (simp add: l inord_plug)
  next
    case r
    have ndl: "Nd c l a Lf = nd Lft c l a Lf" "Nd c l a Lf = nd Rgt c Lf a l" by (simp_all add: nd_def)
    obtain l0 where l0: "ptr l = Some l0" using r by (cases l) auto
    have rl: "repr (rb_replace_node tree a (ptr l) (ctx_parent k)) k l" using repr_replace rep ndl(1) r by metis
    then have "repaired (ogs_rbtree_delete tree a) (plug k l)"
      using node_removed [OF rl, of Rgt c a] assms(2) ndl(2) node r unfolding l0 by (simp add: T ogs_rbtree_delete_def)
    then show ?thesis by (rule fin) (simp add: r inord_plug)
  next
    case inner
    obtain tree' kk c' b r' where 1: "r = plug kk (Nd c' Lf b r')" "list_all on_left kk"
      "rb_delete_inner tree a l0 r0 = Some (tree', ptr r', ctx_parent (kk @ Fr Rgt c b l # k), c')"
      "repr tree' (kk @ Fr Rgt c b l # k) r'" using repr_delete_inner [OF rep inner] by blast
    have "T = plug (kk @ Fr Rgt c a l # k) (nd Lft c' Lf b r')" by (simp add: T 1(1) plug_append nd_def)
    then have "rb_ok (plug (kk @ Fr Rgt c b l # k) (nd Lft c' Lf b r'))" using assms(2) plug_ok_addr by blast
    then have "repaired (ogs_rbtree_delete tree a) (plug (kk @ Fr Rgt c b l # k) r')"
      using node_removed [OF 1(4)] 1(3) node inner by (simp add: ogs_rbtree_delete_def)
    then show ?thesis
      by (rule fin) (simp add: 1(1) plug_append inord_plug [of k] nd_def inord_plug_left [OF 1(2), of r']
          inord_plug_left [OF 1(2), of "Nd c' Lf b r'"])
  qed
qed

section \<open>Iteration\<close>

lemma first_ok:
  assumes "repr tree [] T"
  shows "ogs_rbtree_first tree = Some (case inord T of [] \<Rightarrow> None | a # _ \<Rightarrow> Some a)"
proof (cases "ptr T")
  case None
  then show ?thesis using repr_root_ptr [OF assms] by (simp add: ogs_rbtree_first_def)
next
  case (Some a)
  then obtain kk c' b r' where 1: "T = plug kk (Nd c' Lf b r')" "list_all on_left kk" "ogs_rbtree_min tree a = Some b"
    using min_found [of tree None T a] assms by (auto simp: repr_def)
  then have "inord T = b # inord r' @ inord (plug kk Lf)" using inord_plug_left [OF 1(2), of "Nd c' Lf b r'"] by simp
  then show ?thesis using repr_root_ptr [OF assms] Some 1(3) by (simp add: ogs_rbtree_first_def)
qed

lemma climb_ok:
  "repr tree k t \<Longrightarrow> ptr t = Some a \<Longrightarrow> rb_climb tree a = Some (case cpost k of [] \<Rightarrow> None | b # _ \<Rightarrow> Some b)"
proof (induction k arbitrary: t a)
  case Nil
  then show ?case using is_tree_ptr by (auto simp: repr_def rb_climb.simps)
next
  case (Cons f k)
  obtain s c p u where f: "f = Fr s c p u" by (cases f)
  note par = focus_parent [OF Cons.prems [unfolded f]]
  have ne: "ptr u \<noteq> Some a" using ptr_neq [OF Cons.prems(1) [unfolded f]] Cons.prems(2) by (cases t) auto
  show ?case
  proof (cases s)
    case Lft
    then show ?thesis using par ne by (simp add: rb_climb.simps [of tree a] f child_def)
  next
    case Rgt
    have "rb_climb tree p = Some (case cpost k of [] \<Rightarrow> None | b # _ \<Rightarrow> Some b)"
      using Cons.IH [of "nd s c t p u" p] Cons.prems(1) by (simp add: f repr_focus)
    then show ?thesis using Rgt par by (simp add: rb_climb.simps [of tree a] f child_def)
  qed
qed

lemma next_ok:
  assumes "repr tree [] T" "inord T = xs @ a # ys"
  shows "ogs_rbtree_next tree a = Some (case ys of [] \<Rightarrow> None | b # _ \<Rightarrow> Some b)"
proof -
  obtain k c l r where T: "T = plug k (Nd c l a r)" using inord_split [of a T] assms(2) by auto
  have rep: "repr tree k (Nd c l a r)" using assms(1) T repr_root by blast
  have "distinct (inord T)" using assms(1) by (simp add: repr_def)
  then have "a \<notin> set xs" "a \<notin> set ys" by (simp_all add: assms(2))
  then have ys: "ys = inord r @ cpost k"
    using assms(2) append_Cons_eq_iff [of a xs ys "cpre k @ inord l" "inord r @ cpost k"] by (simp add: T inord_plug eq_commute)
  have self: "rb_parent (rb_mem tree a) \<noteq> Some a"
    using rep by (cases k rule: ctx_parent.cases) (auto simp: repr_def)
  show ?thesis
  proof (cases "ptr r")
    case None
    then show ?thesis using climb_ok [OF rep] repr_left_right [OF rep] self ys by (simp add: ogs_rbtree_next_def)
  next
    case (Some r0)
    then obtain kk c' b r' where 1: "r = plug kk (Nd c' Lf b r')" "list_all on_left kk" "ogs_rbtree_min tree r0 = Some b"
      using min_found [of tree "Some a" r r0] rep by (auto simp: repr_def)
    then have "inord r = b # inord r' @ inord (plug kk Lf)" using inord_plug_left [OF 1(2), of "Nd c' Lf b r'"] by simp
    then show ?thesis using repr_left_right [OF rep] self ys Some 1(3) by (simp add: ogs_rbtree_next_def)
  qed
qed

section \<open>Balance\<close>

fun ht :: "rbt \<Rightarrow> nat" where
  "ht Lf = 0"
| "ht (Nd c l a r) = Suc (max (ht l) (ht r))"

lemma ht_black: "invc t \<Longrightarrow> bhs t n \<Longrightarrow> ht t \<le> 2 * n + (if root_color t = RED then 1 else 0)"
proof (induction t arbitrary: n)
  case (Nd c l a r)
  then obtain m where m: "bhs l m" "bhs r m" "n = m + bl c" by auto
  have "ht l \<le> 2 * m + (if root_color l = RED then 1 else 0)" "ht r \<le> 2 * m + (if root_color r = RED then 1 else 0)"
    using Nd m by auto
  then show ?case using Nd.prems(1) m(3) by (cases c) (auto split: if_splits)
qed simp

lemma size_black: "bhs t n \<Longrightarrow> 2 ^ n \<le> length (inord t) + 1"
proof (induction t arbitrary: n)
  case (Nd c l a r)
  then obtain m where m: "bhs l m" "bhs r m" "n = m + bl c" by auto
  have "2 ^ m \<le> length (inord l) + 1" "2 ^ m \<le> length (inord r) + 1" using Nd.IH m by simp_all
  then show ?case using m(3) by (cases c) auto
qed simp

lemma ht_bound:
  assumes "rb_ok t"
  shows "2 ^ ht t \<le> (length (inord t) + 1)\<^sup>2"
proof -
  obtain n where n: "invc t" "bhs t n" "root_color t = BLACK" using assms by (auto simp: rb_ok_def)
  then have "(2::nat) ^ ht t \<le> 2 ^ (2 * n)" using ht_black [of t n] by (intro power_increasing) simp_all
  also have "\<dots> = (2 ^ n)\<^sup>2" by (metis mult.commute power_mult)
  also have "\<dots> \<le> (length (inord t) + 1)\<^sup>2" using size_black [OF n(2)] by (intro power_mono) simp_all
  finally show ?thesis .
qed

section \<open>The tree as a sequence of nodes\<close>

text \<open>The interface the clients of the tree use: the nodes in order, with removal and iteration.
  A client that takes nodes off the front, or walks from the first node, reasons in this locale.\<close>

locale node_seq =
  fixes seq :: "'t \<Rightarrow> nat list \<Rightarrow> bool" and remove :: "'t \<Rightarrow> nat \<Rightarrow> 't option"
    and first :: "'t \<Rightarrow> nat option option" and succ :: "'t \<Rightarrow> nat \<Rightarrow> nat option option"
  assumes seq_distinct: "seq t xs \<Longrightarrow> distinct xs"
    and remove_law: "seq t xs \<Longrightarrow> a \<in> set xs \<Longrightarrow> \<exists>t'. remove t a = Some t' \<and> seq t' (remove1 a xs)"
    and first_law: "seq t xs \<Longrightarrow> first t = Some (case xs of [] \<Rightarrow> None | a # _ \<Rightarrow> Some a)"
    and succ_law: "seq t (xs @ a # ys) \<Longrightarrow> succ t a = Some (case ys of [] \<Rightarrow> None | b # _ \<Rightarrow> Some b)"
begin

lemma remove_head:
  assumes "seq t (a # xs)"
  shows "\<exists>t'. remove t a = Some t' \<and> seq t' xs"
  using remove_law [OF assms, of a] by simp

lemma succ_cases:
  assumes "seq t (xs @ a # ys)"
  shows "ys = [] \<and> succ t a = Some None \<or> (\<exists>b zs. ys = b # zs \<and> succ t a = Some (Some b) \<and> seq t ((xs @ [a]) @ b # zs))"
  using succ_law [OF assms] assms by (cases ys) simp_all

end

definition rb_seq :: "rbtree \<Rightarrow> nat list \<Rightarrow> bool" where
  "rb_seq tree xs \<longleftrightarrow> (\<exists>T. repr tree [] T \<and> rb_ok T \<and> inord T = xs)"

interpretation rb: node_seq rb_seq ogs_rbtree_delete ogs_rbtree_first ogs_rbtree_next
proof
  show "rb_seq t xs \<Longrightarrow> distinct xs" for t xs by (auto simp: rb_seq_def repr_def)
  show "rb_seq t xs \<Longrightarrow> a \<in> set xs \<Longrightarrow> \<exists>t'. ogs_rbtree_delete t a = Some t' \<and> rb_seq t' (remove1 a xs)" for t xs a
    using rb_delete_ok unfolding rb_seq_def by fast
  show "rb_seq t xs \<Longrightarrow> ogs_rbtree_first t = Some (case xs of [] \<Rightarrow> None | a # _ \<Rightarrow> Some a)" for t xs
    using first_ok by (auto simp: rb_seq_def)
  show "rb_seq t (xs @ a # ys) \<Longrightarrow> ogs_rbtree_next t a = Some (case ys of [] \<Rightarrow> None | b # _ \<Rightarrow> Some b)" for t xs a ys
    using next_ok by (auto simp: rb_seq_def)
qed

lemma rb_seq_empty: "rb_root tree = None \<Longrightarrow> rb_seq tree []"
  unfolding rb_seq_def by (intro exI [of _ Lf]) (simp add: repr_def rb_ok_def)

end
