(* ===== verification/Ogs_Timer.thy ===== *)
theory Ogs_Timer
  imports Ogs_Rbtree_Props Ogs_Pool
begin

text \<open>
  The timer manager of \<open>src/lib/core/ogs-timer.c\<close> over the red-black tree: timers come from a pool,
  the running ones are in the tree in the order of their deadlines, and expiry detaches those that
  are due and then calls their callbacks.

  A timer is its index in the pool's array; its embedded tree node is the node at that address. A
  callback is a number, and what it does is the argument \<open>run\<close> of the expiry, a function on the
  manager and the rest of the program.
\<close>

record ogs_timer =
  tm_prev :: "nat option"
  tm_next :: "nat option"
  tm_cb :: "nat option"
  tm_data :: nat
  tm_running :: bool
  tm_timeout :: ogs_time

record ogs_timer_mgr =
  tmg_pool :: ogs_pool
  tmg_tree :: rbtree
  tmg_timer :: "nat \<Rightarrow> ogs_timer"

definition OGS_NO_WAIT_TIME :: ogs_time where
  "OGS_NO_WAIT_TIME = 0"

definition upd_timer :: "nat \<Rightarrow> (ogs_timer \<Rightarrow> ogs_timer) \<Rightarrow> ogs_timer_mgr \<Rightarrow> ogs_timer_mgr" where
  "upd_timer a f mgr = mgr\<lparr>tmg_timer := (tmg_timer mgr)(a := f (tmg_timer mgr a))\<rparr>"

section \<open>Operations\<close>

definition ogs_timer_mgr_create :: "nat \<Rightarrow> u32 \<Rightarrow> ogs_timer_mgr" where
  "ogs_timer_mgr_create capacity seed =
     \<lparr>tmg_pool = ogs_pool_init capacity seed 0,
      tmg_tree = \<lparr>rb_root = None, rb_mem = \<lambda>_. \<lparr>rb_parent = None, rb_left = None, rb_right = None, rb_color = OGS_RBTREE_BLACK\<rparr>\<rparr>,
      tmg_timer = \<lambda>_. \<lparr>tm_prev = None, tm_next = None, tm_cb = None, tm_data = 0, tm_running = False, tm_timeout = 0\<rparr>\<rparr>"

text \<open>The descent of \<open>add_timer_node\<close>: the pointer looked at, and the link it was read from.\<close>

partial_function (option) timer_search ::
  "ogs_timer_mgr \<Rightarrow> ogs_time \<Rightarrow> nat option \<Rightarrow> (nat \<times> side) option \<Rightarrow> (nat \<times> side) option option" where
  "timer_search mgr timeout new link =
     (case new of
        None \<Rightarrow> Some link
      | Some this \<Rightarrow>
          if timeout < tm_timeout (tmg_timer mgr this)
          then timer_search mgr timeout (rb_left (rb_mem (tmg_tree mgr) this)) (Some (this, Lft))
          else timer_search mgr timeout (rb_right (rb_mem (tmg_tree mgr) this)) (Some (this, Rgt)))"

declare timer_search.simps [code]

definition add_timer_node :: "ogs_time \<Rightarrow> ogs_timer_mgr \<Rightarrow> nat \<Rightarrow> ogs_time \<Rightarrow> ogs_timer_mgr option" where
  "add_timer_node now mgr timer duration =
     do { let mgr = upd_timer timer (\<lambda>t. t\<lparr>tm_timeout := now + duration\<rparr>) mgr;
          link \<leftarrow> timer_search mgr (now + duration) (rb_root (tmg_tree mgr)) None;
          tree \<leftarrow> ogs_rbtree_insert_color (ogs_rbtree_link_node timer link (tmg_tree mgr)) timer;
          Some (mgr\<lparr>tmg_tree := tree\<rparr>) }"

definition tree_delete :: "ogs_timer_mgr \<Rightarrow> nat \<Rightarrow> ogs_timer_mgr option" where
  "tree_delete mgr timer = map_option (\<lambda>tree. mgr\<lparr>tmg_tree := tree\<rparr>) (ogs_rbtree_delete (tmg_tree mgr) timer)"

definition ogs_timer_start :: "ogs_time \<Rightarrow> ogs_timer_mgr \<Rightarrow> nat \<Rightarrow> ogs_time \<Rightarrow> ogs_timer_mgr option" where
  "ogs_timer_start now mgr timer duration =
     do { ogs_assert (duration \<noteq> 0);
          mgr \<leftarrow> (if tm_running (tmg_timer mgr timer) then tree_delete mgr timer else Some mgr);
          let mgr = upd_timer timer (\<lambda>t. t\<lparr>tm_running := True\<rparr>) mgr;
          add_timer_node now mgr timer duration }"

definition ogs_timer_stop :: "ogs_timer_mgr \<Rightarrow> nat \<Rightarrow> ogs_timer_mgr option" where
  "ogs_timer_stop mgr timer =
     (if \<not> tm_running (tmg_timer mgr timer) then Some mgr
      else tree_delete (upd_timer timer (\<lambda>t. t\<lparr>tm_running := False\<rparr>) mgr) timer)"

text \<open>\<open>ogs_timer_add\<close>: the timer (\<open>None\<close> when the pool is empty), all of whose memory is cleared.\<close>

definition timer_add :: "nat option \<Rightarrow> nat \<Rightarrow> ogs_timer_mgr \<Rightarrow> (nat option \<times> ogs_timer_mgr) option" where
  "timer_add cb data mgr =
     do { (r, pool) \<leftarrow> ogs_pool_alloc (tmg_pool mgr);
          let mgr = mgr\<lparr>tmg_pool := pool\<rparr>;
          Some (case r of
             None \<Rightarrow> (None, mgr)
           | Some timer \<Rightarrow>
               (Some timer,
                mgr\<lparr>tmg_tree := upd_node timer (\<lambda>_. \<lparr>rb_parent = None, rb_left = None, rb_right = None,
                                                   rb_color = OGS_RBTREE_BLACK\<rparr>) (tmg_tree mgr),
                    tmg_timer := (tmg_timer mgr)(timer := \<lparr>tm_prev = None, tm_next = None, tm_cb = cb,
                      tm_data = data, tm_running = False, tm_timeout = 0\<rparr>)\<rparr>)) }"

definition timer_delete :: "ogs_timer_mgr \<Rightarrow> nat \<Rightarrow> ogs_timer_mgr option" where
  "timer_delete mgr timer =
     do { mgr \<leftarrow> ogs_timer_stop mgr timer;
          Some (mgr\<lparr>tmg_pool := ogs_pool_free (tmg_pool mgr) timer\<rparr>) }"

definition ogs_timer_mgr_next :: "ogs_time \<Rightarrow> ogs_timer_mgr \<Rightarrow> ogs_time option" where
  "ogs_timer_mgr_next current mgr =
     do { node \<leftarrow> ogs_rbtree_first (tmg_tree mgr);
          Some (case node of
             None \<Rightarrow> OGS_INFINITE_TIME
           | Some this \<Rightarrow>
               if tm_timeout (tmg_timer mgr this) > current
               then tm_timeout (tmg_timer mgr this) - current
               else OGS_NO_WAIT_TIME) }"

text \<open>The three loops of \<open>ogs_timer_mgr_expire\<close>. The list of due timers is its first and last node and
  the links in the timers.\<close>

definition due_add :: "ogs_timer_mgr \<Rightarrow> nat option \<times> nat option \<Rightarrow> nat \<Rightarrow> ogs_timer_mgr \<times> (nat option \<times> nat option)" where
  "due_add mgr lst timer =
     (let mgr = upd_timer timer (\<lambda>t. t\<lparr>tm_prev := snd lst, tm_next := None\<rparr>) mgr
      in case snd lst of
           Some prev \<Rightarrow> (upd_timer prev (\<lambda>t. t\<lparr>tm_next := Some timer\<rparr>) mgr, (fst lst, Some timer))
         | None \<Rightarrow> (mgr, (Some timer, Some timer)))"

partial_function (option) timer_collect ::
  "ogs_time \<Rightarrow> ogs_timer_mgr \<Rightarrow> nat option \<Rightarrow> nat option \<times> nat option \<Rightarrow> (ogs_timer_mgr \<times> nat option) option" where
  "timer_collect current mgr node lst =
     (case node of
        None \<Rightarrow> Some (mgr, fst lst)
      | Some this \<Rightarrow>
          if tm_timeout (tmg_timer mgr this) > current then Some (mgr, fst lst)
          else do {
            let (mgr, lst) = due_add mgr lst this;
            node \<leftarrow> ogs_rbtree_next (tmg_tree mgr) this;
            timer_collect current mgr node lst })"

declare timer_collect.simps [code]

partial_function (option) timer_detach :: "ogs_timer_mgr \<Rightarrow> nat option \<Rightarrow> ogs_timer_mgr option" where
  "timer_detach mgr node =
     (case node of
        None \<Rightarrow> Some mgr
      | Some this \<Rightarrow>
          do { mgr \<leftarrow> tree_delete (upd_timer this (\<lambda>t. t\<lparr>tm_running := False\<rparr>) mgr) this;
               timer_detach mgr (tm_next (tmg_timer mgr this)) })"

declare timer_detach.simps [code]

partial_function (option) timer_fire ::
  "(nat \<Rightarrow> nat \<Rightarrow> ogs_timer_mgr \<times> 'w \<Rightarrow> (ogs_timer_mgr \<times> 'w) option) \<Rightarrow> ogs_timer_mgr \<times> 'w \<Rightarrow> nat option
     \<Rightarrow> (ogs_timer_mgr \<times> 'w) option" where
  "timer_fire run st node =
     (case node of
        None \<Rightarrow> Some st
      | Some this \<Rightarrow>
          do { st \<leftarrow> (case tm_cb (tmg_timer (fst st) this) of
                        None \<Rightarrow> Some st
                      | Some cb \<Rightarrow> run cb (tm_data (tmg_timer (fst st) this)) st);
               timer_fire run st (tm_next (tmg_timer (fst st) this)) })"

declare timer_fire.simps [code]

definition ogs_timer_mgr_expire ::
  "(nat \<Rightarrow> nat \<Rightarrow> ogs_timer_mgr \<times> 'w \<Rightarrow> (ogs_timer_mgr \<times> 'w) option) \<Rightarrow> ogs_time \<Rightarrow> ogs_timer_mgr \<times> 'w
     \<Rightarrow> (ogs_timer_mgr \<times> 'w) option" where
  "ogs_timer_mgr_expire run current st =
     do { node \<leftarrow> ogs_rbtree_first (tmg_tree (fst st));
          (mgr, due) \<leftarrow> timer_collect current (fst st) node (None, None);
          mgr \<leftarrow> timer_detach mgr due;
          timer_fire run (mgr, snd st) due }"

section \<open>The agenda\<close>

text \<open>The abstract manager: the running timers, in the order of their deadlines.\<close>

abbreviation deadline :: "ogs_timer_mgr \<Rightarrow> nat \<Rightarrow> ogs_time" where
  "deadline mgr a \<equiv> tm_timeout (tmg_timer mgr a)"

definition agenda :: "ogs_timer_mgr \<Rightarrow> nat list \<Rightarrow> bool" where
  "agenda mgr xs \<longleftrightarrow> rb_seq (tmg_tree mgr) xs \<and> sorted (map (deadline mgr) xs)
     \<and> (\<forall>a. tm_running (tmg_timer mgr a) \<longleftrightarrow> a \<in> set xs)"

lemma upd_timer_simps [simp]:
  "tmg_timer (upd_timer a f mgr) = (tmg_timer mgr)(a := f (tmg_timer mgr a))"
  "tmg_tree (upd_timer a f mgr) = tmg_tree mgr" "tmg_pool (upd_timer a f mgr) = tmg_pool mgr"
  by (simp_all add: upd_timer_def)

lemma tree_delete_ok:
  assumes "rb_seq (tmg_tree mgr) xs" "a \<in> set xs"
  shows "\<exists>tree. tree_delete mgr a = Some (mgr\<lparr>tmg_tree := tree\<rparr>) \<and> rb_seq tree (remove1 a xs)"
  using rb.remove_law [OF assms] by (auto simp: tree_delete_def)

lemma agenda_create: "agenda (ogs_timer_mgr_create capacity seed) []"
  by (simp add: agenda_def ogs_timer_mgr_create_def rb_seq_empty)

text \<open>The descent ends where the new deadline belongs, behind the equal ones.\<close>

lemma sorted_filter_none:
  "\<forall>x\<in>set xs. (v::'b::linorder) < f x \<Longrightarrow> filter (\<lambda>x. f x \<le> v) xs = []"
  "\<forall>x\<in>set xs. v < f x \<Longrightarrow> filter (\<lambda>x. v < f x) xs = xs"
  "\<forall>x\<in>set xs. f x \<le> v \<Longrightarrow> filter (\<lambda>x. f x \<le> v) xs = xs"
  "\<forall>x\<in>set xs. f x \<le> v \<Longrightarrow> filter (\<lambda>x. v < f x) xs = []"
  by (auto simp: filter_empty_conv filter_id_conv)

lemma timer_search_ok:
  assumes "is_tree (rb_mem (tmg_tree mgr)) p t" "sorted (map (deadline mgr) (inord t))"
  shows "\<exists>k'. timer_search mgr v (ptr t) (link_of k) = Some (link_of k') \<and> plug k' Lf = plug k t
    \<and> cpre k' = cpre k @ filter (\<lambda>x. deadline mgr x \<le> v) (inord t)
    \<and> cpost k' = filter (\<lambda>x. v < deadline mgr x) (inord t) @ cpost k"
  using assms
proof (induction t arbitrary: k p)
  case Lf
  then show ?case by (intro exI [of _ k]) (simp add: timer_search.simps)
next
  case (Nd c l x r)
  have srt: "sorted (map (deadline mgr) (inord l))" "sorted (map (deadline mgr) (inord r))"
    "\<forall>y\<in>set (inord l). deadline mgr y \<le> deadline mgr x" "\<forall>y\<in>set (inord r). deadline mgr x \<le> deadline mgr y"
    using Nd.prems(2) by (auto simp: sorted_append)
  have m: "rb_left (rb_mem (tmg_tree mgr) x) = ptr l" "rb_right (rb_mem (tmg_tree mgr) x) = ptr r"
    and sub: "is_tree (rb_mem (tmg_tree mgr)) (Some x) l" "is_tree (rb_mem (tmg_tree mgr)) (Some x) r"
    using Nd.prems(1) by auto
  show ?case
  proof (cases "v < deadline mgr x")
    case True
    then have "\<forall>y\<in>set (inord r). v < deadline mgr y" using srt(4) by fastforce
    note keep = sorted_filter_none(1,2) [OF this]
    show ?thesis using Nd.IH(1) [OF sub(1) srt(1), of "Fr Lft c x r # k"] True m keep
      by (simp add: timer_search.simps [of mgr v "Some x"] link_of_def nd_def)
  next
    case False
    then have "\<forall>y\<in>set (inord l). deadline mgr y \<le> v" using srt(3) by fastforce
    note keep = sorted_filter_none(3,4) [OF this]
    show ?thesis using Nd.IH(2) [OF sub(2) srt(2), of "Fr Rgt c x l # k"] False m keep
      by (simp add: timer_search.simps [of mgr v "Some x"] link_of_def nd_def)
  qed
qed

lemma sorted_insert_behind:
  fixes f :: "'a \<Rightarrow> 'b::linorder"
  assumes "sorted (map f xs)" "a \<notin> set xs" "\<And>x. x \<noteq> a \<Longrightarrow> g x = f x"
  shows "sorted (map g (filter (\<lambda>x. f x \<le> g a) xs @ a # filter (\<lambda>x. g a < f x) xs))"
proof -
  have eq: "g x = f x" if "x \<in> set xs" for x using that assms(2,3) by metis
  then have "map g (filter P xs) = map f (filter P xs)" for P by simp
  moreover have "sorted (map f (filter P xs))" for P using assms(1) by (rule sorted_filter)
  ultimately have "sorted (map g (filter P xs))" for P by metis
  then show ?thesis using eq by (auto simp: sorted_append)
qed

lemma add_timer_node_ok:
  assumes "rb_seq (tmg_tree mgr) xs" "sorted (map (deadline mgr) xs)" "a \<notin> set xs"
  shows "\<exists>tree. add_timer_node now mgr a d
      = Some (upd_timer a (\<lambda>t. t\<lparr>tm_timeout := now + d\<rparr>) mgr\<lparr>tmg_tree := tree\<rparr>)
    \<and> rb_seq tree (filter (\<lambda>x. deadline mgr x \<le> now + d) xs @ a # filter (\<lambda>x. now + d < deadline mgr x) xs)"
proof -
  let ?m = "upd_timer a (\<lambda>t. t\<lparr>tm_timeout := now + d\<rparr>) mgr" and ?v = "now + d"
  obtain T where T: "repr (tmg_tree mgr) [] T" "rb_ok T" "inord T = xs" using assms(1) by (auto simp: rb_seq_def)
  have same: "deadline ?m x = deadline mgr x" if "x \<in> set xs" for x using that assms(3) by auto
  then have "sorted (map (deadline ?m) xs)" using assms(2) by (metis (no_types, lifting) map_eq_conv)
  then obtain k where k: "timer_search ?m ?v (ptr T) None = Some (link_of k)" "plug k Lf = T"
    "cpre k = filter (\<lambda>x. deadline ?m x \<le> ?v) xs" "cpost k = filter (\<lambda>x. ?v < deadline ?m x) xs"
    using timer_search_ok [of ?m None T ?v "[]"] T by (auto simp: repr_def link_of_def)
  have f: "filter (\<lambda>x. deadline ?m x \<le> ?v) xs = filter (\<lambda>x. deadline mgr x \<le> ?v) xs"
    "filter (\<lambda>x. ?v < deadline ?m x) xs = filter (\<lambda>x. ?v < deadline mgr x) xs"
    using same assms(3) by (auto intro!: filter_cong)
  have "repr (tmg_tree mgr) k Lf" using T(1) k(2) repr_root by metis
  moreover have "a \<notin> set (ctx_addrs k)" using assms(3) k(3,4) by (simp add: ctx_addrs_set)
  ultimately obtain tree T' where 1: "ogs_rbtree_insert_color (ogs_rbtree_link_node a (link_of k) (tmg_tree mgr)) a = Some tree"
    "repr tree [] T'" "inord T' = cpre k @ a # cpost k" "rb_ok T'"
    using insert_ok T(2) k(2) by metis
  then have "rb_seq tree (filter (\<lambda>x. deadline mgr x \<le> ?v) xs @ a # filter (\<lambda>x. ?v < deadline mgr x) xs)"
    unfolding rb_seq_def using k(3,4) f by metis
  moreover have "rb_root (tmg_tree mgr) = ptr T" using T(1) repr_root_ptr by blast
  ultimately show ?thesis using k(1) 1(1) by (intro exI [of _ tree]) (simp add: add_timer_node_def Let_def)
qed

text \<open>What the operations change of the timers.\<close>

definition started :: "ogs_time \<Rightarrow> ogs_timer \<Rightarrow> ogs_timer" where
  "started v t = t\<lparr>tm_running := True, tm_timeout := v\<rparr>"

definition scheduled :: "(nat \<Rightarrow> ogs_time) \<Rightarrow> ogs_time \<Rightarrow> nat \<Rightarrow> nat list \<Rightarrow> nat list" where
  "scheduled dl v a xs = filter (\<lambda>x. dl x \<le> v) xs @ a # filter (\<lambda>x. v < dl x) xs"

lemma timer_start_ok:
  assumes "agenda mgr xs" "d \<noteq> 0"
  shows "\<exists>mgr'. ogs_timer_start now mgr a d = Some mgr' \<and> agenda mgr' (scheduled (deadline mgr) (now + d) a (remove1 a xs))
    \<and> tmg_timer mgr' = (tmg_timer mgr)(a := started (now + d) (tmg_timer mgr a)) \<and> tmg_pool mgr' = tmg_pool mgr"
proof -
  let ?ys = "remove1 a xs" and ?tm = "(tmg_timer mgr)(a := (tmg_timer mgr a)\<lparr>tm_running := True\<rparr>)"
  have ag: "rb_seq (tmg_tree mgr) xs" "sorted (map (deadline mgr) xs)" "\<And>x. tm_running (tmg_timer mgr x) \<longleftrightarrow> x \<in> set xs" "distinct xs"
    using assms(1) rb.seq_distinct by (auto simp: agenda_def)
  have "\<exists>tree1. (if tm_running (tmg_timer mgr a) then tree_delete mgr a else Some mgr) = Some (mgr\<lparr>tmg_tree := tree1\<rparr>) \<and> rb_seq tree1 ?ys"
  proof (cases "a \<in> set xs")
    case False
    then show ?thesis using ag by (intro exI [of _ "tmg_tree mgr"]) (simp add: remove1_idem)
  qed (use tree_delete_ok [OF ag(1)] ag(3) in simp)
  then obtain tree1 where 1: "(if tm_running (tmg_timer mgr a) then tree_delete mgr a else Some mgr) = Some (mgr\<lparr>tmg_tree := tree1\<rparr>)"
    "rb_seq tree1 ?ys" by blast
  define m1 where "m1 = upd_timer a (\<lambda>t. t\<lparr>tm_running := True\<rparr>) (mgr\<lparr>tmg_tree := tree1\<rparr>)"
  have m1: "tmg_tree m1 = tree1" "tmg_pool m1 = tmg_pool mgr" "tmg_timer m1 = ?tm" by (simp_all add: m1_def)
  have ys: "a \<notin> set ?ys" "sorted (map (deadline mgr) ?ys)" using ag(2,4) by (simp_all add: sorted_map_remove1)
  have dl: "deadline m1 x = deadline mgr x" for x by (simp add: m1)
  have "sorted (map (deadline m1) ?ys)" using ys(2) by (simp add: dl)
  then obtain tree where 2: "add_timer_node now m1 a d = Some (upd_timer a (\<lambda>t. t\<lparr>tm_timeout := now + d\<rparr>) m1\<lparr>tmg_tree := tree\<rparr>)"
    "rb_seq tree (scheduled (deadline mgr) (now + d) a ?ys)"
    using add_timer_node_ok [of m1 ?ys a now d] 1(2) ys(1) unfolding m1(1) scheduled_def dl by blast
  let ?m2 = "upd_timer a (\<lambda>t. t\<lparr>tm_timeout := now + d\<rparr>) m1\<lparr>tmg_tree := tree\<rparr>"
  have tm2: "tmg_timer ?m2 = (tmg_timer mgr)(a := started (now + d) (tmg_timer mgr a))" by (simp add: m1 started_def)
  have "sorted (map (deadline ?m2) (scheduled (deadline mgr) (deadline ?m2 a) a ?ys))"
    unfolding scheduled_def using ys(2,1) by (rule sorted_insert_behind) (simp add: tm2)
  moreover have "deadline ?m2 a = now + d" by (simp add: tm2 started_def)
  moreover have "tm_running (tmg_timer ?m2 x) \<longleftrightarrow> x \<in> set (scheduled (deadline mgr) (now + d) a ?ys)" for x
    using ag(3,4) by (auto simp: tm2 started_def scheduled_def not_le)
  ultimately have "agenda ?m2 (scheduled (deadline mgr) (now + d) a ?ys)" using 2(2) by (simp add: agenda_def)
  moreover have "ogs_timer_start now mgr a d = Some ?m2" using 1(1) 2(1) assms(2) by (simp add: ogs_timer_start_def m1_def)
  ultimately show ?thesis using tm2 m1(2) by (intro exI [of _ ?m2]) simp
qed

lemma timer_stop_ok:
  assumes "agenda mgr xs"
  shows "\<exists>mgr'. ogs_timer_stop mgr a = Some mgr' \<and> agenda mgr' (remove1 a xs)
    \<and> tmg_timer mgr' = (tmg_timer mgr)(a := (tmg_timer mgr a)\<lparr>tm_running := False\<rparr>) \<and> tmg_pool mgr' = tmg_pool mgr"
proof (cases "a \<in> set xs")
  case True
  let ?m = "upd_timer a (\<lambda>t. t\<lparr>tm_running := False\<rparr>) mgr"
  obtain tree where 1: "tree_delete ?m a = Some (?m\<lparr>tmg_tree := tree\<rparr>)" "rb_seq tree (remove1 a xs)"
    using tree_delete_ok [of ?m xs a] assms True by (auto simp: agenda_def)
  have dl: "deadline (?m\<lparr>tmg_tree := tree\<rparr>) x = deadline mgr x" for x by simp
  have "distinct xs" using assms rb.seq_distinct by (auto simp: agenda_def)
  then have "agenda (?m\<lparr>tmg_tree := tree\<rparr>) (remove1 a xs)"
    using assms 1(2) unfolding agenda_def dl by (simp add: sorted_map_remove1)
  then show ?thesis using assms True 1(1) by (simp add: ogs_timer_stop_def agenda_def)
next
  case False
  then have "\<not> tm_running (tmg_timer mgr a)" using assms by (simp add: agenda_def)
  moreover from this have "tmg_timer mgr = (tmg_timer mgr)(a := (tmg_timer mgr a)\<lparr>tm_running := False\<rparr>)" by (simp add: fun_eq_iff)
  ultimately show ?thesis using assms False by (intro exI [of _ mgr]) (simp add: ogs_timer_stop_def remove1_idem)
qed

lemma timer_next_ok:
  assumes "agenda mgr xs"
  shows "ogs_timer_mgr_next now mgr = Some (case xs of [] \<Rightarrow> OGS_INFINITE_TIME | a # _ \<Rightarrow> max (deadline mgr a - now) 0)"
  using rb.first_law [of "tmg_tree mgr" xs] assms
  by (auto simp: ogs_timer_mgr_next_def agenda_def OGS_NO_WAIT_TIME_def split: list.splits)

section \<open>Expiry\<close>

text \<open>A chain of links through the timers, and what of a timer the links do not touch.\<close>

fun chain :: "(nat \<Rightarrow> ogs_timer) \<Rightarrow> nat option \<Rightarrow> nat list \<Rightarrow> bool" where
  "chain tm p [] \<longleftrightarrow> p = None"
| "chain tm p (a # as) \<longleftrightarrow> p = Some a \<and> chain tm (tm_next (tm a)) as"

definition core :: "ogs_timer \<Rightarrow> nat option \<times> nat \<times> bool \<times> ogs_time" where
  "core t = (tm_cb t, tm_data t, tm_running t, tm_timeout t)"

lemma chain_cong: "(\<And>a. a \<in> set as \<Longrightarrow> tm_next (tm' a) = tm_next (tm a)) \<Longrightarrow> chain tm' p as = chain tm p as"
  by (induction as arbitrary: p) simp_all

lemma chain_snoc:
  assumes "chain tm p (bs @ [z])" "\<And>b. b \<in> set bs \<Longrightarrow> tm_next (tm' b) = tm_next (tm b)"
    and "tm_next (tm' z) = Some a" "tm_next (tm' a) = None"
  shows "chain tm' p (bs @ [z, a])"
  using assms(1,2) by (induction bs arbitrary: p) (simp_all add: assms(3,4))

lemma due_add_ok:
  assumes "chain (tmg_timer mgr) (fst lst) ds" "snd lst = (if ds = [] then None else Some (last ds))" "distinct (ds @ [a])"
    and "due_add mgr lst a = (mgr', lst')"
  shows "chain (tmg_timer mgr') (fst lst') (ds @ [a])" "snd lst' = Some a" "tmg_tree mgr' = tmg_tree mgr"
    "tmg_pool mgr' = tmg_pool mgr" "\<And>x. core (tmg_timer mgr' x) = core (tmg_timer mgr x)"
proof -
  have e: "snd lst' = Some a" "tmg_tree mgr' = tmg_tree mgr" "tmg_pool mgr' = tmg_pool mgr"
    "\<And>x. core (tmg_timer mgr' x) = core (tmg_timer mgr x)"
    using assms(4) by (auto simp: due_add_def core_def Let_def split: option.splits if_splits)
  then show "snd lst' = Some a" "tmg_tree mgr' = tmg_tree mgr" "tmg_pool mgr' = tmg_pool mgr"
    "\<And>x. core (tmg_timer mgr' x) = core (tmg_timer mgr x)" by simp_all
  show "chain (tmg_timer mgr') (fst lst') (ds @ [a])"
  proof (cases ds rule: rev_cases)
    case Nil
    then show ?thesis using assms by (auto simp: due_add_def Let_def)
  next
    case (snoc bs z)
    then have m: "tmg_timer mgr' = (tmg_timer mgr)(a := (tmg_timer mgr a)\<lparr>tm_prev := Some z, tm_next := None\<rparr>,
        z := (tmg_timer mgr z)\<lparr>tm_next := Some a\<rparr>)" "fst lst' = fst lst"
      using assms(2-4) by (auto simp: due_add_def Let_def)
    have "a \<noteq> z" "a \<notin> set bs" "z \<notin> set bs" using assms(3) snoc by auto
    then have "chain (tmg_timer mgr') (fst lst) (bs @ [z, a])"
      using assms(1) snoc by (intro chain_snoc [of "tmg_timer mgr"]) (auto simp: m)
    then show ?thesis using snoc m(2) by simp
  qed
qed

lemma timer_collect_ok:
  assumes "rb_seq (tmg_tree mgr) (ds @ rest)" "chain (tmg_timer mgr) (fst lst) ds"
    and "snd lst = (if ds = [] then None else Some (last ds))" "node = (case rest of [] \<Rightarrow> None | a # _ \<Rightarrow> Some a)"
  shows "\<exists>mgr' due. timer_collect now mgr node lst = Some (mgr', due)
    \<and> chain (tmg_timer mgr') due (ds @ takeWhile (\<lambda>x. deadline mgr x \<le> now) rest)
    \<and> tmg_tree mgr' = tmg_tree mgr \<and> tmg_pool mgr' = tmg_pool mgr \<and> (\<forall>x. core (tmg_timer mgr' x) = core (tmg_timer mgr x))"
  using assms
proof (induction rest arbitrary: mgr ds lst node)
  case Nil
  then show ?case by (simp add: timer_collect.simps)
next
  case (Cons a rest)
  show ?case
  proof (cases "deadline mgr a \<le> now")
    case False
    then show ?thesis using Cons.prems by (simp add: timer_collect.simps)
  next
    case True
    obtain m1 l1 where d: "due_add mgr lst a = (m1, l1)" by (cases "due_add mgr lst a")
    have "distinct (ds @ [a])" using rb.seq_distinct [OF Cons.prems(1)] by simp
    note o = due_add_ok [OF Cons.prems(2,3) this d]
    have dl: "deadline m1 x = deadline mgr x" for x using o(5) [of x] by (simp add: core_def)
    have seq1: "rb_seq (tmg_tree m1) ((ds @ [a]) @ rest)" using Cons.prems(1) o(3) by simp
    have nx: "ogs_rbtree_next (tmg_tree m1) a = Some (case rest of [] \<Rightarrow> None | b # _ \<Rightarrow> Some b)"
      using rb.succ_law Cons.prems(1) o(3) by simp
    obtain mgr' due where 1: "timer_collect now m1 (case rest of [] \<Rightarrow> None | b # _ \<Rightarrow> Some b) l1 = Some (mgr', due)"
      "chain (tmg_timer mgr') due ((ds @ [a]) @ takeWhile (\<lambda>x. deadline m1 x \<le> now) rest)"
      "tmg_tree mgr' = tmg_tree m1" "tmg_pool mgr' = tmg_pool m1" "\<forall>x. core (tmg_timer mgr' x) = core (tmg_timer m1 x)"
      using Cons.IH [OF seq1 o(1)] o(2) by auto
    then show ?thesis using Cons.prems(4) True d nx o by (simp add: timer_collect.simps [of now mgr "Some a"] dl)
  qed
qed

definition detached :: "nat list \<Rightarrow> (nat \<Rightarrow> ogs_timer) \<Rightarrow> nat \<Rightarrow> ogs_timer" where
  "detached ds tm x = (if x \<in> set ds then (tm x)\<lparr>tm_running := False\<rparr> else tm x)"

lemma detached_Cons: "detached ds (tm(a := (tm a)\<lparr>tm_running := False\<rparr>)) = detached (a # ds) tm"
  by (auto simp: detached_def fun_eq_iff)

lemma timer_detach_ok:
  assumes "rb_seq (tmg_tree mgr) (ds @ rest)" "chain (tmg_timer mgr) p ds"
  shows "\<exists>tree. timer_detach mgr p = Some (mgr\<lparr>tmg_tree := tree, tmg_timer := detached ds (tmg_timer mgr)\<rparr>) \<and> rb_seq tree rest"
  using assms
proof (induction ds arbitrary: mgr p)
  case Nil
  moreover have "detached [] (tmg_timer mgr) = tmg_timer mgr" by (simp add: detached_def fun_eq_iff)
  ultimately show ?case by (intro exI [of _ "tmg_tree mgr"]) (simp add: timer_detach.simps)
next
  case (Cons a ds)
  define m where "m = upd_timer a (\<lambda>t. t\<lparr>tm_running := False\<rparr>) mgr"
  obtain tree1 where 1: "tree_delete m a = Some (m\<lparr>tmg_tree := tree1\<rparr>)" "rb_seq tree1 (ds @ rest)"
    using tree_delete_ok [of m "a # ds @ rest" a] Cons.prems(1) by (auto simp: m_def)
  have p: "p = Some a" "tm_next (tmg_timer m a) = tm_next (tmg_timer mgr a)" using Cons.prems(2) by (simp_all add: m_def)
  have "chain (tmg_timer m) (tm_next (tmg_timer m a)) ds"
    using Cons.prems(2) by (subst chain_cong [of ds _ "tmg_timer mgr"]) (simp_all add: m_def)
  then obtain tree where 2: "timer_detach (m\<lparr>tmg_tree := tree1\<rparr>) (tm_next (tmg_timer m a))
      = Some (m\<lparr>tmg_tree := tree, tmg_timer := detached ds (tmg_timer m)\<rparr>)" "rb_seq tree rest"
    using Cons.IH [of "m\<lparr>tmg_tree := tree1\<rparr>" "tm_next (tmg_timer m a)"] 1(2) by auto
  have "m\<lparr>tmg_tree := tree, tmg_timer := detached ds (tmg_timer m)\<rparr>
      = mgr\<lparr>tmg_tree := tree, tmg_timer := detached (a # ds) (tmg_timer mgr)\<rparr>"
    using detached_Cons [of ds "tmg_timer mgr" a] by (simp add: m_def upd_timer_def)
  then show ?case using 1(1) 2 p by (intro exI [of _ tree]) (simp add: timer_detach.simps [of mgr "Some a"] m_def [symmetric])
qed

text \<open>The callbacks of a list of timers, in order.\<close>

fun fire_all :: "(nat \<Rightarrow> nat \<Rightarrow> 's \<Rightarrow> 's option) \<Rightarrow> (nat option \<times> nat) list \<Rightarrow> 's \<Rightarrow> 's option" where
  "fire_all run [] st = Some st"
| "fire_all run ((cb, data) # cs) st =
     Option.bind (case cb of None \<Rightarrow> Some st | Some cb \<Rightarrow> run cb data st) (fire_all run cs)"

definition action :: "ogs_timer \<Rightarrow> nat option \<times> nat" where
  "action t = (tm_cb t, tm_data t)"

text \<open>A callback that leaves links and callbacks of the given timers as they are; it may start and stop any
  timer.\<close>

definition links_kept :: "nat set \<Rightarrow> (nat \<Rightarrow> nat \<Rightarrow> ogs_timer_mgr \<times> 'w \<Rightarrow> (ogs_timer_mgr \<times> 'w) option) \<Rightarrow> bool" where
  "links_kept S run \<longleftrightarrow> (\<forall>cb data st st'. run cb data st = Some st' \<longrightarrow>
     (\<forall>a\<in>S. tm_next (tmg_timer (fst st') a) = tm_next (tmg_timer (fst st) a) \<and> action (tmg_timer (fst st') a) = action (tmg_timer (fst st) a)))"

lemma timer_fire_ok:
  assumes "links_kept S run" "set ds \<subseteq> S" "chain (tmg_timer (fst st)) p ds"
  shows "timer_fire run st p = fire_all run (map (\<lambda>a. action (tmg_timer (fst st) a)) ds) st"
  using assms(2,3)
proof (induction ds arbitrary: st p)
  case Nil
  then show ?case by (simp add: timer_fire.simps)
next
  case (Cons a ds)
  have step: "timer_fire run st' (tm_next (tmg_timer (fst st') a)) = fire_all run (map (\<lambda>a. action (tmg_timer (fst st) a)) ds) st'"
    if "\<And>b. b \<in> S \<Longrightarrow> tm_next (tmg_timer (fst st') b) = tm_next (tmg_timer (fst st) b) \<and> action (tmg_timer (fst st') b) = action (tmg_timer (fst st) b)" for st'
  proof -
    have "chain (tmg_timer (fst st')) (tm_next (tmg_timer (fst st') a)) ds"
      using Cons.prems that by (subst chain_cong [of ds _ "tmg_timer (fst st)"]) auto
    moreover have "map (\<lambda>a. action (tmg_timer (fst st') a)) ds = map (\<lambda>a. action (tmg_timer (fst st) a)) ds"
      using Cons.prems(1) that by auto
    ultimately show ?thesis using Cons.IH [of st'] Cons.prems(1) by (metis set_subset_Cons subset_trans)
  qed
  let ?t = "tmg_timer (fst st) a" and ?rest = "fire_all run (map (\<lambda>a. action (tmg_timer (fst st) a)) ds)"
  have p: "p = Some a" using Cons.prems(2) by simp
  show ?case
  proof (cases "tm_cb ?t")
    case None
    then show ?thesis using step [of st] p by (simp add: timer_fire.simps [of run st "Some a"] action_def)
  next
    case (Some cb)
    have "timer_fire run st' (tm_next (tmg_timer (fst st') a)) = ?rest st'" if "run cb (tm_data ?t) st = Some st'" for st'
      using assms(1) that unfolding links_kept_def by (intro step) blast
    then show ?thesis using Some p
      by (cases "run cb (tm_data ?t) st") (simp_all add: timer_fire.simps [of run st "Some a"] action_def)
  qed
qed

section \<open>Expiry as a whole\<close>

lemma sorted_take_filter:
  fixes f :: "'a \<Rightarrow> 'b::linorder"
  assumes "sorted (map f xs)"
  shows "takeWhile (\<lambda>x. f x \<le> v) xs = filter (\<lambda>x. f x \<le> v) xs \<and> dropWhile (\<lambda>x. f x \<le> v) xs = filter (\<lambda>x. v < f x) xs"
  using assms
proof (induction xs)
  case (Cons x xs)
  show ?case
  proof (cases "f x \<le> v")
    case False
    then have "\<forall>y\<in>set xs. v < f y" using Cons.prems by fastforce
    then show ?thesis using False by (simp add: sorted_filter_none)
  qed (use Cons in simp)
qed simp

text \<open>The first two loops: the due timers are chained and out of the tree when the callbacks start.\<close>

lemma timer_expire_detach:
  fixes now :: ogs_time
  assumes "agenda mgr xs"
  defines "due \<equiv> filter (\<lambda>x. deadline mgr x \<le> now) xs"
  shows "\<exists>m2 p. ogs_timer_mgr_expire run now (mgr, w) = timer_fire run (m2, w) p \<and> chain (tmg_timer m2) p due
    \<and> agenda m2 (filter (\<lambda>x. now < deadline mgr x) xs)
    \<and> (\<forall>x. core (tmg_timer m2 x) = core (detached due (tmg_timer mgr) x)) \<and> tmg_pool m2 = tmg_pool mgr"
proof -
  let ?rest = "filter (\<lambda>x. now < deadline mgr x) xs"
  have ag: "rb_seq (tmg_tree mgr) xs" "sorted (map (deadline mgr) xs)" "\<And>x. tm_running (tmg_timer mgr x) \<longleftrightarrow> x \<in> set xs"
    using assms(1) by (auto simp: agenda_def)
  have split: "takeWhile (\<lambda>x. deadline mgr x \<le> now) xs = due" "due @ ?rest = xs"
    using sorted_take_filter [OF ag(2), of now] takeWhile_dropWhile_id [of "\<lambda>x. deadline mgr x \<le> now" xs] by (simp_all add: due_def)
  obtain m1 p where 1: "timer_collect now mgr (case xs of [] \<Rightarrow> None | a # _ \<Rightarrow> Some a) (None, None) = Some (m1, p)"
    "chain (tmg_timer m1) p due" "tmg_tree m1 = tmg_tree mgr" "tmg_pool m1 = tmg_pool mgr" "\<And>x. core (tmg_timer m1 x) = core (tmg_timer mgr x)"
    using timer_collect_ok [of mgr "[]" xs "(None, None)" _ now] ag(1) split(1) by auto
  obtain tree where 2: "timer_detach m1 p = Some (m1\<lparr>tmg_tree := tree, tmg_timer := detached due (tmg_timer m1)\<rparr>)" "rb_seq tree ?rest"
    using timer_detach_ok [of m1 due ?rest p] 1(2,3) ag(1) split(2) by auto
  define m2 where "m2 = m1\<lparr>tmg_tree := tree, tmg_timer := detached due (tmg_timer m1)\<rparr>"
  have core2: "core (tmg_timer m2 x) = core (detached due (tmg_timer mgr) x)" for x
    using 1(5) [of x] by (simp add: m2_def detached_def core_def)
  have ch: "chain (tmg_timer m2) p due" using 1(2) chain_cong [of due "tmg_timer m2" "tmg_timer m1" p] by (simp add: m2_def detached_def)
  have fire: "ogs_timer_mgr_expire run now (mgr, w) = timer_fire run (m2, w) p"
    using rb.first_law [OF ag(1)] 1(1) 2(1) by (simp add: ogs_timer_mgr_expire_def m2_def)
  have dl: "deadline m2 x = deadline mgr x" "tm_running (tmg_timer m2 x) \<longleftrightarrow> x \<in> set xs \<and> x \<notin> set due" for x
    using core2 [of x] ag(3) by (auto simp: core_def detached_def split: if_splits)
  have "agenda m2 ?rest" unfolding agenda_def dl using 2(2) sorted_filter [OF ag(2)] by (auto simp: m2_def due_def)
  then show ?thesis using fire ch core2 1(4) by (intro exI [of _ m2] exI [of _ p]) (simp add: m2_def)
qed

lemma timer_expire_ok:
  fixes now :: ogs_time
  assumes "agenda mgr xs"
  defines "due \<equiv> filter (\<lambda>x. deadline mgr x \<le> now) xs"
  assumes "links_kept (set due) run"
  shows "\<exists>mgr1. ogs_timer_mgr_expire run now (mgr, w) = fire_all run (map (\<lambda>a. action (tmg_timer mgr a)) due) (mgr1, w)
    \<and> agenda mgr1 (filter (\<lambda>x. now < deadline mgr x) xs)
    \<and> (\<forall>x. core (tmg_timer mgr1 x) = core (detached due (tmg_timer mgr) x)) \<and> tmg_pool mgr1 = tmg_pool mgr"
proof -
  obtain m2 p where 1: "ogs_timer_mgr_expire run now (mgr, w) = timer_fire run (m2, w) p" "chain (tmg_timer m2) p due"
    "agenda m2 (filter (\<lambda>x. now < deadline mgr x) xs)" "\<forall>x. core (tmg_timer m2 x) = core (detached due (tmg_timer mgr) x)"
    "tmg_pool m2 = tmg_pool mgr"
    using timer_expire_detach [OF assms(1), where now = now and run = run and w = w, folded due_def] by blast
  have "action (tmg_timer m2 x) = action (tmg_timer mgr x)" for x
    using 1(4) by (simp add: core_def action_def detached_def split: if_splits)
  then have "timer_fire run (m2, w) p = fire_all run (map (\<lambda>a. action (tmg_timer mgr a)) due) (m2, w)"
    using timer_fire_ok [OF assms(3) order_refl, of "(m2, w)" p] 1(2) by simp
  then show ?thesis using 1 by metis
qed

text \<open>Starting and stopping timers keeps links and callbacks.\<close>

lemma tree_delete_timers: "tree_delete mgr a = Some mgr' \<Longrightarrow> tmg_timer mgr' = tmg_timer mgr"
  by (auto simp: tree_delete_def)

lemma timer_stop_action:
  "ogs_timer_stop mgr a = Some mgr' \<Longrightarrow> action (tmg_timer mgr' x) = action (tmg_timer mgr x) \<and> tm_next (tmg_timer mgr' x) = tm_next (tmg_timer mgr x)"
  using tree_delete_timers [of "upd_timer a (\<lambda>t. t\<lparr>tm_running := False\<rparr>) mgr" a mgr']
  by (auto simp: ogs_timer_stop_def action_def split: if_splits)

lemma timer_start_action:
  "ogs_timer_start now mgr a d = Some mgr' \<Longrightarrow> action (tmg_timer mgr' x) = action (tmg_timer mgr x) \<and> tm_next (tmg_timer mgr' x) = tm_next (tmg_timer mgr x)"
  by (auto simp: ogs_timer_start_def add_timer_node_def action_def bind_eq_Some_conv Let_def dest!: tree_delete_timers split: if_splits)

section \<open>The pool of timers\<close>

definition free_timers :: "ogs_timer_mgr \<Rightarrow> nat list" where
  "free_timers mgr = ip_free (pool_abs (tmg_pool mgr))"

definition allocated :: "ogs_timer_mgr \<Rightarrow> nat \<Rightarrow> bool" where
  "allocated mgr a \<longleftrightarrow> a < p_size (tmg_pool mgr) \<and> a \<notin> set (free_timers mgr)"

definition mgr_ok :: "ogs_timer_mgr \<Rightarrow> nat list \<Rightarrow> bool" where
  "mgr_ok mgr xs \<longleftrightarrow> agenda mgr xs \<and> pool_inv (tmg_pool mgr) \<and> distinct (free_timers mgr)
     \<and> set (free_timers mgr) \<subseteq> {..<p_size (tmg_pool mgr)} \<and> (\<forall>x\<in>set xs. allocated mgr x)"

lemma mgr_ok_pool:
  assumes "mgr_ok mgr xs" "tmg_pool mgr' = tmg_pool mgr" "agenda mgr' ys" "\<And>x. x \<in> set ys \<Longrightarrow> allocated mgr x"
  shows "mgr_ok mgr' ys"
  using assms by (auto simp: mgr_ok_def free_timers_def allocated_def)

lemma mgr_ok_start:
  assumes "mgr_ok mgr xs" "allocated mgr a" "d \<noteq> 0"
  shows "\<exists>mgr'. ogs_timer_start now mgr a d = Some mgr' \<and> mgr_ok mgr' (scheduled (deadline mgr) (now + d) a (remove1 a xs))
    \<and> deadline mgr' a = now + d"
proof -
  obtain mgr' where 1: "ogs_timer_start now mgr a d = Some mgr'" "agenda mgr' (scheduled (deadline mgr) (now + d) a (remove1 a xs))"
    "tmg_timer mgr' = (tmg_timer mgr)(a := started (now + d) (tmg_timer mgr a))" "tmg_pool mgr' = tmg_pool mgr"
    using timer_start_ok assms by (metis mgr_ok_def)
  have "allocated mgr x" if "x \<in> set (scheduled (deadline mgr) (now + d) a (remove1 a xs))" for x
    using that assms(1,2) set_remove1_subset [of a xs] by (auto simp: scheduled_def mgr_ok_def)
  then show ?thesis using 1 mgr_ok_pool [OF assms(1)] by (simp add: started_def)
qed

lemma mgr_ok_stop:
  assumes "mgr_ok mgr xs"
  shows "\<exists>mgr'. ogs_timer_stop mgr a = Some mgr' \<and> mgr_ok mgr' (remove1 a xs) \<and> tmg_pool mgr' = tmg_pool mgr"
proof -
  obtain mgr' where 1: "ogs_timer_stop mgr a = Some mgr'" "agenda mgr' (remove1 a xs)" "tmg_pool mgr' = tmg_pool mgr"
    using timer_stop_ok assms by (metis mgr_ok_def)
  have "allocated mgr x" if "x \<in> set (remove1 a xs)" for x
    using that assms set_remove1_subset [of a xs] by (auto simp: mgr_ok_def)
  then show ?thesis using 1 mgr_ok_pool [OF assms 1(3,2)] by blast
qed

lemma free_timers_length: "length (free_timers mgr) = p_avail (tmg_pool mgr)"
  by (simp add: free_timers_def pool_abs_def ring_slots_def)

lemma mgr_ok_delete:
  assumes "mgr_ok mgr xs" "allocated mgr a"
  shows "\<exists>mgr'. timer_delete mgr a = Some mgr' \<and> mgr_ok mgr' (remove1 a xs) \<and> free_timers mgr' = free_timers mgr @ [a]"
proof -
  obtain m1 where 1: "ogs_timer_stop mgr a = Some m1" "mgr_ok m1 (remove1 a xs)" "tmg_pool m1 = tmg_pool mgr"
    using mgr_ok_stop [OF assms(1)] by blast
  let ?p = "tmg_pool mgr" and ?m = "m1\<lparr>tmg_pool := ogs_pool_free (tmg_pool mgr) a\<rparr>"
  have ok: "pool_inv ?p" "distinct (free_timers mgr)" "set (free_timers mgr) \<subseteq> {..<p_size ?p}" "distinct xs"
    using assms(1) rb.seq_distinct by (auto simp: mgr_ok_def agenda_def)
  have "set (free_timers mgr) \<subset> {..<p_size ?p}" using ok(3) assms(2) by (auto simp: allocated_def)
  then have "card (set (free_timers mgr)) < p_size ?p" using psubset_card_mono [OF finite_lessThan] by (metis card_lessThan)
  then have av: "p_avail ?p < p_size ?p" using free_timers_length [of mgr] distinct_card [OF ok(2)] by simp
  note fr = ogs_pool_free_ring [OF ok(1), of a]
  have a: "a < p_size ?p" "a \<notin> set (free_timers mgr)" using assms(2) by (simp_all add: allocated_def)
  have p: "pool_inv (tmg_pool ?m)" "free_timers ?m = free_timers mgr @ [a]" using fr a av by (simp_all add: free_timers_def)
  have sz: "p_size (tmg_pool ?m) = p_size ?p" by (simp add: ogs_pool_free_def)
  have "agenda ?m (remove1 a xs)" using 1(2) by (simp add: mgr_ok_def agenda_def)
  moreover have "allocated ?m x" if "x \<in> set (remove1 a xs)" for x
  proof -
    have "allocated m1 x" "x \<noteq> a" using that 1(2) ok(4) by (auto simp: mgr_ok_def)
    then show ?thesis using 1(3) p(2) sz by (simp add: allocated_def free_timers_def)
  qed
  ultimately show ?thesis
    using 1(1,3) p sz ok(2,3) a by (intro exI [of _ ?m]) (simp add: timer_delete_def mgr_ok_def)
qed

lemma rb_seq_upd_node: "a \<notin> set xs \<Longrightarrow> rb_seq tree xs \<Longrightarrow> rb_seq (upd_node a f tree) xs"
  unfolding rb_seq_def by (elim exE conjE, rule exI) (auto simp: repr_def)

lemma mgr_ok_add:
  assumes "mgr_ok mgr xs"
  shows "\<exists>mgr'. timer_add cb data mgr = Some (case free_timers mgr of [] \<Rightarrow> None | a # _ \<Rightarrow> Some a, mgr')
    \<and> mgr_ok mgr' xs \<and> free_timers mgr' = tl (free_timers mgr)"
proof (cases "free_timers mgr")
  case Nil
  then have "p_avail (tmg_pool mgr) = 0" using free_timers_length [of mgr] by simp
  then have "timer_add cb data mgr = Some (None, mgr)" by (simp add: timer_add_def ogs_pool_alloc_def)
  then show ?thesis using Nil assms by simp
next
  case (Cons a rest)
  have ok: "pool_inv (tmg_pool mgr)" "distinct (a # rest)" "set (a # rest) \<subseteq> {..<p_size (tmg_pool mgr)}" "agenda mgr xs"
    "\<forall>x\<in>set xs. x < p_size (tmg_pool mgr) \<and> x \<notin> set (a # rest)"
    using assms unfolding mgr_ok_def allocated_def Cons by auto
  have "0 < p_avail (tmg_pool mgr)" using free_timers_length [of mgr] Cons by simp
  then obtain node p' where p: "ogs_pool_alloc (tmg_pool mgr) = Some (Some node, p')" "pool_inv p'"
    "ip_free (pool_abs (tmg_pool mgr)) = node # ip_free (pool_abs p')" "p_size p' = p_size (tmg_pool mgr)"
    using ogs_pool_alloc_ring [OF ok(1)] by metis
  then have n: "node = a" "ip_free (pool_abs p') = rest" using Cons by (simp_all add: free_timers_def)
  define mgr' where "mgr' = snd (the (timer_add cb data mgr))"
  have add: "timer_add cb data mgr = Some (Some a, mgr')" using p(1) n(1) by (simp add: mgr'_def timer_add_def)
  have f: "tmg_pool mgr' = p'" "rb_seq (tmg_tree mgr') xs" "\<And>x. x \<noteq> a \<Longrightarrow> tmg_timer mgr' x = tmg_timer mgr x" "\<not> tm_running (tmg_timer mgr' a)"
    using p(1) n(1) ok(4,5) by (auto simp: mgr'_def timer_add_def agenda_def intro!: rb_seq_upd_node)
  have "a \<notin> set xs" using ok(5) by auto
  moreover from this have "map (deadline mgr') xs = map (deadline mgr) xs" using f(3) by (intro map_cong refl) metis
  ultimately have "agenda mgr' xs" using ok(4) f unfolding agenda_def by metis
  moreover have "free_timers mgr' = rest" using f(1) n(2) by (simp add: free_timers_def)
  ultimately have "mgr_ok mgr' xs" using ok f(1) p by (auto simp: mgr_ok_def allocated_def)
  then show ?thesis using add Cons f(1) n(2) by (simp add: free_timers_def)
qed

end
