(* ===== verification/Ogs_Timer_Props.thy ===== *)
theory Ogs_Timer_Props
  imports Ogs_Timer
begin

text \<open>
  Properties of the red-black tree and of the timer manager: the tree stays ordered and balanced,
  the operations on timers refine an agenda of deadlines, an expiry calls exactly the timers that
  are due, and what happens when a callback deletes its own timer.
\<close>

section \<open>The tree\<close>

text \<open>A small tree of three nodes, and a manager whose timers 1, 0 and 2 are due at 3, 5 and 9.\<close>

definition ex_tree :: rbtree where
  "ex_tree = \<lparr>rb_root = Some 0, rb_mem = (\<lambda>_. \<lparr>rb_parent = None, rb_left = None, rb_right = None, rb_color = OGS_RBTREE_BLACK\<rparr>)
     (0 := \<lparr>rb_parent = None, rb_left = Some 1, rb_right = Some 2, rb_color = OGS_RBTREE_BLACK\<rparr>,
      1 := \<lparr>rb_parent = Some 0, rb_left = None, rb_right = None, rb_color = OGS_RBTREE_RED\<rparr>,
      2 := \<lparr>rb_parent = Some 0, rb_left = None, rb_right = None, rb_color = OGS_RBTREE_RED\<rparr>)\<rparr>"

definition ex_rbt :: rbt where
  "ex_rbt = Nd OGS_RBTREE_BLACK (Nd OGS_RBTREE_RED Lf 1 Lf) 0 (Nd OGS_RBTREE_RED Lf 2 Lf)"

lemma ex_rbt: "repr ex_tree [] ex_rbt" "rb_ok ex_rbt" "inord ex_rbt = [1, 0, 2]"
  by (simp_all add: ex_tree_def ex_rbt_def repr_def rb_ok_def)

text \<open>C9. On a well-formed tree both insertion (linking a new node at the end of any search path and
  repairing the colors) and deletion return: no null pointer is followed and the loops end. The
  nodes keep their order, but for the node that is inserted at that place or deleted; the colors
  stay correct, and a tree of \<open>n\<close> nodes has height at most \<open>2 log (n + 1)\<close>.\<close>

theorem rbtree_stays_balanced:
  assumes "repr tree [] T" "rb_ok T"
  shows "(a \<in> set (inord T) \<longrightarrow> (\<exists>tree' T'. ogs_rbtree_delete tree a = Some tree' \<and> repr tree' [] T' \<and> rb_ok T'
      \<and> inord T' = remove1 a (inord T) \<and> 2 ^ ht T' \<le> (length (inord T') + 1)\<^sup>2))
    \<and> (plug k Lf = T \<and> b \<notin> set (inord T) \<longrightarrow> (\<exists>tree' T'.
      ogs_rbtree_insert_color (ogs_rbtree_link_node b (link_of k) tree) b = Some tree' \<and> repr tree' [] T' \<and> rb_ok T'
      \<and> inord T' = cpre k @ b # cpost k \<and> 2 ^ ht T' \<le> (length (inord T') + 1)\<^sup>2))"
proof (intro conjI impI; (elim conjE)?)
  show "\<exists>tree' T'. ogs_rbtree_delete tree a = Some tree' \<and> repr tree' [] T' \<and> rb_ok T'
      \<and> inord T' = remove1 a (inord T) \<and> 2 ^ ht T' \<le> (length (inord T') + 1)\<^sup>2" if "a \<in> set (inord T)"
    using rb_delete_ok [OF assms that] ht_bound by metis
next
  assume k: "plug k Lf = T" and b: "b \<notin> set (inord T)"
  have "repr tree k Lf" using assms(1) k repr_root by metis
  moreover have "b \<notin> set (ctx_addrs k)" using b k inord_plug [of k Lf] by (auto simp: ctx_addrs_set)
  ultimately show "\<exists>tree' T'. ogs_rbtree_insert_color (ogs_rbtree_link_node b (link_of k) tree) b = Some tree' \<and> repr tree' [] T' \<and> rb_ok T'
      \<and> inord T' = cpre k @ b # cpost k \<and> 2 ^ ht T' \<le> (length (inord T') + 1)\<^sup>2"
    using insert_ok [of tree k b] assms(2) k ht_bound by metis
qed

theorem rbtree_stays_balanced_witness:
  "(\<exists>tree' T'. ogs_rbtree_delete ex_tree 0 = Some tree' \<and> repr tree' [] T' \<and> rb_ok T' \<and> inord T' = [1, 2])
   \<and> (\<exists>tree' T'. ogs_rbtree_insert_color (ogs_rbtree_link_node 3 (Some (1, Rgt)) ex_tree) 3 = Some tree' \<and> repr tree' [] T'
        \<and> rb_ok T' \<and> inord T' = [1, 3, 0, 2])"
proof -
  let ?k = "[Fr Rgt OGS_RBTREE_RED 1 Lf, Fr Lft OGS_RBTREE_BLACK 0 (Nd OGS_RBTREE_RED Lf 2 Lf)]"
  have "plug ?k Lf = ex_rbt" "link_of ?k = Some (1, Rgt)" "cpre ?k @ 3 # cpost ?k = [1, 3, 0, 2]"
    by (simp_all add: ex_rbt_def nd_def link_of_def)
  then show ?thesis
    using rbtree_stays_balanced [OF ex_rbt(1,2), of 0 ?k 3] ex_rbt(3) by auto
qed

section \<open>The agenda\<close>

text \<open>C10. The timer manager refines an agenda, the list of the running timers by deadline, and a list of
  free timers. On a well-formed manager every operation on an allocated timer returns: starting puts
  the timer behind all timers with the same or an earlier deadline, also when it was running;
  stopping takes it out; adding hands out the first free timer and none when there is none;
  deleting stops the timer and frees it. The time to wait is that until the first deadline, zero
  when it has passed and infinite without running timers.\<close>

theorem timer_operations_refine_agenda:
  assumes "mgr_ok mgr xs"
  shows "(allocated mgr a \<and> d \<noteq> 0 \<longrightarrow> (\<exists>mgr'. ogs_timer_start now mgr a d = Some mgr' \<and> deadline mgr' a = now + d
      \<and> mgr_ok mgr' (filter (\<lambda>x. deadline mgr x \<le> now + d) (remove1 a xs) @ a # filter (\<lambda>x. now + d < deadline mgr x) (remove1 a xs))))
    \<and> (\<exists>mgr'. ogs_timer_stop mgr a = Some mgr' \<and> mgr_ok mgr' (remove1 a xs))
    \<and> (allocated mgr a \<longrightarrow> (\<exists>mgr'. timer_delete mgr a = Some mgr' \<and> mgr_ok mgr' (remove1 a xs)
      \<and> free_timers mgr' = free_timers mgr @ [a]))
    \<and> (\<exists>mgr'. timer_add cb data mgr = Some (case free_timers mgr of [] \<Rightarrow> None | b # _ \<Rightarrow> Some b, mgr') \<and> mgr_ok mgr' xs
      \<and> free_timers mgr' = tl (free_timers mgr))
    \<and> ogs_timer_mgr_next now mgr = Some (case xs of [] \<Rightarrow> OGS_INFINITE_TIME | b # _ \<Rightarrow> max (deadline mgr b - now) 0)"
  using mgr_ok_start [OF assms, of a d now] mgr_ok_stop [OF assms, of a] mgr_ok_delete [OF assms, of a]
    mgr_ok_add [OF assms, of cb data] timer_next_ok [of mgr xs now] assms
  by (auto simp: scheduled_def mgr_ok_def)

text \<open>The manager of three timers, all of them running: the callbacks are 7, 8 and 9, the data of the
  first and of the second is timer 0.\<close>

definition ex_timer :: "nat \<Rightarrow> nat \<Rightarrow> ogs_time \<Rightarrow> ogs_timer" where
  "ex_timer cb data timeout =
     \<lparr>tm_prev = None, tm_next = None, tm_cb = Some cb, tm_data = data, tm_running = True, tm_timeout = timeout\<rparr>"

definition ex_mgr :: "ogs_pool \<Rightarrow> nat \<Rightarrow> ogs_timer_mgr" where
  "ex_mgr pool data =
     \<lparr>tmg_pool = pool, tmg_tree = ex_tree,
      tmg_timer = (\<lambda>_. \<lparr>tm_prev = None, tm_next = None, tm_cb = None, tm_data = 0, tm_running = False, tm_timeout = 0\<rparr>)
        (1 := ex_timer 7 data 3, 0 := ex_timer 8 0 5, 2 := ex_timer 9 2 9)\<rparr>"

text \<open>A pool whose three timers are handed out.\<close>

definition ex_pool :: ogs_pool where
  "ex_pool = (ogs_pool_init 3 0 0)\<lparr>p_avail := 0, p_free := [None, None, None]\<rparr>"

lemma ex_agenda: "agenda (ex_mgr pool data) [1, 0, 2]"
  unfolding agenda_def rb_seq_def using ex_rbt by (auto simp: ex_mgr_def ex_timer_def)

lemma ex_mgr_ok: "mgr_ok (ex_mgr ex_pool data) [1, 0, 2]" "free_timers (ex_mgr ex_pool data) = []"
proof -
  have "pool_inv (ogs_pool_init 3 0 0)" by (rule ogs_pool_init_refines) simp
  then have "pool_inv ex_pool" by (simp add: ex_pool_def ogs_pool_init_def pool_inv_def ring_slots_def)
  moreover show f: "free_timers (ex_mgr ex_pool data) = []"
    by (simp add: free_timers_def ex_mgr_def ex_pool_def pool_abs_def ring_slots_def)
  ultimately show "mgr_ok (ex_mgr ex_pool data) [1, 0, 2]"
    using ex_agenda by (simp add: mgr_ok_def allocated_def) (simp add: ex_mgr_def ex_pool_def ogs_pool_init_def)
qed

theorem timer_operations_refine_agenda_witness:
  "(\<exists>mgr'. ogs_timer_start 2 (ex_mgr ex_pool 0) 1 3 = Some mgr' \<and> mgr_ok mgr' [0, 1, 2])
   \<and> (\<exists>mgr'. timer_delete (ex_mgr ex_pool 0) 1 = Some mgr' \<and> mgr_ok mgr' [0, 2] \<and> free_timers mgr' = [1])
   \<and> ogs_timer_mgr_next 2 (ex_mgr ex_pool 0) = Some 1"
proof -
  have "allocated (ex_mgr ex_pool 0) 1" using ex_mgr_ok [of 0] by (simp add: mgr_ok_def)
  then show ?thesis
    using timer_operations_refine_agenda [OF ex_mgr_ok(1) [of 0], of 1 3 2] ex_mgr_ok(2) [of 0]
    by (auto simp: ex_mgr_def ex_timer_def)
qed

section \<open>Expiry\<close>

text \<open>C11. An expiry at time \<open>now\<close> takes exactly the timers whose deadline has passed out of the agenda, at
  once, and then calls their callbacks, one after the other by deadline, with the data they had at
  that moment; the others stay. The callbacks may start and stop any timers; the list of the calls
  is not affected, so that stopping a timer that expired together with the caller does not
  prevent its callback.\<close>

theorem expiry_calls_exactly_the_due_timers:
  assumes "agenda mgr xs" "links_kept (set (filter (\<lambda>x. deadline mgr x \<le> now) xs)) run"
  shows "\<exists>mgr1. ogs_timer_mgr_expire run now (mgr, w)
      = fire_all run (map (\<lambda>a. action (tmg_timer mgr a)) (filter (\<lambda>x. deadline mgr x \<le> now) xs)) (mgr1, w)
    \<and> agenda mgr1 (filter (\<lambda>x. now < deadline mgr x) xs) \<and> tmg_pool mgr1 = tmg_pool mgr"
  using timer_expire_ok [OF assms] by blast

text \<open>A callback that stops the timer of its data, and writes down its call.\<close>

definition stopping :: "nat \<Rightarrow> nat \<Rightarrow> ogs_timer_mgr \<times> nat list \<Rightarrow> (ogs_timer_mgr \<times> nat list) option" where
  "stopping cb data st = map_option (\<lambda>mgr. (mgr, snd st @ [cb])) (ogs_timer_stop (fst st) data)"

lemma stopping_keeps_links: "links_kept S stopping"
  using timer_stop_action by (fastforce simp: links_kept_def stopping_def)

theorem expiry_calls_exactly_the_due_timers_witness:
  "\<exists>mgr'. ogs_timer_mgr_expire stopping 6 (ex_mgr ex_pool 0, []) = Some (mgr', [7, 8])"
proof -
  let ?mgr = "ex_mgr ex_pool 0"
  have due: "filter (\<lambda>x. deadline ?mgr x \<le> 6) [1, 0, 2] = [1, 0]" "filter (\<lambda>x. 6 < deadline ?mgr x) [1, 0, 2] = [2]"
    "map (\<lambda>a. action (tmg_timer ?mgr a)) [1, 0] = [(Some 7, 0), (Some 8, 0)]"
    by (simp_all add: ex_mgr_def ex_timer_def action_def)
  obtain m1 where 1: "ogs_timer_mgr_expire stopping 6 (?mgr, []) = fire_all stopping [(Some 7, 0), (Some 8, 0)] (m1, [])" "agenda m1 [2]"
    using expiry_calls_exactly_the_due_timers [OF ex_agenda [of ex_pool 0], of 6 stopping "[]"] stopping_keeps_links due by auto
  then have "ogs_timer_stop m1 0 = Some m1" by (simp add: ogs_timer_stop_def agenda_def)
  then show ?thesis using 1 by (simp add: stopping_def)
qed

text \<open>A callback that deletes the timer of its data, which is its own, and adds a new one.\<close>

definition recycling :: "nat \<Rightarrow> nat \<Rightarrow> ogs_timer_mgr \<times> nat list \<Rightarrow> (ogs_timer_mgr \<times> nat list) option" where
  "recycling cb data st =
     do { mgr \<leftarrow> timer_delete (fst st) data;
          (r, mgr) \<leftarrow> timer_add (Some cb) data mgr;
          Some (mgr, snd st @ [cb]) }"

lemma timer_add_links:
  assumes "timer_add cb data mgr = Some (Some a, mgr')"
  shows "tm_next (tmg_timer mgr' a) = None"
proof -
  obtain pool where "ogs_pool_alloc (tmg_pool mgr) = Some (Some a, pool)"
    using assms by (auto simp: timer_add_def bind_eq_Some_conv Let_def split: option.splits)
  then show ?thesis using assms by (auto simp: timer_add_def)
qed

text \<open>C12. When no timer is free and the callback of the first due timer deletes that timer and adds a
  new one, the expiry ends there: the new timer is the same one with its links cleared, so that the
  callbacks of the other due timers are never called, although these timers no longer run.\<close>

theorem deletion_in_callback_drops_due_timers:
  assumes "mgr_ok mgr xs" "free_timers mgr = []" "filter (\<lambda>x. deadline mgr x \<le> now) xs = a # ds"
    and "action (tmg_timer mgr a) = (Some c, a)"
  shows "\<exists>mgr'. ogs_timer_mgr_expire recycling now (mgr, w) = Some (mgr', w @ [c])
    \<and> mgr_ok mgr' (filter (\<lambda>x. now < deadline mgr x) xs)"
proof -
  let ?rest = "filter (\<lambda>x. now < deadline mgr x) xs"
  have "agenda mgr xs" using assms(1) by (simp add: mgr_ok_def)
  from timer_expire_detach [OF this, where now = now and run = recycling and w = w, unfolded assms(3)]
  obtain m2 p where 1: "ogs_timer_mgr_expire recycling now (mgr, w) = timer_fire recycling (m2, w) p" "chain (tmg_timer m2) p (a # ds)"
    "agenda m2 ?rest" "\<forall>x. core (tmg_timer m2 x) = core (detached (a # ds) (tmg_timer mgr) x)" "tmg_pool m2 = tmg_pool mgr" by blast
  have ac: "tm_cb (tmg_timer m2 a) = Some c" "tm_data (tmg_timer m2 a) = a"
    using 1(4) assms(4) by (simp_all add: core_def action_def detached_def)
  have a: "a \<in> set xs" "a \<notin> set ?rest" using assms(3) Cons_eq_filterD [of a ds] by (force simp: filter_eq_Cons_iff)+
  have ok2: "mgr_ok m2 ?rest" using mgr_ok_pool [OF assms(1) 1(5,3)] assms(1) by (simp add: mgr_ok_def)
  have al: "allocated m2 a" using assms(1) a(1) 1(5) by (auto simp: mgr_ok_def allocated_def free_timers_def)
  obtain m3 where 3: "timer_delete m2 a = Some m3" "mgr_ok m3 ?rest" "free_timers m3 = [a]"
    using mgr_ok_delete [OF ok2 al] a(2) assms(2) 1(5) by (auto simp: remove1_idem free_timers_def)
  obtain m4 where 4: "timer_add (Some c) a m3 = Some (Some a, m4)" "mgr_ok m4 ?rest"
    using mgr_ok_add [OF 3(2), of "Some c" a] 3(3) by auto
  have "timer_fire recycling (m2, w) (Some a) = timer_fire recycling (m4, w @ [c]) (tm_next (tmg_timer m4 a))"
    by (subst timer_fire.simps) (simp add: ac recycling_def 3(1) 4(1))
  also have "\<dots> = Some (m4, w @ [c])" using timer_add_links [OF 4(1)] by (simp add: timer_fire.simps)
  finally show ?thesis using 1(1,2) 4(2) by simp
qed

theorem deletion_in_callback_drops_due_timers_witness:
  "\<exists>mgr'. ogs_timer_mgr_expire recycling 6 (ex_mgr ex_pool 1, []) = Some (mgr', [7]) \<and> mgr_ok mgr' [2]"
proof -
  have "filter (\<lambda>x. deadline (ex_mgr ex_pool 1) x \<le> 6) [1, 0, 2] = [1, 0]" "filter (\<lambda>x. 6 < deadline (ex_mgr ex_pool 1) x) [1, 0, 2] = [2]"
    "action (tmg_timer (ex_mgr ex_pool 1) 1) = (Some 7, 1)"
    by (simp_all add: ex_mgr_def ex_timer_def action_def)
  then show ?thesis
    using deletion_in_callback_drops_due_timers [OF ex_mgr_ok, of 1 6 1 "[0]" 7 "[]"] by auto
qed

end
