(* ===== verification/Ogs_Tlv.thy ===== *)
theory Ogs_Tlv
  imports Prelude
begin

text \<open>
  The type-length-value elements of \<open>src/lib/core/ogs-tlv.c\<close>, of which GTP and PFCP messages consist:
  lists of elements that may embed lists, their rendering into a buffer, and the parser of one level.

  A list of nodes linked by \<open>next\<close> is a list, a null \<open>embedded\<close> pointer is the empty list. A value is the
  octets from where it points to the end of its buffer; a null pointer is \<open>None\<close>. The pool of nodes is the number of free ones. An
  octet read or written outside of the buffer makes the result \<open>None\<close>.
\<close>

datatype tlv_mode =
  OGS_TLV_MODE_T1_L1 | OGS_TLV_MODE_T1_L2 | OGS_TLV_MODE_T1_L2_I1 | OGS_TLV_MODE_T2_L2 | OGS_TLV_MODE_T1

datatype ogs_tlv =
  Tlv (tl_mode: tlv_mode) (tl_type: u32) (tl_length: u32) (tl_instance: u8) (tl_value: "bytes option")
      (tl_embedded: "ogs_tlv list")

section \<open>Nodes\<close>

text \<open>\<open>ogs_tlv_free_all\<close> gives this number of nodes back.\<close>

fun tlv_nodes :: "ogs_tlv list \<Rightarrow> nat" where
  "tlv_nodes [] = 0"
| "tlv_nodes (Tlv m ty len i v emb # ts) = tlv_nodes emb + 1 + tlv_nodes ts"

definition ogs_tlv_free_all :: "ogs_tlv list \<Rightarrow> nat \<Rightarrow> nat" where
  "ogs_tlv_free_all ts avail = avail + tlv_nodes ts"

text \<open>\<open>ogs_tlv_add\<close> and \<open>ogs_tlv_embed\<close> append a node to a list; the first wants a value when there is a
  length. An empty pool fails an assertion.\<close>

definition ogs_tlv_add ::
  "ogs_tlv list \<Rightarrow> tlv_mode \<Rightarrow> u32 \<Rightarrow> u32 \<Rightarrow> u8 \<Rightarrow> bytes option \<Rightarrow> nat \<Rightarrow> (ogs_tlv list \<times> nat) option" where
  "ogs_tlv_add ts mode type len instnce value avail =
     do { ogs_assert (avail > 0);
          ogs_assert (len \<noteq> 0 \<longrightarrow> value \<noteq> None);
          Some (ts @ [Tlv mode type len instnce value []], avail - 1) }"

definition ogs_tlv_embed ::
  "ogs_tlv list \<Rightarrow> tlv_mode \<Rightarrow> u32 \<Rightarrow> u32 \<Rightarrow> u8 \<Rightarrow> bytes option \<Rightarrow> nat \<Rightarrow> (ogs_tlv list \<times> nat) option" where
  "ogs_tlv_embed ts mode type len instnce value avail =
     do { ogs_assert (avail > 0);
          Some (ts @ [Tlv mode type len instnce value []], avail - 1) }"

section \<open>Rendering\<close>

definition tlv_header_len :: "tlv_mode \<Rightarrow> nat" where
  "tlv_header_len mode =
     (case mode of
        OGS_TLV_MODE_T1_L1 \<Rightarrow> 2 | OGS_TLV_MODE_T1_L2 \<Rightarrow> 3 | OGS_TLV_MODE_T1_L2_I1 \<Rightarrow> 4
      | OGS_TLV_MODE_T2_L2 \<Rightarrow> 4 | OGS_TLV_MODE_T1 \<Rightarrow> 1)"

text \<open>The length of a list, and the list with the lengths of embedding nodes filled in.\<close>

fun ogs_tlv_calc_length :: "ogs_tlv list \<Rightarrow> u32 \<times> ogs_tlv list" where
  "ogs_tlv_calc_length [] = (0, [])"
| "ogs_tlv_calc_length (Tlv m ty len i v emb # ts) =
     (let (n, emb') = ogs_tlv_calc_length emb;
          len' = (if emb = [] then len else n);
          (rest, ts') = ogs_tlv_calc_length ts
      in (of_nat (tlv_header_len m) + len' + rest, Tlv m ty len' i v emb' # ts'))"

definition tlv_put_type :: "u32 \<Rightarrow> tlv_mode \<Rightarrow> bytes" where
  "tlv_put_type type mode =
     (case mode of OGS_TLV_MODE_T2_L2 \<Rightarrow> [ucast (drop_bit 8 type), ucast type] | _ \<Rightarrow> [ucast type])"

definition tlv_put_length :: "u32 \<Rightarrow> tlv_mode \<Rightarrow> bytes" where
  "tlv_put_length len mode =
     (case mode of
        OGS_TLV_MODE_T1_L1 \<Rightarrow> [ucast len]
      | OGS_TLV_MODE_T1 \<Rightarrow> []
      | _ \<Rightarrow> [ucast (drop_bit 8 len), ucast len])"

definition tlv_put_instance :: "u8 \<Rightarrow> tlv_mode \<Rightarrow> bytes" where
  "tlv_put_instance instnce mode = (case mode of OGS_TLV_MODE_T1_L2_I1 \<Rightarrow> [instnce] | _ \<Rightarrow> [])"

text \<open>Octets written at a position, and the position behind them; \<open>memcpy\<close> from a value.\<close>

definition buf_put :: "bytes \<Rightarrow> nat \<Rightarrow> bytes \<Rightarrow> (bytes \<times> nat) option" where
  "buf_put buf pos bs =
     (if pos + length bs \<le> length buf
      then Some (take pos buf @ bs @ drop (pos + length bs) buf, pos + length bs) else None)"

definition value_octets :: "bytes option \<Rightarrow> nat \<Rightarrow> bytes option" where
  "value_octets v n =
     (case v of None \<Rightarrow> if n = 0 then Some [] else None
      | Some bs \<Rightarrow> if n \<le> length bs then Some (take n bs) else None)"

text \<open>\<open>ogs_tlv_render\<close> from \<open>pos\<close> on, for a block that begins at \<open>blk\<close> and has room for \<open>len\<close> octets: the
  buffer and the position at the end.\<close>

fun tlv_render :: "ogs_tlv list \<Rightarrow> bytes \<Rightarrow> nat \<Rightarrow> nat \<Rightarrow> u32 \<Rightarrow> (bytes \<times> nat) option" where
  "tlv_render [] buf blk pos room = Some (buf, pos)"
| "tlv_render (Tlv m ty len i v emb # ts) buf blk pos room =
     do { (buf, pos) \<leftarrow> buf_put buf pos (tlv_put_type ty m);
          (buf, pos) \<leftarrow>
            (if emb = []
             then do { (buf, pos) \<leftarrow> buf_put buf pos (tlv_put_length len m);
                       (buf, pos) \<leftarrow> buf_put buf pos (tlv_put_instance i m);
                       ogs_assert (\<not> (pos - blk) + unat len > unat room);
                       bs \<leftarrow> value_octets v (unat len);
                       buf_put buf pos bs }
             else do { let n = fst (ogs_tlv_calc_length emb);
                       (buf, pos) \<leftarrow> buf_put buf pos (tlv_put_length n m);
                       (buf, pos) \<leftarrow> buf_put buf pos (tlv_put_instance i m);
                       (buf, _) \<leftarrow> tlv_render emb buf pos pos (room - of_nat (pos - blk));
                       Some (buf, pos + unat n) });
          tlv_render ts buf blk pos room }"

definition ogs_tlv_render :: "ogs_tlv list \<Rightarrow> bytes \<Rightarrow> nat \<Rightarrow> u32 \<Rightarrow> (bytes \<times> nat) option" where
  "ogs_tlv_render ts buf data room =
     map_option (\<lambda>(buf, pos). (buf, pos - data)) (tlv_render ts buf data data room)"

section \<open>Parsing\<close>

definition buf_get :: "bytes \<Rightarrow> nat \<Rightarrow> u32 option" where
  "buf_get buf pos = (if pos < length buf then Some (ucast (buf ! pos)) else None)"

definition buf_get16 :: "bytes \<Rightarrow> nat \<Rightarrow> u32 option" where
  "buf_get16 buf pos =
     do { hi \<leftarrow> buf_get buf pos; lo \<leftarrow> buf_get buf (pos + 1); Some (push_bit 8 hi + lo) }"

text \<open>An element whose value begins at \<open>pos\<close>, and the position behind the value. The mode that
  \<open>tlv_get_element_fixed\<close> leaves unset is given, too; the parsers do not read it.\<close>

definition tlv_element :: "bytes \<Rightarrow> nat \<Rightarrow> tlv_mode \<Rightarrow> u32 \<Rightarrow> u32 \<Rightarrow> u8 \<Rightarrow> ogs_tlv \<times> nat" where
  "tlv_element buf pos mode type len instnce =
     (Tlv mode type len instnce (Some (drop pos buf)) [], pos + unat len)"

definition tlv_get_element :: "bytes \<Rightarrow> nat \<Rightarrow> tlv_mode \<Rightarrow> (ogs_tlv \<times> nat) option" where
  "tlv_get_element buf pos mode =
     (case mode of
        OGS_TLV_MODE_T1_L1 \<Rightarrow>
          do { type \<leftarrow> buf_get buf pos; len \<leftarrow> buf_get buf (pos + 1);
               Some (tlv_element buf (pos + 2) mode type len 0) }
      | OGS_TLV_MODE_T1_L2 \<Rightarrow>
          do { type \<leftarrow> buf_get buf pos; len \<leftarrow> buf_get16 buf (pos + 1);
               Some (tlv_element buf (pos + 3) mode type len 0) }
      | OGS_TLV_MODE_T1_L2_I1 \<Rightarrow>
          do { type \<leftarrow> buf_get buf pos; len \<leftarrow> buf_get16 buf (pos + 1); i \<leftarrow> buf_get buf (pos + 3);
               Some (tlv_element buf (pos + 4) mode type len (ucast (i AND 0xF))) }
      | OGS_TLV_MODE_T2_L2 \<Rightarrow>
          do { type \<leftarrow> buf_get16 buf pos; len \<leftarrow> buf_get16 buf (pos + 2);
               Some (tlv_element buf (pos + 4) mode type len 0) }
      | OGS_TLV_MODE_T1 \<Rightarrow>
          do { type \<leftarrow> buf_get buf pos; Some (tlv_element buf (pos + 1) mode type 0 0) })"

definition tlv_get_element_fixed :: "bytes \<Rightarrow> nat \<Rightarrow> tlv_mode \<Rightarrow> u32 \<Rightarrow> (ogs_tlv \<times> nat) option" where
  "tlv_get_element_fixed buf pos mode fixed_length =
     do { ogs_assert (mode = OGS_TLV_MODE_T1);
          type \<leftarrow> buf_get buf pos;
          Some (tlv_element buf (pos + 1) mode type fixed_length 0) }"

text \<open>The loop that \<open>ogs_tlv_parse_block\<close> and \<open>ogs_tlv_parse_block_desc\<close> have in common. The reader of an
  element can report an error, an inner \<open>None\<close>. The result is the list of nodes or an error, and the
  number of free nodes.\<close>

partial_function (option) tlv_parse_loop ::
  "(nat \<Rightarrow> (ogs_tlv \<times> nat) option option) \<Rightarrow> nat \<Rightarrow> nat \<Rightarrow> nat \<Rightarrow> nat \<Rightarrow> ogs_tlv list \<Rightarrow> (ogs_tlv list option \<times> nat) option" where
  "tlv_parse_loop get blk len avail pos ts =
     (if pos - blk < len
      then if avail = 0 then Some (None, ogs_tlv_free_all ts avail)
           else do { r \<leftarrow> get pos;
                     case r of
                       None \<Rightarrow> Some (None, ogs_tlv_free_all ts avail)
                     | Some (t, pos) \<Rightarrow> tlv_parse_loop get blk len (avail - 1) pos (ts @ [t]) }
      else if len \<noteq> pos - blk then Some (None, ogs_tlv_free_all ts avail)
      else Some (Some ts, avail))"

declare tlv_parse_loop.simps [code]

definition tlv_parse_with ::
  "(nat \<Rightarrow> (ogs_tlv \<times> nat) option option) \<Rightarrow> nat \<Rightarrow> nat \<Rightarrow> nat \<Rightarrow> (ogs_tlv list option \<times> nat) option" where
  "tlv_parse_with get blk len avail =
     (if avail = 0 then Some (None, avail)
      else do { r \<leftarrow> get blk;
                case r of
                  None \<Rightarrow> Some (None, avail)
                | Some (t, pos) \<Rightarrow> tlv_parse_loop get blk len (avail - 1) pos [t] })"

definition ogs_tlv_parse_block :: "bytes \<Rightarrow> nat \<Rightarrow> u32 \<Rightarrow> tlv_mode \<Rightarrow> nat \<Rightarrow> (ogs_tlv list option \<times> nat) option" where
  "ogs_tlv_parse_block buf data len mode avail =
     tlv_parse_with (\<lambda>pos. map_option Some (tlv_get_element buf pos mode)) data (unat len) avail"

section \<open>Access\<close>

definition ogs_tlv_value_8 :: "ogs_tlv \<Rightarrow> u8 option" where
  "ogs_tlv_value_8 t = do { v \<leftarrow> tl_value t; map_option ucast (buf_get v 0) }"

definition ogs_tlv_value_16 :: "ogs_tlv \<Rightarrow> u16 option" where
  "ogs_tlv_value_16 t =
     do { v \<leftarrow> tl_value t; a \<leftarrow> buf_get v 0; b \<leftarrow> buf_get v 1;
          Some (ucast (push_bit 8 a AND 0xff00 OR b AND 0x00ff)) }"

definition ogs_tlv_value_32 :: "ogs_tlv \<Rightarrow> u32 option" where
  "ogs_tlv_value_32 t =
     do { v \<leftarrow> tl_value t; a \<leftarrow> buf_get v 0; b \<leftarrow> buf_get v 1; c \<leftarrow> buf_get v 2; d \<leftarrow> buf_get v 3;
          Some (push_bit 24 a AND 0xff000000 OR push_bit 16 b AND 0x00ff0000 OR push_bit 8 c AND 0x0000ff00 OR d AND 0x000000ff) }"

text \<open>The number of elements that embed no others.\<close>

fun ogs_tlv_calc_count :: "ogs_tlv list \<Rightarrow> u32" where
  "ogs_tlv_calc_count [] = 0"
| "ogs_tlv_calc_count (Tlv m ty len i v emb # ts) =
     (if emb \<noteq> [] then ogs_tlv_calc_count emb else 1) + ogs_tlv_calc_count ts"

fun ogs_tlv_find :: "ogs_tlv list \<Rightarrow> u32 \<Rightarrow> ogs_tlv option" where
  "ogs_tlv_find [] type = None"
| "ogs_tlv_find (Tlv m ty len i v emb # ts) type =
     (if ty = type then Some (Tlv m ty len i v emb)
      else case (if emb \<noteq> [] then ogs_tlv_find emb type else None) of
             Some t \<Rightarrow> Some t
           | None \<Rightarrow> ogs_tlv_find ts type)"

text \<open>The elements in the order of their octets, embedding ones before what they embed: the search gives the
  first of the type, and the count is that of the leaves.\<close>

fun preorder :: "ogs_tlv list \<Rightarrow> ogs_tlv list" where
  "preorder [] = []"
| "preorder (Tlv m ty len i v emb # ts) = Tlv m ty len i v emb # preorder emb @ preorder ts"

lemma find_append: "List.find P (xs @ ys) = (case List.find P xs of None \<Rightarrow> List.find P ys | Some x \<Rightarrow> Some x)"
  by (induction xs) simp_all

lemma tlv_find_preorder: "ogs_tlv_find ts type = List.find (\<lambda>t. tl_type t = type) (preorder ts)"
proof (induction ts rule: preorder.induct)
  case (2 m ty len i v emb ts)
  then show ?case by (cases "emb = []") (auto simp: find_append split: option.splits)
qed simp

lemma tlv_count_leaves: "ogs_tlv_calc_count ts = of_nat (length (filter (\<lambda>t. tl_embedded t = []) (preorder ts)))"
proof (induction ts rule: preorder.induct)
  case (2 m ty len i v emb ts)
  then show ?case by (cases "emb = []") simp_all
qed simp

lemma preorder_nodes: "length (preorder ts) = tlv_nodes ts"
  by (induction ts rule: preorder.induct) simp_all

section \<open>The octets of a list\<close>

text \<open>The reference for rendering.\<close>

definition octets_of :: "bytes option \<Rightarrow> u32 \<Rightarrow> bytes" where
  "octets_of v len = (case v of None \<Rightarrow> [] | Some bs \<Rightarrow> take (unat len) bs)"

definition tlv_header :: "tlv_mode \<Rightarrow> u32 \<Rightarrow> u32 \<Rightarrow> u8 \<Rightarrow> bytes" where
  "tlv_header m ty len i = tlv_put_type ty m @ tlv_put_length len m @ tlv_put_instance i m"

fun wire :: "ogs_tlv list \<Rightarrow> bytes" where
  "wire [] = []"
| "wire (Tlv m ty len i v emb # ts) =
     (let body = (if emb = [] then octets_of v len else wire emb)
      in tlv_header m ty (if emb = [] then len else of_nat (length body)) i @ body @ wire ts)"

text \<open>The values can be read at their lengths.\<close>

fun values_ok :: "ogs_tlv list \<Rightarrow> bool" where
  "values_ok [] \<longleftrightarrow> True"
| "values_ok (Tlv m ty len i v emb # ts) \<longleftrightarrow>
     (if emb = [] then value_octets v (unat len) \<noteq> None else values_ok emb) \<and> values_ok ts"

lemma tlv_header_length [simp]: "length (tlv_header m ty len i) = tlv_header_len m"
  by (cases m) (simp_all add: tlv_header_def tlv_put_type_def tlv_put_length_def tlv_put_instance_def tlv_header_len_def)

lemma value_octets_eq: "value_octets v (unat len) \<noteq> None \<Longrightarrow> value_octets v (unat len) = Some (octets_of v len) \<and> length (octets_of v len) = unat len"
  by (auto simp: value_octets_def octets_of_def split: option.splits if_splits)

lemma calc_length_wire: "values_ok ts \<Longrightarrow> fst (ogs_tlv_calc_length ts) = of_nat (length (wire ts))"
proof (induction ts rule: wire.induct)
  case (2 m ty len i v emb ts)
  then show ?case using value_octets_eq [of v len] by (auto simp: Let_def split_beta)
qed simp

lemma buf_put_append:
  "length cs \<le> length rest \<Longrightarrow> buf_put (bs @ rest) (length bs) cs = Some ((bs @ cs) @ drop (length cs) rest, length (bs @ cs))"
  by (simp add: buf_put_def)

lemma buf_put_at:
  "pos = length bs \<Longrightarrow> length cs \<le> length rest \<Longrightarrow> buf_put (bs @ rest) pos cs = Some ((bs @ cs) @ drop (length cs) rest, length (bs @ cs))"
  by (simp add: buf_put_def)

lemma render_wire:
  assumes "values_ok ts" "length (wire ts) \<le> length rest" "blk \<le> length bs" "length bs - blk + length (wire ts) \<le> unat room"
  shows "tlv_render ts (bs @ rest) blk (length bs) room = Some ((bs @ wire ts) @ drop (length (wire ts)) rest, length (bs @ wire ts))"
  using assms
proof (induction ts arbitrary: bs rest blk room rule: wire.induct)
  case (2 m ty len i v emb ts)
  define body where "body = (if emb = [] then octets_of v len else wire emb)"
  define L where "L = (if emb = [] then len else of_nat (length body) :: u32)"
  let ?t = "tlv_put_type ty m" and ?l = "tlv_put_length L m" and ?i = "tlv_put_instance i m"
  have w: "wire (Tlv m ty len i v emb # ts) = ?t @ ?l @ ?i @ body @ wire ts"
    by (simp add: Let_def tlv_header_def body_def L_def)
  have room: "length ?t + length ?l + length ?i + length body + length (wire ts) \<le> length rest"
    "length bs - blk + (length ?t + length ?l + length ?i + length body + length (wire ts)) \<le> unat room" "blk \<le> length bs"
    using 2(4,5,6) unfolding w by simp_all
  have ru: "unat room < 2 ^ 32" using unsigned_less [of room] by simp
  let ?bs = "((bs @ ?t) @ ?l) @ ?i" and ?rest = "drop (length ?i) (drop (length ?l) (drop (length ?t) rest))"
  have tail: "tlv_render ts ((?bs @ body) @ drop (length body) ?rest) blk (length (?bs @ body)) room
      = Some (((?bs @ body) @ wire ts) @ drop (length (wire ts)) (drop (length body) ?rest), length ((?bs @ body) @ wire ts))"
    using room 2(3) by (intro 2(2)) auto
  have mid: "(if emb = []
      then do { ogs_assert (\<not> (length ?bs - blk) + unat len > unat room); b \<leftarrow> value_octets v (unat len); buf_put (?bs @ ?rest) (length ?bs) b }
      else do { (buf, _) \<leftarrow> tlv_render emb (?bs @ ?rest) (length ?bs) (length ?bs) (room - of_nat (length ?bs - blk)); Some (buf, length ?bs + unat L) })
    = Some ((?bs @ body) @ drop (length body) ?rest, length (?bs @ body))"
  proof (cases "emb = []")
    case True
    then have b: "value_octets v (unat len) = Some body" "length body = unat len"
      using 2(3) value_octets_eq [of v len] by (simp_all add: body_def)
    then show ?thesis using True room by (simp add: buf_put_append [of body ?rest ?bs, simplified])
  next
    case False
    have "length body \<le> unat room" using room by simp
    then have L: "unat L = length body" using False ru by (simp add: L_def unat_of_nat32)
    have "length ?bs - blk \<le> unat room" using room by simp
    then have u: "unat (room - of_nat (length ?bs - blk)) = unat room - (length ?bs - blk)"
      using ru by (subst unat_sub) (simp_all add: word_le_nat_alt unat_of_nat32)
    have "tlv_render emb (?bs @ ?rest) (length ?bs) (length ?bs) (room - of_nat (length ?bs - blk))
        = Some ((?bs @ wire emb) @ drop (length (wire emb)) ?rest, length (?bs @ wire emb))"
    proof (rule 2(1))
      show "length ?bs - length ?bs + length (wire emb) \<le> unat (room - of_nat (length ?bs - blk))"
        unfolding u using room False by (simp add: body_def)
    qed (use False 2(3) room in \<open>simp_all add: body_def\<close>)
    then show ?thesis using False L by (simp add: body_def)
  qed
  have puts: "buf_put (bs @ rest) (length bs) ?t = Some ((bs @ ?t) @ drop (length ?t) rest, length (bs @ ?t))"
    "buf_put ((bs @ ?t) @ drop (length ?t) rest) (length (bs @ ?t)) ?l
       = Some (((bs @ ?t) @ ?l) @ drop (length ?l) (drop (length ?t) rest), length ((bs @ ?t) @ ?l))"
    "buf_put (((bs @ ?t) @ ?l) @ drop (length ?l) (drop (length ?t) rest)) (length ((bs @ ?t) @ ?l)) ?i = Some (?bs @ ?rest, length ?bs)"
    using room by (intro buf_put_append; simp)+
  have "tlv_render (Tlv m ty len i v emb # ts) (bs @ rest) blk (length bs) room
      = tlv_render ts ((?bs @ body) @ drop (length body) ?rest) blk (length (?bs @ body)) room"
  proof (cases "emb = []")
    case True
    note mid' = mid [unfolded if_P [OF True]]
    have L: "L = len" using True by (simp add: L_def)
    show ?thesis using True by (simp only: tlv_render.simps if_True refl puts [unfolded L] bind.bind_lunit prod.case mid' [unfolded L] L)
  next
    case False
    note mid' = mid [unfolded if_not_P [OF False]]
    have "fst (ogs_tlv_calc_length emb) = L" using calc_length_wire [of emb] 2(3) False by (simp add: L_def body_def)
    then show ?thesis using False by (simp only: tlv_render.simps if_False Let_def puts bind.bind_lunit prod.case mid')
  qed
  then show ?case using tail room unfolding w by (simp add: ac_simps)
qed simp

section \<open>Parsing what was rendered\<close>

text \<open>The value and the effective length of an element.\<close>

fun tlv_body :: "ogs_tlv \<Rightarrow> bytes" where
  "tlv_body (Tlv m ty len i v emb) = (if emb = [] then octets_of v len else wire emb)"

definition tlv_len :: "ogs_tlv \<Rightarrow> u32" where
  "tlv_len t = (if tl_embedded t = [] then tl_length t else of_nat (length (tlv_body t)))"

lemma wire_Cons: "wire (t # ts) = tlv_header (tl_mode t) (tl_type t) (tlv_len t) (tl_instance t) @ tlv_body t @ wire ts"
  by (cases t) (simp add: Let_def tlv_len_def)

text \<open>What fits the fields of the header.\<close>

definition elem_ok :: "tlv_mode \<Rightarrow> u32 \<Rightarrow> u32 \<Rightarrow> u8 \<Rightarrow> bool" where
  "elem_ok m ty len i \<longleftrightarrow>
     ty < (if m = OGS_TLV_MODE_T2_L2 then 0x10000 else 0x100)
     \<and> len < (if m = OGS_TLV_MODE_T1 then 1 else if m = OGS_TLV_MODE_T1_L1 then 0x100 else 0x10000)
     \<and> i < (if m = OGS_TLV_MODE_T1_L2_I1 then 0x10 else 1)"

definition tlv_fits :: "tlv_mode \<Rightarrow> ogs_tlv \<Rightarrow> bool" where
  "tlv_fits m t \<longleftrightarrow> tl_mode t = m \<and> elem_ok m (tl_type t) (tlv_len t) (tl_instance t) \<and> length (tlv_body t) = unat (tlv_len t)"

fun parsed :: "ogs_tlv list \<Rightarrow> bytes \<Rightarrow> ogs_tlv list" where
  "parsed [] post = []"
| "parsed (t # ts) post =
     Tlv (tl_mode t) (tl_type t) (tlv_len t) (tl_instance t) (Some (tlv_body t @ wire ts @ post)) [] # parsed ts post"

lemma take_bit_small: "unat (x :: 'a::len word) < 2 ^ n \<Longrightarrow> take_bit n x = x"
  using unsigned_word_eqI [of "take_bit n x" x, where ?'a = nat]
  by (simp add: unsigned_take_bit_eq take_bit_nat_eq_self)

lemma octet_join:
  assumes "(x :: u32) < 0x10000"
  shows "push_bit 8 (ucast (ucast (drop_bit 8 x) :: u8)) + ucast (ucast x :: u8) = x"
proof -
  let ?hi = "ucast (ucast (drop_bit 8 x) :: u8) :: u32" and ?lo = "ucast (ucast x :: u8) :: u32"
  have "take_bit 16 x = x" using assms by (intro take_bit_small) (simp add: word_less_nat_alt)
  then have up: "\<not> bit x n" if "16 \<le> n" for n using that by (metis bit_take_bit_iff not_le)
  have "push_bit 8 ?hi + ?lo = push_bit 8 ?hi OR ?lo"
    by (rule disjunctive_add_eq_or, rule bit_word_eqI) (auto simp: bit_simps)
  also have "\<dots> = x"
  proof (rule bit_word_eqI)
    fix n :: nat
    consider "n < 8" | "8 \<le> n" "n < 16" | "16 \<le> n" by linarith
    then show "bit (push_bit 8 ?hi OR ?lo) n = bit x n" by cases (auto simp: bit_simps up)
  qed
  finally show ?thesis .
qed

lemma octet_small: "(x :: u32) < 0x100 \<Longrightarrow> ucast (ucast x :: u8) = x"
proof (rule bit_word_eqI)
  fix n
  assume "x < 0x100"
  then have "take_bit 8 x = x" by (intro take_bit_small) (simp add: word_less_nat_alt)
  then have "\<not> bit x n" if "8 \<le> n" using that by (metis bit_take_bit_iff not_le)
  then show "bit (ucast (ucast x :: u8) :: u32) n = bit x n" by (cases "n < 8") (auto simp: bit_simps)
qed

lemma instance_small: "(i :: u8) < 0x10 \<Longrightarrow> ucast (ucast i AND (0xF :: u32)) = i"
proof -
  assume "i < 0x10"
  then have i: "take_bit 4 i = i" by (intro take_bit_small) (simp add: word_less_nat_alt)
  have "ucast i AND (0xF :: u32) = take_bit 4 (ucast i)" by (simp add: take_bit_eq_mask mask_eq_exp_minus_1)
  then have "ucast (ucast i AND (0xF :: u32)) = take_bit 4 i" by (auto intro!: bit_word_eqI simp: bit_simps)
  then show ?thesis using i by simp
qed

lemma buf_get_append [simp]:
  "n < length bs \<Longrightarrow> buf_get (pre @ bs @ post) (length pre + n) = Some (ucast (bs ! n))"
  by (simp add: buf_get_def nth_append)

lemma get_element_header:
  assumes "elem_ok m ty len i"
  shows "tlv_get_element (pre @ tlv_header m ty len i @ post) (length pre) m
    = Some (Tlv m ty len i (Some post) [], length pre + tlv_header_len m + unat len)"
proof -
  let ?h = "tlv_header m ty len i" and ?b = "pre @ tlv_header m ty len i @ post"
  have g: "buf_get ?b (length pre + n) = Some (ucast (?h ! n))" if "n < tlv_header_len m" for n
    using that by simp
  have d: "drop (length pre + tlv_header_len m) ?b = post" by simp
  have three: "length pre + 3 = Suc (Suc (Suc (length pre)))" by simp
  show ?thesis
    using assms g [of 0] g [of 1] g [of 2] g [of 3] g [of 3, unfolded three] d
    by (cases m) (simp_all add: tlv_get_element_def buf_get16_def tlv_element_def elem_ok_def tlv_header_len_def
        tlv_header_def tlv_put_type_def tlv_put_length_def tlv_put_instance_def octet_join octet_small instance_small)
qed

lemma parse_loop_wire:
  assumes "\<forall>t\<in>set ts. tlv_fits m t" "buf = q @ wire ts @ post" "blk \<le> length q" "blk + len = length q + length (wire ts)"
    and "length ts \<le> avail"
  shows "tlv_parse_loop (\<lambda>pos. map_option Some (tlv_get_element buf pos m)) blk len avail (length q) acc
    = Some (Some (acc @ parsed ts post), avail - length ts)"
  using assms
proof (induction ts arbitrary: q avail acc)
  case Nil
  then have "len = length q - blk" by simp
  then show ?case by (simp add: tlv_parse_loop.simps)
next
  case (Cons t ts)
  let ?h = "tlv_header m (tl_type t) (tlv_len t) (tl_instance t)"
  have t: "tl_mode t = m" "elem_ok m (tl_type t) (tlv_len t) (tl_instance t)" "length (tlv_body t) = unat (tlv_len t)"
    using Cons.prems(1) by (auto simp: tlv_fits_def)
  have b: "buf = q @ ?h @ tlv_body t @ wire ts @ post" using Cons.prems(2) t(1) by (simp add: wire_Cons)
  have get: "tlv_get_element buf (length q) m = Some (Tlv m (tl_type t) (tlv_len t) (tl_instance t) (Some (tlv_body t @ wire ts @ post)) [],
      length (q @ ?h @ tlv_body t))" (is "_ = Some (?t', _)")
    unfolding b using get_element_header [OF t(2)] t(3) by simp
  have h: "0 < tlv_header_len m" by (cases m) (simp_all add: tlv_header_len_def)
  then have lt: "length q - blk < len" using Cons.prems(3,4) t(1) by (simp add: wire_Cons)
  have "tlv_parse_loop (\<lambda>pos. map_option Some (tlv_get_element buf pos m)) blk len (avail - 1) (length (q @ ?h @ tlv_body t)) (acc @ [?t'])
      = Some (Some ((acc @ [?t']) @ parsed ts post), avail - 1 - length ts)"
    using Cons.prems t(1) b by (intro Cons.IH) (auto simp: wire_Cons)
  then show ?case
    using lt get Cons.prems(5) t(1) by (subst tlv_parse_loop.simps) simp
qed

lemma parse_with_loop: "0 < len \<Longrightarrow> 0 < avail \<Longrightarrow> tlv_parse_with get blk len avail = tlv_parse_loop get blk len avail blk []"
  by (subst tlv_parse_loop.simps) (simp add: tlv_parse_with_def ogs_tlv_free_all_def)

lemma parse_block_wire:
  assumes "ts \<noteq> []" "\<forall>t\<in>set ts. tlv_fits m t" "length (wire ts) < 2 ^ 32" "length ts \<le> avail"
  shows "ogs_tlv_parse_block (pre @ wire ts @ post) (length pre) (of_nat (length (wire ts))) m avail
    = Some (Some (parsed ts post), avail - length ts)"
proof -
  obtain t ts' where ts: "ts = t # ts'" using assms(1) by (cases ts) auto
  have 1: "tlv_parse_loop (\<lambda>pos. map_option Some (tlv_get_element (pre @ wire ts @ post) pos m)) (length pre) (length (wire ts))
      avail (length pre) [] = Some (Some (parsed ts post), avail - length ts)"
    using parse_loop_wire [OF assms(2), of "pre @ wire ts @ post" pre post "length pre" "length (wire ts)" avail "[]"] assms(4) by simp
  have "0 < tlv_header_len (tl_mode t)" by (cases "tl_mode t") (simp_all add: tlv_header_len_def)
  then have "0 < length (wire ts)" "0 < avail" using assms(4) by (simp_all add: ts wire_Cons)
  then show ?thesis using 1 assms(3) by (simp add: ogs_tlv_parse_block_def unat_of_nat32 parse_with_loop)
qed

section \<open>Parsing anything\<close>

text \<open>An element without embedded ones whose value can be read, with \<open>k\<close> octets more.\<close>

definition readable :: "nat \<Rightarrow> ogs_tlv \<Rightarrow> bool" where
  "readable k t \<longleftrightarrow> tl_embedded t = [] \<and> (\<exists>bs. tl_value t = Some bs \<and> unat (tl_length t) + k \<le> length bs)"

lemma tlv_nodes_flat: "\<forall>t\<in>set ts. tl_embedded t = [] \<Longrightarrow> tlv_nodes ts = length ts"
proof (induction ts)
  case (Cons t ts)
  then show ?case by (cases t) simp
qed simp

lemma tlv_nodes_append [simp]: "tlv_nodes (ts @ us) = tlv_nodes ts + tlv_nodes us"
  by (induction ts rule: tlv_nodes.induct) simp_all

text \<open>What a reader of elements must do: return, advance, and give a readable element unless it ends
  behind the block.\<close>

definition reader_ok :: "nat \<Rightarrow> nat \<Rightarrow> (nat \<Rightarrow> (ogs_tlv \<times> nat) option option) \<Rightarrow> bool" where
  "reader_ok k end get \<longleftrightarrow> (\<forall>pos \<le> end. \<exists>r. get pos = Some r \<and>
     (case r of None \<Rightarrow> True | Some (t, pos') \<Rightarrow> pos < pos' \<and> tl_embedded t = [] \<and> (pos' \<le> end \<longrightarrow> readable k t)))"

definition parse_result :: "nat \<Rightarrow> nat \<Rightarrow> ogs_tlv list option \<times> nat \<Rightarrow> bool" where
  "parse_result k avail res \<longleftrightarrow>
     (case res of (None, avail') \<Rightarrow> avail' = avail
      | (Some ts, avail') \<Rightarrow> ts \<noteq> [] \<and> avail' + length ts = avail \<and> (\<forall>t\<in>set ts. readable k t))"

lemma parse_loop_safe:
  assumes "reader_ok k (blk + len) get" "blk \<le> pos" "ts \<noteq> []" "\<forall>t\<in>set ts. tl_embedded t = [] \<and> (pos \<le> blk + len \<longrightarrow> readable k t)"
  shows "\<exists>res. tlv_parse_loop get blk len avail pos ts = Some res \<and> parse_result k (avail + length ts) res"
  using assms(2-)
proof (induction "blk + len - pos" arbitrary: pos ts avail rule: less_induct)
  case less
  have n: "tlv_nodes ts = length ts" using less.prems(3) tlv_nodes_flat by blast
  show ?case
  proof (cases "pos - blk < len \<and> 0 < avail")
    case False
    then show ?thesis using less.prems n
      by (subst tlv_parse_loop.simps) (auto simp: parse_result_def ogs_tlv_free_all_def)
  next
    case True
    then have lt: "pos < blk + len" using less.prems(1) by linarith
    obtain r where r: "get pos = Some r"
      "case r of None \<Rightarrow> True | Some (t, pos') \<Rightarrow> pos < pos' \<and> tl_embedded t = [] \<and> (pos' \<le> blk + len \<longrightarrow> readable k t)"
      using assms(1) less_imp_le [OF lt] unfolding reader_ok_def by blast
    show ?thesis
    proof (cases r)
      case None
      then show ?thesis using True r(1) n by (subst tlv_parse_loop.simps) (simp add: parse_result_def ogs_tlv_free_all_def)
    next
      case (Some tp)
      obtain t pos' where tp: "tp = (t, pos')" by (cases tp)
      have "pos < pos'" using r(2) Some tp by simp
      then have "\<exists>res. tlv_parse_loop get blk len (avail - 1) pos' (ts @ [t]) = Some res \<and> parse_result k (avail - 1 + length (ts @ [t])) res"
        using less.prems r(2) Some tp lt by (intro less.hyps) auto
      then show ?thesis using True r(1) Some tp by (subst tlv_parse_loop.simps) simp
    qed
  qed
qed

lemma parse_with_safe:
  assumes "reader_ok k (blk + len) get"
  shows "\<exists>res. tlv_parse_with get blk len avail = Some res \<and> parse_result k avail res"
proof (cases "avail = 0")
  case True
  then show ?thesis by (simp add: tlv_parse_with_def parse_result_def)
next
  case False
  have "blk \<le> blk + len" by simp
  then obtain r where r: "get blk = Some r"
    "case r of None \<Rightarrow> True | Some (t, pos') \<Rightarrow> blk < pos' \<and> tl_embedded t = [] \<and> (pos' \<le> blk + len \<longrightarrow> readable k t)"
    using assms unfolding reader_ok_def by blast
  show ?thesis
  proof (cases r)
    case None
    then show ?thesis using False r(1) by (simp add: tlv_parse_with_def parse_result_def)
  next
    case (Some tp)
    obtain t pos' where tp: "tp = (t, pos')" by (cases tp)
    have "\<exists>res. tlv_parse_loop get blk len (avail - 1) pos' [t] = Some res \<and> parse_result k (avail - 1 + length [t]) res"
      using r(2) Some tp by (intro parse_loop_safe [OF assms]) auto
    then show ?thesis using False r(1) Some tp by (simp add: tlv_parse_with_def)
  qed
qed

lemma get_element_safe:
  assumes "pos + tlv_header_len m \<le> length buf"
  shows "\<exists>t pos'. tlv_get_element buf pos m = Some (t, pos') \<and> pos < pos' \<and> tl_mode t = m \<and> tl_embedded t = []
    \<and> (pos' + k \<le> length buf \<longrightarrow> readable k t)"
  using assms
  by (cases m) (auto simp: tlv_get_element_def buf_get16_def buf_get_def tlv_element_def tlv_header_len_def readable_def)

lemma parse_block_safe:
  assumes "data + unat len + k \<le> length buf" "tlv_header_len m \<le> k"
  shows "\<exists>res. ogs_tlv_parse_block buf data len m avail = Some res \<and> parse_result k avail res"
proof -
  have "reader_ok k (data + unat len) (\<lambda>pos. map_option Some (tlv_get_element buf pos m))"
    unfolding reader_ok_def
  proof (intro allI impI)
    fix pos
    assume "pos \<le> data + unat len"
    then obtain t pos' where "tlv_get_element buf pos m = Some (t, pos')" "pos < pos'" "tl_embedded t = []" "pos' + k \<le> length buf \<longrightarrow> readable k t"
      using get_element_safe [of pos m buf k] assms by auto
    then show "\<exists>r. map_option Some (tlv_get_element buf pos m) = Some r \<and>
        (case r of None \<Rightarrow> True | Some (t, pos') \<Rightarrow> pos < pos' \<and> tl_embedded t = [] \<and> (pos' \<le> data + unat len \<longrightarrow> readable k t))"
      using assms(1) by auto
  qed
  then show ?thesis unfolding ogs_tlv_parse_block_def by (rule parse_with_safe)
qed

end
