(* ===== verification/Ogs_Tlv_Msg.thy ===== *)
theory Ogs_Tlv_Msg
  imports Ogs_Tlv Ogs_Rbtree_Props
begin

text \<open>
  Messages of type-length-value elements: \<open>src/lib/core/ogs-tlv-msg.c\<close>. A descriptor says which elements a
  message structure has, in what order they lie in memory and how they are encoded. From it the
  generated code of GTP and PFCP builds packets of structures and parses packets into structures.

  The memory of a message maps addresses to presence words and to leaf values; the leaf of an element
  is at the address of its presence word. An address is an offset from the message. A leaf has an integer or a
  pointer with a length, as its descriptor says.
\<close>

datatype ogs_tlv_type_e =
  OGS_TLV_UINT8 | OGS_TLV_UINT16 | OGS_TLV_UINT24 | OGS_TLV_UINT32
| OGS_TLV_INT8 | OGS_TLV_INT16 | OGS_TLV_INT24 | OGS_TLV_INT32
| OGS_TLV_FIXED_STR | OGS_TLV_VAR_STR | OGS_TLV_NULL | OGS_TLV_MORE | OGS_TLV_COMPOUND | OGS_TLV_MESSAGE
| OGS_TV_UINT8 | OGS_TV_UINT16 | OGS_TV_UINT24 | OGS_TV_UINT32
| OGS_TV_INT8 | OGS_TV_INT16 | OGS_TV_INT24 | OGS_TV_INT32
| OGS_TV_FIXED_STR | OGS_TV_VAR_STR | OGS_TV_NULL | OGS_TV_MORE

datatype ogs_tlv_desc =
  Desc (d_ctype: ogs_tlv_type_e) (d_type: u16) (d_length: u16) (d_instance: u8) (d_vsize: u16)
       (d_children: "ogs_tlv_desc list")

record tlv_leaf =
  lf_int :: u32
  lf_data :: "bytes option"
  lf_len :: u32

record tlv_mem =
  tm_presence :: "nat \<Rightarrow> u64"
  tm_leaf :: "nat \<Rightarrow> tlv_leaf"

definition OGS_TLV_MAX_CHILD_DESC :: nat where
  "OGS_TLV_MAX_CHILD_DESC = 128"

text \<open>The size of a presence word.\<close>

definition PRESENCE_SIZE :: nat where
  "PRESENCE_SIZE = 8"

definition upd_leaf :: "nat \<Rightarrow> (tlv_leaf \<Rightarrow> tlv_leaf) \<Rightarrow> tlv_mem \<Rightarrow> tlv_mem" where
  "upd_leaf a f mem = mem\<lparr>tm_leaf := (tm_leaf mem)(a := f (tm_leaf mem a))\<rparr>"

definition set_presence :: "nat \<Rightarrow> tlv_mem \<Rightarrow> tlv_mem" where
  "set_presence a mem = mem\<lparr>tm_presence := (tm_presence mem)(a := 1)\<rparr>"

definition is_tv :: "ogs_tlv_type_e \<Rightarrow> bool" where
  "is_tv c \<longleftrightarrow> c \<in> {OGS_TV_UINT8, OGS_TV_UINT16, OGS_TV_UINT24, OGS_TV_UINT32, OGS_TV_INT8, OGS_TV_INT16, OGS_TV_INT24,
     OGS_TV_INT32, OGS_TV_FIXED_STR, OGS_TV_VAR_STR, OGS_TV_NULL, OGS_TV_MORE}"

definition tlv_ctype2mode :: "ogs_tlv_type_e \<Rightarrow> tlv_mode \<Rightarrow> tlv_mode" where
  "tlv_ctype2mode ctype msg_mode = (if is_tv ctype then OGS_TLV_MODE_T1 else msg_mode)"

text \<open>The cases of the switches on the type of a leaf: the number of octets of an integer.\<close>

definition int_octets :: "ogs_tlv_type_e \<Rightarrow> nat option" where
  "int_octets c =
     (if c \<in> {OGS_TLV_UINT8, OGS_TLV_INT8, OGS_TV_UINT8, OGS_TV_INT8} then Some 1
      else if c \<in> {OGS_TLV_UINT16, OGS_TLV_INT16, OGS_TV_UINT16, OGS_TV_INT16} then Some 2
      else if c \<in> {OGS_TLV_UINT24, OGS_TLV_INT24, OGS_TV_UINT24, OGS_TV_INT24} then Some 3
      else if c \<in> {OGS_TLV_UINT32, OGS_TLV_INT32, OGS_TV_UINT32, OGS_TV_INT32} then Some 4
      else None)"

section \<open>Building\<close>

text \<open>The conversion of an integer field to network order, in place, and the octets of the field as they lie in
  memory.\<close>

definition int_to_net :: "nat \<Rightarrow> u32 \<Rightarrow> u32" where
  "int_to_net n x =
     (if n = 1 then x
      else if n = 2 then ucast (bswap16 (ucast x))
      else if n = 3 then bswap32 (push_bit 8 x)
      else bswap32 x)"

definition int_memory :: "nat \<Rightarrow> u32 \<Rightarrow> bytes" where
  "int_memory n x = take n [ucast x, ucast (drop_bit 8 x), ucast (drop_bit 16 x), ucast (drop_bit 24 x)]"

record tlv_st =
  st_avail :: nat
  st_mem :: tlv_mem

text \<open>A node for an element: embedded in a parent, or added at the top. The list is the one it is
  appended to. An inner \<open>None\<close> is the error of the code, with the state it leaves behind.\<close>

definition tlv_append ::
  "bool \<Rightarrow> ogs_tlv_desc \<Rightarrow> tlv_mode \<Rightarrow> u32 \<Rightarrow> bytes option \<Rightarrow> ogs_tlv list \<Rightarrow> tlv_st \<Rightarrow> (ogs_tlv list \<times> tlv_st) option" where
  "tlv_append embedded desc mode len value ts st =
     do { (ts, avail) \<leftarrow>
            (if embedded
             then ogs_tlv_embed ts (tlv_ctype2mode (d_ctype desc) mode) (ucast (d_type desc)) len (d_instance desc) value (st_avail st)
             else ogs_tlv_add ts (tlv_ctype2mode (d_ctype desc) mode) (ucast (d_type desc)) len (d_instance desc) value (st_avail st));
          Some (ts, st\<lparr>st_avail := avail\<rparr>) }"

definition tlv_add_leaf ::
  "bool \<Rightarrow> ogs_tlv_desc \<Rightarrow> nat \<Rightarrow> tlv_mode \<Rightarrow> ogs_tlv list \<Rightarrow> tlv_st \<Rightarrow> (ogs_tlv list option \<times> tlv_st) option" where
  "tlv_add_leaf embedded desc msg msg_mode ts st =
     (let v = tm_leaf (st_mem st) msg;
          add = (\<lambda>len value st. map_option (\<lambda>(ts, st). (Some ts, st)) (tlv_append embedded desc msg_mode len value ts st))
      in case int_octets (d_ctype desc) of
           Some n \<Rightarrow>
             let x = int_to_net n (lf_int v)
             in add (of_nat n) (Some (int_memory n x)) (st\<lparr>st_mem := upd_leaf msg (\<lambda>v. v\<lparr>lf_int := x\<rparr>) (st_mem st)\<rparr>)
         | None \<Rightarrow>
             if d_ctype desc \<in> {OGS_TLV_FIXED_STR, OGS_TV_FIXED_STR} then add (ucast (d_length desc)) (lf_data v) st
             else if d_ctype desc = OGS_TLV_VAR_STR
             then (if lf_len v = 0 then Some (None, st) else add (lf_len v) (lf_data v) st)
             else if d_ctype desc \<in> {OGS_TLV_NULL, OGS_TV_NULL} then add 0 None st
             else Some (None, st))"

text \<open>An element that is present. The argument \<open>sub\<close> builds the elements of a compound.\<close>

definition tlv_add_present ::
  "(ogs_tlv_desc \<Rightarrow> nat \<Rightarrow> tlv_st \<Rightarrow> (ogs_tlv list option \<times> tlv_st) option) \<Rightarrow> bool \<Rightarrow> ogs_tlv_desc \<Rightarrow> nat \<Rightarrow> tlv_mode
     \<Rightarrow> ogs_tlv list \<Rightarrow> tlv_st \<Rightarrow> (ogs_tlv list option \<times> tlv_st) option" where
  "tlv_add_present sub embedded desc p mode ts st =
     (if d_ctype desc = OGS_TLV_COMPOUND
      then do { (ts, st) \<leftarrow> tlv_append embedded desc mode 0 None ts st;
                (r, st) \<leftarrow> sub desc (p + PRESENCE_SIZE) st;
                Some (case r of
                   None \<Rightarrow> (None, st)
                 | Some [] \<Rightarrow> (None, st)
                 | Some emb \<Rightarrow>
                     let t = last ts
                     in (Some (butlast ts @ [Tlv (tl_mode t) (tl_type t) (tl_length t) (tl_instance t) (tl_value t) emb]), st)) }
      else tlv_add_leaf embedded desc p mode ts st)"

text \<open>The loop over the elements of an array, \<open>n\<close> of which are left.\<close>

fun tlv_add_more ::
  "(ogs_tlv_desc \<Rightarrow> nat \<Rightarrow> tlv_st \<Rightarrow> (ogs_tlv list option \<times> tlv_st) option) \<Rightarrow> bool \<Rightarrow> ogs_tlv_desc \<Rightarrow> nat \<Rightarrow> nat \<Rightarrow> tlv_mode
     \<Rightarrow> ogs_tlv list \<Rightarrow> tlv_st \<Rightarrow> (ogs_tlv list option \<times> tlv_st) option" where
  "tlv_add_more sub embedded desc 0 p mode ts st = Some (Some ts, st)"
| "tlv_add_more sub embedded desc (Suc n) p mode ts st =
     (if tm_presence (st_mem st) p = 0 then Some (Some ts, st)
      else do { (r, st) \<leftarrow> tlv_add_present sub embedded desc p mode ts st;
                case r of None \<Rightarrow> Some (None, st)
                | Some ts \<Rightarrow> tlv_add_more sub embedded desc n (p + unat (d_vsize desc)) mode ts st })"

text \<open>The loop over the descriptors of the children.\<close>

fun tlv_add_children ::
  "(ogs_tlv_desc \<Rightarrow> nat \<Rightarrow> tlv_st \<Rightarrow> (ogs_tlv list option \<times> tlv_st) option) \<Rightarrow> bool \<Rightarrow> ogs_tlv_desc list \<Rightarrow> nat \<Rightarrow> tlv_mode
     \<Rightarrow> ogs_tlv list \<Rightarrow> tlv_st \<Rightarrow> (ogs_tlv list option \<times> tlv_st) option" where
  "tlv_add_children sub embedded [] p mode ts st = Some (Some ts, st)"
| "tlv_add_children sub embedded [desc] p mode ts st =
     (if tm_presence (st_mem st) p = 0 then Some (Some ts, st) else tlv_add_present sub embedded desc p mode ts st)"
| "tlv_add_children sub embedded (desc # next_desc # ds) p mode ts st =
     (if d_ctype next_desc = OGS_TLV_MORE
      then do { (r, st) \<leftarrow> tlv_add_more sub embedded desc (unat (d_length next_desc)) p mode ts st;
                case r of None \<Rightarrow> Some (None, st)
                | Some ts \<Rightarrow> tlv_add_children sub embedded ds (p + unat (d_vsize desc) * unat (d_length next_desc)) mode ts st }
      else do { (r, st) \<leftarrow> (if tm_presence (st_mem st) p = 0 then Some (Some ts, st)
                            else tlv_add_present sub embedded desc p mode ts st);
                case r of None \<Rightarrow> Some (None, st)
                | Some ts \<Rightarrow> tlv_add_children sub embedded (next_desc # ds) (p + unat (d_vsize desc)) mode ts st })"

text \<open>\<open>tlv_add_compound\<close>; the first argument is the number of levels left, \<open>9 - depth\<close>, as the code asserts
  that the depth is at most 8. The result is the list of nodes added.\<close>

fun tlv_add_compound ::
  "nat \<Rightarrow> bool \<Rightarrow> tlv_mode \<Rightarrow> ogs_tlv_desc \<Rightarrow> nat \<Rightarrow> tlv_st \<Rightarrow> (ogs_tlv list option \<times> tlv_st) option" where
  "tlv_add_compound 0 embedded mode desc p st = None"
| "tlv_add_compound (Suc n) embedded mode desc p st =
     tlv_add_children (tlv_add_compound n True mode) embedded (d_children desc) p mode [] st"

text \<open>\<open>ogs_tlv_build_msg\<close>: the octets of the packet, \<open>None\<close> for an error, and the state. \<open>alloc\<close> tells whether
  \<open>ogs_pkbuf_alloc\<close> gives a packet buffer of that size.\<close>

definition ogs_tlv_build_msg ::
  "(nat \<Rightarrow> bool) \<Rightarrow> ogs_tlv_desc \<Rightarrow> tlv_mode \<Rightarrow> tlv_st \<Rightarrow> (bytes option \<times> tlv_st) option" where
  "ogs_tlv_build_msg alloc desc mode st =
     do { ogs_assert (d_ctype desc = OGS_TLV_MESSAGE);
          if d_children desc = []
          then Some (if alloc 0 then Some [] else None, st)
          else do {
            (r, st) \<leftarrow> tlv_add_compound 9 False mode desc 0 st;
            case r of
              None \<Rightarrow> Some (None, st)
            | Some [] \<Rightarrow> Some (None, st)
            | Some root \<Rightarrow>
                let (len, root) = ogs_tlv_calc_length root
                in if \<not> alloc (unat len) then Some (None, st)
                   else do {
                     (buf, rendlen) \<leftarrow> ogs_tlv_render root (replicate (unat len) 0) 0 len;
                     if rendlen \<noteq> unat len then Some (None, st)
                     else Some (Some buf, st\<lparr>st_avail := ogs_tlv_free_all root (st_avail st)\<rparr>) } } }"

section \<open>Occurrence counters\<close>

text \<open>The red-black tree that counts how often a pair of type and instance has been seen; the node at an
  index of the array is the node of the tree at that address.\<close>

record tlv_counts =
  tc_tree :: rbtree
  tc_key :: "nat \<Rightarrow> u32"
  tc_count :: "nat \<Rightarrow> nat"
  tc_next :: nat

definition no_counts :: tlv_counts where
  "no_counts =
     \<lparr>tc_tree = \<lparr>rb_root = None, rb_mem = \<lambda>_. \<lparr>rb_parent = None, rb_left = None, rb_right = None, rb_color = OGS_RBTREE_BLACK\<rparr>\<rparr>,
      tc_key = \<lambda>_. 0, tc_count = \<lambda>_. 0, tc_next = 0\<rparr>"

definition count_key :: "u16 \<Rightarrow> u8 \<Rightarrow> u32" where
  "count_key type instnce = push_bit 8 (ucast type) OR ucast instnce"

text \<open>The descent: the node that is found, or the link where the key belongs.\<close>

partial_function (option) tlv_count_search ::
  "tlv_counts \<Rightarrow> u32 \<Rightarrow> nat option \<Rightarrow> (nat \<times> side) option \<Rightarrow> (nat + (nat \<times> side) option) option" where
  "tlv_count_search c key new link =
     (case new of
        None \<Rightarrow> Some (Inr link)
      | Some this \<Rightarrow>
          if key < tc_key c this then tlv_count_search c key (rb_left (rb_mem (tc_tree c) this)) (Some (this, Lft))
          else if key > tc_key c this then tlv_count_search c key (rb_right (rb_mem (tc_tree c) this)) (Some (this, Rgt))
          else Some (Inl this))"

declare tlv_count_search.simps [code]

definition tlv_count_node_find :: "tlv_counts \<Rightarrow> u16 \<Rightarrow> u8 \<Rightarrow> (nat option \<times> tlv_counts) option" where
  "tlv_count_node_find c type instnce =
     do { let key = count_key type instnce;
          r \<leftarrow> tlv_count_search c key (rb_root (tc_tree c)) None;
          case r of
            Inl this \<Rightarrow> Some (Some this, c)
          | Inr link \<Rightarrow>
              if tc_next c = OGS_TLV_MAX_CHILD_DESC then Some (None, c)
              else do {
                let this = tc_next c;
                tree \<leftarrow> ogs_rbtree_insert_color (ogs_rbtree_link_node this link (tc_tree c)) this;
                Some (Some this, c\<lparr>tc_tree := tree, tc_key := (tc_key c)(this := key),
                                   tc_count := (tc_count c)(this := 0), tc_next := tc_next c + 1\<rparr>) } }"

section \<open>Parsing\<close>

text \<open>\<open>tlv_find_desc_by_type_inst\<close>: the descriptor with its index and offset, \<open>None\<close> when there is none.\<close>

fun tlv_find_desc ::
  "ogs_tlv_desc list \<Rightarrow> nat \<Rightarrow> nat \<Rightarrow> ogs_tlv_desc option \<Rightarrow> nat \<Rightarrow> u16 \<Rightarrow> u8 \<Rightarrow> nat \<Rightarrow> (ogs_tlv_desc \<times> nat \<times> nat) option option" where
  "tlv_find_desc [] i offset prev match_i type instnce match_pos = Some None"
| "tlv_find_desc (desc # ds) i offset prev match_i type instnce match_pos =
     (if d_type desc = type \<and> d_instance desc = instnce \<and> match_i = match_pos then Some (Some (desc, i, offset))
      else do {
        let match_i = (if d_type desc = type \<and> d_instance desc = instnce then match_i + 1 else match_i);
        offset \<leftarrow>
          (if d_ctype desc = OGS_TLV_MORE
           then (case prev of
                   None \<Rightarrow> None
                 | Some p \<Rightarrow>
                     if d_ctype p = OGS_TLV_MORE then None
                     else Some (offset + unat (d_vsize p) * unat (d_length desc) - unat (d_vsize p)))
           else Some (offset + unat (d_vsize desc)));
        tlv_find_desc ds (i + 1) offset (Some desc) match_i type instnce match_pos })"

definition tlv_find_desc_by_type_inst ::
  "ogs_tlv_desc \<Rightarrow> u16 \<Rightarrow> u8 \<Rightarrow> u8 \<Rightarrow> (ogs_tlv_desc \<times> nat \<times> nat) option option" where
  "tlv_find_desc_by_type_inst parent_desc type instnce match_type_pos =
     tlv_find_desc (d_children parent_desc) 0 0 None 0 type instnce (unat match_type_pos)"

definition int_from_net :: "bytes \<Rightarrow> u32" where
  "int_from_net bs = foldl (\<lambda>x b. push_bit 8 x OR ucast b) 0 bs"

text \<open>\<open>tlv_parse_leaf\<close>: whether it succeeded, and the memory.\<close>

definition tlv_parse_leaf :: "nat \<Rightarrow> ogs_tlv_desc \<Rightarrow> ogs_tlv \<Rightarrow> tlv_mem \<Rightarrow> (bool \<times> tlv_mem) option" where
  "tlv_parse_leaf msg desc t mem =
     (case int_octets (d_ctype desc) of
        Some n \<Rightarrow>
          if tl_length t \<noteq> of_nat n then Some (False, mem)
          else do { bs \<leftarrow> value_octets (tl_value t) n;
                    Some (True, upd_leaf msg (\<lambda>v. v\<lparr>lf_int := int_from_net bs\<rparr>) mem) }
      | None \<Rightarrow>
          if d_ctype desc \<in> {OGS_TV_FIXED_STR, OGS_TLV_FIXED_STR}
          then (if tl_length t \<noteq> ucast (d_length desc) then Some (False, mem)
                else Some (True, upd_leaf msg (\<lambda>v. v\<lparr>lf_data := tl_value t, lf_len := tl_length t\<rparr>) mem))
          else if d_ctype desc = OGS_TLV_VAR_STR
          then Some (True, upd_leaf msg (\<lambda>v. v\<lparr>lf_data := tl_value t, lf_len := tl_length t\<rparr>) mem)
          else if d_ctype desc \<in> {OGS_TV_NULL, OGS_TLV_NULL} then Some (tl_length t = 0, mem)
          else Some (False, mem))"

record tlv_ps =
  ps_counts :: tlv_counts
  ps_mem :: tlv_mem
  ps_avail :: nat

text \<open>The first element of an array that is not present, of \<open>n\<close> elements.\<close>

fun tlv_free_slot :: "tlv_mem \<Rightarrow> nat \<Rightarrow> nat \<Rightarrow> nat \<Rightarrow> nat option" where
  "tlv_free_slot mem a vsize 0 = None"
| "tlv_free_slot mem a vsize (Suc n) = (if tm_presence mem a = 0 then Some a else tlv_free_slot mem (a + vsize) vsize n)"

definition next_more :: "ogs_tlv_desc list \<Rightarrow> nat \<Rightarrow> nat option" where
  "next_more ds i =
     (if i + 1 < length ds \<and> d_ctype (ds ! (i + 1)) = OGS_TLV_MORE then Some (unat (d_length (ds ! (i + 1)))) else None)"

definition embed_in :: "ogs_tlv \<Rightarrow> ogs_tlv list \<Rightarrow> ogs_tlv" where
  "embed_in t emb = Tlv (tl_mode t) (tl_type t) (tl_length t) (tl_instance t) (tl_value t) emb"

definition ogs_tlv_parse_embedded_block :: "ogs_tlv \<Rightarrow> tlv_mode \<Rightarrow> nat \<Rightarrow> (ogs_tlv list option \<times> nat) option" where
  "ogs_tlv_parse_embedded_block t mode avail =
     do { bs \<leftarrow> tl_value t; ogs_tlv_parse_block bs 0 (tl_length t) mode avail }"

text \<open>An element for a descriptor, at an address; \<open>sub\<close> parses the elements of a compound. The result is
  whether it succeeded, the node with its embedded nodes, and the state.\<close>

type_synonym tlv_sub = "ogs_tlv_desc \<Rightarrow> nat \<Rightarrow> ogs_tlv list \<Rightarrow> tlv_mem \<Rightarrow> nat \<Rightarrow> (bool \<times> ogs_tlv list \<times> tlv_mem \<times> nat) option"

definition tlv_parse_field ::
  "tlv_sub \<Rightarrow> ogs_tlv_desc \<Rightarrow> nat \<Rightarrow> tlv_mode \<Rightarrow> ogs_tlv \<Rightarrow> tlv_ps \<Rightarrow> (bool \<times> ogs_tlv \<times> tlv_ps) option" where
  "tlv_parse_field sub desc a mode t ps =
     (if d_ctype desc = OGS_TLV_COMPOUND
      then do { (r, avail) \<leftarrow> ogs_tlv_parse_embedded_block t mode (ps_avail ps);
                case r of
                  None \<Rightarrow> Some (False, t, ps\<lparr>ps_avail := avail\<rparr>)
                | Some emb \<Rightarrow>
                    do { (ok, emb, mem, avail) \<leftarrow> sub desc (a + PRESENCE_SIZE) emb (ps_mem ps) avail;
                         Some (ok, embed_in t emb, ps\<lparr>ps_mem := (if ok then set_presence a mem else mem), ps_avail := avail\<rparr>) } }
      else do { (ok, mem) \<leftarrow> tlv_parse_leaf a desc t (ps_mem ps);
                Some (ok, t, ps\<lparr>ps_mem := (if ok then set_presence a mem else mem)\<rparr>) })"

text \<open>One round of the loop of \<open>tlv_parse_compound\<close>.\<close>

definition tlv_parse_one ::
  "tlv_sub \<Rightarrow> ogs_tlv_desc \<Rightarrow> nat \<Rightarrow> tlv_mode \<Rightarrow> ogs_tlv \<Rightarrow> tlv_ps \<Rightarrow> (bool \<times> ogs_tlv \<times> tlv_ps) option" where
  "tlv_parse_one sub parent_desc p mode t ps =
     do { (node, counts) \<leftarrow> tlv_count_node_find (ps_counts ps) (ucast (tl_type t)) (tl_instance t);
          let ps = ps\<lparr>ps_counts := counts\<rparr>;
          case node of
            None \<Rightarrow> Some (False, t, ps)
          | Some node \<Rightarrow>
              do { r \<leftarrow> tlv_find_desc_by_type_inst parent_desc (ucast (tl_type t)) (tl_instance t) (of_nat (tc_count counts node));
                   case r of
                     None \<Rightarrow> Some (True, t, ps)
                   | Some (desc, i, offset) \<Rightarrow>
                       (case next_more (d_children parent_desc) i of
                          Some n \<Rightarrow>
                            (case tlv_free_slot (ps_mem ps) (p + offset) (unat (d_vsize desc)) n of
                               None \<Rightarrow> Some (True, t, ps)
                             | Some a \<Rightarrow> tlv_parse_field sub desc a mode t ps)
                        | None \<Rightarrow>
                            tlv_parse_field sub desc (p + offset) mode t
                              (ps\<lparr>ps_counts := counts\<lparr>tc_count := (tc_count counts)(node := tc_count counts node + 1)\<rparr>\<rparr>)) } }"

fun tlv_parse_list ::
  "tlv_sub \<Rightarrow> ogs_tlv_desc \<Rightarrow> nat \<Rightarrow> tlv_mode \<Rightarrow> ogs_tlv list \<Rightarrow> tlv_ps \<Rightarrow> (bool \<times> ogs_tlv list \<times> tlv_ps) option" where
  "tlv_parse_list sub parent_desc p mode [] ps = Some (True, [], ps)"
| "tlv_parse_list sub parent_desc p mode (t # ts) ps =
     do { (ok, t, ps) \<leftarrow> tlv_parse_one sub parent_desc p mode t ps;
          if \<not> ok then Some (False, t # ts, ps)
          else do { (ok, ts, ps) \<leftarrow> tlv_parse_list sub parent_desc p mode ts ps;
                    Some (ok, t # ts, ps) } }"

text \<open>\<open>tlv_parse_compound\<close>, with the number of levels left.\<close>

fun tlv_parse_compound :: "nat \<Rightarrow> tlv_mode \<Rightarrow> tlv_sub" where
  "tlv_parse_compound 0 mode desc p ts mem avail = None"
| "tlv_parse_compound (Suc n) mode desc p ts mem avail =
     do { (ok, ts, ps) \<leftarrow> tlv_parse_list (tlv_parse_compound n mode) desc p mode ts
            \<lparr>ps_counts = no_counts, ps_mem = mem, ps_avail = avail\<rparr>;
          Some (ok, ts, ps_mem ps, ps_avail ps) }"

text \<open>The rest of \<open>ogs_tlv_parse_msg\<close> and \<open>ogs_tlv_parse_msg_desc\<close>, after the first level has been parsed.\<close>

definition parse_msg_root ::
  "ogs_tlv_desc \<Rightarrow> tlv_mode \<Rightarrow> tlv_mem \<Rightarrow> ogs_tlv list option \<times> nat \<Rightarrow> (ogs_rv \<times> tlv_mem \<times> nat) option" where
  "parse_msg_root desc mode mem res =
     (case res of
        (None, avail) \<Rightarrow> Some (OGS_ERROR, mem, avail)
      | (Some root, avail) \<Rightarrow>
          do { (ok, root, mem, avail) \<leftarrow> tlv_parse_compound 9 mode desc 0 root mem avail;
               Some (if ok then OGS_OK else OGS_ERROR, mem, ogs_tlv_free_all root avail) })"

text \<open>The packet is its readable octets and its length.\<close>

definition ogs_tlv_parse_msg ::
  "ogs_tlv_desc \<Rightarrow> bytes \<Rightarrow> u32 \<Rightarrow> tlv_mode \<Rightarrow> tlv_mem \<Rightarrow> nat \<Rightarrow> (ogs_rv \<times> tlv_mem \<times> nat) option" where
  "ogs_tlv_parse_msg desc data len mode mem avail =
     do { ogs_assert (d_ctype desc = OGS_TLV_MESSAGE);
          ogs_assert (d_children desc \<noteq> []);
          res \<leftarrow> ogs_tlv_parse_block data 0 len mode avail;
          parse_msg_root desc mode mem res }"

definition parse_get_element_type :: "bytes \<Rightarrow> nat \<Rightarrow> tlv_mode \<Rightarrow> u16 option" where
  "parse_get_element_type buf pos mode =
     (case mode of
        OGS_TLV_MODE_T2_L2 \<Rightarrow> map_option ucast (buf_get16 buf pos)
      | _ \<Rightarrow> map_option ucast (buf_get buf pos))"

definition tlv_get_element_desc :: "bytes \<Rightarrow> nat \<Rightarrow> tlv_mode \<Rightarrow> ogs_tlv_desc \<Rightarrow> (ogs_tlv \<times> nat) option option" where
  "tlv_get_element_desc buf pos msg_mode desc =
     do { tlv_tag \<leftarrow> parse_get_element_type buf pos msg_mode;
          r \<leftarrow> tlv_find_desc_by_type_inst desc tlv_tag 0 0;
          case r of
            None \<Rightarrow> Some None
          | Some (tlv_desc, _, _) \<Rightarrow>
              let mode = tlv_ctype2mode (d_ctype tlv_desc) msg_mode
              in map_option Some
                   (if mode = OGS_TLV_MODE_T1 then tlv_get_element_fixed buf pos mode (ucast (d_length tlv_desc))
                    else tlv_get_element buf pos mode) }"

definition ogs_tlv_parse_block_desc ::
  "bytes \<Rightarrow> nat \<Rightarrow> u32 \<Rightarrow> tlv_mode \<Rightarrow> ogs_tlv_desc \<Rightarrow> nat \<Rightarrow> (ogs_tlv list option \<times> nat) option" where
  "ogs_tlv_parse_block_desc buf data len msg_mode desc avail =
     tlv_parse_with (\<lambda>pos. tlv_get_element_desc buf pos msg_mode desc) data (unat len) avail"

definition ogs_tlv_parse_msg_desc ::
  "ogs_tlv_desc \<Rightarrow> bytes \<Rightarrow> u32 \<Rightarrow> tlv_mode \<Rightarrow> tlv_mem \<Rightarrow> nat \<Rightarrow> (ogs_rv \<times> tlv_mem \<times> nat) option" where
  "ogs_tlv_parse_msg_desc desc data len msg_mode mem avail =
     do { ogs_assert (d_ctype desc = OGS_TLV_MESSAGE);
          ogs_assert (d_children desc \<noteq> []);
          res \<leftarrow> ogs_tlv_parse_block_desc data 0 len msg_mode desc avail;
          parse_msg_root desc msg_mode mem res }"

end
