(* ===== verification/Ogs_Tlv_Safe.thy ===== *)
theory Ogs_Tlv_Safe
  imports Ogs_Tlv_Msg
begin

text \<open>
  The parser of messages on any input: the occurrence counters refine a map, and for a well-formed
  descriptor the parser returns and gives all nodes back, whatever the packet contains.
\<close>

section \<open>The counters as a map\<close>

definition counts_ok :: "tlv_counts \<Rightarrow> bool" where
  "counts_ok c \<longleftrightarrow> (\<exists>T. repr (tc_tree c) [] T \<and> rb_ok T \<and> set (inord T) = {..<tc_next c}
     \<and> sorted_wrt (<) (map (tc_key c) (inord T))) \<and> tc_next c \<le> OGS_TLV_MAX_CHILD_DESC"

definition count_keys :: "tlv_counts \<Rightarrow> u32 set" where
  "count_keys c = tc_key c ` {..<tc_next c}"

definition count_of :: "tlv_counts \<Rightarrow> u32 \<Rightarrow> nat" where
  "count_of c key = (\<Sum>n | n < tc_next c \<and> tc_key c n = key. tc_count c n)"

lemma counts_inj:
  assumes "counts_ok c"
  shows "inj_on (tc_key c) {..<tc_next c}"
proof -
  obtain T where T: "set (inord T) = {..<tc_next c}" "sorted_wrt (<) (map (tc_key c) (inord T))"
    using assms by (auto simp: counts_ok_def)
  have "distinct (map (tc_key c) (inord T))" using T(2) strict_sorted_iff by blast
  then show ?thesis using T(1) by (simp add: distinct_map)
qed

lemma count_of_node:
  assumes "counts_ok c" "n < tc_next c"
  shows "count_of c (tc_key c n) = tc_count c n"
proof -
  have "{m. m < tc_next c \<and> tc_key c m = tc_key c n} = {n}"
    using counts_inj [OF assms(1)] assms(2) by (auto simp: inj_on_def)
  then show ?thesis by (simp add: count_of_def)
qed

lemma count_of_absent: "key \<notin> count_keys c \<Longrightarrow> count_of c key = 0"
  unfolding count_of_def count_keys_def by (intro sum.neutral) auto

lemma count_keys_card: "counts_ok c \<Longrightarrow> card (count_keys c) = tc_next c"
  using counts_inj card_image [of "tc_key c" "{..<tc_next c}"] by (simp add: count_keys_def)

lemma no_counts_ok [simp]: "counts_ok no_counts" "count_keys no_counts = {}" "count_of no_counts key = 0"
proof -
  have "repr (tc_tree no_counts) [] Lf" "rb_ok Lf" by (simp_all add: no_counts_def repr_def rb_ok_def)
  then show "counts_ok no_counts"
    unfolding counts_ok_def by (intro conjI exI [of _ Lf]) (simp_all add: no_counts_def)
qed (simp_all add: count_keys_def count_of_def no_counts_def)

lemma count_search_ok:
  assumes "is_tree (rb_mem (tc_tree c)) p t" "sorted_wrt (<) (map (tc_key c) (inord t))"
  shows "(\<exists>n\<in>set (inord t). tc_key c n = key \<and> tlv_count_search c key (ptr t) (link_of k) = Some (Inl n))
    \<or> (\<exists>k'. tlv_count_search c key (ptr t) (link_of k) = Some (Inr (link_of k')) \<and> plug k' Lf = plug k t
        \<and> (\<forall>n\<in>set (inord t). tc_key c n \<noteq> key)
        \<and> cpre k' = cpre k @ filter (\<lambda>n. tc_key c n < key) (inord t) \<and> cpost k' = filter (\<lambda>n. key < tc_key c n) (inord t) @ cpost k)"
  using assms
proof (induction t arbitrary: k p)
  case Lf
  then show ?case by (intro disjI2 exI [of _ k]) (simp add: tlv_count_search.simps)
next
  case (Nd col l x r)
  have srt: "sorted_wrt (<) (map (tc_key c) (inord l))" "sorted_wrt (<) (map (tc_key c) (inord r))"
    "\<forall>y\<in>set (inord l). tc_key c y < tc_key c x" "\<forall>y\<in>set (inord r). tc_key c x < tc_key c y"
    using Nd.prems(2) by (auto simp: sorted_wrt_append)
  have m: "rb_left (rb_mem (tc_tree c) x) = ptr l" "rb_right (rb_mem (tc_tree c) x) = ptr r"
    and sub: "is_tree (rb_mem (tc_tree c)) (Some x) l" "is_tree (rb_mem (tc_tree c)) (Some x) r"
    using Nd.prems(1) by auto
  consider "key < tc_key c x" | "tc_key c x < key" | "tc_key c x = key" by (meson linorder_less_linear)
  then show ?case
  proof cases
    case 1
    have "filter (\<lambda>n. tc_key c n < key) (inord r) = []" "filter (\<lambda>n. key < tc_key c n) (inord r) = inord r"
      "\<forall>n\<in>set (inord r). tc_key c n \<noteq> key"
      using 1 srt(4) by (fastforce simp: filter_empty_conv filter_id_conv)+
    then show ?thesis using Nd.IH(1) [OF sub(1) srt(1), of "Fr Lft col x r # k"] 1 m
      by (auto simp: tlv_count_search.simps [of c key "Some x"] link_of_def nd_def)
  next
    case 2
    have "filter (\<lambda>n. tc_key c n < key) (inord l) = inord l" "filter (\<lambda>n. key < tc_key c n) (inord l) = []"
      "\<forall>n\<in>set (inord l). tc_key c n \<noteq> key"
      using 2 srt(3) by (fastforce simp: filter_empty_conv filter_id_conv)+
    moreover have "\<not> key < tc_key c x" "tc_key c x \<noteq> key" using 2 by auto
    ultimately show ?thesis using Nd.IH(2) [OF sub(2) srt(2), of "Fr Rgt col x l # k"] 2 m
      by (auto simp: tlv_count_search.simps [of c key "Some x"] link_of_def nd_def)
  next
    case 3
    then show ?thesis by (intro disjI1 bexI [of _ x]) (simp_all add: tlv_count_search.simps)
  qed
qed

definition count_up :: "nat \<Rightarrow> tlv_counts \<Rightarrow> tlv_counts" where
  "count_up node c = c\<lparr>tc_count := (tc_count c)(node := tc_count c node + 1)\<rparr>"

lemma count_up_ok:
  assumes "counts_ok c" "node < tc_next c" "tc_key c node = key"
  shows "counts_ok (count_up node c)" "count_keys (count_up node c) = count_keys c"
    "count_of (count_up node c) = (count_of c)(key := count_of c key + 1)"
proof -
  show ok: "counts_ok (count_up node c)" using assms(1) by (simp add: counts_ok_def count_up_def)
  show "count_keys (count_up node c) = count_keys c" by (simp add: count_keys_def count_up_def)
  show "count_of (count_up node c) = (count_of c)(key := count_of c key + 1)"
  proof
    fix k
    show "count_of (count_up node c) k = ((count_of c)(key := count_of c key + 1)) k"
    proof (cases "k = key")
      case True
      then show ?thesis using count_of_node [OF assms(1,2)] count_of_node [OF ok, of node] assms(2,3) by (simp add: count_up_def)
    next
      case False
      then show ?thesis using assms(3) unfolding count_of_def count_up_def by (auto intro!: sum.cong)
    qed
  qed
qed

text \<open>The node of a key, new when there was none; \<open>None\<close> when the array is full.\<close>

lemma count_find_ok:
  fixes ty :: u16 and i :: u8
  defines "key \<equiv> count_key ty i"
  assumes "counts_ok c"
  shows "(\<exists>node c'. tlv_count_node_find c ty i = Some (Some node, c') \<and> counts_ok c' \<and> node < tc_next c' \<and> tc_key c' node = key
      \<and> count_keys c' = insert key (count_keys c) \<and> count_of c' = count_of c)
    \<or> tlv_count_node_find c ty i = Some (None, c) \<and> key \<notin> count_keys c \<and> tc_next c = OGS_TLV_MAX_CHILD_DESC"
proof -
  obtain T where T: "repr (tc_tree c) [] T" "rb_ok T" "set (inord T) = {..<tc_next c}" "sorted_wrt (<) (map (tc_key c) (inord T))"
    using assms(2) by (auto simp: counts_ok_def)
  have root: "rb_root (tc_tree c) = ptr T" using T(1) repr_root_ptr by blast
  have keys: "count_keys c = tc_key c ` set (inord T)" using T(3) by (simp add: count_keys_def)
  have "is_tree (rb_mem (tc_tree c)) None T" using T(1) by (simp add: repr_def)
  note srch = count_search_ok [OF this T(4), of key "[]"]
  have "link_of [] = None" by (simp add: link_of_def)
  with srch consider
    (old) n where "n \<in> set (inord T)" "tc_key c n = key" "tlv_count_search c key (ptr T) None = Some (Inl n)"
  | (new) k where "tlv_count_search c key (ptr T) None = Some (Inr (link_of k))" "plug k Lf = T" "\<forall>n\<in>set (inord T). tc_key c n \<noteq> key"
      "cpre k = filter (\<lambda>n. tc_key c n < key) (inord T)" "cpost k = filter (\<lambda>n. key < tc_key c n) (inord T)"
    by (auto simp: Bex_def)
  then show ?thesis
  proof cases
    case old
    then have "tlv_count_node_find c ty i = Some (Some n, c)"
      using root by (simp add: tlv_count_node_find_def key_def)
    moreover have "key \<in> count_keys c" "n < tc_next c" using old keys T(3) by auto
    ultimately show ?thesis using old(2) assms(2) by (metis insert_absorb)
  next
    case new
    have fresh: "key \<notin> count_keys c" using new(3) keys by auto
    show ?thesis
    proof (cases "tc_next c = OGS_TLV_MAX_CHILD_DESC")
      case True
      then show ?thesis using new(1) root fresh by (simp add: tlv_count_node_find_def key_def)
    next
      case False
      let ?n = "tc_next c"
      have "repr (tc_tree c) k Lf" using T(1) new(2) repr_root by metis
      moreover have ctx: "?n \<notin> set (ctx_addrs k)"
        using T(3) inord_plug [of k Lf] ctx_addrs_set [of k] new(2) by (auto simp: set_eq_iff)
      ultimately obtain tree T' where 1: "ogs_rbtree_insert_color (ogs_rbtree_link_node ?n (link_of k) (tc_tree c)) ?n = Some tree"
        "repr tree [] T'" "inord T' = cpre k @ ?n # cpost k" "rb_ok T'" using insert_ok T(2) new(2) by metis
      let ?c = "c\<lparr>tc_tree := tree, tc_key := (tc_key c)(?n := key), tc_count := (tc_count c)(?n := 0), tc_next := ?n + 1\<rparr>"
      have find: "tlv_count_node_find c ty i = Some (Some ?n, ?c)"
        using new(1) root False 1(1) by (simp add: tlv_count_node_find_def key_def Let_def)
      have nn: "?n \<notin> set (inord T)" using T(3) by auto
      have same: "map (tc_key ?c) (filter P (inord T)) = map (tc_key c) (filter P (inord T))" for P using nn by auto
      have "set (filter (\<lambda>n. tc_key c n < key) (inord T)) \<union> set (filter (\<lambda>n. key < tc_key c n) (inord T)) = {..<?n}"
      proof -
        have "tc_key c n < key \<or> key < tc_key c n" if "n \<in> set (inord T)" for n using new(3) that by (meson linorder_less_linear)
        then have "set (filter (\<lambda>n. tc_key c n < key) (inord T)) \<union> set (filter (\<lambda>n. key < tc_key c n) (inord T)) = set (inord T)" by auto
        then show ?thesis using T(3) by simp
      qed
      then have "set (inord T') = {..<?n + 1}" unfolding 1(3) new(4,5) set_append list.set Un_insert_right by (simp add: lessThan_Suc)
      moreover have "sorted_wrt (<) (map (tc_key ?c) (inord T'))"
        unfolding 1(3) new(4,5) map_append list.map same
        using T(4) nn by (auto simp: sorted_wrt_append sorted_wrt_map sorted_wrt_filter)
      ultimately have ok: "counts_ok ?c"
        using 1(2,4) False assms(2) unfolding counts_ok_def by (auto simp: OGS_TLV_MAX_CHILD_DESC_def)
      have ks: "count_keys ?c = insert key (count_keys c)" by (auto simp: count_keys_def less_Suc_eq)
      have "count_of ?c k = count_of c k" for k
      proof -
        have "count_of ?c k = (\<Sum>n | n < ?n \<and> tc_key c n = k. tc_count c n)"
          unfolding count_of_def by (intro sum.mono_neutral_cong_right) (auto simp: less_Suc_eq)
        then show ?thesis by (simp add: count_of_def)
      qed
      then show ?thesis using find ok ks by (intro disjI1 exI [of _ ?n] exI [of _ ?c]) (simp add: fun_eq_iff)
    qed
  qed
qed

text \<open>What the parser relies on: a tally of keys, of which only so many different ones have room. A query is
  the key as the caller gives it.\<close>

locale tally =
  fixes ok :: "'s \<Rightarrow> bool" and code :: "'q \<Rightarrow> 'k" and find :: "'s \<Rightarrow> 'q \<Rightarrow> ('n option \<times> 's) option" and up :: "'n \<Rightarrow> 's \<Rightarrow> 's"
    and at_key :: "'s \<Rightarrow> 'n \<Rightarrow> 'k \<Rightarrow> bool" and got :: "'s \<Rightarrow> 'n \<Rightarrow> nat" and keys :: "'s \<Rightarrow> 'k set" and count :: "'s \<Rightarrow> 'k \<Rightarrow> nat" and room :: nat
  assumes find_law: "ok c \<Longrightarrow> (\<exists>n c'. find c q = Some (Some n, c') \<and> ok c' \<and> at_key c' n (code q)
        \<and> keys c' = insert (code q) (keys c) \<and> count c' = count c)
      \<or> find c q = Some (None, c) \<and> code q \<notin> keys c \<and> card (keys c) = room"
    and up_law: "ok c \<Longrightarrow> at_key c n k \<Longrightarrow> ok (up n c) \<and> keys (up n c) = keys c \<and> count (up n c) = (count c)(k := count c k + 1)"
    and got_law: "ok c \<Longrightarrow> at_key c n k \<Longrightarrow> got c n = count c k"
begin

lemma find_room:
  assumes "ok c" "keys c \<subseteq> K" "finite K" "card K < room" "code q \<in> K"
  shows "\<exists>n c'. find c q = Some (Some n, c') \<and> ok c' \<and> at_key c' n (code q) \<and> got c' n = count c (code q)
    \<and> keys c' \<subseteq> K \<and> count c' = count c"
proof -
  have "card (keys c) < room" using card_mono [OF assms(3,2)] assms(4) by simp
  then obtain n c' where "find c q = Some (Some n, c')" "ok c'" "at_key c' n (code q)" "keys c' = insert (code q) (keys c)" "count c' = count c"
    using find_law [OF assms(1), of q] by auto
  then show ?thesis using got_law [of c' n "code q"] assms(2,5) by auto
qed

end

interpretation cnt: tally counts_ok "\<lambda>(ty, i). count_key ty i" "\<lambda>c (ty, i). tlv_count_node_find c ty i" count_up
  "\<lambda>c n k. n < tc_next c \<and> tc_key c n = k" tc_count count_keys count_of OGS_TLV_MAX_CHILD_DESC
proof unfold_locales
  fix c and q :: "u16 \<times> u8"
  assume ok: "counts_ok c"
  obtain ty i where q: "q = (ty, i)" by (cases q)
  show "(\<exists>n c'. (case q of (ty, i) \<Rightarrow> tlv_count_node_find c ty i) = Some (Some n, c') \<and> counts_ok c'
        \<and> (n < tc_next c' \<and> tc_key c' n = (case q of (ty, i) \<Rightarrow> count_key ty i))
        \<and> count_keys c' = insert (case q of (ty, i) \<Rightarrow> count_key ty i) (count_keys c) \<and> count_of c' = count_of c)
      \<or> (case q of (ty, i) \<Rightarrow> tlv_count_node_find c ty i) = Some (None, c) \<and> (case q of (ty, i) \<Rightarrow> count_key ty i) \<notin> count_keys c
        \<and> card (count_keys c) = OGS_TLV_MAX_CHILD_DESC"
    using count_find_ok [OF ok, of ty i] count_keys_card [OF ok] unfolding q by auto
next
  fix c n k
  assume "counts_ok c" "n < tc_next c \<and> tc_key c n = k"
  then show "counts_ok (count_up n c) \<and> count_keys (count_up n c) = count_keys c \<and> count_of (count_up n c) = (count_of c)(k := count_of c k + 1)"
    using count_up_ok by blast
next
  fix c n k
  assume "counts_ok c" "n < tc_next c \<and> tc_key c n = k"
  then show "tc_count c n = count_of c k" using count_of_node by auto
qed

section \<open>Well-formed descriptors\<close>

text \<open>The marks for arrays stand behind elements, and compounds nest at most \<open>n\<close> levels deep.\<close>

fun more_seq :: "bool \<Rightarrow> ogs_tlv_desc list \<Rightarrow> bool" where
  "more_seq b [] \<longleftrightarrow> True"
| "more_seq b (d # ds) \<longleftrightarrow> (if d_ctype d = OGS_TLV_MORE then b \<and> more_seq False ds else more_seq True ds)"

fun desc_nest :: "nat \<Rightarrow> ogs_tlv_desc \<Rightarrow> bool" where
  "desc_nest 0 d \<longleftrightarrow> False"
| "desc_nest (Suc n) d \<longleftrightarrow>
     more_seq False (d_children d) \<and> (\<forall>c\<in>set (d_children d). d_ctype c = OGS_TLV_COMPOUND \<longrightarrow> desc_nest n c)"

lemma find_desc_total:
  assumes "more_seq b ds" "b \<Longrightarrow> \<exists>p. prev = Some p \<and> d_ctype p \<noteq> OGS_TLV_MORE"
  shows "\<exists>r. tlv_find_desc ds i offset prev mi ty ins mp = Some r \<and> (\<forall>d j off. r = Some (d, j, off) \<longrightarrow> d \<in> set ds)"
  using assms
proof (induction ds arbitrary: b i offset prev mi)
  case (Cons d ds)
  define mi' where "mi' = (if d_type d = ty \<and> d_instance d = ins then mi + 1 else mi)"
  have step: "\<exists>r. tlv_find_desc ds (i + 1) off (Some d) mi' ty ins mp = Some r \<and> (\<forall>d' j off. r = Some (d', j, off) \<longrightarrow> d' \<in> set ds)" for off
  proof -
    have "more_seq (d_ctype d \<noteq> OGS_TLV_MORE) ds" using Cons.prems(1) by (auto split: if_splits)
    then show ?thesis by (rule Cons.IH) simp
  qed
  show ?case
  proof (cases "d_type d = ty \<and> d_instance d = ins \<and> mi = mp")
    case True
    then show ?thesis by simp
  next
    case False
    obtain off where off: "(if d_ctype d = OGS_TLV_MORE
        then (case prev of None \<Rightarrow> None | Some p \<Rightarrow> if d_ctype p = OGS_TLV_MORE then None
                else Some (offset + unat (d_vsize p) * unat (d_length d) - unat (d_vsize p)))
        else Some (offset + unat (d_vsize d))) = Some off"
      using Cons.prems by (auto split: if_splits)
    obtain r where "tlv_find_desc ds (i + 1) off (Some d) mi' ty ins mp = Some r" "\<forall>d' j off. r = Some (d', j, off) \<longrightarrow> d' \<in> set ds"
      using step by blast
    then show ?thesis
      unfolding tlv_find_desc.simps if_not_P [OF False] mi'_def by (intro exI [of _ r]) (simp del: One_nat_def add: off)
  qed
qed simp

section \<open>Any packet\<close>

text \<open>What the parser of a compound gives: it returns and has as many nodes as before, on the list or free.\<close>

definition nodes_kept :: "ogs_tlv list \<Rightarrow> nat \<Rightarrow> (bool \<times> ogs_tlv list \<times> tlv_mem \<times> nat) option \<Rightarrow> bool" where
  "nodes_kept ts avail res \<longleftrightarrow> (\<exists>ok ts' mem avail'. res = Some (ok, ts', mem, avail') \<and> avail' + tlv_nodes ts' = avail + tlv_nodes ts)"

lemma tlv_nodes_Cons: "tlv_nodes (t # ts) = tlv_nodes [t] + tlv_nodes ts" "tlv_nodes [embed_in t emb] = tlv_nodes emb + 1"
  by (cases t; simp add: embed_in_def)+

lemma int_octets_range: "int_octets c = Some n \<Longrightarrow> n \<in> {1, 2, 3, 4}"
  by (auto simp: int_octets_def split: if_splits)

lemma parse_leaf_total:
  assumes "readable k t"
  shows "\<exists>ok mem'. tlv_parse_leaf a desc t mem = Some (ok, mem')"
proof (cases "int_octets (d_ctype desc)")
  case None
  then have "tlv_parse_leaf a desc t mem \<noteq> None" by (auto simp: tlv_parse_leaf_def)
  then show ?thesis by auto
next
  case (Some n)
  obtain bs where bs: "tl_value t = Some bs" "unat (tl_length t) \<le> length bs" using assms by (auto simp: readable_def)
  have "unat (of_nat n :: u32) = n" using int_octets_range [OF Some] by auto
  then have "tl_length t = of_nat n \<Longrightarrow> value_octets (tl_value t) n = Some (take n bs)" using bs by (auto simp: value_octets_def)
  then have "tlv_parse_leaf a desc t mem \<noteq> None" using Some by (auto simp: tlv_parse_leaf_def)
  then show ?thesis by auto
qed

definition sub_safe :: "nat \<Rightarrow> ogs_tlv_desc list \<Rightarrow> tlv_sub \<Rightarrow> bool" where
  "sub_safe k ds sub \<longleftrightarrow> (\<forall>desc p ts mem avail. desc \<in> set ds \<and> d_ctype desc = OGS_TLV_COMPOUND \<and> (\<forall>t\<in>set ts. readable k t)
     \<longrightarrow> nodes_kept ts avail (sub desc p ts mem avail))"

lemma parse_field_safe:
  assumes "readable k t" "tlv_header_len mode \<le> k"
    and "sub_safe k ds sub" "desc \<in> set ds"
  shows "\<exists>ok t' ps'. tlv_parse_field sub desc a mode t ps = Some (ok, t', ps')
    \<and> ps_avail ps' + tlv_nodes [t'] = ps_avail ps + tlv_nodes [t] \<and> ps_counts ps' = ps_counts ps"
proof (cases "d_ctype desc = OGS_TLV_COMPOUND")
  case False
  then show ?thesis using parse_leaf_total [OF assms(1), of a desc "ps_mem ps"] by (auto simp: tlv_parse_field_def)
next
  case True
  obtain bs where bs: "tl_value t = Some bs" "unat (tl_length t) + k \<le> length bs" "tl_embedded t = []"
    using assms(1) by (auto simp: readable_def)
  obtain r avail where 1: "ogs_tlv_parse_block bs 0 (tl_length t) mode (ps_avail ps) = Some (r, avail)" "parse_result k (ps_avail ps) (r, avail)"
    using parse_block_safe [of 0 "tl_length t" k bs mode "ps_avail ps"] bs(2) assms(2) by auto
  have t: "tlv_nodes [t] = 1" using bs(3) by (cases t) simp
  show ?thesis
  proof (cases r)
    case None
    then show ?thesis using True 1 bs(1) t by (auto simp: tlv_parse_field_def ogs_tlv_parse_embedded_block_def parse_result_def)
  next
    case (Some emb)
    then have e: "\<forall>t\<in>set emb. readable k t" "avail + length emb = ps_avail ps" using 1(2) by (auto simp: parse_result_def)
    have n: "tlv_nodes emb = length emb" using e(1) by (intro tlv_nodes_flat) (auto simp: readable_def)
    obtain ok emb' mem avail' where 2: "sub desc (a + PRESENCE_SIZE) emb (ps_mem ps) avail = Some (ok, emb', mem, avail')"
      "avail' + tlv_nodes emb' = avail + tlv_nodes emb" using assms(3,4) True e(1) unfolding sub_safe_def nodes_kept_def by metis
    then show ?thesis using True 1(1) bs(1) Some e(2) n t
      by (simp add: tlv_parse_field_def ogs_tlv_parse_embedded_block_def tlv_nodes_Cons(2))
  qed
qed

lemma parse_one_safe:
  assumes "readable k t" "tlv_header_len mode \<le> k" "counts_ok (ps_counts ps)" "more_seq False (d_children parent)"
    and "sub_safe k (d_children parent) sub"
  shows "\<exists>ok t' ps'. tlv_parse_one sub parent p mode t ps = Some (ok, t', ps')
    \<and> ps_avail ps' + tlv_nodes [t'] = ps_avail ps + tlv_nodes [t] \<and> counts_ok (ps_counts ps')"
proof -
  let ?ty = "ucast (tl_type t) :: u16" and ?i = "tl_instance t"
  consider (full) "tlv_count_node_find (ps_counts ps) ?ty ?i = Some (None, ps_counts ps)"
    | (node) node c where "tlv_count_node_find (ps_counts ps) ?ty ?i = Some (Some node, c)" "counts_ok c" "node < tc_next c"
    using count_find_ok [OF assms(3)] by blast
  then show ?thesis
  proof cases
    case full
    then show ?thesis using assms(3) by (auto simp: tlv_parse_one_def)
  next
    case node
    obtain r where r: "tlv_find_desc_by_type_inst parent ?ty ?i (of_nat (tc_count c node)) = Some r"
      "\<forall>d j off. r = Some (d, j, off) \<longrightarrow> d \<in> set (d_children parent)"
      unfolding tlv_find_desc_by_type_inst_def using find_desc_total [OF assms(4)] by blast
    have up: "counts_ok (c\<lparr>tc_count := (tc_count c)(node := tc_count c node + 1)\<rparr>)"
      using count_up_ok(1) [OF node(2,3) refl] by (simp add: count_up_def)
    show ?thesis
    proof (cases r)
      case None
      then show ?thesis using node r(1) by (auto simp: tlv_parse_one_def)
    next
      case (Some q)
      obtain d j off where q: "q = (d, j, off)" by (cases q)
      have d: "d \<in> set (d_children parent)" using r(2) Some q by blast
      have field: "\<exists>ok t' ps''. tlv_parse_field sub d a mode t ps' = Some (ok, t', ps'')
          \<and> ps_avail ps'' + tlv_nodes [t'] = ps_avail ps' + tlv_nodes [t] \<and> ps_counts ps'' = ps_counts ps'" for a ps'
        using parse_field_safe [OF assms(1,2,5) d] .
      show ?thesis
      proof (cases "next_more (d_children parent) j")
        case None
        then show ?thesis
          using node(1) r(1) Some q up field [of "p + off" "ps\<lparr>ps_counts := c\<lparr>tc_count := (tc_count c)(node := tc_count c node + 1)\<rparr>\<rparr>"]
          by (auto simp: tlv_parse_one_def)
      next
        case more: (Some n)
        show ?thesis
        proof (cases "tlv_free_slot (ps_mem ps) (p + off) (unat (d_vsize d)) n")
          case None
          then show ?thesis using more node r(1) Some q by (auto simp: tlv_parse_one_def)
        next
          case (Some a)
          then show ?thesis using more node r(1) \<open>r = Some q\<close> q field [of a "ps\<lparr>ps_counts := c\<rparr>"] by (auto simp: tlv_parse_one_def)
        qed
      qed
    qed
  qed
qed

lemma parse_list_safe:
  assumes "\<forall>t\<in>set ts. readable k t" "tlv_header_len mode \<le> k" "counts_ok (ps_counts ps)" "more_seq False (d_children parent)"
    and "sub_safe k (d_children parent) sub"
  shows "\<exists>ok ts' ps'. tlv_parse_list sub parent p mode ts ps = Some (ok, ts', ps')
    \<and> ps_avail ps' + tlv_nodes ts' = ps_avail ps + tlv_nodes ts"
  using assms(1,3)
proof (induction ts arbitrary: ps)
  case (Cons t ts)
  obtain ok t' ps1 where 1: "tlv_parse_one sub parent p mode t ps = Some (ok, t', ps1)"
    "ps_avail ps1 + tlv_nodes [t'] = ps_avail ps + tlv_nodes [t]" "counts_ok (ps_counts ps1)"
    using parse_one_safe [OF _ assms(2) Cons.prems(2) assms(4,5), of t p] Cons.prems(1) by auto
  obtain ok2 ts' ps2 where 2: "tlv_parse_list sub parent p mode ts ps1 = Some (ok2, ts', ps2)"
    "ps_avail ps2 + tlv_nodes ts' = ps_avail ps1 + tlv_nodes ts"
    using Cons.IH [OF _ 1(3)] Cons.prems(1) by auto
  note n = tlv_nodes_Cons(1) [of t ts] tlv_nodes_Cons(1) [of t' ts] tlv_nodes_Cons(1) [of t' ts']
  show ?case
  proof (cases ok)
    case True
    then have "tlv_parse_list sub parent p mode (t # ts) ps = Some (ok2, t' # ts', ps2)" using 1(1) 2(1) by simp
    then show ?thesis using 1(2) 2(2) n by auto
  next
    case False
    then have "tlv_parse_list sub parent p mode (t # ts) ps = Some (False, t' # ts, ps1)" using 1(1) by simp
    then show ?thesis using 1(2) n by auto
  qed
qed auto

lemma parse_compound_safe:
  assumes "desc_nest n desc" "tlv_header_len mode \<le> k" "\<forall>t\<in>set ts. readable k t"
  shows "nodes_kept ts avail (tlv_parse_compound n mode desc p ts mem avail)"
  using assms
proof (induction n arbitrary: desc p ts mem avail)
  case (Suc n)
  have "\<exists>ok ts' ps'. tlv_parse_list (tlv_parse_compound n mode) desc p mode ts \<lparr>ps_counts = no_counts, ps_mem = mem, ps_avail = avail\<rparr> = Some (ok, ts', ps')
      \<and> ps_avail ps' + tlv_nodes ts' = ps_avail \<lparr>ps_counts = no_counts, ps_mem = mem, ps_avail = avail\<rparr> + tlv_nodes ts"
    using Suc by (intro parse_list_safe [where k = k]) (auto simp: sub_safe_def)
  then show ?case by (auto simp: nodes_kept_def)
qed simp

lemma parse_root_safe:
  assumes "desc_nest 9 desc" "tlv_header_len mode \<le> k" "parse_result k avail res"
  shows "\<exists>rv mem'. parse_msg_root desc mode mem res = Some (rv, mem', avail)"
proof -
  obtain r avail1 where res: "res = (r, avail1)" by (cases res)
  show ?thesis
  proof (cases r)
    case None
    then show ?thesis using assms(3) by (simp add: parse_msg_root_def parse_result_def res)
  next
    case (Some ts)
    then have ts: "\<forall>t\<in>set ts. readable k t" "avail1 + length ts = avail" using assms(3) by (auto simp: parse_result_def res)
    have "tlv_nodes ts = length ts" using ts(1) by (intro tlv_nodes_flat) (auto simp: readable_def)
    then show ?thesis
      using parse_compound_safe [OF assms(1,2) ts(1), of avail1 0 mem] ts(2) Some
      by (auto simp: nodes_kept_def parse_msg_root_def res ogs_tlv_free_all_def)
  qed
qed

lemma header_len_pos: "0 < tlv_header_len m" "tlv_header_len m \<le> 4"
  by (cases m; simp add: tlv_header_len_def)+

lemma element_type_total: "pos + tlv_header_len m \<le> length buf \<Longrightarrow> \<exists>ty. parse_get_element_type buf pos m = Some ty"
  by (cases m) (auto simp: parse_get_element_type_def buf_get16_def buf_get_def tlv_header_len_def)

lemma get_element_fixed_safe:
  assumes "pos < length buf"
  shows "\<exists>t pos'. tlv_get_element_fixed buf pos OGS_TLV_MODE_T1 len = Some (t, pos') \<and> pos < pos' \<and> tl_embedded t = []
    \<and> (pos' + k \<le> length buf \<longrightarrow> readable k t)"
  using assms by (auto simp: tlv_get_element_fixed_def buf_get_def tlv_element_def readable_def)

lemma parse_block_desc_safe:
  assumes "data + unat len + 4 \<le> length buf" "more_seq False (d_children desc)"
  shows "\<exists>res. ogs_tlv_parse_block_desc buf data len mode desc avail = Some res \<and> parse_result 4 avail res"
proof -
  have "reader_ok 4 (data + unat len) (\<lambda>pos. tlv_get_element_desc buf pos mode desc)"
    unfolding reader_ok_def
  proof (intro allI impI)
    fix pos
    assume pos: "pos \<le> data + unat len"
    obtain ty where ty: "parse_get_element_type buf pos mode = Some ty"
      using element_type_total [of pos mode buf] pos assms(1) header_len_pos(2) [of mode] by auto
    obtain r where r: "tlv_find_desc_by_type_inst desc ty 0 0 = Some r"
      unfolding tlv_find_desc_by_type_inst_def using find_desc_total [OF assms(2)] by blast
    show "\<exists>r. tlv_get_element_desc buf pos mode desc = Some r \<and>
        (case r of None \<Rightarrow> True | Some (t, pos') \<Rightarrow> pos < pos' \<and> tl_embedded t = [] \<and> (pos' \<le> data + unat len \<longrightarrow> readable 4 t))"
    proof (cases r)
      case None
      then show ?thesis using ty r by (simp add: tlv_get_element_desc_def)
    next
      case (Some q)
      obtain d i off where q: "q = (d, i, off)" by (cases q)
      let ?m = "tlv_ctype2mode (d_ctype d) mode"
      have "\<exists>t pos'. (if ?m = OGS_TLV_MODE_T1 then tlv_get_element_fixed buf pos ?m (ucast (d_length d)) else tlv_get_element buf pos ?m) = Some (t, pos')
          \<and> pos < pos' \<and> tl_embedded t = [] \<and> (pos' + 4 \<le> length buf \<longrightarrow> readable 4 t)"
      proof (cases "?m = OGS_TLV_MODE_T1")
        case True
        then show ?thesis using get_element_fixed_safe [of pos buf "ucast (d_length d)" 4] pos assms(1) by simp
      next
        case False
        then show ?thesis using get_element_safe [of pos ?m buf 4] pos assms(1) header_len_pos(2) [of ?m] by auto
      qed
      then obtain t pos' where "(if ?m = OGS_TLV_MODE_T1 then tlv_get_element_fixed buf pos ?m (ucast (d_length d)) else tlv_get_element buf pos ?m) = Some (t, pos')"
        "pos < pos'" "tl_embedded t = []" "pos' + 4 \<le> length buf \<longrightarrow> readable 4 t" by blast
      then show ?thesis using ty r Some q assms(1) by (intro exI [of _ "Some (t, pos')"]) (simp add: tlv_get_element_desc_def Let_def)
    qed
  qed
  then show ?thesis unfolding ogs_tlv_parse_block_desc_def by (rule parse_with_safe)
qed

end
