(* ===== verification/Ogs_Tlv_Value.thy ===== *)
theory Ogs_Tlv_Value
  imports Ogs_Tlv_Safe
begin

text \<open>
  What a message structure says, apart from where it lies in memory: for every element of its descriptor
  the list of the values that are present. The octets of a message are a function of its values; the
  relation \<open>holds_fields\<close> tells which values the memory holds.
\<close>

datatype fval = FInt u32 | FStr bytes | FNull | FComp "fval list list"

section \<open>The layout of a structure\<close>

text \<open>The elements of a list of descriptors, with address, number of places, and whether an array mark follows.\<close>

type_synonym field = "ogs_tlv_desc \<times> nat \<times> nat \<times> bool"

fun fields :: "ogs_tlv_desc list \<Rightarrow> nat \<Rightarrow> field list" where
  "fields [] p = []"
| "fields [d] p = [(d, p, 1, False)]"
| "fields (d # e # ds) p =
     (if d_ctype e = OGS_TLV_MORE
      then (d, p, unat (d_length e), True) # fields ds (p + unat (d_vsize d) * unat (d_length e))
      else (d, p, 1, False) # fields (e # ds) (p + unat (d_vsize d)))"

definition field_descs :: "ogs_tlv_desc list \<Rightarrow> ogs_tlv_desc list" where
  "field_descs ds = map fst (fields ds 0)"

fun laid :: "field list \<Rightarrow> nat \<Rightarrow> nat \<Rightarrow> bool" where
  "laid [] p e \<longleftrightarrow> p = e"
| "laid ((d, a, c, b) # fs) p e \<longleftrightarrow> a = p \<and> laid fs (p + unat (d_vsize d) * c) e"

definition region :: "ogs_tlv_desc list \<Rightarrow> nat" where
  "region ds = (\<Sum>(d, a, c, b) \<leftarrow> fields ds 0. unat (d_vsize d) * c)"

lemma fields_shift: "fields ds (p + q) = map (\<lambda>(d, a, c, b). (d, a + q, c, b)) (fields ds p)"
proof (induction ds p rule: fields.induct)
  case (3 d e ds p)
  then show ?case by (cases "d_ctype e = OGS_TLV_MORE") (simp_all add: algebra_simps)
qed simp_all

lemma fields_descs: "map fst (fields ds p) = field_descs ds"
  using fields_shift [of ds 0 p] by (simp add: field_descs_def case_prod_unfold comp_def)

lemma laid_sum: "laid fs p e \<Longrightarrow> e = p + (\<Sum>(d, a, c, b) \<leftarrow> fs. unat (d_vsize d) * c)"
  by (induction fs p e rule: laid.induct) auto

lemma laid_fields_ex: "\<exists>e. laid (fields ds p) p e"
proof (induction ds p rule: fields.induct)
  case (3 d e ds p)
  then show ?case by (cases "d_ctype e = OGS_TLV_MORE") simp_all
qed simp_all

lemma laid_fields: "laid (fields ds p) p (p + region ds)"
proof -
  obtain e where "laid (fields ds p) p e" using laid_fields_ex by blast
  moreover have "(\<Sum>(d, a, c, b) \<leftarrow> fields ds p. unat (d_vsize d) * c) = region ds"
    using fields_shift [of ds 0 p] by (simp add: region_def case_prod_unfold comp_def)
  ultimately show ?thesis using laid_sum by metis
qed

lemma laid_le: "laid fs p e \<Longrightarrow> p \<le> e"
  using laid_sum by fastforce

lemma field_single: "(d, a, c, b) \<in> set (fields ds p) \<Longrightarrow> \<not> b \<Longrightarrow> c = 1"
proof (induction ds p rule: fields.induct)
  case (3 x e ds p)
  then show ?case by (cases "d_ctype e = OGS_TLV_MORE") auto
qed auto

lemma next_more_Suc [simp]: "next_more (x # ds) (Suc j) = next_more ds j"
  by (simp add: next_more_def)

section \<open>Well-formed descriptors\<close>

definition desc_key :: "ogs_tlv_desc \<Rightarrow> u16 \<times> u8" where
  "desc_key d = (d_type d, d_instance d)"

text \<open>Array marks have type and instance 0 and at least one place; elements have the length-value form, keys of
  their own, and structures large enough for their members.\<close>

fun desc_wf :: "nat \<Rightarrow> ogs_tlv_desc \<Rightarrow> bool" where
  "desc_wf 0 d \<longleftrightarrow> False"
| "desc_wf (Suc n) d \<longleftrightarrow>
     more_seq False (d_children d) \<and> length (d_children d) < OGS_TLV_MAX_CHILD_DESC
     \<and> distinct (map desc_key (field_descs (d_children d)))
     \<and> (\<forall>c\<in>set (d_children d).
          if d_ctype c = OGS_TLV_MORE then desc_key c = (0, 0) \<and> d_length c \<noteq> 0
          else \<not> is_tv (d_ctype c) \<and> d_ctype c \<noteq> OGS_TLV_MESSAGE \<and> desc_key c \<noteq> (0, 0)
            \<and> (if d_ctype c = OGS_TLV_COMPOUND then desc_wf n c \<and> PRESENCE_SIZE + region (d_children c) \<le> unat (d_vsize c)
               else d_vsize c \<noteq> 0))"

definition field_wf :: "nat \<Rightarrow> ogs_tlv_desc \<Rightarrow> bool" where
  "field_wf n c \<longleftrightarrow> \<not> is_tv (d_ctype c) \<and> d_ctype c \<noteq> OGS_TLV_MESSAGE \<and> d_ctype c \<noteq> OGS_TLV_MORE \<and> desc_key c \<noteq> (0, 0)
     \<and> (if d_ctype c = OGS_TLV_COMPOUND then desc_wf n c \<and> PRESENCE_SIZE + region (d_children c) \<le> unat (d_vsize c)
        else d_vsize c \<noteq> 0)"

lemma field_in: "(d, a, c, b) \<in> set (fields ds p) \<Longrightarrow> d \<in> set ds"
proof (induction ds p rule: fields.induct)
  case (3 x e ds p)
  then show ?case by (cases "d_ctype e = OGS_TLV_MORE") auto
qed auto

lemma field_not_more: "more_seq v ds \<Longrightarrow> (v \<Longrightarrow> ds = [] \<or> d_ctype (hd ds) \<noteq> OGS_TLV_MORE) \<Longrightarrow> (d, a, c, b) \<in> set (fields ds p) \<Longrightarrow> d_ctype d \<noteq> OGS_TLV_MORE"
proof (induction ds p arbitrary: v rule: fields.induct)
  case (2 x p)
  then show ?case by (auto split: if_splits)
next
  case (3 x e ds p)
  have x: "d_ctype x \<noteq> OGS_TLV_MORE" using 3(3,4) by (auto split: if_splits)
  show ?case
  proof (cases "d_ctype e = OGS_TLV_MORE")
    case True
    then show ?thesis using 3(1) [OF True, of False] 3(3,5) x by auto
  next
    case False
    then show ?thesis using 3(2) [OF False, of True] 3(3,5) x by auto
  qed
qed simp

lemma desc_wf_fields:
  assumes "desc_wf (Suc n) d" "(c, a, k, b) \<in> set (fields (d_children d) p)"
  shows "field_wf n c"
proof -
  have "more_seq False (d_children d)" using assms(1) by simp
  then have "d_ctype c \<noteq> OGS_TLV_MORE" using field_not_more [of False] assms(2) by blast
  then show ?thesis using assms field_in [OF assms(2)] by (auto simp: field_wf_def)
qed

lemma field_wf_size: "field_wf n d \<Longrightarrow> 0 < unat (d_vsize d)"
  by (auto simp: field_wf_def PRESENCE_SIZE_def unat_gt_0 split: if_splits)

section \<open>Values in memory\<close>

definition is_str :: "ogs_tlv_desc \<Rightarrow> nat \<Rightarrow> bool" where
  "is_str d n \<longleftrightarrow> (if d_ctype d = OGS_TLV_FIXED_STR then n = unat (d_length d) else d_ctype d = OGS_TLV_VAR_STR \<and> 0 < n)"

fun holds_val :: "tlv_mem \<Rightarrow> ogs_tlv_desc \<Rightarrow> nat \<Rightarrow> fval \<Rightarrow> bool"
and holds_occs :: "tlv_mem \<Rightarrow> ogs_tlv_desc \<Rightarrow> nat \<Rightarrow> nat \<Rightarrow> fval list \<Rightarrow> bool"
and holds_fields :: "tlv_mem \<Rightarrow> field list \<Rightarrow> fval list list \<Rightarrow> bool" where
  "holds_val mem d a (FInt x) \<longleftrightarrow>
     (case int_octets (d_ctype d) of None \<Rightarrow> False | Some n \<Rightarrow> unat x < 256 ^ n) \<and> lf_int (tm_leaf mem a) = x"
| "holds_val mem d a (FStr bs) \<longleftrightarrow>
     is_str d (length bs) \<and> unat (lf_len (tm_leaf mem a)) = length bs \<and> value_octets (lf_data (tm_leaf mem a)) (length bs) = Some bs"
| "holds_val mem d a FNull \<longleftrightarrow> d_ctype d = OGS_TLV_NULL"
| "holds_val mem d a (FComp vs) \<longleftrightarrow>
     d_ctype d = OGS_TLV_COMPOUND \<and> holds_fields mem (fields (d_children d) (a + PRESENCE_SIZE)) vs \<and> concat vs \<noteq> []"
| "holds_occs mem d a c [] \<longleftrightarrow> c = 0 \<or> tm_presence mem a = 0"
| "holds_occs mem d a c (w # ws) \<longleftrightarrow>
     c \<noteq> 0 \<and> tm_presence mem a \<noteq> 0 \<and> holds_val mem d a w \<and> holds_occs mem d (a + unat (d_vsize d)) (c - 1) ws"
| "holds_fields mem fs [] \<longleftrightarrow> fs = []"
| "holds_fields mem fs (ws # vs) \<longleftrightarrow>
     (case fs of [] \<Rightarrow> False | (d, a, c, b) # fs \<Rightarrow> holds_occs mem d a c ws \<and> holds_fields mem fs vs)"

text \<open>Memory that is the same in a range of addresses.\<close>

definition same_on :: "nat \<Rightarrow> nat \<Rightarrow> tlv_mem \<Rightarrow> tlv_mem \<Rightarrow> bool" where
  "same_on lo hi m m' \<longleftrightarrow> (\<forall>x. lo \<le> x \<and> x < hi \<longrightarrow> tm_presence m' x = tm_presence m x \<and> tm_leaf m' x = tm_leaf m x)"

lemma same_on_sub: "same_on lo hi m m' \<Longrightarrow> lo \<le> lo' \<Longrightarrow> hi' \<le> hi \<Longrightarrow> same_on lo' hi' m m'"
  by (auto simp: same_on_def)

lemma same_on_trans: "same_on lo hi m1 m2 \<Longrightarrow> same_on lo hi m2 m3 \<Longrightarrow> same_on lo hi m1 m3"
  by (auto simp: same_on_def)

lemma same_on_refl [simp]: "same_on lo hi m m"
  by (simp add: same_on_def)

text \<open>Values of a descriptor that stay when their memory does.\<close>

definition frames :: "tlv_mem \<Rightarrow> tlv_mem \<Rightarrow> ogs_tlv_desc \<Rightarrow> bool" where
  "frames m m' d \<longleftrightarrow> 0 < unat (d_vsize d)
     \<and> (\<forall>a v. holds_val m d a v \<longrightarrow> same_on a (a + unat (d_vsize d)) m m' \<longrightarrow> holds_val m' d a v)"

lemma frame_occs_if:
  assumes "frames m m' d" "holds_occs m d a c ws" "same_on a (a + unat (d_vsize d) * c) m m'"
  shows "holds_occs m' d a c ws"
  using assms(2,3)
proof (induction ws arbitrary: a c)
  case Nil
  then show ?case using assms(1) by (auto simp: same_on_def frames_def)
next
  case (Cons w ws)
  then obtain c' where c: "c = Suc c'" by (cases c) auto
  have s: "same_on a (a + unat (d_vsize d)) m m'" "same_on (a + unat (d_vsize d)) (a + unat (d_vsize d) + unat (d_vsize d) * c') m m'"
    using Cons.prems(2) by (auto simp: c intro: same_on_sub)
  moreover have "tm_presence m' a = tm_presence m a" using s(1) assms(1) by (auto simp: same_on_def frames_def)
  ultimately show ?case using Cons c assms(1) by (auto simp: frames_def)
qed

lemma frame_fields_if:
  assumes "\<forall>f\<in>set fs. frames m m' (fst f)" "laid fs p e" "holds_fields m fs vs" "same_on p e m m'"
  shows "holds_fields m' fs vs"
  using assms
proof (induction fs arbitrary: p vs)
  case Nil
  then show ?case by (cases vs) auto
next
  case (Cons f fs)
  obtain d a c b where f: "f = (d, a, c, b)" by (cases f)
  obtain ws vs' where vs: "vs = ws # vs'" using Cons.prems(3) by (cases vs) (auto simp: f)
  have l: "a = p" "laid fs (p + unat (d_vsize d) * c) e" using Cons.prems(2) by (simp_all add: f)
  have le: "p + unat (d_vsize d) * c \<le> e" using laid_le [OF l(2)] .
  have h: "holds_occs m d a c ws" "holds_fields m fs vs'" using Cons.prems(3) by (simp_all add: f vs)
  have "holds_occs m' d a c ws"
    using frame_occs_if [of m m' d a c ws] Cons.prems(1) h(1) same_on_sub [OF Cons.prems(4), of a "a + unat (d_vsize d) * c"] l(1) le by (simp add: f)
  moreover have "holds_fields m' fs vs'"
    using Cons.IH [OF _ l(2) h(2)] Cons.prems(1) same_on_sub [OF Cons.prems(4), of "p + unat (d_vsize d) * c" e] by simp
  ultimately show ?case by (simp add: f vs)
qed

lemma frame_val:
  assumes "field_wf n d"
  shows "frames m m' d"
  using assms
proof (induction n arbitrary: d)
  case 0
  have "tm_leaf m' a = tm_leaf m a" if "same_on a (a + unat (d_vsize d)) m m'" for a
    using that field_wf_size [OF 0] by (auto simp: same_on_def)
  then have "holds_val m' d a v" if "holds_val m d a v" "same_on a (a + unat (d_vsize d)) m m'" for a v
    using that 0 by (cases v) (auto simp: field_wf_def)
  then show ?case using field_wf_size [OF 0] by (simp add: frames_def)
next
  case (Suc n)
  have "holds_val m' d a v" if h: "holds_val m d a v" "same_on a (a + unat (d_vsize d)) m m'" for a v
  proof (cases v)
    case (FComp vs)
    then have c: "d_ctype d = OGS_TLV_COMPOUND" "holds_fields m (fields (d_children d) (a + PRESENCE_SIZE)) vs" "concat vs \<noteq> []"
      using h(1) by auto
    have w: "desc_wf (Suc n) d" "PRESENCE_SIZE + region (d_children d) \<le> unat (d_vsize d)"
      using Suc.prems c(1) by (auto simp: field_wf_def)
    have sub: "\<forall>f\<in>set (fields (d_children d) (a + PRESENCE_SIZE)). frames m m' (fst f)"
      using desc_wf_fields [OF w(1)] Suc.IH by (metis prod.collapse)
    have "holds_fields m' (fields (d_children d) (a + PRESENCE_SIZE)) vs"
      using frame_fields_if [OF sub laid_fields c(2)] w(2)
        same_on_sub [OF h(2), of "a + PRESENCE_SIZE" "a + PRESENCE_SIZE + region (d_children d)"] by simp
    then show ?thesis using FComp c by simp
  qed (use h field_wf_size [OF Suc.prems] in \<open>auto simp: same_on_def\<close>)
  then show ?case using field_wf_size [OF Suc.prems] by (simp add: frames_def)
qed

lemma frame_occs:
  assumes "field_wf n d" "holds_occs m d a c ws" "same_on a (a + unat (d_vsize d) * c) m m'"
  shows "holds_occs m' d a c ws"
  using frame_occs_if [OF frame_val] assms by blast

lemma frame_fields:
  assumes "\<forall>f\<in>set fs. field_wf n (fst f)" "laid fs p e" "holds_fields m fs vs" "same_on p e m m'"
  shows "holds_fields m' fs vs"
  using frame_fields_if [of fs m m'] frame_val assms by blast

end
