(* ===== verification/Ogs_Tlv_Build.thy ===== *)
theory Ogs_Tlv_Build
  imports Ogs_Tlv_Value
begin

text \<open>
  Building: the elements a structure of values stands for, as a function of the values alone, and the proof
  that the loops over the descriptors produce elements of the same octets.
\<close>

section \<open>Integers in network order\<close>

lemma int_memory_net:
  assumes "n \<in> {1, 2, 3, 4}"
  shows "int_memory n (int_to_net n x) = drop (4 - n) (be_bytes32 x)"
proof -
  have 2: "ucast (ucast (bswap16 (ucast x)) :: u32) = (ucast (drop_bit 8 x) :: u8)"
    "ucast (drop_bit 8 (ucast (bswap16 (ucast x)) :: u32)) = (ucast x :: u8)"
    by (rule bit_word_eqI; auto simp: bswap16_def bit_simps)+
  have 3: "ucast (bswap32 (push_bit 8 x)) = (ucast (drop_bit 16 x) :: u8)"
    "ucast (drop_bit 8 (bswap32 (push_bit 8 x))) = (ucast (drop_bit 8 x) :: u8)"
    "ucast (drop_bit 16 (bswap32 (push_bit 8 x))) = (ucast x :: u8)"
    by (rule bit_word_eqI; auto simp: bit_bswap32 bit_simps add.commute)+
  have 4: "ucast (bswap32 x) = (ucast (drop_bit 24 x) :: u8)" "ucast (drop_bit 8 (bswap32 x)) = (ucast (drop_bit 16 x) :: u8)"
    "ucast (drop_bit 16 (bswap32 x)) = (ucast (drop_bit 8 x) :: u8)" "ucast (drop_bit 24 (bswap32 x)) = (ucast x :: u8)"
    by (rule bit_word_eqI; auto simp: bit_bswap32 bit_simps add.commute)+
  consider "n = 1" | "n = 2" | "n = 3" | "n = 4" using assms by auto
  then show ?thesis by cases (simp_all add: int_memory_def int_to_net_def be_bytes32_def 2 3 4)
qed

lemma int_from_zero: "int_from_net (0 # bs) = int_from_net bs"
  by (simp add: int_from_net_def)

lemma int_from_be:
  assumes "n \<in> {1, 2, 3, 4}" "unat x < 256 ^ n"
  shows "int_from_net (drop (4 - n) (be_bytes32 x)) = x"
proof -
  have "(256 :: nat) ^ n = 2 ^ (8 * n)" by (simp add: power_mult)
  then have "take_bit (8 * n) x = x" using assms(2) by (intro take_bit_small) simp
  then have up: "\<not> bit x k" if "8 * n \<le> k" for k using that by (metis bit_take_bit_iff not_le)
  have zero: "(ucast (drop_bit k x) :: u8) = 0" if "8 * n \<le> k" for k
    using up that by (intro bit_word_eqI) (auto simp: bit_simps)
  have whole: "int_from_net (be_bytes32 x) = x"
    using be_word32_bytes [of x] by (simp add: int_from_net_def be_bytes32_def be_word32_def push_bit_or push_bit_push_bit or.assoc)
  consider "n = 1" | "n = 2" | "n = 3" | "n = 4" using assms by auto
  then show ?thesis using whole zero [of 8] zero [of 16] zero [of 24] by cases (simp_all add: be_bytes32_def int_from_zero)
qed

text \<open>The accessors read integers in network order.\<close>

lemma octet_masks:
  fixes b :: u8
  shows "push_bit 24 (ucast b :: u32) AND 0xff000000 = push_bit 24 (ucast b)" "push_bit 16 (ucast b :: u32) AND 0x00ff0000 = push_bit 16 (ucast b)"
    "push_bit 8 (ucast b :: u32) AND 0x0000ff00 = push_bit 8 (ucast b)" "(ucast b :: u32) AND 0x000000ff = ucast b"
proof -
  have m: "(0xff000000 :: u32) = push_bit 24 (mask 8)" "(0x00ff0000 :: u32) = push_bit 16 (mask 8)"
    "(0x0000ff00 :: u32) = push_bit 8 (mask 8)" "(0x000000ff :: u32) = mask 8" by (simp_all add: mask_eq_exp_minus_1 push_bit_eq_mult)
  show "push_bit 24 (ucast b :: u32) AND 0xff000000 = push_bit 24 (ucast b)" "push_bit 16 (ucast b :: u32) AND 0x00ff0000 = push_bit 16 (ucast b)"
    "push_bit 8 (ucast b :: u32) AND 0x0000ff00 = push_bit 8 (ucast b)" "(ucast b :: u32) AND 0x000000ff = ucast b"
    unfolding m by (rule bit_word_eqI; auto simp: bit_simps dest: bit_imp_le_length)+
qed

lemma value_32_be: "tl_value t = Some (be_bytes32 x @ bs) \<Longrightarrow> ogs_tlv_value_32 t = Some x"
  using be_word32_bytes [of x]
  by (simp add: ogs_tlv_value_32_def buf_get_def be_bytes32_def octet_masks be_word32_def del: be_word32_bytes)

lemma value_16_be: "tl_value t = Some (be_bytes16 x @ bs) \<Longrightarrow> ogs_tlv_value_16 t = Some x"
proof -
  assume t: "tl_value t = Some (be_bytes16 x @ bs)"
  have "ogs_tlv_value_16 t = Some (ucast (push_bit 8 (ucast (ucast (drop_bit 8 x) :: u8)) OR ucast (ucast x :: u8) :: u32))"
    using t by (simp add: ogs_tlv_value_16_def buf_get_def be_bytes16_def octet_masks)
  also have "(ucast (push_bit 8 (ucast (ucast (drop_bit 8 x) :: u8)) OR ucast (ucast x :: u8) :: u32) :: u16) = x"
  proof (rule bit_word_eqI)
    fix n
    assume "n < LENGTH(16)"
    then consider "n < 8" | "8 \<le> n" "n < 16" by fastforce
    then show "bit (ucast (push_bit 8 (ucast (ucast (drop_bit 8 x) :: u8)) OR ucast (ucast x :: u8) :: u32) :: u16) n = bit x n"
      by cases (auto simp: bit_simps)
  qed
  finally show ?thesis .
qed

section \<open>The elements of a message\<close>

fun enc_val :: "tlv_mode \<Rightarrow> ogs_tlv_desc \<Rightarrow> fval \<Rightarrow> ogs_tlv"
and enc_occs :: "tlv_mode \<Rightarrow> ogs_tlv_desc \<Rightarrow> fval list \<Rightarrow> ogs_tlv list"
and enc_fields :: "tlv_mode \<Rightarrow> ogs_tlv_desc list \<Rightarrow> fval list list \<Rightarrow> ogs_tlv list" where
  "enc_val m d (FInt x) =
     (let n = the (int_octets (d_ctype d))
      in Tlv m (ucast (d_type d)) (of_nat n) (d_instance d) (Some (drop (4 - n) (be_bytes32 x))) [])"
| "enc_val m d (FStr bs) = Tlv m (ucast (d_type d)) (of_nat (length bs)) (d_instance d) (Some bs) []"
| "enc_val m d FNull = Tlv m (ucast (d_type d)) 0 (d_instance d) None []"
| "enc_val m d (FComp vs) = Tlv m (ucast (d_type d)) 0 (d_instance d) None (enc_fields m (field_descs (d_children d)) vs)"
| "enc_occs m d [] = []"
| "enc_occs m d (w # ws) = enc_val m d w # enc_occs m d ws"
| "enc_fields m ds [] = []"
| "enc_fields m ds (ws # vs) = (case ds of [] \<Rightarrow> [] | d # ds \<Rightarrow> enc_occs m d ws @ enc_fields m ds vs)"

text \<open>Lists of elements with the same octets.\<close>

definition alike :: "ogs_tlv list \<Rightarrow> ogs_tlv list \<Rightarrow> bool" where
  "alike ts us \<longleftrightarrow> wire ts = wire us \<and> values_ok ts \<and> tlv_nodes ts = tlv_nodes us \<and> length ts = length us"

lemma wire_append [simp]: "wire (ts @ us) = wire ts @ wire us"
  by (induction ts rule: wire.induct) (simp_all add: Let_def)

lemma values_ok_append [simp]: "values_ok (ts @ us) \<longleftrightarrow> values_ok ts \<and> values_ok us"
  by (induction ts rule: values_ok.induct) simp_all

lemma alike_append: "alike ts us \<Longrightarrow> alike ts' us' \<Longrightarrow> alike (ts @ ts') (us @ us')"
  by (simp add: alike_def)

lemma alike_Nil [simp]: "alike [] []"
  by (simp add: alike_def)

lemma alike_embed:
  assumes "alike emb us" "us \<noteq> []"
  shows "alike [Tlv m ty len i v emb] [Tlv m ty len' i v' us]"
  using assms by (cases emb) (auto simp: alike_def)

section \<open>The loops\<close>

text \<open>Memory that is the same outside of a range of addresses.\<close>

definition untouched :: "nat \<Rightarrow> nat \<Rightarrow> tlv_mem \<Rightarrow> tlv_mem \<Rightarrow> bool" where
  "untouched lo hi m m' \<longleftrightarrow> (\<forall>x. x < lo \<or> hi \<le> x \<longrightarrow> tm_presence m' x = tm_presence m x \<and> tm_leaf m' x = tm_leaf m x)"

lemma untouched_refl [simp]: "untouched lo hi m m"
  by (simp add: untouched_def)

lemma untouched_mono: "untouched lo hi m m' \<Longrightarrow> lo' \<le> lo \<Longrightarrow> hi \<le> hi' \<Longrightarrow> untouched lo' hi' m m'"
  unfolding untouched_def by (meson less_le_trans order_trans)

lemma untouched_trans: "untouched lo mid m1 m2 \<Longrightarrow> untouched mid hi m2 m3 \<Longrightarrow> lo \<le> mid \<Longrightarrow> mid \<le> hi \<Longrightarrow> untouched lo hi m1 m3"
  unfolding untouched_def by auto

lemma untouched_same: "untouched lo hi m m' \<Longrightarrow> hi \<le> a \<or> b \<le> lo \<Longrightarrow> same_on a b m m'"
  unfolding untouched_def same_on_def by auto

text \<open>A call that appends elements like the given ones.\<close>

definition add_ok :: "(ogs_tlv list option \<times> tlv_st) option \<Rightarrow> ogs_tlv list \<Rightarrow> ogs_tlv list \<Rightarrow> tlv_st \<Rightarrow> nat \<Rightarrow> nat \<Rightarrow> bool" where
  "add_ok res ts us st lo hi \<longleftrightarrow> (\<exists>new st'. res = Some (Some (ts @ new), st') \<and> alike new us
     \<and> st_avail st' + tlv_nodes us = st_avail st \<and> untouched lo hi (st_mem st) (st_mem st'))"

lemma append_node: "0 < st_avail st \<Longrightarrow> len = 0 \<or> v \<noteq> None \<Longrightarrow> tlv_append e d mode len v ts st
    = Some (ts @ [Tlv (tlv_ctype2mode (d_ctype d) mode) (ucast (d_type d)) len (d_instance d) v []], st\<lparr>st_avail := st_avail st - 1\<rparr>)"
  by (auto simp: tlv_append_def ogs_tlv_embed_def ogs_tlv_add_def)

lemma append_no_node: "st_avail st = 0 \<Longrightarrow> tlv_append e d mode len v ts st = None"
  by (auto simp: tlv_append_def ogs_tlv_embed_def ogs_tlv_add_def)

lemma add_leaf_ok:
  assumes "field_wf n d" "holds_val (st_mem st) d a v" "d_ctype d \<noteq> OGS_TLV_COMPOUND" "0 < st_avail st"
  shows "add_ok (tlv_add_leaf e d a m ts st) ts [enc_val m d v] st a (a + unat (d_vsize d))"
proof -
  have sz: "0 < unat (d_vsize d)" and mode: "tlv_ctype2mode (d_ctype d) m = m"
    using field_wf_size [OF assms(1)] assms(1) by (auto simp: tlv_ctype2mode_def field_wf_def)
  show ?thesis
  proof (cases v)
    case (FInt x)
    then obtain k where k: "int_octets (d_ctype d) = Some k" "lf_int (tm_leaf (st_mem st) a) = x"
      using assms(2) by (auto split: option.splits)
    have k4: "k \<in> {1, 2, 3, 4}" using int_octets_range [OF k(1)] .
    then have l: "unat (of_nat k :: u32) = k" "length (drop (4 - k) (be_bytes32 x)) = k" by auto
    let ?st = "st\<lparr>st_mem := upd_leaf a (\<lambda>v. v\<lparr>lf_int := int_to_net k x\<rparr>) (st_mem st)\<rparr>"
    have "tlv_add_leaf e d a m ts st = Some (Some (ts @ [enc_val m d v]), ?st\<lparr>st_avail := st_avail st - 1\<rparr>)"
      using k append_node [of ?st "of_nat k" "Some (int_memory k (int_to_net k x))" e d m ts] assms(4) mode
      by (simp add: tlv_add_leaf_def FInt int_memory_net [OF k4])
    moreover have "alike [enc_val m d v] [enc_val m d v]" using k(1) l by (simp add: FInt alike_def value_octets_def)
    ultimately show ?thesis using assms(4) sz k(1) by (auto simp: add_ok_def FInt untouched_def upd_leaf_def)
  next
    case (FStr bs)
    let ?v = "lf_data (tm_leaf (st_mem st) a)"
    have h: "is_str d (length bs)" "unat (lf_len (tm_leaf (st_mem st) a)) = length bs" "value_octets ?v (length bs) = Some bs"
      using assms(2) by (auto simp: FStr)
    have len: "lf_len (tm_leaf (st_mem st) a) = of_nat (length bs)" unfolding h(2) [symmetric] by simp
    have u: "unat (of_nat (length bs) :: u32) = length bs" using h(2) len by metis
    have v: "(of_nat (length bs) :: u32) = 0 \<or> ?v \<noteq> None" using h(3) by (auto simp: value_octets_def split: if_splits)
    have "tlv_add_leaf e d a m ts st = map_option (\<lambda>(ts, st). (Some ts, st)) (tlv_append e d m (of_nat (length bs)) ?v ts st)"
    proof (cases "d_ctype d = OGS_TLV_FIXED_STR")
      case True
      then have "(ucast (d_length d) :: u32) = of_nat (length bs)" using h(1) by (simp add: is_str_def)
      then show ?thesis using True by (simp add: tlv_add_leaf_def int_octets_def)
    next
      case False
      then have "d_ctype d = OGS_TLV_VAR_STR" "length bs \<noteq> 0" using h(1) by (auto simp: is_str_def)
      moreover have "(of_nat (length bs) :: u32) \<noteq> 0" using u calculation(2) by auto
      ultimately show ?thesis using len by (simp add: tlv_add_leaf_def int_octets_def)
    qed
    moreover have "alike [Tlv m (ucast (d_type d)) (of_nat (length bs)) (d_instance d) ?v []] [enc_val m d v]"
      using h(3) u value_octets_eq [of ?v "of_nat (length bs)"] by (simp add: FStr alike_def octets_of_def)
    ultimately show ?thesis using append_node [OF assms(4) v] assms(4) mode by (auto simp: add_ok_def FStr)
  next
    case FNull
    then have "d_ctype d = OGS_TLV_NULL" using assms(2) by simp
    then show ?thesis using append_node [OF assms(4), of 0 None e d m ts] assms(4) mode
      by (simp add: add_ok_def FNull tlv_add_leaf_def int_octets_def alike_def value_octets_def)
  next
    case (FComp vs)
    then show ?thesis using assms(2,3) by simp
  qed
qed

text \<open>What is asked of the function that builds the elements of a compound.\<close>

definition sub_adds :: "nat \<Rightarrow> tlv_mode \<Rightarrow> (ogs_tlv_desc \<Rightarrow> nat \<Rightarrow> tlv_st \<Rightarrow> (ogs_tlv list option \<times> tlv_st) option) \<Rightarrow> bool" where
  "sub_adds n m sub \<longleftrightarrow> (\<forall>d p st vs. desc_wf n d \<and> holds_fields (st_mem st) (fields (d_children d) p) vs
     \<and> tlv_nodes (enc_fields m (field_descs (d_children d)) vs) \<le> st_avail st
     \<longrightarrow> add_ok (sub d p st) [] (enc_fields m (field_descs (d_children d)) vs) st p (p + region (d_children d)))"

lemma enc_fields_Nil_iff:
  assumes "holds_fields mem fs vs" "map fst fs = ds"
  shows "enc_fields m ds vs = [] \<longleftrightarrow> concat vs = []"
  using assms
proof (induction vs arbitrary: fs ds)
  case (Cons ws vs)
  then obtain d a c b fs' where fs: "fs = (d, a, c, b) # fs'" by (cases fs) auto
  have "enc_occs m d ws = [] \<longleftrightarrow> ws = []" by (cases ws) simp_all
  then show ?case using Cons fs by auto
qed simp

lemma add_present_ok:
  assumes "sub_adds n m sub" "field_wf n d" "holds_val (st_mem st) d a v" "tlv_nodes [enc_val m d v] \<le> st_avail st"
  shows "add_ok (tlv_add_present sub e d a m ts st) ts [enc_val m d v] st a (a + unat (d_vsize d))"
proof (cases "d_ctype d = OGS_TLV_COMPOUND")
  case False
  have "0 < st_avail st" using assms(4) by (cases "enc_val m d v") simp
  then show ?thesis using False add_leaf_ok [OF assms(2,3) False] by (simp add: tlv_add_present_def)
next
  case True
  then obtain vs where v: "v = FComp vs" "holds_fields (st_mem st) (fields (d_children d) (a + PRESENCE_SIZE)) vs" "concat vs \<noteq> []"
    using assms(3) by (cases v) (auto simp: int_octets_def is_str_def split: if_splits)
  have w: "desc_wf n d" "PRESENCE_SIZE + region (d_children d) \<le> unat (d_vsize d)" "tlv_ctype2mode (d_ctype d) m = m"
    using assms(2) True by (auto simp: field_wf_def tlv_ctype2mode_def)
  let ?us = "enc_fields m (field_descs (d_children d)) vs" and ?st = "st\<lparr>st_avail := st_avail st - 1\<rparr>"
  have us: "?us \<noteq> []" using enc_fields_Nil_iff [OF v(2) fields_descs] v(3) by simp
  have av: "tlv_nodes ?us + 1 \<le> st_avail st" using assms(4) by (simp add: v(1))
  have "add_ok (sub d (a + PRESENCE_SIZE) ?st) [] ?us ?st (a + PRESENCE_SIZE) (a + PRESENCE_SIZE + region (d_children d))"
    using assms(1) w(1) v(2) av unfolding sub_adds_def by simp
  then obtain emb st' where r: "sub d (a + PRESENCE_SIZE) ?st = Some (Some emb, st')" "alike emb ?us"
    "st_avail st' + tlv_nodes ?us = st_avail ?st" "untouched (a + PRESENCE_SIZE) (a + PRESENCE_SIZE + region (d_children d)) (st_mem st) (st_mem st')"
    unfolding add_ok_def by auto
  have emb: "emb \<noteq> []" using r(2) us by (auto simp: alike_def)
  then obtain e1 es where es: "emb = e1 # es" by (cases emb) auto
  have "tlv_add_present sub e d a m ts st = Some (Some (ts @ [Tlv m (ucast (d_type d)) 0 (d_instance d) None emb]), st')"
    using True av append_node [of st 0 None e d m ts] r(1) w(3) by (simp add: tlv_add_present_def es)
  moreover have "alike [Tlv m (ucast (d_type d)) 0 (d_instance d) None emb] [enc_val m d v]"
    unfolding v(1) enc_val.simps by (rule alike_embed [OF r(2) us])
  moreover have "untouched a (a + unat (d_vsize d)) (st_mem st) (st_mem st')" using untouched_mono [OF r(4), of a "a + unat (d_vsize d)"] w(2) by simp
  ultimately show ?thesis using r(3) av unfolding add_ok_def by (intro exI conjI) (auto simp: v(1))
qed

lemma add_more_ok:
  assumes "sub_adds n m sub" "field_wf n d"
    and "holds_occs (st_mem st) d a c ws" "tlv_nodes (enc_occs m d ws) \<le> st_avail st"
  shows "add_ok (tlv_add_more sub e d c a m ts st) ts (enc_occs m d ws) st a (a + unat (d_vsize d) * c)"
  using assms(3,4)
proof (induction ws arbitrary: a c ts st)
  case Nil
  then show ?case by (cases c) (auto simp: add_ok_def)
next
  case (Cons w ws)
  let ?v = "unat (d_vsize d)"
  obtain c' where c: "c = Suc c'" using Cons.prems(1) by (cases c) auto
  have h: "tm_presence (st_mem st) a \<noteq> 0" "holds_val (st_mem st) d a w" "holds_occs (st_mem st) d (a + ?v) c' ws"
    using Cons.prems(1) by (auto simp: c)
  have n: "tlv_nodes (enc_occs m d (w # ws)) = tlv_nodes [enc_val m d w] + tlv_nodes (enc_occs m d ws)"
    using tlv_nodes_Cons(1) [of "enc_val m d w" "enc_occs m d ws"] by simp
  obtain new st' where 1: "tlv_add_present sub e d a m ts st = Some (Some (ts @ new), st')" "alike new [enc_val m d w]"
    "st_avail st' + tlv_nodes [enc_val m d w] = st_avail st" "untouched a (a + ?v) (st_mem st) (st_mem st')"
    using add_present_ok [OF assms(1,2) h(2), of e ts] Cons.prems(2) n unfolding add_ok_def by auto
  have "holds_occs (st_mem st') d (a + ?v) c' ws"
    using frame_occs [OF assms(2) h(3)] untouched_same [OF 1(4)] by blast
  then have "add_ok (tlv_add_more sub e d c' (a + ?v) m (ts @ new) st') (ts @ new) (enc_occs m d ws) st' (a + ?v) (a + ?v + ?v * c')"
    using Cons.prems(2) n 1(3) by (intro Cons.IH) auto
  then obtain new' st'' where 2: "tlv_add_more sub e d c' (a + ?v) m (ts @ new) st' = Some (Some ((ts @ new) @ new'), st'')"
    "alike new' (enc_occs m d ws)" "st_avail st'' + tlv_nodes (enc_occs m d ws) = st_avail st'"
    "untouched (a + ?v) (a + ?v + ?v * c') (st_mem st') (st_mem st'')" unfolding add_ok_def by blast
  have "tlv_add_more sub e d c a m ts st = Some (Some (ts @ (new @ new')), st'')" using 1(1) 2(1) h(1) by (simp add: c)
  moreover have "alike (new @ new') (enc_occs m d (w # ws))" using alike_append [OF 1(2) 2(2)] by simp
  moreover have "untouched a (a + ?v * c) (st_mem st) (st_mem st'')" using untouched_trans [OF 1(4) 2(4)] by (simp add: c add.assoc)
  ultimately show ?case unfolding add_ok_def using 1(3) 2(3) n by (intro exI conjI) auto
qed

lemma add_one: "(if tm_presence (st_mem st) a = 0 then Some (Some ts, st) else tlv_add_present sub e d a m ts st) = tlv_add_more sub e d 1 a m ts st"
  by (cases "tlv_add_present sub e d a m ts st") (auto split: option.splits)

text \<open>The loop over the children is the loop over the elements of the layout.\<close>

fun add_fields ::
  "(ogs_tlv_desc \<Rightarrow> nat \<Rightarrow> tlv_st \<Rightarrow> (ogs_tlv list option \<times> tlv_st) option) \<Rightarrow> bool \<Rightarrow> field list \<Rightarrow> tlv_mode
     \<Rightarrow> ogs_tlv list \<Rightarrow> tlv_st \<Rightarrow> (ogs_tlv list option \<times> tlv_st) option" where
  "add_fields sub e [] m ts st = Some (Some ts, st)"
| "add_fields sub e ((d, a, c, b) # fs) m ts st =
     do { (r, st) \<leftarrow> tlv_add_more sub e d c a m ts st;
          case r of None \<Rightarrow> Some (None, st) | Some ts \<Rightarrow> add_fields sub e fs m ts st }"

lemma add_children_fields: "tlv_add_children sub e ds p m ts st = add_fields sub e (fields ds p) m ts st"
proof (induction ds p arbitrary: ts st rule: fields.induct)
  case (2 d p)
  have "tlv_add_children sub e [d] p m ts st = tlv_add_more sub e d 1 p m ts st" by (simp only: tlv_add_children.simps add_one)
  then show ?case by (cases "tlv_add_more sub e d 1 p m ts st") (auto split: option.splits)
next
  case (3 d nx ds p)
  show ?case
  proof (cases "d_ctype nx = OGS_TLV_MORE")
    case True
    then show ?thesis using 3(1) [OF True] by (simp only: tlv_add_children.simps fields.simps if_True refl add_fields.simps)
  next
    case False
    then show ?thesis using 3(2) by (simp only: tlv_add_children.simps fields.simps if_False add_fields.simps add_one not_False_eq_True)
  qed
qed simp

lemma add_fields_ok:
  assumes "sub_adds n m sub" "\<forall>f\<in>set fs. field_wf n (fst f)" "laid fs p hi" "holds_fields (st_mem st) fs vs"
    and "tlv_nodes (enc_fields m (map fst fs) vs) \<le> st_avail st"
  shows "add_ok (add_fields sub e fs m ts st) ts (enc_fields m (map fst fs) vs) st p hi"
  using assms(2-)
proof (induction fs arbitrary: p vs ts st)
  case Nil
  then show ?case by (cases vs) (auto simp: add_ok_def)
next
  case (Cons f fs)
  obtain d a c b where f: "f = (d, a, c, b)" by (cases f)
  let ?v = "unat (d_vsize d)"
  obtain ws vs' where vs: "vs = ws # vs'" using Cons.prems(3) by (cases vs) (auto simp: f)
  have l: "a = p" "laid fs (p + ?v * c) hi" using Cons.prems(2) by (simp_all add: f)
  have h: "holds_occs (st_mem st) d a c ws" "holds_fields (st_mem st) fs vs'" using Cons.prems(3) by (simp_all add: f vs)
  have wf: "field_wf n d" "\<forall>f\<in>set fs. field_wf n (fst f)" using Cons.prems(1) by (simp_all add: f)
  have n: "tlv_nodes (enc_fields m (map fst (f # fs)) vs) = tlv_nodes (enc_occs m d ws) + tlv_nodes (enc_fields m (map fst fs) vs')"
    by (simp add: f vs)
  obtain new st' where 1: "tlv_add_more sub e d c a m ts st = Some (Some (ts @ new), st')" "alike new (enc_occs m d ws)"
    "st_avail st' + tlv_nodes (enc_occs m d ws) = st_avail st" "untouched a (a + ?v * c) (st_mem st) (st_mem st')"
    using add_more_ok [OF assms(1) wf(1) h(1), of e ts] Cons.prems(4) n unfolding add_ok_def by auto
  have "same_on (p + ?v * c) hi (st_mem st) (st_mem st')" using untouched_same [OF 1(4)] l(1) by simp
  then have "holds_fields (st_mem st') fs vs'" using frame_fields [OF wf(2) l(2) h(2)] by blast
  then have "add_ok (add_fields sub e fs m (ts @ new) st') (ts @ new) (enc_fields m (map fst fs) vs') st' (p + ?v * c) hi"
    using Cons.prems(4) n 1(3) wf(2) l(2) by (intro Cons.IH) auto
  then obtain new' st'' where 2: "add_fields sub e fs m (ts @ new) st' = Some (Some ((ts @ new) @ new'), st'')"
    "alike new' (enc_fields m (map fst fs) vs')" "st_avail st'' + tlv_nodes (enc_fields m (map fst fs) vs') = st_avail st'"
    "untouched (p + ?v * c) hi (st_mem st') (st_mem st'')" unfolding add_ok_def by blast
  have "add_fields sub e (f # fs) m ts st = Some (Some (ts @ (new @ new')), st'')" using 1(1) 2(1) by (simp add: f)
  moreover have "alike (new @ new') (enc_fields m (map fst (f # fs)) vs)" using alike_append [OF 1(2) 2(2)] by (simp add: f vs)
  moreover have "untouched p hi (st_mem st) (st_mem st'')"
    using untouched_trans [OF 1(4) [unfolded l(1)] 2(4)] laid_le [OF l(2)] by simp
  ultimately show ?case unfolding add_ok_def using 1(3) 2(3) n by (intro exI conjI) auto
qed

lemma add_compound_ok: "sub_adds n m (tlv_add_compound n e m)"
proof (induction n arbitrary: e)
  case 0
  then show ?case by (simp add: sub_adds_def)
next
  case (Suc n)
  show ?case unfolding sub_adds_def
  proof (intro allI impI, elim conjE)
    fix d p vs and st :: tlv_st
    assume a: "desc_wf (Suc n) d" "holds_fields (st_mem st) (fields (d_children d) p) vs"
      "tlv_nodes (enc_fields m (field_descs (d_children d)) vs) \<le> st_avail st"
    have "\<forall>f\<in>set (fields (d_children d) p). field_wf n (fst f)" using desc_wf_fields [OF a(1)] by (metis prod.collapse)
    then show "add_ok (tlv_add_compound (Suc n) e m d p st) [] (enc_fields m (field_descs (d_children d)) vs) st p (p + region (d_children d))"
      using add_fields_ok [OF Suc.IH [of True] _ laid_fields a(2), of e "[]"] a(3) by (simp add: add_children_fields fields_descs)
  qed
qed

section \<open>The packet\<close>

lemma calc_length_keeps:
  "wire (snd (ogs_tlv_calc_length ts)) = wire ts \<and> tlv_nodes (snd (ogs_tlv_calc_length ts)) = tlv_nodes ts
    \<and> (values_ok ts \<longrightarrow> values_ok (snd (ogs_tlv_calc_length ts))) \<and> (snd (ogs_tlv_calc_length ts) = [] \<longleftrightarrow> ts = [])"
proof (induction ts rule: tlv_nodes.induct)
  case (2 m ty len i v emb ts)
  then show ?case by (auto simp: Let_def split_beta)
qed simp

lemma build_ok:
  fixes desc m vs
  defines "us \<equiv> enc_fields m (field_descs (d_children desc)) vs"
  assumes "d_ctype desc = OGS_TLV_MESSAGE" "desc_wf 9 desc" "holds_fields (st_mem st) (fields (d_children desc) 0) vs"
    and "concat vs \<noteq> []" "length (wire us) < 2 ^ 32" "alloc (length (wire us))" "tlv_nodes us \<le> st_avail st"
  shows "\<exists>st'. ogs_tlv_build_msg alloc desc m st = Some (Some (wire us), st') \<and> st_avail st' = st_avail st"
proof -
  obtain root st' where r: "tlv_add_compound 9 False m desc 0 st = Some (Some root, st')" "alike root us" "st_avail st' + tlv_nodes us = st_avail st"
    using add_compound_ok [of 9 m False] assms(3,4,8) unfolding sub_adds_def add_ok_def us_def by fastforce
  have "us \<noteq> []" using enc_fields_Nil_iff [OF assms(4) fields_descs] assms(5) by (simp add: us_def)
  then obtain t ts where root: "root = t # ts" using r(2) by (cases root) (auto simp: alike_def)
  obtain len root' where c: "ogs_tlv_calc_length root = (len, root')" by (cases "ogs_tlv_calc_length root")
  have w: "wire root' = wire us" "tlv_nodes root' = tlv_nodes us" "values_ok root'"
    using calc_length_keeps [of root] r(2) by (auto simp: c alike_def)
  have len: "unat len = length (wire us)"
    using calc_length_wire [of root] r(2) assms(6) by (simp add: c alike_def unat_of_nat32)
  have "ogs_tlv_render root' (replicate (unat len) 0) 0 len = Some (wire us, length (wire us))"
    using render_wire [OF w(3), of "replicate (unat len) 0" 0 "[]" len] len w(1) by (simp add: ogs_tlv_render_def)
  moreover have "d_children desc \<noteq> []" using assms(4,5) by (cases vs) auto
  ultimately show ?thesis using assms(2,7) r(1,3) c len w(2) by (simp add: ogs_tlv_build_msg_def root ogs_tlv_free_all_def)
qed

end
