(* ===== verification/Ogs_Tlv_Parse.thy ===== *)
theory Ogs_Tlv_Parse
  imports Ogs_Tlv_Build
begin

text \<open>
  Parsing the elements of a message: the parser puts every value at its place in a structure that was empty.
\<close>

section \<open>What arrives\<close>

text \<open>All elements, embedded ones included, fit their headers.\<close>

fun deep_fits :: "tlv_mode \<Rightarrow> ogs_tlv list \<Rightarrow> bool" where
  "deep_fits m [] \<longleftrightarrow> True"
| "deep_fits m (Tlv m' ty len i v emb # ts) \<longleftrightarrow> tlv_fits m (Tlv m' ty len i v emb) \<and> deep_fits m emb \<and> deep_fits m ts"

lemma deep_fits_append [simp]: "deep_fits m (ts @ us) \<longleftrightarrow> deep_fits m ts \<and> deep_fits m us"
  by (induction ts rule: wire.induct) simp_all

lemma deep_fits_Cons: "deep_fits m (t # ts) \<longleftrightarrow> tlv_fits m t \<and> deep_fits m (tl_embedded t) \<and> deep_fits m ts"
  by (cases t) simp

lemma deep_fits_all: "deep_fits m ts \<Longrightarrow> \<forall>t\<in>set ts. tlv_fits m t"
  by (induction ts) (auto simp: deep_fits_Cons)

text \<open>An element as the parser of a block gives it.\<close>

definition carries :: "ogs_tlv \<Rightarrow> ogs_tlv \<Rightarrow> bool" where
  "carries t u \<longleftrightarrow> tl_type u = tl_type t \<and> tl_instance u = tl_instance t \<and> tl_length u = tlv_len t \<and> tl_embedded u = []
     \<and> (\<exists>post. tl_value u = Some (tlv_body t @ post))"

lemma parsed_carries: "list_all2 carries ts (parsed ts post)"
  by (induction ts) (auto simp: carries_def)

lemma carries_flat: "list_all2 carries ts us \<Longrightarrow> tlv_nodes us = length ts"
proof (induction rule: list_all2_induct)
  case (Cons t ts u us)
  then show ?case using tlv_nodes_Cons(1) [of u us] by (cases u) (simp add: carries_def)
qed simp

lemma nodes_length: "length us \<le> tlv_nodes us"
  by (induction us rule: wire.induct) simp_all

section \<open>The descriptor of an element\<close>

definition ckey :: "ogs_tlv_desc \<Rightarrow> u32" where
  "ckey d = count_key (d_type d) (d_instance d)"

lemma count_key_inj: "count_key ty i = count_key ty' i' \<longleftrightarrow> ty = ty' \<and> i = i'"
proof
  assume eq: "count_key ty i = count_key ty' i'"
  have b: "bit (count_key ty i) n \<longleftrightarrow> (if n < 8 then bit i n else bit ty (n - 8))" if "n < 24" for ty i n
    using that by (auto simp: count_key_def bit_simps dest: bit_imp_le_length)
  have "bit i n = bit i' n" if "n < 8" for n using b [of n ty i] b [of n ty' i'] eq that by simp
  moreover have "bit ty n = bit ty' n" if "n < 16" for n using b [of "n + 8" ty i] b [of "n + 8" ty' i'] eq that by simp
  ultimately show "ty = ty' \<and> i = i'" by (auto intro!: bit_word_eqI)
qed simp

lemma ckey_eq: "ckey d = ckey d' \<longleftrightarrow> desc_key d = desc_key d'"
  by (simp add: ckey_def desc_key_def count_key_inj)

lemma find_field:
  assumes "more_seq v ds" "v \<Longrightarrow> ds = [] \<or> d_ctype (hd ds) \<noteq> OGS_TLV_MORE" "\<forall>e\<in>set ds. d_ctype e = OGS_TLV_MORE \<longrightarrow> desc_key e = (0, 0)"
    and "desc_key d \<noteq> (0, 0)" "distinct (map desc_key (map fst (fields ds p)))" "(d, a, c, b) \<in> set (fields ds p)"
  shows "\<exists>j off. tlv_find_desc ds i off0 prev 0 (d_type d) (d_instance d) 0 = Some (Some (d, i + j, off0 + off))
    \<and> a = p + off \<and> next_more ds j = (if b then Some c else None)"
  using assms
proof (induction ds p arbitrary: v i off0 prev rule: fields.induct)
  case (2 x p)
  then show ?case by (intro exI [of _ 0]) (simp add: next_more_def)
next
  case (3 x e ds p)
  have x: "d_ctype x \<noteq> OGS_TLV_MORE" using 3(3,4) by (auto split: if_splits)
  show ?case
  proof (cases "(d, a, c, b) = hd (fields (x # e # ds) p)")
    case True
    then show ?thesis by (intro exI [of _ 0]) (auto simp: next_more_def split: if_splits)
  next
    case False
    show ?thesis
    proof (cases "d_ctype e = OGS_TLV_MORE")
      case True
      have rest: "(d, a, c, b) \<in> set (fields ds (p + unat (d_vsize x) * unat (d_length e)))" using False 3(8) True by auto
      have "desc_key x \<noteq> desc_key d" "desc_key e \<noteq> desc_key d" using 3(5,6,7) rest True by (auto simp: rev_image_eqI)
      then have ne: "\<not> (d_type x = d_type d \<and> d_instance x = d_instance d)" "\<not> (d_type e = d_type d \<and> d_instance e = d_instance d)"
        by (auto simp: desc_key_def)
      have "\<exists>j off. tlv_find_desc ds (i + 2) (off0 + unat (d_vsize x) * unat (d_length e)) (Some e) 0 (d_type d) (d_instance d) 0
          = Some (Some (d, i + 2 + j, off0 + unat (d_vsize x) * unat (d_length e) + off))
        \<and> a = p + unat (d_vsize x) * unat (d_length e) + off \<and> next_more ds j = (if b then Some c else None)"
        using 3(3,5,6,7) True x rest by (intro 3(1) [OF True, of False]) auto
      then obtain j off where "tlv_find_desc ds (i + 2) (off0 + unat (d_vsize x) * unat (d_length e)) (Some e) 0 (d_type d) (d_instance d) 0
          = Some (Some (d, i + 2 + j, off0 + unat (d_vsize x) * unat (d_length e) + off))"
        "a = p + unat (d_vsize x) * unat (d_length e) + off" "next_more ds j = (if b then Some c else None)" by blast
      moreover have "tlv_find_desc (x # e # ds) i off0 prev 0 (d_type d) (d_instance d) 0
          = tlv_find_desc ds (i + 2) (off0 + unat (d_vsize x) * unat (d_length e)) (Some e) 0 (d_type d) (d_instance d) 0"
        using True x ne by auto
      ultimately show ?thesis
        by - (rule exI [of _ "Suc (Suc j)"], rule exI [of _ "unat (d_vsize x) * unat (d_length e) + off"], simp add: add.assoc)
    next
      case e: False
      have rest: "(d, a, c, b) \<in> set (fields (e # ds) (p + unat (d_vsize x)))" using False 3(8) e by auto
      have "desc_key x \<noteq> desc_key d" using 3(7) rest e by (auto simp: rev_image_eqI)
      then have ne: "\<not> (d_type x = d_type d \<and> d_instance x = d_instance d)" by (auto simp: desc_key_def)
      have "\<exists>j off. tlv_find_desc (e # ds) (i + 1) (off0 + unat (d_vsize x)) (Some x) 0 (d_type d) (d_instance d) 0
          = Some (Some (d, i + 1 + j, off0 + unat (d_vsize x) + off))
        \<and> a = p + unat (d_vsize x) + off \<and> next_more (e # ds) j = (if b then Some c else None)"
        using 3(3,5,6,7) e x rest by (intro 3(2) [OF e, of True]) auto
      then obtain j off where "tlv_find_desc (e # ds) (i + 1) (off0 + unat (d_vsize x)) (Some x) 0 (d_type d) (d_instance d) 0
          = Some (Some (d, i + 1 + j, off0 + unat (d_vsize x) + off))"
        "a = p + unat (d_vsize x) + off" "next_more (e # ds) j = (if b then Some c else None)" by blast
      moreover have "tlv_find_desc (x # e # ds) i off0 prev 0 (d_type d) (d_instance d) 0
          = tlv_find_desc (e # ds) (i + 1) (off0 + unat (d_vsize x)) (Some x) 0 (d_type d) (d_instance d) 0"
        using x ne by (auto simp del: tlv_find_desc.simps(2) simp add: tlv_find_desc.simps(2) [of x])
      ultimately show ?thesis
        by - (rule exI [of _ "Suc j"], rule exI [of _ "unat (d_vsize x) + off"], simp add: add.assoc del: tlv_find_desc.simps)
    qed
  qed
qed simp

section \<open>One element\<close>

definition ckeys :: "ogs_tlv_desc \<Rightarrow> u32 set" where
  "ckeys parent = ckey ` set (field_descs (d_children parent))"

lemma finite_ckeys: "finite (ckeys parent)"
  by (simp add: ckeys_def)

lemma ckeys_card: "length (d_children parent) < OGS_TLV_MAX_CHILD_DESC \<Longrightarrow> card (ckeys parent) < OGS_TLV_MAX_CHILD_DESC"
proof -
  have "length (fields ds p) \<le> length ds" for ds p
  proof (induction ds p rule: fields.induct)
    case (3 x e ds p)
    then show ?case by (cases "d_ctype e = OGS_TLV_MORE") auto
  qed auto
  then have "length (field_descs (d_children parent)) \<le> length (d_children parent)" by (simp add: field_descs_def)
  moreover have "card (ckeys parent) \<le> length (field_descs (d_children parent))"
    unfolding ckeys_def by (metis card_length set_map length_map)
  ultimately show "length (d_children parent) < OGS_TLV_MAX_CHILD_DESC \<Longrightarrow> card (ckeys parent) < OGS_TLV_MAX_CHILD_DESC" by linarith
qed

text \<open>The counters know keys of the structure only.\<close>

definition counting :: "ogs_tlv_desc \<Rightarrow> tlv_counts \<Rightarrow> bool" where
  "counting parent c \<longleftrightarrow> counts_ok c \<and> count_keys c \<subseteq> ckeys parent"

lemma parse_one_field:
  assumes "desc_wf (Suc n) parent" "(d, a, c, b) \<in> set (fields (d_children parent) p)" "counting parent (ps_counts ps)"
    and "count_of (ps_counts ps) (ckey d) = 0" "tl_type t = ucast (d_type d)" "tl_instance t = d_instance d"
    and "if b then tlv_free_slot (ps_mem ps) a (unat (d_vsize d)) c = Some a' else a' = a"
  shows "\<exists>cnt. tlv_parse_one sub parent p mode t ps = tlv_parse_field sub d a' mode t (ps\<lparr>ps_counts := cnt\<rparr>) \<and> counting parent cnt
    \<and> (\<forall>k. k \<noteq> ckey d \<longrightarrow> count_of cnt k = count_of (ps_counts ps) k) \<and> (b \<longrightarrow> count_of cnt (ckey d) = 0)"
proof -
  have ok: "counts_ok (ps_counts ps)" "count_keys (ps_counts ps) \<subseteq> ckeys parent" using assms(3) by (auto simp: counting_def)
  have ty: "(ucast (tl_type t) :: u16) = d_type d" using assms(5) by (intro bit_word_eqI) (auto simp: bit_simps)
  have "d \<in> set (field_descs (d_children parent))"
    using assms(2) fields_descs [of "d_children parent" p] by (metis fst_conv image_eqI set_map)
  then have key: "ckey d \<in> ckeys parent" by (simp add: ckeys_def)
  obtain node cnt where f: "tlv_count_node_find (ps_counts ps) (d_type d) (d_instance d) = Some (Some node, cnt)" "counts_ok cnt"
    "node < tc_next cnt \<and> tc_key cnt node = ckey d" "tc_count cnt node = 0" "count_keys cnt \<subseteq> ckeys parent" "count_of cnt = count_of (ps_counts ps)"
    using cnt.find_room [OF ok finite_ckeys ckeys_card, of "(d_type d, d_instance d)"] key assms(1,4) by (auto simp: ckey_def)
  have cnt: "counting parent cnt" using f(2,5) by (simp add: counting_def)
  have up: "counting parent (count_up node cnt)" "count_of (count_up node cnt) = (count_of cnt)(ckey d := count_of cnt (ckey d) + 1)"
    using cnt.up_law [OF f(2,3)] cnt by (simp_all add: counting_def)
  obtain j off where fd: "tlv_find_desc (d_children parent) 0 0 None 0 (d_type d) (d_instance d) 0 = Some (Some (d, 0 + j, 0 + off))"
    "a = p + off" "next_more (d_children parent) j = (if b then Some c else None)"
    using find_field [of False "d_children parent" d p a c b 0 0 None] assms(1,2) desc_wf_fields [OF assms(1,2)]
    by (auto simp: field_wf_def fields_descs)
  have find: "tlv_find_desc_by_type_inst parent (d_type d) (d_instance d) (of_nat (tc_count cnt node)) = Some (Some (d, j, off))"
    using fd(1) f(4) by (simp add: tlv_find_desc_by_type_inst_def)
  show ?thesis
  proof (cases b)
    case True
    then have "tlv_parse_one sub parent p mode t ps = tlv_parse_field sub d a' mode t (ps\<lparr>ps_counts := cnt\<rparr>)"
      using f(1) ty assms(6,7) find fd(2,3) by (simp add: tlv_parse_one_def)
    then show ?thesis using cnt f(6) assms(4) by auto
  next
    case False
    then have "tlv_parse_one sub parent p mode t ps = tlv_parse_field sub d a' mode t (ps\<lparr>ps_counts := count_up node cnt\<rparr>)"
      using f(1) ty assms(6,7) find fd(2,3) by (simp add: tlv_parse_one_def count_up_def)
    then show ?thesis using False up f(6) by auto
  qed
qed

text \<open>What parsing an element at an address does.\<close>

definition field_ok :: "(bool \<times> ogs_tlv \<times> tlv_ps) option \<Rightarrow> ogs_tlv_desc \<Rightarrow> nat \<Rightarrow> fval \<Rightarrow> ogs_tlv \<Rightarrow> tlv_ps \<Rightarrow> bool" where
  "field_ok res d a v t ps \<longleftrightarrow> (\<exists>u ps'. res = Some (True, u, ps') \<and> tm_presence (ps_mem ps') a \<noteq> 0 \<and> holds_val (ps_mem ps') d a v
     \<and> untouched a (a + unat (d_vsize d)) (ps_mem ps) (ps_mem ps') \<and> ps_counts ps' = ps_counts ps
     \<and> ps_avail ps' + tlv_nodes [t] = ps_avail ps + 1 \<and> tlv_nodes [u] = tlv_nodes [t])"

definition clear :: "nat \<Rightarrow> nat \<Rightarrow> tlv_mem \<Rightarrow> bool" where
  "clear lo hi mem \<longleftrightarrow> (\<forall>x. lo \<le> x \<and> x < hi \<longrightarrow> tm_presence mem x = 0)"

lemma clear_sub: "clear lo hi mem \<Longrightarrow> lo \<le> lo' \<Longrightarrow> hi' \<le> hi \<Longrightarrow> clear lo' hi' mem"
  by (auto simp: clear_def)

lemma clear_untouched: "clear mid hi m \<Longrightarrow> untouched lo mid m m' \<Longrightarrow> clear mid hi m'"
  by (auto simp: clear_def untouched_def)

definition sub_parses :: "nat \<Rightarrow> tlv_mode \<Rightarrow> tlv_sub \<Rightarrow> bool" where
  "sub_parses n m sub \<longleftrightarrow> (\<forall>d p ts mem avail m0 vs us. us = enc_fields m (field_descs (d_children d)) vs \<and> desc_wf n d
     \<and> holds_fields m0 (fields (d_children d) p) vs \<and> list_all2 carries us ts \<and> deep_fits m us
     \<and> tlv_nodes us \<le> avail + length us \<and> clear p (p + region (d_children d)) mem
     \<longrightarrow> (\<exists>ts' mem' avail'. sub d p ts mem avail = Some (True, ts', mem', avail') \<and> holds_fields mem' (fields (d_children d) p) vs
        \<and> untouched p (p + region (d_children d)) mem mem' \<and> avail' + tlv_nodes us = avail + length us \<and> tlv_nodes ts' = tlv_nodes us))"

lemma parse_leaf_field:
  assumes "field_wf n d" "holds_val m0 d a v" "d_ctype d \<noteq> OGS_TLV_COMPOUND" "carries (enc_val m d v) t" "tlv_fits m (enc_val m d v)"
  shows "field_ok (tlv_parse_field sub d a m t ps) d a v (enc_val m d v) ps"
proof -
  have sz: "0 < unat (d_vsize d)" using field_wf_size [OF assms(1)] .
  have emb: "tl_embedded (enc_val m d v) = []" using assms(2,3) by (cases v) (auto simp: Let_def)
  then have n: "tlv_nodes [enc_val m d v] = 1" "tlv_nodes [t] = 1" using assms(4) by (cases "enc_val m d v"; cases t; simp add: carries_def)+
  obtain post where val: "tl_value t = Some (tlv_body (enc_val m d v) @ post)" "tl_length t = tl_length (enc_val m d v)"
    using assms(4) emb by (auto simp: carries_def tlv_len_def)
  have len: "length (tlv_body (enc_val m d v)) = unat (tl_length (enc_val m d v))" using assms(5) emb by (auto simp: tlv_fits_def tlv_len_def)
  have "\<exists>mem'. tlv_parse_leaf a d t (ps_mem ps) = Some (True, mem') \<and> holds_val (set_presence a mem') d a v
      \<and> untouched a (a + unat (d_vsize d)) (ps_mem ps) (set_presence a mem')"
  proof (cases v)
    case (FInt x)
    then obtain k where k: "int_octets (d_ctype d) = Some k" "unat x < 256 ^ k" using assms(2) by (auto split: option.splits)
    have k4: "k \<in> {1, 2, 3, 4}" using int_octets_range [OF k(1)] .
    then have u: "unat (of_nat k :: u32) = k" by auto
    have "tlv_parse_leaf a d t (ps_mem ps) = Some (True, upd_leaf a (\<lambda>v. v\<lparr>lf_int := x\<rparr>) (ps_mem ps))"
      using k val len u int_from_be [OF k4 k(2)] k4 by (auto simp: FInt tlv_parse_leaf_def value_octets_def octets_of_def)
    then show ?thesis using sz k by (auto simp: FInt upd_leaf_def set_presence_def untouched_def)
  next
    case (FStr bs)
    then have "is_str d (length bs)" "unat (lf_len (tm_leaf m0 a)) = length bs" using assms(2) by auto
    then have s: "is_str d (length bs)" "unat (of_nat (length bs) :: u32) = length bs"
      using unsigned_less [of "lf_len (tm_leaf m0 a)", where ?'a = nat] by (simp_all add: unat_of_nat32)
    let ?l = "of_nat (length bs) :: u32"
    have b: "tlv_body (enc_val m d v) = bs" using s(2) by (simp add: FStr octets_of_def)
    have "tlv_parse_leaf a d t (ps_mem ps) = Some (True, upd_leaf a (\<lambda>v. v\<lparr>lf_data := tl_value t, lf_len := ?l\<rparr>) (ps_mem ps))"
      using s(1) val by (auto simp: FStr is_str_def tlv_parse_leaf_def int_octets_def split: if_splits)
    then show ?thesis using sz s val(1) b by (auto simp: FStr upd_leaf_def set_presence_def untouched_def value_octets_def)
  next
    case FNull
    then show ?thesis using assms(2) val(2) sz by (auto simp: tlv_parse_leaf_def int_octets_def set_presence_def untouched_def)
  next
    case (FComp vs)
    then show ?thesis using assms(2,3) by simp
  qed
  then show ?thesis using assms(3) n by (auto simp: field_ok_def tlv_parse_field_def set_presence_def)
qed

lemma parse_comp_field:
  assumes "sub_parses n m sub" "field_wf n d" "holds_val m0 d a v" "d_ctype d = OGS_TLV_COMPOUND" "carries (enc_val m d v) t"
    and "deep_fits m [enc_val m d v]" "tlv_nodes [enc_val m d v] \<le> ps_avail ps + 1" "clear a (a + unat (d_vsize d)) (ps_mem ps)"
  shows "field_ok (tlv_parse_field sub d a m t ps) d a v (enc_val m d v) ps"
proof -
  obtain vs where v: "v = FComp vs" "holds_fields m0 (fields (d_children d) (a + PRESENCE_SIZE)) vs" "concat vs \<noteq> []"
    using assms(3,4) by (cases v) (auto simp: int_octets_def is_str_def split: if_splits)
  have w: "desc_wf n d" "PRESENCE_SIZE + region (d_children d) \<le> unat (d_vsize d)" using assms(2,4) by (auto simp: field_wf_def)
  define us where "us = enc_fields m (field_descs (d_children d)) vs"
  have us: "us \<noteq> []" using enc_fields_Nil_iff [OF v(2) fields_descs] v(3) by (simp add: us_def)
  have e: "tl_embedded (enc_val m d v) = us" "tlv_body (enc_val m d v) = wire us" "tlv_nodes [enc_val m d v] = tlv_nodes us + 1"
    using us by (simp_all add: v(1) us_def)
  have fits: "deep_fits m us" "length (wire us) = unat (tlv_len (enc_val m d v))"
    using assms(6) by (auto simp: deep_fits_Cons e tlv_fits_def)
  have small: "length (wire us) < 2 ^ 32" using fits(2) unsigned_less [of "tlv_len (enc_val m d v)"] by simp
  obtain post where t: "tl_value t = Some (wire us @ post)" "tl_length t = of_nat (length (wire us))"
    using assms(5) fits(2) by (auto simp: carries_def e)
  note lu = nodes_length [of us]
  have "ogs_tlv_parse_block ([] @ wire us @ post) (length ([] :: bytes)) (of_nat (length (wire us))) m (ps_avail ps) = Some (Some (parsed us post), ps_avail ps - length us)"
    using us deep_fits_all [OF fits(1)] small assms(7) lu e(3) by (intro parse_block_wire) auto
  then have blk: "ogs_tlv_parse_embedded_block t m (ps_avail ps) = Some (Some (parsed us post), ps_avail ps - length us)"
    by (simp add: ogs_tlv_parse_embedded_block_def t)
  have cl: "clear (a + PRESENCE_SIZE) (a + PRESENCE_SIZE + region (d_children d)) (ps_mem ps)"
    using clear_sub [OF assms(8), of "a + PRESENCE_SIZE" "a + PRESENCE_SIZE + region (d_children d)"] w(2) by simp
  have av: "tlv_nodes us \<le> (ps_avail ps - length us) + length us" using assms(7) e(3) by simp
  then obtain ts' mem' avail' where r: "sub d (a + PRESENCE_SIZE) (parsed us post) (ps_mem ps) (ps_avail ps - length us) = Some (True, ts', mem', avail')"
    "holds_fields mem' (fields (d_children d) (a + PRESENCE_SIZE)) vs" "untouched (a + PRESENCE_SIZE) (a + PRESENCE_SIZE + region (d_children d)) (ps_mem ps) mem'"
    "avail' + tlv_nodes us = (ps_avail ps - length us) + length us" "tlv_nodes ts' = tlv_nodes us"
    using assms(1) w(1) v(2) parsed_carries [of us post] fits(1) cl unfolding sub_parses_def us_def by blast
  have res: "tlv_parse_field sub d a m t ps = Some (True, embed_in t ts', ps\<lparr>ps_mem := set_presence a mem', ps_avail := avail'\<rparr>)"
    using assms(4) blk r(1) by (simp add: tlv_parse_field_def)
  have "same_on (a + PRESENCE_SIZE) (a + PRESENCE_SIZE + region (d_children d)) mem' (set_presence a mem')"
    by (auto simp: same_on_def set_presence_def PRESENCE_SIZE_def)
  moreover obtain n' where n': "n = Suc n'" using w(1) by (cases n) auto
  moreover have "\<forall>f\<in>set (fields (d_children d) (a + PRESENCE_SIZE)). field_wf n' (fst f)" using desc_wf_fields w(1) n' by (metis prod.collapse)
  ultimately have "holds_fields (set_presence a mem') (fields (d_children d) (a + PRESENCE_SIZE)) vs"
    using frame_fields [OF _ laid_fields r(2)] by blast
  then have "holds_val (set_presence a mem') d a v" using v(1,3) assms(4) by simp
  moreover have "untouched a (a + unat (d_vsize d)) (ps_mem ps) (set_presence a mem')"
    using untouched_mono [OF r(3), of a "a + unat (d_vsize d)"] w(2) by (auto simp: untouched_def set_presence_def PRESENCE_SIZE_def)
  moreover have "length us \<le> ps_avail ps" using assms(7) e(3) lu by simp
  ultimately show ?thesis unfolding field_ok_def res using r(4,5) e(3) tlv_nodes_Cons(2) [of t ts'] by (auto simp: set_presence_def)
qed

section \<open>All elements\<close>

lemma free_slot_skip:
  "\<forall>i<j. tm_presence mem (a + v * i) \<noteq> 0 \<Longrightarrow> tlv_free_slot mem a v (j + c) = tlv_free_slot mem (a + v * j) v c"
proof (induction j arbitrary: a)
  case (Suc j)
  have "tm_presence mem a \<noteq> 0" using Suc.prems [rule_format, of 0] by simp
  moreover have "tm_presence mem (a + v + v * i) \<noteq> 0" if "i < j" for i using Suc.prems [rule_format, of "Suc i"] that by (simp add: add.assoc)
  ultimately show ?case using Suc.IH [of "a + v"] by (simp add: add.assoc)
qed simp

lemma parse_list_append:
  assumes "tlv_parse_list sub parent p m ts ps = Some (True, ts', ps')"
  shows "tlv_parse_list sub parent p m (ts @ us) ps = map_option (\<lambda>(ok, us', ps). (ok, ts' @ us', ps)) (tlv_parse_list sub parent p m us ps')"
  using assms
proof (induction ts arbitrary: ps ts')
  case Nil
  then show ?case by (cases "tlv_parse_list sub parent p m us ps") auto
next
  case (Cons t ts)
  obtain t1 ps1 ts1 where 1: "tlv_parse_one sub parent p m t ps = Some (True, t1, ps1)" "tlv_parse_list sub parent p m ts ps1 = Some (True, ts1, ps')" "ts' = t1 # ts1"
    using Cons.prems by (auto split: Option.bind_splits prod.splits if_splits)
  show ?case using Cons.IH [OF 1(2)] 1 by (cases "tlv_parse_list sub parent p m us ps'") auto
qed

text \<open>What parsing a list of elements does: \<open>us\<close> are the elements that were built.\<close>

definition list_ok :: "(bool \<times> ogs_tlv list \<times> tlv_ps) option \<Rightarrow> ogs_tlv_desc \<Rightarrow> (tlv_mem \<Rightarrow> bool) \<Rightarrow> u32 set \<Rightarrow> nat \<Rightarrow> nat \<Rightarrow> ogs_tlv list \<Rightarrow> tlv_ps \<Rightarrow> bool" where
  "list_ok res parent Q ks lo hi us ps \<longleftrightarrow> (\<exists>ts ps'. res = Some (True, ts, ps') \<and> Q (ps_mem ps') \<and> untouched lo hi (ps_mem ps) (ps_mem ps')
     \<and> counting parent (ps_counts ps') \<and> (\<forall>k. k \<notin> ks \<longrightarrow> count_of (ps_counts ps') k = count_of (ps_counts ps) k)
     \<and> ps_avail ps' + tlv_nodes us = ps_avail ps + length us \<and> tlv_nodes ts = tlv_nodes us)"

lemma parse_field_ok:
  assumes "sub_parses n m sub" "field_wf n d" "holds_val m0 d a v" "carries (enc_val m d v) t"
    and "deep_fits m [enc_val m d v]" "tlv_nodes [enc_val m d v] \<le> ps_avail ps + 1" "clear a (a + unat (d_vsize d)) (ps_mem ps)"
  shows "field_ok (tlv_parse_field sub d a m t ps) d a v (enc_val m d v) ps"
  using parse_comp_field [OF assms(1-3) _ assms(4-7)] parse_leaf_field [OF assms(2,3) _ assms(4)] assms(5)
  by (cases "d_ctype d = OGS_TLV_COMPOUND") (auto simp: deep_fits_Cons)

lemma enc_key: "tl_type (enc_val m d v) = ucast (d_type d)" "tl_instance (enc_val m d v) = d_instance d"
  by (cases v; simp add: Let_def)+

text \<open>One more of the values of an array, or the value of a single element.\<close>

lemma parse_occ_ok:
  assumes "sub_parses n m sub" "desc_wf (Suc n) parent" "(d, a0, j + Suc c, b) \<in> set (fields (d_children parent) p)"
    and "a = a0 + unat (d_vsize d) * j" "holds_val m0 d a w" "carries (enc_val m d w) t" "deep_fits m [enc_val m d w]"
    and "tlv_nodes [enc_val m d w] \<le> ps_avail ps + 1" "clear a (a + unat (d_vsize d)) (ps_mem ps)"
    and pre: "\<forall>i<j. tm_presence (ps_mem ps) (a0 + unat (d_vsize d) * i) \<noteq> 0" and "counting parent (ps_counts ps)"
    and "count_of (ps_counts ps) (ckey d) = 0"
  shows "\<exists>u ps'. tlv_parse_one sub parent p m t ps = Some (True, u, ps') \<and> holds_val (ps_mem ps') d a w
    \<and> untouched a (a + unat (d_vsize d)) (ps_mem ps) (ps_mem ps') \<and> (\<forall>i<Suc j. tm_presence (ps_mem ps') (a0 + unat (d_vsize d) * i) \<noteq> 0)
    \<and> counting parent (ps_counts ps') \<and> (\<forall>k. k \<noteq> ckey d \<longrightarrow> count_of (ps_counts ps') k = count_of (ps_counts ps) k)
    \<and> (c \<noteq> 0 \<longrightarrow> count_of (ps_counts ps') (ckey d) = 0)
    \<and> ps_avail ps' + tlv_nodes [enc_val m d w] = ps_avail ps + 1 \<and> tlv_nodes [u] = tlv_nodes [enc_val m d w]"
proof -
  let ?v = "unat (d_vsize d)"
  have wf: "field_wf n d" using desc_wf_fields [OF assms(2,3)] .
  have sz: "0 < ?v" using field_wf_size [OF wf] .
  have slot: "if b then tlv_free_slot (ps_mem ps) a0 ?v (j + Suc c) = Some a else a = a0"
  proof (cases b)
    case True
    have "tm_presence (ps_mem ps) a = 0" using assms(9) sz by (auto simp: clear_def)
    then have "tlv_free_slot (ps_mem ps) a ?v (Suc c) = Some a" by simp
    then show ?thesis using True free_slot_skip [OF pre, of "Suc c"] assms(4) by simp
  next
    case False
    then have "j = 0" using field_single [OF assms(3)] by simp
    then show ?thesis using False assms(4) by simp
  qed
  have tk: "tl_type t = ucast (d_type d)" "tl_instance t = d_instance d" using assms(6) by (simp_all add: carries_def enc_key)
  obtain cnt where 1: "tlv_parse_one sub parent p m t ps = tlv_parse_field sub d a m t (ps\<lparr>ps_counts := cnt\<rparr>)" "counting parent cnt"
    "\<forall>k. k \<noteq> ckey d \<longrightarrow> count_of cnt k = count_of (ps_counts ps) k" "b \<longrightarrow> count_of cnt (ckey d) = 0"
    using parse_one_field [OF assms(2,3,11,12) tk slot, of sub m] by blast
  have "field_ok (tlv_parse_field sub d a m t (ps\<lparr>ps_counts := cnt\<rparr>)) d a w (enc_val m d w) (ps\<lparr>ps_counts := cnt\<rparr>)"
    using parse_field_ok [OF assms(1) wf assms(5-7), of "ps\<lparr>ps_counts := cnt\<rparr>"] assms(8,9) by simp
  then obtain u ps' where 2: "tlv_parse_field sub d a m t (ps\<lparr>ps_counts := cnt\<rparr>) = Some (True, u, ps')" "tm_presence (ps_mem ps') a \<noteq> 0"
    "holds_val (ps_mem ps') d a w" "untouched a (a + ?v) (ps_mem ps) (ps_mem ps')" "ps_counts ps' = cnt"
    "ps_avail ps' + tlv_nodes [enc_val m d w] = ps_avail ps + 1" "tlv_nodes [u] = tlv_nodes [enc_val m d w]"
    unfolding field_ok_def by auto
  have "tm_presence (ps_mem ps') (a0 + ?v * i) \<noteq> 0" if "i < Suc j" for i
  proof (cases "i = j")
    case False
    then have "i < j" "a0 + ?v * i < a" using that assms(4) sz by simp_all
    then show ?thesis using pre 2(4) by (auto simp: untouched_def)
  qed (use 2(2) assms(4) in simp)
  moreover have "c \<noteq> 0 \<longrightarrow> b" using field_single [OF assms(3)] by auto
  ultimately show ?thesis using 1 2 by (intro exI [of _ u] exI [of _ ps']) auto
qed

lemma parse_occs_ok:
  assumes "sub_parses n m sub" "desc_wf (Suc n) parent" "(d, a0, j + c, b) \<in> set (fields (d_children parent) p)"
    and "a = a0 + unat (d_vsize d) * j" "holds_occs m0 d a c ws" "list_all2 carries (enc_occs m d ws) ts" "deep_fits m (enc_occs m d ws)"
    and "tlv_nodes (enc_occs m d ws) \<le> ps_avail ps + length (enc_occs m d ws)" "clear a (a + unat (d_vsize d) * c) (ps_mem ps)"
    and "\<forall>i<j. tm_presence (ps_mem ps) (a0 + unat (d_vsize d) * i) \<noteq> 0" "counting parent (ps_counts ps)"
    and "ws \<noteq> [] \<Longrightarrow> count_of (ps_counts ps) (ckey d) = 0"
  shows "list_ok (tlv_parse_list sub parent p m ts ps) parent (\<lambda>mem. holds_occs mem d a c ws) {ckey d} a (a + unat (d_vsize d) * c) (enc_occs m d ws) ps"
  using assms(3-)
proof (induction ws arbitrary: a c j ts ps)
  case Nil
  have wf: "field_wf n d" using desc_wf_fields [OF assms(2) Nil.prems(1)] .
  have "holds_occs (ps_mem ps) d a c []" using Nil.prems(7) field_wf_size [OF wf] by (cases c) (auto simp: clear_def)
  then show ?case using Nil.prems by (auto simp: list_ok_def)
next
  case (Cons w ws)
  let ?v = "unat (d_vsize d)"
  have wf: "field_wf n d" using desc_wf_fields [OF assms(2) Cons.prems(1)] .
  obtain c' where c: "c = Suc c'" using Cons.prems(3) by (cases c) auto
  have h: "holds_val m0 d a w" "holds_occs m0 d (a + ?v) c' ws" using Cons.prems(3) by (auto simp: c)
  obtain t ts1 where ts: "ts = t # ts1" "carries (enc_val m d w) t" "list_all2 carries (enc_occs m d ws) ts1"
    using Cons.prems(4) by (auto simp: list_all2_Cons1)
  have n: "tlv_nodes (enc_occs m d (w # ws)) = tlv_nodes [enc_val m d w] + tlv_nodes (enc_occs m d ws)"
    using tlv_nodes_Cons(1) [of "enc_val m d w" "enc_occs m d ws"] by simp
  have fit: "deep_fits m [enc_val m d w]" "deep_fits m (enc_occs m d ws)" using Cons.prems(5) by (auto simp: deep_fits_Cons)
  have av: "tlv_nodes [enc_val m d w] \<le> ps_avail ps + 1" using Cons.prems(6) n nodes_length [of "enc_occs m d ws"] by simp
  have z: "count_of (ps_counts ps) (ckey d) = 0" using Cons.prems(10) by simp
  have "clear a (a + ?v) (ps_mem ps)" using clear_sub [OF Cons.prems(7), of a "a + ?v"] by (simp add: c)
  then obtain u ps1 where 1: "tlv_parse_one sub parent p m t ps = Some (True, u, ps1)" "holds_val (ps_mem ps1) d a w"
    "untouched a (a + ?v) (ps_mem ps) (ps_mem ps1)" "\<forall>i<Suc j. tm_presence (ps_mem ps1) (a0 + ?v * i) \<noteq> 0" "counting parent (ps_counts ps1)"
    "\<forall>k. k \<noteq> ckey d \<longrightarrow> count_of (ps_counts ps1) k = count_of (ps_counts ps) k" "c' \<noteq> 0 \<longrightarrow> count_of (ps_counts ps1) (ckey d) = 0"
    "ps_avail ps1 + tlv_nodes [enc_val m d w] = ps_avail ps + 1" "tlv_nodes [u] = tlv_nodes [enc_val m d w]"
    using parse_occ_ok [OF assms(1,2) Cons.prems(1) [unfolded c] Cons.prems(2) h(1) ts(2) fit(1) av _ Cons.prems(8,9) z] by blast
  have cl: "clear (a + ?v) (a + ?v + ?v * c') (ps_mem ps1)"
    using clear_untouched [OF _ 1(3)] clear_sub [OF Cons.prems(7), of "a + ?v" "a + ?v + ?v * c'"] by (simp add: c add.assoc)
  have zero: "count_of (ps_counts ps1) (ckey d) = 0" if "ws \<noteq> []" using 1(7) h(2) that by (cases ws) auto
  have "list_ok (tlv_parse_list sub parent p m ts1 ps1) parent (\<lambda>mem. holds_occs mem d (a + ?v) c' ws) {ckey d} (a + ?v) (a + ?v + ?v * c') (enc_occs m d ws) ps1"
    using Cons.prems(1,2,6) h(2) ts(3) fit(2) n 1(4,5,8) cl zero by (intro Cons.IH [of "Suc j"]) (simp_all add: c add.assoc)
  then obtain ts2 ps2 where 2: "tlv_parse_list sub parent p m ts1 ps1 = Some (True, ts2, ps2)" "holds_occs (ps_mem ps2) d (a + ?v) c' ws"
    "untouched (a + ?v) (a + ?v + ?v * c') (ps_mem ps1) (ps_mem ps2)" "counting parent (ps_counts ps2)"
    "\<forall>k. k \<notin> {ckey d} \<longrightarrow> count_of (ps_counts ps2) k = count_of (ps_counts ps1) k"
    "ps_avail ps2 + tlv_nodes (enc_occs m d ws) = ps_avail ps1 + length (enc_occs m d ws)" "tlv_nodes ts2 = tlv_nodes (enc_occs m d ws)"
    unfolding list_ok_def by blast
  have res: "tlv_parse_list sub parent p m ts ps = Some (True, u # ts2, ps2)" using ts(1) 1(1) 2(1) by simp
  have s: "same_on a (a + ?v) (ps_mem ps1) (ps_mem ps2)" using untouched_same [OF 2(3)] by blast
  then have "holds_val (ps_mem ps2) d a w" using frame_val [OF wf, of "ps_mem ps1" "ps_mem ps2"] 1(2) by (simp add: frames_def)
  moreover have "tm_presence (ps_mem ps2) a \<noteq> 0" using s 1(4) Cons.prems(2) field_wf_size [OF wf] by (auto simp: same_on_def)
  ultimately have "holds_occs (ps_mem ps2) d a c (w # ws)" using 2(2) by (simp add: c)
  moreover have "untouched a (a + ?v * c) (ps_mem ps) (ps_mem ps2)" using untouched_trans [OF 1(3) 2(3)] by (simp add: c add.assoc)
  moreover have "tlv_nodes (u # ts2) = tlv_nodes (enc_occs m d (w # ws))" using tlv_nodes_Cons(1) [of u ts2] 1(9) 2(7) n by simp
  ultimately show ?case unfolding list_ok_def res using 2(4,5,6) n 1(6,8) by (intro exI conjI) auto
qed

lemma parse_fields_ok:
  assumes "sub_parses n m sub" "desc_wf (Suc n) parent" "set fs \<subseteq> set (fields (d_children parent) p)" "distinct (map desc_key (map fst fs))"
    and "laid fs q hi" "holds_fields m0 fs vs" "list_all2 carries (enc_fields m (map fst fs) vs) ts" "deep_fits m (enc_fields m (map fst fs) vs)"
    and "tlv_nodes (enc_fields m (map fst fs) vs) \<le> ps_avail ps + length (enc_fields m (map fst fs) vs)" "clear q hi (ps_mem ps)"
    and "counting parent (ps_counts ps)" "\<forall>f\<in>set fs. count_of (ps_counts ps) (ckey (fst f)) = 0"
  shows "list_ok (tlv_parse_list sub parent p m ts ps) parent (\<lambda>mem. holds_fields mem fs vs) (ckey ` fst ` set fs) q hi (enc_fields m (map fst fs) vs) ps"
  using assms(3-)
proof (induction fs arbitrary: q vs ts ps)
  case Nil
  then show ?case by (cases vs) (auto simp: list_ok_def)
next
  case (Cons f fs)
  obtain d a c b where f: "f = (d, a, c, b)" by (cases f)
  let ?v = "unat (d_vsize d)"
  obtain ws vs' where vs: "vs = ws # vs'" using Cons.prems(4) by (cases vs) (auto simp: f)
  have l: "a = q" "laid fs (q + ?v * c) hi" using Cons.prems(3) by (simp_all add: f)
  have le: "q + ?v * c \<le> hi" using laid_le [OF l(2)] .
  have h: "holds_occs m0 d a c ws" "holds_fields m0 fs vs'" using Cons.prems(4) by (simp_all add: f vs)
  define us us' where "us = enc_occs m d ws" and "us' = enc_fields m (map fst fs) vs'"
  have enc: "enc_fields m (map fst (f # fs)) vs = us @ us'" by (simp add: f vs us_def us'_def)
  obtain ts1 ts2 where ts: "ts = ts1 @ ts2" "list_all2 carries us ts1" "list_all2 carries us' ts2"
    using Cons.prems(5) unfolding enc list_all2_append1 by blast
  have fit: "deep_fits m us" "deep_fits m us'" using Cons.prems(6) unfolding enc by simp_all
  have inf: "(d, a, 0 + c, b) \<in> set (fields (d_children parent) p)" using Cons.prems(1) by (simp add: f)
  have av: "tlv_nodes us + tlv_nodes us' \<le> ps_avail ps + length us + length us'" using Cons.prems(7) unfolding enc by simp
  have cl: "clear a (a + ?v * c) (ps_mem ps)" using clear_sub [OF Cons.prems(8), of a "a + ?v * c"] l(1) le by simp
  have "tlv_nodes us \<le> ps_avail ps + length us" using av nodes_length [of us'] by simp
  then have "list_ok (tlv_parse_list sub parent p m ts1 ps) parent (\<lambda>mem. holds_occs mem d a c ws) {ckey d} a (a + ?v * c) us ps"
    unfolding us_def using h(1) ts(2) fit(1) cl Cons.prems(9,10) by (intro parse_occs_ok [OF assms(1,2) inf]) (simp_all add: us_def f)
  then obtain ts1' ps1 where 1: "tlv_parse_list sub parent p m ts1 ps = Some (True, ts1', ps1)" "holds_occs (ps_mem ps1) d a c ws"
    "untouched a (a + ?v * c) (ps_mem ps) (ps_mem ps1)" "counting parent (ps_counts ps1)"
    "\<forall>k. k \<notin> {ckey d} \<longrightarrow> count_of (ps_counts ps1) k = count_of (ps_counts ps) k"
    "ps_avail ps1 + tlv_nodes us = ps_avail ps + length us" "tlv_nodes ts1' = tlv_nodes us" unfolding list_ok_def by blast
  have other: "ckey (fst g) \<noteq> ckey d" if "g \<in> set fs" for g 
  proof -
    have "desc_key (fst g) \<in> set (map desc_key (map fst fs))" using that by simp
    then show ?thesis using Cons.prems(2) unfolding f ckey_eq by (metis distinct.simps(2) fst_conv list.simps(9))
  qed
  have "clear (q + ?v * c) hi (ps_mem ps1)"
    using clear_untouched [OF _ 1(3) [unfolded l(1)]] clear_sub [OF Cons.prems(8), of "q + ?v * c" hi] by simp
  then have "list_ok (tlv_parse_list sub parent p m ts2 ps1) parent (\<lambda>mem. holds_fields mem fs vs') (ckey ` fst ` set fs) (q + ?v * c) hi us' ps1"
    unfolding us'_def using Cons.prems(1,2,10) l(2) h(2) ts(3) fit(2) av 1(4-6) other by (intro Cons.IH) (simp_all add: us'_def)
  then obtain ts2' ps2 where 2: "tlv_parse_list sub parent p m ts2 ps1 = Some (True, ts2', ps2)" "holds_fields (ps_mem ps2) fs vs'"
    "untouched (q + ?v * c) hi (ps_mem ps1) (ps_mem ps2)" "counting parent (ps_counts ps2)"
    "\<forall>k. k \<notin> ckey ` fst ` set fs \<longrightarrow> count_of (ps_counts ps2) k = count_of (ps_counts ps1) k"
    "ps_avail ps2 + tlv_nodes us' = ps_avail ps1 + length us'" "tlv_nodes ts2' = tlv_nodes us'" unfolding list_ok_def by blast
  have res: "tlv_parse_list sub parent p m ts ps = Some (True, ts1' @ ts2', ps2)" using parse_list_append [OF 1(1)] 2(1) ts(1) by simp
  have "same_on a (a + ?v * c) (ps_mem ps1) (ps_mem ps2)" using untouched_same [OF 2(3)] l(1) by simp
  then have "holds_occs (ps_mem ps2) d a c ws" using frame_occs [OF desc_wf_fields [OF assms(2) inf] 1(2)] by blast
  then have "holds_fields (ps_mem ps2) (f # fs) vs" using 2(2) by (simp add: f vs)
  moreover have "untouched q hi (ps_mem ps) (ps_mem ps2)" using untouched_trans [OF 1(3) [unfolded l(1)] 2(3)] le by simp
  ultimately show ?case unfolding list_ok_def res enc using 1(5-7) 2(4-7) by (intro exI conjI) (auto simp: f)
qed

lemma parse_compound_ok: "sub_parses n m (tlv_parse_compound n m)"
proof (induction n)
  case 0
  then show ?case by (simp add: sub_parses_def)
next
  case (Suc n)
  show ?case unfolding sub_parses_def
  proof (intro allI impI, elim conjE)
    fix d p ts mem avail m0 vs us
    assume us: "us = enc_fields m (field_descs (d_children d)) vs" and wf: "desc_wf (Suc n) d"
      and a: "holds_fields m0 (fields (d_children d) p) vs" "list_all2 carries us ts" "deep_fits m us" "tlv_nodes us \<le> avail + length us"
        "clear p (p + region (d_children d)) mem"
    let ?ps = "\<lparr>ps_counts = no_counts, ps_mem = mem, ps_avail = avail\<rparr>"
    have "list_ok (tlv_parse_list (tlv_parse_compound n m) d p m ts ?ps) d (\<lambda>mem. holds_fields mem (fields (d_children d) p) vs)
        (ckey ` fst ` set (fields (d_children d) p)) p (p + region (d_children d)) (enc_fields m (map fst (fields (d_children d) p)) vs) ?ps"
      using a wf by (intro parse_fields_ok [OF Suc.IH wf _ _ laid_fields]) (simp_all add: fields_descs us counting_def)
    then show "\<exists>ts' mem' avail'. tlv_parse_compound (Suc n) m d p ts mem avail = Some (True, ts', mem', avail')
        \<and> holds_fields mem' (fields (d_children d) p) vs \<and> untouched p (p + region (d_children d)) mem mem'
        \<and> avail' + tlv_nodes us = avail + length us \<and> tlv_nodes ts' = tlv_nodes us"
      unfolding list_ok_def fields_descs us [symmetric] by auto
  qed
qed

lemma parse_ok:
  fixes desc m vs
  defines "us \<equiv> enc_fields m (field_descs (d_children desc)) vs"
  assumes "d_ctype desc = OGS_TLV_MESSAGE" "desc_wf 9 desc" "holds_fields m0 (fields (d_children desc) 0) vs"
    and "concat vs \<noteq> []" "length (wire us) < 2 ^ 32" "deep_fits m us" "tlv_nodes us \<le> avail" "clear 0 (region (d_children desc)) mem"
  shows "\<exists>mem'. ogs_tlv_parse_msg desc (wire us) (of_nat (length (wire us))) m mem avail = Some (OGS_OK, mem', avail)
    \<and> holds_fields mem' (fields (d_children desc) 0) vs"
proof -
  have us: "us \<noteq> []" using enc_fields_Nil_iff [OF assms(4) fields_descs] assms(5) by (simp add: us_def)
  have eq: "us = enc_fields m (field_descs (d_children desc)) vs" by (simp add: us_def)
  have le: "length us \<le> avail" using nodes_length [of us] assms(8) by simp
  have "ogs_tlv_parse_block ([] @ wire us @ []) (length ([] :: bytes)) (of_nat (length (wire us))) m avail = Some (Some (parsed us []), avail - length us)"
    using us deep_fits_all [OF assms(7)] assms(6) le by (intro parse_block_wire) auto
  then have blk: "ogs_tlv_parse_block (wire us) 0 (of_nat (length (wire us))) m avail = Some (Some (parsed us []), avail - length us)" by simp
  have av: "tlv_nodes us \<le> avail - length us + length us" using assms(8) le by simp
  obtain ts' mem' avail' where r: "tlv_parse_compound 9 m desc 0 (parsed us []) mem (avail - length us) = Some (True, ts', mem', avail')"
    "holds_fields mem' (fields (d_children desc) 0) vs" "avail' + tlv_nodes us = avail - length us + length us" "tlv_nodes ts' = tlv_nodes us"
    using parse_compound_ok [of 9 m, unfolded sub_parses_def, rule_format, of us desc vs m0 0 "parsed us []" "avail - length us" mem]
      assms(3,4,7,9) parsed_carries [of us "[]"] av eq by auto
  have "d_children desc \<noteq> []" using assms(4,5) by (cases vs) auto
  then show ?thesis using assms(2) blk r le by (simp add: ogs_tlv_parse_msg_def parse_msg_root_def ogs_tlv_free_all_def)
qed

end
