(* ===== verification/Ogs_Tlv_Bounds.thy ===== *)
theory Ogs_Tlv_Bounds
  imports Ogs_Tlv_Build
begin

text \<open>
  The parser of messages writes nothing outside of the structure, whatever it is given: every address it writes to
  belongs to an element of the layout.
\<close>

text \<open>Structures that are large enough for their members; elements of any form.\<close>

fun desc_room :: "nat \<Rightarrow> ogs_tlv_desc \<Rightarrow> bool" where
  "desc_room 0 d \<longleftrightarrow> False"
| "desc_room (Suc n) d \<longleftrightarrow> more_seq False (d_children d)
     \<and> (\<forall>c\<in>set (d_children d). d_ctype c \<noteq> OGS_TLV_MORE \<longrightarrow> 0 < unat (d_vsize c)
          \<and> (d_ctype c = OGS_TLV_COMPOUND \<longrightarrow> desc_room n c \<and> PRESENCE_SIZE + region (d_children c) \<le> unat (d_vsize c)))"

lemma desc_room_nest: "desc_room n d \<Longrightarrow> desc_nest n d"
  by (induction n arbitrary: d) auto

lemma find_in_layout:
  assumes "tlv_find_desc ds i off0 prev mi ty ins mp = Some (Some (d, k, off))" "more_seq v ds"
    and "v \<Longrightarrow> ds = [] \<or> d_ctype (hd ds) \<noteq> OGS_TLV_MORE"
  shows "d_ctype d = OGS_TLV_MORE
    \<or> (\<exists>j c b. k = i + j \<and> off0 \<le> off \<and> (d, p + (off - off0), c, b) \<in> set (fields ds p) \<and> next_more ds j = (if b then Some c else None))"
  using assms
proof (induction ds p arbitrary: v i off0 prev mi rule: fields.induct)
  case (1 p)
  then show ?case by simp
next
  case (2 x p)
  then have "(d, k, off) = (x, i, off0)" by (auto split: if_splits Option.bind_splits)
  then show ?case by - (rule disjI2, rule exI [of _ 0], auto simp: next_more_def)
next
  case (3 x e ds p)
  have x: "d_ctype x \<noteq> OGS_TLV_MORE" using 3(4,5) by (auto split: if_splits)
  show ?case
  proof (cases "d_type x = ty \<and> d_instance x = ins \<and> mi = mp")
    case True
    then have "(d, k, off) = (x, i, off0)" using 3(3) by simp
    then show ?thesis by - (rule disjI2, rule exI [of _ 0], auto simp: next_more_def)
  next
    case False
    define mi' where "mi' = (if d_type x = ty \<and> d_instance x = ins then mi + 1 else mi)"
    have go: "tlv_find_desc (e # ds) (i + 1) (off0 + unat (d_vsize x)) (Some x) mi' ty ins mp = Some (Some (d, k, off))"
      using 3(3) x False by (simp del: tlv_find_desc.simps(2) add: tlv_find_desc.simps(2) [of x] mi'_def Let_def)
    show ?thesis
    proof (cases "d_ctype e = OGS_TLV_MORE")
      case True
      show ?thesis
      proof (cases "d_type e = ty \<and> d_instance e = ins \<and> mi' = mp")
        case hit: True
        then show ?thesis using go True by simp
      next
        case miss: False
        define mi2 where "mi2 = (if d_type e = ty \<and> d_instance e = ins then mi' + 1 else mi')"
        have "tlv_find_desc ds (i + 2) (off0 + unat (d_vsize x) * unat (d_length e)) (Some e) mi2 ty ins mp = Some (Some (d, k, off))"
          using go True x miss by (simp add: mi2_def Let_def split: if_splits)
        from 3(1) [OF True this, of False] 3(4) True x consider "d_ctype d = OGS_TLV_MORE"
          | j c b where "k = i + 2 + j" "off0 + unat (d_vsize x) * unat (d_length e) \<le> off"
            "(d, p + unat (d_vsize x) * unat (d_length e) + (off - (off0 + unat (d_vsize x) * unat (d_length e))), c, b)
               \<in> set (fields ds (p + unat (d_vsize x) * unat (d_length e)))" "next_more ds j = (if b then Some c else None)"
          by auto
        then show ?thesis
        proof cases
          case 2
          then show ?thesis using True by - (rule disjI2, rule exI [of _ "Suc (Suc j)"], rule exI [of _ c], rule exI [of _ b], auto)
        qed simp
      qed
    next
      case e: False
      from 3(2) [OF e go, of True] 3(4) e x consider "d_ctype d = OGS_TLV_MORE"
        | j c b where "k = i + 1 + j" "off0 + unat (d_vsize x) \<le> off"
          "(d, p + unat (d_vsize x) + (off - (off0 + unat (d_vsize x))), c, b) \<in> set (fields (e # ds) (p + unat (d_vsize x)))"
          "next_more (e # ds) j = (if b then Some c else None)"
        by auto
      then show ?thesis
      proof cases
        case 2
        then have "(d, p + (off - off0), c, b) \<in> set (fields (x # e # ds) p)" using e by auto
        then show ?thesis using 2(1,2,4) by - (rule disjI2, rule exI [of _ "Suc j"], rule exI [of _ c], rule exI [of _ b], auto)
      qed simp
    qed
  qed
qed

lemma laid_member: "(d, a, c, b) \<in> set fs \<Longrightarrow> laid fs p e \<Longrightarrow> p \<le> a \<and> a + unat (d_vsize d) * c \<le> e"
proof (induction fs p e rule: laid.induct)
  case (2 d' a' c' b' fs p e)
  then have l: "a' = p" "laid fs (p + unat (d_vsize d') * c') e" by simp_all
  then show ?case using 2 laid_le [OF l(2)] by auto
qed simp

lemma free_slot_in: "tlv_free_slot mem a v n = Some a' \<Longrightarrow> a \<le> a' \<and> a' + v \<le> a + v * n"
proof (induction n arbitrary: a)
  case (Suc n)
  show ?case
  proof (cases "tm_presence mem a = 0")
    case False
    then have "tlv_free_slot mem (a + v) v n = Some a'" using Suc.prems by simp
    from Suc.IH [OF this] show ?thesis by simp
  qed (use Suc.prems in simp)
qed simp

lemma untouched_step: "untouched lo hi m1 m2 \<Longrightarrow> untouched lo hi m2 m3 \<Longrightarrow> untouched lo hi m1 m3"
  by (simp add: untouched_def)

definition sub_bounded :: "nat \<Rightarrow> tlv_sub \<Rightarrow> bool" where
  "sub_bounded n sub \<longleftrightarrow> (\<forall>d p ts mem avail ok ts' mem' avail'. desc_room n d \<longrightarrow> sub d p ts mem avail = Some (ok, ts', mem', avail')
     \<longrightarrow> untouched p (p + region (d_children d)) mem mem')"

lemma parse_leaf_bounded:
  assumes "tlv_parse_leaf a d t mem = Some (ok, mem')"
  shows "untouched a (a + 1) mem mem'" "d_ctype d = OGS_TLV_MORE \<Longrightarrow> \<not> ok \<and> mem' = mem"
  using assms by (auto simp: tlv_parse_leaf_def untouched_def upd_leaf_def int_octets_def split: option.splits if_splits Option.bind_splits)

lemma parse_field_bounded:
  assumes "sub_bounded n sub" "tlv_parse_field sub d a m t ps = Some (ok, t', ps')"
    and "d_ctype d \<noteq> OGS_TLV_MORE" "0 < unat (d_vsize d)"
    and "d_ctype d = OGS_TLV_COMPOUND \<longrightarrow> desc_room n d \<and> PRESENCE_SIZE + region (d_children d) \<le> unat (d_vsize d)"
  shows "untouched a (a + unat (d_vsize d)) (ps_mem ps) (ps_mem ps')"
proof (cases "d_ctype d = OGS_TLV_COMPOUND")
  case False
  then obtain mem' where "tlv_parse_leaf a d t (ps_mem ps) = Some (ok, mem')" "ps_mem ps' = (if ok then set_presence a mem' else mem')"
    using assms(2) by (auto simp: tlv_parse_field_def split: Option.bind_splits)
  then show ?thesis using parse_leaf_bounded(1) assms(4) by (auto simp: untouched_def set_presence_def)
next
  case True
  then consider "ps_mem ps' = ps_mem ps"
    | emb avail ts' mem' avail' where "sub d (a + PRESENCE_SIZE) emb (ps_mem ps) avail = Some (ok, ts', mem', avail')"
        "ps_mem ps' = (if ok then set_presence a mem' else mem')"
    using assms(2) by (auto simp: tlv_parse_field_def split: Option.bind_splits option.splits)
  then show ?thesis
  proof cases
    case 2
    then have "untouched (a + PRESENCE_SIZE) (a + PRESENCE_SIZE + region (d_children d)) (ps_mem ps) mem'"
      using assms(1,5) True unfolding sub_bounded_def by blast
    then have "untouched a (a + unat (d_vsize d)) (ps_mem ps) mem'" using assms(5) True by (elim untouched_mono) auto
    then show ?thesis using 2(2) assms(4) by (auto simp: untouched_def set_presence_def)
  qed simp
qed

text \<open>The loop over the elements of a compound.\<close>

lemma parse_one_writes:
  assumes "tlv_parse_one sub parent p m t ps = Some (ok, t', ps')" "ps_mem ps' \<noteq> ps_mem ps"
  shows "\<exists>d k off mp ps1 a. tlv_find_desc (d_children parent) 0 0 None 0 (ucast (tl_type t)) (tl_instance t) mp = Some (Some (d, k, off))
    \<and> tlv_parse_field sub d a m t ps1 = Some (ok, t', ps') \<and> ps_mem ps1 = ps_mem ps
    \<and> (case next_more (d_children parent) k of Some c \<Rightarrow> tlv_free_slot (ps_mem ps) (p + off) (unat (d_vsize d)) c = Some a | None \<Rightarrow> a = p + off)"
proof -
  obtain node cnt where n: "tlv_count_node_find (ps_counts ps) (ucast (tl_type t)) (tl_instance t) = Some (node, cnt)"
    using assms(1) by (auto simp: tlv_parse_one_def split: Option.bind_splits)
  then obtain nd where nd: "node = Some nd" using assms by (cases node) (auto simp: tlv_parse_one_def)
  obtain r where r: "tlv_find_desc_by_type_inst parent (ucast (tl_type t)) (tl_instance t) (of_nat (tc_count cnt nd)) = Some r"
    using assms(1) n nd
    by (cases "tlv_find_desc_by_type_inst parent (ucast (tl_type t)) (tl_instance t) (of_nat (tc_count cnt nd))") (auto simp: tlv_parse_one_def)
  then obtain d k off where q: "r = Some (d, k, off)" using assms n nd by (cases r) (auto simp: tlv_parse_one_def)
  note f = r [unfolded tlv_find_desc_by_type_inst_def q]
  show ?thesis
  proof (cases "next_more (d_children parent) k")
    case None
    then have "tlv_parse_field sub d (p + off) m t (ps\<lparr>ps_counts := cnt\<lparr>tc_count := (tc_count cnt)(nd := tc_count cnt nd + 1)\<rparr>\<rparr>) = Some (ok, t', ps')"
      using assms(1) n nd r q by (simp add: tlv_parse_one_def)
    then show ?thesis using f None by fastforce
  next
    case (Some c)
    then obtain a where "tlv_free_slot (ps_mem ps) (p + off) (unat (d_vsize d)) c = Some a"
      using assms n nd r q by (cases "tlv_free_slot (ps_mem ps) (p + off) (unat (d_vsize d)) c") (auto simp: tlv_parse_one_def)
    moreover from this have "tlv_parse_field sub d a m t (ps\<lparr>ps_counts := cnt\<rparr>) = Some (ok, t', ps')"
      using assms(1) n nd r q Some by (simp add: tlv_parse_one_def)
    ultimately show ?thesis using f Some by fastforce
  qed
qed

lemma parse_one_bounded:
  assumes "sub_bounded n sub" "desc_room (Suc n) parent" "tlv_parse_one sub parent p m t ps = Some (ok, t', ps')"
  shows "untouched p (p + region (d_children parent)) (ps_mem ps) (ps_mem ps')"
proof (cases "ps_mem ps' = ps_mem ps")
  case False
  obtain d k off mp ps1 a where h: "tlv_find_desc (d_children parent) 0 0 None 0 (ucast (tl_type t)) (tl_instance t) mp = Some (Some (d, k, off))"
    "tlv_parse_field sub d a m t ps1 = Some (ok, t', ps')" "ps_mem ps1 = ps_mem ps"
    "case next_more (d_children parent) k of Some c \<Rightarrow> tlv_free_slot (ps_mem ps) (p + off) (unat (d_vsize d)) c = Some a | None \<Rightarrow> a = p + off"
    using parse_one_writes [OF assms(3) False] by blast
  have seq: "more_seq False (d_children parent)" using assms(2) by simp
  have "d_ctype d \<noteq> OGS_TLV_MORE"
  proof
    assume "d_ctype d = OGS_TLV_MORE"
    moreover obtain ok' mem' where l: "tlv_parse_leaf a d t (ps_mem ps1) = Some (ok', mem')" using h(2) calculation
      by (cases "tlv_parse_leaf a d t (ps_mem ps1)") (auto simp: tlv_parse_field_def)
    ultimately show False using False h(2,3) parse_leaf_bounded(2) [OF l] by (auto simp: tlv_parse_field_def)
  qed
  then obtain c b where f: "(d, p + off, c, b) \<in> set (fields (d_children parent) p)" "next_more (d_children parent) k = (if b then Some c else None)"
    using find_in_layout [OF h(1) seq, of p] by auto
  have d: "0 < unat (d_vsize d)" "d_ctype d = OGS_TLV_COMPOUND \<longrightarrow> desc_room n d \<and> PRESENCE_SIZE + region (d_children d) \<le> unat (d_vsize d)"
    using assms(2) field_in [OF f(1)] \<open>d_ctype d \<noteq> OGS_TLV_MORE\<close> by auto
  have w: "untouched a (a + unat (d_vsize d)) (ps_mem ps) (ps_mem ps')"
    using parse_field_bounded [OF assms(1) h(2) \<open>d_ctype d \<noteq> OGS_TLV_MORE\<close> d] h(3) by simp
  have r: "p \<le> p + off" "p + off + unat (d_vsize d) * c \<le> p + region (d_children parent)"
    using laid_member [OF f(1) laid_fields] by simp_all
  have "p \<le> a \<and> a + unat (d_vsize d) \<le> p + region (d_children parent)"
  proof (cases b)
    case True
    then have "tlv_free_slot (ps_mem ps) (p + off) (unat (d_vsize d)) c = Some a" using h(4) f(2) by simp
    then show ?thesis using free_slot_in r by fastforce
  next
    case False
    then have "c = 1" "a = p + off" using h(4) f field_single by auto
    then show ?thesis using r by simp
  qed
  then show ?thesis using untouched_mono [OF w] by blast
qed simp

lemma parse_list_bounded:
  assumes "sub_bounded n sub" "desc_room (Suc n) parent" "tlv_parse_list sub parent p m ts ps = Some (ok, ts', ps')"
  shows "untouched p (p + region (d_children parent)) (ps_mem ps) (ps_mem ps')"
  using assms(3)
proof (induction ts arbitrary: ps ok ts')
  case (Cons t ts)
  obtain ok1 t1 ps1 where 1: "tlv_parse_one sub parent p m t ps = Some (ok1, t1, ps1)"
    using Cons.prems by (auto split: Option.bind_splits)
  have w: "untouched p (p + region (d_children parent)) (ps_mem ps) (ps_mem ps1)" using parse_one_bounded [OF assms(1,2) 1] .
  show ?case
  proof (cases ok1)
    case True
    then obtain ok2 ts2 where "tlv_parse_list sub parent p m ts ps1 = Some (ok2, ts2, ps')" using Cons.prems 1 by (auto split: Option.bind_splits)
    then show ?thesis using Cons.IH untouched_step [OF w] by blast
  qed (use w Cons.prems 1 in auto)
qed simp

lemma parse_compound_bounded: "sub_bounded n (tlv_parse_compound n m)"
proof (induction n)
  case (Suc n)
  show ?case unfolding sub_bounded_def
  proof (intro allI impI)
    fix d p ts mem avail ok ts' mem' avail'
    assume a: "desc_room (Suc n) d" "tlv_parse_compound (Suc n) m d p ts mem avail = Some (ok, ts', mem', avail')"
    then obtain ps' where "tlv_parse_list (tlv_parse_compound n m) d p m ts \<lparr>ps_counts = no_counts, ps_mem = mem, ps_avail = avail\<rparr> = Some (ok, ts', ps')"
      "mem' = ps_mem ps'" by (auto split: Option.bind_splits)
    then show "untouched p (p + region (d_children d)) mem mem'" using parse_list_bounded [OF Suc.IH a(1)] by fastforce
  qed
qed (simp add: sub_bounded_def)

lemma parse_root_bounded:
  assumes "desc_room 9 desc" "parse_msg_root desc m mem res = Some (rv, mem', avail)"
  shows "untouched 0 (region (d_children desc)) mem mem'"
  using assms(2) parse_compound_bounded [of 9 m, unfolded sub_bounded_def, rule_format, OF assms(1), of 0]
  by (auto simp: parse_msg_root_def split: prod.splits option.splits Option.bind_splits)

end
