(* ===== verification/Ogs_Tlv_Leak.thy ===== *)
theory Ogs_Tlv_Leak
  imports Ogs_Tlv_Build
begin

text \<open>
  Building when it does not succeed: the loops abort when the pool has fewer nodes than the elements need, and they
  give up at a present element of variable length with length 0, at any depth, having used a node for every element
  before it.
\<close>

section \<open>Too few nodes\<close>

lemma add_leaf_none:
  assumes "field_wf n d" "holds_val (st_mem st) d a v" "d_ctype d \<noteq> OGS_TLV_COMPOUND" "st_avail st = 0"
  shows "tlv_add_leaf e d a m ts st = None"
proof -
  have no: "tlv_append e d m len x ts (st\<lparr>st_mem := mem\<rparr>) = None" for len x mem by (simp add: append_no_node assms(4))
  have no': "tlv_append e d m len x ts st = None" for len x by (simp add: append_no_node assms(4))
  show ?thesis
  proof (cases v)
    case (FInt x)
    then show ?thesis using assms(2) no by (auto simp: tlv_add_leaf_def Let_def split: option.splits)
  next
    case (FStr bs)
    then have "d_ctype d = OGS_TLV_FIXED_STR \<or> d_ctype d = OGS_TLV_VAR_STR \<and> lf_len (tm_leaf (st_mem st) a) \<noteq> 0"
      using assms(2) by (auto simp: is_str_def split: if_splits)
    then show ?thesis using no' by (auto simp: tlv_add_leaf_def int_octets_def)
  next
    case FNull
    then show ?thesis using assms(2) no' by (simp add: tlv_add_leaf_def int_octets_def)
  next
    case (FComp vs)
    then show ?thesis using assms(2,3) by simp
  qed
qed

definition sub_aborts :: "nat \<Rightarrow> tlv_mode \<Rightarrow> (ogs_tlv_desc \<Rightarrow> nat \<Rightarrow> tlv_st \<Rightarrow> (ogs_tlv list option \<times> tlv_st) option) \<Rightarrow> bool" where
  "sub_aborts n m sub \<longleftrightarrow> (\<forall>d p st vs. desc_wf n d \<and> holds_fields (st_mem st) (fields (d_children d) p) vs
     \<and> st_avail st < tlv_nodes (enc_fields m (field_descs (d_children d)) vs) \<longrightarrow> sub d p st = None)"

lemma add_present_none:
  assumes "sub_aborts n m sub" "field_wf n d" "holds_val (st_mem st) d a v" "st_avail st < tlv_nodes [enc_val m d v]"
  shows "tlv_add_present sub e d a m ts st = None"
proof (cases "d_ctype d = OGS_TLV_COMPOUND")
  case False
  have "tlv_nodes [enc_val m d v] = 1" using assms(3) False by (cases v) (auto simp: Let_def)
  then show ?thesis using False add_leaf_none [OF assms(2,3) False] assms(4) by (simp add: tlv_add_present_def)
next
  case True
  then obtain vs where v: "v = FComp vs" "holds_fields (st_mem st) (fields (d_children d) (a + PRESENCE_SIZE)) vs"
    using assms(3) by (cases v) (auto simp: int_octets_def is_str_def split: if_splits)
  have w: "desc_wf n d" using assms(2) True by (simp add: field_wf_def)
  show ?thesis
  proof (cases "st_avail st = 0")
    case True': True
    then show ?thesis using True append_no_node [of st] by (simp add: tlv_add_present_def)
  next
    case False
    let ?st = "st\<lparr>st_avail := st_avail st - 1\<rparr>"
    have "st_avail ?st < tlv_nodes (enc_fields m (field_descs (d_children d)) vs)"
      using assms(4) False by (simp add: v(1))
    moreover have "holds_fields (st_mem ?st) (fields (d_children d) (a + PRESENCE_SIZE)) vs" using v(2) by simp
    ultimately have "sub d (a + PRESENCE_SIZE) ?st = None" using assms(1) w unfolding sub_aborts_def by blast
    then show ?thesis using True False append_node [of st 0 None e d m ts] by (simp add: tlv_add_present_def)
  qed
qed

lemma add_more_none:
  assumes "sub_adds n m sub" "sub_aborts n m sub" "field_wf n d"
    and "holds_occs (st_mem st) d a c ws" "st_avail st < tlv_nodes (enc_occs m d ws)"
  shows "tlv_add_more sub e d c a m ts st = None"
  using assms(4,5)
proof (induction ws arbitrary: a c ts st)
  case (Cons w ws)
  let ?v = "unat (d_vsize d)"
  obtain c' where c: "c = Suc c'" using Cons.prems(1) by (cases c) auto
  have h: "tm_presence (st_mem st) a \<noteq> 0" "holds_val (st_mem st) d a w" "holds_occs (st_mem st) d (a + ?v) c' ws"
    using Cons.prems(1) by (auto simp: c)
  have n: "tlv_nodes (enc_occs m d (w # ws)) = tlv_nodes [enc_val m d w] + tlv_nodes (enc_occs m d ws)"
    using tlv_nodes_Cons(1) [of "enc_val m d w" "enc_occs m d ws"] by simp
  show ?case
  proof (cases "st_avail st < tlv_nodes [enc_val m d w]")
    case True
    then show ?thesis using add_present_none [OF assms(2,3) h(2) True] h(1) by (simp add: c)
  next
    case False
    then obtain new st' where 1: "tlv_add_present sub e d a m ts st = Some (Some (ts @ new), st')"
      "st_avail st' + tlv_nodes [enc_val m d w] = st_avail st" "untouched a (a + ?v) (st_mem st) (st_mem st')"
      using add_present_ok [OF assms(1,3) h(2), of e ts] unfolding add_ok_def by auto
    have "holds_occs (st_mem st') d (a + ?v) c' ws"
      using frame_occs [OF assms(3) h(3)] untouched_same [OF 1(3)] by blast
    then have "tlv_add_more sub e d c' (a + ?v) m (ts @ new) st' = None"
      using Cons.prems(2) n 1(2) by (intro Cons.IH) auto
    then show ?thesis using 1(1) h(1) by (simp add: c)
  qed
qed simp

lemma add_fields_none:
  assumes "sub_adds n m sub" "sub_aborts n m sub" "\<forall>f\<in>set fs. field_wf n (fst f)" "laid fs p hi"
    and "holds_fields (st_mem st) fs vs" "st_avail st < tlv_nodes (enc_fields m (map fst fs) vs)"
  shows "add_fields sub e fs m ts st = None"
  using assms(3-)
proof (induction fs arbitrary: p vs ts st)
  case Nil
  then show ?case by (cases vs) auto
next
  case (Cons f fs)
  obtain d a c b where f: "f = (d, a, c, b)" by (cases f)
  let ?v = "unat (d_vsize d)"
  obtain ws vs' where vs: "vs = ws # vs'" using Cons.prems(3) by (cases vs) (auto simp: f)
  have l: "a = p" "laid fs (p + ?v * c) hi" using Cons.prems(2) by (simp_all add: f)
  have h: "holds_occs (st_mem st) d a c ws" "holds_fields (st_mem st) fs vs'" using Cons.prems(3) by (simp_all add: f vs)
  have wf: "field_wf n d" "\<forall>f\<in>set fs. field_wf n (fst f)" using Cons.prems(1) by (simp_all add: f)
  have n: "tlv_nodes (enc_fields m (map fst (f # fs)) vs) = tlv_nodes (enc_occs m d ws) + tlv_nodes (enc_fields m (map fst fs) vs')"
    by (simp add: f vs)
  show ?case
  proof (cases "st_avail st < tlv_nodes (enc_occs m d ws)")
    case True
    then show ?thesis using add_more_none [OF assms(1,2) wf(1) h(1) True] by (simp add: f)
  next
    case False
    then obtain new st' where 1: "tlv_add_more sub e d c a m ts st = Some (Some (ts @ new), st')"
      "st_avail st' + tlv_nodes (enc_occs m d ws) = st_avail st" "untouched a (a + ?v * c) (st_mem st) (st_mem st')"
      using add_more_ok [OF assms(1) wf(1) h(1), of e ts] unfolding add_ok_def by auto
    have "same_on (p + ?v * c) hi (st_mem st) (st_mem st')" using untouched_same [OF 1(3)] l(1) by simp
    then have "holds_fields (st_mem st') fs vs'" using frame_fields [OF wf(2) l(2) h(2)] by blast
    then have "add_fields sub e fs m (ts @ new) st' = None"
      using Cons.prems(4) n 1(2) wf(2) l(2) by (intro Cons.IH) auto
    then show ?thesis using 1(1) by (simp add: f)
  qed
qed

lemma add_compound_none: "sub_aborts n m (tlv_add_compound n e m)"
proof (induction n arbitrary: e)
  case 0
  then show ?case by (simp add: sub_aborts_def)
next
  case (Suc n)
  show ?case unfolding sub_aborts_def
  proof (intro allI impI, elim conjE)
    fix d p vs and st :: tlv_st
    assume a: "desc_wf (Suc n) d" "holds_fields (st_mem st) (fields (d_children d) p) vs"
      "st_avail st < tlv_nodes (enc_fields m (field_descs (d_children d)) vs)"
    have "\<forall>f\<in>set (fields (d_children d) p). field_wf n (fst f)" using desc_wf_fields [OF a(1)] by (metis prod.collapse)
    then show "tlv_add_compound (Suc n) e m d p st = None"
      using add_fields_none [OF add_compound_ok Suc.IH [of True] _ laid_fields a(2), of e "[]"] a(3)
      by (simp add: add_children_fields fields_descs)
  qed
qed

section \<open>An element of length 0\<close>

text \<open>A structure in which an element of variable length is present with length 0, at any depth and at any place of an
  array, and every element before it has a value; \<open>k\<close> is the number of nodes of the elements before it, the
  compounds it lies in included.\<close>

inductive zero_val :: "tlv_mode \<Rightarrow> tlv_mem \<Rightarrow> ogs_tlv_desc \<Rightarrow> nat \<Rightarrow> nat \<Rightarrow> bool"
and zero_occs :: "tlv_mode \<Rightarrow> tlv_mem \<Rightarrow> ogs_tlv_desc \<Rightarrow> nat \<Rightarrow> nat \<Rightarrow> nat \<Rightarrow> bool"
and zero_fields :: "tlv_mode \<Rightarrow> tlv_mem \<Rightarrow> field list \<Rightarrow> nat \<Rightarrow> bool"
for m :: tlv_mode and mem :: tlv_mem where
  zero_leaf: "d_ctype d = OGS_TLV_VAR_STR \<Longrightarrow> lf_len (tm_leaf mem a) = 0 \<Longrightarrow> zero_val m mem d a 0"
| zero_comp: "d_ctype d = OGS_TLV_COMPOUND \<Longrightarrow> zero_fields m mem (fields (d_children d) (a + PRESENCE_SIZE)) k
    \<Longrightarrow> zero_val m mem d a (Suc k)"
| zero_occ: "tm_presence mem a \<noteq> 0 \<Longrightarrow> zero_val m mem d a k \<Longrightarrow> zero_occs m mem d a (Suc c) k"
| zero_occ_later: "tm_presence mem a \<noteq> 0 \<Longrightarrow> holds_val mem d a v \<Longrightarrow> zero_occs m mem d (a + unat (d_vsize d)) c k
    \<Longrightarrow> zero_occs m mem d a (Suc c) (tlv_nodes [enc_val m d v] + k)"
| zero_field: "zero_occs m mem d a c k \<Longrightarrow> zero_fields m mem ((d, a, c, b) # fs) k"
| zero_field_later: "holds_occs mem d a c ws \<Longrightarrow> zero_fields m mem fs k
    \<Longrightarrow> zero_fields m mem ((d, a, c, b) # fs) (tlv_nodes (enc_occs m d ws) + k)"

text \<open>A call that gives up after it has used \<open>k\<close> nodes, or aborts when there are fewer.\<close>

definition gives_up :: "('a option \<times> tlv_st) option \<Rightarrow> nat \<Rightarrow> nat \<Rightarrow> bool" where
  "gives_up res k avail \<longleftrightarrow>
     (if k \<le> avail then \<exists>st'. res = Some (None, st') \<and> st_avail st' = avail - k else res = None)"

lemma gives_up_later:
  assumes "gives_up res k avail'" "avail' + j = avail"
  shows "gives_up res (j + k) avail"
  using assms by (auto simp: gives_up_def split: if_splits)

lemma zero_gives_up:
  "zero_val m mem d a k \<Longrightarrow> field_wf n d \<longrightarrow> same_on a (a + unat (d_vsize d)) mem (st_mem st)
     \<longrightarrow> gives_up (tlv_add_present (tlv_add_compound n True m) e d a m ts st) k (st_avail st)"
  "zero_occs m mem d a c k \<Longrightarrow> field_wf n d \<longrightarrow> same_on a (a + unat (d_vsize d) * c) mem (st_mem st)
     \<longrightarrow> gives_up (tlv_add_more (tlv_add_compound n True m) e d c a m ts st) k (st_avail st)"
  "zero_fields m mem fs k \<Longrightarrow> (\<forall>f\<in>set fs. field_wf n (fst f)) \<and> laid fs p hi \<longrightarrow> same_on p hi mem (st_mem st)
     \<longrightarrow> gives_up (add_fields (tlv_add_compound n True m) e fs m ts st) k (st_avail st)"
proof (induction arbitrary: n e ts st and n e ts st and n e ts st p hi rule: zero_val_zero_occs_zero_fields.inducts)
  case (zero_leaf d a)
  show ?case
  proof (intro impI)
    assume w: "field_wf n d" and s: "same_on a (a + unat (d_vsize d)) mem (st_mem st)"
    have "tm_leaf (st_mem st) a = tm_leaf mem a" using s field_wf_size [OF w] by (simp add: same_on_def)
    then show "gives_up (tlv_add_present (tlv_add_compound n True m) e d a m ts st) 0 (st_avail st)"
      using zero_leaf by (simp add: gives_up_def tlv_add_present_def tlv_add_leaf_def int_octets_def)
  qed
next
  case (zero_comp d a k)
  show ?case
  proof (intro impI)
    assume wf: "field_wf n d" and s: "same_on a (a + unat (d_vsize d)) mem (st_mem st)"
    then have w: "desc_wf n d" "PRESENCE_SIZE + region (d_children d) \<le> unat (d_vsize d)"
      using zero_comp(1) by (auto simp: field_wf_def)
    then obtain n' where n: "n = Suc n'" by (cases n) auto
    let ?fs = "fields (d_children d) (a + PRESENCE_SIZE)" and ?st = "st\<lparr>st_avail := st_avail st - 1\<rparr>"
    have sub: "tlv_add_compound n True m d (a + PRESENCE_SIZE) ?st
        = add_fields (tlv_add_compound n' True m) True ?fs m [] ?st" by (simp add: n add_children_fields)
    have "\<forall>f\<in>set ?fs. field_wf n' (fst f)" using desc_wf_fields w(1) n by (metis prod.collapse)
    moreover have "same_on (a + PRESENCE_SIZE) (a + PRESENCE_SIZE + region (d_children d)) mem (st_mem ?st)"
      using same_on_sub [OF s, of "a + PRESENCE_SIZE"] w(2) by simp
    ultimately have IH: "gives_up (tlv_add_compound n True m d (a + PRESENCE_SIZE) ?st) k (st_avail ?st)"
      using zero_comp.IH laid_fields unfolding sub by blast
    show "gives_up (tlv_add_present (tlv_add_compound n True m) e d a m ts st) (Suc k) (st_avail st)"
    proof (cases "st_avail st = 0")
      case True
      then show ?thesis using zero_comp(1) append_no_node [of st] by (simp add: gives_up_def tlv_add_present_def)
    next
      case False
      then show ?thesis using IH zero_comp(1) append_node [of st 0 None e d m ts]
        by (auto simp: gives_up_def tlv_add_present_def split: if_splits)
    qed
  qed
next
  case (zero_occ a d k c)
  show ?case
  proof (intro impI)
    assume w: "field_wf n d" and s: "same_on a (a + unat (d_vsize d) * Suc c) mem (st_mem st)"
    have "tm_presence (st_mem st) a \<noteq> 0" using s field_wf_size [OF w] zero_occ(1) by (simp add: same_on_def)
    moreover have "gives_up (tlv_add_present (tlv_add_compound n True m) e d a m ts st) k (st_avail st)"
      using zero_occ.IH w same_on_sub [OF s, of a "a + unat (d_vsize d)"] by auto
    ultimately show "gives_up (tlv_add_more (tlv_add_compound n True m) e d (Suc c) a m ts st) k (st_avail st)"
      by (auto simp: gives_up_def split: if_splits)
  qed
next
  case (zero_occ_later a d v c k)
  let ?v = "unat (d_vsize d)" and ?j = "tlv_nodes [enc_val m d v]"
  show ?case
  proof (intro impI)
    assume w: "field_wf n d" and s: "same_on a (a + ?v * Suc c) mem (st_mem st)"
    have p: "tm_presence (st_mem st) a \<noteq> 0" using s field_wf_size [OF w] zero_occ_later(1) by (simp add: same_on_def)
    have "same_on a (a + ?v) mem (st_mem st)" using same_on_sub [OF s] by simp
    then have h: "holds_val (st_mem st) d a v" using frame_val [OF w] zero_occ_later(2) unfolding frames_def by blast
    show "gives_up (tlv_add_more (tlv_add_compound n True m) e d (Suc c) a m ts st) (?j + k) (st_avail st)"
    proof (cases "st_avail st < ?j")
      case True
      then show ?thesis using add_present_none [OF add_compound_none w h True] p by (simp add: gives_up_def)
    next
      case False
      then obtain new st' where 1: "tlv_add_present (tlv_add_compound n True m) e d a m ts st = Some (Some (ts @ new), st')"
        "st_avail st' + ?j = st_avail st" "untouched a (a + ?v) (st_mem st) (st_mem st')"
        using add_present_ok [OF add_compound_ok [where e = True and m = m] w h, where e = e and ts = ts] unfolding add_ok_def by auto
      have "same_on (a + ?v) (a + ?v + ?v * c) mem (st_mem st')"
        using same_on_trans [OF same_on_sub [OF s] untouched_same [OF 1(3)]] by simp
      then have "gives_up (tlv_add_more (tlv_add_compound n True m) e d c (a + ?v) m (ts @ new) st') k (st_avail st')"
        using zero_occ_later.IH w by blast
      then show ?thesis using gives_up_later [OF _ 1(2)] 1(1) p by simp
    qed
  qed
next
  case (zero_field d a c k b fs)
  show ?case
  proof (intro impI)
    assume w: "(\<forall>f\<in>set ((d, a, c, b) # fs). field_wf n (fst f)) \<and> laid ((d, a, c, b) # fs) p hi"
      and s: "same_on p hi mem (st_mem st)"
    have "a + unat (d_vsize d) * c \<le> hi" "a = p" using w laid_le by auto
    then have "gives_up (tlv_add_more (tlv_add_compound n True m) e d c a m ts st) k (st_avail st)"
      using zero_field.IH w same_on_sub [OF s, of a] by simp
    then show "gives_up (add_fields (tlv_add_compound n True m) e ((d, a, c, b) # fs) m ts st) k (st_avail st)"
      by (auto simp: gives_up_def split: if_splits)
  qed
next
  case (zero_field_later d a c ws fs k b)
  let ?v = "unat (d_vsize d)" and ?j = "tlv_nodes (enc_occs m d ws)"
  show ?case
  proof (intro impI)
    assume w: "(\<forall>f\<in>set ((d, a, c, b) # fs). field_wf n (fst f)) \<and> laid ((d, a, c, b) # fs) p hi"
      and s: "same_on p hi mem (st_mem st)"
    have l: "a = p" "laid fs (p + ?v * c) hi" "p + ?v * c \<le> hi" and wf: "field_wf n d" "\<forall>f\<in>set fs. field_wf n (fst f)"
      using w laid_le by auto
    have h: "holds_occs (st_mem st) d a c ws"
      using frame_occs [OF wf(1) zero_field_later(1)] same_on_sub [OF s, of a "a + ?v * c"] l by simp
    show "gives_up (add_fields (tlv_add_compound n True m) e ((d, a, c, b) # fs) m ts st) (?j + k) (st_avail st)"
    proof (cases "st_avail st < ?j")
      case True
      then show ?thesis using add_more_none [OF add_compound_ok add_compound_none wf(1) h True] by (simp add: gives_up_def)
    next
      case False
      then obtain new st' where 1: "tlv_add_more (tlv_add_compound n True m) e d c a m ts st = Some (Some (ts @ new), st')"
        "st_avail st' + ?j = st_avail st" "untouched a (a + ?v * c) (st_mem st) (st_mem st')"
        using add_more_ok [OF add_compound_ok [where e = True and m = m] wf(1) h, where e = e and ts = ts] unfolding add_ok_def by auto
      have "same_on (p + ?v * c) hi mem (st_mem st')"
        using same_on_trans [OF same_on_sub [OF s] untouched_same [OF 1(3)]] l(1) by simp
      then have "gives_up (add_fields (tlv_add_compound n True m) e fs m (ts @ new) st') k (st_avail st')"
        using zero_field_later.IH wf(2) l(2) by blast
      then show ?thesis using gives_up_later [OF _ 1(2)] 1(1) by simp
    qed
  qed
qed

section \<open>Builds of messages\<close>

lemma failed_build:
  assumes "d_ctype desc = OGS_TLV_MESSAGE" "desc_wf 9 desc" "zero_fields m (st_mem st) (fields (d_children desc) 0) k"
  shows "gives_up (ogs_tlv_build_msg alloc desc m st) k (st_avail st)"
proof -
  have wf: "\<forall>f\<in>set (fields (d_children desc) 0). field_wf 8 (fst f)"
    using desc_wf_fields [of 8 desc] assms(2) by (metis eval_nat_numeral(3) numeral_eq_Suc prod.collapse)
  have ne: "d_children desc \<noteq> []" using assms(3) by (auto elim: zero_fields.cases)
  have "tlv_add_compound 9 False m desc 0 st
      = add_fields (tlv_add_compound 8 True m) False (fields (d_children desc) 0) m [] st"
    using tlv_add_compound.simps(2) [of 8 False m desc 0 st] by (simp add: add_children_fields)
  then have "gives_up (tlv_add_compound 9 False m desc 0 st) k (st_avail st)"
    using zero_gives_up(3) [OF assms(3), of 8 0 "region (d_children desc)" st False "[]"] wf laid_fields [of "d_children desc" 0] by simp
  then show ?thesis using assms(1) ne by (auto simp: gives_up_def ogs_tlv_build_msg_def split: if_splits)
qed

text \<open>A process builds messages of one kind, from a structure of its own each time: the packets and the nodes left.\<close>

fun build_all ::
  "(nat \<Rightarrow> bool) \<Rightarrow> ogs_tlv_desc \<Rightarrow> tlv_mode \<Rightarrow> tlv_mem list \<Rightarrow> nat \<Rightarrow> (bytes option list \<times> nat) option" where
  "build_all alloc desc mode [] avail = Some ([], avail)"
| "build_all alloc desc mode (mem # mems) avail =
     do { (r, st) \<leftarrow> ogs_tlv_build_msg alloc desc mode \<lparr>st_avail = avail, st_mem = mem\<rparr>;
          (rs, avail') \<leftarrow> build_all alloc desc mode mems (st_avail st);
          Some (r # rs, avail') }"

end
