(* ===== verification/Ogs_Tlv_Props.thy ===== *)
theory Ogs_Tlv_Props
  imports Ogs_Tlv_Parse Ogs_Tlv_Bounds Ogs_Tlv_Leak
begin

text \<open>
  The properties of the element and message codec: rendering writes the reference octets and nothing else, what was
  rendered parses back, a structure that is built and parsed again holds the same values, the parsers return on every
  packet without writing outside of the structure, and two ways in which the code goes wrong.
\<close>

section \<open>Helper lemmas\<close>

lemma wire_readable:
  "list_all2 (\<lambda>t u. tl_type u = tl_type t \<and> tl_instance u = tl_instance t \<and> tl_length u = tlv_len t
      \<and> value_octets (tl_value u) (unat (tl_length u)) = Some (tlv_body t)) ts (parsed ts post)"
  if "\<forall>t\<in>set ts. tlv_fits m t"
  using that by (induction ts) (auto simp: tlv_fits_def value_octets_def)

lemma render_into:
  assumes "values_ok ts" "data + length (wire ts) \<le> length buf" "length (wire ts) \<le> unat room"
  shows "ogs_tlv_render ts buf data room = Some (take data buf @ wire ts @ drop (data + length (wire ts)) buf, length (wire ts))"
proof -
  have "tlv_render ts (take data buf @ drop data buf) data (length (take data buf)) room
      = Some ((take data buf @ wire ts) @ drop (length (wire ts)) (drop data buf), length (take data buf @ wire ts))"
    using assms by (intro render_wire) auto
  moreover have "length (take data buf) = data" using assms(2) by simp
  ultimately show ?thesis by (simp add: ogs_tlv_render_def add.commute)
qed

text \<open>A header that is cut off.\<close>

lemma get_element_cut: "pos < length buf \<Longrightarrow> length buf < pos + tlv_header_len m \<Longrightarrow> tlv_get_element buf pos m = None"
  by (cases m) (auto simp: tlv_get_element_def buf_get16_def buf_get_def tlv_header_len_def split: Option.bind_split)

lemma parse_loop_cut:
  assumes "\<forall>t\<in>set ts. tlv_fits m t" "buf = q @ wire ts @ frag" "blk \<le> length q" "blk + len = length buf"
    and "0 < length frag" "length frag < tlv_header_len m" "length ts < avail"
  shows "tlv_parse_loop (\<lambda>pos. map_option Some (tlv_get_element buf pos m)) blk len avail (length q) acc = None"
  using assms
proof (induction ts arbitrary: q avail acc)
  case Nil
  have "blk + len = length q + length frag" using Nil.prems(2,4) by simp
  then have "length q - blk < len" using Nil.prems(3,5) by linarith
  moreover have "tlv_get_element buf (length q) m = None" using Nil by (intro get_element_cut) simp_all
  ultimately show ?case using Nil.prems(7) by (subst tlv_parse_loop.simps) simp
next
  case (Cons t ts)
  let ?h = "tlv_header m (tl_type t) (tlv_len t) (tl_instance t)"
  have t: "tl_mode t = m" "elem_ok m (tl_type t) (tlv_len t) (tl_instance t)" "length (tlv_body t) = unat (tlv_len t)"
    using Cons.prems(1) by (auto simp: tlv_fits_def)
  have b: "buf = q @ ?h @ tlv_body t @ wire ts @ frag" using Cons.prems(2) t(1) by (simp add: wire_Cons)
  have get: "tlv_get_element buf (length q) m = Some (Tlv m (tl_type t) (tlv_len t) (tl_instance t) (Some (tlv_body t @ wire ts @ frag)) [],
      length (q @ ?h @ tlv_body t))" (is "_ = Some (?t', _)")
    unfolding b using get_element_header [OF t(2)] t(3) by simp
  have "blk + len = length q + (length ?h + length (tlv_body t) + length (wire ts) + length frag)" using Cons.prems(4) unfolding b by simp
  then have lt: "length q - blk < len" using Cons.prems(3,5) by linarith
  have "tlv_parse_loop (\<lambda>pos. map_option Some (tlv_get_element buf pos m)) blk len (avail - 1) (length (q @ ?h @ tlv_body t)) (acc @ [?t']) = None"
    using Cons.prems b by (intro Cons.IH) auto
  then show ?case using lt get Cons.prems(7) by (subst tlv_parse_loop.simps) simp
qed

text \<open>Rendering a list of elements, embedded ones included, writes the reference octets at its place of
  the buffer, leaves the other octets alone and returns the length that was calculated; parsing a block
  of these octets gives elements with the types, instances, lengths and values of the list.\<close>

theorem tlv_render_parse:
  assumes "ts \<noteq> []" "values_ok ts" "\<forall>t\<in>set ts. tlv_fits m t" "length (wire ts) < 2 ^ 32" "length ts \<le> avail"
    and "data + length (wire ts) \<le> length buf"
  defines "len \<equiv> fst (ogs_tlv_calc_length ts)"
  shows "\<exists>out us. ogs_tlv_render ts buf data len = Some (out, unat len)
    \<and> out = take data buf @ wire ts @ drop (data + unat len) buf
    \<and> ogs_tlv_parse_block out data len m avail = Some (Some us, avail - length ts)
    \<and> list_all2 (\<lambda>t u. tl_type u = tl_type t \<and> tl_instance u = tl_instance t \<and> tl_length u = tlv_len t
        \<and> value_octets (tl_value u) (unat (tl_length u)) = Some (tlv_body t)) ts us"
proof -
  have len: "len = of_nat (length (wire ts))" "unat len = length (wire ts)"
    using calc_length_wire [OF assms(2)] assms(4) by (simp_all add: len_def unat_of_nat32)
  let ?pre = "take data buf" and ?post = "drop (data + length (wire ts)) buf"
  have "ogs_tlv_parse_block (?pre @ wire ts @ ?post) (length ?pre) (of_nat (length (wire ts))) m avail = Some (Some (parsed ts ?post), avail - length ts)"
    using assms by (intro parse_block_wire) auto
  moreover have "length ?pre = data" using assms(6) by simp
  ultimately show ?thesis using render_into [OF assms(2,6), of len] wire_readable [OF assms(3)] len by auto
qed

section \<open>Properties\<close>

text \<open>C13. A structure with a well-formed descriptor that holds values fitting the headers is built into a packet, all nodes
  are given back, and parsing the packet into an empty structure succeeds, gives all nodes back
  and leaves exactly the same values there: compounds, arrays and optional elements included.\<close>

theorem tlv_message_roundtrip:
  fixes desc m vs
  defines "us \<equiv> enc_fields m (field_descs (d_children desc)) vs"
  assumes "d_ctype desc = OGS_TLV_MESSAGE" "desc_wf 9 desc" "holds_fields (st_mem st) (fields (d_children desc) 0) vs"
    and "concat vs \<noteq> []" "length (wire us) < 2 ^ 32" "deep_fits m us" "tlv_nodes us \<le> st_avail st"
    and "alloc (length (wire us))" "clear 0 (region (d_children desc)) mem"
  shows "\<exists>pkt st' mem'. ogs_tlv_build_msg alloc desc m st = Some (Some pkt, st') \<and> st_avail st' = st_avail st
    \<and> ogs_tlv_parse_msg desc pkt (of_nat (length pkt)) m mem (st_avail st') = Some (OGS_OK, mem', st_avail st')
    \<and> holds_fields mem' (fields (d_children desc) 0) vs"
proof -
  obtain st' where "ogs_tlv_build_msg alloc desc m st = Some (Some (wire us), st')" "st_avail st' = st_avail st"
    using build_ok [of desc st vs m alloc] assms unfolding us_def by blast
  moreover obtain mem' where "ogs_tlv_parse_msg desc (wire us) (of_nat (length (wire us))) m mem (st_avail st) = Some (OGS_OK, mem', st_avail st)"
    "holds_fields mem' (fields (d_children desc) 0) vs"
    using parse_ok [of desc "st_mem st" vs m "st_avail st" mem] assms unfolding us_def by blast
  ultimately show ?thesis by auto
qed

lemma tlv_message_roundtrip_witness:
  "\<exists>pkt st' mem'. ogs_tlv_build_msg (\<lambda>_. True)
      (Desc OGS_TLV_MESSAGE 50 0 0 0 [Desc OGS_TLV_COMPOUND 1 0 0 40 [Desc OGS_TLV_UINT16 56 2 0 16 [], Desc OGS_TLV_VAR_STR 2 0 0 16 []], Desc OGS_TLV_MORE 0 2 0 0 []])
      OGS_TLV_MODE_T2_L2
      \<lparr>st_avail = 4, st_mem = \<lparr>tm_presence = \<lambda>a. if a = 40 then 0 else 1, tm_leaf = \<lambda>_. \<lparr>lf_int = 0x102, lf_data = Some [5, 6, 7], lf_len = 2\<rparr>\<rparr>\<rparr>
      = Some (Some pkt, st') \<and> st_avail st' = 4
    \<and> ogs_tlv_parse_msg
      (Desc OGS_TLV_MESSAGE 50 0 0 0 [Desc OGS_TLV_COMPOUND 1 0 0 40 [Desc OGS_TLV_UINT16 56 2 0 16 [], Desc OGS_TLV_VAR_STR 2 0 0 16 []], Desc OGS_TLV_MORE 0 2 0 0 []])
      pkt (of_nat (length pkt)) OGS_TLV_MODE_T2_L2 \<lparr>tm_presence = \<lambda>_. 0, tm_leaf = \<lambda>_. \<lparr>lf_int = 0, lf_data = None, lf_len = 0\<rparr>\<rparr> 4 = Some (OGS_OK, mem', 4)
    \<and> lf_int (tm_leaf mem' 8) = 0x102 \<and> tm_presence mem' 40 = 0"
proof -
  let ?c = "[Desc OGS_TLV_UINT16 56 2 0 16 [], Desc OGS_TLV_VAR_STR 2 0 0 16 []]"
  let ?ds = "[Desc OGS_TLV_COMPOUND 1 0 0 40 ?c, Desc OGS_TLV_MORE 0 2 0 0 []]"
  let ?desc = "Desc OGS_TLV_MESSAGE 50 0 0 0 ?ds" and ?vs = "[[FComp [[FInt 0x102], [FStr [5, 6]]]]]"
  let ?st = "\<lparr>st_avail = 4, st_mem = \<lparr>tm_presence = \<lambda>a. if a = 40 then 0 else 1 :: u64, tm_leaf = \<lambda>_. \<lparr>lf_int = 0x102, lf_data = Some [5, 6, 7], lf_len = 2\<rparr>\<rparr>\<rparr>"
  let ?mem = "\<lparr>tm_presence = \<lambda>_. 0 :: u64, tm_leaf = \<lambda>_. \<lparr>lf_int = 0 :: u32, lf_data = None, lf_len = 0\<rparr>\<rparr>"
  have f: "fields ?ds 0 = [(Desc OGS_TLV_COMPOUND 1 0 0 40 ?c, 0, 2, True)]"
    "fields ?c p = [(Desc OGS_TLV_UINT16 56 2 0 16 [], p, 1, False), (Desc OGS_TLV_VAR_STR 2 0 0 16 [], p + 16, 1, False)]" for p
    by simp_all
  have fd: "field_descs ?ds = [Desc OGS_TLV_COMPOUND 1 0 0 40 ?c]" "field_descs ?c = ?c" by (simp_all add: field_descs_def)
  have "desc_wf (Suc (Suc k)) ?desc" for k
    by (simp add: fd desc_key_def is_tv_def PRESENCE_SIZE_def region_def OGS_TLV_MAX_CHILD_DESC_def)
  then have wf: "desc_wf 9 ?desc" by (metis eval_nat_numeral(3) numeral_eq_Suc)
  have h: "holds_fields (st_mem ?st) (fields (d_children ?desc) 0) ?vs"
    by (simp add: int_octets_def is_str_def value_octets_def PRESENCE_SIZE_def)
  have enc: "enc_fields OGS_TLV_MODE_T2_L2 (field_descs (d_children ?desc)) ?vs
      = [Tlv OGS_TLV_MODE_T2_L2 1 0 0 None [Tlv OGS_TLV_MODE_T2_L2 56 2 0 (Some [1, 2]) [], Tlv OGS_TLV_MODE_T2_L2 2 2 0 (Some [5, 6]) []]]" (is "_ = ?us")
    by (simp add: fd int_octets_def be_bytes32_def)
  have w: "wire ?us = [0, 1, 0, 12, 0, 56, 0, 2, 1, 2, 0, 2, 0, 2, 5, 6]"
    by (simp add: tlv_header_def tlv_put_type_def tlv_put_length_def tlv_put_instance_def octets_of_def)
  have fit: "deep_fits OGS_TLV_MODE_T2_L2 ?us"
    by (simp add: tlv_fits_def elem_ok_def tlv_len_def octets_of_def tlv_header_def tlv_put_type_def tlv_put_length_def tlv_put_instance_def)
  obtain pkt st' mem' where "ogs_tlv_build_msg (\<lambda>_. True) ?desc OGS_TLV_MODE_T2_L2 ?st = Some (Some pkt, st')" "st_avail st' = 4"
    "ogs_tlv_parse_msg ?desc pkt (of_nat (length pkt)) OGS_TLV_MODE_T2_L2 ?mem 4 = Some (OGS_OK, mem', 4)" "holds_fields mem' (fields (d_children ?desc) 0) ?vs"
    using tlv_message_roundtrip [OF _ wf h, of OGS_TLV_MODE_T2_L2 "\<lambda>_. True" ?mem] unfolding enc w using fit by (auto simp: clear_def)
  then show ?thesis by (auto simp: PRESENCE_SIZE_def)
qed

text \<open>C14. For a descriptor whose array marks stand behind elements, whose structures have room for their members and
  that nests at most nine levels, both parsers of messages return on every packet with four octets of readable
  memory behind it, write nothing outside of the message structure, and give every node back to the
  pool, whether the packet is accepted or not.\<close>

theorem tlv_parsers_safe:
  assumes "d_ctype desc = OGS_TLV_MESSAGE" "d_children desc \<noteq> []" "desc_room 9 desc" "unat len + 4 \<le> length data"
  shows "(\<exists>rv mem'. ogs_tlv_parse_msg desc data len mode mem avail = Some (rv, mem', avail) \<and> untouched 0 (region (d_children desc)) mem mem')
    \<and> (\<exists>rv mem'. ogs_tlv_parse_msg_desc desc data len mode mem avail = Some (rv, mem', avail) \<and> untouched 0 (region (d_children desc)) mem mem')"
proof
  have nest: "desc_nest 9 desc" using desc_room_nest assms(3) by blast
  then have seq: "more_seq False (d_children desc)" by (simp add: numeral_eq_Suc)
  have h: "tlv_header_len mode \<le> 4" by (rule header_len_pos)
  obtain res where r: "ogs_tlv_parse_block data 0 len mode avail = Some res" "parse_result 4 avail res"
    using parse_block_safe [of 0 len 4 data mode avail] assms(4) h by auto
  obtain rv mem' where "parse_msg_root desc mode mem res = Some (rv, mem', avail)" using parse_root_safe [OF nest h r(2)] by blast
  then show "\<exists>rv mem'. ogs_tlv_parse_msg desc data len mode mem avail = Some (rv, mem', avail) \<and> untouched 0 (region (d_children desc)) mem mem'"
    using parse_root_bounded [OF assms(3)] assms(1,2) r(1) by (simp add: ogs_tlv_parse_msg_def)
  obtain res' where r': "ogs_tlv_parse_block_desc data 0 len mode desc avail = Some res'" "parse_result 4 avail res'"
    using parse_block_desc_safe [of 0 len data desc mode avail] assms(4) seq by auto
  obtain rv mem' where "parse_msg_root desc mode mem res' = Some (rv, mem', avail)" using parse_root_safe [OF nest h r'(2)] by blast
  then show "\<exists>rv mem'. ogs_tlv_parse_msg_desc desc data len mode mem avail = Some (rv, mem', avail) \<and> untouched 0 (region (d_children desc)) mem mem'"
    using parse_root_bounded [OF assms(3)] assms(1,2) r'(1) by (simp add: ogs_tlv_parse_msg_desc_def)
qed

lemma tlv_parsers_safe_witness:
  "\<forall>mem. \<exists>rv mem'. ogs_tlv_parse_msg (Desc OGS_TLV_MESSAGE 1 0 0 0 [Desc OGS_TLV_COMPOUND 7 0 0 40 [Desc OGS_TLV_UINT8 8 1 0 16 []], Desc OGS_TLV_MORE 0 4 0 0 []])
     [0, 7, 0, 0, 1, 2, 3, 4] 4 OGS_TLV_MODE_T2_L2 mem 3 = Some (rv, mem', 3) \<and> untouched 0 160 mem mem'"
  (is "\<forall>mem. ?P mem")
proof
  fix mem
  let ?desc = "Desc OGS_TLV_MESSAGE 1 0 0 0 [Desc OGS_TLV_COMPOUND 7 0 0 40 [Desc OGS_TLV_UINT8 8 1 0 16 []], Desc OGS_TLV_MORE 0 4 0 0 []]"
  have "desc_room (Suc (Suc k)) ?desc" for k by (simp add: PRESENCE_SIZE_def region_def)
  then have room: "desc_room 9 ?desc" by (metis eval_nat_numeral(3) numeral_eq_Suc)
  have "region (d_children ?desc) = 160" by (simp add: region_def)
  then show "?P mem"
    using tlv_parsers_safe [OF _ _ room, of 4 "[0, 7, 0, 0, 1, 2, 3, 4]" OGS_TLV_MODE_T2_L2 mem 3] by simp
qed

text \<open>C15. When a packet ends inside of the header of an element, the parser reads octets behind the packet:
  the length is compared after an element was read only.\<close>

theorem cut_header_read_behind:
  assumes "\<forall>t\<in>set ts. tlv_fits m t" "0 < length frag" "length frag < tlv_header_len m" "length ts < avail"
    and "length (wire ts @ frag) < 2 ^ 32"
  shows "ogs_tlv_parse_block (wire ts @ frag) 0 (of_nat (length (wire ts @ frag))) m avail = None"
proof -
  let ?b = "wire ts @ frag"
  have loop: "tlv_parse_loop (\<lambda>pos. map_option Some (tlv_get_element ?b pos m)) 0 (length ?b) avail (length []) [] = None"
    using parse_loop_cut [OF assms(1), of ?b "[]" frag 0 "length ?b" avail "[]"] assms(2-) by simp
  have "0 < length ?b" "0 < avail" using assms(2,4) by auto
  then show ?thesis using loop assms(5) by (simp add: ogs_tlv_parse_block_def unat_of_nat32 parse_with_loop del: of_nat_add)
qed

lemma cut_header_read_behind_witness:
  "ogs_tlv_parse_block [0, 5, 0, 1, 7, 0, 6, 0] 0 8 OGS_TLV_MODE_T2_L2 3 = None"
  using cut_header_read_behind [of "[Tlv OGS_TLV_MODE_T2_L2 5 1 0 (Some [7]) []]" OGS_TLV_MODE_T2_L2 "[0, 6, 0]" 3]
  by (simp add: tlv_fits_def elem_ok_def tlv_len_def octets_of_def tlv_header_def tlv_put_type_def tlv_put_length_def
      tlv_put_instance_def tlv_header_len_def)

text \<open>C16. When an element of variable length is present with length 0, at the top of the message or in a compound,
  building fails, and the nodes of all the elements before it (compounds it lies in and the elements in compounds
  included) are not given back: a process that builds such messages of a well-formed descriptor, from a structure of
  its own each time, gets no packet from any of them and loses the nodes of each; when fewer nodes are left than the
  next one needs, the assertion on the pool aborts it.\<close>

theorem failed_build_leaks_nodes:
  assumes "d_ctype desc = OGS_TLV_MESSAGE" "desc_wf 9 desc"
    and "list_all2 (\<lambda>mem k. zero_fields mode mem (fields (d_children desc) 0) k) mems ks"
  shows "build_all alloc desc mode mems avail
    = (if sum_list ks \<le> avail then Some (replicate (length mems) None, avail - sum_list ks) else None)"
  using assms(3)
proof (induction mems ks arbitrary: avail rule: list_all2_induct)
  case (Cons mem mems k ks)
  have b: "gives_up (ogs_tlv_build_msg alloc desc mode \<lparr>st_avail = avail, st_mem = mem\<rparr>) k avail"
    using failed_build [OF assms(1,2), of mode "\<lparr>st_avail = avail, st_mem = mem\<rparr>" k] Cons(1) by simp
  show ?case
  proof (cases "k \<le> avail")
    case True
    then obtain st' where "ogs_tlv_build_msg alloc desc mode \<lparr>st_avail = avail, st_mem = mem\<rparr> = Some (None, st')"
      "st_avail st' = avail - k" using b by (auto simp: gives_up_def)
    then show ?thesis using Cons.IH [of "avail - k"] True by auto
  next
    case False
    then show ?thesis using b by (simp add: gives_up_def)
  qed
qed simp

text \<open>A message with an integer, a compound with one more integer, and in that compound an element of length 0: three
  nodes are lost by each build, and the second one finds two nodes.\<close>

lemma failed_build_leaks_nodes_witness:
  "build_all (\<lambda>_. True) (Desc OGS_TLV_MESSAGE 1 0 0 0 [Desc OGS_TLV_UINT8 2 1 0 16 [],
       Desc OGS_TLV_COMPOUND 4 0 0 48 [Desc OGS_TLV_UINT8 5 1 0 16 [], Desc OGS_TLV_VAR_STR 3 0 0 24 []]]) OGS_TLV_MODE_T2_L2
     (replicate 2 \<lparr>tm_presence = \<lambda>_. 1, tm_leaf = \<lambda>_. \<lparr>lf_int = 9, lf_data = None, lf_len = 0\<rparr>\<rparr>) 5 = None"
proof -
  let ?c = "[Desc OGS_TLV_UINT8 5 1 0 16 [], Desc OGS_TLV_VAR_STR 3 0 0 24 []]"
  let ?ds = "[Desc OGS_TLV_UINT8 2 1 0 16 [], Desc OGS_TLV_COMPOUND 4 0 0 48 ?c]"
  let ?desc = "Desc OGS_TLV_MESSAGE 1 0 0 0 ?ds"
  let ?mem = "\<lparr>tm_presence = \<lambda>_. 1 :: u64, tm_leaf = \<lambda>_. \<lparr>lf_int = 9 :: u32, lf_data = None, lf_len = 0\<rparr>\<rparr>"
  have fd: "field_descs ?ds = ?ds" "field_descs ?c = ?c" by (simp_all add: field_descs_def)
  have "desc_wf (Suc (Suc k)) ?desc" for k
    by (simp add: fd desc_key_def is_tv_def PRESENCE_SIZE_def region_def OGS_TLV_MAX_CHILD_DESC_def)
  then have wf: "desc_wf 9 ?desc" by (metis eval_nat_numeral(3) numeral_eq_Suc)
  have int: "holds_occs ?mem (Desc OGS_TLV_UINT8 t 1 0 16 []) a 1 [FInt 9]"
    "tlv_nodes (enc_occs m (Desc OGS_TLV_UINT8 t 1 0 16 []) [FInt 9]) = 1" for t a m
    by (simp_all add: int_octets_def)
  have str: "zero_occs m ?mem (Desc OGS_TLV_VAR_STR 3 0 0 24 []) a (Suc 0) 0" for m a
    by (intro zero_occ zero_leaf) simp_all
  have "zero_fields m ?mem (fields ?c a) (1 + 0)" for m a
    using zero_field_later [OF int(1) zero_field [OF str], where m = m] int(2) by simp
  then have comp: "zero_occs m ?mem (Desc OGS_TLV_COMPOUND 4 0 0 48 ?c) a (Suc 0) 2" for m a
    using zero_occ [OF _ zero_comp, of ?mem a "Desc OGS_TLV_COMPOUND 4 0 0 48 ?c" m 1 0] by (simp add: numeral_2_eq_2)
  have "zero_fields m ?mem (fields ?ds 0) (1 + 2)" for m
    using zero_field_later [OF int(1) zero_field [OF comp], where m = m] int(2) by simp
  then have z: "zero_fields OGS_TLV_MODE_T2_L2 ?mem (fields (d_children ?desc) 0) 3" by (simp add: numeral_3_eq_3)
  have "list_all2 (\<lambda>mem k. zero_fields OGS_TLV_MODE_T2_L2 mem (fields (d_children ?desc) 0) k) (replicate 2 ?mem) (replicate 2 3)"
    by (intro list_all2_all_nthI) (simp_all only: length_replicate nth_replicate z)
  then show ?thesis
    using failed_build_leaks_nodes [OF _ wf, of OGS_TLV_MODE_T2_L2 "replicate 2 ?mem" "replicate 2 3" "\<lambda>_. True" 5]
    by (simp add: sum_list_replicate)
qed

end
