(* ===== verification/Gtp_Message.thy ===== *)
theory Gtp_Message
  imports Ogs_Worker
begin

text \<open>
  Message types, headers and transaction stages of GTPv1-C and GTPv2-C
  (\<open>src/lib/gtp/v1/message.h\<close>, \<open>src/lib/gtp/v2/message.h\<close> and the stage tables at the end of
  \<open>src/lib/gtp/xact.c\<close>). A header is built into and read from the bytes of a packet; multi-byte
  fields that the code keeps in network order are represented by the value a little-endian host
  has in memory.
\<close>

section \<open>Message types\<close>

abbreviation (input) OGS_GTP1_SGSN_CONTEXT_REQUEST_TYPE :: u8 where "OGS_GTP1_SGSN_CONTEXT_REQUEST_TYPE \<equiv> 50"
abbreviation (input) OGS_GTP1_SGSN_CONTEXT_RESPONSE_TYPE :: u8 where "OGS_GTP1_SGSN_CONTEXT_RESPONSE_TYPE \<equiv> 51"
abbreviation (input) OGS_GTP1_SGSN_CONTEXT_ACKNOWLEDGE_TYPE :: u8 where "OGS_GTP1_SGSN_CONTEXT_ACKNOWLEDGE_TYPE \<equiv> 52"
abbreviation (input) OGS_GTP1_RAN_INFORMATION_RELAY_TYPE :: u8 where "OGS_GTP1_RAN_INFORMATION_RELAY_TYPE \<equiv> 70"

abbreviation (input) OGS_GTP2_VERSION_NOT_SUPPORTED_INDICATION_TYPE :: u8 where
  "OGS_GTP2_VERSION_NOT_SUPPORTED_INDICATION_TYPE \<equiv> 3"
abbreviation (input) OGS_GTP2_CREATE_SESSION_REQUEST_TYPE :: u8 where "OGS_GTP2_CREATE_SESSION_REQUEST_TYPE \<equiv> 32"
abbreviation (input) OGS_GTP2_CREATE_SESSION_RESPONSE_TYPE :: u8 where "OGS_GTP2_CREATE_SESSION_RESPONSE_TYPE \<equiv> 33"
abbreviation (input) OGS_GTP2_MODIFY_BEARER_COMMAND_TYPE :: u8 where "OGS_GTP2_MODIFY_BEARER_COMMAND_TYPE \<equiv> 64"
abbreviation (input) OGS_GTP2_MODIFY_BEARER_FAILURE_INDICATION_TYPE :: u8 where
  "OGS_GTP2_MODIFY_BEARER_FAILURE_INDICATION_TYPE \<equiv> 65"
abbreviation (input) OGS_GTP2_DELETE_BEARER_COMMAND_TYPE :: u8 where "OGS_GTP2_DELETE_BEARER_COMMAND_TYPE \<equiv> 66"
abbreviation (input) OGS_GTP2_DELETE_BEARER_FAILURE_INDICATION_TYPE :: u8 where
  "OGS_GTP2_DELETE_BEARER_FAILURE_INDICATION_TYPE \<equiv> 67"
abbreviation (input) OGS_GTP2_BEARER_RESOURCE_COMMAND_TYPE :: u8 where "OGS_GTP2_BEARER_RESOURCE_COMMAND_TYPE \<equiv> 68"
abbreviation (input) OGS_GTP2_BEARER_RESOURCE_FAILURE_INDICATION_TYPE :: u8 where
  "OGS_GTP2_BEARER_RESOURCE_FAILURE_INDICATION_TYPE \<equiv> 69"

section \<open>Stages\<close>

datatype gtp_xact_stage =
  GTP_XACT_UNKNOWN_STAGE | GTP_XACT_INITIAL_STAGE | GTP_XACT_INTERMEDIATE_STAGE | GTP_XACT_FINAL_STAGE

definition OGS_GTP_CMD_XACT_ID :: u32 where
  "OGS_GTP_CMD_XACT_ID = 0x800000"

definition OGS_GTP_MIN_XACT_ID :: u32 where
  "OGS_GTP_MIN_XACT_ID = 1"

definition OGS_GTP1_MIN_XACT_ID :: u32 where
  "OGS_GTP1_MIN_XACT_ID = 0"

definition OGS_GTP1_MAX_XACT_ID :: u32 where
  "OGS_GTP1_MAX_XACT_ID = 65535"

definition is_cmd_xid :: "u32 \<Rightarrow> bool" where
  "is_cmd_xid xid \<longleftrightarrow> xid AND OGS_GTP_CMD_XACT_ID \<noteq> 0"

text \<open>The requests and the responses of the GTPv1 table, by message type. The type
  \<open>OGS_GTP1_SGSN_CONTEXT_RESPONSE_TYPE\<close> (51) alone is intermediate.\<close>

definition gtp1_initial_types :: "u8 list" where
  "gtp1_initial_types =
     [1, 4, 6, 16, 18, 20, 22, 27, 29, 32, 34, 36, 48, 50, 53, 56, 61, 70]"

definition gtp1_final_types :: "u8 list" where
  "gtp1_final_types =
     [2, 5, 7, 17, 19, 21, 23, 28, 30, 33, 35, 37, 49, 52, 54, 57, 62]"

definition ogs_gtp1_xact_get_stage :: "u8 \<Rightarrow> u32 \<Rightarrow> gtp_xact_stage" where
  "ogs_gtp1_xact_get_stage type xid =
     (if type \<in> set gtp1_initial_types then GTP_XACT_INITIAL_STAGE
      else if type = OGS_GTP1_SGSN_CONTEXT_RESPONSE_TYPE then GTP_XACT_INTERMEDIATE_STAGE
      else if type \<in> set gtp1_final_types then GTP_XACT_FINAL_STAGE
      else GTP_XACT_UNKNOWN_STAGE)"

text \<open>The GTPv2 table. The bearer requests 95, 97 and 99 are intermediate when they answer a
  command, that is when their sequence number has its most significant bit set.\<close>

definition gtp2_initial_types :: "u8 list" where
  "gtp2_initial_types =
     [1, 32, 34, 36, 38, 40, 64, 66, 68, 71, 72, 73, 101, 103, 160, 162, 164, 166, 168, 170,
      176, 179, 200, 211]"

definition gtp2_bearer_request_types :: "u8 list" where
  "gtp2_bearer_request_types = [95, 97, 99]"

definition gtp2_final_types :: "u8 list" where
  "gtp2_final_types =
     [2, 3, 33, 35, 37, 39, 41, 65, 67, 69, 70, 96, 98, 100, 102, 104, 161, 163, 165, 167, 169,
      171, 177, 180, 201, 212]"

definition ogs_gtp2_xact_get_stage :: "u8 \<Rightarrow> u32 \<Rightarrow> gtp_xact_stage" where
  "ogs_gtp2_xact_get_stage type xid =
     (if type \<in> set gtp2_initial_types then GTP_XACT_INITIAL_STAGE
      else if type \<in> set gtp2_bearer_request_types
           then (if is_cmd_xid xid then GTP_XACT_INTERMEDIATE_STAGE else GTP_XACT_INITIAL_STAGE)
      else if type \<in> set gtp2_final_types then GTP_XACT_FINAL_STAGE
      else GTP_XACT_UNKNOWN_STAGE)"

section \<open>Sequence numbers and headers\<close>

definition OGS_GTP1_XID_TO_SQN :: "u32 \<Rightarrow> u16" where
  "OGS_GTP1_XID_TO_SQN xid = bswap16 (ucast xid)"

definition OGS_GTP1_SQN_TO_XID :: "u32 \<Rightarrow> u32" where
  "OGS_GTP1_SQN_TO_XID sqn = ucast (bswap16 (ucast sqn))"

definition OGS_GTP2_XID_TO_SQN :: "u32 \<Rightarrow> u32" where
  "OGS_GTP2_XID_TO_SQN xid = bswap32 (push_bit 8 xid)"

definition OGS_GTP2_SQN_TO_XID :: "u32 \<Rightarrow> u32" where
  "OGS_GTP2_SQN_TO_XID sqn = drop_bit 8 (bswap32 sqn)"

definition ogs_gtp2_sqn_key :: "u32 \<Rightarrow> u32" where
  "ogs_gtp2_sqn_key sqn = bswap32 sqn AND 0xffffff"

definition OGS_GTPV1C_HEADER_LEN :: nat where
  "OGS_GTPV1C_HEADER_LEN = 12"

definition OGS_GTPV2C_HEADER_LEN :: nat where
  "OGS_GTPV2C_HEADER_LEN = 12"

definition OGS_GTP2_TEID_LEN :: nat where
  "OGS_GTP2_TEID_LEN = 4"

text \<open>What the caller of \<open>update_tx\<close> describes.\<close>

record gtp_hdesc =
  hd_type :: u8
  hd_teid :: u32

text \<open>A 32-bit and a 16-bit field as they lie in memory, read by a little-endian host.\<close>

definition rd_u32 :: "bytes \<Rightarrow> nat \<Rightarrow> u32 option" where
  "rd_u32 d i =
     (if i + 4 \<le> length d
      then Some (bswap32 (be_word32 (d ! i) (d ! (i + 1)) (d ! (i + 2)) (d ! (i + 3))))
      else None)"

definition rd_u16 :: "bytes \<Rightarrow> nat \<Rightarrow> u16 option" where
  "rd_u16 d i =
     (if i + 2 \<le> length d then Some (bswap16 (be_word16 (d ! i) (d ! (i + 1)))) else None)"

definition rd_u8 :: "bytes \<Rightarrow> nat \<Rightarrow> u8 option" where
  "rd_u8 d i = (if i < length d then Some (d ! i) else None)"

text \<open>The bit fields of the first octet.\<close>

definition hdr_version :: "u8 \<Rightarrow> u8" where
  "hdr_version flags = drop_bit 5 flags"

definition hdr2_teid_presence :: "u8 \<Rightarrow> bool" where
  "hdr2_teid_presence flags = bit flags 3"

definition hdr1_s :: "u8 \<Rightarrow> bool" where
  "hdr1_s flags = bit flags 1"

text \<open>The header that \<open>ogs_gtp_xact_update_tx\<close> pushes in front of the payload.\<close>

definition gtp2_has_teid :: "u8 \<Rightarrow> bool" where
  "gtp2_has_teid type \<longleftrightarrow> type > OGS_GTP2_VERSION_NOT_SUPPORTED_INDICATION_TYPE"

definition gtp2_hlen :: "u8 \<Rightarrow> nat" where
  "gtp2_hlen type =
     (if gtp2_has_teid type then OGS_GTPV2C_HEADER_LEN else OGS_GTPV2C_HEADER_LEN - OGS_GTP2_TEID_LEN)"

definition gtp2_push_header :: "gtp_hdesc \<Rightarrow> u32 \<Rightarrow> bytes \<Rightarrow> bytes" where
  "gtp2_push_header hdesc xid payload =
     (let t = gtp2_has_teid (hd_type hdesc);
          flags = push_bit 5 2 OR (if t then push_bit 3 1 else 0)
      in [flags, hd_type hdesc]
         @ be_bytes16 (of_nat (gtp2_hlen (hd_type hdesc) + length payload - 4))
         @ (if t then be_bytes32 (hd_teid hdesc) else [])
         @ be_bytes32 (push_bit 8 xid)
         @ payload)"

text \<open>The header of \<open>ogs_gtp1_xact_update_tx\<close>: version 1, protocol type GTP, sequence number
  present; the octets after the sequence number are zero.\<close>

definition gtp1_push_header :: "gtp_hdesc \<Rightarrow> u32 \<Rightarrow> bytes \<Rightarrow> bytes" where
  "gtp1_push_header hdesc xid payload =
     [push_bit 5 1 OR push_bit 4 1 OR push_bit 1 1, hd_type hdesc]
     @ be_bytes16 (of_nat (OGS_GTPV1C_HEADER_LEN + length payload - 8))
     @ be_bytes32 (hd_teid hdesc)
     @ be_bytes16 (ucast xid)
     @ [0, 0]
     @ payload"

text \<open>The fields of a received header that the transaction layer uses.\<close>

record gtp2_header =
  h2_type :: u8
  h2_teid_presence :: bool
  h2_sqn :: u32
  h2_sqn_only :: u32

record gtp1_header =
  h1_type :: u8
  h1_s :: bool
  h1_sqn :: u16

definition gtp2_read_header :: "bytes \<Rightarrow> gtp2_header option" where
  "gtp2_read_header d =
     do { flags \<leftarrow> rd_u8 d 0;
          type \<leftarrow> rd_u8 d 1;
          sqn_only \<leftarrow> rd_u32 d 4;
          sqn \<leftarrow> (if hdr2_teid_presence flags then rd_u32 d 8 else Some 0);
          Some \<lparr>h2_type = type, h2_teid_presence = hdr2_teid_presence flags, h2_sqn = sqn,
                h2_sqn_only = sqn_only\<rparr> }"

definition gtp1_read_header :: "bytes \<Rightarrow> gtp1_header option" where
  "gtp1_read_header d =
     do { flags \<leftarrow> rd_u8 d 0;
          type \<leftarrow> rd_u8 d 1;
          sqn \<leftarrow> rd_u16 d 8;
          Some \<lparr>h1_type = type, h1_s = hdr1_s flags, h1_sqn = sqn\<rparr> }"

section \<open>Routing of replies to shards\<close>

definition ogs_gtp2_xact_is_local_reply :: "gtp_xact_stage \<Rightarrow> u32 \<Rightarrow> bool" where
  "ogs_gtp2_xact_is_local_reply stage xid \<longleftrightarrow>
     stage = GTP_XACT_INTERMEDIATE_STAGE \<or> (stage = GTP_XACT_FINAL_STAGE \<and> \<not> is_cmd_xid xid)"

text \<open>\<open>ogs_gtp2_rx_reply_shard\<close>: the shard of a reply, \<open>-1\<close> for everything else. The model
  aborts (\<open>None\<close>) where the code reads behind the packet: with a TEID the sequence number is at
  offset 8, but only 8 bytes are checked.\<close>

definition ogs_gtp2_rx_reply_shard :: "bool \<Rightarrow> bytes \<Rightarrow> int option" where
  "ogs_gtp2_rx_reply_shard shards_active d =
     (if \<not> shards_active \<or> length d < 8 \<or> hdr_version (d ! 0) \<noteq> 2 then Some (-1)
      else do {
        sqn \<leftarrow> (if hdr2_teid_presence (d ! 0) then rd_u32 d 8 else rd_u32 d 4);
        let xid = OGS_GTP2_SQN_TO_XID sqn;
        let stage = ogs_gtp2_xact_get_stage (d ! 1) xid;
        if \<not> ogs_gtp2_xact_is_local_reply stage xid then Some (-1)
        else Some (uint (drop_bit (23 - OGS_WORKER_ID_BITS) xid AND (push_bit OGS_WORKER_ID_BITS 1 - 1))) })"

definition ogs_gtp1_rx_reply_shard :: "bool \<Rightarrow> bytes \<Rightarrow> int option" where
  "ogs_gtp1_rx_reply_shard shards_active d =
     (if \<not> shards_active \<or> length d < OGS_GTPV1C_HEADER_LEN then Some (-1)
      else if hdr_version (d ! 0) \<noteq> 1 \<or> \<not> hdr1_s (d ! 0) then Some (-1)
      else do {
        sqn \<leftarrow> rd_u16 d 8;
        let xid = OGS_GTP1_SQN_TO_XID (ucast sqn);
        let stage = ogs_gtp1_xact_get_stage (d ! 1) xid;
        if stage \<noteq> GTP_XACT_INTERMEDIATE_STAGE \<and> stage \<noteq> GTP_XACT_FINAL_STAGE then Some (-1)
        else Some (uint (drop_bit (16 - OGS_WORKER_ID_BITS) xid AND (push_bit OGS_WORKER_ID_BITS 1 - 1))) })"

end
