(* ===== verification/Xact_Base.thy ===== *)
theory Xact_Base
  imports Gtp_Message Ogs_Pool
begin

text \<open>
  What the GTP and the PFCP transaction layers share: the timers of a transaction, its message
  history, and the removal of a node from an intrusive list.
\<close>

text \<open>A timer of the transaction: allocated and idle, or running with a duration. A null timer
  pointer is \<open>None\<close> in the fields below.\<close>

datatype tm = Tm_Idle | Tm_Running ogs_time

record xact_seq =
  sq_type :: u8
  sq_pkbuf :: "bytes option"

text \<open>\<open>if (tm) ogs_timer_start(tm, d)\<close>, with the assertion that the duration is not zero.\<close>

definition tm_start :: "tm option \<Rightarrow> ogs_time \<Rightarrow> tm option option" where
  "tm_start t d =
     (case t of None \<Rightarrow> Some None | Some _ \<Rightarrow> do { ogs_assert (d \<noteq> 0); Some (Some (Tm_Running d)) })"

definition tm_stop :: "tm option \<Rightarrow> tm option" where
  "tm_stop t = map_option (\<lambda>_. Tm_Idle) t"

definition tm_count :: "tm option \<Rightarrow> nat" where
  "tm_count t = (case t of None \<Rightarrow> 0 | Some _ \<Rightarrow> 1)"

text \<open>\<open>ogs_list_remove\<close> of a node that is on the list removes it; the node of a transaction that
  was never put on a list has null links, and then both ends of the list are set to null.\<close>

definition list_remove :: "nat list \<Rightarrow> nat \<Rightarrow> nat list" where
  "list_remove l s = (if s \<in> set l then remove1 s l else [])"

lemma list_remove_member:
  "distinct l \<Longrightarrow> s \<in> set l \<Longrightarrow> t \<in> set (list_remove l s) \<longleftrightarrow> t \<in> set l \<and> t \<noteq> s"
  "distinct l \<Longrightarrow> s \<in> set l \<Longrightarrow> distinct (list_remove l s)"
  "s \<in> set l \<Longrightarrow> int (length (list_remove l s)) = int (length l) - 1"
proof -
  show "int (length (list_remove l s)) = int (length l) - 1" if "s \<in> set l"
  proof -
    have "1 \<le> length l" using that by (cases l) auto
    then show ?thesis using that by (simp add: list_remove_def length_remove1 of_nat_diff)
  qed
qed (auto simp: list_remove_def)

lemma tm_start_Some:
  assumes "tm_start t d = Some t'"
  shows "tm_count t' = tm_count t" "t' = map_option (\<lambda>_. Tm_Running d) t"
  using assms by (auto simp: tm_start_def tm_count_def split: option.splits if_splits)

lemma tm_start_total: "d \<noteq> 0 \<Longrightarrow> \<exists>t'. tm_start t d = Some t'"
  by (cases t) (simp_all add: tm_start_def)

lemma tm_stop_not_running [simp]: "tm_stop t \<noteq> Some (Tm_Running d)"
  by (cases t) (simp_all add: tm_stop_def)

lemma find_Some_in: "find P l = Some s \<Longrightarrow> s \<in> set l \<and> P s"
  by (auto simp: find_Some_iff)

end
