(* ===== verification/Gtp_Xact.thy ===== *)
theory Gtp_Xact
  imports Xact_Base
begin

text \<open>
  The GTP transaction layer of \<open>src/lib/gtp/xact.c\<close>: creation of local and remote
  transactions, the transmit and receive steps, duplicate handling, commit, retransmission,
  holding and peer timers, matching of received messages, association and deletion.

  The state is what one thread sees: its transaction pool, the slice of every peer's
  \<open>local_list\<close>, \<open>remote_list\<close>, \<open>xact_hash\<close> and counters that belongs to its shard, its timers
  and its transaction id counter. A transaction is named by its position in the pool
  (a pointer of the code), the pool is the abstract pool of \<open>Ogs_Pool\<close>, and the per-shard hash
  table is the finite map it implements (\<open>Ogs_Hash\<close>). Packets handed to the socket and
  expiration callbacks are recorded in \<open>s_sent\<close> and \<open>s_cbs\<close>. Per-IMSI traces are left out.
\<close>

section \<open>State\<close>

definition OGS_GTP_LOCAL_ORIGINATOR :: u8 where
  "OGS_GTP_LOCAL_ORIGINATOR = 0"

definition OGS_GTP_REMOTE_ORIGINATOR :: u8 where
  "OGS_GTP_REMOTE_ORIGINATOR = 1"

record gtp_xact =
  x_id :: nat
  x_gtp_version :: u8
  x_org :: u8
  x_xid :: u32
  x_sqn :: u32
  x_hash_key :: u64
  x_gnode :: nat
  x_cb :: "nat option"
  x_step :: nat
  x_seq :: "xact_seq list"
  x_tm_response :: "tm option"
  x_response_rcount :: u8
  x_lag_defer_count :: u8
  x_tm_holding :: "tm option"
  x_holding_rcount :: u8
  x_tm_peer :: "tm option"
  x_peer_cb :: "nat option"
  x_assoc_xact_id :: nat

text \<open>\<open>memset\<close> to zero; \<open>seq\<close> has three elements.\<close>

definition xact_zero :: gtp_xact where
  "xact_zero =
     \<lparr>x_id = 0, x_gtp_version = 0, x_org = 0, x_xid = 0, x_sqn = 0, x_hash_key = 0, x_gnode = 0,
      x_cb = None, x_step = 0, x_seq = replicate 3 \<lparr>sq_type = 0, sq_pkbuf = None\<rparr>,
      x_tm_response = None, x_response_rcount = 0, x_lag_defer_count = 0,
      x_tm_holding = None, x_holding_rcount = 0, x_tm_peer = None, x_peer_cb = None,
      x_assoc_xact_id = 0\<rparr>"

record gtp_node =
  g_local_list :: "nat list"
  g_remote_list :: "nat list"
  g_xact_hash :: "u64 \<rightharpoonup> nat"
  g_xact_local_count :: int
  g_xact_remote_count :: int

record gtp_state =
  s_ready :: bool
  s_pool :: idpool
  s_xacts :: "nat \<Rightarrow> gtp_xact"
  s_gnodes :: "nat \<Rightarrow> gtp_node"
  s_tm_avail :: nat
  s_xact_id :: u32
  s_sent :: "(nat \<times> bytes) list"
  s_cbs :: "(nat \<times> nat) list"

text \<open>The surroundings of an operation: the thread, the configuration, the event lag reported
  by the registered callback, the socket, and the expiration callbacks of the network function,
  which may change the state.\<close>

record gtp_env =
  e_worker_self :: "nat option"
  e_shards_active :: bool
  e_pool_xact :: nat
  e_n3_response_rcount :: int
  e_t3_response_duration :: ogs_time
  e_n3_holding_rcount :: int
  e_t3_holding_duration :: ogs_time
  e_lag_cb :: "ogs_time option"
  e_sock_open :: "nat \<Rightarrow> bool"
  e_os_sent :: "nat \<Rightarrow> bytes \<Rightarrow> int"
  e_cb :: "nat \<Rightarrow> nat \<Rightarrow> gtp_state \<Rightarrow> gtp_state"

definition xact :: "gtp_state \<Rightarrow> nat \<Rightarrow> gtp_xact" where
  "xact st s = s_xacts st s"

definition upd_xact :: "nat \<Rightarrow> (gtp_xact \<Rightarrow> gtp_xact) \<Rightarrow> gtp_state \<Rightarrow> gtp_state" where
  "upd_xact s f st = st\<lparr>s_xacts := (s_xacts st)(s := f (s_xacts st s))\<rparr>"

definition upd_gnode :: "nat \<Rightarrow> (gtp_node \<Rightarrow> gtp_node) \<Rightarrow> gtp_state \<Rightarrow> gtp_state" where
  "upd_gnode g f st = st\<lparr>s_gnodes := (s_gnodes st)(g := f (s_gnodes st g))\<rparr>"

section \<open>Sockets, timers and lists\<close>

text \<open>\<open>ogs_gtp_sendto\<close> of \<open>path.c\<close>: \<open>e_os_sent\<close> is the result of the system call.\<close>

definition ogs_gtp_sendto :: "gtp_env \<Rightarrow> nat \<Rightarrow> bytes \<Rightarrow> gtp_state \<Rightarrow> ogs_rv \<times> gtp_state" where
  "ogs_gtp_sendto env g pkbuf st =
     (if \<not> e_sock_open env g then (OGS_ERROR, st)
      else let sent = e_os_sent env g pkbuf;
               st' = st\<lparr>s_sent := s_sent st @ [(g, pkbuf)]\<rparr>
           in if sent < 0 \<or> sent \<noteq> int (length pkbuf) then (OGS_ERROR, st') else (OGS_OK, st'))"

text \<open>\<open>ogs_timer_add\<close> takes a timer of the manager's pool, \<open>None\<close> when there is none left.\<close>

definition ogs_timer_add :: "gtp_state \<Rightarrow> gtp_state option" where
  "ogs_timer_add st =
     (if s_tm_avail st = 0 then None else Some (st\<lparr>s_tm_avail := s_tm_avail st - 1\<rparr>))"

definition own_list :: "gtp_state \<Rightarrow> gtp_xact \<Rightarrow> nat list" where
  "own_list st x =
     (if x_org x = OGS_GTP_LOCAL_ORIGINATOR then g_local_list (s_gnodes st (x_gnode x))
      else g_remote_list (s_gnodes st (x_gnode x)))"

definition upd_own_list :: "(nat list \<Rightarrow> nat list) \<Rightarrow> gtp_xact \<Rightarrow> gtp_state \<Rightarrow> gtp_state" where
  "upd_own_list f x =
     (if x_org x = OGS_GTP_LOCAL_ORIGINATOR
      then upd_gnode (x_gnode x) (\<lambda>g. g\<lparr>g_local_list := f (g_local_list g)\<rparr>)
      else upd_gnode (x_gnode x) (\<lambda>g. g\<lparr>g_remote_list := f (g_remote_list g)\<rparr>))"

definition seq_get :: "gtp_xact \<Rightarrow> nat \<Rightarrow> xact_seq option" where
  "seq_get x i = (if i < length (x_seq x) then Some (x_seq x ! i) else None)"

text \<open>\<open>seq[step - 1]\<close>.\<close>

definition seq_last :: "gtp_xact \<Rightarrow> xact_seq option" where
  "seq_last x = (if x_step x = 0 then None else seq_get x (x_step x - 1))"

section \<open>Transaction ids\<close>

definition xact_next_xid :: "gtp_env \<Rightarrow> u32 \<Rightarrow> u32 \<Rightarrow> gtp_state \<Rightarrow> u32 \<times> gtp_state" where
  "xact_next_xid env mn mx st =
     (if e_shards_active env
      then let span = drop_bit OGS_WORKER_ID_BITS (mx - mn + 1);
               base = of_nat (ogs_worker_self_id (e_worker_self env)) * span;
               xid = (s_xact_id st + 1) mod span;
               xid' = (if base + xid < mn then mn - base else xid)
           in (base + xid', st\<lparr>s_xact_id := xid'\<rparr>)
      else let xid = (if s_xact_id st = mx then mn else s_xact_id st + 1)
           in (xid, st\<lparr>s_xact_id := xid\<rparr>))"

section \<open>The index\<close>

definition xact_index_key :: "u8 \<Rightarrow> u8 \<Rightarrow> u32 \<Rightarrow> u64" where
  "xact_index_key org version xid =
     push_bit 40 (ucast org) OR push_bit 32 (ucast version) OR ucast xid"

definition count_add :: "int \<Rightarrow> gtp_xact \<Rightarrow> gtp_state \<Rightarrow> gtp_state" where
  "count_add d x =
     (if x_org x = OGS_GTP_LOCAL_ORIGINATOR
      then upd_gnode (x_gnode x) (\<lambda>g. g\<lparr>g_xact_local_count := g_xact_local_count g + d\<rparr>)
      else upd_gnode (x_gnode x) (\<lambda>g. g\<lparr>g_xact_remote_count := g_xact_remote_count g + d\<rparr>))"

definition xact_index_add :: "nat \<Rightarrow> gtp_state \<Rightarrow> gtp_state" where
  "xact_index_add s st =
     (let x = xact st s;
          key = xact_index_key (x_org x) (x_gtp_version x) (x_xid x);
          st = upd_xact s (\<lambda>x. x\<lparr>x_hash_key := key\<rparr>) st;
          st = (if g_xact_hash (s_gnodes st (x_gnode x)) key = None
                then upd_gnode (x_gnode x) (\<lambda>g. g\<lparr>g_xact_hash := (g_xact_hash g)(key \<mapsto> s)\<rparr>) st
                else st)
      in count_add 1 x st)"

definition xact_index_del :: "nat \<Rightarrow> gtp_state \<Rightarrow> gtp_state" where
  "xact_index_del s st =
     (let x = xact st s;
          st = (if g_xact_hash (s_gnodes st (x_gnode x)) (x_hash_key x) = Some s
                then upd_gnode (x_gnode x) (\<lambda>g. g\<lparr>g_xact_hash := (g_xact_hash g)(x_hash_key x := None)\<rparr>) st
                else st)
      in count_add (-1) x st)"

definition xact_index_get :: "gtp_state \<Rightarrow> nat \<Rightarrow> u8 \<Rightarrow> u8 \<Rightarrow> u32 \<Rightarrow> nat option" where
  "xact_index_get st g org version xid = g_xact_hash (s_gnodes st g) (xact_index_key org version xid)"

definition ogs_gtp_xact_count :: "gtp_state \<Rightarrow> nat \<Rightarrow> u8 \<Rightarrow> int" where
  "ogs_gtp_xact_count st g org =
     (if org = OGS_GTP_LOCAL_ORIGINATOR then g_xact_local_count (s_gnodes st g)
      else g_xact_remote_count (s_gnodes st g))"

section \<open>Lookup\<close>

definition ogs_gtp_xact_find_by_id :: "gtp_state \<Rightarrow> nat \<Rightarrow> nat option" where
  "ogs_gtp_xact_find_by_id st i = ip_ids (s_pool st) i"

definition ogs_gtp_xact_on_list :: "gtp_state \<Rightarrow> nat \<Rightarrow> bool" where
  "ogs_gtp_xact_on_list st s \<longleftrightarrow> s \<in> set (own_list st (xact st s))"

definition ogs_gtp_xact_find_by_id_for_timer :: "gtp_state \<Rightarrow> nat \<Rightarrow> nat option" where
  "ogs_gtp_xact_find_by_id_for_timer st i =
     (if \<not> pool_id_ok i then None
      else case ogs_gtp_xact_find_by_id st i of
             None \<Rightarrow> None
           | Some s \<Rightarrow>
               if x_id (xact st s) \<noteq> i then None
               else if \<not> ogs_gtp_xact_on_list st s then None
               else Some s)"

definition ogs_gtp2_xact_local_match :: "gtp_state \<Rightarrow> nat option \<Rightarrow> u32 \<Rightarrow> u32 \<Rightarrow> int \<Rightarrow> bool" where
  "ogs_gtp2_xact_local_match st s xid rx_key expect_step =
     (case s of
        None \<Rightarrow> False
      | Some s \<Rightarrow>
          let x = xact st s
          in x_gtp_version x = 2 \<and> x_xid x = xid
             \<and> x_org x = OGS_GTP_LOCAL_ORIGINATOR
             \<and> x_sqn x \<noteq> 0 \<and> ogs_gtp2_sqn_key (x_sqn x) = rx_key
             \<and> (expect_step \<ge> 0 \<longrightarrow> int (x_step x) = expect_step))"

definition ogs_gtp2_xact_find_local :: "gtp_state \<Rightarrow> nat list \<Rightarrow> u32 \<Rightarrow> u32 \<Rightarrow> int \<Rightarrow> nat option" where
  "ogs_gtp2_xact_find_local st l xid sqn expect_step =
     find (\<lambda>s. let x = xact st s
               in x_gtp_version x = 2 \<and> x_xid x = xid
                  \<and> x_org x = OGS_GTP_LOCAL_ORIGINATOR
                  \<and> x_sqn x \<noteq> 0 \<and> ogs_gtp2_sqn_key (x_sqn x) = ogs_gtp2_sqn_key sqn
                  \<and> (expect_step \<ge> 0 \<longrightarrow> int (x_step x) = expect_step)) l"

section \<open>Initialisation\<close>

definition ogs_gtp_xact_init :: "gtp_env \<Rightarrow> u32 \<Rightarrow> gtp_state \<Rightarrow> (ogs_rv \<times> gtp_state) option" where
  "ogs_gtp_xact_init env ogs_random32 st =
     do { ogs_assert (\<not> s_ready st);
          Some (OGS_OK,
            st\<lparr>s_pool := idpool_init (e_pool_xact env) (ip_id (s_pool st)),
               s_xact_id := ogs_random32 mod (OGS_GTP1_MAX_XACT_ID + 1),
               s_ready := True\<rparr>) }"

definition ogs_gtp_xact_final :: "gtp_state \<Rightarrow> gtp_state option" where
  "ogs_gtp_xact_final st = do { ogs_assert (s_ready st); Some (st\<lparr>s_ready := False\<rparr>) }"

section \<open>Association and deletion\<close>

definition ogs_gtp_xact_associate :: "nat \<Rightarrow> nat \<Rightarrow> gtp_state \<Rightarrow> gtp_state option" where
  "ogs_gtp_xact_associate s1 s2 st =
     do { ogs_assert (x_assoc_xact_id (xact st s1) = OGS_INVALID_POOL_ID);
          ogs_assert (x_assoc_xact_id (xact st s2) = OGS_INVALID_POOL_ID);
          let i2 = x_id (xact st s2);
          let st = upd_xact s1 (\<lambda>x. x\<lparr>x_assoc_xact_id := i2\<rparr>) st;
          let i1 = x_id (xact st s1);
          Some (upd_xact s2 (\<lambda>x. x\<lparr>x_assoc_xact_id := i1\<rparr>) st) }"

definition ogs_gtp_xact_deassociate :: "nat \<Rightarrow> nat \<Rightarrow> gtp_state \<Rightarrow> gtp_state option" where
  "ogs_gtp_xact_deassociate s1 s2 st =
     do { ogs_assert (x_assoc_xact_id (xact st s1) \<noteq> OGS_INVALID_POOL_ID);
          ogs_assert (x_assoc_xact_id (xact st s2) \<noteq> OGS_INVALID_POOL_ID);
          let st = upd_xact s1 (\<lambda>x. x\<lparr>x_assoc_xact_id := OGS_INVALID_POOL_ID\<rparr>) st;
          Some (upd_xact s2 (\<lambda>x. x\<lparr>x_assoc_xact_id := OGS_INVALID_POOL_ID\<rparr>) st) }"

text \<open>The first part of \<open>ogs_gtp_xact_delete\<close>: every timer that exists is stopped, given back to
  the timer pool and forgotten.\<close>

definition xact_timers_delete :: "nat \<Rightarrow> gtp_state \<Rightarrow> gtp_state" where
  "xact_timers_delete s st =
     (let x = xact st s
      in upd_xact s (\<lambda>x. x\<lparr>x_tm_response := None, x_tm_peer := None, x_tm_holding := None\<rparr>)
           (st\<lparr>s_tm_avail := s_tm_avail st + tm_count (x_tm_response x) + tm_count (x_tm_peer x)
                              + tm_count (x_tm_holding x)\<rparr>))"

definition ogs_gtp_xact_delete :: "nat \<Rightarrow> gtp_state \<Rightarrow> gtp_state option" where
  "ogs_gtp_xact_delete s st =
     do { let st = xact_timers_delete s st;
          st \<leftarrow> (case ogs_gtp_xact_find_by_id st (x_assoc_xact_id (xact st s)) of
                   None \<Rightarrow> Some st
                 | Some a \<Rightarrow> ogs_gtp_xact_deassociate s a st);
          let st = xact_index_del s st;
          let st = upd_own_list (\<lambda>l. list_remove l s) (xact st s) st;
          pool \<leftarrow> idpool_free (s_pool st) s (x_id (xact st s));
          Some (st\<lparr>s_pool := pool\<rparr>) }"

text \<open>\<open>ogs_list_for_each_safe\<close> reads the next transaction before the current one is deleted.\<close>

fun xact_delete_list :: "nat list \<Rightarrow> gtp_state \<Rightarrow> gtp_state option" where
  "xact_delete_list [] st = Some st"
| "xact_delete_list (s # ss) st = do { st \<leftarrow> ogs_gtp_xact_delete s st; xact_delete_list ss st }"

definition ogs_gtp_xact_delete_all :: "nat \<Rightarrow> gtp_state \<Rightarrow> gtp_state option" where
  "ogs_gtp_xact_delete_all g st =
     do { st \<leftarrow> xact_delete_list (g_local_list (s_gnodes st g)) st;
          xact_delete_list (g_remote_list (s_gnodes st g)) st }"

section \<open>Transmit\<close>

text \<open>The step checks of \<open>ogs_gtp1_xact_update_tx\<close> and \<open>ogs_gtp_xact_update_tx\<close>: \<open>None\<close> is
  \<open>ogs_assert_if_reached\<close>, \<open>Some False\<close> an error return.\<close>

definition gtp1_tx_allowed :: "u8 \<Rightarrow> gtp_xact_stage \<Rightarrow> nat \<Rightarrow> bool option" where
  "gtp1_tx_allowed org stage step =
     (if org = OGS_GTP_LOCAL_ORIGINATOR
      then (case stage of
              GTP_XACT_INITIAL_STAGE \<Rightarrow> Some (step = 0)
            | GTP_XACT_INTERMEDIATE_STAGE \<Rightarrow> Some False
            | GTP_XACT_FINAL_STAGE \<Rightarrow> Some (step = 2 \<or> step = 3)
            | GTP_XACT_UNKNOWN_STAGE \<Rightarrow> None)
      else if org = OGS_GTP_REMOTE_ORIGINATOR
      then (case stage of
              GTP_XACT_INITIAL_STAGE \<Rightarrow> Some False
            | GTP_XACT_INTERMEDIATE_STAGE \<Rightarrow> Some (step = 1)
            | GTP_XACT_FINAL_STAGE \<Rightarrow> Some (step = 1)
            | GTP_XACT_UNKNOWN_STAGE \<Rightarrow> Some False)
      else Some False)"

definition gtp2_tx_allowed :: "u8 \<Rightarrow> gtp_xact_stage \<Rightarrow> nat \<Rightarrow> bool option" where
  "gtp2_tx_allowed org stage step =
     (if org = OGS_GTP_LOCAL_ORIGINATOR
      then (case stage of
              GTP_XACT_INITIAL_STAGE \<Rightarrow> Some (step = 0)
            | GTP_XACT_INTERMEDIATE_STAGE \<Rightarrow> Some False
            | GTP_XACT_FINAL_STAGE \<Rightarrow> Some (step = 2)
            | GTP_XACT_UNKNOWN_STAGE \<Rightarrow> None)
      else if org = OGS_GTP_REMOTE_ORIGINATOR
      then (case stage of
              GTP_XACT_INITIAL_STAGE \<Rightarrow> Some False
            | GTP_XACT_INTERMEDIATE_STAGE \<Rightarrow> Some (step = 1)
            | GTP_XACT_FINAL_STAGE \<Rightarrow> Some (step = 1)
            | GTP_XACT_UNKNOWN_STAGE \<Rightarrow> Some False)
      else Some False)"

text \<open>Save the message type and the packet of this step, and advance. Writing \<open>seq[step]\<close>
  behind the end of the array aborts.\<close>

definition xact_save :: "u8 \<Rightarrow> bytes \<Rightarrow> gtp_xact \<Rightarrow> gtp_xact option" where
  "xact_save type pkbuf x =
     do { ogs_assert (x_step x < length (x_seq x));
          Some (x\<lparr>x_seq := (x_seq x)[x_step x := \<lparr>sq_type = type, sq_pkbuf = Some pkbuf\<rparr>],
                  x_step := x_step x + 1\<rparr>) }"

definition ogs_gtp1_xact_update_tx ::
    "nat \<Rightarrow> gtp_hdesc \<Rightarrow> bytes \<Rightarrow> gtp_state \<Rightarrow> (ogs_rv \<times> gtp_state) option" where
  "ogs_gtp1_xact_update_tx s hdesc pkbuf st =
     do { let x = xact st s;
          let stage = ogs_gtp1_xact_get_stage (hd_type hdesc) (x_xid x);
          allowed \<leftarrow> gtp1_tx_allowed (x_org x) stage (x_step x);
          if \<not> allowed then Some (OGS_ERROR, st)
          else do {
            x' \<leftarrow> xact_save (hd_type hdesc) (gtp1_push_header hdesc (x_xid x) pkbuf) x;
            Some (OGS_OK, upd_xact s (\<lambda>_. x') st) } }"

definition ogs_gtp_xact_update_tx ::
    "nat \<Rightarrow> gtp_hdesc \<Rightarrow> bytes \<Rightarrow> gtp_state \<Rightarrow> (ogs_rv \<times> gtp_state) option" where
  "ogs_gtp_xact_update_tx s hdesc pkbuf st =
     do { let x = xact st s;
          let stage = ogs_gtp2_xact_get_stage (hd_type hdesc) (x_xid x);
          allowed \<leftarrow> gtp2_tx_allowed (x_org x) stage (x_step x);
          if \<not> allowed then Some (OGS_ERROR, st)
          else do {
            x' \<leftarrow> xact_save (hd_type hdesc) (gtp2_push_header hdesc (x_xid x) pkbuf)
                    (x\<lparr>x_sqn := OGS_GTP2_XID_TO_SQN (x_xid x)\<rparr>);
            Some (OGS_OK, upd_xact s (\<lambda>_. x') st) } }"

section \<open>Creation\<close>

text \<open>Every failure after the allocation ends in \<open>ogs_gtp_xact_delete\<close> and a null result.\<close>

definition create_fail :: "nat \<Rightarrow> gtp_state \<Rightarrow> (nat option \<times> gtp_state) option" where
  "create_fail s st = do { st \<leftarrow> ogs_gtp_xact_delete s st; Some (None, st) }"

definition xact_calloc :: "gtp_state \<Rightarrow> nat option \<times> gtp_state" where
  "xact_calloc st =
     (case idpool_calloc (s_pool st) of
        (None, pool) \<Rightarrow> (None, st\<lparr>s_pool := pool\<rparr>)
      | (Some (s, i), pool) \<Rightarrow>
          (Some s, upd_xact s (\<lambda>_. xact_zero\<lparr>x_id := i\<rparr>) (st\<lparr>s_pool := pool\<rparr>)))"

text \<open>The three timers with their retry counters.\<close>

definition add_response :: "gtp_env \<Rightarrow> nat \<Rightarrow> gtp_state \<Rightarrow> gtp_state option" where
  "add_response env s st =
     map_option (upd_xact s (\<lambda>x. x\<lparr>x_tm_response := Some Tm_Idle,
         x_response_rcount := of_int (e_n3_response_rcount env)\<rparr>)) (ogs_timer_add st)"

definition add_holding :: "gtp_env \<Rightarrow> nat \<Rightarrow> gtp_state \<Rightarrow> gtp_state option" where
  "add_holding env s st =
     map_option (upd_xact s (\<lambda>x. x\<lparr>x_tm_holding := Some Tm_Idle,
         x_holding_rcount := of_int (e_n3_holding_rcount env)\<rparr>)) (ogs_timer_add st)"

definition add_peer :: "nat \<Rightarrow> gtp_state \<Rightarrow> gtp_state option" where
  "add_peer s st = map_option (upd_xact s (\<lambda>x. x\<lparr>x_tm_peer := Some Tm_Idle\<rparr>)) (ogs_timer_add st)"

text \<open>\<open>ogs_list_add\<close> appends at the tail; then the transaction is entered in the index.\<close>

definition xact_link :: "nat \<Rightarrow> gtp_state \<Rightarrow> gtp_state" where
  "xact_link s st = xact_index_add s (upd_own_list (\<lambda>l. l @ [s]) (xact st s) st)"

definition ogs_gtp1_xact_local_create ::
    "gtp_env \<Rightarrow> nat \<Rightarrow> gtp_hdesc \<Rightarrow> bytes \<Rightarrow> nat option \<Rightarrow> gtp_state \<Rightarrow> (nat option \<times> gtp_state) option" where
  "ogs_gtp1_xact_local_create env g hdesc pkbuf cb st =
     (case xact_calloc st of
        (None, st) \<Rightarrow> Some (None, st)
      | (Some s, st) \<Rightarrow>
          let (xid, st) = xact_next_xid env OGS_GTP1_MIN_XACT_ID OGS_GTP1_MAX_XACT_ID st;
              st = upd_xact s (\<lambda>x. x\<lparr>x_gtp_version := 1, x_org := OGS_GTP_LOCAL_ORIGINATOR,
                     x_xid := xid, x_gnode := g, x_cb := cb\<rparr>) st
          in case (if hd_type hdesc \<noteq> OGS_GTP1_RAN_INFORMATION_RELAY_TYPE
                   then add_response env s st else Some st) of
               None \<Rightarrow> create_fail s st
             | Some st \<Rightarrow>
                 (case add_holding env s st of
                    None \<Rightarrow> create_fail s st
                  | Some st \<Rightarrow>
                      do { (rv, st) \<leftarrow> ogs_gtp1_xact_update_tx s hdesc pkbuf (xact_link s st);
                           if rv \<noteq> OGS_OK then create_fail s st else Some (Some s, st) }))"

definition is_gtp2_command :: "u8 \<Rightarrow> bool" where
  "is_gtp2_command type \<longleftrightarrow>
     type = OGS_GTP2_MODIFY_BEARER_COMMAND_TYPE
     \<or> type = OGS_GTP2_DELETE_BEARER_COMMAND_TYPE
     \<or> type = OGS_GTP2_BEARER_RESOURCE_COMMAND_TYPE"

definition ogs_gtp_xact_local_create ::
    "gtp_env \<Rightarrow> nat \<Rightarrow> gtp_hdesc \<Rightarrow> bytes \<Rightarrow> nat option \<Rightarrow> gtp_state \<Rightarrow> (nat option \<times> gtp_state) option" where
  "ogs_gtp_xact_local_create env g hdesc pkbuf cb st =
     (case xact_calloc st of
        (None, st) \<Rightarrow> Some (None, st)
      | (Some s, st) \<Rightarrow>
          let (xid, st) = xact_next_xid env OGS_GTP_MIN_XACT_ID OGS_GTP_CMD_XACT_ID st;
              xid = (if is_gtp2_command (hd_type hdesc) then xid OR OGS_GTP_CMD_XACT_ID else xid);
              st = upd_xact s (\<lambda>x. x\<lparr>x_gtp_version := 2, x_org := OGS_GTP_LOCAL_ORIGINATOR,
                     x_xid := xid, x_gnode := g, x_cb := cb\<rparr>) st
          in case add_response env s st of
               None \<Rightarrow> create_fail s st
             | Some st \<Rightarrow>
                 (case add_holding env s st of
                    None \<Rightarrow> create_fail s st
                  | Some st \<Rightarrow>
                      (case add_peer s st of
                         None \<Rightarrow> create_fail s st
                       | Some st \<Rightarrow>
                           do { (rv, st) \<leftarrow> ogs_gtp_xact_update_tx s hdesc pkbuf (xact_link s st);
                                if rv \<noteq> OGS_OK then create_fail s st else Some (Some s, st) })))"

definition ogs_gtp_xact_remote_create ::
    "gtp_env \<Rightarrow> nat \<Rightarrow> u8 \<Rightarrow> u32 \<Rightarrow> gtp_state \<Rightarrow> (nat option \<times> gtp_state) option" where
  "ogs_gtp_xact_remote_create env g gtp_version sqn st =
     (case xact_calloc st of
        (None, st) \<Rightarrow> Some (None, st)
      | (Some s, st) \<Rightarrow>
          let xid = (if gtp_version = 1 then OGS_GTP1_SQN_TO_XID sqn else OGS_GTP2_SQN_TO_XID sqn);
              st = upd_xact s (\<lambda>x. x\<lparr>x_gtp_version := gtp_version, x_org := OGS_GTP_REMOTE_ORIGINATOR,
                     x_xid := xid, x_gnode := g\<rparr>) st
          in case add_response env s st of
               None \<Rightarrow> create_fail s st
             | Some st \<Rightarrow>
                 (case add_holding env s st of
                    None \<Rightarrow> create_fail s st
                  | Some st \<Rightarrow>
                      (case add_peer s st of
                         None \<Rightarrow> create_fail s st
                       | Some st \<Rightarrow> Some (Some s, xact_link s st))))"

section \<open>Receive steps\<close>

definition xact_get_stage :: "gtp_xact \<Rightarrow> u8 \<Rightarrow> gtp_xact_stage" where
  "xact_get_stage x type =
     (if x_gtp_version x = 1 then ogs_gtp1_xact_get_stage type (x_xid x)
      else ogs_gtp2_xact_get_stage type (x_xid x))"

text \<open>A duplicated request: the answer stored at \<open>seq[k]\<close> is sent again, if there is one.\<close>

definition rx_duplicate :: "gtp_env \<Rightarrow> nat \<Rightarrow> nat \<Rightarrow> gtp_state \<Rightarrow> (ogs_rv \<times> gtp_state) option" where
  "rx_duplicate env s k st =
     do { let x = xact st s;
          sq \<leftarrow> seq_get x k;
          case sq_pkbuf sq of
            None \<Rightarrow> Some (OGS_RETRY, st)
          | Some pkbuf \<Rightarrow>
              do { t \<leftarrow> tm_start (x_tm_holding x) (e_t3_holding_duration env);
                   let st = upd_xact s (\<lambda>x. x\<lparr>x_tm_holding := t\<rparr>) st;
                   let (_, st) = ogs_gtp_sendto env (x_gnode x) pkbuf st;
                   Some (OGS_RETRY, st) } }"

definition rx_start_holding :: "gtp_env \<Rightarrow> nat \<Rightarrow> gtp_state \<Rightarrow> gtp_state option" where
  "rx_start_holding env s st =
     do { t \<leftarrow> tm_start (x_tm_holding (xact st s)) (e_t3_holding_duration env);
          Some (upd_xact s (\<lambda>x. x\<lparr>x_tm_holding := t\<rparr>) st) }"

text \<open>The common end: the response timer is stopped, the type of this step saved, the step
  advanced.\<close>

definition rx_accept :: "nat \<Rightarrow> u8 \<Rightarrow> gtp_state \<Rightarrow> (ogs_rv \<times> gtp_state) option" where
  "rx_accept s type st =
     do { let x = xact st s;
          ogs_assert (x_step x < length (x_seq x));
          Some (OGS_OK,
            upd_xact s (\<lambda>x. x\<lparr>x_tm_response := tm_stop (x_tm_response x),
              x_seq := (x_seq x)[x_step x := (x_seq x ! x_step x)\<lparr>sq_type := type\<rparr>],
              x_step := x_step x + 1\<rparr>) st) }"

definition ogs_gtp_xact_update_rx ::
    "gtp_env \<Rightarrow> nat \<Rightarrow> u8 \<Rightarrow> gtp_state \<Rightarrow> (ogs_rv \<times> gtp_state) option" where
  "ogs_gtp_xact_update_rx env s type st =
     (let x = xact st s; stage = xact_get_stage x type
      in if x_org x = OGS_GTP_LOCAL_ORIGINATOR
         then (case stage of
                 GTP_XACT_INITIAL_STAGE \<Rightarrow> Some (OGS_ERROR, st)
               | GTP_XACT_INTERMEDIATE_STAGE \<Rightarrow>
                   do { sq \<leftarrow> seq_get x 1;
                        if sq_type sq = type
                        then (if x_step x \<noteq> 2 \<and> x_step x \<noteq> 3 then Some (OGS_ERROR, st)
                              else rx_duplicate env s 2 st)
                        else if x_step x \<noteq> 1 then Some (OGS_ERROR, st)
                        else do { st \<leftarrow> rx_start_holding env s st; rx_accept s type st } }
               | GTP_XACT_FINAL_STAGE \<Rightarrow>
                   if x_step x \<noteq> 1 then Some (OGS_ERROR, st) else rx_accept s type st
               | GTP_XACT_UNKNOWN_STAGE \<Rightarrow> Some (OGS_ERROR, st))
         else if x_org x = OGS_GTP_REMOTE_ORIGINATOR
         then (case stage of
                 GTP_XACT_INITIAL_STAGE \<Rightarrow>
                   do { sq \<leftarrow> seq_get x 0;
                        if sq_type sq = type
                        then (if x_step x \<noteq> 1 \<and> x_step x \<noteq> 2 then Some (OGS_ERROR, st)
                              else rx_duplicate env s 1 st)
                        else if x_step x \<noteq> 0 then Some (OGS_ERROR, st)
                        else do { st \<leftarrow> rx_start_holding env s st; rx_accept s type st } }
               | GTP_XACT_INTERMEDIATE_STAGE \<Rightarrow> Some (OGS_ERROR, st)
               | GTP_XACT_FINAL_STAGE \<Rightarrow>
                   if x_step x \<noteq> 2 then Some (OGS_ERROR, st) else rx_accept s type st
               | GTP_XACT_UNKNOWN_STAGE \<Rightarrow> Some (OGS_ERROR, st))
         else Some (OGS_ERROR, st))"

section \<open>Commit\<close>

definition commit_fail :: "nat \<Rightarrow> ogs_rv \<Rightarrow> gtp_state \<Rightarrow> (ogs_rv \<times> gtp_state) option" where
  "commit_fail s rv st = do { st \<leftarrow> ogs_gtp_xact_delete s st; Some (rv, st) }"

definition start_response :: "gtp_env \<Rightarrow> nat \<Rightarrow> gtp_state \<Rightarrow> gtp_state option" where
  "start_response env s st =
     do { t \<leftarrow> tm_start (x_tm_response (xact st s)) (e_t3_response_duration env);
          Some (upd_xact s (\<lambda>x. x\<lparr>x_tm_response := t\<rparr>) st) }"

text \<open>The last part of \<open>ogs_gtp_xact_commit\<close>: the packet of the current step is sent.\<close>

definition commit_send :: "gtp_env \<Rightarrow> nat \<Rightarrow> gtp_state \<Rightarrow> (ogs_rv \<times> gtp_state) option" where
  "commit_send env s st =
     do { let x = xact st s;
          sq \<leftarrow> seq_last x;
          pkbuf \<leftarrow> sq_pkbuf sq;
          let (rv, st) = ogs_gtp_sendto env (x_gnode x) pkbuf st;
          if rv \<noteq> OGS_OK then commit_fail s OGS_ERROR st else Some (OGS_OK, st) }"

definition ogs_gtp_xact_commit :: "gtp_env \<Rightarrow> nat \<Rightarrow> gtp_state \<Rightarrow> (ogs_rv \<times> gtp_state) option" where
  "ogs_gtp_xact_commit env s st =
     do { let x = xact st s;
          sq \<leftarrow> seq_last x;
          let stage = xact_get_stage x (sq_type sq);
          if x_org x = OGS_GTP_LOCAL_ORIGINATOR
          then (case stage of
                  GTP_XACT_INITIAL_STAGE \<Rightarrow>
                    if x_step x \<noteq> 1 then commit_fail s OGS_ERROR st
                    else do { st \<leftarrow> start_response env s st; commit_send env s st }
                | GTP_XACT_INTERMEDIATE_STAGE \<Rightarrow>
                    if x_step x \<noteq> 2 then commit_fail s OGS_ERROR st else Some (OGS_OK, st)
                | GTP_XACT_FINAL_STAGE \<Rightarrow>
                    if x_step x \<noteq> 2 \<and> x_step x \<noteq> 3 then commit_fail s OGS_ERROR st
                    else if x_step x = 2 then commit_fail s OGS_OK st
                    else commit_send env s st
                | GTP_XACT_UNKNOWN_STAGE \<Rightarrow> commit_fail s OGS_ERROR st)
          else if x_org x = OGS_GTP_REMOTE_ORIGINATOR
          then (case stage of
                  GTP_XACT_INITIAL_STAGE \<Rightarrow> commit_fail s OGS_ERROR st
                | GTP_XACT_INTERMEDIATE_STAGE \<Rightarrow>
                    if x_step x \<noteq> 2 then commit_fail s OGS_ERROR st
                    else do { st \<leftarrow> start_response env s st; commit_send env s st }
                | GTP_XACT_FINAL_STAGE \<Rightarrow>
                    if x_step x \<noteq> 2 \<and> x_step x \<noteq> 3 then commit_fail s OGS_ERROR st
                    else if x_step x = 3 then commit_fail s OGS_OK st
                    else commit_send env s st
                | GTP_XACT_UNKNOWN_STAGE \<Rightarrow> commit_fail s OGS_ERROR st)
          else commit_fail s OGS_ERROR st }"

section \<open>Timeouts\<close>

definition OGS_GTP_XACT_LAG_DEFER_THRESHOLD :: ogs_time where
  "OGS_GTP_XACT_LAG_DEFER_THRESHOLD = 1500 * 1000"

definition OGS_GTP_XACT_LAG_DEFER_INTERVAL :: ogs_time where
  "OGS_GTP_XACT_LAG_DEFER_INTERVAL = 1000 * 1000"

definition OGS_GTP_XACT_LAG_MAX_DEFER :: u8 where
  "OGS_GTP_XACT_LAG_MAX_DEFER = 8"

definition xact_response_lag_defer :: "gtp_env \<Rightarrow> nat \<Rightarrow> gtp_state \<Rightarrow> (bool \<times> gtp_state) option" where
  "xact_response_lag_defer env s st =
     (let x = xact st s
      in case (e_lag_cb env, x_tm_response x) of
           (Some lag, Some _) \<Rightarrow>
             if lag < OGS_GTP_XACT_LAG_DEFER_THRESHOLD then Some (False, st)
             else if x_lag_defer_count x \<ge> OGS_GTP_XACT_LAG_MAX_DEFER then Some (False, st)
             else do {
               t \<leftarrow> tm_start (x_tm_response x) OGS_GTP_XACT_LAG_DEFER_INTERVAL;
               Some (True, upd_xact s (\<lambda>x. x\<lparr>x_lag_defer_count := x_lag_defer_count x + 1,
                                              x_tm_response := t\<rparr>) st) }
         | _ \<Rightarrow> Some (False, st))"

definition response_timeout :: "gtp_env \<Rightarrow> nat \<Rightarrow> gtp_state \<Rightarrow> gtp_state option" where
  "response_timeout env xact_id st =
     do { ogs_assert (pool_id_ok xact_id);
          case ogs_gtp_xact_find_by_id_for_timer st xact_id of
            None \<Rightarrow> Some st
          | Some s \<Rightarrow>
              do { (deferred, st) \<leftarrow> xact_response_lag_defer env s st;
                   if deferred then Some st
                   else do {
                     let st = upd_xact s (\<lambda>x. x\<lparr>x_response_rcount := x_response_rcount x - 1\<rparr>) st;
                     if x_response_rcount (xact st s) > 0
                     then do {
                       st \<leftarrow> start_response env s st;
                       let x = xact st s;
                       sq \<leftarrow> seq_last x;
                       pkbuf \<leftarrow> sq_pkbuf sq;
                       Some (snd (ogs_gtp_sendto env (x_gnode x) pkbuf st)) }
                     else do {
                       let st = (case x_cb (xact st s) of
                                   None \<Rightarrow> st
                                 | Some c \<Rightarrow> e_cb env c s (st\<lparr>s_cbs := s_cbs st @ [(c, xact_id)]\<rparr>));
                       ogs_gtp_xact_delete s st } } } }"

definition holding_timeout :: "gtp_env \<Rightarrow> nat \<Rightarrow> gtp_state \<Rightarrow> gtp_state option" where
  "holding_timeout env xact_id st =
     do { ogs_assert (pool_id_ok xact_id);
          case ogs_gtp_xact_find_by_id_for_timer st xact_id of
            None \<Rightarrow> Some st
          | Some s \<Rightarrow>
              let st = upd_xact s (\<lambda>x. x\<lparr>x_holding_rcount := x_holding_rcount x - 1\<rparr>) st
              in if x_holding_rcount (xact st s) > 0 then rx_start_holding env s st
                 else ogs_gtp_xact_delete s st }"

definition peer_timeout :: "gtp_env \<Rightarrow> nat \<Rightarrow> gtp_state \<Rightarrow> gtp_state option" where
  "peer_timeout env xact_id st =
     do { ogs_assert (pool_id_ok xact_id);
          case ogs_gtp_xact_find_by_id_for_timer st xact_id of
            None \<Rightarrow> Some st
          | Some s \<Rightarrow>
              Some (case x_peer_cb (xact st s) of
                      None \<Rightarrow> st
                    | Some c \<Rightarrow> e_cb env c s (st\<lparr>s_cbs := s_cbs st @ [(c, xact_id)]\<rparr>)) }"

section \<open>Receive\<close>

datatype list_sel = Local_List | Remote_List

definition sel_list :: "gtp_state \<Rightarrow> nat \<Rightarrow> list_sel \<Rightarrow> nat list" where
  "sel_list st g l =
     (case l of Local_List \<Rightarrow> g_local_list (s_gnodes st g) | Remote_List \<Rightarrow> g_remote_list (s_gnodes st g))"

definition sel_org :: "list_sel \<Rightarrow> u8" where
  "sel_org l = (case l of Local_List \<Rightarrow> OGS_GTP_LOCAL_ORIGINATOR | Remote_List \<Rightarrow> OGS_GTP_REMOTE_ORIGINATOR)"

text \<open>Index first, then a scan of the list: the lookup of both receive functions.\<close>

definition xact_scan :: "gtp_state \<Rightarrow> nat list \<Rightarrow> u8 \<Rightarrow> u32 \<Rightarrow> nat option" where
  "xact_scan st l version xid =
     find (\<lambda>s. x_gtp_version (xact st s) = version \<and> x_xid (xact st s) = xid) l"

definition xact_lookup :: "gtp_state \<Rightarrow> nat \<Rightarrow> list_sel \<Rightarrow> u8 \<Rightarrow> u32 \<Rightarrow> nat option" where
  "xact_lookup st g l version xid =
     (case xact_index_get st g (sel_org l) version xid of
        Some s \<Rightarrow>
          if x_gtp_version (xact st s) \<noteq> version \<or> x_xid (xact st s) \<noteq> xid
          then xact_scan st (sel_list st g l) version xid else Some s
      | None \<Rightarrow> xact_scan st (sel_list st g l) version xid)"

text \<open>The end of both receive functions: the receive step on the transaction found or created,
  which is deleted again when it was created for this message and the step fails.\<close>

definition receive_update ::
    "gtp_env \<Rightarrow> nat \<Rightarrow> bool \<Rightarrow> u8 \<Rightarrow> gtp_state \<Rightarrow> (ogs_rv \<times> nat option \<times> gtp_state) option" where
  "receive_update env s created type st =
     do { (rv, st) \<leftarrow> ogs_gtp_xact_update_rx env s type st;
          if rv = OGS_ERROR
          then (if created
                then do { st \<leftarrow> ogs_gtp_xact_delete s st; Some (rv, None, st) }
                else Some (rv, None, st))
          else if rv = OGS_RETRY then Some (rv, None, st)
          else Some (rv, Some s, st) }"

definition receive_create ::
    "gtp_env \<Rightarrow> nat \<Rightarrow> u8 \<Rightarrow> u32 \<Rightarrow> u8 \<Rightarrow> gtp_state \<Rightarrow> (ogs_rv \<times> nat option \<times> gtp_state) option" where
  "receive_create env g version sqn type st =
     do { (r, st) \<leftarrow> ogs_gtp_xact_remote_create env g version sqn st;
          s \<leftarrow> r;
          receive_update env s True type st }"

definition gtp1_rx_list :: "gtp_xact_stage \<Rightarrow> u8 \<Rightarrow> list_sel option" where
  "gtp1_rx_list stage type =
     (case stage of
        GTP_XACT_INITIAL_STAGE \<Rightarrow> Some Remote_List
      | GTP_XACT_INTERMEDIATE_STAGE \<Rightarrow> Some Local_List
      | GTP_XACT_FINAL_STAGE \<Rightarrow>
          Some (if type = OGS_GTP1_SGSN_CONTEXT_ACKNOWLEDGE_TYPE then Remote_List else Local_List)
      | GTP_XACT_UNKNOWN_STAGE \<Rightarrow> None)"

definition ogs_gtp1_xact_receive ::
    "gtp_env \<Rightarrow> nat \<Rightarrow> gtp1_header \<Rightarrow> gtp_state \<Rightarrow> (ogs_rv \<times> nat option \<times> gtp_state) option" where
  "ogs_gtp1_xact_receive env g h st =
     (if \<not> h1_s h then Some (OGS_ERROR, None, st)
      else let type = h1_type h;
               sqn = ucast (h1_sqn h) :: u32;
               xid = OGS_GTP1_SQN_TO_XID sqn;
               stage = ogs_gtp1_xact_get_stage type xid
           in case gtp1_rx_list stage type of
                None \<Rightarrow> Some (OGS_ERROR, None, st)
              | Some l \<Rightarrow>
                  (case xact_lookup st g l 1 xid of
                     Some s \<Rightarrow> receive_update env s False type st
                   | None \<Rightarrow>
                       if stage = GTP_XACT_INTERMEDIATE_STAGE then Some (OGS_ERROR, None, st)
                       else receive_create env g 1 sqn type st))"

definition gtp2_rx_list :: "gtp_xact_stage \<Rightarrow> u8 \<Rightarrow> u32 \<Rightarrow> list_sel option" where
  "gtp2_rx_list stage type xid =
     (case stage of
        GTP_XACT_INITIAL_STAGE \<Rightarrow> Some Remote_List
      | GTP_XACT_INTERMEDIATE_STAGE \<Rightarrow> Some Local_List
      | GTP_XACT_FINAL_STAGE \<Rightarrow>
          Some (if is_cmd_xid xid
                then (if type = OGS_GTP2_MODIFY_BEARER_FAILURE_INDICATION_TYPE
                         \<or> type = OGS_GTP2_DELETE_BEARER_FAILURE_INDICATION_TYPE
                         \<or> type = OGS_GTP2_BEARER_RESOURCE_FAILURE_INDICATION_TYPE
                      then Local_List else Remote_List)
                else Local_List)
      | GTP_XACT_UNKNOWN_STAGE \<Rightarrow> None)"

definition find_local_reply :: "gtp_state \<Rightarrow> nat \<Rightarrow> u32 \<Rightarrow> u32 \<Rightarrow> nat option" where
  "find_local_reply st g xid sqn =
     (let new = xact_index_get st g OGS_GTP_LOCAL_ORIGINATOR 2 xid
      in if ogs_gtp2_xact_local_match st new xid (ogs_gtp2_sqn_key sqn) 1 then new
         else ogs_gtp2_xact_find_local st (g_local_list (s_gnodes st g)) xid sqn 1)"

definition h2_rx_sqn :: "gtp2_header \<Rightarrow> u32" where
  "h2_rx_sqn h = (if h2_teid_presence h then h2_sqn h else h2_sqn_only h)"

definition ogs_gtp_xact_receive ::
    "gtp_env \<Rightarrow> nat \<Rightarrow> gtp2_header \<Rightarrow> gtp_state \<Rightarrow> (ogs_rv \<times> nat option \<times> gtp_state) option" where
  "ogs_gtp_xact_receive env g h st =
     (let type = h2_type h;
          sqn = h2_rx_sqn h;
          xid = OGS_GTP2_SQN_TO_XID sqn;
          stage = ogs_gtp2_xact_get_stage type xid
      in case gtp2_rx_list stage type xid of
           None \<Rightarrow> Some (OGS_ERROR, None, st)
         | Some l \<Rightarrow>
             if l = Local_List \<and> ogs_gtp2_xact_is_local_reply stage xid
             then (case find_local_reply st g xid sqn of
                     None \<Rightarrow> Some (OGS_ERROR, None, st)
                   | Some s \<Rightarrow> receive_update env s False type st)
             else (case xact_lookup st g l 2 xid of
                     Some s \<Rightarrow> receive_update env s False type st
                   | None \<Rightarrow> receive_create env g 2 sqn type st))"

end
