(* ===== verification/Gtp_Xact_Inv.thy ===== *)
theory Gtp_Xact_Inv
  imports Gtp_Xact
begin

text \<open>
  The invariant of the GTP transaction layer and the facts that its operations rest on: which
  transactions are in use, that every one of them is on exactly the list its originator and peer
  demand, that the index, the counters, the association links and the timer pool agree with the
  lists, and that the packets a timer or a commit will send exist. Creation, linking, deletion and
  the single-transaction updates preserve it.
\<close>

section \<open>Field access\<close>

lemma upd_xact_fields [simp, state_simps]:
  "s_ready (upd_xact s f st) = s_ready st" "s_pool (upd_xact s f st) = s_pool st"
  "s_gnodes (upd_xact s f st) = s_gnodes st" "s_tm_avail (upd_xact s f st) = s_tm_avail st"
  "s_xact_id (upd_xact s f st) = s_xact_id st" "s_sent (upd_xact s f st) = s_sent st"
  "s_cbs (upd_xact s f st) = s_cbs st"
  "s_xacts (upd_xact s f st) = (s_xacts st)(s := f (s_xacts st s))"
  by (simp_all add: upd_xact_def)

lemma upd_gnode_fields [simp, state_simps]:
  "s_ready (upd_gnode g f st) = s_ready st" "s_pool (upd_gnode g f st) = s_pool st"
  "s_xacts (upd_gnode g f st) = s_xacts st" "s_tm_avail (upd_gnode g f st) = s_tm_avail st"
  "s_xact_id (upd_gnode g f st) = s_xact_id st" "s_sent (upd_gnode g f st) = s_sent st"
  "s_cbs (upd_gnode g f st) = s_cbs st"
  "s_gnodes (upd_gnode g f st) = (s_gnodes st)(g := f (s_gnodes st g))"
  by (simp_all add: upd_gnode_def)

lemma xact_upd_xact [simp, state_simps]:
  "xact (upd_xact s f st) t = (if t = s then f (xact st s) else xact st t)"
  by (simp add: xact_def)

lemma xact_upd_gnode [simp, state_simps]: "xact (upd_gnode g f st) t = xact st t"
  by (simp add: xact_def)

lemma xact_fields [simp, state_simps]:
  "xact (st\<lparr>s_pool := p\<rparr>) t = xact st t" "xact (st\<lparr>s_tm_avail := n\<rparr>) t = xact st t"
  "xact (st\<lparr>s_xact_id := i\<rparr>) t = xact st t" "xact (st\<lparr>s_sent := l\<rparr>) t = xact st t"
  "xact (st\<lparr>s_cbs := c\<rparr>) t = xact st t" "xact (st\<lparr>s_gnodes := gs\<rparr>) t = xact st t"
  by (simp_all add: xact_def)

lemma orgs_differ [simp]:
  "OGS_GTP_LOCAL_ORIGINATOR \<noteq> OGS_GTP_REMOTE_ORIGINATOR" "OGS_GTP_REMOTE_ORIGINATOR \<noteq> OGS_GTP_LOCAL_ORIGINATOR"
  by (simp_all add: OGS_GTP_LOCAL_ORIGINATOR_def OGS_GTP_REMOTE_ORIGINATOR_def)

section \<open>The invariant\<close>

definition live :: "gtp_state \<Rightarrow> nat \<Rightarrow> bool" where
  "live st s \<longleftrightarrow> ip_ids (s_pool st) (x_id (xact st s)) = Some s"

text \<open>A single transaction: three history slots, a valid step, the packets of the steps this side
  has transmitted, and a response timer that runs only while a message of this side awaits its
  answer.\<close>

definition xact_ok :: "gtp_xact \<Rightarrow> bool" where
  "xact_ok x \<longleftrightarrow> length (x_seq x) = 3 \<and> x_step x \<le> 3
     \<and> (x_org x = OGS_GTP_LOCAL_ORIGINATOR \<or> x_org x = OGS_GTP_REMOTE_ORIGINATOR)
     \<and> (x_org x = OGS_GTP_LOCAL_ORIGINATOR \<and> 1 \<le> x_step x \<longrightarrow> sq_pkbuf (x_seq x ! 0) \<noteq> None)
     \<and> (x_org x = OGS_GTP_LOCAL_ORIGINATOR \<and> x_step x = 3 \<longrightarrow> sq_pkbuf (x_seq x ! 2) \<noteq> None)
     \<and> (x_org x = OGS_GTP_REMOTE_ORIGINATOR \<and> 2 \<le> x_step x \<longrightarrow> sq_pkbuf (x_seq x ! 1) \<noteq> None)
     \<and> (\<forall>d. x_tm_response x = Some (Tm_Running d) \<longrightarrow>
          (x_org x = OGS_GTP_LOCAL_ORIGINATOR \<and> x_step x = 1)
          \<or> (x_org x = OGS_GTP_REMOTE_ORIGINATOR \<and> x_step x = 2))"

definition lists_ok :: "gtp_state \<Rightarrow> bool" where
  "lists_ok st \<longleftrightarrow>
     (\<forall>g. distinct (g_local_list (s_gnodes st g)) \<and> distinct (g_remote_list (s_gnodes st g))
       \<and> g_xact_local_count (s_gnodes st g) = int (length (g_local_list (s_gnodes st g)))
       \<and> g_xact_remote_count (s_gnodes st g) = int (length (g_remote_list (s_gnodes st g)))
       \<and> (\<forall>s. s \<in> set (g_local_list (s_gnodes st g)) \<longleftrightarrow>
             live st s \<and> x_gnode (xact st s) = g \<and> x_org (xact st s) = OGS_GTP_LOCAL_ORIGINATOR)
       \<and> (\<forall>s. s \<in> set (g_remote_list (s_gnodes st g)) \<longleftrightarrow>
             live st s \<and> x_gnode (xact st s) = g \<and> x_org (xact st s) \<noteq> OGS_GTP_LOCAL_ORIGINATOR))"

definition hash_ok :: "gtp_state \<Rightarrow> bool" where
  "hash_ok st \<longleftrightarrow>
     (\<forall>g k s. g_xact_hash (s_gnodes st g) k = Some s \<longrightarrow>
        live st s \<and> x_gnode (xact st s) = g \<and> x_hash_key (xact st s) = k)
     \<and> (\<forall>s. live st s \<longrightarrow> x_hash_key (xact st s) =
          xact_index_key (x_org (xact st s)) (x_gtp_version (xact st s)) (x_xid (xact st s)))"

definition assoc_ok :: "gtp_state \<Rightarrow> bool" where
  "assoc_ok st \<longleftrightarrow>
     (\<forall>s. live st s \<and> x_assoc_xact_id (xact st s) \<noteq> OGS_INVALID_POOL_ID \<longrightarrow>
        (\<exists>a. ip_ids (s_pool st) (x_assoc_xact_id (xact st s)) = Some a
           \<and> x_assoc_xact_id (xact st a) = x_id (xact st s)))"

definition ids_ok :: "gtp_state \<Rightarrow> bool" where
  "ids_ok st \<longleftrightarrow> idpool_inv (s_pool st)
     \<and> (\<forall>i s. ip_ids (s_pool st) i = Some s \<longrightarrow> x_id (xact st s) = i)"

definition xinv :: "gtp_state \<Rightarrow> bool" where
  "xinv st \<longleftrightarrow> ids_ok st \<and> lists_ok st \<and> hash_ok st \<and> assoc_ok st
     \<and> (\<forall>s. live st s \<longrightarrow> xact_ok (xact st s))"

text \<open>Between the calls of the interface every transaction has taken its first step.\<close>

definition gtp_inv :: "gtp_state \<Rightarrow> bool" where
  "gtp_inv st \<longleftrightarrow> xinv st \<and> (\<forall>s. live st s \<longrightarrow> 1 \<le> x_step (xact st s))"

text \<open>All timers: those in the pool and those the transactions hold.\<close>

definition x_timers :: "gtp_xact \<Rightarrow> nat" where
  "x_timers x = tm_count (x_tm_response x) + tm_count (x_tm_peer x) + tm_count (x_tm_holding x)"

definition live_set :: "gtp_state \<Rightarrow> nat set" where
  "live_set st = ran (ip_ids (s_pool st))"

definition timer_total :: "gtp_state \<Rightarrow> nat" where
  "timer_total st = s_tm_avail st + (\<Sum>s \<in> live_set st. x_timers (xact st s))"

lemma live_iff: "ids_ok st \<Longrightarrow> live st s \<longleftrightarrow> s \<in> live_set st"
  by (auto simp: live_def ids_ok_def live_set_def ran_def)

lemma live_id:
  assumes "ids_ok st"
  shows "ip_ids (s_pool st) i = Some s \<longleftrightarrow> live st s \<and> x_id (xact st s) = i"
  using assms by (auto simp: live_def ids_ok_def)

lemma finite_live_set [simp]: "ids_ok st \<Longrightarrow> finite (live_set st)"
  by (rule finite_subset [of _ "{..<ip_size (s_pool st)}"]) (auto simp: ids_ok_def idpool_inv_def live_set_def)

lemma invalid_id_not_used: "ids_ok st \<Longrightarrow> ip_ids (s_pool st) OGS_INVALID_POOL_ID = None"
  by (auto simp: ids_ok_def idpool_inv_def pool_id_ok_def OGS_INVALID_POOL_ID_def OGS_MIN_POOL_ID_def)

lemmas xinvD = xinv_def [THEN iffD1]

lemma xinv_parts:
  assumes "xinv st"
  shows "ids_ok st" "lists_ok st" "hash_ok st" "assoc_ok st" "live st s \<Longrightarrow> xact_ok (xact st s)"
  using assms by (simp_all add: xinv_def)

section \<open>Updates of one transaction\<close>

text \<open>An update that leaves the identity of the transaction alone keeps the structure.\<close>

definition same_identity :: "gtp_xact \<Rightarrow> gtp_xact \<Rightarrow> bool" where
  "same_identity x y \<longleftrightarrow> x_id x = x_id y \<and> x_gnode x = x_gnode y \<and> x_org x = x_org y
     \<and> x_gtp_version x = x_gtp_version y \<and> x_xid x = x_xid y \<and> x_hash_key x = x_hash_key y
     \<and> x_assoc_xact_id x = x_assoc_xact_id y"

text \<open>Two states that differ only in such fields, in the logs and in the counters.\<close>

definition same_structure :: "gtp_state \<Rightarrow> gtp_state \<Rightarrow> bool" where
  "same_structure st st' \<longleftrightarrow> s_pool st = s_pool st' \<and> s_gnodes st = s_gnodes st'
     \<and> (\<forall>s. same_identity (xact st s) (xact st' s))"

lemma same_identity_refl [simp]: "same_identity x x"
  by (simp add: same_identity_def)

lemma same_structure_refl [simp]: "same_structure st st"
  by (simp add: same_structure_def)

lemma same_structure_trans: "same_structure a b \<Longrightarrow> same_structure b c \<Longrightarrow> same_structure a c"
  by (simp add: same_structure_def same_identity_def)

lemma same_structure_live: "same_structure st st' \<Longrightarrow> live st' s \<longleftrightarrow> live st s"
  by (simp add: same_structure_def same_identity_def live_def)

lemma same_structure_live_set: "same_structure st st' \<Longrightarrow> live_set st' = live_set st"
  by (simp add: same_structure_def live_set_def)

lemma same_structure_xinv:
  assumes "same_structure st st'" "xinv st" "\<And>s. live st s \<Longrightarrow> xact_ok (xact st' s)"
  shows "xinv st'"
proof -
  have id: "s_pool st' = s_pool st" "s_gnodes st' = s_gnodes st"
    "\<And>s. x_id (xact st' s) = x_id (xact st s)" "\<And>s. x_gnode (xact st' s) = x_gnode (xact st s)"
    "\<And>s. x_org (xact st' s) = x_org (xact st s)" "\<And>s. x_gtp_version (xact st' s) = x_gtp_version (xact st s)"
    "\<And>s. x_xid (xact st' s) = x_xid (xact st s)" "\<And>s. x_hash_key (xact st' s) = x_hash_key (xact st s)"
    "\<And>s. x_assoc_xact_id (xact st' s) = x_assoc_xact_id (xact st s)"
    using assms(1) by (simp_all add: same_structure_def same_identity_def)
  have live: "live st' = live st" by (simp add: live_def id fun_eq_iff)
  show ?thesis
    using assms(2,3) by (simp add: xinv_def ids_ok_def lists_ok_def hash_ok_def assoc_ok_def id live)
qed

lemma same_structure_upd:
  assumes "same_identity (xact st s) (f (xact st s))"
  shows "same_structure st (upd_xact s f st)"
  using assms by (simp add: same_structure_def)

lemma xinv_upd_xact [inv_intros]:
  assumes "xinv st" "same_identity (xact st s) (f (xact st s))" "live st s \<Longrightarrow> xact_ok (f (xact st s))"
  shows "xinv (upd_xact s f st)"
proof (rule same_structure_xinv [OF same_structure_upd [of st s f, OF assms(2)] assms(1)])
  show "xact_ok (xact (upd_xact s f st) t)" if "live st t" for t
    using that assms(3) xinv_parts(5) [OF assms(1), of t] by (cases "t = s") simp_all
qed

lemma same_structure_fields [simp]:
  "same_structure st (st\<lparr>s_sent := l\<rparr>)" "same_structure st (st\<lparr>s_cbs := c\<rparr>)"
  "same_structure st (st\<lparr>s_xact_id := i\<rparr>)" "same_structure st (st\<lparr>s_tm_avail := n\<rparr>)"
  by (simp_all add: same_structure_def)

lemma ogs_gtp_sendto_state:
  "same_structure st (snd (ogs_gtp_sendto env g p st))"
  "xact (snd (ogs_gtp_sendto env g p st)) s = xact st s"
  "s_tm_avail (snd (ogs_gtp_sendto env g p st)) = s_tm_avail st"
  by (simp_all add: ogs_gtp_sendto_def Let_def)

section \<open>Deletion\<close>

text \<open>What deletion does to the slice of the peer, for a transaction that is on its list.\<close>

definition gnode_drop :: "gtp_xact \<Rightarrow> nat \<Rightarrow> gtp_node \<Rightarrow> gtp_node" where
  "gnode_drop x s g =
     (let h = (if g_xact_hash g (x_hash_key x) = Some s then (g_xact_hash g)(x_hash_key x := None)
               else g_xact_hash g)
      in if x_org x = OGS_GTP_LOCAL_ORIGINATOR
         then g\<lparr>g_xact_hash := h, g_xact_local_count := g_xact_local_count g - 1,
                g_local_list := list_remove (g_local_list g) s\<rparr>
         else g\<lparr>g_xact_hash := h, g_xact_remote_count := g_xact_remote_count g - 1,
                g_remote_list := list_remove (g_remote_list g) s\<rparr>)"

definition assoc_clear :: "gtp_xact \<Rightarrow> gtp_xact" where
  "assoc_clear x = x\<lparr>x_assoc_xact_id := OGS_INVALID_POOL_ID\<rparr>"

definition tm_clear :: "gtp_xact \<Rightarrow> gtp_xact" where
  "tm_clear x = x\<lparr>x_tm_response := None, x_tm_peer := None, x_tm_holding := None\<rparr>"

lemma clear_fields [simp]:
  "x_id (assoc_clear x) = x_id x" "x_id (tm_clear x) = x_id x"
  "x_gnode (assoc_clear x) = x_gnode x" "x_gnode (tm_clear x) = x_gnode x"
  "x_org (assoc_clear x) = x_org x" "x_org (tm_clear x) = x_org x"
  "x_hash_key (assoc_clear x) = x_hash_key x" "x_hash_key (tm_clear x) = x_hash_key x"
  "x_gtp_version (assoc_clear x) = x_gtp_version x" "x_gtp_version (tm_clear x) = x_gtp_version x"
  "x_xid (assoc_clear x) = x_xid x" "x_xid (tm_clear x) = x_xid x"
  "x_assoc_xact_id (assoc_clear x) = OGS_INVALID_POOL_ID" "x_assoc_xact_id (tm_clear x) = x_assoc_xact_id x"
  "x_step (assoc_clear x) = x_step x" "x_timers (assoc_clear x) = x_timers x"
  "xact_ok (assoc_clear x) = xact_ok x"
  by (simp_all add: assoc_clear_def tm_clear_def x_timers_def xact_ok_def)

lemma index_del_and_unlink:
  "upd_own_list (\<lambda>l. list_remove l s) (xact (xact_index_del s st) s) (xact_index_del s st) =
     upd_gnode (x_gnode (xact st s)) (gnode_drop (xact st s) s) st"
  by (simp add: xact_index_del_def upd_own_list_def count_add_def Let_def upd_gnode_def gnode_drop_def)

text \<open>The partner of an association that deletion dissolves.\<close>

definition partner :: "gtp_state \<Rightarrow> nat \<Rightarrow> nat option" where
  "partner st s = ip_ids (s_pool st) (x_assoc_xact_id (xact st s))"

lemma partner_assoc:
  assumes "xinv st" "live st s" "partner st s = Some a"
  shows "x_assoc_xact_id (xact st s) \<noteq> OGS_INVALID_POOL_ID"
    "x_assoc_xact_id (xact st a) = x_id (xact st s)" "x_assoc_xact_id (xact st a) \<noteq> OGS_INVALID_POOL_ID"
    "live st a" "partner st a = Some s"
proof -
  note inv = xinv_parts [OF assms(1)]
  show ne: "x_assoc_xact_id (xact st s) \<noteq> OGS_INVALID_POOL_ID"
    using assms(3) invalid_id_not_used [OF inv(1)] by (auto simp: partner_def)
  then show eq: "x_assoc_xact_id (xact st a) = x_id (xact st s)"
    using inv(4) assms(2,3) by (auto simp: assoc_ok_def partner_def)
  have "ip_ids (s_pool st) (x_id (xact st s)) = Some s" using assms(2) by (simp add: live_def)
  then show "x_assoc_xact_id (xact st a) \<noteq> OGS_INVALID_POOL_ID" "partner st a = Some s"
    using invalid_id_not_used [OF inv(1)] eq by (auto simp: partner_def)
  show "live st a" using assms(3) live_id [OF inv(1)] by (simp add: partner_def)
qed

lemma delete_char:
  assumes inv: "xinv st" and live: "live st s"
  obtains st' pool where "ogs_gtp_xact_delete s st = Some st'"
    "s_pool st' = pool" "idpool_inv pool" "ip_ids pool = (ip_ids (s_pool st))(x_id (xact st s) := None)"
    "ip_free pool = ip_free (s_pool st) @ [s]" "ip_size pool = ip_size (s_pool st)" "ip_id pool = ip_id (s_pool st)"
    "s_tm_avail st' = s_tm_avail st + x_timers (xact st s)"
    "s_sent st' = s_sent st" "s_cbs st' = s_cbs st" "s_xact_id st' = s_xact_id st"
    "s_gnodes st' = (s_gnodes st)(x_gnode (xact st s) := gnode_drop (xact st s) s (s_gnodes st (x_gnode (xact st s))))"
    "\<And>t. xact st' t = (if t = s then (if partner st s = None then tm_clear (xact st s) else assoc_clear (tm_clear (xact st s)))
        else if partner st s = Some t then assoc_clear (xact st t) else xact st t)"
proof -
  let ?x = "xact st s"
  let ?st1 = "xact_timers_delete s st"
  have st1: "s_pool ?st1 = s_pool st" "s_gnodes ?st1 = s_gnodes st" "s_sent ?st1 = s_sent st" "s_cbs ?st1 = s_cbs st"
    "s_xact_id ?st1 = s_xact_id st" "s_tm_avail ?st1 = s_tm_avail st + x_timers ?x"
    "\<And>t. xact ?st1 t = (if t = s then tm_clear ?x else xact st t)"
    by (simp_all add: xact_timers_delete_def Let_def x_timers_def tm_clear_def)
  define st2 where "st2 = (case partner st s of None \<Rightarrow> ?st1
     | Some a \<Rightarrow> upd_xact a assoc_clear (upd_xact s assoc_clear ?st1))"
  have assoc: "(case ogs_gtp_xact_find_by_id ?st1 (x_assoc_xact_id (xact ?st1 s)) of
      None \<Rightarrow> Some ?st1 | Some a \<Rightarrow> ogs_gtp_xact_deassociate s a ?st1) = Some st2"
  proof (cases "partner st s")
    case None
    then show ?thesis by (simp add: ogs_gtp_xact_find_by_id_def st1 partner_def st2_def)
  next
    case (Some a)
    have "x_assoc_xact_id (xact ?st1 s) \<noteq> OGS_INVALID_POOL_ID" "x_assoc_xact_id (xact ?st1 a) \<noteq> OGS_INVALID_POOL_ID"
      using partner_assoc(1,3) [OF inv live Some] by (simp_all add: st1)
    moreover have "assoc_clear = (\<lambda>x. x\<lparr>x_assoc_xact_id := OGS_INVALID_POOL_ID\<rparr>)"
      by (simp add: assoc_clear_def fun_eq_iff)
    moreover have "ogs_gtp_xact_find_by_id ?st1 (x_assoc_xact_id (xact ?st1 s)) = Some a"
      using Some by (simp add: ogs_gtp_xact_find_by_id_def st1 partner_def)
    ultimately show ?thesis
      using Some by (simp add: ogs_gtp_xact_deassociate_def st2_def Let_def)
  qed
  have st2: "s_pool st2 = s_pool st" "s_gnodes st2 = s_gnodes st" "s_sent st2 = s_sent st" "s_cbs st2 = s_cbs st"
    "s_xact_id st2 = s_xact_id st" "s_tm_avail st2 = s_tm_avail st + x_timers ?x"
    by (simp_all add: st2_def st1 split: option.split)
  have x2: "xact st2 t = (if t = s then (if partner st s = None then tm_clear ?x else assoc_clear (tm_clear ?x))
      else if partner st s = Some t then assoc_clear (xact st t) else xact st t)" for t
    by (auto simp: st2_def st1 assoc_clear_def split: option.split)
  have id2: "x_id (xact st2 s) = x_id ?x" "x_gnode (xact st2 s) = x_gnode ?x" "gnode_drop (xact st2 s) = gnode_drop ?x"
    by (simp_all add: x2 gnode_drop_def fun_eq_iff)
  have "ids_ok st" by (rule xinv_parts(1) [OF inv])
  then obtain pool where pool: "idpool_free (s_pool st) s (x_id ?x) = Some pool" "idpool_inv pool"
    "ip_ids pool = (ip_ids (s_pool st))(x_id ?x := None)" "ip_free pool = ip_free (s_pool st) @ [s]"
    "ip_size pool = ip_size (s_pool st)" "ip_id pool = ip_id (s_pool st)"
    using idpool_free_inv [of "s_pool st" "x_id ?x" s] live unfolding ids_ok_def live_def by blast
  define st3 where "st3 = (upd_gnode (x_gnode (xact st2 s)) (gnode_drop (xact st2 s) s) st2)\<lparr>s_pool := pool\<rparr>"
  have del: "ogs_gtp_xact_delete s st = Some st3"
    using assoc pool(1) id2(1)
    by (simp add: ogs_gtp_xact_delete_def Let_def index_del_and_unlink st2 st3_def)
  have st3: "s_pool st3 = pool" "s_gnodes st3 = (s_gnodes st)(x_gnode ?x := gnode_drop ?x s (s_gnodes st (x_gnode ?x)))"
    "s_sent st3 = s_sent st" "s_cbs st3 = s_cbs st" "s_xact_id st3 = s_xact_id st"
    "s_tm_avail st3 = s_tm_avail st + x_timers ?x"
    by (simp_all add: st3_def st2 id2)
  have x3: "xact st3 t = xact st2 t" for t by (simp add: st3_def)
  show thesis
    by (rule that [OF del st3(1) pool(2-6) st3(6,3,4,5,2)]) (simp only: x3 x2)
qed

lemma delete_live:
  assumes "ids_ok st" "live st s" "ip_ids (s_pool st') = (ip_ids (s_pool st))(x_id (xact st s) := None)"
    "\<And>t. x_id (xact st' t) = x_id (xact st t)"
  shows "live st' t \<longleftrightarrow> live st t \<and> t \<noteq> s"
  using assms by (auto simp: live_def)

lemma gnode_drop_fields:
  "g_local_list (gnode_drop x s g) =
     (if x_org x = OGS_GTP_LOCAL_ORIGINATOR then list_remove (g_local_list g) s else g_local_list g)"
  "g_remote_list (gnode_drop x s g) =
     (if x_org x = OGS_GTP_LOCAL_ORIGINATOR then g_remote_list g else list_remove (g_remote_list g) s)"
  "g_xact_local_count (gnode_drop x s g) =
     (if x_org x = OGS_GTP_LOCAL_ORIGINATOR then g_xact_local_count g - 1 else g_xact_local_count g)"
  "g_xact_remote_count (gnode_drop x s g) =
     (if x_org x = OGS_GTP_LOCAL_ORIGINATOR then g_xact_remote_count g else g_xact_remote_count g - 1)"
  "g_xact_hash (gnode_drop x s g) k =
     (if k = x_hash_key x \<and> g_xact_hash g k = Some s then None else g_xact_hash g k)"
  by (auto simp: gnode_drop_def Let_def)

lemma delete_lists_ok:
  assumes lists: "lists_ok st" and live: "live st s"
    and gn: "s_gnodes st' = (s_gnodes st)(x_gnode (xact st s) := gnode_drop (xact st s) s (s_gnodes st (x_gnode (xact st s))))"
    and live': "\<And>t. live st' t \<longleftrightarrow> live st t \<and> t \<noteq> s"
    and same: "\<And>t. x_gnode (xact st' t) = x_gnode (xact st t)" "\<And>t. x_org (xact st' t) = x_org (xact st t)"
  shows "lists_ok st'"
  unfolding lists_ok_def
proof (intro allI)
  fix g
  let ?l = "g_local_list (s_gnodes st g)" and ?r = "g_remote_list (s_gnodes st g)"
  have l: "distinct ?l" "g_xact_local_count (s_gnodes st g) = int (length ?l)"
    "\<And>t. t \<in> set ?l \<longleftrightarrow> live st t \<and> x_gnode (xact st t) = g \<and> x_org (xact st t) = OGS_GTP_LOCAL_ORIGINATOR"
    and r: "distinct ?r" "g_xact_remote_count (s_gnodes st g) = int (length ?r)"
    "\<And>t. t \<in> set ?r \<longleftrightarrow> live st t \<and> x_gnode (xact st t) = g \<and> x_org (xact st t) \<noteq> OGS_GTP_LOCAL_ORIGINATOR"
    using lists by (simp_all add: lists_ok_def)
  have gn': "s_gnodes st' g = (if g = x_gnode (xact st s) then gnode_drop (xact st s) s (s_gnodes st g) else s_gnodes st g)"
    by (simp add: gn)
  consider "g \<noteq> x_gnode (xact st s)"
    | "g = x_gnode (xact st s)" "x_org (xact st s) = OGS_GTP_LOCAL_ORIGINATOR" "s \<in> set ?l" "s \<notin> set ?r"
    | "g = x_gnode (xact st s)" "x_org (xact st s) \<noteq> OGS_GTP_LOCAL_ORIGINATOR" "s \<in> set ?r" "s \<notin> set ?l"
    using l(3) r(3) live by blast
  then show "distinct (g_local_list (s_gnodes st' g)) \<and> distinct (g_remote_list (s_gnodes st' g))
       \<and> g_xact_local_count (s_gnodes st' g) = int (length (g_local_list (s_gnodes st' g)))
       \<and> g_xact_remote_count (s_gnodes st' g) = int (length (g_remote_list (s_gnodes st' g)))
       \<and> (\<forall>t. t \<in> set (g_local_list (s_gnodes st' g)) \<longleftrightarrow>
             live st' t \<and> x_gnode (xact st' t) = g \<and> x_org (xact st' t) = OGS_GTP_LOCAL_ORIGINATOR)
       \<and> (\<forall>t. t \<in> set (g_remote_list (s_gnodes st' g)) \<longleftrightarrow>
             live st' t \<and> x_gnode (xact st' t) = g \<and> x_org (xact st' t) \<noteq> OGS_GTP_LOCAL_ORIGINATOR)"
  proof cases
    case 1
    then show ?thesis using l r by (auto simp: gn' live' same)
  next
    case 2
    have "g_local_list (s_gnodes st' g) = list_remove ?l s" "g_remote_list (s_gnodes st' g) = ?r"
      "g_xact_local_count (s_gnodes st' g) = int (length ?l) - 1" "g_xact_remote_count (s_gnodes st' g) = int (length ?r)"
      using 2(1,2) l(2) r(2) by (simp_all add: gn gnode_drop_fields)
    moreover have "t \<in> set ?r \<longleftrightarrow> t \<in> set ?r \<and> t \<noteq> s" for t using 2(4) by auto
    ultimately show ?thesis
      using list_remove_member(1,2) [OF l(1) 2(3)] list_remove_member(3) [OF 2(3)] l(1,3) r(1,3) live' same by metis
  next
    case 3
    have "g_remote_list (s_gnodes st' g) = list_remove ?r s" "g_local_list (s_gnodes st' g) = ?l"
      "g_xact_remote_count (s_gnodes st' g) = int (length ?r) - 1" "g_xact_local_count (s_gnodes st' g) = int (length ?l)"
      using 3(1,2) l(2) r(2) by (simp_all add: gn gnode_drop_fields)
    moreover have "t \<in> set ?l \<longleftrightarrow> t \<in> set ?l \<and> t \<noteq> s" for t using 3(4) by auto
    ultimately show ?thesis
      using list_remove_member(1,2) [OF r(1) 3(3)] list_remove_member(3) [OF 3(3)] l(1,3) r(1,3) live' same by metis
  qed
qed

lemma delete_assoc_ok:
  assumes inv: "xinv st" and live: "live st s"
    and ids: "ip_ids (s_pool st') = (ip_ids (s_pool st))(x_id (xact st s) := None)"
    and live': "\<And>t. live st' t \<longleftrightarrow> live st t \<and> t \<noteq> s"
    and same: "\<And>t. x_id (xact st' t) = x_id (xact st t)"
    and assoc: "\<And>t. t \<noteq> s \<Longrightarrow> x_assoc_xact_id (xact st' t) =
        (if partner st s = Some t then OGS_INVALID_POOL_ID else x_assoc_xact_id (xact st t))"
  shows "assoc_ok st'"
  unfolding assoc_ok_def
proof (intro allI impI)
  fix t assume t: "live st' t \<and> x_assoc_xact_id (xact st' t) \<noteq> OGS_INVALID_POOL_ID"
  then have t': "live st t" "t \<noteq> s" "partner st s \<noteq> Some t"
    "x_assoc_xact_id (xact st' t) = x_assoc_xact_id (xact st t)"
    using live' assoc [of t] by (auto split: if_splits)
  then obtain a where a: "ip_ids (s_pool st) (x_assoc_xact_id (xact st t)) = Some a"
    "x_assoc_xact_id (xact st a) = x_id (xact st t)"
    using xinv_parts(4) [OF inv] t by (auto simp: assoc_ok_def)
  have sid: "ip_ids (s_pool st) (x_id (xact st s)) = Some s" using live by (simp add: live_def)
  have tid: "ip_ids (s_pool st) (x_id (xact st t)) = Some t" using t'(1) by (simp add: live_def)
  have "a \<noteq> s"
  proof
    assume "a = s"
    then have "partner st s = Some t" using a(2) tid by (simp add: partner_def)
    then show False using t'(3) by simp
  qed
  moreover have "x_assoc_xact_id (xact st t) \<noteq> x_id (xact st s)" using a(1) sid calculation by auto
  moreover have "partner st s \<noteq> Some a"
    using partner_assoc(2) [OF inv live] a(2) sid tid t'(2) by auto
  ultimately show "\<exists>a. ip_ids (s_pool st') (x_assoc_xact_id (xact st' t)) = Some a
      \<and> x_assoc_xact_id (xact st' a) = x_id (xact st' t)"
    using a assoc [of a] t'(4) by (auto simp: ids same)
qed

text \<open>Deleting a transaction in use succeeds, keeps the invariant, gives its timers back and
  leaves no trace of it.\<close>

lemma delete_ok:
  assumes inv: "xinv st" and live: "live st s"
  obtains st' where "ogs_gtp_xact_delete s st = Some st'" "xinv st'"
    "\<And>t. live st' t \<longleftrightarrow> live st t \<and> t \<noteq> s"
    "ip_ids (s_pool st') = (ip_ids (s_pool st))(x_id (xact st s) := None)"
    "ip_free (s_pool st') = ip_free (s_pool st) @ [s]" "ip_id (s_pool st') = ip_id (s_pool st)"
    "s_tm_avail st' = s_tm_avail st + x_timers (xact st s)"
    "s_sent st' = s_sent st" "s_cbs st' = s_cbs st"
    "\<And>t. t \<noteq> s \<Longrightarrow> xact st' t = (if partner st s = Some t then assoc_clear (xact st t) else xact st t)"
    "s_gnodes st' = (s_gnodes st)(x_gnode (xact st s) := gnode_drop (xact st s) s (s_gnodes st (x_gnode (xact st s))))"
proof -
  from delete_char [OF assms] obtain st' pool where del: "ogs_gtp_xact_delete s st = Some st'"
    and pool: "s_pool st' = pool" "idpool_inv pool" "ip_ids pool = (ip_ids (s_pool st))(x_id (xact st s) := None)"
    "ip_free pool = ip_free (s_pool st) @ [s]" "ip_id pool = ip_id (s_pool st)"
    and oth: "s_tm_avail st' = s_tm_avail st + x_timers (xact st s)" "s_sent st' = s_sent st" "s_cbs st' = s_cbs st"
    and gn: "s_gnodes st' = (s_gnodes st)(x_gnode (xact st s) := gnode_drop (xact st s) s (s_gnodes st (x_gnode (xact st s))))"
    and x: "\<And>t. xact st' t = (if t = s then (if partner st s = None then tm_clear (xact st s) else assoc_clear (tm_clear (xact st s)))
        else if partner st s = Some t then assoc_clear (xact st t) else xact st t)"
    by blast
  note parts = xinv_parts [OF inv]
  have same: "x_id (xact st' t) = x_id (xact st t)" "x_gnode (xact st' t) = x_gnode (xact st t)"
    "x_org (xact st' t) = x_org (xact st t)" "x_hash_key (xact st' t) = x_hash_key (xact st t)"
    "x_gtp_version (xact st' t) = x_gtp_version (xact st t)" "x_xid (xact st' t) = x_xid (xact st t)" for t
    by (simp_all add: x)
  have live': "live st' t \<longleftrightarrow> live st t \<and> t \<noteq> s" for t
    by (rule delete_live [OF parts(1) live]) (simp_all add: pool same)
  have "ids_ok st'" using parts(1) pool by (auto simp: ids_ok_def same)
  moreover have "lists_ok st'" by (rule delete_lists_ok [OF parts(2) live gn live' same(2,3)])
  moreover have "hash_ok st'"
    using parts(3) by (auto simp: hash_ok_def gn live' same gnode_drop_fields split: if_splits)
  moreover have "assoc_ok st'"
    by (rule delete_assoc_ok [OF inv live]) (simp_all add: pool live' same x)
  moreover have "xact_ok (xact st' t)" if "live st' t" for t
    using that live' parts(5) [of t] by (simp add: x)
  ultimately have "xinv st'" by (simp add: xinv_def)
  then show thesis
    using that [of st'] del live' pool oth gn x by simp
qed

section \<open>Linking a new transaction\<close>

definition gnode_add :: "gtp_xact \<Rightarrow> nat \<Rightarrow> gtp_node \<Rightarrow> gtp_node" where
  "gnode_add x s g =
     (let k = xact_index_key (x_org x) (x_gtp_version x) (x_xid x);
          h = (if g_xact_hash g k = None then (g_xact_hash g)(k \<mapsto> s) else g_xact_hash g)
      in if x_org x = OGS_GTP_LOCAL_ORIGINATOR
         then g\<lparr>g_local_list := g_local_list g @ [s], g_xact_hash := h,
                g_xact_local_count := g_xact_local_count g + 1\<rparr>
         else g\<lparr>g_remote_list := g_remote_list g @ [s], g_xact_hash := h,
                g_xact_remote_count := g_xact_remote_count g + 1\<rparr>)"

definition key_set :: "gtp_xact \<Rightarrow> gtp_xact" where
  "key_set x = x\<lparr>x_hash_key := xact_index_key (x_org x) (x_gtp_version x) (x_xid x)\<rparr>"

lemma key_set_fields [simp]:
  "x_id (key_set x) = x_id x" "x_gnode (key_set x) = x_gnode x" "x_org (key_set x) = x_org x"
  "x_gtp_version (key_set x) = x_gtp_version x" "x_xid (key_set x) = x_xid x" "x_sqn (key_set x) = x_sqn x"
  "x_hash_key (key_set x) = xact_index_key (x_org x) (x_gtp_version x) (x_xid x)"
  "x_assoc_xact_id (key_set x) = x_assoc_xact_id x" "x_step (key_set x) = x_step x"
  "x_seq (key_set x) = x_seq x" "x_timers (key_set x) = x_timers x" "xact_ok (key_set x) = xact_ok x"
  "x_tm_response (key_set x) = x_tm_response x" "x_tm_holding (key_set x) = x_tm_holding x"
  by (simp_all add: key_set_def x_timers_def xact_ok_def)

lemma gnode_add_fields:
  "g_local_list (gnode_add x s g) =
     (if x_org x = OGS_GTP_LOCAL_ORIGINATOR then g_local_list g @ [s] else g_local_list g)"
  "g_remote_list (gnode_add x s g) =
     (if x_org x = OGS_GTP_LOCAL_ORIGINATOR then g_remote_list g else g_remote_list g @ [s])"
  "g_xact_local_count (gnode_add x s g) =
     (if x_org x = OGS_GTP_LOCAL_ORIGINATOR then g_xact_local_count g + 1 else g_xact_local_count g)"
  "g_xact_remote_count (gnode_add x s g) =
     (if x_org x = OGS_GTP_LOCAL_ORIGINATOR then g_xact_remote_count g else g_xact_remote_count g + 1)"
  "g_xact_hash (gnode_add x s g) k =
     (if k = xact_index_key (x_org x) (x_gtp_version x) (x_xid x) \<and> g_xact_hash g k = None then Some s
      else g_xact_hash g k)"
  by (auto simp: gnode_add_def Let_def)

lemma xact_link_eq:
  "xact_link s st = upd_gnode (x_gnode (xact st s)) (gnode_add (xact st s) s) (upd_xact s key_set st)"
  by (simp add: xact_link_def xact_index_add_def upd_own_list_def count_add_def Let_def upd_gnode_def
      gnode_add_def upd_xact_def key_set_def xact_def)

lemma link_lists_ok:
  assumes lists: "lists_ok st" and new: "\<not> live st s"
    and gn: "s_gnodes st' = (s_gnodes st)(x_gnode x := gnode_add x s (s_gnodes st (x_gnode x)))"
    and live': "\<And>t. live st' t \<longleftrightarrow> live st t \<or> t = s"
    and x: "x_gnode (xact st' s) = x_gnode x" "x_org (xact st' s) = x_org x"
    and same: "\<And>t. t \<noteq> s \<Longrightarrow> xact st' t = xact st t"
  shows "lists_ok st'"
  unfolding lists_ok_def
proof (intro allI)
  fix g
  let ?l = "g_local_list (s_gnodes st g)" and ?r = "g_remote_list (s_gnodes st g)"
  have l: "distinct ?l" "g_xact_local_count (s_gnodes st g) = int (length ?l)"
    "\<And>t. t \<in> set ?l \<longleftrightarrow> live st t \<and> x_gnode (xact st t) = g \<and> x_org (xact st t) = OGS_GTP_LOCAL_ORIGINATOR"
    and r: "distinct ?r" "g_xact_remote_count (s_gnodes st g) = int (length ?r)"
    "\<And>t. t \<in> set ?r \<longleftrightarrow> live st t \<and> x_gnode (xact st t) = g \<and> x_org (xact st t) \<noteq> OGS_GTP_LOCAL_ORIGINATOR"
    using lists by (simp_all add: lists_ok_def)
  have notin: "s \<notin> set ?l" "s \<notin> set ?r" using new l(3) r(3) by blast+
  have mem: "live st' t \<and> x_gnode (xact st' t) = g \<and> P (x_org (xact st' t)) \<longleftrightarrow>
      (live st t \<and> x_gnode (xact st t) = g \<and> P (x_org (xact st t))) \<or> (t = s \<and> x_gnode x = g \<and> P (x_org x))" for t P
    using live' new x same by (cases "t = s") auto
  show "distinct (g_local_list (s_gnodes st' g)) \<and> distinct (g_remote_list (s_gnodes st' g))
       \<and> g_xact_local_count (s_gnodes st' g) = int (length (g_local_list (s_gnodes st' g)))
       \<and> g_xact_remote_count (s_gnodes st' g) = int (length (g_remote_list (s_gnodes st' g)))
       \<and> (\<forall>t. t \<in> set (g_local_list (s_gnodes st' g)) \<longleftrightarrow>
             live st' t \<and> x_gnode (xact st' t) = g \<and> x_org (xact st' t) = OGS_GTP_LOCAL_ORIGINATOR)
       \<and> (\<forall>t. t \<in> set (g_remote_list (s_gnodes st' g)) \<longleftrightarrow>
             live st' t \<and> x_gnode (xact st' t) = g \<and> x_org (xact st' t) \<noteq> OGS_GTP_LOCAL_ORIGINATOR)"
    unfolding mem [of _ "\<lambda>z. z = OGS_GTP_LOCAL_ORIGINATOR"] mem [of _ "\<lambda>z. z \<noteq> OGS_GTP_LOCAL_ORIGINATOR"]
    unfolding l(3) [symmetric] r(3) [symmetric]
    using l(1,2) r(1,2) notin by (auto simp: gn gnode_add_fields)
qed

lemma link_ok:
  assumes inv: "xinv st" and fresh: "idpool_fresh (s_pool st)"
    and alloc: "idpool_calloc (s_pool st) = (Some (s, i), pool)"
    and st1: "s_pool st1 = pool" "s_gnodes st1 = s_gnodes st" "\<And>t. t \<noteq> s \<Longrightarrow> xact st1 t = xact st t"
    and x: "x_id (xact st1 s) = i" "x_assoc_xact_id (xact st1 s) = OGS_INVALID_POOL_ID" "xact_ok (xact st1 s)"
  shows "xinv (xact_link s st1)" "live (xact_link s st1) t \<longleftrightarrow> live st t \<or> t = s" "\<not> live st s"
proof -
  let ?st = "xact_link s st1" and ?x = "xact st1 s"
  note parts = xinv_parts [OF inv]
  have ip: "idpool_inv (s_pool st)" using parts(1) by (simp add: ids_ok_def)
  note c = idpool_calloc_inv [OF ip fresh alloc]
  have pool: "s_pool ?st = pool" by (simp add: xact_link_eq st1)
  have gn: "s_gnodes ?st = (s_gnodes st)(x_gnode ?x := gnode_add ?x s (s_gnodes st (x_gnode ?x)))"
    by (simp add: xact_link_eq st1)
  have xs: "xact ?st s = key_set ?x" "\<And>t. t \<noteq> s \<Longrightarrow> xact ?st t = xact st t"
    by (simp_all add: xact_link_eq st1)
  show new: "\<not> live st s" using c(5) by (auto simp: live_def ran_def)
  have live': "live ?st t \<longleftrightarrow> live st t \<or> t = s" for t
  proof (cases "t = s")
    case True then show ?thesis by (simp add: live_def pool c(2) xs x)
  next
    case False then show ?thesis using c(3) by (auto simp: live_def pool c(2) xs)
  qed
  then show "live ?st t \<longleftrightarrow> live st t \<or> t = s" .
  have noti: "ip_ids (s_pool st) i = None" using c(3) by auto
  have "x_id (xact ?st t) = j" if "ip_ids (s_pool ?st) j = Some t" for j t
  proof (cases "j = i")
    case True
    then have "t = s" using that by (simp add: pool c(2))
    then show ?thesis using True xs(1) x(1) by simp
  next
    case False
    then have "ip_ids (s_pool st) j = Some t" using that by (simp add: pool c(2))
    moreover from this have "t \<noteq> s" using c(5) by (auto simp: ran_def)
    ultimately show ?thesis using parts(1) xs(2) by (simp add: ids_ok_def)
  qed
  then have "ids_ok ?st" using c(1) by (simp add: ids_ok_def pool)
  moreover have "lists_ok ?st"
    by (rule link_lists_ok [OF parts(2) new gn live' _ _ xs(2)]) (simp_all add: xs)
  moreover have "hash_ok ?st"
    unfolding hash_ok_def
  proof (intro conjI allI impI)
    fix g k t assume "g_xact_hash (s_gnodes ?st g) k = Some t"
    moreover have "g_xact_hash (s_gnodes ?st g) k =
        (if g = x_gnode ?x \<and> k = xact_index_key (x_org ?x) (x_gtp_version ?x) (x_xid ?x)
            \<and> g_xact_hash (s_gnodes st g) k = None then Some s else g_xact_hash (s_gnodes st g) k)"
      by (cases "g = x_gnode ?x") (simp_all add: gn gnode_add_fields(5) split del: if_split cong: if_cong)
    ultimately consider "t = s" "g = x_gnode ?x" "k = xact_index_key (x_org ?x) (x_gtp_version ?x) (x_xid ?x)"
      | "g_xact_hash (s_gnodes st g) k = Some t" by (metis option.inject)
    then show "live ?st t" "x_gnode (xact ?st t) = g" "x_hash_key (xact ?st t) = k"
    proof (atomize (full), cases)
      case 1
      then show "live ?st t \<and> x_gnode (xact ?st t) = g \<and> x_hash_key (xact ?st t) = k"
        using live' xs(1) by simp
    next
      case 2
      then have "live st t" "x_gnode (xact st t) = g" "x_hash_key (xact st t) = k"
        using parts(3) unfolding hash_ok_def by blast+
      moreover from this have "t \<noteq> s" using new by blast
      ultimately show "live ?st t \<and> x_gnode (xact ?st t) = g \<and> x_hash_key (xact ?st t) = k"
        using live' xs(2) by simp
    qed
  next
    show "x_hash_key (xact ?st t) = xact_index_key (x_org (xact ?st t)) (x_gtp_version (xact ?st t)) (x_xid (xact ?st t))"
      if "live ?st t" for t
      using that parts(3) live' xs by (cases "t = s") (auto simp: hash_ok_def)
  qed
  moreover have "assoc_ok ?st"
    unfolding assoc_ok_def
  proof (intro allI impI)
    fix t assume t: "live ?st t \<and> x_assoc_xact_id (xact ?st t) \<noteq> OGS_INVALID_POOL_ID"
    then have "t \<noteq> s" using x(2) xs(1) by auto
    then obtain a where a: "ip_ids (s_pool st) (x_assoc_xact_id (xact st t)) = Some a"
      "x_assoc_xact_id (xact st a) = x_id (xact st t)" using t parts(4) live' xs(2) by (auto simp: assoc_ok_def)
    moreover have "a \<noteq> s" using a(1) c(5) by (auto simp: ran_def)
    ultimately show "\<exists>a. ip_ids (s_pool ?st) (x_assoc_xact_id (xact ?st t)) = Some a
        \<and> x_assoc_xact_id (xact ?st a) = x_id (xact ?st t)"
      using \<open>t \<noteq> s\<close> noti by (auto simp: pool c(2) xs)
  qed
  moreover have "xact_ok (xact ?st t)" if "live ?st t" for t
    using that live' parts(5) [of t] x(3) xs by (cases "t = s") auto
  ultimately show "xinv ?st" by (simp add: xinv_def)
qed

end
