(* ===== verification/Gtp_Xact_Steps.thy ===== *)
theory Gtp_Xact_Steps
  imports Gtp_Xact_Inv
begin

text \<open>
  The operations of the GTP transaction layer on the invariant: the transmit and receive steps
  work on one transaction and keep it well-formed, creation, commit, timeouts and receive keep
  the invariant of the whole layer and do not abort.
\<close>

section \<open>Steps of one transaction\<close>

text \<open>An operation that works on one transaction: the structure, the other transactions, the timer
  pool and the callback log stay as they are, and the transaction keeps its timers.\<close>

definition step_frame :: "nat \<Rightarrow> gtp_state \<Rightarrow> gtp_state \<Rightarrow> bool" where
  "step_frame s st st' \<longleftrightarrow> same_structure st st' \<and> (\<forall>t. t \<noteq> s \<longrightarrow> xact st' t = xact st t)
     \<and> s_tm_avail st' = s_tm_avail st \<and> x_timers (xact st' s) = x_timers (xact st s)
     \<and> s_cbs st' = s_cbs st \<and> s_xact_id st' = s_xact_id st
     \<and> x_cb (xact st' s) = x_cb (xact st s)"

lemma step_frame_refl [simp]: "step_frame s st st"
  by (simp add: step_frame_def)

lemma step_frame_trans: "step_frame s a b \<Longrightarrow> step_frame s b c \<Longrightarrow> step_frame s a c"
  using same_structure_trans by (auto simp: step_frame_def)

lemma step_frame_upd:
  assumes "same_identity (xact st s) (f (xact st s))" "x_timers (f (xact st s)) = x_timers (xact st s)"
    "x_cb (f (xact st s)) = x_cb (xact st s)"
  shows "step_frame s st (upd_xact s f st)"
  using assms same_structure_upd [of st s f] by (simp add: step_frame_def)

lemma step_frame_send: "step_frame s st (snd (ogs_gtp_sendto env g p st))"
  by (simp add: step_frame_def ogs_gtp_sendto_def Let_def)

lemma step_frame_xinv:
  assumes "step_frame s st st'" "xinv st" "live st s \<Longrightarrow> xact_ok (xact st' s)"
  shows "xinv st'"
proof (rule same_structure_xinv [OF _ assms(2)])
  show "same_structure st st'" using assms(1) by (simp add: step_frame_def)
  show "xact_ok (xact st' t)" if "live st t" for t
    using that assms(1,3) xinv_parts(5) [OF assms(2), of t]
    by (cases "t = s") (simp_all add: step_frame_def)
qed

lemma step_frame_facts:
  assumes "step_frame s st st'"
  shows "same_structure st st'" "live st' t \<longleftrightarrow> live st t" "t \<noteq> s \<Longrightarrow> xact st' t = xact st t"
    "s_pool st' = s_pool st" "s_gnodes st' = s_gnodes st" "s_tm_avail st' = s_tm_avail st"
    "s_cbs st' = s_cbs st" "x_id (xact st' t) = x_id (xact st t)" "x_org (xact st' t) = x_org (xact st t)"
    "x_gnode (xact st' t) = x_gnode (xact st t)" "x_xid (xact st' t) = x_xid (xact st t)"
    "x_gtp_version (xact st' t) = x_gtp_version (xact st t)"
proof -
  have ss: "same_structure st st'" using assms by (simp add: step_frame_def)
  then show "same_structure st st'" "live st' t \<longleftrightarrow> live st t" by (simp_all add: same_structure_live)
  show "t \<noteq> s \<Longrightarrow> xact st' t = xact st t" "s_tm_avail st' = s_tm_avail st" "s_cbs st' = s_cbs st"
    using assms by (simp_all add: step_frame_def)
  show "s_pool st' = s_pool st" "s_gnodes st' = s_gnodes st"
    "x_id (xact st' t) = x_id (xact st t)" "x_org (xact st' t) = x_org (xact st t)"
    "x_gnode (xact st' t) = x_gnode (xact st t)" "x_xid (xact st' t) = x_xid (xact st t)"
    "x_gtp_version (xact st' t) = x_gtp_version (xact st t)"
    using ss by (simp_all add: same_structure_def same_identity_def)
qed

lemma step_frame_timer_total: "step_frame s st st' \<Longrightarrow> timer_total st' = timer_total st"
proof -
  assume f: "step_frame s st st'"
  then have "x_timers (xact st' t) = x_timers (xact st t)" for t
    by (cases "t = s") (simp_all add: step_frame_def)
  then show ?thesis
    using f by (simp add: timer_total_def same_structure_live_set [OF step_frame_facts(1) [OF f]] step_frame_def)
qed

lemma rx_start_holding_frame:
  assumes "rx_start_holding env s st = Some st'"
  shows "step_frame s st st'"
    "\<exists>t. xact st' s = (xact st s)\<lparr>x_tm_holding := t\<rparr>" "s_sent st' = s_sent st"
  using assms tm_start_Some
  by (auto simp: rx_start_holding_def x_timers_def same_identity_def split: bind_splits intro!: step_frame_upd)

lemma start_response_frame:
  assumes "start_response env s st = Some st'"
  shows "step_frame s st st'"
    "xact st' s = (xact st s)\<lparr>x_tm_response := map_option (\<lambda>_. Tm_Running (e_t3_response_duration env)) (x_tm_response (xact st s))\<rparr>"
    "s_sent st' = s_sent st"
  using assms tm_start_Some
  by (auto simp: start_response_def x_timers_def same_identity_def split: bind_splits intro!: step_frame_upd)

lemma rx_accept_frame:
  assumes "rx_accept s type st = Some (rv, st')"
  shows "rv = OGS_OK" "step_frame s st st'" "x_step (xact st' s) = x_step (xact st s) + 1"
    "s_sent st' = s_sent st"
    "x_seq (xact st' s) = (x_seq (xact st s))[x_step (xact st s) := (x_seq (xact st s) ! x_step (xact st s))\<lparr>sq_type := type\<rparr>]"
    "x_tm_response (xact st' s) = tm_stop (x_tm_response (xact st s))"
  using assms
  by (auto simp: rx_accept_def Let_def x_timers_def same_identity_def tm_stop_def tm_count_def
      split: if_splits option.splits intro!: step_frame_upd)

lemma rx_duplicate_frame:
  assumes "rx_duplicate env s k st = Some (rv, st')"
  shows "rv = OGS_RETRY" "step_frame s st st'" "\<exists>t. xact st' s = (xact st s)\<lparr>x_tm_holding := t\<rparr>"
proof -
  obtain sq where sq: "seq_get (xact st s) k = Some sq"
    using assms by (auto simp: rx_duplicate_def Let_def split: bind_splits)
  have "rv = OGS_RETRY \<and> step_frame s st st' \<and> (\<exists>t. xact st' s = (xact st s)\<lparr>x_tm_holding := t\<rparr>)"
  proof (cases "sq_pkbuf sq")
    case None
    then have "rv = OGS_RETRY" "st' = st" using assms sq by (auto simp: rx_duplicate_def Let_def)
    moreover have "xact st s = (xact st s)\<lparr>x_tm_holding := x_tm_holding (xact st s)\<rparr>" by simp
    ultimately show ?thesis by (simp, metis)
  next
    case (Some pk)
    then obtain t where t: "tm_start (x_tm_holding (xact st s)) (e_t3_holding_duration env) = Some t"
      and rv: "rv = OGS_RETRY" and st': "st' = snd (ogs_gtp_sendto env (x_gnode (xact st s)) pk
        (upd_xact s (\<lambda>x. x\<lparr>x_tm_holding := t\<rparr>) st))"
      using assms sq by (auto simp: rx_duplicate_def Let_def split: bind_splits prod.splits)
    have "step_frame s st (upd_xact s (\<lambda>x. x\<lparr>x_tm_holding := t\<rparr>) st)"
      using tm_start_Some(1) [OF t] by (auto simp: x_timers_def same_identity_def intro!: step_frame_upd)
    then show ?thesis
      using rv step_frame_trans [OF _ step_frame_send] by (auto simp: st' ogs_gtp_sendto_state)
  qed
  then show "rv = OGS_RETRY" "step_frame s st st'" "\<exists>t. xact st' s = (xact st s)\<lparr>x_tm_holding := t\<rparr>" by auto
qed

lemma xact_ok_holding: "xact_ok x \<Longrightarrow> xact_ok (x\<lparr>x_tm_holding := t\<rparr>)"
  by (simp add: xact_ok_def)

lemma rx_accept_ok:
  assumes "rx_accept s type st = Some (rv, st')" "xact_ok (xact st s)"
    and "x_org (xact st s) = OGS_GTP_LOCAL_ORIGINATOR \<and> x_step (xact st s) = 1
       \<or> x_org (xact st s) = OGS_GTP_REMOTE_ORIGINATOR \<and> (x_step (xact st s) = 0 \<or> x_step (xact st s) = 2)"
  shows "xact_ok (xact st' s)"
proof -
  note f = rx_accept_frame [OF assms(1)]
  have "x_org (xact st' s) = x_org (xact st s)" by (rule step_frame_facts(9) [OF f(2)])
  note o = this
  from assms(3) show ?thesis
  proof (elim disjE conjE)
  qed (use assms(2) o f(3,5,6) in \<open>simp_all add: xact_ok_def nth_list_update\<close>)
qed

text \<open>The outcomes of the receive step.\<close>

lemma update_rx_cases:
  assumes run: "ogs_gtp_xact_update_rx env s type st = Some (rv, st')"
  obtains "rv = OGS_ERROR" "st' = st"
    | k where "rx_duplicate env s k st = Some (rv, st')"
    | st1 where "rx_start_holding env s st = Some st1" "rx_accept s type st1 = Some (rv, st')"
        "x_org (xact st s) = OGS_GTP_LOCAL_ORIGINATOR \<and> x_step (xact st s) = 1
         \<or> x_org (xact st s) = OGS_GTP_REMOTE_ORIGINATOR \<and> x_step (xact st s) = 0"
    | "rx_accept s type st = Some (rv, st')"
        "x_org (xact st s) = OGS_GTP_LOCAL_ORIGINATOR \<and> x_step (xact st s) = 1
         \<or> x_org (xact st s) = OGS_GTP_REMOTE_ORIGINATOR \<and> x_step (xact st s) = 2"
proof -
  let ?x = "xact st s"
  have "(rv = OGS_ERROR \<and> st' = st) \<or> (\<exists>k. rx_duplicate env s k st = Some (rv, st'))
    \<or> ((\<exists>st1. rx_start_holding env s st = Some st1 \<and> rx_accept s type st1 = Some (rv, st'))
        \<and> (x_org ?x = OGS_GTP_LOCAL_ORIGINATOR \<and> x_step ?x = 1 \<or> x_org ?x = OGS_GTP_REMOTE_ORIGINATOR \<and> x_step ?x = 0))
    \<or> (rx_accept s type st = Some (rv, st')
        \<and> (x_org ?x = OGS_GTP_LOCAL_ORIGINATOR \<and> x_step ?x = 1 \<or> x_org ?x = OGS_GTP_REMOTE_ORIGINATOR \<and> x_step ?x = 2))"
    using run
    by (cases "xact_get_stage ?x type"; simp add: ogs_gtp_xact_update_rx_def Let_def split: if_splits)
      (auto split: if_splits bind_splits)
  then show thesis using that by blast
qed

text \<open>The receive step: what it leaves alone, that it keeps the transaction well-formed, and when
  the step counter advances.\<close>

lemma update_rx_frame:
  assumes run: "ogs_gtp_xact_update_rx env s type st = Some (rv, st')"
  shows "step_frame s st st'" "rv = OGS_OK \<or> rv = OGS_ERROR \<or> rv = OGS_RETRY"
    "rv = OGS_ERROR \<Longrightarrow> st' = st"
    "rv = OGS_RETRY \<Longrightarrow> \<exists>t. xact st' s = (xact st s)\<lparr>x_tm_holding := t\<rparr>"
    "rv = OGS_OK \<Longrightarrow> x_step (xact st' s) = x_step (xact st s) + 1 \<and> s_sent st' = s_sent st"
    "xact_ok (xact st s) \<Longrightarrow> xact_ok (xact st' s)"
proof -
  let ?x = "xact st s"
  note cases = update_rx_cases [OF run]
  have "step_frame s st st' \<and> (rv = OGS_OK \<or> rv = OGS_ERROR \<or> rv = OGS_RETRY)
    \<and> (rv = OGS_ERROR \<longrightarrow> st' = st)
    \<and> (rv = OGS_RETRY \<longrightarrow> (\<exists>t. xact st' s = ?x\<lparr>x_tm_holding := t\<rparr>))
    \<and> (rv = OGS_OK \<longrightarrow> x_step (xact st' s) = x_step ?x + 1 \<and> s_sent st' = s_sent st)
    \<and> (xact_ok ?x \<longrightarrow> xact_ok (xact st' s))"
  proof (rule cases)
    assume "rv = OGS_ERROR" "st' = st" then show ?thesis by simp
  next
    fix k assume "rx_duplicate env s k st = Some (rv, st')"
    note d = rx_duplicate_frame [OF this]
    then obtain t where "xact st' s = ?x\<lparr>x_tm_holding := t\<rparr>" by blast
    then show ?thesis using d xact_ok_holding by auto
  next
    fix st1 assume h: "rx_start_holding env s st = Some st1" and a: "rx_accept s type st1 = Some (rv, st')"
      and o: "x_org ?x = OGS_GTP_LOCAL_ORIGINATOR \<and> x_step ?x = 1 \<or> x_org ?x = OGS_GTP_REMOTE_ORIGINATOR \<and> x_step ?x = 0"
    obtain t where t: "xact st1 s = ?x\<lparr>x_tm_holding := t\<rparr>" using rx_start_holding_frame(2) [OF h] by blast
    have "xact_ok (xact st' s)" if "xact_ok ?x"
      using rx_accept_ok [OF a] t that xact_ok_holding o by auto
    moreover have "x_step (xact st' s) = x_step ?x + 1" "s_sent st' = s_sent st"
      using rx_accept_frame(3,4) [OF a] rx_start_holding_frame(3) [OF h] t by simp_all
    ultimately show ?thesis
      using step_frame_trans [OF rx_start_holding_frame(1) [OF h] rx_accept_frame(2) [OF a]] rx_accept_frame(1) [OF a]
      by simp
  next
    assume a: "rx_accept s type st = Some (rv, st')"
      and o: "x_org ?x = OGS_GTP_LOCAL_ORIGINATOR \<and> x_step ?x = 1 \<or> x_org ?x = OGS_GTP_REMOTE_ORIGINATOR \<and> x_step ?x = 2"
    then show ?thesis using rx_accept_ok [OF a] rx_accept_frame [OF a] by auto
  qed
  then show "step_frame s st st'" "rv = OGS_OK \<or> rv = OGS_ERROR \<or> rv = OGS_RETRY"
    "rv = OGS_ERROR \<Longrightarrow> st' = st"
    "rv = OGS_RETRY \<Longrightarrow> \<exists>t. xact st' s = ?x\<lparr>x_tm_holding := t\<rparr>"
    "rv = OGS_OK \<Longrightarrow> x_step (xact st' s) = x_step ?x + 1 \<and> s_sent st' = s_sent st"
    "xact_ok ?x \<Longrightarrow> xact_ok (xact st' s)"
    by blast+
qed

text \<open>The configuration has positive durations, which \<open>ogs_local_conf\<close> asserts at start-up.\<close>

definition conf_ok :: "gtp_env \<Rightarrow> bool" where
  "conf_ok env \<longleftrightarrow> e_t3_response_duration env \<noteq> 0 \<and> e_t3_holding_duration env \<noteq> 0"

lemma update_rx_total:
  assumes "conf_ok env" "xact_ok (xact st s)"
  shows "\<exists>rv st'. ogs_gtp_xact_update_rx env s type st = Some (rv, st')"
proof -
  let ?x = "xact st s"
  have d: "e_t3_holding_duration env \<noteq> 0" using assms(1) by (simp add: conf_ok_def)
  have len: "length (x_seq ?x) = 3" using assms(2) by (simp add: xact_ok_def)
  obtain t where t: "tm_start (x_tm_holding ?x) (e_t3_holding_duration env) = Some t"
    using tm_start_total [OF d] by blast
  have dup: "\<exists>rv st'. rx_duplicate env s k st = Some (rv, st')" if "k < 3" for k
    using that t len by (auto simp: rx_duplicate_def Let_def seq_get_def split: option.splits prod.splits)
  have acc: "\<exists>rv st'. rx_accept s type st = Some (rv, st')" if "x_step ?x < 3"
    using that len by (simp add: rx_accept_def Let_def)
  have hold: "\<exists>rv st'. (rx_start_holding env s st \<bind> rx_accept s type) = Some (rv, st')" if "x_step ?x < 3"
    using that len t by (simp add: rx_accept_def rx_start_holding_def Let_def)
  show ?thesis
    using dup [of 1] dup [of 2] acc hold len
    by (auto simp: ogs_gtp_xact_update_rx_def Let_def seq_get_def split: gtp_xact_stage.splits)
qed

section \<open>Transmit\<close>

lemma xact_save_Some:
  assumes "xact_save type pk x = Some x'"
  shows "x_step x < length (x_seq x)" "x' = x\<lparr>x_seq := (x_seq x)[x_step x := \<lparr>sq_type = type, sq_pkbuf = Some pk\<rparr>],
      x_step := x_step x + 1\<rparr>"
  using assms by (auto simp: xact_save_def split: if_splits)

lemma tx_allowed_cases:
  assumes "gtp2_tx_allowed org stage step = Some True \<or> gtp1_tx_allowed org stage step = Some True"
  obtains "org = OGS_GTP_LOCAL_ORIGINATOR" "step = 0"
    | "org = OGS_GTP_LOCAL_ORIGINATOR" "step = 2 \<or> step = 3"
    | "org = OGS_GTP_REMOTE_ORIGINATOR" "step = 1"
  using assms
  by (auto simp: gtp2_tx_allowed_def gtp1_tx_allowed_def split: if_splits gtp_xact_stage.splits)

lemma xact_save_ok:
  assumes ok: "xact_ok x" and save: "xact_save type pk (x\<lparr>x_sqn := q\<rparr>) = Some x'"
    and allowed: "gtp2_tx_allowed (x_org x) stage (x_step x) = Some True
      \<or> gtp1_tx_allowed (x_org x) stage (x_step x) = Some True"
  shows "xact_ok x'" "same_identity x x'" "x_timers x' = x_timers x" "x_cb x' = x_cb x" "x_step x' = x_step x + 1"
proof -
  have x': "x' = x\<lparr>x_sqn := q, x_seq := (x_seq x)[x_step x := \<lparr>sq_type = type, sq_pkbuf = Some pk\<rparr>],
      x_step := x_step x + 1\<rparr>" and lt: "x_step x < 3"
    using xact_save_Some [OF save] ok by (simp_all add: xact_ok_def)
  show "same_identity x x'" "x_timers x' = x_timers x" "x_cb x' = x_cb x" "x_step x' = x_step x + 1"
    by (simp_all add: x' same_identity_def x_timers_def)
  from allowed show "xact_ok x'"
    by (rule tx_allowed_cases) (use ok lt in \<open>simp_all add: xact_ok_def x' nth_list_update\<close>)
qed

lemma update_tx_frame:
  assumes "ogs_gtp_xact_update_tx s hdesc pk st = Some (rv, st')" "xact_ok (xact st s)"
  shows "step_frame s st st'" "xact_ok (xact st' s)" "rv = OGS_OK \<or> rv = OGS_ERROR \<and> st' = st"
    "rv = OGS_OK \<Longrightarrow> x_step (xact st' s) = x_step (xact st s) + 1" "s_sent st' = s_sent st"
proof -
  obtain b where b: "gtp2_tx_allowed (x_org (xact st s)) (ogs_gtp2_xact_get_stage (hd_type hdesc) (x_xid (xact st s)))
      (x_step (xact st s)) = Some b"
    using assms(1) by (auto simp: ogs_gtp_xact_update_tx_def Let_def split: bind_splits)
  have "step_frame s st st' \<and> xact_ok (xact st' s) \<and> (rv = OGS_OK \<or> rv = OGS_ERROR \<and> st' = st)
    \<and> (rv = OGS_OK \<longrightarrow> x_step (xact st' s) = x_step (xact st s) + 1) \<and> s_sent st' = s_sent st"
  proof (cases b)
    case False
    then show ?thesis using assms b by (simp add: ogs_gtp_xact_update_tx_def Let_def)
  next
    case True
    then obtain x' where x': "xact_save (hd_type hdesc) (gtp2_push_header hdesc (x_xid (xact st s)) pk)
        ((xact st s)\<lparr>x_sqn := OGS_GTP2_XID_TO_SQN (x_xid (xact st s))\<rparr>) = Some x'"
      and st': "rv = OGS_OK" "st' = upd_xact s (\<lambda>_. x') st"
      using assms(1) b by (auto simp: ogs_gtp_xact_update_tx_def Let_def split: bind_splits)
    note ok = xact_save_ok [OF assms(2) x', of "ogs_gtp2_xact_get_stage (hd_type hdesc) (x_xid (xact st s))"]
    then show ?thesis using b True st' by (auto intro!: step_frame_upd)
  qed
  then show "step_frame s st st'" "xact_ok (xact st' s)" "rv = OGS_OK \<or> rv = OGS_ERROR \<and> st' = st"
    "rv = OGS_OK \<Longrightarrow> x_step (xact st' s) = x_step (xact st s) + 1" "s_sent st' = s_sent st" by blast+
qed

text \<open>A GTPv1 transmit step keeps \<open>x_sqn\<close>; otherwise it is like the GTPv2 step.\<close>

lemma update_tx1_frame:
  assumes "ogs_gtp1_xact_update_tx s hdesc pk st = Some (rv, st')" "xact_ok (xact st s)"
  shows "step_frame s st st'" "xact_ok (xact st' s)" "rv = OGS_OK \<or> rv = OGS_ERROR \<and> st' = st"
    "rv = OGS_OK \<Longrightarrow> x_step (xact st' s) = x_step (xact st s) + 1" "s_sent st' = s_sent st"
proof -
  obtain b where b: "gtp1_tx_allowed (x_org (xact st s)) (ogs_gtp1_xact_get_stage (hd_type hdesc) (x_xid (xact st s)))
      (x_step (xact st s)) = Some b"
    using assms(1) by (auto simp: ogs_gtp1_xact_update_tx_def Let_def split: bind_splits)
  have "step_frame s st st' \<and> xact_ok (xact st' s) \<and> (rv = OGS_OK \<or> rv = OGS_ERROR \<and> st' = st)
    \<and> (rv = OGS_OK \<longrightarrow> x_step (xact st' s) = x_step (xact st s) + 1) \<and> s_sent st' = s_sent st"
  proof (cases b)
    case False
    then show ?thesis using assms b by (simp add: ogs_gtp1_xact_update_tx_def Let_def)
  next
    case True
    then obtain x' where x': "xact_save (hd_type hdesc) (gtp1_push_header hdesc (x_xid (xact st s)) pk)
        ((xact st s)\<lparr>x_sqn := x_sqn (xact st s)\<rparr>) = Some x'"
      and st': "rv = OGS_OK" "st' = upd_xact s (\<lambda>_. x') st"
      using assms(1) b by (auto simp: ogs_gtp1_xact_update_tx_def Let_def split: bind_splits)
    note ok = xact_save_ok [OF assms(2) x', of "ogs_gtp1_xact_get_stage (hd_type hdesc) (x_xid (xact st s))"]
    then show ?thesis using b True st' by (auto intro!: step_frame_upd)
  qed
  then show "step_frame s st st'" "xact_ok (xact st' s)" "rv = OGS_OK \<or> rv = OGS_ERROR \<and> st' = st"
    "rv = OGS_OK \<Longrightarrow> x_step (xact st' s) = x_step (xact st s) + 1" "s_sent st' = s_sent st" by blast+
qed

text \<open>The GTPv2 step aborts only for a local transaction and a message type without a stage.\<close>

lemma update_tx_total:
  assumes "xact_ok (xact st s)"
    and "x_org (xact st s) = OGS_GTP_LOCAL_ORIGINATOR \<Longrightarrow>
      ogs_gtp2_xact_get_stage (hd_type hdesc) (x_xid (xact st s)) \<noteq> GTP_XACT_UNKNOWN_STAGE"
  shows "\<exists>rv st'. ogs_gtp_xact_update_tx s hdesc pk st = Some (rv, st')"
  using assms
  by (auto simp: ogs_gtp_xact_update_tx_def Let_def gtp2_tx_allowed_def xact_save_def xact_ok_def
      split: gtp_xact_stage.splits if_splits)

end
