(* ===== verification/Gtp_Xact_Ops.thy ===== *)
theory Gtp_Xact_Ops
  imports Gtp_Xact_Steps
begin

text \<open>
  The interface operations of the GTP transaction layer keep its invariant and its number of
  timers, and do not abort on well-formed states: creation, receive, commit, the three timeouts,
  association and the deletion of all transactions of a peer.
\<close>

section \<open>Resources\<close>

text \<open>A new transaction needs a free slot, an id that is not in use and three timers.\<close>

definition can_create :: "gtp_state \<Rightarrow> bool" where
  "can_create st \<longleftrightarrow> ip_free (s_pool st) \<noteq> [] \<and> idpool_fresh (s_pool st) \<and> 3 \<le> s_tm_avail st"

lemma timer_total_add:
  assumes "ids_ok st" "ids_ok st'" "\<And>t. live st' t \<longleftrightarrow> live st t \<or> t = s" "\<not> live st s"
    and "\<And>t. t \<noteq> s \<Longrightarrow> x_timers (xact st' t) = x_timers (xact st t)"
    and "s_tm_avail st' + x_timers (xact st' s) = s_tm_avail st"
  shows "timer_total st' = timer_total st"
proof -
  have set: "live_set st' = insert s (live_set st)" "s \<notin> live_set st"
    using assms(3,4) live_iff [OF assms(1)] live_iff [OF assms(2)] by auto
  have "(\<Sum>t \<in> live_set st. x_timers (xact st' t)) = (\<Sum>t \<in> live_set st. x_timers (xact st t))"
  proof (rule sum.cong [OF refl])
    show "x_timers (xact st' t) = x_timers (xact st t)" if "t \<in> live_set st" for t
      using that set(2) assms(5) [of t] by (cases "t = s") simp_all
  qed
  then show ?thesis using assms(6) set finite_live_set [OF assms(1)] by (simp add: timer_total_def)
qed

lemma timer_total_delete:
  assumes "ids_ok st" "ids_ok st'" "\<And>t. live st' t \<longleftrightarrow> live st t \<and> t \<noteq> s" "live st s"
    and "\<And>t. t \<noteq> s \<Longrightarrow> x_timers (xact st' t) = x_timers (xact st t)"
    and "s_tm_avail st' = s_tm_avail st + x_timers (xact st s)"
  shows "timer_total st' = timer_total st"
proof -
  have set: "live_set st' = live_set st - {s}" "s \<in> live_set st"
    using assms(3,4) live_iff [OF assms(1)] live_iff [OF assms(2)] by auto
  have "(\<Sum>t \<in> live_set st - {s}. x_timers (xact st' t)) = (\<Sum>t \<in> live_set st - {s}. x_timers (xact st t))"
    using assms(5) by (intro sum.cong) auto
  then show ?thesis
    using assms(6) set finite_live_set [OF assms(1)] sum.remove [of "live_set st" s "\<lambda>t. x_timers (xact st t)"]
    by (simp add: timer_total_def)
qed

lemma delete_timer_total:
  assumes "xinv st" "live st s" "ogs_gtp_xact_delete s st = Some st'"
  shows "timer_total st' = timer_total st" "xinv st'" "live st' t \<longleftrightarrow> live st t \<and> t \<noteq> s"
    "live st' t \<Longrightarrow> x_step (xact st' t) = x_step (xact st t)"
proof -
  obtain st'' where st'': "ogs_gtp_xact_delete s st = Some st''" "xinv st''"
    "\<And>t. live st'' t \<longleftrightarrow> live st t \<and> t \<noteq> s" "s_tm_avail st'' = s_tm_avail st + x_timers (xact st s)"
    "\<And>t. t \<noteq> s \<Longrightarrow> xact st'' t = (if partner st s = Some t then assoc_clear (xact st t) else xact st t)"
    by (rule delete_ok [OF assms(1,2)]) blast
  then have eq: "st'' = st'" using assms(3) by simp
  show "timer_total st' = timer_total st"
    by (rule timer_total_delete [OF xinv_parts(1) [OF assms(1)] xinv_parts(1) [OF st''(2), unfolded eq]
          st''(3) [unfolded eq] assms(2)])
      (use st''(4,5) in \<open>simp_all add: eq\<close>)
  show "xinv st'" "live st' t \<longleftrightarrow> live st t \<and> t \<noteq> s" using st''(2,3) eq by simp_all
  show "x_step (xact st' t) = x_step (xact st t)" if "live st' t"
    using that st''(3,5) [of t] eq by simp
qed

lemma delete_gtp_inv:
  assumes "xinv st" "live st s" "\<And>t. live st t \<Longrightarrow> t \<noteq> s \<Longrightarrow> 1 \<le> x_step (xact st t)"
  obtains st' where "ogs_gtp_xact_delete s st = Some st'" "gtp_inv st'" "timer_total st' = timer_total st"
    "\<And>t. live st' t \<longleftrightarrow> live st t \<and> t \<noteq> s"
proof -
  obtain st' where del: "ogs_gtp_xact_delete s st = Some st'" by (rule delete_ok [OF assms(1,2)])
  note d = delete_timer_total [OF assms(1,2) del]
  have "gtp_inv st'" using d(2,3,4) assms(3) by (auto simp: gtp_inv_def)
  then show thesis using that [OF del] d by blast
qed

section \<open>Creation\<close>

lemma add_timers:
  assumes "3 \<le> s_tm_avail st"
  obtains st1 st2 st3 where "add_response env s st = Some st1" "add_holding env s st1 = Some st2"
    "add_peer s st2 = Some st3"
    "\<And>t. xact st3 t = (if t = s then (xact st s)\<lparr>x_tm_response := Some Tm_Idle,
        x_response_rcount := of_int (e_n3_response_rcount env), x_tm_holding := Some Tm_Idle,
        x_holding_rcount := of_int (e_n3_holding_rcount env), x_tm_peer := Some Tm_Idle\<rparr> else xact st t)"
    "s_pool st3 = s_pool st" "s_gnodes st3 = s_gnodes st" "s_tm_avail st3 = s_tm_avail st - 3"
    "s_sent st3 = s_sent st" "s_cbs st3 = s_cbs st" "s_xact_id st3 = s_xact_id st"
  by (rule that [of "the (add_response env s st)" "the (add_holding env s (the (add_response env s st)))"
        "the (add_peer s (the (add_holding env s (the (add_response env s st)))))"])
    (use assms in \<open>simp_all add: add_response_def add_holding_def add_peer_def ogs_timer_add_def\<close>)

lemma xact_calloc_Some:
  assumes "ip_free (s_pool st) \<noteq> []"
  obtains s i pool where "idpool_calloc (s_pool st) = (Some (s, i), pool)"
    "xact_calloc st = (Some s, upd_xact s (\<lambda>_. xact_zero\<lparr>x_id := i\<rparr>) (st\<lparr>s_pool := pool\<rparr>))"
  using assms by (cases "ip_free (s_pool st)") (simp_all add: idpool_calloc_def xact_calloc_def Let_def)

text \<open>A transaction as the creating functions leave it before it is put on its list.\<close>

definition new_xact :: "gtp_env \<Rightarrow> nat \<Rightarrow> u8 \<Rightarrow> u8 \<Rightarrow> u32 \<Rightarrow> nat \<Rightarrow> nat option \<Rightarrow> gtp_xact" where
  "new_xact env i version org xid g cb =
     xact_zero\<lparr>x_id := i, x_gtp_version := version, x_org := org, x_xid := xid, x_gnode := g, x_cb := cb,
       x_tm_response := Some Tm_Idle, x_response_rcount := of_int (e_n3_response_rcount env),
       x_tm_holding := Some Tm_Idle, x_holding_rcount := of_int (e_n3_holding_rcount env),
       x_tm_peer := Some Tm_Idle\<rparr>"

lemma new_xact_fields [simp]:
  "x_id (new_xact env i v org xid g cb) = i" "x_org (new_xact env i v org xid g cb) = org"
  "x_gtp_version (new_xact env i v org xid g cb) = v" "x_xid (new_xact env i v org xid g cb) = xid"
  "x_gnode (new_xact env i v org xid g cb) = g" "x_cb (new_xact env i v org xid g cb) = cb"
  "x_step (new_xact env i v org xid g cb) = 0" "x_timers (new_xact env i v org xid g cb) = 3"
  "x_assoc_xact_id (new_xact env i v org xid g cb) = OGS_INVALID_POOL_ID"
  "x_seq (new_xact env i v org xid g cb) = replicate 3 \<lparr>sq_type = 0, sq_pkbuf = None\<rparr>"
  "x_tm_response (new_xact env i v org xid g cb) = Some Tm_Idle"
  "x_tm_holding (new_xact env i v org xid g cb) = Some Tm_Idle"
  "x_response_rcount (new_xact env i v org xid g cb) = of_int (e_n3_response_rcount env)"
  "x_lag_defer_count (new_xact env i v org xid g cb) = 0"
  by (simp_all add: new_xact_def xact_zero_def x_timers_def tm_count_def OGS_INVALID_POOL_ID_def)

lemma new_xact_ok:
  "org = OGS_GTP_LOCAL_ORIGINATOR \<or> org = OGS_GTP_REMOTE_ORIGINATOR \<Longrightarrow> xact_ok (new_xact env i v org xid g cb)"
  by (simp add: xact_ok_def)

text \<open>The state after a successful creation: one more transaction in use, linked and indexed,
  three timers fewer in the pool.\<close>

definition created :: "nat \<Rightarrow> gtp_xact \<Rightarrow> gtp_state \<Rightarrow> gtp_state \<Rightarrow> bool" where
  "created s x st st' \<longleftrightarrow> xinv st' \<and> \<not> live st s \<and> (\<forall>t. live st' t \<longleftrightarrow> live st t \<or> t = s)
     \<and> xact st' s = key_set x \<and> (\<forall>t. t \<noteq> s \<longrightarrow> xact st' t = xact st t)
     \<and> timer_total st' = timer_total st
     \<and> s_tm_avail st' + x_timers x = s_tm_avail st \<and> s_sent st' = s_sent st \<and> s_cbs st' = s_cbs st
     \<and> s_gnodes st' = (s_gnodes st)(x_gnode x := gnode_add x s (s_gnodes st (x_gnode x)))
     \<and> ip_ids (s_pool st') = (ip_ids (s_pool st))(x_id x \<mapsto> s)
     \<and> ip_free (s_pool st) = s # ip_free (s_pool st')"

lemma created_link:
  assumes inv: "xinv st" and can: "can_create st"
    and alloc: "idpool_calloc (s_pool st) = (Some (s, i), pool)"
    and st1: "s_pool st1 = pool" "s_gnodes st1 = s_gnodes st" "\<And>t. t \<noteq> s \<Longrightarrow> xact st1 t = xact st t"
      "s_tm_avail st1 + x_timers x = s_tm_avail st" "s_sent st1 = s_sent st" "s_cbs st1 = s_cbs st"
    and x: "xact st1 s = x" "x_id x = i" "x_assoc_xact_id x = OGS_INVALID_POOL_ID" "xact_ok x"
  shows "created s x st (xact_link s st1)"
proof -
  have fresh: "idpool_fresh (s_pool st)" using can by (auto simp: can_create_def)
  have l: "xinv (xact_link s st1)" "\<And>t. live (xact_link s st1) t \<longleftrightarrow> live st t \<or> t = s" "\<not> live st s"
    by (rule link_ok [OF inv fresh alloc st1(1,2)]; use st1(3) x in simp)+
  have "idpool_inv (s_pool st)" using xinv_parts(1) [OF inv] by (simp add: ids_ok_def)
  note c = idpool_calloc_inv [OF this fresh alloc]
  have xs: "xact (xact_link s st1) s = key_set x" "\<And>t. t \<noteq> s \<Longrightarrow> xact (xact_link s st1) t = xact st t"
    "s_tm_avail (xact_link s st1) = s_tm_avail st1" "s_sent (xact_link s st1) = s_sent st"
    "s_cbs (xact_link s st1) = s_cbs st" "s_pool (xact_link s st1) = pool"
    "s_gnodes (xact_link s st1) = (s_gnodes st)(x_gnode x := gnode_add x s (s_gnodes st (x_gnode x)))"
    by (simp_all add: xact_link_eq st1 x(1))
  have "timer_total (xact_link s st1) = timer_total st"
    by (rule timer_total_add [OF xinv_parts(1) [OF inv] xinv_parts(1) [OF l(1)] l(2,3)])
      (use xs st1(4) in simp_all)
  then show ?thesis using l xs c(2,8) x(2) st1(4) by (simp add: created_def)
qed

lemma create_common:
  assumes inv: "xinv st" and can: "can_create st"
    and alloc: "idpool_calloc (s_pool st) = (Some (s, i), pool)"
    and sta: "s_pool sta = pool" "s_gnodes sta = s_gnodes st" "s_tm_avail sta = s_tm_avail st" "s_sent sta = s_sent st"
      "s_cbs sta = s_cbs st" "\<And>t. t \<noteq> s \<Longrightarrow> xact sta t = xact st t"
    and x0: "xact sta s = xact_zero\<lparr>x_id := i, x_gtp_version := v, x_org := org, x_xid := xid, x_gnode := g, x_cb := cb\<rparr>"
    and org: "org = OGS_GTP_LOCAL_ORIGINATOR \<or> org = OGS_GTP_REMOTE_ORIGINATOR"
  obtains st1 st2 st3 where "add_response env s sta = Some st1" "add_holding env s st1 = Some st2"
    "add_peer s st2 = Some st3" "created s (new_xact env i v org xid g cb) st (xact_link s st3)"
proof -
  have tm: "3 \<le> s_tm_avail st" using can by (simp add: can_create_def)
  obtain st1 st2 st3 where adds: "add_response env s sta = Some st1" "add_holding env s st1 = Some st2" "add_peer s st2 = Some st3"
    and x3: "\<And>t. xact st3 t = (if t = s then (xact sta s)\<lparr>x_tm_response := Some Tm_Idle,
        x_response_rcount := of_int (e_n3_response_rcount env), x_tm_holding := Some Tm_Idle,
        x_holding_rcount := of_int (e_n3_holding_rcount env), x_tm_peer := Some Tm_Idle\<rparr> else xact sta t)"
    and st3: "s_pool st3 = s_pool sta" "s_gnodes st3 = s_gnodes sta" "s_tm_avail st3 = s_tm_avail sta - 3"
    "s_sent st3 = s_sent sta" "s_cbs st3 = s_cbs sta"
  proof (rule add_timers [of sta env s])
    show "3 \<le> s_tm_avail sta" using tm sta(3) by simp
  qed (rule that; assumption)
  have "created s (new_xact env i v org xid g cb) st (xact_link s st3)"
  proof (rule created_link [OF inv can alloc])
    show "xact st3 s = new_xact env i v org xid g cb"
      by (simp add: x3 x0 new_xact_def xact_zero_def)
  qed (use sta st3 x3 tm new_xact_ok [OF org] in simp_all)
  then show thesis by (rule that [OF adds])
qed

lemma remote_create_ok:
  assumes inv: "xinv st" and can: "can_create st"
  obtains s i st' where "ogs_gtp_xact_remote_create env g v sqn st = Some (Some s, st')"
    "created s (new_xact env i v OGS_GTP_REMOTE_ORIGINATOR
        (if v = 1 then OGS_GTP1_SQN_TO_XID sqn else OGS_GTP2_SQN_TO_XID sqn) g None) st st'"
proof -
  let ?xid = "if v = 1 then OGS_GTP1_SQN_TO_XID sqn else OGS_GTP2_SQN_TO_XID sqn"
  have free: "ip_free (s_pool st) \<noteq> []" using can by (simp add: can_create_def)
  obtain s i pool where alloc: "idpool_calloc (s_pool st) = (Some (s, i), pool)"
    and calloc: "xact_calloc st = (Some s, upd_xact s (\<lambda>_. xact_zero\<lparr>x_id := i\<rparr>) (st\<lparr>s_pool := pool\<rparr>))"
    by (rule xact_calloc_Some [OF free])
  define sta where "sta = upd_xact s (\<lambda>x. x\<lparr>x_gtp_version := v, x_org := OGS_GTP_REMOTE_ORIGINATOR, x_xid := ?xid,
      x_gnode := g\<rparr>) (upd_xact s (\<lambda>_. xact_zero\<lparr>x_id := i\<rparr>) (st\<lparr>s_pool := pool\<rparr>))"
  obtain st1 st2 st3 where adds: "add_response env s sta = Some st1" "add_holding env s st1 = Some st2" "add_peer s st2 = Some st3"
    and cr: "created s (new_xact env i v OGS_GTP_REMOTE_ORIGINATOR ?xid g None) st (xact_link s st3)"
  proof (rule create_common [OF inv can alloc, where sta = sta and env = env])
    show "xact sta s = xact_zero\<lparr>x_id := i, x_gtp_version := v, x_org := OGS_GTP_REMOTE_ORIGINATOR, x_xid := ?xid,
        x_gnode := g, x_cb := None\<rparr>" by (simp add: sta_def xact_zero_def)
  qed ((rule that; assumption) | simp add: sta_def)+
  have run: "ogs_gtp_xact_remote_create env g v sqn st = Some (Some s, xact_link s st3)"
    using adds by (simp add: ogs_gtp_xact_remote_create_def calloc Let_def sta_def [symmetric])
  then show thesis by (rule that [OF _ cr])
qed

lemma xact_next_xid_state:
  "snd (xact_next_xid env mn mx st) = st\<lparr>s_xact_id := s_xact_id (snd (xact_next_xid env mn mx st))\<rparr>"
  by (simp add: xact_next_xid_def Let_def)

text \<open>The id of a GTPv2 request of this side.\<close>

definition local_xid :: "gtp_env \<Rightarrow> u8 \<Rightarrow> gtp_state \<Rightarrow> u32" where
  "local_xid env type st =
     (let xid = fst (xact_next_xid env OGS_GTP_MIN_XACT_ID OGS_GTP_CMD_XACT_ID st)
      in if is_gtp2_command type then xid OR OGS_GTP_CMD_XACT_ID else xid)"

lemma next_xid_calloc: "fst (xact_next_xid env mn mx (upd_xact s f (st\<lparr>s_pool := p\<rparr>))) = fst (xact_next_xid env mn mx st)"
  by (simp add: xact_next_xid_def Let_def)

lemma local_create_run:
  assumes inv: "xinv st" and can: "can_create st"
  obtains s i st' where
    "created s (new_xact env i 2 OGS_GTP_LOCAL_ORIGINATOR (local_xid env (hd_type hdesc) st) g cb) st st'"
    "ogs_gtp_xact_local_create env g hdesc pk cb st =
       do { (rv, st) \<leftarrow> ogs_gtp_xact_update_tx s hdesc pk st';
            if rv \<noteq> OGS_OK then create_fail s st else Some (Some s, st) }"
proof -
  have free: "ip_free (s_pool st) \<noteq> []" using can by (simp add: can_create_def)
  obtain s i pool where alloc: "idpool_calloc (s_pool st) = (Some (s, i), pool)"
    and calloc: "xact_calloc st = (Some s, upd_xact s (\<lambda>_. xact_zero\<lparr>x_id := i\<rparr>) (st\<lparr>s_pool := pool\<rparr>))"
    by (rule xact_calloc_Some [OF free])
  define stc where "stc = upd_xact s (\<lambda>_. xact_zero\<lparr>x_id := i\<rparr>) (st\<lparr>s_pool := pool\<rparr>)"
  let ?xid = "local_xid env (hd_type hdesc) st"
  obtain n stn where next_xid: "xact_next_xid env OGS_GTP_MIN_XACT_ID OGS_GTP_CMD_XACT_ID stc = (n, stn)"
    by (cases "xact_next_xid env OGS_GTP_MIN_XACT_ID OGS_GTP_CMD_XACT_ID stc")
  have n: "(if is_gtp2_command (hd_type hdesc) then n OR OGS_GTP_CMD_XACT_ID else n) = ?xid"
    using arg_cong [OF next_xid, of fst] by (simp add: local_xid_def Let_def stc_def next_xid_calloc)
  have stn: "stn = stc\<lparr>s_xact_id := s_xact_id stn\<rparr>"
    using xact_next_xid_state [of env OGS_GTP_MIN_XACT_ID OGS_GTP_CMD_XACT_ID stc] next_xid by simp
  have stn': "s_pool stn = pool" "s_gnodes stn = s_gnodes st" "s_tm_avail stn = s_tm_avail st" "s_sent stn = s_sent st"
    "s_cbs stn = s_cbs st" "\<And>t. xact stn t = (if t = s then xact_zero\<lparr>x_id := i\<rparr> else xact st t)"
    by (subst stn, simp add: stc_def)+
  define sta where "sta = upd_xact s (\<lambda>x. x\<lparr>x_gtp_version := 2, x_org := OGS_GTP_LOCAL_ORIGINATOR, x_xid := ?xid,
      x_gnode := g, x_cb := cb\<rparr>) stn"
  obtain st1 st2 st3 where adds: "add_response env s sta = Some st1" "add_holding env s st1 = Some st2" "add_peer s st2 = Some st3"
    and cr: "created s (new_xact env i 2 OGS_GTP_LOCAL_ORIGINATOR ?xid g cb) st (xact_link s st3)"
  proof (rule create_common [OF inv can alloc, where sta = sta and env = env])
    show "xact sta s = xact_zero\<lparr>x_id := i, x_gtp_version := 2, x_org := OGS_GTP_LOCAL_ORIGINATOR, x_xid := ?xid,
        x_gnode := g, x_cb := cb\<rparr>" by (simp add: sta_def stn')
  qed ((rule that; assumption) | simp add: sta_def stn')+
  have "ogs_gtp_xact_local_create env g hdesc pk cb st =
       do { (rv, st) \<leftarrow> ogs_gtp_xact_update_tx s hdesc pk (xact_link s st3);
            if rv \<noteq> OGS_OK then create_fail s st else Some (Some s, st) }"
    using adds by (simp add: ogs_gtp_xact_local_create_def calloc stc_def [symmetric] next_xid n Let_def sta_def [symmetric])
  then show thesis by (rule that [OF cr])
qed

lemma create_fail_inv:
  assumes "xinv st" "live st s" "\<And>t. live st t \<Longrightarrow> t \<noteq> s \<Longrightarrow> 1 \<le> x_step (xact st t)"
  shows "\<exists>st'. create_fail s st = Some (None, st') \<and> gtp_inv st' \<and> timer_total st' = timer_total st"
proof -
  obtain st' where "ogs_gtp_xact_delete s st = Some st'" "gtp_inv st'" "timer_total st' = timer_total st"
    by (rule delete_gtp_inv [OF assms])
  then show ?thesis by (simp add: create_fail_def)
qed

lemma created_facts:
  assumes "created s x st st'"
  shows "xinv st'" "live st' t \<longleftrightarrow> live st t \<or> t = s" "xact st' s = key_set x" "t \<noteq> s \<Longrightarrow> xact st' t = xact st t"
    "timer_total st' = timer_total st" "live st' s"
  using assms by (simp_all add: created_def)

text \<open>The first transmit step of a local transaction either succeeds or undoes the creation.\<close>

lemma create_tx_inv:
  assumes cr: "created s x st st1" and inv: "gtp_inv st"
    and run: "tx = Some (rv, st2)"
    and frame: "step_frame s st1 st2" "xact_ok (xact st2 s)" "rv = OGS_OK \<or> rv = OGS_ERROR \<and> st2 = st1"
      "rv = OGS_OK \<Longrightarrow> x_step (xact st2 s) = x_step (xact st1 s) + 1"
  shows "\<exists>r st'. do { (rv, st) \<leftarrow> tx; if rv \<noteq> OGS_OK then create_fail s st else Some (Some s, st) } = Some (r, st')
      \<and> gtp_inv st' \<and> timer_total st' = timer_total st"
proof -
  note c = created_facts [OF cr]
  have steps: "1 \<le> x_step (xact st1 t)" if "live st1 t" "t \<noteq> s" for t
    using that c(2,4) [of t] inv by (simp add: gtp_inv_def)
  have x2: "xinv st2" using step_frame_xinv [OF frame(1) c(1)] frame(2) by simp
  have steps2: "1 \<le> x_step (xact st2 t)" if "live st2 t" "t \<noteq> s" for t
    using that steps [of t] step_frame_facts(2,3) [OF frame(1)] by simp
  have l2: "live st2 s" using c(6) step_frame_facts(2) [OF frame(1)] by simp
  have tt: "timer_total st2 = timer_total st" using step_frame_timer_total [OF frame(1)] c(5) by simp
  show ?thesis
  proof (cases "rv = OGS_OK")
    case True
    have "1 \<le> x_step (xact st2 t)" if "live st2 t" for t
      using that steps2 [of t] frame(4) [OF True] by (cases "t = s") simp_all
    then have "gtp_inv st2" using x2 by (simp add: gtp_inv_def)
    then show ?thesis using run True tt by simp
  next
    case False
    then show ?thesis using run create_fail_inv [OF x2 l2 steps2] tt by auto
  qed
qed

definition known_gtp2_type :: "u8 \<Rightarrow> bool" where
  "known_gtp2_type type \<longleftrightarrow> type \<in> set (gtp2_initial_types @ gtp2_bearer_request_types @ gtp2_final_types)"

lemma known_gtp2_stage: "ogs_gtp2_xact_get_stage type xid \<noteq> GTP_XACT_UNKNOWN_STAGE \<longleftrightarrow> known_gtp2_type type"
  by (simp add: ogs_gtp2_xact_get_stage_def known_gtp2_type_def)

lemma local_create_inv:
  assumes "gtp_inv st" "can_create st" "known_gtp2_type (hd_type hdesc)"
  shows "\<exists>r st'. ogs_gtp_xact_local_create env g hdesc pk cb st = Some (r, st') \<and> gtp_inv st'
     \<and> timer_total st' = timer_total st"
proof -
  have inv: "xinv st" using assms(1) by (simp add: gtp_inv_def)
  obtain s i st1 where cr: "created s (new_xact env i 2 OGS_GTP_LOCAL_ORIGINATOR (local_xid env (hd_type hdesc) st) g cb) st st1"
    and run: "ogs_gtp_xact_local_create env g hdesc pk cb st =
       do { (rv, st) \<leftarrow> ogs_gtp_xact_update_tx s hdesc pk st1; if rv \<noteq> OGS_OK then create_fail s st else Some (Some s, st) }"
    by (rule local_create_run [OF inv assms(2)])
  have ok: "xact_ok (xact st1 s)" using created_facts(1,6) [OF cr] xinv_parts(5) by blast
  obtain rv st2 where tx: "ogs_gtp_xact_update_tx s hdesc pk st1 = Some (rv, st2)"
    using update_tx_total [OF ok] known_gtp2_stage assms(3) by blast
  show ?thesis
    unfolding run by (rule create_tx_inv [OF cr assms(1) tx update_tx_frame(1-4) [OF tx ok]])
qed

text \<open>GTPv1: no peer timer, and no response timer for a RAN Information Relay.\<close>

definition known_gtp1_type :: "u8 \<Rightarrow> bool" where
  "known_gtp1_type type \<longleftrightarrow>
     type \<in> set (gtp1_initial_types @ OGS_GTP1_SGSN_CONTEXT_RESPONSE_TYPE # gtp1_final_types)"

lemma known_gtp1_stage: "ogs_gtp1_xact_get_stage type xid \<noteq> GTP_XACT_UNKNOWN_STAGE \<longleftrightarrow> known_gtp1_type type"
  by (simp add: ogs_gtp1_xact_get_stage_def known_gtp1_type_def)

lemma update_tx1_total:
  assumes "xact_ok (xact st s)" "x_step (xact st s) < 3"
    and "x_org (xact st s) = OGS_GTP_LOCAL_ORIGINATOR \<Longrightarrow>
      ogs_gtp1_xact_get_stage (hd_type hdesc) (x_xid (xact st s)) \<noteq> GTP_XACT_UNKNOWN_STAGE"
  shows "\<exists>rv st'. ogs_gtp1_xact_update_tx s hdesc pk st = Some (rv, st')"
  using assms
  by (auto simp: ogs_gtp1_xact_update_tx_def Let_def gtp1_tx_allowed_def xact_save_def xact_ok_def
      split: gtp_xact_stage.splits if_splits)

lemma local_create1_run:
  assumes inv: "xinv st" and can: "can_create st"
  obtains s x st' where "created s x st st'" "x_step x = 0"
    "ogs_gtp1_xact_local_create env g hdesc pk cb st =
       do { (rv, st) \<leftarrow> ogs_gtp1_xact_update_tx s hdesc pk st';
            if rv \<noteq> OGS_OK then create_fail s st else Some (Some s, st) }"
proof -
  let ?relay = "hd_type hdesc = OGS_GTP1_RAN_INFORMATION_RELAY_TYPE"
  have free: "ip_free (s_pool st) \<noteq> []" and tm: "3 \<le> s_tm_avail st" using can by (auto simp: can_create_def)
  obtain s i pool where alloc: "idpool_calloc (s_pool st) = (Some (s, i), pool)"
    and calloc: "xact_calloc st = (Some s, upd_xact s (\<lambda>_. xact_zero\<lparr>x_id := i\<rparr>) (st\<lparr>s_pool := pool\<rparr>))"
    by (rule xact_calloc_Some [OF free])
  define stc where "stc = upd_xact s (\<lambda>_. xact_zero\<lparr>x_id := i\<rparr>) (st\<lparr>s_pool := pool\<rparr>)"
  obtain n stn where next_xid: "xact_next_xid env OGS_GTP1_MIN_XACT_ID OGS_GTP1_MAX_XACT_ID stc = (n, stn)"
    by (cases "xact_next_xid env OGS_GTP1_MIN_XACT_ID OGS_GTP1_MAX_XACT_ID stc")
  have stn: "stn = stc\<lparr>s_xact_id := s_xact_id stn\<rparr>"
    using xact_next_xid_state [of env OGS_GTP1_MIN_XACT_ID OGS_GTP1_MAX_XACT_ID stc] next_xid by simp
  have stn': "s_pool stn = pool" "s_gnodes stn = s_gnodes st" "s_tm_avail stn = s_tm_avail st" "s_sent stn = s_sent st"
    "s_cbs stn = s_cbs st" "\<And>t. xact stn t = (if t = s then xact_zero\<lparr>x_id := i\<rparr> else xact st t)"
    by (subst stn, simp add: stc_def)+
  define sta where "sta = upd_xact s (\<lambda>x. x\<lparr>x_gtp_version := 1, x_org := OGS_GTP_LOCAL_ORIGINATOR, x_xid := n,
      x_gnode := g, x_cb := cb\<rparr>) stn"
  define stb where "stb = (if ?relay then sta else the (add_response env s sta))"
  define ste where "ste = the (add_holding env s stb)"
  have adds: "(if \<not> ?relay then add_response env s sta else Some sta) = Some stb" "add_holding env s stb = Some ste"
    using tm by (simp_all add: stb_def ste_def sta_def stn' add_response_def add_holding_def ogs_timer_add_def)
  have ste: "s_pool ste = pool" "s_gnodes ste = s_gnodes st" "s_sent ste = s_sent st" "s_cbs ste = s_cbs st"
    "\<And>t. t \<noteq> s \<Longrightarrow> xact ste t = xact st t" "x_id (xact ste s) = i" "x_assoc_xact_id (xact ste s) = OGS_INVALID_POOL_ID"
    "x_step (xact ste s) = 0" "xact_ok (xact ste s)" "s_tm_avail ste + x_timers (xact ste s) = s_tm_avail st"
    using tm by (simp_all add: ste_def stb_def sta_def stn' add_response_def add_holding_def ogs_timer_add_def
        xact_zero_def xact_ok_def x_timers_def tm_count_def OGS_INVALID_POOL_ID_def)
  have "created s (xact ste s) st (xact_link s ste)"
    by (rule created_link [OF inv can alloc]) (use ste in simp_all)
  moreover have "ogs_gtp1_xact_local_create env g hdesc pk cb st =
       do { (rv, st) \<leftarrow> ogs_gtp1_xact_update_tx s hdesc pk (xact_link s ste);
            if rv \<noteq> OGS_OK then create_fail s st else Some (Some s, st) }"
    using adds
    by (cases ?relay) (simp_all add: ogs_gtp1_xact_local_create_def calloc stc_def [symmetric] next_xid Let_def sta_def [symmetric])
  ultimately show thesis using that ste(8) by blast
qed

lemma local_create1_inv:
  assumes "gtp_inv st" "can_create st" "known_gtp1_type (hd_type hdesc)"
  shows "\<exists>r st'. ogs_gtp1_xact_local_create env g hdesc pk cb st = Some (r, st') \<and> gtp_inv st'
     \<and> timer_total st' = timer_total st"
proof -
  have inv: "xinv st" using assms(1) by (simp add: gtp_inv_def)
  obtain s x st1 where cr: "created s x st st1" and step: "x_step x = 0"
    and run: "ogs_gtp1_xact_local_create env g hdesc pk cb st =
       do { (rv, st) \<leftarrow> ogs_gtp1_xact_update_tx s hdesc pk st1; if rv \<noteq> OGS_OK then create_fail s st else Some (Some s, st) }"
    by (rule local_create1_run [OF inv assms(2)])
  have ok: "xact_ok (xact st1 s)" using created_facts(1,6) [OF cr] xinv_parts(5) by blast
  have "x_step (xact st1 s) < 3" using created_facts(3) [OF cr] step by simp
  then obtain rv st2 where tx: "ogs_gtp1_xact_update_tx s hdesc pk st1 = Some (rv, st2)"
    using update_tx1_total [OF ok] known_gtp1_stage assms(3) by blast
  show ?thesis
    unfolding run by (rule create_tx_inv [OF cr assms(1) tx update_tx1_frame(1-4) [OF tx ok]])
qed

section \<open>Receive\<close>

lemma xact_lookup_Some:
  assumes "xinv st" "xact_lookup st g l v xid = Some s"
  shows "live st s" "x_gtp_version (xact st s) = v" "x_xid (xact st s) = xid" "x_gnode (xact st s) = g"
proof -
  note p = xinv_parts(2,3) [OF assms(1)]
  have "live st s \<and> x_gtp_version (xact st s) = v \<and> x_xid (xact st s) = xid \<and> x_gnode (xact st s) = g"
  proof (cases "xact_index_get st g (sel_org l) v xid = Some s \<and> x_gtp_version (xact st s) = v \<and> x_xid (xact st s) = xid")
    case True
    then show ?thesis using p(2) by (auto simp: xact_index_get_def hash_ok_def)
  next
    case False
    then have "xact_scan st (sel_list st g l) v xid = Some s"
      using assms(2) by (auto simp: xact_lookup_def split: option.splits if_splits)
    then show ?thesis
      using p(1) find_Some_in [of _ "sel_list st g l" s]
      by (cases l) (auto simp: xact_scan_def sel_list_def lists_ok_def)
  qed
  then show "live st s" "x_gtp_version (xact st s) = v" "x_xid (xact st s) = xid" "x_gnode (xact st s) = g" by auto
qed

lemma find_local_reply_Some:
  assumes "xinv st" "find_local_reply st g xid sqn = Some s"
  shows "live st s" "x_gnode (xact st s) = g" "x_gtp_version (xact st s) = 2" "x_xid (xact st s) = xid"
    "x_org (xact st s) = OGS_GTP_LOCAL_ORIGINATOR" "x_step (xact st s) = 1"
proof -
  note p = xinv_parts(2,3) [OF assms(1)]
  have "live st s \<and> x_gnode (xact st s) = g \<and> x_gtp_version (xact st s) = 2 \<and> x_xid (xact st s) = xid
    \<and> x_org (xact st s) = OGS_GTP_LOCAL_ORIGINATOR \<and> x_step (xact st s) = 1"
  proof (cases "ogs_gtp2_xact_local_match st (xact_index_get st g OGS_GTP_LOCAL_ORIGINATOR 2 xid) xid (ogs_gtp2_sqn_key sqn) 1")
    case True
    then have "xact_index_get st g OGS_GTP_LOCAL_ORIGINATOR 2 xid = Some s"
      using assms(2) by (simp add: find_local_reply_def Let_def)
    then show ?thesis using True p(2)
      by (auto simp: xact_index_get_def hash_ok_def ogs_gtp2_xact_local_match_def Let_def)
  next
    case False
    then have "ogs_gtp2_xact_find_local st (g_local_list (s_gnodes st g)) xid sqn 1 = Some s"
      using assms(2) by (simp add: find_local_reply_def Let_def)
    then show ?thesis
      using p(1) find_Some_in [of _ "g_local_list (s_gnodes st g)" s]
      by (auto simp: ogs_gtp2_xact_find_local_def Let_def lists_ok_def)
  qed
  then show "live st s" "x_gnode (xact st s) = g" "x_gtp_version (xact st s) = 2" "x_xid (xact st s) = xid"
    "x_org (xact st s) = OGS_GTP_LOCAL_ORIGINATOR" "x_step (xact st s) = 1" by auto
qed

text \<open>The receive step on a transaction that exists.\<close>

lemma receive_update_found:
  assumes inv: "gtp_inv st" and live: "live st s" and conf: "conf_ok env"
  shows "\<exists>rv r st'. receive_update env s False type st = Some (rv, r, st') \<and> gtp_inv st'
     \<and> timer_total st' = timer_total st"
proof -
  have xinv: "xinv st" using inv by (simp add: gtp_inv_def)
  have ok: "xact_ok (xact st s)" by (rule xinv_parts(5) [OF xinv live])
  obtain rv st' where rx: "ogs_gtp_xact_update_rx env s type st = Some (rv, st')"
    using update_rx_total [OF conf ok] by blast
  note f = update_rx_frame [OF rx]
  have "xinv st'" using step_frame_xinv [OF f(1) xinv] f(6) [OF ok] by simp
  moreover have "1 \<le> x_step (xact st' t)" if "live st' t" for t
  proof (cases "t = s")
    case True
    have "x_step (xact st s) \<le> x_step (xact st' s)" using f(2,3,4,5) by auto
    moreover have "1 \<le> x_step (xact st s)" using inv live by (simp add: gtp_inv_def)
    ultimately show ?thesis using True by simp
  next
    case False
    then show ?thesis using that step_frame_facts(2,3) [OF f(1), of t] inv by (simp add: gtp_inv_def)
  qed
  ultimately have "gtp_inv st'" by (simp add: gtp_inv_def)
  moreover have "timer_total st' = timer_total st" by (rule step_frame_timer_total [OF f(1)])
  ultimately show ?thesis using rx f(2) by (auto simp: receive_update_def)
qed

text \<open>A message that creates a remote transaction: its first receive step succeeds, or the
  transaction is deleted again. A new transaction has seen no message, so a first message is never
  taken for a duplicate.\<close>

lemma receive_create_run:
  assumes inv: "xinv st" and can: "can_create st" and conf: "conf_ok env" and type: "type \<noteq> 0"
  obtains s i st1 rv st2 where
    "created s (new_xact env i v OGS_GTP_REMOTE_ORIGINATOR
        (if v = 1 then OGS_GTP1_SQN_TO_XID sqn else OGS_GTP2_SQN_TO_XID sqn) g None) st st1"
    "ogs_gtp_xact_update_rx env s type st1 = Some (rv, st2)" "rv = OGS_OK \<or> rv = OGS_ERROR"
    "receive_create env g v sqn type st =
       (if rv = OGS_OK then Some (OGS_OK, Some s, st2)
        else do { st \<leftarrow> ogs_gtp_xact_delete s st2; Some (OGS_ERROR, None, st) })"
proof -
  obtain s i st1 where run: "ogs_gtp_xact_remote_create env g v sqn st = Some (Some s, st1)"
    and cr: "created s (new_xact env i v OGS_GTP_REMOTE_ORIGINATOR
        (if v = 1 then OGS_GTP1_SQN_TO_XID sqn else OGS_GTP2_SQN_TO_XID sqn) g None) st st1"
    by (rule remote_create_ok [OF inv can])
  have x1: "x_org (xact st1 s) = OGS_GTP_REMOTE_ORIGINATOR" "x_step (xact st1 s) = 0"
    "x_seq (xact st1 s) = replicate 3 \<lparr>sq_type = 0, sq_pkbuf = None\<rparr>"
    using created_facts(3) [OF cr] by simp_all
  have ok: "xact_ok (xact st1 s)" using created_facts(1,6) [OF cr] xinv_parts(5) by blast
  obtain rv st2 where rx: "ogs_gtp_xact_update_rx env s type st1 = Some (rv, st2)"
    using update_rx_total [OF conf ok] by blast
  have not_retry: "rv \<noteq> OGS_RETRY"
    using rx x1 type
    by (auto simp: ogs_gtp_xact_update_rx_def Let_def seq_get_def dest: rx_accept_frame(1)
        split: gtp_xact_stage.splits if_splits bind_splits)
  then have rv: "rv = OGS_OK \<or> rv = OGS_ERROR" using update_rx_frame(2) [OF rx] by blast
  then have "receive_create env g v sqn type st =
       (if rv = OGS_OK then Some (OGS_OK, Some s, st2)
        else do { st \<leftarrow> ogs_gtp_xact_delete s st2; Some (OGS_ERROR, None, st) })"
    by (auto simp: receive_create_def run receive_update_def rx)
  then show thesis by (rule that [OF cr rx rv])
qed

lemma receive_create_inv:
  assumes inv: "gtp_inv st" and can: "can_create st" and conf: "conf_ok env" and type: "type \<noteq> 0"
  shows "\<exists>rv r st'. receive_create env g v sqn type st = Some (rv, r, st') \<and> gtp_inv st'
     \<and> timer_total st' = timer_total st"
proof -
  have xinv: "xinv st" using inv by (simp add: gtp_inv_def)
  obtain s i st1 rv st2 where cr: "created s (new_xact env i v OGS_GTP_REMOTE_ORIGINATOR
        (if v = 1 then OGS_GTP1_SQN_TO_XID sqn else OGS_GTP2_SQN_TO_XID sqn) g None) st st1"
    and rx: "ogs_gtp_xact_update_rx env s type st1 = Some (rv, st2)" and rv: "rv = OGS_OK \<or> rv = OGS_ERROR"
    and run: "receive_create env g v sqn type st =
       (if rv = OGS_OK then Some (OGS_OK, Some s, st2)
        else do { st \<leftarrow> ogs_gtp_xact_delete s st2; Some (OGS_ERROR, None, st) })"
    by (rule receive_create_run [OF xinv can conf type])
  note c = created_facts [OF cr] and f = update_rx_frame [OF rx]
  have ok: "xact_ok (xact st1 s)" using c(1,6) xinv_parts(5) by blast
  have steps: "1 \<le> x_step (xact st1 t)" if "live st1 t" "t \<noteq> s" for t
    using that c(2,4) [of t] inv by (simp add: gtp_inv_def)
  have x2: "xinv st2" using step_frame_xinv [OF f(1) c(1)] f(6) [OF ok] by simp
  have steps2: "1 \<le> x_step (xact st2 t)" if "live st2 t" "t \<noteq> s" for t
    using that steps [of t] step_frame_facts(2,3) [OF f(1)] by simp
  have l2: "live st2 s" using c(6) step_frame_facts(2) [OF f(1)] by simp
  have tt: "timer_total st2 = timer_total st" using step_frame_timer_total [OF f(1)] c(5) by simp
  show ?thesis
  proof (cases "rv = OGS_OK")
    case True
    have "1 \<le> x_step (xact st2 t)" if "live st2 t" for t
      using that steps2 [of t] f(5) [OF True] by (cases "t = s") simp_all
    then have "gtp_inv st2" using x2 by (simp add: gtp_inv_def)
    then show ?thesis using run True tt by simp
  next
    case False
    obtain st' where "ogs_gtp_xact_delete s st2 = Some st'" "gtp_inv st'" "timer_total st' = timer_total st2"
      by (rule delete_gtp_inv [OF x2 l2 steps2])
    then show ?thesis using run False tt by simp
  qed
qed

lemma stage_zero [simp]:
  "ogs_gtp2_xact_get_stage 0 xid = GTP_XACT_UNKNOWN_STAGE" "ogs_gtp1_xact_get_stage 0 xid = GTP_XACT_UNKNOWN_STAGE"
  by (simp_all add: ogs_gtp2_xact_get_stage_def ogs_gtp1_xact_get_stage_def gtp2_initial_types_def
      gtp2_bearer_request_types_def gtp2_final_types_def gtp1_initial_types_def gtp1_final_types_def)

lemma receive_inv:
  assumes inv: "gtp_inv st" and can: "can_create st" and conf: "conf_ok env"
  shows "\<exists>rv r st'. ogs_gtp_xact_receive env g h st = Some (rv, r, st') \<and> gtp_inv st'
     \<and> timer_total st' = timer_total st"
proof -
  let ?xid = "OGS_GTP2_SQN_TO_XID (h2_rx_sqn h)"
  let ?stage = "ogs_gtp2_xact_get_stage (h2_type h) ?xid"
  have xinv: "xinv st" using inv by (simp add: gtp_inv_def)
  show ?thesis
  proof (cases "gtp2_rx_list ?stage (h2_type h) ?xid")
    case None
    then show ?thesis using inv by (simp add: ogs_gtp_xact_receive_def Let_def)
  next
    case (Some l)
    then have type: "h2_type h \<noteq> 0" by (auto simp: gtp2_rx_list_def)
    have found: "\<exists>rv r st'. receive_update env s False (h2_type h) st = Some (rv, r, st') \<and> gtp_inv st'
        \<and> timer_total st' = timer_total st" if "live st s" for s
      by (rule receive_update_found [OF inv that conf])
    show ?thesis
    proof (cases "l = Local_List \<and> ogs_gtp2_xact_is_local_reply ?stage ?xid")
      case True
      then show ?thesis
        using Some inv found find_local_reply_Some(1) [OF xinv]
        by (cases "find_local_reply st g ?xid (h2_rx_sqn h)") (simp_all add: ogs_gtp_xact_receive_def Let_def)
    next
      case False
      then show ?thesis
        using Some found xact_lookup_Some(1) [OF xinv] receive_create_inv [OF inv can conf type]
        by (cases "xact_lookup st g l 2 ?xid") (auto simp: ogs_gtp_xact_receive_def Let_def)
    qed
  qed
qed

lemma receive1_inv:
  assumes inv: "gtp_inv st" and can: "can_create st" and conf: "conf_ok env"
  shows "\<exists>rv r st'. ogs_gtp1_xact_receive env g h st = Some (rv, r, st') \<and> gtp_inv st'
     \<and> timer_total st' = timer_total st"
proof (cases "h1_s h")
  case False
  then show ?thesis using inv by (simp add: ogs_gtp1_xact_receive_def)
next
  case True
  let ?xid = "OGS_GTP1_SQN_TO_XID (ucast (h1_sqn h))"
  let ?stage = "ogs_gtp1_xact_get_stage (h1_type h) ?xid"
  have xinv: "xinv st" using inv by (simp add: gtp_inv_def)
  show ?thesis
  proof (cases "gtp1_rx_list ?stage (h1_type h)")
    case None
    then show ?thesis using inv True by (simp add: ogs_gtp1_xact_receive_def Let_def)
  next
    case (Some l)
    then have type: "h1_type h \<noteq> 0" by (auto simp: gtp1_rx_list_def)
    then show ?thesis
      using Some True inv receive_update_found [OF inv _ conf] xact_lookup_Some(1) [OF xinv]
        receive_create_inv [OF inv can conf type]
      by (cases "xact_lookup st g l 1 ?xid") (auto simp: ogs_gtp1_xact_receive_def Let_def)
  qed
qed

section \<open>Commit\<close>

lemma commit_fail_inv:
  assumes "gtp_inv st" "live st s"
  shows "\<exists>st'. commit_fail s rv st = Some (rv, st') \<and> gtp_inv st' \<and> timer_total st' = timer_total st
     \<and> \<not> live st' s"
proof -
  have "xinv st" using assms(1) by (simp add: gtp_inv_def)
  then obtain st' where "ogs_gtp_xact_delete s st = Some st'" "gtp_inv st'" "timer_total st' = timer_total st"
    "\<And>t. live st' t \<longleftrightarrow> live st t \<and> t \<noteq> s"
    by (rule delete_gtp_inv [OF _ assms(2)]) (use assms(1) in \<open>auto simp: gtp_inv_def\<close>)
  then show ?thesis by (simp add: commit_fail_def)
qed

lemma step_frame_gtp_inv:
  assumes "step_frame s st st'" "gtp_inv st" "live st s \<Longrightarrow> xact_ok (xact st' s)" "live st s \<Longrightarrow> 1 \<le> x_step (xact st' s)"
  shows "gtp_inv st'"
proof -
  have "xinv st'" using step_frame_xinv [OF assms(1) _ assms(3)] assms(2) by (simp add: gtp_inv_def)
  moreover have "1 \<le> x_step (xact st' t)" if "live st' t" for t
    using that assms step_frame_facts(2,3) [OF assms(1), of t] by (cases "t = s") (auto simp: gtp_inv_def)
  ultimately show ?thesis by (simp add: gtp_inv_def)
qed

lemma seq_last_Some:
  assumes "xact_ok x" "1 \<le> x_step x"
  shows "seq_last x = Some (x_seq x ! (x_step x - 1))"
proof -
  have "length (x_seq x) = 3" "x_step x \<le> 3" using assms(1) by (auto simp: xact_ok_def)
  then show ?thesis using assms(2) by (simp add: seq_last_def seq_get_def)
qed

text \<open>A packet of this side is at hand when the step is one at which this side transmits.\<close>

definition tx_step :: "gtp_xact \<Rightarrow> bool" where
  "tx_step x \<longleftrightarrow> x_org x = OGS_GTP_LOCAL_ORIGINATOR \<and> (x_step x = 1 \<or> x_step x = 3)
     \<or> x_org x = OGS_GTP_REMOTE_ORIGINATOR \<and> x_step x = 2"

lemma tx_step_packet:
  assumes "xact_ok x" "tx_step x"
  obtains sq pk where "seq_last x = Some sq" "sq_pkbuf sq = Some pk"
proof -
  have "1 \<le> x_step x" using assms(2) by (auto simp: tx_step_def)
  moreover have "sq_pkbuf (x_seq x ! (x_step x - 1)) \<noteq> None" using assms by (auto simp: tx_step_def xact_ok_def)
  ultimately show thesis using that [of "x_seq x ! (x_step x - 1)"] seq_last_Some [OF assms(1)] by auto
qed

lemma commit_send_inv:
  assumes inv: "gtp_inv st" and live: "live st s" and tx: "tx_step (xact st s)"
  shows "\<exists>rv st'. commit_send env s st = Some (rv, st') \<and> gtp_inv st' \<and> timer_total st' = timer_total st"
proof -
  have ok: "xact_ok (xact st s)" using inv live xinv_parts(5) by (simp add: gtp_inv_def)
  obtain sq pk where sq: "seq_last (xact st s) = Some sq" "sq_pkbuf sq = Some pk"
    by (rule tx_step_packet [OF ok tx])
  obtain rv st1 where send: "ogs_gtp_sendto env (x_gnode (xact st s)) pk st = (rv, st1)"
    by (cases "ogs_gtp_sendto env (x_gnode (xact st s)) pk st")
  then have st1: "step_frame s st st1" "xact st1 s = xact st s"
    using step_frame_send [of s st env "x_gnode (xact st s)" pk] ogs_gtp_sendto_state(2) [of env "x_gnode (xact st s)" pk st s]
    by simp_all
  have inv1: "gtp_inv st1"
    by (rule step_frame_gtp_inv [OF st1(1) inv]) (use ok st1(2) inv live in \<open>auto simp: gtp_inv_def\<close>)
  have tt: "timer_total st1 = timer_total st" by (rule step_frame_timer_total [OF st1(1)])
  have "live st1 s" using live step_frame_facts(2) [OF st1(1)] by simp
  then show ?thesis
    using send sq inv1 tt commit_fail_inv [OF inv1, of s OGS_ERROR] by (auto simp: commit_send_def Let_def)
qed

lemma start_response_inv:
  assumes inv: "gtp_inv st" and live: "live st s" and conf: "conf_ok env"
    and awaits: "x_org (xact st s) = OGS_GTP_LOCAL_ORIGINATOR \<and> x_step (xact st s) = 1
      \<or> x_org (xact st s) = OGS_GTP_REMOTE_ORIGINATOR \<and> x_step (xact st s) = 2"
  obtains st' where "start_response env s st = Some st'" "gtp_inv st'" "timer_total st' = timer_total st"
    "live st' s" "tx_step (xact st' s)" "step_frame s st st'"
    "xact st' s = (xact st s)\<lparr>x_tm_response := map_option (\<lambda>_. Tm_Running (e_t3_response_duration env)) (x_tm_response (xact st s))\<rparr>"
    "s_sent st' = s_sent st"
proof -
  have ok: "xact_ok (xact st s)" using inv live xinv_parts(5) by (simp add: gtp_inv_def)
  obtain t where "tm_start (x_tm_response (xact st s)) (e_t3_response_duration env) = Some t"
    using tm_start_total [of "e_t3_response_duration env"] conf by (auto simp: conf_ok_def)
  then obtain st' where run: "start_response env s st = Some st'" by (simp add: start_response_def)
  note f = start_response_frame [OF run]
  have "xact_ok (xact st' s)" using ok awaits f(2) by (auto simp: xact_ok_def)
  then have "gtp_inv st'"
    by (intro step_frame_gtp_inv [OF f(1) inv]) (use inv live f(2) in \<open>auto simp: gtp_inv_def\<close>)
  moreover have "tx_step (xact st' s)" using awaits f(2) by (auto simp: tx_step_def)
  ultimately show thesis
    using that [OF run] f step_frame_timer_total [OF f(1)] live step_frame_facts(2) [OF f(1)] by simp
qed

lemma commit_inv:
  assumes inv: "gtp_inv st" and live: "live st s" and conf: "conf_ok env"
  shows "\<exists>rv st'. ogs_gtp_xact_commit env s st = Some (rv, st') \<and> gtp_inv st' \<and> timer_total st' = timer_total st"
proof -
  let ?x = "xact st s"
  have ok: "xact_ok ?x" and step: "1 \<le> x_step ?x" using inv live xinv_parts(5) by (auto simp: gtp_inv_def)
  obtain sq where sq: "seq_last ?x = Some sq"
    using seq_last_Some [OF ok step] by blast
  have fail: "\<exists>rv' st'. commit_fail s rv st = Some (rv', st') \<and> gtp_inv st' \<and> timer_total st' = timer_total st" for rv
    using commit_fail_inv [OF inv live] by blast
  have send: "\<exists>rv st'. commit_send env s st = Some (rv, st') \<and> gtp_inv st' \<and> timer_total st' = timer_total st"
    if "tx_step ?x" by (rule commit_send_inv [OF inv live that])
  have timed: "\<exists>rv st'. (start_response env s st \<bind> commit_send env s) = Some (rv, st') \<and> gtp_inv st'
      \<and> timer_total st' = timer_total st"
    if a: "x_org ?x = OGS_GTP_LOCAL_ORIGINATOR \<and> x_step ?x = 1 \<or> x_org ?x = OGS_GTP_REMOTE_ORIGINATOR \<and> x_step ?x = 2"
  proof -
    obtain st1 where st1: "start_response env s st = Some st1" "gtp_inv st1" "timer_total st1 = timer_total st"
      "live st1 s" "tx_step (xact st1 s)" by (rule start_response_inv [OF inv live conf a])
    then show ?thesis using commit_send_inv [OF st1(2,4,5), of env] by simp
  qed
  show ?thesis
    using sq inv fail send timed
    by (auto simp: ogs_gtp_xact_commit_def Let_def tx_step_def split: gtp_xact_stage.splits)
qed

section \<open>Timeouts\<close>

text \<open>What the layer relies on from the expiration callbacks of the network functions: they may use
  the layer, but leave it well-formed, do not delete the transaction they are called for (the caller
  deletes it afterwards) and do not leak timers.\<close>

definition cb_ok :: "gtp_env \<Rightarrow> bool" where
  "cb_ok env \<longleftrightarrow> (\<forall>c s st. gtp_inv st \<longrightarrow> live st s \<longrightarrow>
     gtp_inv (e_cb env c s st) \<and> live (e_cb env c s st) s
     \<and> x_id (xact (e_cb env c s st) s) = x_id (xact st s)
     \<and> timer_total (e_cb env c s st) = timer_total st)"

lemma find_for_timer_Some:
  assumes "ogs_gtp_xact_find_by_id_for_timer st i = Some s"
  shows "live st s" "x_id (xact st s) = i"
  using assms
  by (auto simp: ogs_gtp_xact_find_by_id_for_timer_def ogs_gtp_xact_find_by_id_def live_def split: if_splits option.splits)

lemma find_for_timer_live:
  assumes "xinv st" "live st s"
  shows "ogs_gtp_xact_find_by_id_for_timer st (x_id (xact st s)) = Some s" "pool_id_ok (x_id (xact st s))"
proof -
  have "ip_ids (s_pool st) (x_id (xact st s)) = Some s" using assms(2) by (simp add: live_def)
  moreover from this show "pool_id_ok (x_id (xact st s))"
    using xinv_parts(1) [OF assms(1)] unfolding ids_ok_def idpool_inv_def by blast
  moreover have "s \<in> set (own_list st (xact st s))"
    using xinv_parts(2) [OF assms(1)] assms(2) by (auto simp: own_list_def lists_ok_def)
  ultimately show "ogs_gtp_xact_find_by_id_for_timer st (x_id (xact st s)) = Some s"
    by (simp add: ogs_gtp_xact_find_by_id_for_timer_def ogs_gtp_xact_find_by_id_def ogs_gtp_xact_on_list_def)
qed

lemma cbs_log_inv:
  "gtp_inv (st\<lparr>s_cbs := l\<rparr>) \<longleftrightarrow> gtp_inv st" "live (st\<lparr>s_cbs := l\<rparr>) s \<longleftrightarrow> live st s"
  "timer_total (st\<lparr>s_cbs := l\<rparr>) = timer_total st"
  by (simp_all add: gtp_inv_def xinv_def ids_ok_def lists_ok_def hash_ok_def assoc_ok_def live_def timer_total_def
      live_set_def)

lemma lag_defer_cases:
  assumes "xact_response_lag_defer env s st = Some (b, st')"
  shows "b \<Longrightarrow> x_lag_defer_count (xact st s) < OGS_GTP_XACT_LAG_MAX_DEFER
       \<and> st' = upd_xact s (\<lambda>x. x\<lparr>x_lag_defer_count := x_lag_defer_count x + 1,
          x_tm_response := Some (Tm_Running OGS_GTP_XACT_LAG_DEFER_INTERVAL)\<rparr>) st
       \<and> x_tm_response (xact st s) \<noteq> None"
    "\<not> b \<Longrightarrow> st' = st"
  using assms
  by (auto simp: xact_response_lag_defer_def Let_def tm_start_def OGS_GTP_XACT_LAG_DEFER_INTERVAL_def not_le
      split: option.splits if_splits)

lemma lag_defer_total: "\<exists>b st'. xact_response_lag_defer env s st = Some (b, st')"
  by (auto simp: xact_response_lag_defer_def Let_def tm_start_def OGS_GTP_XACT_LAG_DEFER_INTERVAL_def
      split: option.splits)

definition awaits :: "gtp_xact \<Rightarrow> bool" where
  "awaits x \<longleftrightarrow> x_org x = OGS_GTP_LOCAL_ORIGINATOR \<and> x_step x = 1 \<or> x_org x = OGS_GTP_REMOTE_ORIGINATOR \<and> x_step x = 2"

lemma running_awaits: "xact_ok x \<Longrightarrow> x_tm_response x = Some (Tm_Running d) \<Longrightarrow> awaits x"
  by (auto simp: xact_ok_def awaits_def)

text \<open>The two ends of a response timeout that is not deferred.\<close>

definition rcount_dec :: "gtp_xact \<Rightarrow> gtp_xact" where
  "rcount_dec x = x\<lparr>x_response_rcount := x_response_rcount x - 1\<rparr>"

definition give_up_cb :: "gtp_env \<Rightarrow> nat \<Rightarrow> nat \<Rightarrow> gtp_state \<Rightarrow> gtp_state" where
  "give_up_cb env i s st = (case x_cb (xact st s) of None \<Rightarrow> st
     | Some c \<Rightarrow> e_cb env c s (st\<lparr>s_cbs := s_cbs st @ [(c, i)]\<rparr>))"

lemma response_timeout_run:
  assumes "ogs_gtp_xact_find_by_id_for_timer st i = Some s" "pool_id_ok i"
    "xact_response_lag_defer env s st = Some (False, st)" "st2 = upd_xact s rcount_dec st"
  shows "response_timeout env i st =
     (if x_response_rcount (xact st s) - 1 > 0
      then do { st \<leftarrow> start_response env s st2; sq \<leftarrow> seq_last (xact st s); pkbuf \<leftarrow> sq_pkbuf sq;
                Some (snd (ogs_gtp_sendto env (x_gnode (xact st s)) pkbuf st)) }
      else ogs_gtp_xact_delete s (give_up_cb env i s st2))"
proof -
  have "upd_xact s (\<lambda>x. x\<lparr>x_response_rcount := x_response_rcount x - 1\<rparr>) st = st2"
    unfolding assms(4) by (simp add: upd_xact_def rcount_dec_def)
  moreover have "x_response_rcount (xact st2 s) = x_response_rcount (xact st s) - 1"
    by (simp add: assms(4) rcount_dec_def)
  ultimately show ?thesis
    using assms(1-3) by (simp add: response_timeout_def Let_def give_up_cb_def cong: option.case_cong)
qed

text \<open>A response timer that fires: the transaction it was started for is retransmitted, deferred or
  given up, always within the invariant.\<close>

lemma response_timeout_inv:
  assumes inv: "gtp_inv st" and conf: "conf_ok env" and cb: "cb_ok env" and i: "pool_id_ok i"
    and fired: "\<And>s. ogs_gtp_xact_find_by_id_for_timer st i = Some s \<Longrightarrow>
      \<exists>d. x_tm_response (xact st s) = Some (Tm_Running d)"
  shows "\<exists>st'. response_timeout env i st = Some st' \<and> gtp_inv st' \<and> timer_total st' = timer_total st"
proof (cases "ogs_gtp_xact_find_by_id_for_timer st i")
  case None
  then show ?thesis using inv i by (simp add: response_timeout_def)
next
  case (Some s)
  have live: "live st s" by (rule find_for_timer_Some(1) [OF Some])
  have ok: "xact_ok (xact st s)" using inv live xinv_parts(5) by (simp add: gtp_inv_def)
  obtain d where d: "x_tm_response (xact st s) = Some (Tm_Running d)" using fired [OF Some] by blast
  have aw: "awaits (xact st s)" by (rule running_awaits [OF ok d])
  obtain b st1 where lag: "xact_response_lag_defer env s st = Some (b, st1)" using lag_defer_total by blast
  show ?thesis
  proof (cases b)
    case True
    then have st1: "st1 = upd_xact s (\<lambda>x. x\<lparr>x_lag_defer_count := x_lag_defer_count x + 1,
          x_tm_response := Some (Tm_Running OGS_GTP_XACT_LAG_DEFER_INTERVAL)\<rparr>) st"
      using lag_defer_cases(1) [OF lag] by blast
    have frame: "step_frame s st st1"
      unfolding st1 by (rule step_frame_upd) (simp_all add: same_identity_def x_timers_def tm_count_def d)
    have "gtp_inv st1"
      by (rule step_frame_gtp_inv [OF frame inv]) (use ok aw inv live in \<open>auto simp: st1 xact_ok_def awaits_def gtp_inv_def\<close>)
    then show ?thesis
      using Some i lag True step_frame_timer_total [OF frame] by (simp add: response_timeout_def)
  next
    case False
    then have st1: "st1 = st" using lag_defer_cases(2) [OF lag] by simp
    define st2 where "st2 = upd_xact s rcount_dec st"
    have lag': "xact_response_lag_defer env s st = Some (False, st)" using lag False st1 by simp
    note run = response_timeout_run [OF Some i lag' st2_def]
    have frame: "step_frame s st st2"
      unfolding st2_def by (rule step_frame_upd) (simp_all add: same_identity_def x_timers_def rcount_dec_def)
    have inv2: "gtp_inv st2"
      by (rule step_frame_gtp_inv [OF frame inv]) (use ok inv live in \<open>auto simp: st2_def xact_ok_def gtp_inv_def rcount_dec_def\<close>)
    have live2: "live st2 s" using live step_frame_facts(2) [OF frame] by simp
    have tt2: "timer_total st2 = timer_total st" by (rule step_frame_timer_total [OF frame])
    show ?thesis
    proof (cases "x_response_rcount (xact st s) - 1 > 0")
      case True
      have "awaits (xact st2 s)" using aw by (simp add: st2_def awaits_def rcount_dec_def)
      then obtain st3 where st3: "start_response env s st2 = Some st3" "gtp_inv st3" "timer_total st3 = timer_total st2"
        "live st3 s" "tx_step (xact st3 s)"
        using start_response_inv [OF inv2 live2 conf] unfolding awaits_def by metis
      have ok3: "xact_ok (xact st3 s)" using st3(2,4) xinv_parts(5) by (simp add: gtp_inv_def)
      obtain sq pk where sq: "seq_last (xact st3 s) = Some sq" "sq_pkbuf sq = Some pk"
        by (rule tx_step_packet [OF ok3 st3(5)])
      let ?st4 = "snd (ogs_gtp_sendto env (x_gnode (xact st3 s)) pk st3)"
      have "gtp_inv ?st4"
        by (rule step_frame_gtp_inv [OF step_frame_send st3(2)])
          (use ok3 st3(2,4) in \<open>auto simp: ogs_gtp_sendto_state gtp_inv_def\<close>)
      then show ?thesis
        using run True st3(1,3) sq tt2 step_frame_timer_total [OF step_frame_send, of env _ pk st3] by simp
    next
      case no: False
      define st3 where "st3 = give_up_cb env i s st2"
      have st3: "gtp_inv st3" "live st3 s" "timer_total st3 = timer_total st"
        using cb inv2 live2 tt2 by (auto simp: st3_def give_up_cb_def cb_ok_def cbs_log_inv split: option.splits)
      obtain st4 where "ogs_gtp_xact_delete s st3 = Some st4" "gtp_inv st4" "timer_total st4 = timer_total st3"
        by (rule delete_gtp_inv [of st3 s]) (use st3 in \<open>auto simp: gtp_inv_def\<close>)
      then show ?thesis
        using run no st3(3) by (simp add: st3_def)
    qed
  qed
qed

lemma holding_timeout_inv:
  assumes inv: "gtp_inv st" and conf: "conf_ok env" and i: "pool_id_ok i"
  shows "\<exists>st'. holding_timeout env i st = Some st' \<and> gtp_inv st' \<and> timer_total st' = timer_total st"
proof (cases "ogs_gtp_xact_find_by_id_for_timer st i")
  case None
  then show ?thesis using inv i by (simp add: holding_timeout_def)
next
  case (Some s)
  have live: "live st s" by (rule find_for_timer_Some(1) [OF Some])
  have ok: "xact_ok (xact st s)" using inv live xinv_parts(5) by (simp add: gtp_inv_def)
  define st2 where "st2 = upd_xact s (\<lambda>x. x\<lparr>x_holding_rcount := x_holding_rcount x - 1\<rparr>) st"
  have frame: "step_frame s st st2"
    unfolding st2_def by (rule step_frame_upd) (simp_all add: same_identity_def x_timers_def)
  have inv2: "gtp_inv st2"
    by (rule step_frame_gtp_inv [OF frame inv]) (use ok inv live in \<open>auto simp: st2_def xact_ok_def gtp_inv_def\<close>)
  have live2: "live st2 s" using live step_frame_facts(2) [OF frame] by simp
  have tt2: "timer_total st2 = timer_total st" by (rule step_frame_timer_total [OF frame])
  have run: "holding_timeout env i st =
      (if x_holding_rcount (xact st2 s) > 0 then rx_start_holding env s st2 else ogs_gtp_xact_delete s st2)"
    using Some i by (simp add: holding_timeout_def Let_def st2_def)
  show ?thesis
  proof (cases "x_holding_rcount (xact st2 s) > 0")
    case True
    obtain t where "tm_start (x_tm_holding (xact st2 s)) (e_t3_holding_duration env) = Some t"
      using tm_start_total [of "e_t3_holding_duration env"] conf by (auto simp: conf_ok_def)
    then obtain st3 where st3: "rx_start_holding env s st2 = Some st3" by (simp add: rx_start_holding_def)
    note f = rx_start_holding_frame [OF st3]
    obtain t' where t': "xact st3 s = (xact st2 s)\<lparr>x_tm_holding := t'\<rparr>" using f(2) by blast
    have ok2: "xact_ok (xact st2 s)" using inv2 live2 xinv_parts(5) by (simp add: gtp_inv_def)
    have "gtp_inv st3"
      by (rule step_frame_gtp_inv [OF f(1) inv2])
        (use xact_ok_holding [OF ok2] t' inv2 live2 in \<open>auto simp: gtp_inv_def\<close>)
    then show ?thesis using run True st3 step_frame_timer_total [OF f(1)] tt2 by simp
  next
    case False
    obtain st3 where "ogs_gtp_xact_delete s st2 = Some st3" "gtp_inv st3" "timer_total st3 = timer_total st2"
      by (rule delete_gtp_inv [of st2 s]) (use inv2 live2 in \<open>auto simp: gtp_inv_def\<close>)
    then show ?thesis using run False tt2 by simp
  qed
qed

lemma peer_timeout_inv:
  assumes inv: "gtp_inv st" and cb: "cb_ok env" and i: "pool_id_ok i"
  shows "\<exists>st'. peer_timeout env i st = Some st' \<and> gtp_inv st' \<and> timer_total st' = timer_total st"
proof (cases "ogs_gtp_xact_find_by_id_for_timer st i")
  case None
  then show ?thesis using inv i by (simp add: peer_timeout_def)
next
  case (Some s)
  have live: "live st s" by (rule find_for_timer_Some(1) [OF Some])
  then show ?thesis
    using Some i inv cb by (auto simp: peer_timeout_def cb_ok_def cbs_log_inv split: option.splits)
qed

section \<open>Association\<close>

lemma associate_inv:
  assumes inv: "gtp_inv st" and live: "live st a" "live st b"
    and run: "ogs_gtp_xact_associate a b st = Some st'"
  shows "gtp_inv st'" "timer_total st' = timer_total st"
proof -
  have xinv: "xinv st" using inv by (simp add: gtp_inv_def)
  note p = xinv_parts [OF xinv]
  have free: "x_assoc_xact_id (xact st a) = OGS_INVALID_POOL_ID" "x_assoc_xact_id (xact st b) = OGS_INVALID_POOL_ID"
    using run by (auto simp: ogs_gtp_xact_associate_def split: if_splits)
  have st': "s_pool st' = s_pool st" "s_gnodes st' = s_gnodes st" "s_tm_avail st' = s_tm_avail st"
    and x: "\<And>t. xact st' t = (if t = b then (xact st b)\<lparr>x_assoc_xact_id := x_id (xact st a)\<rparr>
        else if t = a then (xact st a)\<lparr>x_assoc_xact_id := x_id (xact st b)\<rparr> else xact st t)"
    using run by (auto simp: ogs_gtp_xact_associate_def Let_def split: if_splits)
  have same: "x_id (xact st' t) = x_id (xact st t)" "x_gnode (xact st' t) = x_gnode (xact st t)"
    "x_org (xact st' t) = x_org (xact st t)" "x_hash_key (xact st' t) = x_hash_key (xact st t)"
    "x_gtp_version (xact st' t) = x_gtp_version (xact st t)" "x_xid (xact st' t) = x_xid (xact st t)"
    "xact_ok (xact st' t) = xact_ok (xact st t)" "x_step (xact st' t) = x_step (xact st t)"
    "x_timers (xact st' t) = x_timers (xact st t)" for t
    by (simp_all add: x xact_ok_def x_timers_def)
  have live': "live st' t = live st t" for t by (simp add: live_def st' same)
  have ida: "ip_ids (s_pool st) (x_id (xact st a)) = Some a" "ip_ids (s_pool st) (x_id (xact st b)) = Some b"
    using live by (simp_all add: live_def)
  have "assoc_ok st'"
    unfolding assoc_ok_def
  proof (intro allI impI)
    fix t assume t: "live st' t \<and> x_assoc_xact_id (xact st' t) \<noteq> OGS_INVALID_POOL_ID"
    show "\<exists>c. ip_ids (s_pool st') (x_assoc_xact_id (xact st' t)) = Some c \<and> x_assoc_xact_id (xact st' c) = x_id (xact st' t)"
    proof (cases "t = a \<or> t = b")
      case True
      then show ?thesis using ida by (auto simp: x st')
    next
      case False
      then obtain c where c: "ip_ids (s_pool st) (x_assoc_xact_id (xact st t)) = Some c"
        "x_assoc_xact_id (xact st c) = x_id (xact st t)"
        using p(4) t live' by (auto simp: assoc_ok_def x)
      have "x_id (xact st t) \<noteq> OGS_INVALID_POOL_ID"
        using t live' invalid_id_not_used [OF p(1)] by (auto simp: live_def)
      then have "c \<noteq> a" "c \<noteq> b" using c(2) free by auto
      then show ?thesis using c False by (auto simp: x st')
    qed
  qed
  moreover have "ids_ok st'" "lists_ok st'" "hash_ok st'" using p(1-3)
    by (simp_all add: ids_ok_def lists_ok_def hash_ok_def st' same live')
  ultimately have "xinv st'" using p(5) by (simp add: xinv_def live' same)
  then show "gtp_inv st'" using inv by (simp add: gtp_inv_def live' same)
  show "timer_total st' = timer_total st" by (simp add: timer_total_def live_set_def st' same)
qed

section \<open>Deleting all transactions of a peer\<close>

lemma delete_keeps_gnode:
  assumes inv: "xinv st" and live: "live st s" and del: "ogs_gtp_xact_delete s st = Some st'"
  shows "set (g_local_list (s_gnodes st' g)) = set (g_local_list (s_gnodes st g)) - {s}"
    "set (g_remote_list (s_gnodes st' g)) = set (g_remote_list (s_gnodes st g)) - {s}"
proof -
  obtain st'' where d: "ogs_gtp_xact_delete s st = Some st''" "xinv st''" "\<And>t. live st'' t \<longleftrightarrow> live st t \<and> t \<noteq> s"
    "\<And>t. t \<noteq> s \<Longrightarrow> xact st'' t = (if partner st s = Some t then assoc_clear (xact st t) else xact st t)"
    by (rule delete_ok [OF inv live]) blast
  then have eq: "st'' = st'" using del by simp
  have same: "x_gnode (xact st' t) = x_gnode (xact st t)" "x_org (xact st' t) = x_org (xact st t)" if "t \<noteq> s" for t
    using d(4) [OF that] eq by (auto split: if_splits)
  note l = xinv_parts(2) [OF inv] xinv_parts(2) [OF d(2), unfolded eq]
  have "t \<in> set (g_local_list (s_gnodes st' g)) \<longleftrightarrow> t \<in> set (g_local_list (s_gnodes st g)) - {s}"
    "t \<in> set (g_remote_list (s_gnodes st' g)) \<longleftrightarrow> t \<in> set (g_remote_list (s_gnodes st g)) - {s}" for t
    using l d(3) [unfolded eq, of t] same [of t] by (cases "t = s"; simp add: lists_ok_def)+
  then show "set (g_local_list (s_gnodes st' g)) = set (g_local_list (s_gnodes st g)) - {s}"
    "set (g_remote_list (s_gnodes st' g)) = set (g_remote_list (s_gnodes st g)) - {s}" by blast+
qed

lemma delete_list_inv:
  assumes "gtp_inv st" "distinct l" "\<And>s. s \<in> set l \<Longrightarrow> live st s"
  shows "\<exists>st'. xact_delete_list l st = Some st' \<and> gtp_inv st' \<and> timer_total st' = timer_total st
     \<and> (\<forall>t. live st' t \<longleftrightarrow> live st t \<and> t \<notin> set l)
     \<and> (\<forall>g. set (g_local_list (s_gnodes st' g)) = set (g_local_list (s_gnodes st g)) - set l
          \<and> set (g_remote_list (s_gnodes st' g)) = set (g_remote_list (s_gnodes st g)) - set l)"
  using assms
proof (induction l arbitrary: st)
  case Nil
  then show ?case by simp
next
  case (Cons s l)
  have live: "live st s" and xinv: "xinv st" using Cons.prems by (simp_all add: gtp_inv_def)
  obtain st1 where d: "ogs_gtp_xact_delete s st = Some st1" "gtp_inv st1" "timer_total st1 = timer_total st"
    "\<And>t. live st1 t \<longleftrightarrow> live st t \<and> t \<noteq> s"
    by (rule delete_gtp_inv [OF xinv live]) (use Cons.prems(1) in \<open>auto simp: gtp_inv_def\<close>)
  have "live st1 t" if "t \<in> set l" for t using that d(4) Cons.prems(2,3) by auto
  from Cons.IH [OF d(2) _ this] Cons.prems(2) obtain st2 where
    i: "xact_delete_list l st1 = Some st2" "gtp_inv st2" "timer_total st2 = timer_total st1"
    "\<And>t. live st2 t \<longleftrightarrow> live st1 t \<and> t \<notin> set l"
    "\<And>g. set (g_local_list (s_gnodes st2 g)) = set (g_local_list (s_gnodes st1 g)) - set l"
    "\<And>g. set (g_remote_list (s_gnodes st2 g)) = set (g_remote_list (s_gnodes st1 g)) - set l" by auto
  have "set (g_local_list (s_gnodes st2 g)) = set (g_local_list (s_gnodes st g)) - set (s # l)"
    "set (g_remote_list (s_gnodes st2 g)) = set (g_remote_list (s_gnodes st g)) - set (s # l)" for g
    using i(5,6) [of g] delete_keeps_gnode [OF xinv live d(1), of g] by auto
  then show ?case using d(1,3,4) i(1-4) by auto
qed

lemma delete_all_inv:
  assumes inv: "gtp_inv st"
  obtains st' where "ogs_gtp_xact_delete_all g st = Some st'" "gtp_inv st'" "timer_total st' = timer_total st"
    "g_local_list (s_gnodes st' g) = []" "g_remote_list (s_gnodes st' g) = []"
    "\<And>t. live st' t \<longleftrightarrow> live st t \<and> x_gnode (xact st t) \<noteq> g"
proof -
  have lists: "lists_ok st" using inv xinv_parts(2) by (simp add: gtp_inv_def)
  let ?l = "g_local_list (s_gnodes st g)" and ?r = "g_remote_list (s_gnodes st g)"
  have l: "distinct ?l" "\<And>s. s \<in> set ?l \<Longrightarrow> live st s" using lists by (auto simp: lists_ok_def)
  obtain st1 where a: "xact_delete_list ?l st = Some st1" "gtp_inv st1" "timer_total st1 = timer_total st"
    "\<And>t. live st1 t \<longleftrightarrow> live st t \<and> t \<notin> set ?l"
    "\<And>g'. set (g_local_list (s_gnodes st1 g')) = set (g_local_list (s_gnodes st g')) - set ?l"
    "\<And>g'. set (g_remote_list (s_gnodes st1 g')) = set (g_remote_list (s_gnodes st g')) - set ?l"
    using delete_list_inv [OF inv l] by auto
  let ?r1 = "g_remote_list (s_gnodes st1 g)"
  have lists1: "lists_ok st1" using a(2) xinv_parts(2) by (simp add: gtp_inv_def)
  have r: "distinct ?r1" "\<And>s. s \<in> set ?r1 \<Longrightarrow> live st1 s" using lists1 by (auto simp: lists_ok_def)
  obtain st2 where b: "xact_delete_list ?r1 st1 = Some st2" "gtp_inv st2" "timer_total st2 = timer_total st1"
    "\<And>t. live st2 t \<longleftrightarrow> live st1 t \<and> t \<notin> set ?r1"
    "\<And>g'. set (g_local_list (s_gnodes st2 g')) = set (g_local_list (s_gnodes st1 g')) - set ?r1"
    "\<And>g'. set (g_remote_list (s_gnodes st2 g')) = set (g_remote_list (s_gnodes st1 g')) - set ?r1"
    using delete_list_inv [OF a(2) r] by auto
  have "set (g_local_list (s_gnodes st2 g)) = {}" "set (g_remote_list (s_gnodes st2 g)) = {}"
    using a(5) [of g] b(5,6) [of g] by auto
  then have empty: "g_local_list (s_gnodes st2 g) = []" "g_remote_list (s_gnodes st2 g) = []" by simp_all
  have mem: "t \<in> set ?l \<or> t \<in> set ?r \<longleftrightarrow> live st t \<and> x_gnode (xact st t) = g" for t
    using lists by (auto simp: lists_ok_def)
  have disj: "t \<notin> set ?l \<or> t \<notin> set ?r" for t using lists by (auto simp: lists_ok_def)
  have "live st2 t \<longleftrightarrow> live st t \<and> x_gnode (xact st t) \<noteq> g" for t
    using a(4,6) [of g] b(4) [of t] mem [of t] disj [of t] a(4) [of t] by auto
  moreover have "ogs_gtp_xact_delete_all g st = Some st2"
    using a(1) b(1) by (simp add: ogs_gtp_xact_delete_all_def)
  ultimately show thesis using that b(2) a(3) b(3) empty by simp
qed

end
