(* ===== verification/Gtp_Xact_Pool.thy ===== *)
theory Gtp_Xact_Pool
  imports Gtp_Xact_Ops
begin

text \<open>
  The operations of the GTP transaction layer when resources run out. No operation changes the size of the
  transaction pool; when the timer pool was set up with three timers for every transaction, a free transaction
  always finds its timers; and with no transaction left, creating returns nothing and receiving goes on with the
  transactions there are.
\<close>

section \<open>The size of the pool\<close>

abbreviation psize :: "gtp_state \<Rightarrow> nat" where
  "psize st \<equiv> ip_size (s_pool st)"

lemma index_pool [simp]:
  "s_pool (xact_index_del s st) = s_pool st" "s_pool (xact_index_add s st) = s_pool st"
  "s_pool (upd_own_list f x st) = s_pool st" "s_pool (xact_timers_delete s st) = s_pool st"
  "s_pool (xact_link s st) = s_pool st"
  by (simp_all add: xact_index_del_def xact_index_add_def upd_own_list_def xact_timers_delete_def xact_link_def
      count_add_def Let_def)

lemma deassociate_pool: "ogs_gtp_xact_deassociate a b st = Some st' \<Longrightarrow> s_pool st' = s_pool st"
  by (auto simp: ogs_gtp_xact_deassociate_def Let_def split: if_splits)

lemma delete_psize:
  assumes "ogs_gtp_xact_delete s st = Some st'"
  shows "psize st' = psize st"
proof -
  let ?st = "xact_timers_delete s st"
  obtain st1 pool where st1: "(case ogs_gtp_xact_find_by_id ?st (x_assoc_xact_id (xact ?st s)) of
       None \<Rightarrow> Some ?st | Some a \<Rightarrow> ogs_gtp_xact_deassociate s a ?st) = Some st1"
    and free: "idpool_free (s_pool (upd_own_list (\<lambda>l. list_remove l s) (xact (xact_index_del s st1) s) (xact_index_del s st1)))
      s (x_id (xact (upd_own_list (\<lambda>l. list_remove l s) (xact (xact_index_del s st1) s) (xact_index_del s st1)) s)) = Some pool"
    and st': "s_pool st' = pool"
    using assms by (auto simp: ogs_gtp_xact_delete_def Let_def split: bind_splits)
  have "s_pool st1 = s_pool st" using st1 deassociate_pool by (auto split: option.splits)
  then show ?thesis using idpool_size(1) [OF free] st' by simp
qed

lemma delete_list_psize: "xact_delete_list l st = Some st' \<Longrightarrow> psize st' = psize st"
  by (induction l arbitrary: st) (auto simp: delete_psize split: bind_splits)

lemma delete_all_psize: "ogs_gtp_xact_delete_all g st = Some st' \<Longrightarrow> psize st' = psize st"
  by (auto simp: ogs_gtp_xact_delete_all_def delete_list_psize split: bind_splits)

lemma create_fail_psize: "create_fail s st = Some (r, st') \<Longrightarrow> psize st' = psize st"
  by (auto simp: create_fail_def delete_psize split: bind_splits)

lemma commit_fail_psize: "commit_fail s rv st = Some (rv', st') \<Longrightarrow> psize st' = psize st"
  by (auto simp: commit_fail_def delete_psize split: bind_splits)

lemma add_pool:
  "add_response env s st = Some st' \<Longrightarrow> s_pool st' = s_pool st" "add_holding env s st = Some st' \<Longrightarrow> s_pool st' = s_pool st"
  "add_peer s st = Some st' \<Longrightarrow> s_pool st' = s_pool st"
  by (auto simp: add_response_def add_holding_def add_peer_def ogs_timer_add_def split: if_splits)

lemma calloc_psize: "xact_calloc st = (r, st') \<Longrightarrow> psize st' = psize st"
  using idpool_size(2) [of "s_pool st"] by (auto simp: xact_calloc_def split: prod.splits option.splits)

lemma next_xid_pool: "xact_next_xid env mn mx st = (xid, st') \<Longrightarrow> s_pool st' = s_pool st"
  by (auto simp: xact_next_xid_def Let_def split: if_splits)

lemma update_tx_pool:
  "ogs_gtp_xact_update_tx s hdesc pk st = Some (rv, st') \<Longrightarrow> s_pool st' = s_pool st"
  "ogs_gtp1_xact_update_tx s hdesc pk st = Some (rv, st') \<Longrightarrow> s_pool st' = s_pool st"
  by (auto simp: ogs_gtp_xact_update_tx_def ogs_gtp1_xact_update_tx_def Let_def split: bind_splits if_splits)

lemma local_create_psize:
  assumes "ogs_gtp_xact_local_create env g hdesc pk cb st = Some (r, st')"
  shows "psize st' = psize st"
proof -
  obtain a st1 where c: "xact_calloc st = (a, st1)" by (cases "xact_calloc st")
  obtain xid st2 where n: "xact_next_xid env OGS_GTP_MIN_XACT_ID OGS_GTP_CMD_XACT_ID st1 = (xid, st2)"
    by (cases "xact_next_xid env OGS_GTP_MIN_XACT_ID OGS_GTP_CMD_XACT_ID st1")
  have p: "psize st1 = psize st" "psize st2 = psize st" using calloc_psize [OF c] next_xid_pool [OF n] by simp_all
  show ?thesis
    using assms p unfolding ogs_gtp_xact_local_create_def c
    by (auto simp: n Let_def dest!: create_fail_psize add_pool update_tx_pool
        split: option.splits bind_splits if_splits)
qed

lemma local_create1_psize:
  assumes "ogs_gtp1_xact_local_create env g hdesc pk cb st = Some (r, st')"
  shows "psize st' = psize st"
proof -
  obtain a st1 where c: "xact_calloc st = (a, st1)" by (cases "xact_calloc st")
  obtain xid st2 where n: "xact_next_xid env OGS_GTP1_MIN_XACT_ID OGS_GTP1_MAX_XACT_ID st1 = (xid, st2)"
    by (cases "xact_next_xid env OGS_GTP1_MIN_XACT_ID OGS_GTP1_MAX_XACT_ID st1")
  have p: "psize st1 = psize st" "psize st2 = psize st" using calloc_psize [OF c] next_xid_pool [OF n] by simp_all
  show ?thesis
    using assms p unfolding ogs_gtp1_xact_local_create_def c
    by (auto simp: n Let_def dest!: create_fail_psize add_pool update_tx_pool
        split: option.splits bind_splits if_splits)
qed

lemma remote_create_psize:
  assumes "ogs_gtp_xact_remote_create env g v sqn st = Some (r, st')"
  shows "psize st' = psize st"
proof -
  obtain a st1 where c: "xact_calloc st = (a, st1)" by (cases "xact_calloc st")
  show ?thesis
    using assms calloc_psize [OF c] unfolding ogs_gtp_xact_remote_create_def c
    by (auto simp: Let_def dest!: create_fail_psize add_pool split: option.splits)
qed

lemma sendto_pool [simp]: "s_pool (snd (ogs_gtp_sendto env g pk st)) = s_pool st"
  by (simp add: ogs_gtp_sendto_def Let_def)

lemma sendto_result: "ogs_gtp_sendto env g pk st = (rv, st') \<Longrightarrow> s_pool st' = s_pool st"
  using sendto_pool [of env g pk st] by simp

lemma update_rx_pool: "ogs_gtp_xact_update_rx env s type st = Some (rv, st') \<Longrightarrow> s_pool st' = s_pool st"
  using step_frame_facts(4) [OF update_rx_frame(1)] by blast

lemma receive_update_psize:
  "receive_update env s c type st = Some (rv, r, st') \<Longrightarrow> psize st' = psize st"
  by (auto simp: receive_update_def dest!: update_rx_pool delete_psize split: bind_splits if_splits)

lemma receive_create_psize: "receive_create env g v sqn type st = Some (rv, r, st') \<Longrightarrow> psize st' = psize st"
  by (auto simp: receive_create_def dest!: remote_create_psize receive_update_psize split: bind_splits)

lemma receive_psize: "ogs_gtp_xact_receive env g h st = Some (rv, r, st') \<Longrightarrow> psize st' = psize st"
  by (auto simp: ogs_gtp_xact_receive_def Let_def receive_create_psize receive_update_psize split: option.splits if_splits)

lemma receive1_psize: "ogs_gtp1_xact_receive env g h st = Some (rv, r, st') \<Longrightarrow> psize st' = psize st"
  by (auto simp: ogs_gtp1_xact_receive_def Let_def receive_create_psize receive_update_psize split: option.splits if_splits)

lemma commit_send_psize: "commit_send env s st = Some (rv, st') \<Longrightarrow> psize st' = psize st"
proof -
  assume run: "commit_send env s st = Some (rv, st')"
  then obtain pk where "(case ogs_gtp_sendto env (x_gnode (xact st s)) pk st of (rv, st) \<Rightarrow>
      if rv \<noteq> OGS_OK then commit_fail s OGS_ERROR st else Some (OGS_OK, st)) = Some (rv, st')"
    by (auto simp: commit_send_def Let_def split: bind_splits)
  then show ?thesis
    by (auto dest!: commit_fail_psize sendto_result split: prod.splits if_splits)
qed

lemma start_response_pool: "start_response env s st = Some st' \<Longrightarrow> s_pool st' = s_pool st"
  by (auto simp: start_response_def split: bind_splits)

lemma commit_psize: "ogs_gtp_xact_commit env s st = Some (rv, st') \<Longrightarrow> psize st' = psize st"
  by (auto simp: ogs_gtp_xact_commit_def Let_def dest!: commit_fail_psize commit_send_psize start_response_pool
      split: bind_splits gtp_xact_stage.splits if_splits)

text \<open>The expiration callbacks of the network functions go through the layer and cannot change the size either.\<close>

definition cb_sized :: "gtp_env \<Rightarrow> bool" where
  "cb_sized env \<longleftrightarrow> (\<forall>c s st. psize (e_cb env c s st) = psize st)"

lemma give_up_psize: "cb_sized env \<Longrightarrow> psize (give_up_cb env i s st) = psize st"
  by (simp add: give_up_cb_def cb_sized_def split: option.splits)

lemma response_timeout_psize:
  assumes "cb_sized env" "response_timeout env i st = Some st'"
  shows "psize st' = psize st"
proof (cases "ogs_gtp_xact_find_by_id_for_timer st i")
  case None
  then show ?thesis using assms(2) by (auto simp: response_timeout_def split: if_splits)
next
  case (Some s)
  have i: "pool_id_ok i" using assms(2) by (auto simp: response_timeout_def split: if_splits)
  obtain b st1 where lag: "xact_response_lag_defer env s st = Some (b, st1)" using lag_defer_total by blast
  show ?thesis
  proof (cases b)
    case True
    then have "st' = st1" using assms(2) Some i lag by (simp add: response_timeout_def)
    then show ?thesis using lag_defer_cases(1) [OF lag True] by simp
  next
    case False
    then have lag': "xact_response_lag_defer env s st = Some (False, st)" using lag lag_defer_cases(2) [OF lag] by simp
    show ?thesis
      using assms(2) delete_psize give_up_psize [OF assms(1)] start_response_pool
      unfolding response_timeout_run [OF Some i lag' refl] by (auto split: if_splits bind_splits)
  qed
qed

lemma holding_timeout_psize: "holding_timeout env i st = Some st' \<Longrightarrow> psize st' = psize st"
  by (auto simp: holding_timeout_def Let_def rx_start_holding_def dest!: delete_psize
      split: option.splits if_splits bind_splits)

lemma peer_timeout_psize: "cb_sized env \<Longrightarrow> peer_timeout env i st = Some st' \<Longrightarrow> psize st' = psize st"
  by (auto simp: peer_timeout_def cb_sized_def split: option.splits if_splits)

lemma associate_psize: "ogs_gtp_xact_associate a b st = Some st' \<Longrightarrow> psize st' = psize st"
  by (auto simp: ogs_gtp_xact_associate_def Let_def split: if_splits)

section \<open>Timers for every transaction\<close>

lemma free_slot_timers:
  assumes inv: "gtp_inv st" and tm: "3 * psize st \<le> timer_total st" and free: "ip_free (s_pool st) \<noteq> []"
  shows "3 \<le> s_tm_avail st"
proof -
  let ?p = "s_pool st"
  have ids: "ids_ok st" using inv xinv_parts(1) by (simp add: gtp_inv_def)
  then have p: "idpool_inv ?p" by (simp add: ids_ok_def)
  have "card (live_set st) + card (set (ip_free ?p)) = card (live_set st \<union> set (ip_free ?p))"
    using p finite_live_set [OF ids] by (intro card_Un_disjoint [symmetric]) (auto simp: idpool_inv_def live_set_def)
  also have "\<dots> \<le> card {..<psize st}"
    using p by (intro card_mono) (auto simp: idpool_inv_def live_set_def)
  finally have "card (live_set st) + card (set (ip_free ?p)) \<le> psize st" by simp
  moreover have "1 \<le> card (set (ip_free ?p))" using free by (cases "ip_free ?p") (simp_all add: card_gt_0_iff Suc_leI)
  ultimately have few: "card (live_set st) + 1 \<le> psize st" by linarith
  have "x_timers x \<le> 3" for x by (simp add: x_timers_def tm_count_def split: option.split)
  then have "(\<Sum>s \<in> live_set st. x_timers (xact st s)) \<le> 3 * card (live_set st)"
    using sum_bounded_above [of "live_set st" "\<lambda>s. x_timers (xact st s)" 3] by simp
  then show ?thesis using tm few by (simp add: timer_total_def)
qed

text \<open>The next id is not the id of a transaction that is still there, when there is a transaction left to take.\<close>

definition next_id_unused :: "gtp_state \<Rightarrow> bool" where
  "next_id_unused st \<longleftrightarrow> (ip_free (s_pool st) \<noteq> [] \<longrightarrow> idpool_fresh (s_pool st))"

lemma can_create_iff:
  assumes "gtp_inv st" "3 * psize st \<le> timer_total st" "next_id_unused st"
  shows "can_create st \<longleftrightarrow> ip_free (s_pool st) \<noteq> []"
  using free_slot_timers [OF assms(1,2)] assms(3) by (auto simp: can_create_def next_id_unused_def)

section \<open>No transaction left\<close>

lemma calloc_empty: "ip_free (s_pool st) = [] \<Longrightarrow> xact_calloc st = (None, st)"
  by (simp add: xact_calloc_def idpool_calloc_def)

lemma create_empty:
  assumes "ip_free (s_pool st) = []"
  shows "ogs_gtp_xact_local_create env g hdesc pk cb st = Some (None, st)"
    "ogs_gtp1_xact_local_create env g hdesc pk cb st = Some (None, st)"
    "receive_create env g v sqn type st = None"
  using calloc_empty [OF assms]
  by (simp_all add: ogs_gtp_xact_local_create_def ogs_gtp1_xact_local_create_def ogs_gtp_xact_remote_create_def receive_create_def)

text \<open>A message that needs no transaction of its own is handled whatever is left of the pool.\<close>

lemma receive_no_create:
  assumes inv: "gtp_inv st" and conf: "conf_ok env" and none: "\<And>v sqn type. receive_create env g v sqn type st = None"
    and run: "ogs_gtp_xact_receive env g h st = Some (rv, r, st')"
  shows "gtp_inv st' \<and> timer_total st' = timer_total st"
proof -
  let ?xid = "OGS_GTP2_SQN_TO_XID (h2_rx_sqn h)"
  have xinv: "xinv st" using inv by (simp add: gtp_inv_def)
  have found: "gtp_inv st' \<and> timer_total st' = timer_total st"
    if "live st s" "receive_update env s False (h2_type h) st = Some (rv, r, st')" for s
    using receive_update_found [OF inv that(1) conf, of "h2_type h"] that(2) by auto
  show ?thesis
    using run none inv
    by (auto simp: ogs_gtp_xact_receive_def Let_def split: option.splits if_splits
        dest: found [OF xact_lookup_Some(1) [OF xinv]] found [OF find_local_reply_Some(1) [OF xinv]])
qed

lemma receive1_no_create:
  assumes inv: "gtp_inv st" and conf: "conf_ok env" and none: "\<And>v sqn type. receive_create env g v sqn type st = None"
    and run: "ogs_gtp1_xact_receive env g h st = Some (rv, r, st')"
  shows "gtp_inv st' \<and> timer_total st' = timer_total st"
proof -
  have xinv: "xinv st" using inv by (simp add: gtp_inv_def)
  have found: "gtp_inv st' \<and> timer_total st' = timer_total st"
    if "live st s" "receive_update env s False (h1_type h) st = Some (rv, r, st')" for s
    using receive_update_found [OF inv that(1) conf, of "h1_type h"] that(2) by auto
  show ?thesis
    using run none inv
    by (auto simp: ogs_gtp1_xact_receive_def Let_def split: option.splits if_splits
        dest: found [OF xact_lookup_Some(1) [OF xinv]])
qed

end
