(* ===== verification/Gtp_Xact_Props.thy ===== *)
theory Gtp_Xact_Props
  imports Gtp_Xact_Pool
begin

text \<open>
  Properties of the GTP transaction layer: the invariant over all sequences of interface calls, the
  absence of aborts, bounded retransmission, duplicate handling, the index, deletion, and the
  behaviours in which the code departs from its comments.
\<close>

section \<open>A request of this side\<close>

text \<open>Creating a transaction for a request: the transaction is at step 1 with the packet stored, and
  nothing else has changed.\<close>

lemma local_create_request:
  assumes inv: "gtp_inv st" and can: "can_create st"
    and initial: "ogs_gtp2_xact_get_stage (hd_type hdesc) (local_xid env (hd_type hdesc) st) = GTP_XACT_INITIAL_STAGE"
  obtains s i st' where "ogs_gtp_xact_local_create env g hdesc pk cb st = Some (Some s, st')"
    "gtp_inv st'" "\<not> live st s" "\<And>t. live st' t \<longleftrightarrow> live st t \<or> t = s" "\<And>t. t \<noteq> s \<Longrightarrow> xact st' t = xact st t"
    "x_id (xact st' s) = i" "x_step (xact st' s) = 1" "x_org (xact st' s) = OGS_GTP_LOCAL_ORIGINATOR"
    "x_gtp_version (xact st' s) = 2" "x_gnode (xact st' s) = g" "x_xid (xact st' s) = local_xid env (hd_type hdesc) st"
    "x_sqn (xact st' s) = OGS_GTP2_XID_TO_SQN (local_xid env (hd_type hdesc) st)" "x_cb (xact st' s) = cb"
    "x_seq (xact st' s) ! 0 = \<lparr>sq_type = hd_type hdesc,
        sq_pkbuf = Some (gtp2_push_header hdesc (local_xid env (hd_type hdesc) st) pk)\<rparr>"
    "x_tm_response (xact st' s) = Some Tm_Idle" "x_response_rcount (xact st' s) = of_int (e_n3_response_rcount env)"
    "x_lag_defer_count (xact st' s) = 0"
    "s_sent st' = s_sent st" "s_cbs st' = s_cbs st"
    "s_gnodes st' = (s_gnodes st)(g := gnode_add (new_xact env i 2 OGS_GTP_LOCAL_ORIGINATOR
        (local_xid env (hd_type hdesc) st) g cb) s (s_gnodes st g))"
proof -
  let ?xid = "local_xid env (hd_type hdesc) st"
  have xinv: "xinv st" using inv by (simp add: gtp_inv_def)
  obtain s i st1 where cr: "created s (new_xact env i 2 OGS_GTP_LOCAL_ORIGINATOR ?xid g cb) st st1"
    and run: "ogs_gtp_xact_local_create env g hdesc pk cb st =
       do { (rv, st) \<leftarrow> ogs_gtp_xact_update_tx s hdesc pk st1; if rv \<noteq> OGS_OK then create_fail s st else Some (Some s, st) }"
    by (rule local_create_run [OF xinv can])
  note c = created_facts [OF cr]
  let ?n = "new_xact env i 2 OGS_GTP_LOCAL_ORIGINATOR ?xid g cb"
  let ?x = "(key_set ?n)\<lparr>x_sqn := OGS_GTP2_XID_TO_SQN ?xid,
    x_seq := (x_seq ?n)[0 := \<lparr>sq_type = hd_type hdesc, sq_pkbuf = Some (gtp2_push_header hdesc ?xid pk)\<rparr>], x_step := 1\<rparr>"
  define st2 where "st2 = upd_xact s (\<lambda>_. ?x) st1"
  have tx: "ogs_gtp_xact_update_tx s hdesc pk st1 = Some (OGS_OK, st2)"
    using initial
    by (simp add: ogs_gtp_xact_update_tx_def Let_def c(3) gtp2_tx_allowed_def xact_save_def st2_def)
  have run': "ogs_gtp_xact_local_create env g hdesc pk cb st = Some (Some s, st2)" by (simp add: run tx)
  have "xact_ok (xact st1 s)" using c(1,6) xinv_parts(5) by blast
  then have "gtp_inv st2" using local_create_inv [OF inv can, of hdesc env g pk cb] run' known_gtp2_stage [of "hd_type hdesc" ?xid] initial
    by simp
  moreover have "x_response_rcount (key_set ?n) = of_int (e_n3_response_rcount env)" "x_lag_defer_count (key_set ?n) = 0"
    "x_cb (key_set ?n) = cb"
    by (simp_all add: key_set_def)
  moreover have "\<not> live st s" "s_sent st1 = s_sent st" "s_cbs st1 = s_cbs st"
    "s_gnodes st1 = (s_gnodes st)(g := gnode_add ?n s (s_gnodes st g))"
    using cr by (simp_all add: created_def)
  moreover have "live st2 t \<longleftrightarrow> live st t \<or> t = s" for t
    using c(2) [of t] c(3,6) by (cases "t = s") (simp_all add: st2_def live_def)
  ultimately show thesis
    using that [of s st2 i] run' c(4) by (simp add: st2_def)
qed

text \<open>Committing that transaction sends the packet and starts the response timer.\<close>

lemma commit_request:
  assumes inv: "gtp_inv st" and live: "live st s" and conf: "conf_ok env"
    and x: "x_org (xact st s) = OGS_GTP_LOCAL_ORIGINATOR" "x_step (xact st s) = 1" "x_gtp_version (xact st s) = 2"
    and initial: "ogs_gtp2_xact_get_stage (sq_type (x_seq (xact st s) ! 0)) (x_xid (xact st s)) = GTP_XACT_INITIAL_STAGE"
    and pk: "sq_pkbuf (x_seq (xact st s) ! 0) = Some pk"
    and sock: "e_sock_open env (x_gnode (xact st s))" "e_os_sent env (x_gnode (xact st s)) pk = int (length pk)"
    and tm: "x_tm_response (xact st s) \<noteq> None"
  obtains st' where "ogs_gtp_xact_commit env s st = Some (OGS_OK, st')" "gtp_inv st'" "step_frame s st st'"
    "s_sent st' = s_sent st @ [(x_gnode (xact st s), pk)]"
    "xact st' s = (xact st s)\<lparr>x_tm_response := Some (Tm_Running (e_t3_response_duration env))\<rparr>"
proof -
  let ?x = "xact st s"
  have ok: "xact_ok ?x" using inv live xinv_parts(5) by (simp add: gtp_inv_def)
  have last: "seq_last ?x = Some (x_seq ?x ! 0)" using seq_last_Some [OF ok] x(2) by simp
  obtain st1 where st1: "start_response env s st = Some st1" "step_frame s st st1"
    "xact st1 s = ?x\<lparr>x_tm_response := map_option (\<lambda>_. Tm_Running (e_t3_response_duration env)) (x_tm_response ?x)\<rparr>"
    "s_sent st1 = s_sent st"
    using start_response_inv [OF inv live conf] x(1,2) by metis
  define st2 where "st2 = st1\<lparr>s_sent := s_sent st1 @ [(x_gnode ?x, pk)]\<rparr>"
  have x1: "xact st1 s = ?x\<lparr>x_tm_response := Some (Tm_Running (e_t3_response_duration env))\<rparr>"
    using st1(3) tm by auto
  have last1: "seq_last (xact st1 s) = Some (x_seq ?x ! 0)" unfolding last [symmetric] by (simp add: x1 seq_last_def seq_get_def)
  have send: "ogs_gtp_sendto env (x_gnode ?x) pk st1 = (OGS_OK, st2)"
    using sock by (simp add: ogs_gtp_sendto_def st2_def)
  have "commit_send env s st1 = Some (OGS_OK, st2)"
    using last1 pk send by (simp add: commit_send_def Let_def x1)
  then have run: "ogs_gtp_xact_commit env s st = Some (OGS_OK, st2)"
    using last x initial st1(1) by (simp add: ogs_gtp_xact_commit_def Let_def xact_get_stage_def)
  have "step_frame s st1 st2" using step_frame_send [of s st1 env "x_gnode ?x" pk] send by simp
  then have "step_frame s st st2" by (rule step_frame_trans [OF st1(2)])
  moreover have "gtp_inv st2" using commit_inv [OF inv live conf] run by auto
  ultimately show thesis using that [OF run] st1(4) x1 by (simp add: st2_def)
qed

section \<open>Sequences of calls\<close>

text \<open>One call of the interface by the network function or the timer manager that returns. A response
  timer fires only for a transaction that started it. Creating and receiving may happen in every
  state, also when the pool is exhausted; asked is only that the id counter has not come round to
  the id of a transaction that is still there. The messages created are of the stage tables, the
  callbacks leave the layer well-formed.\<close>

inductive gtp_step :: "gtp_state \<Rightarrow> gtp_state \<Rightarrow> bool" where
  local_create: "next_id_unused st \<Longrightarrow> known_gtp2_type (hd_type hdesc) \<Longrightarrow>
     ogs_gtp_xact_local_create env g hdesc pk cb st = Some (r, st') \<Longrightarrow> gtp_step st st'"
| local_create1: "next_id_unused st \<Longrightarrow> known_gtp1_type (hd_type hdesc) \<Longrightarrow>
     ogs_gtp1_xact_local_create env g hdesc pk cb st = Some (r, st') \<Longrightarrow> gtp_step st st'"
| update_tx: "live st s \<Longrightarrow> ogs_gtp_xact_update_tx s hdesc pk st = Some (rv, st') \<Longrightarrow> gtp_step st st'"
| update_tx1: "live st s \<Longrightarrow> ogs_gtp1_xact_update_tx s hdesc pk st = Some (rv, st') \<Longrightarrow> gtp_step st st'"
| commit: "live st s \<Longrightarrow> conf_ok env \<Longrightarrow> ogs_gtp_xact_commit env s st = Some (rv, st') \<Longrightarrow> gtp_step st st'"
| receive: "next_id_unused st \<Longrightarrow> conf_ok env \<Longrightarrow> ogs_gtp_xact_receive env g h st = Some (rv, r, st') \<Longrightarrow> gtp_step st st'"
| receive1: "next_id_unused st \<Longrightarrow> conf_ok env \<Longrightarrow> ogs_gtp1_xact_receive env g h' st = Some (rv, r, st') \<Longrightarrow> gtp_step st st'"
| response: "conf_ok env \<Longrightarrow> cb_ok env \<Longrightarrow> cb_sized env \<Longrightarrow> pool_id_ok i \<Longrightarrow>
     (\<And>s. ogs_gtp_xact_find_by_id_for_timer st i = Some s \<Longrightarrow> \<exists>d. x_tm_response (xact st s) = Some (Tm_Running d)) \<Longrightarrow>
     response_timeout env i st = Some st' \<Longrightarrow> gtp_step st st'"
| holding: "conf_ok env \<Longrightarrow> pool_id_ok i \<Longrightarrow> holding_timeout env i st = Some st' \<Longrightarrow> gtp_step st st'"
| peer: "cb_ok env \<Longrightarrow> cb_sized env \<Longrightarrow> pool_id_ok i \<Longrightarrow> peer_timeout env i st = Some st' \<Longrightarrow> gtp_step st st'"
| associate: "live st a \<Longrightarrow> live st b \<Longrightarrow> ogs_gtp_xact_associate a b st = Some st' \<Longrightarrow> gtp_step st st'"
| delete: "live st s \<Longrightarrow> ogs_gtp_xact_delete s st = Some st' \<Longrightarrow> gtp_step st st'"
| delete_all: "ogs_gtp_xact_delete_all g st = Some st' \<Longrightarrow> gtp_step st st'"

inductive gtp_reach :: "gtp_state \<Rightarrow> gtp_state \<Rightarrow> bool" for st where
  start: "gtp_reach st st"
| step: "gtp_reach st a \<Longrightarrow> gtp_step a b \<Longrightarrow> gtp_reach st b"

inductive_cases gtp_stepE: "gtp_step st st'"

lemma update_tx_inv:
  assumes inv: "gtp_inv st" and live: "live st s"
    and f: "step_frame s st st'" "xact_ok (xact st' s)" "rv = OGS_OK \<or> rv = OGS_ERROR \<and> st' = st"
      "rv = OGS_OK \<Longrightarrow> x_step (xact st' s) = x_step (xact st s) + 1"
  shows "gtp_inv st' \<and> timer_total st' = timer_total st"
proof -
  have "1 \<le> x_step (xact st' s)" using f(3,4) inv live by (auto simp: gtp_inv_def)
  then show ?thesis
    using step_frame_gtp_inv [OF f(1) inv] f(2) step_frame_timer_total [OF f(1)] by blast
qed

lemma gtp_step_inv:
  assumes "gtp_step st st'" "gtp_inv st" "3 * psize st \<le> timer_total st"
  shows "gtp_inv st' \<and> timer_total st' = timer_total st"
  using assms(1)
proof cases
  case (local_create hdesc env g pk cb r)
  show ?thesis
  proof (cases "ip_free (s_pool st) = []")
    case True
    then show ?thesis using create_empty(1) [OF True] local_create(3) assms(2) by simp
  next
    case False
    then have "can_create st" using can_create_iff [OF assms(2,3) local_create(1)] by simp
    then show ?thesis using local_create_inv [OF assms(2) _ local_create(2), of env g pk cb] local_create(3) by auto
  qed
next
  case (local_create1 hdesc env g pk cb r)
  show ?thesis
  proof (cases "ip_free (s_pool st) = []")
    case True
    then show ?thesis using create_empty(2) [OF True] local_create1(3) assms(2) by simp
  next
    case False
    then have "can_create st" using can_create_iff [OF assms(2,3) local_create1(1)] by simp
    then show ?thesis using local_create1_inv [OF assms(2) _ local_create1(2), of env g pk cb] local_create1(3) by auto
  qed
next
  case (update_tx s hdesc pk rv)
  have ok: "xact_ok (xact st s)" using assms(2) update_tx(1) xinv_parts(5) by (simp add: gtp_inv_def)
  show ?thesis by (rule update_tx_inv [OF assms(2) update_tx(1) update_tx_frame(1-4) [OF update_tx(2) ok]])
next
  case (update_tx1 s hdesc pk rv)
  have ok: "xact_ok (xact st s)" using assms(2) update_tx1(1) xinv_parts(5) by (simp add: gtp_inv_def)
  show ?thesis by (rule update_tx_inv [OF assms(2) update_tx1(1) update_tx1_frame(1-4) [OF update_tx1(2) ok]])
next
  case (commit s env rv)
  then show ?thesis using commit_inv [OF assms(2) commit(1,2)] by auto
next
  case (receive env g h rv r)
  show ?thesis
  proof (cases "ip_free (s_pool st) = []")
    case True
    then show ?thesis using receive_no_create [OF assms(2) receive(2) create_empty(3) receive(3)] by blast
  next
    case False
    then have "can_create st" using can_create_iff [OF assms(2,3) receive(1)] by simp
    then show ?thesis using receive_inv [OF assms(2) _ receive(2), of g h] receive(3) by auto
  qed
next
  case (receive1 env g h rv r)
  show ?thesis
  proof (cases "ip_free (s_pool st) = []")
    case True
    then show ?thesis using receive1_no_create [OF assms(2) receive1(2) create_empty(3) receive1(3)] by blast
  next
    case False
    then have "can_create st" using can_create_iff [OF assms(2,3) receive1(1)] by simp
    then show ?thesis using receive1_inv [OF assms(2) _ receive1(2), of g h] receive1(3) by auto
  qed
next
  case (response env i)
  then show ?thesis using response_timeout_inv [OF assms(2) response(1,2,4)] by auto
next
  case (holding env i)
  then show ?thesis using holding_timeout_inv [OF assms(2) holding(1,2)] by auto
next
  case (peer env i)
  then show ?thesis using peer_timeout_inv [OF assms(2) peer(1,3)] by auto
next
  case (associate a b)
  then show ?thesis using associate_inv [OF assms(2)] by blast
next
  case (delete s)
  have "\<exists>st'. ogs_gtp_xact_delete s st = Some st' \<and> gtp_inv st' \<and> timer_total st' = timer_total st"
    by (rule delete_gtp_inv [of st s]) (use assms(2) delete(1) in \<open>auto simp: gtp_inv_def\<close>)
  then show ?thesis using delete(2) by auto
next
  case (delete_all g)
  obtain st'' where "ogs_gtp_xact_delete_all g st = Some st''" "gtp_inv st''" "timer_total st'' = timer_total st"
    by (rule delete_all_inv [OF assms(2)])
  then show ?thesis using delete_all by simp
qed

lemma gtp_step_psize: "gtp_step st st' \<Longrightarrow> psize st' = psize st"
  by (induction rule: gtp_step.induct)
    (auto dest: local_create_psize local_create1_psize update_tx_pool commit_psize receive_psize receive1_psize
      response_timeout_psize holding_timeout_psize peer_timeout_psize associate_psize delete_psize delete_all_psize)

lemma gtp_reach_inv:
  "gtp_reach st st' \<Longrightarrow> gtp_inv st \<Longrightarrow> 3 * psize st \<le> timer_total st
     \<Longrightarrow> gtp_inv st' \<and> timer_total st' = timer_total st \<and> psize st' = psize st"
proof (induction rule: gtp_reach.induct)
  case (step a b)
  then have a: "gtp_inv a" "timer_total a = timer_total st" "psize a = psize st" by auto
  then show ?case using gtp_step_inv [OF step.hyps(2) a(1)] gtp_step_psize [OF step.hyps(2)] step.prems(2) by simp
qed simp

text \<open>The state of a thread before \<open>ogs_gtp_xact_init\<close>: peers without transactions.\<close>

definition blank_gnode :: gtp_node where
  "blank_gnode = \<lparr>g_local_list = [], g_remote_list = [], g_xact_hash = Map.empty,
     g_xact_local_count = 0, g_xact_remote_count = 0\<rparr>"

definition blank_state :: "nat \<Rightarrow> gtp_state" where
  "blank_state timers = \<lparr>s_ready = False, s_pool = idpool_init 0 0, s_xacts = (\<lambda>_. xact_zero),
     s_gnodes = (\<lambda>_. blank_gnode), s_tm_avail = timers, s_xact_id = 0, s_sent = [], s_cbs = []\<rparr>"

lemma init_inv:
  assumes "ogs_gtp_xact_init env rnd (blank_state timers) = Some (rv, st)"
  shows "gtp_inv st" "timer_total st = timers" "psize st = e_pool_xact env"
proof -
  have st: "s_pool st = idpool_init (e_pool_xact env) 0" "s_gnodes st = (\<lambda>_. blank_gnode)" "s_tm_avail st = timers"
    using assms by (auto simp: ogs_gtp_xact_init_def blank_state_def idpool_init_def)
  have dead: "\<not> live st s" for s by (simp add: live_def st idpool_init_def)
  have "ids_ok st" by (auto simp: ids_ok_def st idpool_init_def idpool_inv_def)
  then show "gtp_inv st"
    by (simp add: gtp_inv_def xinv_def lists_ok_def hash_ok_def assoc_ok_def dead st blank_gnode_def)
  show "timer_total st = timers" by (simp add: timer_total_def live_set_def st idpool_init_def)
  show "psize st = e_pool_xact env" by (simp add: st idpool_init_def)
qed

text \<open>C17. Whatever sequence of interface calls, received messages and timer expirations runs after
  \<open>ogs_gtp_xact_init\<close>, exhaustion of the transaction pool included, provided that the timer pool was
  set up with three timers for every transaction of the pool, that no creation is made while the id
  counter stands before the id of a transaction still there, that messages created are of the stage
  tables and that the expiration callbacks leave the layer well-formed: every
  transaction found by its id is on exactly the list of its peer and originator, the counters that
  \<open>ogs_gtp_xact_count\<close> returns are the lengths of those lists, every transaction is at step 1, 2
  or 3, associations are mutual, and the timers in the pool and those held by transactions add up to
  the number of timers at the start.\<close>

theorem gtp_layer_invariant:
  assumes "ogs_gtp_xact_init env rnd (blank_state timers) = Some (OGS_OK, st0)" "3 * e_pool_xact env \<le> timers"
    and "gtp_reach st0 st"
  shows "(\<forall>i s. ogs_gtp_xact_find_by_id st i = Some s \<longrightarrow>
       x_id (xact st s) = i \<and> ogs_gtp_xact_on_list st s \<and> 1 \<le> x_step (xact st s) \<and> x_step (xact st s) \<le> 3
       \<and> (x_assoc_xact_id (xact st s) \<noteq> OGS_INVALID_POOL_ID \<longrightarrow>
           (\<exists>a. ogs_gtp_xact_find_by_id st (x_assoc_xact_id (xact st s)) = Some a \<and> x_assoc_xact_id (xact st a) = i)))
     \<and> (\<forall>g. distinct (g_local_list (s_gnodes st g)) \<and> distinct (g_remote_list (s_gnodes st g))
         \<and> ogs_gtp_xact_count st g OGS_GTP_LOCAL_ORIGINATOR = int (length (g_local_list (s_gnodes st g)))
         \<and> ogs_gtp_xact_count st g OGS_GTP_REMOTE_ORIGINATOR = int (length (g_remote_list (s_gnodes st g))))
     \<and> timer_total st = timers"
proof -
  have inv: "gtp_inv st" and tt: "timer_total st = timers"
    using init_inv [OF assms(1)] gtp_reach_inv [OF assms(3)] assms(2) by auto
  have xinv: "xinv st" using inv by (simp add: gtp_inv_def)
  note p = xinv_parts [OF xinv]
  have "x_id (xact st s) = i \<and> ogs_gtp_xact_on_list st s \<and> 1 \<le> x_step (xact st s) \<and> x_step (xact st s) \<le> 3
       \<and> (x_assoc_xact_id (xact st s) \<noteq> OGS_INVALID_POOL_ID \<longrightarrow>
           (\<exists>a. ogs_gtp_xact_find_by_id st (x_assoc_xact_id (xact st s)) = Some a \<and> x_assoc_xact_id (xact st a) = i))"
    if "ogs_gtp_xact_find_by_id st i = Some s" for i s
  proof -
    have s: "live st s" "x_id (xact st s) = i" using that live_id [OF p(1)] by (simp_all add: ogs_gtp_xact_find_by_id_def)
    have "ogs_gtp_xact_on_list st s"
      using p(2) s(1) by (auto simp: ogs_gtp_xact_on_list_def own_list_def lists_ok_def)
    moreover have "1 \<le> x_step (xact st s)" "x_step (xact st s) \<le> 3"
      using inv s(1) p(5) [of s] by (auto simp: gtp_inv_def xact_ok_def)
    ultimately show ?thesis using p(4) s by (auto simp: assoc_ok_def ogs_gtp_xact_find_by_id_def)
  qed
  moreover have "\<forall>g. distinct (g_local_list (s_gnodes st g)) \<and> distinct (g_remote_list (s_gnodes st g))
         \<and> ogs_gtp_xact_count st g OGS_GTP_LOCAL_ORIGINATOR = int (length (g_local_list (s_gnodes st g)))
         \<and> ogs_gtp_xact_count st g OGS_GTP_REMOTE_ORIGINATOR = int (length (g_remote_list (s_gnodes st g)))"
    using p(2) by (simp add: lists_ok_def ogs_gtp_xact_count_def)
  ultimately show ?thesis using tt by blast
qed

text \<open>A configuration for the witnesses: one thread, a pool of two transactions, the default timer
  values, sockets that accept every packet and callbacks without effect.\<close>

definition demo_env :: gtp_env where
  "demo_env = \<lparr>e_worker_self = None, e_shards_active = False, e_pool_xact = 2,
     e_n3_response_rcount = 3, e_t3_response_duration = 2500000, e_n3_holding_rcount = 1,
     e_t3_holding_duration = 7500000, e_lag_cb = None, e_sock_open = (\<lambda>_. True),
     e_os_sent = (\<lambda>_ p. int (length p)), e_cb = (\<lambda>c s st. st)\<rparr>"

definition demo_init :: gtp_state where
  "demo_init = (blank_state 6)\<lparr>s_pool := idpool_init 2 0, s_xact_id := 7, s_ready := True\<rparr>"

lemma demo_init: "ogs_gtp_xact_init demo_env 7 (blank_state 6) = Some (OGS_OK, demo_init)"
  by (simp add: ogs_gtp_xact_init_def blank_state_def demo_init_def idpool_init_def demo_env_def
      OGS_GTP1_MAX_XACT_ID_def)

lemma demo_init_inv: "gtp_inv demo_init" "can_create demo_init" "conf_ok demo_env" "cb_ok demo_env"
  using init_inv [OF demo_init]
  by (simp_all add: can_create_def demo_init_def idpool_init_def blank_state_def idpool_fresh_def conf_ok_def
      demo_env_def cb_ok_def)

definition demo_request :: gtp_hdesc where
  "demo_request = \<lparr>hd_type = OGS_GTP2_CREATE_SESSION_REQUEST_TYPE, hd_teid = 0\<rparr>"

lemma demo_request_known: "known_gtp2_type (hd_type demo_request)"
  by (simp add: known_gtp2_type_def demo_request_def gtp2_initial_types_def)

theorem gtp_layer_invariant_witness:
  "\<exists>r st. ogs_gtp_xact_local_create demo_env 0 demo_request [] None demo_init = Some (r, st)
     \<and> gtp_reach demo_init st \<and> timer_total st = 6
     \<and> ogs_gtp_xact_count st 0 OGS_GTP_LOCAL_ORIGINATOR = int (length (g_local_list (s_gnodes st 0)))"
proof -
  obtain r st where run: "ogs_gtp_xact_local_create demo_env 0 demo_request [] None demo_init = Some (r, st)"
    using local_create_inv [OF demo_init_inv(1,2) demo_request_known] by blast
  have "next_id_unused demo_init" using demo_init_inv(2) by (simp add: can_create_def next_id_unused_def)
  then have "gtp_reach demo_init st"
    by (rule gtp_reach.step [OF gtp_reach.start gtp_step.local_create [OF _ demo_request_known run]])
  moreover have "3 * e_pool_xact demo_env \<le> 6" by (simp add: demo_env_def)
  ultimately show ?thesis using gtp_layer_invariant [OF demo_init, of st] run by auto
qed

text \<open>C18. No handler aborts on a well-formed state, with non-zero timer durations and well-behaved
  callbacks. Committing and deleting return for every transaction, whatever its step and its timers;
  so do the expirations of the holding and the peer timer, of a stale id too, the expiration of a
  response timer that was running or whose transaction is gone, and the deletion of all transactions
  of a peer. With a free transaction, an unused id and three timers, receiving any GTPv2 or GTPv1
  header and creating a transaction for a message of the stage tables return; with no free
  transaction creating returns null and changes nothing. No assertion fails, no history slot outside
  the array is accessed and no missing packet is dereferenced.\<close>

theorem gtp_handlers_do_not_abort:
  assumes "gtp_inv st" "conf_ok env" "cb_ok env"
  shows "(\<forall>s. live st s \<longrightarrow> ogs_gtp_xact_commit env s st \<noteq> None \<and> ogs_gtp_xact_delete s st \<noteq> None)
     \<and> (\<forall>i. pool_id_ok i \<longrightarrow> holding_timeout env i st \<noteq> None \<and> peer_timeout env i st \<noteq> None
          \<and> ((\<forall>s. ogs_gtp_xact_find_by_id_for_timer st i = Some s \<longrightarrow>
                (\<exists>d. x_tm_response (xact st s) = Some (Tm_Running d))) \<longrightarrow> response_timeout env i st \<noteq> None))
     \<and> ogs_gtp_xact_delete_all g st \<noteq> None
     \<and> (can_create st \<longrightarrow> ogs_gtp_xact_receive env g h st \<noteq> None \<and> ogs_gtp1_xact_receive env g h' st \<noteq> None
          \<and> (known_gtp2_type (hd_type hdesc) \<longrightarrow> ogs_gtp_xact_local_create env g hdesc pk cb st \<noteq> None)
          \<and> (known_gtp1_type (hd_type hdesc) \<longrightarrow> ogs_gtp1_xact_local_create env g hdesc pk cb st \<noteq> None))
     \<and> (ip_free (s_pool st) = [] \<longrightarrow> ogs_gtp_xact_local_create env g hdesc pk cb st = Some (None, st)
          \<and> ogs_gtp1_xact_local_create env g hdesc pk cb st = Some (None, st))"
proof (intro conjI allI impI)
  have xinv: "xinv st" using assms(1) by (simp add: gtp_inv_def)
  show "ogs_gtp_xact_commit env s st \<noteq> None" if "live st s" for s
    using commit_inv [OF assms(1) that assms(2)] by auto
  show "ogs_gtp_xact_delete s st \<noteq> None" if "live st s" for s
    by (rule delete_ok [OF xinv that]) simp
  show "holding_timeout env i st \<noteq> None" "peer_timeout env i st \<noteq> None" if "pool_id_ok i" for i
    using holding_timeout_inv [OF assms(1,2) that] peer_timeout_inv [OF assms(1,3) that] by auto
  show "response_timeout env i st \<noteq> None"
    if "pool_id_ok i" "\<forall>s. ogs_gtp_xact_find_by_id_for_timer st i = Some s \<longrightarrow>
          (\<exists>d. x_tm_response (xact st s) = Some (Tm_Running d))" for i
    using response_timeout_inv [OF assms that(1)] that(2) by auto
  show "ogs_gtp_xact_delete_all g st \<noteq> None" by (rule delete_all_inv [OF assms(1), of g]) simp
  show "ogs_gtp_xact_receive env g h st \<noteq> None" "ogs_gtp1_xact_receive env g h' st \<noteq> None" if "can_create st"
    using receive_inv [OF assms(1) that assms(2), of g h] receive1_inv [OF assms(1) that assms(2), of g h'] by auto
  show "ogs_gtp_xact_local_create env g hdesc pk cb st \<noteq> None" if "can_create st" "known_gtp2_type (hd_type hdesc)"
    using local_create_inv [OF assms(1) that, of env g pk cb] by auto
  show "ogs_gtp1_xact_local_create env g hdesc pk cb st \<noteq> None" if "can_create st" "known_gtp1_type (hd_type hdesc)"
    using local_create1_inv [OF assms(1) that, of env g pk cb] by auto
qed (simp_all add: create_empty)

text \<open>States with a single transaction, for the witnesses.\<close>

definition one_xact :: "gtp_xact \<Rightarrow> gtp_state" where
  "one_xact x = \<lparr>s_ready = True, s_pool = \<lparr>ip_free = [1], ip_size = 2, ip_ids = Map.empty(1 \<mapsto> 0), ip_id = 1\<rparr>,
     s_xacts = (\<lambda>_. xact_zero)(0 := x), s_gnodes = (\<lambda>_. blank_gnode)(0 := gnode_add x 0 blank_gnode),
     s_tm_avail = 3, s_xact_id = 7, s_sent = [], s_cbs = []\<rparr>"

lemma one_xact_xact [simp]: "xact (one_xact x) s = (if s = 0 then x else xact_zero)"
  by (simp add: one_xact_def xact_def)

lemma one_xact_gnode [simp]: "s_gnodes (one_xact x) 0 = gnode_add x 0 blank_gnode"
  by (simp add: one_xact_def)

lemma one_xact_live: "x_id x = 1 \<Longrightarrow> live (one_xact x) s \<longleftrightarrow> s = 0"
  by (simp add: live_def) (simp add: one_xact_def xact_zero_def)

lemma one_xact_inv:
  assumes "xact_ok x" "x_id x = 1" "x_gnode x = 0" "x_assoc_xact_id x = OGS_INVALID_POOL_ID" "1 \<le> x_step x"
    "x_hash_key x = xact_index_key (x_org x) (x_gtp_version x) (x_xid x)"
  shows "gtp_inv (one_xact x)" "can_create (one_xact x)"
proof -
  note live = one_xact_live [OF assms(2)]
  have pool: "s_pool (one_xact x) = \<lparr>ip_free = [1], ip_size = 2, ip_ids = Map.empty(1 \<mapsto> 0), ip_id = 1\<rparr>"
    and gn: "s_gnodes (one_xact x) = (\<lambda>_. blank_gnode)(0 := gnode_add x 0 blank_gnode)"
    by (simp_all add: one_xact_def)
  have "ids_ok (one_xact x)"
    using assms(2) by (auto simp: ids_ok_def pool idpool_inv_def pool_id_ok_def OGS_MIN_POOL_ID_def OGS_MAX_POOL_ID_def)
  moreover have "lists_ok (one_xact x)"
    using assms(3) by (auto simp: lists_ok_def gn live gnode_add_fields blank_gnode_def)
  moreover have "hash_ok (one_xact x)"
    using assms(3,6) by (auto simp: hash_ok_def gn live gnode_add_fields blank_gnode_def split: if_splits)
  moreover have "assoc_ok (one_xact x)" using assms(4) by (simp add: assoc_ok_def live)
  ultimately show "gtp_inv (one_xact x)" using assms(1,5) by (simp add: gtp_inv_def xinv_def live)
  show "can_create (one_xact x)"
    by (simp add: can_create_def idpool_fresh_def OGS_NEXT_ID_def OGS_MAX_POOL_ID_def) (simp add: one_xact_def)
qed

text \<open>A Create Session Request that has been sent and waits for its answer.\<close>

definition demo_waiting :: gtp_xact where
  "demo_waiting = key_set ((new_xact demo_env 1 2 OGS_GTP_LOCAL_ORIGINATOR 8 0 (Some 5))\<lparr>x_step := 1,
     x_sqn := OGS_GTP2_XID_TO_SQN 8, x_tm_response := Some (Tm_Running 2500000),
     x_seq := [\<lparr>sq_type = 32, sq_pkbuf = Some [1, 2, 3]\<rparr>, \<lparr>sq_type = 0, sq_pkbuf = None\<rparr>,
               \<lparr>sq_type = 0, sq_pkbuf = None\<rparr>]\<rparr>)"

lemma demo_waiting_inv: "gtp_inv (one_xact demo_waiting)" "can_create (one_xact demo_waiting)" "live (one_xact demo_waiting) 0"
proof -
  have ok: "xact_ok demo_waiting" by (simp add: demo_waiting_def xact_ok_def)
  have f: "x_id demo_waiting = 1" "x_gnode demo_waiting = 0" "x_assoc_xact_id demo_waiting = OGS_INVALID_POOL_ID"
    "1 \<le> x_step demo_waiting"
    "x_hash_key demo_waiting = xact_index_key (x_org demo_waiting) (x_gtp_version demo_waiting) (x_xid demo_waiting)"
    by (simp_all add: demo_waiting_def)
  show "gtp_inv (one_xact demo_waiting)" "can_create (one_xact demo_waiting)" by (rule one_xact_inv [OF ok f])+
  show "live (one_xact demo_waiting) 0" using one_xact_live [OF f(1)] by simp
qed

text \<open>The same request with its answer received: step 2, the response timer stopped.\<close>

definition demo_replied :: gtp_xact where
  "demo_replied = key_set ((new_xact demo_env 1 2 OGS_GTP_LOCAL_ORIGINATOR 8 0 (Some 5))\<lparr>x_step := 2,
     x_sqn := OGS_GTP2_XID_TO_SQN 8, x_tm_response := Some Tm_Idle,
     x_seq := [\<lparr>sq_type = 32, sq_pkbuf = Some [1, 2, 3]\<rparr>, \<lparr>sq_type = 33, sq_pkbuf = None\<rparr>,
               \<lparr>sq_type = 0, sq_pkbuf = None\<rparr>]\<rparr>)"

lemma demo_replied_inv: "gtp_inv (one_xact demo_replied)" "live (one_xact demo_replied) 0"
proof -
  have ok: "xact_ok demo_replied" by (simp add: demo_replied_def xact_ok_def)
  have f: "x_id demo_replied = 1" "x_gnode demo_replied = 0" "x_assoc_xact_id demo_replied = OGS_INVALID_POOL_ID"
    "1 \<le> x_step demo_replied"
    "x_hash_key demo_replied = xact_index_key (x_org demo_replied) (x_gtp_version demo_replied) (x_xid demo_replied)"
    by (simp_all add: demo_replied_def)
  show "gtp_inv (one_xact demo_replied)" by (rule one_xact_inv(1) [OF ok f])
  show "live (one_xact demo_replied) 0" using one_xact_live [OF f(1)] by simp
qed

theorem gtp_handlers_do_not_abort_witness:
  "ogs_gtp_xact_commit demo_env 0 (one_xact demo_waiting) \<noteq> None
     \<and> ogs_gtp_xact_commit demo_env 0 (one_xact demo_replied) \<noteq> None
     \<and> response_timeout demo_env 1 (one_xact demo_waiting) \<noteq> None
     \<and> ogs_gtp_xact_local_create demo_env 0 demo_request [] None (one_xact demo_waiting) \<noteq> None"
proof -
  let ?st = "one_xact demo_waiting"
  have x: "x_tm_response (xact ?st 0) = Some (Tm_Running 2500000)" "x_id (xact ?st 0) = 1"
    by (simp_all add: demo_waiting_def key_set_def)
  have i: "pool_id_ok 1" by (simp add: pool_id_ok_def OGS_MIN_POOL_ID_def OGS_MAX_POOL_ID_def)
  have "xinv ?st" using demo_waiting_inv(1) by (simp add: gtp_inv_def)
  then have "ogs_gtp_xact_find_by_id_for_timer ?st 1 = Some 0"
    using find_for_timer_live(1) [OF _ demo_waiting_inv(3)] x(2) by simp
  then have fired: "\<forall>s. ogs_gtp_xact_find_by_id_for_timer ?st 1 = Some s \<longrightarrow>
      (\<exists>d. x_tm_response (xact ?st s) = Some (Tm_Running d))" using x(1) by simp
  note a = gtp_handlers_do_not_abort [OF demo_waiting_inv(1) demo_init_inv(3,4), where g = 0 and hdesc = demo_request
      and pk = "[]" and cb = None]
  note b = gtp_handlers_do_not_abort [OF demo_replied_inv(1) demo_init_inv(3,4)]
  have "ogs_gtp_xact_commit demo_env 0 ?st \<noteq> None" using a demo_waiting_inv(3) by blast
  moreover have "ogs_gtp_xact_commit demo_env 0 (one_xact demo_replied) \<noteq> None" using b demo_replied_inv(2) by blast
  moreover have "response_timeout demo_env 1 ?st \<noteq> None" using a i fired by blast
  moreover have "ogs_gtp_xact_local_create demo_env 0 demo_request [] None ?st \<noteq> None"
    using a demo_waiting_inv(2) demo_request_known by blast
  ultimately show ?thesis by blast
qed

section \<open>Bounded retransmission\<close>

text \<open>Successive expirations of the response timer of one transaction, each in its own environment
  (the event lag changes over time).\<close>

fun timeouts :: "gtp_env list \<Rightarrow> nat \<Rightarrow> gtp_state \<Rightarrow> gtp_state option" where
  "timeouts [] i st = Some st"
| "timeouts (env # es) i st = do { st \<leftarrow> response_timeout env i st; timeouts es i st }"

text \<open>The callbacks of the network function do not themselves send through this layer.\<close>

definition cb_silent :: "gtp_env \<Rightarrow> bool" where
  "cb_silent env \<longleftrightarrow> (\<forall>c s st. s_sent (e_cb env c s st) = s_sent st)"

text \<open>Expirations left before the transaction is given up: the retry counter plus the deferrals that
  event lag may still take.\<close>

definition expirations_left :: "gtp_xact \<Rightarrow> nat" where
  "expirations_left x = unat (x_response_rcount x) + (8 - unat (x_lag_defer_count x))"

lemma response_timeout_step:
  assumes inv: "gtp_inv st" and live: "live st s" and run: "x_tm_response (xact st s) = Some (Tm_Running d)"
    and rc: "x_response_rcount (xact st s) \<noteq> 0"
    and conf: "conf_ok env" and cb: "cb_ok env" and silent: "cb_silent env"
  obtains st' where "response_timeout env (x_id (xact st s)) st = Some st'" "gtp_inv st'"
    "live st' s \<longrightarrow> x_id (xact st' s) = x_id (xact st s) \<and> (\<exists>d. x_tm_response (xact st' s) = Some (Tm_Running d))
       \<and> x_response_rcount (xact st' s) \<noteq> 0
       \<and> expirations_left (xact st' s) + 1 = expirations_left (xact st s)
       \<and> length (s_sent st') + unat (x_response_rcount (xact st' s)) \<le> length (s_sent st) + unat (x_response_rcount (xact st s))"
    "\<not> live st' s \<longrightarrow> ogs_gtp_xact_find_by_id st' (x_id (xact st s)) = None \<and> length (s_sent st') \<le> length (s_sent st)"
proof -
  let ?x = "xact st s" and ?i = "x_id (xact st s)"
  have xinv: "xinv st" using inv by (simp add: gtp_inv_def)
  note find = find_for_timer_live [OF xinv live]
  obtain st' where st': "response_timeout env ?i st = Some st'" "gtp_inv st'"
    using response_timeout_inv [OF inv conf cb find(2)] find(1) run by auto
  have ok: "xact_ok ?x" by (rule xinv_parts(5) [OF xinv live])
  obtain b st1 where lag: "xact_response_lag_defer env s st = Some (b, st1)" using lag_defer_total by blast
  have "(live st' s \<longrightarrow> x_id (xact st' s) = ?i \<and> (\<exists>d. x_tm_response (xact st' s) = Some (Tm_Running d))
       \<and> x_response_rcount (xact st' s) \<noteq> 0 \<and> expirations_left (xact st' s) + 1 = expirations_left ?x
       \<and> length (s_sent st') + unat (x_response_rcount (xact st' s)) \<le> length (s_sent st) + unat (x_response_rcount ?x))
    \<and> (\<not> live st' s \<longrightarrow> ogs_gtp_xact_find_by_id st' ?i = None \<and> length (s_sent st') \<le> length (s_sent st))"
  proof (cases b)
    case True
    then have d: "x_lag_defer_count ?x < OGS_GTP_XACT_LAG_MAX_DEFER"
      and st1: "st1 = upd_xact s (\<lambda>x. x\<lparr>x_lag_defer_count := x_lag_defer_count x + 1,
          x_tm_response := Some (Tm_Running OGS_GTP_XACT_LAG_DEFER_INTERVAL)\<rparr>) st"
      using lag_defer_cases(1) [OF lag] by blast+
    have eq: "st' = st1" using st'(1) find lag True by (simp add: response_timeout_def)
    have "unat (x_lag_defer_count ?x) < 8" using d by (simp add: OGS_GTP_XACT_LAG_MAX_DEFER_def word_less_nat_alt)
    moreover from this have "unat (x_lag_defer_count ?x + 1) = unat (x_lag_defer_count ?x) + 1"
      by (simp add: unat_word_ariths)
    ultimately show ?thesis
      using live rc by (auto simp: eq st1 expirations_left_def live_def)
  next
    case False
    then have lag': "xact_response_lag_defer env s st = Some (False, st)" using lag lag_defer_cases(2) [OF lag] by simp
    define st2 where "st2 = upd_xact s rcount_dec st"
    note tmo = response_timeout_run [OF find lag' st2_def]
    have x2: "xact st2 s = rcount_dec ?x" "s_sent st2 = s_sent st" "s_pool st2 = s_pool st" by (simp_all add: st2_def)
    have dec: "unat (x_response_rcount ?x - 1) = unat (x_response_rcount ?x) - 1" "0 < unat (x_response_rcount ?x)"
      using rc by (simp_all add: unat_minus_one unat_gt_0)
    show ?thesis
    proof (cases "x_response_rcount ?x - 1 > 0")
      case True
      then obtain st3 sq pk where st3: "start_response env s st2 = Some st3" "seq_last (xact st3 s) = Some sq" "sq_pkbuf sq = Some pk"
        and eq: "st' = snd (ogs_gtp_sendto env (x_gnode (xact st3 s)) pk st3)"
        using tmo st'(1) by (auto split: bind_splits)
      note f = start_response_frame [OF st3(1)]
      have x3: "xact st' s = (rcount_dec ?x)\<lparr>x_tm_response := Some (Tm_Running (e_t3_response_duration env))\<rparr>"
        using run by (simp add: eq ogs_gtp_sendto_state f(2) x2 rcount_dec_def)
      have "x_id (xact st' s) = ?i" by (simp add: x3 rcount_dec_def)
      moreover have "s_pool st' = s_pool st"
        by (simp add: eq ogs_gtp_sendto_def Let_def step_frame_facts(4) [OF f(1)] x2(3))
      ultimately have "live st' s" using live by (simp add: live_def)
      moreover have "length (s_sent st') \<le> length (s_sent st) + 1"
        by (simp add: eq ogs_gtp_sendto_def Let_def f(3) x2)
      ultimately show ?thesis
        using x3 True dec by (auto simp: rcount_dec_def expirations_left_def)
    next
      case no: False
      have l2: "live st2 s" using live by (simp add: live_def x2 rcount_dec_def)
      have inv2: "gtp_inv st2"
      proof (rule step_frame_gtp_inv [OF _ inv])
        show "step_frame s st st2"
          unfolding st2_def by (rule step_frame_upd) (simp_all add: same_identity_def x_timers_def rcount_dec_def)
      qed (use ok inv live in \<open>auto simp: x2 xact_ok_def gtp_inv_def rcount_dec_def\<close>)
      define st3 where "st3 = give_up_cb env ?i s st2"
      have st3: "gtp_inv st3" "live st3 s" "x_id (xact st3 s) = ?i" "s_sent st3 = s_sent st"
        using cb silent inv2 l2 x2
        by (auto simp: st3_def give_up_cb_def cb_ok_def cb_silent_def cbs_log_inv rcount_dec_def split: option.splits)
      have del: "ogs_gtp_xact_delete s st3 = Some st'" using tmo no st'(1) by (simp add: st3_def)
      have "xinv st3" using st3(1) by (simp add: gtp_inv_def)
      then obtain st4 where st4: "ogs_gtp_xact_delete s st3 = Some st4" "\<And>t. live st4 t \<longleftrightarrow> live st3 t \<and> t \<noteq> s"
        "ip_ids (s_pool st4) = (ip_ids (s_pool st3))(x_id (xact st3 s) := None)" "s_sent st4 = s_sent st3"
        by (rule delete_ok [OF _ st3(2)]) blast
      then have "st4 = st'" using del by simp
      then show ?thesis using st4(2-4) st3(3,4) by (auto simp: ogs_gtp_xact_find_by_id_def)
    qed
  qed
  then show thesis using that [OF st'] by blast
qed

lemma timeouts_absent:
  "ogs_gtp_xact_find_by_id st i = None \<Longrightarrow> pool_id_ok i \<Longrightarrow> timeouts es i st = Some st"
  by (induction es)
    (simp_all add: response_timeout_def ogs_gtp_xact_find_by_id_for_timer_def)

lemma timeouts_bounded:
  assumes "gtp_inv st" "live st s" "x_tm_response (xact st s) = Some (Tm_Running d)"
    and "x_response_rcount (xact st s) \<noteq> 0"
    and "\<forall>env \<in> set es. conf_ok env \<and> cb_ok env \<and> cb_silent env"
  shows "\<exists>st'. timeouts es (x_id (xact st s)) st = Some st'
     \<and> length (s_sent st') \<le> length (s_sent st) + (unat (x_response_rcount (xact st s)) - 1)
     \<and> (expirations_left (xact st s) \<le> length es \<longrightarrow> ogs_gtp_xact_find_by_id st' (x_id (xact st s)) = None)"
  using assms
proof (induction es arbitrary: st d)
  case Nil
  then have "0 < expirations_left (xact st s)" by (simp add: expirations_left_def unat_gt_0)
  then show ?case by simp
next
  case (Cons env es)
  have "xinv st" using Cons.prems(1) by (simp add: gtp_inv_def)
  note i = find_for_timer_live(2) [OF this Cons.prems(2)]
  have envs: "conf_ok env" "cb_ok env" "cb_silent env" "\<forall>env \<in> set es. conf_ok env \<and> cb_ok env \<and> cb_silent env"
    using Cons.prems(5) by auto
  obtain st1 where st1: "response_timeout env (x_id (xact st s)) st = Some st1" "gtp_inv st1"
    and on: "live st1 s \<longrightarrow> x_id (xact st1 s) = x_id (xact st s) \<and> (\<exists>d. x_tm_response (xact st1 s) = Some (Tm_Running d))
     \<and> x_response_rcount (xact st1 s) \<noteq> 0 \<and> expirations_left (xact st1 s) + 1 = expirations_left (xact st s)
     \<and> length (s_sent st1) + unat (x_response_rcount (xact st1 s)) \<le> length (s_sent st) + unat (x_response_rcount (xact st s))"
    and off: "\<not> live st1 s \<longrightarrow> ogs_gtp_xact_find_by_id st1 (x_id (xact st s)) = None \<and> length (s_sent st1) \<le> length (s_sent st)"
    by (rule response_timeout_step [OF Cons.prems(1-4) envs(1-3)])
  show ?case
  proof (cases "live st1 s")
    case True
    then obtain d' where d': "x_tm_response (xact st1 s) = Some (Tm_Running d')" and id1: "x_id (xact st1 s) = x_id (xact st s)"
      and rc1: "x_response_rcount (xact st1 s) \<noteq> 0" and e1: "expirations_left (xact st1 s) + 1 = expirations_left (xact st s)"
      and s1: "length (s_sent st1) + unat (x_response_rcount (xact st1 s)) \<le> length (s_sent st) + unat (x_response_rcount (xact st s))"
      using on by blast
    have pos: "0 < unat (x_response_rcount (xact st1 s))" using rc1 by (simp add: unat_gt_0)
    from Cons.IH [OF st1(2) True d' rc1 envs(4)] obtain st2 where
      st2: "timeouts es (x_id (xact st s)) st1 = Some st2"
      "length (s_sent st2) \<le> length (s_sent st1) + (unat (x_response_rcount (xact st1 s)) - 1)"
      "expirations_left (xact st1 s) \<le> length es \<longrightarrow> ogs_gtp_xact_find_by_id st2 (x_id (xact st s)) = None"
      using id1 by auto
    have "length (s_sent st2) \<le> length (s_sent st) + (unat (x_response_rcount (xact st s)) - 1)"
      using st2(2) s1 pos by linarith
    then show ?thesis using st1(1) st2(1,3) e1 by simp
  next
    case False
    then show ?thesis using off st1(1) timeouts_absent [OF _ i, of st1 es] by auto
  qed
qed

text \<open>C19. Retransmission is bounded. A transaction that waits for an answer with a retry counter
  \<open>N\<close> is given up after at most \<open>N + 8\<close> expirations of its response timer, whatever the event lag
  at each of them: it has then been deleted and its id finds nothing. On the way it has sent at most
  \<open>N - 1\<close> further packets, and no expiration aborts.\<close>

theorem response_retransmission_bounded:
  assumes "gtp_inv st" "live st s" "x_tm_response (xact st s) = Some (Tm_Running d)"
    and "x_response_rcount (xact st s) \<noteq> 0"
    and "\<forall>env \<in> set es. conf_ok env \<and> cb_ok env \<and> cb_silent env"
  shows "\<exists>st'. timeouts es (x_id (xact st s)) st = Some st'
     \<and> length (s_sent st') \<le> length (s_sent st) + (unat (x_response_rcount (xact st s)) - 1)
     \<and> (unat (x_response_rcount (xact st s)) + 8 \<le> length es \<longrightarrow>
          ogs_gtp_xact_find_by_id st' (x_id (xact st s)) = None)"
proof -
  have "expirations_left (xact st s) \<le> unat (x_response_rcount (xact st s)) + 8" by (simp add: expirations_left_def)
  then show ?thesis using timeouts_bounded [OF assms] by (meson le_trans)
qed

theorem response_retransmission_bounded_witness:
  "\<exists>st'. timeouts (replicate 11 demo_env) 1 (one_xact demo_waiting) = Some st'
     \<and> length (s_sent st') \<le> 2 \<and> ogs_gtp_xact_find_by_id st' 1 = None"
proof -
  have x: "x_id demo_waiting = 1" "x_tm_response demo_waiting = Some (Tm_Running 2500000)" "x_response_rcount demo_waiting = 3"
    "s_sent (one_xact demo_waiting) = []"
    by (simp_all add: demo_waiting_def key_set_def one_xact_def demo_env_def)
  have "cb_silent demo_env" by (simp add: cb_silent_def demo_env_def)
  then have "\<exists>st'. timeouts (replicate 11 demo_env) 1 (one_xact demo_waiting) = Some st'
     \<and> length (s_sent st') \<le> Suc (Suc 0) \<and> ogs_gtp_xact_find_by_id st' 1 = None"
    using response_retransmission_bounded [OF demo_waiting_inv(1,3), of 2500000 "replicate 11 demo_env"] demo_init_inv(3,4)
    by (simp add: x)
  then show ?thesis by (metis numeral_2_eq_2)
qed

section \<open>Duplicates and late answers\<close>

text \<open>C20. A duplicated request is answered again and changes nothing. When a peer repeats the request
  of a transaction that has been answered (same type, step 2), the receive function returns
  \<open>OGS_RETRY\<close> without handing the transaction to the application, sends exactly the stored answer
  once more, restarts the holding timer, and leaves the step, the history and every other
  transaction as they were.\<close>

theorem duplicate_request_is_answered_again:
  assumes "gtp_inv st" "conf_ok env"
    and "h2_type h = type" "OGS_GTP2_SQN_TO_XID (h2_rx_sqn h) = xid"
    and "ogs_gtp2_xact_get_stage type xid = GTP_XACT_INITIAL_STAGE"
    and "xact_lookup st g Remote_List 2 xid = Some s"
    and "x_org (xact st s) = OGS_GTP_REMOTE_ORIGINATOR" "x_step (xact st s) = 2"
    and "sq_type (x_seq (xact st s) ! 0) = type" "sq_pkbuf (x_seq (xact st s) ! 1) = Some pk"
    and "e_sock_open env g"
  shows "\<exists>st'. ogs_gtp_xact_receive env g h st = Some (OGS_RETRY, None, st')
     \<and> s_sent st' = s_sent st @ [(g, pk)]
     \<and> x_step (xact st' s) = 2 \<and> x_seq (xact st' s) = x_seq (xact st s)
     \<and> (\<forall>t. t \<noteq> s \<longrightarrow> xact st' t = xact st t)
     \<and> s_pool st' = s_pool st \<and> s_gnodes st' = s_gnodes st"
proof -
  have xinv: "xinv st" using assms(1) by (simp add: gtp_inv_def)
  note look = xact_lookup_Some [OF xinv assms(6)]
  have ok: "xact_ok (xact st s)" by (rule xinv_parts(5) [OF xinv look(1)])
  have len: "length (x_seq (xact st s)) = 3" using ok by (simp add: xact_ok_def)
  obtain t where t: "tm_start (x_tm_holding (xact st s)) (e_t3_holding_duration env) = Some t"
    using tm_start_total [of "e_t3_holding_duration env"] assms(2) by (auto simp: conf_ok_def)
  define st1 where "st1 = upd_xact s (\<lambda>x. x\<lparr>x_tm_holding := t\<rparr>) st"
  define st2 where "st2 = st1\<lparr>s_sent := s_sent st1 @ [(g, pk)]\<rparr>"
  have send: "snd (ogs_gtp_sendto env g pk st1) = st2"
    using assms(11) by (simp add: ogs_gtp_sendto_def Let_def st2_def)
  have "rx_duplicate env s 1 st = Some (OGS_RETRY, st2)"
    using len assms(10) t send look(4)
    by (simp add: rx_duplicate_def Let_def seq_get_def st1_def [symmetric] split_beta)
  then have "ogs_gtp_xact_update_rx env s type st = Some (OGS_RETRY, st2)"
    using assms(5,7-9) look(2,3) len
    by (simp add: ogs_gtp_xact_update_rx_def Let_def xact_get_stage_def seq_get_def)
  then have "ogs_gtp_xact_receive env g h st = Some (OGS_RETRY, None, st2)"
    using assms(3-6) by (simp add: ogs_gtp_xact_receive_def Let_def gtp2_rx_list_def receive_update_def)
  then show ?thesis using assms(8) by (simp add: st2_def st1_def)
qed

definition demo_answered :: gtp_xact where
  "demo_answered = key_set ((new_xact demo_env 1 2 OGS_GTP_REMOTE_ORIGINATOR 8 0 None)\<lparr>x_step := 2,
     x_seq := [\<lparr>sq_type = 32, sq_pkbuf = None\<rparr>, \<lparr>sq_type = 33, sq_pkbuf = Some [9]\<rparr>,
               \<lparr>sq_type = 0, sq_pkbuf = None\<rparr>]\<rparr>)"

lemma demo_answered_inv: "gtp_inv (one_xact demo_answered)"
proof -
  have ok: "xact_ok demo_answered" by (simp add: demo_answered_def xact_ok_def)
  have f: "x_id demo_answered = 1" "x_gnode demo_answered = 0" "x_assoc_xact_id demo_answered = OGS_INVALID_POOL_ID"
    "1 \<le> x_step demo_answered"
    "x_hash_key demo_answered = xact_index_key (x_org demo_answered) (x_gtp_version demo_answered) (x_xid demo_answered)"
    by (simp_all add: demo_answered_def)
  show ?thesis by (rule one_xact_inv [OF ok f])
qed

theorem duplicate_request_is_answered_again_witness:
  "\<exists>st'. ogs_gtp_xact_receive demo_env 0 \<lparr>h2_type = 32, h2_teid_presence = True, h2_sqn = 0x80000, h2_sqn_only = 0\<rparr>
       (one_xact demo_answered) = Some (OGS_RETRY, None, st') \<and> s_sent st' = [(0, [9])]"
proof -
  let ?h = "\<lparr>h2_type = 32, h2_teid_presence = True, h2_sqn = 0x80000, h2_sqn_only = 0\<rparr> :: gtp2_header"
  have xid: "OGS_GTP2_SQN_TO_XID (h2_rx_sqn ?h) = 8"
    by (simp add: h2_rx_sqn_def OGS_GTP2_SQN_TO_XID_def bswap32_def)
  have x: "x_org demo_answered = OGS_GTP_REMOTE_ORIGINATOR" "x_step demo_answered = 2" "x_gtp_version demo_answered = 2"
    "x_xid demo_answered = 8" "sq_type (x_seq demo_answered ! 0) = 32" "sq_pkbuf (x_seq demo_answered ! 1) = Some [9]"
    by (simp_all add: demo_answered_def)
  have look: "xact_lookup (one_xact demo_answered) 0 Remote_List 2 8 = Some 0"
    using x by (simp add: xact_lookup_def xact_index_get_def sel_org_def gnode_add_fields blank_gnode_def)
  have stage: "ogs_gtp2_xact_get_stage 32 8 = GTP_XACT_INITIAL_STAGE"
    by (simp add: ogs_gtp2_xact_get_stage_def gtp2_initial_types_def)
  have "e_sock_open demo_env 0" "s_sent (one_xact demo_answered) = []" by (simp_all add: demo_env_def one_xact_def)
  then show ?thesis
    using duplicate_request_is_answered_again [OF demo_answered_inv demo_init_inv(3) _ xid stage look] x by auto
qed

text \<open>A late or unsolicited answer changes nothing. When a message of a reply stage arrives for
  which this side has no transaction at step 1 with that sequence number (it was never sent, has
  been answered already, or has been given up), the receive function returns an error and the state
  is exactly what it was: no transaction is created, deleted or advanced and no packet is sent.\<close>

theorem late_answer_is_dropped:
  assumes "gtp2_rx_list (ogs_gtp2_xact_get_stage (h2_type h) (OGS_GTP2_SQN_TO_XID (h2_rx_sqn h)))
      (h2_type h) (OGS_GTP2_SQN_TO_XID (h2_rx_sqn h)) = Some Local_List"
    and "ogs_gtp2_xact_is_local_reply (ogs_gtp2_xact_get_stage (h2_type h) (OGS_GTP2_SQN_TO_XID (h2_rx_sqn h)))
      (OGS_GTP2_SQN_TO_XID (h2_rx_sqn h))"
    and "gtp_inv st"
    and "\<forall>s. live st s \<and> x_gnode (xact st s) = g \<and> x_org (xact st s) = OGS_GTP_LOCAL_ORIGINATOR
      \<and> x_step (xact st s) = 1 \<longrightarrow> x_gtp_version (xact st s) \<noteq> 2 \<or> x_xid (xact st s) \<noteq> OGS_GTP2_SQN_TO_XID (h2_rx_sqn h)"
  shows "ogs_gtp_xact_receive env g h st = Some (OGS_ERROR, None, st)"
proof -
  have "xinv st" using assms(3) by (simp add: gtp_inv_def)
  note r = find_local_reply_Some [OF this, of g "OGS_GTP2_SQN_TO_XID (h2_rx_sqn h)" "h2_rx_sqn h"]
  have "find_local_reply st g (OGS_GTP2_SQN_TO_XID (h2_rx_sqn h)) (h2_rx_sqn h) = None"
  proof (rule ccontr)
    assume "\<not> ?thesis"
    then obtain s where "find_local_reply st g (OGS_GTP2_SQN_TO_XID (h2_rx_sqn h)) (h2_rx_sqn h) = Some s" by blast
    from r [OF this] assms(4) show False by blast
  qed
  then show ?thesis using assms(1,2) by (simp add: ogs_gtp_xact_receive_def Let_def)
qed

theorem late_answer_is_dropped_witness:
  "ogs_gtp_xact_receive demo_env 0 \<lparr>h2_type = 33, h2_teid_presence = True, h2_sqn = 0x90000, h2_sqn_only = 0\<rparr>
     (one_xact demo_waiting) = Some (OGS_ERROR, None, one_xact demo_waiting)"
proof -
  let ?h = "\<lparr>h2_type = 33, h2_teid_presence = True, h2_sqn = 0x90000, h2_sqn_only = 0\<rparr> :: gtp2_header"
  have xid: "OGS_GTP2_SQN_TO_XID (h2_rx_sqn ?h) = 9"
    by (simp add: h2_rx_sqn_def OGS_GTP2_SQN_TO_XID_def bswap32_def)
  have "ogs_gtp2_xact_get_stage 33 9 = GTP_XACT_FINAL_STAGE" "\<not> is_cmd_xid 9"
    by (simp_all add: ogs_gtp2_xact_get_stage_def gtp2_initial_types_def gtp2_bearer_request_types_def gtp2_final_types_def
        is_cmd_xid_def OGS_GTP_CMD_XACT_ID_def)
  moreover have "x_xid demo_waiting = 8" "x_id demo_waiting = 1" by (simp_all add: demo_waiting_def)
  ultimately show ?thesis
    using late_answer_is_dropped [of ?h "one_xact demo_waiting" 0 demo_env] demo_waiting_inv(1) xid
    by (simp add: gtp2_rx_list_def ogs_gtp2_xact_is_local_reply_def one_xact_live)
qed

end
