(* ===== verification/Gtp_Exchange.thy ===== *)
theory Gtp_Exchange
  imports Gtp_Xact_Props
begin

text \<open>
  What two peers see of each other: the headers one side pushes are the headers the other side reads,
  replies are steered to the shard that sent the request, and a whole exchange of a request and its
  response runs through the transactions of both sides.
\<close>

section \<open>Headers\<close>

lemma bswap16_be_word: "bswap16 (be_word16 a b) = push_bit 8 (ucast b) OR ucast a"
proof (rule bit_word_eqI)
  fix n assume "n < LENGTH(16)"
  then consider "n < 8" | "8 \<le> n" "n < 16" by fastforce
  then show "bit (bswap16 (be_word16 a b)) n = bit (push_bit 8 (ucast b) OR ucast a :: u16) n"
    by cases (auto simp: bswap16_def be_word16_def bit_simps dest: bit_imp_le_length)
qed

lemma sqn_to_xid_bytes: "OGS_GTP2_SQN_TO_XID (bswap32 w) = drop_bit 8 w"
  by (simp add: OGS_GTP2_SQN_TO_XID_def)

text \<open>The first octet: 64 or 72 for GTPv2 without and with a TEID, 50 for GTPv1.\<close>

lemma flag_octets [simp]:
  "hdr_version 64 = 2" "hdr_version 72 = 2" "hdr_version 50 = 1"
  "\<not> hdr2_teid_presence 64" "hdr2_teid_presence 72" "hdr1_s 50"
  by (simp_all add: hdr_version_def hdr2_teid_presence_def hdr1_s_def)

lemma gtp2_push_read:
  "gtp2_read_header (gtp2_push_header hdesc xid pl) =
     Some \<lparr>h2_type = hd_type hdesc, h2_teid_presence = gtp2_has_teid (hd_type hdesc),
           h2_sqn = (if gtp2_has_teid (hd_type hdesc) then OGS_GTP2_XID_TO_SQN xid else 0),
           h2_sqn_only = (if gtp2_has_teid (hd_type hdesc) then bswap32 (hd_teid hdesc) else OGS_GTP2_XID_TO_SQN xid)\<rparr>"
  by (cases "gtp2_has_teid (hd_type hdesc)")
    (simp_all add: gtp2_push_header_def Let_def gtp2_read_header_def rd_u8_def rd_u32_def
      be_bytes16_def be_bytes32_def OGS_GTP2_XID_TO_SQN_def)

lemma gtp1_push_read:
  "gtp1_read_header (gtp1_push_header hdesc xid pl) =
     Some \<lparr>h1_type = hd_type hdesc, h1_s = True, h1_sqn = OGS_GTP1_XID_TO_SQN xid\<rparr>"
  by (simp add: gtp1_push_header_def gtp1_read_header_def rd_u8_def rd_u16_def
      be_bytes16_def be_bytes32_def OGS_GTP1_XID_TO_SQN_def)

lemma gtp2_length_field:
  "rd_u16 (gtp2_push_header hdesc xid pl) 2 = Some (bswap16 (of_nat (length (gtp2_push_header hdesc xid pl) - 4)))"
  by (simp add: gtp2_push_header_def Let_def rd_u16_def be_bytes16_def gtp2_hlen_def
      OGS_GTPV2C_HEADER_LEN_def OGS_GTP2_TEID_LEN_def)

lemma gtp1_length_field:
  "rd_u16 (gtp1_push_header hdesc xid pl) 2 = Some (bswap16 (of_nat (length (gtp1_push_header hdesc xid pl) - 8)))"
  by (simp add: gtp1_push_header_def rd_u16_def be_bytes16_def OGS_GTPV1C_HEADER_LEN_def)

lemma rx_sqn_push:
  assumes "gtp2_read_header (gtp2_push_header hdesc xid pl) = Some h"
  shows "h2_type h = hd_type hdesc" "h2_rx_sqn h = OGS_GTP2_XID_TO_SQN xid"
  using assms by (auto simp: gtp2_push_read h2_rx_sqn_def)

lemma sqn_xid_roundtrip: "OGS_GTP2_SQN_TO_XID (OGS_GTP2_XID_TO_SQN xid) = xid AND 0xFFFFFF"
  by (simp add: OGS_GTP2_XID_TO_SQN_def sqn_to_xid_bytes drop_push_8)

lemma sqn_xid_roundtrip1:
  "OGS_GTP1_SQN_TO_XID (ucast (OGS_GTP1_XID_TO_SQN xid)) = xid AND 0xFFFF"
proof -
  have "(0xFFFF :: u32) = mask 16" by (simp add: mask_eq_exp_minus_1)
  moreover have "ucast (ucast xid :: u16) = xid AND mask 16"
    by (rule bit_word_eqI) (auto simp: bit_simps)
  ultimately have "ucast (ucast xid :: u16) = xid AND (0xFFFF :: u32)" by simp
  moreover have "(ucast (ucast (w :: u16) :: u32) :: u16) = w" for w
    by (rule bit_word_eqI) (simp add: bit_simps)
  ultimately show ?thesis by (simp add: OGS_GTP1_SQN_TO_XID_def OGS_GTP1_XID_TO_SQN_def)
qed

section \<open>Sharded transaction ids\<close>

lemma next_xid_sharded:
  assumes "e_shards_active env" "drop_bit OGS_WORKER_ID_BITS (mx - mn + 1) = 2 ^ k" "0 < k" "k < 28" "mn \<le> 1"
    and "ogs_worker_self_id (e_worker_self env) < 16"
  obtains w where "fst (xact_next_xid env mn mx st) = of_nat (ogs_worker_self_id (e_worker_self env)) * 2 ^ k + w"
    "unat w < 2 ^ k"
  using that shard_offset [OF assms(3-6), of "s_xact_id st + 1"] assms(1,2)
  by (simp add: xact_next_xid_def Let_def)

text \<open>GTPv2: \<open>2^19\<close> ids per shard, none with the command bit; GTPv1: \<open>2^12\<close>.\<close>

lemma spans:
  "drop_bit OGS_WORKER_ID_BITS (OGS_GTP_CMD_XACT_ID - OGS_GTP_MIN_XACT_ID + 1) = 2 ^ 19"
  "drop_bit OGS_WORKER_ID_BITS (OGS_GTP1_MAX_XACT_ID - OGS_GTP1_MIN_XACT_ID + 1) = 2 ^ 12"
  by (simp_all add: OGS_WORKER_ID_BITS_def OGS_GTP_CMD_XACT_ID_def OGS_GTP_MIN_XACT_ID_def
      OGS_GTP1_MAX_XACT_ID_def OGS_GTP1_MIN_XACT_ID_def)

lemma is_cmd_xid_bit: "is_cmd_xid xid \<longleftrightarrow> bit xid 23"
  by (simp add: is_cmd_xid_def OGS_GTP_CMD_XACT_ID_def bit_iff_and_push_bit_not_eq_0)

lemma next_xid_shard_bits:
  assumes "e_shards_active env" "drop_bit OGS_WORKER_ID_BITS (mx - mn + 1) = 2 ^ k" "0 < k" "k < 28" "mn \<le> 1"
    and "ogs_worker_self_id (e_worker_self env) < 16"
  shows "drop_bit k (fst (xact_next_xid env mn mx st)) AND (push_bit OGS_WORKER_ID_BITS 1 - 1)
      = of_nat (ogs_worker_self_id (e_worker_self env))"
    "unat (fst (xact_next_xid env mn mx st)) < 2 ^ (k + 4)"
proof -
  let ?i = "ogs_worker_self_id (e_worker_self env)"
  obtain w where w: "fst (xact_next_xid env mn mx st) = of_nat ?i * 2 ^ k + w" "unat w < 2 ^ k"
    by (rule next_xid_sharded [OF assms])
  have k: "k + 4 < 32" using assms(4) by simp
  note sb = shard_bits [OF w(2) assms(6) k]
  show "drop_bit k (fst (xact_next_xid env mn mx st)) AND (push_bit OGS_WORKER_ID_BITS 1 - 1) = of_nat ?i"
    unfolding w(1) by (rule sb(1))
  have "?i * 2 ^ k \<le> 15 * 2 ^ k" using assms(6) by (intro mult_right_mono) auto
  moreover have "(2::nat) ^ (k + 4) = 16 * 2 ^ k" by (simp add: power_add)
  ultimately show "unat (fst (xact_next_xid env mn mx st)) < 2 ^ (k + 4)"
    unfolding w(1) sb(2) using w(2) by linarith
qed

section \<open>Routing of replies\<close>

lemma table_disjoint:
  "list_all (\<lambda>t. t \<notin> set gtp2_initial_types \<and> t \<notin> set gtp2_bearer_request_types) gtp2_final_types"
  "list_all (\<lambda>t. t \<notin> set gtp1_initial_types \<and> t \<noteq> OGS_GTP1_SGSN_CONTEXT_RESPONSE_TYPE) gtp1_final_types"
  by code_simp+

lemma final_stage2: "type \<in> set gtp2_final_types \<Longrightarrow> ogs_gtp2_xact_get_stage type xid = GTP_XACT_FINAL_STAGE"
  using table_disjoint(1) by (simp add: ogs_gtp2_xact_get_stage_def list_all_iff)

lemma reply_stage1: "type \<in> set gtp1_final_types \<Longrightarrow> ogs_gtp1_xact_get_stage type xid = GTP_XACT_FINAL_STAGE"
  using table_disjoint(2) by (simp add: ogs_gtp1_xact_get_stage_def list_all_iff)

lemma response_stage1: "ogs_gtp1_xact_get_stage OGS_GTP1_SGSN_CONTEXT_RESPONSE_TYPE xid = GTP_XACT_INTERMEDIATE_STAGE"
  by (simp add: ogs_gtp1_xact_get_stage_def gtp1_initial_types_def)

lemma bearer_stage2:
  "type \<in> set gtp2_bearer_request_types \<Longrightarrow> is_cmd_xid xid \<Longrightarrow>
     ogs_gtp2_xact_get_stage type xid = GTP_XACT_INTERMEDIATE_STAGE"
  by (auto simp: ogs_gtp2_xact_get_stage_def gtp2_initial_types_def gtp2_bearer_request_types_def)

lemma rx_reply_shard_push:
  assumes "unat xid < 2 ^ 24"
    and "ogs_gtp2_xact_is_local_reply (ogs_gtp2_xact_get_stage (hd_type hdesc) xid) xid"
  shows "ogs_gtp2_rx_reply_shard True (gtp2_push_header hdesc xid pl) =
     Some (uint (drop_bit 19 xid AND (push_bit OGS_WORKER_ID_BITS 1 - 1)))"
proof -
  have "OGS_GTP2_SQN_TO_XID (bswap32 (push_bit 8 xid)) = xid"
    by (simp add: sqn_to_xid_bytes drop_push_8 and_mask_24 [OF assms(1)])
  then show ?thesis
    using assms(2)
    by (cases "gtp2_has_teid (hd_type hdesc)")
      (simp_all add: ogs_gtp2_rx_reply_shard_def gtp2_push_header_def Let_def rd_u32_def be_bytes16_def
        be_bytes32_def OGS_WORKER_ID_BITS_def)
qed

lemma rx_reply_shard1_push:
  assumes "unat xid < 2 ^ 16" "hd_type hdesc \<in> set gtp1_final_types \<or> hd_type hdesc = OGS_GTP1_SGSN_CONTEXT_RESPONSE_TYPE"
  shows "ogs_gtp1_rx_reply_shard True (gtp1_push_header hdesc xid pl) =
     Some (uint (drop_bit 12 xid AND (push_bit OGS_WORKER_ID_BITS 1 - 1)))"
proof -
  have "n < 16" if "bit xid n" for n using small_no_bit [OF assms(1), of n] that by linarith
  then have "xid AND mask 16 = xid" by (intro bit_word_eqI) (auto simp: bit_simps)
  then have "OGS_GTP1_SQN_TO_XID (ucast (OGS_GTP1_XID_TO_SQN xid)) = xid"
    unfolding sqn_xid_roundtrip1 by (simp add: mask_eq_exp_minus_1)
  moreover have "ogs_gtp1_xact_get_stage (hd_type hdesc) xid \<in> {GTP_XACT_FINAL_STAGE, GTP_XACT_INTERMEDIATE_STAGE}"
    using assms(2) by (elim disjE) (simp_all add: reply_stage1 response_stage1)
  ultimately show ?thesis
    by (auto simp: ogs_gtp1_rx_reply_shard_def gtp1_push_header_def Let_def rd_u16_def be_bytes16_def
        be_bytes32_def OGS_WORKER_ID_BITS_def OGS_GTPV1C_HEADER_LEN_def OGS_GTP1_XID_TO_SQN_def)
qed

text \<open>The command bit lies above the shard id.\<close>

lemma shard_of_command:
  fixes xid :: u32
  assumes "unat xid < 2 ^ 23"
  shows "drop_bit 19 (xid OR OGS_GTP_CMD_XACT_ID) AND (push_bit OGS_WORKER_ID_BITS 1 - 1) =
      drop_bit 19 xid AND (push_bit OGS_WORKER_ID_BITS 1 - 1)"
    "unat (xid OR OGS_GTP_CMD_XACT_ID) < 2 ^ 24" "is_cmd_xid (xid OR OGS_GTP_CMD_XACT_ID)"
proof -
  have cmd: "OGS_GTP_CMD_XACT_ID = 2 ^ 23" by (simp add: OGS_GTP_CMD_XACT_ID_def)
  have m: "push_bit OGS_WORKER_ID_BITS (1::u32) - 1 = mask 4"
    by (simp add: OGS_WORKER_ID_BITS_def mask_eq_exp_minus_1 push_bit_of_1)
  show "drop_bit 19 (xid OR OGS_GTP_CMD_XACT_ID) AND (push_bit OGS_WORKER_ID_BITS 1 - 1) =
      drop_bit 19 xid AND (push_bit OGS_WORKER_ID_BITS 1 - 1)"
    unfolding m
  proof (rule bit_word_eqI)
    fix n assume "n < LENGTH(32)"
    show "bit (drop_bit 19 (xid OR OGS_GTP_CMD_XACT_ID) AND mask 4) n = bit (drop_bit 19 xid AND mask 4) n"
    proof (cases "n < 4")
      case True
      then have "\<not> bit OGS_GTP_CMD_XACT_ID (19 + n)" unfolding cmd bit_exp_iff by simp
      then show ?thesis by (simp add: bit_and_iff bit_drop_bit_eq bit_or_iff)
    qed (simp add: bit_and_iff bit_mask_iff)
  qed
  show "is_cmd_xid (xid OR OGS_GTP_CMD_XACT_ID)"
    unfolding is_cmd_xid_bit cmd by (simp add: bit_simps)
  have "xid AND OGS_GTP_CMD_XACT_ID = 0"
    using small_no_bit [OF assms, of 23] is_cmd_xid_bit [of xid] by (simp add: is_cmd_xid_def)
  then have "unat (xid OR OGS_GTP_CMD_XACT_ID) = unat (xid + OGS_GTP_CMD_XACT_ID)"
    by (simp add: disjunctive_add_eq_or)
  also have "\<dots> < 2 ^ 24" using assms unfolding OGS_GTP_CMD_XACT_ID_def by unat_arith
  finally show "unat (xid OR OGS_GTP_CMD_XACT_ID) < 2 ^ 24" .
qed

section \<open>Sending a request\<close>

lemma send_request:
  assumes inv: "gtp_inv st" and can: "can_create st" and conf: "conf_ok env"
    and xid: "xid = local_xid env (hd_type rq) st"
    and initial: "ogs_gtp2_xact_get_stage (hd_type rq) xid = GTP_XACT_INITIAL_STAGE"
    and sock: "e_sock_open env g" "\<forall>p. e_os_sent env g p = int (length p)"
  obtains s st1 st2 where "ogs_gtp_xact_local_create env g rq pl cb st = Some (Some s, st1)"
    "ogs_gtp_xact_commit env s st1 = Some (OGS_OK, st2)" "gtp_inv st2" "\<And>t. live st2 t \<longleftrightarrow> live st t \<or> t = s"
    "\<And>t. t \<noteq> s \<longrightarrow> xact st2 t = xact st t"
    "x_step (xact st2 s) = 1" "x_org (xact st2 s) = OGS_GTP_LOCAL_ORIGINATOR" "x_gtp_version (xact st2 s) = 2"
    "x_gnode (xact st2 s) = g" "x_xid (xact st2 s) = xid" "x_sqn (xact st2 s) = OGS_GTP2_XID_TO_SQN xid"
    "x_tm_response (xact st2 s) = Some (Tm_Running (e_t3_response_duration env))"
    "s_sent st2 = s_sent st @ [(g, gtp2_push_header rq xid pl)]"
proof -
  obtain s i st1 where create: "ogs_gtp_xact_local_create env g rq pl cb st = Some (Some s, st1)"
    and inv1: "gtp_inv st1" "\<And>t. live st1 t \<longleftrightarrow> live st t \<or> t = s" "\<And>t. t \<noteq> s \<Longrightarrow> xact st1 t = xact st t"
    and x: "x_step (xact st1 s) = 1" "x_org (xact st1 s) = OGS_GTP_LOCAL_ORIGINATOR" "x_gtp_version (xact st1 s) = 2"
      "x_gnode (xact st1 s) = g" "x_xid (xact st1 s) = xid" "x_sqn (xact st1 s) = OGS_GTP2_XID_TO_SQN xid"
      "x_seq (xact st1 s) ! 0 = \<lparr>sq_type = hd_type rq, sq_pkbuf = Some (gtp2_push_header rq xid pl)\<rparr>"
      "x_tm_response (xact st1 s) = Some Tm_Idle"
    and sent1: "s_sent st1 = s_sent st"
    using local_create_request [OF inv can initial [unfolded xid], of g pl cb] unfolding xid by metis
  have live1: "live st1 s" using inv1(2) by blast
  obtain st2 where commit: "ogs_gtp_xact_commit env s st1 = Some (OGS_OK, st2)" "gtp_inv st2"
    and frame: "step_frame s st1 st2"
    and sent2: "s_sent st2 = s_sent st1 @ [(x_gnode (xact st1 s), gtp2_push_header rq xid pl)]"
    and x2: "xact st2 s = (xact st1 s)\<lparr>x_tm_response := Some (Tm_Running (e_t3_response_duration env))\<rparr>"
    by (rule commit_request [OF inv1(1) live1 conf x(2,1,3), of "gtp2_push_header rq xid pl"])
      (use x initial sock in simp_all)
  show thesis
    by (rule that [OF create commit])
      (use inv1 x x2 sent1 sent2 step_frame_facts(2,3) [OF frame] in simp_all)
qed

section \<open>Answering a request\<close>

text \<open>A request for which no transaction exists is accepted and creates one at step 1.\<close>

lemma receive_request:
  assumes inv: "gtp_inv st" and can: "can_create st" and conf: "conf_ok env"
    and xid: "OGS_GTP2_SQN_TO_XID (h2_rx_sqn h) = xid"
    and initial: "ogs_gtp2_xact_get_stage (h2_type h) xid = GTP_XACT_INITIAL_STAGE"
    and new: "xact_lookup st g Remote_List 2 xid = None"
  obtains t st' where "ogs_gtp_xact_receive env g h st = Some (OGS_OK, Some t, st')" "gtp_inv st'" "live st' t"
    "x_org (xact st' t) = OGS_GTP_REMOTE_ORIGINATOR" "x_step (xact st' t) = 1" "x_gtp_version (xact st' t) = 2"
    "x_xid (xact st' t) = xid" "x_gnode (xact st' t) = g" "s_sent st' = s_sent st"
proof -
  have xinv: "xinv st" using inv by (simp add: gtp_inv_def)
  have type: "h2_type h \<noteq> 0" using initial by auto
  obtain t i st1 rv st2 where
    cr: "created t (new_xact env i 2 OGS_GTP_REMOTE_ORIGINATOR
        (if (2::u8) = 1 then OGS_GTP1_SQN_TO_XID (h2_rx_sqn h) else OGS_GTP2_SQN_TO_XID (h2_rx_sqn h)) g None) st st1"
    and rx: "ogs_gtp_xact_update_rx env t (h2_type h) st1 = Some (rv, st2)" "rv = OGS_OK \<or> rv = OGS_ERROR"
    and run: "receive_create env g 2 (h2_rx_sqn h) (h2_type h) st =
       (if rv = OGS_OK then Some (OGS_OK, Some t, st2)
        else do { st \<leftarrow> ogs_gtp_xact_delete t st2; Some (OGS_ERROR, None, st) })"
    by (rule receive_create_run [OF xinv can conf type])
  note c = created_facts [OF cr]
  have x1: "x_org (xact st1 t) = OGS_GTP_REMOTE_ORIGINATOR" "x_step (xact st1 t) = 0" "x_gtp_version (xact st1 t) = 2"
    "x_seq (xact st1 t) = replicate 3 \<lparr>sq_type = 0, sq_pkbuf = None\<rparr>" "x_xid (xact st1 t) = xid" "x_gnode (xact st1 t) = g"
    using c(3) xid by simp_all
  obtain tm where "tm_start (x_tm_holding (xact st1 t)) (e_t3_holding_duration env) = Some tm"
    using tm_start_total [of "e_t3_holding_duration env"] conf by (auto simp: conf_ok_def)
  then obtain st3 where hold: "rx_start_holding env t st1 = Some st3"
    by (simp add: rx_start_holding_def)
  obtain tm' where "xact st3 t = (xact st1 t)\<lparr>x_tm_holding := tm'\<rparr>"
    using rx_start_holding_frame(2) [OF hold] by blast
  then have "x_seq (xact st3 t) = x_seq (xact st1 t)" "x_step (xact st3 t) = 0"
    using x1(2) by simp_all
  with hold have "\<exists>st4. ogs_gtp_xact_update_rx env t (h2_type h) st1 = Some (OGS_OK, st4)"
    using x1 type initial
    by (simp add: ogs_gtp_xact_update_rx_def Let_def xact_get_stage_def seq_get_def rx_accept_def)
  then have rv: "rv = OGS_OK" using rx(1) by auto
  have rcv: "ogs_gtp_xact_receive env g h st = Some (OGS_OK, Some t, st2)"
    using initial new run rv xid by (simp add: ogs_gtp_xact_receive_def Let_def gtp2_rx_list_def)
  note f = update_rx_frame [OF rx(1)] and ff = step_frame_facts(2,9-12) [OF update_rx_frame(1) [OF rx(1)], of t]
  have "gtp_inv st2" using receive_inv [OF inv can conf, of g h] rcv by auto
  moreover have "s_sent st2 = s_sent st" using f(5) [OF rv] cr by (simp add: created_def)
  ultimately show thesis
    using that [OF rcv] x1 ff f(5) [OF rv] c(6) by simp
qed

text \<open>The answer is prepared and sent.\<close>

lemma answer_request:
  assumes inv: "gtp_inv st" and live: "live st t" and conf: "conf_ok env"
    and x: "x_org (xact st t) = OGS_GTP_REMOTE_ORIGINATOR" "x_step (xact st t) = 1" "x_gtp_version (xact st t) = 2"
    and final: "ogs_gtp2_xact_get_stage (hd_type hdesc) (x_xid (xact st t)) = GTP_XACT_FINAL_STAGE"
    and sock: "\<And>p. e_sock_open env (x_gnode (xact st t))" "\<And>p. e_os_sent env (x_gnode (xact st t)) p = int (length p)"
  obtains st1 st2 where "ogs_gtp_xact_update_tx t hdesc pl st = Some (OGS_OK, st1)"
    "ogs_gtp_xact_commit env t st1 = Some (OGS_OK, st2)" "gtp_inv st2"
    "s_sent st2 = s_sent st @ [(x_gnode (xact st t), gtp2_push_header hdesc (x_xid (xact st t)) pl)]"
proof -
  let ?x = "xact st t"
  let ?pk = "gtp2_push_header hdesc (x_xid ?x) pl"
  have ok: "xact_ok ?x" using inv live xinv_parts(5) by (simp add: gtp_inv_def)
  have len: "length (x_seq ?x) = 3" using ok by (simp add: xact_ok_def)
  let ?x1 = "?x\<lparr>x_sqn := OGS_GTP2_XID_TO_SQN (x_xid ?x),
    x_seq := (x_seq ?x)[1 := \<lparr>sq_type = hd_type hdesc, sq_pkbuf = Some ?pk\<rparr>], x_step := 2\<rparr>"
  define st1 where "st1 = upd_xact t (\<lambda>_. ?x1) st"
  have tx: "ogs_gtp_xact_update_tx t hdesc pl st = Some (OGS_OK, st1)"
    using x final len
    by (simp add: ogs_gtp_xact_update_tx_def Let_def gtp2_tx_allowed_def xact_save_def st1_def numeral_2_eq_2)
  note f = update_tx_frame [OF tx ok]
  have inv1: "gtp_inv st1" by (rule step_frame_gtp_inv [OF f(1) inv f(2)]) (use f(4) in simp)
  have live1: "live st1 t" using live step_frame_facts(2) [OF f(1)] by simp
  have last: "seq_last (xact st1 t) = Some \<lparr>sq_type = hd_type hdesc, sq_pkbuf = Some ?pk\<rparr>"
    using len by (simp add: st1_def seq_last_def seq_get_def)
  define st2 where "st2 = st1\<lparr>s_sent := s_sent st1 @ [(x_gnode ?x, ?pk)]\<rparr>"
  have "commit_send env t st1 = Some (OGS_OK, st2)"
    using last sock by (simp add: commit_send_def Let_def ogs_gtp_sendto_def st2_def) (simp add: st1_def)
  then have commit: "ogs_gtp_xact_commit env t st1 = Some (OGS_OK, st2)"
    using last x final
    by (simp add: ogs_gtp_xact_commit_def Let_def xact_get_stage_def) (simp add: st1_def)
  have "gtp_inv st2" using commit_inv [OF inv1 live1 conf] commit by auto
  then show thesis using that [OF tx commit] f(5) by (simp add: st2_def)
qed

section \<open>Taking the answer\<close>

text \<open>An answer with the sequence number of a transaction that waits for it reaches that transaction,
  when no other transaction to that peer waits under the same id.\<close>

lemma find_local_reply_unique:
  assumes inv: "xinv st" and live: "live st s"
    and x: "x_gnode (xact st s) = g" "x_org (xact st s) = OGS_GTP_LOCAL_ORIGINATOR" "x_step (xact st s) = 1"
      "x_gtp_version (xact st s) = 2" "x_xid (xact st s) = xid" "x_sqn (xact st s) = sqn" "sqn \<noteq> 0"
    and unique: "\<And>t. live st t \<Longrightarrow> x_gnode (xact st t) = g \<Longrightarrow> x_org (xact st t) = OGS_GTP_LOCAL_ORIGINATOR \<Longrightarrow>
      x_step (xact st t) = 1 \<Longrightarrow> x_gtp_version (xact st t) = 2 \<Longrightarrow> x_xid (xact st t) = xid \<Longrightarrow> t = s"
  shows "find_local_reply st g xid sqn = Some s"
proof -
  have "s \<in> set (g_local_list (s_gnodes st g))"
    using xinv_parts(2) [OF inv] live x(1,2) by (simp add: lists_ok_def)
  then have "ogs_gtp2_xact_find_local st (g_local_list (s_gnodes st g)) xid sqn 1 \<noteq> None"
    using x by (auto simp: ogs_gtp2_xact_find_local_def Let_def find_None_iff)
  then have "find_local_reply st g xid sqn \<noteq> None"
    by (auto simp: find_local_reply_def Let_def ogs_gtp2_xact_local_match_def split: option.splits)
  then obtain t where t: "find_local_reply st g xid sqn = Some t" by blast
  note r = find_local_reply_Some [OF inv t]
  have "t = s" using unique r by blast
  then show ?thesis using t by simp
qed

lemma delete_sent:
  assumes "xinv st" "live st s" "ogs_gtp_xact_delete s st = Some st'"
  shows "s_sent st' = s_sent st"
proof -
  obtain st'' where "ogs_gtp_xact_delete s st = Some st''" "s_sent st'' = s_sent st"
    by (rule delete_ok [OF assms(1,2)])
  then show ?thesis using assms(3) by simp
qed

lemma receive_answer:
  assumes inv: "gtp_inv st" and live: "live st s" and conf: "conf_ok env"
    and x: "x_org (xact st s) = OGS_GTP_LOCAL_ORIGINATOR" "x_step (xact st s) = 1" "x_gtp_version (xact st s) = 2"
    and found: "find_local_reply st (x_gnode (xact st s)) (x_xid (xact st s)) (h2_rx_sqn h) = Some s"
    and h: "OGS_GTP2_SQN_TO_XID (h2_rx_sqn h) = x_xid (xact st s)" "\<not> is_cmd_xid (x_xid (xact st s))"
    and final: "ogs_gtp2_xact_get_stage (h2_type h) (x_xid (xact st s)) = GTP_XACT_FINAL_STAGE"
  obtains st1 st2 where
    "ogs_gtp_xact_receive env (x_gnode (xact st s)) h st = Some (OGS_OK, Some s, st1)"
    "x_step (xact st1 s) = 2" "x_tm_response (xact st1 s) = tm_stop (x_tm_response (xact st s))" "x_id (xact st1 s) = x_id (xact st s)"
    "\<And>t. t \<noteq> s \<Longrightarrow> xact st1 t = xact st t"
    "ogs_gtp_xact_commit env s st1 = Some (OGS_OK, st2)" "gtp_inv st2" "\<not> live st2 s" "s_sent st2 = s_sent st"
proof -
  let ?x = "xact st s"
  have ok: "xact_ok ?x" using inv live xinv_parts(5) by (simp add: gtp_inv_def)
  have len: "length (x_seq ?x) = 3" using ok by (simp add: xact_ok_def)
  define st1 where "st1 = upd_xact s (\<lambda>x. x\<lparr>x_tm_response := tm_stop (x_tm_response x),
      x_seq := (x_seq x)[x_step x := (x_seq x ! x_step x)\<lparr>sq_type := h2_type h\<rparr>], x_step := x_step x + 1\<rparr>) st"
  have "ogs_gtp_xact_update_rx env s (h2_type h) st = Some (OGS_OK, st1)"
    using x final len by (simp add: ogs_gtp_xact_update_rx_def Let_def xact_get_stage_def rx_accept_def st1_def)
  note rx = this and f = update_rx_frame [OF this]
  have rcv: "ogs_gtp_xact_receive env (x_gnode ?x) h st = Some (OGS_OK, Some s, st1)"
    using found h final rx
    by (simp add: ogs_gtp_xact_receive_def Let_def gtp2_rx_list_def ogs_gtp2_xact_is_local_reply_def receive_update_def)
  have inv1: "gtp_inv st1"
    by (rule step_frame_gtp_inv [OF f(1) inv f(6) [OF ok]]) (use f(5) in simp)
  have live1: "live st1 s" using live step_frame_facts(2) [OF f(1)] by simp
  have x1: "x_step (xact st1 s) = 2" "x_tm_response (xact st1 s) = tm_stop (x_tm_response ?x)"
    "x_org (xact st1 s) = OGS_GTP_LOCAL_ORIGINATOR" "x_xid (xact st1 s) = x_xid ?x" "x_gtp_version (xact st1 s) = 2"
    "x_id (xact st1 s) = x_id ?x"
    using x by (simp_all add: st1_def)
  have last: "seq_last (xact st1 s) = Some ((x_seq ?x ! 1)\<lparr>sq_type := h2_type h\<rparr>)"
    using len x(2) by (simp add: st1_def seq_last_def seq_get_def)
  obtain st2 where st2: "commit_fail s OGS_OK st1 = Some (OGS_OK, st2)" "gtp_inv st2" "\<not> live st2 s"
    using commit_fail_inv [OF inv1 live1] by blast
  have commit: "ogs_gtp_xact_commit env s st1 = Some (OGS_OK, st2)"
    using last x1 final st2(1) by (simp add: ogs_gtp_xact_commit_def Let_def xact_get_stage_def)
  have "ogs_gtp_xact_delete s st1 = Some st2" using st2(1) by (auto simp: commit_fail_def split: bind_splits)
  moreover have "xinv st1" using inv1 by (simp add: gtp_inv_def)
  ultimately have "s_sent st2 = s_sent st1" using delete_sent [OF _ live1] by blast
  moreover have "s_sent st1 = s_sent st" by (simp add: st1_def)
  ultimately show thesis
    using that [OF rcv x1(1,2,6) _ commit st2(2,3)] step_frame_facts(3) [OF f(1)] by simp
qed

section \<open>Properties\<close>

text \<open>Header round trip. The header that the transmit functions push in front of any payload is
  read back by the receiver with the same message type and the same transaction id, up to the 24 (16)
  bits that the sequence number of GTPv2 (GTPv1) carries, and its length field counts the octets
  behind the mandatory part.\<close>

theorem header_roundtrip:
  "(\<exists>h. gtp2_read_header (gtp2_push_header hdesc xid pl) = Some h \<and> h2_type h = hd_type hdesc
     \<and> h2_teid_presence h = gtp2_has_teid (hd_type hdesc)
     \<and> OGS_GTP2_SQN_TO_XID (h2_rx_sqn h) = xid AND 0xFFFFFF)
   \<and> rd_u16 (gtp2_push_header hdesc xid pl) 2 = Some (bswap16 (of_nat (length (gtp2_push_header hdesc xid pl) - 4)))
   \<and> (\<exists>h. gtp1_read_header (gtp1_push_header hdesc xid pl) = Some h \<and> h1_type h = hd_type hdesc \<and> h1_s h
     \<and> OGS_GTP1_SQN_TO_XID (ucast (h1_sqn h)) = xid AND 0xFFFF)
   \<and> rd_u16 (gtp1_push_header hdesc xid pl) 2 = Some (bswap16 (of_nat (length (gtp1_push_header hdesc xid pl) - 8)))"
  by (cases "gtp2_has_teid (hd_type hdesc)")
    (simp_all add: gtp2_push_read h2_rx_sqn_def sqn_xid_roundtrip gtp2_length_field
      gtp1_push_read sqn_xid_roundtrip1 gtp1_length_field)

text \<open>C21. Replies find the shard of their request. With sharding enabled, whatever thread sends a
  request and whatever its id counter is, a response carrying the id of that request, and a bearer
  request triggered by a command of it, are routed to that thread, for GTPv2 and for GTPv1.\<close>

theorem reply_routed_to_requesting_shard:
  assumes "e_shards_active env" "case e_worker_self env of Some wid \<Rightarrow> worker_id_ok wid | None \<Rightarrow> True"
    and "\<not> is_gtp2_command rtype \<and> hd_type hdesc \<in> set gtp2_final_types
      \<or> is_gtp2_command rtype \<and> hd_type hdesc \<in> set gtp2_bearer_request_types"
    and "hd_type hdesc1 \<in> set gtp1_final_types \<or> hd_type hdesc1 = OGS_GTP1_SGSN_CONTEXT_RESPONSE_TYPE"
  shows "ogs_gtp2_rx_reply_shard True (gtp2_push_header hdesc (local_xid env rtype st) pl) =
      Some (int (ogs_worker_self_id (e_worker_self env)))
    \<and> ogs_gtp1_rx_reply_shard True
        (gtp1_push_header hdesc1 (fst (xact_next_xid env OGS_GTP1_MIN_XACT_ID OGS_GTP1_MAX_XACT_ID st)) pl) =
      Some (int (ogs_worker_self_id (e_worker_self env)))"
proof -
  let ?i = "ogs_worker_self_id (e_worker_self env)"
  let ?xid = "fst (xact_next_xid env OGS_GTP_MIN_XACT_ID OGS_GTP_CMD_XACT_ID st)"
  note self = self_id_bound [OF assms(2)]
  have i: "uint (of_nat ?i :: u32) = int ?i" using self by (simp add: uint_nat unat_of_nat32)
  have mn: "OGS_GTP_MIN_XACT_ID \<le> 1" "OGS_GTP1_MIN_XACT_ID \<le> 1"
    by (simp_all add: OGS_GTP_MIN_XACT_ID_def OGS_GTP1_MIN_XACT_ID_def)
  have b2: "drop_bit 19 ?xid AND (push_bit OGS_WORKER_ID_BITS 1 - 1) = of_nat ?i" "unat ?xid < 2 ^ 23"
    using next_xid_shard_bits [OF assms(1) spans(1) _ _ mn(1) self, of st] by simp_all
  have not_cmd: "\<not> is_cmd_xid ?xid" using small_no_bit [OF b2(2), of 23] by (simp add: is_cmd_xid_bit)
  have "ogs_gtp2_rx_reply_shard True (gtp2_push_header hdesc (local_xid env rtype st) pl) = Some (int ?i)"
  proof (cases "is_gtp2_command rtype")
    case True
    note cmd = shard_of_command [OF b2(2)]
    have "ogs_gtp2_xact_get_stage (hd_type hdesc) (?xid OR OGS_GTP_CMD_XACT_ID) = GTP_XACT_INTERMEDIATE_STAGE"
      using assms(3) True bearer_stage2 cmd(3) by blast
    then show ?thesis
      using rx_reply_shard_push [OF cmd(2), of hdesc pl] True cmd(1) b2(1) i
      by (simp add: local_xid_def Let_def ogs_gtp2_xact_is_local_reply_def)
  next
    case False
    then have "ogs_gtp2_xact_get_stage (hd_type hdesc) ?xid = GTP_XACT_FINAL_STAGE"
      using assms(3) final_stage2 by blast
    then show ?thesis
      using rx_reply_shard_push [of ?xid hdesc pl] b2 False not_cmd i
      by (simp add: local_xid_def Let_def ogs_gtp2_xact_is_local_reply_def)
  qed
  moreover have "ogs_gtp1_rx_reply_shard True
      (gtp1_push_header hdesc1 (fst (xact_next_xid env OGS_GTP1_MIN_XACT_ID OGS_GTP1_MAX_XACT_ID st)) pl) = Some (int ?i)"
    using rx_reply_shard1_push [OF _ assms(4)] next_xid_shard_bits [OF assms(1) spans(2) _ _ mn(2) self, of st] i
    by simp
  ultimately show ?thesis by blast
qed

theorem reply_routed_to_requesting_shard_witness:
  "ogs_gtp2_rx_reply_shard True (gtp2_push_header \<lparr>hd_type = OGS_GTP2_CREATE_SESSION_RESPONSE_TYPE, hd_teid = 7\<rparr>
      (local_xid (demo_env\<lparr>e_worker_self := Some 4, e_shards_active := True\<rparr>) OGS_GTP2_CREATE_SESSION_REQUEST_TYPE demo_init) []) = Some 5"
proof -
  have "worker_id_ok 4" by (simp add: worker_id_ok_def OGS_MAX_WORKERS_def)
  then show ?thesis
    using reply_routed_to_requesting_shard [of "demo_env\<lparr>e_worker_self := Some 4, e_shards_active := True\<rparr>"
        OGS_GTP2_CREATE_SESSION_REQUEST_TYPE "\<lparr>hd_type = OGS_GTP2_CREATE_SESSION_RESPONSE_TYPE, hd_teid = 7\<rparr>"
        "\<lparr>hd_type = 17, hd_teid = 7\<rparr>" demo_init "[]"]
    by (simp add: is_gtp2_command_def gtp2_final_types_def gtp1_final_types_def ogs_worker_self_id_def)
qed

text \<open>C22. A whole exchange. A sends a request to B: A creates a transaction and commits it. B receives
  the packet that A sent, gets a new transaction, prepares an answer in it and commits it. A receives
  the packet that B sent: it is matched to the very transaction of the request, its response timer is
  stopped, and committing once more removes it. Each side has sent exactly one packet, every call
  returns \<open>OGS_OK\<close>, and no other transaction of A has changed when the answer is handed over.\<close>

theorem request_answer_exchange:
  assumes "xid = local_xid envA (hd_type rq) stA"
    and "gtp_inv stA" "can_create stA" "conf_ok envA" "gtp_inv stB" "can_create stB" "conf_ok envB"
    and "xid \<noteq> 0" "unat xid < 2 ^ 23"
    and "ogs_gtp2_xact_get_stage (hd_type rq) xid = GTP_XACT_INITIAL_STAGE" "hd_type rs \<in> set gtp2_final_types"
    and "\<forall>t. live stA t \<longrightarrow> x_xid (xact stA t) \<noteq> xid" "xact_lookup stB peerA Remote_List 2 xid = None"
    and "e_sock_open envA peerB" "\<forall>p. e_os_sent envA peerB p = int (length p)"
    and "e_sock_open envB peerA" "\<forall>p. e_os_sent envB peerA p = int (length p)"
  shows "\<exists>s stA1 stA2 pq hq t stB1 stB2 stB3 ps hs stA3 stA4.
     ogs_gtp_xact_local_create envA peerB rq payload cb stA = Some (Some s, stA1)
   \<and> ogs_gtp_xact_commit envA s stA1 = Some (OGS_OK, stA2) \<and> s_sent stA2 = s_sent stA @ [(peerB, pq)]
   \<and> gtp2_read_header pq = Some hq
   \<and> ogs_gtp_xact_receive envB peerA hq stB = Some (OGS_OK, Some t, stB1)
   \<and> ogs_gtp_xact_update_tx t rs payload' stB1 = Some (OGS_OK, stB2)
   \<and> ogs_gtp_xact_commit envB t stB2 = Some (OGS_OK, stB3) \<and> s_sent stB3 = s_sent stB @ [(peerA, ps)]
   \<and> gtp2_read_header ps = Some hs
   \<and> ogs_gtp_xact_receive envA peerB hs stA2 = Some (OGS_OK, Some s, stA3)
   \<and> x_step (xact stA3 s) = 2 \<and> x_tm_response (xact stA3 s) = Some Tm_Idle
   \<and> (\<forall>t. t \<noteq> s \<longrightarrow> xact stA3 t = xact stA t)
   \<and> ogs_gtp_xact_commit envA s stA3 = Some (OGS_OK, stA4) \<and> s_sent stA4 = s_sent stA2
   \<and> gtp_inv stA4 \<and> \<not> live stA4 s"
proof -
  have small: "xid AND 0xFFFFFF = xid" using assms(9) by (intro and_mask_24) simp
  have not_cmd: "\<not> is_cmd_xid xid" using small_no_bit [OF assms(9), of 23] by (simp add: is_cmd_xid_bit)
  have final: "ogs_gtp2_xact_get_stage (hd_type rs) xid = GTP_XACT_FINAL_STAGE" by (rule final_stage2 [OF assms(11)])
  have sqn: "OGS_GTP2_SQN_TO_XID (OGS_GTP2_XID_TO_SQN xid) = xid" by (simp add: sqn_xid_roundtrip small)
  have sqn0: "OGS_GTP2_XID_TO_SQN xid \<noteq> 0"
    using sqn assms(8) by (auto simp: OGS_GTP2_SQN_TO_XID_def bswap32_def)
  let ?pq = "gtp2_push_header rq xid payload"
  obtain s stA1 stA2 where create: "ogs_gtp_xact_local_create envA peerB rq payload cb stA = Some (Some s, stA1)"
    and commit: "ogs_gtp_xact_commit envA s stA1 = Some (OGS_OK, stA2)" "gtp_inv stA2"
    and A2: "\<And>u. live stA2 u \<longleftrightarrow> live stA u \<or> u = s" "\<And>u. u \<noteq> s \<longrightarrow> xact stA2 u = xact stA u"
    and x: "x_step (xact stA2 s) = 1" "x_org (xact stA2 s) = OGS_GTP_LOCAL_ORIGINATOR" "x_gtp_version (xact stA2 s) = 2"
      "x_gnode (xact stA2 s) = peerB" "x_xid (xact stA2 s) = xid" "x_sqn (xact stA2 s) = OGS_GTP2_XID_TO_SQN xid"
      "x_tm_response (xact stA2 s) = Some (Tm_Running (e_t3_response_duration envA))"
    and sentA2: "s_sent stA2 = s_sent stA @ [(peerB, ?pq)]"
    by (rule send_request [OF assms(2,3,4,1,10,14,15), where pl = payload and cb = cb]) (rule that; assumption)
  obtain hq where hq: "gtp2_read_header ?pq = Some hq" using gtp2_push_read by blast
  note hq' = rx_sqn_push [OF hq]
  obtain t stB1 where rcvB: "ogs_gtp_xact_receive envB peerA hq stB = Some (OGS_OK, Some t, stB1)" "gtp_inv stB1" "live stB1 t"
    and xB: "x_org (xact stB1 t) = OGS_GTP_REMOTE_ORIGINATOR" "x_step (xact stB1 t) = 1" "x_gtp_version (xact stB1 t) = 2"
      "x_xid (xact stB1 t) = xid" "x_gnode (xact stB1 t) = peerA" and sentB1: "s_sent stB1 = s_sent stB"
    by (rule receive_request [OF assms(5,6,7), of hq xid peerA]) (use hq' sqn assms(10,13) in simp_all)
  obtain stB2 stB3 where tx: "ogs_gtp_xact_update_tx t rs payload' stB1 = Some (OGS_OK, stB2)"
    "ogs_gtp_xact_commit envB t stB2 = Some (OGS_OK, stB3)"
    and sentB3: "s_sent stB3 = s_sent stB1 @ [(x_gnode (xact stB1 t), gtp2_push_header rs (x_xid (xact stB1 t)) payload')]"
    by (rule answer_request [OF rcvB(2,3) assms(7) xB(1-3), of rs payload']) (use xB(4,5) final assms(16,17) in simp_all)
  obtain hs where hs: "gtp2_read_header (gtp2_push_header rs xid payload') = Some hs" using gtp2_push_read by blast
  note hs' = rx_sqn_push [OF hs]
  have found: "find_local_reply stA2 peerB xid (OGS_GTP2_XID_TO_SQN xid) = Some s"
  proof (rule find_local_reply_unique)
    show "u = s" if "live stA2 u" "x_xid (xact stA2 u) = xid" for u
      using that A2 [of u] assms(12) by metis
  qed (use commit(2) A2 x sqn0 in \<open>simp_all add: gtp_inv_def\<close>)
  have "live stA2 s" using A2 by blast
  then obtain stA3 stA4 where A3: "ogs_gtp_xact_receive envA (x_gnode (xact stA2 s)) hs stA2 = Some (OGS_OK, Some s, stA3)"
    "x_step (xact stA3 s) = 2" "x_tm_response (xact stA3 s) = tm_stop (x_tm_response (xact stA2 s))"
    "\<And>u. u \<noteq> s \<Longrightarrow> xact stA3 u = xact stA2 u"
    and A4: "ogs_gtp_xact_commit envA s stA3 = Some (OGS_OK, stA4)" "gtp_inv stA4" "\<not> live stA4 s" "s_sent stA4 = s_sent stA2"
    by (rule receive_answer [OF commit(2) _ assms(4), of s hs])
      (use x hs' sqn not_cmd final found in simp_all)
  have "xact stA3 u = xact stA u" if "u \<noteq> s" for u using A3(4) [OF that] A2(2) [of u] that by simp
  moreover have "x_tm_response (xact stA3 s) = Some Tm_Idle" using A3(3) x(7) by (simp add: tm_stop_def)
  moreover have "ogs_gtp_xact_receive envA peerB hs stA2 = Some (OGS_OK, Some s, stA3)" using A3(1) x(4) by simp
  moreover have "s_sent stB3 = s_sent stB @ [(peerA, gtp2_push_header rs xid payload')]" using sentB1 sentB3 xB by simp
  ultimately show ?thesis using create commit(1) sentA2 hq rcvB(1) tx hs A3(2) A4 by blast
qed

theorem request_answer_exchange_witness:
  "\<exists>s st1 st2 pq hq t st3. ogs_gtp_xact_local_create demo_env 0 demo_request [1, 2] None demo_init = Some (Some s, st1)
   \<and> ogs_gtp_xact_commit demo_env s st1 = Some (OGS_OK, st2) \<and> s_sent st2 = [(0, pq)]
   \<and> gtp2_read_header pq = Some hq
   \<and> ogs_gtp_xact_receive demo_env 0 hq demo_init = Some (OGS_OK, Some t, st3)"
proof -
  have xid: "local_xid demo_env (hd_type demo_request) demo_init = 8"
    by (simp add: local_xid_def xact_next_xid_def demo_env_def demo_init_def demo_request_def is_gtp2_command_def
        OGS_GTP_CMD_XACT_ID_def)
  have stage: "ogs_gtp2_xact_get_stage (hd_type demo_request) 8 = GTP_XACT_INITIAL_STAGE"
    by (simp add: demo_request_def ogs_gtp2_xact_get_stage_def gtp2_initial_types_def)
  have none: "\<not> live demo_init t" "xact_lookup demo_init 0 Remote_List 2 8 = None" "s_sent demo_init = []" for t
    by (simp_all add: live_def demo_init_def idpool_init_def blank_state_def xact_lookup_def xact_index_get_def
        blank_gnode_def xact_scan_def sel_list_def)
  have env: "e_sock_open demo_env 0" "e_os_sent demo_env 0 p = int (length p)" for p by (simp_all add: demo_env_def)
  note i = demo_init_inv
  show ?thesis
    using request_answer_exchange [OF xid [symmetric] i(1,2,3) i(1,2,3) _ _ stage, of "\<lparr>hd_type = 33, hd_teid = 7\<rparr>" 0 0
        "[1, 2]" None "[]"] none env
    by (simp add: gtp2_final_types_def) blast
qed

end
