(* ===== verification/Gtp_Edge.thy ===== *)
theory Gtp_Edge
  imports Gtp_Exchange
begin

text \<open>
  The transaction layer at its edges: the index against the list scan it replaces, the id that has the
  command bit although it belongs to no command, and creation when the timers are used up.
\<close>

section \<open>The index\<close>

lemma bit_index_key:
  "bit (xact_index_key org version xid) n \<longleftrightarrow>
     (if n < 32 then bit xid n else if n < 40 then bit version (n - 32) else n < 48 \<and> bit org (n - 40))"
proof -
  consider "n < 32" | "32 \<le> n" "n < 40" | "40 \<le> n" "n < 48" | "48 \<le> n" by linarith
  then show ?thesis
    by cases (auto simp: xact_index_key_def bit_simps dest: bit_imp_le_length)
qed

lemma xact_index_key_inj:
  "xact_index_key o1 v1 x1 = xact_index_key o2 v2 x2 \<longleftrightarrow> o1 = o2 \<and> v1 = v2 \<and> x1 = x2"
proof
  assume "xact_index_key o1 v1 x1 = xact_index_key o2 v2 x2"
  then have k: "bit (xact_index_key o1 v1 x1) n = bit (xact_index_key o2 v2 x2) n" for n by simp
  have "bit x1 n = bit x2 n" if "n < 32" for n using k [of n] that by (simp add: bit_index_key)
  moreover have "bit v1 n = bit v2 n" if "n < 8" for n using k [of "n + 32"] that by (simp add: bit_index_key)
  moreover have "bit o1 n = bit o2 n" if "n < 8" for n using k [of "n + 40"] that by (simp add: bit_index_key)
  ultimately show "o1 = o2 \<and> v1 = v2 \<and> x1 = x2" by (auto intro!: bit_word_eqI)
qed simp

text \<open>C23. The index is only an accelerator: on every well-formed state, looking a transaction up through
  the hash index gives exactly what scanning the list of the peer gives, whenever at most one
  transaction of that list has the wanted version and id.\<close>

theorem index_lookup_is_scan:
  assumes "gtp_inv st"
    and "\<forall>s t. s \<in> set (sel_list st g l) \<and> t \<in> set (sel_list st g l)
      \<and> x_gtp_version (xact st s) = version \<and> x_gtp_version (xact st t) = version
      \<and> x_xid (xact st s) = xid \<and> x_xid (xact st t) = xid \<longrightarrow> s = t"
  shows "xact_lookup st g l version xid = xact_scan st (sel_list st g l) version xid"
proof (cases "xact_index_get st g (sel_org l) version xid")
  case None
  then show ?thesis by (simp add: xact_lookup_def)
next
  case (Some s)
  have inv: "xinv st" using assms(1) by (simp add: gtp_inv_def)
  note p = xinv_parts(2,3) [OF inv]
  have s: "live st s" "x_gnode (xact st s) = g" "x_hash_key (xact st s) = xact_index_key (sel_org l) version xid"
    using Some p(2) by (auto simp: xact_index_get_def hash_ok_def)
  have "xact_index_key (x_org (xact st s)) (x_gtp_version (xact st s)) (x_xid (xact st s)) = xact_index_key (sel_org l) version xid"
    using s(1,3) p(2) by (simp add: hash_ok_def)
  then have k: "x_org (xact st s) = sel_org l" "x_gtp_version (xact st s) = version" "x_xid (xact st s) = xid"
    by (simp_all add: xact_index_key_inj)
  have mem: "s \<in> set (sel_list st g l)"
    using s p(1) k(1) by (cases l) (simp_all add: sel_list_def sel_org_def lists_ok_def)
  have "xact_scan st (sel_list st g l) version xid \<noteq> None"
    using mem k by (auto simp: xact_scan_def find_None_iff)
  then obtain t where t: "xact_scan st (sel_list st g l) version xid = Some t" by blast
  then have "t \<in> set (sel_list st g l)" "x_gtp_version (xact st t) = version" "x_xid (xact st t) = xid"
    using find_Some_in by (fastforce simp: xact_scan_def)+
  then have "t = s" using assms(2) mem k by blast
  then show ?thesis using Some t k by (simp add: xact_lookup_def)
qed

theorem index_lookup_is_scan_witness:
  "xact_lookup (one_xact demo_waiting) 0 Local_List 2 8 = xact_scan (one_xact demo_waiting) [0] 2 8"
proof -
  have "sel_list (one_xact demo_waiting) 0 Local_List = [0]"
    by (simp add: sel_list_def gnode_add_fields blank_gnode_def demo_waiting_def)
  then show ?thesis using index_lookup_is_scan [OF demo_waiting_inv(1), of 0 Local_List 2 8] by simp
qed

section \<open>The id with the command bit\<close>

text \<open>A remote transaction that a message creates and cannot start is deleted again without a trace in
  the transactions that were there.\<close>

lemma receive_create_rejected:
  assumes inv: "gtp_inv st" and can: "can_create st" and conf: "conf_ok env" and type: "type \<noteq> 0"
    and final: "ogs_gtp2_xact_get_stage type (OGS_GTP2_SQN_TO_XID sqn) = GTP_XACT_FINAL_STAGE"
  obtains st' where "receive_create env g 2 sqn type st = Some (OGS_ERROR, None, st')" "gtp_inv st'"
    "\<And>u. live st u \<longrightarrow> live st' u \<and> xact st' u = xact st u"
proof -
  have xinv: "xinv st" using inv by (simp add: gtp_inv_def)
  obtain t i st1 rv st2 where
    cr: "created t (new_xact env i 2 OGS_GTP_REMOTE_ORIGINATOR
        (if (2::u8) = 1 then OGS_GTP1_SQN_TO_XID sqn else OGS_GTP2_SQN_TO_XID sqn) g None) st st1"
    and rx: "ogs_gtp_xact_update_rx env t type st1 = Some (rv, st2)"
    and run: "receive_create env g 2 sqn type st =
       (if rv = OGS_OK then Some (OGS_OK, Some t, st2)
        else do { st \<leftarrow> ogs_gtp_xact_delete t st2; Some (OGS_ERROR, None, st) })"
    by (rule receive_create_run [OF xinv can conf type])
  note c = created_facts [OF cr]
  have err: "rv = OGS_ERROR" "st2 = st1"
    using rx final c(3) by (simp_all add: ogs_gtp_xact_update_rx_def Let_def xact_get_stage_def)
  have "partner st1 t = None"
    using invalid_id_not_used [OF xinv_parts(1) [OF c(1)]] c(3) by (simp add: partner_def)
  then obtain st' where del: "ogs_gtp_xact_delete t st1 = Some st'" "\<And>u. live st' u \<longleftrightarrow> live st1 u \<and> u \<noteq> t"
    "\<And>u. u \<noteq> t \<Longrightarrow> xact st' u = xact st1 u"
    using delete_ok [OF c(1,6)] by (metis option.distinct(1))
  have eq: "receive_create env g 2 sqn type st = Some (OGS_ERROR, None, st')" using run err del(1) by simp
  have "gtp_inv st'" using receive_create_inv [OF inv can conf type, of g 2 sqn] eq by auto
  moreover have "live st' u \<and> xact st' u = xact st u" if "live st u" for u
  proof -
    have "u \<noteq> t" using that cr by (auto simp: created_def)
    then show ?thesis using that del(2,3) c(2,4) by simp
  qed
  ultimately show thesis using that eq by blast
qed

text \<open>C24. Without sharding the id counter runs up to and including \<open>0x800000\<close>, the id whose only bit is
  the command bit. A request that is no command and happens to get this id loses its answer: the answer is
  taken for a message of the remote side's transaction, none is found, and the receive function
  returns an error while the waiting transaction stays as it was.\<close>

theorem last_id_answer_lost:
  assumes "gtp_inv st" "can_create st" "conf_ok env" "\<not> e_shards_active env" "s_xact_id st = 0x7FFFFF"
    and "hd_type rq \<in> set gtp2_initial_types" "\<not> is_gtp2_command (hd_type rq)"
    and "ogs_gtp_xact_local_create env g rq pl cb st = Some (Some s, st1)" "can_create st1"
    and "hd_type rs \<in> set gtp2_final_types"
    and "hd_type rs \<notin> {OGS_GTP2_MODIFY_BEARER_FAILURE_INDICATION_TYPE, OGS_GTP2_DELETE_BEARER_FAILURE_INDICATION_TYPE,
      OGS_GTP2_BEARER_RESOURCE_FAILURE_INDICATION_TYPE}"
    and "gtp2_read_header (gtp2_push_header rs (x_xid (xact st1 s)) pl') = Some h"
    and "xact_lookup st1 g Remote_List 2 0x800000 = None"
  shows "x_xid (xact st1 s) = 0x800000 \<and> x_step (xact st1 s) = 1
     \<and> (\<exists>st2. ogs_gtp_xact_receive env g h st1 = Some (OGS_ERROR, None, st2) \<and> live st2 s \<and> xact st2 s = xact st1 s)"
proof -
  have xid: "local_xid env (hd_type rq) st = 0x800000"
    using assms(4,5,7) by (simp add: local_xid_def xact_next_xid_def OGS_GTP_CMD_XACT_ID_def)
  have stage: "ogs_gtp2_xact_get_stage (hd_type rq) (local_xid env (hd_type rq) st) = GTP_XACT_INITIAL_STAGE"
    using assms(6) by (simp add: ogs_gtp2_xact_get_stage_def)
  have s: "gtp_inv st1" "live st1 s" "x_xid (xact st1 s) = 0x800000" "x_step (xact st1 s) = 1"
    using local_create_request [OF assms(1,2) stage, of g pl cb] assms(8) xid by (metis Pair_inject option.inject)+
  have cmd: "is_cmd_xid 0x800000" by (simp add: is_cmd_xid_def OGS_GTP_CMD_XACT_ID_def)
  note h = rx_sqn_push [OF assms(12)]
  have rx: "OGS_GTP2_SQN_TO_XID (h2_rx_sqn h) = 0x800000" using h(2) s(3) by (simp add: sqn_xid_roundtrip)
  have final: "ogs_gtp2_xact_get_stage (h2_type h) 0x800000 = GTP_XACT_FINAL_STAGE"
    using h(1) final_stage2 [OF assms(10)] by simp
  have type: "h2_type h \<noteq> 0" using final by auto
  obtain st2 where st2: "receive_create env g 2 (h2_rx_sqn h) (h2_type h) st1 = Some (OGS_ERROR, None, st2)"
    "\<And>u. live st1 u \<longrightarrow> live st2 u \<and> xact st2 u = xact st1 u"
    by (rule receive_create_rejected [OF s(1) assms(9,3) type, of "h2_rx_sqn h" g]) (use rx final in simp_all)
  have "ogs_gtp_xact_receive env g h st1 = Some (OGS_ERROR, None, st2)"
    using rx final cmd assms(11,13) h(1) st2(1)
    by (simp add: ogs_gtp_xact_receive_def Let_def gtp2_rx_list_def ogs_gtp2_xact_is_local_reply_def)
  then show ?thesis using s st2(2) by blast
qed

definition demo_last_id :: gtp_state where
  "demo_last_id = demo_init\<lparr>s_xact_id := 0x7FFFFF\<rparr>"

lemma gtp_inv_xact_id: "gtp_inv (st\<lparr>s_xact_id := n\<rparr>) \<longleftrightarrow> gtp_inv st"
proof -
  have "live (st\<lparr>s_xact_id := n\<rparr>) = live st" by (simp add: live_def fun_eq_iff)
  then show ?thesis
    by (simp add: gtp_inv_def xinv_def ids_ok_def lists_ok_def hash_ok_def assoc_ok_def)
qed

lemma demo_last_id_inv: "gtp_inv demo_last_id" "can_create demo_last_id" "s_xact_id demo_last_id = 0x7FFFFF"
  using demo_init_inv(1,2) by (simp_all add: demo_last_id_def gtp_inv_xact_id can_create_def)

lemmas run_defs = ogs_gtp_xact_local_create_def xact_calloc_def idpool_calloc_def xact_next_xid_def
  add_response_def add_holding_def add_peer_def ogs_timer_add_def xact_link_eq ogs_gtp_xact_update_tx_def
  gtp2_tx_allowed_def xact_save_def Let_def

lemma demo_last_id_create:
  "\<exists>st1. ogs_gtp_xact_local_create demo_env 0 demo_request [] None demo_last_id = Some (Some 0, st1)
     \<and> can_create st1 \<and> xact_lookup st1 0 Remote_List 2 0x800000 = None"
proof -
  have stage: "ogs_gtp2_xact_get_stage (hd_type demo_request) xid = GTP_XACT_INITIAL_STAGE" for xid
    by (simp add: demo_request_def ogs_gtp2_xact_get_stage_def gtp2_initial_types_def)
  have start: "s_xact_id demo_last_id = 0x7FFFFF" "s_tm_avail demo_last_id = 6" "xact demo_last_id = (\<lambda>_. xact_zero)"
    "s_pool demo_last_id = idpool_init 2 0" "s_gnodes demo_last_id = (\<lambda>_. blank_gnode)"
    by (simp_all add: demo_last_id_def demo_init_def blank_state_def xact_def fun_eq_iff)
  have zero: "x_step xact_zero = 0" "length (x_seq xact_zero) = 3" by (simp_all add: xact_zero_def)
  have env: "\<not> e_shards_active demo_env" "\<not> is_gtp2_command (hd_type demo_request)"
    by (simp_all add: demo_env_def is_gtp2_command_def demo_request_def)
  have key: "xact_index_key OGS_GTP_REMOTE_ORIGINATOR 2 x \<noteq> xact_index_key OGS_GTP_LOCAL_ORIGINATOR 2 y" for x y
    by (simp add: xact_index_key_inj)
  show ?thesis
    by (simp add: run_defs start stage env zero idpool_init_def upt_rec OGS_NEXT_ID_def OGS_MAX_POOL_ID_def
        can_create_def idpool_fresh_def xact_lookup_def xact_index_get_def xact_scan_def sel_list_def sel_org_def
        gnode_add_fields blank_gnode_def key OGS_GTP_CMD_XACT_ID_def)
qed

theorem last_id_answer_lost_witness:
  "\<exists>st1 h st2. ogs_gtp_xact_local_create demo_env 0 demo_request [] None demo_last_id = Some (Some 0, st1)
     \<and> gtp2_read_header (gtp2_push_header \<lparr>hd_type = OGS_GTP2_CREATE_SESSION_RESPONSE_TYPE, hd_teid = 1\<rparr>
          (x_xid (xact st1 0)) []) = Some h
     \<and> ogs_gtp_xact_receive demo_env 0 h st1 = Some (OGS_ERROR, None, st2)"
proof -
  let ?rs = "\<lparr>hd_type = OGS_GTP2_CREATE_SESSION_RESPONSE_TYPE, hd_teid = 1\<rparr>"
  obtain st1 where st1: "ogs_gtp_xact_local_create demo_env 0 demo_request [] None demo_last_id = Some (Some 0, st1)"
    "can_create st1" "xact_lookup st1 0 Remote_List 2 0x800000 = None"
    using demo_last_id_create by blast
  obtain h where h: "gtp2_read_header (gtp2_push_header ?rs (x_xid (xact st1 0)) []) = Some h" using gtp2_push_read by blast
  have rq: "hd_type demo_request \<in> set gtp2_initial_types" "\<not> is_gtp2_command (hd_type demo_request)"
    "\<not> e_shards_active demo_env"
    by (simp_all add: demo_request_def gtp2_initial_types_def is_gtp2_command_def demo_env_def)
  have rs: "hd_type ?rs \<in> set gtp2_final_types" by (simp add: gtp2_final_types_def)
  show ?thesis
    using last_id_answer_lost [OF demo_last_id_inv(1,2) demo_init_inv(3) rq(3) demo_last_id_inv(3) rq(1,2) st1(1,2) rs _ h st1(3)]
      st1(1) h by auto
qed

section \<open>Creation without a timer\<close>

lemma delete_unlinked:
  assumes x: "x_assoc_xact_id (xact st s) = OGS_INVALID_POOL_ID" "x_org (xact st s) = OGS_GTP_LOCAL_ORIGINATOR" "x_gnode (xact st s) = g"
    and none: "ip_ids (s_pool st) OGS_INVALID_POOL_ID = None" and ok: "pool_id_ok (x_id (xact st s))"
    and off: "s \<notin> set (g_local_list (s_gnodes st g))"
  obtains st' where "ogs_gtp_xact_delete s st = Some st'"
    "ip_ids (s_pool st') = (ip_ids (s_pool st))(x_id (xact st s) := None)"
    "g_local_list (s_gnodes st' g) = []" "g_xact_local_count (s_gnodes st' g) = g_xact_local_count (s_gnodes st g) - 1"
    "\<And>t. t \<noteq> s \<longrightarrow> xact st' t = xact st t"
proof -
  let ?st1 = "xact_timers_delete s st"
  have st1: "s_pool ?st1 = s_pool st" "s_gnodes ?st1 = s_gnodes st" "x_assoc_xact_id (xact ?st1 s) = OGS_INVALID_POOL_ID"
    "x_org (xact ?st1 s) = OGS_GTP_LOCAL_ORIGINATOR" "x_gnode (xact ?st1 s) = g" "x_id (xact ?st1 s) = x_id (xact st s)"
    "\<And>t. t \<noteq> s \<Longrightarrow> xact ?st1 t = xact st t"
    by (simp_all add: xact_timers_delete_def Let_def x)
  obtain pool where pool: "idpool_free (s_pool st) s (x_id (xact st s)) = Some pool"
    "ip_ids pool = (ip_ids (s_pool st))(x_id (xact st s) := None)"
    using ok by (simp add: idpool_free_def)
  define st2 where "st2 = upd_gnode g (gnode_drop (xact ?st1 s) s) ?st1"
  have "ogs_gtp_xact_delete s st = Some (st2\<lparr>s_pool := pool\<rparr>)"
    using none pool(1) st1
    by (simp add: ogs_gtp_xact_delete_def Let_def ogs_gtp_xact_find_by_id_def index_del_and_unlink st2_def)
  then show thesis
    by (rule that) (use pool(2) off st1 in \<open>simp_all add: st2_def gnode_drop_fields list_remove_def\<close>)
qed

text \<open>C25. When no timer is left, the creating function deletes the transaction it has not yet put on a
  list. The deletion unlinks it all the same: the local list of the peer becomes empty and its
  counter is decremented, although every transaction to the peer is still in use. From then on the
  response timer of such a transaction finds nothing to do, so it is neither retransmitted nor
  given up.\<close>

theorem create_without_timer_unlinks_peer:
  assumes "gtp_inv st" "ip_free (s_pool st) \<noteq> []" "idpool_fresh (s_pool st)" "s_tm_avail st = 0"
    and "live st t" "x_gnode (xact st t) = g" "x_org (xact st t) = OGS_GTP_LOCAL_ORIGINATOR"
  shows "\<exists>st'. ogs_gtp_xact_local_create env g hdesc pk cb st = Some (None, st')
     \<and> g_local_list (s_gnodes st' g) = []
     \<and> ogs_gtp_xact_count st' g OGS_GTP_LOCAL_ORIGINATOR = ogs_gtp_xact_count st g OGS_GTP_LOCAL_ORIGINATOR - 1
     \<and> ogs_gtp_xact_find_by_id st' (x_id (xact st t)) = Some t
     \<and> response_timeout env' (x_id (xact st t)) st' = Some st'"
proof -
  have inv: "xinv st" using assms(1) by (simp add: gtp_inv_def)
  note p = xinv_parts [OF inv]
  obtain s i pool where alloc: "idpool_calloc (s_pool st) = (Some (s, i), pool)"
    and calloc: "xact_calloc st = (Some s, upd_xact s (\<lambda>_. xact_zero\<lparr>x_id := i\<rparr>) (st\<lparr>s_pool := pool\<rparr>))"
    by (rule xact_calloc_Some [OF assms(2)])
  have pinv: "idpool_inv (s_pool st)" using p(1) by (simp add: ids_ok_def)
  note c = idpool_calloc_inv [OF pinv assms(3) alloc]
  have dead: "\<not> live st s" using c(5) by (auto simp: live_def ran_def)
  then have ts: "t \<noteq> s" using assms(5) by blast
  define sta where "sta = upd_xact s (\<lambda>x. x\<lparr>x_gtp_version := 2, x_org := OGS_GTP_LOCAL_ORIGINATOR,
      x_xid := local_xid env (hd_type hdesc) st, x_gnode := g, x_cb := cb\<rparr>)
      (snd (xact_next_xid env OGS_GTP_MIN_XACT_ID OGS_GTP_CMD_XACT_ID
        (upd_xact s (\<lambda>_. xact_zero\<lparr>x_id := i\<rparr>) (st\<lparr>s_pool := pool\<rparr>))))"
  have run: "ogs_gtp_xact_local_create env g hdesc pk cb st = create_fail s sta"
    using assms(4)
    by (simp add: ogs_gtp_xact_local_create_def calloc add_response_def ogs_timer_add_def Let_def sta_def local_xid_def
        xact_next_xid_def split_beta)
  have st: "s_pool sta = pool" "s_gnodes sta = s_gnodes st" "x_assoc_xact_id (xact sta s) = OGS_INVALID_POOL_ID"
    "x_org (xact sta s) = OGS_GTP_LOCAL_ORIGINATOR" "x_gnode (xact sta s) = g" "x_id (xact sta s) = i"
    "\<And>u. u \<noteq> s \<Longrightarrow> xact sta u = xact st u"
    by (simp_all add: sta_def xact_next_xid_def Let_def xact_zero_def OGS_INVALID_POOL_ID_def)
  have off: "s \<notin> set (g_local_list (s_gnodes st g))" using p(2) dead by (simp add: lists_ok_def)
  have none: "ip_ids pool OGS_INVALID_POOL_ID = None"
    using invalid_id_not_used [OF p(1)] c(2,4) by (simp add: pool_id_ok_def OGS_INVALID_POOL_ID_def OGS_MIN_POOL_ID_def)
  have "ip_ids (s_pool sta) OGS_INVALID_POOL_ID = None" "pool_id_ok (x_id (xact sta s))"
    "s \<notin> set (g_local_list (s_gnodes sta g))"
    using none c(4) off by (simp_all add: st)
  note d = delete_unlinked [OF st(3-5) this, unfolded st(1,2,6)]
  obtain st' where del: "ogs_gtp_xact_delete s sta = Some st'" "ip_ids (s_pool st') = (ip_ids pool)(i := None)"
    "g_local_list (s_gnodes st' g) = []" "g_xact_local_count (s_gnodes st' g) = g_xact_local_count (s_gnodes st g) - 1"
    "\<And>u. u \<noteq> s \<longrightarrow> xact st' u = xact sta u"
    by (rule d) (rule that; assumption)
  have id: "ip_ids (s_pool st) (x_id (xact st t)) = Some t" using assms(5) by (simp add: live_def)
  then have mem: "x_id (xact st t) \<in> dom (ip_ids (s_pool st))" by blast
  have ok: "pool_id_ok (x_id (xact st t))" using pinv mem unfolding idpool_inv_def by (elim conjE) (rule bspec)
  have ne: "x_id (xact st t) \<noteq> i" using c(3) mem by metis
  have find: "ogs_gtp_xact_find_by_id st' (x_id (xact st t)) = Some t"
    using id ne del(2) c(2) by (simp add: ogs_gtp_xact_find_by_id_def)
  have xt: "xact st' t = xact st t" using del(5) [of t] st(7) [OF ts] ts by simp
  have "ogs_gtp_xact_find_by_id_for_timer st' (x_id (xact st t)) = None"
    using find xt assms(6,7) del(3) ok
    by (simp add: ogs_gtp_xact_find_by_id_for_timer_def ogs_gtp_xact_on_list_def own_list_def)
  then have "response_timeout env' (x_id (xact st t)) st' = Some st'" using ok by (simp add: response_timeout_def)
  then show ?thesis
    unfolding run create_fail_def using del(1,3,4) find by (simp add: ogs_gtp_xact_count_def)
qed

theorem create_without_timer_unlinks_peer_witness:
  "\<exists>st'. ogs_gtp_xact_local_create demo_env 0 demo_request [] None ((one_xact demo_waiting)\<lparr>s_tm_avail := 0\<rparr>) = Some (None, st')
     \<and> g_local_list (s_gnodes st' 0) = [] \<and> ogs_gtp_xact_find_by_id st' 1 = Some 0"
proof -
  let ?st = "(one_xact demo_waiting)\<lparr>s_tm_avail := 0\<rparr>"
  have live: "live ?st = live (one_xact demo_waiting)" by (simp add: live_def fun_eq_iff)
  then have "gtp_inv ?st \<longleftrightarrow> gtp_inv (one_xact demo_waiting)"
    by (simp add: gtp_inv_def xinv_def ids_ok_def lists_ok_def hash_ok_def assoc_ok_def)
  moreover have "ip_free (s_pool ?st) \<noteq> []" "idpool_fresh (s_pool ?st)"
    using demo_waiting_inv(2) by (simp_all add: can_create_def)
  moreover have "x_gnode demo_waiting = 0" "x_org demo_waiting = OGS_GTP_LOCAL_ORIGINATOR" "x_id demo_waiting = 1"
    by (simp_all add: demo_waiting_def)
  ultimately show ?thesis
    using create_without_timer_unlinks_peer [of ?st 0 0 demo_env demo_request "[]" None] demo_waiting_inv(1,3) live
    by auto
qed

end
