(* ===== verification/Pfcp_Message.thy ===== *)
theory Pfcp_Message
  imports Gtp_Message
begin

text \<open>
  Message types, transaction stages and headers of PFCP (\<open>src/lib/pfcp/message.h\<close>, the stage table
  of \<open>src/lib/pfcp/xact.c\<close>), the header part of \<open>ogs_pfcp_parse_msg\<close> and the checks that
  \<open>ogs_pfcp_recvfrom\<close> (\<open>src/lib/pfcp/path.c\<close>) makes on a datagram.
\<close>

section \<open>Message types and stages\<close>

abbreviation (input) OGS_PFCP_HEARTBEAT_REQUEST_TYPE :: u8 where "OGS_PFCP_HEARTBEAT_REQUEST_TYPE \<equiv> 1"
abbreviation (input) OGS_PFCP_HEARTBEAT_RESPONSE_TYPE :: u8 where "OGS_PFCP_HEARTBEAT_RESPONSE_TYPE \<equiv> 2"
abbreviation (input) OGS_PFCP_VERSION_NOT_SUPPORTED_RESPONSE_TYPE :: u8 where
  "OGS_PFCP_VERSION_NOT_SUPPORTED_RESPONSE_TYPE \<equiv> 11"
abbreviation (input) OGS_PFCP_SESSION_ESTABLISHMENT_REQUEST_TYPE :: u8 where
  "OGS_PFCP_SESSION_ESTABLISHMENT_REQUEST_TYPE \<equiv> 50"

datatype pfcp_xact_stage =
  PFCP_XACT_UNKNOWN_STAGE | PFCP_XACT_INITIAL_STAGE | PFCP_XACT_INTERMEDIATE_STAGE | PFCP_XACT_FINAL_STAGE

definition pfcp_initial_types :: "u8 list" where
  "pfcp_initial_types = [1, 5, 7, 9, 50, 52, 54, 56]"

definition pfcp_final_types :: "u8 list" where
  "pfcp_final_types = [2, 6, 8, 10, 11, 51, 53, 55, 57]"

definition ogs_pfcp_xact_get_stage :: "u8 \<Rightarrow> u32 \<Rightarrow> pfcp_xact_stage" where
  "ogs_pfcp_xact_get_stage type xid =
     (if type \<in> set pfcp_initial_types then PFCP_XACT_INITIAL_STAGE
      else if type \<in> set pfcp_final_types then PFCP_XACT_FINAL_STAGE
      else PFCP_XACT_UNKNOWN_STAGE)"

text \<open>The messages between nodes that carry no session: the types for which \<open>ogs_pfcp_xact_commit\<close>
  does not inherit the IMSI of the thread.\<close>

definition pfcp_node_types :: "u8 list" where
  "pfcp_node_types = [1, 2, 5, 6, 7, 8, 9, 10, 11]"

section \<open>Headers\<close>

definition OGS_PFCP_VERSION :: u8 where
  "OGS_PFCP_VERSION = 1"

definition OGS_PFCP_HEADER_LEN :: nat where
  "OGS_PFCP_HEADER_LEN = 16"

definition OGS_PFCP_SEID_LEN :: nat where
  "OGS_PFCP_SEID_LEN = 8"

definition OGS_PFCP_XID_TO_SQN :: "u32 \<Rightarrow> u32" where
  "OGS_PFCP_XID_TO_SQN xid = bswap32 (push_bit 8 xid)"

definition OGS_PFCP_SQN_TO_XID :: "u32 \<Rightarrow> u32" where
  "OGS_PFCP_SQN_TO_XID sqn = drop_bit 8 (bswap32 sqn)"

definition be_bytes64 :: "u64 \<Rightarrow> bytes" where
  "be_bytes64 x = be_bytes32 (ucast (drop_bit 32 x)) @ be_bytes32 (ucast x)"

text \<open>\<open>be64toh\<close> of the eight octets at an offset.\<close>

definition rd_be64 :: "bytes \<Rightarrow> nat \<Rightarrow> u64 option" where
  "rd_be64 d i =
     do { a \<leftarrow> rd_u32 d i; b \<leftarrow> rd_u32 d (i + 4);
          Some (push_bit 32 (ucast (bswap32 a)) OR ucast (bswap32 b)) }"

record pfcp_hdesc =
  pd_type :: u8
  pd_seid :: u64

definition pfcp_has_seid :: "u8 \<Rightarrow> bool" where
  "pfcp_has_seid type \<longleftrightarrow> type \<ge> OGS_PFCP_SESSION_ESTABLISHMENT_REQUEST_TYPE"

definition pfcp_hlen :: "u8 \<Rightarrow> nat" where
  "pfcp_hlen type =
     (if pfcp_has_seid type then OGS_PFCP_HEADER_LEN else OGS_PFCP_HEADER_LEN - OGS_PFCP_SEID_LEN)"

text \<open>The header that \<open>ogs_pfcp_xact_update_tx\<close> pushes in front of the payload.\<close>

definition pfcp_push_header :: "pfcp_hdesc \<Rightarrow> u32 \<Rightarrow> bytes \<Rightarrow> bytes" where
  "pfcp_push_header hdesc xid payload =
     (let t = pfcp_has_seid (pd_type hdesc);
          flags = push_bit 5 OGS_PFCP_VERSION OR (if t then 1 else 0)
      in [flags, pd_type hdesc]
         @ be_bytes16 (of_nat (pfcp_hlen (pd_type hdesc) + length payload - 4))
         @ (if t then be_bytes64 (pd_seid hdesc) else [])
         @ be_bytes32 (push_bit 8 xid)
         @ payload)"

text \<open>The header as \<open>ogs_pfcp_parse_msg\<close> leaves it in the message: \<open>sqn\<close> is set for both header
  forms, \<open>seid\<close> is in host order when it is present and shares its first octets with the sequence
  number otherwise (the fields are a union). The result is \<open>None\<close> when the packet is shorter than its header.\<close>

record pfcp_header =
  ph_type :: u8
  ph_seid_presence :: bool
  ph_seid :: u64
  ph_sqn :: u32

definition pfcp_seid_presence :: "u8 \<Rightarrow> bool" where
  "pfcp_seid_presence flags = bit flags 0"

definition pfcp_parse_header :: "bytes \<Rightarrow> (pfcp_header \<times> bytes) option" where
  "pfcp_parse_header d =
     do { flags \<leftarrow> rd_u8 d 0;
          type \<leftarrow> rd_u8 d 1;
          if pfcp_seid_presence flags
          then do { seid \<leftarrow> rd_be64 d 4; sqn \<leftarrow> rd_u32 d 12;
                    Some (\<lparr>ph_type = type, ph_seid_presence = True, ph_seid = seid, ph_sqn = sqn\<rparr>,
                          drop OGS_PFCP_HEADER_LEN d) }
          else do { sqn \<leftarrow> rd_u32 d 4;
                    Some (\<lparr>ph_type = type, ph_seid_presence = False, ph_seid = ucast sqn, ph_sqn = sqn\<rparr>,
                          drop (OGS_PFCP_HEADER_LEN - OGS_PFCP_SEID_LEN) d) } }"

section \<open>Datagrams\<close>

text \<open>\<open>ogs_pfcp_recvfrom\<close> on the octets of a datagram: it is dropped, answered with a Version Not
  Supported Response, or passed on, cut to the length its header announces.\<close>

definition MIN_PFCP_HEADER_LENGTH :: nat where
  "MIN_PFCP_HEADER_LENGTH = 12"

datatype pfcp_rx = Rx_Drop | Rx_Version_Reply bytes | Rx_Packet bytes

definition pfcp_version_reply :: "bytes \<Rightarrow> bytes" where
  "pfcp_version_reply d =
     [push_bit 5 OGS_PFCP_VERSION, OGS_PFCP_VERSION_NOT_SUPPORTED_RESPONSE_TYPE] @ be_bytes16 4
     @ take 4 (drop 4 d)"

definition ogs_pfcp_recvfrom :: "bytes \<Rightarrow> pfcp_rx" where
  "ogs_pfcp_recvfrom d =
     (if length d < MIN_PFCP_HEADER_LENGTH then Rx_Drop
      else if hdr_version (d ! 0) \<noteq> OGS_PFCP_VERSION then Rx_Version_Reply (pfcp_version_reply d)
      else let expected = unat (be_word16 (d ! 2) (d ! 3)) + 4
           in if length d < expected then Rx_Drop else Rx_Packet (take expected d))"

end
