(* ===== verification/Xact_Table.thy ===== *)
theory Xact_Table
  imports Xact_Base
begin

text \<open>
  The abstract transaction table that a transaction layer keeps: which pool slots are in use under
  which id, the transactions of each peer in the order in which they were added, separately for the
  two originators, and an index from keys to transactions that holds the first transaction of each
  key. Adding and deleting a transaction are specified here once; the transaction layer of PFCP
  refines them.
\<close>

record xtab =
  xt_pool :: idpool
  xt_id :: "nat \<Rightarrow> nat"
  xt_peer :: "nat \<Rightarrow> nat"
  xt_org :: "nat \<Rightarrow> bool"
  xt_key :: "nat \<Rightarrow> u64"
  xt_list :: "nat \<Rightarrow> bool \<Rightarrow> nat list"
  xt_index :: "nat \<Rightarrow> u64 \<Rightarrow> nat option"

definition xt_used :: "xtab \<Rightarrow> nat \<Rightarrow> bool" where
  "xt_used t s \<longleftrightarrow> ip_ids (xt_pool t) (xt_id t s) = Some s"

definition xt_inv :: "xtab \<Rightarrow> bool" where
  "xt_inv t \<longleftrightarrow> idpool_inv (xt_pool t)
     \<and> (\<forall>i s. ip_ids (xt_pool t) i = Some s \<longrightarrow> xt_id t s = i)
     \<and> (\<forall>g l. distinct (xt_list t g l))
     \<and> (\<forall>g l s. s \<in> set (xt_list t g l) \<longleftrightarrow> xt_used t s \<and> xt_peer t s = g \<and> xt_org t s = l)
     \<and> (\<forall>g k s. xt_index t g k = Some s \<longrightarrow> xt_used t s \<and> xt_peer t s = g \<and> xt_key t s = k)"

text \<open>The transaction put into slot \<open>s\<close> under id \<open>i\<close>.\<close>

definition xt_add :: "nat \<Rightarrow> nat \<Rightarrow> nat \<Rightarrow> bool \<Rightarrow> u64 \<Rightarrow> idpool \<Rightarrow> xtab \<Rightarrow> xtab" where
  "xt_add s i g l k pool t =
     \<lparr>xt_pool = pool, xt_id = (xt_id t)(s := i), xt_peer = (xt_peer t)(s := g), xt_org = (xt_org t)(s := l),
      xt_key = (xt_key t)(s := k),
      xt_list = (\<lambda>g' l'. if g' = g \<and> l' = l then xt_list t g l @ [s] else xt_list t g' l'),
      xt_index = (\<lambda>g' k'. if g' = g \<and> k' = k \<and> xt_index t g k = None then Some s else xt_index t g' k')\<rparr>"

definition xt_del :: "nat \<Rightarrow> idpool \<Rightarrow> xtab \<Rightarrow> xtab" where
  "xt_del s pool t =
     t\<lparr>xt_pool := pool,
       xt_list := (\<lambda>g l. if g = xt_peer t s \<and> l = xt_org t s then list_remove (xt_list t g l) s else xt_list t g l),
       xt_index := (\<lambda>g k. if g = xt_peer t s \<and> k = xt_key t s \<and> xt_index t g k = Some s then None
                          else xt_index t g k)\<rparr>"

lemma xt_invD:
  assumes "xt_inv t"
  shows "idpool_inv (xt_pool t)" "ip_ids (xt_pool t) i = Some s \<Longrightarrow> xt_id t s = i"
    "distinct (xt_list t g l)"
    "s \<in> set (xt_list t g l) \<longleftrightarrow> xt_used t s \<and> xt_peer t s = g \<and> xt_org t s = l"
    "xt_index t g k = Some s \<Longrightarrow> xt_used t s \<and> xt_peer t s = g \<and> xt_key t s = k"
  using assms unfolding xt_inv_def by blast+

lemma xt_used_id: "xt_inv t \<Longrightarrow> ip_ids (xt_pool t) i = Some s \<longleftrightarrow> xt_used t s \<and> xt_id t s = i"
  using xt_invD(2) by (auto simp: xt_used_def)

lemma xt_used_not_free: "xt_inv t \<Longrightarrow> xt_used t s \<Longrightarrow> s \<notin> set (ip_free (xt_pool t))"
  using xt_invD(1) by (auto simp: xt_used_def idpool_inv_def ran_def)

section \<open>Adding\<close>

lemma xt_add_used:
  assumes "xt_inv t" "idpool_fresh (xt_pool t)" "idpool_calloc (xt_pool t) = (Some (s, i), pool)"
  shows "\<not> xt_used t s" "xt_used (xt_add s i g l k pool t) u \<longleftrightarrow> xt_used t u \<or> u = s"
proof -
  note c = idpool_calloc_inv [OF xt_invD(1) [OF assms(1)] assms(2,3)]
  show n: "\<not> xt_used t s" using c(5) by (auto simp: xt_used_def ran_def)
  have "ip_ids (xt_pool t) i = None" using c(3) by auto
  then show "xt_used (xt_add s i g l k pool t) u \<longleftrightarrow> xt_used t u \<or> u = s"
    using n by (auto simp: xt_used_def xt_add_def c(2))
qed

lemma xt_add_inv [inv_intros]:
  assumes inv: "xt_inv t" and fresh: "idpool_fresh (xt_pool t)"
    and calloc: "idpool_calloc (xt_pool t) = (Some (s, i), pool)"
  shows "xt_inv (xt_add s i g l k pool t)" (is "xt_inv ?t")
proof -
  note c = idpool_calloc_inv [OF xt_invD(1) [OF inv] fresh calloc]
  note used = xt_add_used(1) [OF inv fresh calloc] xt_add_used(2) [OF inv fresh calloc, where g = g and l = l and k = k]
  note D = xt_invD [OF inv]
  have "xt_id ?t u = j" if "ip_ids (xt_pool ?t) j = Some u" for j u
    using that D(2) [of j u] c(5) by (auto simp: xt_add_def c(2) ran_def split: if_splits)
  moreover have "distinct (xt_list ?t g' l')" for g' l'
    using D(3,4) used(1) by (auto simp: xt_add_def)
  moreover have "u \<in> set (xt_list ?t g' l') \<longleftrightarrow> xt_used ?t u \<and> xt_peer ?t u = g' \<and> xt_org ?t u = l'" for g' l' u
    unfolding used(2) using D(4) [of u] used(1) by (auto simp: xt_add_def)
  moreover have "xt_used ?t u \<and> xt_peer ?t u = g' \<and> xt_key ?t u = k'" if "xt_index ?t g' k' = Some u" for g' k' u
    unfolding used(2) using that D(5) [of g' k' u] used(1) by (auto simp: xt_add_def split: if_splits)
  moreover have "idpool_inv (xt_pool ?t)" using c(1) by (simp add: xt_add_def)
  ultimately show ?thesis unfolding xt_inv_def by blast
qed

section \<open>Deleting\<close>

lemma xt_del_used:
  assumes "xt_inv t" "xt_used t s" "ip_ids pool = (ip_ids (xt_pool t))(xt_id t s := None)"
  shows "xt_used (xt_del s pool t) u \<longleftrightarrow> xt_used t u \<and> u \<noteq> s"
  using assms by (auto simp: xt_used_def xt_del_def)

lemma xt_del_inv [inv_intros]:
  assumes inv: "xt_inv t" and s: "xt_used t s"
    and free: "idpool_free (xt_pool t) s (xt_id t s) = Some pool"
  shows "xt_inv (xt_del s pool t)" (is "xt_inv ?t")
    and "ip_ids pool = (ip_ids (xt_pool t))(xt_id t s := None)" "ip_free pool = ip_free (xt_pool t) @ [s]"
proof -
  note D = xt_invD [OF inv]
  have f: "idpool_inv pool" "ip_ids pool = (ip_ids (xt_pool t))(xt_id t s := None)" "ip_free pool = ip_free (xt_pool t) @ [s]"
    using idpool_free_inv [OF D(1), of "xt_id t s" s] s free by (auto simp: xt_used_def)
  show "ip_ids pool = (ip_ids (xt_pool t))(xt_id t s := None)" "ip_free pool = ip_free (xt_pool t) @ [s]"
    by (fact f)+
  note used = xt_del_used [OF inv s f(2)]
  have mem: "s \<in> set (xt_list t (xt_peer t s) (xt_org t s))" using D(4) s by simp
  have "xt_id ?t u = j" if "ip_ids (xt_pool ?t) j = Some u" for j u
    using that D(2) [of j u] by (auto simp: xt_del_def f(2) split: if_splits)
  moreover have "distinct (xt_list ?t g l)" for g l
    using D(3) list_remove_member(2) [OF D(3) mem] by (simp add: xt_del_def)
  moreover have "u \<in> set (xt_list ?t g l) \<longleftrightarrow> xt_used ?t u \<and> xt_peer ?t u = g \<and> xt_org ?t u = l" for g l u
    unfolding used using D(4) [of u] list_remove_member(1) [OF D(3) mem, of u] by (auto simp: xt_del_def)
  moreover have "xt_used ?t u \<and> xt_peer ?t u = g \<and> xt_key ?t u = k" if "xt_index ?t g k = Some u" for g k u
    unfolding used using that D(5) [of g k u] by (auto simp: xt_del_def split: if_splits)
  moreover have "idpool_inv (xt_pool ?t)" using f(1) by (simp add: xt_del_def)
  ultimately show "xt_inv ?t" unfolding xt_inv_def by blast
qed

lemma xt_free_total:
  assumes "xt_inv t" "xt_used t s"
  obtains pool where "idpool_free (xt_pool t) s (xt_id t s) = Some pool"
  using idpool_free_inv [OF xt_invD(1) [OF assms(1)], of "xt_id t s" s] assms(2) by (auto simp: xt_used_def)

text \<open>A deleted transaction leaves no trace in the table.\<close>

lemma xt_del_gone:
  assumes inv: "xt_inv t" and s: "xt_used t s" and free: "idpool_free (xt_pool t) s (xt_id t s) = Some pool"
  shows "s \<notin> set (xt_list (xt_del s pool t) g l)" "xt_index (xt_del s pool t) g k \<noteq> Some s"
    "ip_ids (xt_pool (xt_del s pool t)) (xt_id t s) = None"
proof -
  note d = xt_del_inv [OF assms]
  note used = xt_del_used [OF inv s d(2)]
  show "s \<notin> set (xt_list (xt_del s pool t) g l)" using xt_invD(4) [OF d(1), of s g l] used by simp
  show "xt_index (xt_del s pool t) g k \<noteq> Some s" using xt_invD(5) [OF d(1), of g k s] used by blast
  show "ip_ids (xt_pool (xt_del s pool t)) (xt_id t s) = None" by (simp add: xt_del_def d(2))
qed

end
