(* ===== verification/Pfcp_Xact.thy ===== *)
theory Pfcp_Xact
  imports Pfcp_Message Xact_Table
begin

text \<open>
  The PFCP transaction layer of \<open>src/lib/pfcp/xact.c\<close> and the round-robin sender of
  \<open>src/lib/pfcp/path.c\<close>. As for GTP the state is what one thread sees: its transaction pool, the
  slice of every node's lists and index that belongs to its shard, its timers and its id counter.
  Packets handed to the socket, IMSI packet dumps and expiration callbacks are recorded in
  \<open>ps_sent\<close>, \<open>ps_traces\<close> and \<open>ps_cbs\<close>. Fields of a transaction that only the network functions
  use (SEIDs, flags, bearer lists) are left out. Static functions carry the prefix \<open>pfcp_\<close>.
\<close>

section \<open>State\<close>

definition OGS_PFCP_LOCAL_ORIGINATOR :: u8 where
  "OGS_PFCP_LOCAL_ORIGINATOR = 0"

definition OGS_PFCP_REMOTE_ORIGINATOR :: u8 where
  "OGS_PFCP_REMOTE_ORIGINATOR = 1"

definition PFCP_MIN_XACT_ID :: u32 where
  "PFCP_MIN_XACT_ID = 1"

definition PFCP_MAX_XACT_ID :: u32 where
  "PFCP_MAX_XACT_ID = 0x800000"

record pfcp_xact =
  px_id :: nat
  px_org :: u8
  px_xid :: u32
  px_hash_key :: u64
  px_node :: nat
  px_cb :: "nat option"
  px_step :: nat
  px_seq :: "xact_seq list"
  px_tm_response :: "tm option"
  px_response_rcount :: u8
  px_lag_defer_count :: u8
  px_tm_holding :: "tm option"
  px_holding_rcount :: u8
  px_tm_delayed_commit :: "tm option"
  px_imsi_bcd :: string

definition pfcp_xact_zero :: pfcp_xact where
  "pfcp_xact_zero =
     \<lparr>px_id = 0, px_org = 0, px_xid = 0, px_hash_key = 0, px_node = 0, px_cb = None, px_step = 0,
      px_seq = replicate 3 \<lparr>sq_type = 0, sq_pkbuf = None\<rparr>, px_tm_response = None,
      px_response_rcount = 0, px_lag_defer_count = 0, px_tm_holding = None, px_holding_rcount = 0,
      px_tm_delayed_commit = None, px_imsi_bcd = []\<rparr>"

datatype sa_family = AF_INET | AF_INET6 | AF_OTHER

text \<open>An address of a peer: its family and a name for the rest of it.\<close>

record pfcp_addr =
  pa_family :: sa_family
  pa_host :: nat

text \<open>\<open>current_addr\<close> points into \<open>addr_list\<close>; here it is a position of the list.\<close>

record pfcp_node =
  pn_addr_list :: "pfcp_addr list"
  pn_current_addr :: "nat option"
  pn_local_list :: "nat list"
  pn_remote_list :: "nat list"
  pn_xact_hash :: "u64 \<rightharpoonup> nat"

record pfcp_state =
  ps_ready :: bool
  ps_pool :: idpool
  ps_xacts :: "nat \<Rightarrow> pfcp_xact"
  ps_nodes :: "nat \<Rightarrow> pfcp_node"
  ps_tm_avail :: nat
  ps_xact_id :: u32
  ps_sent :: "(nat \<times> pfcp_addr \<times> bytes) list"
  ps_traces :: "(string \<times> bytes) list"
  ps_cbs :: "(nat \<times> nat) list"

text \<open>The surroundings: the thread, the configuration, the lag reported by the registered callback,
  the two sockets (absent, closed or open), the result of the system call, the IMSI filter and the
  thread's trace context, and the expiration callbacks of the network function.\<close>

record pfcp_env =
  pe_worker_self :: "nat option"
  pe_shards_active :: bool
  pe_pool_xact :: nat
  pe_n1_response_rcount :: int
  pe_t1_response_duration :: ogs_time
  pe_n1_holding_rcount :: int
  pe_t1_holding_duration :: ogs_time
  pe_lag_cb :: "ogs_time option"
  pe_sock :: "bool option"
  pe_sock6 :: "bool option"
  pe_os_sent :: "pfcp_addr \<Rightarrow> bytes \<Rightarrow> int"
  pe_trace_filter :: bool
  pe_trace_imsi :: "string option"
  pe_cb :: "nat \<Rightarrow> nat \<Rightarrow> pfcp_state \<Rightarrow> pfcp_state"

definition pxact :: "pfcp_state \<Rightarrow> nat \<Rightarrow> pfcp_xact" where
  "pxact st s = ps_xacts st s"

definition upd_pxact :: "nat \<Rightarrow> (pfcp_xact \<Rightarrow> pfcp_xact) \<Rightarrow> pfcp_state \<Rightarrow> pfcp_state" where
  "upd_pxact s f st = st\<lparr>ps_xacts := (ps_xacts st)(s := f (ps_xacts st s))\<rparr>"

definition upd_pnode :: "nat \<Rightarrow> (pfcp_node \<Rightarrow> pfcp_node) \<Rightarrow> pfcp_state \<Rightarrow> pfcp_state" where
  "upd_pnode g f st = st\<lparr>ps_nodes := (ps_nodes st)(g := f (ps_nodes st g))\<rparr>"

section \<open>Sending and tracing\<close>

text \<open>\<open>ogs_cpystrn\<close> into a buffer of 16 octets.\<close>

definition imsi_copy :: "string \<Rightarrow> string" where
  "imsi_copy s = take 15 s"

definition ogs_pfcp_xact_set_imsi :: "nat \<Rightarrow> string \<Rightarrow> pfcp_state \<Rightarrow> pfcp_state" where
  "ogs_pfcp_xact_set_imsi s imsi st =
     (if imsi = [] then st else upd_pxact s (\<lambda>x. x\<lparr>px_imsi_bcd := imsi_copy imsi\<rparr>) st)"

definition pfcp_xact_trace_tx :: "pfcp_env \<Rightarrow> nat \<Rightarrow> bytes \<Rightarrow> pfcp_state \<Rightarrow> pfcp_state" where
  "pfcp_xact_trace_tx env s pkbuf st =
     (if pkbuf = [] \<or> px_imsi_bcd (pxact st s) = [] \<or> \<not> pe_trace_filter env then st
      else st\<lparr>ps_traces := ps_traces st @ [(px_imsi_bcd (pxact st s), pkbuf)]\<rparr>)"

definition next_addr :: "pfcp_node \<Rightarrow> nat \<Rightarrow> nat" where
  "next_addr n i = (if i + 1 < length (pn_addr_list n) then i + 1 else 0)"

definition ogs_pfcp_sendto :: "pfcp_env \<Rightarrow> nat \<Rightarrow> bytes \<Rightarrow> pfcp_state \<Rightarrow> (ogs_rv \<times> pfcp_state) option" where
  "ogs_pfcp_sendto env g pkbuf st =
     do { let n = ps_nodes st g;
          ogs_assert (pn_addr_list n \<noteq> []);
          let cur = (case pn_current_addr n of None \<Rightarrow> 0 | Some i \<Rightarrow> i);
          let st = upd_pnode g (\<lambda>n. n\<lparr>pn_current_addr := Some cur\<rparr>) st;
          ogs_assert (cur < length (pn_addr_list n));
          let addr = pn_addr_list n ! cur;
          sock \<leftarrow> (case pa_family addr of
                     AF_INET \<Rightarrow> Some (pe_sock env)
                   | AF_INET6 \<Rightarrow> Some (pe_sock6 env)
                   | AF_OTHER \<Rightarrow> None);
          if sock \<noteq> Some True then Some (OGS_ERROR, st)
          else do {
            let sent = pe_os_sent env addr pkbuf;
            let st = st\<lparr>ps_sent := ps_sent st @ [(g, addr, pkbuf)]\<rparr>;
            if sent < 0 \<or> sent \<noteq> int (length pkbuf) then Some (OGS_ERROR, st)
            else Some (OGS_OK, upd_pnode g (\<lambda>n. n\<lparr>pn_current_addr := Some (next_addr n cur)\<rparr>) st) } }"

text \<open>A stored packet leaves: it is dumped for the bound IMSI and sent; a send error is only
  logged.\<close>

definition pfcp_send_stored :: "pfcp_env \<Rightarrow> nat \<Rightarrow> bytes \<Rightarrow> pfcp_state \<Rightarrow> pfcp_state option" where
  "pfcp_send_stored env s pkbuf st =
     do { (rv, st) \<leftarrow> ogs_pfcp_sendto env (px_node (pxact st s)) pkbuf (pfcp_xact_trace_tx env s pkbuf st);
          Some st }"

section \<open>Timers and lists\<close>

definition pfcp_timer_add :: "pfcp_state \<Rightarrow> pfcp_state option" where
  "pfcp_timer_add st =
     (if ps_tm_avail st = 0 then None else Some (st\<lparr>ps_tm_avail := ps_tm_avail st - 1\<rparr>))"

definition pfcp_own_list :: "pfcp_state \<Rightarrow> pfcp_xact \<Rightarrow> nat list" where
  "pfcp_own_list st x =
     (if px_org x = OGS_PFCP_LOCAL_ORIGINATOR then pn_local_list (ps_nodes st (px_node x))
      else pn_remote_list (ps_nodes st (px_node x)))"

definition upd_pfcp_own_list :: "(nat list \<Rightarrow> nat list) \<Rightarrow> pfcp_xact \<Rightarrow> pfcp_state \<Rightarrow> pfcp_state" where
  "upd_pfcp_own_list f x =
     (if px_org x = OGS_PFCP_LOCAL_ORIGINATOR
      then upd_pnode (px_node x) (\<lambda>n. n\<lparr>pn_local_list := f (pn_local_list n)\<rparr>)
      else upd_pnode (px_node x) (\<lambda>n. n\<lparr>pn_remote_list := f (pn_remote_list n)\<rparr>))"

definition pfcp_seq_get :: "pfcp_xact \<Rightarrow> nat \<Rightarrow> xact_seq option" where
  "pfcp_seq_get x i = (if i < length (px_seq x) then Some (px_seq x ! i) else None)"

definition pfcp_seq_last :: "pfcp_xact \<Rightarrow> xact_seq option" where
  "pfcp_seq_last x = (if px_step x = 0 then None else pfcp_seq_get x (px_step x - 1))"

section \<open>Index and ids\<close>

definition pfcp_xact_index_key :: "u8 \<Rightarrow> u32 \<Rightarrow> u64" where
  "pfcp_xact_index_key org xid = push_bit 40 (ucast org) OR ucast xid"

definition pfcp_xact_index_add :: "nat \<Rightarrow> pfcp_state \<Rightarrow> pfcp_state" where
  "pfcp_xact_index_add s st =
     (let x = pxact st s;
          key = pfcp_xact_index_key (px_org x) (px_xid x);
          st = upd_pxact s (\<lambda>x. x\<lparr>px_hash_key := key\<rparr>) st
      in if pn_xact_hash (ps_nodes st (px_node x)) key = None
         then upd_pnode (px_node x) (\<lambda>n. n\<lparr>pn_xact_hash := (pn_xact_hash n)(key \<mapsto> s)\<rparr>) st
         else st)"

definition pfcp_xact_index_del :: "nat \<Rightarrow> pfcp_state \<Rightarrow> pfcp_state" where
  "pfcp_xact_index_del s st =
     (let x = pxact st s
      in if pn_xact_hash (ps_nodes st (px_node x)) (px_hash_key x) = Some s
         then upd_pnode (px_node x) (\<lambda>n. n\<lparr>pn_xact_hash := (pn_xact_hash n)(px_hash_key x := None)\<rparr>) st
         else st)"

definition pfcp_xact_index_get :: "pfcp_state \<Rightarrow> nat \<Rightarrow> u8 \<Rightarrow> u32 \<Rightarrow> nat option" where
  "pfcp_xact_index_get st g org xid = pn_xact_hash (ps_nodes st g) (pfcp_xact_index_key org xid)"

definition pfcp_xact_next_xid :: "pfcp_env \<Rightarrow> pfcp_state \<Rightarrow> u32 \<times> pfcp_state" where
  "pfcp_xact_next_xid env st =
     (if pe_shards_active env
      then let span = drop_bit OGS_WORKER_ID_BITS (PFCP_MAX_XACT_ID - PFCP_MIN_XACT_ID + 1);
               base = of_nat (ogs_worker_self_id (pe_worker_self env)) * span;
               xid = (ps_xact_id st + 1) mod span;
               xid' = (if base + xid < PFCP_MIN_XACT_ID then PFCP_MIN_XACT_ID - base else xid)
           in (base + xid', st\<lparr>ps_xact_id := xid'\<rparr>)
      else let xid = (if ps_xact_id st = PFCP_MAX_XACT_ID then PFCP_MIN_XACT_ID else ps_xact_id st + 1)
           in (xid, st\<lparr>ps_xact_id := xid\<rparr>))"

section \<open>Lookup and initialisation\<close>

definition ogs_pfcp_xact_find_by_id :: "pfcp_state \<Rightarrow> nat \<Rightarrow> nat option" where
  "ogs_pfcp_xact_find_by_id st i = ip_ids (ps_pool st) i"

definition ogs_pfcp_xact_on_list :: "pfcp_state \<Rightarrow> nat \<Rightarrow> bool" where
  "ogs_pfcp_xact_on_list st s \<longleftrightarrow> s \<in> set (pfcp_own_list st (pxact st s))"

definition ogs_pfcp_xact_find_by_id_for_timer :: "pfcp_state \<Rightarrow> nat \<Rightarrow> nat option" where
  "ogs_pfcp_xact_find_by_id_for_timer st i =
     (if \<not> pool_id_ok i then None
      else case ogs_pfcp_xact_find_by_id st i of
             None \<Rightarrow> None
           | Some s \<Rightarrow>
               if px_id (pxact st s) \<noteq> i then None
               else if \<not> ogs_pfcp_xact_on_list st s then None
               else Some s)"

definition ogs_pfcp_xact_init :: "pfcp_env \<Rightarrow> u32 \<Rightarrow> pfcp_state \<Rightarrow> (ogs_rv \<times> pfcp_state) option" where
  "ogs_pfcp_xact_init env ogs_random32 st =
     do { ogs_assert (\<not> ps_ready st);
          Some (OGS_OK,
            st\<lparr>ps_pool := idpool_init (pe_pool_xact env) (ip_id (ps_pool st)),
               ps_xact_id := ogs_random32 mod (PFCP_MAX_XACT_ID - PFCP_MIN_XACT_ID) + PFCP_MIN_XACT_ID,
               ps_ready := True\<rparr>) }"

definition ogs_pfcp_xact_final :: "pfcp_state \<Rightarrow> pfcp_state option" where
  "ogs_pfcp_xact_final st = do { ogs_assert (ps_ready st); Some (st\<lparr>ps_ready := False\<rparr>) }"

section \<open>Deletion\<close>

definition pfcp_timers_delete :: "nat \<Rightarrow> pfcp_state \<Rightarrow> pfcp_state" where
  "pfcp_timers_delete s st =
     (let x = pxact st s
      in upd_pxact s (\<lambda>x. x\<lparr>px_tm_response := None, px_tm_holding := None, px_tm_delayed_commit := None\<rparr>)
           (st\<lparr>ps_tm_avail := ps_tm_avail st + tm_count (px_tm_response x) + tm_count (px_tm_holding x)
                               + tm_count (px_tm_delayed_commit x)\<rparr>))"

definition ogs_pfcp_xact_delete :: "nat \<Rightarrow> pfcp_state \<Rightarrow> (ogs_rv \<times> pfcp_state) option" where
  "ogs_pfcp_xact_delete s st =
     do { let st = pfcp_timers_delete s st;
          let st = pfcp_xact_index_del s st;
          let st = upd_pfcp_own_list (\<lambda>l. list_remove l s) (pxact st s) st;
          pool \<leftarrow> idpool_free (ps_pool st) s (px_id (pxact st s));
          Some (OGS_OK, st\<lparr>ps_pool := pool\<rparr>) }"

fun pfcp_delete_list :: "nat list \<Rightarrow> pfcp_state \<Rightarrow> pfcp_state option" where
  "pfcp_delete_list [] st = Some st"
| "pfcp_delete_list (s # ss) st = do { (rv, st) \<leftarrow> ogs_pfcp_xact_delete s st; pfcp_delete_list ss st }"

definition ogs_pfcp_xact_delete_all :: "nat \<Rightarrow> pfcp_state \<Rightarrow> pfcp_state option" where
  "ogs_pfcp_xact_delete_all g st =
     do { st \<leftarrow> pfcp_delete_list (pn_local_list (ps_nodes st g)) st;
          pfcp_delete_list (pn_remote_list (ps_nodes st g)) st }"

section \<open>Creation\<close>

definition pfcp_create_fail :: "nat \<Rightarrow> pfcp_state \<Rightarrow> (nat option \<times> pfcp_state) option" where
  "pfcp_create_fail s st = do { (rv, st) \<leftarrow> ogs_pfcp_xact_delete s st; Some (None, st) }"

definition pfcp_xact_calloc :: "pfcp_state \<Rightarrow> nat option \<times> pfcp_state" where
  "pfcp_xact_calloc st =
     (case idpool_calloc (ps_pool st) of
        (None, pool) \<Rightarrow> (None, st\<lparr>ps_pool := pool\<rparr>)
      | (Some (s, i), pool) \<Rightarrow>
          (Some s, upd_pxact s (\<lambda>_. pfcp_xact_zero\<lparr>px_id := i\<rparr>) (st\<lparr>ps_pool := pool\<rparr>)))"

definition pfcp_add_response :: "pfcp_env \<Rightarrow> nat \<Rightarrow> pfcp_state \<Rightarrow> pfcp_state option" where
  "pfcp_add_response env s st =
     map_option (upd_pxact s (\<lambda>x. x\<lparr>px_tm_response := Some Tm_Idle,
         px_response_rcount := of_int (pe_n1_response_rcount env)\<rparr>)) (pfcp_timer_add st)"

definition pfcp_add_holding :: "pfcp_env \<Rightarrow> nat \<Rightarrow> pfcp_state \<Rightarrow> pfcp_state option" where
  "pfcp_add_holding env s st =
     map_option (upd_pxact s (\<lambda>x. x\<lparr>px_tm_holding := Some Tm_Idle,
         px_holding_rcount := of_int (pe_n1_holding_rcount env)\<rparr>)) (pfcp_timer_add st)"

definition pfcp_add_delayed :: "nat \<Rightarrow> pfcp_state \<Rightarrow> pfcp_state option" where
  "pfcp_add_delayed s st =
     map_option (upd_pxact s (\<lambda>x. x\<lparr>px_tm_delayed_commit := Some Tm_Idle\<rparr>)) (pfcp_timer_add st)"

definition pfcp_xact_link :: "nat \<Rightarrow> pfcp_state \<Rightarrow> pfcp_state" where
  "pfcp_xact_link s st = pfcp_xact_index_add s (upd_pfcp_own_list (\<lambda>l. l @ [s]) (pxact st s) st)"

text \<open>The common part of both creating functions, from the first timer on.\<close>

definition pfcp_create_timers :: "pfcp_env \<Rightarrow> nat \<Rightarrow> pfcp_state \<Rightarrow> (nat option \<times> pfcp_state) option" where
  "pfcp_create_timers env s st =
     (case pfcp_add_response env s st of
        None \<Rightarrow> pfcp_create_fail s st
      | Some st \<Rightarrow>
          (case pfcp_add_holding env s st of
             None \<Rightarrow> pfcp_create_fail s st
           | Some st \<Rightarrow>
               (case pfcp_add_delayed s st of
                  None \<Rightarrow> pfcp_create_fail s st
                | Some st \<Rightarrow> Some (Some s, pfcp_xact_link s st))))"

definition ogs_pfcp_xact_local_create ::
    "pfcp_env \<Rightarrow> nat \<Rightarrow> nat option \<Rightarrow> pfcp_state \<Rightarrow> (nat option \<times> pfcp_state) option" where
  "ogs_pfcp_xact_local_create env g cb st =
     (case pfcp_xact_calloc st of
        (None, st) \<Rightarrow> Some (None, st)
      | (Some s, st) \<Rightarrow>
          let (xid, st) = pfcp_xact_next_xid env st
          in pfcp_create_timers env s
               (upd_pxact s (\<lambda>x. x\<lparr>px_org := OGS_PFCP_LOCAL_ORIGINATOR, px_xid := xid, px_node := g,
                  px_cb := cb\<rparr>) st))"

definition ogs_pfcp_xact_remote_create ::
    "pfcp_env \<Rightarrow> nat \<Rightarrow> u32 \<Rightarrow> pfcp_state \<Rightarrow> (nat option \<times> pfcp_state) option" where
  "ogs_pfcp_xact_remote_create env g sqn st =
     (case pfcp_xact_calloc st of
        (None, st) \<Rightarrow> Some (None, st)
      | (Some s, st) \<Rightarrow>
          pfcp_create_timers env s
            (upd_pxact s (\<lambda>x. x\<lparr>px_org := OGS_PFCP_REMOTE_ORIGINATOR, px_xid := OGS_PFCP_SQN_TO_XID sqn,
               px_node := g\<rparr>) st))"

section \<open>Transmit\<close>

definition pfcp_tx_allowed :: "u8 \<Rightarrow> pfcp_xact_stage \<Rightarrow> nat \<Rightarrow> bool option" where
  "pfcp_tx_allowed org stage step =
     (if org = OGS_PFCP_LOCAL_ORIGINATOR
      then (case stage of
              PFCP_XACT_INITIAL_STAGE \<Rightarrow> Some (step = 0)
            | PFCP_XACT_INTERMEDIATE_STAGE \<Rightarrow> Some False
            | PFCP_XACT_FINAL_STAGE \<Rightarrow> Some (step = 2)
            | PFCP_XACT_UNKNOWN_STAGE \<Rightarrow> None)
      else if org = OGS_PFCP_REMOTE_ORIGINATOR
      then (case stage of
              PFCP_XACT_INITIAL_STAGE \<Rightarrow> Some False
            | PFCP_XACT_INTERMEDIATE_STAGE \<Rightarrow> Some (step = 1)
            | PFCP_XACT_FINAL_STAGE \<Rightarrow> Some (step = 1)
            | PFCP_XACT_UNKNOWN_STAGE \<Rightarrow> Some False)
      else Some False)"

definition ogs_pfcp_xact_update_tx ::
    "nat \<Rightarrow> pfcp_hdesc \<Rightarrow> bytes \<Rightarrow> pfcp_state \<Rightarrow> (ogs_rv \<times> pfcp_state) option" where
  "ogs_pfcp_xact_update_tx s hdesc pkbuf st =
     do { let x = pxact st s;
          let stage = ogs_pfcp_xact_get_stage (pd_type hdesc) (px_xid x);
          allowed \<leftarrow> pfcp_tx_allowed (px_org x) stage (px_step x);
          if \<not> allowed then Some (OGS_ERROR, st)
          else do {
            ogs_assert (px_step x < length (px_seq x));
            let pkbuf = pfcp_push_header hdesc (px_xid x) pkbuf;
            Some (OGS_OK,
              upd_pxact s (\<lambda>x. x\<lparr>px_seq := (px_seq x)[px_step x := \<lparr>sq_type = pd_type hdesc, sq_pkbuf = Some pkbuf\<rparr>],
                                 px_step := px_step x + 1\<rparr>) st) } }"

section \<open>Receive steps\<close>

definition pfcp_start_holding :: "pfcp_env \<Rightarrow> nat \<Rightarrow> pfcp_state \<Rightarrow> pfcp_state option" where
  "pfcp_start_holding env s st =
     do { t \<leftarrow> tm_start (px_tm_holding (pxact st s)) (pe_t1_holding_duration env);
          Some (upd_pxact s (\<lambda>x. x\<lparr>px_tm_holding := t\<rparr>) st) }"

definition pfcp_rx_duplicate :: "pfcp_env \<Rightarrow> nat \<Rightarrow> nat \<Rightarrow> pfcp_state \<Rightarrow> (ogs_rv \<times> pfcp_state) option" where
  "pfcp_rx_duplicate env s k st =
     do { sq \<leftarrow> pfcp_seq_get (pxact st s) k;
          case sq_pkbuf sq of
            None \<Rightarrow> Some (OGS_RETRY, st)
          | Some pkbuf \<Rightarrow>
              do { st \<leftarrow> pfcp_start_holding env s st;
                   st \<leftarrow> pfcp_send_stored env s pkbuf st;
                   Some (OGS_RETRY, st) } }"

definition pfcp_rx_accept :: "nat \<Rightarrow> u8 \<Rightarrow> pfcp_state \<Rightarrow> (ogs_rv \<times> pfcp_state) option" where
  "pfcp_rx_accept s type st =
     do { let x = pxact st s;
          ogs_assert (px_step x < length (px_seq x));
          Some (OGS_OK,
            upd_pxact s (\<lambda>x. x\<lparr>px_tm_response := tm_stop (px_tm_response x),
              px_seq := (px_seq x)[px_step x := (px_seq x ! px_step x)\<lparr>sq_type := type\<rparr>],
              px_step := px_step x + 1\<rparr>) st) }"

text \<open>Whether a response answers the request of the transaction: its type is the type of the
  request plus one, computed without wrap-around.\<close>

definition pfcp_answers :: "u8 \<Rightarrow> u8 \<Rightarrow> bool" where
  "pfcp_answers req type \<longleftrightarrow>
     type = OGS_PFCP_VERSION_NOT_SUPPORTED_RESPONSE_TYPE \<or> unat req + 1 = unat type"

definition ogs_pfcp_xact_update_rx ::
    "pfcp_env \<Rightarrow> nat \<Rightarrow> u8 \<Rightarrow> pfcp_state \<Rightarrow> (ogs_rv \<times> pfcp_state) option" where
  "ogs_pfcp_xact_update_rx env s type st =
     (let x = pxact st s; stage = ogs_pfcp_xact_get_stage type (px_xid x)
      in if px_org x = OGS_PFCP_LOCAL_ORIGINATOR
         then (case stage of
                 PFCP_XACT_INITIAL_STAGE \<Rightarrow> Some (OGS_ERROR, st)
               | PFCP_XACT_INTERMEDIATE_STAGE \<Rightarrow>
                   do { sq \<leftarrow> pfcp_seq_get x 1;
                        if sq_type sq = type
                        then (if px_step x \<noteq> 2 \<and> px_step x \<noteq> 3 then Some (OGS_ERROR, st)
                              else pfcp_rx_duplicate env s 2 st)
                        else if px_step x \<noteq> 1 then Some (OGS_ERROR, st)
                        else do { st \<leftarrow> pfcp_start_holding env s st; pfcp_rx_accept s type st } }
               | PFCP_XACT_FINAL_STAGE \<Rightarrow>
                   if px_step x \<noteq> 1 then Some (OGS_ERROR, st)
                   else do { sq \<leftarrow> pfcp_seq_get x 0;
                             if \<not> pfcp_answers (sq_type sq) type then Some (OGS_RETRY, st)
                             else pfcp_rx_accept s type st }
               | PFCP_XACT_UNKNOWN_STAGE \<Rightarrow> Some (OGS_ERROR, st))
         else if px_org x = OGS_PFCP_REMOTE_ORIGINATOR
         then (case stage of
                 PFCP_XACT_INITIAL_STAGE \<Rightarrow>
                   do { sq \<leftarrow> pfcp_seq_get x 0;
                        if sq_type sq = type
                        then (if px_step x \<noteq> 1 \<and> px_step x \<noteq> 2 then Some (OGS_ERROR, st)
                              else pfcp_rx_duplicate env s 1 st)
                        else if px_step x \<noteq> 0 then Some (OGS_ERROR, st)
                        else do { st \<leftarrow> pfcp_start_holding env s st; pfcp_rx_accept s type st } }
               | PFCP_XACT_INTERMEDIATE_STAGE \<Rightarrow> Some (OGS_ERROR, st)
               | PFCP_XACT_FINAL_STAGE \<Rightarrow>
                   if px_step x \<noteq> 2 then Some (OGS_ERROR, st) else pfcp_rx_accept s type st
               | PFCP_XACT_UNKNOWN_STAGE \<Rightarrow> Some (OGS_ERROR, st))
         else Some (OGS_ERROR, st))"

section \<open>Commit\<close>

definition pfcp_commit_end :: "nat \<Rightarrow> ogs_rv \<Rightarrow> pfcp_state \<Rightarrow> (ogs_rv \<times> pfcp_state) option" where
  "pfcp_commit_end s rv st = do { (_, st) \<leftarrow> ogs_pfcp_xact_delete s st; Some (rv, st) }"

definition pfcp_start_response :: "pfcp_env \<Rightarrow> nat \<Rightarrow> pfcp_state \<Rightarrow> pfcp_state option" where
  "pfcp_start_response env s st =
     do { t \<leftarrow> tm_start (px_tm_response (pxact st s)) (pe_t1_response_duration env);
          Some (upd_pxact s (\<lambda>x. x\<lparr>px_tm_response := t\<rparr>) st) }"

definition pfcp_commit_send :: "pfcp_env \<Rightarrow> nat \<Rightarrow> pfcp_state \<Rightarrow> (ogs_rv \<times> pfcp_state) option" where
  "pfcp_commit_send env s st =
     do { sq \<leftarrow> pfcp_seq_last (pxact st s);
          pkbuf \<leftarrow> sq_pkbuf sq;
          st \<leftarrow> pfcp_send_stored env s pkbuf st;
          Some (OGS_OK, st) }"

text \<open>A session message of a transaction without an IMSI inherits the IMSI of the thread.\<close>

definition pfcp_inherit_imsi :: "pfcp_env \<Rightarrow> nat \<Rightarrow> u8 \<Rightarrow> pfcp_state \<Rightarrow> pfcp_state" where
  "pfcp_inherit_imsi env s type st =
     (if px_imsi_bcd (pxact st s) = [] \<and> type \<notin> set pfcp_node_types
      then (case pe_trace_imsi env of
              None \<Rightarrow> st
            | Some imsi \<Rightarrow> if imsi = [] then st
                           else upd_pxact s (\<lambda>x. x\<lparr>px_imsi_bcd := imsi_copy imsi\<rparr>) st)
      else st)"

definition ogs_pfcp_xact_commit :: "pfcp_env \<Rightarrow> nat \<Rightarrow> pfcp_state \<Rightarrow> (ogs_rv \<times> pfcp_state) option" where
  "ogs_pfcp_xact_commit env s st =
     do { sq \<leftarrow> pfcp_seq_last (pxact st s);
          let st = pfcp_inherit_imsi env s (sq_type sq) st;
          let x = pxact st s;
          let stage = ogs_pfcp_xact_get_stage (sq_type sq) (px_xid x);
          if px_org x = OGS_PFCP_LOCAL_ORIGINATOR
          then (case stage of
                  PFCP_XACT_INITIAL_STAGE \<Rightarrow>
                    if px_step x \<noteq> 1 then pfcp_commit_end s OGS_ERROR st
                    else do { st \<leftarrow> pfcp_start_response env s st; pfcp_commit_send env s st }
                | PFCP_XACT_INTERMEDIATE_STAGE \<Rightarrow> pfcp_commit_end s OGS_ERROR st
                | PFCP_XACT_FINAL_STAGE \<Rightarrow>
                    if px_step x \<noteq> 2 \<and> px_step x \<noteq> 3 then pfcp_commit_end s OGS_ERROR st
                    else if px_step x = 2 then pfcp_commit_end s OGS_OK st
                    else pfcp_commit_send env s st
                | PFCP_XACT_UNKNOWN_STAGE \<Rightarrow> pfcp_commit_end s OGS_ERROR st)
          else if px_org x = OGS_PFCP_REMOTE_ORIGINATOR
          then (case stage of
                  PFCP_XACT_INITIAL_STAGE \<Rightarrow> pfcp_commit_end s OGS_ERROR st
                | PFCP_XACT_INTERMEDIATE_STAGE \<Rightarrow>
                    if px_step x \<noteq> 2 then pfcp_commit_end s OGS_ERROR st
                    else do { st \<leftarrow> pfcp_start_response env s st; pfcp_commit_send env s st }
                | PFCP_XACT_FINAL_STAGE \<Rightarrow>
                    if px_step x \<noteq> 2 \<and> px_step x \<noteq> 3 then pfcp_commit_end s OGS_ERROR st
                    else if px_step x = 3 then pfcp_commit_end s OGS_OK st
                    else pfcp_commit_send env s st
                | PFCP_XACT_UNKNOWN_STAGE \<Rightarrow> pfcp_commit_end s OGS_ERROR st)
          else pfcp_commit_end s OGS_ERROR st }"

definition ogs_pfcp_xact_delayed_commit :: "nat \<Rightarrow> ogs_time \<Rightarrow> pfcp_state \<Rightarrow> pfcp_state option" where
  "ogs_pfcp_xact_delayed_commit s duration st =
     do { ogs_assert (duration \<noteq> 0);
          ogs_assert (px_tm_delayed_commit (pxact st s) \<noteq> None);
          t \<leftarrow> tm_start (px_tm_delayed_commit (pxact st s)) duration;
          Some (upd_pxact s (\<lambda>x. x\<lparr>px_tm_delayed_commit := t\<rparr>) st) }"

section \<open>Timeouts\<close>

definition OGS_PFCP_XACT_LAG_DEFER_THRESHOLD :: ogs_time where
  "OGS_PFCP_XACT_LAG_DEFER_THRESHOLD = 1500 * 1000"

definition OGS_PFCP_XACT_LAG_DEFER_INTERVAL :: ogs_time where
  "OGS_PFCP_XACT_LAG_DEFER_INTERVAL = 1000 * 1000"

definition OGS_PFCP_XACT_LAG_MAX_DEFER :: u8 where
  "OGS_PFCP_XACT_LAG_MAX_DEFER = 8"

definition pfcp_xact_response_lag_defer :: "pfcp_env \<Rightarrow> nat \<Rightarrow> pfcp_state \<Rightarrow> (bool \<times> pfcp_state) option" where
  "pfcp_xact_response_lag_defer env s st =
     (let x = pxact st s
      in case (pe_lag_cb env, px_tm_response x) of
           (Some lag, Some _) \<Rightarrow>
             if lag < OGS_PFCP_XACT_LAG_DEFER_THRESHOLD then Some (False, st)
             else if px_lag_defer_count x \<ge> OGS_PFCP_XACT_LAG_MAX_DEFER then Some (False, st)
             else do {
               t \<leftarrow> tm_start (px_tm_response x) OGS_PFCP_XACT_LAG_DEFER_INTERVAL;
               Some (True, upd_pxact s (\<lambda>x. x\<lparr>px_lag_defer_count := px_lag_defer_count x + 1,
                                               px_tm_response := t\<rparr>) st) }
         | _ \<Rightarrow> Some (False, st))"

definition pfcp_response_timeout :: "pfcp_env \<Rightarrow> nat \<Rightarrow> pfcp_state \<Rightarrow> pfcp_state option" where
  "pfcp_response_timeout env xact_id st =
     do { ogs_assert (pool_id_ok xact_id);
          case ogs_pfcp_xact_find_by_id_for_timer st xact_id of
            None \<Rightarrow> Some st
          | Some s \<Rightarrow>
              do { (deferred, st) \<leftarrow> pfcp_xact_response_lag_defer env s st;
                   if deferred then Some st
                   else do {
                     let st = upd_pxact s (\<lambda>x. x\<lparr>px_response_rcount := px_response_rcount x - 1\<rparr>) st;
                     if px_response_rcount (pxact st s) > 0
                     then do {
                       st \<leftarrow> pfcp_start_response env s st;
                       sq \<leftarrow> pfcp_seq_last (pxact st s);
                       pkbuf \<leftarrow> sq_pkbuf sq;
                       pfcp_send_stored env s pkbuf st }
                     else do {
                       let st = (case px_cb (pxact st s) of
                                   None \<Rightarrow> st
                                 | Some c \<Rightarrow> pe_cb env c s (st\<lparr>ps_cbs := ps_cbs st @ [(c, xact_id)]\<rparr>));
                       (_, st) \<leftarrow> ogs_pfcp_xact_delete s st;
                       Some st } } } }"

definition pfcp_holding_timeout :: "pfcp_env \<Rightarrow> nat \<Rightarrow> pfcp_state \<Rightarrow> pfcp_state option" where
  "pfcp_holding_timeout env xact_id st =
     do { ogs_assert (pool_id_ok xact_id);
          case ogs_pfcp_xact_find_by_id_for_timer st xact_id of
            None \<Rightarrow> Some st
          | Some s \<Rightarrow>
              let st = upd_pxact s (\<lambda>x. x\<lparr>px_holding_rcount := px_holding_rcount x - 1\<rparr>) st
              in if px_holding_rcount (pxact st s) > 0 then pfcp_start_holding env s st
                 else map_option snd (ogs_pfcp_xact_delete s st) }"

definition delayed_commit_timeout :: "pfcp_env \<Rightarrow> nat \<Rightarrow> pfcp_state \<Rightarrow> pfcp_state option" where
  "delayed_commit_timeout env xact_id st =
     do { ogs_assert (pool_id_ok xact_id);
          case ogs_pfcp_xact_find_by_id_for_timer st xact_id of
            None \<Rightarrow> Some st
          | Some s \<Rightarrow> map_option snd (ogs_pfcp_xact_commit env s st) }"

section \<open>Receive\<close>

definition pfcp_rx_local :: "pfcp_xact_stage \<Rightarrow> bool option" where
  "pfcp_rx_local stage =
     (case stage of
        PFCP_XACT_INITIAL_STAGE \<Rightarrow> Some False
      | PFCP_XACT_INTERMEDIATE_STAGE \<Rightarrow> Some True
      | PFCP_XACT_FINAL_STAGE \<Rightarrow> Some True
      | PFCP_XACT_UNKNOWN_STAGE \<Rightarrow> None)"

definition pfcp_sel_list :: "pfcp_state \<Rightarrow> nat \<Rightarrow> bool \<Rightarrow> nat list" where
  "pfcp_sel_list st g l = (if l then pn_local_list (ps_nodes st g) else pn_remote_list (ps_nodes st g))"

definition pfcp_sel_org :: "bool \<Rightarrow> u8" where
  "pfcp_sel_org l = (if l then OGS_PFCP_LOCAL_ORIGINATOR else OGS_PFCP_REMOTE_ORIGINATOR)"

definition pfcp_xact_scan :: "pfcp_state \<Rightarrow> nat \<Rightarrow> bool \<Rightarrow> u32 \<Rightarrow> nat option" where
  "pfcp_xact_scan st g l xid = find (\<lambda>s. px_xid (pxact st s) = xid) (pfcp_sel_list st g l)"

definition pfcp_xact_lookup :: "pfcp_state \<Rightarrow> nat \<Rightarrow> bool \<Rightarrow> u32 \<Rightarrow> nat option" where
  "pfcp_xact_lookup st g l xid =
     (case pfcp_xact_index_get st g (pfcp_sel_org l) xid of
        Some s \<Rightarrow> if px_xid (pxact st s) \<noteq> xid then pfcp_xact_scan st g l xid else Some s
      | None \<Rightarrow> pfcp_xact_scan st g l xid)"

definition ogs_pfcp_xact_receive ::
    "pfcp_env \<Rightarrow> nat \<Rightarrow> pfcp_header \<Rightarrow> pfcp_state \<Rightarrow> (ogs_rv \<times> nat option \<times> pfcp_state) option" where
  "ogs_pfcp_xact_receive env g h st =
     (let type = ph_type h;
          sqn = ph_sqn h;
          xid = OGS_PFCP_SQN_TO_XID sqn;
          stage = ogs_pfcp_xact_get_stage type xid
      in case pfcp_rx_local stage of
           None \<Rightarrow> Some (OGS_ERROR, None, st)
         | Some l \<Rightarrow>
             do { (r, st) \<leftarrow> (case pfcp_xact_lookup st g l xid of
                                Some s \<Rightarrow> Some (Some s, st)
                              | None \<Rightarrow> ogs_pfcp_xact_remote_create env g sqn st);
                  s \<leftarrow> r;
                  (rv, st) \<leftarrow> ogs_pfcp_xact_update_rx env s type st;
                  if rv = OGS_ERROR
                  then do { (_, st) \<leftarrow> ogs_pfcp_xact_delete s st; Some (rv, None, st) }
                  else if rv = OGS_RETRY then Some (rv, None, st)
                  else Some (rv, Some s, st) })"

end
