(* ===== verification/Pfcp_Xact_Inv.thy ===== *)
theory Pfcp_Xact_Inv
  imports Pfcp_Xact
begin

text \<open>
  The invariant of the PFCP transaction layer. The layer refines the abstract transaction table of
  \<open>Xact_Table\<close>: linking a new transaction is \<^const>\<open>xt_add\<close>, deletion is \<^const>\<open>xt_del\<close>, and every
  other operation leaves the table alone and works on one transaction (\<open>pframe\<close>).
\<close>

section \<open>Field access\<close>

lemma upd_pxact_fields [simp, state_simps]:
  "ps_ready (upd_pxact s f st) = ps_ready st" "ps_pool (upd_pxact s f st) = ps_pool st"
  "ps_nodes (upd_pxact s f st) = ps_nodes st" "ps_tm_avail (upd_pxact s f st) = ps_tm_avail st"
  "ps_xact_id (upd_pxact s f st) = ps_xact_id st" "ps_sent (upd_pxact s f st) = ps_sent st"
  "ps_traces (upd_pxact s f st) = ps_traces st" "ps_cbs (upd_pxact s f st) = ps_cbs st"
  "pxact (upd_pxact s f st) t = (if t = s then f (pxact st s) else pxact st t)"
  by (simp_all add: upd_pxact_def pxact_def)

lemma upd_pnode_fields [simp, state_simps]:
  "ps_ready (upd_pnode g f st) = ps_ready st" "ps_pool (upd_pnode g f st) = ps_pool st"
  "ps_nodes (upd_pnode g f st) = (ps_nodes st)(g := f (ps_nodes st g))"
  "ps_tm_avail (upd_pnode g f st) = ps_tm_avail st"
  "ps_xact_id (upd_pnode g f st) = ps_xact_id st" "ps_sent (upd_pnode g f st) = ps_sent st"
  "ps_traces (upd_pnode g f st) = ps_traces st" "ps_cbs (upd_pnode g f st) = ps_cbs st"
  "pxact (upd_pnode g f st) t = pxact st t"
  by (simp_all add: upd_pnode_def pxact_def)

lemma pxact_fields [simp, state_simps]:
  "pxact (st\<lparr>ps_pool := p\<rparr>) t = pxact st t" "pxact (st\<lparr>ps_tm_avail := n\<rparr>) t = pxact st t"
  "pxact (st\<lparr>ps_xact_id := i\<rparr>) t = pxact st t" "pxact (st\<lparr>ps_sent := l\<rparr>) t = pxact st t"
  "pxact (st\<lparr>ps_cbs := c\<rparr>) t = pxact st t" "pxact (st\<lparr>ps_traces := tr\<rparr>) t = pxact st t"
  by (simp_all add: pxact_def)

lemma pfcp_orgs_differ [simp]:
  "OGS_PFCP_LOCAL_ORIGINATOR \<noteq> OGS_PFCP_REMOTE_ORIGINATOR" "OGS_PFCP_REMOTE_ORIGINATOR \<noteq> OGS_PFCP_LOCAL_ORIGINATOR"
  by (simp_all add: OGS_PFCP_LOCAL_ORIGINATOR_def OGS_PFCP_REMOTE_ORIGINATOR_def)

section \<open>The table of a state\<close>

definition ptab :: "pfcp_state \<Rightarrow> xtab" where
  "ptab st =
     \<lparr>xt_pool = ps_pool st, xt_id = (\<lambda>s. px_id (pxact st s)), xt_peer = (\<lambda>s. px_node (pxact st s)),
      xt_org = (\<lambda>s. px_org (pxact st s) = OGS_PFCP_LOCAL_ORIGINATOR), xt_key = (\<lambda>s. px_hash_key (pxact st s)),
      xt_list = pfcp_sel_list st, xt_index = (\<lambda>g. pn_xact_hash (ps_nodes st g))\<rparr>"

lemma ptab_fields [simp]:
  "xt_pool (ptab st) = ps_pool st" "xt_id (ptab st) s = px_id (pxact st s)"
  "xt_peer (ptab st) s = px_node (pxact st s)"
  "xt_org (ptab st) s \<longleftrightarrow> px_org (pxact st s) = OGS_PFCP_LOCAL_ORIGINATOR"
  "xt_key (ptab st) s = px_hash_key (pxact st s)" "xt_list (ptab st) = pfcp_sel_list st"
  "xt_index (ptab st) g = pn_xact_hash (ps_nodes st g)"
  by (simp_all add: ptab_def)

abbreviation plive :: "pfcp_state \<Rightarrow> nat \<Rightarrow> bool" where
  "plive st s \<equiv> xt_used (ptab st) s"

section \<open>Well-formed transactions and nodes\<close>

definition pxact_ok :: "pfcp_xact \<Rightarrow> bool" where
  "pxact_ok x \<longleftrightarrow> length (px_seq x) = 3 \<and> px_step x \<le> 3
     \<and> (px_org x = OGS_PFCP_LOCAL_ORIGINATOR \<or> px_org x = OGS_PFCP_REMOTE_ORIGINATOR)
     \<and> px_hash_key x = pfcp_xact_index_key (px_org x) (px_xid x)
     \<and> (px_org x = OGS_PFCP_LOCAL_ORIGINATOR \<and> 1 \<le> px_step x \<longrightarrow> sq_pkbuf (px_seq x ! 0) \<noteq> None)
     \<and> (px_org x = OGS_PFCP_LOCAL_ORIGINATOR \<and> px_step x = 3 \<longrightarrow> sq_pkbuf (px_seq x ! 2) \<noteq> None)
     \<and> (px_org x = OGS_PFCP_REMOTE_ORIGINATOR \<and> 2 \<le> px_step x \<longrightarrow> sq_pkbuf (px_seq x ! 1) \<noteq> None)
     \<and> (\<forall>d. px_tm_response x = Some (Tm_Running d) \<longrightarrow>
          (px_org x = OGS_PFCP_LOCAL_ORIGINATOR \<and> px_step x = 1)
          \<or> (px_org x = OGS_PFCP_REMOTE_ORIGINATOR \<and> px_step x = 2))
     \<and> (\<forall>d. px_tm_delayed_commit x = Some (Tm_Running d) \<longrightarrow> 1 \<le> px_step x)
     \<and> px_tm_response x \<noteq> None \<and> px_tm_holding x \<noteq> None \<and> px_tm_delayed_commit x \<noteq> None"

definition pnode_ok :: "pfcp_node \<Rightarrow> bool" where
  "pnode_ok n \<longleftrightarrow> pn_addr_list n \<noteq> [] \<and> (\<forall>a \<in> set (pn_addr_list n). pa_family a \<noteq> AF_OTHER)
     \<and> (\<forall>i. pn_current_addr n = Some i \<longrightarrow> i < length (pn_addr_list n))"

definition pinv :: "pfcp_state \<Rightarrow> bool" where
  "pinv st \<longleftrightarrow> xt_inv (ptab st) \<and> (\<forall>s. plive st s \<longrightarrow> pxact_ok (pxact st s))
     \<and> (\<forall>g. pnode_ok (ps_nodes st g))"

text \<open>The timers in the pool and the three of every transaction in use.\<close>

definition ptimer_total :: "pfcp_state \<Rightarrow> nat" where
  "ptimer_total st = ps_tm_avail st + 3 * (ip_size (ps_pool st) - length (ip_free (ps_pool st)))"

lemma pinvD:
  assumes "pinv st"
  shows "xt_inv (ptab st)" "plive st s \<Longrightarrow> pxact_ok (pxact st s)" "pnode_ok (ps_nodes st g)"
  using assms by (simp_all add: pinv_def)

lemma plive_find: "pinv st \<Longrightarrow> ogs_pfcp_xact_find_by_id st i = Some s \<longleftrightarrow> plive st s \<and> px_id (pxact st s) = i"
  using xt_used_id [OF pinvD(1), of st i s] by (simp add: ogs_pfcp_xact_find_by_id_def)

section \<open>Operations on one transaction\<close>

text \<open>The table, the other transactions, the timer pool and the callback log stay as they are;
  of the nodes only the position of the round robin may move.\<close>

definition pframe :: "nat \<Rightarrow> pfcp_state \<Rightarrow> pfcp_state \<Rightarrow> bool" where
  "pframe s st st' \<longleftrightarrow> ptab st' = ptab st \<and> (\<forall>t. t \<noteq> s \<longrightarrow> pxact st' t = pxact st t)
     \<and> ps_tm_avail st' = ps_tm_avail st \<and> ps_cbs st' = ps_cbs st
     \<and> (\<forall>g. pnode_ok (ps_nodes st g) \<longrightarrow> pnode_ok (ps_nodes st' g))
     \<and> px_xid (pxact st' s) = px_xid (pxact st s) \<and> px_org (pxact st' s) = px_org (pxact st s)
     \<and> px_cb (pxact st' s) = px_cb (pxact st s)"

lemma pframe_refl [simp]: "pframe s st st"
  by (simp add: pframe_def)

lemma pframe_trans: "pframe s a b \<Longrightarrow> pframe s b c \<Longrightarrow> pframe s a c"
  by (simp add: pframe_def)

lemma pframeD:
  assumes "pframe s st st'"
  shows "ptab st' = ptab st" "t \<noteq> s \<Longrightarrow> pxact st' t = pxact st t" "ps_tm_avail st' = ps_tm_avail st"
    "ps_cbs st' = ps_cbs st" "px_xid (pxact st' s) = px_xid (pxact st s)"
    "px_org (pxact st' s) = px_org (pxact st s)" "ps_pool st' = ps_pool st"
    "px_id (pxact st' t) = px_id (pxact st t)" "px_node (pxact st' t) = px_node (pxact st t)"
    "px_cb (pxact st' s) = px_cb (pxact st s)"
proof -
  show t: "ptab st' = ptab st" using assms by (simp add: pframe_def)
  show "t \<noteq> s \<Longrightarrow> pxact st' t = pxact st t" "ps_tm_avail st' = ps_tm_avail st" "ps_cbs st' = ps_cbs st"
    "px_xid (pxact st' s) = px_xid (pxact st s)" "px_org (pxact st' s) = px_org (pxact st s)"
    "px_cb (pxact st' s) = px_cb (pxact st s)"
    using assms by (simp_all add: pframe_def)
  show "ps_pool st' = ps_pool st" "px_id (pxact st' t) = px_id (pxact st t)" "px_node (pxact st' t) = px_node (pxact st t)"
    using arg_cong [OF t, of xt_pool] fun_cong [OF arg_cong [OF t, of xt_id], of t]
      fun_cong [OF arg_cong [OF t, of xt_peer], of t] by simp_all
qed

lemma pframe_inv [inv_intros]:
  assumes "pframe s st st'" "pinv st" "plive st s \<Longrightarrow> pxact_ok (pxact st' s)"
  shows "pinv st'" "ptimer_total st' = ptimer_total st"
proof -
  note f = pframeD [OF assms(1)]
  have "pxact_ok (pxact st' t)" if "plive st t" for t
    using that f(2) [of t] assms(3) pinvD(2) [OF assms(2), of t] by (cases "t = s") simp_all
  moreover have "pnode_ok (ps_nodes st' g)" for g using assms(1) pinvD(3) [OF assms(2), of g] by (simp add: pframe_def)
  ultimately show "pinv st'" using pinvD(1) [OF assms(2)] by (simp add: pinv_def f(1))
  show "ptimer_total st' = ptimer_total st" by (simp add: ptimer_total_def f(3,7))
qed

text \<open>Two transactions that agree on what the table knows about them, on the id and on the callback.\<close>

definition same_pxact :: "pfcp_xact \<Rightarrow> pfcp_xact \<Rightarrow> bool" where
  "same_pxact x y \<longleftrightarrow> px_id x = px_id y \<and> px_org x = px_org y \<and> px_xid x = px_xid y
     \<and> px_hash_key x = px_hash_key y \<and> px_node x = px_node y \<and> px_cb x = px_cb y"

lemma pframe_upd:
  assumes "same_pxact (pxact st s) (f (pxact st s))"
  shows "pframe s st (upd_pxact s f st)"
proof -
  have "ptab (upd_pxact s f st) = ptab st"
    using assms by (auto simp: ptab_def same_pxact_def pfcp_sel_list_def fun_eq_iff)
  then show ?thesis using assms by (simp add: pframe_def same_pxact_def)
qed

lemma pframe_logs [simp]:
  "pframe s st (st\<lparr>ps_sent := l\<rparr>)" "pframe s st (st\<lparr>ps_traces := tr\<rparr>)"
  by (simp_all add: pframe_def ptab_def pfcp_sel_list_def fun_eq_iff)

lemma pframe_current:
  assumes "i < length (pn_addr_list (ps_nodes st g))"
  shows "pframe s st (upd_pnode g (\<lambda>n. n\<lparr>pn_current_addr := Some i\<rparr>) st)"
  using assms by (auto simp: pframe_def ptab_def pfcp_sel_list_def pnode_ok_def fun_eq_iff)

section \<open>Sending\<close>

lemma next_addr_less: "pn_addr_list n \<noteq> [] \<Longrightarrow> next_addr n i < length (pn_addr_list n)"
  by (simp add: next_addr_def)

lemma sendto_total:
  assumes ok: "pnode_ok (ps_nodes st g)"
  obtains rv st' where "ogs_pfcp_sendto env g pkbuf st = Some (rv, st')" "pframe s st st'"
    "\<forall>t. pxact st' t = pxact st t" "ps_traces st' = ps_traces st"
proof -
  let ?n = "ps_nodes st g"
  define cur where "cur = (case pn_current_addr ?n of None \<Rightarrow> 0 | Some i \<Rightarrow> i)"
  have cur: "cur < length (pn_addr_list ?n)" "pn_addr_list ?n \<noteq> []"
    using ok by (auto simp: cur_def pnode_ok_def split: option.split)
  define st1 where "st1 = upd_pnode g (\<lambda>n. n\<lparr>pn_current_addr := Some cur\<rparr>) st"
  define addr where "addr = pn_addr_list ?n ! cur"
  have "pa_family addr \<noteq> AF_OTHER" using ok cur by (simp add: pnode_ok_def addr_def)
  then obtain sock where sock: "(case pa_family addr of AF_INET \<Rightarrow> Some (pe_sock env) | AF_INET6 \<Rightarrow> Some (pe_sock6 env)
      | AF_OTHER \<Rightarrow> None) = Some sock" by (cases "pa_family addr") auto
  define st2 where "st2 = st1\<lparr>ps_sent := ps_sent st1 @ [(g, addr, pkbuf)]\<rparr>"
  define st3 where "st3 = upd_pnode g (\<lambda>n. n\<lparr>pn_current_addr := Some (next_addr n cur)\<rparr>) st2"
  have f1: "pframe s st st1" unfolding st1_def by (rule pframe_current [OF cur(1)])
  have f2: "pframe s st st2" unfolding st2_def by (rule pframe_trans [OF f1]) simp
  have "st3 = upd_pnode g (\<lambda>n. n\<lparr>pn_current_addr := Some (next_addr ?n cur)\<rparr>) st2"
    by (simp add: st3_def upd_pnode_def st2_def st1_def next_addr_def)
  moreover have "next_addr ?n cur < length (pn_addr_list (ps_nodes st2 g))"
    using next_addr_less [OF cur(2)] by (simp add: st2_def st1_def)
  ultimately have f3: "pframe s st st3" using pframe_trans [OF f2 pframe_current] by simp
  have run: "ogs_pfcp_sendto env g pkbuf st = (if sock \<noteq> Some True then Some (OGS_ERROR, st1)
      else if pe_os_sent env addr pkbuf < 0 \<or> pe_os_sent env addr pkbuf \<noteq> int (length pkbuf) then Some (OGS_ERROR, st2)
      else Some (OGS_OK, st3))"
    using cur sock by (simp add: ogs_pfcp_sendto_def Let_def cur_def [symmetric] st1_def [symmetric]
        addr_def [symmetric] st2_def [symmetric] st3_def [symmetric])
  have same: "pxact st1 t = pxact st t" "pxact st2 t = pxact st t" "pxact st3 t = pxact st t"
    "ps_traces st1 = ps_traces st" "ps_traces st2 = ps_traces st" "ps_traces st3 = ps_traces st" for t
    by (simp_all add: st3_def st2_def st1_def)
  show thesis
    by (rule that [of "fst (the (ogs_pfcp_sendto env g pkbuf st))" "snd (the (ogs_pfcp_sendto env g pkbuf st))"])
      (use f1 f2 f3 same in \<open>auto simp: run\<close>)
qed

lemma send_stored_total:
  assumes ok: "pnode_ok (ps_nodes st (px_node (pxact st s)))"
  obtains st' where "pfcp_send_stored env s pkbuf st = Some st'" "pframe s st st'" "\<forall>t. pxact st' t = pxact st t"
proof -
  define st1 where "st1 = pfcp_xact_trace_tx env s pkbuf st"
  have f1: "pframe s st st1" "\<forall>t. pxact st1 t = pxact st t" "ps_nodes st1 = ps_nodes st"
    by (simp_all add: st1_def pfcp_xact_trace_tx_def)
  obtain rv st2 where st2: "ogs_pfcp_sendto env (px_node (pxact st s)) pkbuf st1 = Some (rv, st2)" "pframe s st1 st2"
    "\<forall>t. pxact st2 t = pxact st1 t"
    by (rule sendto_total [of st1 "px_node (pxact st s)" env pkbuf s]) (use ok f1 in simp_all)
  show thesis
    by (rule that [of st2]) (use st2 f1 pframe_trans [OF f1(1) st2(2)] in \<open>simp_all add: pfcp_send_stored_def st1_def [symmetric]\<close>)
qed

section \<open>Deletion refines the table\<close>

lemma delete_refines:
  assumes inv: "pinv st" and s: "plive st s"
  obtains pool st' where "idpool_free (ps_pool st) s (px_id (pxact st s)) = Some pool"
    "ogs_pfcp_xact_delete s st = Some (OGS_OK, st')" "ptab st' = xt_del s pool (ptab st)"
    "\<forall>t. t \<noteq> s \<longrightarrow> pxact st' t = pxact st t" "ps_tm_avail st' = ps_tm_avail st + 3"
    "ps_cbs st' = ps_cbs st" "ps_sent st' = ps_sent st" "\<forall>g. pnode_ok (ps_nodes st g) \<longrightarrow> pnode_ok (ps_nodes st' g)"
proof -
  let ?x = "pxact st s"
  note ok = pinvD(2) [OF inv s]
  obtain pool where pool: "idpool_free (ps_pool st) s (px_id ?x) = Some pool"
    using xt_free_total [OF pinvD(1) [OF inv] s] by auto
  define st1 where "st1 = pfcp_timers_delete s st"
  have x1: "pxact st1 t = (if t = s then ?x\<lparr>px_tm_response := None, px_tm_holding := None, px_tm_delayed_commit := None\<rparr>
      else pxact st t)" for t
    by (simp add: st1_def pfcp_timers_delete_def Let_def)
  have st1: "ps_pool st1 = ps_pool st" "ps_nodes st1 = ps_nodes st" "ps_cbs st1 = ps_cbs st" "ps_sent st1 = ps_sent st"
    "ps_tm_avail st1 = ps_tm_avail st + 3"
    using ok by (auto simp: st1_def pfcp_timers_delete_def Let_def pxact_ok_def tm_count_def)
  define st2 where "st2 = upd_pfcp_own_list (\<lambda>l. list_remove l s) (pxact (pfcp_xact_index_del s st1) s) (pfcp_xact_index_del s st1)"
  have st2: "ps_pool st2 = ps_pool st" "ps_cbs st2 = ps_cbs st" "ps_sent st2 = ps_sent st" "ps_tm_avail st2 = ps_tm_avail st + 3"
    "\<And>t. pxact st2 t = pxact st1 t"
    by (simp_all add: st2_def upd_pfcp_own_list_def pfcp_xact_index_del_def Let_def st1)
  have nodes: "pn_local_list (ps_nodes st2 g) = (if g = px_node ?x \<and> px_org ?x = OGS_PFCP_LOCAL_ORIGINATOR
        then list_remove (pn_local_list (ps_nodes st g)) s else pn_local_list (ps_nodes st g))"
    "pn_remote_list (ps_nodes st2 g) = (if g = px_node ?x \<and> px_org ?x \<noteq> OGS_PFCP_LOCAL_ORIGINATOR
        then list_remove (pn_remote_list (ps_nodes st g)) s else pn_remote_list (ps_nodes st g))"
    "pn_xact_hash (ps_nodes st2 g) k = (if g = px_node ?x \<and> k = px_hash_key ?x \<and> pn_xact_hash (ps_nodes st g) k = Some s
        then None else pn_xact_hash (ps_nodes st g) k)"
    "pn_addr_list (ps_nodes st2 g) = pn_addr_list (ps_nodes st g)"
    "pn_current_addr (ps_nodes st2 g) = pn_current_addr (ps_nodes st g)" for g k
    by (auto simp: st2_def upd_pfcp_own_list_def pfcp_xact_index_del_def Let_def x1 st1)
  have "ogs_pfcp_xact_delete s st = Some (OGS_OK, st2\<lparr>ps_pool := pool\<rparr>)"
    using pool by (simp add: ogs_pfcp_xact_delete_def Let_def st1_def [symmetric] st2_def [symmetric] st2 x1)
  moreover have "ptab (st2\<lparr>ps_pool := pool\<rparr>) = xt_del s pool (ptab st)"
    by (auto simp: ptab_def xt_del_def pfcp_sel_list_def st2(5) x1 fun_eq_iff nodes)
  ultimately show thesis
    by (rule that [OF pool]) (simp_all add: st2 x1 pnode_ok_def nodes)
qed

lemma free_length:
  assumes "xt_inv t" "xt_used t s" "idpool_free (xt_pool t) s (xt_id t s) = Some pool"
  shows "ip_size pool - length (ip_free pool) + 1 = ip_size (xt_pool t) - length (ip_free (xt_pool t))"
proof -
  let ?p = "xt_pool t"
  have f: "ip_free pool = ip_free ?p @ [s]" "ip_size pool = ip_size ?p"
    using xt_del_inv(3) [OF assms] idpool_free_inv [OF xt_invD(1) [OF assms(1)], of "xt_id t s" s] assms(2,3)
    by (auto simp: xt_used_def)
  have p: "idpool_inv ?p" "idpool_inv pool"
    using xt_invD(1) [OF assms(1)] xt_invD(1) [OF xt_del_inv(1) [OF assms]] by (simp_all add: xt_del_def)
  have "length (ip_free pool) = card (set (ip_free pool))" using p(2) by (simp add: idpool_inv_def distinct_card)
  also have "\<dots> \<le> ip_size pool"
    using p(2) card_mono [of "{..<ip_size pool}" "set (ip_free pool)"] by (auto simp: idpool_inv_def)
  finally show ?thesis using f by simp
qed

lemma delete_pinv:
  assumes inv: "pinv st" and s: "plive st s"
  obtains st' where "ogs_pfcp_xact_delete s st = Some (OGS_OK, st')" "pinv st'" "ptimer_total st' = ptimer_total st"
    "\<forall>t. plive st' t \<longleftrightarrow> plive st t \<and> t \<noteq> s" "\<forall>t. t \<noteq> s \<longrightarrow> pxact st' t = pxact st t"
    "ogs_pfcp_xact_find_by_id st' (px_id (pxact st s)) = None" "ps_cbs st' = ps_cbs st" "ps_sent st' = ps_sent st"
    "\<forall>g l. s \<notin> set (pfcp_sel_list st' g l)"
    "\<forall>g l. pfcp_sel_list st' g l = (if g = px_node (pxact st s) \<and> l = (px_org (pxact st s) = OGS_PFCP_LOCAL_ORIGINATOR)
        then list_remove (pfcp_sel_list st g l) s else pfcp_sel_list st g l)"
proof -
  obtain pool st' where pool: "idpool_free (ps_pool st) s (px_id (pxact st s)) = Some pool"
    and st': "ogs_pfcp_xact_delete s st = Some (OGS_OK, st')" "ptab st' = xt_del s pool (ptab st)"
    "\<forall>t. t \<noteq> s \<longrightarrow> pxact st' t = pxact st t" "ps_tm_avail st' = ps_tm_avail st + 3" "ps_cbs st' = ps_cbs st"
    "ps_sent st' = ps_sent st" "\<forall>g. pnode_ok (ps_nodes st g) \<longrightarrow> pnode_ok (ps_nodes st' g)"
    by (rule delete_refines [OF assms])
  note t = pinvD(1) [OF inv]
  have pool': "idpool_free (xt_pool (ptab st)) s (xt_id (ptab st) s) = Some pool" using pool by simp
  note d = xt_del_inv [OF t s pool']
  have used: "plive st' u \<longleftrightarrow> plive st u \<and> u \<noteq> s" for u unfolding st'(2) by (rule xt_del_used [OF t s d(2)])
  have "pxact_ok (pxact st' u)" if "plive st' u" for u
    using that used [of u] st'(3) pinvD(2) [OF inv, of u] by simp
  then have pinv: "pinv st'" using d(1) st'(7) pinvD(3) [OF inv] by (simp add: pinv_def st'(2))
  have p': "ps_pool st' = pool" using arg_cong [OF st'(2), of xt_pool] by (simp add: xt_del_def)
  have "ptimer_total st' = ptimer_total st"
    using free_length [OF t s pool'] by (simp add: ptimer_total_def p' st'(4))
  moreover have "ogs_pfcp_xact_find_by_id st' (px_id (pxact st s)) = None"
    using d(2) by (simp add: ogs_pfcp_xact_find_by_id_def p')
  moreover have "\<forall>g l. s \<notin> set (pfcp_sel_list st' g l)"
    using xt_del_gone(1) [OF t s pool'] st'(2) by (metis ptab_fields(6))
  moreover have "\<forall>g l. pfcp_sel_list st' g l = (if g = px_node (pxact st s) \<and> l = (px_org (pxact st s) = OGS_PFCP_LOCAL_ORIGINATOR)
        then list_remove (pfcp_sel_list st g l) s else pfcp_sel_list st g l)"
  proof (intro allI)
    fix g l
    have "pfcp_sel_list st' g l = xt_list (xt_del s pool (ptab st)) g l" using st'(2) by (metis ptab_fields(6))
    then show "pfcp_sel_list st' g l = (if g = px_node (pxact st s) \<and> l = (px_org (pxact st s) = OGS_PFCP_LOCAL_ORIGINATOR)
        then list_remove (pfcp_sel_list st g l) s else pfcp_sel_list st g l)" by (simp add: xt_del_def)
  qed
  ultimately show thesis using that [OF st'(1) pinv] used st'(3,5,6) by simp
qed

end
