(* ===== verification/Pfcp_Xact_Ops.thy ===== *)
theory Pfcp_Xact_Ops
  imports Pfcp_Xact_Inv
begin

text \<open>
  The interface operations of the PFCP transaction layer keep its invariant and its number of timers
  and do not abort on well-formed states: creation, the transmit and receive steps, commit, delayed
  commit, receive, the three timeouts and the deletion of all transactions of a node.
\<close>

section \<open>Creation\<close>

definition pcan_create :: "pfcp_state \<Rightarrow> bool" where
  "pcan_create st \<longleftrightarrow> ip_free (ps_pool st) \<noteq> [] \<and> idpool_fresh (ps_pool st) \<and> 3 \<le> ps_tm_avail st"

definition new_pxact :: "pfcp_env \<Rightarrow> nat \<Rightarrow> u8 \<Rightarrow> u32 \<Rightarrow> nat \<Rightarrow> nat option \<Rightarrow> pfcp_xact" where
  "new_pxact env i org xid g cb =
     pfcp_xact_zero\<lparr>px_id := i, px_org := org, px_xid := xid, px_node := g, px_cb := cb,
       px_hash_key := pfcp_xact_index_key org xid,
       px_tm_response := Some Tm_Idle, px_response_rcount := of_int (pe_n1_response_rcount env),
       px_tm_holding := Some Tm_Idle, px_holding_rcount := of_int (pe_n1_holding_rcount env),
       px_tm_delayed_commit := Some Tm_Idle\<rparr>"

lemma new_pxact_fields [simp]:
  "px_id (new_pxact env i org xid g cb) = i" "px_org (new_pxact env i org xid g cb) = org"
  "px_xid (new_pxact env i org xid g cb) = xid" "px_node (new_pxact env i org xid g cb) = g"
  "px_cb (new_pxact env i org xid g cb) = cb" "px_step (new_pxact env i org xid g cb) = 0"
  "px_hash_key (new_pxact env i org xid g cb) = pfcp_xact_index_key org xid"
  "px_seq (new_pxact env i org xid g cb) = replicate 3 \<lparr>sq_type = 0, sq_pkbuf = None\<rparr>"
  "px_tm_response (new_pxact env i org xid g cb) = Some Tm_Idle"
  "px_tm_holding (new_pxact env i org xid g cb) = Some Tm_Idle"
  "px_tm_delayed_commit (new_pxact env i org xid g cb) = Some Tm_Idle"
  "px_response_rcount (new_pxact env i org xid g cb) = of_int (pe_n1_response_rcount env)"
  "px_holding_rcount (new_pxact env i org xid g cb) = of_int (pe_n1_holding_rcount env)"
  "px_lag_defer_count (new_pxact env i org xid g cb) = 0" "px_imsi_bcd (new_pxact env i org xid g cb) = []"
  by (simp_all add: new_pxact_def pfcp_xact_zero_def)

lemma new_pxact_ok:
  "org = OGS_PFCP_LOCAL_ORIGINATOR \<or> org = OGS_PFCP_REMOTE_ORIGINATOR \<Longrightarrow> pxact_ok (new_pxact env i org xid g cb)"
  by (simp add: pxact_ok_def)

text \<open>The state after a successful creation: the table has one transaction more and the pool of
  timers three less; nothing else has changed.\<close>

definition pcreated :: "nat \<Rightarrow> pfcp_xact \<Rightarrow> pfcp_state \<Rightarrow> pfcp_state \<Rightarrow> bool" where
  "pcreated s x st st' \<longleftrightarrow> pinv st' \<and> \<not> plive st s \<and> pxact st' s = x \<and> (\<forall>t. t \<noteq> s \<longrightarrow> pxact st' t = pxact st t)
     \<and> (\<exists>pool. idpool_calloc (ps_pool st) = (Some (s, px_id x), pool)
         \<and> ptab st' = xt_add s (px_id x) (px_node x) (px_org x = OGS_PFCP_LOCAL_ORIGINATOR) (px_hash_key x) pool (ptab st))
     \<and> (\<forall>t. plive st' t \<longleftrightarrow> plive st t \<or> t = s)
     \<and> ps_tm_avail st' + 3 = ps_tm_avail st \<and> ptimer_total st' = ptimer_total st
     \<and> ps_sent st' = ps_sent st \<and> ps_cbs st' = ps_cbs st"

lemma pcreatedD:
  assumes "pcreated s x st st'"
  shows "pinv st'" "\<not> plive st s" "pxact st' s = x" "t \<noteq> s \<Longrightarrow> pxact st' t = pxact st t"
    "plive st' t \<longleftrightarrow> plive st t \<or> t = s" "plive st' s" "ptimer_total st' = ptimer_total st"
    "ps_sent st' = ps_sent st" "ps_cbs st' = ps_cbs st" "ps_tm_avail st' + 3 = ps_tm_avail st"
  using assms by (auto simp: pcreated_def)

lemma calloc_length:
  assumes "idpool_inv p" "idpool_calloc p = (Some (s, i), p')"
  shows "ip_size p' - length (ip_free p') = ip_size p - length (ip_free p) + 1"
proof -
  obtain fs where fs: "ip_free p = s # fs" "ip_free p' = fs" "ip_size p' = ip_size p"
    using assms(2) by (auto simp: idpool_calloc_def Let_def split: list.splits)
  have "length (ip_free p) = card (set (ip_free p))" using assms(1) by (simp add: idpool_inv_def distinct_card)
  also have "\<dots> \<le> ip_size p"
    using assms(1) card_mono [of "{..<ip_size p}" "set (ip_free p)"] by (auto simp: idpool_inv_def)
  finally show ?thesis using fs by simp
qed

text \<open>Linking refines \<^const>\<open>xt_add\<close>.\<close>

lemma link_refines:
  assumes "ps_pool st1 = pool" "ps_nodes st1 = ps_nodes st" "\<And>t. t \<noteq> s \<Longrightarrow> pxact st1 t = pxact st t"
    and x: "x = pxact st1 s" "px_id x = i"
  shows "ptab (pfcp_xact_link s st1) =
      xt_add s i (px_node x) (px_org x = OGS_PFCP_LOCAL_ORIGINATOR) (pfcp_xact_index_key (px_org x) (px_xid x)) pool (ptab st)"
    "pxact (pfcp_xact_link s st1) t = (if t = s then x\<lparr>px_hash_key := pfcp_xact_index_key (px_org x) (px_xid x)\<rparr> else pxact st t)"
    "ps_tm_avail (pfcp_xact_link s st1) = ps_tm_avail st1" "ps_sent (pfcp_xact_link s st1) = ps_sent st1"
    "ps_cbs (pfcp_xact_link s st1) = ps_cbs st1"
    "pnode_ok (ps_nodes st g) \<Longrightarrow> pnode_ok (ps_nodes (pfcp_xact_link s st1) g)"
proof -
  let ?st = "pfcp_xact_link s st1" and ?k = "pfcp_xact_index_key (px_org x) (px_xid x)"
  have pool: "ps_pool ?st = pool"
    by (simp add: pfcp_xact_link_def pfcp_xact_index_add_def upd_pfcp_own_list_def Let_def assms(1))
  have xs: "pxact ?st t = (if t = s then x\<lparr>px_hash_key := ?k\<rparr> else pxact st t)" for t
    using assms(3) [of t] by (simp add: pfcp_xact_link_def pfcp_xact_index_add_def upd_pfcp_own_list_def Let_def x(1))
  then show "pxact ?st t = (if t = s then x\<lparr>px_hash_key := ?k\<rparr> else pxact st t)" .
  have nodes: "pn_local_list (ps_nodes ?st g) = (if g = px_node x \<and> px_org x = OGS_PFCP_LOCAL_ORIGINATOR
        then pn_local_list (ps_nodes st g) @ [s] else pn_local_list (ps_nodes st g))"
    "pn_remote_list (ps_nodes ?st g) = (if g = px_node x \<and> px_org x \<noteq> OGS_PFCP_LOCAL_ORIGINATOR
        then pn_remote_list (ps_nodes st g) @ [s] else pn_remote_list (ps_nodes st g))"
    "pn_xact_hash (ps_nodes ?st g) k = (if g = px_node x \<and> k = ?k \<and> pn_xact_hash (ps_nodes st (px_node x)) ?k = None
        then Some s else pn_xact_hash (ps_nodes st g) k)"
    "pn_addr_list (ps_nodes ?st g) = pn_addr_list (ps_nodes st g)"
    "pn_current_addr (ps_nodes ?st g) = pn_current_addr (ps_nodes st g)" for g k
    by (auto simp: pfcp_xact_link_def pfcp_xact_index_add_def upd_pfcp_own_list_def Let_def assms(2) x(1))
  show "ptab ?st = xt_add s i (px_node x) (px_org x = OGS_PFCP_LOCAL_ORIGINATOR) ?k pool (ptab st)"
    by (auto simp: ptab_def xt_add_def pool xs x(2) pfcp_sel_list_def nodes fun_eq_iff)
  show "ps_tm_avail ?st = ps_tm_avail st1" "ps_sent ?st = ps_sent st1" "ps_cbs ?st = ps_cbs st1"
    by (simp_all add: pfcp_xact_link_def pfcp_xact_index_add_def upd_pfcp_own_list_def Let_def)
  show "pnode_ok (ps_nodes st g) \<Longrightarrow> pnode_ok (ps_nodes ?st g)" by (simp add: pnode_ok_def nodes)
qed

lemma create_timers_ok:
  assumes inv: "pinv st" and can: "pcan_create st"
    and alloc: "idpool_calloc (ps_pool st) = (Some (s, i), pool)"
    and sta: "ps_pool sta = pool" "ps_nodes sta = ps_nodes st" "ps_tm_avail sta = ps_tm_avail st" "ps_sent sta = ps_sent st"
      "ps_cbs sta = ps_cbs st" "\<And>t. t \<noteq> s \<Longrightarrow> pxact sta t = pxact st t"
    and x0: "pxact sta s = pfcp_xact_zero\<lparr>px_id := i, px_org := org, px_xid := xid, px_node := g, px_cb := cb\<rparr>"
    and org: "org = OGS_PFCP_LOCAL_ORIGINATOR \<or> org = OGS_PFCP_REMOTE_ORIGINATOR"
  obtains st' where "pfcp_create_timers env s sta = Some (Some s, st')"
    "pcreated s (new_pxact env i org xid g cb) st st'"
proof -
  let ?x = "new_pxact env i org xid g cb"
  have tm: "3 \<le> ps_tm_avail st" and fresh: "idpool_fresh (ps_pool st)" using can by (simp_all add: pcan_create_def)
  define st3 where "st3 = upd_pxact s (\<lambda>_. ?x\<lparr>px_hash_key := px_hash_key pfcp_xact_zero\<rparr>) (sta\<lparr>ps_tm_avail := ps_tm_avail sta - 3\<rparr>)"
  have "ps_tm_avail st \<noteq> 0" "ps_tm_avail st - Suc 0 \<noteq> 0" "ps_tm_avail st - Suc (Suc 0) \<noteq> 0" using tm by linarith+
  then have run: "pfcp_create_timers env s sta = Some (Some s, pfcp_xact_link s st3)"
    using x0
    by (simp add: pfcp_create_timers_def pfcp_add_response_def pfcp_add_holding_def pfcp_add_delayed_def
        pfcp_timer_add_def sta(3) st3_def upd_pxact_def pxact_def new_pxact_def pfcp_xact_zero_def numeral_3_eq_3)
  have st3: "ps_pool st3 = pool" "ps_nodes st3 = ps_nodes st" "\<And>t. t \<noteq> s \<Longrightarrow> pxact st3 t = pxact st t"
    "ps_tm_avail st3 + 3 = ps_tm_avail st" "ps_sent st3 = ps_sent st" "ps_cbs st3 = ps_cbs st"
    using tm sta(6) by (simp_all add: st3_def sta(1-5))
  note l = link_refines [where ?st1.0 = st3 and s = s and i = i, OF st3(1,2,3) refl]
  define st' where "st' = pfcp_xact_link s st3"
  have x3: "pxact st3 s = ?x\<lparr>px_hash_key := px_hash_key pfcp_xact_zero\<rparr>" by (simp add: st3_def)
  have tab: "ptab st' = xt_add s i g (org = OGS_PFCP_LOCAL_ORIGINATOR) (pfcp_xact_index_key org xid) pool (ptab st)"
    unfolding st'_def using l(1) by (simp add: x3)
  have xs: "pxact st' t = (if t = s then ?x else pxact st t)" for t
    unfolding st'_def using l(2) [of t] by (simp add: x3)
  note t = pinvD(1) [OF inv]
  have alloc': "idpool_calloc (xt_pool (ptab st)) = (Some (s, i), pool)" "idpool_fresh (xt_pool (ptab st))"
    using alloc fresh by simp_all
  have used: "\<not> plive st s" "plive st' u \<longleftrightarrow> plive st u \<or> u = s" for u
    unfolding tab using xt_add_used [OF t alloc'(2,1)] by auto
  have "pxact_ok (pxact st' u)" if "plive st' u" for u
    using that used xs [of u] pinvD(2) [OF inv, of u] new_pxact_ok [OF org] by (cases "u = s") simp_all
  moreover have "xt_inv (ptab st')" unfolding tab by (rule xt_add_inv [OF t alloc'(2,1)])
  moreover have "pnode_ok (ps_nodes st' g)" for g unfolding st'_def using l(6) pinvD(3) [OF inv] by (simp add: x3)
  ultimately have pinv: "pinv st'" by (simp add: pinv_def)
  have rest: "ps_tm_avail st' = ps_tm_avail st3" "ps_sent st' = ps_sent st" "ps_cbs st' = ps_cbs st"
    unfolding st'_def using l(3-5) st3(5,6) by (simp_all add: x3)
  have p': "ps_pool st' = pool" using arg_cong [OF tab, of xt_pool] by (simp add: xt_add_def)
  have "ptimer_total st' = ptimer_total st"
    using calloc_length [OF xt_invD(1) [OF t], of s i pool] alloc st3(4) by (simp add: ptimer_total_def p' rest)
  then have "pcreated s ?x st st'"
    using pinv used xs tab alloc st3(4) rest by (simp add: pcreated_def)
  then show thesis using that run by (simp add: st'_def)
qed

lemma pfcp_xact_calloc_Some:
  assumes "pcan_create st"
  obtains s i pool where "idpool_calloc (ps_pool st) = (Some (s, i), pool)"
    "pfcp_xact_calloc st = (Some s, upd_pxact s (\<lambda>_. pfcp_xact_zero\<lparr>px_id := i\<rparr>) (st\<lparr>ps_pool := pool\<rparr>))"
  using assms by (cases "ip_free (ps_pool st)") (simp_all add: idpool_calloc_def pfcp_xact_calloc_def Let_def pcan_create_def)

lemma premote_create_ok:
  assumes inv: "pinv st" and can: "pcan_create st"
  obtains s i st' where "ogs_pfcp_xact_remote_create env g sqn st = Some (Some s, st')"
    "pcreated s (new_pxact env i OGS_PFCP_REMOTE_ORIGINATOR (OGS_PFCP_SQN_TO_XID sqn) g None) st st'"
proof -
  obtain s i pool where alloc: "idpool_calloc (ps_pool st) = (Some (s, i), pool)"
    and calloc: "pfcp_xact_calloc st = (Some s, upd_pxact s (\<lambda>_. pfcp_xact_zero\<lparr>px_id := i\<rparr>) (st\<lparr>ps_pool := pool\<rparr>))"
    by (rule pfcp_xact_calloc_Some [OF can])
  define sta where "sta = upd_pxact s (\<lambda>x. x\<lparr>px_org := OGS_PFCP_REMOTE_ORIGINATOR, px_xid := OGS_PFCP_SQN_TO_XID sqn,
      px_node := g\<rparr>) (upd_pxact s (\<lambda>_. pfcp_xact_zero\<lparr>px_id := i\<rparr>) (st\<lparr>ps_pool := pool\<rparr>))"
  have x0: "pxact sta s = pfcp_xact_zero\<lparr>px_id := i, px_org := OGS_PFCP_REMOTE_ORIGINATOR,
      px_xid := OGS_PFCP_SQN_TO_XID sqn, px_node := g, px_cb := None\<rparr>"
    by (simp add: sta_def pfcp_xact_zero_def)
  obtain st' where "pfcp_create_timers env s sta = Some (Some s, st')"
    "pcreated s (new_pxact env i OGS_PFCP_REMOTE_ORIGINATOR (OGS_PFCP_SQN_TO_XID sqn) g None) st st'"
    by (rule create_timers_ok [OF inv can alloc _ _ _ _ _ _ x0, where env = env]) (simp_all add: sta_def)
  then show thesis
    using that by (simp add: ogs_pfcp_xact_remote_create_def calloc sta_def [symmetric])
qed

lemma pfcp_next_xid_state:
  "snd (pfcp_xact_next_xid env st) = st\<lparr>ps_xact_id := ps_xact_id (snd (pfcp_xact_next_xid env st))\<rparr>"
  by (simp add: pfcp_xact_next_xid_def Let_def)

lemma pfcp_next_xid_frame:
  "fst (pfcp_xact_next_xid env (upd_pxact s f (st\<lparr>ps_pool := p\<rparr>))) = fst (pfcp_xact_next_xid env st)"
  by (simp add: pfcp_xact_next_xid_def Let_def)

lemma local_create_ok:
  assumes inv: "pinv st" and can: "pcan_create st"
  obtains s i st' where "ogs_pfcp_xact_local_create env g cb st = Some (Some s, st')"
    "pcreated s (new_pxact env i OGS_PFCP_LOCAL_ORIGINATOR (fst (pfcp_xact_next_xid env st)) g cb) st st'"
proof -
  let ?xid = "fst (pfcp_xact_next_xid env st)"
  obtain s i pool where alloc: "idpool_calloc (ps_pool st) = (Some (s, i), pool)"
    and calloc: "pfcp_xact_calloc st = (Some s, upd_pxact s (\<lambda>_. pfcp_xact_zero\<lparr>px_id := i\<rparr>) (st\<lparr>ps_pool := pool\<rparr>))"
    by (rule pfcp_xact_calloc_Some [OF can])
  define stc where "stc = upd_pxact s (\<lambda>_. pfcp_xact_zero\<lparr>px_id := i\<rparr>) (st\<lparr>ps_pool := pool\<rparr>)"
  define stn where "stn = snd (pfcp_xact_next_xid env stc)"
  have nxt: "pfcp_xact_next_xid env stc = (?xid, stn)"
    by (simp add: stn_def stc_def prod_eq_iff pfcp_next_xid_frame)
  have stn0: "stn = stc\<lparr>ps_xact_id := ps_xact_id stn\<rparr>" unfolding stn_def by (rule pfcp_next_xid_state)
  have stn: "ps_pool stn = pool" "ps_nodes stn = ps_nodes st" "ps_tm_avail stn = ps_tm_avail st"
    "ps_sent stn = ps_sent st" "ps_cbs stn = ps_cbs st"
    "\<And>t. pxact stn t = (if t = s then pfcp_xact_zero\<lparr>px_id := i\<rparr> else pxact st t)"
    by (subst stn0, simp add: stc_def)+
  define sta where "sta = upd_pxact s (\<lambda>x. x\<lparr>px_org := OGS_PFCP_LOCAL_ORIGINATOR, px_xid := ?xid, px_node := g, px_cb := cb\<rparr>) stn"
  have x0: "pxact sta s = pfcp_xact_zero\<lparr>px_id := i, px_org := OGS_PFCP_LOCAL_ORIGINATOR, px_xid := ?xid,
      px_node := g, px_cb := cb\<rparr>"
    by (simp add: sta_def stn)
  obtain st' where "pfcp_create_timers env s sta = Some (Some s, st')"
    "pcreated s (new_pxact env i OGS_PFCP_LOCAL_ORIGINATOR ?xid g cb) st st'"
    by (rule create_timers_ok [OF inv can alloc _ _ _ _ _ _ x0, where env = env]) (simp_all add: sta_def stn)
  then show thesis
    using that by (simp add: ogs_pfcp_xact_local_create_def calloc stc_def [symmetric] nxt sta_def [symmetric])
qed

end
