(* ===== verification/Pfcp_Xact_Steps.thy ===== *)
theory Pfcp_Xact_Steps
  imports Pfcp_Xact_Ops
begin

text \<open>
  The transmit and receive steps, commit, receive and the timeouts of the PFCP transaction layer on
  its invariant.
\<close>

definition pconf_ok :: "pfcp_env \<Rightarrow> bool" where
  "pconf_ok env \<longleftrightarrow> pe_t1_response_duration env \<noteq> 0 \<and> pe_t1_holding_duration env \<noteq> 0"

lemma pseq_get: "pxact_ok x \<Longrightarrow> k < 3 \<Longrightarrow> pfcp_seq_get x k = Some (px_seq x ! k)"
  by (simp add: pfcp_seq_get_def pxact_ok_def)

lemma pseq_last: "pxact_ok x \<Longrightarrow> 1 \<le> px_step x \<Longrightarrow> pfcp_seq_last x = Some (px_seq x ! (px_step x - 1))"
  by (auto simp: pfcp_seq_last_def pfcp_seq_get_def pxact_ok_def)

section \<open>Transmit\<close>

lemma pupdate_tx_total:
  assumes "pxact_ok (pxact st s)"
    and "px_org (pxact st s) = OGS_PFCP_LOCAL_ORIGINATOR \<Longrightarrow>
      ogs_pfcp_xact_get_stage (pd_type hdesc) (px_xid (pxact st s)) \<noteq> PFCP_XACT_UNKNOWN_STAGE"
  shows "\<exists>rv st'. ogs_pfcp_xact_update_tx s hdesc pk st = Some (rv, st')"
  using assms
  by (cases "ogs_pfcp_xact_get_stage (pd_type hdesc) (px_xid (pxact st s))")
    (auto simp: ogs_pfcp_xact_update_tx_def pfcp_tx_allowed_def Let_def pxact_ok_def)

lemma pupdate_tx_frame:
  assumes run: "ogs_pfcp_xact_update_tx s hdesc pk st = Some (rv, st')" and ok: "pxact_ok (pxact st s)"
  shows "rv = OGS_OK \<or> rv = OGS_ERROR \<and> st' = st" "pframe s st st'" "pxact_ok (pxact st' s)"
    "rv = OGS_OK \<Longrightarrow> px_step (pxact st' s) = px_step (pxact st s) + 1"
proof -
  let ?x = "pxact st s"
  let ?f = "\<lambda>x. x\<lparr>px_seq := (px_seq x)[px_step x := \<lparr>sq_type = pd_type hdesc,
      sq_pkbuf = Some (pfcp_push_header hdesc (px_xid ?x) pk)\<rparr>], px_step := px_step x + 1\<rparr>"
  let ?ok = "px_org ?x = OGS_PFCP_LOCAL_ORIGINATOR \<and> (px_step ?x = 0 \<or> px_step ?x = 2)
      \<or> px_org ?x = OGS_PFCP_REMOTE_ORIGINATOR \<and> px_step ?x = 1"
  from run consider "rv = OGS_ERROR" "st' = st" | "rv = OGS_OK" "st' = upd_pxact s ?f st" ?ok
    by (cases "ogs_pfcp_xact_get_stage (pd_type hdesc) (px_xid ?x)")
      (auto simp: ogs_pfcp_xact_update_tx_def pfcp_tx_allowed_def Let_def split: if_splits)
  then have "(rv = OGS_OK \<or> rv = OGS_ERROR \<and> st' = st) \<and> pframe s st st' \<and> pxact_ok (pxact st' s)
     \<and> (rv = OGS_OK \<longrightarrow> px_step (pxact st' s) = px_step ?x + 1)"
  proof cases
    case 1 then show ?thesis using ok by simp
  next
    case 2
    have "pframe s st st'" unfolding 2(2) by (rule pframe_upd) (simp add: same_pxact_def)
    moreover have "pxact_ok (?f ?x)"
      using 2(3)
    proof (elim disjE conjE)
    qed (use ok in \<open>simp_all add: pxact_ok_def nth_list_update\<close>)
    ultimately show ?thesis using 2(1,2) by simp
  qed
  then show "rv = OGS_OK \<or> rv = OGS_ERROR \<and> st' = st" "pframe s st st'" "pxact_ok (pxact st' s)"
    "rv = OGS_OK \<Longrightarrow> px_step (pxact st' s) = px_step ?x + 1" by blast+
qed

section \<open>Receive steps\<close>

lemma start_holding_frame:
  assumes "pfcp_start_holding env s st = Some st'"
  shows "pframe s st st'"
    "pxact st' s = (pxact st s)\<lparr>px_tm_holding := map_option (\<lambda>_. Tm_Running (pe_t1_holding_duration env)) (px_tm_holding (pxact st s))\<rparr>"
    "ps_sent st' = ps_sent st" "ps_nodes st' = ps_nodes st"
  using assms tm_start_Some(2)
  by (auto simp: pfcp_start_holding_def same_pxact_def split: bind_splits intro!: pframe_upd)

lemma start_holding_total: "pconf_ok env \<Longrightarrow> \<exists>st'. pfcp_start_holding env s st = Some st'"
  using tm_start_total [of "pe_t1_holding_duration env" "px_tm_holding (pxact st s)"]
  by (auto simp: pfcp_start_holding_def pconf_ok_def)

lemma pstart_response_frame:
  assumes "pfcp_start_response env s st = Some st'"
  shows "pframe s st st'"
    "pxact st' s = (pxact st s)\<lparr>px_tm_response := map_option (\<lambda>_. Tm_Running (pe_t1_response_duration env)) (px_tm_response (pxact st s))\<rparr>"
    "ps_sent st' = ps_sent st" "ps_nodes st' = ps_nodes st"
  using assms tm_start_Some(2)
  by (auto simp: pfcp_start_response_def same_pxact_def split: bind_splits intro!: pframe_upd)

lemma start_response_total: "pconf_ok env \<Longrightarrow> \<exists>st'. pfcp_start_response env s st = Some st'"
  using tm_start_total [of "pe_t1_response_duration env" "px_tm_response (pxact st s)"]
  by (auto simp: pfcp_start_response_def pconf_ok_def)

lemma pxact_ok_holding: "pxact_ok x \<Longrightarrow> pxact_ok (x\<lparr>px_tm_holding := map_option f (px_tm_holding x)\<rparr>)"
  by (simp add: pxact_ok_def)

lemma prx_accept_frame:
  assumes run: "pfcp_rx_accept s type st = Some (rv, st')"
  shows "rv = OGS_OK" "pframe s st st'" "px_step (pxact st' s) = px_step (pxact st s) + 1"
    "pxact_ok (pxact st s) \<Longrightarrow> px_org (pxact st s) = OGS_PFCP_LOCAL_ORIGINATOR \<and> px_step (pxact st s) = 1
       \<or> px_org (pxact st s) = OGS_PFCP_REMOTE_ORIGINATOR \<and> (px_step (pxact st s) = 0 \<or> px_step (pxact st s) = 2) \<Longrightarrow>
       pxact_ok (pxact st' s)"
    "px_seq (pxact st' s) = (px_seq (pxact st s))[px_step (pxact st s) := (px_seq (pxact st s) ! px_step (pxact st s))\<lparr>sq_type := type\<rparr>]"
    "px_tm_response (pxact st' s) = tm_stop (px_tm_response (pxact st s))" "ps_sent st' = ps_sent st"
proof -
  let ?x = "pxact st s"
  let ?f = "\<lambda>x. x\<lparr>px_tm_response := tm_stop (px_tm_response x),
              px_seq := (px_seq x)[px_step x := (px_seq x ! px_step x)\<lparr>sq_type := type\<rparr>], px_step := px_step x + 1\<rparr>"
  have rv: "rv = OGS_OK" and st': "st' = upd_pxact s ?f st"
    using run by (auto simp: pfcp_rx_accept_def Let_def split: if_splits)
  show "rv = OGS_OK" by (fact rv)
  show "pframe s st st'" unfolding st' by (rule pframe_upd) (simp add: same_pxact_def)
  show "px_step (pxact st' s) = px_step ?x + 1" "px_tm_response (pxact st' s) = tm_stop (px_tm_response ?x)"
    "px_seq (pxact st' s) = (px_seq ?x)[px_step ?x := (px_seq ?x ! px_step ?x)\<lparr>sq_type := type\<rparr>]" "ps_sent st' = ps_sent st"
    by (simp_all add: st')
  have stop: "tm_stop t = None \<longleftrightarrow> t = None" for t by (simp add: tm_stop_def)
  show "pxact_ok (pxact st' s)" if ok: "pxact_ok ?x" and c: "px_org ?x = OGS_PFCP_LOCAL_ORIGINATOR \<and> px_step ?x = 1
       \<or> px_org ?x = OGS_PFCP_REMOTE_ORIGINATOR \<and> (px_step ?x = 0 \<or> px_step ?x = 2)"
    using c
  proof (elim disjE conjE)
  qed (use ok in \<open>simp_all add: st' pxact_ok_def nth_list_update stop\<close>)
qed

lemma rx_duplicate_ok:
  assumes "pxact_ok (pxact st s)" "pconf_ok env" "pnode_ok (ps_nodes st (px_node (pxact st s)))" "k < 3"
  obtains st' t where "pfcp_rx_duplicate env s k st = Some (OGS_RETRY, st')" "pframe s st st'"
    "pxact st' s = (pxact st s)\<lparr>px_tm_holding := t\<rparr>" "pxact_ok (pxact st' s)"
proof (cases "sq_pkbuf (px_seq (pxact st s) ! k)")
  case None
  show thesis by (rule that [of st "px_tm_holding (pxact st s)"])
      (use assms None in \<open>simp_all add: pfcp_rx_duplicate_def pseq_get\<close>)
next
  case (Some pk)
  obtain st1 where st1: "pfcp_start_holding env s st = Some st1" using start_holding_total [OF assms(2)] by blast
  note f = start_holding_frame [OF st1]
  have n1: "px_node (pxact st1 s) = px_node (pxact st s)" by (simp add: f(2))
  obtain st2 where st2: "pfcp_send_stored env s pk st1 = Some st2" "pframe s st1 st2" "\<forall>t. pxact st2 t = pxact st1 t"
    by (rule send_stored_total [of st1 s env pk]) (use assms(3) f(4) n1 in simp_all)
  have "pfcp_rx_duplicate env s k st = Some (OGS_RETRY, st2)"
    using assms(1,4) Some st1 st2(1) by (simp add: pfcp_rx_duplicate_def pseq_get)
  then show thesis
    by (rule that [OF _ pframe_trans [OF f(1) st2(2)]])
      (use st2(3) f(2) pxact_ok_holding [OF assms(1)] in simp_all)
qed

text \<open>The outcomes of the receive step: an error without effect, a retry (a duplicated request, or a
  response that answers another request), or acceptance.\<close>

lemma update_rx_ok:
  assumes ok: "pxact_ok (pxact st s)" and conf: "pconf_ok env" and node: "pnode_ok (ps_nodes st (px_node (pxact st s)))"
  obtains rv st' where "ogs_pfcp_xact_update_rx env s type st = Some (rv, st')" "pframe s st st'" "pxact_ok (pxact st' s)"
    "rv = OGS_ERROR \<and> st' = st \<or> rv = OGS_RETRY \<and> (\<exists>t. pxact st' s = (pxact st s)\<lparr>px_tm_holding := t\<rparr>)
     \<or> rv = OGS_OK \<and> px_step (pxact st' s) = px_step (pxact st s) + 1"
proof -
  let ?x = "pxact st s"
  let ?good = "\<lambda>r. \<exists>rv st'. r = Some (rv, st') \<and> pframe s st st' \<and> pxact_ok (pxact st' s)
     \<and> (rv = OGS_ERROR \<and> st' = st \<or> rv = OGS_RETRY \<and> (\<exists>t. pxact st' s = ?x\<lparr>px_tm_holding := t\<rparr>)
        \<or> rv = OGS_OK \<and> px_step (pxact st' s) = px_step ?x + 1)"
  have err: "?good (Some (OGS_ERROR, st))" using ok by simp
  have retry: "?good (Some (OGS_RETRY, st))"
    using ok by (intro exI [of _ OGS_RETRY] exI [of _ st]) (auto intro: exI [of _ "px_tm_holding ?x"])
  have dup: "?good (pfcp_rx_duplicate env s k st)" if "k < 3" for k
    by (rule rx_duplicate_ok [OF ok conf node that]) blast
  have acc: "?good (pfcp_rx_accept s type st)" if "px_org ?x = OGS_PFCP_LOCAL_ORIGINATOR \<and> px_step ?x = 1
       \<or> px_org ?x = OGS_PFCP_REMOTE_ORIGINATOR \<and> px_step ?x = 2"
  proof -
    have "px_step ?x < length (px_seq ?x)" using that ok by (auto simp: pxact_ok_def)
    then obtain rv st' where r: "pfcp_rx_accept s type st = Some (rv, st')" by (simp add: pfcp_rx_accept_def Let_def)
    then show ?thesis using prx_accept_frame [OF r] ok that by blast
  qed
  have hacc: "?good (do { st \<leftarrow> pfcp_start_holding env s st; pfcp_rx_accept s type st })"
    if o: "px_org ?x = OGS_PFCP_LOCAL_ORIGINATOR \<and> px_step ?x = 1 \<or> px_org ?x = OGS_PFCP_REMOTE_ORIGINATOR \<and> px_step ?x = 0"
  proof -
    obtain st1 where st1: "pfcp_start_holding env s st = Some st1" using start_holding_total [OF conf] by blast
    note f = start_holding_frame [OF st1]
    have x1: "pxact_ok (pxact st1 s)" "px_org (pxact st1 s) = px_org ?x" "px_step (pxact st1 s) = px_step ?x"
      using pxact_ok_holding [OF ok] by (simp_all add: f(2))
    then have "px_step (pxact st1 s) < length (px_seq (pxact st1 s))" using o by (auto simp: pxact_ok_def)
    then obtain rv st' where r: "pfcp_rx_accept s type st1 = Some (rv, st')" by (simp add: pfcp_rx_accept_def Let_def)
    note a = prx_accept_frame [OF r]
    have "pxact_ok (pxact st' s)" using a(4) x1 o by auto
    then show ?thesis using r a(1,3) pframe_trans [OF f(1) a(2)] x1(3) st1 by simp
  qed
  have "?good (ogs_pfcp_xact_update_rx env s type st)"
  proof (cases "px_org ?x = OGS_PFCP_LOCAL_ORIGINATOR")
    case True
    then show ?thesis
      using err retry dup [of 2] acc hacc pseq_get [OF ok, of 0] pseq_get [OF ok, of 1]
      by (cases "ogs_pfcp_xact_get_stage type (px_xid ?x)") (simp_all add: ogs_pfcp_xact_update_rx_def Let_def)
  next
    case False
    then have "px_org ?x = OGS_PFCP_REMOTE_ORIGINATOR" using ok by (auto simp: pxact_ok_def)
    then show ?thesis
      using err dup [of 1] acc hacc pseq_get [OF ok, of 0]
      by (cases "ogs_pfcp_xact_get_stage type (px_xid ?x)") (simp_all add: ogs_pfcp_xact_update_rx_def Let_def)
  qed
  then show thesis using that by blast
qed

end
