(* ===== verification/Pfcp_Xact_Calls.thy ===== *)
theory Pfcp_Xact_Calls
  imports Pfcp_Xact_Steps
begin

text \<open>
  Commit, receive, the timeouts and the deletion of all transactions of a node keep the invariant of
  the PFCP transaction layer and return on every well-formed state.
\<close>

text \<open>What every call of the interface achieves: it returns, the invariant holds again and no timer is
  lost.\<close>

definition pgood :: "pfcp_state \<Rightarrow> pfcp_state \<Rightarrow> bool" where
  "pgood st st' \<longleftrightarrow> pinv st' \<and> ptimer_total st' = ptimer_total st"

lemma pgood_frame: "pframe s st st' \<Longrightarrow> pinv st \<Longrightarrow> pxact_ok (pxact st' s) \<Longrightarrow> pgood st st'"
  using pframe_inv by (auto simp: pgood_def)

lemma pgood_trans: "pgood a b \<Longrightarrow> pgood b c \<Longrightarrow> pgood a c"
  by (simp add: pgood_def)

lemma plive_frame: "pframe s st st' \<Longrightarrow> plive st' t \<longleftrightarrow> plive st t"
  by (simp add: pframe_def)

section \<open>Commit\<close>

lemma commit_end_good:
  assumes "pinv st" "plive st s"
  obtains st' where "pfcp_commit_end s rv st = Some (rv, st')" "pgood st st'" "\<forall>t. plive st' t \<longleftrightarrow> plive st t \<and> t \<noteq> s"
    "\<forall>t. t \<noteq> s \<longrightarrow> pxact st' t = pxact st t" "ogs_pfcp_xact_find_by_id st' (px_id (pxact st s)) = None"
proof -
  obtain st' where "ogs_pfcp_xact_delete s st = Some (OGS_OK, st')" "pinv st'" "ptimer_total st' = ptimer_total st"
    "\<forall>t. plive st' t \<longleftrightarrow> plive st t \<and> t \<noteq> s" "\<forall>t. t \<noteq> s \<longrightarrow> pxact st' t = pxact st t"
    "ogs_pfcp_xact_find_by_id st' (px_id (pxact st s)) = None"
    by (rule delete_pinv [OF assms])
  then show thesis using that by (simp add: pfcp_commit_end_def pgood_def)
qed

definition ptx_step :: "pfcp_xact \<Rightarrow> bool" where
  "ptx_step x \<longleftrightarrow> px_org x = OGS_PFCP_LOCAL_ORIGINATOR \<and> (px_step x = 1 \<or> px_step x = 3)
     \<or> px_org x = OGS_PFCP_REMOTE_ORIGINATOR \<and> px_step x = 2"

lemma ptx_step_packet:
  assumes "pxact_ok x" "ptx_step x"
  obtains sq pk where "pfcp_seq_last x = Some sq" "sq_pkbuf sq = Some pk"
proof -
  have "1 \<le> px_step x" using assms(2) by (auto simp: ptx_step_def)
  then have "pfcp_seq_last x = Some (px_seq x ! (px_step x - 1))" by (rule pseq_last [OF assms(1)])
  moreover have "sq_pkbuf (px_seq x ! (px_step x - 1)) \<noteq> None"
    using assms by (auto simp: pxact_ok_def ptx_step_def)
  ultimately show thesis using that by blast
qed

lemma commit_send_good:
  assumes inv: "pinv st" and s: "plive st s" and tx: "ptx_step (pxact st s)"
  obtains st' where "pfcp_commit_send env s st = Some (OGS_OK, st')" "pgood st st'" "pframe s st st'"
    "\<forall>t. pxact st' t = pxact st t"
proof -
  note ok = pinvD(2) [OF inv s]
  obtain sq pk where sq: "pfcp_seq_last (pxact st s) = Some sq" "sq_pkbuf sq = Some pk" by (rule ptx_step_packet [OF ok tx])
  obtain st' where st': "pfcp_send_stored env s pk st = Some st'" "pframe s st st'" "\<forall>t. pxact st' t = pxact st t"
    by (rule send_stored_total [OF pinvD(3) [OF inv]])
  show thesis
    by (rule that [of st']) (use sq st' pgood_frame [OF st'(2) inv] ok in \<open>simp_all add: pfcp_commit_send_def\<close>)
qed

lemma inherit_imsi_frame:
  "pframe s st (pfcp_inherit_imsi env s type st)"
  "\<exists>i. pxact (pfcp_inherit_imsi env s type st) s = (pxact st s)\<lparr>px_imsi_bcd := i\<rparr>"
proof -
  show "pframe s st (pfcp_inherit_imsi env s type st)"
    by (auto simp: pfcp_inherit_imsi_def same_pxact_def split: option.split intro!: pframe_upd)
  have "pxact st s = (pxact st s)\<lparr>px_imsi_bcd := px_imsi_bcd (pxact st s)\<rparr>" by simp
  then have "\<exists>i. pxact st s = (pxact st s)\<lparr>px_imsi_bcd := i\<rparr>" by blast
  then show "\<exists>i. pxact (pfcp_inherit_imsi env s type st) s = (pxact st s)\<lparr>px_imsi_bcd := i\<rparr>"
    by (auto simp: pfcp_inherit_imsi_def split: option.split)
qed

text \<open>The first transmission of a request: the response timer starts before the packet is sent.\<close>

lemma commit_request_good:
  assumes inv: "pinv st" and s: "plive st s" and conf: "pconf_ok env"
    and x: "px_org (pxact st s) = OGS_PFCP_LOCAL_ORIGINATOR \<and> px_step (pxact st s) = 1
      \<or> px_org (pxact st s) = OGS_PFCP_REMOTE_ORIGINATOR \<and> px_step (pxact st s) = 2"
  shows "\<exists>st'. do { st \<leftarrow> pfcp_start_response env s st; pfcp_commit_send env s st } = Some (OGS_OK, st') \<and> pgood st st'
     \<and> pframe s st st' \<and> pxact st' s = (pxact st s)\<lparr>px_tm_response := Some (Tm_Running (pe_t1_response_duration env))\<rparr>"
proof -
  note ok = pinvD(2) [OF inv s]
  obtain st1 where st1: "pfcp_start_response env s st = Some st1" using start_response_total [OF conf] by blast
  note f = pstart_response_frame [OF st1]
  have x1: "pxact st1 s = (pxact st s)\<lparr>px_tm_response := Some (Tm_Running (pe_t1_response_duration env))\<rparr>"
    using f(2) ok by (auto simp: pxact_ok_def)
  have ok1: "pxact_ok (pxact st1 s)" using ok x by (auto simp: x1 pxact_ok_def)
  have g1: "pgood st st1" by (rule pgood_frame [OF f(1) inv ok1])
  have inv1: "pinv st1" using g1 by (simp add: pgood_def)
  have s1: "plive st1 s" using s plive_frame [OF f(1)] by simp
  have tx1: "ptx_step (pxact st1 s)" using x by (auto simp: x1 ptx_step_def)
  obtain st2 where st2: "pfcp_commit_send env s st1 = Some (OGS_OK, st2)" "pgood st1 st2" "pframe s st1 st2" "\<forall>t. pxact st2 t = pxact st1 t"
    by (rule commit_send_good [OF inv1 s1 tx1])
  then show ?thesis using st1 pgood_trans [OF g1 st2(2)] pframe_trans [OF f(1) st2(3)] x1 by simp
qed

lemma commit_good:
  assumes inv: "pinv st" and s: "plive st s" and conf: "pconf_ok env" and step: "1 \<le> px_step (pxact st s)"
  shows "\<exists>rv st'. ogs_pfcp_xact_commit env s st = Some (rv, st') \<and> pgood st st'"
proof -
  let ?x = "pxact st s"
  note ok = pinvD(2) [OF inv s]
  obtain sq where last: "pfcp_seq_last ?x = Some sq" using pseq_last [OF ok step] by blast
  define st1 where "st1 = pfcp_inherit_imsi env s (sq_type sq) st"
  note fr = inherit_imsi_frame [where s = s and st = st and env = env and type = "sq_type sq", folded st1_def]
  then obtain i where x1: "pxact st1 s = ?x\<lparr>px_imsi_bcd := i\<rparr>" by blast
  have ok1: "pxact_ok (pxact st1 s)" using ok by (simp add: x1 pxact_ok_def)
  have g1: "pgood st st1" by (rule pgood_frame [OF fr(1) inv ok1])
  then have inv1: "pinv st1" by (simp add: pgood_def)
  have s1: "plive st1 s" using s plive_frame [OF fr(1)] by simp
  have fin: "\<exists>rv st'. pfcp_commit_end s rv' st1 = Some (rv, st') \<and> pgood st st'" for rv'
    by (rule commit_end_good [OF inv1 s1, of rv']) (use pgood_trans [OF g1] in blast)
  have req: "\<exists>rv st'. do { st \<leftarrow> pfcp_start_response env s st1; pfcp_commit_send env s st } = Some (rv, st') \<and> pgood st st'"
    if "px_org ?x = OGS_PFCP_LOCAL_ORIGINATOR \<and> px_step ?x = 1 \<or> px_org ?x = OGS_PFCP_REMOTE_ORIGINATOR \<and> px_step ?x = 2"
    using commit_request_good [OF inv1 s1 conf] that pgood_trans [OF g1] by (auto simp: x1)
  have send: "\<exists>rv st'. pfcp_commit_send env s st1 = Some (rv, st') \<and> pgood st st'" if "ptx_step ?x"
  proof (rule commit_send_good [OF inv1 s1])
    show "ptx_step (pxact st1 s)" using that by (simp add: x1 ptx_step_def)
  qed (use pgood_trans [OF g1] in blast)
  show ?thesis
  proof (cases "px_org ?x = OGS_PFCP_LOCAL_ORIGINATOR")
    case True
    then show ?thesis
      using last fin req send
      by (cases "ogs_pfcp_xact_get_stage (sq_type sq) (px_xid ?x)")
        (simp_all add: ogs_pfcp_xact_commit_def Let_def st1_def [symmetric] x1 ptx_step_def)
  next
    case False
    then have "px_org ?x = OGS_PFCP_REMOTE_ORIGINATOR" using ok by (auto simp: pxact_ok_def)
    then show ?thesis
      using last fin req send
      by (cases "ogs_pfcp_xact_get_stage (sq_type sq) (px_xid ?x)")
        (simp_all add: ogs_pfcp_xact_commit_def Let_def st1_def [symmetric] x1 ptx_step_def)
  qed
qed

lemma delayed_commit_good:
  assumes inv: "pinv st" and s: "plive st s" and "d \<noteq> 0" and step: "1 \<le> px_step (pxact st s)"
  shows "\<exists>st'. ogs_pfcp_xact_delayed_commit s d st = Some st' \<and> pgood st st' \<and> pframe s st st'
     \<and> pxact st' s = (pxact st s)\<lparr>px_tm_delayed_commit := Some (Tm_Running d)\<rparr>"
proof -
  note ok = pinvD(2) [OF inv s]
  obtain t where t: "px_tm_delayed_commit (pxact st s) = Some t" using ok by (auto simp: pxact_ok_def)
  define st' where "st' = upd_pxact s (\<lambda>x. x\<lparr>px_tm_delayed_commit := Some (Tm_Running d)\<rparr>) st"
  have run: "ogs_pfcp_xact_delayed_commit s d st = Some st'"
    using assms(3) t by (simp add: ogs_pfcp_xact_delayed_commit_def tm_start_def st'_def)
  have f: "pframe s st st'" unfolding st'_def by (rule pframe_upd) (simp add: same_pxact_def)
  have x: "pxact st' s = (pxact st s)\<lparr>px_tm_delayed_commit := Some (Tm_Running d)\<rparr>" by (simp add: st'_def)
  have "pxact_ok (pxact st' s)" using ok step by (simp add: x pxact_ok_def)
  then show ?thesis using run f x pgood_frame [OF f inv] by blast
qed

section \<open>Receive\<close>

lemma pfcp_sel_org_iff [simp]: "pfcp_sel_org l = OGS_PFCP_LOCAL_ORIGINATOR \<longleftrightarrow> l"
  by (simp add: pfcp_sel_org_def)

lemma bit_pfcp_index_key:
  "bit (pfcp_xact_index_key org xid) n \<longleftrightarrow> (if n < 32 then bit xid n else 40 \<le> n \<and> n < 64 \<and> bit org (n - 40))"
proof -
  have "\<not> bit xid n" if "32 \<le> n" using that bit_imp_le_length [of xid n] by auto
  then show ?thesis by (auto simp: pfcp_xact_index_key_def bit_simps)
qed

lemma index_key_org:
  "pfcp_xact_index_key org xid = pfcp_xact_index_key org' xid' \<longleftrightarrow> org = org' \<and> xid = xid'"
proof
  assume "pfcp_xact_index_key org xid = pfcp_xact_index_key org' xid'"
  then have k: "bit (pfcp_xact_index_key org xid) n = bit (pfcp_xact_index_key org' xid') n" for n by simp
  have "bit xid n = bit xid' n" if "n < 32" for n using k [of n] that by (simp add: bit_pfcp_index_key)
  moreover have "bit org n = bit org' n" if "n < 8" for n using k [of "n + 40"] that by (simp add: bit_pfcp_index_key)
  ultimately show "org = org' \<and> xid = xid'" by (auto intro!: bit_word_eqI)
qed simp

text \<open>The lookup finds a transaction in use of the right node, originator and id.\<close>

lemma lookup_Some:
  assumes inv: "pinv st" and look: "pfcp_xact_lookup st g l xid = Some s"
  shows "plive st s" "px_node (pxact st s) = g" "px_xid (pxact st s) = xid" "px_org (pxact st s) = pfcp_sel_org l"
proof -
  note t = pinvD(1) [OF inv]
  have scan: "plive st s \<and> px_node (pxact st s) = g \<and> px_xid (pxact st s) = xid \<and> px_org (pxact st s) = pfcp_sel_org l"
    if "pfcp_xact_scan st g l xid = Some s" for s
  proof -
    have m: "s \<in> set (xt_list (ptab st) g l)" "px_xid (pxact st s) = xid"
      using find_Some_in [OF that [unfolded pfcp_xact_scan_def]] by simp_all
    then have "plive st s" "px_node (pxact st s) = g" "(px_org (pxact st s) = OGS_PFCP_LOCAL_ORIGINATOR) = l"
      using xt_invD(4) [OF t, of s g l] by auto
    then show ?thesis using m(2) pinvD(2) [OF inv, of s] by (auto simp: pfcp_sel_org_def pxact_ok_def)
  qed
  have "plive st s \<and> px_node (pxact st s) = g \<and> px_xid (pxact st s) = xid \<and> px_org (pxact st s) = pfcp_sel_org l"
  proof (cases "pfcp_xact_index_get st g (pfcp_sel_org l) xid = Some s \<and> px_xid (pxact st s) = xid")
    case True
    then have "xt_index (ptab st) g (pfcp_xact_index_key (pfcp_sel_org l) xid) = Some s" by (simp add: pfcp_xact_index_get_def)
    from xt_invD(5) [OF t this] have u: "plive st s" "px_node (pxact st s) = g"
      "px_hash_key (pxact st s) = pfcp_xact_index_key (pfcp_sel_org l) xid" by simp_all
    then show ?thesis using pinvD(2) [OF inv u(1)] True by (simp add: pxact_ok_def index_key_org)
  next
    case False
    then show ?thesis
      using look scan by (auto simp: pfcp_xact_lookup_def split: option.splits if_splits)
  qed
  then show "plive st s" "px_node (pxact st s) = g" "px_xid (pxact st s) = xid" "px_org (pxact st s) = pfcp_sel_org l"
    by auto
qed

text \<open>The second half of the receive function, on the transaction that was found or created.\<close>

definition rx_finish :: "pfcp_env \<Rightarrow> nat \<Rightarrow> u8 \<Rightarrow> pfcp_state \<Rightarrow> (ogs_rv \<times> nat option \<times> pfcp_state) option" where
  "rx_finish env s type st =
     do { (rv, st) \<leftarrow> ogs_pfcp_xact_update_rx env s type st;
          if rv = OGS_ERROR
          then do { (_, st) \<leftarrow> ogs_pfcp_xact_delete s st; Some (rv, None, st) }
          else if rv = OGS_RETRY then Some (rv, None, st)
          else Some (rv, Some s, st) }"

lemma receive_split:
  "ogs_pfcp_xact_receive env g h st =
     (case pfcp_rx_local (ogs_pfcp_xact_get_stage (ph_type h) (OGS_PFCP_SQN_TO_XID (ph_sqn h))) of
        None \<Rightarrow> Some (OGS_ERROR, None, st)
      | Some l \<Rightarrow>
          (case pfcp_xact_lookup st g l (OGS_PFCP_SQN_TO_XID (ph_sqn h)) of
             Some s \<Rightarrow> rx_finish env s (ph_type h) st
           | None \<Rightarrow> do { (r, st) \<leftarrow> ogs_pfcp_xact_remote_create env g (ph_sqn h) st; s \<leftarrow> r;
                          rx_finish env s (ph_type h) st }))"
  by (simp add: ogs_pfcp_xact_receive_def Let_def rx_finish_def split: option.split)

lemma rx_finish_good:
  assumes inv: "pinv st" and s: "plive st s" and conf: "pconf_ok env"
  obtains rv r st' where "rx_finish env s type st = Some (rv, r, st')" "pgood st st'"
    "rv = OGS_ERROR \<and> r = None \<and> ogs_pfcp_xact_update_rx env s type st = Some (OGS_ERROR, st)
        \<and> (\<forall>t. plive st' t \<longleftrightarrow> plive st t \<and> t \<noteq> s)
     \<or> rv = OGS_RETRY \<and> r = None \<and> pframe s st st' \<and> (\<exists>t. pxact st' s = (pxact st s)\<lparr>px_tm_holding := t\<rparr>)
     \<or> rv = OGS_OK \<and> r = Some s \<and> pframe s st st' \<and> px_step (pxact st' s) = px_step (pxact st s) + 1"
proof -
  obtain rv st1 where u: "ogs_pfcp_xact_update_rx env s type st = Some (rv, st1)" "pframe s st st1" "pxact_ok (pxact st1 s)"
    "rv = OGS_ERROR \<and> st1 = st \<or> rv = OGS_RETRY \<and> (\<exists>t. pxact st1 s = (pxact st s)\<lparr>px_tm_holding := t\<rparr>)
     \<or> rv = OGS_OK \<and> px_step (pxact st1 s) = px_step (pxact st s) + 1"
    by (rule update_rx_ok [OF pinvD(2) [OF inv s] conf pinvD(3) [OF inv]])
  note g = pgood_frame [OF u(2) inv u(3)]
  from u(4) show thesis
  proof (elim disjE conjE)
    assume e: "rv = OGS_ERROR" "st1 = st"
    obtain st2 where "ogs_pfcp_xact_delete s st = Some (OGS_OK, st2)" "pinv st2" "ptimer_total st2 = ptimer_total st"
      "\<forall>t. plive st2 t \<longleftrightarrow> plive st t \<and> t \<noteq> s" by (rule delete_pinv [OF inv s])
    then show thesis using that [of OGS_ERROR None st2] u(1) e by (simp add: rx_finish_def pgood_def)
  next
    assume "rv = OGS_RETRY" "\<exists>t. pxact st1 s = (pxact st s)\<lparr>px_tm_holding := t\<rparr>"
    then show thesis using that [of OGS_RETRY None st1] u(1,2) g by (simp add: rx_finish_def)
  next
    assume "rv = OGS_OK" "px_step (pxact st1 s) = px_step (pxact st s) + 1"
    then show thesis using that [of OGS_OK "Some s" st1] u(1,2) g by (simp add: rx_finish_def)
  qed
qed

lemma receive_good:
  assumes inv: "pinv st" and can: "pcan_create st" and conf: "pconf_ok env"
  shows "\<exists>rv r st'. ogs_pfcp_xact_receive env g h st = Some (rv, r, st') \<and> pgood st st'"
proof -
  let ?xid = "OGS_PFCP_SQN_TO_XID (ph_sqn h)"
  consider "pfcp_rx_local (ogs_pfcp_xact_get_stage (ph_type h) ?xid) = None"
    | l s where "pfcp_rx_local (ogs_pfcp_xact_get_stage (ph_type h) ?xid) = Some l" "pfcp_xact_lookup st g l ?xid = Some s"
    | l where "pfcp_rx_local (ogs_pfcp_xact_get_stage (ph_type h) ?xid) = Some l" "pfcp_xact_lookup st g l ?xid = None"
    by (meson option.exhaust_sel)
  then show ?thesis
  proof cases
    case 1 then show ?thesis using inv by (simp add: receive_split pgood_def)
  next
    case (2 l s)
    show ?thesis
      by (rule rx_finish_good [OF inv lookup_Some(1) [OF inv 2(2)] conf, of "ph_type h"])
        (use 2 in \<open>auto simp: receive_split\<close>)
  next
    case (3 l)
    obtain s i st1 where c: "ogs_pfcp_xact_remote_create env g (ph_sqn h) st = Some (Some s, st1)"
      "pcreated s (new_pxact env i OGS_PFCP_REMOTE_ORIGINATOR ?xid g None) st st1"
      by (rule premote_create_ok [OF inv can])
    note d = pcreatedD [OF c(2)]
    have g1: "pgood st st1" using d(1,7) by (simp add: pgood_def)
    show ?thesis
      by (rule rx_finish_good [OF d(1,6) conf, of "ph_type h"])
        (use 3 c(1) pgood_trans [OF g1] in \<open>auto simp: receive_split\<close>)
  qed
qed

section \<open>Timeouts\<close>

text \<open>What the layer relies on from the expiration callbacks of the network functions: they may use
  the layer, but the transaction that expired is still there afterwards and no timer is lost.\<close>

definition pcb_ok :: "pfcp_env \<Rightarrow> bool" where
  "pcb_ok env \<longleftrightarrow> (\<forall>c s st. pinv st \<and> plive st s \<longrightarrow>
     pgood st (pe_cb env c s st) \<and> plive (pe_cb env c s st) s
     \<and> px_id (pxact (pe_cb env c s st) s) = px_id (pxact st s))"

lemma pfind_for_timer:
  assumes inv: "pinv st"
  shows "ogs_pfcp_xact_find_by_id_for_timer st i = Some s \<longleftrightarrow> plive st s \<and> px_id (pxact st s) = i"
    "plive st s \<Longrightarrow> pool_id_ok (px_id (pxact st s))"
proof -
  note t = pinvD(1) [OF inv]
  have on: "ogs_pfcp_xact_on_list st s" if "plive st s" for s
  proof -
    let ?l = "px_org (pxact st s) = OGS_PFCP_LOCAL_ORIGINATOR"
    have "s \<in> set (xt_list (ptab st) (px_node (pxact st s)) ?l)" using xt_invD(4) [OF t, of s] that by simp
    then show ?thesis by (simp add: ogs_pfcp_xact_on_list_def pfcp_own_list_def pfcp_sel_list_def split: if_splits)
  qed
  show id: "pool_id_ok (px_id (pxact st s))" if "plive st s" for s
    using xt_invD(1) [OF t] that by (auto simp: xt_used_def idpool_inv_def)
  show "ogs_pfcp_xact_find_by_id_for_timer st i = Some s \<longleftrightarrow> plive st s \<and> px_id (pxact st s) = i"
    using plive_find [OF inv, of i s] on [of s] id [of s]
    by (auto simp: ogs_pfcp_xact_find_by_id_for_timer_def split: option.splits if_splits)
qed

lemma lag_defer_ok:
  assumes inv: "pinv st" and s: "plive st s" and run: "px_tm_response (pxact st s) = Some (Tm_Running d)"
  obtains "pfcp_xact_response_lag_defer env s st = Some (False, st)"
    | st' where "pfcp_xact_response_lag_defer env s st = Some (True, st')" "pframe s st st'" "pxact_ok (pxact st' s)"
        "px_lag_defer_count (pxact st s) < OGS_PFCP_XACT_LAG_MAX_DEFER"
        "st' = upd_pxact s (\<lambda>x. x\<lparr>px_lag_defer_count := px_lag_defer_count x + 1,
          px_tm_response := Some (Tm_Running OGS_PFCP_XACT_LAG_DEFER_INTERVAL)\<rparr>) st"
proof -
  let ?st = "upd_pxact s (\<lambda>x. x\<lparr>px_lag_defer_count := px_lag_defer_count x + 1,
          px_tm_response := Some (Tm_Running OGS_PFCP_XACT_LAG_DEFER_INTERVAL)\<rparr>) st"
  have "pframe s st ?st" by (rule pframe_upd) (simp add: same_pxact_def)
  moreover have "pxact_ok (pxact ?st s)" using pinvD(2) [OF inv s] run by (simp add: pxact_ok_def)
  moreover have "OGS_PFCP_XACT_LAG_DEFER_INTERVAL \<noteq> 0" by (simp add: OGS_PFCP_XACT_LAG_DEFER_INTERVAL_def)
  moreover from this have "pfcp_xact_response_lag_defer env s st = Some (False, st)
      \<or> pfcp_xact_response_lag_defer env s st = Some (True, ?st) \<and> px_lag_defer_count (pxact st s) < OGS_PFCP_XACT_LAG_MAX_DEFER"
    using run by (cases "pe_lag_cb env") (auto simp: pfcp_xact_response_lag_defer_def Let_def tm_start_def not_le)
  ultimately show thesis using that by blast
qed

definition pgive_up :: "pfcp_env \<Rightarrow> nat \<Rightarrow> nat \<Rightarrow> pfcp_state \<Rightarrow> pfcp_state" where
  "pgive_up env i s st =
     (case px_cb (pxact st s) of None \<Rightarrow> st | Some c \<Rightarrow> pe_cb env c s (st\<lparr>ps_cbs := ps_cbs st @ [(c, i)]\<rparr>))"

lemma pinv_cbs: "pinv (st\<lparr>ps_cbs := c\<rparr>) \<longleftrightarrow> pinv st" "plive (st\<lparr>ps_cbs := c\<rparr>) s \<longleftrightarrow> plive st s"
  "ptimer_total (st\<lparr>ps_cbs := c\<rparr>) = ptimer_total st"
proof -
  have t: "ptab (st\<lparr>ps_cbs := c\<rparr>) = ptab st" by (simp add: ptab_def pfcp_sel_list_def fun_eq_iff)
  show "pinv (st\<lparr>ps_cbs := c\<rparr>) \<longleftrightarrow> pinv st" "plive (st\<lparr>ps_cbs := c\<rparr>) s \<longleftrightarrow> plive st s" by (simp_all add: pinv_def t)
  show "ptimer_total (st\<lparr>ps_cbs := c\<rparr>) = ptimer_total st" by (simp add: ptimer_total_def)
qed

lemma give_up_good:
  assumes inv: "pinv st" and s: "plive st s" and cb: "pcb_ok env"
  shows "pgood st (pgive_up env i s st)" "plive (pgive_up env i s st) s"
    "px_id (pxact (pgive_up env i s st) s) = px_id (pxact st s)"
proof -
  have "pgood st (pgive_up env i s st) \<and> plive (pgive_up env i s st) s
    \<and> px_id (pxact (pgive_up env i s st) s) = px_id (pxact st s)"
  proof (cases "px_cb (pxact st s)")
    case None then show ?thesis using inv s by (simp add: pgive_up_def pgood_def)
  next
    case (Some c)
    let ?st = "st\<lparr>ps_cbs := ps_cbs st @ [(c, i)]\<rparr>"
    have "pinv ?st" "plive ?st s" using inv s by (simp_all add: pinv_cbs)
    then have "pgood ?st (pe_cb env c s ?st) \<and> plive (pe_cb env c s ?st) s \<and> px_id (pxact (pe_cb env c s ?st) s) = px_id (pxact ?st s)"
      using cb unfolding pcb_ok_def by blast
    then show ?thesis using Some by (simp add: pgive_up_def pgood_def pinv_cbs)
  qed
  then show "pgood st (pgive_up env i s st)" "plive (pgive_up env i s st) s"
    "px_id (pxact (pgive_up env i s st) s) = px_id (pxact st s)" by blast+
qed

text \<open>One expiration of a running response timer: deferred, retransmitted or given up.\<close>

lemma response_timeout_cases:
  assumes inv: "pinv st" and s: "plive st s" and run: "px_tm_response (pxact st s) = Some (Tm_Running d)"
    and conf: "pconf_ok env" and cb: "pcb_ok env"
  obtains (deferred) st' where "pfcp_response_timeout env (px_id (pxact st s)) st = Some st'" "pgood st st'" "pframe s st st'"
      "pxact st' s = (pxact st s)\<lparr>px_lag_defer_count := px_lag_defer_count (pxact st s) + 1,
          px_tm_response := Some (Tm_Running OGS_PFCP_XACT_LAG_DEFER_INTERVAL)\<rparr>"
      "px_lag_defer_count (pxact st s) < OGS_PFCP_XACT_LAG_MAX_DEFER" "ps_sent st' = ps_sent st"
  | (retransmit) st' st1 sq pk where "pfcp_response_timeout env (px_id (pxact st s)) st = Some st'" "pgood st st'" "pframe s st st'"
      "px_response_rcount (pxact st s) - 1 > 0"
      "pxact st' s = (pxact st s)\<lparr>px_response_rcount := px_response_rcount (pxact st s) - 1,
          px_tm_response := Some (Tm_Running (pe_t1_response_duration env))\<rparr>"
      "pfcp_seq_last (pxact st s) = Some sq" "sq_pkbuf sq = Some pk" "pfcp_send_stored env s pk st1 = Some st'" "ps_sent st1 = ps_sent st"
  | (given_up) st' st1 where "pfcp_response_timeout env (px_id (pxact st s)) st = Some st'" "pgood st st'"
      "\<not> px_response_rcount (pxact st s) - 1 > 0" "ogs_pfcp_xact_find_by_id st' (px_id (pxact st s)) = None"
      "pframe s st st1" "ps_sent st' = ps_sent (pgive_up env (px_id (pxact st s)) s st1)" "ps_sent st1 = ps_sent st"
proof -
  let ?x = "pxact st s" and ?i = "px_id (pxact st s)"
  note ok = pinvD(2) [OF inv s]
  have find: "ogs_pfcp_xact_find_by_id_for_timer st ?i = Some s" "pool_id_ok ?i"
    using pfind_for_timer [OF inv] s by simp_all
  show thesis
  proof (rule lag_defer_ok [OF inv s run, of env])
    fix st' assume "pfcp_xact_response_lag_defer env s st = Some (True, st')" and f: "pframe s st st'" and o: "pxact_ok (pxact st' s)"
      and l: "px_lag_defer_count ?x < OGS_PFCP_XACT_LAG_MAX_DEFER"
      and st': "st' = upd_pxact s (\<lambda>x. x\<lparr>px_lag_defer_count := px_lag_defer_count x + 1,
          px_tm_response := Some (Tm_Running OGS_PFCP_XACT_LAG_DEFER_INTERVAL)\<rparr>) st"
    then have "pfcp_response_timeout env ?i st = Some st'" by (simp add: pfcp_response_timeout_def find)
    then show thesis by (rule deferred [OF _ pgood_frame [OF f inv o] f]) (use l in \<open>simp_all add: st'\<close>)
  next
    assume nolag: "pfcp_xact_response_lag_defer env s st = Some (False, st)"
    define st1 where "st1 = upd_pxact s (\<lambda>x. x\<lparr>px_response_rcount := px_response_rcount x - 1\<rparr>) st"
    have x1: "pxact st1 s = ?x\<lparr>px_response_rcount := px_response_rcount ?x - 1\<rparr>" "ps_sent st1 = ps_sent st" by (simp_all add: st1_def)
    have f1: "pframe s st st1" unfolding st1_def by (rule pframe_upd) (simp add: same_pxact_def)
    have ok1: "pxact_ok (pxact st1 s)" using ok by (simp add: x1 pxact_ok_def)
    note g1 = pgood_frame [OF f1 inv ok1]
    then have inv1: "pinv st1" by (simp add: pgood_def)
    have s1: "plive st1 s" using s plive_frame [OF f1] by simp
    have tmo: "pfcp_response_timeout env ?i st = (if px_response_rcount ?x - 1 > 0
        then do { st \<leftarrow> pfcp_start_response env s st1; sq \<leftarrow> pfcp_seq_last (pxact st s); pkbuf \<leftarrow> sq_pkbuf sq; pfcp_send_stored env s pkbuf st }
        else do { (_, st) \<leftarrow> ogs_pfcp_xact_delete s (pgive_up env ?i s st1); Some st })"
      by (cases "px_cb ?x") (simp_all add: pfcp_response_timeout_def find nolag Let_def st1_def [symmetric] pgive_up_def x1)
    show thesis
    proof (cases "px_response_rcount ?x - 1 > 0")
      case True
      obtain st2 where st2: "pfcp_start_response env s st1 = Some st2" using start_response_total [OF conf] by blast
      note f2 = pstart_response_frame [OF st2]
      have x2: "pxact st2 s = ?x\<lparr>px_response_rcount := px_response_rcount ?x - 1,
          px_tm_response := Some (Tm_Running (pe_t1_response_duration env))\<rparr>"
        using f2(2) run by (simp add: x1)
      have ok2: "pxact_ok (pxact st2 s)" using ok run by (auto simp: x2 pxact_ok_def)
      have "ptx_step ?x" using ok run by (auto simp: pxact_ok_def ptx_step_def)
      then obtain sq pk where sq: "pfcp_seq_last ?x = Some sq" "sq_pkbuf sq = Some pk" by (rule ptx_step_packet [OF ok])
      have sq2: "pfcp_seq_last (pxact st2 s) = Some sq"
        unfolding sq(1) [symmetric] by (simp add: x2 pfcp_seq_last_def pfcp_seq_get_def)
      have "px_node (pxact st2 s) = px_node ?x" by (simp add: x2)
      then obtain st3 where st3: "pfcp_send_stored env s pk st2 = Some st3" "pframe s st2 st3" "\<forall>t. pxact st3 t = pxact st2 t"
        using send_stored_total [of st2 s env pk] pinvD(3) [OF inv1] f2(4) by metis
      have r: "pfcp_response_timeout env ?i st = Some st3" using tmo True st2 sq2 sq(2) st3(1) by simp
      have f3: "pframe s st st3" by (rule pframe_trans [OF pframe_trans [OF f1 f2(1)] st3(2)])
      have x3: "pxact st3 s = pxact st2 s" using st3(3) by simp
      have "pgood st st3" by (rule pgood_frame [OF f3 inv]) (simp add: x3 ok2)
      then show thesis
        by (rule retransmit [OF r _ f3 True x3 [unfolded x2] sq st3(1)]) (simp add: f2(3) x1)
    next
      case False
      note u = give_up_good [OF inv1 s1 cb, of ?i]
      have inv2: "pinv (pgive_up env ?i s st1)" using u(1) by (simp add: pgood_def)
      obtain st3 where st3: "ogs_pfcp_xact_delete s (pgive_up env ?i s st1) = Some (OGS_OK, st3)" "pinv st3"
        "ptimer_total st3 = ptimer_total (pgive_up env ?i s st1)"
        "ogs_pfcp_xact_find_by_id st3 (px_id (pxact (pgive_up env ?i s st1) s)) = None"
        "ps_sent st3 = ps_sent (pgive_up env ?i s st1)"
        by (rule delete_pinv [OF inv2 u(2)])
      have r: "pfcp_response_timeout env ?i st = Some st3" using tmo False st3(1) by simp
      have g: "pgood st st3" using st3(2,3) u(1) g1 by (simp add: pgood_def)
      show thesis
        by (rule given_up [OF r g False _ f1 st3(5) x1(2)]) (use st3(4) u(3) x1 in simp)
    qed
  qed
qed

lemma response_timeout_good:
  assumes "pinv st" "pconf_ok env" "pcb_ok env" "pool_id_ok i"
    and "\<And>s. ogs_pfcp_xact_find_by_id_for_timer st i = Some s \<Longrightarrow> \<exists>d. px_tm_response (pxact st s) = Some (Tm_Running d)"
  shows "\<exists>st'. pfcp_response_timeout env i st = Some st' \<and> pgood st st'"
proof (cases "ogs_pfcp_xact_find_by_id_for_timer st i")
  case None then show ?thesis using assms(1,4) by (simp add: pfcp_response_timeout_def pgood_def)
next
  case (Some s)
  then have s: "plive st s" "px_id (pxact st s) = i" using pfind_for_timer [OF assms(1)] by simp_all
  obtain d where "px_tm_response (pxact st s) = Some (Tm_Running d)" using assms(5) [OF Some] by blast
  then show ?thesis
    by (rule response_timeout_cases [OF assms(1) s(1) _ assms(2,3), unfolded s(2)]) blast+
qed

lemma holding_timeout_good:
  assumes inv: "pinv st" and conf: "pconf_ok env" and i: "pool_id_ok i"
  shows "\<exists>st'. pfcp_holding_timeout env i st = Some st' \<and> pgood st st'"
proof (cases "ogs_pfcp_xact_find_by_id_for_timer st i")
  case None then show ?thesis using inv i by (simp add: pfcp_holding_timeout_def pgood_def)
next
  case (Some s)
  then have s: "plive st s" using pfind_for_timer [OF inv] by simp
  define st1 where "st1 = upd_pxact s (\<lambda>x. x\<lparr>px_holding_rcount := px_holding_rcount x - 1\<rparr>) st"
  have f1: "pframe s st st1" unfolding st1_def by (rule pframe_upd) (simp add: same_pxact_def)
  have ok1: "pxact_ok (pxact st1 s)" using pinvD(2) [OF inv s] by (simp add: st1_def pxact_ok_def)
  note g1 = pgood_frame [OF f1 inv ok1]
  then have inv1: "pinv st1" by (simp add: pgood_def)
  have s1: "plive st1 s" using s plive_frame [OF f1] by simp
  obtain st2 where st2: "pfcp_start_holding env s st1 = Some st2" using start_holding_total [OF conf] by blast
  note f2 = start_holding_frame [OF st2]
  have g2: "pgood st1 st2" by (rule pgood_frame [OF f2(1) inv1]) (simp add: f2(2) pxact_ok_holding ok1)
  obtain st3 where st3: "ogs_pfcp_xact_delete s st1 = Some (OGS_OK, st3)" "pinv st3" "ptimer_total st3 = ptimer_total st1"
    by (rule delete_pinv [OF inv1 s1])
  then have g3: "pgood st st3" using g1 by (simp add: pgood_def)
  have "pfcp_holding_timeout env i st = (if px_holding_rcount (pxact st1 s) > 0 then Some st2 else Some st3)"
    using Some i st2 st3(1) by (simp add: pfcp_holding_timeout_def Let_def st1_def [symmetric])
  then show ?thesis using pgood_trans [OF g1 g2] g3 by auto
qed

lemma delayed_commit_timeout_good:
  assumes inv: "pinv st" and conf: "pconf_ok env" and i: "pool_id_ok i"
    and run: "\<And>s. ogs_pfcp_xact_find_by_id_for_timer st i = Some s \<Longrightarrow> \<exists>d. px_tm_delayed_commit (pxact st s) = Some (Tm_Running d)"
  shows "\<exists>st'. delayed_commit_timeout env i st = Some st' \<and> pgood st st'"
proof (cases "ogs_pfcp_xact_find_by_id_for_timer st i")
  case None then show ?thesis using inv i by (simp add: delayed_commit_timeout_def pgood_def)
next
  case (Some s)
  then have s: "plive st s" using pfind_for_timer [OF inv] by simp
  have "1 \<le> px_step (pxact st s)" using run [OF Some] pinvD(2) [OF inv s] by (auto simp: pxact_ok_def)
  then show ?thesis using commit_good [OF inv s conf] Some i by (auto simp: delayed_commit_timeout_def)
qed

section \<open>Deleting all transactions of a node\<close>

lemma delete_list_good:
  assumes "pinv st" "distinct l" "\<And>s. s \<in> set l \<Longrightarrow> plive st s \<and> px_node (pxact st s) = g"
  shows "\<exists>st'. pfcp_delete_list l st = Some st' \<and> pgood st st' \<and> (\<forall>t. plive st' t \<longleftrightarrow> plive st t \<and> t \<notin> set l)
     \<and> (\<forall>t. t \<notin> set l \<longrightarrow> pxact st' t = pxact st t) \<and> ps_sent st' = ps_sent st"
  using assms
proof (induction l arbitrary: st)
  case Nil then show ?case by (simp add: pgood_def)
next
  case (Cons s l)
  have s: "plive st s" using Cons.prems(3) by simp
  obtain st1 where st1: "ogs_pfcp_xact_delete s st = Some (OGS_OK, st1)" "pinv st1" "ptimer_total st1 = ptimer_total st"
    "\<forall>t. plive st1 t \<longleftrightarrow> plive st t \<and> t \<noteq> s" "\<forall>t. t \<noteq> s \<longrightarrow> pxact st1 t = pxact st t" "ps_sent st1 = ps_sent st"
    by (rule delete_pinv [OF Cons.prems(1) s])
  have "plive st1 t \<and> px_node (pxact st1 t) = g" if "t \<in> set l" for t
  proof -
    have "t \<noteq> s" using that Cons.prems(2) by auto
    then show ?thesis using Cons.prems(3) [of t] that st1(4,5) by simp
  qed
  from Cons.IH [OF st1(2) _ this] obtain st2 where st2: "pfcp_delete_list l st1 = Some st2" "pgood st1 st2"
    "\<forall>t. plive st2 t \<longleftrightarrow> plive st1 t \<and> t \<notin> set l" "\<forall>t. t \<notin> set l \<longrightarrow> pxact st2 t = pxact st1 t" "ps_sent st2 = ps_sent st1"
    using Cons.prems(2) by auto
  have "pgood st st2" using st2(2) st1(3) by (simp add: pgood_def)
  then show ?case using st1(1,4,5,6) st2 by auto
qed

lemma delete_all_good:
  assumes inv: "pinv st"
  obtains st' where "ogs_pfcp_xact_delete_all g st = Some st'" "pgood st st'"
    "\<forall>t. plive st' t \<longleftrightarrow> plive st t \<and> px_node (pxact st t) \<noteq> g"
    "\<forall>t. px_node (pxact st t) \<noteq> g \<longrightarrow> pxact st' t = pxact st t" "ps_sent st' = ps_sent st"
proof -
  have mem: "s \<in> set (pfcp_sel_list st g l) \<longleftrightarrow> plive st s \<and> px_node (pxact st s) = g \<and> (px_org (pxact st s) = OGS_PFCP_LOCAL_ORIGINATOR) = l"
    and dist: "distinct (pfcp_sel_list st g l)" if "pinv st" for s l st
    using xt_invD(3) [OF pinvD(1) [OF that], of g l] xt_invD(4) [OF pinvD(1) [OF that], of s g l] by auto
  obtain st1 where st1: "pfcp_delete_list (pfcp_sel_list st g True) st = Some st1" "pgood st st1"
    "\<forall>t. plive st1 t \<longleftrightarrow> plive st t \<and> t \<notin> set (pfcp_sel_list st g True)"
    "\<forall>t. t \<notin> set (pfcp_sel_list st g True) \<longrightarrow> pxact st1 t = pxact st t" "ps_sent st1 = ps_sent st"
    using delete_list_good [OF inv dist [OF inv], of True g] mem [OF inv, of _ True] by auto
  have inv1: "pinv st1" using st1(2) by (simp add: pgood_def)
  obtain st2 where st2: "pfcp_delete_list (pfcp_sel_list st1 g False) st1 = Some st2" "pgood st1 st2"
    "\<forall>t. plive st2 t \<longleftrightarrow> plive st1 t \<and> t \<notin> set (pfcp_sel_list st1 g False)"
    "\<forall>t. t \<notin> set (pfcp_sel_list st1 g False) \<longrightarrow> pxact st2 t = pxact st1 t" "ps_sent st2 = ps_sent st1"
    using delete_list_good [OF inv1 dist [OF inv1], of False g] mem [OF inv1, of _ False] by auto
  have l1: "plive st1 t \<longleftrightarrow> plive st t \<and> \<not> (px_node (pxact st t) = g \<and> px_org (pxact st t) = OGS_PFCP_LOCAL_ORIGINATOR)" for t
    using st1(3) mem [OF inv, of t True] by auto
  have x1: "pxact st1 t = pxact st t" if "plive st1 t \<or> px_node (pxact st t) \<noteq> g" for t
    using that st1(3,4) mem [OF inv, of t True] by auto
  have l2: "plive st2 t \<longleftrightarrow> plive st t \<and> px_node (pxact st t) \<noteq> g" for t
  proof (cases "plive st1 t")
    case True
    then show ?thesis using st2(3) mem [OF inv1, of t False] x1 [of t] l1 [of t] by auto
  next
    case False then show ?thesis using st2(3) l1 [of t] by auto
  qed
  have x2: "pxact st2 t = pxact st t" if "px_node (pxact st t) \<noteq> g" for t
    using that x1 [of t] mem [OF inv1, of t False] st2(4) by auto
  have run: "ogs_pfcp_xact_delete_all g st = Some st2"
    using st1(1) st2(1) by (simp add: ogs_pfcp_xact_delete_all_def pfcp_sel_list_def)
  show thesis
    by (rule that [OF run pgood_trans [OF st1(2) st2(2)]]) (use l2 x2 st2(5) st1(5) in simp_all)
qed

end
