(* ===== verification/Pfcp_Xact_Pool.thy ===== *)
theory Pfcp_Xact_Pool
  imports Pfcp_Xact_Calls
begin

text \<open>
  The operations of the PFCP transaction layer when resources run out: no operation changes the size of the
  transaction pool, a free transaction finds its timers when the timer pool was set up with three for each, and with
  no transaction left, creating returns nothing and receiving goes on with the transactions there are. The lookup by
  originator and sequence number finds every transaction or one of the same key.
\<close>

section \<open>The size of the pool\<close>

abbreviation ppsize :: "pfcp_state \<Rightarrow> nat" where
  "ppsize st \<equiv> ip_size (ps_pool st)"

lemma pindex_pool [simp]:
  "ps_pool (pfcp_xact_index_del s st) = ps_pool st" "ps_pool (pfcp_xact_index_add s st) = ps_pool st"
  "ps_pool (upd_pfcp_own_list f x st) = ps_pool st" "ps_pool (pfcp_timers_delete s st) = ps_pool st"
  "ps_pool (pfcp_xact_link s st) = ps_pool st" "ps_pool (pfcp_inherit_imsi env s type st) = ps_pool st"
  "ps_pool (pfcp_xact_trace_tx env s pk st) = ps_pool st" "ps_pool (ogs_pfcp_xact_set_imsi s imsi st) = ps_pool st"
  by (simp_all add: pfcp_xact_index_del_def pfcp_xact_index_add_def upd_pfcp_own_list_def pfcp_timers_delete_def
      pfcp_xact_link_def pfcp_inherit_imsi_def pfcp_xact_trace_tx_def ogs_pfcp_xact_set_imsi_def Let_def split: option.split)

lemma pdelete_psize: "ogs_pfcp_xact_delete s st = Some (rv, st') \<Longrightarrow> ppsize st' = ppsize st"
  by (auto simp: ogs_pfcp_xact_delete_def Let_def idpool_size(1) split: bind_splits)

lemma pdelete_list_psize: "pfcp_delete_list l st = Some st' \<Longrightarrow> ppsize st' = ppsize st"
  by (induction l arbitrary: st) (auto simp: pdelete_psize split: bind_splits)

lemma pdelete_all_psize: "ogs_pfcp_xact_delete_all g st = Some st' \<Longrightarrow> ppsize st' = ppsize st"
  by (auto simp: ogs_pfcp_xact_delete_all_def pdelete_list_psize split: bind_splits)

lemma padd_pool:
  "pfcp_add_response env s st = Some st' \<Longrightarrow> ps_pool st' = ps_pool st" "pfcp_add_holding env s st = Some st' \<Longrightarrow> ps_pool st' = ps_pool st"
  "pfcp_add_delayed s st = Some st' \<Longrightarrow> ps_pool st' = ps_pool st"
  by (auto simp: pfcp_add_response_def pfcp_add_holding_def pfcp_add_delayed_def pfcp_timer_add_def split: if_splits)

lemma pcreate_fail_psize: "pfcp_create_fail s st = Some (r, st') \<Longrightarrow> ppsize st' = ppsize st"
  by (auto simp: pfcp_create_fail_def pdelete_psize split: bind_splits)

lemma pcreate_timers_psize: "pfcp_create_timers env s st = Some (r, st') \<Longrightarrow> ppsize st' = ppsize st"
  by (auto simp: pfcp_create_timers_def dest!: pcreate_fail_psize padd_pool split: option.splits)

lemma pcalloc_psize: "pfcp_xact_calloc st = (r, st') \<Longrightarrow> ppsize st' = ppsize st"
  using idpool_size(2) [of "ps_pool st"] by (auto simp: pfcp_xact_calloc_def split: prod.splits option.splits)

lemma pnext_xid_pool: "pfcp_xact_next_xid env st = (xid, st') \<Longrightarrow> ps_pool st' = ps_pool st"
  by (auto simp: pfcp_xact_next_xid_def Let_def split: if_splits)

lemma plocal_create_psize: "ogs_pfcp_xact_local_create env g cb st = Some (r, st') \<Longrightarrow> ppsize st' = ppsize st"
  by (auto simp: ogs_pfcp_xact_local_create_def dest!: pcreate_timers_psize pcalloc_psize pnext_xid_pool
      split: prod.splits option.splits)

lemma premote_create_psize: "ogs_pfcp_xact_remote_create env g sqn st = Some (r, st') \<Longrightarrow> ppsize st' = ppsize st"
  by (auto simp: ogs_pfcp_xact_remote_create_def dest!: pcreate_timers_psize pcalloc_psize split: prod.splits option.splits)

lemma pupdate_tx_pool: "ogs_pfcp_xact_update_tx s hdesc pk st = Some (rv, st') \<Longrightarrow> ps_pool st' = ps_pool st"
  by (auto simp: ogs_pfcp_xact_update_tx_def Let_def split: bind_splits if_splits)

lemma psendto_pool: "ogs_pfcp_sendto env g pk st = Some (rv, st') \<Longrightarrow> ps_pool st' = ps_pool st"
  by (auto simp: ogs_pfcp_sendto_def Let_def split: bind_splits if_splits)

lemma psend_stored_pool: "pfcp_send_stored env s pk st = Some st' \<Longrightarrow> ps_pool st' = ps_pool st"
  by (auto simp: pfcp_send_stored_def dest!: psendto_pool split: bind_splits)

lemma pstart_pool:
  "pfcp_start_holding env s st = Some st' \<Longrightarrow> ps_pool st' = ps_pool st" "pfcp_start_response env s st = Some st' \<Longrightarrow> ps_pool st' = ps_pool st"
  by (auto simp: pfcp_start_holding_def pfcp_start_response_def split: bind_splits)

lemma prx_pool:
  "pfcp_rx_duplicate env s k st = Some (rv, st') \<Longrightarrow> ps_pool st' = ps_pool st" "pfcp_rx_accept s type st = Some (rv, st') \<Longrightarrow> ps_pool st' = ps_pool st"
  by (auto simp: pfcp_rx_duplicate_def pfcp_rx_accept_def Let_def dest!: psend_stored_pool pstart_pool
      split: bind_splits option.splits if_splits)

lemma pupdate_rx_pool: "ogs_pfcp_xact_update_rx env s type st = Some (rv, st') \<Longrightarrow> ps_pool st' = ps_pool st"
  by (auto simp: ogs_pfcp_xact_update_rx_def Let_def dest!: prx_pool pstart_pool
      split: bind_splits if_splits pfcp_xact_stage.splits)

lemma rx_finish_psize: "rx_finish env s type st = Some (rv, r, st') \<Longrightarrow> ppsize st' = ppsize st"
  by (auto simp: rx_finish_def dest!: pupdate_rx_pool pdelete_psize split: bind_splits if_splits)

lemma preceive_psize: "ogs_pfcp_xact_receive env g h st = Some (rv, r, st') \<Longrightarrow> ppsize st' = ppsize st"
  by (auto simp: receive_split dest!: rx_finish_psize premote_create_psize split: option.splits bind_splits)

lemma pcommit_parts_psize:
  "pfcp_commit_end s rv st = Some (rv', st') \<Longrightarrow> ppsize st' = ppsize st" "pfcp_commit_send env s st = Some (rv', st') \<Longrightarrow> ppsize st' = ppsize st"
  by (auto simp: pfcp_commit_end_def pfcp_commit_send_def dest!: psend_stored_pool pdelete_psize split: bind_splits)

lemma pcommit_psize:
  assumes "ogs_pfcp_xact_commit env s st = Some (rv, st')"
  shows "ppsize st' = ppsize st"
proof -
  obtain sq where sq: "pfcp_seq_last (pxact st s) = Some sq" using assms by (auto simp: ogs_pfcp_xact_commit_def split: bind_splits)
  define st1 where "st1 = pfcp_inherit_imsi env s (sq_type sq) st"
  have "ppsize st' = ppsize st1"
    using assms by (auto simp: ogs_pfcp_xact_commit_def Let_def sq st1_def [symmetric] dest!: pcommit_parts_psize pstart_pool
        split: bind_splits if_splits pfcp_xact_stage.splits)
  then show ?thesis by (simp add: st1_def)
qed

definition pcb_sized :: "pfcp_env \<Rightarrow> bool" where
  "pcb_sized env \<longleftrightarrow> (\<forall>c s st. ppsize (pe_cb env c s st) = ppsize st)"

lemma plag_defer_pool: "pfcp_xact_response_lag_defer env s st = Some (b, st') \<Longrightarrow> ps_pool st' = ps_pool st"
  by (auto simp: pfcp_xact_response_lag_defer_def Let_def split: option.splits if_splits bind_splits)

lemma presponse_timeout_psize:
  assumes cb: "pcb_sized env" and run: "pfcp_response_timeout env i st = Some st'"
  shows "ppsize st' = ppsize st"
proof (cases "ogs_pfcp_xact_find_by_id_for_timer st i")
  case None
  then show ?thesis using run by (auto simp: pfcp_response_timeout_def split: if_splits)
next
  case (Some s)
  obtain b st1 where lag: "pfcp_xact_response_lag_defer env s st = Some (b, st1)"
    using run Some by (auto simp: pfcp_response_timeout_def split: if_splits bind_splits)
  have p1: "ps_pool st1 = ps_pool st" by (rule plag_defer_pool [OF lag])
  have "ppsize st' = ppsize st1"
    using run cb by (auto simp: pfcp_response_timeout_def Some lag Let_def pcb_sized_def
        dest!: pdelete_psize psend_stored_pool pstart_pool split: if_splits bind_splits option.splits)
  then show ?thesis using p1 by simp
qed

lemma pholding_timeout_psize: "pfcp_holding_timeout env i st = Some st' \<Longrightarrow> ppsize st' = ppsize st"
  by (auto simp: pfcp_holding_timeout_def Let_def dest!: pdelete_psize pstart_pool split: option.splits if_splits)

lemma pdelayed_timeout_psize: "delayed_commit_timeout env i st = Some st' \<Longrightarrow> ppsize st' = ppsize st"
  by (auto simp: delayed_commit_timeout_def dest!: pcommit_psize split: option.splits if_splits)

lemma pdelayed_commit_psize: "ogs_pfcp_xact_delayed_commit s d st = Some st' \<Longrightarrow> ppsize st' = ppsize st"
  by (auto simp: ogs_pfcp_xact_delayed_commit_def split: if_splits bind_splits)

section \<open>Timers for every transaction\<close>

definition pnext_id_unused :: "pfcp_state \<Rightarrow> bool" where
  "pnext_id_unused st \<longleftrightarrow> (ip_free (ps_pool st) \<noteq> [] \<longrightarrow> idpool_fresh (ps_pool st))"

lemma pcan_create_iff:
  assumes inv: "pinv st" and tm: "3 * ppsize st \<le> ptimer_total st" and id: "pnext_id_unused st"
  shows "pcan_create st \<longleftrightarrow> ip_free (ps_pool st) \<noteq> []"
proof -
  have p: "idpool_inv (ps_pool st)" using xt_invD(1) [OF pinvD(1) [OF inv]] by simp
  have "length (ip_free (ps_pool st)) = card (set (ip_free (ps_pool st)))" using p by (simp add: idpool_inv_def distinct_card)
  also have "\<dots> \<le> ppsize st" using p card_mono [of "{..<ppsize st}" "set (ip_free (ps_pool st))"] by (auto simp: idpool_inv_def)
  finally have "3 * length (ip_free (ps_pool st)) \<le> ps_tm_avail st" using tm by (simp add: ptimer_total_def)
  then have "3 \<le> ps_tm_avail st" if "ip_free (ps_pool st) \<noteq> []" using that by (cases "ip_free (ps_pool st)") simp_all
  then show ?thesis using id by (auto simp: pcan_create_def pnext_id_unused_def)
qed

section \<open>No transaction left\<close>

lemma pcreate_empty:
  assumes "ip_free (ps_pool st) = []"
  shows "ogs_pfcp_xact_local_create env g cb st = Some (None, st)" "ogs_pfcp_xact_remote_create env g sqn st = Some (None, st)"
  using assms by (simp_all add: ogs_pfcp_xact_local_create_def ogs_pfcp_xact_remote_create_def pfcp_xact_calloc_def idpool_calloc_def)

lemma preceive_no_create:
  assumes inv: "pinv st" and conf: "pconf_ok env" and empty: "ip_free (ps_pool st) = []"
    and run: "ogs_pfcp_xact_receive env g h st = Some (rv, r, st')"
  shows "pgood st st'"
proof -
  have found: "pgood st st'" if "plive st s" "rx_finish env s (ph_type h) st = Some (rv, r, st')" for s
    by (rule rx_finish_good [OF inv that(1) conf, of "ph_type h"]) (use that(2) in simp)
  have refl: "pgood st st" using inv by (simp add: pgood_def)
  show ?thesis
    using run refl unfolding receive_split pcreate_empty(2) [OF empty]
    by (auto split: option.splits dest: found [OF lookup_Some(1) [OF inv]])
qed

section \<open>The index\<close>

text \<open>An entry of a node's index is a transaction in use of that node with that key, and every transaction in use is
  found under its node, originator and sequence number, or another of the same key is.\<close>

lemma index_entry:
  assumes inv: "pinv st" and e: "pn_xact_hash (ps_nodes st g) k = Some s"
  shows "plive st s" "px_node (pxact st s) = g" "k = pfcp_xact_index_key (px_org (pxact st s)) (px_xid (pxact st s))"
proof -
  have e': "xt_index (ptab st) g k = Some s" using e by simp
  show l: "plive st s" "px_node (pxact st s) = g" using xt_invD(5) [OF pinvD(1) [OF inv] e'] by simp_all
  show "k = pfcp_xact_index_key (px_org (pxact st s)) (px_xid (pxact st s))"
    using xt_invD(5) [OF pinvD(1) [OF inv] e'] pinvD(2) [OF inv l(1)] by (simp add: pxact_ok_def)
qed

lemma lookup_complete:
  assumes inv: "pinv st" and s: "plive st s"
  shows "pfcp_xact_lookup st (px_node (pxact st s)) (px_org (pxact st s) = OGS_PFCP_LOCAL_ORIGINATOR) (px_xid (pxact st s)) \<noteq> None"
proof -
  let ?x = "pxact st s" and ?l = "px_org (pxact st s) = OGS_PFCP_LOCAL_ORIGINATOR"
  have "s \<in> set (pfcp_sel_list st (px_node ?x) ?l)" using xt_invD(4) [OF pinvD(1) [OF inv], of s] s by simp
  then have "pfcp_xact_scan st (px_node ?x) ?l (px_xid ?x) \<noteq> None" by (auto simp: pfcp_xact_scan_def find_None_iff)
  then show ?thesis by (auto simp: pfcp_xact_lookup_def split: option.splits)
qed

end
