(* ===== verification/Pfcp_Props.thy ===== *)
theory Pfcp_Props
  imports Pfcp_Xact_Pool
begin

text \<open>
  Properties of the PFCP transaction layer: the invariant over all sequences of interface calls, the
  absence of aborts, the refinement of the abstract transaction table and bounded retransmission.
\<close>

section \<open>Sequences of calls\<close>

text \<open>One call of the interface by the network function or the timer manager that returns. Creating
  and receiving may happen in every state, also when the pool is exhausted; asked is only that the
  id counter has not come round to the id of a transaction that is still there. The network function
  commits only transactions that it or the peer has put a message into, a transmit step of this side
  carries a message of the stage table, and a response or delayed commit timer fires only for a
  transaction that started it.\<close>

inductive pfcp_step :: "pfcp_state \<Rightarrow> pfcp_state \<Rightarrow> bool" where
  local_create: "pnext_id_unused st \<Longrightarrow> ogs_pfcp_xact_local_create env g cb st = Some (r, st') \<Longrightarrow> pfcp_step st st'"
| update_tx: "plive st s \<Longrightarrow> ogs_pfcp_xact_update_tx s hdesc pk st = Some (rv, st') \<Longrightarrow> pfcp_step st st'"
| commit: "plive st s \<Longrightarrow> pconf_ok env \<Longrightarrow> 1 \<le> px_step (pxact st s) \<Longrightarrow>
     ogs_pfcp_xact_commit env s st = Some (rv, st') \<Longrightarrow> pfcp_step st st'"
| delayed_commit: "plive st s \<Longrightarrow> d \<noteq> 0 \<Longrightarrow> 1 \<le> px_step (pxact st s) \<Longrightarrow>
     ogs_pfcp_xact_delayed_commit s d st = Some st' \<Longrightarrow> pfcp_step st st'"
| set_imsi: "plive st s \<Longrightarrow> ogs_pfcp_xact_set_imsi s imsi st = st' \<Longrightarrow> pfcp_step st st'"
| receive: "pnext_id_unused st \<Longrightarrow> pconf_ok env \<Longrightarrow> ogs_pfcp_xact_receive env g h st = Some (rv, r, st') \<Longrightarrow> pfcp_step st st'"
| response: "pconf_ok env \<Longrightarrow> pcb_ok env \<Longrightarrow> pcb_sized env \<Longrightarrow> pool_id_ok i \<Longrightarrow>
     (\<And>s. ogs_pfcp_xact_find_by_id_for_timer st i = Some s \<Longrightarrow> \<exists>d. px_tm_response (pxact st s) = Some (Tm_Running d)) \<Longrightarrow>
     pfcp_response_timeout env i st = Some st' \<Longrightarrow> pfcp_step st st'"
| holding: "pconf_ok env \<Longrightarrow> pool_id_ok i \<Longrightarrow> pfcp_holding_timeout env i st = Some st' \<Longrightarrow> pfcp_step st st'"
| delayed: "pconf_ok env \<Longrightarrow> pool_id_ok i \<Longrightarrow>
     (\<And>s. ogs_pfcp_xact_find_by_id_for_timer st i = Some s \<Longrightarrow> \<exists>d. px_tm_delayed_commit (pxact st s) = Some (Tm_Running d)) \<Longrightarrow>
     delayed_commit_timeout env i st = Some st' \<Longrightarrow> pfcp_step st st'"
| delete: "plive st s \<Longrightarrow> ogs_pfcp_xact_delete s st = Some (rv, st') \<Longrightarrow> pfcp_step st st'"
| delete_all: "ogs_pfcp_xact_delete_all g st = Some st' \<Longrightarrow> pfcp_step st st'"

inductive pfcp_reach :: "pfcp_state \<Rightarrow> pfcp_state \<Rightarrow> bool" for st where
  start: "pfcp_reach st st"
| step: "pfcp_reach st a \<Longrightarrow> pfcp_step a b \<Longrightarrow> pfcp_reach st b"

lemma update_tx_good:
  assumes "pinv st" "plive st s" "ogs_pfcp_xact_update_tx s hdesc pk st = Some (rv, st')"
  shows "pgood st st'"
  using pupdate_tx_frame [OF assms(3) pinvD(2) [OF assms(1,2)]] pgood_frame [OF _ assms(1)] by blast

lemma set_imsi_good:
  assumes "pinv st" "plive st s"
  shows "pgood st (ogs_pfcp_xact_set_imsi s imsi st)"
proof (cases "imsi = []")
  case True then show ?thesis using assms(1) by (simp add: ogs_pfcp_xact_set_imsi_def pgood_def)
next
  case False
  have "pframe s st (upd_pxact s (\<lambda>x. x\<lparr>px_imsi_bcd := imsi_copy imsi\<rparr>) st)" by (rule pframe_upd) (simp add: same_pxact_def)
  then show ?thesis
    using False pgood_frame [OF _ assms(1)] pinvD(2) [OF assms] by (simp add: ogs_pfcp_xact_set_imsi_def pxact_ok_def)
qed

lemma local_create_good:
  assumes "pinv st" "3 * ppsize st \<le> ptimer_total st" "pnext_id_unused st" "ogs_pfcp_xact_local_create env g cb st = Some (r, st')"
  shows "pgood st st'"
proof (cases "ip_free (ps_pool st) = []")
  case True
  then show ?thesis using pcreate_empty(1) [OF True] assms(1,4) by (simp add: pgood_def)
next
  case False
  then have can: "pcan_create st" using pcan_create_iff [OF assms(1-3)] by simp
  obtain s i st1 where "ogs_pfcp_xact_local_create env g cb st = Some (Some s, st1)"
    "pcreated s (new_pxact env i OGS_PFCP_LOCAL_ORIGINATOR (fst (pfcp_xact_next_xid env st)) g cb) st st1"
    by (rule local_create_ok [OF assms(1) can])
  then show ?thesis using assms(4) pcreatedD(1,7) by (auto simp: pgood_def)
qed

lemma receive_any_good:
  assumes "pinv st" "3 * ppsize st \<le> ptimer_total st" "pnext_id_unused st" "pconf_ok env"
    and "ogs_pfcp_xact_receive env g h st = Some (rv, r, st')"
  shows "pgood st st'"
proof (cases "ip_free (ps_pool st) = []")
  case True
  then show ?thesis using preceive_no_create [OF assms(1,4) True assms(5)] by simp
next
  case False
  then have "pcan_create st" using pcan_create_iff [OF assms(1-3)] by simp
  then show ?thesis using receive_good [OF assms(1) _ assms(4), of g h] assms(5) by auto
qed

lemma delete_good: "pinv st \<Longrightarrow> plive st s \<Longrightarrow> ogs_pfcp_xact_delete s st = Some (rv, st') \<Longrightarrow> pgood st st'"
  by (rule delete_pinv) (auto simp: pgood_def)

lemma delete_all_pgood: "pinv st \<Longrightarrow> ogs_pfcp_xact_delete_all g st = Some st' \<Longrightarrow> pgood st st'"
  by (rule delete_all_good [where g = g]) auto

lemma pfcp_step_good:
  assumes "pfcp_step st st'" "pinv st" "3 * ppsize st \<le> ptimer_total st"
  shows "pgood st st'"
  using assms(1)
proof cases
  case local_create then show ?thesis using local_create_good [OF assms(2,3)] by blast
next
  case update_tx then show ?thesis using update_tx_good [OF assms(2)] by blast
next
  case commit then show ?thesis using commit_good [OF assms(2)] by fastforce
next
  case delayed_commit then show ?thesis using delayed_commit_good [OF assms(2)] by fastforce
next
  case set_imsi then show ?thesis using set_imsi_good [OF assms(2)] by blast
next
  case receive then show ?thesis using receive_any_good [OF assms(2,3)] by blast
next
  case response then show ?thesis using response_timeout_good [OF assms(2)] by fastforce
next
  case holding then show ?thesis using holding_timeout_good [OF assms(2)] by fastforce
next
  case delayed then show ?thesis using delayed_commit_timeout_good [OF assms(2)] by fastforce
next
  case delete then show ?thesis using delete_good [OF assms(2)] by blast
next
  case delete_all then show ?thesis using delete_all_pgood [OF assms(2)] by blast
qed

lemma pfcp_step_psize: "pfcp_step st st' \<Longrightarrow> ppsize st' = ppsize st"
  by (induction rule: pfcp_step.induct)
    (auto dest: plocal_create_psize pupdate_tx_pool pcommit_psize preceive_psize presponse_timeout_psize
      pholding_timeout_psize pdelayed_timeout_psize pdelayed_commit_psize pdelete_psize pdelete_all_psize)

lemma pfcp_reach_good:
  "pfcp_reach st st' \<Longrightarrow> pinv st \<Longrightarrow> 3 * ppsize st \<le> ptimer_total st \<Longrightarrow> pgood st st' \<and> ppsize st' = ppsize st"
proof (induction rule: pfcp_reach.induct)
  case (step a b)
  then have a: "pinv a" "ptimer_total a = ptimer_total st" "ppsize a = ppsize st" by (auto simp: pgood_def)
  then show ?case
    using pfcp_step_good [OF step.hyps(2) a(1)] pfcp_step_psize [OF step.hyps(2)] step.prems(2) by (simp add: pgood_def)
qed (simp add: pgood_def)

text \<open>A thread before \<open>ogs_pfcp_xact_init\<close>: nodes with addresses and without transactions.\<close>

definition blank_pnode :: "pfcp_addr list \<Rightarrow> pfcp_node" where
  "blank_pnode addrs = \<lparr>pn_addr_list = addrs, pn_current_addr = None, pn_local_list = [], pn_remote_list = [],
     pn_xact_hash = Map.empty\<rparr>"

definition blank_pstate :: "(nat \<Rightarrow> pfcp_addr list) \<Rightarrow> nat \<Rightarrow> pfcp_state" where
  "blank_pstate addrs timers =
     \<lparr>ps_ready = False, ps_pool = idpool_init 0 0, ps_xacts = (\<lambda>_. pfcp_xact_zero), ps_nodes = (\<lambda>g. blank_pnode (addrs g)),
      ps_tm_avail = timers, ps_xact_id = 0, ps_sent = [], ps_traces = [], ps_cbs = []\<rparr>"

definition addrs_ok :: "(nat \<Rightarrow> pfcp_addr list) \<Rightarrow> bool" where
  "addrs_ok addrs \<longleftrightarrow> (\<forall>g. addrs g \<noteq> [] \<and> (\<forall>a \<in> set (addrs g). pa_family a \<noteq> AF_OTHER))"

lemma pfcp_init_inv:
  assumes "ogs_pfcp_xact_init env rnd (blank_pstate addrs timers) = Some (OGS_OK, st)" "addrs_ok addrs"
  shows "pinv st" "ptimer_total st = timers" "ppsize st = pe_pool_xact env"
proof -
  have st: "ps_pool st = idpool_init (pe_pool_xact env) 0" "ps_nodes st = (\<lambda>g. blank_pnode (addrs g))" "ps_tm_avail st = timers"
    using assms(1) by (auto simp: ogs_pfcp_xact_init_def blank_pstate_def idpool_init_def)
  have dead: "\<not> plive st s" for s by (simp add: xt_used_def st idpool_init_def)
  have "idpool_inv (idpool_init (pe_pool_xact env) 0)" by (rule idpool_init_inv) simp
  then have "xt_inv (ptab st)"
    by (simp add: xt_inv_def dead st pfcp_sel_list_def blank_pnode_def) (simp add: idpool_init_def)
  then show "pinv st" using assms(2) by (simp add: pinv_def dead st pnode_ok_def blank_pnode_def addrs_ok_def)
  show "ptimer_total st = timers" by (simp add: ptimer_total_def st idpool_init_def)
  show "ppsize st = pe_pool_xact env" by (simp add: st idpool_init_def)
qed

text \<open>C26. Whatever sequence of interface calls, received messages and timer expirations runs after
  \<open>ogs_pfcp_xact_init\<close>, exhaustion of the transaction pool included, provided that the timer pool was
  set up with three timers for every transaction of the pool, that no creation is made while the id
  counter stands before the id of a transaction still there, that transactions are committed only
  with a message and that the expiration callbacks leave the layer well-formed: a
  transaction found by its id has that id, is on the list of its node and originator, is at most at
  step 3, and the lookup under its node, originator and sequence number finds a transaction of the
  same node, originator and sequence number; an entry of a node's index is a transaction
  in use of that node, under the key of its originator and sequence number; the lists hold no
  transaction twice and no transaction that is not in use; and three timers are held for each
  transaction in use, so that no sequence of calls leaks timers.\<close>

theorem pfcp_layer_invariant:
  assumes "ogs_pfcp_xact_init env rnd (blank_pstate addrs timers) = Some (OGS_OK, st0)" "addrs_ok addrs"
    and "3 * pe_pool_xact env \<le> timers" "pfcp_reach st0 st"
  shows "(\<forall>i s. ogs_pfcp_xact_find_by_id st i = Some s \<longrightarrow>
       px_id (pxact st s) = i \<and> ogs_pfcp_xact_on_list st s \<and> px_step (pxact st s) \<le> 3
       \<and> (\<exists>t. pfcp_xact_lookup st (px_node (pxact st s)) (px_org (pxact st s) = OGS_PFCP_LOCAL_ORIGINATOR) (px_xid (pxact st s)) = Some t
            \<and> px_node (pxact st t) = px_node (pxact st s) \<and> px_org (pxact st t) = px_org (pxact st s)
            \<and> px_xid (pxact st t) = px_xid (pxact st s)))
     \<and> (\<forall>g k s. pn_xact_hash (ps_nodes st g) k = Some s \<longrightarrow>
          ogs_pfcp_xact_find_by_id st (px_id (pxact st s)) = Some s \<and> px_node (pxact st s) = g
          \<and> k = pfcp_xact_index_key (px_org (pxact st s)) (px_xid (pxact st s)))
     \<and> (\<forall>g l s. distinct (pfcp_sel_list st g l)
         \<and> (s \<in> set (pfcp_sel_list st g l) \<longrightarrow> ogs_pfcp_xact_find_by_id st (px_id (pxact st s)) = Some s \<and> px_node (pxact st s) = g))
     \<and> ps_tm_avail st + 3 * (ip_size (ps_pool st) - length (ip_free (ps_pool st))) = timers"
proof -
  have inv: "pinv st" and tt: "ptimer_total st = timers"
    using pfcp_init_inv [OF assms(1,2)] pfcp_reach_good [OF assms(4)] assms(3) by (auto simp: pgood_def)
  have "px_id (pxact st s) = i \<and> ogs_pfcp_xact_on_list st s \<and> px_step (pxact st s) \<le> 3
       \<and> (\<exists>t. pfcp_xact_lookup st (px_node (pxact st s)) (px_org (pxact st s) = OGS_PFCP_LOCAL_ORIGINATOR) (px_xid (pxact st s)) = Some t
            \<and> px_node (pxact st t) = px_node (pxact st s) \<and> px_org (pxact st t) = px_org (pxact st s)
            \<and> px_xid (pxact st t) = px_xid (pxact st s))"
    if "ogs_pfcp_xact_find_by_id st i = Some s" for i s
  proof -
    have s: "plive st s" "px_id (pxact st s) = i" using that plive_find [OF inv] by simp_all
    then have "ogs_pfcp_xact_find_by_id_for_timer st i = Some s" using pfind_for_timer(1) [OF inv] by simp
    then have on: "ogs_pfcp_xact_on_list st s"
      by (auto simp: ogs_pfcp_xact_find_by_id_for_timer_def split: option.splits if_splits)
    have ok: "pxact_ok (pxact st s)" by (rule pinvD(2) [OF inv s(1)])
    obtain t where t: "pfcp_xact_lookup st (px_node (pxact st s)) (px_org (pxact st s) = OGS_PFCP_LOCAL_ORIGINATOR) (px_xid (pxact st s)) = Some t"
      using lookup_complete [OF inv s(1)] by auto
    have "px_org (pxact st t) = px_org (pxact st s)"
      using lookup_Some(4) [OF inv t] ok by (auto simp: pfcp_sel_org_def pxact_ok_def)
    then show ?thesis using on s(2) ok t lookup_Some(2,3) [OF inv t] by (auto simp: pxact_ok_def)
  qed
  moreover have "ogs_pfcp_xact_find_by_id st (px_id (pxact st s)) = Some s \<and> px_node (pxact st s) = g
          \<and> k = pfcp_xact_index_key (px_org (pxact st s)) (px_xid (pxact st s))"
    if "pn_xact_hash (ps_nodes st g) k = Some s" for g k s
    using index_entry [OF inv that] plive_find [OF inv] by simp
  moreover have "distinct (pfcp_sel_list st g l)
         \<and> (s \<in> set (pfcp_sel_list st g l) \<longrightarrow> ogs_pfcp_xact_find_by_id st (px_id (pxact st s)) = Some s \<and> px_node (pxact st s) = g)" for g l s
    using xt_invD(3) [OF pinvD(1) [OF inv], of g l] xt_invD(4) [OF pinvD(1) [OF inv], of s g l] plive_find [OF inv] by simp
  ultimately show ?thesis using tt unfolding ptimer_total_def by blast
qed

text \<open>A configuration for the witnesses.\<close>

definition pdemo_env :: pfcp_env where
  "pdemo_env = \<lparr>pe_worker_self = None, pe_shards_active = False, pe_pool_xact = 2,
     pe_n1_response_rcount = 3, pe_t1_response_duration = 2500000, pe_n1_holding_rcount = 1, pe_t1_holding_duration = 7500000,
     pe_lag_cb = None, pe_sock = Some True, pe_sock6 = None, pe_os_sent = (\<lambda>_ p. int (length p)),
     pe_trace_filter = False, pe_trace_imsi = None, pe_cb = (\<lambda>c s st. st)\<rparr>"

definition pdemo_addrs :: "nat \<Rightarrow> pfcp_addr list" where
  "pdemo_addrs g = [\<lparr>pa_family = AF_INET, pa_host = 1\<rparr>, \<lparr>pa_family = AF_INET, pa_host = 2\<rparr>]"

definition pdemo_init :: pfcp_state where
  "pdemo_init = (blank_pstate pdemo_addrs 6)\<lparr>ps_pool := idpool_init 2 0, ps_xact_id := 8, ps_ready := True\<rparr>"

lemma pdemo_init: "ogs_pfcp_xact_init pdemo_env 7 (blank_pstate pdemo_addrs 6) = Some (OGS_OK, pdemo_init)"
  by (simp add: ogs_pfcp_xact_init_def blank_pstate_def pdemo_init_def idpool_init_def pdemo_env_def
      PFCP_MAX_XACT_ID_def PFCP_MIN_XACT_ID_def)

lemma pdemo_ok: "addrs_ok pdemo_addrs" "pconf_ok pdemo_env" "pcb_ok pdemo_env" "pinv pdemo_init" "pcan_create pdemo_init"
proof -
  show a: "addrs_ok pdemo_addrs" by (simp add: addrs_ok_def pdemo_addrs_def)
  show "pinv pdemo_init" by (rule pfcp_init_inv [OF pdemo_init a])
  show "pconf_ok pdemo_env" "pcb_ok pdemo_env" by (simp_all add: pconf_ok_def pcb_ok_def pdemo_env_def pgood_def)
  show "pcan_create pdemo_init" by (simp add: pcan_create_def pdemo_init_def idpool_init_def blank_pstate_def idpool_fresh_def)
qed

theorem pfcp_layer_invariant_witness:
  "\<exists>r st. ogs_pfcp_xact_local_create pdemo_env 0 None pdemo_init = Some (r, st) \<and> pfcp_reach pdemo_init st
     \<and> ps_tm_avail st + 3 * (ip_size (ps_pool st) - length (ip_free (ps_pool st))) = 6"
proof -
  obtain s i st where run: "ogs_pfcp_xact_local_create pdemo_env 0 None pdemo_init = Some (Some s, st)"
    using local_create_ok [OF pdemo_ok(4,5)] by metis
  have "pnext_id_unused pdemo_init" using pdemo_ok(5) by (simp add: pcan_create_def pnext_id_unused_def)
  then have "pfcp_reach pdemo_init st"
    by (rule pfcp_reach.step [OF pfcp_reach.start pfcp_step.local_create [OF _ run]])
  moreover have "3 * pe_pool_xact pdemo_env \<le> 6" by (simp add: pdemo_env_def)
  ultimately show ?thesis using pfcp_layer_invariant [OF pdemo_init pdemo_ok(1)] run by blast
qed

text \<open>Creation and deletion of PFCP transactions refine the abstract transaction table: with the
  node lists, the index, the pool and the identities of the transactions read as a table, creating a
  local transaction adds exactly one entry (at the tail of the node's local list, and to the index
  unless its key is taken), deleting one removes exactly that entry, and the other transactions stay
  as they are.\<close>

theorem pfcp_refines_table:
  assumes "pinv st" "pcan_create st"
  shows "(\<exists>s i pool st'. ogs_pfcp_xact_local_create env g cb st = Some (Some s, st')
       \<and> idpool_calloc (ps_pool st) = (Some (s, i), pool)
       \<and> ptab st' = xt_add s i g True (pfcp_xact_index_key OGS_PFCP_LOCAL_ORIGINATOR (fst (pfcp_xact_next_xid env st))) pool (ptab st)
       \<and> (\<forall>t. t \<noteq> s \<longrightarrow> pxact st' t = pxact st t))
     \<and> (\<forall>s. plive st s \<longrightarrow>
          (\<exists>pool st'. ogs_pfcp_xact_delete s st = Some (OGS_OK, st')
             \<and> idpool_free (ps_pool st) s (px_id (pxact st s)) = Some pool
             \<and> ptab st' = xt_del s pool (ptab st) \<and> (\<forall>t. t \<noteq> s \<longrightarrow> pxact st' t = pxact st t)))"
proof (intro conjI allI impI)
  obtain s i st' where r: "ogs_pfcp_xact_local_create env g cb st = Some (Some s, st')"
    and c: "pcreated s (new_pxact env i OGS_PFCP_LOCAL_ORIGINATOR (fst (pfcp_xact_next_xid env st)) g cb) st st'"
    by (rule local_create_ok [OF assms])
  then show "\<exists>s i pool st'. ogs_pfcp_xact_local_create env g cb st = Some (Some s, st')
       \<and> idpool_calloc (ps_pool st) = (Some (s, i), pool)
       \<and> ptab st' = xt_add s i g True (pfcp_xact_index_key OGS_PFCP_LOCAL_ORIGINATOR (fst (pfcp_xact_next_xid env st))) pool (ptab st)
       \<and> (\<forall>t. t \<noteq> s \<longrightarrow> pxact st' t = pxact st t)"
    by (auto simp: pcreated_def)
next
  fix s assume s: "plive st s"
  show "\<exists>pool st'. ogs_pfcp_xact_delete s st = Some (OGS_OK, st')
             \<and> idpool_free (ps_pool st) s (px_id (pxact st s)) = Some pool
             \<and> ptab st' = xt_del s pool (ptab st) \<and> (\<forall>t. t \<noteq> s \<longrightarrow> pxact st' t = pxact st t)"
    by (rule delete_refines [OF assms(1) s]) blast
qed

theorem pfcp_refines_table_witness:
  "\<exists>s pool st'. ogs_pfcp_xact_local_create pdemo_env 0 None pdemo_init = Some (Some s, st')
     \<and> ptab st' = xt_add s 1 0 True (pfcp_xact_index_key OGS_PFCP_LOCAL_ORIGINATOR 9) pool (ptab pdemo_init)"
proof -
  have n: "fst (pfcp_xact_next_xid pdemo_env pdemo_init) = 9"
    by (simp add: pfcp_xact_next_xid_def pdemo_env_def pdemo_init_def PFCP_MAX_XACT_ID_def)
  have "i = 1" if "idpool_calloc (ps_pool pdemo_init) = (Some (s, i), pool)" for s i pool
    using that by (auto simp: idpool_calloc_def pdemo_init_def idpool_init_def Let_def OGS_NEXT_ID_def OGS_MAX_POOL_ID_def split: list.splits)
  then show ?thesis
    using pfcp_refines_table [OF pdemo_ok(4,5), of pdemo_env 0 None] unfolding n by blast
qed

text \<open>C27. No handler of the PFCP layer aborts on a well-formed state, with non-zero timer durations and
  well-behaved callbacks, whatever the sockets do. Committing returns for every transaction that
  carries a message, at any step and with any timers, and deleting for every transaction; the
  expiration of a holding timer returns, of a stale id too, and so do those of a response or delayed
  commit timer that was running or whose transaction is gone, and the deletion of all transactions of
  a node. With a free transaction, an unused id and three timers, creating and receiving any header
  return; with no free transaction creating returns null and changes nothing. No assertion fails, no
  history slot outside the array is accessed, and no missing packet is dereferenced.\<close>

theorem pfcp_handlers_do_not_abort:
  assumes "pinv st" "pconf_ok env" "pcb_ok env"
  shows "(\<forall>s. plive st s \<longrightarrow> ogs_pfcp_xact_delete s st \<noteq> None
          \<and> (1 \<le> px_step (pxact st s) \<longrightarrow> ogs_pfcp_xact_commit env s st \<noteq> None))
     \<and> (\<forall>i. pool_id_ok i \<longrightarrow> pfcp_holding_timeout env i st \<noteq> None
          \<and> ((\<forall>s. ogs_pfcp_xact_find_by_id_for_timer st i = Some s \<longrightarrow>
                (\<exists>d. px_tm_response (pxact st s) = Some (Tm_Running d))) \<longrightarrow> pfcp_response_timeout env i st \<noteq> None)
          \<and> ((\<forall>s. ogs_pfcp_xact_find_by_id_for_timer st i = Some s \<longrightarrow>
                (\<exists>d. px_tm_delayed_commit (pxact st s) = Some (Tm_Running d))) \<longrightarrow> delayed_commit_timeout env i st \<noteq> None))
     \<and> ogs_pfcp_xact_delete_all g st \<noteq> None
     \<and> (pcan_create st \<longrightarrow> ogs_pfcp_xact_local_create env g cb st \<noteq> None \<and> ogs_pfcp_xact_receive env g h st \<noteq> None)
     \<and> (ip_free (ps_pool st) = [] \<longrightarrow> ogs_pfcp_xact_local_create env g cb st = Some (None, st))"
proof (intro conjI allI impI)
  show "ogs_pfcp_xact_delete s st \<noteq> None" if "plive st s" for s
    by (rule delete_pinv [OF assms(1) that]) simp
  show "ogs_pfcp_xact_commit env s st \<noteq> None" if "plive st s" "1 \<le> px_step (pxact st s)" for s
    using commit_good [OF assms(1) that(1) assms(2) that(2)] by auto
  show "pfcp_holding_timeout env i st \<noteq> None" if "pool_id_ok i" for i
    using holding_timeout_good [OF assms(1,2) that] by auto
  show "pfcp_response_timeout env i st \<noteq> None"
    if "pool_id_ok i" "\<forall>s. ogs_pfcp_xact_find_by_id_for_timer st i = Some s \<longrightarrow>
          (\<exists>d. px_tm_response (pxact st s) = Some (Tm_Running d))" for i
    using response_timeout_good [OF assms that(1)] that(2) by auto
  show "delayed_commit_timeout env i st \<noteq> None"
    if "pool_id_ok i" "\<forall>s. ogs_pfcp_xact_find_by_id_for_timer st i = Some s \<longrightarrow>
          (\<exists>d. px_tm_delayed_commit (pxact st s) = Some (Tm_Running d))" for i
    using delayed_commit_timeout_good [OF assms(1,2) that(1)] that(2) by auto
  show "ogs_pfcp_xact_delete_all g st \<noteq> None" by (rule delete_all_good [OF assms(1), of g]) simp
  show "ogs_pfcp_xact_local_create env g cb st \<noteq> None" if "pcan_create st"
    by (rule local_create_ok [OF assms(1) that, of env g cb]) simp
  show "ogs_pfcp_xact_receive env g h st \<noteq> None" if "pcan_create st"
    using receive_good [OF assms(1) that assms(2), of g h] by auto
qed (simp add: pcreate_empty)

text \<open>States with a single transaction.\<close>

definition one_pxact :: "pfcp_xact \<Rightarrow> pfcp_state" where
  "one_pxact x = pfcp_xact_link 0 ((blank_pstate pdemo_addrs 3)\<lparr>ps_ready := True,
     ps_pool := \<lparr>ip_free = [1], ip_size = 2, ip_ids = Map.empty(1 \<mapsto> 0), ip_id = 1\<rparr>,
     ps_xacts := (\<lambda>_. pfcp_xact_zero)(0 := x)\<rparr>)"

lemma one_pxact_inv:
  assumes ok: "pxact_ok x" and x: "px_id x = 1" "px_node x = 0"
  shows "pinv (one_pxact x)" "pcan_create (one_pxact x)" "plive (one_pxact x) 0" "pxact (one_pxact x) 0 = x"
    "ps_sent (one_pxact x) = []" "ps_cbs (one_pxact x) = []"
proof -
  let ?pool = "\<lparr>ip_free = [1], ip_size = 2, ip_ids = Map.empty(1 \<mapsto> 0), ip_id = 1\<rparr> :: idpool"
  define st0 where "st0 = (blank_pstate pdemo_addrs 3)\<lparr>ps_ready := True, ps_pool := idpool_init 2 0\<rparr>"
  define st1 where "st1 = (blank_pstate pdemo_addrs 3)\<lparr>ps_ready := True, ps_pool := ?pool, ps_xacts := (\<lambda>_. pfcp_xact_zero)(0 := x)\<rparr>"
  have eq: "one_pxact x = pfcp_xact_link 0 st1" by (simp add: one_pxact_def st1_def)
  have st1: "ps_pool st1 = ?pool" "ps_nodes st1 = ps_nodes st0" "\<And>t. t \<noteq> 0 \<Longrightarrow> pxact st1 t = pxact st0 t" "x = pxact st1 0"
    by (simp_all add: st1_def st0_def pxact_def blank_pstate_def)
  note l = link_refines [OF st1(1,2,3,4) x(1)]
  have dead: "\<not> plive st0 s" for s by (simp add: xt_used_def st0_def idpool_init_def)
  have t0: "xt_inv (ptab st0)"
    using idpool_init_inv [of 0 2] by (simp add: xt_inv_def dead)
      (simp add: st0_def blank_pstate_def pfcp_sel_list_def blank_pnode_def idpool_init_def)
  have calloc: "idpool_calloc (xt_pool (ptab st0)) = (Some (0, 1), ?pool)" "idpool_fresh (xt_pool (ptab st0))"
    by (simp_all add: st0_def idpool_init_def idpool_calloc_def idpool_fresh_def Let_def OGS_NEXT_ID_def OGS_MAX_POOL_ID_def
        upt_rec numeral_2_eq_2)
  have "px_hash_key x = pfcp_xact_index_key (px_org x) (px_xid x)" using ok by (simp add: pxact_ok_def)
  then have xs: "pxact (one_pxact x) t = (if t = 0 then x else pxact st0 t)" for t using l(2) by (simp add: eq)
  define t1 where "t1 = xt_add 0 1 (px_node x) (px_org x = OGS_PFCP_LOCAL_ORIGINATOR)
      (pfcp_xact_index_key (px_org x) (px_xid x)) ?pool (ptab st0)"
  have tab: "ptab (one_pxact x) = t1" unfolding t1_def eq by (rule l(1))
  have used: "plive (one_pxact x) t \<longleftrightarrow> t = 0" for t
    unfolding tab unfolding t1_def xt_add_used(2) [OF t0 calloc(2,1)] using dead by blast
  have n0: "pnode_ok (ps_nodes st0 g)" for g
    using pdemo_ok(1) by (simp add: st0_def blank_pstate_def blank_pnode_def pnode_ok_def addrs_ok_def)
  have "pnode_ok (ps_nodes (one_pxact x) g)" for g
    unfolding eq by (rule l(6)) (simp_all add: n0)
  moreover have "xt_inv (ptab (one_pxact x))" unfolding tab t1_def by (rule xt_add_inv [OF t0 calloc(2,1)])
  ultimately show "pinv (one_pxact x)" using ok by (simp add: pinv_def used xs)
  show "plive (one_pxact x) 0" "pxact (one_pxact x) 0 = x" by (simp_all add: used xs)
  show "ps_sent (one_pxact x) = []" "ps_cbs (one_pxact x) = []"
    using l(4,5) by (simp_all add: eq) (simp_all add: st1_def blank_pstate_def)
  have "ps_pool (one_pxact x) = ?pool" using arg_cong [OF tab, of xt_pool] by (simp add: t1_def xt_add_def)
  then show "pcan_create (one_pxact x)"
    using l(3) by (simp add: pcan_create_def eq idpool_fresh_def OGS_NEXT_ID_def OGS_MAX_POOL_ID_def st1_def blank_pstate_def)
qed

text \<open>A Session Establishment Request with id 9 that has been sent and waits for its answer, with its
  delayed commit timer still running.\<close>

definition pdemo_waiting :: pfcp_xact where
  "pdemo_waiting = (new_pxact pdemo_env 1 OGS_PFCP_LOCAL_ORIGINATOR 9 0 (Some 5))\<lparr>px_step := 1,
     px_tm_response := Some (Tm_Running 2500000), px_tm_delayed_commit := Some (Tm_Running 1000),
     px_seq := [\<lparr>sq_type = 50, sq_pkbuf = Some [1, 2, 3]\<rparr>, \<lparr>sq_type = 0, sq_pkbuf = None\<rparr>,
                \<lparr>sq_type = 0, sq_pkbuf = None\<rparr>]\<rparr>"

lemma pdemo_waiting_inv:
  "pinv (one_pxact pdemo_waiting)" "pcan_create (one_pxact pdemo_waiting)" "plive (one_pxact pdemo_waiting) 0"
  "pxact (one_pxact pdemo_waiting) 0 = pdemo_waiting"
  "ps_sent (one_pxact pdemo_waiting) = []" "ps_cbs (one_pxact pdemo_waiting) = []"
  by (rule one_pxact_inv; simp add: pdemo_waiting_def pxact_ok_def)+

lemma pdemo_waiting_fields [simp]:
  "px_id pdemo_waiting = 1" "px_tm_response pdemo_waiting = Some (Tm_Running 2500000)" "px_response_rcount pdemo_waiting = 3"
  "px_tm_delayed_commit pdemo_waiting = Some (Tm_Running 1000)" "px_xid pdemo_waiting = 9" "px_step pdemo_waiting = 1"
  "px_org pdemo_waiting = OGS_PFCP_LOCAL_ORIGINATOR" "px_node pdemo_waiting = 0"
  "px_seq pdemo_waiting ! 0 = \<lparr>sq_type = 50, sq_pkbuf = Some [1, 2, 3]\<rparr>" "px_lag_defer_count pdemo_waiting = 0"
  "px_cb pdemo_waiting = Some 5"
  by (simp_all add: pdemo_waiting_def pdemo_env_def)

text \<open>An ordinary request of the peer that is being worked on: step 1, only the holding timer running.\<close>

definition pdemo_remote :: pfcp_xact where
  "pdemo_remote = (new_pxact pdemo_env 1 OGS_PFCP_REMOTE_ORIGINATOR 9 0 None)\<lparr>px_step := 1,
     px_tm_holding := Some (Tm_Running 7500000),
     px_seq := [\<lparr>sq_type = 50, sq_pkbuf = None\<rparr>, \<lparr>sq_type = 0, sq_pkbuf = None\<rparr>, \<lparr>sq_type = 0, sq_pkbuf = None\<rparr>]\<rparr>"

lemma pdemo_remote_inv:
  "pinv (one_pxact pdemo_remote)" "plive (one_pxact pdemo_remote) 0" "pxact (one_pxact pdemo_remote) 0 = pdemo_remote"
  by (rule one_pxact_inv; simp add: pdemo_remote_def pxact_ok_def)+

theorem pfcp_handlers_do_not_abort_witness:
  "ogs_pfcp_xact_commit pdemo_env 0 (one_pxact pdemo_waiting) \<noteq> None
     \<and> pfcp_response_timeout pdemo_env 1 (one_pxact pdemo_waiting) \<noteq> None
     \<and> delayed_commit_timeout pdemo_env 1 (one_pxact pdemo_waiting) \<noteq> None
     \<and> ogs_pfcp_xact_commit pdemo_env 0 (one_pxact pdemo_remote) \<noteq> None
     \<and> pfcp_holding_timeout pdemo_env 1 (one_pxact pdemo_remote) \<noteq> None"
proof -
  let ?a = "one_pxact pdemo_waiting" and ?b = "one_pxact pdemo_remote"
  have i: "pool_id_ok 1" by (simp add: pool_id_ok_def OGS_MIN_POOL_ID_def OGS_MAX_POOL_ID_def)
  have f: "ogs_pfcp_xact_find_by_id_for_timer ?a 1 = Some 0"
    using pfind_for_timer(1) [OF pdemo_waiting_inv(1)] pdemo_waiting_inv(3,4) by simp
  have tm: "\<forall>s. ogs_pfcp_xact_find_by_id_for_timer ?a 1 = Some s \<longrightarrow> (\<exists>d. px_tm_response (pxact ?a s) = Some (Tm_Running d))"
    "\<forall>s. ogs_pfcp_xact_find_by_id_for_timer ?a 1 = Some s \<longrightarrow> (\<exists>d. px_tm_delayed_commit (pxact ?a s) = Some (Tm_Running d))"
    using f pdemo_waiting_inv(4) by simp_all
  have steps: "1 \<le> px_step (pxact ?a 0)" "1 \<le> px_step (pxact ?b 0)"
    by (simp_all add: pdemo_waiting_inv(4) pdemo_remote_inv(3)) (simp add: pdemo_remote_def)
  note a = pfcp_handlers_do_not_abort [OF pdemo_waiting_inv(1) pdemo_ok(2,3)]
  note b = pfcp_handlers_do_not_abort [OF pdemo_remote_inv(1) pdemo_ok(2,3)]
  have "ogs_pfcp_xact_commit pdemo_env 0 ?a \<noteq> None" using a pdemo_waiting_inv(3) steps(1) by blast
  moreover have "pfcp_response_timeout pdemo_env 1 ?a \<noteq> None" using a i tm(1) by blast
  moreover have "delayed_commit_timeout pdemo_env 1 ?a \<noteq> None" using a i tm(2) by blast
  moreover have "ogs_pfcp_xact_commit pdemo_env 0 ?b \<noteq> None" using b pdemo_remote_inv(2) steps(2) by blast
  moreover have "pfcp_holding_timeout pdemo_env 1 ?b \<noteq> None" using b i by blast
  ultimately show ?thesis by blast
qed

end
