(* ===== verification/Pfcp_Behaviour.thy ===== *)
theory Pfcp_Behaviour
  imports Pfcp_Props
begin

text \<open>
  What PFCP peers see: headers, datagram checks, retransmission, matching of responses, collisions of
  sequence numbers, the round robin over the addresses of a peer, and the ids of a sharded process.
\<close>

section \<open>Headers and datagrams\<close>

lemma pfcp_sqn_xid: "unat xid < 2 ^ 24 \<Longrightarrow> OGS_PFCP_SQN_TO_XID (OGS_PFCP_XID_TO_SQN xid) = xid"
  by (simp add: OGS_PFCP_SQN_TO_XID_def OGS_PFCP_XID_TO_SQN_def drop_push_8 and_mask_24 del: push_bit_of_1)

lemma pfcp_flag_octets [simp]:
  "hdr_version 32 = 1" "hdr_version 33 = 1" "\<not> pfcp_seid_presence 32" "pfcp_seid_presence 33"
  by (simp_all add: hdr_version_def pfcp_seid_presence_def)

lemma be_word64_parts: "push_bit 32 (ucast (ucast (drop_bit 32 x) :: u32)) OR ucast (ucast x :: u32) = (x :: u64)"
proof (rule bit_word_eqI)
  fix n assume "n < LENGTH(64)"
  then consider "n < 32" | "32 \<le> n" "n < 64" by fastforce
  then show "bit (push_bit 32 (ucast (ucast (drop_bit 32 x) :: u32)) OR ucast (ucast x :: u32) :: u64) n = bit x n"
    by cases (auto simp: bit_simps dest: bit_imp_le_length)
qed

lemma pfcp_push_length: "length (pfcp_push_header hdesc xid pl) = pfcp_hlen (pd_type hdesc) + length pl"
  by (simp add: pfcp_push_header_def Let_def pfcp_hlen_def be_bytes64_def OGS_PFCP_HEADER_LEN_def OGS_PFCP_SEID_LEN_def)

lemma pfcp_push_parse:
  "pfcp_parse_header (pfcp_push_header hdesc xid pl) =
     Some (\<lparr>ph_type = pd_type hdesc, ph_seid_presence = pfcp_has_seid (pd_type hdesc),
            ph_seid = (if pfcp_has_seid (pd_type hdesc) then pd_seid hdesc else ucast (OGS_PFCP_XID_TO_SQN xid)),
            ph_sqn = OGS_PFCP_XID_TO_SQN xid\<rparr>, pl)"
proof (cases "pfcp_has_seid (pd_type hdesc)")
  case True
  then show ?thesis
    by (simp add: pfcp_push_header_def Let_def pfcp_parse_header_def rd_u8_def rd_be64_def rd_u32_def OGS_PFCP_VERSION_def
        be_bytes16_def be_bytes64_def be_bytes32_def be_word64_parts OGS_PFCP_HEADER_LEN_def OGS_PFCP_XID_TO_SQN_def)
next
  case False
  then show ?thesis
    by (simp add: pfcp_push_header_def Let_def pfcp_parse_header_def rd_u8_def rd_u32_def OGS_PFCP_VERSION_def
        be_bytes16_def be_bytes32_def OGS_PFCP_HEADER_LEN_def OGS_PFCP_SEID_LEN_def OGS_PFCP_XID_TO_SQN_def)
qed

lemma pfcp_push_prefix:
  "pfcp_push_header hdesc xid pl ! 0 = (if pfcp_has_seid (pd_type hdesc) then 33 else 32)"
  "be_word16 (pfcp_push_header hdesc xid pl ! 2) (pfcp_push_header hdesc xid pl ! 3) =
     of_nat (pfcp_hlen (pd_type hdesc) + length pl - 4)"
  by (simp_all add: pfcp_push_header_def Let_def be_bytes16_def OGS_PFCP_VERSION_def)

text \<open>C28. A PFCP message survives the wire: take the packet that the transmit step builds for a
  transaction id below \<open>2^24\<close> and a payload that fits the 16-bit length field. When it is a session
  message (of any payload, the empty one included) or a node message with at least four octets of
  payload, it passes the datagram checks of the receiver unchanged; a node message with a shorter
  payload is dropped as too short. In every case its header parses to the type, the SEID (when the
  type carries one), the transaction id and the payload it was built from.\<close>

theorem pfcp_message_roundtrip:
  assumes "unat xid < 2 ^ 24" "pfcp_hlen (pd_type hdesc) + length pl < 2 ^ 16 + 4"
  shows "ogs_pfcp_recvfrom (pfcp_push_header hdesc xid pl) =
       (if pfcp_has_seid (pd_type hdesc) \<or> 4 \<le> length pl then Rx_Packet (pfcp_push_header hdesc xid pl) else Rx_Drop)
     \<and> (\<exists>h. pfcp_parse_header (pfcp_push_header hdesc xid pl) = Some (h, pl) \<and> ph_type h = pd_type hdesc
          \<and> ph_seid_presence h = pfcp_has_seid (pd_type hdesc)
          \<and> (pfcp_has_seid (pd_type hdesc) \<longrightarrow> ph_seid h = pd_seid hdesc)
          \<and> OGS_PFCP_SQN_TO_XID (ph_sqn h) = xid)"
proof -
  let ?p = "pfcp_push_header hdesc xid pl"
  have h: "8 \<le> pfcp_hlen (pd_type hdesc)"
    by (simp add: pfcp_hlen_def OGS_PFCP_HEADER_LEN_def OGS_PFCP_SEID_LEN_def)
  then have "pfcp_hlen (pd_type hdesc) + length pl - 4 < 2 ^ 16" using assms(2) by simp
  then have "unat (of_nat (pfcp_hlen (pd_type hdesc) + length pl - 4) :: u16) = pfcp_hlen (pd_type hdesc) + length pl - 4"
    by (simp add: unat_of_nat take_bit_nat_eq_self)
  then have len: "unat (be_word16 (?p ! 2) (?p ! 3)) + 4 = length ?p"
    unfolding pfcp_push_prefix(2) pfcp_push_length using h by simp
  have "12 \<le> length ?p \<longleftrightarrow> pfcp_has_seid (pd_type hdesc) \<or> 4 \<le> length pl"
    by (auto simp: pfcp_push_length pfcp_hlen_def OGS_PFCP_HEADER_LEN_def OGS_PFCP_SEID_LEN_def)
  then have "ogs_pfcp_recvfrom ?p = (if pfcp_has_seid (pd_type hdesc) \<or> 4 \<le> length pl then Rx_Packet ?p else Rx_Drop)"
    using len by (auto simp: ogs_pfcp_recvfrom_def MIN_PFCP_HEADER_LENGTH_def pfcp_push_prefix(1) OGS_PFCP_VERSION_def)
  then show ?thesis using pfcp_sqn_xid [OF assms(1)] by (simp add: pfcp_push_parse)
qed

text \<open>A Session Deletion Request: 16 octets, no payload.\<close>

theorem pfcp_message_roundtrip_witness:
  "length (pfcp_push_header \<lparr>pd_type = 54, pd_seid = 7\<rparr> 9 []) = 16
     \<and> ogs_pfcp_recvfrom (pfcp_push_header \<lparr>pd_type = 54, pd_seid = 7\<rparr> 9 [])
         = Rx_Packet (pfcp_push_header \<lparr>pd_type = 54, pd_seid = 7\<rparr> 9 [])"
proof -
  have t: "pfcp_has_seid 54" by (simp add: pfcp_has_seid_def)
  then have l: "pfcp_hlen 54 = 16" by (simp add: pfcp_hlen_def OGS_PFCP_HEADER_LEN_def)
  show ?thesis
    using pfcp_message_roundtrip [of 9 "\<lparr>pd_type = 54, pd_seid = 7\<rparr>" "[]"] t l by (simp add: pfcp_push_length)
qed

text \<open>The Version Not Supported Response of this implementation is never received by this
  implementation: whenever \<open>ogs_pfcp_recvfrom\<close> answers a datagram of another protocol version, the
  answer has eight octets, the length of its header announces exactly those, and
  \<open>ogs_pfcp_recvfrom\<close> drops it as too short. The message type 11 that the transaction layer accepts
  as an answer to every request can therefore not come from a peer that runs this code.\<close>

theorem version_reply_is_dropped:
  assumes "ogs_pfcp_recvfrom d = Rx_Version_Reply r"
  shows "length r = 8 \<and> unat (be_word16 (r ! 2) (r ! 3)) + 4 = 8 \<and> r ! 1 = OGS_PFCP_VERSION_NOT_SUPPORTED_RESPONSE_TYPE
     \<and> ogs_pfcp_recvfrom r = Rx_Drop"
proof -
  have d: "12 \<le> length d" "r = pfcp_version_reply d"
    using assms by (auto simp: ogs_pfcp_recvfrom_def MIN_PFCP_HEADER_LENGTH_def Let_def split: if_splits)
  have "length r = 8" using d by (simp add: pfcp_version_reply_def)
  moreover have "be_word16 (r ! 2) (r ! 3) = 4" "r ! 1 = OGS_PFCP_VERSION_NOT_SUPPORTED_RESPONSE_TYPE"
    unfolding d(2) by (simp_all add: pfcp_version_reply_def be_bytes16_def be_word16_def)
  ultimately show ?thesis by (simp add: ogs_pfcp_recvfrom_def MIN_PFCP_HEADER_LENGTH_def)
qed

theorem version_reply_is_dropped_witness:
  "\<exists>r. ogs_pfcp_recvfrom (0x40 # 1 # replicate 10 0) = Rx_Version_Reply r \<and> ogs_pfcp_recvfrom r = Rx_Drop"
proof -
  have "ogs_pfcp_recvfrom (0x40 # 1 # replicate 10 0) = Rx_Version_Reply (pfcp_version_reply (0x40 # 1 # replicate 10 0))"
    by (simp add: ogs_pfcp_recvfrom_def MIN_PFCP_HEADER_LENGTH_def hdr_version_def OGS_PFCP_VERSION_def)
  then show ?thesis using version_reply_is_dropped by blast
qed

section \<open>Matching of responses\<close>

lemma pfcp_types_disjoint:
  "list_all (\<lambda>t. t \<notin> set pfcp_initial_types) pfcp_final_types"
  by code_simp

lemma pfcp_stage_eq:
  "type \<in> set pfcp_initial_types \<Longrightarrow> ogs_pfcp_xact_get_stage type xid = PFCP_XACT_INITIAL_STAGE"
  "type \<in> set pfcp_final_types \<Longrightarrow> ogs_pfcp_xact_get_stage type xid = PFCP_XACT_FINAL_STAGE"
  using pfcp_types_disjoint by (simp_all add: ogs_pfcp_xact_get_stage_def list_all_iff)

text \<open>The two outcomes of a response that finds a waiting request.\<close>

lemma response_outcomes:
  assumes "pinv st" "ph_type h \<in> set pfcp_final_types"
    and "pfcp_xact_lookup st g True (OGS_PFCP_SQN_TO_XID (ph_sqn h)) = Some s" "px_step (pxact st s) = 1"
  shows "(\<not> pfcp_answers (sq_type (px_seq (pxact st s) ! 0)) (ph_type h) \<longrightarrow>
        ogs_pfcp_xact_receive env g h st = Some (OGS_RETRY, None, st))
     \<and> (pfcp_answers (sq_type (px_seq (pxact st s) ! 0)) (ph_type h) \<longrightarrow>
        (\<exists>st'. ogs_pfcp_xact_receive env g h st = Some (OGS_OK, Some s, st')
           \<and> px_step (pxact st' s) = 2 \<and> sq_type (px_seq (pxact st' s) ! 1) = ph_type h
           \<and> (\<forall>d. px_tm_response (pxact st' s) \<noteq> Some (Tm_Running d))
           \<and> (\<forall>t. t \<noteq> s \<longrightarrow> pxact st' t = pxact st t) \<and> ps_sent st' = ps_sent st
           \<and> pframe s st st' \<and> pxact_ok (pxact st' s)))"
proof -
  let ?x = "pxact st s" and ?type = "ph_type h"
  note look = lookup_Some [OF assms(1,3)]
  note ok = pinvD(2) [OF assms(1) look(1)]
  have stage: "ogs_pfcp_xact_get_stage ?type xid = PFCP_XACT_FINAL_STAGE" for xid by (rule pfcp_stage_eq(2) [OF assms(2)])
  have rcv: "ogs_pfcp_xact_receive env g h st = rx_finish env s ?type st"
    using assms(3) by (simp add: receive_split stage pfcp_rx_local_def)
  have upd: "ogs_pfcp_xact_update_rx env s ?type st =
      (if \<not> pfcp_answers (sq_type (px_seq ?x ! 0)) ?type then Some (OGS_RETRY, st) else pfcp_rx_accept s ?type st)"
    using look(4) assms(4) pseq_get [OF ok, of 0] by (simp add: ogs_pfcp_xact_update_rx_def Let_def stage pfcp_sel_org_def)
  have "px_step ?x < length (px_seq ?x)" using ok assms(4) by (simp add: pxact_ok_def)
  then obtain rv st' where acc: "pfcp_rx_accept s ?type st = Some (rv, st')" by (simp add: pfcp_rx_accept_def Let_def)
  note a = prx_accept_frame [OF acc]
  have "sq_type (px_seq (pxact st' s) ! 1) = ?type" using a(5) assms(4) ok by (simp add: pxact_ok_def)
  moreover have "pxact_ok (pxact st' s)" using a(4) [OF ok] look(4) assms(4) by (simp add: pfcp_sel_org_def)
  ultimately show ?thesis
    using acc a(1,2,3,6,7) pframeD(2) [OF a(2)] assms(4) by (simp add: rcv rx_finish_def upd)
qed

text \<open>C29. Responses reach only the request they answer. Let a request of this side wait for its answer.
  A response with its sequence number whose type is not the type of the request plus one (a late
  response to a request of an earlier incarnation) is answered with \<open>OGS_RETRY\<close> and leaves the whole
  state as it is, so the request keeps waiting; the response of the right type is accepted: it is
  handed out with this transaction, which advances to step 2 with its response timer stopped, and no
  other transaction changes.\<close>

theorem response_matches_request:
  assumes "pinv st" "ph_type h \<in> set pfcp_final_types"
    and "pfcp_xact_lookup st g True (OGS_PFCP_SQN_TO_XID (ph_sqn h)) = Some s" "px_step (pxact st s) = 1"
  shows "(\<not> pfcp_answers (sq_type (px_seq (pxact st s) ! 0)) (ph_type h) \<longrightarrow>
        ogs_pfcp_xact_receive env g h st = Some (OGS_RETRY, None, st))
     \<and> (pfcp_answers (sq_type (px_seq (pxact st s) ! 0)) (ph_type h) \<longrightarrow>
        (\<exists>st'. ogs_pfcp_xact_receive env g h st = Some (OGS_OK, Some s, st')
           \<and> px_step (pxact st' s) = 2 \<and> sq_type (px_seq (pxact st' s) ! 1) = ph_type h
           \<and> (\<forall>d. px_tm_response (pxact st' s) \<noteq> Some (Tm_Running d))
           \<and> (\<forall>t. t \<noteq> s \<longrightarrow> pxact st' t = pxact st t) \<and> ps_sent st' = ps_sent st))"
  using response_outcomes [OF assms, of env] by blast

theorem response_matches_request_witness:
  "ogs_pfcp_xact_receive pdemo_env 0 \<lparr>ph_type = 53, ph_seid_presence = True, ph_seid = 0, ph_sqn = OGS_PFCP_XID_TO_SQN 9\<rparr>
     (one_pxact pdemo_waiting) = Some (OGS_RETRY, None, one_pxact pdemo_waiting)
   \<and> (\<exists>st'. ogs_pfcp_xact_receive pdemo_env 0 \<lparr>ph_type = 51, ph_seid_presence = True, ph_seid = 0, ph_sqn = OGS_PFCP_XID_TO_SQN 9\<rparr>
     (one_pxact pdemo_waiting) = Some (OGS_OK, Some 0, st') \<and> px_step (pxact st' 0) = 2)"
proof -
  have xid: "OGS_PFCP_SQN_TO_XID (OGS_PFCP_XID_TO_SQN 9) = 9" by (rule pfcp_sqn_xid) simp
  have "pfcp_xact_index_get (one_pxact pdemo_waiting) 0 OGS_PFCP_LOCAL_ORIGINATOR 9 = Some 0"
    by (simp add: pfcp_xact_index_get_def one_pxact_def pfcp_xact_link_def pfcp_xact_index_add_def Let_def upd_pfcp_own_list_def
        pxact_def upd_pxact_def upd_pnode_def blank_pstate_def blank_pnode_def)
  then have look: "pfcp_xact_lookup (one_pxact pdemo_waiting) 0 True 9 = Some 0"
    by (simp add: pfcp_xact_lookup_def pfcp_sel_org_def pdemo_waiting_inv(4))
  have t: "(53::u8) \<in> set pfcp_final_types" "(51::u8) \<in> set pfcp_final_types" "\<not> pfcp_answers 50 53" "pfcp_answers 50 51"
    by (simp_all add: pfcp_final_types_def pfcp_answers_def)
  show ?thesis
    using response_matches_request [OF pdemo_waiting_inv(1), of "\<lparr>ph_type = 53, ph_seid_presence = True, ph_seid = 0, ph_sqn = OGS_PFCP_XID_TO_SQN 9\<rparr>" 0 0 pdemo_env]
      response_matches_request [OF pdemo_waiting_inv(1), of "\<lparr>ph_type = 51, ph_seid_presence = True, ph_seid = 0, ph_sqn = OGS_PFCP_XID_TO_SQN 9\<rparr>" 0 0 pdemo_env]
      t look by (simp add: xid pdemo_waiting_inv(4)) blast
qed

end
