(* ===== verification/Pfcp_Exchange.thy ===== *)
theory Pfcp_Exchange
  imports Pfcp_Behaviour
begin

text \<open>
  Longer runs of the PFCP transaction layer: retransmission until a request is given up, a whole
  exchange of a request and its response, requests that collide with an older transaction, and the
  round robin over the addresses of a peer.
\<close>

section \<open>Bounded retransmission\<close>

fun ptimeouts :: "pfcp_env list \<Rightarrow> nat \<Rightarrow> pfcp_state \<Rightarrow> pfcp_state option" where
  "ptimeouts [] i st = Some st"
| "ptimeouts (env # es) i st = do { st \<leftarrow> pfcp_response_timeout env i st; ptimeouts es i st }"

definition pcb_silent :: "pfcp_env \<Rightarrow> bool" where
  "pcb_silent env \<longleftrightarrow> (\<forall>c s st. ps_sent (pe_cb env c s st) = ps_sent st)"

definition pleft :: "pfcp_xact \<Rightarrow> nat" where
  "pleft x = unat (px_response_rcount x) + (8 - unat (px_lag_defer_count x))"

lemma send_stored_sent:
  assumes "pfcp_send_stored env s pk st = Some st'"
  shows "length (ps_sent st') \<le> length (ps_sent st) + 1"
  using assms
  by (auto simp: pfcp_send_stored_def ogs_pfcp_sendto_def Let_def pfcp_xact_trace_tx_def split: bind_splits if_splits)

lemma rcount_dec: "(x::u8) - 1 > 0 \<Longrightarrow> x \<noteq> 0 \<Longrightarrow> unat (x - 1) + 1 = unat x"
  by (metis Suc_eq_plus1 unat_minus_one unat_gt_0 Suc_pred')

text \<open>One expiration: the transaction stays with one expiration less to go, or it is gone.\<close>

lemma ptimeout_step:
  assumes "pinv st" "plive st s" "px_tm_response (pxact st s) = Some (Tm_Running d)"
    and rc: "px_response_rcount (pxact st s) \<noteq> 0"
    and env: "pconf_ok env" "pcb_ok env" "pcb_silent env"
  obtains (on) st' d' where "pfcp_response_timeout env (px_id (pxact st s)) st = Some st'" "pinv st'" "plive st' s"
      "px_id (pxact st' s) = px_id (pxact st s)" "px_tm_response (pxact st' s) = Some (Tm_Running d')"
      "px_response_rcount (pxact st' s) \<noteq> 0" "pleft (pxact st' s) + 1 = pleft (pxact st s)"
      "length (ps_sent st') + unat (px_response_rcount (pxact st' s)) \<le> length (ps_sent st) + unat (px_response_rcount (pxact st s))"
  | (off) st' where "pfcp_response_timeout env (px_id (pxact st s)) st = Some st'"
      "ogs_pfcp_xact_find_by_id st' (px_id (pxact st s)) = None" "ps_sent st' = ps_sent st"
proof (rule response_timeout_cases [OF assms(1-3) env(1,2)])
  fix st' assume r: "pfcp_response_timeout env (px_id (pxact st s)) st = Some st'" and g: "pgood st st'" and f: "pframe s st st'"
    and x: "pxact st' s = (pxact st s)\<lparr>px_lag_defer_count := px_lag_defer_count (pxact st s) + 1,
          px_tm_response := Some (Tm_Running OGS_PFCP_XACT_LAG_DEFER_INTERVAL)\<rparr>"
    and l: "px_lag_defer_count (pxact st s) < OGS_PFCP_XACT_LAG_MAX_DEFER" and sent: "ps_sent st' = ps_sent st"
  have "unat (px_lag_defer_count (pxact st s)) < 8"
    using l by (simp add: OGS_PFCP_XACT_LAG_MAX_DEFER_def word_less_nat_alt)
  moreover from this have "unat (px_lag_defer_count (pxact st s) + 1) = unat (px_lag_defer_count (pxact st s)) + 1"
    by (simp add: unat_word_ariths)
  ultimately have "pleft (pxact st' s) + 1 = pleft (pxact st s)" by (simp add: pleft_def x)
  then show thesis
    using on [of st' OGS_PFCP_XACT_LAG_DEFER_INTERVAL] r g f x rc sent assms(2) by (simp add: pgood_def plive_frame)
next
  fix st' st1 sq pk
  assume r: "pfcp_response_timeout env (px_id (pxact st s)) st = Some st'" and g: "pgood st st'" and f: "pframe s st st'"
    and pos: "px_response_rcount (pxact st s) - 1 > 0"
    and x: "pxact st' s = (pxact st s)\<lparr>px_response_rcount := px_response_rcount (pxact st s) - 1,
          px_tm_response := Some (Tm_Running (pe_t1_response_duration env))\<rparr>"
    and snd: "pfcp_send_stored env s pk st1 = Some st'" "ps_sent st1 = ps_sent st"
  note dec = rcount_dec [OF pos rc]
  have ne: "px_response_rcount (pxact st s) - 1 \<noteq> 0" using pos by (metis less_irrefl)
  have "length (ps_sent st') \<le> length (ps_sent st) + 1" using send_stored_sent [OF snd(1)] snd(2) by simp
  then show thesis
    using on [of st' "pe_t1_response_duration env"] r g f x ne dec assms(2) by (simp add: pgood_def plive_frame pleft_def)
next
  fix st' st1
  assume r: "pfcp_response_timeout env (px_id (pxact st s)) st = Some st'"
    and n: "ogs_pfcp_xact_find_by_id st' (px_id (pxact st s)) = None"
    and snd: "ps_sent st' = ps_sent (pgive_up env (px_id (pxact st s)) s st1)" "ps_sent st1 = ps_sent st"
  have "ps_sent st' = ps_sent st"
    using env(3) by (simp add: snd pgive_up_def pcb_silent_def split: option.split)
  then show thesis by (rule off [OF r n])
qed

lemma ptimeouts_absent:
  "ogs_pfcp_xact_find_by_id st i = None \<Longrightarrow> pool_id_ok i \<Longrightarrow> ptimeouts es i st = Some st"
  by (induction es) (simp_all add: pfcp_response_timeout_def ogs_pfcp_xact_find_by_id_for_timer_def)

lemma ptimeouts_bounded:
  assumes "pinv st" "plive st s" "px_tm_response (pxact st s) = Some (Tm_Running d)"
    and "px_response_rcount (pxact st s) \<noteq> 0"
    and "\<forall>env \<in> set es. pconf_ok env \<and> pcb_ok env \<and> pcb_silent env"
  shows "\<exists>st'. ptimeouts es (px_id (pxact st s)) st = Some st'
     \<and> length (ps_sent st') \<le> length (ps_sent st) + (unat (px_response_rcount (pxact st s)) - 1)
     \<and> (pleft (pxact st s) \<le> length es \<longrightarrow> ogs_pfcp_xact_find_by_id st' (px_id (pxact st s)) = None)"
  using assms
proof (induction es arbitrary: st d)
  case Nil
  then have "0 < pleft (pxact st s)" by (simp add: pleft_def unat_gt_0)
  then show ?case by simp
next
  case (Cons env es)
  have env: "pconf_ok env" "pcb_ok env" "pcb_silent env" and es: "\<forall>env \<in> set es. pconf_ok env \<and> pcb_ok env \<and> pcb_silent env"
    using Cons.prems(5) by auto
  show ?case
  proof (rule ptimeout_step [OF Cons.prems(1-4) env])
    fix st1 d'
    assume r: "pfcp_response_timeout env (px_id (pxact st s)) st = Some st1" and inv: "pinv st1" and s: "plive st1 s"
      and i: "px_id (pxact st1 s) = px_id (pxact st s)" and t: "px_tm_response (pxact st1 s) = Some (Tm_Running d')"
      and rc: "px_response_rcount (pxact st1 s) \<noteq> 0" and l: "pleft (pxact st1 s) + 1 = pleft (pxact st s)"
      and n: "length (ps_sent st1) + unat (px_response_rcount (pxact st1 s)) \<le> length (ps_sent st) + unat (px_response_rcount (pxact st s))"
    have pos: "0 < unat (px_response_rcount (pxact st1 s))" using rc by (simp add: unat_gt_0)
    from Cons.IH [OF inv s t rc es] obtain st2 where st2: "ptimeouts es (px_id (pxact st s)) st1 = Some st2"
      "length (ps_sent st2) \<le> length (ps_sent st1) + (unat (px_response_rcount (pxact st1 s)) - 1)"
      "pleft (pxact st1 s) \<le> length es \<longrightarrow> ogs_pfcp_xact_find_by_id st2 (px_id (pxact st s)) = None"
      using i by auto
    have "length (ps_sent st2) \<le> length (ps_sent st) + (unat (px_response_rcount (pxact st s)) - 1)" using st2(2) n pos by linarith
    then show ?thesis using r st2(1,3) l by simp
  next
    fix st1 assume r: "pfcp_response_timeout env (px_id (pxact st s)) st = Some st1"
      and n: "ogs_pfcp_xact_find_by_id st1 (px_id (pxact st s)) = None" and e: "ps_sent st1 = ps_sent st"
    note i = pfind_for_timer(2) [OF Cons.prems(1,2)]
    show ?thesis using r n e ptimeouts_absent [OF n i] by simp
  qed
qed

text \<open>Retransmission of PFCP requests is bounded: a request with retry counter \<open>N\<close> is given up after
  at most \<open>N + 8\<close> expirations of its response timer, whatever the event lag and the sockets do; it
  has then been deleted, and at most \<open>N - 1\<close> further packets have been sent.\<close>

theorem pfcp_retransmission_bounded:
  assumes "pinv st" "plive st s" "px_tm_response (pxact st s) = Some (Tm_Running d)"
    and "px_response_rcount (pxact st s) \<noteq> 0"
    and "\<forall>env \<in> set es. pconf_ok env \<and> pcb_ok env \<and> pcb_silent env"
  shows "\<exists>st'. ptimeouts es (px_id (pxact st s)) st = Some st'
     \<and> length (ps_sent st') \<le> length (ps_sent st) + (unat (px_response_rcount (pxact st s)) - 1)
     \<and> (unat (px_response_rcount (pxact st s)) + 8 \<le> length es \<longrightarrow>
          ogs_pfcp_xact_find_by_id st' (px_id (pxact st s)) = None)"
proof -
  have "pleft (pxact st s) \<le> unat (px_response_rcount (pxact st s)) + 8" by (simp add: pleft_def)
  then show ?thesis using ptimeouts_bounded [OF assms] by (meson le_trans)
qed

theorem pfcp_retransmission_bounded_witness:
  "\<exists>st'. ptimeouts (replicate 11 pdemo_env) 1 (one_pxact pdemo_waiting) = Some st'
     \<and> length (ps_sent st') \<le> 2 \<and> ogs_pfcp_xact_find_by_id st' 1 = None"
proof -
  have "pcb_silent pdemo_env" by (simp add: pcb_silent_def pdemo_env_def)
  then have "\<exists>st'. ptimeouts (replicate 11 pdemo_env) 1 (one_pxact pdemo_waiting) = Some st'
     \<and> length (ps_sent st') \<le> Suc (Suc 0) \<and> ogs_pfcp_xact_find_by_id st' 1 = None"
    using pfcp_retransmission_bounded [OF pdemo_waiting_inv(1,3), of 2500000 "replicate 11 pdemo_env"] pdemo_ok(2,3)
    by (simp add: pdemo_waiting_inv(4,5))
  then show ?thesis by (metis numeral_2_eq_2)
qed

section \<open>Sending\<close>

definition psock_ok :: "pfcp_env \<Rightarrow> bool" where
  "psock_ok env \<longleftrightarrow> pe_sock env = Some True \<and> pe_sock6 env = Some True \<and> (\<forall>a p. pe_os_sent env a p = int (length p))"

definition paddr_pos :: "pfcp_node \<Rightarrow> nat" where
  "paddr_pos n = (case pn_current_addr n of None \<Rightarrow> 0 | Some i \<Rightarrow> i)"

lemma paddr_pos_less: "pnode_ok n \<Longrightarrow> paddr_pos n < length (pn_addr_list n)"
  by (auto simp: paddr_pos_def pnode_ok_def split: option.split)

lemma next_addr_mod: "i < length (pn_addr_list n) \<Longrightarrow> next_addr n i = (i + 1) mod length (pn_addr_list n)"
  by (auto simp: next_addr_def mod_if)

lemma sendto_success:
  assumes ok: "pnode_ok (ps_nodes st g)" and sock: "psock_ok env"
  obtains st' where "ogs_pfcp_sendto env g pk st = Some (OGS_OK, st')"
    "ps_sent st' = ps_sent st @ [(g, pn_addr_list (ps_nodes st g) ! paddr_pos (ps_nodes st g), pk)]"
    "pn_addr_list (ps_nodes st' g) = pn_addr_list (ps_nodes st g)"
    "paddr_pos (ps_nodes st' g) = (paddr_pos (ps_nodes st g) + 1) mod length (pn_addr_list (ps_nodes st g))"
    "pnode_ok (ps_nodes st' g)"
proof -
  let ?n = "ps_nodes st g"
  have cur: "paddr_pos ?n < length (pn_addr_list ?n)" "pn_addr_list ?n \<noteq> []" using paddr_pos_less [OF ok] by auto
  have fam: "pa_family (pn_addr_list ?n ! paddr_pos ?n) \<noteq> AF_OTHER" using ok cur by (simp add: pnode_ok_def)
  then have sk: "(case pa_family (pn_addr_list ?n ! paddr_pos ?n) of AF_INET \<Rightarrow> Some (pe_sock env) | AF_INET6 \<Rightarrow> Some (pe_sock6 env)
      | AF_OTHER \<Rightarrow> None) = Some (Some True)"
    using sock by (cases "pa_family (pn_addr_list ?n ! paddr_pos ?n)") (simp_all add: psock_ok_def)
  have nx: "next_addr (?n\<lparr>pn_current_addr := c\<rparr>) i = next_addr ?n i" for c i by (simp add: next_addr_def)
  have run: "ogs_pfcp_sendto env g pk st = Some (OGS_OK, upd_pnode g (\<lambda>n. n\<lparr>pn_current_addr := Some (next_addr n (paddr_pos ?n))\<rparr>)
      ((upd_pnode g (\<lambda>n. n\<lparr>pn_current_addr := Some (paddr_pos ?n)\<rparr>) st)
        \<lparr>ps_sent := ps_sent st @ [(g, pn_addr_list ?n ! paddr_pos ?n, pk)]\<rparr>))"
    using cur sk sock by (simp add: ogs_pfcp_sendto_def Let_def paddr_pos_def [symmetric] psock_ok_def)
  have less: "next_addr ?n (paddr_pos ?n) < length (pn_addr_list ?n)" by (rule next_addr_less [OF cur(2)])
  show thesis
    by (rule that [OF run]) (use ok less next_addr_mod [OF cur(1)] nx in \<open>simp_all add: paddr_pos_def pnode_ok_def\<close>)
qed

fun psend_all :: "pfcp_env \<Rightarrow> nat \<Rightarrow> bytes list \<Rightarrow> pfcp_state \<Rightarrow> pfcp_state option" where
  "psend_all env g [] st = Some st"
| "psend_all env g (p # ps) st = do { (rv, st) \<leftarrow> ogs_pfcp_sendto env g p st; psend_all env g ps st }"

text \<open>Packets to a peer go round its addresses: when the sockets accept every packet, the \<open>k\<close>th of a
  sequence of packets sent to a node with \<open>n\<close> addresses goes to the address \<open>k\<close> places (modulo \<open>n\<close>)
  after the current one, so every \<open>n\<close> consecutive packets use each address exactly once.\<close>

theorem pfcp_round_robin:
  assumes "pnode_ok (ps_nodes st g)" "psock_ok env"
  shows "\<exists>st'. psend_all env g pks st = Some st' \<and> ps_sent st' = ps_sent st @
     map (\<lambda>k. (g, pn_addr_list (ps_nodes st g) ! ((paddr_pos (ps_nodes st g) + k) mod length (pn_addr_list (ps_nodes st g))), pks ! k))
       [0..<length pks]"
  using assms
proof (induction pks arbitrary: st)
  case Nil then show ?case by simp
next
  case (Cons p ps)
  let ?n = "ps_nodes st g"
  let ?l = "length (pn_addr_list ?n)"
  obtain st1 where st1: "ogs_pfcp_sendto env g p st = Some (OGS_OK, st1)"
    "ps_sent st1 = ps_sent st @ [(g, pn_addr_list ?n ! paddr_pos ?n, p)]" "pn_addr_list (ps_nodes st1 g) = pn_addr_list ?n"
    "paddr_pos (ps_nodes st1 g) = (paddr_pos ?n + 1) mod ?l" "pnode_ok (ps_nodes st1 g)"
    by (rule sendto_success [OF Cons.prems])
  from Cons.IH [OF st1(5) Cons.prems(2)] obtain st2 where st2: "psend_all env g ps st1 = Some st2"
    "ps_sent st2 = ps_sent st1 @ map (\<lambda>k. (g, pn_addr_list ?n ! (((paddr_pos ?n + 1) mod ?l + k) mod ?l), ps ! k)) [0..<length ps]"
    unfolding st1(3,4) by blast
  have m: "((paddr_pos ?n + 1) mod ?l + k) mod ?l = (paddr_pos ?n + Suc k) mod ?l" for k by (simp add: mod_add_left_eq)
  have "map (\<lambda>k. (g, pn_addr_list ?n ! ((paddr_pos ?n + k) mod ?l), (p # ps) ! k)) [0..<length (p # ps)] =
      (g, pn_addr_list ?n ! paddr_pos ?n, p) # map (\<lambda>k. (g, pn_addr_list ?n ! ((paddr_pos ?n + Suc k) mod ?l), ps ! k)) [0..<length ps]"
    using paddr_pos_less [OF Cons.prems(1)] by (simp add: upt_conv_Cons map_Suc_upt [symmetric] del: upt_Suc)
  then show ?case using st1(1,2) st2(1) st2(2) [unfolded m] by simp
qed

theorem pfcp_round_robin_witness:
  "\<exists>st'. psend_all (pdemo_env\<lparr>pe_sock6 := Some True\<rparr>) 0 [[1], [2], [3]] pdemo_init = Some st'
     \<and> map (\<lambda>(g, a, p). (pa_host a, p)) (ps_sent st') = [(1, [1]), (2, [2]), (1, [3])]"
proof -
  have "pnode_ok (ps_nodes pdemo_init 0)" by (rule pinvD(3) [OF pdemo_ok(4)])
  moreover have "psock_ok (pdemo_env\<lparr>pe_sock6 := Some True\<rparr>)" by (simp add: psock_ok_def pdemo_env_def)
  moreover have n: "ps_nodes pdemo_init 0 = blank_pnode (pdemo_addrs 0)" "ps_sent pdemo_init = []"
    by (simp_all add: pdemo_init_def blank_pstate_def)
  ultimately obtain st' where "psend_all (pdemo_env\<lparr>pe_sock6 := Some True\<rparr>) 0 [[1], [2], [3]] pdemo_init = Some st'"
    "ps_sent st' = map (\<lambda>k. (0, pdemo_addrs 0 ! (k mod 2), [[1], [2], [3]] ! k)) [0..<3]"
    using pfcp_round_robin [of pdemo_init 0 "pdemo_env\<lparr>pe_sock6 := Some True\<rparr>" "[[1], [2], [3]]"]
    by (auto simp: blank_pnode_def paddr_pos_def pdemo_addrs_def numeral_2_eq_2 numeral_3_eq_3)
  then show ?thesis by (simp add: pdemo_addrs_def upt_rec)
qed

section \<open>A request and its answer\<close>

lemma send_stored_success:
  assumes ok: "pnode_ok (ps_nodes st (px_node (pxact st s)))" and sock: "psock_ok env"
  obtains st' where "pfcp_send_stored env s pk st = Some st'" "pframe s st st'" "\<forall>t. pxact st' t = pxact st t"
    "\<exists>a \<in> set (pn_addr_list (ps_nodes st (px_node (pxact st s)))). ps_sent st' = ps_sent st @ [(px_node (pxact st s), a, pk)]"
proof -
  let ?g = "px_node (pxact st s)"
  define st1 where "st1 = pfcp_xact_trace_tx env s pk st"
  have st1: "ps_nodes st1 = ps_nodes st" "ps_sent st1 = ps_sent st" by (simp_all add: st1_def pfcp_xact_trace_tx_def)
  obtain st2 where "ogs_pfcp_sendto env ?g pk st1 = Some (OGS_OK, st2)"
    "ps_sent st2 = ps_sent st1 @ [(?g, pn_addr_list (ps_nodes st1 ?g) ! paddr_pos (ps_nodes st1 ?g), pk)]"
    by (rule sendto_success [of st1 ?g env pk]) (use ok sock st1 in simp_all)
  moreover obtain st3 where st3: "pfcp_send_stored env s pk st = Some st3" "pframe s st st3" "\<forall>t. pxact st3 t = pxact st t"
    by (rule send_stored_total [OF ok])
  moreover have "pn_addr_list (ps_nodes st ?g) ! paddr_pos (ps_nodes st ?g) \<in> set (pn_addr_list (ps_nodes st ?g))"
    using paddr_pos_less [OF ok] by simp
  ultimately show thesis
    using that [OF st3] st1 by (simp add: pfcp_send_stored_def st1_def [symmetric])
qed

lemma commit_first_send:
  assumes inv: "pinv st" and s: "plive st s" and conf: "pconf_ok env" and sock: "psock_ok env"
    and x: "px_org (pxact st s) = OGS_PFCP_LOCAL_ORIGINATOR" "px_step (pxact st s) = 1"
    and sq: "sq_type (px_seq (pxact st s) ! 0) \<in> set pfcp_initial_types" "sq_pkbuf (px_seq (pxact st s) ! 0) = Some pk"
  obtains st' i where "ogs_pfcp_xact_commit env s st = Some (OGS_OK, st')" "pgood st st'" "pframe s st st'"
    "pxact st' s = (pxact st s)\<lparr>px_imsi_bcd := i, px_tm_response := Some (Tm_Running (pe_t1_response_duration env))\<rparr>"
    "\<exists>a. ps_sent st' = ps_sent st @ [(px_node (pxact st s), a, pk)]"
proof -
  let ?x = "pxact st s"
  note ok = pinvD(2) [OF inv s]
  have last: "pfcp_seq_last ?x = Some (px_seq ?x ! 0)" using pseq_last [OF ok] x(2) by simp
  define st1 where "st1 = pfcp_inherit_imsi env s (sq_type (px_seq ?x ! 0)) st"
  note fr = inherit_imsi_frame [where s = s and st = st and env = env and type = "sq_type (px_seq ?x ! 0)", folded st1_def]
  then obtain i where x1: "pxact st1 s = ?x\<lparr>px_imsi_bcd := i\<rparr>" by blast
  have n1: "ps_nodes st1 = ps_nodes st" "ps_sent st1 = ps_sent st"
    by (simp_all add: st1_def pfcp_inherit_imsi_def split: option.split)
  obtain st2 where st2: "pfcp_start_response env s st1 = Some st2" using start_response_total [OF conf] by blast
  note f2 = pstart_response_frame [OF st2]
  have x2: "pxact st2 s = ?x\<lparr>px_imsi_bcd := i, px_tm_response := Some (Tm_Running (pe_t1_response_duration env))\<rparr>"
    using f2(2) ok by (auto simp: x1 pxact_ok_def)
  have last2: "pfcp_seq_last (pxact st2 s) = Some (px_seq ?x ! 0)"
    unfolding last [symmetric] by (simp add: x2 pfcp_seq_last_def pfcp_seq_get_def)
  obtain st3 where st3: "pfcp_send_stored env s pk st2 = Some st3" "pframe s st2 st3" "\<forall>t. pxact st3 t = pxact st2 t"
    "\<exists>a \<in> set (pn_addr_list (ps_nodes st2 (px_node (pxact st2 s)))). ps_sent st3 = ps_sent st2 @ [(px_node (pxact st2 s), a, pk)]"
    by (rule send_stored_success [of st2 s env pk]) (use sock pinvD(3) [OF inv] f2(4) n1 in simp_all)
  have run: "ogs_pfcp_xact_commit env s st = Some (OGS_OK, st3)"
    using last last2 sq(2) st2 st3(1) x pfcp_stage_eq(1) [OF sq(1)]
    by (simp add: ogs_pfcp_xact_commit_def Let_def st1_def [symmetric] x1 pfcp_commit_send_def)
  have f: "pframe s st st3" by (rule pframe_trans [OF fr(1) pframe_trans [OF f2(1) st3(2)]])
  have x3: "pxact st3 s = ?x\<lparr>px_imsi_bcd := i, px_tm_response := Some (Tm_Running (pe_t1_response_duration env))\<rparr>"
    using st3(3) x2 by simp
  have "pxact_ok (pxact st3 s)" using ok x by (auto simp: x3 pxact_ok_def)
  then have "pgood st st3" by (rule pgood_frame [OF f inv])
  then show thesis using that [OF run _ f x3] st3(4) f2(3) n1 x2 by auto
qed

lemma lookup_unique:
  assumes inv: "pinv st" and s: "plive st s" "px_node (pxact st s) = g" "px_org (pxact st s) = pfcp_sel_org l" "px_xid (pxact st s) = xid"
    and uniq: "\<And>t. plive st t \<Longrightarrow> px_node (pxact st t) = g \<Longrightarrow> px_org (pxact st t) = pfcp_sel_org l \<Longrightarrow>
      px_xid (pxact st t) = xid \<Longrightarrow> t = s"
  shows "pfcp_xact_lookup st g l xid = Some s"
proof (cases "pfcp_xact_lookup st g l xid")
  case None
  have "s \<in> set (xt_list (ptab st) g l)" using xt_invD(4) [OF pinvD(1) [OF inv], of s g l] s by simp
  then have "pfcp_xact_scan st g l xid \<noteq> None" using s(4) by (auto simp: pfcp_xact_scan_def find_None_iff)
  then show ?thesis using None by (auto simp: pfcp_xact_lookup_def split: option.splits if_splits)
next
  case (Some t)
  then show ?thesis using uniq [of t] lookup_Some [OF inv Some] by simp
qed

text \<open>Committing the response that was received ends the transaction.\<close>

lemma commit_answer:
  assumes inv: "pinv st" and s: "plive st s"
    and x: "px_org (pxact st s) = OGS_PFCP_LOCAL_ORIGINATOR" "px_step (pxact st s) = 2"
    and sq: "sq_type (px_seq (pxact st s) ! 1) \<in> set pfcp_final_types"
  obtains st' where "ogs_pfcp_xact_commit env s st = Some (OGS_OK, st')" "pgood st st'"
    "\<forall>t. plive st' t \<longleftrightarrow> plive st t \<and> t \<noteq> s" "ogs_pfcp_xact_find_by_id st' (px_id (pxact st s)) = None"
    "\<forall>t. t \<noteq> s \<longrightarrow> pxact st' t = pxact st t"
proof -
  let ?x = "pxact st s"
  note ok = pinvD(2) [OF inv s]
  obtain m where last: "pfcp_seq_last ?x = Some m" and m: "sq_type m \<in> set pfcp_final_types"
    using pseq_last [OF ok] x(2) sq by simp
  define st1 where "st1 = pfcp_inherit_imsi env s (sq_type m) st"
  note fr = inherit_imsi_frame [where s = s and st = st and env = env and type = "sq_type m", folded st1_def]
  then obtain i where x1: "pxact st1 s = ?x\<lparr>px_imsi_bcd := i\<rparr>" by blast
  have g1: "pgood st st1" by (rule pgood_frame [OF fr(1) inv]) (use ok in \<open>simp add: x1 pxact_ok_def\<close>)
  then have inv1: "pinv st1" by (simp add: pgood_def)
  have s1: "plive st1 s" using s plive_frame [OF fr(1)] by simp
  obtain st2 where st2: "pfcp_commit_end s OGS_OK st1 = Some (OGS_OK, st2)" "pgood st1 st2" "\<forall>t. plive st2 t \<longleftrightarrow> plive st1 t \<and> t \<noteq> s"
    "\<forall>t. t \<noteq> s \<longrightarrow> pxact st2 t = pxact st1 t" "ogs_pfcp_xact_find_by_id st2 (px_id (pxact st1 s)) = None"
    by (rule commit_end_good [OF inv1 s1])
  have "ogs_pfcp_xact_commit env s st = Some (OGS_OK, st2)"
    using last st2(1) x pfcp_stage_eq(2) [OF m] by (simp add: ogs_pfcp_xact_commit_def Let_def st1_def [symmetric] x1)
  then show thesis
    by (rule that [OF _ pgood_trans [OF g1 st2(2)]])
      (use st2(3-5) plive_frame [OF fr(1)] pframeD(2) [OF fr(1)] x1 in simp_all)
qed

text \<open>Creating a transaction, putting a request into it and committing it.\<close>

lemma pfcp_send_request:
  assumes inv: "pinv st" and can: "pcan_create st" and conf: "pconf_ok env" and sock: "psock_ok env"
    and type: "pd_type hdesc \<in> set pfcp_initial_types"
    and fresh: "\<forall>t. plive st t \<and> px_node (pxact st t) = g \<and> px_org (pxact st t) = OGS_PFCP_LOCAL_ORIGINATOR \<longrightarrow>
      px_xid (pxact st t) \<noteq> fst (pfcp_xact_next_xid env st)"
  obtains s st1 st2 st3 where "ogs_pfcp_xact_local_create env g cb st = Some (Some s, st1)"
    "ogs_pfcp_xact_update_tx s hdesc pl st1 = Some (OGS_OK, st2)" "ogs_pfcp_xact_commit env s st2 = Some (OGS_OK, st3)"
    "\<exists>a. ps_sent st3 = ps_sent st @ [(g, a, pfcp_push_header hdesc (fst (pfcp_xact_next_xid env st)) pl)]"
    "pgood st st3" "\<not> plive st s" "\<forall>t. plive st3 t \<longleftrightarrow> plive st t \<or> t = s" "px_step (pxact st3 s) = 1"
    "px_org (pxact st3 s) = OGS_PFCP_LOCAL_ORIGINATOR"
    "sq_type (px_seq (pxact st3 s) ! 0) = pd_type hdesc" "px_id (pxact st3 s) = px_id (pxact st1 s)"
    "pfcp_xact_lookup st3 g True (fst (pfcp_xact_next_xid env st)) = Some s"
proof -
  let ?xid = "fst (pfcp_xact_next_xid env st)"
  obtain s i st1 where cr: "ogs_pfcp_xact_local_create env g cb st = Some (Some s, st1)"
    "pcreated s (new_pxact env i OGS_PFCP_LOCAL_ORIGINATOR ?xid g cb) st st1"
    by (rule local_create_ok [OF inv can])
  note c = pcreatedD [OF cr(2)]
  let ?x = "new_pxact env i OGS_PFCP_LOCAL_ORIGINATOR ?xid g cb"
  let ?pk = "pfcp_push_header hdesc ?xid pl"
  let ?f = "\<lambda>x. x\<lparr>px_seq := (px_seq x)[px_step x := \<lparr>sq_type = pd_type hdesc, sq_pkbuf = Some ?pk\<rparr>], px_step := px_step x + 1\<rparr>"
  define st2 where "st2 = upd_pxact s ?f st1"
  have tx: "ogs_pfcp_xact_update_tx s hdesc pl st1 = Some (OGS_OK, st2)"
    using pfcp_stage_eq(1) [OF type] by (simp add: ogs_pfcp_xact_update_tx_def Let_def c(3) pfcp_tx_allowed_def st2_def)
  have x2: "pxact st2 s = ?x\<lparr>px_seq := (px_seq ?x)[0 := \<lparr>sq_type = pd_type hdesc, sq_pkbuf = Some ?pk\<rparr>], px_step := 1\<rparr>"
    by (simp add: st2_def c(3))
  note u = pupdate_tx_frame [OF tx pinvD(2) [OF c(1,6)]]
  have g2: "pgood st1 st2" by (rule pgood_frame [OF u(2) c(1) u(3)])
  have inv2: "pinv st2" using g2 by (simp add: pgood_def)
  have l2: "plive st2 s" using c(6) plive_frame [OF u(2)] by simp
  have f2: "px_org (pxact st2 s) = OGS_PFCP_LOCAL_ORIGINATOR" "px_step (pxact st2 s) = 1"
    "sq_type (px_seq (pxact st2 s) ! 0) \<in> set pfcp_initial_types" "sq_pkbuf (px_seq (pxact st2 s) ! 0) = Some ?pk"
    using type by (simp_all add: x2)
  obtain st3 i3 where st3: "ogs_pfcp_xact_commit env s st2 = Some (OGS_OK, st3)" "pgood st2 st3" "pframe s st2 st3"
    "pxact st3 s = (pxact st2 s)\<lparr>px_imsi_bcd := i3, px_tm_response := Some (Tm_Running (pe_t1_response_duration env))\<rparr>"
    "\<exists>a. ps_sent st3 = ps_sent st2 @ [(px_node (pxact st2 s), a, ?pk)]"
    by (rule commit_first_send [OF inv2 l2 conf sock f2])
  have inv3: "pinv st3" using st3(2) by (simp add: pgood_def)
  have l3: "plive st3 t \<longleftrightarrow> plive st t \<or> t = s" for t using plive_frame [OF st3(3)] plive_frame [OF u(2)] c(5) by simp
  have same: "pxact st3 t = pxact st t" if "t \<noteq> s" for t
    using that pframeD(2) [OF st3(3)] pframeD(2) [OF u(2)] c(4) by simp
  have x3: "px_step (pxact st3 s) = 1" "px_node (pxact st3 s) = g" "px_org (pxact st3 s) = pfcp_sel_org True"
    "px_xid (pxact st3 s) = ?xid" "sq_type (px_seq (pxact st3 s) ! 0) = pd_type hdesc" "px_id (pxact st3 s) = i"
    by (simp_all add: st3(4) x2 pfcp_sel_org_def)
  have look: "pfcp_xact_lookup st3 g True ?xid = Some s"
  proof (rule lookup_unique [OF inv3 _ x3(2-4)])
    show "plive st3 s" using l3 by simp
    show "t = s" if "plive st3 t" "px_node (pxact st3 t) = g" "px_org (pxact st3 t) = pfcp_sel_org True" "px_xid (pxact st3 t) = ?xid" for t
    proof (rule ccontr)
      assume "t \<noteq> s"
      then show False using that fresh same [of t] l3 [of t] by (simp add: pfcp_sel_org_def)
    qed
  qed
  have sent: "\<exists>a. ps_sent st3 = ps_sent st @ [(g, a, ?pk)]" using st3(5) c(3,8) by (auto simp: x2 st2_def)
  have "pgood st st3" using st3(2) g2 c(7) by (simp add: pgood_def)
  then show thesis
    by (rule that [OF cr(1) tx st3(1) sent _ c(2) _ x3(1) _ x3(5) _ look])
      (use l3 x3(3,6) c(3) in \<open>simp_all add: pfcp_sel_org_def\<close>)
qed

text \<open>C30. A request of this side runs to completion. On a well-formed state with the resources for a
  transaction and working sockets, and with no other local transaction of the node under the next
  id: creating a transaction, putting a request of the table into it and committing it sends exactly
  one packet, the request under that id, to an address of the node; when the response of the
  matching type and sequence number arrives it is handed out with this very transaction; and
  committing that ends the transaction: its id finds nothing any more, the transactions in use are
  those of the start, and all timers are back.\<close>

theorem pfcp_request_answered:
  assumes "pinv st" "pcan_create st" "pconf_ok env" "psock_ok env"
    and "pd_type hdesc \<in> set pfcp_initial_types" "ph_type h \<in> set pfcp_final_types" "pfcp_answers (pd_type hdesc) (ph_type h)"
    and "OGS_PFCP_SQN_TO_XID (ph_sqn h) = fst (pfcp_xact_next_xid env st)"
    and "\<forall>t. plive st t \<and> px_node (pxact st t) = g \<and> px_org (pxact st t) = OGS_PFCP_LOCAL_ORIGINATOR \<longrightarrow>
      px_xid (pxact st t) \<noteq> fst (pfcp_xact_next_xid env st)"
  shows "\<exists>s st1 st2 st3 st4 st5 a. ogs_pfcp_xact_local_create env g cb st = Some (Some s, st1)
     \<and> ogs_pfcp_xact_update_tx s hdesc pl st1 = Some (OGS_OK, st2)
     \<and> ogs_pfcp_xact_commit env s st2 = Some (OGS_OK, st3)
     \<and> ps_sent st3 = ps_sent st @ [(g, a, pfcp_push_header hdesc (fst (pfcp_xact_next_xid env st)) pl)]
     \<and> ogs_pfcp_xact_receive env g h st3 = Some (OGS_OK, Some s, st4)
     \<and> ogs_pfcp_xact_commit env s st4 = Some (OGS_OK, st5)
     \<and> ogs_pfcp_xact_find_by_id st5 (px_id (pxact st1 s)) = None \<and> pinv st5
     \<and> (\<forall>t. plive st5 t \<longleftrightarrow> plive st t) \<and> ptimer_total st5 = ptimer_total st"
proof -
  obtain s st1 st2 st3 where r: "ogs_pfcp_xact_local_create env g cb st = Some (Some s, st1)"
    "ogs_pfcp_xact_update_tx s hdesc pl st1 = Some (OGS_OK, st2)" "ogs_pfcp_xact_commit env s st2 = Some (OGS_OK, st3)"
    "\<exists>a. ps_sent st3 = ps_sent st @ [(g, a, pfcp_push_header hdesc (fst (pfcp_xact_next_xid env st)) pl)]"
    and g3: "pgood st st3" and new: "\<not> plive st s" and l3: "\<forall>t. plive st3 t \<longleftrightarrow> plive st t \<or> t = s"
    and x3: "px_step (pxact st3 s) = 1" "px_org (pxact st3 s) = OGS_PFCP_LOCAL_ORIGINATOR"
      "sq_type (px_seq (pxact st3 s) ! 0) = pd_type hdesc" "px_id (pxact st3 s) = px_id (pxact st1 s)"
    and look: "pfcp_xact_lookup st3 g True (fst (pfcp_xact_next_xid env st)) = Some s"
    by (rule pfcp_send_request [OF assms(1-5,9)])
  have inv3: "pinv st3" using g3 by (simp add: pgood_def)
  have look': "pfcp_xact_lookup st3 g True (OGS_PFCP_SQN_TO_XID (ph_sqn h)) = Some s" using look assms(8) by simp
  obtain st4 where st4: "ogs_pfcp_xact_receive env g h st3 = Some (OGS_OK, Some s, st4)"
    "px_step (pxact st4 s) = 2" "sq_type (px_seq (pxact st4 s) ! 1) = ph_type h" "\<forall>t. t \<noteq> s \<longrightarrow> pxact st4 t = pxact st3 t"
    "pframe s st3 st4" "pxact_ok (pxact st4 s)"
    using response_outcomes [OF inv3 assms(6) look' x3(1), of env] assms(7) x3(3) by auto
  have f4: "pgood st3 st4" by (rule pgood_frame [OF st4(5) inv3 st4(6)])
  have inv4: "pinv st4" using f4 by (simp add: pgood_def)
  have l4: "plive st4 t \<longleftrightarrow> plive st3 t" for t by (rule plive_frame [OF st4(5)])
  have o4: "px_org (pxact st4 s) = OGS_PFCP_LOCAL_ORIGINATOR" "px_id (pxact st4 s) = px_id (pxact st3 s)"
    using pframeD(6,8) [OF st4(5)] x3(2) by simp_all
  have l4': "plive st4 s" and sq4: "sq_type (px_seq (pxact st4 s) ! 1) \<in> set pfcp_final_types"
    using l4 l3 st4(3) assms(6) by simp_all
  obtain st5 where st5: "ogs_pfcp_xact_commit env s st4 = Some (OGS_OK, st5)" "pgood st4 st5"
    "\<forall>t. plive st5 t \<longleftrightarrow> plive st4 t \<and> t \<noteq> s" "ogs_pfcp_xact_find_by_id st5 (px_id (pxact st4 s)) = None"
    by (rule commit_answer [OF inv4 l4' o4(1) st4(2) sq4])
  have "plive st5 t \<longleftrightarrow> plive st t" for t using st5(3) l4 l3 new by auto
  moreover have "pinv st5 \<and> ptimer_total st5 = ptimer_total st"
    using st5(2) f4 g3 by (simp add: pgood_def)
  moreover have "px_id (pxact st1 s) = px_id (pxact st4 s)" using x3(4) o4(2) by simp
  ultimately show ?thesis using r st4(1) st5(1,4) by metis
qed

theorem pfcp_request_answered_witness:
  "\<exists>s st1 st2 st3 st4 st5. ogs_pfcp_xact_local_create (pdemo_env\<lparr>pe_sock6 := Some True\<rparr>) 0 None pdemo_init = Some (Some s, st1)
     \<and> ogs_pfcp_xact_update_tx s \<lparr>pd_type = 50, pd_seid = 0\<rparr> [] st1 = Some (OGS_OK, st2)
     \<and> ogs_pfcp_xact_commit (pdemo_env\<lparr>pe_sock6 := Some True\<rparr>) s st2 = Some (OGS_OK, st3)
     \<and> ogs_pfcp_xact_receive (pdemo_env\<lparr>pe_sock6 := Some True\<rparr>) 0
         \<lparr>ph_type = 51, ph_seid_presence = True, ph_seid = 0, ph_sqn = OGS_PFCP_XID_TO_SQN 9\<rparr> st3 = Some (OGS_OK, Some s, st4)
     \<and> ogs_pfcp_xact_commit (pdemo_env\<lparr>pe_sock6 := Some True\<rparr>) s st4 = Some (OGS_OK, st5)
     \<and> ptimer_total st5 = ptimer_total pdemo_init"
proof -
  let ?env = "pdemo_env\<lparr>pe_sock6 := Some True\<rparr>"
  have xid: "OGS_PFCP_SQN_TO_XID (OGS_PFCP_XID_TO_SQN 9) = 9" by (rule pfcp_sqn_xid) simp
  have n: "fst (pfcp_xact_next_xid ?env pdemo_init) = 9"
    by (simp add: pfcp_xact_next_xid_def pdemo_env_def pdemo_init_def PFCP_MAX_XACT_ID_def)
  have e: "pconf_ok ?env" "psock_ok ?env" by (simp_all add: pconf_ok_def psock_ok_def pdemo_env_def)
  have d: "\<not> plive pdemo_init t" for t by (simp add: xt_used_def pdemo_init_def idpool_init_def)
  show ?thesis
    using pfcp_request_answered [OF pdemo_ok(4,5) e, of "\<lparr>pd_type = 50, pd_seid = 0\<rparr>"
        "\<lparr>ph_type = 51, ph_seid_presence = True, ph_seid = 0, ph_sqn = OGS_PFCP_XID_TO_SQN 9\<rparr>" 0 None "[]"]
    by (simp add: pfcp_initial_types_def pfcp_final_types_def pfcp_answers_def xid n d) blast
qed

section \<open>Colliding requests\<close>

lemma delete_can_create:
  assumes inv: "pinv st" and s: "plive st s" and can: "pcan_create st" and run: "ogs_pfcp_xact_delete s st = Some (rv, st')"
  shows "pcan_create st'"
proof -
  obtain pool st'' where pool: "idpool_free (ps_pool st) s (px_id (pxact st s)) = Some pool"
    and st'': "ogs_pfcp_xact_delete s st = Some (OGS_OK, st'')" "ptab st'' = xt_del s pool (ptab st)" "ps_tm_avail st'' = ps_tm_avail st + 3"
    by (rule delete_refines [OF inv s])
  have "ps_pool st' = pool" using arg_cong [OF st''(2), of xt_pool] run st''(1) by (simp add: xt_del_def)
  moreover have "ip_ids pool = (ip_ids (ps_pool st))(px_id (pxact st s) := None)" "ip_free pool = ip_free (ps_pool st) @ [s]"
    "ip_id pool = ip_id (ps_pool st)"
    using idpool_free_inv [OF xt_invD(1) [OF pinvD(1) [OF inv]], of "px_id (pxact st s)" s] pool s by (auto simp: xt_used_def)
  ultimately show ?thesis using can run st''(1,3) by (auto simp: pcan_create_def idpool_fresh_def)
qed

text \<open>The first receive step on a new remote transaction accepts every request.\<close>

lemma new_remote_accepts:
  assumes cr: "pcreated s (new_pxact env i OGS_PFCP_REMOTE_ORIGINATOR xid g None) st st1" and conf: "pconf_ok env"
    and type: "type \<in> set pfcp_initial_types"
  obtains st2 where "rx_finish env s type st1 = Some (OGS_OK, Some s, st2)" "pframe s st1 st2" "px_step (pxact st2 s) = 1"
    "sq_type (px_seq (pxact st2 s) ! 0) = type" "pgood st1 st2"
proof -
  note c = pcreatedD [OF cr]
  obtain sth where sth: "pfcp_start_holding env s st1 = Some sth" using start_holding_total [OF conf] by blast
  note h = start_holding_frame [OF sth]
  have xh: "px_step (pxact sth s) = 0" "length (px_seq (pxact sth s)) = 3" by (simp_all add: h(2) c(3))
  then obtain rv st2 where acc: "pfcp_rx_accept s type sth = Some (rv, st2)" by (simp add: pfcp_rx_accept_def Let_def)
  note a = prx_accept_frame [OF acc]
  have "type \<noteq> 0" using type by (auto simp: pfcp_initial_types_def)
  then have upd: "ogs_pfcp_xact_update_rx env s type st1 = Some (OGS_OK, st2)"
    using sth acc a(1) by (simp add: ogs_pfcp_xact_update_rx_def Let_def c(3) pfcp_stage_eq(1) [OF type] pfcp_seq_get_def)
  have f: "pframe s st1 st2" by (rule pframe_trans [OF h(1) a(2)])
  have okh: "pxact_ok (pxact sth s)" using pxact_ok_holding [OF pinvD(2) [OF c(1,6)]] by (simp add: h(2))
  have "pxact_ok (pxact st2 s)" by (rule a(4) [OF okh]) (simp add: h(2) c(3))
  then have "pgood st1 st2" by (rule pgood_frame [OF f c(1)])
  then show thesis
    by (rule that [OF _ f, rotated 3]) (use upd a(3,5) xh in \<open>simp_all add: rx_finish_def\<close>)
qed

text \<open>A peer that reuses a sequence number is served at its next retransmission. When a request
  arrives under the sequence number of an older transaction of the same peer that holds a request of
  another type, the receive function reports an error and deletes the older transaction; when the
  peer repeats its request, a new transaction is created for it and handed out.\<close>

theorem colliding_request_served_on_retransmission:
  assumes "pinv st" "pcan_create st" "pconf_ok env" "ph_type h \<in> set pfcp_initial_types"
    and "pfcp_xact_lookup st g False (OGS_PFCP_SQN_TO_XID (ph_sqn h)) = Some s"
    and "sq_type (px_seq (pxact st s) ! 0) \<noteq> ph_type h" "px_step (pxact st s) \<noteq> 0"
    and "\<forall>t. plive st t \<and> px_node (pxact st t) = g \<and> px_org (pxact st t) = OGS_PFCP_REMOTE_ORIGINATOR
      \<and> px_xid (pxact st t) = OGS_PFCP_SQN_TO_XID (ph_sqn h) \<longrightarrow> t = s"
  shows "\<exists>st1 s' st2. ogs_pfcp_xact_receive env g h st = Some (OGS_ERROR, None, st1)
     \<and> ogs_pfcp_xact_find_by_id st1 (px_id (pxact st s)) = None
     \<and> ogs_pfcp_xact_receive env g h st1 = Some (OGS_OK, Some s', st2)
     \<and> px_step (pxact st2 s') = 1 \<and> sq_type (px_seq (pxact st2 s') ! 0) = ph_type h
     \<and> px_xid (pxact st2 s') = OGS_PFCP_SQN_TO_XID (ph_sqn h)"
proof -
  let ?xid = "OGS_PFCP_SQN_TO_XID (ph_sqn h)"
  note look = lookup_Some [OF assms(1,5)]
  note ok = pinvD(2) [OF assms(1) look(1)]
  have stage: "ogs_pfcp_xact_get_stage (ph_type h) xid = PFCP_XACT_INITIAL_STAGE" for xid by (rule pfcp_stage_eq(1) [OF assms(4)])
  have upd: "ogs_pfcp_xact_update_rx env s (ph_type h) st = Some (OGS_ERROR, st)"
    using look(4) assms(6,7) pseq_get [OF ok, of 0]
    by (simp add: ogs_pfcp_xact_update_rx_def Let_def stage pfcp_sel_org_def)
  obtain st1 where st1: "ogs_pfcp_xact_delete s st = Some (OGS_OK, st1)" "pinv st1" "\<forall>t. plive st1 t \<longleftrightarrow> plive st t \<and> t \<noteq> s"
    "\<forall>t. t \<noteq> s \<longrightarrow> pxact st1 t = pxact st t" "ogs_pfcp_xact_find_by_id st1 (px_id (pxact st s)) = None"
    by (rule delete_pinv [OF assms(1) look(1)])
  have r1: "ogs_pfcp_xact_receive env g h st = Some (OGS_ERROR, None, st1)"
    using assms(5) upd st1(1) by (simp add: receive_split stage pfcp_rx_local_def rx_finish_def)
  have none: "pfcp_xact_lookup st1 g False ?xid = None"
  proof (rule ccontr)
    assume "pfcp_xact_lookup st1 g False ?xid \<noteq> None"
    then obtain t where t: "pfcp_xact_lookup st1 g False ?xid = Some t" by blast
    note l = lookup_Some [OF st1(2) t]
    then show False using assms(8) st1(3,4) by (auto simp: pfcp_sel_org_def)
  qed
  note can1 = delete_can_create [OF assms(1) look(1) assms(2) st1(1)]
  obtain s' i sta where cr: "ogs_pfcp_xact_remote_create env g (ph_sqn h) st1 = Some (Some s', sta)"
    "pcreated s' (new_pxact env i OGS_PFCP_REMOTE_ORIGINATOR ?xid g None) st1 sta"
    by (rule premote_create_ok [OF st1(2) can1])
  obtain st2 where st2: "rx_finish env s' (ph_type h) sta = Some (OGS_OK, Some s', st2)" "pframe s' sta st2" "px_step (pxact st2 s') = 1"
    "sq_type (px_seq (pxact st2 s') ! 0) = ph_type h"
    by (rule new_remote_accepts [OF cr(2) assms(3,4)])
  have "ogs_pfcp_xact_receive env g h st1 = Some (OGS_OK, Some s', st2)"
    using none cr(1) st2(1) by (simp add: receive_split stage pfcp_rx_local_def)
  moreover have "px_xid (pxact st2 s') = ?xid" using pframeD(5) [OF st2(2)] pcreatedD(3) [OF cr(2)] by simp
  ultimately show ?thesis using r1 st1(5) st2(3,4) by blast
qed

definition pdemo_served :: pfcp_xact where
  "pdemo_served = (new_pxact pdemo_env 1 OGS_PFCP_REMOTE_ORIGINATOR 9 0 None)\<lparr>px_step := 2,
     px_seq := [\<lparr>sq_type = 50, sq_pkbuf = None\<rparr>, \<lparr>sq_type = 51, sq_pkbuf = Some [9]\<rparr>, \<lparr>sq_type = 0, sq_pkbuf = None\<rparr>]\<rparr>"

theorem colliding_request_served_on_retransmission_witness:
  "\<exists>st1 s' st2. ogs_pfcp_xact_receive pdemo_env 0 \<lparr>ph_type = 1, ph_seid_presence = False, ph_seid = 0, ph_sqn = OGS_PFCP_XID_TO_SQN 9\<rparr>
       (one_pxact pdemo_served) = Some (OGS_ERROR, None, st1)
     \<and> ogs_pfcp_xact_receive pdemo_env 0 \<lparr>ph_type = 1, ph_seid_presence = False, ph_seid = 0, ph_sqn = OGS_PFCP_XID_TO_SQN 9\<rparr>
       st1 = Some (OGS_OK, Some s', st2)"
proof -
  have ok: "pxact_ok pdemo_served" "px_id pdemo_served = 1" "px_node pdemo_served = 0"
    by (simp_all add: pdemo_served_def pxact_ok_def)
  note inv = one_pxact_inv [OF ok]
  have x: "px_org pdemo_served = pfcp_sel_org False" "px_xid pdemo_served = 9" "px_step pdemo_served = 2"
    "sq_type (px_seq pdemo_served ! 0) = 50" by (simp_all add: pdemo_served_def pfcp_sel_org_def)
  have xid: "OGS_PFCP_SQN_TO_XID (OGS_PFCP_XID_TO_SQN 9) = 9" by (rule pfcp_sqn_xid) simp
  have only: "t = 0" if "plive (one_pxact pdemo_served) t" for t
  proof -
    have "t < ip_size (ps_pool (one_pxact pdemo_served))" "t \<notin> set (ip_free (ps_pool (one_pxact pdemo_served)))"
      using xt_used_not_free [OF pinvD(1) [OF inv(1)] that] that xt_invD(1) [OF pinvD(1) [OF inv(1)]]
      by (auto simp: xt_used_def idpool_inv_def ran_def)
    moreover have "ps_pool (one_pxact pdemo_served) = \<lparr>ip_free = [1], ip_size = 2, ip_ids = Map.empty(1 \<mapsto> 0), ip_id = 1\<rparr>"
      by (simp add: one_pxact_def pfcp_xact_link_def pfcp_xact_index_add_def upd_pfcp_own_list_def Let_def)
    ultimately show ?thesis by auto
  qed
  have look: "pfcp_xact_lookup (one_pxact pdemo_served) 0 False 9 = Some 0"
    by (rule lookup_unique [OF inv(1,3)]) (use ok x only in \<open>simp_all add: inv(4)\<close>)
  show ?thesis
    using colliding_request_served_on_retransmission [OF inv(1,2) pdemo_ok(2),
        of "\<lparr>ph_type = 1, ph_seid_presence = False, ph_seid = 0, ph_sqn = OGS_PFCP_XID_TO_SQN 9\<rparr>" 0 0]
      look x only by (simp add: xid inv(4) pfcp_initial_types_def) blast
qed

end
