(* ===== verification/Ogs_Conv.thy ===== *)
theory Ogs_Conv
  imports Prelude
begin

text \<open>
  The conversions between packed BCD and digit strings of \<open>src/lib/core/ogs-conv.c\<close>, by which
  IMSIs travel between GTP messages, the session tables and the shard hash. The output buffer is
  an argument: a write behind its end aborts, so that the size that a caller needs is part of
  what is proved. The packed form is specified by the recursive functions \<open>bcd_pack\<close> and
  \<open>bcd_unpack\<close>, two digits at a time; the loops of the code are shown to compute them.
\<close>

section \<open>The conversions\<close>

fun bcd_to_buffer_loop :: "bytes \<Rightarrow> nat \<Rightarrow> bytes \<Rightarrow> bytes option" where
  "bcd_to_buffer_loop [] i out = Some out"
| "bcd_to_buffer_loop (c # cs) i out =
     do { out \<leftarrow> (if odd i
                  then do { b \<leftarrow> buf_rd out (i div 2);
                            buf_wr out (i div 2) (b OR (push_bit 4 (c - 0x30) AND 0xF0)) }
                  else buf_wr out (i div 2) ((c - 0x30) AND 0x0F));
          bcd_to_buffer_loop cs (i + 1) out }"

definition ogs_bcd_to_buffer :: "bytes \<Rightarrow> bytes \<Rightarrow> (bytes \<times> nat) option" where
  "ogs_bcd_to_buffer inp out =
     do { out \<leftarrow> bcd_to_buffer_loop inp 0 out;
          let out_len = (length inp + 1) div 2;
          if odd (length inp)
          then do { b \<leftarrow> buf_rd out (out_len - 1);
                    out \<leftarrow> buf_wr out (out_len - 1) (b OR 0xF0);
                    Some (out, out_len) }
          else Some (out, out_len) }"

fun buffer_to_bcd_loop :: "bytes \<Rightarrow> nat \<Rightarrow> bytes \<Rightarrow> bytes option" where
  "buffer_to_bcd_loop [] i out = Some out"
| "buffer_to_bcd_loop (b # bs) i out =
     do { out \<leftarrow> buf_wr out (i * 2) (0x30 + (b AND 0x0F));
          out \<leftarrow> buf_wr out (i * 2 + 1) (0x30 + drop_bit 4 (b AND 0xF0));
          buffer_to_bcd_loop bs (i + 1) out }"

text \<open>The last octet is read even when there is none.\<close>

definition ogs_buffer_to_bcd :: "bytes \<Rightarrow> bytes \<Rightarrow> bytes option" where
  "ogs_buffer_to_bcd inp out =
     do { out \<leftarrow> buffer_to_bcd_loop (butlast inp) 0 out;
          let i = length inp - 1;
          b \<leftarrow> buf_rd inp i;
          if b AND 0xF0 = 0xF0
          then do { out \<leftarrow> buf_wr out (i * 2) (0x30 + (b AND 0x0F));
                    buf_wr out (i * 2 + 1) 0 }
          else do { out \<leftarrow> buf_wr out (i * 2) (0x30 + (b AND 0x0F));
                    out \<leftarrow> buf_wr out (i * 2 + 1) (0x30 + drop_bit 4 (b AND 0xF0));
                    buf_wr out (i * 2 + 2) 0 } }"

section \<open>The packed form\<close>

definition nibble :: "u8 \<Rightarrow> u8" where
  "nibble c = (c - 0x30) AND 0x0F"

definition lo_digit :: "u8 \<Rightarrow> u8" where
  "lo_digit b = 0x30 + (b AND 0x0F)"

definition hi_digit :: "u8 \<Rightarrow> u8" where
  "hi_digit b = 0x30 + drop_bit 4 (b AND 0xF0)"

fun bcd_pack :: "bytes \<Rightarrow> bytes" where
  "bcd_pack [] = []"
| "bcd_pack [c] = [nibble c OR 0xF0]"
| "bcd_pack (c # d # cs) = (nibble c OR push_bit 4 (nibble d)) # bcd_pack cs"

fun bcd_unpack :: "bytes \<Rightarrow> bytes" where
  "bcd_unpack [] = []"
| "bcd_unpack [b] = (if b AND 0xF0 = 0xF0 then [lo_digit b] else [lo_digit b, hi_digit b])"
| "bcd_unpack (b # bs) = lo_digit b # hi_digit b # bcd_unpack bs"

definition is_digit :: "u8 \<Rightarrow> bool" where
  "is_digit c \<longleftrightarrow> 0x30 \<le> c \<and> c \<le> 0x39"

lemma length_bcd_pack [simp]: "length (bcd_pack s) = (length s + 1) div 2"
  by (induction s rule: bcd_pack.induct) auto

lemma length_bcd_unpack:
  "b \<noteq> [] \<Longrightarrow> length (bcd_unpack b) = 2 * length b - (if last b AND 0xF0 = 0xF0 then 1 else 0)"
  by (induction b rule: bcd_unpack.induct) auto

subsection \<open>Octets and their halves\<close>

lemma nibble_masks: "(0x0F :: u8) = mask 4" "(0xF0 :: u8) = push_bit 4 (mask 4)"
  by (simp_all add: mask_eq_exp_minus_1 push_bit_eq_mult)

lemma digit_nonzero [simp]: "lo_digit b \<noteq> 0" "hi_digit b \<noteq> 0"
proof -
  have plus: "0x30 + x = 0x30 OR x" if "x AND 0x0F = x" for x :: u8
  proof (rule disjunctive_add_eq_or)
    have "0x30 AND (x AND 0x0F) = x AND (0x30 AND 0x0F)" by (simp only: ac_simps)
    then show "0x30 AND x = 0" using that by simp
  qed
  have "bit (0x30 OR x) 4" for x :: u8 by (simp add: bit_or_iff)
  then have nz: "0x30 OR x \<noteq> 0" for x :: u8 by (metis bit_0_eq bot_apply bot_bool_def)
  have "drop_bit 4 (b AND 0xF0) AND 0x0F = drop_bit 4 (b AND 0xF0)"
    unfolding nibble_masks by (rule bit_word_eqI) (auto simp: bit_simps dest: bit_imp_le_length)
  then show "hi_digit b \<noteq> 0" unfolding hi_digit_def by (simp add: plus nz)
  have "(b AND 0x0F) AND 0x0F = b AND 0x0F" by (simp add: and.assoc)
  then show "lo_digit b \<noteq> 0" unfolding lo_digit_def by (simp add: plus nz)
qed

lemma nibble_digit [simp]:
  "nibble (lo_digit b) = b AND mask 4" "nibble (hi_digit b) = drop_bit 4 b"
  unfolding nibble_def lo_digit_def hi_digit_def
  by (simp_all add: nibble_masks, rule_tac [!] bit_word_eqI)
    (auto simp: bit_simps dest: bit_imp_le_length)

lemma halves: "(b AND mask 4) OR push_bit 4 (drop_bit 4 b) = (b::u8)"
proof (rule bit_word_eqI)
  fix n
  show "bit ((b AND mask 4) OR push_bit 4 (drop_bit 4 b)) n = bit b n"
    by (cases "n < 4") (auto simp: bit_simps dest: bit_imp_le_length)
qed

lemma hi_half: "b AND 0xF0 = push_bit 4 (drop_bit 4 (b::u8))"
proof (rule bit_word_eqI)
  fix n
  show "bit (b AND 0xF0) n = bit (push_bit 4 (drop_bit 4 b)) n"
    unfolding nibble_masks by (cases "n < 4") (auto simp: bit_simps dest: bit_imp_le_length)
qed

lemma halves_last: "b AND 0xF0 = 0xF0 \<Longrightarrow> (b AND mask 4) OR 0xF0 = (b::u8)"
  using halves [of b] unfolding hi_half [symmetric] by simp

lemma nibble_shift: "drop_bit 4 (push_bit 4 (nibble d)) = nibble d"
  unfolding nibble_def nibble_masks by (rule bit_word_eqI) (auto simp: bit_simps)

lemma digit_nibble:
  assumes "is_digit c"
  shows "0x30 + nibble c = c" "nibble c \<le> 9"
proof -
  have c: "48 \<le> unat c" "unat c \<le> 57"
    using assms by (auto simp: is_digit_def word_le_nat_alt)
  then have u: "unat (c - 0x30) = unat c - 48" by (simp add: unat_sub word_le_nat_alt)
  have "unat (nibble c) = unat c - 48"
    using c unfolding nibble_def nibble_masks by (simp add: take_bit_eq_mask [symmetric] unsigned_take_bit_eq u take_bit_nat_eq_self)
  then have "nibble c = c - 0x30" by (metis u word_unat_eq_iff)
  then show "0x30 + nibble c = c" "nibble c \<le> 9" using c by (simp_all add: u word_le_nat_alt)
qed

lemma packed_digits:
  "lo_digit (nibble c OR push_bit 4 x) = 0x30 + nibble c"
  "hi_digit (nibble c OR push_bit 4 (nibble d)) = 0x30 + nibble d"
  "(nibble c OR push_bit 4 (nibble d)) AND 0xF0 = push_bit 4 (nibble d)"
proof -
  have "(nibble c OR push_bit 4 x) AND 0x0F = nibble c"
    unfolding nibble_def nibble_masks by (rule bit_word_eqI) (auto simp: bit_simps)
  then show "lo_digit (nibble c OR push_bit 4 x) = 0x30 + nibble c" by (simp add: lo_digit_def)
  have "drop_bit 4 (nibble c OR push_bit 4 (nibble d)) = nibble d"
    unfolding nibble_def nibble_masks by (rule bit_word_eqI) (auto simp: bit_simps)
  then show "(nibble c OR push_bit 4 (nibble d)) AND 0xF0 = push_bit 4 (nibble d)"
    and "hi_digit (nibble c OR push_bit 4 (nibble d)) = 0x30 + nibble d"
    unfolding hi_digit_def hi_half by (simp_all only: nibble_shift)
qed

subsection \<open>Packing and unpacking are inverse\<close>

lemma pack_unpack: "b \<noteq> [] \<Longrightarrow> bcd_pack (bcd_unpack b) = b"
proof (induction b rule: bcd_unpack.induct)
  case (2 b)
  then show ?case by (simp add: halves halves_last)
next
  case (3 b c bs)
  then show ?case by (simp add: halves)
qed simp

lemma nibble_small: "nibble d \<le> 9 \<Longrightarrow> push_bit 4 (nibble d) \<noteq> 0xF0"
proof
  assume "nibble d \<le> 9" "push_bit 4 (nibble d) = 0xF0"
  then have "nibble d = drop_bit 4 0xF0"
    by (metis nibble_shift)
  then show False using \<open>nibble d \<le> 9\<close> by simp
qed

lemma unpack_pack: "list_all is_digit s \<Longrightarrow> bcd_unpack (bcd_pack s) = s"
proof (induction s rule: bcd_pack.induct)
  case (2 c)
  have "(0xF0::u8) = push_bit 4 0x0F" by simp
  moreover have "(nibble c OR 0xF0) AND 0xF0 = 0xF0"
    by (rule bit_word_eqI) (auto simp: bit_simps)
  ultimately show ?case using 2 packed_digits(1) [of c "0x0F"] digit_nibble(1) [of c] by simp
next
  case (3 c d cs)
  then show ?case
    using nibble_small [OF digit_nibble(2), of d]
    by (cases "bcd_pack cs") (auto simp: packed_digits digit_nibble)
qed simp

lemma unpack_no_null: "0 \<notin> set (bcd_unpack b)"
  by (induction b rule: bcd_unpack.induct) (auto simp: digit_nonzero [symmetric])

section \<open>The loops compute the packed form\<close>

fun pack_open :: "bytes \<Rightarrow> bytes" where
  "pack_open [] = []"
| "pack_open [c] = [nibble c]"
| "pack_open (c # d # cs) = (nibble c OR push_bit 4 (nibble d)) # pack_open cs"

lemma length_pack_open [simp]: "length (pack_open s) = (length s + 1) div 2"
  by (induction s rule: pack_open.induct) auto

lemma push_nibble: "push_bit 4 (c - 0x30) AND 0xF0 = push_bit 4 (nibble c)"
proof -
  have "push_bit 4 (c - 0x30) AND push_bit 4 0x0F = push_bit 4 ((c - 0x30) AND 0x0F)"
    by (rule push_bit_and [symmetric])
  then show ?thesis by (simp add: nibble_def)
qed

lemma bcd_to_buffer_loop_packs:
  assumes "(length s + 1) div 2 \<le> length rest"
  shows "bcd_to_buffer_loop s (2 * length pre) (pre @ rest) =
     Some (pre @ pack_open s @ drop ((length s + 1) div 2) rest)"
  using assms
proof (induction s arbitrary: pre rest rule: pack_open.induct)
  case (2 c)
  then show ?case by (cases rest) (auto simp: nibble_def)
next
  case (3 c d cs)
  then obtain x rest' where rest: "rest = x # rest'" by (cases rest) auto
  let ?b = "nibble c OR push_bit 4 (nibble d)"
  have "bcd_to_buffer_loop cs (2 * length (pre @ [?b])) ((pre @ [?b]) @ rest') =
      Some ((pre @ [?b]) @ pack_open cs @ drop ((length cs + 1) div 2) rest')"
    using 3 rest by (intro "3.IH") simp
  moreover have "Suc (2 * length pre) div 2 = length pre" by simp
  ultimately show ?case
    by (simp add: rest push_nibble nibble_def [symmetric] del: push_bit_numeral)
qed simp

lemma bcd_pack_open:
  "odd (length s) \<Longrightarrow> bcd_pack s = (pack_open s)[length s div 2 := pack_open s ! (length s div 2) OR 0xF0]"
  "even (length s) \<Longrightarrow> bcd_pack s = pack_open s"
  by (induction s rule: pack_open.induct) auto

lemma bcd_to_buffer_packs:
  assumes "(length s + 1) div 2 \<le> length out"
  shows "ogs_bcd_to_buffer s out =
     Some (bcd_pack s @ drop ((length s + 1) div 2) out, (length s + 1) div 2)"
proof (cases "odd (length s)")
  case True
  then obtain k where "length s = Suc (2 * k)" by (elim oddE) auto
  then show ?thesis
    using bcd_to_buffer_loop_packs [OF assms, of "[]"] bcd_pack_open(1) [OF True]
    by (simp add: ogs_bcd_to_buffer_def Let_def buf_rd_def buf_wr_def nth_append list_update_append)
next
  case False
  then show ?thesis
    using bcd_to_buffer_loop_packs [OF assms, of "[]"] bcd_pack_open(2)
    by (simp add: ogs_bcd_to_buffer_def Let_def)
qed

lemma buffer_to_bcd_loop_unpacks:
  "buffer_to_bcd_loop bs (length pre div 2) (pre @ rest) =
     (if 2 * length bs \<le> length rest
      then Some (pre @ concat (map (\<lambda>b. [lo_digit b, hi_digit b]) bs) @ drop (2 * length bs) rest)
      else None)"
  if "even (length pre)"
  using that
proof (induction bs arbitrary: pre rest)
  case (Cons b bs)
  consider "rest = []" | x where "rest = [x]" | x y rest' where "rest = x # y # rest'"
    by (metis list.exhaust)
  then show ?case
  proof cases
    case (2 x)
    then show ?thesis using Cons.prems buf_wr_append(2) [of "pre @ [lo_digit b]"]
      by (auto simp: lo_digit_def)
  next
    case (3 x y rest')
    have "length (pre @ [lo_digit b, hi_digit b]) div 2 = length pre div 2 + 1" by simp
    then show ?thesis
      using Cons.IH [of "pre @ [lo_digit b, hi_digit b]" rest'] Cons.prems
        buf_wr_append(1) [of "pre @ [lo_digit b]" y]
      by (simp add: 3 lo_digit_def hi_digit_def)
  qed (use Cons.prems in auto)
qed simp

lemma bcd_unpack_butlast:
  "b \<noteq> [] \<Longrightarrow> bcd_unpack b =
     concat (map (\<lambda>b. [lo_digit b, hi_digit b]) (butlast b)) @ bcd_unpack [last b]"
  by (induction b rule: bcd_unpack.induct) auto

lemma bcd_last_octet:
  fixes ds r :: bytes
  defines "i \<equiv> length ds"
  shows "(if l AND 0xF0 = 0xF0
      then do { out \<leftarrow> buf_wr (ds @ r) i (lo_digit l); buf_wr out (i + 1) 0 }
      else do { out \<leftarrow> buf_wr (ds @ r) i (lo_digit l); out \<leftarrow> buf_wr out (i + 1) (hi_digit l);
                buf_wr out (i + 2) 0 }) =
     (if length (bcd_unpack [l]) < length r
      then Some (ds @ bcd_unpack [l] @ 0 # drop (length (bcd_unpack [l]) + 1) r) else None)"
proof -
  consider "r = []" | x where "r = [x]" | x y where "r = [x, y]" | x y z t where "r = x # y # z # t"
    by (metis list.exhaust)
  then show ?thesis
    unfolding i_def by cases (simp_all add: buf_wr_def list_update_append)
qed

text \<open>The conversion of \<open>n\<close> octets writes the digits and a null octet: it stays inside the output
  buffer exactly when the buffer has one octet more than there are digits.\<close>

lemma buffer_to_bcd_unpacks:
  assumes "b \<noteq> []"
  shows "ogs_buffer_to_bcd b out =
     (if length (bcd_unpack b) < length out
      then Some (bcd_unpack b @ 0 # drop (length (bcd_unpack b) + 1) out)
      else None)"
proof -
  define ds where "ds = concat (map (\<lambda>b. [lo_digit b, hi_digit b]) (butlast b))"
  define l where "l = last b"
  have len: "length ds = (length b - 1) * 2"
    unfolding ds_def by (simp add: length_concat comp_def sum_list_triv)
  have u: "bcd_unpack b = ds @ bcd_unpack [l]"
    using bcd_unpack_butlast [OF assms] by (simp add: ds_def l_def)
  have loop: "buffer_to_bcd_loop (butlast b) 0 out =
      (if length ds \<le> length out then Some (ds @ drop (length ds) out) else None)"
    using buffer_to_bcd_loop_unpacks [of "[]" "butlast b" out] len by (simp add: ds_def mult.commute)
  have rd: "buf_rd b (length b - 1) = Some l"
    using assms by (simp add: buf_rd_def l_def last_conv_nth)
  show ?thesis
    unfolding ogs_buffer_to_bcd_def loop Let_def rd len [symmetric] u
    using bcd_last_octet [of l ds "drop (length ds) out"]
    by (auto simp: lo_digit_def hi_digit_def less_diff_conv add.commute)
qed

text \<open>Packed BCD and digit strings convert into each other without loss. Any non-empty
  sequence of octets comes back from its digit string, whatever the nibbles are, and any string
  of at least one decimal digit comes back from its packed form, whether its length is even or
  odd, provided that the buffers have room for the result.\<close>

theorem bcd_roundtrip:
  assumes "b \<noteq> []" "2 * length b < length out1" "length b \<le> length out2"
    and "s \<noteq> []" "list_all is_digit s" "(length s + 1) div 2 \<le> length out3" "length s < length out4"
  shows "(\<exists>bcd out'. ogs_buffer_to_bcd b out1 = Some bcd
        \<and> ogs_bcd_to_buffer (c_str bcd) out2 = Some (out', length b) \<and> take (length b) out' = b)
     \<and> (\<exists>buf n bcd. ogs_bcd_to_buffer s out3 = Some (buf, n)
        \<and> ogs_buffer_to_bcd (take n buf) out4 = Some bcd \<and> c_str bcd = s)"
proof
  have len: "(length (bcd_unpack b) + 1) div 2 = length b"
    using assms(1) length_bcd_pack [of "bcd_unpack b"] by (simp add: pack_unpack)
  show "\<exists>bcd out'. ogs_buffer_to_bcd b out1 = Some bcd
        \<and> ogs_bcd_to_buffer (c_str bcd) out2 = Some (out', length b) \<and> take (length b) out' = b"
    using assms(1-3) len
    by (simp add: buffer_to_bcd_unpacks length_bcd_unpack unpack_no_null bcd_to_buffer_packs pack_unpack)
  have "bcd_pack s \<noteq> []" using assms(4) by (cases s rule: bcd_pack.cases) auto
  then show "\<exists>buf n bcd. ogs_bcd_to_buffer s out3 = Some (buf, n)
        \<and> ogs_buffer_to_bcd (take n buf) out4 = Some bcd \<and> c_str bcd = s"
    using assms(5-7) unpack_no_null [of "bcd_pack s"]
    by (simp add: bcd_to_buffer_packs buffer_to_bcd_unpacks unpack_pack)
qed

end
