(* ===== verification/Smf_Shard.thy ===== *)
theory Smf_Shard
  imports Pfcp_Message Ogs_Conv
begin

text \<open>
  The shard arithmetic and the raw-packet peeks of the SMF (\<open>src/src/smf/smf-shard.c\<close>) and the
  composition of session identifiers (\<open>smf_shard_compose\<close> of \<open>src/src/smf/context.c\<close>). Shard 0 is
  the main thread and shards 1 to \<open>nworkers\<close> are workers. A packet is the list of its octets; a
  result \<open>None\<close> is a failed assertion or an access behind the end of a buffer.
\<close>

section \<open>Shards of identifiers\<close>

definition SMF_SHARD_MASK :: u32 where
  "SMF_SHARD_MASK = push_bit OGS_WORKER_ID_BITS 1 - 1"

definition smf_shard_decode_teid :: "u32 \<Rightarrow> int" where
  "smf_shard_decode_teid teid = uint (drop_bit (32 - OGS_WORKER_ID_BITS) teid AND SMF_SHARD_MASK)"

definition smf_shard_decode_seid :: "u64 \<Rightarrow> int" where
  "smf_shard_decode_seid seid = smf_shard_decode_teid (ucast seid)"

definition smf_shard_decode_xid :: "u32 \<Rightarrow> int" where
  "smf_shard_decode_xid xid = uint (drop_bit (23 - OGS_WORKER_ID_BITS) xid AND SMF_SHARD_MASK)"

definition smf_shard_clamp_n :: "int \<Rightarrow> u32 \<Rightarrow> int \<Rightarrow> int" where
  "smf_shard_clamp_n shard fallback_key nworkers =
     (if shard \<ge> 0 \<and> shard \<le> nworkers then shard
      else if nworkers \<le> 0 then 0
      else 1 + uint fallback_key mod nworkers)"

definition smf_shard_imsi_hash_n :: "bytes \<Rightarrow> int \<Rightarrow> int" where
  "smf_shard_imsi_hash_n imsi_bcd nworkers =
     (if nworkers \<le> 0 then 0
      else let h = foldl (\<lambda>h c. (push_bit 5 h + h) + ucast c) (5381 :: u32) imsi_bcd
           in 1 + uint h mod nworkers)"

definition smf_shard_compose :: "bool \<Rightarrow> nat \<Rightarrow> u32 \<Rightarrow> u32 option" where
  "smf_shard_compose shards_active self raw =
     (if \<not> shards_active then Some raw
      else do { ogs_assert (raw < push_bit (32 - OGS_WORKER_ID_BITS) 1);
                Some (push_bit (32 - OGS_WORKER_ID_BITS) (of_nat self) OR raw) })"

section \<open>The IMSI of a raw packet\<close>

definition OGS_MAX_IMSI_BCD_LEN :: nat where
  "OGS_MAX_IMSI_BCD_LEN = 15"

definition OGS_MAX_IMSI_LEN :: nat where
  "OGS_MAX_IMSI_LEN = (OGS_MAX_IMSI_BCD_LEN + 1) div 2"

abbreviation (input) OGS_GTP2_IMSI_TYPE :: u8 where "OGS_GTP2_IMSI_TYPE \<equiv> 1"
abbreviation (input) OGS_GTP1_IMSI_TYPE :: u8 where "OGS_GTP1_IMSI_TYPE \<equiv> 2"

text \<open>The walk over the information elements from offset \<open>p\<close> on.\<close>

function gtpv2_peek_loop :: "bytes \<Rightarrow> nat \<Rightarrow> bytes \<Rightarrow> (ogs_rv \<times> bytes) option" where
  "gtpv2_peek_loop d p bcd =
     (if p + 4 \<le> length d
      then let type = d ! p;
               len = unat (be_word16 (d ! (p + 1)) (d ! (p + 2)));
               inst = d ! (p + 3) AND 0x0f;
               val = p + 4
           in if val + len > length d then Some (OGS_ERROR, bcd)
              else if type = OGS_GTP2_IMSI_TYPE \<and> inst = 0 \<and> len > 0
              then do { bcd \<leftarrow> ogs_buffer_to_bcd (take (min len OGS_MAX_IMSI_LEN) (drop val d)) bcd;
                        Some (OGS_OK, bcd) }
              else gtpv2_peek_loop d (val + len) bcd
      else Some (OGS_ERROR, bcd))"
  by pat_completeness auto
termination
  by (relation "measure (\<lambda>(d, p, bcd). length d - p)") auto

declare gtpv2_peek_loop.simps [simp del]

definition smf_gtpv2_peek_imsi_bcd :: "bytes \<Rightarrow> bytes \<Rightarrow> (ogs_rv \<times> bytes) option" where
  "smf_gtpv2_peek_imsi_bcd d bcd =
     do { ogs_assert (length bcd > OGS_MAX_IMSI_BCD_LEN);
          bcd \<leftarrow> buf_wr bcd 0 0;
          if length d < 8 then Some (OGS_ERROR, bcd)
          else let hdr_len = (if hdr2_teid_presence (d ! 0) then OGS_GTPV2C_HEADER_LEN else 8)
               in if length d < hdr_len then Some (OGS_ERROR, bcd)
                  else gtpv2_peek_loop d hdr_len bcd }"

definition smf_gtpv1_peek_imsi_bcd :: "bytes \<Rightarrow> bytes \<Rightarrow> (ogs_rv \<times> bytes) option" where
  "smf_gtpv1_peek_imsi_bcd d bcd =
     do { ogs_assert (length bcd > OGS_MAX_IMSI_BCD_LEN);
          bcd \<leftarrow> buf_wr bcd 0 0;
          if length d < 8 then Some (OGS_ERROR, bcd)
          else let e = bit (d ! 0) 2; s = bit (d ! 0) 1; pn = bit (d ! 0) 0;
                   hdr_len = (if e \<or> s \<or> pn then OGS_GTPV1C_HEADER_LEN else 8)
               in if e then Some (OGS_ERROR, bcd)
                  else if length d < hdr_len + 1 + 8 then Some (OGS_ERROR, bcd)
                  else if d ! hdr_len \<noteq> OGS_GTP1_IMSI_TYPE then Some (OGS_ERROR, bcd)
                  else do { bcd \<leftarrow> ogs_buffer_to_bcd (take 8 (drop (hdr_len + 1) d)) bcd;
                            Some (OGS_OK, bcd) } }"

section \<open>Ranges and round trips\<close>

lemma one_plus_mod: "0 < n \<Longrightarrow> 1 + k mod n \<in> {1..n}" for n :: int
proof -
  assume "0 < n"
  then have "0 \<le> k mod n" "k mod n < n" by simp_all
  then show ?thesis unfolding atLeastAtMost_iff by linarith
qed

lemma clamp_range: "0 \<le> nworkers \<Longrightarrow> smf_shard_clamp_n shard key nworkers \<in> {0..nworkers}"
  using one_plus_mod [of nworkers "uint key"] by (auto simp: smf_shard_clamp_n_def)

lemma clamp_live: "0 \<le> shard \<Longrightarrow> shard \<le> nworkers \<Longrightarrow> smf_shard_clamp_n shard key nworkers = shard"
  by (simp add: smf_shard_clamp_n_def)

lemma imsi_hash_range:
  "0 < nworkers \<Longrightarrow> smf_shard_imsi_hash_n s nworkers \<in> {1..nworkers}"
  "smf_shard_imsi_hash_n s 0 = 0"
  using one_plus_mod by (auto simp: smf_shard_imsi_hash_n_def Let_def)

text \<open>The identifiers composed by a shard decode to it.\<close>

lemma decode_compose:
  assumes "smf_shard_compose True self raw = Some x" "self < 16"
  shows "smf_shard_decode_teid x = int self" "smf_shard_decode_seid (ucast x) = int self"
proof -
  have raw: "raw < push_bit 28 1" and x: "x = push_bit 28 (of_nat self) OR raw"
    using assms(1) by (auto simp: smf_shard_compose_def OGS_WORKER_ID_BITS_def split: if_splits)
  have nb: "\<not> bit raw n" if "28 \<le> n" for n
    using raw that by (intro small_no_bit [of _ 28]) (simp_all add: word_less_nat_alt)
  have "x = ogs_worker_shard_encode self raw 32"
    unfolding x ogs_worker_shard_encode_def OGS_WORKER_ID_BITS_def one_bits_mask
    using nb by (intro bit_word_eqI) (auto simp: bit_simps not_le)
  then have d: "ogs_worker_shard_decode x 32 = of_nat self"
    using assms(2) by (simp add: shard_decode_encode OGS_MAX_WORKERS_def OGS_WORKER_ID_BITS_def)
  show teid: "smf_shard_decode_teid x = int self"
    using d assms(2)
    by (simp add: smf_shard_decode_teid_def SMF_SHARD_MASK_def ogs_worker_shard_decode_def
        OGS_WORKER_ID_BITS_def uint_nat unat_of_nat take_bit_nat_eq_self)
  have "ucast (ucast x :: u64) = x" by (rule bit_word_eqI) (auto simp: bit_simps dest: bit_imp_le_length)
  then show "smf_shard_decode_seid (ucast x) = int self"
    by (simp add: smf_shard_decode_seid_def teid)
qed

section \<open>The peek against the grammar of GTPv2 messages\<close>

text \<open>An information element of type, instance and value, and its octets in a message.\<close>

type_synonym gtp2_ie = "u8 \<times> u8 \<times> bytes"

fun ie_bytes :: "gtp2_ie \<Rightarrow> bytes" where
  "ie_bytes (t, i, v) = [t] @ be_bytes16 (of_nat (length v)) @ [i] @ v"

fun ie_ok :: "gtp2_ie \<Rightarrow> bool" where
  "ie_ok (t, i, v) \<longleftrightarrow> length v < 65536"

fun is_imsi_ie :: "gtp2_ie \<Rightarrow> bool" where
  "is_imsi_ie (t, i, v) \<longleftrightarrow> t = OGS_GTP2_IMSI_TYPE \<and> i AND 0x0f = 0 \<and> v \<noteq> []"

lemma peek_step:
  assumes "length v < 65536"
  shows "gtpv2_peek_loop (pre @ ie_bytes (t, i, v) @ rest) (length pre) bcd =
     (if is_imsi_ie (t, i, v)
      then do { bcd \<leftarrow> ogs_buffer_to_bcd (take OGS_MAX_IMSI_LEN v) bcd; Some (OGS_OK, bcd) }
      else gtpv2_peek_loop (pre @ ie_bytes (t, i, v) @ rest) (length (pre @ ie_bytes (t, i, v))) bcd)"
proof -
  define d where "d = pre @ ie_bytes (t, i, v) @ rest"
  have oct: "d ! length pre = t" "d ! (length pre + 3) = i"
    "be_word16 (d ! (length pre + 1)) (d ! (length pre + 2)) = of_nat (length v)"
    by (simp_all add: d_def nth_append be_bytes16_def)
  have len: "unat (of_nat (length v) :: u16) = length v"
    using assms by (simp add: unat_of_nat take_bit_nat_eq_self)
  have val: "drop (length pre + 4) d = v @ rest" "length d = length pre + 4 + length v + length rest"
    by (simp_all add: d_def be_bytes16_def)
  have tk: "take (min (length v) OGS_MAX_IMSI_LEN) (v @ rest) = take OGS_MAX_IMSI_LEN v"
    by (simp add: min_def)
  have "length (pre @ ie_bytes (t, i, v)) = length pre + 4 + length v" by (simp add: be_bytes16_def)
  moreover have "gtpv2_peek_loop d (length pre) bcd =
      (if is_imsi_ie (t, i, v)
       then do { bcd \<leftarrow> ogs_buffer_to_bcd (take OGS_MAX_IMSI_LEN v) bcd; Some (OGS_OK, bcd) }
       else gtpv2_peek_loop d (length pre + 4 + length v) bcd)"
    unfolding gtpv2_peek_loop.simps [of d "length pre"] Let_def oct len val(1) tk
    using val(2) by auto
  ultimately show ?thesis unfolding d_def by presburger
qed

lemma peek_ies:
  assumes "list_all ie_ok ies"
  shows "gtpv2_peek_loop (pre @ concat (map ie_bytes ies)) (length pre) bcd =
     (case find is_imsi_ie ies of
        None \<Rightarrow> Some (OGS_ERROR, bcd)
      | Some (t, i, v) \<Rightarrow>
          do { bcd \<leftarrow> ogs_buffer_to_bcd (take OGS_MAX_IMSI_LEN v) bcd; Some (OGS_OK, bcd) })"
  using assms
proof (induction ies arbitrary: pre)
  case Nil
  show ?case by (subst gtpv2_peek_loop.simps) simp
next
  case (Cons ie ies)
  obtain t i v where ie: "ie = (t, i, v)" by (cases ie)
  show ?case
    using Cons.prems Cons.IH [of "pre @ ie_bytes ie"]
      peek_step [of v pre t i "concat (map ie_bytes ies)" bcd]
    by (simp add: ie del: ie_bytes.simps)
qed

lemma push_header_split:
  obtains hdr where "gtp2_push_header hdesc xid payload = hdr @ payload"
    "length hdr = (if hdr2_teid_presence (hdr ! 0) then OGS_GTPV2C_HEADER_LEN else 8)" "8 \<le> length hdr"
proof
  let ?h = "take (gtp2_hlen (hd_type hdesc)) (gtp2_push_header hdesc xid payload)"
  show "gtp2_push_header hdesc xid payload = ?h @ payload"
    by (cases "gtp2_has_teid (hd_type hdesc)")
      (simp_all add: gtp2_push_header_def Let_def gtp2_hlen_def OGS_GTPV2C_HEADER_LEN_def OGS_GTP2_TEID_LEN_def)
  show "length ?h = (if hdr2_teid_presence (?h ! 0) then OGS_GTPV2C_HEADER_LEN else 8)" "8 \<le> length ?h"
    by (cases "gtp2_has_teid (hd_type hdesc)")
      (simp_all add: gtp2_push_header_def Let_def gtp2_hlen_def OGS_GTPV2C_HEADER_LEN_def OGS_GTP2_TEID_LEN_def
        hdr2_teid_presence_def bit_or_iff)
qed

lemma peek_message:
  assumes "list_all ie_ok ies" "length bcd = OGS_MAX_IMSI_BCD_LEN + 1"
  shows "smf_gtpv2_peek_imsi_bcd (gtp2_push_header hdesc xid (concat (map ie_bytes ies))) bcd =
     (case find is_imsi_ie ies of
        None \<Rightarrow> Some (OGS_ERROR, bcd[0 := 0])
      | Some (t, i, v) \<Rightarrow>
          do { bcd \<leftarrow> ogs_buffer_to_bcd (take OGS_MAX_IMSI_LEN v) (bcd[0 := 0]); Some (OGS_OK, bcd) })"
proof -
  obtain hdr where hdr: "gtp2_push_header hdesc xid (concat (map ie_bytes ies)) = hdr @ concat (map ie_bytes ies)"
    "length hdr = (if hdr2_teid_presence (hdr ! 0) then OGS_GTPV2C_HEADER_LEN else 8)" "8 \<le> length hdr"
    by (rule push_header_split)
  have "hdr ! 0 = (hdr @ concat (map ie_bytes ies)) ! 0" using hdr(3) by (cases hdr) auto
  then show ?thesis
    using peek_ies [OF assms(1), of hdr "bcd[0 := 0]"] assms(2) hdr(2,3)
    by (simp add: smf_gtpv2_peek_imsi_bcd_def hdr(1) buf_wr_def Let_def OGS_MAX_IMSI_BCD_LEN_def)
qed

text \<open>C31. The peek of the router reads a GTPv2 message the way its grammar does: on a message of
  any information elements it reports the digits of the first IMSI element of instance 0 that is
  not empty, cut to eight octets, and an error when there is none. The buffer of the callers has
  room for 15 digits and a null octet; an element of at least eight octets whose eighth octet is
  not filled up with the filler \<open>0xF\<close> makes the conversion write behind the buffer.\<close>

theorem peek_finds_first_imsi:
  assumes "list_all ie_ok ies" "length bcd = OGS_MAX_IMSI_BCD_LEN + 1"
  shows "let r = smf_gtpv2_peek_imsi_bcd (gtp2_push_header hdesc xid (concat (map ie_bytes ies))) bcd in
     case find is_imsi_ie ies of
       None \<Rightarrow> \<exists>out. r = Some (OGS_ERROR, out) \<and> c_str out = []
     | Some (t, i, v) \<Rightarrow>
         if 8 \<le> length v \<and> v ! 7 AND 0xF0 \<noteq> 0xF0 then r = None
         else \<exists>out. r = Some (OGS_OK, out) \<and> c_str out = bcd_unpack (take OGS_MAX_IMSI_LEN v)"
proof (cases "find is_imsi_ie ies")
  case None
  have "c_str (bcd[0 := 0]) = []" using assms(2) by (cases bcd) (auto simp: c_str_def)
  then show ?thesis using None by (simp add: Let_def peek_message [OF assms(1,2)])
next
  case (Some ie)
  obtain t i v where ie: "ie = (t, i, v)" by (cases ie)
  let ?b = "take OGS_MAX_IMSI_LEN v"
  have "is_imsi_ie (t, i, v)" using Some unfolding ie by (metis find_Some_iff)
  then have "v \<noteq> []" by simp
  then have b: "?b \<noteq> []" "last ?b = (if 8 \<le> length v then v ! 7 else last v)"
    by (auto simp: OGS_MAX_IMSI_LEN_def OGS_MAX_IMSI_BCD_LEN_def last_conv_nth min_def)
  have "length (bcd_unpack ?b) < 16 \<longleftrightarrow> \<not> (8 \<le> length v \<and> v ! 7 AND 0xF0 \<noteq> 0xF0)"
    using length_bcd_unpack [OF b(1)] b(2) by (auto simp: OGS_MAX_IMSI_LEN_def OGS_MAX_IMSI_BCD_LEN_def min_def)
  then show ?thesis
    using Some ie assms(2) buffer_to_bcd_unpacks [OF b(1), of "bcd[0 := 0]"] unpack_no_null [of ?b]
    by (auto simp: Let_def peek_message [OF assms(1,2)] OGS_MAX_IMSI_BCD_LEN_def)
qed

theorem peek_finds_first_imsi_witness:
  "smf_gtpv2_peek_imsi_bcd (gtp2_push_header \<lparr>hd_type = 32, hd_teid = 0\<rparr> 5
       (concat (map ie_bytes [(3, 0, [7]), (1, 0, [0x09, 0x10, 0x10, 0x32, 0x54, 0x76, 0x98, 0x21])])))
       (replicate 16 0) = None
   \<and> list_all ie_ok [(3, 0, [7]), (1, 0, [0x09, 0x10, 0x10, 0x32, 0x54, 0x76, 0x98, 0x21])]"
  using peek_finds_first_imsi [of "[(3, 0, [7]), (1, 0, [0x09, 0x10, 0x10, 0x32, 0x54, 0x76, 0x98, 0x21])]"
      "replicate 16 0" "\<lparr>hd_type = 32, hd_teid = 0\<rparr>" 5]
  by (simp add: OGS_MAX_IMSI_BCD_LEN_def)

end
