(* ===== verification/Smf_Ue.thy ===== *)
theory Smf_Ue
  imports Smf_Shard Ogs_Pool Xact_Base
begin

text \<open>
  The UE registry of the SMF (\<open>src/src/smf/context.c\<close>): the pool of UEs and the two hash tables
  that find a UE by its SUPI and by its packed IMSI, shared by all shards. The registry part of
  each function is modelled; metrics are left out, and so are the sessions of a UE, whose removal
  in \<open>smf_ue_remove\<close> does not touch the registry.

  The functions that add a UE look it up and index it in several critical sections of
  \<open>smf_ctx_lock\<close>. They are modelled as small programs: \<open>ue_step\<close> runs one critical section, and
  the step relation \<open>sys_step\<close> interleaves the programs of all shards with removals.
\<close>

section \<open>Identities\<close>

abbreviation (input) char_minus :: u8 where "char_minus \<equiv> 0x2D"

definition OGS_ID_SUPI_TYPE_IMSI :: bytes where
  "OGS_ID_SUPI_TYPE_IMSI = [0x69, 0x6D, 0x73, 0x69]"

text \<open>\<open>strsep\<close> with the delimiter \<open>-\<close>: the token and what follows the delimiter, if there is one.\<close>

definition strsep_minus :: "bytes \<Rightarrow> bytes \<times> bytes option" where
  "strsep_minus s =
     (let t = takeWhile (\<lambda>c. c \<noteq> char_minus) s
      in (t, if length t = length s then None else Some (drop (length t + 1) s)))"

definition ogs_id_get_type :: "bytes \<Rightarrow> bytes" where
  "ogs_id_get_type str = fst (strsep_minus str)"

definition ogs_id_get_value :: "bytes \<Rightarrow> bytes option" where
  "ogs_id_get_value str = map_option (\<lambda>p. fst (strsep_minus p)) (snd (strsep_minus str))"

definition ogs_id_get_type_value :: "bytes \<Rightarrow> (bytes \<times> bytes) option" where
  "ogs_id_get_type_value str =
     do { let type = ogs_id_get_type str;
          val \<leftarrow> ogs_id_get_value str;
          if type = [] \<or> val = [] then None
          else if length str \<noteq> length type + 1 + length val then None
          else Some (type, val) }"

definition ogs_bcd_string_is_valid :: "bytes \<Rightarrow> nat \<Rightarrow> bool" where
  "ogs_bcd_string_is_valid bcd max_len \<longleftrightarrow>
     \<not> (length bcd = 0 \<or> length bcd > max_len) \<and> list_all is_digit bcd"

definition ogs_imsi_bcd_is_valid :: "bytes \<Rightarrow> bool" where
  "ogs_imsi_bcd_is_valid imsi_bcd = ogs_bcd_string_is_valid imsi_bcd OGS_MAX_IMSI_BCD_LEN"

text \<open>The result and, for a SUPI of type IMSI, its digits.\<close>

definition ogs_supi_to_imsi_bcd :: "bytes \<Rightarrow> ogs_rv \<times> bytes option" where
  "ogs_supi_to_imsi_bcd supi =
     (case ogs_id_get_type_value supi of
        None \<Rightarrow> (OGS_ERROR, None)
      | Some (type, val) \<Rightarrow>
          if type \<noteq> OGS_ID_SUPI_TYPE_IMSI then (OGS_OK, None)
          else if \<not> ogs_imsi_bcd_is_valid val then (OGS_ERROR, None)
          else (OGS_OK, Some val))"

text \<open>\<open>ogs_msprintf("%s-%s", OGS_ID_SUPI_TYPE_IMSI, imsi_bcd)\<close>.\<close>

definition imsi_supi_of :: "bytes \<Rightarrow> bytes" where
  "imsi_supi_of imsi_bcd = OGS_ID_SUPI_TYPE_IMSI @ [char_minus] @ imsi_bcd"

section \<open>The registry\<close>

text \<open>A UE that has no IMSI yet (\<open>imsi_len\<close> is 0) has the empty list.\<close>

record smf_ue =
  u_id :: nat
  u_owner_shard :: nat
  u_supi :: "bytes option"
  u_imsi :: bytes
  u_imsi_bcd :: bytes

record smf_reg =
  g_pool :: idpool
  g_ue :: "nat \<Rightarrow> smf_ue"
  g_list :: "nat list"
  g_supi :: "bytes \<rightharpoonup> nat"
  g_imsi :: "bytes \<rightharpoonup> nat"

definition smf_ue_owned_by_self :: "bool \<Rightarrow> nat \<Rightarrow> smf_ue \<Rightarrow> bool" where
  "smf_ue_owned_by_self shards_active self ue \<longleftrightarrow> \<not> shards_active \<or> u_owner_shard ue = self"

definition smf_ue_find_by_supi :: "bytes \<Rightarrow> smf_reg \<Rightarrow> nat option" where
  "smf_ue_find_by_supi supi r = (if supi = [] then None else g_supi r supi)"

definition smf_ue_find_by_imsi :: "bytes \<Rightarrow> smf_reg \<Rightarrow> nat option option" where
  "smf_ue_find_by_imsi imsi r = do { ogs_assert (imsi \<noteq> []); Some (g_imsi r imsi) }"

definition smf_ue_add :: "nat \<Rightarrow> smf_reg \<Rightarrow> nat option \<times> smf_reg" where
  "smf_ue_add self r =
     (case idpool_calloc (g_pool r) of
        (None, p) \<Rightarrow> (None, r\<lparr>g_pool := p\<rparr>)
      | (Some (n, i), p) \<Rightarrow>
          (Some n,
           r\<lparr>g_pool := p,
             g_ue := (g_ue r)(n := \<lparr>u_id = i, u_owner_shard = self, u_supi = None, u_imsi = [],
                                    u_imsi_bcd = []\<rparr>),
             g_list := g_list r @ [n]\<rparr>))"

definition smf_ue_set_supi :: "nat \<Rightarrow> bytes \<Rightarrow> smf_reg \<Rightarrow> (ogs_rv \<times> smf_reg) option" where
  "smf_ue_set_supi n supi r =
     (if supi = [] then Some (OGS_ERROR, r)
      else case u_supi (g_ue r n) of
        Some s \<Rightarrow> if s \<noteq> supi then None else Some (OGS_OK, r)
      | None \<Rightarrow>
          do { ogs_assert (smf_ue_find_by_supi supi r \<in> {None, Some n});
               Some (OGS_OK, r\<lparr>g_ue := (g_ue r)(n := (g_ue r n)\<lparr>u_supi := Some supi\<rparr>),
                               g_supi := (g_supi r)(supi \<mapsto> n)\<rparr>) })"

definition smf_ue_set_imsi_bcd :: "nat \<Rightarrow> bytes \<Rightarrow> smf_reg \<Rightarrow> (ogs_rv \<times> smf_reg) option" where
  "smf_ue_set_imsi_bcd n imsi_bcd r =
     (if \<not> ogs_imsi_bcd_is_valid imsi_bcd then Some (OGS_ERROR, r)
      else do {
        (buf, imsi_len) \<leftarrow> ogs_bcd_to_buffer imsi_bcd (replicate OGS_MAX_IMSI_LEN 0);
        ogs_assert (imsi_len > 0);
        ogs_assert (imsi_len \<le> OGS_MAX_IMSI_LEN);
        let imsi = take imsi_len buf;
        if u_imsi (g_ue r n) \<noteq> []
        then (if u_imsi (g_ue r n) \<noteq> imsi then None else Some (OGS_OK, r))
        else do {
          found \<leftarrow> smf_ue_find_by_imsi imsi r;
          ogs_assert (found \<in> {None, Some n});
          Some (OGS_OK, r\<lparr>g_ue := (g_ue r)(n := (g_ue r n)\<lparr>u_imsi := imsi, u_imsi_bcd := imsi_bcd\<rparr>),
                          g_imsi := (g_imsi r)(imsi \<mapsto> n)\<rparr>) } })"

definition smf_ue_set_imsi :: "nat \<Rightarrow> bytes \<Rightarrow> smf_reg \<Rightarrow> (ogs_rv \<times> smf_reg) option" where
  "smf_ue_set_imsi n imsi r =
     do { ogs_assert (imsi \<noteq> []);
          if length imsi > OGS_MAX_IMSI_LEN then Some (OGS_ERROR, r)
          else do { bcd \<leftarrow> ogs_buffer_to_bcd imsi (replicate (OGS_MAX_IMSI_BCD_LEN + 1) 0);
                    smf_ue_set_imsi_bcd n (c_str bcd) r } }"

definition smf_ue_remove :: "nat \<Rightarrow> smf_reg \<Rightarrow> smf_reg option" where
  "smf_ue_remove n r =
     do { let u = g_ue r n;
          let r = r\<lparr>g_list := list_remove (g_list r) n\<rparr>;
          let r = (case u_supi u of
                     None \<Rightarrow> r
                   | Some s \<Rightarrow> r\<lparr>g_supi := (g_supi r)(s := None)\<rparr>);
          let r = (if u_imsi u \<noteq> [] then r\<lparr>g_imsi := (g_imsi r)(u_imsi u := None)\<rparr> else r);
          p \<leftarrow> idpool_free (g_pool r) n (u_id u);
          Some (r\<lparr>g_pool := p\<rparr>) }"

section \<open>Adding a UE, one critical section at a time\<close>

datatype ue_req = By_Imsi bytes | By_Supi bytes

text \<open>Where a call stands: before the lookup by the key it came with, before the lookup by the other
  key, before \<open>smf_ue_add\<close>, before setting the first and the second identity of a UE, which the
  call has created or found, and at its return.\<close>

datatype ue_pc = Find_First | Find_Second | Create | Set_First nat bool | Set_Second nat bool
  | Done nat | Null

definition ue_found :: "bool \<Rightarrow> nat \<Rightarrow> nat \<Rightarrow> smf_reg \<Rightarrow> ue_pc" where
  "ue_found shards_active self n r =
     (if smf_ue_owned_by_self shards_active self (g_ue r n) then Set_First n False else Null)"

text \<open>The error exit: a UE that the call has created is removed.\<close>

definition ue_error :: "nat \<Rightarrow> bool \<Rightarrow> smf_reg \<Rightarrow> (ue_pc \<times> smf_reg) option" where
  "ue_error n created r =
     do { r \<leftarrow> (if created then smf_ue_remove n r else Some r); Some (Null, r) }"

definition imsi_to_bcd :: "bytes \<Rightarrow> bytes option" where
  "imsi_to_bcd imsi =
     map_option c_str (ogs_buffer_to_bcd imsi (replicate (OGS_MAX_IMSI_BCD_LEN + 1) 0))"

definition smf_ue_add_by_imsi_step ::
    "bool \<Rightarrow> nat \<Rightarrow> bytes \<Rightarrow> ue_pc \<Rightarrow> smf_reg \<Rightarrow> (ue_pc \<times> smf_reg) option" where
  "smf_ue_add_by_imsi_step shards_active self imsi pc r =
     (case pc of
        Find_First \<Rightarrow>
          do { ogs_assert (imsi \<noteq> []);
               if length imsi > OGS_MAX_IMSI_LEN then Some (Null, r)
               else do { imsi_bcd \<leftarrow> imsi_to_bcd imsi;
                         if \<not> ogs_imsi_bcd_is_valid imsi_bcd then Some (Null, r)
                         else do { ue \<leftarrow> smf_ue_find_by_imsi imsi r;
                                   case ue of
                                     Some n \<Rightarrow> Some (ue_found shards_active self n r, r)
                                   | None \<Rightarrow> Some (Find_Second, r) } } }
      | Find_Second \<Rightarrow>
          do { imsi_bcd \<leftarrow> imsi_to_bcd imsi;
               case smf_ue_find_by_supi (imsi_supi_of imsi_bcd) r of
                 Some n \<Rightarrow> Some (ue_found shards_active self n r, r)
               | None \<Rightarrow> Some (Create, r) }
      | Create \<Rightarrow>
          (case smf_ue_add self r of
             (None, r) \<Rightarrow> Some (Null, r)
           | (Some n, r) \<Rightarrow> Some (Set_First n True, r))
      | Set_First n created \<Rightarrow>
          do { (rv, r) \<leftarrow> smf_ue_set_imsi n imsi r;
               if rv \<noteq> OGS_OK then ue_error n created r else Some (Set_Second n created, r) }
      | Set_Second n created \<Rightarrow>
          do { imsi_bcd \<leftarrow> imsi_to_bcd imsi;
               (rv, r) \<leftarrow> smf_ue_set_supi n (imsi_supi_of imsi_bcd) r;
               if rv \<noteq> OGS_OK then ue_error n created r else Some (Done n, r) }
      | Done n \<Rightarrow> Some (pc, r)
      | Null \<Rightarrow> Some (pc, r))"

definition smf_ue_add_by_supi_step ::
    "bool \<Rightarrow> nat \<Rightarrow> bytes \<Rightarrow> ue_pc \<Rightarrow> smf_reg \<Rightarrow> (ue_pc \<times> smf_reg) option" where
  "smf_ue_add_by_supi_step shards_active self supi pc r =
     (case pc of
        Find_First \<Rightarrow>
          if supi = [] \<or> fst (ogs_supi_to_imsi_bcd supi) \<noteq> OGS_OK then Some (Null, r)
          else (case smf_ue_find_by_supi supi r of
                  Some n \<Rightarrow> Some (ue_found shards_active self n r, r)
                | None \<Rightarrow> Some (Find_Second, r))
      | Find_Second \<Rightarrow>
          (case snd (ogs_supi_to_imsi_bcd supi) of
             None \<Rightarrow> Some (Create, r)
           | Some imsi_bcd \<Rightarrow>
               do { (buf, imsi_len) \<leftarrow> ogs_bcd_to_buffer imsi_bcd (replicate OGS_MAX_IMSI_LEN 0);
                    ue \<leftarrow> smf_ue_find_by_imsi (take imsi_len buf) r;
                    case ue of
                      Some n \<Rightarrow> Some (ue_found shards_active self n r, r)
                    | None \<Rightarrow> Some (Create, r) })
      | Create \<Rightarrow>
          (case smf_ue_add self r of
             (None, r) \<Rightarrow> Some (Null, r)
           | (Some n, r) \<Rightarrow> Some (Set_First n True, r))
      | Set_First n created \<Rightarrow>
          do { (rv, r) \<leftarrow> smf_ue_set_supi n supi r;
               if rv \<noteq> OGS_OK then ue_error n created r else Some (Set_Second n created, r) }
      | Set_Second n created \<Rightarrow>
          (case snd (ogs_supi_to_imsi_bcd supi) of
             None \<Rightarrow> Some (Done n, r)
           | Some imsi_bcd \<Rightarrow>
               do { (rv, r) \<leftarrow> smf_ue_set_imsi_bcd n imsi_bcd r;
                    if rv \<noteq> OGS_OK then ue_error n created r else Some (Done n, r) })
      | Done n \<Rightarrow> Some (pc, r)
      | Null \<Rightarrow> Some (pc, r))"

fun ue_step :: "bool \<Rightarrow> nat \<Rightarrow> ue_req \<Rightarrow> ue_pc \<Rightarrow> smf_reg \<Rightarrow> (ue_pc \<times> smf_reg) option" where
  "ue_step sh self (By_Imsi imsi) pc r = smf_ue_add_by_imsi_step sh self imsi pc r"
| "ue_step sh self (By_Supi supi) pc r = smf_ue_add_by_supi_step sh self supi pc r"

fun ue_run :: "nat \<Rightarrow> bool \<Rightarrow> nat \<Rightarrow> ue_req \<Rightarrow> ue_pc \<Rightarrow> smf_reg \<Rightarrow> (ue_pc \<times> smf_reg) option" where
  "ue_run 0 sh self req pc r = Some (pc, r)"
| "ue_run (Suc k) sh self req pc r = do { (pc, r) \<leftarrow> ue_step sh self req pc r; ue_run k sh self req pc r }"

text \<open>The whole call, when no other shard interferes: it has five critical sections.\<close>

definition smf_ue_add_by_imsi :: "bool \<Rightarrow> nat \<Rightarrow> bytes \<Rightarrow> smf_reg \<Rightarrow> (ue_pc \<times> smf_reg) option" where
  "smf_ue_add_by_imsi sh self imsi r = ue_run 5 sh self (By_Imsi imsi) Find_First r"

definition smf_ue_add_by_supi :: "bool \<Rightarrow> nat \<Rightarrow> bytes \<Rightarrow> smf_reg \<Rightarrow> (ue_pc \<times> smf_reg) option" where
  "smf_ue_add_by_supi sh self supi r = ue_run 5 sh self (By_Supi supi) Find_First r"

end
