(* ===== verification/Smf_Ue_Inv.thy ===== *)
theory Smf_Ue_Inv
  imports Smf_Ue
begin

text \<open>
  Why concurrent additions to the UE registry are safe: the identities of a UE are tied to one key
  (its SUPI), the steps of a call touch only the entries of its own key and the UE it creates, and
  calls under different keys therefore do not disturb each other.
\<close>

section \<open>Keys\<close>

lemma valid_digits:
  assumes "ogs_imsi_bcd_is_valid v"
  shows "list_all is_digit v" "v \<noteq> []" "length v \<le> 15" "char_minus \<notin> set v" "0 \<notin> set v"
proof -
  show d: "list_all is_digit v" "v \<noteq> []" "length v \<le> 15"
    using assms by (auto simp: ogs_imsi_bcd_is_valid_def ogs_bcd_string_is_valid_def OGS_MAX_IMSI_BCD_LEN_def)
  show "char_minus \<notin> set v" "0 \<notin> set v"
    using d(1) by (auto simp: list_all_iff is_digit_def)
qed

lemma strsep_append:
  "char_minus \<notin> set t \<Longrightarrow> strsep_minus (t @ char_minus # s) = (t, Some s)"
  "char_minus \<notin> set t \<Longrightarrow> strsep_minus t = (t, None)"
proof -
  assume a: "char_minus \<notin> set t"
  then have t: "takeWhile (\<lambda>c. c \<noteq> char_minus) t = t" by (auto simp: takeWhile_eq_all_conv)
  have ts: "takeWhile (\<lambda>c. c \<noteq> char_minus) (t @ char_minus # s) = t"
    using a by (subst takeWhile_append2) auto
  show "strsep_minus (t @ char_minus # s) = (t, Some s)" "strsep_minus t = (t, None)"
    unfolding strsep_minus_def Let_def t ts by simp_all
qed

lemma strsep_Some:
  assumes "strsep_minus s = (t, Some r)"
  shows "s = t @ char_minus # r"
proof -
  have t: "t = takeWhile (\<lambda>c. c \<noteq> char_minus) s" "length t \<noteq> length s" "r = drop (length t + 1) s"
    using assms by (auto simp: strsep_minus_def Let_def split: if_splits)
  have "length t < length s" using t(1,2) length_takeWhile_le [of "\<lambda>c. c \<noteq> char_minus" s] by simp
  moreover have "s ! length t = char_minus"
    using nth_length_takeWhile [of "\<lambda>c. c \<noteq> char_minus" s] t(1) calculation by simp
  moreover have "take (length t) s = t" unfolding t(1) by (rule takeWhile_eq_take [symmetric])
  ultimately show ?thesis using t(3) by (metis Suc_eq_plus1 id_take_nth_drop)
qed

lemma supi_to_imsi_iff:
  "ogs_supi_to_imsi_bcd s = (OGS_OK, Some v) \<longleftrightarrow> s = imsi_supi_of v \<and> ogs_imsi_bcd_is_valid v"
proof
  assume a: "ogs_supi_to_imsi_bcd s = (OGS_OK, Some v)"
  then have tv: "ogs_id_get_type_value s = Some (OGS_ID_SUPI_TYPE_IMSI, v)" and v: "ogs_imsi_bcd_is_valid v"
    by (auto simp: ogs_supi_to_imsi_bcd_def split: option.splits if_splits)
  then obtain r where "strsep_minus s = (OGS_ID_SUPI_TYPE_IMSI, Some r)" "v = fst (strsep_minus r)"
    and len: "length s = length OGS_ID_SUPI_TYPE_IMSI + 1 + length v"
    by (auto simp: ogs_id_get_type_value_def ogs_id_get_type_def ogs_id_get_value_def Let_def
        bind_eq_Some_conv prod_eq_iff split: if_splits)
  then have s: "s = OGS_ID_SUPI_TYPE_IMSI @ char_minus # r" and "v = takeWhile (\<lambda>c. c \<noteq> char_minus) r"
    by (auto simp: strsep_Some strsep_minus_def Let_def)
  moreover have "length v = length r" using len s by simp
  ultimately have "v = r" by (metis take_all_iff takeWhile_eq_take order_refl)
  then show "s = imsi_supi_of v \<and> ogs_imsi_bcd_is_valid v" using s v by (simp add: imsi_supi_of_def)
next
  assume "s = imsi_supi_of v \<and> ogs_imsi_bcd_is_valid v"
  then have s: "s = OGS_ID_SUPI_TYPE_IMSI @ char_minus # v" and v: "ogs_imsi_bcd_is_valid v"
    by (auto simp: imsi_supi_of_def)
  have "char_minus \<notin> set OGS_ID_SUPI_TYPE_IMSI" "OGS_ID_SUPI_TYPE_IMSI \<noteq> []"
    by (simp_all add: OGS_ID_SUPI_TYPE_IMSI_def)
  then show "ogs_supi_to_imsi_bcd s = (OGS_OK, Some v)"
    using v valid_digits [OF v]
    by (simp add: ogs_supi_to_imsi_bcd_def ogs_id_get_type_value_def ogs_id_get_type_def
        ogs_id_get_value_def strsep_append s)
qed

text \<open>The packed IMSI that belongs to a SUPI, for a SUPI of type IMSI.\<close>

definition key_imsi :: "bytes \<Rightarrow> bytes option" where
  "key_imsi k = map_option bcd_pack (snd (ogs_supi_to_imsi_bcd k))"

lemma key_imsi_Some:
  "key_imsi k = Some b \<longleftrightarrow> (\<exists>v. k = imsi_supi_of v \<and> ogs_imsi_bcd_is_valid v \<and> b = bcd_pack v)"
proof -
  have "snd (ogs_supi_to_imsi_bcd k) = Some v \<longleftrightarrow> ogs_supi_to_imsi_bcd k = (OGS_OK, Some v)" for v
    by (auto simp: ogs_supi_to_imsi_bcd_def split: option.splits if_splits)
  then show ?thesis by (auto simp: key_imsi_def supi_to_imsi_iff)
qed

lemma key_imsi_inj: "key_imsi k = Some b \<Longrightarrow> key_imsi k' = Some b \<Longrightarrow> k = k'"
  unfolding key_imsi_Some using unpack_pack valid_digits(1) by metis

lemma key_imsi_nonempty: "key_imsi k = Some b \<Longrightarrow> b \<noteq> []"
  unfolding key_imsi_Some using unpack_pack valid_digits(1,2) by (metis bcd_unpack.simps(1))

lemma pack_imsi:
  assumes "ogs_imsi_bcd_is_valid v"
  shows "\<exists>buf. ogs_bcd_to_buffer v (replicate OGS_MAX_IMSI_LEN 0) = Some (buf, length (bcd_pack v))
      \<and> take (length (bcd_pack v)) buf = bcd_pack v" "0 < length (bcd_pack v)" "length (bcd_pack v) \<le> OGS_MAX_IMSI_LEN"
proof -
  have l: "length v \<le> 15" "0 < length v" using valid_digits [OF assms] by simp_all
  then show "0 < length (bcd_pack v)" "length (bcd_pack v) \<le> OGS_MAX_IMSI_LEN"
    by (auto simp: OGS_MAX_IMSI_LEN_def OGS_MAX_IMSI_BCD_LEN_def)
  then show "\<exists>buf. ogs_bcd_to_buffer v (replicate OGS_MAX_IMSI_LEN 0) = Some (buf, length (bcd_pack v))
      \<and> take (length (bcd_pack v)) buf = bcd_pack v"
    using bcd_to_buffer_packs [of v "replicate OGS_MAX_IMSI_LEN 0"] by simp
qed

section \<open>Setting identities\<close>

lemma set_supi_new:
  assumes "s \<noteq> []" "u_supi (g_ue r n) = None" "g_supi r s = None"
  shows "smf_ue_set_supi n s r = Some (OGS_OK, r\<lparr>g_ue := (g_ue r)(n := (g_ue r n)\<lparr>u_supi := Some s\<rparr>),
     g_supi := (g_supi r)(s \<mapsto> n)\<rparr>)"
  using assms by (simp add: smf_ue_set_supi_def smf_ue_find_by_supi_def)

lemma set_supi_same: "s \<noteq> [] \<Longrightarrow> u_supi (g_ue r n) = Some s \<Longrightarrow> smf_ue_set_supi n s r = Some (OGS_OK, r)"
  by (simp add: smf_ue_set_supi_def)

lemma set_imsi_bcd_valid:
  assumes "ogs_imsi_bcd_is_valid v"
  shows "smf_ue_set_imsi_bcd n v r =
     (if u_imsi (g_ue r n) \<noteq> []
      then (if u_imsi (g_ue r n) \<noteq> bcd_pack v then None else Some (OGS_OK, r))
      else if g_imsi r (bcd_pack v) \<in> {None, Some n}
      then Some (OGS_OK, r\<lparr>g_ue := (g_ue r)(n := (g_ue r n)\<lparr>u_imsi := bcd_pack v, u_imsi_bcd := v\<rparr>),
                          g_imsi := (g_imsi r)(bcd_pack v \<mapsto> n)\<rparr>)
      else None)"
proof -
  obtain buf where buf: "ogs_bcd_to_buffer v (replicate OGS_MAX_IMSI_LEN 0) = Some (buf, length (bcd_pack v))"
    "take (length (bcd_pack v)) buf = bcd_pack v"
    using pack_imsi(1) [OF assms] by blast
  moreover have "bcd_pack v \<noteq> []" using pack_imsi(2) [OF assms] by (cases "bcd_pack v") simp_all
  ultimately show ?thesis
    using assms pack_imsi(2,3) [OF assms]
    by (simp add: smf_ue_set_imsi_bcd_def smf_ue_find_by_imsi_def Let_def del: length_bcd_pack)
qed

text \<open>A request whose conversion stays inside the buffers, and one that passes the checks.\<close>

fun req_safe :: "ue_req \<Rightarrow> bool" where
  "req_safe (By_Imsi b) \<longleftrightarrow> b \<noteq> [] \<and> (length b = 8 \<longrightarrow> last b AND 0xF0 = 0xF0)"
| "req_safe (By_Supi s) \<longleftrightarrow> True"

fun req_key :: "ue_req \<Rightarrow> bytes" where
  "req_key (By_Imsi b) = imsi_supi_of (bcd_unpack b)"
| "req_key (By_Supi s) = s"

fun req_valid :: "ue_req \<Rightarrow> bool" where
  "req_valid (By_Imsi b) \<longleftrightarrow> b \<noteq> [] \<and> length b \<le> OGS_MAX_IMSI_LEN \<and> ogs_imsi_bcd_is_valid (bcd_unpack b)"
| "req_valid (By_Supi s) \<longleftrightarrow> s \<noteq> [] \<and> fst (ogs_supi_to_imsi_bcd s) = OGS_OK"

lemma imsi_to_bcd_safe:
  assumes "req_safe (By_Imsi b)" "length b \<le> OGS_MAX_IMSI_LEN"
  shows "imsi_to_bcd b = Some (bcd_unpack b)"
proof -
  have "length (bcd_unpack b) < 16"
    using assms length_bcd_unpack [of b] by (auto simp: OGS_MAX_IMSI_LEN_def OGS_MAX_IMSI_BCD_LEN_def)
  then show ?thesis
    using assms(1) unpack_no_null [of b] by (simp add: imsi_to_bcd_def buffer_to_bcd_unpacks OGS_MAX_IMSI_BCD_LEN_def)
qed

lemma imsi_to_bcd_valid:
  assumes "req_valid (By_Imsi b)"
  shows "imsi_to_bcd b = Some (bcd_unpack b)" "key_imsi (req_key (By_Imsi b)) = Some b"
    "ogs_buffer_to_bcd b (replicate (OGS_MAX_IMSI_BCD_LEN + 1) 0) \<noteq> None"
proof -
  have l: "length (bcd_unpack b) < 16" using assms valid_digits(3) [of "bcd_unpack b"] by simp
  then show i: "imsi_to_bcd b = Some (bcd_unpack b)"
    using assms unpack_no_null [of b] by (simp add: imsi_to_bcd_def buffer_to_bcd_unpacks OGS_MAX_IMSI_BCD_LEN_def)
  then show "ogs_buffer_to_bcd b (replicate (OGS_MAX_IMSI_BCD_LEN + 1) 0) \<noteq> None"
    by (auto simp: imsi_to_bcd_def)
  show "key_imsi (req_key (By_Imsi b)) = Some b"
    using assms by (auto simp: key_imsi_Some pack_unpack)
qed

lemma set_imsi_eq:
  assumes "req_valid (By_Imsi b)"
  shows "smf_ue_set_imsi n b r = smf_ue_set_imsi_bcd n (bcd_unpack b) r"
  using imsi_to_bcd_valid [OF assms] assms by (auto simp: smf_ue_set_imsi_def imsi_to_bcd_def)

lemma req_key_nonempty: "req_valid req \<Longrightarrow> req_key req \<noteq> []"
  by (cases req) (auto simp: imsi_supi_of_def)

section \<open>The invariant\<close>

definition ue_live :: "smf_reg \<Rightarrow> nat set" where
  "ue_live r = ran (ip_ids (g_pool r))"

definition reg_ok :: "smf_reg \<Rightarrow> bool" where
  "reg_ok r \<longleftrightarrow> idpool_inv (g_pool r)
     \<and> (\<forall>i n. ip_ids (g_pool r) i = Some n \<longrightarrow> u_id (g_ue r n) = i)
     \<and> distinct (g_list r) \<and> set (g_list r) = ue_live r
     \<and> (\<forall>s n. g_supi r s = Some n \<longleftrightarrow> n \<in> ue_live r \<and> u_supi (g_ue r n) = Some s)
     \<and> (\<forall>b n. g_imsi r b = Some n \<longleftrightarrow> n \<in> ue_live r \<and> u_imsi (g_ue r n) = b \<and> b \<noteq> [])"

lemma reg_index:
  assumes "reg_ok r"
  shows "g_supi r s = Some n \<longleftrightarrow> n \<in> ue_live r \<and> u_supi (g_ue r n) = Some s"
    "g_imsi r b = Some n \<longleftrightarrow> n \<in> ue_live r \<and> u_imsi (g_ue r n) = b \<and> b \<noteq> []"
  using assms by (simp_all add: reg_ok_def)

text \<open>A UE with all the identities of a key.\<close>

definition keyed :: "smf_ue \<Rightarrow> bytes \<Rightarrow> bool" where
  "keyed u k \<longleftrightarrow> u_supi u = Some k \<and> u_imsi u = (case key_imsi k of Some b \<Rightarrow> b | None \<Rightarrow> [])"

definition absent :: "smf_reg \<Rightarrow> bytes \<Rightarrow> bool" where
  "absent r k \<longleftrightarrow> g_supi r k = None \<and> (\<forall>b. key_imsi k = Some b \<longrightarrow> g_imsi r b = None)"

fun building :: "ue_pc \<Rightarrow> nat option" where
  "building (Set_First n True) = Some n"
| "building (Set_Second n True) = Some n"
| "building _ = None"

fun holds :: "ue_pc \<Rightarrow> nat option" where
  "holds (Set_First n c) = Some n"
| "holds (Set_Second n c) = Some n"
| "holds (Done n) = Some n"
| "holds _ = None"

text \<open>What a call under way knows about the registry.\<close>

fun half_set :: "smf_reg \<Rightarrow> ue_req \<Rightarrow> smf_ue \<Rightarrow> bool" where
  "half_set r (By_Imsi b) u \<longleftrightarrow> u_imsi u = b \<and> u_supi u = None \<and> g_supi r (req_key (By_Imsi b)) = None"
| "half_set r (By_Supi s) u \<longleftrightarrow> u_supi u = Some s \<and> u_imsi u = [] \<and>
     (\<forall>b. key_imsi s = Some b \<longrightarrow> g_imsi r b = None)"

fun thread_ok :: "smf_reg \<Rightarrow> ue_req \<times> ue_pc \<Rightarrow> bool" where
  "thread_ok r (req, Find_First) \<longleftrightarrow> req_safe req"
| "thread_ok r (req, Find_Second) \<longleftrightarrow> req_valid req \<and> absent r (req_key req)"
| "thread_ok r (req, Create) \<longleftrightarrow> req_valid req \<and> absent r (req_key req)"
| "thread_ok r (req, Set_First n True) \<longleftrightarrow> req_valid req \<and> absent r (req_key req) \<and> n \<in> ue_live r
     \<and> u_supi (g_ue r n) = None \<and> u_imsi (g_ue r n) = []"
| "thread_ok r (req, Set_Second n True) \<longleftrightarrow> req_valid req \<and> n \<in> ue_live r \<and> half_set r req (g_ue r n)"
| "thread_ok r (req, Set_First n False) \<longleftrightarrow> req_valid req \<and> n \<in> ue_live r \<and> keyed (g_ue r n) (req_key req)"
| "thread_ok r (req, Set_Second n False) \<longleftrightarrow> req_valid req \<and> n \<in> ue_live r \<and> keyed (g_ue r n) (req_key req)"
| "thread_ok r (req, Done n) \<longleftrightarrow> req_valid req \<and> n \<in> ue_live r \<and> keyed (g_ue r n) (req_key req)"
| "thread_ok r (req, Null) \<longleftrightarrow> True"

type_synonym ue_threads = "nat \<rightharpoonup> ue_req \<times> ue_pc"

definition threads_apart :: "ue_threads \<Rightarrow> bool" where
  "threads_apart T \<longleftrightarrow> (\<forall>t t' x y. T t = Some x \<longrightarrow> T t' = Some y \<longrightarrow> t \<noteq> t' \<longrightarrow>
     req_key (fst x) \<noteq> req_key (fst y))"

definition all_keyed :: "smf_reg \<Rightarrow> ue_threads \<Rightarrow> bool" where
  "all_keyed r T \<longleftrightarrow> (\<forall>n\<in>ue_live r. (\<exists>k. keyed (g_ue r n) k) \<or> (\<exists>t x. T t = Some x \<and> building (snd x) = Some n))"

definition sys_ok :: "smf_reg \<Rightarrow> ue_threads \<Rightarrow> bool" where
  "sys_ok r T \<longleftrightarrow> reg_ok r \<and> threads_apart T \<and> all_keyed r T
     \<and> (\<forall>t x. T t = Some x \<longrightarrow> thread_ok r x)
     \<and> (\<forall>t t' x y n. T t = Some x \<longrightarrow> T t' = Some y \<longrightarrow> t \<noteq> t' \<longrightarrow>
          building (snd x) = Some n \<longrightarrow> holds (snd y) \<noteq> Some n)"

lemma sys_ok_thread: "sys_ok r T \<Longrightarrow> T t = Some x \<Longrightarrow> thread_ok r x" "sys_ok r T \<Longrightarrow> reg_ok r"
  unfolding sys_ok_def by blast+

text \<open>A step under the key \<open>k\<close> on the UE \<open>n\<close> leaves everything else alone.\<close>

definition reg_frame :: "bytes \<Rightarrow> nat \<Rightarrow> smf_reg \<Rightarrow> smf_reg \<Rightarrow> bool" where
  "reg_frame k n r r' \<longleftrightarrow> (\<forall>m\<in>ue_live r. m \<noteq> n \<longrightarrow> m \<in> ue_live r' \<and> g_ue r' m = g_ue r m)
     \<and> (\<forall>s. s \<noteq> k \<longrightarrow> g_supi r' s = g_supi r s)
     \<and> (\<forall>b. key_imsi k \<noteq> Some b \<longrightarrow> g_imsi r' b = g_imsi r b)"

lemma frame_thread_ok:
  assumes "reg_frame k n r r'" "thread_ok r (req, pc)" "req_key req \<noteq> k" "holds pc \<noteq> Some n"
  shows "thread_ok r' (req, pc)"
proof -
  have im: "key_imsi k \<noteq> Some b" if "key_imsi (req_key req) = Some b" for b
    using key_imsi_inj that assms(3) by blast
  have ab: "absent r (req_key req) \<Longrightarrow> absent r' (req_key req)"
    using assms(1,3) im by (auto simp: reg_frame_def absent_def)
  have half: "half_set r req u \<Longrightarrow> half_set r' req u" for u
    using assms(1,3) im by (cases req) (auto simp: reg_frame_def)
  have nd: "m \<in> ue_live r \<Longrightarrow> m \<noteq> n \<Longrightarrow> m \<in> ue_live r' \<and> g_ue r' m = g_ue r m" for m
    using assms(1) by (auto simp: reg_frame_def)
  show ?thesis
    using assms(2,4) ab half nd by (cases "(r, req, pc)" rule: thread_ok.cases) auto
qed

section \<open>Steps keep the registry consistent\<close>

lemma reg_ok_set_supi:
  assumes "reg_ok r" "n \<in> ue_live r" "u_supi (g_ue r n) = None" "g_supi r s = None"
  shows "reg_ok (r\<lparr>g_ue := (g_ue r)(n := (g_ue r n)\<lparr>u_supi := Some s\<rparr>), g_supi := (g_supi r)(s \<mapsto> n)\<rparr>)"
proof -
  have "\<forall>m\<in>ue_live r. u_supi (g_ue r m) \<noteq> Some s"
    using assms(1,4) unfolding reg_ok_def by (metis option.distinct(1))
  then show ?thesis using assms unfolding reg_ok_def ue_live_def by auto
qed

lemma reg_ok_set_imsi:
  assumes "reg_ok r" "n \<in> ue_live r" "u_imsi (g_ue r n) = []" "g_imsi r b = None" "b \<noteq> []"
  shows "reg_ok (r\<lparr>g_ue := (g_ue r)(n := (g_ue r n)\<lparr>u_imsi := b, u_imsi_bcd := v\<rparr>), g_imsi := (g_imsi r)(b \<mapsto> n)\<rparr>)"
proof -
  have "\<forall>m\<in>ue_live r. u_imsi (g_ue r m) \<noteq> b"
    using assms(1,4,5) unfolding reg_ok_def by (metis option.distinct(1))
  then show ?thesis using assms unfolding reg_ok_def ue_live_def by auto
qed

lemma reg_ok_add:
  assumes "reg_ok r" "idpool_fresh (g_pool r)" "smf_ue_add self r = (Some n, r')"
  shows "reg_ok r'" "ue_live r' = insert n (ue_live r)" "n \<notin> ue_live r" "g_supi r' = g_supi r" "g_imsi r' = g_imsi r"
    "u_supi (g_ue r' n) = None" "u_imsi (g_ue r' n) = []" "u_owner_shard (g_ue r' n) = self"
    "\<forall>m\<in>ue_live r. g_ue r' m = g_ue r m"
proof -
  obtain i p where c: "idpool_calloc (g_pool r) = (Some (n, i), p)"
    and r': "r' = r\<lparr>g_pool := p, g_ue := (g_ue r)(n := \<lparr>u_id = i, u_owner_shard = self, u_supi = None,
        u_imsi = [], u_imsi_bcd = []\<rparr>), g_list := g_list r @ [n]\<rparr>"
    using assms(3) by (auto simp: smf_ue_add_def split: prod.splits option.splits)
  have inv: "idpool_inv (g_pool r)" using assms(1) by (simp add: reg_ok_def)
  have p: "idpool_inv p" "ip_ids (g_pool r) i = None" "ip_ids p = (ip_ids (g_pool r))(i \<mapsto> n)"
    "n \<in> set (ip_free (g_pool r))"
    using idp.calloc_Some [OF inv assms(2) c] by auto
  show n: "n \<notin> ue_live r" using idp.used_not_avail [OF inv] p(4) by (auto simp: ue_live_def ran_def)
  show lv: "ue_live r' = insert n (ue_live r)" using p(2) by (simp add: r' ue_live_def p(3) ran_map_upd)
  show "g_supi r' = g_supi r" "g_imsi r' = g_imsi r"
    "u_supi (g_ue r' n) = None" "u_imsi (g_ue r' n) = []" "u_owner_shard (g_ue r' n) = self"
    by (simp_all add: r')
  show ue: "\<forall>m\<in>ue_live r. g_ue r' m = g_ue r m" using n by (auto simp: r')
  have "u_id (g_ue r' m) = j" if "ip_ids p j = Some m" for j m
  proof (cases "j = i")
    case False
    then have "ip_ids (g_pool r) j = Some m" using that p(3) by simp
    then show ?thesis using ue assms(1) by (auto simp: reg_ok_def ue_live_def ran_def)
  qed (use that p(3) in \<open>simp add: r'\<close>)
  moreover have "n \<notin> set (g_list r)" using n assms(1) by (simp add: reg_ok_def)
  ultimately show "reg_ok r'"
    using assms(1) p(1) n lv ue by (auto simp: reg_ok_def r')
qed

lemma reg_ok_remove:
  assumes "reg_ok r" "n \<in> ue_live r"
  shows "\<exists>r'. smf_ue_remove n r = Some r' \<and> reg_ok r' \<and> ue_live r' = ue_live r - {n} \<and> g_ue r' = g_ue r
     \<and> (\<forall>s m. g_supi r' s = Some m \<longleftrightarrow> g_supi r s = Some m \<and> m \<noteq> n)
     \<and> (\<forall>b m. g_imsi r' b = Some m \<longleftrightarrow> g_imsi r b = Some m \<and> m \<noteq> n)"
proof -
  obtain i where i: "ip_ids (g_pool r) i = Some n" using assms(2) by (auto simp: ue_live_def ran_def)
  have inv: "idpool_inv (g_pool r)" and uid: "u_id (g_ue r n) = i"
    using assms(1) i by (auto simp: reg_ok_def)
  obtain p where p: "idpool_free (g_pool r) n i = Some p" "idpool_inv p" "ip_ids p = (ip_ids (g_pool r))(i := None)"
    using idp.release_ok [OF inv i] by blast
  have lv: "ran (ip_ids p) = ue_live r - {n}"
  proof (intro equalityI subsetI)
    fix m assume "m \<in> ue_live r - {n}"
    then obtain j where j: "ip_ids (g_pool r) j = Some m" "m \<noteq> n" by (auto simp: ue_live_def ran_def)
    then have "ip_ids p j = Some m" using i by (auto simp: p(3))
    then show "m \<in> ran (ip_ids p)" by (rule ranI)
  next
    fix m assume "m \<in> ran (ip_ids p)"
    then obtain j where "ip_ids (g_pool r) j = Some m" "j \<noteq> i" by (auto simp: p(3) ran_def split: if_splits)
    then show "m \<in> ue_live r - {n}" using idp.find_inj [OF inv i] by (auto simp: ue_live_def intro: ranI)
  qed
  define gs where "gs = (case u_supi (g_ue r n) of None \<Rightarrow> g_supi r | Some s \<Rightarrow> (g_supi r)(s := None))"
  define gi where "gi = (if u_imsi (g_ue r n) \<noteq> [] then (g_imsi r)(u_imsi (g_ue r n) := None) else g_imsi r)"
  define r' where "r' = r\<lparr>g_list := list_remove (g_list r) n, g_supi := gs, g_imsi := gi, g_pool := p\<rparr>"
  have gs: "gs s = Some m \<longleftrightarrow> g_supi r s = Some m \<and> m \<noteq> n" for s m
    using assms(2) reg_index(1) [OF assms(1), of "the (u_supi (g_ue r n))" n] reg_index(1) [OF assms(1), of s m]
    by (auto simp: gs_def split: option.splits)
  have gi: "gi b = Some m \<longleftrightarrow> g_imsi r b = Some m \<and> m \<noteq> n" for b m
  proof (cases "b = u_imsi (g_ue r n) \<and> b \<noteq> []")
    case True
    then have "g_imsi r b = Some n" using reg_index(2) [OF assms(1), of b n] assms(2) by blast
    then show ?thesis using True by (auto simp: gi_def)
  next
    case False
    then have "g_imsi r b \<noteq> Some n" using reg_index(2) [OF assms(1), of b n] by blast
    then show ?thesis using False by (auto simp: gi_def)
  qed
  have "smf_ue_remove n r = Some r'"
    by (cases "u_supi (g_ue r n)") (simp_all add: smf_ue_remove_def Let_def uid p(1) r'_def gs_def gi_def)
  moreover have "reg_ok r'"
    using assms p(2,3) lv gs gi list_remove_member(1,2) [of "g_list r" n]
    by (auto simp: reg_ok_def r'_def ue_live_def split: if_splits)
  ultimately show ?thesis using lv gs gi by (auto simp: r'_def ue_live_def)
qed

section \<open>Steps of a call\<close>

definition step_effect :: "smf_reg \<Rightarrow> ue_req \<Rightarrow> ue_pc \<Rightarrow> ue_pc \<Rightarrow> smf_reg \<Rightarrow> bool" where
  "step_effect r req pc pc' r' \<longleftrightarrow> reg_ok r' \<and> thread_ok r' (req, pc')
     \<and> (r' = r \<and> building pc = None \<and> building pc' = None
        \<or> (\<exists>n. reg_frame (req_key req) n r r' \<and> ue_live r' = insert n (ue_live r)
             \<and> (building pc = Some n \<or> building pc = None \<and> n \<notin> ue_live r)
             \<and> (building pc' = Some n \<or> building pc' = None \<and> keyed (g_ue r' n) (req_key req))))"

lemma building_holds: "building pc = Some n \<Longrightarrow> holds pc = Some n"
  by (cases pc rule: building.cases) auto

lemma holds_live: "thread_ok r (req, pc) \<Longrightarrow> holds pc = Some n \<Longrightarrow> n \<in> ue_live r"
  by (cases "(r, req, pc)" rule: thread_ok.cases) auto

text \<open>A UE under construction has no identity of another key, so it is not complete under one.\<close>

lemma building_partial:
  assumes "thread_ok r (req, pc)" "building pc = Some n"
  shows "u_supi (g_ue r n) \<in> {None, Some (req_key req)}" "u_imsi (g_ue r n) \<in> {[]} \<union> set_option (key_imsi (req_key req))"
    "\<not> keyed (g_ue r n) k \<or> k = req_key req"
proof -
  show s: "u_supi (g_ue r n) \<in> {None, Some (req_key req)}"
    and "u_imsi (g_ue r n) \<in> {[]} \<union> set_option (key_imsi (req_key req))"
    using assms imsi_to_bcd_valid(2)
    by (cases pc rule: building.cases; cases req; force)+
  show "\<not> keyed (g_ue r n) k \<or> k = req_key req" using s by (auto simp: keyed_def)
qed

text \<open>A UE with an identity of a key under which no UE is being built is complete. In particular,
  what a call that is not building a UE finds under its key is a complete UE.\<close>

lemma identity_keyed:
  assumes ok: "sys_ok r T" and n: "n \<in> ue_live r"
    and idn: "u_supi (g_ue r n) = Some k \<or> key_imsi k = Some (u_imsi (g_ue r n))"
    and others: "\<And>t req pc. T t = Some (req, pc) \<Longrightarrow> building pc = Some n \<Longrightarrow> req_key req \<noteq> k"
  shows "keyed (g_ue r n) k"
proof -
  have "(\<exists>k. keyed (g_ue r n) k) \<or> (\<exists>t x. T t = Some x \<and> building (snd x) = Some n)"
    using ok n by (simp add: sys_ok_def all_keyed_def)
  then consider k' where "keyed (g_ue r n) k'"
    | t' req' pc' where "T t' = Some (req', pc')" "building pc' = Some n"
    by (metis prod.collapse)
  then show ?thesis
  proof cases
    case (1 k')
    have "key_imsi k' = Some (u_imsi (g_ue r n))" if "u_imsi (g_ue r n) \<noteq> []"
      using 1 that by (cases "key_imsi k'") (simp_all add: keyed_def)
    then have "k' = k"
      using idn 1 key_imsi_nonempty key_imsi_inj unfolding keyed_def by (metis option.inject)
    then show ?thesis using 1 by simp
  next
    case (2 t' req' pc')
    note part = building_partial(1,2) [OF sys_ok_thread(1) [OF ok 2(1)] 2(2)]
    show ?thesis
      using idn part others [OF 2] key_imsi_inj [of k "u_imsi (g_ue r n)" "req_key req'"]
        key_imsi_nonempty [of k "u_imsi (g_ue r n)"] by auto
  qed
qed

lemma found_keyed:
  assumes ok: "sys_ok r T" and t: "T t = Some (req, pc)" "building pc = None" and n: "n \<in> ue_live r"
    and idn: "u_supi (g_ue r n) = Some (req_key req) \<or> key_imsi (req_key req) = Some (u_imsi (g_ue r n))"
  shows "keyed (g_ue r n) (req_key req)"
proof (rule identity_keyed [OF ok n idn])
  fix t' req' pc' assume "T t' = Some (req', pc')" "building pc' = Some n"
  moreover from this have "t' \<noteq> t" using t by auto
  ultimately show "req_key req' \<noteq> req_key req"
    using ok t(1) unfolding sys_ok_def threads_apart_def by (metis fst_conv)
qed

lemma first_lookup_absent:
  assumes ok: "sys_ok r T" and t: "T t = Some (req, pc)" "building pc = None"
    and "g_supi r (req_key req) = None \<or> (\<exists>b. key_imsi (req_key req) = Some b \<and> g_imsi r b = None)"
  shows "absent r (req_key req)"
proof (rule ccontr)
  have reg: "reg_ok r" using ok by (simp add: sys_ok_def)
  assume "\<not> absent r (req_key req)"
  then obtain n where n: "n \<in> ue_live r"
    "u_supi (g_ue r n) = Some (req_key req) \<or> key_imsi (req_key req) = Some (u_imsi (g_ue r n))"
    using reg_index [OF reg] unfolding absent_def by (metis not_None_eq)
  then have k: "keyed (g_ue r n) (req_key req)" by (rule found_keyed [OF ok t])
  then have "g_supi r (req_key req) = Some n" using reg n(1) by (simp add: reg_ok_def keyed_def)
  moreover have "g_imsi r b = Some n" if "key_imsi (req_key req) = Some b" for b
    using reg n(1) k that key_imsi_nonempty [OF that] by (simp add: reg_ok_def keyed_def)
  ultimately show False using assms(4) by auto
qed

lemma same_effect:
  "reg_ok r \<Longrightarrow> thread_ok r (req, pc') \<Longrightarrow> building pc = None \<Longrightarrow> building pc' = None \<Longrightarrow>
     step_effect r req pc pc' r"
  by (simp add: step_effect_def)

lemma found_effect:
  assumes "sys_ok r T" "T t = Some (req, pc)" "building pc = None" "req_valid req" "n \<in> ue_live r"
    and "u_supi (g_ue r n) = Some (req_key req) \<or> key_imsi (req_key req) = Some (u_imsi (g_ue r n))"
  shows "step_effect r req pc (ue_found sh self n r) r"
proof -
  have "keyed (g_ue r n) (req_key req)" by (rule found_keyed [OF assms(1-3,5,6)])
  then show ?thesis
    using assms by (intro same_effect) (auto simp: ue_found_def sys_ok_def)
qed

lemma find_first_effect:
  assumes ok: "sys_ok r T" and t: "T t = Some (req, Find_First)"
  shows "\<exists>pc' r'. ue_step sh self req Find_First r = Some (pc', r') \<and> step_effect r req Find_First pc' r'"
proof -
  have reg: "reg_ok r" and th: "req_safe req" using sys_ok_thread [OF ok] t by force+
  note null = same_effect [OF reg, of req Null Find_First, simplified]
  note found = found_effect [OF ok t]
  note absent = first_lookup_absent [OF ok t, simplified]
  show ?thesis
  proof (cases req)
    case (By_Imsi b)
    show ?thesis
    proof (cases "length b \<le> OGS_MAX_IMSI_LEN \<and> ogs_imsi_bcd_is_valid (bcd_unpack b)")
      case False
      then show ?thesis
        using th null imsi_to_bcd_safe [of b] By_Imsi
        by (cases "length b \<le> OGS_MAX_IMSI_LEN") (auto simp: smf_ue_add_by_imsi_step_def)
    next
      case True
      then have v: "req_valid (By_Imsi b)" using th By_Imsi by simp
      note bcd = imsi_to_bcd_valid [OF v]
      show ?thesis
      proof (cases "g_imsi r b")
        case None
        then have "absent r (req_key req)" using absent bcd(2) By_Imsi by blast
        then show ?thesis
          using None v bcd(1) reg By_Imsi
          by (auto simp: smf_ue_add_by_imsi_step_def smf_ue_find_by_imsi_def intro!: same_effect)
      next
        case (Some n)
        then show ?thesis
          using v bcd reg found [of n sh self] reg_index(2) [OF reg, of b n] By_Imsi
          by (auto simp: smf_ue_add_by_imsi_step_def smf_ue_find_by_imsi_def)
      qed
    qed
  next
    case (By_Supi s)
    show ?thesis
    proof (cases "req_valid req")
      case False
      then show ?thesis using null By_Supi by (auto simp: smf_ue_add_by_supi_step_def)
    next
      case v: True
      show ?thesis
      proof (cases "g_supi r s")
        case None
        then show ?thesis
          using v absent reg By_Supi
          by (auto simp: smf_ue_add_by_supi_step_def smf_ue_find_by_supi_def intro!: same_effect)
      next
        case (Some n)
        then show ?thesis
          using v found [of n sh self] reg_index(1) [OF reg, of s n] By_Supi
          by (auto simp: smf_ue_add_by_supi_step_def smf_ue_find_by_supi_def)
      qed
    qed
  qed
qed

lemma find_second_effect:
  assumes reg: "reg_ok r" and th: "thread_ok r (req, Find_Second)"
  shows "\<exists>pc' r'. ue_step sh self req Find_Second r = Some (pc', r') \<and> step_effect r req Find_Second pc' r'"
proof -
  have v: "req_valid req" and ab: "absent r (req_key req)" using th by simp_all
  have "ue_step sh self req Find_Second r = Some (Create, r)"
  proof (cases req)
    case (By_Imsi b)
    then show ?thesis
      using ab imsi_to_bcd_valid(1) v
      by (auto simp: smf_ue_add_by_imsi_step_def smf_ue_find_by_supi_def absent_def)
  next
    case (By_Supi s)
    show ?thesis
    proof (cases "snd (ogs_supi_to_imsi_bcd s)")
      case (Some w)
      then have k: "key_imsi s = Some (bcd_pack w)" by (simp add: key_imsi_def)
      have "ogs_supi_to_imsi_bcd s = (OGS_OK, Some w)" using Some v By_Supi by (simp add: prod_eq_iff)
      then have w: "ogs_imsi_bcd_is_valid w" by (simp add: supi_to_imsi_iff)
      show ?thesis
        using Some By_Supi ab k pack_imsi(1,2) [OF w] key_imsi_nonempty [OF k]
        by (auto simp: smf_ue_add_by_supi_step_def smf_ue_find_by_imsi_def absent_def)
    qed (use By_Supi in \<open>simp add: smf_ue_add_by_supi_step_def\<close>)
  qed
  then show ?thesis using reg th by (auto intro!: same_effect)
qed

lemma create_step:
  "ue_step sh self req Create r =
     (case smf_ue_add self r of (None, r) \<Rightarrow> Some (Null, r) | (Some n, r) \<Rightarrow> Some (Set_First n True, r))"
  by (cases req) (simp_all add: smf_ue_add_by_imsi_step_def smf_ue_add_by_supi_step_def)

lemma create_effect:
  assumes reg: "reg_ok r" and th: "thread_ok r (req, Create)" and fresh: "idpool_fresh (g_pool r)"
  shows "\<exists>pc' r'. ue_step sh self req Create r = Some (pc', r') \<and> step_effect r req Create pc' r'"
proof (cases "smf_ue_add self r")
  case (Pair res r')
  show ?thesis
  proof (cases res)
    case None
    then have "r' = r"
      using Pair idp.calloc_None by (auto simp: smf_ue_add_def split: prod.splits option.splits)
    then show ?thesis using Pair None reg by (auto simp: create_step intro!: same_effect)
  next
    case (Some n)
    note add = reg_ok_add [OF reg fresh Pair [unfolded Some]]
    have "absent r' (req_key req)" using th add by (simp add: absent_def)
    moreover have "reg_frame (req_key req) n r r'" using add by (auto simp: reg_frame_def)
    ultimately have "step_effect r req Create (Set_First n True) r'"
      using th add by (auto simp: step_effect_def)
    then show ?thesis using Pair Some by (auto simp: create_step)
  qed
qed

text \<open>Setting the identities of a UE that was found changes nothing.\<close>

lemma found_set:
  assumes v: "req_valid req" and k: "keyed (g_ue r n) (req_key req)"
  shows "ue_step sh self req (Set_First n False) r = Some (Set_Second n False, r)"
    "ue_step sh self req (Set_Second n False) r = Some (Done n, r)"
proof -
  have supi: "smf_ue_set_supi n (req_key req) r = Some (OGS_OK, r)"
    using k req_key_nonempty [OF v] by (intro set_supi_same) (simp_all add: keyed_def)
  have imsi: "smf_ue_set_imsi_bcd n w r = Some (OGS_OK, r)"
    if "ogs_imsi_bcd_is_valid w" "key_imsi (req_key req) = Some (bcd_pack w)" for w
    using that k key_imsi_nonempty [OF that(2)] by (simp add: set_imsi_bcd_valid keyed_def)
  show "ue_step sh self req (Set_First n False) r = Some (Set_Second n False, r)"
  proof (cases req)
    case (By_Imsi b)
    then show ?thesis
      using v imsi [of "bcd_unpack b"] imsi_to_bcd_valid(2) [of b]
      by (simp add: smf_ue_add_by_imsi_step_def set_imsi_eq pack_unpack)
  qed (use supi in \<open>simp add: smf_ue_add_by_supi_step_def\<close>)
  show "ue_step sh self req (Set_Second n False) r = Some (Done n, r)"
  proof (cases req)
    case (By_Imsi b)
    then show ?thesis using v supi imsi_to_bcd_valid(1) [of b] by (simp add: smf_ue_add_by_imsi_step_def)
  next
    case (By_Supi s)
    show ?thesis
    proof (cases "snd (ogs_supi_to_imsi_bcd s)")
      case (Some w)
      have "ogs_supi_to_imsi_bcd s = (OGS_OK, Some w)" using Some v By_Supi by (simp add: prod_eq_iff)
      then show ?thesis
        using Some imsi [of w] By_Supi by (simp add: smf_ue_add_by_supi_step_def supi_to_imsi_iff key_imsi_def)
    qed (use By_Supi in \<open>simp add: smf_ue_add_by_supi_step_def\<close>)
  qed
qed

text \<open>Setting the identities of a UE that the call has created.\<close>

lemma new_supi_effect:
  assumes "reg_ok r" "n \<in> ue_live r" "u_supi (g_ue r n) = None" "g_supi r (req_key req) = None" "req_valid req"
  defines "r' \<equiv> r\<lparr>g_ue := (g_ue r)(n := (g_ue r n)\<lparr>u_supi := Some (req_key req)\<rparr>),
      g_supi := (g_supi r)(req_key req \<mapsto> n)\<rparr>"
  shows "smf_ue_set_supi n (req_key req) r = Some (OGS_OK, r')" "reg_ok r'" "reg_frame (req_key req) n r r'"
    "ue_live r' = insert n (ue_live r)"
  using assms set_supi_new [OF req_key_nonempty] reg_ok_set_supi
  by (auto simp: reg_frame_def ue_live_def)

lemma new_imsi_effect:
  assumes "reg_ok r" "n \<in> ue_live r" "u_imsi (g_ue r n) = []" "g_imsi r (bcd_pack w) = None"
    "ogs_imsi_bcd_is_valid w" "key_imsi k = Some (bcd_pack w)"
  defines "r' \<equiv> r\<lparr>g_ue := (g_ue r)(n := (g_ue r n)\<lparr>u_imsi := bcd_pack w, u_imsi_bcd := w\<rparr>),
      g_imsi := (g_imsi r)(bcd_pack w \<mapsto> n)\<rparr>"
  shows "smf_ue_set_imsi_bcd n w r = Some (OGS_OK, r')" "reg_ok r'" "reg_frame k n r r'"
    "ue_live r' = insert n (ue_live r)"
  using assms reg_ok_set_imsi [OF assms(1-4)] key_imsi_nonempty [OF assms(6)]
  by (auto simp: reg_frame_def ue_live_def set_imsi_bcd_valid)

lemma new_first_effect:
  assumes reg: "reg_ok r" and th: "thread_ok r (req, Set_First n True)"
  shows "\<exists>pc' r'. ue_step sh self req (Set_First n True) r = Some (pc', r')
     \<and> step_effect r req (Set_First n True) pc' r'"
proof (cases req)
  case (By_Imsi b)
  then have v: "req_valid (By_Imsi b)" and ab: "absent r (req_key req)" using th by simp_all
  have b: "b \<noteq> []" "ogs_imsi_bcd_is_valid (bcd_unpack b)" "bcd_pack (bcd_unpack b) = b"
    using v pack_unpack by auto
  have k: "key_imsi (req_key req) = Some b" using imsi_to_bcd_valid(2) [OF v] By_Imsi by simp
  then have "g_imsi r b = None" using ab by (simp add: absent_def)
  note eff = new_imsi_effect [OF reg, of n "bcd_unpack b" "req_key req", unfolded b(3), OF _ _ this b(2) k]
  define r' where "r' = r\<lparr>g_ue := (g_ue r)(n := (g_ue r n)\<lparr>u_imsi := b, u_imsi_bcd := bcd_unpack b\<rparr>),
      g_imsi := (g_imsi r)(b \<mapsto> n)\<rparr>"
  have n: "n \<in> ue_live r" "u_imsi (g_ue r n) = []" "u_supi (g_ue r n) = None" using th by simp_all
  note eff = eff [OF n(1,2), folded r'_def]
  have "half_set r' req (g_ue r' n)" using n ab By_Imsi by (simp add: r'_def absent_def)
  then have "step_effect r req (Set_First n True) (Set_Second n True) r'"
    unfolding step_effect_def using eff(2-) n(1) v By_Imsi by auto
  moreover have "ue_step sh self req (Set_First n True) r = Some (Set_Second n True, r')"
    using eff(1) v By_Imsi by (simp add: smf_ue_add_by_imsi_step_def set_imsi_eq)
  ultimately show ?thesis by blast
next
  case (By_Supi s)
  have v: "req_valid req" and ab: "absent r s" and n: "n \<in> ue_live r" "u_imsi (g_ue r n) = []"
    "u_supi (g_ue r n) = None" "g_supi r (req_key req) = None"
    using th By_Supi by (simp_all add: absent_def)
  define r' where "r' = r\<lparr>g_ue := (g_ue r)(n := (g_ue r n)\<lparr>u_supi := Some (req_key req)\<rparr>),
      g_supi := (g_supi r)(req_key req \<mapsto> n)\<rparr>"
  note eff = new_supi_effect [OF reg n(1,3,4) v, folded r'_def]
  have "half_set r' req (g_ue r' n)" using n ab By_Supi by (simp add: r'_def absent_def)
  then have "step_effect r req (Set_First n True) (Set_Second n True) r'"
    unfolding step_effect_def using eff(2-) n(1) v by auto
  moreover have "ue_step sh self req (Set_First n True) r = Some (Set_Second n True, r')"
    using eff(1) By_Supi by (simp add: smf_ue_add_by_supi_step_def)
  ultimately show ?thesis by blast
qed

lemma new_second_effect:
  assumes reg: "reg_ok r" and th: "thread_ok r (req, Set_Second n True)"
  shows "\<exists>pc' r'. ue_step sh self req (Set_Second n True) r = Some (pc', r')
     \<and> step_effect r req (Set_Second n True) pc' r'"
proof (cases req)
  case (By_Imsi b)
  have v: "req_valid req" and n: "n \<in> ue_live r" "u_imsi (g_ue r n) = b"
    "u_supi (g_ue r n) = None" "g_supi r (req_key req) = None"
    using th By_Imsi by simp_all
  define r' where "r' = r\<lparr>g_ue := (g_ue r)(n := (g_ue r n)\<lparr>u_supi := Some (req_key req)\<rparr>),
      g_supi := (g_supi r)(req_key req \<mapsto> n)\<rparr>"
  note eff = new_supi_effect [OF reg n(1,3,4) v, folded r'_def]
  have "keyed (g_ue r' n) (req_key req)"
    using n imsi_to_bcd_valid(2) [of b] v By_Imsi by (simp add: r'_def keyed_def)
  then have "step_effect r req (Set_Second n True) (Done n) r'"
    unfolding step_effect_def using eff(2-) n(1) v by auto
  moreover have "ue_step sh self req (Set_Second n True) r = Some (Done n, r')"
    using eff(1) By_Imsi imsi_to_bcd_valid(1) [of b] v by (simp add: smf_ue_add_by_imsi_step_def)
  ultimately show ?thesis by blast
next
  case (By_Supi s)
  have v: "req_valid req" and n: "n \<in> ue_live r" "u_imsi (g_ue r n) = []" "u_supi (g_ue r n) = Some s"
    using th By_Supi by simp_all
  show ?thesis
  proof (cases "snd (ogs_supi_to_imsi_bcd s)")
    case None
    then have "keyed (g_ue r n) s" using n by (simp add: keyed_def key_imsi_def)
    then have "step_effect r req (Set_Second n True) (Done n) r"
      unfolding step_effect_def using reg n(1) v By_Supi by (auto simp: reg_frame_def)
    then show ?thesis using None By_Supi by (auto simp: smf_ue_add_by_supi_step_def)
  next
    case (Some w)
    have "ogs_supi_to_imsi_bcd s = (OGS_OK, Some w)" using Some v By_Supi by (simp add: prod_eq_iff)
    then have w: "ogs_imsi_bcd_is_valid w" by (simp add: supi_to_imsi_iff)
    have k: "key_imsi s = Some (bcd_pack w)" using Some by (simp add: key_imsi_def)
    then have g: "g_imsi r (bcd_pack w) = None" using th By_Supi by simp
    define r' where "r' = r\<lparr>g_ue := (g_ue r)(n := (g_ue r n)\<lparr>u_imsi := bcd_pack w, u_imsi_bcd := w\<rparr>),
        g_imsi := (g_imsi r)(bcd_pack w \<mapsto> n)\<rparr>"
    note eff = new_imsi_effect [OF reg n(1,2) g w k, folded r'_def]
    have "keyed (g_ue r' n) s" using n k by (simp add: r'_def keyed_def)
    then have "step_effect r req (Set_Second n True) (Done n) r'"
      unfolding step_effect_def using eff(2-) n(1) v By_Supi by auto
    moreover have "ue_step sh self req (Set_Second n True) r = Some (Done n, r')"
      using eff(1) By_Supi Some by (simp add: smf_ue_add_by_supi_step_def)
    ultimately show ?thesis by blast
  qed
qed

end
