(* ===== verification/Smf_Route.thy ===== *)
theory Smf_Route
  imports Smf_Ue_Inv Pfcp_Xact
begin

text \<open>
  How the SMF brings a message to the shard that owns the UE or session: the routers on raw GTP-C
  datagrams (\<open>smf_gtp_route\<close>, \<open>src/src/smf/gtp-path.c\<close>) and on PFCP messages (\<open>smf_pfcp_route\<close>,
  \<open>src/src/smf/pfcp-path.c\<close>), the re-homing of parsed messages and the posting of events
  (\<open>src/src/smf/smf-workers.c\<close>), over the lookups of \<open>src/src/smf/context.c\<close>.

  The context is the UE registry, the hash tables that find a session by its SEID and by its IPv4
  address, and the number of workers. Shard ids are integers, \<open>-1\<close> is \<open>not found\<close>; a result
  \<open>None\<close> is a failed assertion or an access behind the end of a buffer or packet.
\<close>

section \<open>The context\<close>

record smf_sess =
  ss_n4_seid :: u64
  ss_ue_id :: nat

record smf_ctx =
  c_reg :: smf_reg
  c_seid_hash :: "u64 \<rightharpoonup> smf_sess"
  c_ipv4_hash :: "u32 \<rightharpoonup> smf_sess"
  c_worker_count :: nat
  c_shards_active :: bool

definition smf_workers_active :: "smf_ctx \<Rightarrow> bool" where
  "smf_workers_active c \<longleftrightarrow> c_worker_count c > 0"

definition smf_sess_owner_shard :: "smf_sess \<Rightarrow> int" where
  "smf_sess_owner_shard sess =
     uint (drop_bit (32 - OGS_WORKER_ID_BITS) (ucast (ss_n4_seid sess) :: u32)
           AND (push_bit OGS_WORKER_ID_BITS 1 - 1))"

definition smf_ue_owner_shard_by_imsi :: "smf_ctx \<Rightarrow> bytes \<Rightarrow> int" where
  "smf_ue_owner_shard_by_imsi c imsi =
     (if imsi = [] then -1
      else case g_imsi (c_reg c) imsi of
        Some n \<Rightarrow> int (u_owner_shard (g_ue (c_reg c) n))
      | None \<Rightarrow> -1)"

definition smf_sess_owner_shard_by_ipv4 :: "smf_ctx \<Rightarrow> u32 \<Rightarrow> int" where
  "smf_sess_owner_shard_by_ipv4 c addr =
     (case c_ipv4_hash c addr of Some sess \<Rightarrow> smf_sess_owner_shard sess | None \<Rightarrow> -1)"

definition smf_sess_owner_shard_by_seid :: "smf_ctx \<Rightarrow> u64 \<Rightarrow> int" where
  "smf_sess_owner_shard_by_seid c seid =
     (case c_seid_hash c seid of Some sess \<Rightarrow> smf_sess_owner_shard sess | None \<Rightarrow> -1)"

definition smf_shard_clamp :: "smf_ctx \<Rightarrow> int \<Rightarrow> u32 \<Rightarrow> int" where
  "smf_shard_clamp c shard fallback_key = smf_shard_clamp_n shard fallback_key (int (c_worker_count c))"

definition smf_shard_for_new_imsi :: "smf_ctx \<Rightarrow> bytes \<Rightarrow> int" where
  "smf_shard_for_new_imsi c imsi_bcd = smf_shard_imsi_hash_n imsi_bcd (int (c_worker_count c))"

section \<open>The routers\<close>

abbreviation (input) OGS_GTP1_ECHO_REQUEST_TYPE :: u8 where "OGS_GTP1_ECHO_REQUEST_TYPE \<equiv> 1"
abbreviation (input) OGS_GTP1_ECHO_RESPONSE_TYPE :: u8 where "OGS_GTP1_ECHO_RESPONSE_TYPE \<equiv> 2"
abbreviation (input) OGS_GTP2_ECHO_REQUEST_TYPE :: u8 where "OGS_GTP2_ECHO_REQUEST_TYPE \<equiv> 1"
abbreviation (input) OGS_GTP2_ECHO_RESPONSE_TYPE :: u8 where "OGS_GTP2_ECHO_RESPONSE_TYPE \<equiv> 2"
abbreviation (input) OGS_GTP1_CREATE_PDP_CONTEXT_REQUEST_TYPE :: u8 where
  "OGS_GTP1_CREATE_PDP_CONTEXT_REQUEST_TYPE \<equiv> 16"

text \<open>The shard of a subscriber whose IMSI was peeked from a packet.\<close>

definition route_by_imsi :: "smf_ctx \<Rightarrow> bytes \<Rightarrow> int option" where
  "route_by_imsi c imsi_bcd =
     do { (buf, imsi_len) \<leftarrow> ogs_bcd_to_buffer imsi_bcd (replicate OGS_MAX_IMSI_LEN 0);
          let shard = smf_ue_owner_shard_by_imsi c (take imsi_len buf);
          Some (if shard \<ge> 0 then shard else smf_shard_for_new_imsi c imsi_bcd) }"

definition smf_gtp1_route :: "smf_ctx \<Rightarrow> bytes \<Rightarrow> int option" where
  "smf_gtp1_route c d =
     do { type \<leftarrow> rd_u8 d 1;
          if type = OGS_GTP1_ECHO_REQUEST_TYPE \<or> type = OGS_GTP1_ECHO_RESPONSE_TYPE then Some 0
          else do {
            shard \<leftarrow> ogs_gtp1_rx_reply_shard (c_shards_active c) d;
            if shard \<ge> 0 then do { sqn \<leftarrow> rd_u16 d 8; Some (smf_shard_clamp c shard (ucast (bswap16 sqn))) }
            else do {
              teid \<leftarrow> rd_u32 d 4;
              if teid \<noteq> 0
              then let key = bswap32 teid in Some (smf_shard_clamp c (smf_shard_decode_teid key) key)
              else do {
                (rv, imsi_bcd) \<leftarrow> smf_gtpv1_peek_imsi_bcd d (replicate (OGS_MAX_IMSI_BCD_LEN + 1) 0);
                if rv = OGS_OK then route_by_imsi c (c_str imsi_bcd) else Some 1 } } } }"

definition smf_gtp2_route :: "smf_ctx \<Rightarrow> bytes \<Rightarrow> int option" where
  "smf_gtp2_route c d =
     do { flags \<leftarrow> rd_u8 d 0;
          sqn \<leftarrow> (if hdr2_teid_presence flags then rd_u32 d 8 else rd_u32 d 4);
          type \<leftarrow> rd_u8 d 1;
          if type = OGS_GTP2_ECHO_REQUEST_TYPE \<or> type = OGS_GTP2_ECHO_RESPONSE_TYPE then Some 0
          else do {
            shard \<leftarrow> ogs_gtp2_rx_reply_shard (c_shards_active c) d;
            if shard \<ge> 0 then Some (smf_shard_clamp c shard (OGS_GTP2_SQN_TO_XID sqn))
            else do {
              teid \<leftarrow> rd_u32 d 4;
              if hdr2_teid_presence flags \<and> teid \<noteq> 0 \<and> length d \<ge> OGS_GTPV2C_HEADER_LEN
              then let key = bswap32 teid in Some (smf_shard_clamp c (smf_shard_decode_teid key) key)
              else do {
                (rv, imsi_bcd) \<leftarrow>
                  (if type = OGS_GTP2_CREATE_SESSION_REQUEST_TYPE
                   then smf_gtpv2_peek_imsi_bcd d (replicate (OGS_MAX_IMSI_BCD_LEN + 1) 0)
                   else Some (OGS_ERROR, []));
                if rv = OGS_OK then route_by_imsi c (c_str imsi_bcd)
                else let key = OGS_GTP2_SQN_TO_XID sqn
                     in Some (smf_shard_clamp c (smf_shard_decode_xid key) key) } } } }"

definition smf_gtp_route :: "smf_ctx \<Rightarrow> bytes \<Rightarrow> u8 \<Rightarrow> int option" where
  "smf_gtp_route c d gtp_ver =
     (if \<not> smf_workers_active c then Some 0
      else if gtp_ver = 1 then smf_gtp1_route c d
      else smf_gtp2_route c d)"

definition smf_pfcp_type_is_node_level :: "u8 \<Rightarrow> bool" where
  "smf_pfcp_type_is_node_level type \<longleftrightarrow> type \<in> set [1, 2, 5, 6, 7, 8, 9, 10]"

definition smf_pfcp_route :: "smf_ctx \<Rightarrow> pfcp_header \<Rightarrow> int" where
  "smf_pfcp_route c h =
     (if \<not> smf_workers_active c then 0
      else if smf_pfcp_type_is_node_level (ph_type h) \<or> ph_type h \<in> set [12, 13, 3, 4] then 0
      else if ph_seid_presence h \<and> ph_seid h \<noteq> 0
      then smf_shard_clamp c (smf_shard_decode_seid (ph_seid h)) (ucast (ph_seid h))
      else let key = OGS_PFCP_SQN_TO_XID (ph_sqn h)
           in smf_shard_clamp c (smf_shard_decode_xid key) key)"

section \<open>Re-homing of parsed messages\<close>

datatype smf_event_e = SMF_EVT_S5C_MESSAGE | SMF_EVT_GN_MESSAGE | SMF_EVT_XSHARD_COLLISION

record smf_event =
  ev_id :: smf_event_e
  ev_gnode :: nat
  ev_pkbuf :: "bytes option"
  ev_reply_shard :: int
  ev_xshard_done :: bool

text \<open>The fields of a parsed message that re-homing uses: the header, with the TEID in host order, and
  the IMSI and PDN address allocation elements of a Create Session Request, or the IMSI of a
  Create PDP Context Request, when they are present with data.\<close>

record gtp_msg =
  gm_type :: u8
  gm_teid_presence :: bool
  gm_teid :: u32
  gm_imsi :: "bytes option"
  gm_paa :: "bytes option"

text \<open>\<open>ogs_paa_to_ip\<close>, as far as the IPv4 address: the session type is in the low three bits of the
  first octet, the address follows it or comes behind the IPv6 prefix.\<close>

definition ogs_paa_to_ip :: "bytes \<Rightarrow> (ogs_rv \<times> bool \<times> u32) option" where
  "ogs_paa_to_ip paa =
     do { b \<leftarrow> rd_u8 paa 0;
          let session_type = b AND 7;
          if session_type = 3 then do { addr \<leftarrow> rd_u32 paa 18; Some (OGS_OK, True, addr) }
          else if session_type = 1 then do { addr \<leftarrow> rd_u32 paa 1; Some (OGS_OK, True, addr) }
          else if session_type = 2 then Some (OGS_OK, False, 0)
          else Some (OGS_ERROR, False, 0) }"

definition csr_static_ipv4 :: "gtp_msg \<Rightarrow> u32 option option" where
  "csr_static_ipv4 m =
     (case gm_paa m of
        None \<Rightarrow> Some None
      | Some paa \<Rightarrow>
          do { (rv, ipv4, addr) \<leftarrow> ogs_paa_to_ip paa;
               Some (if rv \<noteq> OGS_OK \<or> \<not> ipv4 \<or> addr = 0 then None else Some addr) })"

text \<open>The result of re-homing: \<open>None\<close> when the event is processed here, and otherwise the shard it is
  pushed to and the event that takes the packet along.\<close>

definition rehome_to_owner :: "nat \<Rightarrow> smf_event \<Rightarrow> int \<Rightarrow> (int \<times> smf_event) option" where
  "rehome_to_owner self e owner =
     (if owner < 0 \<or> owner = int self then None
      else Some (owner, \<lparr>ev_id = ev_id e, ev_gnode = ev_gnode e, ev_pkbuf = ev_pkbuf e,
                        ev_reply_shard = 0, ev_xshard_done = ev_xshard_done e\<rparr>))"

definition xshard_collision_begin :: "smf_event \<Rightarrow> int \<Rightarrow> int \<Rightarrow> (int \<times> smf_event) option" where
  "xshard_collision_begin e ip_owner reply =
     Some (ip_owner, \<lparr>ev_id = SMF_EVT_XSHARD_COLLISION, ev_gnode = ev_gnode e, ev_pkbuf = ev_pkbuf e,
                     ev_reply_shard = reply, ev_xshard_done = False\<rparr>)"

definition owner_for_new_ue :: "smf_ctx \<Rightarrow> bytes \<Rightarrow> int option" where
  "owner_for_new_ue c imsi =
     do { imsi_bcd \<leftarrow> ogs_buffer_to_bcd imsi (replicate (OGS_MAX_IMSI_BCD_LEN + 1) 0);
          Some (smf_shard_for_new_imsi c (c_str imsi_bcd)) }"

text \<open>The IMSI of a message, when it is present, not empty and not too long.\<close>

definition usable_imsi :: "gtp_msg \<Rightarrow> bytes option" where
  "usable_imsi m =
     (case gm_imsi m of
        None \<Rightarrow> None
      | Some imsi \<Rightarrow> if imsi = [] \<or> length imsi > OGS_MAX_IMSI_LEN then None else Some imsi)"

definition rehome_create_session ::
    "smf_ctx \<Rightarrow> nat \<Rightarrow> smf_event \<Rightarrow> gtp_msg \<Rightarrow> (int \<times> smf_event) option option" where
  "rehome_create_session c self e m =
     (case usable_imsi m of
        None \<Rightarrow> Some None
      | Some imsi \<Rightarrow>
          do { let ue_owner = smf_ue_owner_shard_by_imsi c imsi;
               addr \<leftarrow> csr_static_ipv4 m;
               let ip_owner = (case addr of None \<Rightarrow> -1 | Some a \<Rightarrow> smf_sess_owner_shard_by_ipv4 c a);
               if ue_owner < 0
               then do { owner \<leftarrow> (if ip_owner \<ge> 0 then Some ip_owner else owner_for_new_ue c imsi);
                         Some (rehome_to_owner self e owner) }
               else if ip_owner \<ge> 0 \<and> ip_owner \<noteq> ue_owner \<and> \<not> ev_xshard_done e
               then Some (xshard_collision_begin e ip_owner ue_owner)
               else Some (rehome_to_owner self e ue_owner) })"

definition smf_worker_rehome_gtp2 ::
    "smf_ctx \<Rightarrow> nat \<Rightarrow> smf_event \<Rightarrow> gtp_msg \<Rightarrow> (int \<times> smf_event) option option" where
  "smf_worker_rehome_gtp2 c self e m =
     (if \<not> smf_workers_active c then Some None
      else if gm_type m = OGS_GTP2_ECHO_REQUEST_TYPE \<or> gm_type m = OGS_GTP2_ECHO_RESPONSE_TYPE
      then Some (rehome_to_owner self e 0)
      else do {
        reply \<leftarrow> (case ev_pkbuf e of
                    None \<Rightarrow> Some (-1)
                  | Some d \<Rightarrow> ogs_gtp2_rx_reply_shard (c_shards_active c) d);
        let by_teid = smf_sess_owner_shard_by_seid c (ucast (gm_teid m));
        if reply \<ge> 0 then Some None
        else if gm_type m = OGS_GTP2_CREATE_SESSION_REQUEST_TYPE
                \<and> (\<not> gm_teid_presence m \<or> gm_teid m = 0 \<or> by_teid < 0)
        then rehome_create_session c self e m
        else Some (rehome_to_owner self e
                     (if gm_teid_presence m \<and> gm_teid m \<noteq> 0 then by_teid else -1)) })"

definition smf_worker_rehome_gtp1 ::
    "smf_ctx \<Rightarrow> nat \<Rightarrow> smf_event \<Rightarrow> gtp_msg \<Rightarrow> (int \<times> smf_event) option option" where
  "smf_worker_rehome_gtp1 c self e m =
     (if \<not> smf_workers_active c then Some None
      else if gm_type m = OGS_GTP1_ECHO_REQUEST_TYPE \<or> gm_type m = OGS_GTP1_ECHO_RESPONSE_TYPE
      then Some (rehome_to_owner self e 0)
      else do {
        reply \<leftarrow> (case ev_pkbuf e of
                    None \<Rightarrow> Some (-1)
                  | Some d \<Rightarrow> ogs_gtp1_rx_reply_shard (c_shards_active c) d);
        if reply \<ge> 0 then Some None
        else let owner = (if gm_teid m \<noteq> 0 then smf_sess_owner_shard_by_seid c (ucast (gm_teid m)) else -1)
        in if owner < 0 \<and> gm_type m = OGS_GTP1_CREATE_PDP_CONTEXT_REQUEST_TYPE
           then (case usable_imsi m of
                   None \<Rightarrow> Some None
                 | Some imsi \<Rightarrow>
                     do { let owner = smf_ue_owner_shard_by_imsi c imsi;
                          owner \<leftarrow> (if owner < 0 then owner_for_new_ue c imsi else Some owner);
                          Some (rehome_to_owner self e owner) })
           else Some (rehome_to_owner self e owner) })"

section \<open>Posting events\<close>

text \<open>The queue of the main loop and those of the workers; the result of a post is its return code,
  whether the poll loop of the shard is notified, and the queues.\<close>

record 'e smf_queues =
  sq_main :: "'e ogs_queue"
  sq_workers :: "'e ogs_queue list"

definition smf_event_post_shard ::
    "int \<Rightarrow> 'e \<Rightarrow> 'e smf_queues \<Rightarrow> ogs_rv option \<times> bool \<times> 'e smf_queues" where
  "smf_event_post_shard shard e qs =
     (if shard = 0
      then (case ogs_queue_trypush (sq_main qs) (Some e) of (rv, q) \<Rightarrow> (rv, rv = Some OGS_OK, qs\<lparr>sq_main := q\<rparr>))
      else if shard < 1 \<or> shard > int (length (sq_workers qs)) then (Some OGS_ERROR, False, qs)
      else let w = nat (shard - 1)
           in case ogs_worker_post (Some (sq_workers qs ! w)) (Some e) of
                (rv, wake, Some q) \<Rightarrow> (rv, wake, qs\<lparr>sq_workers := (sq_workers qs)[w := q]\<rparr>)
              | (rv, wake, None) \<Rightarrow> (rv, wake, qs))"

end
