(* ===== verification/Smf_Ue_Props.thy ===== *)
theory Smf_Ue_Props
  imports Smf_Ue_Inv
begin

text \<open>
  The interleavings of the UE registry and what they guarantee: additions under different keys
  never abort and leave consistent indexes, and two additions of one new IMSI on two shards can
  abort the process.
\<close>

section \<open>Interleaving the shards\<close>

fun final_pc :: "ue_pc \<Rightarrow> bool" where
  "final_pc (Done n) = True"
| "final_pc Null = True"
| "final_pc _ = False"

text \<open>Every shard runs at most one call at a time. Calls under way have different keys; a UE is
  removed by its owner while no call is using it. The pool hands out fresh ids until its counter
  has wrapped around onto an id still in use.\<close>

inductive sys_step :: "bool \<Rightarrow> smf_reg \<times> ue_threads \<Rightarrow> smf_reg \<times> ue_threads \<Rightarrow> bool" for sh where
  start: "T t = None \<Longrightarrow> req_safe req \<Longrightarrow>
     (\<And>t' x. T t' = Some x \<Longrightarrow> req_key (fst x) \<noteq> req_key req) \<Longrightarrow>
     sys_step sh (r, T) (r, T(t \<mapsto> (req, Find_First)))"
| run: "T t = Some (req, pc) \<Longrightarrow> \<not> final_pc pc \<Longrightarrow> idpool_fresh (g_pool r) \<Longrightarrow>
     ue_step sh t req pc r = Some (pc', r') \<Longrightarrow> sys_step sh (r, T) (r', T(t \<mapsto> (req, pc')))"
| return: "T t = Some (req, pc) \<Longrightarrow> final_pc pc \<Longrightarrow> sys_step sh (r, T) (r, T(t := None))"
| remove: "n \<in> ue_live r \<Longrightarrow> (\<And>t x. T t = Some x \<Longrightarrow> holds (snd x) \<noteq> Some n) \<Longrightarrow>
     smf_ue_remove n r = Some r' \<Longrightarrow> sys_step sh (r, T) (r', T)"

definition smf_reg_init :: "nat \<Rightarrow> nat \<Rightarrow> smf_reg" where
  "smf_reg_init n old_id =
     \<lparr>g_pool = idpool_init n old_id,
      g_ue = (\<lambda>_. \<lparr>u_id = 0, u_owner_shard = 0, u_supi = None, u_imsi = [], u_imsi_bcd = []\<rparr>),
      g_list = [], g_supi = Map.empty, g_imsi = Map.empty\<rparr>"

inductive sys_reach :: "bool \<Rightarrow> smf_reg \<times> ue_threads \<Rightarrow> bool" for sh where
  init: "old_id \<le> OGS_MAX_POOL_ID \<Longrightarrow> sys_reach sh (smf_reg_init n old_id, Map.empty)"
| step: "sys_reach sh s \<Longrightarrow> sys_step sh s s' \<Longrightarrow> sys_reach sh s'"

section \<open>The invariant holds\<close>

lemma ue_step_effect:
  assumes ok: "sys_ok r T" and t: "T t = Some (req, pc)" and fresh: "idpool_fresh (g_pool r)"
    and pc: "\<not> final_pc pc"
  shows "\<exists>pc' r'. ue_step sh self req pc r = Some (pc', r') \<and> step_effect r req pc pc' r'"
proof -
  note reg = sys_ok_thread(2) [OF ok] and th = sys_ok_thread(1) [OF ok t]
  show ?thesis
  proof (cases pc)
    case Find_First
    then show ?thesis using find_first_effect [OF ok] t by simp
  next
    case Find_Second
    then show ?thesis using find_second_effect [OF reg] th by simp
  next
    case Create
    then show ?thesis using create_effect [OF reg _ fresh] th by simp
  next
    case (Set_First n c)
    then show ?thesis
      using new_first_effect [OF reg] found_set(1) [of req r n] th reg
      by (cases c) (auto intro!: same_effect)
  next
    case (Set_Second n c)
    then show ?thesis
      using new_second_effect [OF reg] found_set(2) [of req r n] th reg
      by (cases c) (auto intro!: same_effect)
  qed (use pc in simp_all)
qed

lemma effect_others:
  assumes ok: "sys_ok r T" and t: "T t = Some (req, pc)" and eff: "step_effect r req pc pc' r'"
    and u: "T u = Some (req2, pc2)" "u \<noteq> t"
  shows "req_key req2 \<noteq> req_key req" "thread_ok r' (req2, pc2)"
    "building pc' = Some m \<Longrightarrow> holds pc2 \<noteq> Some m" "building pc2 = Some m \<Longrightarrow> holds pc' \<noteq> Some m"
proof -
  show key: "req_key req2 \<noteq> req_key req"
    using ok t u unfolding sys_ok_def threads_apart_def by (metis fst_conv)
  note th2 = sys_ok_thread(1) [OF ok u(1)]
  have apart: "building pc = Some n \<Longrightarrow> holds pc2 \<noteq> Some n" for n
    using ok t u unfolding sys_ok_def by (metis snd_conv)
  have free: "holds pc2 \<noteq> Some n" if "building pc = Some n \<or> building pc = None \<and> n \<notin> ue_live r" for n
    using that apart holds_live [OF th2] by blast
  show th2': "thread_ok r' (req2, pc2)"
    using eff th2 frame_thread_ok [OF _ th2 key] free unfolding step_effect_def by blast
  show built: "building pc' = Some m \<Longrightarrow> holds pc2 \<noteq> Some m"
    using eff free unfolding step_effect_def by auto
  assume b2: "building pc2 = Some m"
  show "holds pc' \<noteq> Some m"
  proof
    assume h: "holds pc' = Some m"
    have "thread_ok r' (req, pc')" using eff by (simp add: step_effect_def)
    then have "building pc' = Some m \<or> keyed (g_ue r' m) (req_key req)"
      using h by (cases "(r', req, pc')" rule: thread_ok.cases) auto
    then show False
      using built building_holds [OF b2] building_partial(3) [OF th2' b2] key by metis
  qed
qed

lemma effect_all_keyed:
  assumes ok: "sys_ok r T" and t: "T t = Some (req, pc)" and eff: "step_effect r req pc pc' r'"
  shows "all_keyed r' (T(t \<mapsto> (req, pc')))"
  unfolding all_keyed_def
proof (intro ballI)
  fix m assume m: "m \<in> ue_live r'"
  let ?goal = "(\<exists>k. keyed (g_ue r' m) k) \<or> (\<exists>u x. (T(t \<mapsto> (req, pc'))) u = Some x \<and> building (snd x) = Some m)"
  have old: ?goal if "m \<in> ue_live r" "g_ue r' m = g_ue r m" "building pc \<noteq> Some m"
  proof -
    have "(\<exists>k. keyed (g_ue r m) k) \<or> (\<exists>u x. T u = Some x \<and> building (snd x) = Some m)"
      using ok that(1) by (simp add: sys_ok_def all_keyed_def)
    then show ?thesis
    proof
      assume "\<exists>u x. T u = Some x \<and> building (snd x) = Some m"
      then obtain u x where u: "T u = Some x" "building (snd x) = Some m" by blast
      then have "u \<noteq> t" using t that(3) by auto
      then have "(T(t \<mapsto> (req, pc'))) u = Some x" using u(1) by simp
      then show ?thesis using u(2) by blast
    qed (use that(2) in auto)
  qed
  show ?goal
  proof (cases "r' = r \<and> building pc = None")
    case True
    then show ?thesis using m old by simp
  next
    case False
    then obtain n where n: "reg_frame (req_key req) n r r'" "ue_live r' = insert n (ue_live r)"
      "building pc = Some n \<or> building pc = None \<and> n \<notin> ue_live r"
      "building pc' = Some n \<or> building pc' = None \<and> keyed (g_ue r' n) (req_key req)"
      using eff unfolding step_effect_def by blast
    show ?thesis
    proof (cases "m = n")
      case True
      then show ?thesis using n(4) by auto
    next
      case False
      have "m \<in> ue_live r" using m n(2) False by simp
      moreover from this have "g_ue r' m = g_ue r m" using n(1) False by (simp add: reg_frame_def)
      ultimately show ?thesis using n(3) False by (intro old) auto
    qed
  qed
qed

lemma effect_sys_ok:
  assumes ok: "sys_ok r T" and t: "T t = Some (req, pc)" and eff: "step_effect r req pc pc' r'"
  shows "sys_ok r' (T(t \<mapsto> (req, pc')))"
proof -
  note others = effect_others [OF ok t eff]
  have "threads_apart (T(t \<mapsto> (req, pc')))"
    using ok t unfolding sys_ok_def threads_apart_def by (auto split: if_splits) (metis fst_conv)+
  moreover have "thread_ok r' x" if "(T(t \<mapsto> (req, pc'))) u = Some x" for u x
    using that eff others(2) by (cases x) (auto simp: step_effect_def split: if_splits)
  moreover have "holds (snd y) \<noteq> Some n"
    if "(T(t \<mapsto> (req, pc'))) u = Some x" "(T(t \<mapsto> (req, pc'))) u' = Some y" "u \<noteq> u'"
      "building (snd x) = Some n" for u u' x y n
  proof -
    have "\<forall>u u' x y n. T u = Some x \<longrightarrow> T u' = Some y \<longrightarrow> u \<noteq> u' \<longrightarrow> building (snd x) = Some n \<longrightarrow> holds (snd y) \<noteq> Some n"
      using ok by (simp add: sys_ok_def)
    then show ?thesis
      using that others(3,4) by (cases x; cases y) (auto split: if_splits)
  qed
  ultimately show ?thesis
    using eff effect_all_keyed [OF ok t eff] unfolding sys_ok_def step_effect_def by blast
qed

lemma remove_sys_ok:
  assumes ok: "sys_ok r T" and n: "n \<in> ue_live r" "\<And>t x. T t = Some x \<Longrightarrow> holds (snd x) \<noteq> Some n"
    and rm: "smf_ue_remove n r = Some r'"
  shows "sys_ok r' T"
proof -
  note reg = sys_ok_thread(2) [OF ok]
  have r': "reg_ok r'" "ue_live r' = ue_live r - {n}" "g_ue r' = g_ue r"
    "\<And>s m. g_supi r' s = Some m \<Longrightarrow> g_supi r s = Some m" "\<And>b m. g_imsi r' b = Some m \<Longrightarrow> g_imsi r b = Some m"
    using reg_ok_remove [OF reg n(1)] rm by auto
  have none: "g_supi r s = None \<Longrightarrow> g_supi r' s = None" "g_imsi r b = None \<Longrightarrow> g_imsi r' b = None" for s b
    using r'(4,5) by (metis not_None_eq)+
  have "thread_ok r' (req, pc)" if t: "T t = Some (req, pc)" for t req pc
  proof -
    have "holds pc \<noteq> Some n" using n(2) [OF t] by simp
    moreover have "half_set r req u \<Longrightarrow> half_set r' req u" for u using none by (cases req) auto
    ultimately show ?thesis
      using sys_ok_thread(1) [OF ok t] r'(2,3) none
      by (cases "(r, req, pc)" rule: thread_ok.cases) (auto simp: absent_def)
  qed
  then have th: "\<And>t x. T t = Some x \<Longrightarrow> thread_ok r' x" by (metis prod.collapse)
  show ?thesis using ok th r' unfolding sys_ok_def all_keyed_def by auto
qed

lemma all_keyed_upd:
  assumes "all_keyed r T" "\<And>x. T t = Some x \<Longrightarrow> building (snd x) = None"
  shows "all_keyed r (T(t := y))"
  unfolding all_keyed_def
proof (intro ballI)
  fix n assume "n \<in> ue_live r"
  then have "(\<exists>k. keyed (g_ue r n) k) \<or> (\<exists>u x. T u = Some x \<and> building (snd x) = Some n)"
    using assms(1) by (simp add: all_keyed_def)
  moreover have "(T(t := y)) u = Some x" if "T u = Some x" "building (snd x) = Some n" for u x
    using that assms(2) by (cases "u = t") auto
  ultimately show "(\<exists>k. keyed (g_ue r n) k) \<or> (\<exists>u x. (T(t := y)) u = Some x \<and> building (snd x) = Some n)"
    by blast
qed

lemma sys_step_ok:
  assumes "sys_step sh (r, T) (r', T')" "sys_ok r T"
  shows "sys_ok r' T'"
  using assms(1)
proof (cases rule: sys_step.cases)
  case (start t req)
  then show ?thesis
    using assms(2) all_keyed_upd [of r T t "Some (req, Find_First)"] unfolding sys_ok_def threads_apart_def
    by (auto split: if_splits) metis
next
  case (run t req pc pc')
  then show ?thesis
    using ue_step_effect [OF assms(2), of t req pc sh t] effect_sys_ok [OF assms(2), of t req pc] by auto
next
  case (return t req pc)
  then have "building pc = None" by (cases pc rule: building.cases) auto
  then show ?thesis
    using assms(2) return all_keyed_upd [of r T t None] unfolding sys_ok_def threads_apart_def
    by (auto split: if_splits)
next
  case (remove n)
  then show ?thesis using remove_sys_ok [OF assms(2)] by blast
qed

lemma sys_reach_ok: "sys_reach sh s \<Longrightarrow> sys_ok (fst s) (snd s)"
proof (induction rule: sys_reach.induct)
  case (init old_id n)
  then show ?case
    using idpool_init_inv [OF init]
    by (simp add: sys_ok_def reg_ok_def smf_reg_init_def ue_live_def all_keyed_def threads_apart_def idpool_init_def)
next
  case (step s s')
  then show ?case using sys_step_ok [of sh "fst s" "snd s" "fst s'" "snd s'"] by simp
qed

lemma keyed_indexed:
  assumes "reg_ok r" "n \<in> ue_live r" "keyed (g_ue r n) k"
  shows "g_supi r k = Some n" "key_imsi k = Some b \<Longrightarrow> g_imsi r b = Some n"
  using reg_index [OF assms(1)] assms(2,3) key_imsi_nonempty by (auto simp: keyed_def)

text \<open>C32. Whatever calls that add UEs run on the shards, interleaved at their critical sections with
  each other and with removals, as long as calls under way at the same time are for different
  subscribers: no call reaches a fatal assertion, the UE that a call returns is found under its
  SUPI and its IMSI, and under a key that no call is working on the lookups by SUPI and by IMSI
  agree.\<close>

theorem concurrent_adds_are_safe:
  assumes "sys_reach sh (r, T)"
  shows "(\<forall>t req pc. T t = Some (req, pc) \<and> \<not> final_pc pc \<and> idpool_fresh (g_pool r) \<longrightarrow>
            ue_step sh t req pc r \<noteq> None)
     \<and> (\<forall>t req n. T t = Some (req, Done n) \<longrightarrow> g_supi r (req_key req) = Some n
            \<and> (\<forall>b. key_imsi (req_key req) = Some b \<longrightarrow> g_imsi r b = Some n))
     \<and> (\<forall>k b n. key_imsi k = Some b \<and> (\<forall>t x. T t = Some x \<longrightarrow> req_key (fst x) \<noteq> k) \<longrightarrow>
            (g_supi r k = Some n \<longleftrightarrow> g_imsi r b = Some n))"
proof -
  have ok: "sys_ok r T" using sys_reach_ok [OF assms] by simp
  note reg = sys_ok_thread(2) [OF ok]
  have "ue_step sh t req pc r \<noteq> None"
    if "T t = Some (req, pc)" "\<not> final_pc pc" "idpool_fresh (g_pool r)" for t req pc
    using ue_step_effect [OF ok that(1,3,2), of sh t] by auto
  moreover have "g_supi r (req_key req) = Some n \<and> (\<forall>b. key_imsi (req_key req) = Some b \<longrightarrow> g_imsi r b = Some n)"
    if "T t = Some (req, Done n)" for t req n
    using sys_ok_thread(1) [OF ok that] keyed_indexed [OF reg, of n "req_key req"] by simp
  moreover have "g_supi r k = Some n \<longleftrightarrow> g_imsi r b = Some n"
    if k: "key_imsi k = Some b" "\<forall>t x. T t = Some x \<longrightarrow> req_key (fst x) \<noteq> k" for k b n
  proof -
    have "keyed (g_ue r n) k" if "n \<in> ue_live r" "u_supi (g_ue r n) = Some k \<or> key_imsi k = Some (u_imsi (g_ue r n))"
      by (rule identity_keyed [OF ok that]) (use k(2) in force)
    then show ?thesis using reg_index [OF reg] keyed_indexed [OF reg] k(1) by metis
  qed
  ultimately show ?thesis by blast
qed

theorem concurrent_adds_are_safe_witness:
  "let r = smf_reg_init 2 0; T = Map.empty(1 \<mapsto> (By_Imsi [0x21], Find_First), 2 \<mapsto> (By_Supi [0x61], Find_First)) in
     sys_reach True (r, T) \<and> idpool_fresh (g_pool r)
     \<and> ue_step True 1 (By_Imsi [0x21]) Find_First r \<noteq> None \<and> ue_step True 2 (By_Supi [0x61]) Find_First r \<noteq> None"
proof -
  let ?r = "smf_reg_init 2 0"
  let ?T1 = "Map.empty(1 \<mapsto> (By_Imsi [0x21], Find_First))"
  let ?T = "?T1(2 \<mapsto> (By_Supi [0x61], Find_First))"
  have fresh: "idpool_fresh (g_pool ?r)" by (simp add: smf_reg_init_def idpool_init_def idpool_fresh_def)
  have "sys_reach True (?r, Map.empty)" by (rule sys_reach.init) simp
  then have "sys_reach True (?r, ?T1)"
    by (rule sys_reach.step) (rule sys_step.start, simp_all)
  then have reach: "sys_reach True (?r, ?T)"
    by (rule sys_reach.step) (rule sys_step.start, auto simp: imsi_supi_of_def OGS_ID_SUPI_TYPE_IMSI_def split: if_splits)
  have "ue_step True 1 (By_Imsi [0x21]) Find_First ?r \<noteq> None" "ue_step True 2 (By_Supi [0x61]) Find_First ?r \<noteq> None"
    using concurrent_adds_are_safe [OF reach] fresh by (auto simp del: ue_step.simps)
  then show ?thesis unfolding Let_def using reach fresh by simp
qed

section \<open>Two shards and one new subscriber\<close>

lemma add_abort_prefix:
  assumes v: "req_valid (By_Imsi b)" and ab: "absent r (req_key (By_Imsi b))" and free: "ip_free (g_pool r) = n # rest"
  shows "\<exists>r'. ue_run 3 sh t (By_Imsi b) Find_First r = Some (Set_First n True, r')
     \<and> absent r' (req_key (By_Imsi b)) \<and> ip_free (g_pool r') = rest \<and> u_imsi (g_ue r' n) = []
     \<and> (\<forall>m. m \<noteq> n \<longrightarrow> g_ue r' m = g_ue r m)"
proof -
  note bcd = imsi_to_bcd_valid(1,2) [OF v]
  have "g_imsi r b = None" "g_supi r (imsi_supi_of (bcd_unpack b)) = None" using ab bcd(2) by (auto simp: absent_def)
  moreover have "imsi_supi_of (bcd_unpack b) \<noteq> []" by (simp add: imsi_supi_of_def)
  ultimately show ?thesis
    using v ab bcd free
    by (simp add: numeral_3_eq_3 smf_ue_add_by_imsi_step_def smf_ue_find_by_imsi_def smf_ue_find_by_supi_def
        smf_ue_add_def idpool_calloc_def Let_def absent_def)
qed

text \<open>C33. When two shards add the same new subscriber at the same time, the process is aborted: both
  look the IMSI up before either has indexed it and create a UE each, and the second of them finds
  the IMSI indexed for the UE of the first and ends in \<open>ogs_assert_if_reached\<close>.\<close>

theorem concurrent_creation_aborts:
  assumes v: "req_valid (By_Imsi b)" and ab: "absent r (req_key (By_Imsi b))"
    and pool: "idpool_inv (g_pool r)" "2 \<le> length (ip_free (g_pool r))"
  shows "\<exists>n1 r1 n2 r2 r3.
      ue_run 3 sh t1 (By_Imsi b) Find_First r = Some (Set_First n1 True, r1)
    \<and> ue_run 3 sh t2 (By_Imsi b) Find_First r1 = Some (Set_First n2 True, r2)
    \<and> ue_step sh t1 (By_Imsi b) (Set_First n1 True) r2 = Some (Set_Second n1 True, r3)
    \<and> ue_step sh t2 (By_Imsi b) (Set_First n2 True) r3 = None"
proof -
  obtain n1 n2 rest where free: "ip_free (g_pool r) = n1 # n2 # rest"
    using pool(2) by (cases "ip_free (g_pool r)"; cases "tl (ip_free (g_pool r))") auto
  then have ne: "n1 \<noteq> n2" using pool(1) by (simp add: idpool_inv_def)
  obtain r1 where r1: "ue_run 3 sh t1 (By_Imsi b) Find_First r = Some (Set_First n1 True, r1)"
    "absent r1 (req_key (By_Imsi b))" "ip_free (g_pool r1) = n2 # rest" "u_imsi (g_ue r1 n1) = []"
    using add_abort_prefix [OF v ab free] by blast
  obtain r2 where r2: "ue_run 3 sh t2 (By_Imsi b) Find_First r1 = Some (Set_First n2 True, r2)"
    "absent r2 (req_key (By_Imsi b))" "u_imsi (g_ue r2 n2) = []" "g_ue r2 n1 = g_ue r1 n1"
    using add_abort_prefix [OF v r1(2,3)] ne by blast
  have w: "ogs_imsi_bcd_is_valid (bcd_unpack b)" "bcd_pack (bcd_unpack b) = b"
    using v pack_unpack by auto
  have "g_imsi r2 b = None" using r2(2) imsi_to_bcd_valid(2) [OF v] by (simp add: absent_def)
  then obtain r3 where r3: "smf_ue_set_imsi_bcd n1 (bcd_unpack b) r2 = Some (OGS_OK, r3)" "g_imsi r3 b = Some n1"
    "u_imsi (g_ue r3 n2) = []"
    using set_imsi_bcd_valid [OF w(1), of n1 r2, unfolded w(2)] r1(4) r2(3,4) ne by auto
  have "smf_ue_set_imsi_bcd n2 (bcd_unpack b) r3 = None"
    using set_imsi_bcd_valid [OF w(1), of n2 r3, unfolded w(2)] r3(2,3) ne by simp
  then show ?thesis
    using r1(1) r2(1) r3(1) set_imsi_eq [OF v] by (auto simp: smf_ue_add_by_imsi_step_def simp del: ue_run.simps)
qed

theorem concurrent_creation_aborts_witness:
  "\<exists>n1 r1 n2 r2 r3.
      ue_run 3 True 1 (By_Imsi [0x21, 0xF3]) Find_First (smf_reg_init 2 0) = Some (Set_First n1 True, r1)
    \<and> ue_run 3 True 2 (By_Imsi [0x21, 0xF3]) Find_First r1 = Some (Set_First n2 True, r2)
    \<and> ue_step True 1 (By_Imsi [0x21, 0xF3]) (Set_First n1 True) r2 = Some (Set_Second n1 True, r3)
    \<and> ue_step True 2 (By_Imsi [0x21, 0xF3]) (Set_First n2 True) r3 = None"
proof (rule concurrent_creation_aborts)
  show "req_valid (By_Imsi [0x21, 0xF3])" by code_simp
  show "idpool_inv (g_pool (smf_reg_init 2 0))"
    by (simp add: smf_reg_init_def idpool_init_inv)
qed (simp_all add: smf_reg_init_def idpool_init_def absent_def)

end
