(* ===== verification/Smf_Route_Props.thy ===== *)
theory Smf_Route_Props
  imports Smf_Route Smf_Ue_Props Gtp_Exchange Pfcp_Behaviour
begin

text \<open>
  What the routers of the SMF guarantee: results are live shards, messages that carry an identifier
  given out by a shard come back to that shard, a new session is created where the router puts it,
  and re-homing ends. The identifiers that carry a shard (TEIDs, SEIDs, PFCP sequence numbers) share
  the interface \<open>shard_codec\<close>.
\<close>

section \<open>Identifiers that carry a shard\<close>

locale shard_codec =
  fixes enc :: "nat \<Rightarrow> 'r \<Rightarrow> 'v option" and dec :: "'v \<Rightarrow> int"
  assumes dec_enc: "w < 16 \<Longrightarrow> enc w r = Some v \<Longrightarrow> dec v = int w"
begin

lemma routed:
  assumes "enc w r = Some v" "w \<le> n" "n < 16"
  shows "smf_shard_clamp_n (dec v) key (int n) = int w"
  using assms dec_enc [of w r v] by (simp add: clamp_live)

lemma disjoint: "enc w r = Some v \<Longrightarrow> enc w' r' = Some v \<Longrightarrow> w < 16 \<Longrightarrow> w' < 16 \<Longrightarrow> w = w'"
  using dec_enc [of w r v] dec_enc [of w' r' v] by simp

end

interpretation teid: shard_codec "smf_shard_compose True" smf_shard_decode_teid
  by unfold_locales (rule decode_compose(1))

interpretation seid: shard_codec "\<lambda>w r. map_option ucast (smf_shard_compose True w r)" smf_shard_decode_seid
  by unfold_locales (auto intro: decode_compose(2))

text \<open>The ids that \<open>pfcp_xact_next_xid\<close> gives out on a shard.\<close>

definition pfcp_xid_on :: "nat \<Rightarrow> pfcp_env \<times> pfcp_state \<Rightarrow> u32 option" where
  "pfcp_xid_on w x =
     (case x of (env, st) \<Rightarrow>
        if pe_shards_active env \<and> ogs_worker_self_id (pe_worker_self env) = w
        then Some (fst (pfcp_xact_next_xid env st)) else None)"

lemma pfcp_xid_shard:
  assumes "w < 16" "pfcp_xid_on w x = Some xid"
  shows "smf_shard_decode_xid xid = int w" "unat xid < 2 ^ 24"
proof -
  obtain env st where x: "x = (env, st)" "pe_shards_active env" "ogs_worker_self_id (pe_worker_self env) = w"
    "xid = fst (pfcp_xact_next_xid env st)"
    using assms(2) by (auto simp: pfcp_xid_on_def split: prod.splits if_splits)
  have span: "drop_bit OGS_WORKER_ID_BITS (PFCP_MAX_XACT_ID - PFCP_MIN_XACT_ID + 1) = (2 ^ 19 :: u32)"
    by (simp add: OGS_WORKER_ID_BITS_def PFCP_MAX_XACT_ID_def PFCP_MIN_XACT_ID_def)
  have "\<exists>v. xid = of_nat w * 2 ^ 19 + v \<and> unat v < 2 ^ 19"
  proof (intro exI conjI)
    show "xid = of_nat w * 2 ^ 19 + (if of_nat w * 2 ^ 19 + (ps_xact_id st + 1) mod 2 ^ 19 < PFCP_MIN_XACT_ID
        then PFCP_MIN_XACT_ID - of_nat w * 2 ^ 19 else (ps_xact_id st + 1) mod 2 ^ 19)"
      unfolding x(4) pfcp_xact_next_xid_def Let_def span x(3) using x(2) by simp
    show "unat (if of_nat w * 2 ^ 19 + (ps_xact_id st + 1) mod 2 ^ 19 < PFCP_MIN_XACT_ID
        then PFCP_MIN_XACT_ID - of_nat w * 2 ^ 19 else (ps_xact_id st + 1) mod 2 ^ 19) < 2 ^ 19"
      using assms(1) by (intro shard_offset) (simp_all add: PFCP_MIN_XACT_ID_def)
  qed
  then obtain v where v: "xid = of_nat w * 2 ^ 19 + v" "unat v < 2 ^ 19" by blast
  note sb = shard_bits [OF v(2) assms(1)]
  show "smf_shard_decode_xid xid = int w"
    using sb(1) assms(1) unfolding v(1)
    by (simp add: smf_shard_decode_xid_def SMF_SHARD_MASK_def OGS_WORKER_ID_BITS_def uint_nat unat_of_nat
        take_bit_nat_eq_self)
  show "unat xid < 2 ^ 24" using sb(2) v(2) assms(1) unfolding v(1) by simp
qed

interpretation pfcp_xid: shard_codec pfcp_xid_on smf_shard_decode_xid
  by unfold_locales (rule pfcp_xid_shard(1))

section \<open>Contexts\<close>

definition ctx_ok :: "smf_ctx \<Rightarrow> bool" where
  "ctx_ok c \<longleftrightarrow> c_worker_count c < 16 \<and> c_shards_active c \<and> reg_ok (c_reg c)
     \<and> (\<forall>n\<in>ue_live (c_reg c). u_owner_shard (g_ue (c_reg c) n) \<le> c_worker_count c)
     \<and> (\<forall>s\<in>ran (c_seid_hash c) \<union> ran (c_ipv4_hash c). smf_sess_owner_shard s \<le> int (c_worker_count c))
     \<and> (\<forall>k s. c_seid_hash c k = Some s \<longrightarrow> ss_n4_seid s = k)"

text \<open>The main thread and the workers that are running.\<close>

definition live_shard :: "smf_ctx \<Rightarrow> int \<Rightarrow> bool" where
  "live_shard c x \<longleftrightarrow> 0 \<le> x \<and> x \<le> int (c_worker_count c)"

lemma live_shard_simps [simp]:
  "live_shard c 0" "smf_workers_active c \<Longrightarrow> live_shard c 1" "live_shard c (smf_shard_clamp c shard key)"
  using clamp_range [of "int (c_worker_count c)" shard key]
  by (simp_all add: live_shard_def smf_workers_active_def smf_shard_clamp_def)

lemma owner_by_imsi:
  assumes "ctx_ok c"
  shows "smf_ue_owner_shard_by_imsi c imsi \<le> int (c_worker_count c)"
  using assms reg_index(2) [of "c_reg c"]
  by (auto simp: smf_ue_owner_shard_by_imsi_def ctx_ok_def split: option.splits)

lemma new_imsi_shard:
  assumes "smf_workers_active c"
  shows "live_shard c (smf_shard_for_new_imsi c s)" "0 < smf_shard_for_new_imsi c s"
  using assms imsi_hash_range(1) [of "int (c_worker_count c)" s]
  by (simp_all add: smf_shard_for_new_imsi_def live_shard_def smf_workers_active_def)

lemma route_by_imsi_live:
  assumes "ctx_ok c" "smf_workers_active c" "route_by_imsi c s = Some x"
  shows "live_shard c x"
  using assms(3) owner_by_imsi [OF assms(1)] new_imsi_shard [OF assms(2)]
  by (auto simp: route_by_imsi_def live_shard_def bind_eq_Some_conv Let_def)

lemma gtp1_route_live:
  assumes "ctx_ok c" "smf_workers_active c" "smf_gtp1_route c d = Some x"
  shows "live_shard c x"
  using assms(3) route_by_imsi_live [OF assms(1,2)] assms(2)
  by (auto simp: smf_gtp1_route_def bind_eq_Some_conv Let_def split: if_splits)

lemma pred_bind: "(\<And>y. m = Some y \<Longrightarrow> pred_option P (f y)) \<Longrightarrow> pred_option P (m \<bind> f)"
  by (cases m) simp_all

lemma gtp2_route_live:
  assumes "ctx_ok c" "smf_workers_active c" "smf_gtp2_route c d = Some x"
  shows "live_shard c x"
proof -
  have "pred_option (live_shard c) (route_by_imsi c s)" for s
    using route_by_imsi_live [OF assms(1,2), of s] by (cases "route_by_imsi c s") simp_all
  then have "pred_option (live_shard c) (smf_gtp2_route c d)"
    unfolding smf_gtp2_route_def Let_def by (auto intro!: pred_bind)
  then show ?thesis using assms(3) by simp
qed

lemma rehome_target: "rehome_to_owner self e owner = Some (s, e') \<Longrightarrow> s = owner \<and> 0 \<le> owner"
  by (auto simp: rehome_to_owner_def split: if_splits)

lemma sess_owner_range:
  assumes "ctx_ok c"
  shows "smf_sess_owner_shard_by_seid c k \<le> int (c_worker_count c)"
    "smf_sess_owner_shard_by_ipv4 c a \<le> int (c_worker_count c)"
  using assms by (auto simp: smf_sess_owner_shard_by_seid_def smf_sess_owner_shard_by_ipv4_def ctx_ok_def
      ran_def split: option.splits)

lemma owner_for_new_ue_live:
  "smf_workers_active c \<Longrightarrow> owner_for_new_ue c imsi = Some x \<Longrightarrow> live_shard c x"
  using new_imsi_shard(1) [of c] by (auto simp: owner_for_new_ue_def bind_eq_Some_conv)

lemma rehome_create_live:
  assumes "ctx_ok c" "smf_workers_active c" "rehome_create_session c self e m = Some (Some (s, e'))"
  shows "live_shard c s"
proof -
  obtain imsi addr where i: "usable_imsi m = Some imsi" "csr_static_ipv4 m = Some addr"
    using assms(3) by (auto simp: rehome_create_session_def Let_def bind_eq_Some_conv split: option.splits)
  define ip where "ip = (case addr of None \<Rightarrow> -1 | Some a \<Rightarrow> smf_sess_owner_shard_by_ipv4 c a)"
  have ip: "ip \<le> int (c_worker_count c)"
    using sess_owner_range(2) [OF assms(1)] by (simp add: ip_def split: option.splits)
  show ?thesis
    using assms(3) ip owner_by_imsi [OF assms(1), of imsi] owner_for_new_ue_live [OF assms(2)]
    by (auto simp: rehome_create_session_def i Let_def ip_def [symmetric] bind_eq_Some_conv
        xshard_collision_begin_def live_shard_def dest!: rehome_target split: if_splits)
qed

lemma rehome_gtp2_live:
  assumes "ctx_ok c" "smf_worker_rehome_gtp2 c self e m = Some (Some (s, e'))"
  shows "live_shard c s"
  using assms(2) rehome_create_live [OF assms(1)] sess_owner_range(1) [OF assms(1)]
  by (auto simp: smf_worker_rehome_gtp2_def bind_eq_Some_conv Let_def live_shard_def dest!: rehome_target
      split: if_splits option.splits)

lemma rehome_gtp1_live:
  assumes "ctx_ok c" "smf_worker_rehome_gtp1 c self e m = Some (Some (s, e'))"
  shows "live_shard c s"
  using assms(2) owner_by_imsi [OF assms(1)] sess_owner_range(1) [OF assms(1)] owner_for_new_ue_live [of c]
  by (auto simp: smf_worker_rehome_gtp1_def bind_eq_Some_conv Let_def live_shard_def dest!: rehome_target
      split: if_splits option.splits)

text \<open>An event posted to a live shard is appended to the queue of that shard, or refused because the
  queue is full or terminated.\<close>

lemma post_live_shard:
  assumes "live_shard c s" "length (sq_workers qs) = c_worker_count c"
    and "queue_inv (sq_main qs)" "\<forall>q\<in>set (sq_workers qs). queue_inv q"
    and "smf_event_post_shard s e qs = (rv, wake, qs')"
  shows "rv \<in> {Some OGS_OK, Some OGS_RETRY, Some OGS_DONE}"
    "queue_abs (if s = 0 then sq_main qs' else sq_workers qs' ! nat (s - 1)) =
       queue_abs (if s = 0 then sq_main qs else sq_workers qs ! nat (s - 1)) @ (if rv = Some OGS_OK then [Some e] else [])"
proof -
  have main: "rv \<in> {Some OGS_OK, Some OGS_RETRY, Some OGS_DONE} \<and>
      queue_abs (sq_main qs') = queue_abs (sq_main qs) @ (if rv = Some OGS_OK then [Some e] else [])" if "s = 0"
  proof -
    obtain r q where p: "ogs_queue_trypush (sq_main qs) (Some e) = (r, q)" by fastforce
    moreover have "queue_abs q = queue_abs (sq_main qs) @ (if r = Some OGS_OK then [Some e] else [])"
      using p queue_put_spec [OF assms(3) _ prod.collapse [symmetric]]
      by (auto simp: ogs_queue_trypush_eq split: if_splits)
    moreover have "r \<in> {Some OGS_OK, Some OGS_RETRY, Some OGS_DONE}"
      using p by (auto simp: ogs_queue_trypush_eq split: if_splits)
    ultimately show ?thesis using assms(5) that by (auto simp: smf_event_post_shard_def)
  qed
  have worker: "rv \<in> {Some OGS_OK, Some OGS_RETRY, Some OGS_DONE} \<and>
      queue_abs (sq_workers qs' ! nat (s - 1)) =
      queue_abs (sq_workers qs ! nat (s - 1)) @ (if rv = Some OGS_OK then [Some e] else [])" if "s \<noteq> 0"
  proof -
    let ?w = "nat (s - 1)"
    have w: "?w < length (sq_workers qs)" "1 \<le> s" "s \<le> int (length (sq_workers qs))"
      using assms(1,2) that by (auto simp: live_shard_def)
    have "\<exists>r k q. ogs_worker_post (Some (sq_workers qs ! ?w)) (Some e) = (r, k, Some q)"
      by (simp add: ogs_worker_post_def ogs_queue_trypush_hint_eq) blast
    then obtain r k q where p: "ogs_worker_post (Some (sq_workers qs ! ?w)) (Some e) = (r, k, Some q)" by blast
    have "queue_inv (sq_workers qs ! ?w)" using assms(4) w(1) by simp
    from worker_post_spec [OF this p]
    have "queue_abs q = queue_abs (sq_workers qs ! ?w) @ (if r = Some OGS_OK then [Some e] else [])" by blast
    moreover have "r \<in> {Some OGS_OK, Some OGS_RETRY, Some OGS_DONE}"
      using p by (auto simp: ogs_worker_post_def ogs_queue_trypush_hint_eq split: if_splits)
    ultimately show ?thesis
      using assms(5) that w p by (auto simp: smf_event_post_shard_def Let_def)
  qed
  show "rv \<in> {Some OGS_OK, Some OGS_RETRY, Some OGS_DONE}" using main worker by blast
  show "queue_abs (if s = 0 then sq_main qs' else sq_workers qs' ! nat (s - 1)) =
       queue_abs (if s = 0 then sq_main qs else sq_workers qs ! nat (s - 1)) @ (if rv = Some OGS_OK then [Some e] else [])"
    using main worker by simp
qed

text \<open>C34. Whatever datagram, PFCP message or parsed message arrives and wherever it is re-homed to,
  the shard it is sent to is the main thread or a running worker. Posting the event there never
  fails for a bad shard: it is appended to the queue of that shard, or refused because the queue is
  full or terminated.\<close>

theorem routed_events_are_queued:
  assumes "ctx_ok c"
    and "smf_gtp_route c d v = Some s \<or> s = smf_pfcp_route c h
       \<or> smf_worker_rehome_gtp2 c self ev m = Some (Some (s, ev'))
       \<or> smf_worker_rehome_gtp1 c self ev m = Some (Some (s, ev'))"
    and "length (sq_workers qs) = c_worker_count c"
    and "queue_inv (sq_main qs)" "\<forall>q\<in>set (sq_workers qs). queue_inv q"
    and "smf_event_post_shard s e qs = (rv, wake, qs')"
  shows "0 \<le> s \<and> s \<le> int (c_worker_count c)
    \<and> rv \<in> {Some OGS_OK, Some OGS_RETRY, Some OGS_DONE}
    \<and> queue_abs (if s = 0 then sq_main qs' else sq_workers qs' ! nat (s - 1)) =
       queue_abs (if s = 0 then sq_main qs else sq_workers qs ! nat (s - 1))
         @ (if rv = Some OGS_OK then [Some e] else [])"
proof -
  have "live_shard c s" if "smf_gtp_route c d v = Some s"
    using that gtp1_route_live [OF assms(1)] gtp2_route_live [OF assms(1)]
    by (auto simp: smf_gtp_route_def split: if_splits)
  moreover have "live_shard c (smf_pfcp_route c h)" by (simp add: smf_pfcp_route_def Let_def)
  ultimately have l: "live_shard c s"
    using assms(2) rehome_gtp2_live [OF assms(1)] rehome_gtp1_live [OF assms(1)] by blast
  show ?thesis using l post_live_shard [OF l assms(3-6)] by (simp add: live_shard_def)
qed

text \<open>A small context for the witnesses: two workers, one UE with the IMSI 123 owned by shard 2, and
  a session of shard 1 that holds an IPv4 address.\<close>

definition demo_reg :: smf_reg where
  "demo_reg = \<lparr>g_pool = \<lparr>ip_free = [1, 2], ip_size = 3, ip_ids = [1 \<mapsto> 0], ip_id = 1\<rparr>,
     g_ue = (\<lambda>_. \<lparr>u_id = 1, u_owner_shard = 2, u_supi = Some (imsi_supi_of [0x31, 0x32, 0x33]),
                u_imsi = [0x21, 0xF3], u_imsi_bcd = [0x31, 0x32, 0x33]\<rparr>),
     g_list = [0], g_supi = [imsi_supi_of [0x31, 0x32, 0x33] \<mapsto> 0], g_imsi = [[0x21, 0xF3] \<mapsto> 0]\<rparr>"

definition demo_ctx :: smf_ctx where
  "demo_ctx = \<lparr>c_reg = demo_reg, c_seid_hash = Map.empty,
     c_ipv4_hash = [7 \<mapsto> \<lparr>ss_n4_seid = 0x10000005, ss_ue_id = 9\<rparr>], c_worker_count = 2, c_shards_active = True\<rparr>"

lemma demo_ctx_ok: "ctx_ok demo_ctx"
proof -
  have "reg_ok demo_reg"
    by (auto simp: reg_ok_def demo_reg_def ue_live_def idpool_inv_def pool_id_ok_def OGS_MAX_POOL_ID_def OGS_MIN_POOL_ID_def
        split: if_splits)
  then show ?thesis
    by (auto simp: ctx_ok_def demo_ctx_def demo_reg_def smf_sess_owner_shard_def OGS_WORKER_ID_BITS_def
        split: if_splits)
qed

theorem routed_events_are_queued_witness:
  "let h = \<lparr>ph_type = 51, ph_seid_presence = True, ph_seid = 0x20000001, ph_sqn = 0\<rparr>;
       s = smf_pfcp_route demo_ctx h;
       qs = \<lparr>sq_main = ogs_queue_create 4, sq_workers = [ogs_queue_create 4, ogs_queue_create 4]\<rparr>
   in 0 \<le> s \<and> s \<le> 2 \<and> fst (smf_event_post_shard s (3::nat) qs) \<in> {Some OGS_OK, Some OGS_RETRY, Some OGS_DONE}"
proof -
  let ?qs = "\<lparr>sq_main = ogs_queue_create 4, sq_workers = [ogs_queue_create 4, ogs_queue_create 4]\<rparr> :: nat smf_queues"
  let ?h = "\<lparr>ph_type = 51, ph_seid_presence = True, ph_seid = 0x20000001, ph_sqn = 0\<rparr>"
  obtain rv wake qs' where p: "smf_event_post_shard (smf_pfcp_route demo_ctx ?h) 3 ?qs = (rv, wake, qs')"
    by (rule prod_cases3)
  from routed_events_are_queued [OF demo_ctx_ok disjI2 [OF disjI1 [OF refl]] _ _ _ p]
  show ?thesis unfolding Let_def p by (simp add: demo_ctx_def)
qed

end
