(* ===== verification/Smf_Collision.thy ===== *)
theory Smf_Collision
  imports Smf_Route
begin

text \<open>
  The collision replace of the SMF (\<open>src/src/smf/collision-replace.c\<close>): a Create request that
  collides with an existing session is parked on the UE of that session while the UPF deletes the
  old session, and is settled when the deletion is answered or times out. Across shards the request is parked
  by the shard that holds the requested static address and handed back afterwards.

  The state has the UEs and sessions one thread works on, the index of IPv4 addresses and, as a log,
  what the code sends, pushes and dispatches. The environment tells how calls outside of this
  component end: the copy of a packet, the transaction lookup, the parsers, the creation of a
  session from a parsed message, the transmission of a PFCP request, whether a session has a default
  bearer and the transmission of its Delete Bearer Request. A result \<open>None\<close> is a failed assertion.
\<close>

section \<open>State\<close>

record collision =
  cr_pending :: bool
  cr_gtp2 :: bool
  cr_pkbuf :: "bytes option"
  cr_gtp_xact_id :: nat
  cr_gtp_node :: "nat option"
  cr_peer_teid :: u32
  cr_peer_teid_presence :: bool
  cr_bounce :: bool
  cr_bounce_shard :: int
  cr_bounce_gnode :: nat

text \<open>The structure after \<open>memset\<close>.\<close>

definition coll_zero :: collision where
  "coll_zero = \<lparr>cr_pending = False, cr_gtp2 = False, cr_pkbuf = None, cr_gtp_xact_id = 0, cr_gtp_node = None,
     cr_peer_teid = 0, cr_peer_teid_presence = False, cr_bounce = False, cr_bounce_shard = 0, cr_bounce_gnode = 0\<rparr>"

record coll_ue =
  cu_coll :: collision
  cu_sess_list :: "nat list"

record coll_sess =
  cs_ue :: nat
  cs_n4_seid :: u64
  cs_upf_n4_seid :: u64
  cs_pfcp_node :: "nat option"
  cs_epc :: bool
  cs_s11_relay :: bool
  cs_ipv4 :: "u32 option"
  cs_gnode :: "nat option"
  cs_sgw_s5c_teid :: u32
  cs_collision_replace :: bool
  cs_wait_pfcp_deletion :: bool

datatype coll_act =
    Send_error bool nat u32
  | Pfcp_deletion_request nat
  | Pfcp_deletion_best_effort nat
  | Delete_bearer_request nat
  | Push_shard int smf_event
  | Dispatch bool nat bytes nat

record coll_st =
  k_ues :: "nat \<rightharpoonup> coll_ue"
  k_sess :: "nat \<rightharpoonup> coll_sess"
  k_ipv4_hash :: "u32 \<rightharpoonup> nat"
  k_log :: "coll_act list"

record coll_env =
  ce_self :: nat
  ce_shards_active :: bool
  ce_pkbuf_copy :: bool
  ce_xact_find :: "nat \<Rightarrow> bool"
  ce_pfcp_send :: "nat \<Rightarrow> bool"
  ce_gtp2_parse :: "bytes \<Rightarrow> gtp_msg option"
  ce_gtp1_parse :: "bytes \<Rightarrow> gtp_msg option"
  ce_sess_add :: "gtp_msg \<Rightarrow> coll_st \<Rightarrow> (nat \<times> coll_sess) option"
  ce_csr_is_s11 :: "gtp_msg \<Rightarrow> bool"
  ce_default_bearer :: "nat \<Rightarrow> bool"
  ce_delete_bearer :: "nat \<Rightarrow> bool"

definition act :: "coll_act \<Rightarrow> coll_st \<Rightarrow> coll_st" where
  "act a st = st\<lparr>k_log := k_log st @ [a]\<rparr>"

definition upd_ue :: "nat \<Rightarrow> (coll_ue \<Rightarrow> coll_ue) \<Rightarrow> coll_st \<Rightarrow> coll_st" where
  "upd_ue u f st = st\<lparr>k_ues := (k_ues st)(u := map_option f (k_ues st u))\<rparr>"

definition upd_sess :: "nat \<Rightarrow> (coll_sess \<Rightarrow> coll_sess) \<Rightarrow> coll_st \<Rightarrow> coll_st" where
  "upd_sess s f st = st\<lparr>k_sess := (k_sess st)(s := map_option f (k_sess st s))\<rparr>"

section \<open>Sessions\<close>

text \<open>\<open>smf_sess_find_active_by_id\<close>: the session is on the list of its UE.\<close>

definition smf_sess_find_active_by_id :: "nat \<Rightarrow> coll_st \<Rightarrow> coll_sess option" where
  "smf_sess_find_active_by_id s st =
     do { sess \<leftarrow> k_sess st s;
          ue \<leftarrow> k_ues st (cs_ue sess);
          if s \<in> set (cu_sess_list ue) then Some sess else None }"

definition coll_owned_by_self :: "coll_env \<Rightarrow> coll_sess \<Rightarrow> bool" where
  "coll_owned_by_self env sess \<longleftrightarrow>
     \<not> ce_shards_active env
     \<or> smf_sess_owner_shard \<lparr>ss_n4_seid = cs_n4_seid sess, ss_ue_id = cs_ue sess\<rparr> = int (ce_self env)"

text \<open>What \<open>smf_sess_remove\<close> does to this state: the list of the UE, the address index and the
  session itself.\<close>

definition smf_sess_remove :: "nat \<Rightarrow> coll_st \<Rightarrow> coll_st option" where
  "smf_sess_remove s st =
     do { sess \<leftarrow> k_sess st s;
          let st = (if smf_sess_find_active_by_id s st \<noteq> None
                    then upd_ue (cs_ue sess) (\<lambda>ue. ue\<lparr>cu_sess_list := remove1 s (cu_sess_list ue)\<rparr>) st
                    else st);
          let st = (case cs_ipv4 sess of None \<Rightarrow> st | Some a \<Rightarrow> st\<lparr>k_ipv4_hash := (k_ipv4_hash st)(a := None)\<rparr>);
          Some (st\<lparr>k_sess := (k_sess st)(s := None)\<rparr>) }"

text \<open>A session created from a parsed message, on the list of its UE, which is created as needed.\<close>

definition link_new_sess :: "nat \<times> coll_sess \<Rightarrow> coll_st \<Rightarrow> coll_st" where
  "link_new_sess = (\<lambda>(s, sess) st.
     st\<lparr>k_sess := (k_sess st)(s \<mapsto> sess),
        k_ues := (k_ues st)(cs_ue sess \<mapsto>
          (case k_ues st (cs_ue sess) of
             None \<Rightarrow> \<lparr>cu_coll = coll_zero, cu_sess_list = [s]\<rparr>
           | Some ue \<Rightarrow> ue\<lparr>cu_sess_list := cu_sess_list ue @ [s]\<rparr>))\<rparr>)"

definition smf_sess_upf_established :: "coll_sess \<Rightarrow> bool" where
  "smf_sess_upf_established sess \<longleftrightarrow> cs_pfcp_node sess \<noteq> None \<and> cs_upf_n4_seid sess \<noteq> 0"

definition smf_sess_find_collision_by_ipv4_gtp2 :: "gtp_msg \<Rightarrow> coll_st \<Rightarrow> nat option option" where
  "smf_sess_find_collision_by_ipv4_gtp2 m st =
     (case gm_paa m of
        None \<Rightarrow> Some None
      | Some paa \<Rightarrow>
          do { (rv, ipv4, addr) \<leftarrow> ogs_paa_to_ip paa;
               Some (if rv \<noteq> OGS_OK \<or> \<not> ipv4 then None else k_ipv4_hash st addr) })"

text \<open>The transition of the session's state machine to \<open>smf_gsm_state_wait_pfcp_deletion\<close>. The entry
  action asserts that the deletion request is sent, and for a 5GC session
  \<open>smf_5gc_pfcp_send_session_deletion_request\<close> asserts that the trigger, the \<open>h.sbi.state\<close> of the
  event, is not zero.\<close>

definition enter_wait_pfcp_deletion :: "coll_env \<Rightarrow> nat \<Rightarrow> nat \<Rightarrow> coll_st \<Rightarrow> coll_st option" where
  "enter_wait_pfcp_deletion env s trigger st =
     do { let st = upd_sess s (\<lambda>x. x\<lparr>cs_wait_pfcp_deletion := True\<rparr>) st;
          case smf_sess_find_active_by_id s st of
            None \<Rightarrow> Some st
          | Some sess \<Rightarrow>
              do { ogs_assert (cs_epc sess \<or> trigger \<noteq> 0);
                   ogs_assert (ce_pfcp_send env s);
                   Some (act (Pfcp_deletion_request s) st) } }"

section \<open>Collision replace\<close>

definition smf_ue_collision_clear :: "nat \<Rightarrow> coll_st \<Rightarrow> coll_st" where
  "smf_ue_collision_clear u st = upd_ue u (\<lambda>ue. ue\<lparr>cu_coll := coll_zero\<rparr>) st"

definition smf_ue_collision_replace_fail :: "coll_env \<Rightarrow> nat \<Rightarrow> coll_st \<Rightarrow> coll_st option" where
  "smf_ue_collision_replace_fail env u st =
     do { ue \<leftarrow> k_ues st u;
          let c = cu_coll ue;
          ogs_assert (cr_pending c);
          let st = (if ce_xact_find env (cr_gtp_xact_id c)
                    then act (Send_error (cr_gtp2 c) (cr_gtp_xact_id c)
                               (if cr_gtp2 c \<and> cr_peer_teid_presence c then cr_peer_teid c else 0)) st
                    else st);
          Some (smf_ue_collision_clear u st) }"

definition smf_ue_collision_abort :: "coll_env \<Rightarrow> nat \<Rightarrow> coll_st \<Rightarrow> coll_st option" where
  "smf_ue_collision_abort env u st =
     (case k_ues st u of
        None \<Rightarrow> Some st
      | Some ue \<Rightarrow> if cr_pending (cu_coll ue) then smf_ue_collision_replace_fail env u st else Some st)"

primrec coll_sess_remove_list :: "nat list \<Rightarrow> coll_st \<Rightarrow> coll_st option" where
  "coll_sess_remove_list [] st = Some st"
| "coll_sess_remove_list (s # ss) st = do { st \<leftarrow> smf_sess_remove s st; coll_sess_remove_list ss st }"

definition coll_ue_remove :: "coll_env \<Rightarrow> nat \<Rightarrow> coll_st \<Rightarrow> coll_st option" where
  "coll_ue_remove env u st =
     do { ue \<leftarrow> k_ues st u;
          st \<leftarrow> smf_ue_collision_abort env u st;
          st \<leftarrow> coll_sess_remove_list (cu_sess_list ue) st;
          Some (st\<lparr>k_ues := (k_ues st)(u := None)\<rparr>) }"

text \<open>The event that hands the request back.\<close>

definition bounce_event :: "nat \<Rightarrow> bytes option \<Rightarrow> smf_event" where
  "bounce_event gnode pkbuf =
     \<lparr>ev_id = SMF_EVT_S5C_MESSAGE, ev_gnode = gnode, ev_pkbuf = pkbuf, ev_reply_shard = 0, ev_xshard_done = True\<rparr>"

definition ue_remove_if_empty :: "coll_env \<Rightarrow> nat \<Rightarrow> coll_st \<Rightarrow> coll_st option" where
  "ue_remove_if_empty env u st =
     do { ue \<leftarrow> k_ues st u;
          if cu_sess_list ue = [] then coll_ue_remove env u st else Some st }"

text \<open>The last part of \<open>smf_sess_collision_replace_complete\<close>, for GTPv2 and GTPv1: the parked request
  is parsed again, its session is created and the request is dispatched to it.\<close>

definition replay_create :: "coll_env \<Rightarrow> nat \<Rightarrow> collision \<Rightarrow> bytes \<Rightarrow> coll_st \<Rightarrow> coll_st option" where
  "replay_create env u c pkbuf st =
     (case (if cr_gtp2 c then ce_gtp2_parse env pkbuf else ce_gtp1_parse env pkbuf) of
        None \<Rightarrow> smf_ue_collision_replace_fail env u st
      | Some m \<Rightarrow>
          (case ce_sess_add env m st of
             None \<Rightarrow> smf_ue_collision_replace_fail env u st
           | Some (s, sess) \<Rightarrow>
               let sess = (if cr_gtp_node c \<noteq> None then sess\<lparr>cs_gnode := cr_gtp_node c\<rparr> else sess);
                   sess = (if cr_gtp2 c \<and> cr_peer_teid_presence c
                           then sess\<lparr>cs_sgw_s5c_teid := cr_peer_teid c\<rparr> else sess);
                   st = link_new_sess (s, sess) st;
                   st = act (Dispatch (cr_gtp2 c) (cr_gtp_xact_id c) pkbuf s) st
               in Some (smf_ue_collision_clear u st)))"

definition smf_sess_collision_replace_complete :: "coll_env \<Rightarrow> nat \<Rightarrow> coll_st \<Rightarrow> coll_st option" where
  "smf_sess_collision_replace_complete env s st =
     (case smf_sess_find_active_by_id s st of
        None \<Rightarrow> Some st
      | Some sess \<Rightarrow>
          let u = cs_ue sess in
          case k_ues st u of
            None \<Rightarrow> smf_sess_remove s st
          | Some ue \<Rightarrow>
              let c = cu_coll ue in
              if \<not> cr_pending c then smf_sess_remove s st
              else do {
                st \<leftarrow> smf_sess_remove s st;
                if cr_bounce c
                then ue_remove_if_empty env u
                       (act (Push_shard (cr_bounce_shard c) (bounce_event (cr_bounce_gnode c) (cr_pkbuf c)))
                            (smf_ue_collision_clear u st))
                else do { pkbuf \<leftarrow> cr_pkbuf c; replay_create env u c pkbuf st } })"

definition park :: "smf_event \<Rightarrow> nat \<Rightarrow> bool \<Rightarrow> u32 option \<Rightarrow> coll_ue \<Rightarrow> coll_ue" where
  "park e gtp_xact_id gtp2 sender_f_teid ue =
     ue\<lparr>cu_coll := (cu_coll ue)\<lparr>cr_pending := True, cr_gtp2 := gtp2, cr_pkbuf := ev_pkbuf e,
         cr_gtp_xact_id := gtp_xact_id, cr_gtp_node := Some (ev_gnode e),
         cr_peer_teid_presence := gtp2 \<and> sender_f_teid \<noteq> None,
         cr_peer_teid := (if gtp2 then case sender_f_teid of Some t \<Rightarrow> t | None \<Rightarrow> 0 else 0)\<rparr>\<rparr>"

definition smf_sess_collision_replace_begin ::
    "coll_env \<Rightarrow> nat \<Rightarrow> nat \<Rightarrow> smf_event \<Rightarrow> nat \<Rightarrow> bool \<Rightarrow> u32 option \<Rightarrow> coll_st \<Rightarrow> (bool \<times> coll_st) option" where
  "smf_sess_collision_replace_begin env s u e gtp_xact_id gtp2 sender_f_teid st =
     do { sess \<leftarrow> k_sess st s;
          ue \<leftarrow> k_ues st u;
          ogs_assert (ev_pkbuf e \<noteq> None);
          if cr_pending (cu_coll ue)
          then Some (True,
            if ce_xact_find env gtp_xact_id
            then act (Send_error gtp2 gtp_xact_id
                       (if gtp2 then case sender_f_teid of Some t \<Rightarrow> t | None \<Rightarrow> 0 else 0)) st
            else st)
          else if \<not> ce_pkbuf_copy env then Some (False, st)
          else do {
            let st = upd_ue u (park e gtp_xact_id gtp2 sender_f_teid) st;
            let st = upd_sess s (\<lambda>x. x\<lparr>cs_collision_replace := True\<rparr>) st;
            st \<leftarrow> (if cs_wait_pfcp_deletion sess
                  then if ce_pfcp_send env s then Some (act (Pfcp_deletion_request s) st)
                       else smf_sess_collision_replace_complete env s st
                  else enter_wait_pfcp_deletion env s 0 st);
            Some (True, st) } }"

text \<open>\<open>smf_sess_collision_replace_begin_gtp2\<close> and \<open>_gtp1\<close>.\<close>

definition smf_sess_collision_replace_begin_gtp ::
    "coll_env \<Rightarrow> bool \<Rightarrow> nat \<Rightarrow> smf_event \<Rightarrow> nat \<Rightarrow> u32 option \<Rightarrow> coll_st \<Rightarrow> (bool \<times> coll_st) option" where
  "smf_sess_collision_replace_begin_gtp env gtp2 s e gtp_xact_id sender_f_teid st =
     (case smf_sess_find_active_by_id s st of
        None \<Rightarrow> Some (False, st)
      | Some sess \<Rightarrow>
          (case k_ues st (cs_ue sess) of
             None \<Rightarrow> Some (False, st)
           | Some _ \<Rightarrow>
               if \<not> smf_sess_upf_established sess then Some (False, st)
               else smf_sess_collision_replace_begin env s (cs_ue sess) e gtp_xact_id gtp2
                      (if gtp2 then sender_f_teid else None) st))"

definition smf_sess_collision_on_pfcp_delete_timeout :: "coll_env \<Rightarrow> nat \<Rightarrow> coll_st \<Rightarrow> coll_st option" where
  "smf_sess_collision_on_pfcp_delete_timeout env s st =
     do { sess \<leftarrow> k_sess st s;
          if \<not> cs_collision_replace sess then Some st
          else if smf_sess_find_active_by_id s st = None then Some st
          else smf_sess_collision_replace_complete env s st }"

text \<open>The session that an \<open>SMF_EVT_XSHARD_COLLISION\<close> event is about, when this shard may release it.\<close>

definition xshard_old_sess :: "coll_env \<Rightarrow> smf_event \<Rightarrow> coll_st \<Rightarrow> (nat \<times> coll_sess) option option" where
  "xshard_old_sess env e st =
     do { pkbuf \<leftarrow> ev_pkbuf e;
          case ce_gtp2_parse env pkbuf of
            None \<Rightarrow> Some None
          | Some m \<Rightarrow>
              if gm_type m \<noteq> OGS_GTP2_CREATE_SESSION_REQUEST_TYPE then Some None
              else do {
                old \<leftarrow> smf_sess_find_collision_by_ipv4_gtp2 m st;
                case old of
                  None \<Rightarrow> Some None
                | Some s \<Rightarrow>
                    do { sess \<leftarrow> k_sess st s;
                         if \<not> coll_owned_by_self env sess then Some None
                         else if cs_s11_relay sess \<and> \<not> ce_csr_is_s11 env m then Some None
                         else Some (Some (s, sess)) } } }"

text \<open>The end of \<open>smf_xshard_collision_release\<close>: the old session is removed at once unless it is gone
  or part of another replace, and the request goes back.\<close>

definition xshard_release_now ::
    "coll_env \<Rightarrow> smf_event \<Rightarrow> (nat \<times> coll_sess) option \<Rightarrow> coll_st \<Rightarrow> coll_st option" where
  "xshard_release_now env e old st =
     do { st \<leftarrow> (case old of
                  None \<Rightarrow> Some st
                | Some (s, sess) \<Rightarrow>
                    (case k_ues st (cs_ue sess) of
                       None \<Rightarrow> Some st
                     | Some _ \<Rightarrow>
                         if cs_collision_replace sess then Some st
                         else do { let st = (if cs_upf_n4_seid sess \<noteq> 0 then act (Pfcp_deletion_best_effort s) st else st);
                                   st \<leftarrow> smf_sess_remove s st;
                                   ue_remove_if_empty env (cs_ue sess) st }));
          Some (act (Push_shard (ev_reply_shard e) (bounce_event (ev_gnode e) (ev_pkbuf e))) st) }"

definition set_bounce :: "smf_event \<Rightarrow> coll_ue \<Rightarrow> coll_ue" where
  "set_bounce e ue =
     ue\<lparr>cu_coll := (cu_coll ue)\<lparr>cr_bounce := True, cr_bounce_shard := ev_reply_shard e, cr_bounce_gnode := ev_gnode e\<rparr>\<rparr>"

definition smf_xshard_collision_release :: "coll_env \<Rightarrow> smf_event \<Rightarrow> coll_st \<Rightarrow> coll_st option" where
  "smf_xshard_collision_release env e st =
     do { old \<leftarrow> xshard_old_sess env e st;
          case old of
            None \<Rightarrow> xshard_release_now env e None st
          | Some (s, sess) \<Rightarrow>
              (case k_ues st (cs_ue sess) of
                 None \<Rightarrow> xshard_release_now env e old st
               | Some ue \<Rightarrow>
                   if \<not> cs_s11_relay sess \<and> \<not> cr_pending (cu_coll ue) \<and> smf_sess_upf_established sess
                   then do { (begun, st) \<leftarrow> smf_sess_collision_replace_begin env s (cs_ue sess) e 0 True None st;
                             if begun
                             then do { _ \<leftarrow> k_ues st (cs_ue sess); Some (upd_ue (cs_ue sess) (set_bounce e) st) }
                             else xshard_release_now env e old st }
                   else xshard_release_now env e old st) }"

text \<open>The deletion response of the UPF. In \<open>smf_gsm_state_wait_pfcp_deletion\<close> the answer to an EPC
  transaction completes the replace of a session that is under collision replace. The answer to a
  5GC transaction, other sessions and other states of the session go their own way, which does not
  touch a parked request.\<close>

definition collision_deletion_response :: "coll_env \<Rightarrow> bool \<Rightarrow> nat \<Rightarrow> coll_st \<Rightarrow> coll_st option" where
  "collision_deletion_response env pfcp_xact_epc s st =
     (case smf_sess_find_active_by_id s st of
        None \<Rightarrow> Some st
      | Some sess \<Rightarrow>
          if cs_wait_pfcp_deletion sess \<and> pfcp_xact_epc \<and> cs_collision_replace sess
          then smf_sess_collision_replace_complete env s st else Some st)"

section \<open>Teardown of sessions\<close>

text \<open>The ways in which other parts of the SMF take a session away, a session under collision replace
  too. \<open>SMF_SESS_CLEAR\<close> takes the UE along when the session is its last one.\<close>

definition SMF_SESS_CLEAR :: "coll_env \<Rightarrow> nat \<Rightarrow> coll_st \<Rightarrow> coll_st option" where
  "SMF_SESS_CLEAR env s st =
     (case smf_sess_find_active_by_id s st of
        None \<Rightarrow> Some st
      | Some sess \<Rightarrow>
          (case k_ues st (cs_ue sess) of
             None \<Rightarrow> smf_sess_remove s st
           | Some ue \<Rightarrow> if length (cu_sess_list ue) = 1 then coll_ue_remove env (cs_ue sess) st else smf_sess_remove s st))"

definition pod_teardown_timeout_cb :: "coll_env \<Rightarrow> nat \<Rightarrow> coll_st \<Rightarrow> coll_st option" where
  "pod_teardown_timeout_cb env s st =
     (case k_sess st s of
        None \<Rightarrow> Some st
      | Some _ \<Rightarrow> SMF_SESS_CLEAR env s (if ce_pfcp_send env s then act (Pfcp_deletion_request s) st else st))"

definition sess_remove_with_ue :: "coll_env \<Rightarrow> nat \<Rightarrow> nat \<Rightarrow> coll_st \<Rightarrow> coll_st option" where
  "sess_remove_with_ue env s u st =
     do { st \<leftarrow> smf_sess_remove s (act (Pfcp_deletion_best_effort s) st);
          if k_ues st u = None then Some st else ue_remove_if_empty env u st }"

definition smf_admin_detach_one_session :: "coll_env \<Rightarrow> nat \<Rightarrow> bool \<Rightarrow> coll_st \<Rightarrow> coll_st option" where
  "smf_admin_detach_one_session env s admin_force st =
     do { sess \<leftarrow> k_sess st s;
          let u = cs_ue sess;
          let deletion = (if ce_pfcp_send env s then act (Pfcp_deletion_request s) st else st);
          if admin_force then sess_remove_with_ue env s u st
          else if cs_wait_pfcp_deletion sess
          then do { st \<leftarrow> smf_ue_collision_abort env u st; sess_remove_with_ue env s u st }
          else if \<not> cs_epc sess then Some (act (Pfcp_deletion_best_effort s) st)
          else if \<not> ce_default_bearer env s \<or> cs_gnode sess = None then Some deletion
          else if ce_delete_bearer env s then Some (act (Delete_bearer_request s) st)
          else Some deletion }"

end
