(* ===== verification/Smf_Collision_Inv.thy ===== *)
theory Smf_Collision_Inv
  imports Smf_Collision
begin

text \<open>
  The data structures of the collision replace: sessions are on the lists of their UEs and the
  addresses of the index belong to the sessions they find, which removing and adding a session
  keeps; and the ways in which a parked request is settled.
\<close>

section \<open>Invariant\<close>

text \<open>Sessions are on the list of their UE and only there, and the addresses of the index belong to
  the sessions they find.\<close>

definition base_ok :: "coll_st \<Rightarrow> bool" where
  "base_ok st \<longleftrightarrow>
     (\<forall>u ue. k_ues st u = Some ue \<longrightarrow> distinct (cu_sess_list ue)
        \<and> (\<forall>s\<in>set (cu_sess_list ue). \<exists>x. k_sess st s = Some x \<and> cs_ue x = u))
     \<and> (\<forall>s x. k_sess st s = Some x \<longrightarrow> (\<exists>ue. k_ues st (cs_ue x) = Some ue \<and> s \<in> set (cu_sess_list ue)))
     \<and> (\<forall>a s. k_ipv4_hash st a = Some s \<longrightarrow> (\<exists>x. k_sess st s = Some x \<and> cs_ipv4 x = Some a))"

lemma base_lists:
  assumes "base_ok st"
  shows "k_ues st u = Some ue \<Longrightarrow> distinct (cu_sess_list ue)"
    and "k_ues st u = Some ue \<Longrightarrow> s \<in> set (cu_sess_list ue) \<Longrightarrow> \<exists>x. k_sess st s = Some x \<and> cs_ue x = u"
    and "k_sess st s = Some x \<Longrightarrow> \<exists>ue. k_ues st (cs_ue x) = Some ue \<and> s \<in> set (cu_sess_list ue)"
    and "k_ipv4_hash st a = Some s \<Longrightarrow> \<exists>x. k_sess st s = Some x \<and> cs_ipv4 x = Some a"
  using assms unfolding base_ok_def by blast+

lemma find_active:
  assumes "base_ok st"
  shows "smf_sess_find_active_by_id s st = k_sess st s"
  using base_lists(3) [OF assms, of s]
  by (cases "k_sess st s") (auto simp: smf_sess_find_active_by_id_def)

lemma act_fields [simp]:
  "k_ues (act a st) = k_ues st" "k_sess (act a st) = k_sess st" "k_ipv4_hash (act a st) = k_ipv4_hash st"
  "k_log (act a st) = k_log st @ [a]"
  by (simp_all add: act_def)

lemma act_base [simp]: "base_ok (act a st) = base_ok st"
  by (simp add: base_ok_def)

lemma upd_fields [simp]:
  "k_ues (upd_ue u f st) = (k_ues st)(u := map_option f (k_ues st u))"
  "k_sess (upd_ue u f st) = k_sess st" "k_ipv4_hash (upd_ue u f st) = k_ipv4_hash st"
  "k_log (upd_ue u f st) = k_log st"
  "k_sess (upd_sess s g st) = (k_sess st)(s := map_option g (k_sess st s))"
  "k_ues (upd_sess s g st) = k_ues st" "k_ipv4_hash (upd_sess s g st) = k_ipv4_hash st"
  "k_log (upd_sess s g st) = k_log st"
  by (simp_all add: upd_ue_def upd_sess_def)

lemma upd_ue_base:
  assumes "base_ok st" "\<And>ue. cu_sess_list (f ue) = cu_sess_list ue"
  shows "base_ok (upd_ue u f st)"
  using assms unfolding base_ok_def by (auto split: if_splits) metis+

lemma upd_sess_base:
  assumes "base_ok st" "\<And>x. cs_ue (f x) = cs_ue x" "\<And>x. cs_ipv4 (f x) = cs_ipv4 x"
  shows "base_ok (upd_sess s f st)"
  using assms unfolding base_ok_def by (auto split: if_splits) metis+

lemma sess_remove:
  assumes "base_ok st" "k_sess st s = Some x"
  obtains st' ue where "smf_sess_remove s st = Some st'" "base_ok st'" "k_ues st (cs_ue x) = Some ue"
    "k_sess st' = (k_sess st)(s := None)" "k_log st' = k_log st"
    "k_ues st' = (k_ues st)(cs_ue x \<mapsto> ue\<lparr>cu_sess_list := remove1 s (cu_sess_list ue)\<rparr>)"
proof -
  obtain ue where ue: "k_ues st (cs_ue x) = Some ue" "s \<in> set (cu_sess_list ue)"
    using base_lists(3) [OF assms] by blast
  define h where "h = (case cs_ipv4 x of None \<Rightarrow> k_ipv4_hash st | Some a \<Rightarrow> (k_ipv4_hash st)(a := None))"
  define st' where "st' = st\<lparr>k_ues := (k_ues st)(cs_ue x \<mapsto> ue\<lparr>cu_sess_list := remove1 s (cu_sess_list ue)\<rparr>),
    k_ipv4_hash := h, k_sess := (k_sess st)(s := None)\<rparr>"
  have r: "smf_sess_remove s st = Some st'"
    by (cases "cs_ipv4 x") (simp_all add: smf_sess_remove_def assms(2) find_active [OF assms(1)] Let_def st'_def
        h_def upd_ue_def ue(1))
  have h_sub: "h a = Some t \<Longrightarrow> k_ipv4_hash st a = Some t" for a t
    by (simp add: h_def split: option.splits if_splits)
  have h_s: "h a \<noteq> Some s" for a
    using base_lists(4) [OF assms(1), of a s] assms(2) by (auto simp: h_def split: option.splits if_splits)
  have owner: "s \<notin> set (cu_sess_list ue')" if "k_ues st u = Some ue'" "u \<noteq> cs_ue x" for u ue'
    using base_lists(2) [OF assms(1) that(1), of s] assms(2) that(2) by auto
  have "base_ok st'"
    unfolding base_ok_def
  proof (intro conjI allI impI)
    fix u ue' assume "k_ues st' u = Some ue'"
    then show "distinct (cu_sess_list ue')"
      using base_lists(1) [OF assms(1)] ue(1) by (auto simp: st'_def split: if_splits)
  next
    fix u ue' assume "k_ues st' u = Some ue'"
    then show "\<forall>t\<in>set (cu_sess_list ue'). \<exists>y. k_sess st' t = Some y \<and> cs_ue y = u"
      using base_lists(1,2) [OF assms(1)] ue(1) owner by (fastforce simp: st'_def split: if_splits)
  next
    fix t y assume "k_sess st' t = Some y"
    then have "k_sess st t = Some y" "t \<noteq> s" by (auto simp: st'_def split: if_splits)
    then show "\<exists>ue'. k_ues st' (cs_ue y) = Some ue' \<and> t \<in> set (cu_sess_list ue')"
      using base_lists(3) [OF assms(1)] ue(1) by (fastforce simp: st'_def)
  next
    fix a t assume "k_ipv4_hash st' a = Some t"
    then have "h a = Some t" by (simp add: st'_def)
    then show "\<exists>y. k_sess st' t = Some y \<and> cs_ipv4 y = Some a"
      using base_lists(4) [OF assms(1) h_sub] h_s [of a] by (auto simp: st'_def)
  qed
  then show thesis using that [OF r] ue(1) by (simp add: st'_def)
qed

lemma link_base:
  assumes "base_ok st" "k_sess st s = None"
  shows "base_ok (link_new_sess (s, x) st)"
proof -
  have fresh: "s \<notin> set (cu_sess_list ue)" if "k_ues st v = Some ue" for v ue
    using base_lists(2) [OF assms(1) that, of s] assms(2) by auto
  let ?ue = "case k_ues st (cs_ue x) of None \<Rightarrow> \<lparr>cu_coll = coll_zero, cu_sess_list = [s]\<rparr>
           | Some ue \<Rightarrow> ue\<lparr>cu_sess_list := cu_sess_list ue @ [s]\<rparr>"
  have f: "k_sess (link_new_sess (s, x) st) = (k_sess st)(s \<mapsto> x)"
    "k_ues (link_new_sess (s, x) st) = (k_ues st)(cs_ue x \<mapsto> ?ue)"
    "k_ipv4_hash (link_new_sess (s, x) st) = k_ipv4_hash st"
    by (simp_all add: link_new_sess_def)
  have l: "set (cu_sess_list ?ue) = insert s (case k_ues st (cs_ue x) of None \<Rightarrow> {} | Some ue \<Rightarrow> set (cu_sess_list ue))"
    "distinct (cu_sess_list ?ue)"
    using fresh base_lists(1) [OF assms(1)] by (auto split: option.splits)
  show ?thesis
    unfolding base_ok_def f
  proof (intro conjI allI impI)
    fix v ue assume v: "((k_ues st)(cs_ue x \<mapsto> ?ue)) v = Some ue"
    then show "distinct (cu_sess_list ue)" using l(2) base_lists(1) [OF assms(1)] by (auto split: if_splits)
    show "\<forall>t\<in>set (cu_sess_list ue). \<exists>y. ((k_sess st)(s \<mapsto> x)) t = Some y \<and> cs_ue y = v"
    proof (cases "v = cs_ue x")
      case True
      then show ?thesis using v l(1) base_lists(2) [OF assms(1)] fresh by (fastforce split: option.splits if_splits)
    next
      case False
      then show ?thesis using v base_lists(2) [OF assms(1)] fresh [of v] by (fastforce split: if_splits)
    qed
  next
    fix t y assume "((k_sess st)(s \<mapsto> x)) t = Some y"
    then show "\<exists>ue. ((k_ues st)(cs_ue x \<mapsto> ?ue)) (cs_ue y) = Some ue \<and> t \<in> set (cu_sess_list ue)"
      using l(1) base_lists(3) [OF assms(1), of t y] by (auto split: if_splits option.splits)
  next
    fix a t assume "k_ipv4_hash st a = Some t"
    then show "\<exists>y. ((k_sess st)(s \<mapsto> x)) t = Some y \<and> cs_ipv4 y = Some a"
      using base_lists(4) [OF assms(1), of a t] assms(2) by auto
  qed
qed

section \<open>How requests end\<close>

text \<open>What the model assumes of the creation of a session: its id is not in use, and it is not under
  collision replace.\<close>

definition add_ok :: "coll_env \<Rightarrow> bool" where
  "add_ok env \<longleftrightarrow>
     (\<forall>m st s x. ce_sess_add env m st = Some (s, x) \<longrightarrow> k_sess st s = None \<and> \<not> cs_collision_replace x)"

text \<open>How a parked request ends: it is handed back, dispatched to its new session, or answered with an
  error when its transaction still exists.\<close>

definition fail_acts :: "coll_env \<Rightarrow> collision \<Rightarrow> coll_act list" where
  "fail_acts env c =
     (if ce_xact_find env (cr_gtp_xact_id c)
      then [Send_error (cr_gtp2 c) (cr_gtp_xact_id c)
             (if cr_gtp2 c \<and> cr_peer_teid_presence c then cr_peer_teid c else 0)] else [])"

definition settled_by :: "coll_env \<Rightarrow> collision \<Rightarrow> bytes \<Rightarrow> coll_act list \<Rightarrow> bool" where
  "settled_by env c pkbuf acts \<longleftrightarrow>
     (if cr_bounce c
      then acts = [Push_shard (cr_bounce_shard c) (bounce_event (cr_bounce_gnode c) (Some pkbuf))]
      else (\<exists>s. acts = [Dispatch (cr_gtp2 c) (cr_gtp_xact_id c) pkbuf s]) \<or> acts = fail_acts env c)"

definition not_parked :: "coll_st \<Rightarrow> nat \<Rightarrow> bool" where
  "not_parked st u \<longleftrightarrow> (case k_ues st u of None \<Rightarrow> True | Some ue \<Rightarrow> cu_coll ue = coll_zero)"

lemma xshard_old:
  assumes "xshard_old_sess env e st = Some (Some (s, x))"
  shows "k_sess st s = Some x"
  using assms
  by (auto simp: xshard_old_sess_def bind_eq_Some_conv split: option.splits if_splits)

end
