(* ===== verification/Smf_Collision_Run.thy ===== *)
theory Smf_Collision_Run
  imports Smf_Collision_Inv
begin

text \<open>
  What the operations of the collision replace and the teardown of sessions do to the requests that
  are parked, whichever calls fail and whichever sessions disappear: the effect of each operation on
  the parked requests, the marks of the sessions and the log, and the steps of the SMF put together
  from them.
\<close>

section \<open>Parked requests and marks\<close>

definition colls :: "coll_st \<Rightarrow> nat \<Rightarrow> collision option" where
  "colls st u = map_option cu_coll (k_ues st u)"

definition lists :: "coll_st \<Rightarrow> nat \<Rightarrow> nat list option" where
  "lists st u = map_option cu_sess_list (k_ues st u)"

definition pend :: "coll_st \<Rightarrow> nat \<Rightarrow> bool" where
  "pend st u \<longleftrightarrow> (\<exists>c. colls st u = Some c \<and> cr_pending c)"

text \<open>A session of the UE that is under collision replace.\<close>

definition marked_of :: "coll_st \<Rightarrow> nat \<Rightarrow> nat \<Rightarrow> bool" where
  "marked_of st u s \<longleftrightarrow> (\<exists>x. k_sess st s = Some x \<and> cs_ue x = u \<and> cs_collision_replace x)"

text \<open>A request is parked and no session is left whose deletion would settle it.\<close>

definition stranded :: "coll_st \<Rightarrow> nat \<Rightarrow> bool" where
  "stranded st u \<longleftrightarrow> pend st u \<and> (\<forall>s. \<not> marked_of st u s)"

text \<open>Nothing happens to the UEs outside of \<open>U\<close>, except that UEs may be created.\<close>

definition calm :: "nat set \<Rightarrow> coll_st \<Rightarrow> coll_st \<Rightarrow> bool" where
  "calm U st st' \<longleftrightarrow> (\<forall>v. v \<notin> U \<longrightarrow>
     (colls st' v = colls st v \<or> colls st v = None \<and> colls st' v = Some coll_zero)
     \<and> (\<forall>s. marked_of st' v s \<longleftrightarrow> marked_of st v s))"

definition weak_ok :: "coll_st \<Rightarrow> bool" where
  "weak_ok st \<longleftrightarrow> base_ok st \<and> (\<forall>u c. colls st u = Some c \<and> cr_pending c \<longrightarrow> cr_pkbuf c \<noteq> None)"

lemma calm_trans:
  assumes "calm U st st1" "calm U st1 st2"
  shows "calm U st st2"
  using assms unfolding calm_def by metis

lemma calm_mono: "calm U st st' \<Longrightarrow> U \<subseteq> V \<Longrightarrow> calm V st st'"
  unfolding calm_def by blast

lemma calmD:
  assumes "calm U st st'" "u \<notin> U"
  shows "colls st u = Some c \<Longrightarrow> colls st' u = Some c"
    and "colls st' u = Some c \<Longrightarrow> cr_pending c \<Longrightarrow> colls st u = Some c"
    and "marked_of st' u s \<longleftrightarrow> marked_of st u s"
proof -
  have c: "(colls st' u = colls st u \<or> colls st u = None \<and> colls st' u = Some coll_zero)
     \<and> (\<forall>s. marked_of st' u s \<longleftrightarrow> marked_of st u s)" using assms unfolding calm_def by blast
  then show "colls st u = Some c \<Longrightarrow> colls st' u = Some c" "marked_of st' u s \<longleftrightarrow> marked_of st u s" by auto
  show "colls st' u = Some c \<Longrightarrow> cr_pending c \<Longrightarrow> colls st u = Some c" using c by (auto simp: coll_zero_def)
qed

lemma weakD: "weak_ok st \<Longrightarrow> base_ok st" "weak_ok st \<Longrightarrow> colls st u = Some c \<Longrightarrow> cr_pending c \<Longrightarrow> cr_pkbuf c \<noteq> None"
  unfolding weak_ok_def by blast+

lemma calm_refl [simp]: "calm U st st"
  by (simp add: calm_def)

lemma view_act [simp]: "colls (act a st) = colls st" "lists (act a st) = lists st" "marked_of (act a st) = marked_of st"
  by (simp_all add: colls_def lists_def marked_of_def fun_eq_iff)

lemma calm_act [simp]: "calm U (act a st) st' = calm U st st'" "calm U st (act a st') = calm U st st'"
  by (simp_all add: calm_def)

lemma pend_act [simp]: "pend (act a st) = pend st" by (simp add: pend_def fun_eq_iff)

lemma view_ue: "k_ues st u = Some ue \<Longrightarrow> colls st u = Some (cu_coll ue)" "k_ues st u = Some ue \<Longrightarrow> lists st u = Some (cu_sess_list ue)"
  by (simp_all add: colls_def lists_def)

lemma collsD: "colls st u = Some c \<Longrightarrow> \<exists>ue. k_ues st u = Some ue \<and> cu_coll ue = c"
  by (auto simp: colls_def)

lemma marked_cong: "k_sess st' = k_sess st \<Longrightarrow> marked_of st' = marked_of st"
  by (simp add: marked_of_def fun_eq_iff)

lemma sess_ue:
  assumes "base_ok st" "k_sess st s = Some x"
  obtains ue where "k_ues st (cs_ue x) = Some ue" "s \<in> set (cu_sess_list ue)"
  using base_lists(3) [OF assms] by blast

section \<open>Effects of the operations\<close>

lemma remove_effect:
  assumes "base_ok st" "k_sess st s = Some x"
  obtains st' where "smf_sess_remove s st = Some st'" "base_ok st'" "colls st' = colls st"
    "lists st' = (lists st)(cs_ue x := map_option (remove1 s) (lists st (cs_ue x)))"
    "k_sess st' = (k_sess st)(s := None)" "k_log st' = k_log st" "calm {cs_ue x} st st'"
    "\<not> cs_collision_replace x \<Longrightarrow> calm {} st st'" "\<forall>t. marked_of st' (cs_ue x) t \<longleftrightarrow> marked_of st (cs_ue x) t \<and> t \<noteq> s"
proof -
  obtain st' ue where r: "smf_sess_remove s st = Some st'" "base_ok st'" "k_ues st (cs_ue x) = Some ue"
    "k_sess st' = (k_sess st)(s := None)" "k_log st' = k_log st"
    "k_ues st' = (k_ues st)(cs_ue x \<mapsto> ue\<lparr>cu_sess_list := remove1 s (cu_sess_list ue)\<rparr>)"
    by (rule sess_remove [OF assms])
  have v: "colls st' = colls st" "lists st' = (lists st)(cs_ue x := map_option (remove1 s) (lists st (cs_ue x)))"
    using r(3) by (auto simp: r(6) colls_def lists_def)
  have m: "marked_of st' w t \<longleftrightarrow> marked_of st w t \<and> t \<noteq> s" for w t
    by (auto simp: marked_of_def r(4))
  have own: "marked_of st w s \<Longrightarrow> w = cs_ue x \<and> cs_collision_replace x" for w
    using assms(2) by (auto simp: marked_of_def)
  have "calm {cs_ue x} st st'" using own by (auto simp: calm_def v(1) m)
  moreover have "\<not> cs_collision_replace x \<Longrightarrow> calm {} st st'" using own by (auto simp: calm_def v(1) m)
  ultimately show thesis using that r(1,2,4,5) v m by simp
qed

lemma upd_ue_view:
  assumes "\<And>ue. cu_sess_list (f ue) = cu_sess_list ue"
  shows "lists (upd_ue u f st) = lists st" "marked_of (upd_ue u f st) = marked_of st" "calm {u} st (upd_ue u f st)"
proof -
  show "lists (upd_ue u f st) = lists st"
    using assms by (auto simp: lists_def fun_eq_iff option.map_comp comp_def)
  show m: "marked_of (upd_ue u f st) = marked_of st" by (rule marked_cong) simp
  show "calm {u} st (upd_ue u f st)" by (simp add: calm_def m colls_def)
qed

lemma clear_effect:
  assumes "base_ok st" "colls st u = Some c"
  shows "base_ok (smf_ue_collision_clear u st)" "colls (smf_ue_collision_clear u st) = (colls st)(u \<mapsto> coll_zero)"
    "lists (smf_ue_collision_clear u st) = lists st" "k_sess (smf_ue_collision_clear u st) = k_sess st"
    "k_log (smf_ue_collision_clear u st) = k_log st" "calm {u} st (smf_ue_collision_clear u st)"
proof -
  let ?f = "\<lambda>ue. ue\<lparr>cu_coll := coll_zero\<rparr>"
  show "base_ok (smf_ue_collision_clear u st)"
    unfolding smf_ue_collision_clear_def by (rule upd_ue_base [OF assms(1)]) simp
  show "colls (smf_ue_collision_clear u st) = (colls st)(u \<mapsto> coll_zero)"
    using collsD [OF assms(2)] by (auto simp: smf_ue_collision_clear_def colls_def)
  show "lists (smf_ue_collision_clear u st) = lists st" "calm {u} st (smf_ue_collision_clear u st)"
    unfolding smf_ue_collision_clear_def by (rule upd_ue_view; simp)+
  show "k_sess (smf_ue_collision_clear u st) = k_sess st" "k_log (smf_ue_collision_clear u st) = k_log st"
    by (simp_all add: smf_ue_collision_clear_def)
qed

lemma fail_effect:
  assumes "base_ok st" "colls st u = Some c" "cr_pending c"
  obtains st' where "smf_ue_collision_replace_fail env u st = Some st'" "base_ok st'"
    "colls st' = (colls st)(u \<mapsto> coll_zero)" "lists st' = lists st" "k_sess st' = k_sess st"
    "k_log st' = k_log st @ fail_acts env c" "calm {u} st st'"
proof -
  obtain ue where ue: "k_ues st u = Some ue" "cu_coll ue = c" using collsD [OF assms(2)] by blast
  define st0 where "st0 = (if ce_xact_find env (cr_gtp_xact_id c)
    then act (Send_error (cr_gtp2 c) (cr_gtp_xact_id c) (if cr_gtp2 c \<and> cr_peer_teid_presence c then cr_peer_teid c else 0)) st
    else st)"
  have s0: "base_ok st0" "colls st0 u = Some c" "colls st0 = colls st" "lists st0 = lists st" "k_sess st0 = k_sess st"
    "k_log st0 = k_log st @ fail_acts env c" "calm {u} st st0"
    using assms by (simp_all add: st0_def fail_acts_def)
  have "smf_ue_collision_replace_fail env u st = Some (smf_ue_collision_clear u st0)"
    using ue assms(3) by (simp add: smf_ue_collision_replace_fail_def st0_def Let_def)
  then show thesis
    using that clear_effect [OF s0(1,2)] s0(3-7) calm_trans by metis
qed

text \<open>\<open>done_acts\<close>: what is logged when the UE is given up with or without a request parked on it.\<close>

definition done_acts :: "coll_env \<Rightarrow> collision \<Rightarrow> coll_act list" where
  "done_acts env c = (if cr_pending c then fail_acts env c else [])"

lemma abort_effect:
  assumes "base_ok st" "colls st u = Some c"
  obtains st' where "smf_ue_collision_abort env u st = Some st'" "base_ok st'"
    "colls st' = (colls st)(u \<mapsto> (if cr_pending c then coll_zero else c))" "lists st' = lists st" "k_sess st' = k_sess st"
    "k_log st' = k_log st @ done_acts env c" "calm {u} st st'"
proof -
  obtain ue where ue: "k_ues st u = Some ue" "cu_coll ue = c" using collsD [OF assms(2)] by blast
  show thesis
  proof (cases "cr_pending c")
    case True
    obtain st' where "smf_ue_collision_replace_fail env u st = Some st'" "base_ok st'"
      "colls st' = (colls st)(u \<mapsto> coll_zero)" "lists st' = lists st" "k_sess st' = k_sess st"
      "k_log st' = k_log st @ fail_acts env c" "calm {u} st st'" by (rule fail_effect [OF assms True])
    then show thesis using that ue True by (simp add: smf_ue_collision_abort_def done_acts_def)
  next
    case False
    have "(colls st)(u \<mapsto> c) = colls st" using assms(2) by auto
    then show thesis using that [of st] assms(1) ue False by (simp add: smf_ue_collision_abort_def done_acts_def)
  qed
qed

lemma remove_list_effect:
  assumes "base_ok st" "lists st u = Some ss"
  shows "\<exists>st'. coll_sess_remove_list ss st = Some st' \<and> base_ok st' \<and> colls st' = colls st \<and> lists st' u = Some []
    \<and> k_log st' = k_log st \<and> calm {u} st st'"
  using assms
proof (induction ss arbitrary: st)
  case Nil
  then show ?case by simp
next
  case (Cons s ss)
  obtain ue where "k_ues st u = Some ue" "cu_sess_list ue = s # ss" using Cons.prems(2) by (auto simp: lists_def)
  then obtain x where x: "k_sess st s = Some x" "cs_ue x = u" using base_lists(2) [OF Cons.prems(1), of u ue s] by auto
  obtain st1 where st1: "smf_sess_remove s st = Some st1" "base_ok st1" "colls st1 = colls st"
    "lists st1 = (lists st)(u := map_option (remove1 s) (lists st u))" "k_log st1 = k_log st" "calm {u} st st1"
    using remove_effect [OF Cons.prems(1) x(1)] x(2) by metis
  have "lists st1 u = Some ss" using st1(4) Cons.prems(2) by simp
  from Cons.IH [OF st1(2) this] obtain st2 where "coll_sess_remove_list ss st1 = Some st2" "base_ok st2"
    "colls st2 = colls st1" "lists st2 u = Some []" "k_log st2 = k_log st1" "calm {u} st1 st2" by blast
  then show ?case using st1 calm_trans [OF st1(6)] by auto
qed

lemma ue_remove_effect:
  assumes "base_ok st" "colls st u = Some c"
  obtains st' where "coll_ue_remove env u st = Some st'" "base_ok st'" "colls st' u = None"
    "k_log st' = k_log st @ done_acts env c" "calm {u} st st'"
proof -
  obtain ue where ue: "k_ues st u = Some ue" "cu_coll ue = c" using collsD [OF assms(2)] by blast
  obtain st1 where st1: "smf_ue_collision_abort env u st = Some st1" "base_ok st1" "lists st1 = lists st"
    "k_log st1 = k_log st @ done_acts env c" "calm {u} st st1" by (rule abort_effect [OF assms])
  have "lists st1 u = Some (cu_sess_list ue)" using st1(3) view_ue(2) [OF ue(1)] by simp
  from remove_list_effect [OF st1(2) this] obtain st2 where st2: "coll_sess_remove_list (cu_sess_list ue) st1 = Some st2"
    "base_ok st2" "lists st2 u = Some []" "k_log st2 = k_log st1" "calm {u} st1 st2" by blast
  let ?st = "st2\<lparr>k_ues := (k_ues st2)(u := None)\<rparr>"
  obtain ue2 where ue2: "k_ues st2 u = Some ue2" "cu_sess_list ue2 = []" using st2(3) by (auto simp: lists_def)
  have none: "cs_ue x \<noteq> u" if "k_sess st2 s = Some x" for s x
    using base_lists(3) [OF st2(2) that] ue2 by auto
  have "base_ok ?st" unfolding base_ok_def
    using st2(2) none base_lists [OF st2(2)] by (simp add: base_ok_def)
  moreover have "marked_of ?st = marked_of st2" by (rule marked_cong) simp
  then have "calm {u} st2 ?st" by (simp add: calm_def colls_def)
  then have "calm {u} st ?st" using calm_trans [OF st1(5) calm_trans [OF st2(5)]] by blast
  moreover have "colls ?st u = None" by (simp add: colls_def)
  ultimately show thesis using that [of ?st] ue(1) st1(1,4) st2(1,4) by (simp add: coll_ue_remove_def)
qed

lemma remove_if_empty_effect:
  assumes "base_ok st" "colls st u = Some c"
  obtains st' where "ue_remove_if_empty env u st = Some st'" "base_ok st'" "calm {u} st st'"
    "st' = st \<or> colls st' u = None \<and> k_log st' = k_log st @ done_acts env c"
proof -
  obtain ue where ue: "k_ues st u = Some ue" using collsD [OF assms(2)] by blast
  obtain st' where r: "coll_ue_remove env u st = Some st'" "base_ok st'" "colls st' u = None"
    "k_log st' = k_log st @ done_acts env c" "calm {u} st st'" by (rule ue_remove_effect [OF assms])
  show thesis
  proof (cases "cu_sess_list ue = []")
    case True
    then have "ue_remove_if_empty env u st = Some st'" using ue r(1) by (simp add: ue_remove_if_empty_def)
    then show thesis by (rule that) (simp_all add: r)
  next
    case False
    then have "ue_remove_if_empty env u st = Some st" using ue by (simp add: ue_remove_if_empty_def)
    then show thesis by (rule that) (simp_all add: assms(1))
  qed
qed

text \<open>A session that is added is not under collision replace; its UE may be new.\<close>

lemma link_effect:
  assumes "base_ok st" "k_sess st s = None" "\<not> cs_collision_replace x"
  shows "base_ok (link_new_sess (s, x) st)" "calm {} st (link_new_sess (s, x) st)"
    "k_log (link_new_sess (s, x) st) = k_log st"
    "colls st u = Some c \<Longrightarrow> colls (link_new_sess (s, x) st) u = Some c"
proof -
  show "base_ok (link_new_sess (s, x) st)" by (rule link_base [OF assms(1,2)])
  have m: "marked_of (link_new_sess (s, x) st) = marked_of st"
    using assms(2,3) by (auto simp: marked_of_def link_new_sess_def fun_eq_iff)
  then show "calm {} st (link_new_sess (s, x) st)"
    by (auto simp: calm_def colls_def link_new_sess_def split: option.splits)
  show "k_log (link_new_sess (s, x) st) = k_log st"
    "colls st u = Some c \<Longrightarrow> colls (link_new_sess (s, x) st) u = Some c"
    by (auto simp: colls_def link_new_sess_def)
qed

text \<open>The parked request of \<open>u\<close> is settled: nothing else changes, and nothing is parked on the UE, which
  only disappears when the request is handed back.\<close>

definition settles :: "coll_env \<Rightarrow> nat \<Rightarrow> collision \<Rightarrow> bytes \<Rightarrow> coll_st \<Rightarrow> coll_st \<Rightarrow> bool" where
  "settles env u c pk st st' \<longleftrightarrow> base_ok st' \<and> calm {u} st st'
     \<and> (\<exists>acts. k_log st' = k_log st @ acts \<and> settled_by env c pk acts)
     \<and> (colls st' u = Some coll_zero \<or> cr_bounce c \<and> colls st' u = None)"

lemma replay_effect:
  assumes "base_ok st" "add_ok env" "colls st u = Some c" "cr_pending c" "\<not> cr_bounce c"
  shows "\<exists>st'. replay_create env u c pk st = Some st' \<and> settles env u c pk st st'"
proof -
  obtain st0 where "smf_ue_collision_replace_fail env u st = Some st0" "base_ok st0"
    "colls st0 = (colls st)(u \<mapsto> coll_zero)" "k_log st0 = k_log st @ fail_acts env c" "calm {u} st st0"
    by (rule fail_effect [OF assms(1,3,4)])
  then have f: "\<exists>st'. smf_ue_collision_replace_fail env u st = Some st' \<and> settles env u c pk st st'"
    using assms(5) by (simp add: settles_def settled_by_def)
  show ?thesis
  proof (cases "if cr_gtp2 c then ce_gtp2_parse env pk else ce_gtp1_parse env pk")
    case None
    then show ?thesis using f by (simp add: replay_create_def)
  next
    case (Some m)
    show ?thesis
    proof (cases "ce_sess_add env m st")
      case None
      then show ?thesis using f Some by (simp add: replay_create_def)
    next
      case add: (Some sx)
      obtain s x where sx: "sx = (s, x)" by (cases sx)
      have fresh: "k_sess st s = None" "\<not> cs_collision_replace x" using assms(2) add unfolding add_ok_def sx by blast+
      define x1 where "x1 = (if cr_gtp_node c \<noteq> None then x\<lparr>cs_gnode := cr_gtp_node c\<rparr> else x)"
      define x2 where "x2 = (if cr_gtp2 c \<and> cr_peer_teid_presence c then x1\<lparr>cs_sgw_s5c_teid := cr_peer_teid c\<rparr> else x1)"
      define st1 where "st1 = act (Dispatch (cr_gtp2 c) (cr_gtp_xact_id c) pk s) (link_new_sess (s, x2) st)"
      have r: "replay_create env u c pk st = Some (smf_ue_collision_clear u st1)"
        unfolding replay_create_def Some option.case add sx prod.case Let_def x1_def [symmetric] x2_def [symmetric]
          st1_def ..
      have "\<not> cs_collision_replace x2" using fresh(2) by (simp add: x2_def x1_def)
      note l = link_effect [OF assms(1) fresh(1) this]
      have s1: "base_ok st1" "colls st1 u = Some c" "calm {u} st st1"
        using l(1,4) assms(3) calm_mono [OF l(2)] by (simp_all add: st1_def)
      have "k_log st1 = k_log st @ [Dispatch (cr_gtp2 c) (cr_gtp_xact_id c) pk s]" using l(3) by (simp add: st1_def)
      then have "settles env u c pk st (smf_ue_collision_clear u st1)"
        using clear_effect [OF s1(1,2)] calm_trans [OF s1(3)] assms(5) by (auto simp: settles_def settled_by_def)
      then show ?thesis using r by blast
    qed
  qed
qed

lemma complete_effect:
  assumes "base_ok st" "add_ok env" "k_sess st s = Some x" "colls st (cs_ue x) = Some c"
    and "cr_pending c" "cr_pkbuf c = Some pk"
  shows "\<exists>st'. smf_sess_collision_replace_complete env s st = Some st' \<and> settles env (cs_ue x) c pk st st'"
proof -
  let ?u = "cs_ue x"
  obtain ue where ue: "k_ues st ?u = Some ue" "cu_coll ue = c" using collsD [OF assms(4)] by blast
  obtain st1 where st1: "smf_sess_remove s st = Some st1" "base_ok st1" "colls st1 = colls st" "k_log st1 = k_log st"
    "calm {?u} st st1" by (rule remove_effect [OF assms(1,3)])
  have c1: "colls st1 ?u = Some c" using st1(3) assms(4) by simp
  show ?thesis
  proof (cases "cr_bounce c")
    case False
    obtain st' where "replay_create env ?u c pk st1 = Some st'" "settles env ?u c pk st1 st'"
      using replay_effect [OF st1(2) assms(2) c1 assms(5) False, of pk] by blast
    then show ?thesis
      using assms(3,5,6) ue False st1(1,4) calm_trans [OF st1(5)]
      by (auto simp: smf_sess_collision_replace_complete_def find_active [OF assms(1)] settles_def)
  next
    case True
    define a where "a = Push_shard (cr_bounce_shard c) (bounce_event (cr_bounce_gnode c) (cr_pkbuf c))"
    define st2 where "st2 = act a (smf_ue_collision_clear ?u st1)"
    note cl = clear_effect [OF st1(2) c1]
    have st2: "base_ok st2" "colls st2 ?u = Some coll_zero" "k_log st2 = k_log st @ [a]" "calm {?u} st st2"
      using cl st1(4) calm_trans [OF st1(5)] by (simp_all add: st2_def)
    obtain st3 where st3: "ue_remove_if_empty env ?u st2 = Some st3" "base_ok st3" "calm {?u} st2 st3"
      "st3 = st2 \<or> colls st3 ?u = None \<and> k_log st3 = k_log st2 @ done_acts env coll_zero"
      by (rule remove_if_empty_effect [OF st2(1,2)])
    have "settles env ?u c pk st st3"
      using st3(2-4) st2(2,3) calm_trans [OF st2(4)] True assms(6)
      by (auto simp: settles_def settled_by_def a_def done_acts_def coll_zero_def)
    moreover have "smf_sess_collision_replace_complete env s st = Some st3"
      using assms(3,5) ue st1(1) st3(1) True
      by (simp add: smf_sess_collision_replace_complete_def find_active [OF assms(1)] a_def st2_def)
    ultimately show ?thesis by blast
  qed
qed

text \<open>Without a parked request the session just goes.\<close>

lemma complete_idle:
  assumes "base_ok st" "k_sess st s = Some x" "colls st (cs_ue x) = Some c" "\<not> cr_pending c"
  shows "\<exists>st'. smf_sess_collision_replace_complete env s st = Some st' \<and> base_ok st' \<and> calm {cs_ue x} st st'
    \<and> colls st' = colls st \<and> k_log st' = k_log st"
proof -
  obtain ue where ue: "k_ues st (cs_ue x) = Some ue" "cu_coll ue = c" using collsD [OF assms(3)] by blast
  obtain st1 where "smf_sess_remove s st = Some st1" "base_ok st1" "colls st1 = colls st" "k_log st1 = k_log st"
    "calm {cs_ue x} st st1" by (rule remove_effect [OF assms(1,2)])
  then show ?thesis
    using assms(2,4) ue by (simp add: smf_sess_collision_replace_complete_def find_active [OF assms(1)])
qed

text \<open>A UE has a parked request only with its packet and with a session under collision replace.\<close>

definition in_order :: "coll_st \<Rightarrow> nat \<Rightarrow> bool" where
  "in_order st u \<longleftrightarrow> (\<forall>c. colls st u = Some c \<and> cr_pending c \<longrightarrow> cr_pkbuf c \<noteq> None \<and> (\<exists>s. marked_of st u s))"

lemma in_order_act [simp]: "in_order (act a st) = in_order st"
  by (simp add: in_order_def fun_eq_iff)

lemma in_order_zero: "colls st u = None \<or> colls st u = Some coll_zero \<Longrightarrow> in_order st u"
  by (auto simp: in_order_def coll_zero_def)

lemma upd_sess_effect:
  assumes "base_ok st" "k_sess st s = Some x" "\<And>y. cs_ue (f y) = cs_ue y" "\<And>y. cs_ipv4 (f y) = cs_ipv4 y"
  shows "base_ok (upd_sess s f st)" "colls (upd_sess s f st) = colls st" "calm {cs_ue x} st (upd_sess s f st)"
    "marked_of (upd_sess s f st) (cs_ue x) s \<longleftrightarrow> cs_collision_replace (f x)"
    "(\<And>y. cs_collision_replace (f y) = cs_collision_replace y) \<Longrightarrow> calm {} st (upd_sess s f st)"
proof -
  show "base_ok (upd_sess s f st)" by (rule upd_sess_base [OF assms(1,3,4)])
  show c: "colls (upd_sess s f st) = colls st" by (simp add: colls_def fun_eq_iff)
  show "calm {cs_ue x} st (upd_sess s f st)" "marked_of (upd_sess s f st) (cs_ue x) s \<longleftrightarrow> cs_collision_replace (f x)"
    using assms(2,3) by (auto simp: calm_def c marked_of_def)
  show "(\<And>y. cs_collision_replace (f y) = cs_collision_replace y) \<Longrightarrow> calm {} st (upd_sess s f st)"
    using assms(2,3) by (auto simp: calm_def c marked_of_def)
qed

text \<open>The state with the request parked and its session marked.\<close>

lemma park_effect:
  assumes "base_ok st" "k_sess st s = Some x" "k_ues st (cs_ue x) = Some ue" "ev_pkbuf e = Some pk"
    and st1_def: "st1 = upd_sess s (\<lambda>y. y\<lparr>cs_collision_replace := True\<rparr>) (upd_ue (cs_ue x) (park e i g t) st)"
  shows "base_ok st1" "calm {cs_ue x} st st1" "k_sess st1 s = Some (x\<lparr>cs_collision_replace := True\<rparr>)"
    "colls st1 (cs_ue x) = Some (cu_coll (park e i g t ue))" "marked_of st1 (cs_ue x) s"
    "cr_pending (cu_coll (park e i g t ue))" "cr_pkbuf (cu_coll (park e i g t ue)) = Some pk" "k_log st1 = k_log st"
proof -
  let ?st = "upd_ue (cs_ue x) (park e i g t) st"
  have p: "cu_sess_list (park e i g t y) = cu_sess_list y" for y by (simp add: park_def)
  have b: "base_ok ?st" by (rule upd_ue_base [OF assms(1) p])
  have x: "k_sess ?st s = Some x" using assms(2) by simp
  note f = upd_sess_effect [OF b x, of "\<lambda>y. y\<lparr>cs_collision_replace := True\<rparr>"]
  show "base_ok st1" "marked_of st1 (cs_ue x) s" using f(1,4) by (simp_all add: st1_def)
  show "calm {cs_ue x} st st1" using calm_trans [OF upd_ue_view(3) [OF p]] f(3) by (simp add: st1_def)
  show "k_sess st1 s = Some (x\<lparr>cs_collision_replace := True\<rparr>)" "k_log st1 = k_log st"
    using assms(2) by (simp_all add: st1_def)
  show "colls st1 (cs_ue x) = Some (cu_coll (park e i g t ue))" using assms(3) by (simp add: colls_def st1_def)
  show "cr_pending (cu_coll (park e i g t ue))" "cr_pkbuf (cu_coll (park e i g t ue)) = Some pk"
    using assms(4) by (simp_all add: park_def)
qed

lemma begin_effect:
  assumes "base_ok st" "add_ok env" "k_sess st s = Some x"
    and "smf_sess_collision_replace_begin env s (cs_ue x) e i g t st = Some (b, st')"
  shows "base_ok st'" "\<not> b \<Longrightarrow> st' = st"
    and "pend st (cs_ue x) \<Longrightarrow> calm {} st st'"
    and "\<not> pend st (cs_ue x) \<Longrightarrow> calm {cs_ue x} st st' \<and> in_order st' (cs_ue x)"
proof -
  let ?u = "cs_ue x"
  obtain ue where ue: "k_ues st ?u = Some ue" by (rule sess_ue [OF assms(1,3)])
  have pe: "pend st ?u \<longleftrightarrow> cr_pending (cu_coll ue)" using view_ue(1) [OF ue] by (simp add: pend_def)
  obtain pk where pk: "ev_pkbuf e = Some pk"
    using assms(3,4) ue by (auto simp: smf_sess_collision_replace_begin_def bind_eq_Some_conv split: if_splits)
  have idle: "\<not> pend st ?u \<Longrightarrow> in_order st ?u" by (auto simp: in_order_def pend_def)
  have "base_ok st' \<and> (\<not> b \<longrightarrow> st' = st) \<and> (pend st ?u \<longrightarrow> calm {} st st')
    \<and> (\<not> pend st ?u \<longrightarrow> calm {?u} st st' \<and> in_order st' ?u)"
  proof (cases "cr_pending (cu_coll ue) \<or> \<not> ce_pkbuf_copy env")
    case True
    then show ?thesis
      using assms(1,3,4) pk ue pe idle by (auto simp: smf_sess_collision_replace_begin_def split: if_splits)
  next
    case False
    define st1 where "st1 = upd_sess s (\<lambda>y. y\<lparr>cs_collision_replace := True\<rparr>) (upd_ue ?u (park e i g t) st)"
    note p = park_effect [OF assms(1,3) ue pk st1_def]
    have o1: "in_order st1 ?u" using p(4,5,7) by (auto simp: in_order_def)
    have "base_ok st' \<and> b \<and> calm {?u} st1 st' \<and> in_order st' ?u"
    proof (cases "cs_wait_pfcp_deletion x")
      case True
      obtain st2 where st2: "smf_sess_collision_replace_complete env s st1 = Some st2"
        "settles env ?u (cu_coll (park e i g t ue)) pk st1 st2"
        using complete_effect [OF p(1) assms(2) p(3), of _ pk] p(4,6,7) by auto
      then have "base_ok st2" "calm {?u} st1 st2" "in_order st2 ?u"
        by (auto simp: settles_def intro: in_order_zero)
      then show ?thesis
        using assms(3,4) ue pk False True st2(1) p(1) o1
        by (auto simp: smf_sess_collision_replace_begin_def Let_def st1_def [symmetric] split: if_splits)
    next
      case wait: False
      let ?st = "upd_sess s (\<lambda>y. y\<lparr>cs_wait_pfcp_deletion := True\<rparr>) st1"
      note w = upd_sess_effect [OF p(1,3), of "\<lambda>y. y\<lparr>cs_wait_pfcp_deletion := True\<rparr>"]
      have w': "base_ok ?st" "calm {} st1 ?st" "colls ?st = colls st1" using w(1,2,5) by simp_all
      have "marked_of ?st v t = marked_of st1 v t" for v t using w'(2) by (simp add: calm_def)
      then have "in_order ?st ?u" using o1 by (auto simp: in_order_def w'(3))
      moreover have "enter_wait_pfcp_deletion env s 0 st1 = Some st'" b
        using assms(3,4) ue pk False wait
        by (auto simp: smf_sess_collision_replace_begin_def st1_def Let_def bind_eq_Some_conv)
      ultimately show ?thesis
        using p(3) w'(1) calm_mono [OF w'(2)]
        by (auto simp: enter_wait_pfcp_deletion_def find_active [OF w'(1)] split: if_splits)
    qed
    then show ?thesis using calm_trans [OF p(2)] pe False by blast
  qed
  then show "base_ok st'" "\<not> b \<Longrightarrow> st' = st" "pend st ?u \<Longrightarrow> calm {} st st'"
    "\<not> pend st ?u \<Longrightarrow> calm {?u} st st' \<and> in_order st' ?u" by blast+
qed

section \<open>Steps\<close>

text \<open>The end of a parked request: it is settled, or given up with an error to its transaction when that
  still exists.\<close>

definition ended :: "coll_env \<Rightarrow> collision \<Rightarrow> coll_st \<Rightarrow> coll_st \<Rightarrow> nat \<Rightarrow> bool" where
  "ended env c st st' u \<longleftrightarrow> \<not> pend st' u
     \<and> (\<exists>pk pre acts post. cr_pkbuf c = Some pk \<and> k_log st' = k_log st @ pre @ acts @ post
          \<and> (settled_by env c pk acts \<or> acts = fail_acts env c))"

text \<open>What a step of the component does: the requests it touches end, and those it parks are in
  order.\<close>

definition own_result :: "coll_env \<Rightarrow> coll_st \<Rightarrow> coll_st \<Rightarrow> bool" where
  "own_result env st st' \<longleftrightarrow> base_ok st' \<and> (\<exists>U. calm U st st'
     \<and> (\<forall>u\<in>U. in_order st' u \<and> (\<forall>c. colls st u = Some c \<and> cr_pending c \<longrightarrow> ended env c st st' u)))"

lemma own_calm: "base_ok st' \<Longrightarrow> calm {} st st' \<Longrightarrow> own_result env st st'"
  unfolding own_result_def by blast

lemma own_one:
  assumes "base_ok st'" "calm {u} st st'" "in_order st' u"
    and "\<And>c. colls st u = Some c \<Longrightarrow> cr_pending c \<Longrightarrow> ended env c st st' u"
  shows "own_result env st st'"
  unfolding own_result_def using assms by (intro conjI exI [of _ "{u}"]) auto

lemma settles_own:
  assumes "settles env u c pk st st'" "colls st u = Some c" "cr_pkbuf c = Some pk"
  shows "own_result env st st'"
proof (rule own_one)
  have z: "colls st' u = None \<or> colls st' u = Some coll_zero" using assms(1) by (auto simp: settles_def)
  show "base_ok st'" "calm {u} st st'" using assms(1) by (simp_all add: settles_def)
  show "in_order st' u" by (rule in_order_zero [OF z])
  fix c' assume "colls st u = Some c'"
  moreover obtain acts where "k_log st' = k_log st @ acts" "settled_by env c pk acts"
    using assms(1) by (auto simp: settles_def)
  moreover have "\<not> pend st' u" using z by (auto simp: pend_def coll_zero_def)
  ultimately show "ended env c' st st' u"
    using assms(2,3) unfolding ended_def
    by (intro conjI exI [of _ pk] exI [of _ "[]"] exI [of _ acts]) auto
qed

lemma complete_own:
  assumes "weak_ok st" "add_ok env" "smf_sess_collision_replace_complete env s st = Some st'"
  shows "own_result env st st'"
proof (cases "k_sess st s")
  case None
  have b: "base_ok st" by (rule weakD(1) [OF assms(1)])
  then have "st' = st" using None assms(3) by (simp add: smf_sess_collision_replace_complete_def find_active)
  then show ?thesis using b by (simp add: own_calm)
next
  case (Some x)
  have b: "base_ok st" by (rule weakD(1) [OF assms(1)])
  obtain ue where ue: "k_ues st (cs_ue x) = Some ue" by (rule sess_ue [OF b Some])
  note c = view_ue(1) [OF ue]
  show ?thesis
  proof (cases "cr_pending (cu_coll ue)")
    case True
    then obtain pk where pk: "cr_pkbuf (cu_coll ue) = Some pk" using assms(1) c by (auto simp: weak_ok_def)
    from complete_effect [OF b assms(2) Some c True pk] show ?thesis
      using assms(3) settles_own [OF _ c pk] by auto
  next
    case False
    then show ?thesis
      using complete_idle [OF b Some c False, of env] assms(3) c
      by (intro own_one [of st' "cs_ue x"]) (auto simp: in_order_def)
  qed
qed

lemma begin_own:
  assumes "base_ok st" "add_ok env" "smf_sess_collision_replace_begin_gtp env g s e i t st = Some (b, st')"
  shows "own_result env st st'"
proof -
  consider "st' = st" | x t' where "k_sess st s = Some x" "smf_sess_collision_replace_begin env s (cs_ue x) e i g t' st = Some (b, st')"
    using assms(1,3) by (auto simp: smf_sess_collision_replace_begin_gtp_def find_active split: option.splits if_splits)
  then show ?thesis
  proof cases
    case (2 x t')
    note be = begin_effect [OF assms(1,2) 2]
    show ?thesis
    proof (cases "pend st (cs_ue x)")
      case True
      then show ?thesis using be(1,3) by (simp add: own_calm)
    next
      case False
      then show ?thesis using be(1,4) by (intro own_one [of st' "cs_ue x"]) (auto simp: pend_def)
    qed
  qed (simp add: own_calm assms(1))
qed

text \<open>A UE that is left without sessions is given up, and a request parked on it with it.\<close>

lemma gone_ended:
  assumes "\<not> pend st' u" "k_log st' = k_log st @ pre @ done_acts env c @ post" "cr_pending c" "cr_pkbuf c \<noteq> None"
  shows "ended env c st st' u"
proof -
  obtain pk where "cr_pkbuf c = Some pk" using assms(4) by blast
  then show ?thesis using assms(1-3) unfolding ended_def done_acts_def
    by (intro conjI exI [of _ pk] exI [of _ pre] exI [of _ "fail_acts env c"] exI [of _ post]) simp_all
qed

lemma release_now_own:
  assumes "weak_ok st" "old = None \<or> old = Some (s, x) \<and> k_sess st s = Some x"
    and "xshard_release_now env e old st = Some st'"
  shows "own_result env st st'"
proof -
  let ?P = "Push_shard (ev_reply_shard e) (bounce_event (ev_gnode e) (ev_pkbuf e))"
  have b: "base_ok st" by (rule weakD(1) [OF assms(1)])
  show ?thesis
  proof (cases "old = None \<or> cs_collision_replace x")
    case True
    then have "st' = act ?P st"
      using assms(2,3) sess_ue [OF b] by (auto simp: xshard_release_now_def split: option.splits)
    then show ?thesis using b by (simp add: own_calm)
  next
    case False
    then have old: "old = Some (s, x)" "k_sess st s = Some x" "\<not> cs_collision_replace x" using assms(2) by auto
    let ?u = "cs_ue x"
    obtain ue where ue: "k_ues st ?u = Some ue" by (rule sess_ue [OF b old(2)])
    define pre where "pre = (if cs_upf_n4_seid x \<noteq> 0 then [Pfcp_deletion_best_effort s] else [])"
    define st0 where "st0 = (if cs_upf_n4_seid x \<noteq> 0 then act (Pfcp_deletion_best_effort s) st else st)"
    have st0: "base_ok st0" "k_sess st0 s = Some x" "colls st0 = colls st" "k_log st0 = k_log st @ pre" "calm {} st st0"
      using b old(2) by (simp_all add: st0_def pre_def)
    obtain st1 where st1: "smf_sess_remove s st0 = Some st1" "base_ok st1" "colls st1 = colls st0" "k_log st1 = k_log st0"
      "calm {} st0 st1" using remove_effect [OF st0(1,2)] old(3) by metis
    have c1: "colls st1 ?u = Some (cu_coll ue)" using view_ue(1) [OF ue] st1(3) st0(3) by simp
    have calm1: "calm {} st st1" using calm_trans [OF st0(5) st1(5)] .
    obtain st2 where st2: "ue_remove_if_empty env ?u st1 = Some st2" "base_ok st2" "calm {?u} st1 st2"
      "st2 = st1 \<or> colls st2 ?u = None \<and> k_log st2 = k_log st1 @ done_acts env (cu_coll ue)"
      by (rule remove_if_empty_effect [OF st1(2) c1])
    have st': "st' = act ?P st2"
      using assms(3) old ue st1(1) st2(1) by (simp add: xshard_release_now_def st0_def [symmetric] Let_def)
    show ?thesis
    proof (cases "st2 = st1")
      case True
      then show ?thesis using st' st1(2) calm1 by (simp add: own_calm)
    next
      case ne: False
      then have g: "colls st2 ?u = None" "k_log st' = k_log st @ pre @ done_acts env (cu_coll ue) @ [?P]"
        using st2(4) st1(4) st0(4) by (auto simp: st')
      show ?thesis
      proof (rule own_one)
        show "base_ok st'" "in_order st' ?u" using st2(2) g(1) by (simp_all add: st' in_order_zero)
        show "calm {?u} st st'" using calm_trans [OF calm_mono [OF calm1] st2(3)] by (simp add: st')
        fix c assume "colls st ?u = Some c" "cr_pending c"
        then show "ended env c st st' ?u"
          using gone_ended [of st' ?u st pre env c "[?P]"] g assms(1) view_ue(1) [OF ue]
          by (auto simp: st' weak_ok_def pend_def)
      qed
    qed
  qed
qed

lemma bounce_own:
  assumes "base_ok st1" "calm {u} st st1" "in_order st1 u" "\<not> pend st u"
  shows "own_result env st (upd_ue u (set_bounce e) st1)"
proof (rule own_one)
  have l: "cu_sess_list (set_bounce e y) = cu_sess_list y" for y by (simp add: set_bounce_def)
  show "base_ok (upd_ue u (set_bounce e) st1)" by (rule upd_ue_base [OF assms(1) l])
  show "calm {u} st (upd_ue u (set_bounce e) st1)" using calm_trans [OF assms(2) upd_ue_view(3) [OF l]] .
  show "in_order (upd_ue u (set_bounce e) st1) u"
    using assms(3) by (auto simp: in_order_def upd_ue_view(2) [OF l] colls_def set_bounce_def)
  show "ended env c st (upd_ue u (set_bounce e) st1) u" if "colls st u = Some c" "cr_pending c" for c
    using assms(4) that by (simp add: pend_def)
qed

lemma release_own:
  assumes "weak_ok st" "add_ok env" "smf_xshard_collision_release env e st = Some st'"
  shows "own_result env st st'"
proof -
  have b: "base_ok st" by (rule weakD(1) [OF assms(1)])
  obtain old where old: "xshard_old_sess env e st = Some old"
    using assms(3) by (auto simp: smf_xshard_collision_release_def bind_eq_Some_conv)
  show ?thesis
  proof (cases old)
    case None
    then show ?thesis
      using assms(3) release_now_own [OF assms(1), of None] by (simp add: smf_xshard_collision_release_def old)
  next
    case (Some sx)
    obtain s x where sx: "sx = (s, x)" by (cases sx)
    have x: "k_sess st s = Some x" using old Some sx xshard_old by blast
    obtain ue where ue: "k_ues st (cs_ue x) = Some ue" by (rule sess_ue [OF b x])
    note now = release_now_own [OF assms(1), of "Some (s, x)" s x env e st']
    show ?thesis
    proof (cases "\<not> cs_s11_relay x \<and> \<not> cr_pending (cu_coll ue) \<and> smf_sess_upf_established x")
      case False
      then show ?thesis using assms(3) now x ue by (auto simp: smf_xshard_collision_release_def old Some sx)
    next
      case True
      then obtain begun st1 where bg: "smf_sess_collision_replace_begin env s (cs_ue x) e 0 True None st = Some (begun, st1)"
        using assms(3) ue by (auto simp: smf_xshard_collision_release_def old Some sx bind_eq_Some_conv)
      note be = begin_effect [OF b assms(2) x bg]
      have np: "\<not> pend st (cs_ue x)" using True view_ue(1) [OF ue] by (simp add: pend_def)
      show ?thesis
      proof (cases begun)
        case False
        then show ?thesis using assms(3) now x ue True bg be(2)
          by (auto simp: smf_xshard_collision_release_def old Some sx)
      next
        case begun: True
        then have "st' = upd_ue (cs_ue x) (set_bounce e) st1"
          using assms(3) ue True bg by (auto simp: smf_xshard_collision_release_def old Some sx bind_eq_Some_conv)
        then show ?thesis using bounce_own [OF be(1)] be(4) [OF np] np by blast
      qed
    qed
  qed
qed

text \<open>What the teardown of sessions does: a request stays parked as it is or ends, none is parked, and no
  session is marked.\<close>

definition down_result :: "coll_env \<Rightarrow> coll_st \<Rightarrow> coll_st \<Rightarrow> bool" where
  "down_result env st st' \<longleftrightarrow> base_ok st' \<and> (\<exists>U. calm U st st' \<and> (\<forall>u\<in>U. \<forall>c.
     (colls st' u = Some c \<and> cr_pending c \<longrightarrow> colls st u = Some c \<and> (\<forall>s. marked_of st' u s \<longrightarrow> marked_of st u s))
     \<and> (colls st u = Some c \<and> cr_pending c \<longrightarrow> colls st' u = Some c \<or> ended env c st st' u)))"

lemma down_same: "base_ok st' \<Longrightarrow> calm {} st st' \<Longrightarrow> down_result env st st'"
  unfolding down_result_def by blast

lemma down_one:
  assumes "base_ok st'" "calm {u} st st'" "weak_ok st" "colls st u = Some c"
    and "colls st' u = Some c \<and> (\<forall>s. marked_of st' u s \<longrightarrow> marked_of st u s)
      \<or> \<not> pend st' u \<and> (\<exists>pre post. k_log st' = k_log st @ pre @ done_acts env c @ post)"
  shows "down_result env st st'"
proof -
  have "ended env c st st' u" if "cr_pending c" "\<not> pend st' u" "k_log st' = k_log st @ pre @ done_acts env c @ post" for pre post
    using gone_ended [OF that(2,3,1)] assms(3,4) that(1) by (auto simp: weak_ok_def)
  then show ?thesis
    unfolding down_result_def using assms(1,2,4,5)
    by (intro conjI exI [of _ "{u}"]) (auto simp: pend_def)
qed

lemma remove_down:
  assumes "weak_ok st" "smf_sess_remove s st = Some st'"
  shows "down_result env st st'"
proof -
  have b: "base_ok st" by (rule weakD(1) [OF assms(1)])
  obtain x where x: "k_sess st s = Some x" using assms(2) by (auto simp: smf_sess_remove_def bind_eq_Some_conv)
  obtain ue where ue: "k_ues st (cs_ue x) = Some ue" by (rule sess_ue [OF b x])
  obtain st1 where "smf_sess_remove s st = Some st1" "base_ok st1" "colls st1 = colls st" "calm {cs_ue x} st st1"
    "\<forall>t. marked_of st1 (cs_ue x) t \<longleftrightarrow> marked_of st (cs_ue x) t \<and> t \<noteq> s" by (rule remove_effect [OF b x])
  then show ?thesis using assms view_ue(1) [OF ue] by (intro down_one [of st' "cs_ue x"]) auto
qed

lemma ue_remove_down:
  assumes "weak_ok st" "coll_ue_remove env u st = Some st'"
  shows "down_result env st st'"
proof -
  have b: "base_ok st" by (rule weakD(1) [OF assms(1)])
  obtain c where c: "colls st u = Some c" using assms(2) by (auto simp: coll_ue_remove_def colls_def bind_eq_Some_conv)
  obtain st1 where "coll_ue_remove env u st = Some st1" "base_ok st1" "colls st1 u = None"
    "k_log st1 = k_log st @ done_acts env c" "calm {u} st st1" by (rule ue_remove_effect [OF b c])
  then show ?thesis using assms c
    by (intro down_one [of st' u _ c]) (auto simp: pend_def intro: exI [of _ "[]"])
qed

lemma clear_down:
  assumes "weak_ok st" "SMF_SESS_CLEAR env s st = Some st'"
  shows "down_result env st st'"
  using assms remove_down [OF assms(1), of s st' env] ue_remove_down [OF assms(1), of env _ st']
  by (auto simp: SMF_SESS_CLEAR_def weak_ok_def intro: down_same split: option.splits if_splits)

lemma weak_act [simp]: "weak_ok (act a st) = weak_ok st"
  by (simp add: weak_ok_def)

lemma down_act:
  assumes "down_result env (act a st) st'"
  shows "down_result env st st'"
proof -
  have e: "ended env c (act a st) st' u \<Longrightarrow> ended env c st st' u" for c u
    unfolding ended_def by (metis act_fields(4) append.assoc)
  show ?thesis using assms e unfolding down_result_def calm_act view_act by blast
qed

lemma pod_down:
  assumes "weak_ok st" "pod_teardown_timeout_cb env s st = Some st'"
  shows "down_result env st st'"
  using assms clear_down [of st env s st'] clear_down [of "act (Pfcp_deletion_request s) st" env s st']
  by (auto simp: pod_teardown_timeout_cb_def weak_ok_def intro: down_same down_act split: option.splits if_splits)

lemma with_ue_effect:
  assumes "base_ok st" "k_sess st s = Some x" "colls st (cs_ue x) = Some c"
  obtains st' where "sess_remove_with_ue env s (cs_ue x) st = Some st'" "base_ok st'" "calm {cs_ue x} st st'"
    "colls st' (cs_ue x) = Some c \<and> (\<forall>t. marked_of st' (cs_ue x) t \<longleftrightarrow> marked_of st (cs_ue x) t \<and> t \<noteq> s)
       \<and> k_log st' = k_log st @ [Pfcp_deletion_best_effort s]
     \<or> colls st' (cs_ue x) = None \<and> lists st (cs_ue x) = Some [s]
       \<and> k_log st' = k_log st @ [Pfcp_deletion_best_effort s] @ done_acts env c"
proof -
  let ?u = "cs_ue x" and ?st = "act (Pfcp_deletion_best_effort s) st"
  obtain ue where ue: "k_ues st ?u = Some ue" "s \<in> set (cu_sess_list ue)" by (rule sess_ue [OF assms(1,2)])
  have b: "base_ok ?st" "k_sess ?st s = Some x" using assms(1,2) by simp_all
  obtain st1 where st1: "smf_sess_remove s ?st = Some st1" "base_ok st1" "colls st1 = colls ?st"
    "lists st1 = (lists ?st)(?u := map_option (remove1 s) (lists ?st ?u))" "k_log st1 = k_log ?st" "calm {?u} ?st st1"
    "\<forall>t. marked_of st1 ?u t \<longleftrightarrow> marked_of ?st ?u t \<and> t \<noteq> s"
    by (rule remove_effect [OF b])
  have c1: "colls st1 ?u = Some c" using st1(3) assms(3) by simp
  obtain st2 where st2: "ue_remove_if_empty env ?u st1 = Some st2" "base_ok st2" "calm {?u} st1 st2"
    "st2 = st1 \<or> colls st2 ?u = None \<and> k_log st2 = k_log st1 @ done_acts env c"
    by (rule remove_if_empty_effect [OF st1(2) c1])
  obtain ue1 where ue1: "k_ues st1 ?u = Some ue1" using collsD [OF c1] by blast
  have r: "sess_remove_with_ue env s ?u st = Some st2" using st1(1) st2(1) ue1 by (simp add: sess_remove_with_ue_def)
  have cs: "calm {?u} st st2" using calm_trans [OF st1(6) st2(3)] by simp
  show thesis
  proof (cases "st2 = st1")
    case True
    then show thesis using that [OF r st2(2) cs] c1 st1(5,7) by simp
  next
    case False
    then have g: "colls st2 ?u = None" "k_log st2 = k_log st1 @ done_acts env c" using st2(4) by auto
    have "cu_sess_list ue1 = remove1 s (cu_sess_list ue)"
      using st1(4) view_ue(2) [OF ue1] view_ue(2) [OF ue(1)] by simp
    moreover have "cu_sess_list ue1 = []" using st2(1) ue1 False by (auto simp: ue_remove_if_empty_def split: if_splits)
    ultimately have "remove1 s (cu_sess_list ue) = []" by simp
    then have "cu_sess_list ue = [s]" using ue(2) by (cases "cu_sess_list ue") (auto split: if_splits)
    then have "lists st ?u = Some [s]" using view_ue(2) [OF ue(1)] by simp
    then show thesis using that [OF r st2(2) cs] g st1(5) by simp
  qed
qed

lemma detach_down:
  assumes "weak_ok st" "smf_admin_detach_one_session env s admin_force st = Some st'"
  shows "down_result env st st'"
proof -
  have b: "base_ok st" by (rule weakD(1) [OF assms(1)])
  obtain x where x: "k_sess st s = Some x" using assms(2) by (auto simp: smf_admin_detach_one_session_def bind_eq_Some_conv)
  let ?u = "cs_ue x"
  obtain ue where ue: "k_ues st ?u = Some ue" by (rule sess_ue [OF b x])
  note c = view_ue(1) [OF ue]
  consider (force) admin_force | (wait) "\<not> admin_force" "cs_wait_pfcp_deletion x" | (other) "\<not> admin_force" "\<not> cs_wait_pfcp_deletion x"
    by blast
  then show ?thesis
  proof cases
    case force
    obtain st1 where "sess_remove_with_ue env s ?u st = Some st1" "base_ok st1" "calm {?u} st st1"
      "colls st1 ?u = Some (cu_coll ue) \<and> (\<forall>t. marked_of st1 ?u t \<longleftrightarrow> marked_of st ?u t \<and> t \<noteq> s)
         \<and> k_log st1 = k_log st @ [Pfcp_deletion_best_effort s]
       \<or> colls st1 ?u = None \<and> lists st ?u = Some [s]
         \<and> k_log st1 = k_log st @ [Pfcp_deletion_best_effort s] @ done_acts env (cu_coll ue)"
      by (rule with_ue_effect [OF b x c])
    then show ?thesis using assms x force c
      by (intro down_one [of st' ?u _ "cu_coll ue"])
        (auto simp: smf_admin_detach_one_session_def pend_def intro: exI [of _ "[_]"])
  next
    case wait
    obtain st0 where st0: "smf_ue_collision_abort env ?u st = Some st0" "base_ok st0"
      "colls st0 = (colls st)(?u \<mapsto> (if cr_pending (cu_coll ue) then coll_zero else cu_coll ue))" "k_sess st0 = k_sess st"
      "k_log st0 = k_log st @ done_acts env (cu_coll ue)" "calm {?u} st st0" by (rule abort_effect [OF b c])
    define c0 where "c0 = (if cr_pending (cu_coll ue) then coll_zero else cu_coll ue)"
    have c0: "colls st0 ?u = Some c0" "\<not> cr_pending c0" "done_acts env c0 = []" "k_sess st0 s = Some x"
      using st0(3,4) x by (simp_all add: c0_def coll_zero_def done_acts_def)
    obtain st1 where st1: "sess_remove_with_ue env s ?u st0 = Some st1" "base_ok st1" "calm {?u} st0 st1"
      "colls st1 ?u = Some c0 \<or> colls st1 ?u = None" "\<exists>post. k_log st1 = k_log st0 @ post"
      by (rule with_ue_effect [OF st0(2) c0(4,1), of env]) auto
    have "\<not> pend st1 ?u" using st1(4) c0(2) by (auto simp: pend_def)
    moreover have "st' = st1" using assms(2) x wait st0(1) st1(1) by (simp add: smf_admin_detach_one_session_def)
    ultimately show ?thesis
      using st1(2,5) calm_trans [OF st0(6) st1(3)] assms(1) c st0(5)
      by (intro down_one [of st' ?u _ "cu_coll ue"]) (auto intro: exI [of _ "[]"])
  next
    case other
    then show ?thesis
      using assms(2) x b by (intro down_same) (auto simp: smf_admin_detach_one_session_def Let_def split: if_splits)
  qed
qed

text \<open>The steps of the component: collisions, release requests of other shards, the answers and time-outs
  of deletions, whichever calls fail, and what happens to sessions in between: they are added, get
  an address and change their state.\<close>

inductive own_step :: "coll_env \<Rightarrow> coll_st \<Rightarrow> coll_st \<Rightarrow> bool" for env where
  collide: "smf_sess_collision_replace_begin_gtp env g s e i t st = Some (b, st') \<Longrightarrow> own_step env st st'"
| release: "smf_xshard_collision_release env e st = Some st' \<Longrightarrow> own_step env st st'"
| response: "collision_deletion_response env epc s st = Some st' \<Longrightarrow> own_step env st st'"
| expiry: "smf_sess_collision_on_pfcp_delete_timeout env s st = Some st' \<Longrightarrow> own_step env st st'"
| add: "k_sess st s = None \<Longrightarrow> \<not> cs_collision_replace x \<Longrightarrow> own_step env st (link_new_sess (s, x) st)"
| address: "k_sess st s = Some x \<Longrightarrow>
     own_step env st (upd_sess s (\<lambda>x. x\<lparr>cs_ipv4 := Some a\<rparr>)
       (st\<lparr>k_ipv4_hash := (\<lambda>b. if k_ipv4_hash st b = Some s then None else k_ipv4_hash st b)(a \<mapsto> s)\<rparr>))"
| update: "(\<And>x. cs_ue (f x) = cs_ue x \<and> cs_ipv4 (f x) = cs_ipv4 x \<and> cs_collision_replace (f x) = cs_collision_replace x) \<Longrightarrow>
     own_step env st (upd_sess s f st)"

text \<open>The steps that take sessions away, those under collision replace too: \<open>SMF_SESS_CLEAR\<close>, the
  time-out of a RADIUS disconnect, the detach by an administrator, the removal of a UE, and every
  other call of \<open>smf_sess_remove\<close>.\<close>

inductive down_step :: "coll_env \<Rightarrow> coll_st \<Rightarrow> coll_st \<Rightarrow> bool" for env where
  clear: "SMF_SESS_CLEAR env s st = Some st' \<Longrightarrow> down_step env st st'"
| pod: "pod_teardown_timeout_cb env s st = Some st' \<Longrightarrow> down_step env st st'"
| detach: "smf_admin_detach_one_session env s admin_force st = Some st' \<Longrightarrow> down_step env st st'"
| remove_ue: "coll_ue_remove env u st = Some st' \<Longrightarrow> down_step env st st'"
| remove: "smf_sess_remove s st = Some st' \<Longrightarrow> down_step env st st'"

inductive coll_reach :: "coll_st \<Rightarrow> bool" where
  init: "coll_reach \<lparr>k_ues = Map.empty, k_sess = Map.empty, k_ipv4_hash = Map.empty, k_log = []\<rparr>"
| own: "coll_reach st \<Longrightarrow> add_ok env \<Longrightarrow> own_step env st st' \<Longrightarrow> coll_reach st'"
| down: "coll_reach st \<Longrightarrow> down_step env st st' \<Longrightarrow> coll_reach st'"

lemma address_own:
  assumes "base_ok st" "k_sess st s = Some x"
  shows "own_result env st (upd_sess s (\<lambda>x. x\<lparr>cs_ipv4 := Some a\<rparr>)
    (st\<lparr>k_ipv4_hash := (\<lambda>b. if k_ipv4_hash st b = Some s then None else k_ipv4_hash st b)(a \<mapsto> s)\<rparr>))" (is "own_result env st ?st")
proof -
  have k: "k_sess ?st = (k_sess st)(s \<mapsto> x\<lparr>cs_ipv4 := Some a\<rparr>)" "k_ues ?st = k_ues st"
    "k_ipv4_hash ?st = (\<lambda>b. if k_ipv4_hash st b = Some s then None else k_ipv4_hash st b)(a \<mapsto> s)"
    using assms(2) by simp_all
  have sess: "((k_sess st)(s \<mapsto> x\<lparr>cs_ipv4 := Some a\<rparr>)) t = Some y \<Longrightarrow> \<exists>y0. k_sess st t = Some y0 \<and> cs_ue y0 = cs_ue y"
    for t y using assms(2) by (auto split: if_splits)
  have "base_ok ?st"
    unfolding base_ok_def k
  proof (intro conjI allI impI ballI)
    fix u ue assume u: "k_ues st u = Some ue"
    show "distinct (cu_sess_list ue)" using base_lists(1) [OF assms(1) u] .
    fix t assume "t \<in> set (cu_sess_list ue)"
    then show "\<exists>y. ((k_sess st)(s \<mapsto> x\<lparr>cs_ipv4 := Some a\<rparr>)) t = Some y \<and> cs_ue y = u"
      using base_lists(2) [OF assms(1) u] assms(2) by fastforce
  next
    fix t y assume "((k_sess st)(s \<mapsto> x\<lparr>cs_ipv4 := Some a\<rparr>)) t = Some y"
    then show "\<exists>ue. k_ues st (cs_ue y) = Some ue \<and> t \<in> set (cu_sess_list ue)"
      using sess base_lists(3) [OF assms(1)] by metis
  next
    fix c t assume "((\<lambda>b. if k_ipv4_hash st b = Some s then None else k_ipv4_hash st b)(a \<mapsto> s)) c = Some t"
    then show "\<exists>y. ((k_sess st)(s \<mapsto> x\<lparr>cs_ipv4 := Some a\<rparr>)) t = Some y \<and> cs_ipv4 y = Some c"
      using base_lists(4) [OF assms(1), of c t] by (auto split: if_splits)
  qed
  moreover have "marked_of ?st = marked_of st" using assms(2) by (auto simp: marked_of_def k fun_eq_iff)
  then have "calm {} st ?st" by (simp add: calm_def colls_def k)
  ultimately show ?thesis by (rule own_calm)
qed

lemma own_step_result:
  assumes "own_step env st st'" "weak_ok st" "add_ok env"
  shows "own_result env st st'"
proof -
  have b: "base_ok st" by (rule weakD(1) [OF assms(2)])
  from assms(1) show ?thesis
  proof cases
    case (collide g s e i t b')
    then show ?thesis by (rule begin_own [OF b assms(3)])
  next
    case (release e)
    then show ?thesis by (rule release_own [OF assms(2,3)])
  next
    case (response epc s)
    then show ?thesis
      using complete_own [OF assms(2,3)] b
      by (auto simp: collision_deletion_response_def intro: own_calm split: option.splits if_splits)
  next
    case (expiry s)
    then show ?thesis
      using complete_own [OF assms(2,3)] b
      by (auto simp: smf_sess_collision_on_pfcp_delete_timeout_def bind_eq_Some_conv intro: own_calm split: if_splits)
  next
    case (add s x)
    then show ?thesis using link_effect [OF b add(2,3)] by (simp add: own_calm)
  next
    case (address s x a)
    then show ?thesis using address_own [OF b] by simp
  next
    case (update f s)
    have "upd_sess s f st = st" if "k_sess st s = None" using that by (cases st) (auto simp: upd_sess_def fun_upd_idem)
    then show ?thesis
      using upd_sess_effect(1,5) [OF b] update b by (cases "k_sess st s") (auto intro!: own_calm)
  qed
qed

lemma down_step_result:
  assumes "down_step env st st'" "weak_ok st"
  shows "down_result env st st'"
  using assms(1)
  by cases (auto intro: clear_down [OF assms(2)] pod_down [OF assms(2)] detach_down [OF assms(2)]
      ue_remove_down [OF assms(2)] remove_down [OF assms(2)])

lemma calm_weak:
  assumes "calm U st st'" "weak_ok st" "base_ok st'"
    and "\<And>u c. u \<in> U \<Longrightarrow> colls st' u = Some c \<Longrightarrow> cr_pending c \<Longrightarrow> cr_pkbuf c \<noteq> None"
  shows "weak_ok st'"
proof -
  have "cr_pkbuf c \<noteq> None" if "colls st' u = Some c" "cr_pending c" for u c
  proof (cases "u \<in> U")
    case True
    then show ?thesis using assms(4) that by blast
  next
    case False
    then have "colls st u = Some c" using calmD(2) [OF assms(1)] that by blast
    then show ?thesis using weakD(2) [OF assms(2)] that(2) by blast
  qed
  then show ?thesis using assms(3) by (auto simp: weak_ok_def)
qed

lemma own_weak:
  assumes "own_result env st st'" "weak_ok st"
  shows "weak_ok st'"
proof -
  obtain U where U: "calm U st st'" "base_ok st'" "\<And>u. u \<in> U \<Longrightarrow> in_order st' u"
    using assms(1) unfolding own_result_def by blast
  show ?thesis
    by (rule calm_weak [OF U(1) assms(2) U(2)]) (use U(3) in \<open>unfold in_order_def, blast\<close>)
qed

lemma down_weak:
  assumes "down_result env st st'" "weak_ok st"
  shows "weak_ok st'"
proof -
  obtain U where U: "calm U st st'" "base_ok st'"
    "\<And>u c. u \<in> U \<Longrightarrow> colls st' u = Some c \<Longrightarrow> cr_pending c \<Longrightarrow> colls st u = Some c"
    using assms(1) unfolding down_result_def by blast
  show ?thesis
    by (rule calm_weak [OF U(1) assms(2) U(2)]) (use U(3) weakD(2) [OF assms(2)] in blast)
qed

lemma reach_weak: "coll_reach st \<Longrightarrow> weak_ok st"
proof (induction rule: coll_reach.induct)
  case init
  show ?case by (simp add: weak_ok_def base_ok_def colls_def)
next
  case (own st env st')
  then show ?case using own_step_result own_weak by blast
next
  case (down st env st')
  then show ?case using down_step_result down_weak by blast
qed

section \<open>Requests that are handed back\<close>

text \<open>Whatever is pushed to another shard is a request with the mark of a finished handshake.\<close>

definition marked_pushes :: "coll_st \<Rightarrow> bool" where
  "marked_pushes st \<longleftrightarrow>
     (\<forall>w ev. Push_shard w ev \<in> set (k_log st) \<longrightarrow> ev_id ev = SMF_EVT_S5C_MESSAGE \<and> ev_xshard_done ev)"

lemma pushes_act [simp]:
  "marked_pushes (act (Push_shard w (bounce_event g d)) st) = marked_pushes st"
  "marked_pushes (act (Send_error b i t) st) = marked_pushes st"
  "marked_pushes (act (Pfcp_deletion_request s) st) = marked_pushes st"
  "marked_pushes (act (Pfcp_deletion_best_effort s) st) = marked_pushes st"
  "marked_pushes (act (Delete_bearer_request s) st) = marked_pushes st"
  "marked_pushes (act (Dispatch b i pk s) st) = marked_pushes st"
  by (auto simp: marked_pushes_def bounce_event_def)

lemma pushes_log: "k_log st' = k_log st \<Longrightarrow> marked_pushes st' = marked_pushes st"
  by (simp add: marked_pushes_def)

lemma pushes_upd [simp]:
  "marked_pushes (upd_ue u f st) = marked_pushes st" "marked_pushes (upd_sess s g st) = marked_pushes st"
  "marked_pushes (smf_ue_collision_clear u st) = marked_pushes st" "marked_pushes (link_new_sess sx st) = marked_pushes st"
  by (rule pushes_log, simp add: smf_ue_collision_clear_def link_new_sess_def split: prod.splits)+

lemma remove_pushes: "smf_sess_remove s st = Some st' \<Longrightarrow> marked_pushes st' = marked_pushes st"
  by (rule pushes_log) (auto simp: smf_sess_remove_def bind_eq_Some_conv Let_def split: option.splits if_splits)

lemma fail_pushes: "smf_ue_collision_replace_fail env u st = Some st' \<Longrightarrow> marked_pushes st' = marked_pushes st"
  by (auto simp: smf_ue_collision_replace_fail_def bind_eq_Some_conv Let_def split: if_splits)

lemma abort_pushes: "smf_ue_collision_abort env u st = Some st' \<Longrightarrow> marked_pushes st' = marked_pushes st"
  by (auto simp: smf_ue_collision_abort_def fail_pushes split: option.splits if_splits)

lemma remove_list_pushes: "coll_sess_remove_list ss st = Some st' \<Longrightarrow> marked_pushes st' = marked_pushes st"
proof (induction ss arbitrary: st)
  case (Cons s ss)
  then obtain st1 where "smf_sess_remove s st = Some st1" "coll_sess_remove_list ss st1 = Some st'"
    by (auto simp: bind_eq_Some_conv)
  then show ?case using Cons.IH remove_pushes by blast
qed simp

lemma ue_remove_pushes:
  assumes "coll_ue_remove env u st = Some st'"
  shows "marked_pushes st' = marked_pushes st"
proof -
  obtain ss st1 st2 where "smf_ue_collision_abort env u st = Some st1" "coll_sess_remove_list ss st1 = Some st2"
    "st' = st2\<lparr>k_ues := (k_ues st2)(u := None)\<rparr>"
    using assms by (auto simp: coll_ue_remove_def bind_eq_Some_conv)
  then show ?thesis using abort_pushes remove_list_pushes pushes_log [of st' st2] by simp
qed

lemma if_empty_pushes: "ue_remove_if_empty env u st = Some st' \<Longrightarrow> marked_pushes st' = marked_pushes st"
  by (auto simp: ue_remove_if_empty_def bind_eq_Some_conv ue_remove_pushes split: if_splits)

lemma replay_pushes: "replay_create env u c d st = Some st' \<Longrightarrow> marked_pushes st' = marked_pushes st"
  by (auto simp: replay_create_def Let_def fail_pushes split: option.splits if_splits)

lemma complete_pushes: "smf_sess_collision_replace_complete env s st = Some st' \<Longrightarrow> marked_pushes st' = marked_pushes st"
  by (auto simp: smf_sess_collision_replace_complete_def Let_def bind_eq_Some_conv remove_pushes
      dest!: if_empty_pushes replay_pushes split: option.splits if_splits)

lemma begin_pushes:
  "smf_sess_collision_replace_begin env s u e i g t st = Some (b, st') \<Longrightarrow> marked_pushes st' = marked_pushes st"
  by (auto simp: smf_sess_collision_replace_begin_def enter_wait_pfcp_deletion_def Let_def bind_eq_Some_conv
      dest!: complete_pushes split: option.splits if_splits)

lemma release_now_pushes: "xshard_release_now env e old st = Some st' \<Longrightarrow> marked_pushes st' = marked_pushes st"
  by (auto simp: xshard_release_now_def Let_def bind_eq_Some_conv dest!: remove_pushes if_empty_pushes
      split: option.splits if_splits)

lemma release_pushes:
  assumes "smf_xshard_collision_release env e st = Some st'"
  shows "marked_pushes st' = marked_pushes st"
proof -
  obtain old where old: "xshard_old_sess env e st = Some old"
    using assms by (auto simp: smf_xshard_collision_release_def bind_eq_Some_conv)
  show ?thesis
  proof (cases "\<exists>st0. xshard_release_now env e old st0 = Some st' \<and> marked_pushes st0 = marked_pushes st")
    case True
    then show ?thesis using release_now_pushes by blast
  next
    case False
    then obtain s x st1 where "old = Some (s, x)" "st' = upd_ue (cs_ue x) (set_bounce e) st1"
      "smf_sess_collision_replace_begin env s (cs_ue x) e 0 True None st = Some (True, st1)"
      using assms begin_pushes
      by (auto simp: smf_xshard_collision_release_def old bind_eq_Some_conv split: option.splits if_splits prod.splits)
    then show ?thesis using begin_pushes by simp
  qed
qed

lemma own_pushes:
  assumes "own_step env st st'"
  shows "marked_pushes st' = marked_pushes st"
  using assms
proof cases
  case (collide g s e i t b)
  then show ?thesis
    by (auto simp: smf_sess_collision_replace_begin_gtp_def dest!: begin_pushes split: option.splits if_splits)
next
  case (response epc s)
  then show ?thesis by (auto simp: collision_deletion_response_def dest!: complete_pushes split: option.splits if_splits)
next
  case (expiry s)
  then show ?thesis
    by (auto simp: smf_sess_collision_on_pfcp_delete_timeout_def bind_eq_Some_conv dest!: complete_pushes split: if_splits)
next
  case (address s x a)
  then show ?thesis by (simp add: marked_pushes_def)
qed (auto dest!: release_pushes)

lemma clear_pushes: "SMF_SESS_CLEAR env s st = Some st' \<Longrightarrow> marked_pushes st' = marked_pushes st"
  by (auto simp: SMF_SESS_CLEAR_def dest!: remove_pushes ue_remove_pushes split: option.splits if_splits)

lemma with_ue_pushes: "sess_remove_with_ue env s u st = Some st' \<Longrightarrow> marked_pushes st' = marked_pushes st"
  by (auto simp: sess_remove_with_ue_def bind_eq_Some_conv dest!: remove_pushes if_empty_pushes split: if_splits)

lemma down_pushes:
  assumes "down_step env st st'"
  shows "marked_pushes st' = marked_pushes st"
  using assms
proof cases
  case (pod s)
  then show ?thesis by (auto simp: pod_teardown_timeout_cb_def dest!: clear_pushes split: option.splits if_splits)
next
  case (detach s admin_force)
  then show ?thesis
    by (auto simp: smf_admin_detach_one_session_def Let_def bind_eq_Some_conv dest!: with_ue_pushes abort_pushes split: if_splits)
qed (auto dest!: clear_pushes ue_remove_pushes remove_pushes)

lemma reach_pushes: "coll_reach st \<Longrightarrow> marked_pushes st"
  by (induction rule: coll_reach.induct) (auto simp: own_pushes down_pushes, simp add: marked_pushes_def)

end
