(* ===== verification/Smf_Collision_Props.thy ===== *)
theory Smf_Collision_Props
  imports Smf_Collision_Run
begin

text \<open>
  The life of a request that the collision replace parks: the answer or the time-out of the awaited
  deletion dispatches it, answers it with an error or hands it back to the shard it came from, and
  the component itself never leaves a request without a session whose deletion is awaited. Three
  paths of the code break this: other parts of the SMF remove the session that is being replaced and
  strand the request, a Create request for the address of a 5GC session aborts the process, and a
  deletion request that cannot be sent again leaves the mark of a cross-shard request behind on the
  UE.
\<close>

section \<open>Parked requests\<close>

text \<open>The answer to the deletion of a session under collision replace, and its time-out, settle the
  request.\<close>

lemma deletion_settles:
  assumes "weak_ok st" "k_ues st (cs_ue x) = Some ue" "cr_pending (cu_coll ue)" "add_ok env"
    and "k_sess st s = Some x" "cs_collision_replace x"
  shows "\<exists>pk st' acts. cr_pkbuf (cu_coll ue) = Some pk
    \<and> smf_sess_collision_on_pfcp_delete_timeout env s st = Some st'
    \<and> collision_deletion_response env True s st = Some (if cs_wait_pfcp_deletion x then st' else st)
    \<and> not_parked st' (cs_ue x) \<and> k_log st' = k_log st @ acts \<and> settled_by env (cu_coll ue) pk acts"
proof -
  have b: "base_ok st" by (rule weakD(1) [OF assms(1)])
  note c = view_ue(1) [OF assms(2)]
  obtain pk where pk: "cr_pkbuf (cu_coll ue) = Some pk" using weakD(2) [OF assms(1) c assms(3)] by blast
  obtain st' where r: "smf_sess_collision_replace_complete env s st = Some st'"
    and st': "settles env (cs_ue x) (cu_coll ue) pk st st'"
    using complete_effect [OF b assms(4,5) c assms(3) pk] by blast
  have "not_parked st' (cs_ue x)" using st' by (auto simp: settles_def not_parked_def colls_def)
  moreover obtain acts where "k_log st' = k_log st @ acts" "settled_by env (cu_coll ue) pk acts"
    using st' by (auto simp: settles_def)
  moreover have "smf_sess_collision_on_pfcp_delete_timeout env s st = Some st'"
    "collision_deletion_response env True s st = Some (if cs_wait_pfcp_deletion x then st' else st)"
    using assms(5,6) r by (simp_all add: collision_deletion_response_def smf_sess_collision_on_pfcp_delete_timeout_def
        find_active [OF b])
  ultimately show ?thesis using pk by blast
qed

text \<open>Whatever happens, a parked request stays parked as it is or ends; and the operations of the
  component strand none.\<close>

lemma step_fate:
  assumes "weak_ok st" "add_ok env" "own_step env st st' \<or> down_step env st st'" "colls st u = Some c" "cr_pending c"
  shows "colls st' u = Some c \<and> (\<forall>s. marked_of st' u s \<longrightarrow> marked_of st u s) \<or> ended env c st st' u"
  using assms(3)
proof
  assume "own_step env st st'"
  from own_step_result [OF this assms(1,2)] obtain U where U: "calm U st st'"
    "\<And>v c. v \<in> U \<Longrightarrow> colls st v = Some c \<Longrightarrow> cr_pending c \<Longrightarrow> ended env c st st' v"
    unfolding own_result_def by blast
  show ?thesis
    using U(2) [OF _ assms(4,5)] calmD(1) [OF U(1) _ assms(4)] calmD(3) [OF U(1)] by blast
next
  assume "down_step env st st'"
  from down_step_result [OF this assms(1)] obtain U where U: "calm U st st'"
    "\<And>v c. v \<in> U \<Longrightarrow> colls st' v = Some c \<Longrightarrow> cr_pending c \<Longrightarrow> \<forall>s. marked_of st' v s \<longrightarrow> marked_of st v s"
    "\<And>v c. v \<in> U \<Longrightarrow> colls st v = Some c \<Longrightarrow> cr_pending c \<Longrightarrow> colls st' v = Some c \<or> ended env c st st' v"
    unfolding down_result_def by blast
  show ?thesis
    using U(2) [of u, OF _ _ assms(5)] U(3) [OF _ assms(4,5)] calmD(1) [OF U(1) _ assms(4)] calmD(3) [OF U(1)] by blast
qed

lemma own_not_stranding:
  assumes "weak_ok st" "add_ok env" "own_step env st st'" "stranded st' v"
  shows "stranded st v"
proof -
  obtain U where U: "calm U st st'" "\<And>u. u \<in> U \<Longrightarrow> in_order st' u"
    using own_step_result [OF assms(3,1,2)] unfolding own_result_def by blast
  have "v \<notin> U" using U(2) [of v] assms(4) by (auto simp: in_order_def stranded_def pend_def)
  then show ?thesis
    using assms(4) calmD(2,3) [OF U(1)] by (auto simp: stranded_def pend_def)
qed

text \<open>The removal of the only session under collision replace strands the request when the UE has
  another session.\<close>

lemma teardown_strands:
  assumes "weak_ok st" "k_ues st (cs_ue x) = Some ue" "cr_pending (cu_coll ue)" "k_sess st s = Some x"
    and "\<And>t. marked_of st (cs_ue x) t \<Longrightarrow> t = s" "cu_sess_list ue \<noteq> [s]"
  shows "\<exists>st'. SMF_SESS_CLEAR env s st = Some st' \<and> stranded st' (cs_ue x)"
    and "\<exists>st'. smf_admin_detach_one_session env s True st = Some st' \<and> stranded st' (cs_ue x)"
proof -
  have b: "base_ok st" by (rule weakD(1) [OF assms(1)])
  note c = view_ue [OF assms(2)]
  have "s \<in> set (cu_sess_list ue)" using base_lists(3) [OF b assms(4)] assms(2) by simp
  then have "length (cu_sess_list ue) \<noteq> 1" using assms(6) by (auto simp: length_Suc_conv)
  moreover obtain st1 where "smf_sess_remove s st = Some st1" "colls st1 = colls st"
    "\<forall>t. marked_of st1 (cs_ue x) t \<longleftrightarrow> marked_of st (cs_ue x) t \<and> t \<noteq> s" by (rule remove_effect [OF b assms(4)])
  ultimately show "\<exists>st'. SMF_SESS_CLEAR env s st = Some st' \<and> stranded st' (cs_ue x)"
    using assms(2-5) c(1) by (auto simp: SMF_SESS_CLEAR_def find_active [OF b] stranded_def pend_def)
  obtain st2 where "sess_remove_with_ue env s (cs_ue x) st = Some st2" "colls st2 (cs_ue x) = Some (cu_coll ue)"
    "\<forall>t. marked_of st2 (cs_ue x) t \<longleftrightarrow> marked_of st (cs_ue x) t \<and> t \<noteq> s"
    by (rule with_ue_effect [OF b assms(4) c(1), of env]) (use c(2) assms(6) in auto)
  then show "\<exists>st'. smf_admin_detach_one_session env s True st = Some st' \<and> stranded st' (cs_ue x)"
    using assms(3-5) by (auto simp: smf_admin_detach_one_session_def stranded_def pend_def)
qed

section \<open>Theorems\<close>

text \<open>C38. The life of a request that the collision replace parks, in every state that the operations of
  the component, the life of the sessions and their teardown reach, whichever calls fail. (1) For a
  session of the UE under collision replace, the time-out of its deletion settles the request, and so
  does the answer in the state that awaits it: the request is handed back to the shard that asked for
  the release, dispatched to its new session, or answered with an error when its transaction still
  exists, and nothing is parked on the UE any more. (2) No step changes the request while it is
  parked; when it ends, it was settled, or given up with an error to its transaction when that still
  exists. (3) The operations of the component never leave a request without such a session. (4) Other
  parts of the SMF do: when the only session under collision replace is cleared, or detached by
  force, and the UE has another session, the request is stranded, (5) and stays so until it ends as in
  (2); (6) meanwhile every Create request that collides with a session of
  the UE is refused.\<close>

theorem parked_requests_are_settled:
  assumes "coll_reach st" "k_ues st u = Some ue" "cr_pending (cu_coll ue)" "add_ok env"
  shows "(\<forall>s x. k_sess st s = Some x \<and> cs_ue x = u \<and> cs_collision_replace x \<longrightarrow>
        (\<exists>pk st' acts. cr_pkbuf (cu_coll ue) = Some pk
          \<and> smf_sess_collision_on_pfcp_delete_timeout env s st = Some st'
          \<and> collision_deletion_response env True s st = Some (if cs_wait_pfcp_deletion x then st' else st)
          \<and> not_parked st' u \<and> k_log st' = k_log st @ acts \<and> settled_by env (cu_coll ue) pk acts))
    \<and> (\<forall>st'. own_step env st st' \<or> down_step env st st' \<longrightarrow>
        colls st' u = Some (cu_coll ue) \<or> ended env (cu_coll ue) st st' u)
    \<and> (\<forall>st' v. own_step env st st' \<and> stranded st' v \<longrightarrow> stranded st v)
    \<and> (\<forall>s x. k_sess st s = Some x \<and> cs_ue x = u \<and> (\<forall>t. marked_of st u t \<longrightarrow> t = s) \<and> cu_sess_list ue \<noteq> [s] \<longrightarrow>
        (\<exists>st'. SMF_SESS_CLEAR env s st = Some st' \<and> stranded st' u)
        \<and> (\<exists>st'. smf_admin_detach_one_session env s True st = Some st' \<and> stranded st' u))
    \<and> (\<forall>st'. stranded st u \<and> (own_step env st st' \<or> down_step env st st') \<longrightarrow>
        stranded st' u \<or> ended env (cu_coll ue) st st' u)
    \<and> (\<forall>s x e i g t. k_sess st s = Some x \<and> cs_ue x = u \<and> smf_sess_upf_established x \<and> ev_pkbuf e \<noteq> None \<longrightarrow>
        smf_sess_collision_replace_begin_gtp env g s e i t st = Some (True,
          if ce_xact_find env i then act (Send_error g i (if g then case t of Some t \<Rightarrow> t | None \<Rightarrow> 0 else 0)) st else st))"
proof -
  have w: "weak_ok st" using assms(1) by (rule reach_weak)
  have b: "base_ok st" by (rule weakD(1) [OF w])
  note c = view_ue(1) [OF assms(2)]
  note fate = step_fate [OF w assms(4) _ c assms(3)]
  have "stranded st' u \<or> ended env (cu_coll ue) st st' u"
    if "stranded st u" "own_step env st st' \<or> down_step env st st'" for st'
    using fate [OF that(2)] that(1) assms(3) by (auto simp: stranded_def pend_def)
  moreover have "smf_sess_collision_replace_begin_gtp env g s e i t st = Some (True,
      if ce_xact_find env i then act (Send_error g i (if g then case t of Some t \<Rightarrow> t | None \<Rightarrow> 0 else 0)) st else st)"
    if "k_sess st s = Some x" "cs_ue x = u" "smf_sess_upf_established x" "ev_pkbuf e \<noteq> None" for s x e i g t
    using that assms(2,3) by (auto simp: smf_sess_collision_replace_begin_gtp_def smf_sess_collision_replace_begin_def
        find_active [OF b])
  ultimately show ?thesis
    using deletion_settles [OF w _ assms(3,4)] teardown_strands [OF w _ assms(3)] own_not_stranding [OF w assms(4)]
      fate assms(2) by (intro conjI) blast+
qed

text \<open>A UE 5 with an established EPC session 1 that holds the address 7, and a Create request for it.\<close>

definition demo_sess :: coll_sess where
  "demo_sess = \<lparr>cs_ue = 5, cs_n4_seid = 0x10000001, cs_upf_n4_seid = 9, cs_pfcp_node = Some 0, cs_epc = True,
     cs_s11_relay = False, cs_ipv4 = None, cs_gnode = None, cs_sgw_s5c_teid = 0, cs_collision_replace = False,
     cs_wait_pfcp_deletion = False\<rparr>"

definition demo_env :: coll_env where
  "demo_env = \<lparr>ce_self = 1, ce_shards_active = True, ce_pkbuf_copy = True, ce_xact_find = (\<lambda>_. True),
     ce_pfcp_send = (\<lambda>_. True), ce_gtp2_parse = (\<lambda>d. Some \<lparr>gm_type = 32, gm_teid_presence = True, gm_teid = 0,
       gm_imsi = None, gm_paa = Some [1, 7, 0, 0, 0]\<rparr>), ce_gtp1_parse = (\<lambda>_. None), ce_sess_add = (\<lambda>_ _. None),
     ce_csr_is_s11 = (\<lambda>_. False),
     ce_default_bearer = (\<lambda>_. True), ce_delete_bearer = (\<lambda>_. True)\<rparr>"

definition demo_csr :: smf_event where
  "demo_csr = \<lparr>ev_id = SMF_EVT_S5C_MESSAGE, ev_gnode = 0, ev_pkbuf = Some [0x48], ev_reply_shard = 2, ev_xshard_done = False\<rparr>"

definition demo_init :: coll_st where
  "demo_init = \<lparr>k_ues = Map.empty, k_sess = Map.empty, k_ipv4_hash = Map.empty, k_log = []\<rparr>"

lemma demo_add_ok: "add_ok demo_env" "add_ok (demo_env\<lparr>ce_pfcp_send := f\<rparr>)"
  by (simp_all add: add_ok_def demo_env_def)

lemmas demo_defs = demo_sess_def demo_env_def demo_csr_def demo_init_def link_new_sess_def upd_sess_def upd_ue_def
  smf_sess_find_active_by_id_def smf_sess_upf_established_def smf_sess_collision_replace_begin_def coll_zero_def
  enter_wait_pfcp_deletion_def park_def act_def

text \<open>The request is parked while a second session of the UE is there: the answer settles it, and the
  detach by force strands it.\<close>

theorem parked_requests_are_settled_witness:
  "\<exists>st. coll_reach st \<and> (\<exists>ue st' acts. k_ues st 5 = Some ue \<and> cr_pending (cu_coll ue)
     \<and> collision_deletion_response demo_env True 1 st = Some st' \<and> not_parked st' 5
     \<and> k_log st' = k_log st @ acts \<and> settled_by demo_env (cu_coll ue) [0x48] acts)
     \<and> (\<exists>st'. smf_admin_detach_one_session demo_env 1 True st = Some st' \<and> stranded st' 5)"
proof -
  let ?st = "link_new_sess (2, demo_sess) (link_new_sess (1, demo_sess) demo_init)"
  let ?ue = "park demo_csr 3 True None \<lparr>cu_coll = coll_zero, cu_sess_list = [1, 2]\<rparr>"
  let ?x = "demo_sess\<lparr>cs_collision_replace := True, cs_wait_pfcp_deletion := True\<rparr>"
  have "coll_reach demo_init" unfolding demo_init_def by (rule coll_reach.init)
  moreover have "own_step demo_env demo_init (link_new_sess (1, demo_sess) demo_init)"
    "own_step demo_env (link_new_sess (1, demo_sess) demo_init) ?st"
    by (rule own_step.add; simp add: demo_init_def demo_sess_def link_new_sess_def)+
  ultimately have r: "coll_reach ?st" using coll_reach.own [OF _ demo_add_ok(1)] by blast
  obtain st' where st': "smf_sess_collision_replace_begin_gtp demo_env True 1 demo_csr 3 None ?st = Some (True, st')"
    and ue: "k_ues st' 5 = Some ?ue" and x: "k_sess st' = [1 \<mapsto> ?x, 2 \<mapsto> demo_sess]"
    by (simp add: smf_sess_collision_replace_begin_gtp_def demo_defs fun_upd_twist)
  have r': "coll_reach st'" using r demo_add_ok(1) own_step.collide [OF st'] by (rule coll_reach.own)
  have p: "cr_pending (cu_coll ?ue)" by (simp add: park_def)
  have m: "marked_of st' 5 t \<Longrightarrow> t = 1" for t by (auto simp: marked_of_def x demo_sess_def split: if_splits)
  have s1: "k_sess st' 1 = Some ?x" "cs_ue ?x = 5" "cs_collision_replace ?x" "cs_wait_pfcp_deletion ?x"
    by (simp_all add: x demo_sess_def)
  have l: "cu_sess_list ?ue \<noteq> [1]" by (simp add: park_def)
  note life = parked_requests_are_settled [OF r' ue p demo_add_ok(1)]
  obtain pk st1 acts where a: "cr_pkbuf (cu_coll ?ue) = Some pk"
    "collision_deletion_response demo_env True 1 st' = Some (if cs_wait_pfcp_deletion ?x then st1 else st')"
    "not_parked st1 5" "k_log st1 = k_log st' @ acts" "settled_by demo_env (cu_coll ?ue) pk acts"
    using life s1(1-3) by blast
  have "pk = [0x48]" using a(1) by (simp add: park_def demo_csr_def)
  moreover have "\<exists>st1. smf_admin_detach_one_session demo_env 1 True st' = Some st1 \<and> stranded st1 5"
    using life s1(1,2) m l by blast
  ultimately show ?thesis using r' ue p a(2-5) s1(4) by auto
qed

text \<open>C39. A Create Session Request can abort the SMF. When the IPv4 address it asks for is held by a 5GC
  session that the UPF has established, the collision search finds that session and the replace
  moves it to the state that waits for its deletion; the entry action of that state asserts a
  deletion trigger, which the event of the replace does not carry.\<close>

theorem collision_with_5gc_session_aborts:
  assumes "weak_ok st" "k_ipv4_hash st a = Some s" "k_sess st s = Some x" "k_ues st (cs_ue x) = Some ue"
    and "\<not> cs_epc x" "smf_sess_upf_established x" "\<not> cs_wait_pfcp_deletion x" "\<not> cr_pending (cu_coll ue)"
    and "ce_pkbuf_copy env" "ev_pkbuf e = Some pk"
    and "gm_paa m = Some paa" "ogs_paa_to_ip paa = Some (OGS_OK, True, a)"
  shows "smf_sess_find_collision_by_ipv4_gtp2 m st = Some (Some s)
    \<and> smf_sess_collision_replace_begin_gtp env True s e i t st = None"
proof -
  let ?st = "upd_sess s (\<lambda>y. y\<lparr>cs_wait_pfcp_deletion := True\<rparr>)
    (upd_sess s (\<lambda>y. y\<lparr>cs_collision_replace := True\<rparr>) (upd_ue (cs_ue x) (park e i True t) st))"
  have b: "base_ok st" by (rule weakD(1) [OF assms(1)])
  then have "base_ok ?st" by (intro upd_sess_base upd_ue_base) (simp_all add: park_def)
  then have "smf_sess_find_active_by_id s ?st = Some (x\<lparr>cs_collision_replace := True, cs_wait_pfcp_deletion := True\<rparr>)"
    using assms(3) by (simp add: find_active)
  then have "enter_wait_pfcp_deletion env s 0
      (upd_sess s (\<lambda>y. y\<lparr>cs_collision_replace := True\<rparr>) (upd_ue (cs_ue x) (park e i True t) st)) = None"
    using assms(5) by (simp add: enter_wait_pfcp_deletion_def)
  then have "smf_sess_collision_replace_begin_gtp env True s e i t st = None"
    using assms(3,4,6-10)
    by (simp add: smf_sess_collision_replace_begin_gtp_def smf_sess_collision_replace_begin_def find_active [OF b] Let_def)
  then show ?thesis using assms(2,11,12) by (simp add: smf_sess_find_collision_by_ipv4_gtp2_def)
qed

text \<open>The state with one session, and its invariant.\<close>

definition demo_st :: "coll_sess \<Rightarrow> coll_st" where
  "demo_st x = \<lparr>k_ues = [5 \<mapsto> \<lparr>cu_coll = coll_zero, cu_sess_list = [1]\<rparr>], k_sess = [1 \<mapsto> x], k_ipv4_hash = [0x07000000 \<mapsto> 1],
     k_log = []\<rparr>"

lemma demo_st_ok: "cs_ue x = 5 \<Longrightarrow> cs_ipv4 x = Some 0x07000000 \<Longrightarrow> weak_ok (demo_st x)"
  by (simp add: weak_ok_def base_ok_def colls_def demo_st_def coll_zero_def)

lemma demo_paa: "ogs_paa_to_ip [1, 0, 0, 0, 7] = Some (OGS_OK, True, 0x07000000)"
  by (simp add: ogs_paa_to_ip_def rd_u8_def rd_u32_def be_word32_def bswap32_def)

theorem collision_with_5gc_session_aborts_witness:
  "smf_sess_collision_replace_begin_gtp demo_env True 1 demo_csr 3 None
     (demo_st (demo_sess\<lparr>cs_epc := False, cs_ipv4 := Some 0x07000000\<rparr>)) = None"
proof -
  let ?x = "demo_sess\<lparr>cs_epc := False, cs_ipv4 := Some 0x07000000\<rparr>"
  let ?m = "\<lparr>gm_type = 32, gm_teid_presence = True, gm_teid = 0, gm_imsi = None, gm_paa = Some [1, 0, 0, 0, 7]\<rparr>"
  have "weak_ok (demo_st ?x)" by (rule demo_st_ok) (simp_all add: demo_sess_def)
  from collision_with_5gc_session_aborts [OF this, where a = "0x07000000" and s = 1 and x = ?x
      and ue = "\<lparr>cu_coll = coll_zero, cu_sess_list = [1]\<rparr>" and env = demo_env and e = demo_csr and pk = "[0x48]"
      and m = ?m and paa = "[1, 0, 0, 0, 7]" and i = 3 and t = None]
  show ?thesis using demo_paa
    by (simp add: demo_st_def demo_sess_def demo_env_def demo_csr_def coll_zero_def smf_sess_upf_established_def)
qed

lemma later_request:
  assumes "base_ok st" "k_ues st (cs_ue x) = Some ue" "cr_bounce (cu_coll ue)"
    and "\<not> cr_pending (cu_coll ue)" "k_sess st s = Some x" "add_ok env" "ev_pkbuf e = Some pk" "ce_pfcp_send env s"
    and "smf_sess_collision_replace_begin env s (cs_ue x) e i g t st = Some (True, st1)"
    and "collision_deletion_response env True s st1 = Some st2"
  shows "k_log st2 = k_log st @ [Pfcp_deletion_request s,
    Push_shard (cr_bounce_shard (cu_coll ue)) (bounce_event (cr_bounce_gnode (cu_coll ue)) (Some pk))]"
proof -
  let ?u = "cs_ue x"
  define st0 where "st0 = upd_sess s (\<lambda>y. y\<lparr>cs_collision_replace := True\<rparr>) (upd_ue ?u (park e i g t) st)"
  let ?st = "if cs_wait_pfcp_deletion x then st0 else upd_sess s (\<lambda>y. y\<lparr>cs_wait_pfcp_deletion := True\<rparr>) st0"
  let ?x = "x\<lparr>cs_collision_replace := True, cs_wait_pfcp_deletion := True\<rparr>"
  note p = park_effect [OF assms(1,5,2,7) st0_def]
  have w: "base_ok (upd_sess s (\<lambda>y. y\<lparr>cs_wait_pfcp_deletion := True\<rparr>) st0)"
    using upd_sess_effect(1) [OF p(1,3), of "\<lambda>y. y\<lparr>cs_wait_pfcp_deletion := True\<rparr>"] by simp
  have x: "k_sess ?st s = Some ?x"
  proof (cases "cs_wait_pfcp_deletion x")
    case True
    then show ?thesis using p(3) by (cases x) simp
  qed (use p(3) in simp)
  have "k_ues st0 ?u = Some (park e i g t ue)" using assms(2) by (simp add: st0_def)
  then have k: "colls ?st (cs_ue ?x) = Some (cu_coll (park e i g t ue))" "base_ok ?st" "k_log ?st = k_log st"
    using p(1,8) w by (simp_all add: colls_def)
  have st1: "st1 = act (Pfcp_deletion_request s) ?st"
    using assms(2,4,5,7-9) p(3) w
    by (auto simp: smf_sess_collision_replace_begin_def st0_def [symmetric] enter_wait_pfcp_deletion_def find_active
        Let_def bind_eq_Some_conv split: if_splits)
  obtain st' where c: "smf_sess_collision_replace_complete env s st1 = Some st'"
    "settles env (cs_ue ?x) (cu_coll (park e i g t ue)) pk st1 st'"
    using complete_effect [of st1 env s ?x, OF _ assms(6) _ _ p(6,7)] k(1,2) x by (auto simp: st1)
  have "st2 = st'"
    using assms(10) c(1) x k(2) unfolding st1 collision_deletion_response_def by (simp add: find_active)
  then show ?thesis using c(2) assms(3) k(3) unfolding st1 by (auto simp: settles_def settled_by_def park_def)
qed

text \<open>C40. A deletion request that cannot be sent again misleads the cross-shard replace. Another shard
  asks for the release of an address whose session waits for its deletion already, no request and no
  mark is on the UE, and the repeated deletion request cannot be sent: the replace completes at once, on this shard, before the request
  is marked to be handed back. The request never goes back to the shard that asked, and the mark
  stays on the UE: the next Create request that collides with a session of this UE is sent to that
  shard when its deletion is answered, instead of being served here.\<close>

theorem failed_resend_misleads_replace:
  assumes "weak_ok st" "add_ok env" "xshard_old_sess env e st = Some (Some (s, x))"
    and "k_ues st (cs_ue x) = Some ue" "\<not> cr_pending (cu_coll ue) \<and> \<not> cr_bounce (cu_coll ue)"
    and "smf_sess_upf_established x" "\<not> cs_s11_relay x"
    and "cs_wait_pfcp_deletion x" "ce_pkbuf_copy env" "\<not> ce_pfcp_send env s"
  shows "\<exists>st1 ue1 acts. smf_xshard_collision_release env e st = Some st1 \<and> k_log st1 = k_log st @ acts
    \<and> (\<forall>shard ev. Push_shard shard ev \<notin> set acts)
    \<and> k_ues st1 (cs_ue x) = Some ue1 \<and> \<not> cr_pending (cu_coll ue1)
    \<and> (\<forall>env2 s2 x2 e2 pk2 i g t st2 st3. k_sess st1 s2 = Some x2 \<and> cs_ue x2 = cs_ue x \<and> add_ok env2
        \<and> ev_pkbuf e2 = Some pk2 \<and> ce_pfcp_send env2 s2
        \<and> smf_sess_collision_replace_begin env2 s2 (cs_ue x) e2 i g t st1 = Some (True, st2)
        \<and> collision_deletion_response env2 True s2 st2 = Some st3
        \<longrightarrow> k_log st3 = k_log st1 @ [Pfcp_deletion_request s2,
              Push_shard (ev_reply_shard e) (bounce_event (ev_gnode e) (Some pk2))])"
proof -
  let ?u = "cs_ue x"
  have x: "k_sess st s = Some x" using assms(3) by (rule xshard_old)
  obtain pk where pk: "ev_pkbuf e = Some pk" using assms(3) by (auto simp: xshard_old_sess_def bind_eq_Some_conv)
  define st0 where "st0 = upd_sess s (\<lambda>y. y\<lparr>cs_collision_replace := True\<rparr>) (upd_ue ?u (park e 0 True None) st)"
  note p = park_effect [OF weakD(1) [OF assms(1)] x assms(4) pk st0_def]
  obtain st1 where c: "smf_sess_collision_replace_complete env s st0 = Some st1"
    "settles env ?u (cu_coll (park e 0 True None ue)) pk st0 st1"
    using complete_effect [OF p(1) assms(2) p(3) _ p(6,7)] p(4) by auto
  have nb: "\<not> cr_bounce (cu_coll (park e 0 True None ue))" using assms(5) by (simp add: park_def)
  obtain acts where acts: "k_log st1 = k_log st @ acts" "settled_by env (cu_coll (park e 0 True None ue)) pk acts"
    using c(2) p(8) by (auto simp: settles_def)
  obtain ue1 where ue1: "k_ues st1 ?u = Some ue1" "cu_coll ue1 = coll_zero"
    using c(2) nb by (auto simp: settles_def colls_def)
  let ?st1 = "upd_ue ?u (set_bounce e) st1"
  have r: "smf_xshard_collision_release env e st = Some ?st1"
    using assms(3-10) x pk c(1) ue1(1)
    by (simp add: smf_xshard_collision_release_def smf_sess_collision_replace_begin_def st0_def [symmetric] Let_def)
  have nopush: "Push_shard shard ev \<notin> set acts" for shard ev
    using acts(2) nb by (auto simp: settled_by_def fail_acts_def split: if_splits)
  have u1: "k_ues ?st1 ?u = Some (set_bounce e ue1)" using ue1(1) by simp
  have b1: "base_ok ?st1" using c(2) by (intro upd_ue_base) (simp_all add: settles_def set_bounce_def)
  have later: "k_log st3 = k_log ?st1 @ [Pfcp_deletion_request s2, Push_shard (ev_reply_shard e) (bounce_event (ev_gnode e) (Some pk2))]"
    if "k_sess ?st1 s2 = Some x2" "cs_ue x2 = ?u" "add_ok env2" "ev_pkbuf e2 = Some pk2" "ce_pfcp_send env2 s2"
      "smf_sess_collision_replace_begin env2 s2 ?u e2 i g t ?st1 = Some (True, st2)"
      "collision_deletion_response env2 True s2 st2 = Some st3"
    for env2 s2 x2 e2 pk2 i g t st2 st3
    using later_request [of ?st1 x2 "set_bounce e ue1" s2 env2 e2 pk2 i g t st2 st3] b1 u1 ue1(2) that
    by (simp add: set_bounce_def coll_zero_def)
  have "\<not> cr_pending (cu_coll (set_bounce e ue1))" using ue1(2) by (simp add: set_bounce_def coll_zero_def)
  then show ?thesis
    using r u1 nopush later acts(1) by (intro exI [of _ ?st1] exI [of _ "set_bounce e ue1"] exI [of _ acts]) auto
qed

theorem failed_resend_misleads_replace_witness:
  "\<exists>st1 acts. smf_xshard_collision_release
       (demo_env\<lparr>ce_pfcp_send := \<lambda>_. False, ce_gtp2_parse := \<lambda>_. Some \<lparr>gm_type = 32, gm_teid_presence = True,
          gm_teid = 0, gm_imsi = None, gm_paa = Some [1, 0, 0, 0, 7]\<rparr>\<rparr>) demo_csr
       (demo_st (demo_sess\<lparr>cs_wait_pfcp_deletion := True, cs_ipv4 := Some 0x07000000\<rparr>)) = Some st1
     \<and> k_log st1 = acts \<and> (\<forall>shard ev. Push_shard shard ev \<notin> set acts)"
proof -
  let ?x = "demo_sess\<lparr>cs_wait_pfcp_deletion := True, cs_ipv4 := Some 0x07000000\<rparr>"
  let ?env = "demo_env\<lparr>ce_pfcp_send := \<lambda>_. False, ce_gtp2_parse := \<lambda>_. Some \<lparr>gm_type = 32, gm_teid_presence = True,
          gm_teid = 0, gm_imsi = None, gm_paa = Some [1, 0, 0, 0, 7]\<rparr>\<rparr>"
  have ok: "weak_ok (demo_st ?x)" by (rule demo_st_ok) (simp_all add: demo_sess_def)
  have env: "add_ok ?env" by (simp add: add_ok_def demo_env_def)
  have old: "xshard_old_sess ?env demo_csr (demo_st ?x) = Some (Some (1, ?x))"
    by (simp add: xshard_old_sess_def demo_csr_def demo_env_def demo_st_def demo_sess_def demo_paa
        smf_sess_find_collision_by_ipv4_gtp2_def coll_owned_by_self_def smf_sess_owner_shard_def OGS_WORKER_ID_BITS_def)
  from failed_resend_misleads_replace [OF ok env old, of "\<lparr>cu_coll = coll_zero, cu_sess_list = [1]\<rparr>"]
  have "\<exists>st1 acts. smf_xshard_collision_release ?env demo_csr (demo_st ?x) = Some st1
      \<and> k_log st1 = k_log (demo_st ?x) @ acts \<and> (\<forall>shard ev. Push_shard shard ev \<notin> set acts)"
    by (simp add: demo_st_def demo_sess_def demo_env_def coll_zero_def smf_sess_upf_established_def) blast
  then show ?thesis by (simp add: demo_st_def)
qed

end
