(* ===== verification/Smf_Home.thy ===== *)
theory Smf_Home
  imports Smf_Route_Props Smf_Collision_Props
begin

text \<open>
  Where the messages of a subscriber end up: messages under an identifier of a shard reach that
  shard, the router and the re-homing of the workers agree about new sessions except where a static
  address is held by another shard, and a message that is re-homed comes to rest, also after the
  handshake of a collision of static addresses.
\<close>

section \<open>Messages under an identifier of a shard\<close>

lemma bswap32_zero [simp]: "bswap32 x = 0 \<longleftrightarrow> x = 0"
proof -
  have "bswap32 0 = 0" by (simp add: bswap32_def)
  then show ?thesis using bswap32_eq_iff [of x 0] by simp
qed

lemma push2_fields:
  assumes "gtp2_has_teid (hd_type h)"
  shows "rd_u8 (gtp2_push_header h xid pl) 0 = Some 72" "rd_u8 (gtp2_push_header h xid pl) 1 = Some (hd_type h)"
    "rd_u32 (gtp2_push_header h xid pl) 4 = Some (bswap32 (hd_teid h))"
    "rd_u32 (gtp2_push_header h xid pl) 8 = Some (OGS_GTP2_XID_TO_SQN xid)"
    "12 \<le> length (gtp2_push_header h xid pl)"
  using assms by (simp_all add: gtp2_push_header_def Let_def rd_u8_def rd_u32_def be_bytes16_def be_bytes32_def
      OGS_GTP2_XID_TO_SQN_def)

lemma push2_octets:
  assumes "gtp2_has_teid (hd_type h)"
  shows "gtp2_push_header h xid pl ! 0 = 72" "gtp2_push_header h xid pl ! Suc 0 = hd_type h"
  using assms by (simp_all add: gtp2_push_header_def Let_def)

lemma initial2:
  assumes "type \<in> set gtp2_initial_types" "type \<noteq> OGS_GTP2_ECHO_REQUEST_TYPE"
  shows "gtp2_has_teid type" "type \<noteq> OGS_GTP2_ECHO_RESPONSE_TYPE"
    "\<not> ogs_gtp2_xact_is_local_reply (ogs_gtp2_xact_get_stage type xid) xid"
  using assms by (auto simp: gtp2_has_teid_def gtp2_initial_types_def ogs_gtp2_xact_get_stage_def
      ogs_gtp2_xact_is_local_reply_def)

lemma request_is_no_reply:
  assumes "hd_type h \<in> set gtp2_initial_types" "hd_type h \<noteq> OGS_GTP2_ECHO_REQUEST_TYPE"
  shows "ogs_gtp2_rx_reply_shard a (gtp2_push_header h xid pl) = Some (-1)"
proof -
  note p = push2_fields [OF initial2(1) [OF assms]] push2_octets [OF initial2(1) [OF assms]]
  show ?thesis
    using initial2(3) [OF assms] p(1,4,6,7)
    by (auto simp: ogs_gtp2_rx_reply_shard_def Let_def)
qed

lemma route2_by_teid:
  assumes "smf_workers_active c" "hd_type h \<in> set gtp2_initial_types" "hd_type h \<noteq> OGS_GTP2_ECHO_REQUEST_TYPE"
    and "hd_teid h \<noteq> 0"
  shows "smf_gtp_route c (gtp2_push_header h xid pl) 2 =
    Some (smf_shard_clamp c (smf_shard_decode_teid (hd_teid h)) (hd_teid h))"
  using assms push2_fields [OF initial2(1) [OF assms(2,3)], of xid pl] initial2(2) [OF assms(2,3)]
    request_is_no_reply [OF assms(2,3)]
  by (simp add: smf_gtp_route_def smf_gtp2_route_def Let_def OGS_GTPV2C_HEADER_LEN_def)

lemma route1_by_teid:
  assumes "smf_workers_active c" "hd_type h \<in> set gtp1_initial_types" "hd_type h \<noteq> OGS_GTP1_ECHO_REQUEST_TYPE"
    and "hd_teid h \<noteq> 0"
  shows "smf_gtp_route c (gtp1_push_header h xid pl) 1 =
    Some (smf_shard_clamp c (smf_shard_decode_teid (hd_teid h)) (hd_teid h))"
proof -
  let ?d = "gtp1_push_header h xid pl"
  have f: "rd_u8 ?d 1 = Some (hd_type h)" "rd_u32 ?d 4 = Some (bswap32 (hd_teid h))" "?d ! Suc 0 = hd_type h"
    by (simp_all add: gtp1_push_header_def rd_u8_def rd_u32_def be_bytes16_def be_bytes32_def)
  have st: "ogs_gtp1_xact_get_stage (hd_type h) y = GTP_XACT_INITIAL_STAGE" for y
    using assms(2) by (simp add: ogs_gtp1_xact_get_stage_def)
  obtain sqn where "rd_u16 ?d 8 = Some sqn"
    by (simp add: gtp1_push_header_def rd_u16_def be_bytes16_def be_bytes32_def)
  then have r: "ogs_gtp1_rx_reply_shard (c_shards_active c) ?d = Some (-1)"
    using f(3) st by (simp add: ogs_gtp1_rx_reply_shard_def Let_def)
  have "hd_type h \<noteq> OGS_GTP1_ECHO_RESPONSE_TYPE" using assms(2) by (auto simp: gtp1_initial_types_def)
  then show ?thesis
    using assms(1,3,4) f(1,2) r by (simp add: smf_gtp_route_def smf_gtp1_route_def Let_def)
qed

text \<open>C35. Messages find the shard that gave out their identifier. For every running shard: a GTPv2 or
  GTPv1 request under a TEID that the shard composed, and a PFCP session message under such a SEID,
  are routed to that shard; so is a PFCP session message without a SEID that answers a request of
  the shard, by the sequence number the shard has drawn.\<close>

theorem messages_reach_owner_shard:
  assumes "c_worker_count c < 16" "smf_workers_active c" "w \<le> c_worker_count c"
    and "smf_shard_compose True w raw = Some teid" "teid \<noteq> 0"
    and "hd_type h2 \<in> set gtp2_initial_types" "hd_type h2 \<noteq> OGS_GTP2_ECHO_REQUEST_TYPE" "hd_teid h2 = teid"
    and "hd_type h1 \<in> set gtp1_initial_types" "hd_type h1 \<noteq> OGS_GTP1_ECHO_REQUEST_TYPE" "hd_teid h1 = teid"
    and "pfcp_parse_header (pfcp_push_header \<lparr>pd_type = t, pd_seid = ucast teid\<rparr> pxid pl) = Some (ph, pl')" "50 \<le> t"
    and "pfcp_xid_on w x = Some rxid"
    and "pfcp_parse_header (pfcp_push_header \<lparr>pd_type = t, pd_seid = 0\<rparr> rxid pl) = Some (ph', pl'')"
  shows "smf_gtp_route c (gtp2_push_header h2 xid pl) 2 = Some (int w)
    \<and> smf_gtp_route c (gtp1_push_header h1 xid pl) 1 = Some (int w)
    \<and> smf_pfcp_route c ph = int w \<and> smf_pfcp_route c ph' = int w"
proof -
  let ?n = "c_worker_count c"
  have w: "w < 16" using assms(1,3) by simp
  have clamp: "smf_shard_clamp c (smf_shard_decode_teid teid) k = int w" for k
    unfolding smf_shard_clamp_def by (rule teid.routed [OF assms(4,3,1)])
  have t: "\<not> smf_pfcp_type_is_node_level t" "t \<notin> set [12, 13, 3, 4]" "pfcp_has_seid t"
    using assms(13) by (auto simp: smf_pfcp_type_is_node_level_def pfcp_has_seid_def word_le_nat_alt)
  have ph: "ph_type ph = t" "ph_seid_presence ph" "ph_seid ph = ucast teid"
    "ph_type ph' = t" "ph_seid_presence ph'" "ph_seid ph' = 0" "ph_sqn ph' = OGS_PFCP_XID_TO_SQN rxid"
    using assms(12,15) t(3) by (auto simp: pfcp_push_parse)
  have nz: "(ucast teid :: u64) \<noteq> 0"
  proof
    assume "(ucast teid :: u64) = 0"
    then have "(ucast (ucast teid :: u64) :: u32) = 0" by simp
    moreover have "(ucast (ucast teid :: u64) :: u32) = teid"
      by (rule bit_word_eqI) (auto simp: bit_simps dest: bit_imp_le_length)
    ultimately show False using assms(5) by simp
  qed
  have "smf_pfcp_route c ph = int w"
    using assms(2) t ph nz clamp seid.routed [of w raw "ucast teid" ?n] assms(1,3,4)
    by (simp add: smf_pfcp_route_def smf_shard_clamp_def)
  moreover have "smf_pfcp_route c ph' = int w"
    using assms(2) t ph pfcp_xid.routed [OF assms(14,3,1)] pfcp_sqn_xid [OF pfcp_xid_shard(2) [OF w assms(14)]]
    by (simp add: smf_pfcp_route_def smf_shard_clamp_def Let_def)
  ultimately show ?thesis
    using route2_by_teid [OF assms(2,6,7)] route1_by_teid [OF assms(2,9,10)] assms(5,8,11) clamp by simp
qed

theorem messages_reach_owner_shard_witness:
  "smf_gtp_route demo_ctx (gtp2_push_header \<lparr>hd_type = 34, hd_teid = 0x20000005\<rparr> 9 []) 2 = Some 2
   \<and> smf_gtp_route demo_ctx (gtp1_push_header \<lparr>hd_type = 18, hd_teid = 0x20000005\<rparr> 9 []) 1 = Some 2"
proof -
  fix st
  let ?env = "pdemo_env\<lparr>pe_shards_active := True, pe_worker_self := Some 1\<rparr>"
  obtain rxid where x: "pfcp_xid_on 2 (?env, st) = Some rxid"
    by (simp add: pfcp_xid_on_def ogs_worker_self_id_def)
  have c: "smf_shard_compose True 2 5 = Some 0x20000005"
    by (simp add: smf_shard_compose_def OGS_WORKER_ID_BITS_def)
  show ?thesis
    using messages_reach_owner_shard [of demo_ctx 2 5 "0x20000005" "\<lparr>hd_type = 34, hd_teid = 0x20000005\<rparr>"
        "\<lparr>hd_type = 18, hd_teid = 0x20000005\<rparr>" 51 7 "[]" _ _ "(?env, st)" rxid _ _ 9] x c
    by (simp add: demo_ctx_def smf_workers_active_def gtp2_initial_types_def gtp1_initial_types_def pfcp_push_parse)
qed

section \<open>New sessions\<close>

lemma owner_of_new_ue:
  assumes "imsi \<noteq> []" "length (bcd_unpack imsi) \<le> 15"
  shows "owner_for_new_ue c imsi = Some (smf_shard_for_new_imsi c (bcd_unpack imsi))"
  using assms unpack_no_null [of imsi]
  by (simp add: owner_for_new_ue_def buffer_to_bcd_unpacks OGS_MAX_IMSI_BCD_LEN_def)

lemma route_by_unpacked:
  assumes "imsi \<noteq> []" "length imsi \<le> OGS_MAX_IMSI_LEN"
  shows "route_by_imsi c (bcd_unpack imsi) =
    Some (if smf_ue_owner_shard_by_imsi c imsi \<ge> 0 then smf_ue_owner_shard_by_imsi c imsi
          else smf_shard_for_new_imsi c (bcd_unpack imsi))"
proof -
  have "(length (bcd_unpack imsi) + 1) div 2 = length imsi"
    using assms(1) length_bcd_pack [of "bcd_unpack imsi"] by (simp add: pack_unpack)
  then show ?thesis
    using assms by (simp add: route_by_imsi_def bcd_to_buffer_packs pack_unpack Let_def)
qed

text \<open>The shard that holds a static address, if any.\<close>

definition static_owner :: "smf_ctx \<Rightarrow> u32 option \<Rightarrow> int" where
  "static_owner c a = (case a of None \<Rightarrow> -1 | Some x \<Rightarrow> smf_sess_owner_shard_by_ipv4 c x)"

text \<open>C36. Where a new session is created. For a Create Session Request without a TEID whose first IMSI
  element has at most 15 digits, the router chooses the shard that owns the subscriber, or else the
  shard the IMSI hashes to. The worker there decides once more from the parsed message. It keeps the
  request, unless the request asks for a static IPv4 address that a session of another shard holds:
  then it re-homes a new subscriber to that shard, and for a subscriber that is known here it sends
  that shard a release request with itself as the shard to reply to, if the request has not been
  through this before.\<close>

theorem new_session_created_where_routed:
  assumes "ctx_ok c" "smf_workers_active c" "list_all ie_ok ies" "find is_imsi_ie ies = Some (t, i, imsi)"
    and "length (bcd_unpack imsi) \<le> 15"
    and "d = gtp2_push_header \<lparr>hd_type = OGS_GTP2_CREATE_SESSION_REQUEST_TYPE, hd_teid = 0\<rparr> xid (concat (map ie_bytes ies))"
    and "ev_pkbuf e = Some d" "gm_type m = OGS_GTP2_CREATE_SESSION_REQUEST_TYPE" "gm_teid m = 0"
    and "gm_imsi m = Some imsi" "csr_static_ipv4 m = Some a"
  shows "\<exists>w. smf_gtp_route c d 2 = Some w \<and> live_shard c w
    \<and> w = (case g_imsi (c_reg c) imsi of
             Some n \<Rightarrow> int (u_owner_shard (g_ue (c_reg c) n)) | None \<Rightarrow> smf_shard_for_new_imsi c (bcd_unpack imsi))
    \<and> smf_worker_rehome_gtp2 c (nat w) e m =
        Some (if static_owner c a < 0 \<or> static_owner c a = w then None
              else if g_imsi (c_reg c) imsi = None
              then Some (static_owner c a, \<lparr>ev_id = ev_id e, ev_gnode = ev_gnode e, ev_pkbuf = Some d,
                           ev_reply_shard = 0, ev_xshard_done = ev_xshard_done e\<rparr>)
              else if ev_xshard_done e then None
              else Some (static_owner c a, \<lparr>ev_id = SMF_EVT_XSHARD_COLLISION, ev_gnode = ev_gnode e,
                           ev_pkbuf = Some d, ev_reply_shard = w, ev_xshard_done = False\<rparr>))"
proof -
  let ?h = "\<lparr>hd_type = OGS_GTP2_CREATE_SESSION_REQUEST_TYPE, hd_teid = 0\<rparr>"
  have "is_imsi_ie (t, i, imsi)" using assms(4) by (metis find_Some_iff)
  then have ne: "imsi \<noteq> []" by simp
  have len: "length imsi \<le> OGS_MAX_IMSI_LEN"
    using length_bcd_unpack [OF ne] assms(5) by (auto simp: OGS_MAX_IMSI_LEN_def OGS_MAX_IMSI_BCD_LEN_def split: if_splits)
  have ty: "hd_type ?h \<in> set gtp2_initial_types" "hd_type ?h \<noteq> OGS_GTP2_ECHO_REQUEST_TYPE"
    by (simp_all add: gtp2_initial_types_def)
  note p = push2_fields [OF initial2(1) [OF ty]] and r = request_is_no_reply [OF ty]
  obtain out where out: "smf_gtpv2_peek_imsi_bcd d (replicate (OGS_MAX_IMSI_BCD_LEN + 1) 0) = Some (OGS_OK, out)"
    "c_str out = bcd_unpack imsi"
    using assms(3,4,5,6) ne len unpack_no_null [of imsi]
    by (simp add: peek_message buffer_to_bcd_unpacks OGS_MAX_IMSI_BCD_LEN_def)
  let ?o = "smf_ue_owner_shard_by_imsi c imsi"
  define w where "w = (if ?o \<ge> 0 then ?o else smf_shard_for_new_imsi c (bcd_unpack imsi))"
  have route: "smf_gtp_route c d 2 = Some w"
    using assms(2) p r out route_by_unpacked [OF ne len, of c]
    by (simp add: smf_gtp_route_def smf_gtp2_route_def Let_def assms(6) w_def)
  have live: "live_shard c w"
    using owner_by_imsi [OF assms(1), of imsi] new_imsi_shard(1) [OF assms(2)] by (simp add: w_def live_shard_def)
  have known: "?o < 0 \<longleftrightarrow> g_imsi (c_reg c) imsi = None"
    using ne by (simp add: smf_ue_owner_shard_by_imsi_def split: option.splits)
  have "w = (case g_imsi (c_reg c) imsi of
             Some n \<Rightarrow> int (u_owner_shard (g_ue (c_reg c) n)) | None \<Rightarrow> smf_shard_for_new_imsi c (bcd_unpack imsi))"
    using ne by (simp add: w_def smf_ue_owner_shard_by_imsi_def split: option.splits)
  note w = route live this
  have go: "smf_worker_rehome_gtp2 c (nat w) e m = rehome_create_session c (nat w) e m"
    using assms(2,7-9) r by (simp add: smf_worker_rehome_gtp2_def assms(6) Let_def)
  have "usable_imsi m = Some imsi" using assms(10) ne len by (simp add: usable_imsi_def)
  then have create: "rehome_create_session c (nat w) e m =
      Some (if static_owner c a < 0 \<or> static_owner c a = w then None
            else if g_imsi (c_reg c) imsi = None then rehome_to_owner (nat w) e (static_owner c a)
            else if ev_xshard_done e then None else xshard_collision_begin e (static_owner c a) w)"
    using assms(11) live owner_of_new_ue [OF ne assms(5), of c]
    by (auto simp: rehome_create_session_def known [symmetric] static_owner_def [symmetric] rehome_to_owner_def Let_def
        w_def live_shard_def not_less)
  have "0 \<le> w" using live by (simp add: live_shard_def)
  then have "smf_worker_rehome_gtp2 c (nat w) e m =
        Some (if static_owner c a < 0 \<or> static_owner c a = w then None
              else if g_imsi (c_reg c) imsi = None
              then Some (static_owner c a, \<lparr>ev_id = ev_id e, ev_gnode = ev_gnode e, ev_pkbuf = Some d,
                           ev_reply_shard = 0, ev_xshard_done = ev_xshard_done e\<rparr>)
              else if ev_xshard_done e then None
              else Some (static_owner c a, \<lparr>ev_id = SMF_EVT_XSHARD_COLLISION, ev_gnode = ev_gnode e,
                           ev_pkbuf = Some d, ev_reply_shard = w, ev_xshard_done = False\<rparr>))"
    using assms(7) unfolding go create by (simp add: rehome_to_owner_def xshard_collision_begin_def)
  with w show ?thesis by blast
qed

text \<open>A subscriber of shard 2 asks for the address 7, which a session of shard 1 holds.\<close>

definition demo_csr_event :: smf_event where
  "demo_csr_event = \<lparr>ev_id = SMF_EVT_S5C_MESSAGE, ev_gnode = 0,
     ev_pkbuf = Some (gtp2_push_header \<lparr>hd_type = OGS_GTP2_CREATE_SESSION_REQUEST_TYPE, hd_teid = 0\<rparr> 9
       (concat (map ie_bytes [(3, 0, [7]), (1, 0, [0x21, 0xF3])]))), ev_reply_shard = 0, ev_xshard_done = False\<rparr>"

definition demo_csr_msg :: gtp_msg where
  "demo_csr_msg = \<lparr>gm_type = OGS_GTP2_CREATE_SESSION_REQUEST_TYPE, gm_teid_presence = True, gm_teid = 0,
     gm_imsi = Some [0x21, 0xF3], gm_paa = Some [1, 7, 0, 0, 0]\<rparr>"

lemma demo_static:
  "csr_static_ipv4 demo_csr_msg = Some (Some 7)" "static_owner demo_ctx (Some 7) = 1"
  by (simp_all add: csr_static_ipv4_def demo_csr_msg_def ogs_paa_to_ip_def rd_u8_def rd_u32_def be_word32_def bswap32_def
      static_owner_def smf_sess_owner_shard_by_ipv4_def demo_ctx_def smf_sess_owner_shard_def OGS_WORKER_ID_BITS_def)

theorem new_session_created_where_routed_witness:
  "\<exists>d. ev_pkbuf demo_csr_event = Some d \<and> smf_gtp_route demo_ctx d 2 = Some 2
     \<and> smf_worker_rehome_gtp2 demo_ctx 2 demo_csr_event demo_csr_msg = Some (Some (1, \<lparr>ev_id = SMF_EVT_XSHARD_COLLISION,
         ev_gnode = 0, ev_pkbuf = Some d, ev_reply_shard = 2, ev_xshard_done = False\<rparr>))"
proof -
  have f: "find is_imsi_ie [(3, 0, [7]), (1, 0, [0x21, 0xF3])] = Some (1, 0, [0x21, 0xF3])" by simp
  have e: "ev_gnode demo_csr_event = 0" "\<not> ev_xshard_done demo_csr_event" by (simp_all add: demo_csr_event_def)
  show ?thesis
    using new_session_created_where_routed [OF demo_ctx_ok _ _ f _ refl _ _ _ _ demo_static(1), where xid = 9
        and e = demo_csr_event] demo_static(2) e
    by (simp add: demo_ctx_def demo_reg_def smf_workers_active_def demo_csr_event_def demo_csr_msg_def del: ie_bytes.simps)
qed

section \<open>Re-homing comes to rest\<close>

text \<open>The decision to re-home does not depend on the worker that takes it: all workers aim at one shard
  (\<open>-1\<close> when the message is processed where it is), or the handshake of a collision starts.\<close>

definition same_message :: "smf_event \<Rightarrow> smf_event \<Rightarrow> bool" where
  "same_message e e2 \<longleftrightarrow> ev_pkbuf e2 = ev_pkbuf e \<and> ev_xshard_done e2 = ev_xshard_done e"

definition starts_handshake :: "smf_ctx \<Rightarrow> smf_event \<Rightarrow> gtp_msg \<Rightarrow> int \<Rightarrow> smf_event \<Rightarrow> bool" where
  "starts_handshake c e m w e' \<longleftrightarrow> \<not> ev_xshard_done e
     \<and> (\<exists>imsi a. usable_imsi m = Some imsi \<and> csr_static_ipv4 m = Some (Some a) \<and> w = smf_sess_owner_shard_by_ipv4 c a
          \<and> 0 \<le> w \<and> 0 \<le> smf_ue_owner_shard_by_imsi c imsi \<and> w \<noteq> smf_ue_owner_shard_by_imsi c imsi
          \<and> e' = \<lparr>ev_id = SMF_EVT_XSHARD_COLLISION, ev_gnode = ev_gnode e, ev_pkbuf = ev_pkbuf e,
                 ev_reply_shard = smf_ue_owner_shard_by_imsi c imsi, ev_xshard_done = False\<rparr>)"

lemma keeps_everything: "rehome_to_owner self e (-1) = None"
  by (simp add: rehome_to_owner_def)

lemma create_decision:
  assumes "rehome_create_session c self e m = Some r"
  shows "(\<exists>owner. \<forall>self2 e2. same_message e e2 \<longrightarrow> rehome_create_session c self2 e2 m = Some (rehome_to_owner self2 e2 owner))
    \<or> (\<exists>w e'. r = Some (w, e') \<and> starts_handshake c e m w e')"
proof (cases "usable_imsi m")
  case None
  then show ?thesis by (auto simp: rehome_create_session_def keeps_everything intro!: exI [of _ "-1"])
next
  case (Some imsi)
  let ?o = "smf_ue_owner_shard_by_imsi c imsi"
  obtain a where a: "csr_static_ipv4 m = Some a"
    using assms Some by (auto simp: rehome_create_session_def Let_def bind_eq_Some_conv)
  consider (crash) "?o \<ge> 0" "static_owner c a \<ge> 0" "static_owner c a \<noteq> ?o" "\<not> ev_xshard_done e"
    | (known) "?o \<ge> 0" "\<not> (static_owner c a \<ge> 0 \<and> static_owner c a \<noteq> ?o \<and> \<not> ev_xshard_done e)"
    | (addr) "?o < 0" "static_owner c a \<ge> 0" | (new) "?o < 0" "static_owner c a < 0"
    by linarith
  then show ?thesis
  proof cases
    case crash
    then obtain x where "a = Some x" by (cases a) (auto simp: static_owner_def)
    then show ?thesis
      using assms Some a crash
      by (auto simp: rehome_create_session_def static_owner_def starts_handshake_def xshard_collision_begin_def Let_def)
  next
    case known
    then show ?thesis using Some a
      by (intro disjI1 exI [of _ ?o])
        (auto simp: rehome_create_session_def static_owner_def [symmetric] same_message_def Let_def)
  next
    case addr
    then show ?thesis using Some a
      by (intro disjI1 exI [of _ "static_owner c a"])
        (auto simp: rehome_create_session_def static_owner_def [symmetric] Let_def)
  next
    case new
    then obtain owner where "owner_for_new_ue c imsi = Some owner"
      using assms Some a by (auto simp: rehome_create_session_def static_owner_def [symmetric] Let_def bind_eq_Some_conv)
    then show ?thesis using Some a new
      by (intro disjI1 exI [of _ owner])
        (auto simp: rehome_create_session_def static_owner_def [symmetric] Let_def)
  qed
qed

lemma rehome_decision:
  assumes "smf_worker_rehome_gtp2 c self e m = Some r"
  shows "(\<exists>owner. \<forall>self2 e2. same_message e e2 \<longrightarrow> smf_worker_rehome_gtp2 c self2 e2 m = Some (rehome_to_owner self2 e2 owner))
    \<or> (\<exists>w e'. r = Some (w, e') \<and> starts_handshake c e m w e')"
proof -
  let ?t = "smf_sess_owner_shard_by_seid c (ucast (gm_teid m))"
  let ?create = "gm_type m = OGS_GTP2_CREATE_SESSION_REQUEST_TYPE \<and> (\<not> gm_teid_presence m \<or> gm_teid m = 0 \<or> ?t < 0)"
  let ?reply = "case ev_pkbuf e of None \<Rightarrow> Some (-1) | Some d \<Rightarrow> ogs_gtp2_rx_reply_shard (c_shards_active c) d"
  consider (off) "\<not> smf_workers_active c"
    | (echo) "smf_workers_active c" "gm_type m = OGS_GTP2_ECHO_REQUEST_TYPE \<or> gm_type m = OGS_GTP2_ECHO_RESPONSE_TYPE"
    | (rest) "smf_workers_active c" "\<not> (gm_type m = OGS_GTP2_ECHO_REQUEST_TYPE \<or> gm_type m = OGS_GTP2_ECHO_RESPONSE_TYPE)"
    by blast
  then show ?thesis
  proof cases
    case off
    then show ?thesis by (intro disjI1 exI [of _ "-1"]) (simp add: smf_worker_rehome_gtp2_def keeps_everything)
  next
    case echo
    then show ?thesis by (intro disjI1 exI [of _ 0]) (simp add: smf_worker_rehome_gtp2_def)
  next
    case rest
    obtain reply where r: "?reply = Some reply"
      using assms rest by (cases ?reply) (simp_all add: smf_worker_rehome_gtp2_def)
    define dec where "dec = (\<lambda>self2 e2. if reply \<ge> 0 then Some None
      else if ?create then rehome_create_session c self2 e2 m
      else Some (rehome_to_owner self2 e2 (if gm_teid_presence m \<and> gm_teid m \<noteq> 0 then ?t else -1)))"
    have all: "smf_worker_rehome_gtp2 c self2 e2 m = dec self2 e2" if "same_message e e2" for self2 e2
      using that rest r unfolding smf_worker_rehome_gtp2_def same_message_def dec_def Let_def by simp
    have "dec self e = Some r" using all [of e self] assms by (simp add: same_message_def)
    then show ?thesis
      using create_decision [of c self e m r] all
      by (cases "reply \<ge> 0"; cases ?create)
        (auto simp: dec_def keeps_everything intro: exI [of _ "-1"] exI [of _ ?t])
  qed
qed

text \<open>C37. Re-homing comes to rest. A message that a worker re-homes carries its packet along and is kept by
  the worker it is sent to, as long as the tables say the same there; or, when it is a Create Session
  Request of a known subscriber for a static address held by another shard and has not been through
  this before, that shard is sent a release request that names the shard of the subscriber as the one
  to reply to. Whatever the collision replace of a shard hands back, in every reachable state, is
  marked: with it no worker starts another handshake, whatever its tables say, and it is re-homed at
  most once more.\<close>

theorem rehoming_comes_to_rest:
  assumes "smf_worker_rehome_gtp2 c self e m = Some (Some (w, e'))" "coll_reach st" "Push_shard shard ev \<in> set (k_log st)"
  shows "ev_pkbuf e' = ev_pkbuf e \<and> (starts_handshake c e m w e'
        \<or> ev_id e' = ev_id e \<and> w \<noteq> int self \<and> smf_worker_rehome_gtp2 c (nat w) e' m = Some None)
    \<and> ev_id ev = SMF_EVT_S5C_MESSAGE
    \<and> (\<forall>c' self' m' w' e''. smf_worker_rehome_gtp2 c' self' ev m' = Some (Some (w', e'')) \<longrightarrow>
        ev_id e'' = SMF_EVT_S5C_MESSAGE \<and> ev_pkbuf e'' = ev_pkbuf ev \<and> smf_worker_rehome_gtp2 c' (nat w') e'' m' = Some None)"
proof -
  have one: "starts_handshake c e m w e' \<or> ev_id e' = ev_id e \<and> ev_pkbuf e' = ev_pkbuf e \<and> w \<noteq> int self
      \<and> smf_worker_rehome_gtp2 c (nat w) e' m = Some None"
    if "smf_worker_rehome_gtp2 c self e m = Some (Some (w, e'))" for c self e m w e'
    using rehome_decision [OF that]
  proof
    assume "\<exists>owner. \<forall>self2 e2. same_message e e2 \<longrightarrow> smf_worker_rehome_gtp2 c self2 e2 m = Some (rehome_to_owner self2 e2 owner)"
    then obtain owner where o: "\<And>self2 e2. same_message e e2 \<Longrightarrow>
      smf_worker_rehome_gtp2 c self2 e2 m = Some (rehome_to_owner self2 e2 owner)" by blast
    have "rehome_to_owner self e owner = Some (w, e')" using o [of e self] that by (simp add: same_message_def)
    then have h: "w = owner" "0 \<le> w" "w \<noteq> int self" "ev_id e' = ev_id e" "same_message e e'"
      by (auto simp: rehome_to_owner_def same_message_def split: if_splits)
    then show ?thesis using o [of e' "nat w"] by (simp add: rehome_to_owner_def same_message_def)
  qed auto
  have ev: "ev_id ev = SMF_EVT_S5C_MESSAGE" "ev_xshard_done ev"
    using reach_pushes [OF assms(2)] assms(3) unfolding marked_pushes_def by blast+
  have "ev_id e'' = SMF_EVT_S5C_MESSAGE \<and> ev_pkbuf e'' = ev_pkbuf ev \<and> smf_worker_rehome_gtp2 c' (nat w') e'' m' = Some None"
    if "smf_worker_rehome_gtp2 c' self' ev m' = Some (Some (w', e''))" for c' self' m' w' e''
    using one [OF that] ev by (simp add: starts_handshake_def)
  moreover have "ev_pkbuf e' = ev_pkbuf e" if "starts_handshake c e m w e'" using that by (auto simp: starts_handshake_def)
  ultimately show ?thesis using one [OF assms(1)] ev(1) by blast
qed

text \<open>The handshake for the request above on shard 1: the session that holds the address is released, and
  the answer of the UPF hands the request back to shard 2.\<close>

lemma demo_handshake:
  fixes e :: smf_event
  assumes "ev_pkbuf e = Some d" "ev_reply_shard e = 2"
  shows "\<exists>st. coll_reach st \<and> Push_shard 2 (bounce_event (ev_gnode e) (Some d)) \<in> set (k_log st)"
proof -
  let ?x = "demo_sess\<lparr>cs_ipv4 := Some 7\<rparr>"
  let ?st1 = "link_new_sess (1, demo_sess) demo_init"
  let ?st2 = "\<lparr>k_ues = [5 \<mapsto> \<lparr>cu_coll = coll_zero, cu_sess_list = [1]\<rparr>], k_sess = [1 \<mapsto> ?x], k_ipv4_hash = [7 \<mapsto> 1], k_log = []\<rparr>"
  have "coll_reach demo_init" unfolding demo_init_def by (rule coll_reach.init)
  moreover have "own_step demo_env demo_init ?st1" by (rule own_step.add) (simp_all add: demo_init_def demo_sess_def)
  ultimately have r1: "coll_reach ?st1" by (rule coll_reach.own [OF _ demo_add_ok(1)])
  have "own_step demo_env ?st1 (upd_sess 1 (\<lambda>x. x\<lparr>cs_ipv4 := Some 7\<rparr>)
    (?st1\<lparr>k_ipv4_hash := (\<lambda>b. if k_ipv4_hash ?st1 b = Some 1 then None else k_ipv4_hash ?st1 b)(7 \<mapsto> 1)\<rparr>))"
    by (rule own_step.address) (simp add: link_new_sess_def)
  then have "own_step demo_env ?st1 ?st2" by (simp add: link_new_sess_def upd_sess_def demo_init_def demo_sess_def)
  with r1 have r2: "coll_reach ?st2" by (rule coll_reach.own [OF _ demo_add_ok(1)])
  have p: "ogs_paa_to_ip [1, 7, 0, 0, 0] = Some (OGS_OK, True, 7)"
    by (simp add: ogs_paa_to_ip_def rd_u8_def rd_u32_def be_word32_def bswap32_def)
  have old: "xshard_old_sess demo_env e ?st2 = Some (Some (1, ?x))"
    by (simp add: xshard_old_sess_def assms(1) demo_env_def demo_sess_def p
        smf_sess_find_collision_by_ipv4_gtp2_def coll_owned_by_self_def smf_sess_owner_shard_def OGS_WORKER_ID_BITS_def)
  let ?ue = "set_bounce e (park e 0 True None \<lparr>cu_coll = coll_zero, cu_sess_list = [1]\<rparr>)"
  let ?x3 = "?x\<lparr>cs_collision_replace := True, cs_wait_pfcp_deletion := True\<rparr>"
  obtain st3 where st3: "smf_xshard_collision_release demo_env e ?st2 = Some st3" "k_ues st3 5 = Some ?ue"
    "k_sess st3 1 = Some ?x3"
    using old assms by (simp add: smf_xshard_collision_release_def demo_defs set_bounce_def)
  have r3: "coll_reach st3" using r2 demo_add_ok(1) own_step.release [OF st3(1)] by (rule coll_reach.own)
  have p3: "k_ues st3 (cs_ue ?x3) = Some ?ue" "cr_pending (cu_coll ?ue)" "cs_collision_replace ?x3" "cs_wait_pfcp_deletion ?x3"
    using st3(2) by (simp_all add: demo_sess_def set_bounce_def park_def)
  obtain pk st4 acts where st4: "cr_pkbuf (cu_coll ?ue) = Some pk"
    "collision_deletion_response demo_env True 1 st3 = Some (if cs_wait_pfcp_deletion ?x3 then st4 else st3)"
    "k_log st4 = k_log st3 @ acts" "settled_by demo_env (cu_coll ?ue) pk acts"
    using deletion_settles [OF reach_weak [OF r3] p3(1,2) demo_add_ok(1) st3(3) p3(3)] by blast
  have "collision_deletion_response demo_env True 1 st3 = Some st4" using st4(2) by simp
  from coll_reach.own [OF r3 demo_add_ok(1) own_step.response [OF this]] have "coll_reach st4" .
  moreover have "Push_shard 2 (bounce_event (ev_gnode e) (Some d)) \<in> set (k_log st4)"
    using st4(1,3,4) assms by (simp add: settled_by_def set_bounce_def park_def)
  ultimately show ?thesis by blast
qed

lemma demo_rehome:
  "\<exists>e'. smf_worker_rehome_gtp2 demo_ctx 2 demo_csr_event demo_csr_msg = Some (Some (1, e')) \<and> ev_reply_shard e' = 2
     \<and> ev_pkbuf e' = ev_pkbuf demo_csr_event"
proof -
  let ?h = "\<lparr>hd_type = OGS_GTP2_CREATE_SESSION_REQUEST_TYPE, hd_teid = 0\<rparr>"
  have "hd_type ?h \<in> set gtp2_initial_types" "hd_type ?h \<noteq> OGS_GTP2_ECHO_REQUEST_TYPE"
    by (simp_all add: gtp2_initial_types_def)
  then have "smf_worker_rehome_gtp2 demo_ctx 2 demo_csr_event demo_csr_msg
      = rehome_create_session demo_ctx 2 demo_csr_event demo_csr_msg"
    using request_is_no_reply [of ?h]
    by (simp add: smf_worker_rehome_gtp2_def demo_csr_event_def demo_csr_msg_def demo_ctx_def smf_workers_active_def Let_def
        del: ie_bytes.simps)
  moreover have "usable_imsi demo_csr_msg = Some [0x21, 0xF3]"
    by (simp add: usable_imsi_def demo_csr_msg_def OGS_MAX_IMSI_LEN_def OGS_MAX_IMSI_BCD_LEN_def)
  moreover have "smf_ue_owner_shard_by_imsi demo_ctx [0x21, 0xF3] = 2"
    by (simp add: smf_ue_owner_shard_by_imsi_def demo_ctx_def demo_reg_def)
  ultimately show ?thesis
    using demo_static by (simp add: rehome_create_session_def static_owner_def xshard_collision_begin_def demo_csr_event_def)
qed

theorem rehoming_comes_to_rest_witness:
  "\<exists>e' st ev. smf_worker_rehome_gtp2 demo_ctx 2 demo_csr_event demo_csr_msg = Some (Some (1, e'))
     \<and> ev_pkbuf e' = ev_pkbuf demo_csr_event \<and> coll_reach st \<and> Push_shard 2 ev \<in> set (k_log st)
     \<and> ev_pkbuf ev = ev_pkbuf demo_csr_event \<and> ev_id ev = SMF_EVT_S5C_MESSAGE
     \<and> (\<forall>c' self' m' w' e''. smf_worker_rehome_gtp2 c' self' ev m' = Some (Some (w', e'')) \<longrightarrow>
          smf_worker_rehome_gtp2 c' (nat w') e'' m' = Some None)"
proof -
  obtain d where d: "ev_pkbuf demo_csr_event = Some d" by (simp add: demo_csr_event_def del: ie_bytes.simps)
  obtain e' where e': "smf_worker_rehome_gtp2 demo_ctx 2 demo_csr_event demo_csr_msg = Some (Some (1, e'))"
    "ev_reply_shard e' = 2" "ev_pkbuf e' = Some d" using demo_rehome d by auto
  obtain st where st: "coll_reach st" "Push_shard 2 (bounce_event (ev_gnode e') (Some d)) \<in> set (k_log st)"
    using demo_handshake [OF e'(3,2)] by blast
  show ?thesis
    using rehoming_comes_to_rest [OF e'(1) st] e'(1) st d
    by (intro exI [of _ e'] exI [of _ st] exI [of _ "bounce_event (ev_gnode e') (Some d)"])
      (auto simp: bounce_event_def)
qed

end
