(* ===== verification/Spec2Isabelle.thy ===== *)
theory Spec2Isabelle
  imports Ogs_Queue Ogs_Worker Ogs_Hash Ogs_Pool Ogs_Timer_Props Ogs_Tlv_Props Gtp_Edge Pfcp_Exchange Smf_Home Smf_Collision_Props
begin

text \<open>
  A verification development for the transport, transaction and sharding core of Pretty5GS, an
  Open5GS fork in C that runs the control plane of a mobile core network.

  \<^bold>\<open>The program.\<close> A network function (MME, SGW-C, SMF, UPF) has a main thread and, since the SMP
  work of this fork, up to 15 worker threads, the shards. A thread sleeps in a poll loop and is
  handed events through a bounded queue (\<open>src/lib/core/ogs-queue.c\<close>, \<open>ogs-worker.c\<close>). Peers are
  spoken to in GTP (\<open>src/lib/gtp\<close>) and PFCP (\<open>src/lib/pfcp\<close>), both request/response protocols over
  UDP; a transaction layer (\<open>xact.c\<close> of each) retransmits requests, recognises repeated ones, and
  matches answers with requests. Objects live in pools with ids (\<open>ogs-pool.h\<close>) and are found through
  hash tables (\<open>ogs-hash.c\<close>); timers are kept in a red-black tree (\<open>ogs-timer.c\<close>, \<open>ogs-rbtree.c\<close>).
  Messages consist of type-length-value elements, which a codec driven by descriptors builds of structures and
  parses into structures (\<open>ogs-tlv.c\<close>, \<open>ogs-tlv-msg.c\<close>). The SMF (\<open>src/src/smf\<close>) keeps a subscriber on one shard; the shard is
  encoded in the identifiers given to peers, and messages are routed, and re-homed after parsing, to
  the shard that owns the subscriber (\<open>smf-shard.c\<close>, \<open>gtp-path.c\<close>, \<open>pfcp-path.c\<close>, \<open>smf-workers.c\<close>,
  \<open>context.c\<close>). A Create request that collides with an existing session waits until the UPF has
  deleted the old session (\<open>collision-replace.c\<close>).

  \<^bold>\<open>Conventions.\<close> Structures are records, enumerations are datatypes, machine integers are words,
  packets are lists of octets. A C function is a function from a state to its results and the new
  state. Where the C code would abort (\<open>ogs_assert\<close>), follow a null pointer or touch memory outside
  of a buffer, the result is \<open>None\<close> of an option type, so a lemma that a call returns \<open>Some\<close> is a
  lemma that it does none of these. Return codes are the datatype \<open>ogs_rv\<close>. What the operating
  system, the parsers of generated code and callbacks do is a field of an environment record that
  the theorems quantify over; hypotheses about it are named in the statements.

  \<^bold>\<open>The theories\<close>, each over the ones it imports:

  \<^item> \<open>Prelude\<close>: return codes, assertions, byte orders, buffers and strings of C, and the lemmas on
    words and lists that the other theories share.
  \<^item> \<open>Ogs_Queue\<close>: the ring buffer of \<open>ogs-queue.c\<close> with its waiting pushes and pops. It refines a list of
    bounded length (locale \<open>bounded_fifo\<close>, with the emptiness hint \<open>hinted_fifo\<close>). A wait is a loop over
    a script of wake-ups (what other threads did, the clock, the result of the wait); it ends because
    the nominally infinite push has a deadline.
  \<^item> \<open>Ogs_Worker\<close>: shard ids in identifiers, and the wake-up protocol of \<open>ogs-worker.c\<close> as a step relation
    of producers and the worker: no wake-up is lost and no event is lost, duplicated or reordered.
  \<^item> \<open>Ogs_Hash\<close>: the chained hash table with growth, iteration and the owner-checked removal; it refines a
    finite map (locale \<open>owner_index\<close>).
  \<^item> \<open>Ogs_Pool\<close>: the pool macros over that hash table refine a pool of free nodes and an id map (locale
    \<open>id_pool\<close>); in every run the id counter keeps the ids apart, so that stale ids find nothing.
  \<^item> \<open>Ogs_Rbtree\<close>, \<open>Ogs_Rbtree_Heap\<close>, \<open>Ogs_Rbtree_Props\<close>: the intrusive red-black tree of \<open>ogs-rbtree.c\<close> on a
    memory of nodes with parent pointers; the relation of the memory to a tree in a context of frames
    (the path to the root); what rotations, recoloring and replacement do to it. Insertion and deletion
    return and keep order, colors and balance. Clients see the tree as a sequence of nodes
    (locale \<open>node_seq\<close>).
  \<^item> \<open>Ogs_Timer\<close>, \<open>Ogs_Timer_Props\<close>: the timer manager of \<open>ogs-timer.c\<close> over that tree and the pool. It refines an
    agenda of deadlines; an expiry calls exactly the due timers, in order, and a callback that deletes
    and adds timers can cut it short.
  \<^item> \<open>Ogs_Tlv\<close>: trees of elements, their lengths, rendering and the block parser of \<open>ogs-tlv.c\<close>. Rendering writes the
    octets of a reference function (\<open>wire\<close>), parsing these gives the elements back, and the parser loop
    returns with every reader of elements that keeps a contract (\<open>reader_ok\<close>).
  \<^item> \<open>Ogs_Tlv_Msg\<close>: \<open>ogs-tlv-msg.c\<close>. A message structure is a memory of presence words and leaf values at the offsets
    that the descriptor gives. \<open>Ogs_Tlv_Safe\<close>: the occurrence counters, kept in the red-black tree above, refine a
    map (locale \<open>tally\<close>), and both parsers return on every packet. \<open>Ogs_Tlv_Value\<close>: the layout of a structure and the values it holds,
    independent of the memory. \<open>Ogs_Tlv_Build\<close>, \<open>Ogs_Tlv_Parse\<close>: building renders the elements of the values,
    parsing stores the values of the elements. \<open>Ogs_Tlv_Bounds\<close>: the parsers write inside of the structure
    only. \<open>Ogs_Tlv_Leak\<close>: a build that meets an element of length 0, at whatever depth, gives up and
    keeps the nodes it has used. \<open>Ogs_Tlv_Props\<close>: the round trip of messages, the safety of
    the parsers, the read behind a packet with a cut header and the nodes lost when a build fails.
  \<^item> \<open>Gtp_Message\<close>, \<open>Xact_Base\<close>, \<open>Gtp_Xact\<close>: headers, message stages, timers and every function of
    \<open>src/lib/gtp/xact.c\<close>. \<open>Gtp_Xact_Inv\<close>, \<open>_Steps\<close>, \<open>_Ops\<close> prove the invariant of the transaction layer and
    that its handlers return; \<open>Gtp_Xact_Pool\<close> relates the free transactions to the free timers, so that a
    creation fails only when the pool of transactions is empty; \<open>Gtp_Xact_Props\<close>, \<open>Gtp_Exchange\<close>, \<open>Gtp_Edge\<close> hold the theorems: the invariant
    over all runs (exhaustion of the pool included), bounded retransmission, repeated requests, late answers, header round trips,
    routing of replies, a whole exchange between two sides, and the failures at the edges (the last
    id, no timer left).
  \<^item> \<open>Xact_Table\<close>, \<open>Pfcp_Message\<close>, \<open>Pfcp_Xact\<close>: the same for \<open>src/lib/pfcp\<close>, stated as a refinement of an
    abstract table of transactions. \<open>Pfcp_Xact_Inv\<close>, \<open>_Ops\<close>, \<open>_Steps\<close>, \<open>_Calls\<close>, \<open>_Pool\<close> are the library of
    lemmas, \<open>Pfcp_Props\<close>, \<open>Pfcp_Behaviour\<close>, \<open>Pfcp_Exchange\<close> the theorems.
  \<^item> \<open>Ogs_Conv\<close>, \<open>Smf_Shard\<close>: BCD digits and packed octets (\<open>ogs-conv.c\<close>), the shard arithmetic and the
    peek for the IMSI in raw packets (\<open>smf-shard.c\<close>), against the grammar of GTPv2 messages.
  \<^item> \<open>Smf_Ue\<close>, \<open>Smf_Ue_Inv\<close>, \<open>Smf_Ue_Props\<close>: the registry of subscribers in \<open>context.c\<close>, with
    \<open>smf_ue_add_by_imsi\<close> and \<open>smf_ue_add_by_supi\<close> as programs whose steps are the critical sections
    under the context lock, so that runs of several shards interleave.
  \<^item> \<open>Smf_Route\<close>, \<open>Smf_Route_Props\<close>, \<open>Smf_Home\<close>: the routers, the re-homing and the posting of events. The
    identifiers that carry a shard share the locale \<open>shard_codec\<close>, interpreted for TEIDs, SEIDs and PFCP
    sequence numbers. Results are live shards; messages come to the shard that gave out their
    identifier; router and worker agree about new sessions unless another shard holds the static address
    asked for; re-homing ends, also for the requests that the collision replace hands back.
  \<^item> \<open>Smf_Collision\<close>: the collision replace with its cross-shard handshake, and the ways in which other parts of
    the SMF tear sessions down (\<open>SMF_SESS_CLEAR\<close> of \<open>context.h\<close>, the administrative detach of
    \<open>smf-sm.c\<close>, the RADIUS disconnect time-out of \<open>radius-path.c\<close>). \<open>Smf_Collision_Inv\<close>: the lists and
    indexes of sessions. \<open>Smf_Collision_Run\<close>: the effect of every operation on the parked requests, the steps
    of the component (\<open>own_step\<close>) and of the teardown (\<open>down_step\<close>), and the states they reach.
    \<open>Smf_Collision_Props\<close>: the life of a parked request, and three paths on which the code fails it.

  \<^bold>\<open>Bounds and fuel.\<close> Loops over lists, chains and packets are structural or have a termination proof.
  The loops over pointers (rebalancing, descent, iteration, expiry) are partial functions whose result is
  \<open>None\<close> when they do not end; the theorems show that they return.
  Waits take the list of wake-ups as an argument; the theorem on the bounded wait shows that a list
  whose clock passes the deadline ends the loop. Compounds nest at most nine levels: the code asserts a depth of at most 8, and
  the recursions of the message codec have the number of levels left as their argument. Retry counters, sequence numbers and indexes keep their width.

  \<^bold>\<open>What is left out.\<close> Threads appear as interleaved steps whose granularity is a critical section, not
  as a memory model. The round trip of messages is for descriptors whose elements have keys of their own and the
  length-value form, as in GTPv2 and PFCP; the safety of the parsers is for all. Elements in a buffer of their own
  (\<open>ogs_tlv_copy\<close>), which only tests use, are left out. The transaction layers see a timer as idle or running with a duration, and its
  expiry as a step; they are not composed with the timer manager. Sockets, memory and packet buffers are operating-system
  interfaces. The codecs of NAS, S1AP, NGAP, the TLV descriptors and structures of GTP and PFCP and the OpenAPI
  models are generated from the 3GPP documents, Diameter and the data base are glue over libraries,
  and the ciphers are third-party code. The state machines of the network functions beyond the parts of
  the SMF above, and the bodies of \<open>smf_sess_add_by_gtp2_message\<close> and of the GSM state machine that
  the collision replace calls, are parameters or not modelled.
\<close>

end
